(* ===== verification/Prelude.thy ===== *)
theory Prelude
  imports Main "HOL-Library.Word"
begin

text \<open>
  Shared vocabulary of the development: results of fallible Rust code, byte strings, the
  collections of simplification rules, and the generic facts on lists, sorting positions and
  finite relations that several components use.
\<close>

section \<open>Collections\<close>

named_theorems table_simps
  \<open>effect of the operations on the tables of the action queue\<close>

named_theorems ts_simps
  \<open>documented effect of the operations of the topological sorter\<close>

section \<open>Types\<close>

type_synonym u8 = "8 word"
type_synonym bytes = "u8 list"

text \<open>\<open>Result\<close>: \<open>Inl\<close> is \<open>Err\<close>, \<open>Inr\<close> is \<open>Ok\<close>.\<close>

abbreviation Err :: "'e \<Rightarrow> 'e + 'a" where "Err \<equiv> Inl"
abbreviation Ok :: "'a \<Rightarrow> 'e + 'a" where "Ok \<equiv> Inr"

definition is_ok :: "'e + 'a \<Rightarrow> bool" where
  "is_ok r = (case r of Inl _ \<Rightarrow> False | Inr _ \<Rightarrow> True)"

lemma is_ok_simps [simp]: "is_ok (Ok x)" "\<not> is_ok (Err e)"
  by (simp_all add: is_ok_def)

section \<open>Order of two elements in a list\<close>

definition precedes :: "'a \<Rightarrow> 'a \<Rightarrow> 'a list \<Rightarrow> bool" where
  "precedes p s xs = (\<exists>us vs. xs = us @ vs \<and> p \<in> set us \<and> s \<in> set vs)"

lemma precedes_ConsI: "precedes p s xs \<Longrightarrow> precedes p s (x # xs)"
  unfolding precedes_def by (metis append_Cons list.set_intros(2))

lemma precedes_head: "s \<in> set xs \<Longrightarrow> precedes p s (p # xs)"
  unfolding precedes_def by (rule exI [of _ "[p]"]) simp

lemma precedes_in_set:
  assumes "precedes p s xs"
  shows "p \<in> set xs" and "s \<in> set xs"
  using assms unfolding precedes_def by auto

lemma precedes_index:
  assumes "precedes p s xs"
  shows "\<exists>i j. i < j \<and> j < length xs \<and> xs ! i = p \<and> xs ! j = s"
proof -
  from assms obtain us vs where xs: "xs = us @ vs" and p: "p \<in> set us" and s: "s \<in> set vs"
    unfolding precedes_def by blast
  from p obtain i where i: "i < length us" "us ! i = p" by (auto simp: in_set_conv_nth)
  from s obtain j where j: "j < length vs" "vs ! j = s" by (auto simp: in_set_conv_nth)
  from i j xs have "i < length us + j \<and> length us + j < length xs \<and> xs ! i = p
      \<and> xs ! (length us + j) = s"
    by (simp add: nth_append)
  then show ?thesis by blast
qed

section \<open>Looking up rows\<close>

lemma find_append: "find P (xs @ ys) = (case find P xs of None \<Rightarrow> find P ys | Some x \<Rightarrow> Some x)"
  by (induction xs) simp_all

lemma find_filter_key:
  "find (\<lambda>x. k x = i) (filter (\<lambda>x. k x \<notin> G) xs) = (if i \<in> G then None else find (\<lambda>x. k x = i) xs)"
  by (induction xs) auto

lemma find_map_key:
  assumes "\<And>x. k (f x) = k x"
  shows "find (\<lambda>x. k x = i) (map f xs) = map_option f (find (\<lambda>x. k x = i) xs)"
  by (induction xs) (simp_all add: assms)

section \<open>Relations\<close>

text \<open>
  Adding edges that leave one node \<open>s\<close> keeps a relation acyclic exactly when \<open>s\<close> does not
  reach itself afterwards.
\<close>

lemma trancl_avoid_or_through:
  assumes "(x, y) \<in> new\<^sup>+" and sub: "new \<subseteq> old \<union> {s} \<times> UNIV"
  shows "(x, y) \<in> old\<^sup>+ \<or> ((x, s) \<in> new\<^sup>* \<and> (s, y) \<in> new\<^sup>+)"
  using assms(1)
proof (induction rule: trancl_induct)
  case (base y)
  show ?case
  proof (cases "x = s")
    case True
    with base show ?thesis by auto
  next
    case False
    with base sub have "(x, y) \<in> old" by auto
    then show ?thesis by auto
  qed
next
  case (step y z)
  show ?case
  proof (cases "y = s")
    case True
    with step.hyps show ?thesis by (auto intro: trancl_into_rtrancl)
  next
    case False
    with step.hyps sub have "(y, z) \<in> old" by auto
    with step.IH step.hyps show ?thesis by (auto intro: trancl_into_trancl)
  qed
qed

lemma acyclic_extend_from:
  assumes "acyclic old" and "new \<subseteq> old \<union> {s} \<times> UNIV" and "(s, s) \<notin> new\<^sup>+"
  shows "acyclic new"
proof (rule acyclicI, intro allI notI)
  fix x assume cyc: "(x, x) \<in> new\<^sup>+"
  from trancl_avoid_or_through [OF cyc assms(2)] assms(1)
  have "(x, s) \<in> new\<^sup>*" and "(s, x) \<in> new\<^sup>+" by (auto simp: acyclic_def)
  then have "(s, s) \<in> new\<^sup>+" by (rule_tac trancl_rtrancl_trancl)
  with assms(3) show False by simp
qed

lemma acyclic_mono: "acyclic r \<Longrightarrow> s \<subseteq> r \<Longrightarrow> acyclic s"
  by (rule acyclic_subset)

end
