(* ===== verification/Action_Types.thy ===== *)
theory Action_Types
  imports Prelude
begin

text \<open>
  The data of the action queue, from \<open>shared/action-queue/src/action.rs\<close> and the struct
  declarations of \<open>db.rs\<close> and \<open>queue.rs\<close>: identifiers, priorities and their SQL encoding,
  dependency keys, metadata and its builder, the \<open>Action\<close> and \<open>Handler\<close> traits as a record of
  what an implementation supplies, and the factory that decodes stored actions.

  The types of all registered actions are one payload type \<open>'a\<close>, their error types one type
  \<open>'e\<close>, their outputs one type \<open>'o\<close>; \<open>'d\<close> is everything the handlers act on (the
  application's own tables and the server). Handlers do not write the queue's own tables.
  Times are nanoseconds since the Unix epoch.
\<close>

section \<open>Identifiers\<close>

type_synonym action_id = nat
type_synonym type_id = string
type_synonym action_group = string
type_synonym action_dependency_key = string
type_synonym timestamp = int

definition default_group :: action_group where
  "default_group = ''DEFAULT_GROUP''"

section \<open>Values stored in SQL columns\<close>

datatype from_sql_error = OutOfRange int

text \<open>\<open>u8::column_result\<close> on an integer column.\<close>

definition u8_column_result :: "int \<Rightarrow> from_sql_error + u8" where
  "u8_column_result v = (if 0 \<le> v \<and> v < 256 then Ok (word_of_int v) else Err (OutOfRange v))"

datatype priority = Highest | High | Normal | Low | Lowest

fun priority_repr :: "priority \<Rightarrow> u8" where
  "priority_repr Highest = 0"
| "priority_repr High = 1"
| "priority_repr Normal = 2"
| "priority_repr Low = 3"
| "priority_repr Lowest = 4"

text \<open>The derived \<open>TryFrom<u8>\<close> of \<open>#[try_from(repr)]\<close>.\<close>

definition priority_try_from :: "u8 \<Rightarrow> priority option" where
  "priority_try_from v =
     (if v = 0 then Some Highest else if v = 1 then Some High else if v = 2 then Some Normal
      else if v = 3 then Some Low else if v = 4 then Some Lowest else None)"

definition priority_to_sql :: "priority \<Rightarrow> int" where
  "priority_to_sql p = uint (priority_repr p)"

definition priority_column_result :: "int \<Rightarrow> from_sql_error + priority" where
  "priority_column_result v =
     (case u8_column_result v of
        Inl e \<Rightarrow> Err e
      | Inr w \<Rightarrow> (case priority_try_from w of
            Some p \<Rightarrow> Ok p
          | None \<Rightarrow> Err (OutOfRange (uint w))))"

datatype dependency_type = Required | Optional

definition dependency_type_to_sql :: "dependency_type \<Rightarrow> int" where
  "dependency_type_to_sql t = (case t of Required \<Rightarrow> 0 | Optional \<Rightarrow> 1)"

definition dependency_type_column_result :: "int \<Rightarrow> from_sql_error + dependency_type" where
  "dependency_type_column_result v =
     (case u8_column_result v of
        Inl e \<Rightarrow> Err e
      | Inr w \<Rightarrow> if w = 0 then Ok Required else if w = 1 then Ok Optional
                 else Err (OutOfRange (uint w)))"

lemma priority_order: "priority_to_sql p \<le> priority_to_sql q \<longleftrightarrow> priority_repr p \<le> priority_repr q"
  by (simp add: priority_to_sql_def word_le_def)

section \<open>Dependencies and metadata\<close>

record action_dependency =
  dependency_id :: action_id
  dependency_kind :: dependency_type

definition dep_required :: "action_id \<Rightarrow> action_dependency" where
  "dep_required i = \<lparr> dependency_id = i, dependency_kind = Required \<rparr>"

definition dep_optional :: "action_id \<Rightarrow> action_dependency" where
  "dep_optional i = \<lparr> dependency_id = i, dependency_kind = Optional \<rparr>"

record action_dependency_keys =
  required_keys :: "action_dependency_key list"
  optional_keys :: "action_dependency_key list"
  record_keys :: "action_dependency_key list"

definition default_keys :: action_dependency_keys where
  "default_keys = \<lparr> required_keys = [], optional_keys = [], record_keys = [] \<rparr>"

type_synonym action_resources = "bytes list"

text \<open>\<open>self.0[index]\<close> panics out of range (\<open>None\<close>); decoding is a parameter.\<close>

definition resources_get :: "(bytes \<Rightarrow> 'err + 'x) \<Rightarrow> action_resources \<Rightarrow> nat \<Rightarrow> ('err + 'x) option" where
  "resources_get decode rs i = (if i < length rs then Some (decode (rs ! i)) else None)"

record metadata =
  md_dependencies :: "action_dependency list"
  md_debug_string :: "string option"
  md_resources :: action_resources
  md_created :: timestamp
  md_priority_override :: "priority option"
  md_delay :: "nat option"
  md_group_override :: "action_group option"

definition metadata_default :: "timestamp \<Rightarrow> metadata" where
  "metadata_default now =
     \<lparr> md_dependencies = [], md_debug_string = None, md_resources = [], md_created = now,
       md_priority_override = None, md_delay = None, md_group_override = None \<rparr>"

subsection \<open>The builder\<close>

definition builder_new :: "timestamp \<Rightarrow> metadata" where
  "builder_new now = metadata_default now"

definition with_debug_string :: "string \<Rightarrow> metadata \<Rightarrow> metadata" where
  "with_debug_string s m = m\<lparr> md_debug_string := Some s \<rparr>"

definition with_resource :: "('x \<Rightarrow> 'err + bytes) \<Rightarrow> 'x \<Rightarrow> metadata \<Rightarrow> 'err + metadata" where
  "with_resource to_vec r m =
     (case to_vec r of
        Inl e \<Rightarrow> Err e
      | Inr b \<Rightarrow> Ok (m\<lparr> md_resources := md_resources m @ [b] \<rparr>))"

definition with_optional_dependency :: "action_id \<Rightarrow> metadata \<Rightarrow> metadata" where
  "with_optional_dependency i m = m\<lparr> md_dependencies := md_dependencies m @ [dep_optional i] \<rparr>"

definition with_optional_dependencies :: "action_id list \<Rightarrow> metadata \<Rightarrow> metadata" where
  "with_optional_dependencies is m = m\<lparr> md_dependencies := md_dependencies m @ map dep_optional is \<rparr>"

definition builder_with_dependency :: "action_id \<Rightarrow> metadata \<Rightarrow> metadata" where
  "builder_with_dependency i m = m\<lparr> md_dependencies := md_dependencies m @ [dep_required i] \<rparr>"

definition with_dependencies :: "action_id list \<Rightarrow> metadata \<Rightarrow> metadata" where
  "with_dependencies is m = m\<lparr> md_dependencies := md_dependencies m @ map dep_required is \<rparr>"

definition with_creation_time :: "timestamp \<Rightarrow> metadata \<Rightarrow> metadata" where
  "with_creation_time t m = m\<lparr> md_created := t \<rparr>"

definition with_priority_override :: "priority \<Rightarrow> metadata \<Rightarrow> metadata" where
  "with_priority_override p m = m\<lparr> md_priority_override := Some p \<rparr>"

definition with_delay :: "nat \<Rightarrow> metadata \<Rightarrow> metadata" where
  "with_delay d m = m\<lparr> md_delay := Some d \<rparr>"

definition with_group_override :: "action_group \<Rightarrow> metadata \<Rightarrow> metadata" where
  "with_group_override g m = m\<lparr> md_group_override := Some g \<rparr>"

definition metadata_with_dependency :: "timestamp \<Rightarrow> action_id \<Rightarrow> metadata" where
  "metadata_with_dependency now i = builder_with_dependency i (builder_new now)"

lemmas builder_defs = builder_new_def metadata_default_def with_debug_string_def with_resource_def
  with_optional_dependency_def with_optional_dependencies_def builder_with_dependency_def
  with_dependencies_def with_creation_time_def with_priority_override_def with_delay_def
  with_group_override_def metadata_with_dependency_def

section \<open>Stored actions\<close>

record stored_action =
  sa_id :: "action_id option"
  sa_action_type :: type_id
  sa_debug_string :: "string option"
  sa_dependencies :: "action_dependency list"
  sa_created :: timestamp
  sa_priority :: priority
  sa_scheduled :: timestamp
  sa_state :: bytes
  sa_action_group :: action_group
  sa_resources :: action_resources
  sa_version :: nat
  sa_retries :: nat
  sa_dependency_keys :: action_dependency_keys

text \<open>
  \<open>self.id.unwrap()\<close>. The \<open>None\<close> branch is a panic in Rust; ids are \<open>Some\<close> once an action was
  saved or loaded (\<open>save_id\<close> and \<open>load_id\<close> of the table theory), and no row has id 0.
\<close>

definition unwrap_id :: "stored_action \<Rightarrow> action_id" where
  "unwrap_id s = (case sa_id s of Some i \<Rightarrow> i | None \<Rightarrow> 0)"

record queued_metadata =
  qm_id :: action_id
  qm_action_type :: type_id
  qm_version :: nat
  qm_created :: timestamp
  qm_scheduled :: timestamp
  qm_priority :: priority
  qm_dependencies :: "action_dependency list"
  qm_debug_string :: "string option"
  qm_resources :: action_resources
  qm_action_group :: action_group

definition queued_metadata_of :: "stored_action \<Rightarrow> queued_metadata" where
  "queued_metadata_of s =
     \<lparr> qm_id = unwrap_id s, qm_action_type = sa_action_type s, qm_version = sa_version s,
       qm_created = sa_created s, qm_scheduled = sa_scheduled s, qm_priority = sa_priority s,
       qm_dependencies = sa_dependencies s, qm_debug_string = sa_debug_string s,
       qm_resources = sa_resources s, qm_action_group = sa_action_group s \<rparr>"

section \<open>Action types and their handlers\<close>

datatype requeue_reason = NetworkFailed | GuardExpired | LostContext

datatype factory_error =
    UnknownType action_id type_id
  | InvalidVersion nat
  | DeserializeError
  | VersionConverterError
  | AlreadyRegistered type_id

type_synonym rebase_change_set = "string list"

text \<open>
  What an implementation of \<open>Action\<close> with its \<open>Handler\<close>, \<open>VersionConverter\<close> and \<open>Error\<close>
  supplies. \<open>act_handler_type\<close> is the \<open>TypeId\<close> of the handler, which the factory's downcast
  compares. A handler gets the payload mutably: it returns the changed payload.
\<close>

record ('a, 'd, 'e, 'o) action_def =
  act_type :: type_id
  act_group :: action_group
  act_version :: nat
  act_priority :: priority
  act_max_retries :: "nat option"
  act_handler_type :: nat
  act_convert :: "nat \<Rightarrow> nat \<Rightarrow> bytes \<Rightarrow> factory_error + 'a"
  act_serialize :: "'a \<Rightarrow> bytes option"
  act_dependency_keys :: "'a \<Rightarrow> action_dependency_keys"
  act_can_requeue :: "'e \<Rightarrow> requeue_reason option"
  act_apply_local :: "action_id \<Rightarrow> 'a \<Rightarrow> 'd \<Rightarrow> ('e + 'o) \<times> 'a \<times> 'd"
  act_revert_local :: "action_id \<Rightarrow> 'a \<Rightarrow> 'd \<Rightarrow> ('e + unit) \<times> 'a \<times> 'd"
  act_apply_remote :: "action_id \<Rightarrow> 'a \<Rightarrow> 'd \<Rightarrow> ('e + 'o) \<times> 'a \<times> 'd"
  act_rebase_local :: "action_id \<Rightarrow> 'a \<Rightarrow> rebase_change_set \<Rightarrow> 'd \<Rightarrow> ('e + unit) \<times> 'a \<times> 'd"

text \<open>The default version converter; \<open>deserialize\<close> is \<open>rmp_serde::from_slice\<close>.\<close>

definition default_version_convert ::
    "(bytes \<Rightarrow> 'a option) \<Rightarrow> nat \<Rightarrow> nat \<Rightarrow> bytes \<Rightarrow> factory_error + 'a" where
  "default_version_convert deserialize old_version current_version data =
     (if old_version = current_version
      then (case deserialize data of Some a \<Rightarrow> Ok a | None \<Rightarrow> Err DeserializeError)
      else Err (InvalidVersion current_version))"

record ('a, 'd, 'e, 'o) queued_action =
  qa_id :: action_id
  qa_action :: 'a
  qa_def :: "('a, 'd, 'e, 'o) action_def"

section \<open>The factory\<close>

type_synonym ('a, 'd, 'e, 'o) factory = "type_id \<rightharpoonup> ('a, 'd, 'e, 'o) action_def"

definition factory_new :: "('a, 'd, 'e, 'o) factory" where
  "factory_new = Map.empty"

definition factory_handler ::
    "('a, 'd, 'e, 'o) factory \<Rightarrow> ('a, 'd, 'e, 'o) action_def \<Rightarrow> ('a, 'd, 'e, 'o) action_def option" where
  "factory_handler f T =
     (case f (act_type T) of
        None \<Rightarrow> None
      | Some A \<Rightarrow> if act_handler_type A = act_handler_type T then Some A else None)"

definition factory_register ::
    "('a, 'd, 'e, 'o) action_def \<Rightarrow> ('a, 'd, 'e, 'o) factory
     \<Rightarrow> (factory_error + unit) \<times> ('a, 'd, 'e, 'o) factory" where
  "factory_register T f =
     (case f (act_type T) of
        Some _ \<Rightarrow> (Err (AlreadyRegistered (act_type T)), f)
      | None \<Rightarrow> (Ok (), f(act_type T \<mapsto> T)))"

definition factory_register_or_replace ::
    "('a, 'd, 'e, 'o) action_def \<Rightarrow> ('a, 'd, 'e, 'o) factory \<Rightarrow> ('a, 'd, 'e, 'o) factory" where
  "factory_register_or_replace T f = f(act_type T \<mapsto> T)"

text \<open>The decoder closure stored with each registered type.\<close>

definition factory_decoder ::
    "('a, 'd, 'e, 'o) action_def \<Rightarrow> stored_action
     \<Rightarrow> factory_error + ('a, 'd, 'e, 'o) queued_action \<times> queued_metadata" where
  "factory_decoder T s =
     (case act_convert T (sa_version s) (act_version T) (sa_state s) of
        Inl e \<Rightarrow> Err e
      | Inr a \<Rightarrow> Ok (\<lparr> qa_id = unwrap_id s, qa_action = a, qa_def = T \<rparr>, queued_metadata_of s))"

definition factory_decode ::
    "('a, 'd, 'e, 'o) factory \<Rightarrow> stored_action
     \<Rightarrow> factory_error + ('a, 'd, 'e, 'o) queued_action \<times> queued_metadata" where
  "factory_decode f s =
     (case f (sa_action_type s) of
        None \<Rightarrow> Err (UnknownType (unwrap_id s) (sa_action_type s))
      | Some T \<Rightarrow> factory_decoder T s)"

lemma factory_decode_Ok:
  assumes "factory_decode f s = Ok (q, m)"
  shows "qa_id q = unwrap_id s" and "m = queued_metadata_of s"
    and "\<exists>T. f (sa_action_type s) = Some T \<and> qa_def q = T"
  using assms by (auto simp: factory_decode_def factory_decoder_def split: option.splits sum.splits)

section \<open>Properties\<close>

lemma priority_try_from_repr: "priority_try_from (priority_repr p) = Some p"
  by (cases p) (simp_all add: priority_try_from_def)

lemma priority_try_from_Some: "priority_try_from w = Some p \<Longrightarrow> w = priority_repr p"
  by (auto simp: priority_try_from_def split: if_splits)

lemma u8_column_result_uint: "u8_column_result (uint w) = Ok w"
proof -
  have "uint w < 256" using uint_lt2p [of w] by simp
  then show ?thesis by (simp add: u8_column_result_def)
qed

lemma u8_column_result_Ok: "u8_column_result v = Ok w \<Longrightarrow> v = uint w"
  by (auto simp: u8_column_result_def uint_word_of_int split: if_splits)

lemma priority_column_result_Ok:
  "priority_column_result v = Ok p \<longleftrightarrow> v = priority_to_sql p"
proof
  assume "priority_column_result v = Ok p"
  then obtain w where "u8_column_result v = Ok w" and "priority_try_from w = Some p"
    by (auto simp: priority_column_result_def split: sum.splits option.splits)
  then show "v = priority_to_sql p"
    by (simp add: u8_column_result_Ok priority_try_from_Some priority_to_sql_def)
next
  assume "v = priority_to_sql p"
  then show "priority_column_result v = Ok p"
    by (simp add: priority_column_result_def priority_to_sql_def u8_column_result_uint
        priority_try_from_repr)
qed

lemma dependency_type_roundtrip:
  "dependency_type_column_result (dependency_type_to_sql t) = Ok t"
  by (cases t) (simp_all add: dependency_type_column_result_def dependency_type_to_sql_def
      u8_column_result_def)

text \<open>A registered type decodes what it serialised, when its converter reads its own format.\<close>

lemma factory_register_decode:
  assumes "f (act_type T) = None" and "snd (factory_register T f) = f'"
    and "sa_action_type s = act_type T"
    and "act_convert T (sa_version s) (act_version T) (sa_state s) = Ok a"
  shows "factory_decode f' s = Ok (\<lparr> qa_id = unwrap_id s, qa_action = a, qa_def = T \<rparr>, queued_metadata_of s)"
  using assms by (auto simp: factory_register_def factory_decode_def factory_decoder_def)

end
