(* ===== verification/Action_Db.thy ===== *)
theory Action_Db
  imports Action_Types
begin

text \<open>
  The tables of the action queue and the operations of \<open>shared/action-queue/src/db.rs\<close> on them.
  A table is the list of its rows; an SQL statement is a filter, a map or an append on that
  list, with the schema of \<open>db/migrations\<close>: the foreign keys onto \<open>action_queue\<close> cascade on
  delete, ids come from \<open>AUTOINCREMENT\<close>. Two things SQL and Rust leave open are parameters:
  \<open>pick\<close>, which row of equal rank \<open>LIMIT 1\<close> returns, and \<open>hs\<close>, the order in which a \<open>HashSet\<close>
  is iterated. Failures of the storage itself (I/O) are not modelled; violated constraints are.
\<close>

section \<open>Tables\<close>

record action_row =
  ar_id :: action_id
  ar_action_type :: type_id
  ar_debug_string :: "string option"
  ar_created :: timestamp
  ar_priority :: priority
  ar_scheduled :: timestamp
  ar_state :: bytes
  ar_action_group :: action_group
  ar_version :: nat
  ar_retries :: nat

record dep_row =
  dr_action :: action_id
  dr_dependency :: action_id
  dr_type :: dependency_type

text \<open>The column \<open>acquired_at\<close> holds a timestamp or the integer 0.\<close>

datatype sql_time = SqlZero | SqlTime timestamp

record lock_row =
  lk_action :: action_id
  lk_executor :: "string option"
  lk_acquired :: sql_time
  lk_permit :: nat

record queue_db =
  actions :: "action_row list"
  next_id :: action_id
  deps :: "dep_row list"
  locks :: "lock_row list"
  key_deps :: "(action_dependency_key \<times> action_id) list"
  resources :: "(action_id \<times> action_resources) list"

definition empty_db :: queue_db where
  "empty_db = \<lparr> actions = [], next_id = 1, deps = [], locks = [], key_deps = [], resources = [] \<rparr>"

datatype stash_error = QueryReturnedNoRows | ConstraintViolation | NoRowsUpdated | CustomError

text \<open>The state a write transaction works on: the queue's tables and the rest.\<close>

record 'd store =
  qdb :: queue_db
  app :: 'd

text \<open>\<open>Tether::write_tx\<close>: an error rolls everything back.\<close>

definition write_tx :: "('s \<Rightarrow> ('e + 'x) \<times> 's) \<Rightarrow> 's \<Rightarrow> ('e + 'x) \<times> 's" where
  "write_tx f s = (case f s of (Inl e, _) \<Rightarrow> (Err e, s) | (Inr x, s') \<Rightarrow> (Ok x, s'))"

text \<open>The same for a closure with a loop that may not end (\<open>None\<close>).\<close>

definition write_tx_opt :: "('s \<Rightarrow> (('e + 'x) \<times> 's) option) \<Rightarrow> 's \<Rightarrow> (('e + 'x) \<times> 's) option" where
  "write_tx_opt f s =
     map_option (\<lambda>r. case r of (Inl e, _) \<Rightarrow> (Err e, s) | (Inr x, s') \<Rightarrow> (Ok x, s')) (f s)"

section \<open>Queries\<close>

definition ids :: "queue_db \<Rightarrow> action_id set" where
  "ids db = ar_id ` set (actions db)"

definition find_row :: "action_id \<Rightarrow> queue_db \<Rightarrow> action_row option" where
  "find_row i db = find (\<lambda>r. ar_id r = i) (actions db)"

definition pending_count :: "queue_db \<Rightarrow> nat" where
  "pending_count db = length (actions db)"

definition type_count :: "type_id \<Rightarrow> queue_db \<Rightarrow> nat" where
  "type_count t db = length (filter (\<lambda>r. ar_action_type r = t) (actions db))"

definition db_contains :: "action_id \<Rightarrow> queue_db \<Rightarrow> bool" where
  "db_contains i db = (find_row i db \<noteq> None)"

definition find_next_action :: "(action_row list \<Rightarrow> action_row option) \<Rightarrow> type_id \<Rightarrow> queue_db \<Rightarrow> action_id option" where
  "find_next_action pick t db =
     (let rs = filter (\<lambda>r. ar_action_type r = t) (actions db)
      in map_option ar_id (pick (filter (\<lambda>r. \<forall>q \<in> set rs. ar_created r \<le> ar_created q) rs)))"

definition all_dependencies :: "action_id \<Rightarrow> queue_db \<Rightarrow> action_dependency list" where
  "all_dependencies i db =
     map (\<lambda>d. \<lparr> dependency_id = dr_dependency d, dependency_kind = dr_type d \<rparr>)
       (filter (\<lambda>d. dr_action d = i) (deps db))"

definition all_dependees :: "action_id \<Rightarrow> queue_db \<Rightarrow> action_dependency list" where
  "all_dependees i db =
     map (\<lambda>d. \<lparr> dependency_id = dr_dependency d, dependency_kind = dr_type d \<rparr>)
       (filter (\<lambda>d. dr_dependency d = i) (deps db))"

definition dependees_of_type :: "action_id \<Rightarrow> dependency_type \<Rightarrow> queue_db \<Rightarrow> action_id list" where
  "dependees_of_type i t db =
     remdups (map dr_action (filter (\<lambda>d. dr_dependency d = i \<and> dr_type d = t) (deps db)))"

text \<open>\<open>after_load\<close>: the dependencies and resources of a loaded row.\<close>

definition after_load :: "queue_db \<Rightarrow> stored_action \<Rightarrow> stored_action" where
  "after_load db s =
     (let s1 = s\<lparr> sa_dependencies := sa_dependencies s @ all_dependencies (unwrap_id s) db \<rparr>
      in case map_of (resources db) (unwrap_id s) of
           Some r \<Rightarrow> s1\<lparr> sa_resources := r \<rparr>
         | None \<Rightarrow> s1)"

definition from_row :: "action_row \<Rightarrow> stored_action" where
  "from_row r =
     \<lparr> sa_id = Some (ar_id r), sa_action_type = ar_action_type r,
       sa_debug_string = ar_debug_string r, sa_dependencies = [], sa_created = ar_created r,
       sa_priority = ar_priority r, sa_scheduled = ar_scheduled r, sa_state = ar_state r,
       sa_action_group = ar_action_group r, sa_resources = [], sa_version = ar_version r,
       sa_retries = ar_retries r, sa_dependency_keys = default_keys \<rparr>"

definition load :: "action_id \<Rightarrow> queue_db \<Rightarrow> stored_action option" where
  "load i db = map_option (\<lambda>r. after_load db (from_row r)) (find_row i db)"

section \<open>Execution locks\<close>

record execution_guard =
  eg_action :: action_id
  eg_permit :: nat

datatype execution_guard_error = Expired | StashFailed stash_error

definition lock_of :: "action_id \<Rightarrow> queue_db \<Rightarrow> lock_row option" where
  "lock_of i db = find (\<lambda>l. lk_action l = i) (locks db)"

definition has_executor :: "action_id \<Rightarrow> queue_db \<Rightarrow> bool" where
  "has_executor i db = (case lock_of i db of Some l \<Rightarrow> lk_executor l \<noteq> None | None \<Rightarrow> False)"

text \<open>
  Inserts a lock row with permit 1, or takes an existing row over and bumps its permit. The
  table's constraints: \<open>executor_id\<close> is unique, \<open>action_id\<close> references \<open>action_queue\<close>.
\<close>

definition acquire_with_timestamp ::
    "action_id \<Rightarrow> string \<Rightarrow> timestamp \<Rightarrow> queue_db \<Rightarrow> (stash_error + execution_guard) \<times> queue_db" where
  "acquire_with_timestamp i ex now db =
     (if (\<exists>l \<in> set (locks db). lk_action l \<noteq> i \<and> lk_executor l = Some ex) then (Err ConstraintViolation, db)
      else case lock_of i db of
        None \<Rightarrow>
          if find_row i db = None then (Err ConstraintViolation, db)
          else (Ok \<lparr> eg_action = i, eg_permit = 1 \<rparr>,
                db\<lparr> locks := locks db @ [\<lparr> lk_action = i, lk_executor = Some ex,
                                         lk_acquired = SqlTime now, lk_permit = 1 \<rparr>] \<rparr>)
      | Some l \<Rightarrow>
          (Ok \<lparr> eg_action = i, eg_permit = lk_permit l + 1 \<rparr>,
           db\<lparr> locks := map (\<lambda>k. if lk_action k = i
                 then k\<lparr> lk_executor := Some ex, lk_permit := lk_permit k + 1, lk_acquired := SqlTime now \<rparr>
                 else k) (locks db) \<rparr>))"

definition clear_slate_state :: "string \<Rightarrow> queue_db \<Rightarrow> queue_db" where
  "clear_slate_state ex db = db\<lparr> locks := filter (\<lambda>l. lk_executor l \<noteq> Some ex) (locks db) \<rparr>"

definition guard_matches :: "execution_guard \<Rightarrow> lock_row \<Rightarrow> bool" where
  "guard_matches g l = (lk_action l = eg_action g \<and> lk_permit l = eg_permit g)"

definition release :: "execution_guard \<Rightarrow> queue_db \<Rightarrow> queue_db" where
  "release g db = db\<lparr> locks := map (\<lambda>l. if guard_matches g l
       then l\<lparr> lk_executor := None, lk_acquired := SqlZero \<rparr> else l) (locks db) \<rparr>"

text \<open>The update that opens \<open>tx\<close> and \<open>tx_and_release\<close>, with its number of changed rows.\<close>

definition guard_touch :: "execution_guard \<Rightarrow> timestamp \<Rightarrow> queue_db \<Rightarrow> nat \<times> queue_db" where
  "guard_touch g now db =
     (length (filter (guard_matches g) (locks db)),
      db\<lparr> locks := map (\<lambda>l. if guard_matches g l then l\<lparr> lk_acquired := SqlTime now \<rparr> else l) (locks db) \<rparr>)"

definition guard_tx ::
    "'e \<Rightarrow> execution_guard \<Rightarrow> timestamp \<Rightarrow> ('d store \<Rightarrow> ('e + 'x) \<times> 'd store) \<Rightarrow> 'd store
     \<Rightarrow> ('e + 'x) \<times> 'd store" where
  "guard_tx expired g now closure s =
     write_tx (\<lambda>s. case guard_touch g now (qdb s) of (changed, db) \<Rightarrow>
        if changed = 0 then (Err expired, s\<lparr> qdb := db \<rparr>) else closure (s\<lparr> qdb := db \<rparr>)) s"

definition tx_and_release ::
    "execution_guard \<Rightarrow> timestamp \<Rightarrow> ('d store \<Rightarrow> ((stash_error + 'x) \<times> 'd store) option) \<Rightarrow> 'd store
     \<Rightarrow> ((execution_guard_error + 'x) \<times> 'd store) option" where
  "tx_and_release g now closure s =
     write_tx_opt (\<lambda>s. case guard_touch g now (qdb s) of (changed, db) \<Rightarrow>
        if changed = 0 then Some (Err Expired, s\<lparr> qdb := db \<rparr>)
        else (case closure (s\<lparr> qdb := db \<rparr>) of
            None \<Rightarrow> None
          | Some (Inl e, s2) \<Rightarrow> Some (Err (StashFailed e), s2\<lparr> qdb := release g (qdb s2) \<rparr>)
          | Some (Inr x, s2) \<Rightarrow> Some (Ok x, s2\<lparr> qdb := release g (qdb s2) \<rparr>))) s"

section \<open>Choosing the next action\<close>

text \<open>
  \<open>unixepoch(datetime(t))\<close> in seconds. The integer 0 that \<open>release\<close> stores is read by
  \<open>datetime\<close> as Julian day 0 (24 November 4714 BC, noon).
\<close>

fun unixepoch :: "sql_time \<Rightarrow> int" where
  "unixepoch SqlZero = - 210866760000"
| "unixepoch (SqlTime t) = t div 1000000000"

definition default_lock_timeout :: nat where
  "default_lock_timeout = 60"

definition lock_free :: "timestamp \<Rightarrow> nat \<Rightarrow> queue_db \<Rightarrow> action_row \<Rightarrow> bool" where
  "lock_free now timeout db r =
     (case lock_of (ar_id r) db of
        None \<Rightarrow> True
      | Some l \<Rightarrow> unixepoch (SqlTime now) - unixepoch (lk_acquired l) \<ge> int timeout)"

definition eligible :: "action_group \<Rightarrow> nat \<Rightarrow> timestamp \<Rightarrow> queue_db \<Rightarrow> action_row \<Rightarrow> bool" where
  "eligible g timeout now db r =
     (ar_action_group r = g \<and> lock_free now timeout db r \<and> ar_scheduled r < now
      \<and> length (filter (\<lambda>d. dr_action d = ar_id r) (deps db)) = 0)"

text \<open>\<open>ORDER BY priority ASC, created ASC\<close>: the rows no other row comes strictly before.\<close>

definition ranks_before :: "action_row \<Rightarrow> action_row \<Rightarrow> bool" where
  "ranks_before r q =
     (priority_to_sql (ar_priority r) < priority_to_sql (ar_priority q)
      \<or> priority_to_sql (ar_priority r) = priority_to_sql (ar_priority q) \<and> ar_created r < ar_created q)"

definition first_ranked :: "action_row list \<Rightarrow> action_row list" where
  "first_ranked rs = filter (\<lambda>r. \<forall>q \<in> set rs. \<not> ranks_before q r) rs"

definition next_with_timeout ::
    "(action_row list \<Rightarrow> action_row option) \<Rightarrow> action_group \<Rightarrow> nat \<Rightarrow> timestamp \<Rightarrow> queue_db
     \<Rightarrow> stored_action option" where
  "next_with_timeout pick g timeout now db =
     map_option (\<lambda>r. after_load db (from_row r))
       (pick (first_ranked (filter (eligible g timeout now db) (actions db))))"

definition next_action ::
    "(action_row list \<Rightarrow> action_row option) \<Rightarrow> action_group \<Rightarrow> timestamp \<Rightarrow> queue_db \<Rightarrow> stored_action option" where
  "next_action pick g now db = next_with_timeout pick g default_lock_timeout now db"

text \<open>\<open>now\<close> is the clock when the next action is looked up, \<open>now'\<close> when the lock is written.\<close>

definition pop ::
    "(action_row list \<Rightarrow> action_row option) \<Rightarrow> string \<Rightarrow> action_group \<Rightarrow> timestamp \<Rightarrow> timestamp \<Rightarrow> queue_db
     \<Rightarrow> (stash_error + (execution_guard \<times> stored_action) option) \<times> queue_db" where
  "pop pick ex g now now' =
     write_tx (\<lambda>db.
       let db1 = clear_slate_state ex db
       in case next_action pick g now db1 of
            None \<Rightarrow> (Ok None, db1)
          | Some a \<Rightarrow> (case acquire_with_timestamp (unwrap_id a) ex now' db1 of
                (Inl e, db2) \<Rightarrow> (Err e, db2)
              | (Inr guard, db2) \<Rightarrow> (Ok (Some (guard, a)), db2)))"

text \<open>\<open>ORDER BY created ASC, rowid ASC\<close>: two stable sorts, the last key first.\<close>

definition rebase_action_order :: "action_group \<Rightarrow> queue_db \<Rightarrow> action_id list" where
  "rebase_action_order g db =
     map ar_id (sort_key ar_created (sort_key ar_id
       (filter (\<lambda>r. ar_action_group r = g) (actions db))))"

section \<open>Dependency keys\<close>

definition store_dependency_keys :: "action_dependency_key list \<Rightarrow> action_id \<Rightarrow> queue_db \<Rightarrow> queue_db" where
  "store_dependency_keys keys i db = db\<lparr> key_deps := key_deps db @ map (\<lambda>k. (k, i)) keys \<rparr>"

definition resolve_dependency_keys :: "action_dependency_key list \<Rightarrow> queue_db \<Rightarrow> action_id list" where
  "resolve_dependency_keys keys db =
     (if keys = [] then [] else remdups (map snd (filter (\<lambda>e. fst e \<in> set keys) (key_deps db))))"

definition delete_keys_for_action :: "action_id \<Rightarrow> queue_db \<Rightarrow> queue_db" where
  "delete_keys_for_action i db = db\<lparr> key_deps := filter (\<lambda>e. snd e \<noteq> i) (key_deps db) \<rparr>"

section \<open>Deleting\<close>

text \<open>\<open>DELETE FROM action_queue WHERE P\<close> with the cascades of the four referencing tables.\<close>

definition delete_where :: "(action_row \<Rightarrow> bool) \<Rightarrow> queue_db \<Rightarrow> queue_db" where
  "delete_where P db =
     (let gone = map ar_id (filter P (actions db))
      in db\<lparr> actions := filter (\<lambda>r. \<not> P r) (actions db),
             deps := filter (\<lambda>d. dr_action d \<notin> set gone \<and> dr_dependency d \<notin> set gone) (deps db),
             locks := filter (\<lambda>l. lk_action l \<notin> set gone) (locks db),
             key_deps := filter (\<lambda>e. snd e \<notin> set gone) (key_deps db),
             resources := filter (\<lambda>e. fst e \<notin> set gone) (resources db) \<rparr>)"

definition db_delete :: "action_id \<Rightarrow> queue_db \<Rightarrow> type_id option \<times> queue_db" where
  "db_delete i db = (map_option ar_action_type (find_row i db), delete_where (\<lambda>r. ar_id r = i) db)"

definition db_delete_all_in_group :: "action_group \<Rightarrow> queue_db \<Rightarrow> queue_db" where
  "db_delete_all_in_group g db = delete_where (\<lambda>r. ar_action_group r = g) db"

definition db_delete_by_type :: "type_id \<Rightarrow> queue_db \<Rightarrow> nat \<times> queue_db" where
  "db_delete_by_type t db =
     (length (filter (\<lambda>r. ar_action_type r = t) (actions db)), delete_where (\<lambda>r. ar_action_type r = t) db)"

section \<open>Creating and updating\<close>

definition sa_new_impl ::
    "('a, 'd, 'e, 'o) action_def \<Rightarrow> bytes \<Rightarrow> action_dependency_keys \<Rightarrow> metadata \<Rightarrow> stored_action" where
  "sa_new_impl T state keys m =
     \<lparr> sa_id = None, sa_action_type = act_type T, sa_debug_string = None,
       sa_dependencies = md_dependencies m, sa_created = md_created m,
       sa_priority = (case md_priority_override m of Some p \<Rightarrow> p | None \<Rightarrow> act_priority T),
       sa_scheduled = (case md_delay m of None \<Rightarrow> md_created m | Some d \<Rightarrow> md_created m + int d),
       sa_state = state,
       sa_action_group = (case md_group_override m of Some g \<Rightarrow> g | None \<Rightarrow> act_group T),
       sa_resources = md_resources m, sa_version = act_version T, sa_retries = 0,
       sa_dependency_keys = keys \<rparr>"

definition sa_new :: "('a, 'd, 'e, 'o) action_def \<Rightarrow> 'a \<Rightarrow> metadata \<Rightarrow> unit + stored_action" where
  "sa_new T a m =
     (case act_serialize T a of
        None \<Rightarrow> Err ()
      | Some st \<Rightarrow> Ok (sa_new_impl T st (act_dependency_keys T a) m))"

definition without_state ::
    "('a, 'd, 'e, 'o) action_def \<Rightarrow> action_dependency_keys \<Rightarrow> metadata \<Rightarrow> stored_action" where
  "without_state T keys m = sa_new_impl T [] keys m"

definition set_action_state :: "('a, 'd, 'e, 'o) action_def \<Rightarrow> 'a \<Rightarrow> stored_action \<Rightarrow> unit + stored_action" where
  "set_action_state T a s =
     (case act_serialize T a of None \<Rightarrow> Err () | Some st \<Rightarrow> Ok (s\<lparr> sa_state := st \<rparr>))"

definition update_action_state :: "stored_action \<Rightarrow> queue_db \<Rightarrow> queue_db" where
  "update_action_state s db = db\<lparr> actions := map (\<lambda>r. if ar_id r = unwrap_id s
       then r\<lparr> ar_state := sa_state s \<rparr> else r) (actions db) \<rparr>"

definition update_retries :: "action_id \<Rightarrow> queue_db \<Rightarrow> queue_db" where
  "update_retries i db = db\<lparr> actions := map (\<lambda>r. if ar_id r = i
       then r\<lparr> ar_retries := ar_retries r + 1 \<rparr> else r) (actions db) \<rparr>"

definition get_retries :: "action_id \<Rightarrow> queue_db \<Rightarrow> stash_error + nat" where
  "get_retries i db =
     (case find_row i db of Some r \<Rightarrow> Ok (ar_retries r) | None \<Rightarrow> Err QueryReturnedNoRows)"

text \<open>\<open>INSERT ... ON CONFLICT DO UPDATE SET dependency_type\<close> on the key (action, dependency).\<close>

definition upsert_dep :: "action_id \<Rightarrow> action_dependency \<Rightarrow> dep_row list \<Rightarrow> dep_row list" where
  "upsert_dep i dep ds =
     (if (\<exists>d \<in> set ds. dr_action d = i \<and> dr_dependency d = dependency_id dep)
      then map (\<lambda>d. if dr_action d = i \<and> dr_dependency d = dependency_id dep
             then d\<lparr> dr_type := dependency_kind dep \<rparr> else d) ds
      else ds @ [\<lparr> dr_action = i, dr_dependency = dependency_id dep, dr_type = dependency_kind dep \<rparr>])"

definition resolved_dependencies :: "stored_action \<Rightarrow> queue_db \<Rightarrow> action_dependency list" where
  "resolved_dependencies s db =
     sa_dependencies s
     @ map dep_optional (resolve_dependency_keys (optional_keys (sa_dependency_keys s)) db)
     @ map dep_required (resolve_dependency_keys (required_keys (sa_dependency_keys s)) db)"

definition update_dependency_keys_sync ::
    "(action_dependency list \<Rightarrow> action_dependency list) \<Rightarrow> stored_action \<Rightarrow> queue_db \<Rightarrow> queue_db" where
  "update_dependency_keys_sync hs s db =
     (let dependency_set = hs (resolved_dependencies s db);
          db1 = db\<lparr> deps := fold (upsert_dep (unwrap_id s))
                 (filter (\<lambda>dep. dependency_id dep \<in> ids db) dependency_set) (deps db) \<rparr>
      in store_dependency_keys (required_keys (sa_dependency_keys s) @ record_keys (sa_dependency_keys s))
           (unwrap_id s) db1)"

definition replace_resources :: "action_id \<Rightarrow> action_resources \<Rightarrow> queue_db \<Rightarrow> queue_db" where
  "replace_resources i r db =
     db\<lparr> resources := filter (\<lambda>e. fst e \<noteq> i) (resources db) @ [(i, r)] \<rparr>"

definition after_save ::
    "(action_dependency list \<Rightarrow> action_dependency list) \<Rightarrow> stored_action \<Rightarrow> queue_db \<Rightarrow> queue_db" where
  "after_save hs s db = replace_resources (unwrap_id s) (sa_resources s) (update_dependency_keys_sync hs s db)"

definition to_row :: "action_id \<Rightarrow> stored_action \<Rightarrow> action_row" where
  "to_row i s =
     \<lparr> ar_id = i, ar_action_type = sa_action_type s, ar_debug_string = sa_debug_string s,
       ar_created = sa_created s, ar_priority = sa_priority s, ar_scheduled = sa_scheduled s,
       ar_state = sa_state s, ar_action_group = sa_action_group s, ar_version = sa_version s,
       ar_retries = sa_retries s \<rparr>"

definition insert_sync ::
    "(action_dependency list \<Rightarrow> action_dependency list) \<Rightarrow> stored_action \<Rightarrow> queue_db \<Rightarrow> stored_action \<times> queue_db" where
  "insert_sync hs s db =
     (let i = next_id db;
          s1 = s\<lparr> sa_id := Some i \<rparr>;
          db1 = db\<lparr> actions := actions db @ [to_row i s], next_id := i + 1 \<rparr>
      in (s1, after_save hs s1 db1))"

definition update_sync ::
    "(action_dependency list \<Rightarrow> action_dependency list) \<Rightarrow> stored_action \<Rightarrow> queue_db \<Rightarrow> stored_action \<times> queue_db" where
  "update_sync hs s db =
     (let i = unwrap_id s;
          db1 = db\<lparr> actions := map (\<lambda>r. if ar_id r = i then to_row i s else r) (actions db) \<rparr>
      in (s, after_save hs s db1))"

text \<open>\<open>Model::save\<close>: update when the record has an id with a row, insert otherwise.\<close>

definition save ::
    "(action_dependency list \<Rightarrow> action_dependency list) \<Rightarrow> stored_action \<Rightarrow> queue_db \<Rightarrow> stored_action \<times> queue_db" where
  "save hs s db =
     (case sa_id s of
        Some i \<Rightarrow> if find_row i db \<noteq> None then update_sync hs s db else insert_sync hs s db
      | None \<Rightarrow> insert_sync hs s db)"

definition create_or_update ::
    "(action_dependency list \<Rightarrow> action_dependency list) \<Rightarrow> action_id \<Rightarrow> stored_action \<Rightarrow> queue_db
     \<Rightarrow> stored_action \<times> queue_db" where
  "create_or_update hs existing_id s db =
     (case find_row existing_id db of
        Some r \<Rightarrow>
          if ar_action_type r = sa_action_type s \<and> \<not> has_executor existing_id db
          then save hs (s\<lparr> sa_id := Some (ar_id r),
                           sa_dependencies := filter (\<lambda>v. dependency_id v \<noteq> existing_id) (sa_dependencies s) \<rparr>)
                 (delete_keys_for_action existing_id db)
          else save hs s db
      | None \<Rightarrow> save hs s db)"

end
