(* ===== verification/Topo_Sort.thy ===== *)
theory Topo_Sort
  imports Prelude
begin

text \<open>
  The interface of the third-party crate \<open>topological_sort\<close>, used by the action queue
  (\<open>shared/action-queue/src/queue.rs\<close>) and by the event manager
  (\<open>core-event-loop/src/v6/manager.rs\<close>). The crate is a parameter: its operations are the
  fields of \<open>topo_ops\<close>, and the locale \<open>topological_sort\<close> states what its
  documentation promises, through the set of items and the set of precedences a sorter holds.
  What clients of the sorter rely on is proved once in the locale.
\<close>

section \<open>The operations\<close>

record ('k, 't) topo_ops =
  ts_new :: 't
  ts_insert :: "'k \<Rightarrow> 't \<Rightarrow> 't"
  ts_add_dependency :: "'k \<Rightarrow> 'k \<Rightarrow> 't \<Rightarrow> 't"
  ts_pop :: "'t \<Rightarrow> 'k option \<times> 't"
  ts_is_empty :: "'t \<Rightarrow> bool"

text \<open>
  The items popped one after the other until \<open>pop\<close> answers \<open>None\<close>, as an accumulating loop
  (\<open>while let Some(id) = sorter.pop() { out.push(id) }\<close>). No bound is known for an
  arbitrary sorter, so not stopping is \<open>None\<close>.
\<close>

partial_function (option) drain :: "('k, 't) topo_ops \<Rightarrow> 't \<Rightarrow> 'k list \<Rightarrow> 'k list option" where
  "drain T t acc =
     (case ts_pop T t of
        (None, _) \<Rightarrow> Some acc
      | (Some k, t') \<Rightarrow> drain T t' (acc @ [k]))"

inductive pop_run :: "('k, 't) topo_ops \<Rightarrow> 't \<Rightarrow> 'k list \<Rightarrow> bool" for T where
  pop_run_Nil: "fst (ts_pop T t) = None \<Longrightarrow> pop_run T t []"
| pop_run_Cons: "ts_pop T t = (Some k, t') \<Longrightarrow> pop_run T t' ks \<Longrightarrow> pop_run T t (k # ks)"

inductive_cases pop_run_NilE: "pop_run T t []"
inductive_cases pop_run_ConsE: "pop_run T t (k # ks)"

lemma pop_run_drain: "pop_run T t ks \<Longrightarrow> drain T t acc = Some (acc @ ks)"
proof (induction arbitrary: acc rule: pop_run.induct)
  case (pop_run_Nil t)
  then show ?case by (cases "ts_pop T t") (simp add: drain.simps)
next
  case (pop_run_Cons t k t' ks)
  then show ?case by (simp add: drain.simps [of T t])
qed

section \<open>The documented laws\<close>

locale topological_sort =
  fixes T :: "('k, 't) topo_ops"
    and valid :: "'t \<Rightarrow> bool"
    and items :: "'t \<Rightarrow> 'k set"
    and before :: "'t \<Rightarrow> ('k \<times> 'k) set"
  assumes new_valid: "valid (ts_new T)"
    and insert_valid: "valid t \<Longrightarrow> valid (ts_insert T k t)"
    and add_valid: "valid t \<Longrightarrow> valid (ts_add_dependency T p s t)"
    and pop_valid: "valid t \<Longrightarrow> ts_pop T t = (r, t') \<Longrightarrow> valid t'"
    and finite_items: "valid t \<Longrightarrow> finite (items t)"
    and before_items: "valid t \<Longrightarrow> before t \<subseteq> items t \<times> items t"
    and items_new: "items (ts_new T) = {}"
    and items_insert: "valid t \<Longrightarrow> items (ts_insert T k t) = insert k (items t)"
    and before_insert: "valid t \<Longrightarrow> before (ts_insert T k t) = before t"
    and items_add: "valid t \<Longrightarrow> items (ts_add_dependency T p s t) = {p, s} \<union> items t"
    and before_add: "valid t \<Longrightarrow> before (ts_add_dependency T p s t) = insert (p, s) (before t)"
    and pop_None: "valid t \<Longrightarrow> fst (ts_pop T t) = None \<longleftrightarrow>
          (\<forall>k \<in> items t. \<exists>p. (p, k) \<in> before t)"
    and pop_None_same: "valid t \<Longrightarrow> fst (ts_pop T t) = None \<Longrightarrow> items (snd (ts_pop T t)) = items t"
    and pop_Some: "valid t \<Longrightarrow> ts_pop T t = (Some k, t') \<Longrightarrow>
          k \<in> items t \<and> (\<forall>p. (p, k) \<notin> before t) \<and> items t' = items t - {k}
          \<and> before t' = {e \<in> before t. fst e \<noteq> k}"
    and is_empty_iff: "valid t \<Longrightarrow> ts_is_empty T t \<longleftrightarrow> items t = {}"
begin

lemma before_new: "before (ts_new T) = {}"
  using before_items [OF new_valid] items_new by auto

lemma pop_run_exists:
  assumes "valid t"
  shows "\<exists>ks. pop_run T t ks"
  using assms
proof (induction "card (items t)" arbitrary: t rule: less_induct)
  case less
  show ?case
  proof (cases "ts_pop T t")
    case (Pair r t')
    show ?thesis
    proof (cases r)
      case None
      with Pair show ?thesis by (auto intro!: exI [of _ "[]"] pop_run_Nil)
    next
      case (Some k)
      with Pair have p: "ts_pop T t = (Some k, t')" by simp
      from pop_Some [OF less.prems p] have k: "k \<in> items t" and it: "items t' = items t - {k}"
        by auto
      from finite_items [OF less.prems] k it have "card (items t') < card (items t)"
        by (metis card_Diff1_less)
      with less.hyps pop_valid [OF less.prems p] obtain ks where "pop_run T t' ks" by blast
      with p show ?thesis by (auto intro: pop_run_Cons)
    qed
  qed
qed

text \<open>What a run of pops yields: each item at most once, every precedence respected, and an
  item is left out only if one of its predecessors is left out too.\<close>

lemma pop_run_spec:
  assumes "pop_run T t ks" and "valid t"
  shows "distinct ks \<and> set ks \<subseteq> items t
    \<and> (\<forall>p s. (p, s) \<in> before t \<longrightarrow> s \<in> set ks \<longrightarrow> precedes p s ks)
    \<and> (\<forall>k \<in> items t - set ks. \<exists>p \<in> items t - set ks. (p, k) \<in> before t)"
  using assms
proof (induction rule: pop_run.induct)
  case (pop_run_Nil t)
  then show ?case using pop_None [of t] before_items [of t] by fastforce
next
  case (pop_run_Cons t k t' ks)
  note p = pop_Some [OF pop_run_Cons.prems pop_run_Cons.hyps(1)]
  have v': "valid t'" using pop_valid pop_run_Cons by blast
  note ih = pop_run_Cons.IH [OF v']
  have kn: "k \<notin> set ks" using ih p by auto
  have ord: "precedes q s (k # ks)" if e: "(q, s) \<in> before t" and s: "s \<in> set (k # ks)" for q s
  proof -
    from e p have "s \<noteq> k" by auto
    with s have s': "s \<in> set ks" by simp
    show ?thesis
    proof (cases "q = k")
      case True
      with s' show ?thesis by (simp add: precedes_head)
    next
      case False
      with e p have "(q, s) \<in> before t'" by auto
      with ih s' have "precedes q s ks" by blast
      then show ?thesis by (rule precedes_ConsI)
    qed
  qed
  have left: "\<exists>q \<in> items t - set (k # ks). (q, j) \<in> before t" if "j \<in> items t - set (k # ks)" for j
  proof -
    from that p have "j \<in> items t' - set ks" by auto
    with ih obtain q where "q \<in> items t' - set ks" "(q, j) \<in> before t'" by blast
    with p show ?thesis by auto
  qed
  from kn ih p ord left show ?case by auto
qed

lemma pop_run_complete:
  assumes "pop_run T t ks" and "valid t" and "acyclic (before t)"
  shows "set ks = items t"
proof -
  have fin: "finite (before t)"
    using before_items [OF assms(2)] finite_items [OF assms(2)]
    by (meson finite_SigmaI finite_subset)
  have wf: "wf (before t)" using assms(3) fin by (simp add: finite_acyclic_wf)
  note spec = pop_run_spec [OF assms(1,2)]
  show ?thesis
  proof (rule ccontr)
    assume "set ks \<noteq> items t"
    with spec obtain k where "k \<in> items t - set ks" by blast
    with wf obtain m where m: "m \<in> items t - set ks"
      and min: "\<And>q. (q, m) \<in> before t \<Longrightarrow> q \<notin> items t - set ks"
      by (metis wfE_min)
    from m spec obtain q where "q \<in> items t - set ks" "(q, m) \<in> before t" by blast
    with min show False by blast
  qed
qed

text \<open>The sorter the queue and the event manager build: precedences added one by one.\<close>

lemma fold_add:
  assumes "valid t"
  shows "valid (fold (\<lambda>d. ts_add_dependency T (f d) (g d)) ds t)
    \<and> items (fold (\<lambda>d. ts_add_dependency T (f d) (g d)) ds t) = items t \<union> f ` set ds \<union> g ` set ds
    \<and> before (fold (\<lambda>d. ts_add_dependency T (f d) (g d)) ds t)
      = before t \<union> (\<lambda>d. (f d, g d)) ` set ds"
  using assms
  by (induction ds arbitrary: t) (auto simp: add_valid items_add before_add)

lemmas laws = new_valid insert_valid add_valid items_new before_new items_insert before_insert
  items_add before_add is_empty_iff

end

section \<open>A concrete sorter\<close>

text \<open>
  A sorter on two lists: the items in the order they were first mentioned, and the
  precedences. It shows that the laws can hold together and evaluates the examples.
\<close>

type_synonym 'k list_topo = "'k list \<times> ('k \<times> 'k) list"

definition lt_insert :: "'k \<Rightarrow> 'k list_topo \<Rightarrow> 'k list_topo" where
  "lt_insert k t = (List.insert k (fst t), snd t)"

definition lt_add :: "'k \<Rightarrow> 'k \<Rightarrow> 'k list_topo \<Rightarrow> 'k list_topo" where
  "lt_add p s t = (List.insert s (List.insert p (fst t)), List.insert (p, s) (snd t))"

definition lt_pop :: "'k list_topo \<Rightarrow> 'k option \<times> 'k list_topo" where
  "lt_pop t = (case filter (\<lambda>k. k \<notin> snd ` set (snd t)) (fst t) of
     [] \<Rightarrow> (None, t)
   | k # _ \<Rightarrow> (Some k, (filter (\<lambda>j. j \<noteq> k) (fst t), filter (\<lambda>e. fst e \<noteq> k) (snd t))))"

definition list_topo_ops :: "('k, 'k list_topo) topo_ops" where
  "list_topo_ops = \<lparr> ts_new = ([], []), ts_insert = lt_insert, ts_add_dependency = lt_add,
     ts_pop = lt_pop, ts_is_empty = (\<lambda>t. fst t = []) \<rparr>"

definition lt_valid :: "'k list_topo \<Rightarrow> bool" where
  "lt_valid t = (set (snd t) \<subseteq> set (fst t) \<times> set (fst t))"

lemma lt_pop_None: "fst (lt_pop t) = None \<longleftrightarrow> (\<forall>k \<in> set (fst t). \<exists>p. (p, k) \<in> set (snd t))"
proof -
  have "fst (lt_pop t) = None \<longleftrightarrow> filter (\<lambda>k. k \<notin> snd ` set (snd t)) (fst t) = []"
    by (simp add: lt_pop_def split: list.splits)
  also have "\<dots> \<longleftrightarrow> (\<forall>k \<in> set (fst t). \<exists>p. (p, k) \<in> set (snd t))"
    by (force simp: filter_empty_conv)
  finally show ?thesis .
qed

lemma lt_pop_Some:
  assumes "lt_pop t = (Some k, t')"
  shows "k \<in> set (fst t) \<and> (\<forall>p. (p, k) \<notin> set (snd t)) \<and> set (fst t') = set (fst t) - {k}
    \<and> set (snd t') = {e \<in> set (snd t). fst e \<noteq> k}"
proof -
  from assms obtain ks where f: "filter (\<lambda>k. k \<notin> snd ` set (snd t)) (fst t) = k # ks"
    and t': "t' = (filter (\<lambda>j. j \<noteq> k) (fst t), filter (\<lambda>e. fst e \<noteq> k) (snd t))"
    by (auto simp: lt_pop_def split: list.splits)
  from f have "k \<in> set (filter (\<lambda>k. k \<notin> snd ` set (snd t)) (fst t))" by simp
  then have "k \<in> set (fst t)" and "\<forall>p. (p, k) \<notin> set (snd t)" by (auto simp: image_iff)
  with t' show ?thesis by auto
qed

lemma lt_pop_None_same: "fst (lt_pop t) = None \<Longrightarrow> snd (lt_pop t) = t"
  by (auto simp: lt_pop_def split: list.splits)

lemma lt_pop_valid:
  assumes "lt_valid t" and "lt_pop t = (r, t')"
  shows "lt_valid t'"
proof (cases r)
  case None
  with assms lt_pop_None_same [of t] show ?thesis by simp
next
  case (Some k)
  with assms(2) lt_pop_Some [of t k t'] have
    "\<forall>p. (p, k) \<notin> set (snd t)" "set (fst t') = set (fst t) - {k}"
    "set (snd t') = {e \<in> set (snd t). fst e \<noteq> k}" by auto
  with assms(1) show ?thesis by (fastforce simp: lt_valid_def)
qed

interpretation list_topo: topological_sort list_topo_ops lt_valid "\<lambda>t. set (fst t)" "\<lambda>t. set (snd t)"
proof (unfold_locales, goal_cases)
  case (4 t r t')
  then show ?case by (simp add: list_topo_ops_def lt_pop_valid)
next
  case (12 t)
  then show ?case by (simp add: list_topo_ops_def lt_pop_None)
next
  case (13 t)
  then show ?case by (simp add: list_topo_ops_def lt_pop_None_same)
next
  case (14 t k t')
  then show ?case using lt_pop_Some [of t k t'] by (simp add: list_topo_ops_def)
qed (auto simp: list_topo_ops_def lt_valid_def lt_insert_def lt_add_def)

end
