(* ===== verification/Action_Queue.thy ===== *)
theory Action_Queue
  imports Action_Db Topo_Sort
begin

text \<open>
  The queue of \<open>shared/action-queue/src/queue.rs\<close>: queueing, replacing, deleting and cancelling
  actions, the executors and the broadcast messages.

  \<open>shared\<close> is the state behind \<open>Queue\<close>: the database (\<open>store\<close>), the factory, the messages sent so
  far and the number of wake-ups of the executors. What Rust takes from outside is an argument:
  the clock, the topological sorter \<open>TO\<close>, the order \<open>hs\<close> of a \<open>HashSet\<close>, the choice \<open>pick\<close> of
  \<open>LIMIT 1\<close>, and, while an action runs on the server, what other tasks commit to the database.
  A loop without a bound of its own returns \<open>None\<close> when it does not end.
\<close>

section \<open>Errors and messages\<close>

datatype queue_error = Db stash_error | Serialization | UnknownAction string | CyclicDependency
  | ActionRemoteTaskExec

datatype 'e action_error = ActionFailed 'e | QueueFailed queue_error

datatype 'e queued_error = FactoryFailed action_id factory_error
  | QueuedActionFailed "'e action_error" queued_metadata
  | QueuedDb stash_error
  | ActionNotFound action_id
  | ActionInExecution action_id

datatype 'e broadcast_message = BcQueued action_id queued_metadata
  | BcSuccess action_id queued_metadata
  | BcError "'e action_error" queued_metadata
  | BcCancelled queued_metadata
  | BcDeleted action_id string

datatype 'o action_remote_output = Executed 'o | Queued action_id requeue_reason

datatype queued_action_state = StateExecuted action_id | StateQueued action_id requeue_reason

record 'o queued_action_output =
  qo_local :: 'o
  qo_id :: action_id

section \<open>The shared state\<close>

record ('a, 'd, 'e, 'o) shared =
  sh_store :: "'d store"
  sh_factory :: "('a, 'd, 'e, 'o) factory"
  sh_broadcast :: "'e broadcast_message list"
  sh_notified :: nat

definition queue_with_factory :: "'d store \<Rightarrow> ('a, 'd, 'e, 'o) factory \<Rightarrow> ('a, 'd, 'e, 'o) shared" where
  "queue_with_factory s f = \<lparr> sh_store = s, sh_factory = f, sh_broadcast = [], sh_notified = 0 \<rparr>"

definition queue_new :: "'d store \<Rightarrow> ('a, 'd, 'e, 'o) shared" where
  "queue_new s = queue_with_factory s factory_new"

definition shared_handler ::
    "('a, 'd, 'e, 'o) shared \<Rightarrow> ('a, 'd, 'e, 'o) action_def \<Rightarrow> ('a, 'd, 'e, 'o) action_def option" where
  "shared_handler sh T = factory_handler (sh_factory sh) T"

definition register ::
    "('a, 'd, 'e, 'o) action_def \<Rightarrow> ('a, 'd, 'e, 'o) shared \<Rightarrow> (factory_error + unit) \<times> ('a, 'd, 'e, 'o) shared" where
  "register T sh = (case factory_register T (sh_factory sh) of (r, f) \<Rightarrow> (r, sh\<lparr> sh_factory := f \<rparr>))"

definition register_or_replace ::
    "('a, 'd, 'e, 'o) action_def \<Rightarrow> ('a, 'd, 'e, 'o) shared \<Rightarrow> ('a, 'd, 'e, 'o) shared" where
  "register_or_replace T sh = sh\<lparr> sh_factory := factory_register_or_replace T (sh_factory sh) \<rparr>"

text \<open>
  A write transaction of the queue. The store is restored when the closure fails; the messages
  it sent and the executors it woke are not.
\<close>

definition queue_tx ::
    "(('a, 'd, 'e, 'o) shared \<Rightarrow> ('x + 'y) \<times> ('a, 'd, 'e, 'o) shared) \<Rightarrow> ('a, 'd, 'e, 'o) shared
     \<Rightarrow> ('x + 'y) \<times> ('a, 'd, 'e, 'o) shared" where
  "queue_tx f sh =
     (case f sh of
        (Inl e, sh') \<Rightarrow> (Err e, sh'\<lparr> sh_store := sh_store sh \<rparr>)
      | (Inr x, sh') \<Rightarrow> (Ok x, sh'))"

definition send :: "'e broadcast_message \<Rightarrow> ('a, 'd, 'e, 'o) shared \<Rightarrow> ('a, 'd, 'e, 'o) shared" where
  "send m sh = sh\<lparr> sh_broadcast := sh_broadcast sh @ [m] \<rparr>"

definition notify_waiters :: "('a, 'd, 'e, 'o) shared \<Rightarrow> ('a, 'd, 'e, 'o) shared" where
  "notify_waiters sh = sh\<lparr> sh_notified := sh_notified sh + 1 \<rparr>"

definition set_db :: "queue_db \<Rightarrow> ('a, 'd, 'e, 'o) shared \<Rightarrow> ('a, 'd, 'e, 'o) shared" where
  "set_db db sh = sh\<lparr> sh_store := (sh_store sh)\<lparr> qdb := db \<rparr> \<rparr>"

abbreviation sh_db :: "('a, 'd, 'e, 'o) shared \<Rightarrow> queue_db" where
  "sh_db sh \<equiv> qdb (sh_store sh)"

section \<open>Decoding\<close>

definition decode_action ::
    "('a, 'd, 'e, 'o) factory \<Rightarrow> stored_action
     \<Rightarrow> 'e queued_error + ('a, 'd, 'e, 'o) queued_action \<times> queued_metadata" where
  "decode_action f s =
     (case factory_decode f s of
        Inl e \<Rightarrow> Err (FactoryFailed (unwrap_id s) e)
      | Inr qm \<Rightarrow> Ok qm)"

section \<open>The cycle check\<close>

lemma all_dependencies_action: "all_dependencies i db \<noteq> [] \<Longrightarrow> i \<in> dr_action ` set (deps db)"
  by (auto simp: all_dependencies_def filter_empty_conv)

text \<open>
  The loop over \<open>pending_action_ids\<close>, a stack whose top is the head of the list.
\<close>

function collect_dependencies ::
    "(action_id, 't) topo_ops \<Rightarrow> queue_db \<Rightarrow> action_id list \<Rightarrow> action_id set \<Rightarrow> 't \<Rightarrow> 't" where
  "collect_dependencies TO db [] visited t = t"
| "collect_dependencies TO db (i # pending) visited t =
     (let ds = all_dependencies i db
      in if i \<in> visited then collect_dependencies TO db pending visited t
         else if ds = [] then collect_dependencies TO db pending (insert i visited) t
         else collect_dependencies TO db (rev (map dependency_id ds) @ pending) (insert i visited)
                (fold (\<lambda>d. ts_add_dependency TO i (dependency_id d)) ds t))"
  by pat_completeness auto

termination
proof (relation "measures [\<lambda>(TO, db, pending, visited, t). card (dr_action ` set (deps db) - visited),
    \<lambda>(TO, db, pending, visited, t). length pending]", goal_cases)
  case 1
  then show ?case by simp
next
  case 2
  then show ?case by simp
next
  case (3 TO db i pending visited t)
  have "card (dr_action ` set (deps db) - insert i visited) \<le> card (dr_action ` set (deps db) - visited)"
    by (intro card_mono) auto
  then show ?case by auto
next
  case (4 TO db i pending visited t)
  then have "i \<in> dr_action ` set (deps db) - visited"
    using all_dependencies_action by auto
  then have "card (dr_action ` set (deps db) - insert i visited) < card (dr_action ` set (deps db) - visited)"
    by (intro psubset_card_mono) auto
  then show ?case by simp
qed

definition has_cycle :: "(action_id, 't) topo_ops \<Rightarrow> action_id \<Rightarrow> queue_db \<Rightarrow> bool" where
  "has_cycle TO i db =
     (case ts_pop TO (collect_dependencies TO db [i] {} (ts_new TO)) of
        (r, sorter) \<Rightarrow> r = None \<and> \<not> ts_is_empty TO sorter)"

section \<open>Queueing\<close>

text \<open>
  \<open>T\<close> is the static data of the action's type, \<open>H\<close> the registered handler. The result is the
  store at the point of return; the caller's transaction drops it on an error.
\<close>

definition execute_action_local ::
    "(action_id, 't) topo_ops \<Rightarrow> (action_dependency list \<Rightarrow> action_dependency list)
     \<Rightarrow> ('a, 'd, 'e, 'o) action_def \<Rightarrow> 'a \<Rightarrow> ('a, 'd, 'e, 'o) action_def \<Rightarrow> metadata \<Rightarrow> action_id option
     \<Rightarrow> 'd store \<Rightarrow> ('e action_error + 'o \<times> stored_action) \<times> 'd store" where
  "execute_action_local TO hs T action H md existing s =
     (let s0 = without_state T default_keys md
      in case (case existing of
                 Some i \<Rightarrow> create_or_update hs i s0 (qdb s)
               | None \<Rightarrow> save hs s0 (qdb s)) of (st1, db1) \<Rightarrow>
         (case act_apply_local H (unwrap_id st1) action (app s) of
            (Inl e, action', d) \<Rightarrow> (Err (ActionFailed e), s\<lparr> qdb := db1, app := d \<rparr>)
          | (Inr local_output, action', d) \<Rightarrow>
              (let st2 = st1\<lparr> sa_dependency_keys := act_dependency_keys T action' \<rparr>;
                   db2 = update_dependency_keys_sync hs st2 db1
               in if has_cycle TO (unwrap_id st2) db2
                  then (Err (QueueFailed CyclicDependency), s\<lparr> qdb := db2, app := d \<rparr>)
                  else (case set_action_state T action' st2 of
                      Inl _ \<Rightarrow> (Err (QueueFailed Serialization), s\<lparr> qdb := db2, app := d \<rparr>)
                    | Inr st3 \<Rightarrow> (Ok (local_output, st3),
                                  s\<lparr> qdb := update_action_state st3 db2, app := d \<rparr>)))))"

definition queue_action_with_metadata_in_tx ::
    "(action_id, 't) topo_ops \<Rightarrow> (action_dependency list \<Rightarrow> action_dependency list)
     \<Rightarrow> ('a, 'd, 'e, 'o) action_def \<Rightarrow> 'a \<Rightarrow> metadata \<Rightarrow> ('a, 'd, 'e, 'o) shared
     \<Rightarrow> ('e action_error + 'o queued_action_output) \<times> ('a, 'd, 'e, 'o) shared" where
  "queue_action_with_metadata_in_tx TO hs T action md sh =
     (case shared_handler sh T of
        None \<Rightarrow> (Err (QueueFailed (UnknownAction (act_type T))), sh)
      | Some H \<Rightarrow> (case execute_action_local TO hs T action H md None (sh_store sh) of
            (Inl e, s) \<Rightarrow> (Err e, sh\<lparr> sh_store := s \<rparr>)
          | (Inr (local_output, st), s) \<Rightarrow>
              (Ok \<lparr> qo_local = local_output, qo_id = unwrap_id st \<rparr>,
               send (BcQueued (unwrap_id st) (queued_metadata_of st))
                 (notify_waiters (sh\<lparr> sh_store := s \<rparr>)))))"

definition queue_action_with_metadata ::
    "(action_id, 't) topo_ops \<Rightarrow> (action_dependency list \<Rightarrow> action_dependency list)
     \<Rightarrow> ('a, 'd, 'e, 'o) action_def \<Rightarrow> 'a \<Rightarrow> metadata \<Rightarrow> ('a, 'd, 'e, 'o) shared
     \<Rightarrow> ('e action_error + 'o queued_action_output) \<times> ('a, 'd, 'e, 'o) shared" where
  "queue_action_with_metadata TO hs T action md =
     queue_tx (queue_action_with_metadata_in_tx TO hs T action md)"

definition queue_action ::
    "(action_id, 't) topo_ops \<Rightarrow> (action_dependency list \<Rightarrow> action_dependency list)
     \<Rightarrow> timestamp \<Rightarrow> ('a, 'd, 'e, 'o) action_def \<Rightarrow> 'a \<Rightarrow> ('a, 'd, 'e, 'o) shared
     \<Rightarrow> ('e action_error + 'o queued_action_output) \<times> ('a, 'd, 'e, 'o) shared" where
  "queue_action TO hs now T action = queue_action_with_metadata TO hs T action (metadata_default now)"

text \<open>The metadata of the next action of a chain.\<close>

definition chain_metadata :: "timestamp \<Rightarrow> action_id option \<Rightarrow> metadata" where
  "chain_metadata now last_id =
     (case last_id of Some i \<Rightarrow> metadata_with_dependency now i | None \<Rightarrow> metadata_default now)"

text \<open>The loop of \<open>queue_actions\<close>; each action comes with the clock when it is queued.\<close>

fun queue_actions_loop ::
    "(action_id, 't) topo_ops \<Rightarrow> (action_dependency list \<Rightarrow> action_dependency list)
     \<Rightarrow> ('a, 'd, 'e, 'o) action_def \<Rightarrow> (timestamp \<times> 'a) list \<Rightarrow> action_id option \<Rightarrow> 'o queued_action_output list
     \<Rightarrow> ('a, 'd, 'e, 'o) shared
     \<Rightarrow> ('e action_error + 'o queued_action_output list) \<times> ('a, 'd, 'e, 'o) shared" where
  "queue_actions_loop TO hs T [] last_id res sh = (Ok res, sh)"
| "queue_actions_loop TO hs T ((now, action) # as) last_id res sh =
     (case queue_action_with_metadata_in_tx TO hs T action (chain_metadata now last_id) sh of
        (Inl e, sh') \<Rightarrow> (Err e, sh')
      | (Inr out, sh') \<Rightarrow> queue_actions_loop TO hs T as (Some (qo_id out)) (res @ [out]) sh')"

definition queue_actions ::
    "(action_id, 't) topo_ops \<Rightarrow> (action_dependency list \<Rightarrow> action_dependency list)
     \<Rightarrow> ('a, 'd, 'e, 'o) action_def \<Rightarrow> (timestamp \<times> 'a) list \<Rightarrow> action_id option \<Rightarrow> ('a, 'd, 'e, 'o) shared
     \<Rightarrow> ('e action_error + 'o queued_action_output list) \<times> ('a, 'd, 'e, 'o) shared" where
  "queue_actions TO hs T as last_id = queue_tx (queue_actions_loop TO hs T as last_id [])"

text \<open>\<open>enqueue!\<close>: the same for actions of different types; the id of the last one.\<close>

fun enqueue_loop ::
    "(action_id, 't) topo_ops \<Rightarrow> (action_dependency list \<Rightarrow> action_dependency list)
     \<Rightarrow> (timestamp \<times> ('a, 'd, 'e, 'o) action_def \<times> 'a) list \<Rightarrow> action_id option
     \<Rightarrow> ('a, 'd, 'e, 'o) shared \<Rightarrow> ('e action_error + action_id option) \<times> ('a, 'd, 'e, 'o) shared" where
  "enqueue_loop TO hs [] last_id sh = (Ok last_id, sh)"
| "enqueue_loop TO hs ((now, T, action) # as) last_id sh =
     (case queue_action_with_metadata_in_tx TO hs T action (chain_metadata now last_id) sh of
        (Inl e, sh') \<Rightarrow> (Err e, sh')
      | (Inr out, sh') \<Rightarrow> enqueue_loop TO hs as (Some (qo_id out)) sh')"

definition enqueue ::
    "(action_id, 't) topo_ops \<Rightarrow> (action_dependency list \<Rightarrow> action_dependency list)
     \<Rightarrow> (timestamp \<times> ('a, 'd, 'e, 'o) action_def \<times> 'a) list \<Rightarrow> ('a, 'd, 'e, 'o) shared
     \<Rightarrow> ('e action_error + action_id option) \<times> ('a, 'd, 'e, 'o) shared" where
  "enqueue TO hs as = queue_tx (enqueue_loop TO hs as None)"

definition replace_or_queue_action_with_metadata ::
    "(action_id, 't) topo_ops \<Rightarrow> (action_dependency list \<Rightarrow> action_dependency list)
     \<Rightarrow> action_id \<Rightarrow> ('a, 'd, 'e, 'o) action_def \<Rightarrow> 'a \<Rightarrow> metadata \<Rightarrow> ('a, 'd, 'e, 'o) shared
     \<Rightarrow> ('e action_error + 'o queued_action_output) \<times> ('a, 'd, 'e, 'o) shared" where
  "replace_or_queue_action_with_metadata TO hs existing_id T action md sh =
     (case shared_handler sh T of
        None \<Rightarrow> (Err (QueueFailed (UnknownAction (act_type T))), sh)
      | Some H \<Rightarrow>
          (case write_tx (execute_action_local TO hs T action H md (Some existing_id)) (sh_store sh) of
             (Inl e, s) \<Rightarrow> (Err e, sh\<lparr> sh_store := s \<rparr>)
           | (Inr (local_output, st), s) \<Rightarrow>
               (Ok \<lparr> qo_local = local_output, qo_id = unwrap_id st \<rparr>,
                if existing_id = unwrap_id st then sh\<lparr> sh_store := s \<rparr>
                else send (BcQueued (unwrap_id st) (queued_metadata_of st))
                       (notify_waiters (sh\<lparr> sh_store := s \<rparr>)))))"

definition replace_or_queue_action ::
    "(action_id, 't) topo_ops \<Rightarrow> (action_dependency list \<Rightarrow> action_dependency list)
     \<Rightarrow> timestamp \<Rightarrow> action_id \<Rightarrow> ('a, 'd, 'e, 'o) action_def \<Rightarrow> 'a \<Rightarrow> ('a, 'd, 'e, 'o) shared
     \<Rightarrow> ('e action_error + 'o queued_action_output) \<times> ('a, 'd, 'e, 'o) shared" where
  "replace_or_queue_action TO hs now existing_id T action =
     replace_or_queue_action_with_metadata TO hs existing_id T action (metadata_default now)"

section \<open>Deleting and querying\<close>

definition delete_all_actions_in_group ::
    "action_group \<Rightarrow> ('a, 'd, 'e, 'o) shared \<Rightarrow> ('e queued_error + unit) \<times> ('a, 'd, 'e, 'o) shared" where
  "delete_all_actions_in_group g sh = (Ok (), set_db (db_delete_all_in_group g (sh_db sh)) sh)"

definition delete_all_by_type ::
    "('a, 'd, 'e, 'o) action_def \<Rightarrow> ('a, 'd, 'e, 'o) shared
     \<Rightarrow> ('e queued_error + nat) \<times> ('a, 'd, 'e, 'o) shared" where
  "delete_all_by_type T sh =
     (case db_delete_by_type (act_type T) (sh_db sh) of (n, db) \<Rightarrow> (Ok n, set_db db sh))"

definition delete_action ::
    "action_id \<Rightarrow> ('a, 'd, 'e, 'o) shared \<Rightarrow> ('e queued_error + unit) \<times> ('a, 'd, 'e, 'o) shared" where
  "delete_action i sh =
     (case write_tx (\<lambda>db. if has_executor i db then (Err (ActionInExecution i), db)
                          else (case db_delete i db of (t, db') \<Rightarrow> (Ok t, db'))) (sh_db sh) of
        (Inl e, db) \<Rightarrow> (Err e, set_db db sh)
      | (Inr existing_action_type, db) \<Rightarrow>
          (Ok (), (case existing_action_type of
                     Some t \<Rightarrow> send (BcDeleted i t) (set_db db sh)
                   | None \<Rightarrow> set_db db sh)))"

definition queued_actions_count :: "('a, 'd, 'e, 'o) shared \<Rightarrow> nat" where
  "queued_actions_count sh = pending_count (sh_db sh)"

definition typed_actions_count :: "('a, 'd, 'e, 'o) action_def \<Rightarrow> ('a, 'd, 'e, 'o) shared \<Rightarrow> nat" where
  "typed_actions_count T sh = type_count (act_type T) (sh_db sh)"

definition queue_contains :: "action_id \<Rightarrow> ('a, 'd, 'e, 'o) shared \<Rightarrow> bool" where
  "queue_contains i sh = db_contains i (sh_db sh)"

definition queue_lookup :: "action_id \<Rightarrow> ('a, 'd, 'e, 'o) shared \<Rightarrow> queued_metadata option" where
  "queue_lookup i sh = map_option queued_metadata_of (load i (sh_db sh))"

fun validate_all :: "('a, 'd, 'e, 'o) factory \<Rightarrow> stored_action list \<Rightarrow> 'e queued_error + unit" where
  "validate_all f [] = Ok ()"
| "validate_all f (s # ss) = (case decode_action f s of Inl e \<Rightarrow> Err e | Inr _ \<Rightarrow> validate_all f ss)"

definition validate_queued_actions :: "('a, 'd, 'e, 'o) shared \<Rightarrow> 'e queued_error + unit" where
  "validate_queued_actions sh =
     validate_all (sh_factory sh) (map (\<lambda>r. after_load (sh_db sh) (from_row r)) (actions (sh_db sh)))"

section \<open>Cancelling\<close>

text \<open>\<open>QueuedAction::cancel\<close>: an error of \<open>revert_local\<close> is only logged.\<close>

definition queued_action_cancel :: "('a, 'd, 'e, 'o) queued_action \<Rightarrow> 'd store \<Rightarrow> 'd store" where
  "queued_action_cancel q s =
     (case act_revert_local (qa_def q) (qa_id q) (qa_action q) (app s) of
        (_, _, d) \<Rightarrow> s\<lparr> app := d, qdb := snd (db_delete (qa_id q) (qdb s)) \<rparr>)"

text \<open>One round of cancelling: load, decode, cancel.\<close>

definition cancel_one ::
    "('a, 'd, 'e, 'o) factory \<Rightarrow> action_id \<Rightarrow> 'd store \<Rightarrow> ('e queued_error + queued_metadata) \<times> 'd store" where
  "cancel_one f i s =
     (case load i (qdb s) of
        None \<Rightarrow> (Err (ActionNotFound i), s)
      | Some action \<Rightarrow> (case decode_action f action of
            Inl e \<Rightarrow> (Err e, s)
          | Inr (decoded, md) \<Rightarrow> (Ok md, queued_action_cancel decoded s)))"

text \<open>
  The loop over \<open>remaining_actions\<close>, a stack whose top is the head. It keeps no record of the
  actions it has seen, so it ends only on a graph without cycles.
\<close>

partial_function (option) collect_dependees ::
    "(action_id, 't) topo_ops \<Rightarrow> queue_db \<Rightarrow> action_id list \<Rightarrow> 't \<Rightarrow> 't option" where
  "collect_dependees TO db remaining t =
     (case remaining of
        [] \<Rightarrow> Some t
      | i # rest \<Rightarrow>
          (let dependees = dependees_of_type i Required db
           in collect_dependees TO db (rev dependees @ rest)
                (fold (\<lambda>d. ts_add_dependency TO d i) dependees t)))"

partial_function (option) cancel_sorted ::
    "(action_id, 't) topo_ops \<Rightarrow> ('a, 'd, 'e, 'o) factory \<Rightarrow> 't \<Rightarrow> queued_metadata list \<Rightarrow> 'd store
     \<Rightarrow> (('e queued_error + queued_metadata list) \<times> 'd store) option" where
  "cancel_sorted TO f t cancelled s =
     (case ts_pop TO t of
        (None, _) \<Rightarrow> Some (Ok cancelled, s)
      | (Some i, t') \<Rightarrow> (case cancel_one f i s of
            (Inl e, s') \<Rightarrow> Some (Err e, s')
          | (Inr md, s') \<Rightarrow> cancel_sorted TO f t' (cancelled @ [md]) s'))"

declare collect_dependees.simps [code] cancel_sorted.simps [code]

definition cancel_action_with_dependees ::
    "(action_id, 't) topo_ops \<Rightarrow> ('a, 'd, 'e, 'o) factory \<Rightarrow> action_id \<Rightarrow> 'd store
     \<Rightarrow> (('e queued_error + queued_metadata list) \<times> 'd store) option" where
  "cancel_action_with_dependees TO f i s =
     (case collect_dependees TO (qdb s) [i] (ts_new TO) of
        None \<Rightarrow> None
      | Some sorter \<Rightarrow>
          if ts_is_empty TO sorter
          then (case cancel_one f i s of
                  (Inl e, s') \<Rightarrow> Some (Err e, s')
                | (Inr md, s') \<Rightarrow> Some (Ok [md], s'))
          else cancel_sorted TO f sorter [] s)"

definition send_all :: "'e broadcast_message list \<Rightarrow> ('a, 'd, 'e, 'o) shared \<Rightarrow> ('a, 'd, 'e, 'o) shared" where
  "send_all ms sh = fold send ms sh"

definition cancel ::
    "(action_id, 't) topo_ops \<Rightarrow> action_id \<Rightarrow> ('a, 'd, 'e, 'o) shared
     \<Rightarrow> (('e queued_error + action_id list) \<times> ('a, 'd, 'e, 'o) shared) option" where
  "cancel TO i sh =
     (case write_tx_opt (\<lambda>s. if has_executor i (qdb s) then Some (Err (ActionInExecution i), s)
                             else cancel_action_with_dependees TO (sh_factory sh) i s) (sh_store sh) of
        None \<Rightarrow> None
      | Some (Inl e, s) \<Rightarrow> Some (Err e, sh\<lparr> sh_store := s \<rparr>)
      | Some (Inr cancelled, s) \<Rightarrow>
          Some (Ok (map qm_id cancelled), send_all (map BcCancelled cancelled) (sh\<lparr> sh_store := s \<rparr>)))"

section \<open>Rebasing\<close>

definition queued_action_rebase ::
    "('a, 'd, 'e, 'o) queued_action \<Rightarrow> stored_action \<Rightarrow> queued_metadata \<Rightarrow> rebase_change_set \<Rightarrow> 'd store
     \<Rightarrow> ('e queued_error + unit) \<times> 'd store" where
  "queued_action_rebase q action md change_set s =
     (case act_rebase_local (qa_def q) (qa_id q) (qa_action q) change_set (app s) of
        (Inl e, a', d) \<Rightarrow> (Err (QueuedActionFailed (ActionFailed e) md), s\<lparr> app := d \<rparr>)
      | (Inr _, a', d) \<Rightarrow> (case set_action_state (qa_def q) a' action of
            Inl _ \<Rightarrow> (Err (QueuedDb CustomError), s\<lparr> app := d \<rparr>)
          | Inr action' \<Rightarrow> (Ok (), s\<lparr> app := d, qdb := update_action_state action' (qdb s) \<rparr>)))"

fun rebase_loop ::
    "('a, 'd, 'e, 'o) factory \<Rightarrow> rebase_change_set \<Rightarrow> action_id list \<Rightarrow> 'd store
     \<Rightarrow> ('e queued_error + unit) \<times> 'd store" where
  "rebase_loop f change_set [] s = (Ok (), s)"
| "rebase_loop f change_set (i # is) s =
     (case load i (qdb s) of
        None \<Rightarrow> (Err (ActionNotFound i), s)
      | Some action \<Rightarrow> (case decode_action f action of
            Inl e \<Rightarrow> (Err e, s)
          | Inr (decoded, md) \<Rightarrow> (case queued_action_rebase decoded action md change_set s of
                (Inl e, s') \<Rightarrow> (Err e, s')
              | (Inr _, s') \<Rightarrow> rebase_loop f change_set is s')))"

definition rebase_in ::
    "('a, 'd, 'e, 'o) factory \<Rightarrow> action_group \<Rightarrow> rebase_change_set \<Rightarrow> 'd store
     \<Rightarrow> ('e queued_error + unit) \<times> 'd store" where
  "rebase_in f g change_set s =
     (let is = rebase_action_order g (qdb s)
      in if is = [] then (Ok (), s) else rebase_loop f change_set is s)"

definition rebase ::
    "action_group \<Rightarrow> rebase_change_set \<Rightarrow> ('a, 'd, 'e, 'o) shared
     \<Rightarrow> ('e queued_error + unit) \<times> ('a, 'd, 'e, 'o) shared" where
  "rebase g change_set sh =
     (case write_tx (rebase_in (sh_factory sh) g change_set) (sh_store sh) of
        (r, s) \<Rightarrow> (r, sh\<lparr> sh_store := s \<rparr>))"

text \<open>\<open>RebaseChangeSet\<close>: a set of keys, here the list of its elements.\<close>

definition change_set_add :: "string \<Rightarrow> rebase_change_set \<Rightarrow> rebase_change_set" where
  "change_set_add k c = List.insert k c"

definition change_set_add_many :: "string list \<Rightarrow> rebase_change_set \<Rightarrow> rebase_change_set" where
  "change_set_add_many ks c = fold List.insert ks c"

definition change_set_contains :: "rebase_change_set \<Rightarrow> string \<Rightarrow> bool" where
  "change_set_contains c k = (k \<in> set c)"

definition change_set_from :: "string \<Rightarrow> rebase_change_set" where
  "change_set_from k = [k]"

section \<open>Executing\<close>

record queue_executor =
  ex_group :: action_group
  ex_id :: string

definition new_executor_with_group :: "string \<Rightarrow> action_group \<Rightarrow> queue_executor" where
  "new_executor_with_group uuid g = \<lparr> ex_group = g, ex_id = uuid \<rparr>"

definition new_executor :: "string \<Rightarrow> queue_executor" where
  "new_executor uuid = new_executor_with_group uuid default_group"

text \<open>
  While the server works, the executor wakes every 15 seconds and writes an empty transaction
  to keep its guard alive. Each wake-up is a pair: the clock, and what the other tasks did to
  the store since the last one.
\<close>

type_synonym 'd wakeup = "timestamp \<times> ('d store \<Rightarrow> 'd store)"

fun remote_wait ::
    "execution_guard \<Rightarrow> 'd wakeup list \<Rightarrow> 'd store \<Rightarrow> (execution_guard_error + unit) \<times> 'd store" where
  "remote_wait g [] s = (Ok (), s)"
| "remote_wait g ((now, others) # ws) s =
     (case guard_tx Expired g now (\<lambda>s. (Ok (), s)) (others s) of
        (Inl e, s') \<Rightarrow> (Err e, s')
      | (Inr _, s') \<Rightarrow> remote_wait g ws s')"

text \<open>The closure of the final transaction: the outcome and the actions it cancelled.\<close>

definition remote_finish ::
    "(action_id, 't) topo_ops \<Rightarrow> ('a, 'd, 'e, 'o) factory \<Rightarrow> ('a, 'd, 'e, 'o) action_def \<Rightarrow> action_id \<Rightarrow> 'e + 'o
     \<Rightarrow> 'd store
     \<Rightarrow> ((stash_error + ('e action_error + 'o action_remote_output) \<times> queued_metadata list) \<times> 'd store) option" where
  "remote_finish TO f T i result s =
     (let cancel_it = (\<lambda>e. case cancel_action_with_dependees TO f i s of
            None \<Rightarrow> None
          | Some (Inl _, s') \<Rightarrow> Some (Ok (Err (ActionFailed e), []), s')
          | Some (Inr ms, s') \<Rightarrow> Some (Ok (Err (ActionFailed e), ms), s'))
      in case result of
           Inr out \<Rightarrow> Some (Ok (Ok (Executed out), []), s\<lparr> qdb := snd (db_delete i (qdb s)) \<rparr>)
         | Inl e \<Rightarrow> (case act_can_requeue T e of
               None \<Rightarrow> cancel_it e
             | Some reason \<Rightarrow> (case get_retries i (qdb s) of
                   Inl se \<Rightarrow> Some (Ok (Err (QueueFailed (Db se)), []), s)
                 | Inr retries \<Rightarrow>
                     if (case act_max_retries T of Some m \<Rightarrow> m \<le> retries | None \<Rightarrow> False)
                     then cancel_it e
                     else Some (Ok (Ok (Queued i reason), []), s\<lparr> qdb := update_retries i (qdb s) \<rparr>))))"

text \<open>
  What the environment decides of one remote execution: the wake-ups before the result, the
  last change of the others and the clock at the end, and whether the task that ran the
  handler delivered a result (\<open>rx_delivered\<close>; a task that died delivers none, and what it did
  to the application's data is part of the others' changes).
\<close>

record 'd remote_schedule =
  rx_wakeups :: "'d wakeup list"
  rx_delivered :: bool
  rx_others :: "'d store \<Rightarrow> 'd store"
  rx_now :: timestamp

definition execute_action_remote ::
    "(action_id, 't) topo_ops \<Rightarrow> 'd remote_schedule \<Rightarrow> action_id \<Rightarrow> ('a, 'd, 'e, 'o) action_def \<Rightarrow> 'a
     \<Rightarrow> execution_guard \<Rightarrow> ('a, 'd, 'e, 'o) shared
     \<Rightarrow> (('e action_error + 'o action_remote_output) \<times> ('a, 'd, 'e, 'o) shared) option" where
  "execute_action_remote TO rx i T action g sh =
     (case act_apply_remote T i action (app (sh_store sh)) of (result, _, d) \<Rightarrow>
        (let s0 = (if rx_delivered rx then (sh_store sh)\<lparr> app := d \<rparr> else sh_store sh)
         in case remote_wait g (rx_wakeups rx) s0 of
              (Inl Expired, s1) \<Rightarrow> Some (Ok (Queued i GuardExpired), sh\<lparr> sh_store := s1 \<rparr>)
            | (Inl (StashFailed e), s1) \<Rightarrow> Some (Err (QueueFailed (Db e)), sh\<lparr> sh_store := s1 \<rparr>)
            | (Inr _, s1) \<Rightarrow>
                if \<not> rx_delivered rx
                then Some (Err (QueueFailed ActionRemoteTaskExec), sh\<lparr> sh_store := rx_others rx s1 \<rparr>)
                else (case tx_and_release g (rx_now rx) (remote_finish TO (sh_factory sh) T i result)
                             (rx_others rx s1) of
                    None \<Rightarrow> None
                  | Some (Inl Expired, s2) \<Rightarrow> Some (Ok (Queued i GuardExpired), sh\<lparr> sh_store := s2 \<rparr>)
                  | Some (Inl (StashFailed e), s2) \<Rightarrow> Some (Err (QueueFailed (Db e)), sh\<lparr> sh_store := s2 \<rparr>)
                  | Some (Inr (r, cancelled), s2) \<Rightarrow>
                      Some (r, send_all (map BcCancelled (filter (\<lambda>m. qm_id m \<noteq> i) cancelled))
                                 (sh\<lparr> sh_store := s2 \<rparr>)))))"

definition queued_action_execute ::
    "(action_id, 't) topo_ops \<Rightarrow> 'd remote_schedule \<Rightarrow> ('a, 'd, 'e, 'o) queued_action \<Rightarrow> execution_guard
     \<Rightarrow> queued_metadata \<Rightarrow> ('a, 'd, 'e, 'o) shared
     \<Rightarrow> (('e queued_error + queued_action_state) \<times> ('a, 'd, 'e, 'o) shared) option" where
  "queued_action_execute TO rx q g md sh =
     (case execute_action_remote TO rx (qa_id q) (qa_def q) (qa_action q) g sh of
        None \<Rightarrow> None
      | Some (Inl e, sh') \<Rightarrow> Some (Err (QueuedActionFailed e md), sh')
      | Some (Inr (Executed _), sh') \<Rightarrow> Some (Ok (StateExecuted (qa_id q)), sh')
      | Some (Inr (Queued i reason), sh') \<Rightarrow> Some (Ok (StateQueued i reason), sh'))"

text \<open>What one call of \<open>execute_impl\<close> reads from outside.\<close>

record 'd turn =
  tn_now :: timestamp
  tn_now' :: timestamp
  tn_pick :: "action_row list \<Rightarrow> action_row option"
  tn_remote :: "'d remote_schedule"

definition execute_impl ::
    "(action_id, 't) topo_ops \<Rightarrow> queue_executor \<Rightarrow> 'd turn \<Rightarrow> ('a, 'd, 'e, 'o) shared
     \<Rightarrow> (('e queued_error + queued_action_state option) \<times> ('a, 'd, 'e, 'o) shared) option" where
  "execute_impl TO ex tn sh =
     (case pop (tn_pick tn) (ex_id ex) (ex_group ex) (tn_now tn) (tn_now' tn) (sh_db sh) of
        (Inl e, db) \<Rightarrow> Some (Err (QueuedDb e), set_db db sh)
      | (Inr None, db) \<Rightarrow> Some (Ok None, set_db db sh)
      | (Inr (Some (g, action)), db) \<Rightarrow>
          (case decode_action (sh_factory sh) action of
             Inl e \<Rightarrow> Some (Err e, set_db (release g db) sh)
           | Inr (decoded, md) \<Rightarrow>
               (case queued_action_execute TO (tn_remote tn) decoded g md (set_db db sh) of
                  None \<Rightarrow> None
                | Some (Inl e, sh') \<Rightarrow>
                    Some (Err e, (case e of QueuedActionFailed err m \<Rightarrow> send (BcError err m) sh' | _ \<Rightarrow> sh'))
                | Some (Inr out, sh') \<Rightarrow> Some (Ok (Some out), send (BcSuccess (unwrap_id action) md) sh'))))"

definition execute_one ::
    "(action_id, 't) topo_ops \<Rightarrow> queue_executor \<Rightarrow> 'd turn \<Rightarrow> ('a, 'd, 'e, 'o) shared
     \<Rightarrow> (('e queued_error + queued_action_state option) \<times> ('a, 'd, 'e, 'o) shared) option" where
  "execute_one = execute_impl"

text \<open>
  \<open>execute_all\<close>: one turn per iteration; running out of turns is \<open>None\<close>, like a turn that
  does not return.
\<close>

fun execute_all ::
    "(action_id, 't) topo_ops \<Rightarrow> queue_executor \<Rightarrow> 'd turn list \<Rightarrow> nat \<Rightarrow> ('a, 'd, 'e, 'o) shared
     \<Rightarrow> (('e queued_error + nat) \<times> ('a, 'd, 'e, 'o) shared) option" where
  "execute_all TO ex [] counter sh = None"
| "execute_all TO ex (tn # tns) counter sh =
     (case execute_impl TO ex tn sh of
        None \<Rightarrow> None
      | Some (Inl e, sh') \<Rightarrow> Some (Err e, sh')
      | Some (Inr (Some (StateExecuted _)), sh') \<Rightarrow> execute_all TO ex tns (counter + 1) sh'
      | Some (Inr _, sh') \<Rightarrow> Some (Ok counter, sh'))"

section \<open>The automatic executor\<close>

text \<open>\<open>QueueAutoTerminationPolicy\<close>: a set of flags in a byte.\<close>

type_synonym termination_policy = u8

definition policy_never :: termination_policy where "policy_never = 0"
definition policy_empty :: termination_policy where "policy_empty = push_bit 0 1"
definition policy_network_loss :: termination_policy where "policy_network_loss = push_bit 1 1"
definition policy_empty_or_network_loss :: termination_policy where
  "policy_empty_or_network_loss = or policy_empty policy_network_loss"

definition intersects :: "termination_policy \<Rightarrow> termination_policy \<Rightarrow> bool" where
  "intersects p q = (and p q \<noteq> 0)"

definition is_empty_policy :: "termination_policy \<Rightarrow> bool" where
  "is_empty_policy p = intersects p policy_empty"

definition is_network_loss_policy :: "termination_policy \<Rightarrow> bool" where
  "is_network_loss_policy p = intersects p policy_network_loss"

datatype followup = WaitForAction | WaitForNetwork | PickNextAction

text \<open>The first \<open>match\<close> of the loop of \<open>run\<close>; \<open>None\<close> is \<open>return\<close>.\<close>

definition followup_of ::
    "termination_policy \<Rightarrow> 'e queued_error + queued_action_state option \<Rightarrow> followup option" where
  "followup_of policy r =
     (case r of
        Inr None \<Rightarrow> Some WaitForAction
      | Inr (Some (StateQueued _ LostContext)) \<Rightarrow> Some WaitForAction
      | Inr (Some (StateQueued _ NetworkFailed)) \<Rightarrow>
          if is_network_loss_policy policy then None else Some WaitForNetwork
      | Inr (Some (StateExecuted _)) \<Rightarrow> Some PickNextAction
      | Inr (Some (StateQueued _ GuardExpired)) \<Rightarrow> Some PickNextAction
      | Inl _ \<Rightarrow> Some PickNextAction)"

text \<open>Whether the second \<open>match\<close> returns: nothing to wait for and the queue is empty.\<close>

definition stops_when_empty :: "termination_policy \<Rightarrow> followup \<Rightarrow> queue_db \<Rightarrow> bool" where
  "stops_when_empty policy fu db = (fu = WaitForAction \<and> is_empty_policy policy \<and> pending_count db = 0)"

text \<open>
  The loop of \<open>run\<close> over a list of turns. Between two turns the executor waits (for the resume
  signal, a notification, the network); what the others do meanwhile is part of the turn. The
  result is the state and whether the executor stopped by itself.
\<close>

fun auto_run ::
    "(action_id, 't) topo_ops \<Rightarrow> queue_executor \<Rightarrow> termination_policy
     \<Rightarrow> ((('a, 'd, 'e, 'o) shared \<Rightarrow> ('a, 'd, 'e, 'o) shared) \<times> 'd turn) list \<Rightarrow> ('a, 'd, 'e, 'o) shared
     \<Rightarrow> (bool \<times> ('a, 'd, 'e, 'o) shared) option" where
  "auto_run TO ex policy [] sh = Some (False, sh)"
| "auto_run TO ex policy ((others, tn) # tns) sh =
     (case execute_one TO ex tn (others sh) of
        None \<Rightarrow> None
      | Some (r, sh') \<Rightarrow> (case followup_of policy r of
            None \<Rightarrow> Some (True, sh')
          | Some fu \<Rightarrow>
              if stops_when_empty policy fu (sh_db sh') then Some (True, sh')
              else auto_run TO ex policy tns sh'))"

section \<open>The executors of a pool\<close>

record auto_executor =
  ae_executor :: queue_executor
  ae_policy :: termination_policy
  ae_paused :: bool
  ae_aborted :: bool

definition into_auto_executor_with_policy :: "queue_executor \<Rightarrow> bool \<Rightarrow> termination_policy \<Rightarrow> auto_executor" where
  "into_auto_executor_with_policy ex start_paused policy =
     \<lparr> ae_executor = ex, ae_policy = policy, ae_paused = start_paused, ae_aborted = False \<rparr>"

definition into_auto_executor :: "queue_executor \<Rightarrow> bool \<Rightarrow> auto_executor" where
  "into_auto_executor ex start_paused = into_auto_executor_with_policy ex start_paused policy_never"

definition auto_pause :: "auto_executor \<Rightarrow> auto_executor" where
  "auto_pause e = e\<lparr> ae_paused := True \<rparr>"

definition auto_resume :: "auto_executor \<Rightarrow> auto_executor" where
  "auto_resume e = e\<lparr> ae_paused := False \<rparr>"

definition auto_terminate :: "auto_executor \<Rightarrow> auto_executor" where
  "auto_terminate e = e\<lparr> ae_aborted := True \<rparr>"

definition pool_with_termination_policy ::
    "(nat \<Rightarrow> string) \<Rightarrow> action_group \<Rightarrow> nat \<Rightarrow> bool \<Rightarrow> termination_policy \<Rightarrow> auto_executor list" where
  "pool_with_termination_policy uuid g count start_paused policy =
     map (\<lambda>k. into_auto_executor_with_policy (new_executor_with_group (uuid k) g) start_paused policy) [0..<count]"

definition pool_new :: "(nat \<Rightarrow> string) \<Rightarrow> action_group \<Rightarrow> nat \<Rightarrow> bool \<Rightarrow> auto_executor list" where
  "pool_new uuid g count start_paused = pool_with_termination_policy uuid g count start_paused policy_never"

definition pool_pause :: "auto_executor list \<Rightarrow> auto_executor list" where
  "pool_pause = map auto_pause"

definition pool_resume :: "auto_executor list \<Rightarrow> auto_executor list" where
  "pool_resume = map auto_resume"

definition pool_terminate :: "auto_executor list \<Rightarrow> auto_executor list" where
  "pool_terminate = map auto_terminate"

definition worker_count :: "auto_executor list \<Rightarrow> nat" where
  "worker_count = length"

section \<open>Observers\<close>

text \<open>
  What a broadcast receiver returns, one after the other: a message, \<open>Lagged\<close>, or \<open>Closed\<close>. A
  list is what the observer will see; the end of the list is waiting for more (\<open>None\<close>).
\<close>

datatype 'm recv = Message 'm | Lagged | Closed

datatype 'e failure_reason = FailError "'e action_error" queued_metadata | FailCancelled queued_metadata
  | FailDeleted action_id

fun failure_next :: "type_id \<Rightarrow> 'e broadcast_message recv list
    \<Rightarrow> ((unit + 'e failure_reason) \<times> 'e broadcast_message recv list) option" where
  "failure_next t [] = None"
| "failure_next t (Message m # rs) =
     (case m of
        BcError err md \<Rightarrow> if qm_action_type md = t then Some (Ok (FailError err md), rs) else failure_next t rs
      | BcCancelled md \<Rightarrow> if qm_action_type md = t then Some (Ok (FailCancelled md), rs) else failure_next t rs
      | BcDeleted i t' \<Rightarrow> if t' = t then Some (Ok (FailDeleted i), rs) else failure_next t rs
      | _ \<Rightarrow> failure_next t rs)"
| "failure_next t (Closed # rs) = Some (Err (), rs)"
| "failure_next t (Lagged # rs) = failure_next t rs"

fun awaiter_wait :: "action_id \<Rightarrow> 'e broadcast_message recv list
    \<Rightarrow> ((unit + 'e broadcast_message) \<times> 'e broadcast_message recv list) option" where
  "awaiter_wait i [] = None"
| "awaiter_wait i (Message m # rs) =
     (case m of
        BcSuccess j _ \<Rightarrow> if j = i then Some (Ok m, rs) else awaiter_wait i rs
      | BcDeleted j _ \<Rightarrow> if j = i then Some (Ok m, rs) else awaiter_wait i rs
      | BcError _ md \<Rightarrow> if qm_id md = i then Some (Ok m, rs) else awaiter_wait i rs
      | BcCancelled md \<Rightarrow> if qm_id md = i then Some (Ok m, rs) else awaiter_wait i rs
      | BcQueued _ _ \<Rightarrow> awaiter_wait i rs)"
| "awaiter_wait i (Closed # rs) = Some (Err (), rs)"
| "awaiter_wait i (Lagged # rs) = awaiter_wait i rs"

end
