(* ===== verification/Action_Db_Inv.thy ===== *)
theory Action_Db_Inv
  imports Action_Db
begin

text \<open>
  The integrity of the queue's tables and its preservation by every operation of \<open>Action_Db\<close>.
  The invariant has five parts: identifiers are unique and below the next one; the foreign keys
  hold; the primary and unique keys hold; an action that has an executor waits for no other
  action; the dependency graph is acyclic. The first four are kept by every table operation;
  acyclicity is what the cycle check of the queue re-establishes after new dependencies.
\<close>

section \<open>The invariant\<close>

definition dep_pair :: "dep_row \<Rightarrow> action_id \<times> action_id" where
  "dep_pair d = (dr_action d, dr_dependency d)"

definition dep_rel :: "queue_db \<Rightarrow> (action_id \<times> action_id) set" where
  "dep_rel db = dep_pair ` set (deps db)"

definition ids_ok :: "queue_db \<Rightarrow> bool" where
  "ids_ok db = (distinct (map ar_id (actions db)) \<and> 0 < next_id db \<and> (\<forall>i \<in> ids db. 0 < i \<and> i < next_id db))"

definition fk_ok :: "queue_db \<Rightarrow> bool" where
  "fk_ok db = (dep_rel db \<subseteq> ids db \<times> ids db \<and> lk_action ` set (locks db) \<subseteq> ids db
     \<and> snd ` set (key_deps db) \<subseteq> ids db \<and> fst ` set (resources db) \<subseteq> ids db)"

definition executors_unique :: "lock_row list \<Rightarrow> bool" where
  "executors_unique ls = (\<forall>l \<in> set ls. \<forall>k \<in> set ls. \<forall>ex.
     lk_executor l = Some ex \<longrightarrow> lk_executor k = Some ex \<longrightarrow> lk_action l = lk_action k)"

definition unique_ok :: "queue_db \<Rightarrow> bool" where
  "unique_ok db = (distinct (map dep_pair (deps db)) \<and> distinct (map lk_action (locks db))
     \<and> distinct (map fst (resources db))
     \<and> executors_unique (locks db))"

definition executing :: "queue_db \<Rightarrow> action_id set" where
  "executing db = lk_action ` {l \<in> set (locks db). lk_executor l \<noteq> None}"

definition exec_ok :: "queue_db \<Rightarrow> bool" where
  "exec_ok db = (\<forall>i \<in> executing db. i \<notin> fst ` dep_rel db)"

definition tables_ok :: "queue_db \<Rightarrow> bool" where
  "tables_ok db = (ids_ok db \<and> fk_ok db \<and> unique_ok db \<and> exec_ok db)"

definition queue_inv :: "queue_db \<Rightarrow> bool" where
  "queue_inv db = (tables_ok db \<and> acyclic (dep_rel db))"

lemmas inv_defs = tables_ok_def ids_ok_def fk_ok_def unique_ok_def exec_ok_def

lemma empty_db_inv: "queue_inv empty_db"
  by (simp add: queue_inv_def inv_defs empty_db_def ids_def dep_rel_def executing_def acyclic_def
      executors_unique_def)

section \<open>Lookups\<close>

lemma find_row_Some: "find_row i db = Some r \<Longrightarrow> r \<in> set (actions db) \<and> ar_id r = i"
  by (auto simp: find_row_def find_Some_iff)

lemma find_row_None: "find_row i db = None \<longleftrightarrow> i \<notin> ids db"
  by (auto simp: find_row_def find_None_iff ids_def)

lemma find_row_unique:
  assumes "ids_ok db" and "r \<in> set (actions db)"
  shows "find_row (ar_id r) db = Some r"
proof -
  from assms(2) have "find_row (ar_id r) db \<noteq> None" by (auto simp: find_row_None ids_def)
  then obtain q where q: "find_row (ar_id r) db = Some q" by auto
  then have "q \<in> set (actions db)" "ar_id q = ar_id r" by (auto dest: find_row_Some)
  with assms have "q = r" by (auto simp: ids_ok_def distinct_map dest: inj_onD)
  with q show ?thesis by simp
qed

lemma finite_dep_rel [simp]: "finite (dep_rel db)"
  by (simp add: dep_rel_def)

lemma load_id: "load i db = Some s \<Longrightarrow> sa_id s = Some i \<and> unwrap_id s = i"
  by (auto simp: load_def after_load_def from_row_def unwrap_id_def Let_def
      dest!: find_row_Some split: option.splits)

lemma after_load_fields:
  "sa_id (after_load db (from_row r)) = Some (ar_id r)"
  "unwrap_id (after_load db (from_row r)) = ar_id r"
  "sa_action_type (after_load db (from_row r)) = ar_action_type r"
  "sa_priority (after_load db (from_row r)) = ar_priority r"
  "sa_action_group (after_load db (from_row r)) = ar_action_group r"
  "sa_retries (after_load db (from_row r)) = ar_retries r"
  "sa_state (after_load db (from_row r)) = ar_state r"
  "sa_version (after_load db (from_row r)) = ar_version r"
  by (auto simp: after_load_def from_row_def unwrap_id_def Let_def split: option.splits)

lemma load_None: "load i db = None \<longleftrightarrow> i \<notin> ids db"
  by (simp add: load_def find_row_None)

lemma mem_dependencies: "d \<in> set (all_dependencies i db) \<Longrightarrow> (i, dependency_id d) \<in> dep_rel db"
  by (auto simp: all_dependencies_def dep_rel_def dep_pair_def image_iff)

lemma dependencies_ids: "dependency_id ` set (all_dependencies i db) = dep_rel db `` {i}"
  by (force simp: all_dependencies_def dep_rel_def dep_pair_def image_iff)

lemma lock_of_Some: "lock_of i db = Some l \<Longrightarrow> l \<in> set (locks db) \<and> lk_action l = i"
  by (auto simp: lock_of_def find_Some_iff)

lemma lock_of_None: "lock_of i db = None \<longleftrightarrow> i \<notin> lk_action ` set (locks db)"
  by (auto simp: lock_of_def find_None_iff)

lemma lock_of_unique:
  assumes "unique_ok db" and "l \<in> set (locks db)"
  shows "lock_of (lk_action l) db = Some l"
proof -
  from assms(2) have "lock_of (lk_action l) db \<noteq> None" by (auto simp: lock_of_None)
  then obtain k where k: "lock_of (lk_action l) db = Some k" by auto
  then have "k \<in> set (locks db)" "lk_action k = lk_action l" by (auto dest: lock_of_Some)
  with assms have "k = l" by (auto simp: unique_ok_def distinct_map dest: inj_onD)
  with k show ?thesis by simp
qed

lemma has_executor_iff: "unique_ok db \<Longrightarrow> has_executor i db \<longleftrightarrow> i \<in> executing db"
proof
  assume "has_executor i db"
  then show "i \<in> executing db"
    by (auto simp: has_executor_def executing_def dest!: lock_of_Some split: option.splits)
next
  assume u: "unique_ok db" and "i \<in> executing db"
  then obtain l where "l \<in> set (locks db)" "lk_action l = i" "lk_executor l \<noteq> None"
    by (auto simp: executing_def)
  with lock_of_unique [OF u, of l] show "has_executor i db" by (auto simp: has_executor_def)
qed

section \<open>Deleting rows\<close>

lemma ids_delete_where: "ids (delete_where P db) = ar_id ` {r \<in> set (actions db). \<not> P r}"
  by (simp add: ids_def delete_where_def)

lemma dep_rel_delete_where:
  "dep_rel (delete_where P db) = {e \<in> dep_rel db. fst e \<notin> ar_id ` {r \<in> set (actions db). P r}
     \<and> snd e \<notin> ar_id ` {r \<in> set (actions db). P r}}"
  by (auto simp: dep_rel_def delete_where_def dep_pair_def Let_def)

lemma executing_delete_where: "executing (delete_where P db) \<subseteq> executing db"
  by (auto simp: executing_def delete_where_def Let_def)

lemma next_id_delete_where [simp]: "next_id (delete_where P db) = next_id db"
  by (simp add: delete_where_def Let_def)

lemma distinct_map_filterI: "distinct (map f xs) \<Longrightarrow> distinct (map f (filter P xs))"
  by (rule distinct_map_filter)

lemma ids_ok_delete_where: "ids_ok db \<Longrightarrow> ids_ok (delete_where P db)"
  by (auto simp: ids_ok_def ids_def delete_where_def Let_def distinct_map_filterI)

lemma ids_survive:
  "i \<in> ids db \<Longrightarrow> i \<notin> ar_id ` {r \<in> set (actions db). P r} \<Longrightarrow> i \<in> ids (delete_where P db)"
  by (simp add: ids_delete_where) (auto simp: ids_def)

lemma gone_set: "set (map ar_id (filter P (actions db))) = ar_id ` {r \<in> set (actions db). P r}"
  by simp

lemma fk_ok_delete_where:
  assumes "fk_ok db"
  shows "fk_ok (delete_where P db)"
proof -
  let ?gone = "ar_id ` {r \<in> set (actions db). P r}"
  have keep: "S - ?gone \<subseteq> ids (delete_where P db)" if "S \<subseteq> ids db" for S
    using that ids_survive by blast
  have "dep_rel (delete_where P db) \<subseteq> ids (delete_where P db) \<times> ids (delete_where P db)"
    using assms unfolding dep_rel_delete_where fk_ok_def by (force intro: ids_survive)
  moreover have "lk_action ` set (locks (delete_where P db)) \<subseteq> lk_action ` set (locks db) - ?gone"
    "snd ` set (key_deps (delete_where P db)) \<subseteq> snd ` set (key_deps db) - ?gone"
    "fst ` set (resources (delete_where P db)) \<subseteq> fst ` set (resources db) - ?gone"
    by (auto simp: delete_where_def Let_def)
  ultimately show ?thesis using assms keep unfolding fk_ok_def by (meson order_trans)
qed

lemma executors_unique_subset: "executors_unique ls \<Longrightarrow> set ks \<subseteq> set ls \<Longrightarrow> executors_unique ks"
  unfolding executors_unique_def by blast

lemma executors_unique_filter: "executors_unique ls \<Longrightarrow> executors_unique (filter P ls)"
  by (erule executors_unique_subset) auto

lemma unique_ok_delete_where: "unique_ok db \<Longrightarrow> unique_ok (delete_where P db)"
  by (auto simp: executors_unique_filter unique_ok_def delete_where_def Let_def distinct_map_filterI)

lemma exec_ok_delete_where: "exec_ok db \<Longrightarrow> exec_ok (delete_where P db)"
  using executing_delete_where [of P db] unfolding exec_ok_def dep_rel_delete_where by fastforce

lemma tables_ok_delete_where: "tables_ok db \<Longrightarrow> tables_ok (delete_where P db)"
  by (simp add: tables_ok_def ids_ok_delete_where fk_ok_delete_where unique_ok_delete_where
      exec_ok_delete_where)

lemma queue_inv_delete_where: "queue_inv db \<Longrightarrow> queue_inv (delete_where P db)"
  unfolding queue_inv_def
  by (auto simp: tables_ok_delete_where dep_rel_delete_where elim!: acyclic_mono)

lemma ids_db_delete: "ids (snd (db_delete i db)) = ids db - {i}"
  unfolding db_delete_def snd_conv ids_delete_where by (auto simp: ids_def)

lemma dep_rel_db_delete:
  assumes "fk_ok db"
  shows "dep_rel (snd (db_delete i db)) = {e \<in> dep_rel db. fst e \<noteq> i \<and> snd e \<noteq> i}"
  using assms unfolding db_delete_def snd_conv dep_rel_delete_where fk_ok_def ids_def by auto

section \<open>Operations on single tables\<close>

text \<open>Operations that leave ids, dependencies, locks and keys alone.\<close>

lemma queue_inv_rows:
  assumes "queue_inv db" and "\<And>r. ar_id (f r) = ar_id r"
  shows "queue_inv (db\<lparr> actions := map f (actions db) \<rparr>)"
  using assms
  by (simp add: queue_inv_def inv_defs ids_def dep_rel_def executing_def image_image comp_def)

lemma queue_inv_update_action_state: "queue_inv db \<Longrightarrow> queue_inv (update_action_state s db)"
  unfolding update_action_state_def by (rule queue_inv_rows) auto

lemma queue_inv_update_retries: "queue_inv db \<Longrightarrow> queue_inv (update_retries i db)"
  unfolding update_retries_def by (rule queue_inv_rows) auto

text \<open>A change of lock rows that keeps their actions and starts no execution.\<close>

lemma queue_inv_locks:
  assumes inv: "queue_inv db"
    and act: "\<And>l. lk_action (f l) = lk_action l"
    and exe: "\<And>l. lk_executor (f l) = lk_executor l \<or> lk_executor (f l) = None"
  shows "queue_inv (db\<lparr> locks := map f (locks db) \<rparr>)"
proof -
  have "executing (db\<lparr> locks := map f (locks db) \<rparr>) \<subseteq> executing db"
    unfolding executing_def by (auto simp: act image_iff) (metis exe option.distinct(1))
  moreover have "executors_unique (map f (locks db))"
    using inv exe unfolding queue_inv_def tables_ok_def unique_ok_def executors_unique_def
    by (simp add: act) (metis option.distinct(1))
  then have "unique_ok (db\<lparr> locks := map f (locks db) \<rparr>)"
    using inv by (simp add: queue_inv_def tables_ok_def unique_ok_def comp_def act)
  ultimately show ?thesis
    using inv
    by (auto simp: queue_inv_def tables_ok_def ids_ok_def fk_ok_def exec_ok_def ids_def dep_rel_def
        image_image act)
qed

lemma queue_inv_release: "queue_inv db \<Longrightarrow> queue_inv (release g db)"
  unfolding release_def by (rule queue_inv_locks) auto

lemma queue_inv_guard_touch: "queue_inv db \<Longrightarrow> queue_inv (snd (guard_touch g now db))"
  unfolding guard_touch_def snd_conv by (rule queue_inv_locks) auto

lemma queue_inv_clear_slate_state:
  assumes "queue_inv db"
  shows "queue_inv (clear_slate_state ex db)"
  using assms
  by (auto simp: queue_inv_def inv_defs clear_slate_state_def ids_def dep_rel_def executing_def
      distinct_map_filterI executors_unique_filter)

section \<open>Acquiring an action\<close>

text \<open>What SQL promises of \<open>LIMIT 1\<close>: some row of the result, none only if it is empty.\<close>

definition picks_row :: "(action_row list \<Rightarrow> action_row option) \<Rightarrow> bool" where
  "picks_row pick = (\<forall>rs. (pick rs = None \<longleftrightarrow> rs = []) \<and> (\<forall>r. pick rs = Some r \<longrightarrow> r \<in> set rs))"

lemma ranks_before_wf:
  assumes "rs \<noteq> []"
  shows "first_ranked rs \<noteq> []"
proof -
  let ?key = "\<lambda>r. (priority_to_sql (ar_priority r), ar_created r)"
  define p where "p = Min ((\<lambda>r. priority_to_sql (ar_priority r)) ` set rs)"
  define S where "S = {r \<in> set rs. priority_to_sql (ar_priority r) = p}"
  have "p \<in> (\<lambda>r. priority_to_sql (ar_priority r)) ` set rs"
    unfolding p_def using assms by (intro Min_in) auto
  then have ne: "S \<noteq> {}" by (auto simp: S_def)
  define c where "c = Min (ar_created ` S)"
  have "finite S" by (simp add: S_def)
  then have "c \<in> ar_created ` S" unfolding c_def using ne by (intro Min_in) auto
  then obtain r where r: "r \<in> S" "ar_created r = c" by auto
  have "\<not> ranks_before q r" if q: "q \<in> set rs" for q
  proof -
    have "p \<le> priority_to_sql (ar_priority q)" unfolding p_def using q by simp
    moreover have "c \<le> ar_created q" if "priority_to_sql (ar_priority q) = p"
      unfolding c_def using q that \<open>finite S\<close> by (intro Min_le) (auto simp: S_def)
    ultimately show ?thesis using r by (auto simp: ranks_before_def S_def)
  qed
  with r show ?thesis unfolding first_ranked_def by (auto simp: filter_empty_conv S_def)
qed

lemma first_ranked_Nil: "first_ranked [] = []"
  by (simp add: first_ranked_def)

lemma next_with_timeout_Some:
  assumes "picks_row pick" and "next_with_timeout pick g timeout now db = Some a"
  shows "\<exists>r \<in> set (actions db). a = after_load db (from_row r) \<and> eligible g timeout now db r
    \<and> (\<forall>q \<in> set (actions db). eligible g timeout now db q \<longrightarrow> \<not> ranks_before q r)"
proof -
  from assms(2) obtain r where a: "a = after_load db (from_row r)"
    and p: "pick (first_ranked (filter (eligible g timeout now db) (actions db))) = Some r"
    by (auto simp: next_with_timeout_def)
  from assms(1) p have "r \<in> set (first_ranked (filter (eligible g timeout now db) (actions db)))"
    unfolding picks_row_def by blast
  with a show ?thesis by (auto simp: first_ranked_def)
qed

lemma next_with_timeout_None:
  assumes "picks_row pick"
  shows "next_with_timeout pick g timeout now db = None
    \<longleftrightarrow> (\<forall>r \<in> set (actions db). \<not> eligible g timeout now db r)"
proof -
  let ?rs = "filter (eligible g timeout now db) (actions db)"
  have "next_with_timeout pick g timeout now db = None \<longleftrightarrow> first_ranked ?rs = []"
    using assms unfolding next_with_timeout_def picks_row_def by simp
  also have "\<dots> \<longleftrightarrow> ?rs = []"
    using ranks_before_wf [of ?rs] first_ranked_Nil by metis
  finally show ?thesis by (simp add: filter_empty_conv)
qed

lemma eligible_no_deps: "eligible g timeout now db r \<Longrightarrow> ar_id r \<notin> fst ` dep_rel db"
  by (auto simp: eligible_def dep_rel_def dep_pair_def filter_empty_conv)

lemma acquire_locks:
  assumes "acquire_with_timestamp i ex now db = (Ok gd, db')"
  shows "actions db' = actions db \<and> next_id db' = next_id db \<and> deps db' = deps db
    \<and> key_deps db' = key_deps db \<and> resources db' = resources db
    \<and> eg_action gd = i
    \<and> (\<forall>l \<in> set (locks db). lk_action l \<noteq> i \<longrightarrow> lk_executor l \<noteq> Some ex)"
  using assms by (auto simp: acquire_with_timestamp_def split: if_splits option.splits)

lemma acquire_fresh:
  assumes "acquire_with_timestamp i ex now db = (Ok gd, db')" and "lock_of i db = None"
  shows "i \<in> ids db \<and> eg_permit gd = 1
    \<and> locks db' = locks db @ [\<lparr> lk_action = i, lk_executor = Some ex, lk_acquired = SqlTime now, lk_permit = 1 \<rparr>]"
  using assms find_row_None [of i db] by (auto simp: acquire_with_timestamp_def split: if_splits)

lemma acquire_again:
  assumes "acquire_with_timestamp i ex now db = (Ok gd, db')" and "lock_of i db = Some l"
  shows "eg_permit gd = lk_permit l + 1
    \<and> locks db' = map (\<lambda>k. if lk_action k = i
         then k\<lparr> lk_executor := Some ex, lk_permit := lk_permit k + 1, lk_acquired := SqlTime now \<rparr>
         else k) (locks db)"
  using assms by (auto simp: acquire_with_timestamp_def split: if_splits)

lemma acquire_executor:
  assumes acq: "acquire_with_timestamp i ex now db = (Ok gd, db')"
    and m: "m \<in> set (locks db')" "lk_action m = i"
  shows "lk_executor m = Some ex"
proof (cases "lock_of i db")
  case None
  then have "m \<notin> set (locks db)" using m(2) by (auto simp: lock_of_None)
  with m(1) acquire_fresh [OF acq None]
  have "m = \<lparr> lk_action = i, lk_executor = Some ex, lk_acquired = SqlTime now, lk_permit = 1 \<rparr>" by simp
  then show ?thesis by (metis lock_row.select_convs(2))
next
  case (Some l)
  from m(1) acquire_again [OF acq Some] obtain k where
    k: "m = (if lk_action k = i
       then k\<lparr> lk_executor := Some ex, lk_permit := lk_permit k + 1, lk_acquired := SqlTime now \<rparr> else k)"
    by (elim conjE) (simp only: set_map image_iff, blast)
  show ?thesis
  proof (cases "lk_action k = i")
    case True
    with k show ?thesis by (simp only: if_True) simp
  next
    case False
    with k m(2) show ?thesis by simp
  qed
qed

lemma queue_inv_acquire:
  assumes inv: "queue_inv db" and nodep: "i \<notin> fst ` dep_rel db"
    and acq: "acquire_with_timestamp i ex now db = (Ok gd, db')"
  shows "queue_inv db'"
proof -
  note same = acquire_locks [OF acq]
  have act: "lk_action ` set (locks db') \<subseteq> ids db \<and> distinct (map lk_action (locks db'))
      \<and> executing db' \<subseteq> insert i (executing db)
      \<and> (\<forall>l \<in> set (locks db'). lk_action l \<noteq> i \<longrightarrow> l \<in> set (locks db))"
  proof (cases "lock_of i db")
    case None
    then show ?thesis
      using acquire_fresh [OF acq None] inv
      by (auto simp: queue_inv_def inv_defs executing_def lock_of_None)
  next
    case (Some l)
    have "map lk_action (locks db') = map lk_action (locks db)"
      using acquire_again [OF acq Some] by auto
    then have "distinct (map lk_action (locks db'))"
      "set (map lk_action (locks db')) = set (map lk_action (locks db))"
      using inv by (simp_all add: queue_inv_def tables_ok_def unique_ok_def del: set_map)
    moreover have "executing db' \<subseteq> insert i (executing db)"
      "\<forall>l \<in> set (locks db'). lk_action l \<noteq> i \<longrightarrow> l \<in> set (locks db)"
      using acquire_again [OF acq Some] by (auto simp: executing_def)
    ultimately show ?thesis using inv by (simp add: queue_inv_def tables_ok_def fk_ok_def)
  qed
  have "executors_unique (locks db')"
    unfolding executors_unique_def
  proof (intro ballI allI impI)
    fix l k e
    assume l: "l \<in> set (locks db')" "k \<in> set (locks db')" "lk_executor l = Some e" "lk_executor k = Some e"
    note exi = acquire_executor [OF acq]
    have "executors_unique (locks db)" using inv by (simp add: queue_inv_def tables_ok_def unique_ok_def)
    then show "lk_action l = lk_action k"
      using l exi act same unfolding executors_unique_def by (metis option.inject)
  qed
  moreover have "dep_rel db' = dep_rel db" "ids db' = ids db"
    using same by (simp_all add: dep_rel_def ids_def)
  moreover have "exec_ok db'"
    using inv act nodep calculation(2) unfolding queue_inv_def tables_ok_def exec_ok_def by blast
  ultimately show ?thesis
    using inv act same by (simp add: queue_inv_def tables_ok_def ids_ok_def fk_ok_def unique_ok_def)
qed

lemma clear_slate_state_tables:
  "actions (clear_slate_state ex db) = actions db" "deps (clear_slate_state ex db) = deps db"
  "next_id (clear_slate_state ex db) = next_id db"
  by (simp_all add: clear_slate_state_def)

lemma dep_rel_clear [simp]: "dep_rel (clear_slate_state ex db) = dep_rel db"
  by (simp add: dep_rel_def clear_slate_state_tables)

lemma ids_clear [simp]: "ids (clear_slate_state ex db) = ids db"
  by (simp add: ids_def clear_slate_state_tables)

text \<open>Popping never fails on a consistent database: the stale rows of the executor are gone.\<close>

lemma pop_cases:
  assumes "queue_inv db" and "picks_row pick"
  obtains (Empty) "pop pick ex g now now' db = (Ok None, clear_slate_state ex db)"
      "\<forall>r \<in> set (actions db). \<not> eligible g default_lock_timeout now (clear_slate_state ex db) r"
    | (Action) r gd db' where "r \<in> set (actions db)"
      "eligible g default_lock_timeout now (clear_slate_state ex db) r"
      "\<forall>q \<in> set (actions db). eligible g default_lock_timeout now (clear_slate_state ex db) q
         \<longrightarrow> \<not> ranks_before q r"
      "acquire_with_timestamp (ar_id r) ex now' (clear_slate_state ex db) = (Ok gd, db')"
      "pop pick ex g now now' db
         = (Ok (Some (gd, after_load (clear_slate_state ex db) (from_row r))), db')"
proof (cases "next_action pick g now (clear_slate_state ex db)")
  case None
  then have "pop pick ex g now now' db = (Ok None, clear_slate_state ex db)"
    by (simp add: pop_def write_tx_def Let_def)
  moreover have "\<forall>r \<in> set (actions db). \<not> eligible g default_lock_timeout now (clear_slate_state ex db) r"
    using None next_with_timeout_None [OF assms(2)]
    by (simp add: next_action_def clear_slate_state_tables)
  ultimately show ?thesis by (rule Empty)
next
  case (Some a)
  let ?db = "clear_slate_state ex db"
  from next_with_timeout_Some [OF assms(2) Some [unfolded next_action_def]]
  obtain r where r: "r \<in> set (actions db)" and a: "a = after_load ?db (from_row r)"
    and el: "eligible g default_lock_timeout now ?db r"
    and best: "\<forall>q \<in> set (actions db). eligible g default_lock_timeout now ?db q \<longrightarrow> \<not> ranks_before q r"
    by (auto simp: clear_slate_state_tables)
  have "\<not> (\<exists>l \<in> set (locks ?db). lk_action l \<noteq> ar_id r \<and> lk_executor l = Some ex)"
    by (auto simp: clear_slate_state_def)
  moreover have "find_row (ar_id r) ?db \<noteq> None"
    using r by (auto simp: find_row_None ids_def clear_slate_state_tables)
  ultimately have "\<exists>gd db'. acquire_with_timestamp (ar_id r) ex now' ?db = (Ok gd, db')"
    by (cases "lock_of (ar_id r) ?db") (simp_all add: acquire_with_timestamp_def)
  then obtain gd db' where acq: "acquire_with_timestamp (ar_id r) ex now' ?db = (Ok gd, db')"
    by blast
  have "pop pick ex g now now' db = (Ok (Some (gd, a)), db')"
    using Some acq a by (simp add: pop_def write_tx_def Let_def after_load_fields)
  with r el best acq a show ?thesis by (intro Action) auto
qed

lemma queue_inv_pop:
  assumes "queue_inv db" and "picks_row pick"
  shows "queue_inv (snd (pop pick ex g now now' db))"
  using assms
proof (cases rule: pop_cases [where ex = ex and g = g and now = now and now' = now'])
  case Empty
  with assms show ?thesis by (simp add: queue_inv_clear_slate_state)
next
  case (Action r gd db')
  from Action(2) have "ar_id r \<notin> fst ` dep_rel (clear_slate_state ex db)" by (rule eligible_no_deps)
  with Action(4,5) assms show ?thesis
    using queue_inv_acquire queue_inv_clear_slate_state by fastforce
qed

section \<open>Storing an action\<close>

lemma upsert_dep_pairs:
  "map dep_pair (upsert_dep i d ds) =
     (if (i, dependency_id d) \<in> set (map dep_pair ds) then map dep_pair ds
      else map dep_pair ds @ [(i, dependency_id d)])"
proof -
  have "(i, dependency_id d) \<in> set (map dep_pair ds)
      \<longleftrightarrow> (\<exists>e \<in> set ds. dr_action e = i \<and> dr_dependency e = dependency_id d)"
    by (auto simp: dep_pair_def image_iff)
  then show ?thesis by (simp add: upsert_dep_def dep_pair_def)
qed

lemma upsert_dep_rel: "dep_pair ` set (upsert_dep i d ds) = insert (i, dependency_id d) (dep_pair ` set ds)"
  using arg_cong [OF upsert_dep_pairs, of set i d ds] by (auto split: if_splits)

lemma upsert_dep_distinct:
  "distinct (map dep_pair ds) \<Longrightarrow> distinct (map dep_pair (upsert_dep i d ds))"
  by (simp add: upsert_dep_pairs)

lemma fold_upsert:
  "dep_pair ` set (fold (upsert_dep i) xs ds) = dep_pair ` set ds \<union> {i} \<times> dependency_id ` set xs
   \<and> (distinct (map dep_pair ds) \<longrightarrow> distinct (map dep_pair (fold (upsert_dep i) xs ds)))"
  by (induction xs arbitrary: ds) (auto simp: upsert_dep_rel upsert_dep_distinct)

text \<open>
  What storing action \<open>j\<close> changes: at most the row \<open>j\<close> is new, only dependencies of \<open>j\<close> are
  added, none is lost, no lock changes, and the tables stay consistent.
\<close>

definition grew :: "action_id \<Rightarrow> queue_db \<Rightarrow> queue_db \<Rightarrow> bool" where
  "grew j db db' = (tables_ok db' \<and> ids db' = insert j (ids db) \<and> j \<notin> executing db'
     \<and> dep_rel db \<subseteq> dep_rel db' \<and> dep_rel db' \<subseteq> dep_rel db \<union> {j} \<times> UNIV
     \<and> locks db' = locks db \<and> next_id db \<le> next_id db')"

lemma grew_trans: "grew j db db1 \<Longrightarrow> grew j db1 db2 \<Longrightarrow> grew j db db2"
  unfolding grew_def by auto

lemma update_dependency_keys_tables:
  "actions (update_dependency_keys_sync hs s db) = actions db"
  "next_id (update_dependency_keys_sync hs s db) = next_id db"
  "locks (update_dependency_keys_sync hs s db) = locks db"
  "resources (update_dependency_keys_sync hs s db) = resources db"
  by (simp_all add: update_dependency_keys_sync_def store_dependency_keys_def Let_def)

lemma update_dependency_keys_rel:
  "dep_rel (update_dependency_keys_sync hs s db) = dep_rel db
     \<union> {unwrap_id s} \<times> (dependency_id ` set (hs (resolved_dependencies s db)) \<inter> ids db)"
  using fold_upsert [of "unwrap_id s" "filter (\<lambda>dep. dependency_id dep \<in> ids db)
      (hs (resolved_dependencies s db))" "deps db"]
  by (auto simp: update_dependency_keys_sync_def store_dependency_keys_def Let_def dep_rel_def)

lemma update_dependency_keys_distinct:
  "distinct (map dep_pair (deps db)) \<Longrightarrow> distinct (map dep_pair (deps (update_dependency_keys_sync hs s db)))"
  using fold_upsert by (simp add: update_dependency_keys_sync_def store_dependency_keys_def Let_def)

lemma update_dependency_keys_keys:
  "snd ` set (key_deps (update_dependency_keys_sync hs s db)) \<subseteq> insert (unwrap_id s) (snd ` set (key_deps db))"
  by (auto simp: update_dependency_keys_sync_def store_dependency_keys_def Let_def)

lemma grew_update_dependency_keys:
  assumes "tables_ok db" and "unwrap_id s \<in> ids db" and "unwrap_id s \<notin> executing db"
  shows "grew (unwrap_id s) db (update_dependency_keys_sync hs s db)"
proof -
  let ?db = "update_dependency_keys_sync hs s db"
  note same = update_dependency_keys_tables [of hs s db] and rel = update_dependency_keys_rel [of hs s db]
  have i: "ids ?db = ids db" and e: "executing ?db = executing db"
    by (simp_all add: ids_def executing_def same)
  have "ids_ok ?db" using assms(1) same by (simp add: tables_ok_def ids_ok_def i)
  moreover have "fk_ok ?db"
  proof -
    have old: "fk_ok db" using assms(1) by (simp add: tables_ok_def)
    then have "dep_rel ?db \<subseteq> ids db \<times> ids db" using assms(2) unfolding rel fk_ok_def by auto
    moreover have "snd ` set (key_deps ?db) \<subseteq> ids db"
      using update_dependency_keys_keys [of hs s db] old assms(2) unfolding fk_ok_def
      by (meson insert_subsetI order_trans)
    ultimately show ?thesis using old by (simp add: fk_ok_def i same)
  qed
  moreover have "unique_ok ?db"
    using assms(1) by (simp add: tables_ok_def unique_ok_def same update_dependency_keys_distinct)
  moreover have "exec_ok ?db"
    using assms(1,3) unfolding tables_ok_def exec_ok_def e rel by fastforce
  ultimately have "tables_ok ?db" by (simp add: tables_ok_def)
  then show ?thesis
    unfolding grew_def i e same rel using assms(2,3) by (simp add: insert_absorb) blast
qed

lemma replace_resources_tables:
  "actions (replace_resources i r db) = actions db" "next_id (replace_resources i r db) = next_id db"
  "locks (replace_resources i r db) = locks db" "deps (replace_resources i r db) = deps db"
  "key_deps (replace_resources i r db) = key_deps db"
  by (simp_all add: replace_resources_def)

lemma grew_replace_resources:
  assumes "tables_ok db" and "i \<in> ids db" and "i \<notin> executing db"
  shows "grew i db (replace_resources i r db)"
proof -
  let ?db = "replace_resources i r db"
  note same = replace_resources_tables [of i r db]
  have i: "ids ?db = ids db" and e: "executing ?db = executing db" and d: "dep_rel ?db = dep_rel db"
    by (simp_all add: ids_def executing_def dep_rel_def same)
  have "distinct (map fst (resources ?db))"
    using assms(1) by (auto simp: tables_ok_def unique_ok_def replace_resources_def distinct_map_filterI)
  moreover have "fst ` set (resources ?db) \<subseteq> ids db"
    using assms(1,2) by (auto simp: tables_ok_def fk_ok_def replace_resources_def)
  ultimately have "tables_ok ?db"
    using assms(1) unfolding inv_defs i e d same by simp
  then show ?thesis using assms(2,3) unfolding grew_def i e d same by auto
qed

lemma grew_after_save:
  assumes "tables_ok db" and "unwrap_id s \<in> ids db" and "unwrap_id s \<notin> executing db"
  shows "grew (unwrap_id s) db (after_save hs s db)"
proof -
  have g: "grew (unwrap_id s) db (update_dependency_keys_sync hs s db)"
    by (rule grew_update_dependency_keys [OF assms])
  then have "grew (unwrap_id s) (update_dependency_keys_sync hs s db) (after_save hs s db)"
    unfolding after_save_def by (intro grew_replace_resources) (auto simp: grew_def)
  with g show ?thesis by (rule grew_trans)
qed

lemma grew_add_row:
  assumes "tables_ok db"
  shows "grew (next_id db) db (db\<lparr> actions := actions db @ [to_row (next_id db) s], next_id := next_id db + 1 \<rparr>)"
    (is "grew ?j db ?db")
proof -
  have i: "ids ?db = insert ?j (ids db)" by (auto simp: ids_def to_row_def)
  have d: "dep_rel ?db = dep_rel db" "executing ?db = executing db"
    by (simp_all add: dep_rel_def executing_def)
  have old: "?j \<notin> ids db" using assms by (auto simp: tables_ok_def ids_ok_def)
  have "executing db \<subseteq> ids db" using assms by (auto simp: tables_ok_def fk_ok_def executing_def)
  moreover have "ids_ok ?db"
    using assms old unfolding tables_ok_def ids_ok_def i by (auto simp: to_row_def ids_def)
  moreover have "fk_ok ?db" using assms unfolding tables_ok_def fk_ok_def i d by auto
  ultimately show ?thesis
    using assms old unfolding grew_def tables_ok_def unique_ok_def exec_ok_def i d by auto
qed

lemma grew_map_row:
  assumes "tables_ok db" and "i \<in> ids db" and "i \<notin> executing db" and "\<And>r. ar_id (f r) = ar_id r"
  shows "grew i db (db\<lparr> actions := map f (actions db) \<rparr>)" (is "grew i db ?db")
proof -
  have i: "ids ?db = ids db" using assms(4) by (simp add: ids_def image_image)
  have d: "dep_rel ?db = dep_rel db" "executing ?db = executing db"
    by (simp_all add: dep_rel_def executing_def)
  have "tables_ok ?db"
    using assms(1) unfolding inv_defs i d by (simp add: comp_def assms(4))
  then show ?thesis using assms(2,3) unfolding grew_def i d by auto
qed

lemma grew_next:
  assumes "grew j db db1" and "unwrap_id s = j"
  shows "grew j db (after_save hs s db1)"
  using assms grew_after_save [of db1 s hs] grew_trans [of j db db1] by (auto simp: grew_def)

lemma insert_grew:
  assumes "tables_ok db"
  shows "fst (insert_sync hs s db) = s\<lparr> sa_id := Some (next_id db) \<rparr>
    \<and> grew (next_id db) db (snd (insert_sync hs s db))"
  using grew_next [OF grew_add_row [OF assms, of s], of "s\<lparr> sa_id := Some (next_id db) \<rparr>" hs]
  by (simp add: insert_sync_def Let_def unwrap_id_def)

lemma update_grew:
  assumes "tables_ok db" and "sa_id s = Some i" and "i \<in> ids db" and "i \<notin> executing db"
  shows "fst (update_sync hs s db) = s \<and> grew i db (snd (update_sync hs s db))"
proof -
  have "grew i db (db\<lparr> actions := map (\<lambda>r. if ar_id r = i then to_row i s else r) (actions db) \<rparr>)"
    by (rule grew_map_row [OF assms(1,3,4)]) (simp add: to_row_def)
  from grew_next [OF this, of s hs] assms(2) show ?thesis
    by (simp add: update_sync_def Let_def unwrap_id_def)
qed

lemma save_grew:
  assumes "tables_ok db" and "\<And>i. sa_id s = Some i \<Longrightarrow> i \<notin> executing db"
    and "save hs s db = (s', db')"
  shows "\<exists>j. s' = s\<lparr> sa_id := Some j \<rparr> \<and> grew j db db'
    \<and> j = (case sa_id s of Some i \<Rightarrow> if i \<in> ids db then i else next_id db | None \<Rightarrow> next_id db)"
proof (cases "\<exists>i. sa_id s = Some i \<and> i \<in> ids db")
  case True
  then obtain i where i: "sa_id s = Some i" "i \<in> ids db" by blast
  then have "save hs s db = update_sync hs s db" by (simp add: save_def find_row_None)
  with update_grew [OF assms(1) i assms(2) [OF i(1)], of hs] assms(3) i show ?thesis
    by (intro exI [of _ i]) auto
next
  case False
  then have "save hs s db = insert_sync hs s db"
    by (auto simp: save_def find_row_None split: option.splits)
  with insert_grew [OF assms(1), of hs s] assms(3) False show ?thesis
    by (intro exI [of _ "next_id db"]) (auto split: option.splits)
qed

lemma delete_keys_inv:
  assumes "tables_ok db"
  shows "tables_ok (delete_keys_for_action i db)"
  using assms
  by (auto simp: inv_defs delete_keys_for_action_def ids_def dep_rel_def executing_def)

lemma delete_keys_same:
  "ids (delete_keys_for_action i db) = ids db" "dep_rel (delete_keys_for_action i db) = dep_rel db"
  "executing (delete_keys_for_action i db) = executing db"
  "locks (delete_keys_for_action i db) = locks db" "next_id (delete_keys_for_action i db) = next_id db"
  "find_row j (delete_keys_for_action i db) = find_row j db"
  by (simp_all add: delete_keys_for_action_def ids_def dep_rel_def executing_def find_row_def)

text \<open>Whether \<open>create_or_update\<close> replaces: the type matches and nobody executes the action.\<close>

definition replaceable :: "action_id \<Rightarrow> type_id \<Rightarrow> queue_db \<Rightarrow> bool" where
  "replaceable i t db = (\<exists>r \<in> set (actions db). ar_id r = i \<and> ar_action_type r = t \<and> i \<notin> executing db)"

lemma create_or_update_grew:
  assumes ok: "tables_ok db" and fresh: "sa_id s = None"
    and c: "create_or_update hs i s db = (s', db')"
  shows "\<exists>j. sa_id s' = Some j \<and> grew j db db'
    \<and> j = (if replaceable i (sa_action_type s) db then i else next_id db)"
proof (cases "replaceable i (sa_action_type s) db")
  case True
  then obtain r where r: "r \<in> set (actions db)" "ar_id r = i" "ar_action_type r = sa_action_type s"
    "i \<notin> executing db" by (auto simp: replaceable_def)
  then have i: "find_row i db = Some r" using find_row_unique [of db r] ok by (auto simp: tables_ok_def)
  let ?s = "s\<lparr> sa_id := Some i, sa_dependencies := filter (\<lambda>v. dependency_id v \<noteq> i) (sa_dependencies s) \<rparr>"
  have "\<not> has_executor i db" using r(4) ok by (simp add: has_executor_iff tables_ok_def)
  then have c': "save hs ?s (delete_keys_for_action i db) = (s', db')"
    using c r i by (simp add: create_or_update_def)
  have "i \<in> ids db" using i by (metis find_row_None option.distinct(1))
  with save_grew [OF delete_keys_inv [OF ok] _ c'] r(4) have
    "\<exists>j. s' = ?s\<lparr> sa_id := Some j \<rparr> \<and> grew j (delete_keys_for_action i db) db' \<and> j = i"
    by (auto simp: delete_keys_same)
  with True show ?thesis by (auto simp: grew_def delete_keys_same)
next
  case False
  have "create_or_update hs i s db = save hs s db"
  proof (cases "find_row i db")
    case (Some r)
    with find_row_Some [OF Some] False ok show ?thesis
      by (auto simp: create_or_update_def replaceable_def has_executor_iff tables_ok_def)
  qed (simp add: create_or_update_def)
  with c have "save hs s db = (s', db')" by simp
  from save_grew [OF ok _ this] fresh False show ?thesis by auto
qed

end
