(* ===== verification/Action_Queue_Graph.thy ===== *)
theory Action_Queue_Graph
  imports Action_Queue Action_Db_Inv
begin

text \<open>
  The two graph walks of the queue, over any topological sorter that keeps its promises: the
  cycle check of \<open>execute_action_local\<close> decides whether the stored action reaches itself, and the
  walk of \<open>cancel_action_with_dependees\<close> ends on every acyclic graph and collects exactly the
  actions that need the cancelled one, directly or not.
\<close>

lemma Field_image_pair: "Field ((\<lambda>d. (f d, g d)) ` S) = f ` S \<union> g ` S"
  by (auto simp: Field_def)

text \<open>Who needs whom: \<open>(c, d)\<close> when \<open>d\<close> has a required dependency on \<open>c\<close>.\<close>

definition required_rel :: "queue_db \<Rightarrow> (action_id \<times> action_id) set" where
  "required_rel db = (\<lambda>r. (dr_dependency r, dr_action r)) ` {r \<in> set (deps db). dr_type r = Required}"

lemma dependees_required: "set (dependees_of_type c Required db) = required_rel db `` {c}"
  by (force simp: dependees_of_type_def required_rel_def)

lemma required_rel_dep_rel: "(c, d) \<in> required_rel db \<Longrightarrow> (d, c) \<in> dep_rel db"
  by (auto simp: required_rel_def dep_rel_def dep_pair_def)

lemma wf_required:
  assumes "acyclic (dep_rel db)"
  shows "wf ((required_rel db)\<inverse>)"
proof -
  have "(required_rel db)\<inverse> \<subseteq> dep_rel db" using required_rel_dep_rel by auto
  moreover have "wf (dep_rel db)" using assms by (simp add: finite_acyclic_wf)
  ultimately show ?thesis by (metis wf_subset)
qed

text \<open>The precedences a cancellation walk from the actions \<open>S\<close> hands to the sorter.\<close>

definition needs_from :: "queue_db \<Rightarrow> action_id set \<Rightarrow> (action_id \<times> action_id) set" where
  "needs_from db S = {(d, c). c \<in> (required_rel db)\<^sup>* `` S \<and> (c, d) \<in> required_rel db}"

lemma needs_from_Un: "needs_from db (A \<union> B) = needs_from db A \<union> needs_from db B"
  by (auto simp: needs_from_def)

lemma needs_from_step:
  "needs_from db {i} = (\<lambda>d. (d, i)) ` (required_rel db `` {i}) \<union> needs_from db (required_rel db `` {i})"
  (is "?l = ?r")
proof
  show "?l \<subseteq> ?r"
    unfolding needs_from_def by (auto elim: converse_rtranclE)
  show "?r \<subseteq> ?l"
    unfolding needs_from_def by (auto intro: converse_rtrancl_into_rtrancl)
qed

locale action_sorter = topological_sort TO valid items before
  for TO :: "(action_id, 't) topo_ops" and valid :: "'t \<Rightarrow> bool"
    and items :: "'t \<Rightarrow> action_id set" and before :: "'t \<Rightarrow> (action_id \<times> action_id) set"
begin

section \<open>The cycle check\<close>

text \<open>What the walk knows at each round.\<close>

definition walk_inv :: "queue_db \<Rightarrow> action_id \<Rightarrow> action_id list \<Rightarrow> action_id set \<Rightarrow> 't \<Rightarrow> bool" where
  "walk_inv db s pending visited t =
     (valid t \<and> before t = {e \<in> dep_rel db. fst e \<in> visited} \<and> items t = Field (before t)
      \<and> visited \<union> set pending \<subseteq> (dep_rel db)\<^sup>* `` {s}
      \<and> dep_rel db `` visited \<subseteq> visited \<union> set pending \<and> s \<in> visited \<union> set pending)"

lemma walk_step:
  assumes inv: "walk_inv db s (i # pending) visited t" and new: "i \<notin> visited"
  shows "walk_inv db s (rev (map dependency_id (all_dependencies i db)) @ pending) (insert i visited)
           (fold (\<lambda>d. ts_add_dependency TO i (dependency_id d)) (all_dependencies i db) t)"
proof -
  let ?ds = "all_dependencies i db"
  have v: "valid t" using inv by (simp add: walk_inv_def)
  have ids: "dependency_id ` set ?ds = dep_rel db `` {i}" by (rule dependencies_ids)
  have bef: "(\<lambda>d. (i, dependency_id d)) ` set ?ds = {e \<in> dep_rel db. fst e = i}"
    using ids by (auto simp: image_iff) (force simp: image_iff)+
  have reach: "dep_rel db `` {i} \<subseteq> (dep_rel db)\<^sup>* `` {s}"
    using inv by (auto simp: walk_inv_def intro: rtrancl_into_rtrancl)
  let ?t = "fold (\<lambda>d. ts_add_dependency TO i (dependency_id d)) ?ds t"
  note add = fold_add [OF v, of "\<lambda>_. i" dependency_id ?ds]
  have "before ?t = {e \<in> dep_rel db. fst e \<in> insert i visited}"
    using add inv unfolding walk_inv_def bef by auto
  moreover have "items ?t = Field (before ?t)"
    using add inv unfolding walk_inv_def by (simp add: Field_image_pair Field_Un Un_assoc)
  moreover have "dep_rel db `` insert i visited \<subseteq> insert i visited \<union> set (rev (map dependency_id ?ds) @ pending)"
    using inv ids unfolding walk_inv_def by auto
  moreover have "insert i visited \<union> set (rev (map dependency_id ?ds) @ pending) \<subseteq> (dep_rel db)\<^sup>* `` {s}"
    using inv ids reach unfolding walk_inv_def by simp
  ultimately show ?thesis using add inv unfolding walk_inv_def by auto
qed

lemma walk_final:
  assumes "walk_inv db s pending visited t"
  shows "\<exists>visited'. walk_inv db s [] visited' (collect_dependencies TO db pending visited t)"
  using assms
proof (induction T\<equiv>TO db pending visited t rule: collect_dependencies.induct)
  case (1 db visited t)
  then show ?case by auto
next
  case (2 db i pending visited t)
  let ?ds = "all_dependencies i db"
  show ?case
  proof (cases "i \<in> visited")
    case True
    with 2(4) have "walk_inv db s pending visited t" by (auto simp: walk_inv_def)
    from 2(1) [OF refl True this] True show ?thesis by simp
  next
    case False
    note step = walk_step [OF 2(4) False]
    show ?thesis
    proof (cases "?ds = []")
      case True
      with step have "walk_inv db s pending (insert i visited) t" by simp
      from 2(2) [OF refl False True this] False True show ?thesis by simp
    next
      case ds: False
      from 2(3) [OF refl False ds step] False ds show ?thesis by (simp add: Let_def)
    qed
  qed
qed

lemma collect_dependencies_spec:
  fixes db s defines "t \<equiv> collect_dependencies TO db [s] {} (ts_new TO)"
  shows "valid t \<and> before t = {e \<in> dep_rel db. (s, fst e) \<in> (dep_rel db)\<^sup>*} \<and> items t = Field (before t)"
proof -
  have "walk_inv db s [s] {} (ts_new TO)"
    by (simp add: walk_inv_def laws)
  then obtain visited where w: "walk_inv db s [] visited t"
    using walk_final unfolding t_def by blast
  have "(dep_rel db)\<^sup>* `` {s} \<subseteq> visited"
  proof
    fix x assume "x \<in> (dep_rel db)\<^sup>* `` {s}"
    then have "(s, x) \<in> (dep_rel db)\<^sup>*" by simp
    then show "x \<in> visited" using w by induction (auto simp: walk_inv_def)
  qed
  with w show ?thesis by (auto simp: walk_inv_def)
qed

lemma has_cycle_iff: "has_cycle TO s db \<longleftrightarrow> (s, s) \<in> (dep_rel db)\<^sup>+"
proof -
  let ?R = "dep_rel db" and ?t = "collect_dependencies TO db [s] {} (ts_new TO)"
  note spec = collect_dependencies_spec [of db s]
  have v: "valid ?t" and b: "before ?t = {e \<in> ?R. (s, fst e) \<in> ?R\<^sup>*}" and i: "items ?t = Field (before ?t)"
    using spec by auto
  have "has_cycle TO s db \<longleftrightarrow> items ?t \<noteq> {} \<and> (\<forall>k \<in> items ?t. \<exists>p. (p, k) \<in> before ?t)"
    using pop_None [OF v] pop_None_same [OF v] pop_valid [OF v] is_empty_iff
    by (auto simp: has_cycle_def split: prod.splits)
  also have "\<dots> \<longleftrightarrow> (s, s) \<in> ?R\<^sup>+"
  proof
    assume a: "items ?t \<noteq> {} \<and> (\<forall>k \<in> items ?t. \<exists>p. (p, k) \<in> before ?t)"
    then obtain c d where cd: "(c, d) \<in> ?R" "(s, c) \<in> ?R\<^sup>*" unfolding i b by (auto simp: Field_def)
    then obtain e where "(s, e) \<in> ?R" by (metis converse_rtranclE)
    then have "s \<in> items ?t" unfolding i b by (force simp: Field_def)
    with a obtain p where "(p, s) \<in> before ?t" by blast
    then show "(s, s) \<in> ?R\<^sup>+" unfolding b by (auto intro: rtrancl_into_trancl1)
  next
    assume c: "(s, s) \<in> ?R\<^sup>+"
    then obtain p where p: "(p, s) \<in> before ?t"
      unfolding b by (metis (no_types, lifting) CollectI fst_conv tranclD2)
    have "\<exists>q. (q, k) \<in> before ?t" if k: "k \<in> items ?t" for k
    proof (cases "k = s")
      case False
      from k have "(s, k) \<in> ?R\<^sup>*" unfolding i b Field_def by (auto intro: rtrancl_into_rtrancl)
      with False obtain q where "(s, q) \<in> ?R\<^sup>*" "(q, k) \<in> ?R" by (metis rtranclE)
      then show ?thesis unfolding b by auto
    qed (use p in blast)
    with p show "items ?t \<noteq> {} \<and> (\<forall>k \<in> items ?t. \<exists>p. (p, k) \<in> before ?t)"
      unfolding i by (auto simp: Field_def)
  qed
  finally show ?thesis .
qed

section \<open>Collecting what a cancellation takes along\<close>

definition walks :: "queue_db \<Rightarrow> action_id list \<Rightarrow> 't \<Rightarrow> 't \<Rightarrow> bool" where
  "walks db is t t' =
     ((\<forall>rest. collect_dependees TO db (is @ rest) t = collect_dependees TO db rest t') \<and> valid t'
      \<and> before t' = before t \<union> needs_from db (set is)
      \<and> items t' = items t \<union> Field (needs_from db (set is)))"

lemma walks_Nil: "valid t \<Longrightarrow> walks db [] t t"
  by (simp add: walks_def needs_from_def)

lemma walks_Cons: "walks db [i] t t1 \<Longrightarrow> walks db is t1 t2 \<Longrightarrow> walks db (i # is) t t2"
  using needs_from_Un [of db "{i}" "set is"] by (auto simp: walks_def Field_Un)

lemma walks_list:
  assumes "\<And>i t. i \<in> set is \<Longrightarrow> valid t \<Longrightarrow> \<exists>t'. walks db [i] t t'" and "valid t"
  shows "\<exists>t'. walks db is t t'"
  using assms
proof (induction "is" arbitrary: t)
  case Nil
  then show ?case using walks_Nil by blast
next
  case (Cons i "is")
  then obtain t1 where t1: "walks db [i] t t1" by force
  then have "valid t1" by (simp add: walks_def)
  with Cons obtain t2 where "walks db is t1 t2" by force
  with t1 show ?case using walks_Cons by blast
qed

lemma walks_one:
  assumes "wf ((required_rel db)\<inverse>)" and "valid t"
  shows "\<exists>t'. walks db [i] t t'"
  using assms
proof (induction i arbitrary: t rule: wf_induct_rule)
  case (less i)
  let ?ds = "dependees_of_type i Required db"
  let ?t = "fold (\<lambda>d. ts_add_dependency TO d i) ?ds t"
  note add = fold_add [OF less.prems, of "\<lambda>d. d" "\<lambda>_. i" ?ds]
  have "\<exists>t'. walks db (rev ?ds) ?t t'"
  proof (rule walks_list)
    fix d t assume "d \<in> set (rev ?ds)" and "valid t"
    then show "\<exists>t'. walks db [d] t t'" by (intro less.IH) (simp_all add: dependees_required)
  next
    show "valid ?t" using add by blast
  qed
  then obtain t' where w: "walks db (rev ?ds) ?t t'" by blast
  have "collect_dependees TO db ([i] @ rest) t = collect_dependees TO db rest t'" for rest
  proof -
    have "collect_dependees TO db ([i] @ rest) t = collect_dependees TO db (rev ?ds @ rest) ?t"
      by (subst collect_dependees.simps) (simp add: Let_def)
    also have "\<dots> = collect_dependees TO db rest t'" using w unfolding walks_def by blast
    finally show ?thesis .
  qed
  moreover have "before t' = before t \<union> needs_from db {i}"
    using w add unfolding walks_def needs_from_step [of db i]
    by (simp add: dependees_required Un_assoc)
  moreover have "items t' = items t \<union> Field (needs_from db {i})"
    using w add unfolding walks_def needs_from_step [of db i]
    by (simp add: dependees_required Field_Un Field_image_pair Un_assoc)
  ultimately show ?case using w by (auto simp: walks_def)
qed

lemma collect_dependees_spec:
  assumes "acyclic (dep_rel db)"
  shows "\<exists>t. collect_dependees TO db [i] (ts_new TO) = Some t \<and> valid t
    \<and> before t = needs_from db {i} \<and> items t = Field (needs_from db {i})"
proof -
  from walks_one [OF wf_required [OF assms] new_valid] obtain t where
    w: "walks db [i] (ts_new TO) t" by blast
  then have "collect_dependees TO db [i] (ts_new TO) = Some t"
    using w by (simp add: walks_def collect_dependees.simps [of TO db "[]"])
  with w show ?thesis by (simp add: walks_def items_new before_new)
qed

end

interpretation list_sorter: action_sorter list_topo_ops lt_valid "\<lambda>t. set (fst t)" "\<lambda>t. set (snd t)"
  by unfold_locales

end
