(* ===== verification/Action_Queue_Local.thy ===== *)
theory Action_Queue_Local
  imports Action_Queue_Graph
begin

text \<open>
  What queueing and replacing an action does to the tables: the stored row, its dependencies, the
  invariant, the chain that \<open>queue_actions\<close> builds, and that a failed call leaves the store alone.
\<close>

section \<open>Iteration order of a hash set\<close>

definition hash_order :: "(action_dependency list \<Rightarrow> action_dependency list) \<Rightarrow> bool" where
  "hash_order hs = (\<forall>xs. set (hs xs) = set xs \<and> distinct (hs xs))"

section \<open>The dependencies of a new action\<close>

text \<open>The live actions that a new action with these dependencies and keys waits for.\<close>

definition wanted :: "action_dependency list \<Rightarrow> action_dependency_keys \<Rightarrow> queue_db \<Rightarrow> action_id set" where
  "wanted ds keys db = (dependency_id ` set ds
     \<union> set (resolve_dependency_keys (optional_keys keys) db)
     \<union> set (resolve_dependency_keys (required_keys keys) db)) \<inter> ids db"

lemma resolved_ids:
  "dependency_id ` set (resolved_dependencies s db) = dependency_id ` set (sa_dependencies s)
     \<union> set (resolve_dependency_keys (optional_keys (sa_dependency_keys s)) db)
     \<union> set (resolve_dependency_keys (required_keys (sa_dependency_keys s)) db)"
  by (auto simp: resolved_dependencies_def dep_optional_def dep_required_def image_Un image_image)

lemma update_dependency_keys_wanted:
  assumes "hash_order hs"
  shows "dep_rel (update_dependency_keys_sync hs s db)
     = dep_rel db \<union> {unwrap_id s} \<times> wanted (sa_dependencies s) (sa_dependency_keys s) db"
proof -
  have "set (hs (resolved_dependencies s db)) = set (resolved_dependencies s db)"
    using assms by (simp add: hash_order_def)
  then show ?thesis by (simp add: update_dependency_keys_rel resolved_ids wanted_def)
qed

lemma resolve_keys_cong: "key_deps db' = key_deps db \<Longrightarrow> resolve_dependency_keys ks db' = resolve_dependency_keys ks db"
  by (simp add: resolve_dependency_keys_def)

text \<open>The fields of a row that has just been built by \<open>without_state\<close>.\<close>

lemma without_state_fields [simp]:
  "sa_id (without_state T keys md) = None"
  "sa_dependencies (without_state T keys md) = md_dependencies md"
  "sa_dependency_keys (without_state T keys md) = keys"
  "sa_action_type (without_state T keys md) = act_type T"
  by (simp_all add: without_state_def sa_new_impl_def)

lemma default_keys_empty [simp]:
  "required_keys default_keys = []" "optional_keys default_keys = []" "record_keys default_keys = []"
  by (simp_all add: default_keys_def)

lemma save_new_tables:
  fixes T :: "('a, 'd, 'e, 'o) action_def"
  assumes "hash_order hs" and "tables_ok db"
    and "save hs (without_state T default_keys md) db = (st, db')"
  shows "sa_id st = Some (next_id db) \<and> sa_dependencies st = md_dependencies md
    \<and> ids db' = insert (next_id db) (ids db) \<and> key_deps db' = key_deps db
    \<and> dep_rel db' = dep_rel db
        \<union> {next_id db} \<times> (dependency_id ` set (md_dependencies md) \<inter> insert (next_id db) (ids db))"
proof -
  let ?j = "next_id db" and ?s = "without_state T default_keys md"
  let ?s1 = "?s\<lparr> sa_id := Some ?j \<rparr>"
  let ?db1 = "db\<lparr> actions := actions db @ [to_row ?j ?s], next_id := ?j + 1 \<rparr>"
  let ?db2 = "update_dependency_keys_sync hs ?s1 ?db1"
  from assms(3) have st: "st = ?s1" and db': "db' = replace_resources ?j (sa_resources ?s1) ?db2"
    by (auto simp: save_def insert_sync_def after_save_def unwrap_id_def Let_def)
  have i: "ids ?db1 = insert ?j (ids db)" by (auto simp: ids_def to_row_def)
  have w: "wanted (sa_dependencies ?s1) (sa_dependency_keys ?s1) ?db1
      = dependency_id ` set (md_dependencies md) \<inter> insert ?j (ids db)"
    unfolding wanted_def i by (simp add: resolve_dependency_keys_def)
  have d1: "dep_rel ?db1 = dep_rel db" by (simp add: dep_rel_def)
  have "dep_rel db' = dep_rel ?db2" by (simp add: db' dep_rel_def replace_resources_tables)
  moreover have "dep_rel ?db2 = dep_rel ?db1 \<union> {?j} \<times> (dependency_id ` set (md_dependencies md) \<inter> insert ?j (ids db))"
    using update_dependency_keys_wanted [OF assms(1), of ?s1 ?db1] unfolding w by (simp add: unwrap_id_def)
  moreover have "ids db' = ids ?db1"
    by (simp add: db' ids_def replace_resources_tables update_dependency_keys_tables)
  moreover have "key_deps db' = key_deps db"
    by (simp add: db' replace_resources_tables update_dependency_keys_sync_def store_dependency_keys_def Let_def)
  ultimately show ?thesis using i st d1 by simp
qed

section \<open>Running an action locally\<close>

text \<open>Storing the bare row: a fresh action or a replaced one.\<close>

lemma store_row_grew:
  fixes T :: "('a, 'd, 'e, 'o) action_def"
  assumes ok: "tables_ok db"
    and r: "(case existing of Some i \<Rightarrow> create_or_update hs i (without_state T default_keys md) db
               | None \<Rightarrow> save hs (without_state T default_keys md) db) = (st, db')"
  shows "\<exists>j. sa_id st = Some j \<and> grew j db db'
    \<and> j = (case existing of Some i \<Rightarrow> if replaceable i (act_type T) db then i else next_id db
           | None \<Rightarrow> next_id db)"
proof (cases existing)
  case None
  with r have "save hs (without_state T default_keys md) db = (st, db')" by simp
  from save_grew [OF ok _ this] None show ?thesis by auto
next
  case (Some i)
  with r have "create_or_update hs i (without_state T default_keys md) db = (st, db')" by simp
  from create_or_update_grew [OF ok _ this] Some show ?thesis by simp
qed

text \<open>How a call of \<open>execute_action_local\<close> that passes the handler goes on.\<close>

lemma local_cases:
  fixes T H :: "('a, 'd, 'e, 'o) action_def"
  assumes run: "execute_action_local TO hs T a H md existing s = (r, s')"
    and row: "(case existing of Some i \<Rightarrow> create_or_update hs i (without_state T default_keys md) (qdb s)
               | None \<Rightarrow> save hs (without_state T default_keys md) (qdb s)) = (st1, db1)"
    and app: "act_apply_local H (unwrap_id st1) a (app s) = (Inr out, a', d)"
  shows "let st2 = st1\<lparr> sa_dependency_keys := act_dependency_keys T a' \<rparr>;
             db2 = update_dependency_keys_sync hs st2 db1
         in (if has_cycle TO (unwrap_id st2) db2
             then r = Err (QueueFailed CyclicDependency) \<and> s' = s\<lparr> qdb := db2, app := d \<rparr>
             else case act_serialize T a' of
               None \<Rightarrow> r = Err (QueueFailed Serialization)
             | Some bs \<Rightarrow> r = Ok (out, st2\<lparr> sa_state := bs \<rparr>)
                 \<and> s' = s\<lparr> qdb := update_action_state (st2\<lparr> sa_state := bs \<rparr>) db2, app := d \<rparr>)"
  using run unfolding execute_action_local_def Let_def row app
  by (auto simp: set_action_state_def app split: option.splits)

lemma local_handler_error:
  fixes T H :: "('a, 'd, 'e, 'o) action_def"
  assumes run: "execute_action_local TO hs T a H md existing s = (r, s')"
    and row: "(case existing of Some i \<Rightarrow> create_or_update hs i (without_state T default_keys md) (qdb s)
               | None \<Rightarrow> save hs (without_state T default_keys md) (qdb s)) = (st1, db1)"
    and app: "act_apply_local H (unwrap_id st1) a (app s) = (Inl e, a', d)"
  shows "r = Err (ActionFailed e)"
  using run unfolding execute_action_local_def Let_def row app by (auto simp: app)

lemma grew_update_action_state:
  assumes "tables_ok db" and "unwrap_id s \<in> ids db" and "unwrap_id s \<notin> executing db"
  shows "grew (unwrap_id s) db (update_action_state s db)"
  unfolding update_action_state_def using assms by (intro grew_map_row) auto

lemma dep_rel_update_action_state [simp]: "dep_rel (update_action_state s db) = dep_rel db"
  by (simp add: update_action_state_def dep_rel_def)

text \<open>The id a call uses: the replaced action's, or the next free one.\<close>

definition target_id :: "action_id option \<Rightarrow> type_id \<Rightarrow> queue_db \<Rightarrow> action_id" where
  "target_id existing t db =
     (case existing of Some i \<Rightarrow> if replaceable i t db then i else next_id db | None \<Rightarrow> next_id db)"

text \<open>A call that gets past the handler: the row, the tables with its dependencies, the outcome.\<close>

lemma local_stages:
  fixes T H :: "('a, 'd, 'e, 'o) action_def"
  assumes ok: "tables_ok (qdb s)"
    and run: "execute_action_local TO hs T a H md existing s = (r, s')"
    and past: "\<And>e. r \<noteq> Err (ActionFailed e)"
  obtains st2 db2 a' out where "sa_id st2 = Some (target_id existing (act_type T) (qdb s))"
    "grew (target_id existing (act_type T) (qdb s)) (qdb s) db2"
    "if has_cycle TO (target_id existing (act_type T) (qdb s)) db2
     then r = Err (QueueFailed CyclicDependency) \<and> qdb s' = db2
     else case act_serialize T a' of
       None \<Rightarrow> r = Err (QueueFailed Serialization)
     | Some bs \<Rightarrow> r = Ok (out, st2\<lparr> sa_state := bs \<rparr>) \<and> qdb s' = update_action_state (st2\<lparr> sa_state := bs \<rparr>) db2"
proof -
  let ?j = "target_id existing (act_type T) (qdb s)"
  obtain st1 db1 where row: "(case existing of
      Some i \<Rightarrow> create_or_update hs i (without_state T default_keys md) (qdb s)
    | None \<Rightarrow> save hs (without_state T default_keys md) (qdb s)) = (st1, db1)" by (metis surj_pair)
  from store_row_grew [OF ok row] have j: "sa_id st1 = Some ?j" and g1: "grew ?j (qdb s) db1"
    unfolding target_id_def by blast+
  obtain x a' d where app: "act_apply_local H (unwrap_id st1) a (app s) = (x, a', d)" by (metis surj_pair)
  with past obtain out where x: "x = Inr out"
    using local_handler_error [OF run row] by (cases x) auto
  let ?st2 = "st1\<lparr> sa_dependency_keys := act_dependency_keys T a' \<rparr>"
  let ?db2 = "update_dependency_keys_sync hs ?st2 db1"
  have u: "unwrap_id ?st2 = ?j" and i: "sa_id ?st2 = Some ?j" using j by (simp_all add: unwrap_id_def)
  have "grew ?j db1 ?db2"
    using g1 grew_update_dependency_keys [of db1 ?st2 hs] unfolding u by (auto simp: grew_def)
  then have g2: "grew ?j (qdb s) ?db2" by (rule grew_trans [OF g1])
  from local_cases [OF run row app [unfolded x]] show thesis
    unfolding Let_def u
    by (intro that [OF i g2]) (auto split: if_splits option.splits)
qed

context action_sorter
begin

lemma local_Ok:
  fixes T H :: "('a, 'd, 'e, 'o) action_def"
  assumes inv: "queue_inv (qdb s)"
    and run: "execute_action_local TO hs T a H md existing s = (Ok (out, st), s')"
  defines "j \<equiv> target_id existing (act_type T) (qdb s)"
  shows "sa_id st = Some j \<and> grew j (qdb s) (qdb s') \<and> queue_inv (qdb s')"
proof (rule local_stages [OF _ run], goal_cases)
  case 1
  then show ?case using inv by (simp add: queue_inv_def)
next
  case (2 e)
  then show ?case by simp
next
  case (3 st2 db2 a' out')
  then obtain bs where c: "\<not> has_cycle TO j db2" and st: "st = st2\<lparr> sa_state := bs \<rparr>"
    and s': "qdb s' = update_action_state st db2"
    unfolding j_def by (auto split: if_splits option.splits)
  have i: "sa_id st2 = Some j" and g: "grew j (qdb s) db2" using 3(1,2) by (simp_all add: j_def)
  then have "unwrap_id st = j" using st by (simp add: unwrap_id_def)
  then have "grew j db2 (qdb s')"
    unfolding s' using g grew_update_action_state [of db2 st] by (auto simp: grew_def)
  then have g': "grew j (qdb s) (qdb s')" by (rule grew_trans [OF g])
  have "acyclic (dep_rel db2)"
  proof (rule acyclic_extend_from)
    show "acyclic (dep_rel (qdb s))" using inv by (simp add: queue_inv_def)
    show "dep_rel db2 \<subseteq> dep_rel (qdb s) \<union> {j} \<times> UNIV" using g by (simp add: grew_def)
    show "(j, j) \<notin> (dep_rel db2)\<^sup>+" using c by (simp add: has_cycle_iff)
  qed
  with g' have "queue_inv (qdb s')" by (simp add: queue_inv_def grew_def s')
  with i st g' show ?case by simp
qed

lemma local_cyclic:
  fixes T H :: "('a, 'd, 'e, 'o) action_def"
  assumes ok: "tables_ok (qdb s)"
    and run: "execute_action_local TO hs T a H md existing s = (Err (QueueFailed CyclicDependency), s')"
  defines "j \<equiv> target_id existing (act_type T) (qdb s)"
  shows "(j, j) \<in> (dep_rel (qdb s'))\<^sup>+ \<and> grew j (qdb s) (qdb s')"
proof (rule local_stages [OF ok run], goal_cases)
  case (2 st2 db2 a' out')
  then show ?case unfolding j_def by (auto simp: has_cycle_iff split: if_splits option.splits)
qed simp

end

section \<open>The dependencies of a queued action\<close>

lemma local_new_deps:
  fixes T H :: "('a, 'd, 'e, 'o) action_def"
  assumes hs: "hash_order hs" and ok: "tables_ok (qdb s)"
    and run: "execute_action_local TO hs T a H md None s = (Ok (out, st), s')"
    and app: "act_apply_local H (next_id (qdb s)) a (app s) = (x, a', d)"
  defines "j \<equiv> next_id (qdb s)"
  shows "dep_rel (qdb s') = dep_rel (qdb s) \<union> {j} \<times> (wanted (md_dependencies md) (act_dependency_keys T a') (qdb s)
      \<union> ({j} \<inter> dependency_id ` set (md_dependencies md)))"
proof -
  obtain st1 db1 where row: "save hs (without_state T default_keys md) (qdb s) = (st1, db1)" by (metis surj_pair)
  note new = save_new_tables [OF hs ok row]
  have u: "unwrap_id st1 = j" using new by (simp add: unwrap_id_def j_def)
  from run row app u obtain y where x: "x = Inr y"
    by (cases x) (auto simp: execute_action_local_def Let_def j_def)
  let ?st2 = "st1\<lparr> sa_dependency_keys := act_dependency_keys T a' \<rparr>"
  have u2: "unwrap_id ?st2 = j" using u by (simp add: unwrap_id_def)
  have row': "(case None of Some i \<Rightarrow> create_or_update hs i (without_state T default_keys md) (qdb s)
      | None \<Rightarrow> save hs (without_state T default_keys md) (qdb s)) = (st1, db1)" using row by simp
  from local_cases [OF run row' app [folded j_def, folded u, unfolded x]]
  have "dep_rel (qdb s') = dep_rel (update_dependency_keys_sync hs ?st2 db1)"
    by (auto simp: Let_def split: if_splits option.splits)
  also have "\<dots> = dep_rel db1 \<union> {j} \<times> wanted (md_dependencies md) (act_dependency_keys T a') db1"
    using update_dependency_keys_wanted [OF hs, of ?st2 db1] new u2 by simp
  also have "wanted (md_dependencies md) (act_dependency_keys T a') db1
      = wanted (md_dependencies md) (act_dependency_keys T a') (qdb s)
        \<union> ({j} \<inter> dependency_id ` set (md_dependencies md))"
  proof -
    have "j \<notin> snd ` set (key_deps (qdb s))"
      using ok unfolding tables_ok_def fk_ok_def ids_ok_def j_def by (meson less_irrefl subsetD)
    then have "j \<notin> set (resolve_dependency_keys ks (qdb s))" for ks
      by (auto simp: resolve_dependency_keys_def)
    moreover have "resolve_dependency_keys ks db1 = resolve_dependency_keys ks (qdb s)" for ks
      by (rule resolve_keys_cong) (simp add: new)
    moreover have "ids db1 = insert j (ids (qdb s))" using new by (simp add: j_def)
    ultimately show ?thesis unfolding wanted_def by auto
  qed
  finally have "dep_rel (qdb s') = dep_rel db1 \<union> {j} \<times> (wanted (md_dependencies md) (act_dependency_keys T a') (qdb s)
      \<union> ({j} \<inter> dependency_id ` set (md_dependencies md)))" .
  moreover have "dep_rel db1 = dep_rel (qdb s) \<union> {j} \<times> (dependency_id ` set (md_dependencies md) \<inter> insert j (ids (qdb s)))"
    using new by (simp add: j_def)
  ultimately show ?thesis unfolding wanted_def by blast
qed

section \<open>The row of a queued action\<close>

text \<open>The row that an action gets: its description, and the payload that is written last.\<close>

definition queued_row ::
    "('a, 'd, 'e, 'o) action_def \<Rightarrow> metadata \<Rightarrow> action_id \<Rightarrow> bytes \<Rightarrow> action_row" where
  "queued_row T md i bs = (to_row i (without_state T default_keys md))\<lparr> ar_state := bs \<rparr>"

text \<open>
  A successful call in full: the handler succeeded, the application has the state it left, and
  the table has one more row, with the payload as the handler left it.
\<close>

lemma local_new_row:
  fixes T H :: "('a, 'd, 'e, 'o) action_def"
  assumes ok: "tables_ok (qdb s)"
    and run: "execute_action_local TO hs T a H md None s = (Ok (out, st), s')"
    and app: "act_apply_local H (next_id (qdb s)) a (app s) = (x, a', d)"
  shows "x = Ok out \<and> app s' = d
    \<and> (\<exists>bs. act_serialize T a' = Some bs
         \<and> actions (qdb s') = actions (qdb s) @ [queued_row T md (next_id (qdb s)) bs])
    \<and> queued_metadata_of st = queued_metadata_of ((without_state T default_keys md)\<lparr> sa_id := Some (next_id (qdb s)) \<rparr>)
    \<and> resources (qdb s') = resources (qdb s) @ [(next_id (qdb s), md_resources md)]"
proof -
  let ?j = "next_id (qdb s)" and ?s = "without_state T default_keys md"
  obtain st1 db1 where row: "save hs ?s (qdb s) = (st1, db1)" by (metis surj_pair)
  then have st1: "st1 = ?s\<lparr> sa_id := Some ?j \<rparr>" and acts: "actions db1 = actions (qdb s) @ [to_row ?j ?s]"
    and res: "resources db1 = filter (\<lambda>e. fst e \<noteq> ?j) (resources (qdb s)) @ [(?j, sa_resources ?s)]"
    by (auto simp: save_def insert_sync_def after_save_def unwrap_id_def Let_def replace_resources_def
        update_dependency_keys_sync_def store_dependency_keys_def)
  then have u: "unwrap_id st1 = ?j" by (simp add: unwrap_id_def)
  from run row app u obtain y where x: "x = Inr y"
    by (cases x) (auto simp: execute_action_local_def Let_def)
  let ?st2 = "st1\<lparr> sa_dependency_keys := act_dependency_keys T a' \<rparr>"
  have row': "(case None of Some i \<Rightarrow> create_or_update hs i ?s (qdb s) | None \<Rightarrow> save hs ?s (qdb s)) = (st1, db1)"
    using row by simp
  from local_cases [OF run row' app [folded u, unfolded x]] obtain bs where
    bs: "act_serialize T a' = Some bs" "y = out" "st = ?st2\<lparr> sa_state := bs \<rparr>"
    "s' = s\<lparr> qdb := update_action_state (?st2\<lparr> sa_state := bs \<rparr>) (update_dependency_keys_sync hs ?st2 db1), app := d \<rparr>"
    by (auto simp: Let_def split: if_splits option.splits)
  have fresh: "ar_id r \<noteq> ?j" if "r \<in> set (actions (qdb s))" for r
    using ok that by (auto simp: tables_ok_def ids_ok_def ids_def)
  have "?j \<notin> fst ` set (resources (qdb s))"
    using ok unfolding tables_ok_def fk_ok_def ids_ok_def by (meson less_irrefl subsetD)
  then have "filter (\<lambda>e. fst e \<noteq> ?j) (resources (qdb s)) = resources (qdb s)" by (intro filter_True) force
  moreover have "actions (qdb s') = actions (qdb s) @ [queued_row T md ?j bs]"
    using u by (simp add: bs(4) update_action_state_def update_dependency_keys_tables acts queued_row_def
        to_row_def fresh unwrap_id_def map_idI)
  ultimately show ?thesis
    using bs x res
    by (simp add: st1 queued_metadata_of_def unwrap_id_def update_action_state_def
        update_dependency_keys_sync_def store_dependency_keys_def Let_def without_state_def sa_new_impl_def)
qed

section \<open>Queueing\<close>

lemma queue_in_tx_Ok:
  fixes T :: "('a, 'd, 'e, 'o) action_def"
  assumes "queue_action_with_metadata_in_tx TO hs T a md sh = (Ok out, sh')"
  obtains H st s' where "shared_handler sh T = Some H"
    "execute_action_local TO hs T a H md None (sh_store sh) = (Ok (qo_local out, st), s')"
    "qo_id out = unwrap_id st" "sh_store sh' = s'" "sh_factory sh' = sh_factory sh"
    "sh_broadcast sh' = sh_broadcast sh @ [BcQueued (unwrap_id st) (queued_metadata_of st)]"
    "sh_notified sh' = sh_notified sh + 1"
  using assms
  by (auto simp: queue_action_with_metadata_in_tx_def send_def notify_waiters_def
      split: option.splits prod.splits sum.splits)

lemma queue_in_tx_Err:
  fixes T :: "('a, 'd, 'e, 'o) action_def"
  assumes "queue_action_with_metadata_in_tx TO hs T a md sh = (Err e, sh')"
  shows "sh_broadcast sh' = sh_broadcast sh \<and> sh_notified sh' = sh_notified sh \<and> sh_factory sh' = sh_factory sh"
  using assms
  by (auto simp: queue_action_with_metadata_in_tx_def send_def notify_waiters_def
      split: option.splits prod.splits sum.splits)

lemma queue_tx_Err: "queue_tx f sh = (Err e, sh') \<Longrightarrow> sh_store sh' = sh_store sh"
  by (auto simp: queue_tx_def split: prod.splits sum.splits)

lemma queue_tx_Ok: "queue_tx f sh = (Ok x, sh') \<longleftrightarrow> f sh = (Ok x, sh')"
  by (auto simp: queue_tx_def split: prod.splits sum.splits)

text \<open>Each action waits for the one before it.\<close>

fun chained :: "(action_id \<times> action_id) set \<Rightarrow> action_id option \<Rightarrow> action_id list \<Rightarrow> bool" where
  "chained R p [] = True"
| "chained R p (i # is) = ((case p of Some q \<Rightarrow> (i, q) \<in> R | None \<Rightarrow> True) \<and> chained R (Some i) is)"

lemma chained_mono: "R \<subseteq> S \<Longrightarrow> chained R p is \<Longrightarrow> chained S p is"
  by (induction "is" arbitrary: p) (auto split: option.splits)

context action_sorter
begin

lemma queue_in_tx_inv:
  fixes T :: "('a, 'd, 'e, 'o) action_def"
  assumes inv: "queue_inv (sh_db sh)" and q: "queue_action_with_metadata_in_tx TO hs T a md sh = (Ok out, sh')"
  shows "queue_inv (sh_db sh') \<and> qo_id out = next_id (sh_db sh) \<and> grew (qo_id out) (sh_db sh) (sh_db sh')"
proof -
  from q obtain H st s' where run: "execute_action_local TO hs T a H md None (sh_store sh) = (Ok (qo_local out, st), s')"
    and id: "qo_id out = unwrap_id st" and s: "sh_store sh' = s'" by (rule queue_in_tx_Ok)
  from local_Ok [OF inv run] id s show ?thesis by (auto simp: target_id_def unwrap_id_def)
qed

lemma queue_in_tx_chain:
  fixes T :: "('a, 'd, 'e, 'o) action_def"
  assumes hs: "hash_order hs" and inv: "queue_inv (sh_db sh)"
    and q: "queue_action_with_metadata_in_tx TO hs T a (chain_metadata now (Some p)) sh = (Ok out, sh')"
    and live: "p \<in> ids (sh_db sh)"
  shows "(qo_id out, p) \<in> dep_rel (sh_db sh')"
proof -
  from q obtain H st s' where run: "execute_action_local TO hs T a H (chain_metadata now (Some p)) None (sh_store sh)
      = (Ok (qo_local out, st), s')" and s: "sh_store sh' = s'" by (rule queue_in_tx_Ok)
  obtain x a' d where app: "act_apply_local H (next_id (sh_db sh)) a (app (sh_store sh)) = (x, a', d)"
    by (metis surj_pair)
  have "tables_ok (sh_db sh)" using inv by (simp add: queue_inv_def)
  from local_new_deps [OF hs this run app] s queue_in_tx_inv [OF inv q] live show ?thesis
    by (simp add: wanted_def chain_metadata_def builder_defs dep_required_def)
qed

lemma queue_actions_loop_Ok:
  fixes T :: "('a, 'd, 'e, 'o) action_def"
  assumes "hash_order hs" and "queue_inv (sh_db sh)"
    and "queue_actions_loop TO hs T as last_id res sh = (Ok res', sh')"
    and "\<And>p. last_id = Some p \<Longrightarrow> p \<in> ids (sh_db sh)"
  shows "\<exists>outs. res' = res @ outs \<and> length outs = length as \<and> queue_inv (sh_db sh')
    \<and> dep_rel (sh_db sh) \<subseteq> dep_rel (sh_db sh') \<and> ids (sh_db sh') = ids (sh_db sh) \<union> qo_id ` set outs
    \<and> chained (dep_rel (sh_db sh')) last_id (map qo_id outs)"
  using assms(2-)
proof (induction as arbitrary: last_id res sh)
  case Nil
  then show ?case by auto
next
  case (Cons na as)
  obtain now a where na: "na = (now, a)" by (cases na)
  from Cons.prems(2) na obtain out sh1 where
    q: "queue_action_with_metadata_in_tx TO hs T a (chain_metadata now last_id) sh = (Ok out, sh1)"
    and rest: "queue_actions_loop TO hs T as (Some (qo_id out)) (res @ [out]) sh1 = (Ok res', sh')"
    by (auto split: prod.splits sum.splits)
  note one = queue_in_tx_inv [OF Cons.prems(1) q]
  have mem: "qo_id out \<in> ids (sh_db sh1)" using one by (auto simp: grew_def)
  have inv1: "queue_inv (sh_db sh1)" using one by simp
  from Cons.IH [OF inv1 rest] mem obtain outs where IH: "res' = (res @ [out]) @ outs" "length outs = length as"
    "queue_inv (sh_db sh')" "dep_rel (sh_db sh1) \<subseteq> dep_rel (sh_db sh')"
    "ids (sh_db sh') = ids (sh_db sh1) \<union> qo_id ` set outs"
    "chained (dep_rel (sh_db sh')) (Some (qo_id out)) (map qo_id outs)" by blast
  have "case last_id of Some p \<Rightarrow> (qo_id out, p) \<in> dep_rel (sh_db sh') | None \<Rightarrow> True"
    using queue_in_tx_chain [OF assms(1) Cons.prems(1)] q Cons.prems(3) IH(4) by (cases last_id) auto
  with IH one show ?case by (intro exI [of _ "out # outs"]) (auto simp: grew_def split: option.splits)
qed

end

lemma queue_in_tx_factory:
  fixes T :: "('a, 'd, 'e, 'o) action_def"
  shows "sh_factory (snd (queue_action_with_metadata_in_tx TO hs T a md sh)) = sh_factory sh"
  by (auto simp: queue_action_with_metadata_in_tx_def send_def notify_waiters_def
      split: option.splits prod.splits sum.splits)

lemma queue_actions_factory:
  fixes T :: "('a, 'd, 'e, 'o) action_def"
  shows "sh_factory (snd (queue_actions TO hs T as last_id sh)) = sh_factory sh"
proof -
  have "sh_factory (snd (queue_actions_loop TO hs T as last_id res sh)) = sh_factory sh" for res
  proof (induction as arbitrary: last_id res sh)
    case (Cons na as)
    obtain now a where na: "na = (now, a)" by (cases na)
    then show ?case
      using Cons queue_in_tx_factory [of TO hs T a "chain_metadata now last_id" sh]
      by (auto split: prod.splits sum.splits)
  qed simp
  then show ?thesis by (auto simp: queue_actions_def queue_tx_def split: prod.splits sum.splits) (metis snd_conv)+
qed

end
