(* ===== verification/Action_Queue_Cancel.thy ===== *)
theory Action_Queue_Cancel
  imports Action_Queue_Local
begin

text \<open>
  Cancelling: \<open>cancel_action_with_dependees\<close> returns on every consistent queue, takes exactly the
  actions that need the cancelled one, each once and before what it needs, and removes them. An
  executing action is never among them unless it is the one asked for.
\<close>

section \<open>Decodable rows\<close>

definition row_decodable :: "('a, 'd, 'e, 'o) factory \<Rightarrow> action_row \<Rightarrow> bool" where
  "row_decodable f r = (case f (ar_action_type r) of
     None \<Rightarrow> False
   | Some T \<Rightarrow> is_ok (act_convert T (ar_version r) (act_version T) (ar_state r)))"

lemma decode_row:
  fixes f :: "('a, 'd, 'e, 'o) factory"
  assumes "row_decodable f r"
  shows "\<exists>q md. (decode_action f (after_load db (from_row r)) :: 'e queued_error + _) = Ok (q, md)
    \<and> qa_id q = ar_id r \<and> qm_id md = ar_id r"
proof -
  from assms obtain T a where "f (ar_action_type r) = Some T"
    "act_convert T (ar_version r) (act_version T) (ar_state r) = Ok a"
    by (auto simp: row_decodable_def is_ok_def split: option.splits sum.splits)
  then show ?thesis
    by (simp add: decode_action_def factory_decode_def factory_decoder_def after_load_fields
        queued_metadata_of_def)
qed

lemma decode_row_iff:
  fixes f :: "('a, 'd, 'e, 'o) factory"
  shows "is_ok (decode_action f (after_load db (from_row r)) :: 'e queued_error + _) \<longleftrightarrow> row_decodable f r"
  by (auto simp: row_decodable_def decode_action_def factory_decode_def factory_decoder_def
      after_load_fields is_ok_def split: option.splits sum.splits)

lemma validate_all_iff: "validate_all f ss = Ok () \<longleftrightarrow> (\<forall>s \<in> set ss. is_ok (decode_action f s))"
  by (induction ss) (auto split: sum.splits)

lemma validate_queued_actions_iff:
  fixes sh :: "('a, 'd, 'e, 'o) shared"
  shows "validate_queued_actions sh = Ok () \<longleftrightarrow> (\<forall>r \<in> set (actions (sh_db sh)). row_decodable (sh_factory sh) r)"
  by (simp add: validate_queued_actions_def validate_all_iff decode_row_iff)

section \<open>Cancelling a list of actions\<close>

lemma load_row: "find_row i db = Some r \<Longrightarrow> load i db = Some (after_load db (from_row r))"
  by (simp add: load_def)

text \<open>What cancelling the action of a row does to the application's data.\<close>

definition revert_row :: "('a, 'd, 'e, 'o) factory \<Rightarrow> action_row \<Rightarrow> 'd \<Rightarrow> 'd" where
  "revert_row f r d =
     (case f (ar_action_type r) of
        None \<Rightarrow> d
      | Some T \<Rightarrow> (case act_convert T (ar_version r) (act_version T) (ar_state r) of
            Inl _ \<Rightarrow> d
          | Inr a \<Rightarrow> snd (snd (act_revert_local T (ar_id r) a d))))"

lemma cancel_one_Ok:
  fixes f :: "('a, 'd, 'e, 'o) factory"
  assumes "find_row i (qdb s) = Some r" and "row_decodable f r"
  shows "\<exists>md s'. (cancel_one f i s :: ('e queued_error + _) \<times> _) = (Ok md, s') \<and> qm_id md = i
    \<and> qdb s' = delete_where (\<lambda>r. ar_id r = i) (qdb s) \<and> app s' = revert_row f r (app s)"
proof -
  have i: "ar_id r = i" using assms(1) by (auto dest: find_row_Some)
  from assms(2) obtain T a where "f (ar_action_type r) = Some T"
    "act_convert T (ar_version r) (act_version T) (ar_state r) = Ok a"
    by (auto simp: row_decodable_def is_ok_def split: option.splits sum.splits)
  then show ?thesis
    by (simp add: cancel_one_def load_row [OF assms(1)] queued_action_cancel_def db_delete_def i
        decode_action_def factory_decode_def factory_decoder_def after_load_fields queued_metadata_of_def
        revert_row_def split: prod.splits)
qed

fun cancel_list ::
    "('a, 'd, 'e, 'o) factory \<Rightarrow> action_id list \<Rightarrow> queued_metadata list \<Rightarrow> 'd store
     \<Rightarrow> ('e queued_error + queued_metadata list) \<times> 'd store" where
  "cancel_list f [] acc s = (Ok acc, s)"
| "cancel_list f (i # is) acc s =
     (case cancel_one f i s of
        (Inl e, s') \<Rightarrow> (Err e, s')
      | (Inr md, s') \<Rightarrow> cancel_list f is (acc @ [md]) s')"

lemma cancel_sorted_run:
  assumes "pop_run TO t ks"
  shows "cancel_sorted TO f t acc s = Some (cancel_list f ks acc s)"
  using assms
proof (induction arbitrary: acc s rule: pop_run.induct)
  case (pop_run_Nil t)
  then show ?case by (cases "ts_pop TO t") (simp add: cancel_sorted.simps)
next
  case (pop_run_Cons t k t' ks)
  then show ?case by (simp add: cancel_sorted.simps [of TO f t] split: prod.splits sum.splits)
qed

lemma delete_where_actions [simp]: "actions (delete_where P db) = filter (\<lambda>r. \<not> P r) (actions db)"
  by (simp add: delete_where_def Let_def)

lemma cancel_list_Ok:
  fixes f :: "('a, 'd, 'e, 'o) factory"
  assumes "distinct ks" and "set ks \<subseteq> ids (qdb s)" and "queue_inv (qdb s)"
    and "\<forall>r \<in> set (actions (qdb s)). row_decodable f r"
  shows "\<exists>mds s'. (cancel_list f ks acc s :: ('e queued_error + _) \<times> _) = (Ok (acc @ mds), s')
    \<and> map qm_id mds = ks \<and> queue_inv (qdb s')
    \<and> actions (qdb s') = filter (\<lambda>r. ar_id r \<notin> set ks) (actions (qdb s))
    \<and> (\<exists>rows. map ar_id rows = ks \<and> set rows \<subseteq> set (actions (qdb s)) \<and> app s' = fold (revert_row f) rows (app s))"
  using assms
proof (induction ks arbitrary: acc s)
  case Nil
  then show ?case by simp
next
  case (Cons k ks)
  then obtain r where r: "find_row k (qdb s) = Some r"
    by (metis find_row_None list.set_intros(1) not_None_eq subsetD)
  then have "row_decodable f r" using Cons.prems(4) by (auto dest: find_row_Some)
  from cancel_one_Ok [OF r this] obtain md s1 where
    c: "(cancel_one f k s :: ('e queued_error + _) \<times> _) = (Ok md, s1)" "qm_id md = k"
    and d: "qdb s1 = delete_where (\<lambda>r. ar_id r = k) (qdb s)" "app s1 = revert_row f r (app s)" by blast
  have "ids (qdb s1) = ids (qdb s) - {k}" using ids_db_delete [of k "qdb s"] by (simp add: d db_delete_def)
  then have "set ks \<subseteq> ids (qdb s1)" using Cons.prems(1,2) by auto
  moreover have "queue_inv (qdb s1)" using Cons.prems(3) by (simp add: d queue_inv_delete_where)
  moreover have "\<forall>r \<in> set (actions (qdb s1)). row_decodable f r" using Cons.prems(4) by (simp add: d)
  ultimately obtain mds s' where IH:
    "(cancel_list f ks (acc @ [md]) s1 :: ('e queued_error + _) \<times> _) = (Ok ((acc @ [md]) @ mds), s')"
    "map qm_id mds = ks" "queue_inv (qdb s')"
    "actions (qdb s') = filter (\<lambda>r. ar_id r \<notin> set ks) (actions (qdb s1))"
    and ex: "\<exists>rows. map ar_id rows = ks \<and> set rows \<subseteq> set (actions (qdb s1)) \<and> app s' = fold (revert_row f) rows (app s1)"
    using Cons.IH [of s1 "acc @ [md]"] Cons.prems(1) by auto
  from ex obtain rows where rows: "map ar_id rows = ks" "set rows \<subseteq> set (actions (qdb s1))"
    "app s' = fold (revert_row f) rows (app s1)" by blast
  have "map ar_id (r # rows) = k # ks \<and> set (r # rows) \<subseteq> set (actions (qdb s)) \<and> app s' = fold (revert_row f) (r # rows) (app s)"
    using rows r by (auto simp: d dest: find_row_Some)
  then have run: "\<exists>rows. map ar_id rows = k # ks \<and> set rows \<subseteq> set (actions (qdb s)) \<and> app s' = fold (revert_row f) rows (app s)"
    by (rule exI)
  have "actions (qdb s') = filter (\<lambda>r. ar_id r \<notin> set (k # ks)) (actions (qdb s))"
    using IH by (auto simp: d intro!: filter_cong)
  with IH c run show ?case by (intro exI [of _ "md # mds"] exI [of _ s']) simp
qed

section \<open>The cancelled actions\<close>

definition cancelled_with :: "queue_db \<Rightarrow> action_id \<Rightarrow> action_id set" where
  "cancelled_with db i = (required_rel db)\<^sup>* `` {i}"

lemma Field_needs_from:
  assumes "required_rel db `` {i} \<noteq> {}"
  shows "Field (needs_from db {i}) = cancelled_with db i"
proof
  show "Field (needs_from db {i}) \<subseteq> cancelled_with db i"
    by (auto simp: Field_def needs_from_def cancelled_with_def intro: rtrancl_into_rtrancl)
  show "cancelled_with db i \<subseteq> Field (needs_from db {i})"
  proof
    fix x assume "x \<in> cancelled_with db i"
    then have "(i, x) \<in> (required_rel db)\<^sup>*" by (simp add: cancelled_with_def)
    then show "x \<in> Field (needs_from db {i})"
    proof (cases rule: rtranclE)
      case base
      with assms show ?thesis by (auto simp: Field_def needs_from_def)
    next
      case (step c)
      then have "(x, c) \<in> needs_from db {i}" by (simp add: needs_from_def)
      then show ?thesis by (auto simp: Field_def)
    qed
  qed
qed

lemma no_dependees:
  assumes "required_rel db `` {i} = {}"
  shows "needs_from db {i} = {}" and "cancelled_with db i = {i}"
proof -
  have r: "(required_rel db)\<^sup>* `` {i} = {i}" using assms by (auto elim: converse_rtranclE)
  then show "cancelled_with db i = {i}" by (simp add: cancelled_with_def)
  from r assms show "needs_from db {i} = {}" by (auto simp: needs_from_def)
qed

lemma cancelled_ids:
  assumes "fk_ok db" and "i \<in> ids db"
  shows "cancelled_with db i \<subseteq> ids db"
proof
  fix x assume "x \<in> cancelled_with db i"
  then have "(i, x) \<in> (required_rel db)\<^sup>*" by (simp add: cancelled_with_def)
  then show "x \<in> ids db"
    using assms by induction (auto simp: fk_ok_def dest: required_rel_dep_rel)
qed

text \<open>An action with a dependency is not executing, so a cancellation meets no other executor.\<close>

lemma cancelled_not_executing:
  assumes "exec_ok db"
  shows "cancelled_with db i \<inter> executing db \<subseteq> {i}"
proof
  fix x assume x: "x \<in> cancelled_with db i \<inter> executing db"
  then have "(i, x) \<in> (required_rel db)\<^sup>*" by (simp add: cancelled_with_def)
  then show "x \<in> {i}"
  proof (cases rule: rtranclE)
    case (step c)
    then have "(x, c) \<in> dep_rel db" by (simp add: required_rel_dep_rel)
    with x assms have False unfolding exec_ok_def by force
    then show ?thesis ..
  qed simp
qed

lemma acyclic_needs_from:
  assumes "acyclic (dep_rel db)"
  shows "acyclic (needs_from db S)"
  using assms by (rule acyclic_mono) (auto simp: needs_from_def dest: required_rel_dep_rel)

context action_sorter
begin

text \<open>The order in which the actions are cancelled, and that the call returns.\<close>

lemma cancel_runs:
  fixes f :: "('a, 'd, 'e, 'o) factory"
  assumes ac: "acyclic (dep_rel (qdb s))"
  shows "\<exists>ks. (cancel_action_with_dependees TO f i s :: (('e queued_error + _) \<times> _) option)
      = Some (cancel_list f ks [] s) \<and> distinct ks \<and> set ks = cancelled_with (qdb s) i
    \<and> (\<forall>c d. c \<in> set ks \<longrightarrow> (c, d) \<in> required_rel (qdb s) \<longrightarrow> precedes d c ks)"
proof -
  from collect_dependees_spec [OF ac, of i] obtain t where
    t: "collect_dependees TO (qdb s) [i] (ts_new TO) = Some t" "valid t"
    "before t = needs_from (qdb s) {i}" "items t = Field (needs_from (qdb s) {i})" by blast
  show ?thesis
  proof (cases "required_rel (qdb s) `` {i} = {}")
    case True
    with t have "ts_is_empty TO t" by (simp add: is_empty_iff no_dependees(1))
    with t have "(cancel_action_with_dependees TO f i s :: (('e queued_error + _) \<times> _) option)
        = Some (cancel_list f [i] [] s)"
      by (simp add: cancel_action_with_dependees_def split: prod.splits sum.splits)
    with True no_dependees(2) [OF True] show ?thesis by (intro exI [of _ "[i]"]) auto
  next
    case False
    with t have it: "items t = cancelled_with (qdb s) i" by (simp add: Field_needs_from)
    then have "\<not> ts_is_empty TO t" using t by (auto simp: is_empty_iff cancelled_with_def)
    moreover from pop_run_exists [OF t(2)] obtain ks where ks: "pop_run TO t ks" by blast
    ultimately have "(cancel_action_with_dependees TO f i s :: (('e queued_error + _) \<times> _) option)
        = Some (cancel_list f ks [] s)"
      using t by (simp add: cancel_action_with_dependees_def cancel_sorted_run)
    moreover have "set ks = cancelled_with (qdb s) i"
      using pop_run_complete [OF ks t(2)] t(3) it acyclic_needs_from [OF ac] by simp
    ultimately show ?thesis
      using pop_run_spec [OF ks t(2)] unfolding t(3)
      by (intro exI [of _ ks]) (auto simp: needs_from_def cancelled_with_def)
  qed
qed

lemma cancel_dependees_Ok:
  fixes f :: "('a, 'd, 'e, 'o) factory"
  assumes inv: "queue_inv (qdb s)" and i: "i \<in> ids (qdb s)"
    and dec: "\<forall>r \<in> set (actions (qdb s)). row_decodable f r"
  shows "\<exists>mds s'. (cancel_action_with_dependees TO f i s :: (('e queued_error + _) \<times> _) option) = Some (Ok mds, s')
    \<and> distinct (map qm_id mds) \<and> set (map qm_id mds) = cancelled_with (qdb s) i
    \<and> (\<forall>c d. c \<in> set (map qm_id mds) \<longrightarrow> (c, d) \<in> required_rel (qdb s) \<longrightarrow> precedes d c (map qm_id mds))
    \<and> queue_inv (qdb s')
    \<and> actions (qdb s') = filter (\<lambda>r. ar_id r \<notin> cancelled_with (qdb s) i) (actions (qdb s))
    \<and> (\<exists>rows. map ar_id rows = map qm_id mds \<and> set rows \<subseteq> set (actions (qdb s))
         \<and> app s' = fold (revert_row f) rows (app s))"
proof -
  have ac: "acyclic (dep_rel (qdb s))" and fk: "fk_ok (qdb s)"
    using inv by (simp_all add: queue_inv_def tables_ok_def)
  from cancel_runs [OF ac] obtain ks where
    ks: "(cancel_action_with_dependees TO f i s :: (('e queued_error + _) \<times> _) option) = Some (cancel_list f ks [] s)"
      "distinct ks" "set ks = cancelled_with (qdb s) i"
      "\<forall>c d. c \<in> set ks \<longrightarrow> (c, d) \<in> required_rel (qdb s) \<longrightarrow> precedes d c ks" by blast
  have "set ks \<subseteq> ids (qdb s)" using cancelled_ids [OF fk i] ks(3) by simp
  from cancel_list_Ok [OF ks(2) this inv dec, of "[]"] obtain mds s' where
    c: "(cancel_list f ks [] s :: ('e queued_error + _) \<times> _) = (Ok mds, s')"
    "map qm_id mds = ks" "queue_inv (qdb s')"
    "actions (qdb s') = filter (\<lambda>r. ar_id r \<notin> set ks) (actions (qdb s))"
    "\<exists>rows. map ar_id rows = ks \<and> set rows \<subseteq> set (actions (qdb s)) \<and> app s' = fold (revert_row f) rows (app s)"
    by auto
  then show ?thesis using ks by (intro exI [of _ mds] exI [of _ s']) simp
qed

text \<open>Whatever happens on the way, the tables stay consistent.\<close>

lemma queue_inv_cancel_one:
  fixes f :: "('a, 'd, 'e, 'o) factory"
  assumes "queue_inv (qdb s)"
  shows "queue_inv (qdb (snd (cancel_one f i s :: ('e queued_error + _) \<times> _)))"
  using assms
  by (auto simp: cancel_one_def queued_action_cancel_def db_delete_def queue_inv_delete_where
      split: option.splits sum.splits prod.splits)

lemma queue_inv_cancel_list:
  fixes f :: "('a, 'd, 'e, 'o) factory"
  assumes "queue_inv (qdb s)"
  shows "queue_inv (qdb (snd (cancel_list f ks acc s :: ('e queued_error + _) \<times> _)))"
  using assms
proof (induction ks arbitrary: acc s)
  case (Cons k ks)
  then show ?case
    using queue_inv_cancel_one [OF Cons.prems, of f k] by (auto split: sum.splits prod.splits)
qed simp

lemma queue_inv_cancel_dependees:
  fixes f :: "('a, 'd, 'e, 'o) factory"
  assumes "queue_inv (qdb s)"
  shows "\<exists>r s'. (cancel_action_with_dependees TO f i s :: (('e queued_error + _) \<times> _) option) = Some (r, s')
    \<and> queue_inv (qdb s')"
proof -
  have "acyclic (dep_rel (qdb s))" using assms by (simp add: queue_inv_def)
  from cancel_runs [OF this] obtain ks where
    "(cancel_action_with_dependees TO f i s :: (('e queued_error + _) \<times> _) option) = Some (cancel_list f ks [] s)"
    by blast
  with queue_inv_cancel_list [OF assms] show ?thesis by (metis prod.collapse)
qed

end

end
