(* ===== verification/Action_Locks.thy ===== *)
theory Action_Locks
  imports Action_Db_Inv
begin

text \<open>
  The execution guards as a protocol. The locale \<open>permit_protocol\<close> says what an executor may
  rely on: one holder per action, and a guard that was overtaken stays invalid. It is
  interpreted on the lock table of \<open>db.rs\<close>, for the steps that do not drop a lock row while its
  action is queued; the one operation that does, \<open>clear_slate_state\<close> on a row that is held, is
  the subject of the last section.
\<close>

section \<open>The protocol\<close>

locale permit_protocol =
  fixes ok :: "'s \<Rightarrow> bool" and holds :: "'g \<Rightarrow> 's \<Rightarrow> bool" and overtaken :: "'g \<Rightarrow> 's \<Rightarrow> bool"
    and same :: "'g \<Rightarrow> 'g \<Rightarrow> bool" and takes :: "'g \<Rightarrow> 's \<Rightarrow> 's \<Rightarrow> bool" and step :: "'s \<Rightarrow> 's \<Rightarrow> bool"
  assumes holds_unique: "ok s \<Longrightarrow> holds g s \<Longrightarrow> holds h s \<Longrightarrow> same g h \<Longrightarrow> g = h"
    and takes_holds: "ok s \<Longrightarrow> takes g s s' \<Longrightarrow> holds g s'"
    and takes_overtakes: "ok s \<Longrightarrow> takes g s s' \<Longrightarrow> holds h s \<Longrightarrow> same g h \<Longrightarrow> overtaken h s'"
    and overtaken_step: "ok s \<Longrightarrow> overtaken h s \<Longrightarrow> step s s' \<Longrightarrow> overtaken h s'"
    and ok_step: "ok s \<Longrightarrow> step s s' \<Longrightarrow> ok s'"
    and overtaken_not_holds: "ok s \<Longrightarrow> overtaken h s \<Longrightarrow> \<not> holds h s"
begin

lemma overtaken_forever:
  assumes "step\<^sup>*\<^sup>* s s'" and "ok s" and "overtaken h s"
  shows "ok s' \<and> \<not> holds h s'"
proof -
  from assms have "ok s' \<and> overtaken h s'"
    by (induction rule: rtranclp_induct) (auto intro: ok_step overtaken_step)
  then show ?thesis using overtaken_not_holds by blast
qed

lemma taken_over:
  assumes "ok s" and "takes g s s1" and "ok s1" and "holds h s" and "same g h" and "step\<^sup>*\<^sup>* s1 s2"
  shows "\<not> holds h s2"
  using assms takes_overtakes overtaken_forever by blast

end

section \<open>The lock table\<close>

definition guard_holds :: "execution_guard \<Rightarrow> queue_db \<Rightarrow> bool" where
  "guard_holds g db = (\<exists>l \<in> set (locks db). guard_matches g l)"

definition permit_of :: "action_id \<Rightarrow> queue_db \<Rightarrow> nat option" where
  "permit_of i db = map_option lk_permit (lock_of i db)"

lemma guard_holds_permit:
  assumes "unique_ok db"
  shows "guard_holds g db \<longleftrightarrow> permit_of (eg_action g) db = Some (eg_permit g)"
proof
  assume "guard_holds g db"
  then obtain l where "l \<in> set (locks db)" "guard_matches g l" by (auto simp: guard_holds_def)
  with lock_of_unique [OF assms, of l] show "permit_of (eg_action g) db = Some (eg_permit g)"
    by (simp add: permit_of_def guard_matches_def)
next
  assume "permit_of (eg_action g) db = Some (eg_permit g)"
  then show "guard_holds g db"
    by (auto simp: permit_of_def guard_holds_def guard_matches_def dest!: lock_of_Some)
qed

lemma guard_touch_zero: "fst (guard_touch g now db) = 0 \<longleftrightarrow> \<not> guard_holds g db"
  by (auto simp: guard_touch_def guard_holds_def filter_empty_conv)

text \<open>A guard whose action has moved on: a later permit, or the action is gone for good.\<close>

definition guard_overtaken :: "execution_guard \<Rightarrow> queue_db \<Rightarrow> bool" where
  "guard_overtaken g db = (eg_action g < next_id db
     \<and> (case permit_of (eg_action g) db of Some q \<Rightarrow> eg_permit g < q | None \<Rightarrow> eg_action g \<notin> ids db))"

text \<open>What is written to the lock table without handing out a guard.\<close>

inductive lock_write :: "queue_db \<Rightarrow> queue_db \<Rightarrow> bool" where
  released: "lock_write db (release g db)"
| touched: "lock_write db (snd (guard_touch g now db))"
| deleted: "lock_write db (delete_where P db)"
| idle_clear: "lock_write db (clear_slate_state ex db)" if "\<forall>l \<in> set (locks db). lk_executor l \<noteq> Some ex"
| other: "lock_write db db'" if "queue_inv db'" "locks db' = locks db" "next_id db \<le> next_id db'"
    "ids db' \<subseteq> ids db \<union> {next_id db..}"

inductive lock_step :: "queue_db \<Rightarrow> queue_db \<Rightarrow> bool" where
  acquire: "lock_step db db'" if "acquire_with_timestamp i ex now db = (r, db')"
    "i \<notin> fst ` dep_rel db"
| written: "lock_step db db'" if "lock_write db db'"

lemma lock_of_map:
  assumes "\<And>l. lk_action (f l) = lk_action l"
  shows "lock_of i (db\<lparr> locks := map f (locks db) \<rparr>) = map_option f (lock_of i db)"
  by (simp add: lock_of_def find_map_key [of lk_action, OF assms])

lemma lock_writes_keep_rows [simp]:
  "ids (release g db) = ids db" "next_id (release g db) = next_id db"
  "ids (snd (guard_touch g now db)) = ids db" "next_id (snd (guard_touch g now db)) = next_id db"
  by (simp_all add: release_def guard_touch_def ids_def)

lemma permit_of_release [simp]: "permit_of i (release g db) = permit_of i db"
  unfolding permit_of_def release_def by (subst lock_of_map) (auto simp: option.map_comp comp_def intro!: map_option_cong)

lemma permit_of_touch [simp]: "permit_of i (snd (guard_touch g now db)) = permit_of i db"
  unfolding permit_of_def guard_touch_def snd_conv
  by (subst lock_of_map) (auto simp: option.map_comp comp_def intro!: map_option_cong)

lemma permit_of_delete:
  "permit_of i (delete_where P db) = (if i \<in> set (map ar_id (filter P (actions db))) then None else permit_of i db)"
proof -
  have "locks (delete_where P db) = filter (\<lambda>l. lk_action l \<notin> set (map ar_id (filter P (actions db)))) (locks db)"
    by (simp add: delete_where_def Let_def)
  then have "lock_of i (delete_where P db)
      = (if i \<in> set (map ar_id (filter P (actions db))) then None else lock_of i db)"
    unfolding lock_of_def by (simp only: find_filter_key [of lk_action])
  then show ?thesis by (simp add: permit_of_def)
qed

lemma ids_delete_diff:
  assumes "ids_ok db"
  shows "ids (delete_where P db) = ids db - set (map ar_id (filter P (actions db)))"
  using assms unfolding ids_delete_where
  by (auto simp: ids_ok_def ids_def distinct_map dest: inj_onD)

lemma permit_of_acquire:
  assumes "acquire_with_timestamp i ex now db = (Ok g, db')"
  shows "permit_of j db' = (if j = i then Some (eg_permit g) else permit_of j db)"
    and "\<forall>q. permit_of i db = Some q \<longrightarrow> eg_permit g = q + 1"
    and "permit_of i db = None \<longrightarrow> i \<in> ids db"
proof -
  show "permit_of j db' = (if j = i then Some (eg_permit g) else permit_of j db)"
  proof (cases "lock_of i db")
    case None
    with acquire_fresh [OF assms None] show ?thesis
      by (simp add: permit_of_def lock_of_def find_append split: option.splits)
  next
    case (Some l)
    let ?f = "\<lambda>k. if lk_action k = i
         then k\<lparr> lk_executor := Some ex, lk_permit := lk_permit k + 1, lk_acquired := SqlTime now \<rparr> else k"
    have "lock_of j db' = lock_of j (db\<lparr> locks := map ?f (locks db) \<rparr>)"
      using acquire_again [OF assms Some] by (simp add: lock_of_def)
    also have "\<dots> = map_option ?f (lock_of j db)" by (rule lock_of_map) simp
    finally show ?thesis
      using acquire_again [OF assms Some] Some
      by (cases "lock_of j db") (auto simp: permit_of_def dest: lock_of_Some)
  qed
  show "\<forall>q. permit_of i db = Some q \<longrightarrow> eg_permit g = q + 1"
    using acquire_again [OF assms] by (auto simp: permit_of_def)
  show "permit_of i db = None \<longrightarrow> i \<in> ids db"
    using acquire_fresh [OF assms] by (auto simp: permit_of_def)
qed

section \<open>The table keeps the protocol\<close>

lemma queue_inv_lock_write:
  assumes "lock_write db db'" and "queue_inv db"
  shows "queue_inv db'"
  using assms
  by (cases rule: lock_write.cases)
    (auto simp: queue_inv_release queue_inv_guard_touch queue_inv_delete_where queue_inv_clear_slate_state)

lemma queue_inv_lock_step:
  assumes "lock_step db db'" and "queue_inv db"
  shows "queue_inv db'"
  using assms
proof (cases rule: lock_step.cases)
  case (acquire i ex now r)
  then show ?thesis
    using assms(2) queue_inv_acquire
    by (cases r) (auto simp: acquire_with_timestamp_def split: if_splits option.splits)
qed (rule queue_inv_lock_write)

text \<open>
  A write keeps the permit of every action that is still queued, and never brings an identifier
  back.
\<close>

lemma lock_write_permit:
  assumes inv: "queue_inv db" and w: "lock_write db db'"
  shows "(i \<in> ids db' \<longrightarrow> permit_of i db' = permit_of i db) \<and> (i \<notin> ids db' \<longrightarrow> permit_of i db' = None)
    \<and> next_id db \<le> next_id db' \<and> (i < next_id db \<longrightarrow> i \<in> ids db' \<longrightarrow> i \<in> ids db)"
proof -
  have ok: "ids_ok db" using inv by (simp add: queue_inv_def tables_ok_def)
  have "fk_ok db'" using queue_inv_lock_write [OF w inv] by (simp add: queue_inv_def tables_ok_def)
  then have gone: "i \<notin> ids db' \<longrightarrow> permit_of i db' = None"
    by (cases "lock_of i db'") (auto simp: fk_ok_def permit_of_def dest!: lock_of_Some)
  from w gone show ?thesis
  proof (cases rule: lock_write.cases)
    case (deleted P)
    have "next_id (delete_where P db) = next_id db" by (simp add: delete_where_def Let_def)
    then show ?thesis
      using gone ids_delete_diff [OF ok, of P] permit_of_delete [of i P db] unfolding deleted by auto
  next
    case (idle_clear ex)
    then have "clear_slate_state ex db = db" by (simp add: clear_slate_state_def)
    with idle_clear gone show ?thesis by simp
  next
    case other
    then show ?thesis using gone by (auto simp: permit_of_def lock_of_def)
  qed simp_all
qed

lemma guard_overtaken_step:
  assumes inv: "queue_inv db" and o: "guard_overtaken h db" and st: "lock_step db db'"
  shows "guard_overtaken h db'"
  using st
proof (cases rule: lock_step.cases)
  case (acquire i ex now r)
  show ?thesis
  proof (cases r)
    case (Inl e)
    with acquire have "db' = db" by (auto simp: acquire_with_timestamp_def split: if_splits option.splits)
    with o show ?thesis by simp
  next
    case (Inr g)
    note acq = acquire(1) [unfolded Inr]
    have "next_id db' = next_id db" "ids db' = ids db"
      using acquire_locks [OF acq] by (simp_all add: ids_def)
    with o permit_of_acquire [OF acq] show ?thesis
      unfolding guard_overtaken_def by (cases "permit_of (eg_action h) db") auto
  qed
next
  case written
  from lock_write_permit [OF inv written, of "eg_action h"] o show ?thesis
    unfolding guard_overtaken_def
    by (cases "eg_action h \<in> ids db'"; cases "permit_of (eg_action h) db") auto
qed

definition guard_takes :: "execution_guard \<Rightarrow> queue_db \<Rightarrow> queue_db \<Rightarrow> bool" where
  "guard_takes g db db' = (\<exists>ex now. acquire_with_timestamp (eg_action g) ex now db = (Ok g, db')
     \<and> eg_action g \<notin> fst ` dep_rel db)"

interpretation execution_locks: permit_protocol queue_inv guard_holds guard_overtaken
    "\<lambda>g h. eg_action g = eg_action h" guard_takes lock_step
proof (unfold_locales, goal_cases)
  case (1 db g h)
  then show ?case by (simp add: guard_holds_permit queue_inv_def tables_ok_def)
next
  case (2 db g db')
  then obtain ex now where a: "acquire_with_timestamp (eg_action g) ex now db = (Ok g, db')"
    "eg_action g \<notin> fst ` dep_rel db"
    by (auto simp: guard_takes_def)
  from queue_inv_acquire [OF 2(1) a(2,1)] permit_of_acquire(1) [OF a(1)] show ?case
    by (simp add: guard_holds_permit queue_inv_def tables_ok_def)
next
  case (3 db g db' h)
  then obtain ex now where a: "acquire_with_timestamp (eg_action g) ex now db = (Ok g, db')"
    by (auto simp: guard_takes_def)
  have u: "unique_ok db" "ids_ok db" "fk_ok db" using 3(1) by (simp_all add: queue_inv_def tables_ok_def)
  have p: "permit_of (eg_action h) db = Some (eg_permit h)" using 3(3) u by (simp add: guard_holds_permit)
  then have "eg_action h \<in> ids db"
    using u(3) by (auto simp: permit_of_def fk_ok_def dest!: lock_of_Some)
  moreover have "next_id db' = next_id db" using acquire_locks [OF a] by simp
  ultimately show ?case
    using p permit_of_acquire [OF a] 3(4) u(2) by (auto simp: guard_overtaken_def ids_ok_def)
next
  case (4 db h db')
  then show ?case by (rule guard_overtaken_step)
next
  case (5 db db')
  then show ?case using queue_inv_lock_step by blast
next
  case (6 db h)
  then show ?case by (auto simp: guard_holds_permit guard_overtaken_def queue_inv_def tables_ok_def)
qed

section \<open>The guards of a run\<close>

text \<open>
  A run with the guards it hands out, the last one first. Locks are taken by
  \<open>acquire_with_timestamp\<close> and written by everything else; no executor drops a row that it holds.
\<close>

inductive granted :: "queue_db \<Rightarrow> execution_guard list \<Rightarrow> queue_db \<Rightarrow> bool" for db where
  granted_none: "granted db [] db"
| granted_take: "granted db (g # gs) db2" if "granted db gs db1" "guard_takes g db1 db2"
| granted_write: "granted db gs db2" if "granted db gs db1" "lock_write db1 db2"

text \<open>The last guard handed out for an action.\<close>

definition latest_guard :: "action_id \<Rightarrow> execution_guard list \<Rightarrow> execution_guard option" where
  "latest_guard i gs = find (\<lambda>h. eg_action h = i) gs"

lemma latest_guard_Cons [simp]:
  "latest_guard i (g # gs) = (if eg_action g = i then Some g else latest_guard i gs)"
  by (simp add: latest_guard_def)

lemma latest_guard_Nil [simp]: "latest_guard i [] = None"
  by (simp add: latest_guard_def)

text \<open>The later guard of an action has the higher permit; the last one's is in the table.\<close>

definition permits_fall :: "execution_guard list \<Rightarrow> bool" where
  "permits_fall gs = sorted_wrt (\<lambda>g h. eg_action g = eg_action h \<longrightarrow> eg_permit h < eg_permit g) gs"

lemma latest_permit:
  assumes "permits_fall gs" and "h \<in> set gs"
  shows "\<exists>g. latest_guard (eg_action h) gs = Some g \<and> eg_action g = eg_action h \<and> (h = g \<or> eg_permit h < eg_permit g)"
  using assms by (induction gs) (auto simp: permits_fall_def)

lemma granted_inv:
  assumes "granted db gs db'" and "queue_inv db"
  shows "queue_inv db' \<and> permits_fall gs
    \<and> (\<forall>i g. latest_guard i gs = Some g \<longrightarrow> i < next_id db'
          \<and> permit_of i db' = (if i \<in> ids db' then Some (eg_permit g) else None))"
  using assms
proof (induction rule: granted.induct)
  case granted_none
  then show ?case by (simp add: permits_fall_def)
next
  case (granted_take gs db1 g db2)
  then obtain ex now where a: "acquire_with_timestamp (eg_action g) ex now db1 = (Ok g, db2)"
    and nd: "eg_action g \<notin> fst ` dep_rel db1" by (auto simp: guard_takes_def)
  have inv: "queue_inv db1" and pf: "permits_fall gs" using granted_take by auto
  have same: "next_id db2 = next_id db1" "ids db2 = ids db1" using acquire_locks [OF a] by (simp_all add: ids_def)
  have live: "eg_action g \<in> ids db1"
    using permit_of_acquire(3) [OF a] inv
    by (cases "permit_of (eg_action g) db1")
      (auto simp: permit_of_def fk_ok_def queue_inv_def tables_ok_def dest!: lock_of_Some)
  then have low: "eg_action g < next_id db1" using inv by (simp add: queue_inv_def tables_ok_def ids_ok_def)
  have "eg_permit h < eg_permit g" if h: "h \<in> set gs" "eg_action g = eg_action h" for h
  proof -
    from latest_permit [OF pf h(1)] obtain k where
      k: "latest_guard (eg_action h) gs = Some k" "h = k \<or> eg_permit h < eg_permit k" by blast
    with granted_take h live have "permit_of (eg_action g) db1 = Some (eg_permit k)" by auto
    with permit_of_acquire(2) [OF a] k show ?thesis by auto
  qed
  with pf have "permits_fall (g # gs)" by (simp add: permits_fall_def)
  with granted_take same live low permit_of_acquire(1) [OF a] queue_inv_acquire [OF inv nd a] show ?case by auto
next
  case (granted_write gs db1 db2)
  then have inv: "queue_inv db1" by simp
  note w = lock_write_permit [OF inv granted_write(2)]
  have "i < next_id db2 \<and> permit_of i db2 = (if i \<in> ids db2 then Some (eg_permit g) else None)"
    if "latest_guard i gs = Some g" for i g
  proof -
    have "i < next_id db1" "permit_of i db1 = (if i \<in> ids db1 then Some (eg_permit g) else None)"
      using granted_write that by auto
    with w [of i] show ?thesis by (cases "i \<in> ids db2") auto
  qed
  with granted_write queue_inv_lock_write [OF granted_write(2) inv] show ?case by simp
qed

text \<open>So a guard is accepted exactly when it is the last one and the action is still queued.\<close>

lemma granted_holds:
  assumes run: "granted db gs db'" and inv: "queue_inv db" and h: "h \<in> set gs"
  shows "guard_holds h db' \<longleftrightarrow> latest_guard (eg_action h) gs = Some h \<and> eg_action h \<in> ids db'"
proof -
  note facts = granted_inv [OF run inv]
  from latest_permit [OF _ h] facts obtain g where
    g: "latest_guard (eg_action h) gs = Some g" "h = g \<or> eg_permit h < eg_permit g" by blast
  have "unique_ok db'" using facts by (simp add: queue_inv_def tables_ok_def)
  with facts g show ?thesis by (auto simp: guard_holds_permit)
qed

lemma permits_fall_distinct: "permits_fall gs \<Longrightarrow> distinct gs"
  by (induction gs) (auto simp: permits_fall_def)

end
