(* ===== verification/Action_Queue_Exec.thy ===== *)
theory Action_Queue_Exec
  imports Action_Queue_Cancel Action_Locks
begin

text \<open>
  Executing actions: what the final transaction of an execution commits on each outcome, that
  an execution always returns on a consistent queue, and that it keeps the queue consistent
  whatever the other tasks commit meanwhile, as long as they keep it consistent too.
\<close>

section \<open>Transactions and the invariant\<close>

abbreviation store_inv :: "'d store \<Rightarrow> bool" where
  "store_inv s \<equiv> queue_inv (qdb s)"

lemma write_tx_inv:
  assumes "store_inv s" and "\<And>x s'. f s = (Ok x, s') \<Longrightarrow> store_inv s'"
  shows "store_inv (snd (write_tx f s))"
  using assms by (auto simp: write_tx_def split: prod.splits sum.splits)

lemma keepalive_inv:
  assumes "store_inv s"
  shows "store_inv (snd (guard_tx Expired g now (\<lambda>s. (Ok (), s)) s))"
  unfolding guard_tx_def
proof (rule write_tx_inv [OF assms])
  fix x s'
  assume "(case guard_touch g now (qdb s) of (changed, db) \<Rightarrow>
      if changed = 0 then (Err Expired, s\<lparr> qdb := db \<rparr>) else (Ok (), s\<lparr> qdb := db \<rparr>)) = (Ok x, s')"
  then have "qdb s' = snd (guard_touch g now (qdb s))"
    by (auto split: prod.splits if_splits)
  then show "store_inv s'" using assms by (simp add: queue_inv_guard_touch)
qed

lemma keepalive_result:
  "fst (guard_tx Expired g now (\<lambda>s. (Ok (), s)) s) = (if guard_holds g (qdb s) then Ok () else Err Expired)"
  using guard_touch_zero [of g now "qdb s"]
  by (auto simp: guard_tx_def write_tx_def split: prod.splits)

lemma remote_wait_inv:
  assumes "store_inv s" and "\<forall>(now, others) \<in> set ws. \<forall>s. store_inv s \<longrightarrow> store_inv (others s)"
  shows "store_inv (snd (remote_wait g ws s))"
  using assms
proof (induction ws arbitrary: s)
  case Nil
  then show ?case by simp
next
  case (Cons w ws)
  obtain now others where w: "w = (now, others)" by (cases w)
  let ?s = "others s"
  have "store_inv ?s" using Cons.prems w by auto
  then have "store_inv (snd (guard_tx Expired g now (\<lambda>s. (Ok (), s)) ?s))" by (rule keepalive_inv)
  then show ?case
    using Cons.IH Cons.prems(2) w by (auto split: prod.splits sum.splits)
qed

section \<open>The final transaction\<close>

text \<open>A guarded transaction runs exactly when the guard still holds its action.\<close>

lemma tx_and_release_holds:
  "tx_and_release g now closure s =
     (if \<not> guard_holds g (qdb s) then Some (Err Expired, s)
      else case closure (s\<lparr> qdb := snd (guard_touch g now (qdb s)) \<rparr>) of
        None \<Rightarrow> None
      | Some (Inl e, s2) \<Rightarrow> Some (Err (StashFailed e), s)
      | Some (Inr x, s2) \<Rightarrow> Some (Ok x, s2\<lparr> qdb := release g (qdb s2) \<rparr>))"
  using guard_touch_zero [of g now "qdb s"]
  by (auto simp: tx_and_release_def write_tx_opt_def split: prod.splits option.splits sum.splits)

lemma get_retries_row: "get_retries i db = Ok n \<Longrightarrow> i \<in> ids db"
  by (auto simp: get_retries_def ids_def split: option.splits dest!: find_row_Some)

definition others_keep :: "'d remote_schedule \<Rightarrow> bool" where
  "others_keep rx = ((\<forall>(now, others) \<in> set (rx_wakeups rx). \<forall>s. store_inv s \<longrightarrow> store_inv (others s))
     \<and> (\<forall>s. store_inv s \<longrightarrow> store_inv (rx_others rx s)))"

lemma send_all_store [simp]:
  "sh_store (send_all ms sh) = sh_store sh" "sh_factory (send_all ms sh) = sh_factory sh"
  by (induction ms arbitrary: sh) (simp_all add: send_all_def send_def)

lemma send_all_broadcast: "sh_broadcast (send_all ms sh) = sh_broadcast sh @ ms"
  by (induction ms arbitrary: sh) (simp_all add: send_all_def send_def)

context action_sorter
begin

lemma remote_finish_inv:
  fixes f :: "('a, 'd, 'e, 'o) factory" and T :: "('a, 'd, 'e, 'o) action_def"
  assumes "store_inv s"
  shows "\<exists>r s'. remote_finish TO f T i result s = Some (Ok r, s') \<and> store_inv s'"
proof (cases result)
  case (Inr out)
  with assms show ?thesis
    by (simp add: remote_finish_def db_delete_def queue_inv_delete_where Let_def)
next
  case (Inl e)
  obtain c s' where c: "cancel_action_with_dependees TO f i s = Some (c :: 'e queued_error + _, s')" "store_inv s'"
    using queue_inv_cancel_dependees [OF assms] by blast
  from Inl c assms show ?thesis
    by (cases c) (auto simp: remote_finish_def Let_def queue_inv_update_retries split: option.splits sum.splits)
qed

lemma tx_and_release_inv:
  fixes f :: "('a, 'd, 'e, 'o) factory" and T :: "('a, 'd, 'e, 'o) action_def"
  assumes inv: "store_inv s"
  shows "\<exists>r s'. tx_and_release g now (remote_finish TO f T i result) s = Some (r, s') \<and> store_inv s'
    \<and> (case r of Inl Expired \<Rightarrow> s' = s | Inl _ \<Rightarrow> False | Inr _ \<Rightarrow> True)"
proof -
  let ?s = "s\<lparr> qdb := snd (guard_touch g now (qdb s)) \<rparr>"
  have "store_inv ?s" using inv by (simp add: queue_inv_guard_touch)
  from remote_finish_inv [OF this] obtain r s' where
    fin: "remote_finish TO f T i result ?s = Some (Ok r, s')" "store_inv s'" by blast
  show ?thesis
  proof (cases "fst (guard_touch g now (qdb s)) = 0")
    case True
    with inv show ?thesis
      by (auto simp: tx_and_release_def write_tx_opt_def split: prod.splits)
  next
    case False
    with fin have "tx_and_release g now (remote_finish TO f T i result) s
        = Some (Ok r, s'\<lparr> qdb := release g (qdb s') \<rparr>)"
      by (auto simp: tx_and_release_def write_tx_opt_def split: prod.splits)
    with fin(2) show ?thesis by (simp add: queue_inv_release)
  qed
qed

section \<open>One execution\<close>

lemma execute_action_remote_inv:
  fixes sh :: "('a, 'd, 'e, 'o) shared" and T :: "('a, 'd, 'e, 'o) action_def"
  assumes inv: "store_inv (sh_store sh)" and keep: "others_keep rx"
  shows "\<exists>r sh'. execute_action_remote TO rx i T a g sh = Some (r, sh') \<and> store_inv (sh_store sh')"
proof -
  obtain res a' d where ap: "act_apply_remote T i a (app (sh_store sh)) = (res, a', d)" by (metis surj_pair)
  define s0 where "s0 = (if rx_delivered rx then (sh_store sh)\<lparr> app := d \<rparr> else sh_store sh)"
  obtain w s1 where w: "remote_wait g (rx_wakeups rx) s0 = (w, s1)" by (metis surj_pair)
  have "store_inv s0" using inv by (simp add: s0_def)
  then have s1: "store_inv s1" using remote_wait_inv [of s0 "rx_wakeups rx" g] keep w by (simp add: others_keep_def)
  then have o: "store_inv (rx_others rx s1)" using keep by (simp add: others_keep_def)
  from tx_and_release_inv [OF o, of g "rx_now rx" "sh_factory sh" T i res] obtain r s2 where
    fin: "tx_and_release g (rx_now rx) (remote_finish TO (sh_factory sh) T i res) (rx_others rx s1) = Some (r, s2)"
    "store_inv s2" by blast
  show ?thesis
    unfolding execute_action_remote_def Let_def ap prod.case s0_def [symmetric] w
    using s1 o fin by (auto split: sum.splits execution_guard_error.splits)
qed

lemma queued_action_execute_inv:
  fixes sh :: "('a, 'd, 'e, 'o) shared"
  assumes "store_inv (sh_store sh)" and "others_keep rx"
  shows "\<exists>r sh'. queued_action_execute TO rx q g md sh = Some (r, sh') \<and> store_inv (sh_store sh')"
proof -
  from execute_action_remote_inv [OF assms, of "qa_id q" "qa_def q" "qa_action q" g] obtain r sh' where
    "execute_action_remote TO rx (qa_id q) (qa_def q) (qa_action q) g sh = Some (r, sh')"
    "store_inv (sh_store sh')" by blast
  then show ?thesis
    by (auto simp: queued_action_execute_def split: sum.splits action_remote_output.splits)
qed

text \<open>Taking the next action, running it and committing the outcome always returns.\<close>

lemma execute_impl_inv:
  fixes sh :: "('a, 'd, 'e, 'o) shared"
  assumes inv: "store_inv (sh_store sh)" and pick: "picks_row (tn_pick tn)"
    and keep: "others_keep (tn_remote tn)"
  shows "\<exists>r sh'. execute_impl TO ex tn sh = Some (r, sh') \<and> store_inv (sh_store sh')"
proof -
  obtain p db where pop: "pop (tn_pick tn) (ex_id ex) (ex_group ex) (tn_now tn) (tn_now' tn) (sh_db sh) = (p, db)"
    by (metis surj_pair)
  have db: "queue_inv db"
    using queue_inv_pop [OF inv pick, of "ex_id ex" "ex_group ex" "tn_now tn" "tn_now' tn"] pop by simp
  have run: "\<exists>r sh'. queued_action_execute TO (tn_remote tn) q g md (set_db db sh) = Some (r, sh')
      \<and> store_inv (sh_store sh')" for q g md
    using db keep by (intro queued_action_execute_inv) (simp_all add: set_db_def)
  show ?thesis
  proof (cases "\<exists>g a. p = Ok (Some (g, a))")
    case False
    with pop db show ?thesis
      unfolding execute_impl_def by (auto simp: set_db_def split: sum.splits option.splits)
  next
    case True
    then obtain g a where p: "p = Ok (Some (g, a))" by blast
    show ?thesis
    proof (cases "decode_action (sh_factory sh) a :: 'e queued_error + _")
      case (Inl e)
      with pop p db show ?thesis by (simp add: execute_impl_def set_db_def queue_inv_release)
    next
      case (Inr qm)
      obtain q md where qm: "qm = (q, md)" by (cases qm)
      obtain r sh' where x: "queued_action_execute TO (tn_remote tn) q g md (set_db db sh) = Some (r, sh')"
        "store_inv (sh_store sh')" using run by blast
      with pop p Inr qm show ?thesis
        by (auto simp: execute_impl_def send_def split: sum.splits queued_error.splits)
    qed
  qed
qed

end

section \<open>The steps of the queue\<close>

text \<open>
  Every transaction any task of the process may commit, in any order: this is how executors,
  callers and the handlers of running actions interleave. A handler writes the application's
  data only.
\<close>

inductive queue_step ::
    "(action_id, 't) topo_ops \<Rightarrow> (action_dependency list \<Rightarrow> action_dependency list)
     \<Rightarrow> ('a, 'd, 'e, 'o) shared \<Rightarrow> ('a, 'd, 'e, 'o) shared \<Rightarrow> bool" for TO hs where
  st_queue: "queue_step TO hs sh sh'" if "queue_action_with_metadata TO hs T a md sh = (r, sh')"
| st_queue_many: "queue_step TO hs sh sh'" if "queue_actions TO hs T as last_id sh = (r, sh')"
| st_enqueue: "queue_step TO hs sh sh'" if "enqueue TO hs as' sh = (r', sh')"
| st_replace: "queue_step TO hs sh sh'" if "replace_or_queue_action_with_metadata TO hs i T a md sh = (r, sh')"
| st_delete: "queue_step TO hs sh sh'" if "delete_action i sh = (r, sh')"
| st_delete_group: "queue_step TO hs sh sh'" if "delete_all_actions_in_group g sh = (r, sh')"
| st_delete_type: "queue_step TO hs sh sh'" if "delete_all_by_type T sh = (r, sh')"
| st_cancel: "queue_step TO hs sh sh'" if "cancel TO i sh = Some (r, sh')"
| st_rebase: "queue_step TO hs sh sh'" if "rebase g cs sh = (r, sh')"
| st_register: "queue_step TO hs sh sh'" if "register T sh = (r, sh')"
| st_register_or_replace: "queue_step TO hs sh (register_or_replace T sh)"
| st_pop: "queue_step TO hs sh (set_db db sh)" if "pop pick ex g now now' (sh_db sh) = (r, db)" "picks_row pick"
| st_keepalive: "queue_step TO hs sh (sh\<lparr> sh_store := s' \<rparr>)"
    if "guard_tx Expired gd now (\<lambda>s. (Ok (), s)) (sh_store sh) = (r, s')"
| st_finish: "queue_step TO hs sh (sh\<lparr> sh_store := s' \<rparr>)"
    if "tx_and_release gd now (remote_finish TO (sh_factory sh) T i result) (sh_store sh) = Some (r, s')"
| st_release: "queue_step TO hs sh (set_db (release gd (sh_db sh)) sh)"
| st_handler: "queue_step TO hs sh (sh\<lparr> sh_store := (sh_store sh)\<lparr> app := d \<rparr> \<rparr>)"
| st_send: "queue_step TO hs sh (send m sh)"

definition initial :: "('a, 'd, 'e, 'o) shared \<Rightarrow> bool" where
  "initial sh = (\<exists>d f. sh = queue_with_factory \<lparr> qdb = empty_db, app = d \<rparr> f)"

inductive reachable ::
    "(action_id, 't) topo_ops \<Rightarrow> (action_dependency list \<Rightarrow> action_dependency list)
     \<Rightarrow> ('a, 'd, 'e, 'o) shared \<Rightarrow> bool" for TO hs where
  reach_init: "initial sh \<Longrightarrow> reachable TO hs sh"
| reach_step: "reachable TO hs sh \<Longrightarrow> queue_step TO hs sh sh' \<Longrightarrow> reachable TO hs sh'"

lemma queue_inv_rebase_loop:
  fixes f :: "('a, 'd, 'e, 'o) factory"
  assumes "store_inv s"
  shows "store_inv (snd (rebase_loop f cs is s :: ('e queued_error + _) \<times> _))"
  using assms
proof (induction f cs "is" s rule: rebase_loop.induct)
  case (2 f cs i "is" s)
  show ?case
  proof (cases "load i (qdb s)")
    case (Some action)
    show ?thesis
    proof (cases "decode_action f action :: 'e queued_error + _")
      case (Inr qm)
      obtain q md where qm: "qm = (q, md)" by (cases qm)
      obtain r s1 where r: "queued_action_rebase q action md cs s = (r, s1)" by (metis surj_pair)
      then have "store_inv s1"
        using 2(2) by (auto simp: queued_action_rebase_def queue_inv_update_action_state split: prod.splits sum.splits)
      with 2 Some Inr qm r show ?thesis by (cases r) auto
    qed (use Some 2(2) in auto)
  qed (use 2(2) in auto)
qed simp

lemma queue_inv_rebase:
  assumes "store_inv (sh_store sh)"
  shows "store_inv (sh_store (snd (rebase g cs sh)))"
proof -
  have "store_inv (snd (rebase_in (sh_factory sh) g cs (sh_store sh)))"
    by (simp add: rebase_in_def Let_def queue_inv_rebase_loop assms)
  then have "store_inv (snd (write_tx (rebase_in (sh_factory sh) g cs) (sh_store sh)))"
    using assms by (intro write_tx_inv) auto
  then show ?thesis by (auto simp: rebase_def split: prod.splits)
qed

lemma queue_tx_inv:
  assumes "store_inv (sh_store sh)" and "\<And>x sh'. f sh = (Ok x, sh') \<Longrightarrow> store_inv (sh_store sh')"
  shows "store_inv (sh_store (snd (queue_tx f sh)))"
  using assms by (auto simp: queue_tx_def split: prod.splits sum.splits)

context action_sorter
begin

lemma queue_actions_loop_inv:
  fixes T :: "('a, 'd, 'e, 'o) action_def"
  assumes "store_inv (sh_store sh)" and "queue_actions_loop TO hs T as last_id res sh = (Ok res', sh')"
  shows "store_inv (sh_store sh')"
  using assms
proof (induction as arbitrary: last_id res sh)
  case (Cons na as)
  then show ?case
    by (cases na) (auto split: prod.splits sum.splits dest!: queue_in_tx_inv [OF Cons.prems(1)] intro: Cons.IH)
qed simp

lemma enqueue_loop_inv:
  fixes sh :: "('a, 'd, 'e, 'o) shared"
  assumes "store_inv (sh_store sh)" and "enqueue_loop TO hs as last_id sh = (Ok res, sh')"
  shows "store_inv (sh_store sh')"
  using assms
proof (induction as arbitrary: last_id sh)
  case (Cons na as)
  then show ?case
    by (cases na) (auto split: prod.splits sum.splits dest!: queue_in_tx_inv [OF Cons.prems(1)] intro: Cons.IH)
qed simp

lemma replace_inv:
  fixes sh :: "('a, 'd, 'e, 'o) shared"
  assumes "store_inv (sh_store sh)"
  shows "store_inv (sh_store (snd (replace_or_queue_action_with_metadata TO hs i T a md sh)))"
proof (cases "shared_handler sh T")
  case None
  with assms show ?thesis by (simp add: replace_or_queue_action_with_metadata_def)
next
  case (Some H)
  have "store_inv (snd (write_tx (execute_action_local TO hs T a H md (Some i)) (sh_store sh)))"
    using assms by (intro write_tx_inv) (auto dest!: local_Ok [OF assms])
  with Some show ?thesis
    by (auto simp: replace_or_queue_action_with_metadata_def send_def notify_waiters_def
        split: prod.splits sum.splits)
qed

lemma cancel_inv:
  fixes sh :: "('a, 'd, 'e, 'o) shared"
  assumes "store_inv (sh_store sh)"
  shows "\<exists>r sh'. cancel TO i sh = Some (r, sh') \<and> store_inv (sh_store sh') \<and> sh_factory sh' = sh_factory sh"
proof (cases "has_executor i (sh_db sh)")
  case True
  with assms show ?thesis by (simp add: cancel_def write_tx_opt_def)
next
  case False
  from queue_inv_cancel_dependees [OF assms, of "sh_factory sh" i] obtain r :: "'e queued_error + _" and s' where
    "cancel_action_with_dependees TO (sh_factory sh) i (sh_store sh) = Some (r, s')" "store_inv s'" by blast
  with False assms show ?thesis by (cases r) (auto simp: cancel_def write_tx_opt_def)
qed

lemma queue_step_inv:
  fixes sh :: "('a, 'd, 'e, 'o) shared"
  assumes "queue_step TO hs sh sh'" and "store_inv (sh_store sh)"
  shows "store_inv (sh_store sh')"
  using assms(1)
proof (cases rule: queue_step.cases)
  case (st_queue T a md r)
  then show ?thesis
    using queue_tx_inv [OF assms(2), of "queue_action_with_metadata_in_tx TO hs T a md"] queue_in_tx_inv [OF assms(2)]
    by (simp add: queue_action_with_metadata_def)
next
  case (st_queue_many T as last_id r)
  then show ?thesis
    using queue_tx_inv [OF assms(2), of "queue_actions_loop TO hs T as last_id []"] queue_actions_loop_inv [OF assms(2)]
    by (simp add: queue_actions_def)
next
  case (st_enqueue as' r')
  then show ?thesis
    using queue_tx_inv [OF assms(2), of "enqueue_loop TO hs as' None"] enqueue_loop_inv [OF assms(2)]
    by (simp add: enqueue_def)
next
  case (st_replace i T a md r)
  then show ?thesis using replace_inv [OF assms(2), of hs i T a md] by simp
next
  case (st_delete i r)
  then show ?thesis
    using assms(2)
    by (auto simp: delete_action_def write_tx_def db_delete_def set_db_def send_def queue_inv_delete_where
        split: if_splits option.splits)
next
  case (st_delete_group g r)
  then show ?thesis
    using assms(2) by (auto simp: delete_all_actions_in_group_def set_db_def db_delete_all_in_group_def queue_inv_delete_where)
next
  case (st_delete_type T r)
  then show ?thesis
    using assms(2) by (auto simp: delete_all_by_type_def set_db_def db_delete_by_type_def queue_inv_delete_where)
next
  case (st_cancel i r)
  then show ?thesis using cancel_inv [OF assms(2), of i] by auto
next
  case (st_rebase g cs r)
  then show ?thesis using queue_inv_rebase [OF assms(2), of g cs] by simp
next
  case (st_pop pick ex g now now' r db)
  then show ?thesis using queue_inv_pop [OF assms(2), of pick ex g now now'] by (simp add: set_db_def)
next
  case (st_keepalive gd now r s')
  then show ?thesis using keepalive_inv [OF assms(2), of gd now] by simp
next
  case (st_finish gd now T i result r s')
  then show ?thesis using tx_and_release_inv [OF assms(2), of gd now "sh_factory sh" T i result] by auto
qed (use assms(2) in \<open>auto simp: register_def register_or_replace_def set_db_def queue_inv_release send_def
    split: prod.splits\<close>)

lemma reachable_inv:
  fixes sh :: "('a, 'd, 'e, 'o) shared"
  assumes "reachable TO hs sh"
  shows "store_inv (sh_store sh)"
  using assms
proof (induction rule: reachable.induct)
  case (reach_init sh)
  then show ?case by (auto simp: initial_def queue_with_factory_def empty_db_inv)
next
  case (reach_step sh sh')
  then show ?case using queue_step_inv by blast
qed

end

section \<open>Executing until nothing is left\<close>

text \<open>The others queue nothing while an action runs.\<close>

definition others_add_nothing :: "'d remote_schedule \<Rightarrow> bool" where
  "others_add_nothing rx =
     ((\<forall>(now, others) \<in> set (rx_wakeups rx). \<forall>s. pending_count (qdb (others s)) \<le> pending_count (qdb s))
      \<and> (\<forall>s. pending_count (qdb (rx_others rx s)) \<le> pending_count (qdb s)))"

lemma keepalive_count:
  "pending_count (qdb (snd (guard_tx Expired g now (\<lambda>s. (Ok (), s)) s))) = pending_count (qdb s)"
  by (auto simp: guard_tx_def write_tx_def guard_touch_def pending_count_def)

lemma remote_wait_count:
  assumes "\<forall>(now, others) \<in> set ws. \<forall>s. pending_count (qdb (others s)) \<le> pending_count (qdb s)"
  shows "pending_count (qdb (snd (remote_wait g ws s))) \<le> pending_count (qdb s)"
  using assms
proof (induction ws arbitrary: s)
  case (Cons w ws)
  obtain now others where w: "w = (now, others)" by (cases w)
  obtain r s1 where k: "guard_tx Expired g now (\<lambda>s. (Ok (), s)) (others s) = (r, s1)" by (metis surj_pair)
  have "pending_count (qdb s1) \<le> pending_count (qdb s)"
    using keepalive_count [of g now "others s"] Cons.prems w k by auto
  moreover have "pending_count (qdb (snd (remote_wait g ws s1))) \<le> pending_count (qdb s1)"
    using Cons by auto
  ultimately show ?case using w k by (cases r) auto
qed simp

lemma pending_count_delete:
  assumes "i \<in> ids db"
  shows "pending_count (delete_where (\<lambda>r. ar_id r = i) db) < pending_count db"
proof -
  from assms obtain r where r: "r \<in> set (actions db)" "ar_id r = i" by (auto simp: ids_def)
  then have "length (filter (\<lambda>r. ar_id r \<noteq> i) (actions db)) < length (actions db)"
    by (intro length_filter_less [where x = r]) auto
  then show ?thesis by (simp add: pending_count_def)
qed

lemma pending_count_release [simp]: "pending_count (release g db) = pending_count db"
  by (simp add: pending_count_def release_def)

lemma guard_holds_ids:
  assumes "queue_inv db" and "guard_holds g db"
  shows "eg_action g \<in> ids db"
  using assms by (auto simp: queue_inv_def tables_ok_def fk_ok_def guard_holds_def guard_matches_def)

text \<open>A guard that finishes its own action successfully removes it.\<close>

lemma finish_Executed:
  fixes f :: "('a, 'd, 'e, 'o) factory" and T :: "('a, 'd, 'e, 'o) action_def"
  assumes inv: "store_inv s"
    and fin: "tx_and_release g now (remote_finish TO f T (eg_action g) result) s = Some (Ok (Ok (Executed out), ms), s')"
  shows "result = Ok out \<and> guard_holds g (qdb s) \<and> eg_action g \<in> ids (qdb s)
    \<and> actions (qdb s') = filter (\<lambda>r. ar_id r \<noteq> eg_action g) (actions (qdb s)) \<and> app s' = app s"
proof -
  let ?db = "snd (guard_touch g now (qdb s))"
  from fin obtain s2 where h: "guard_holds g (qdb s)"
    and x: "remote_finish TO f T (eg_action g) result (s\<lparr> qdb := ?db \<rparr>) = Some (Ok (Ok (Executed out), ms), s2)"
    and s': "s' = s2\<lparr> qdb := release g (qdb s2) \<rparr>"
    by (auto simp: tx_and_release_holds split: if_splits option.splits sum.splits)
  from x have "result = Ok out \<and> s2 = s\<lparr> qdb := delete_where (\<lambda>r. ar_id r = eg_action g) ?db \<rparr>"
    by (auto simp: remote_finish_def Let_def db_delete_def split: sum.splits option.splits if_splits)
  moreover have "actions ?db = actions (qdb s)" by (simp add: guard_touch_def)
  ultimately show ?thesis
    using h s' guard_holds_ids [OF inv h] by (auto simp: release_def)
qed

lemma execute_remote_Executed:
  fixes sh :: "('a, 'd, 'e, 'o) shared" and T :: "('a, 'd, 'e, 'o) action_def"
  assumes inv: "store_inv (sh_store sh)" and keep: "others_keep rx" and few: "others_add_nothing rx"
    and ex: "execute_action_remote TO rx (eg_action g) T a g sh = Some (Ok (Executed out), sh')"
  shows "pending_count (sh_db sh') < pending_count (sh_db sh)"
proof -
  obtain res a' d where ap: "act_apply_remote T (eg_action g) a (app (sh_store sh)) = (res, a', d)" by (metis surj_pair)
  define s0 where "s0 = (if rx_delivered rx then (sh_store sh)\<lparr> app := d \<rparr> else sh_store sh)"
  obtain w s1 where w: "remote_wait g (rx_wakeups rx) s0 = (w, s1)" by (metis surj_pair)
  have s0: "store_inv s0" "qdb s0 = sh_db sh" using inv by (simp_all add: s0_def)
  then have s1: "store_inv s1" using remote_wait_inv [of s0 "rx_wakeups rx" g] keep w by (simp add: others_keep_def)
  then have o: "store_inv (rx_others rx s1)" using keep by (simp add: others_keep_def)
  have c1: "pending_count (qdb s1) \<le> pending_count (sh_db sh)"
    using remote_wait_count [of "rx_wakeups rx" g s0] few w s0 by (simp add: others_add_nothing_def)
  have c2: "pending_count (qdb (rx_others rx s1)) \<le> pending_count (qdb s1)"
    using few by (simp add: others_add_nothing_def)
  from ex obtain ms s2 where fin: "tx_and_release g (rx_now rx)
      (remote_finish TO (sh_factory sh) T (eg_action g) res) (rx_others rx s1) = Some (Ok (Ok (Executed out), ms), s2)"
    and s2: "sh_store sh' = s2"
    unfolding execute_action_remote_def Let_def ap prod.case s0_def [symmetric] w
    by (auto split: sum.splits execution_guard_error.splits option.splits if_splits prod.splits)
  note fin_exec = finish_Executed [OF o fin]
  have "pending_count (qdb s2) < pending_count (qdb (rx_others rx s1))"
    using pending_count_delete [of "eg_action g" "qdb (rx_others rx s1)"] fin_exec
    by (simp add: pending_count_def)
  with c1 c2 s2 show ?thesis by simp
qed

lemma pop_acquired:
  assumes "queue_inv db" and "picks_row pick" and "pop pick ex g now now' db = (Ok (Some (gd, a)), db')"
  shows "eg_action gd = unwrap_id a \<and> actions db' = actions db \<and> guard_holds gd db'"
  using assms(1,2)
proof (cases rule: pop_cases [where ex = ex and g = g and now = now and now' = now'])
  case Empty
  with assms(3) show ?thesis by simp
next
  case (Action r gd' db1)
  let ?db = "clear_slate_state ex db"
  from Action(5) assms(3) have eq: "gd' = gd" "db1 = db'" "a = after_load ?db (from_row r)" by auto
  note acq = Action(4) [unfolded eq]
  have i: "eg_action gd = ar_id r" using acquire_locks [OF acq] by simp
  have inv: "queue_inv ?db" using assms(1) by (rule queue_inv_clear_slate_state)
  have nd: "ar_id r \<notin> fst ` dep_rel ?db" using Action(2) by (rule eligible_no_deps)
  have "guard_takes gd ?db db'" unfolding guard_takes_def i using acq nd by blast
  with inv have "guard_holds gd db'" by (rule execution_locks.takes_holds)
  then show ?thesis using acquire_locks [OF acq] i eq by (simp add: after_load_fields clear_slate_state_tables)
qed

lemma pop_actions:
  assumes "queue_inv db" and "picks_row pick"
  shows "actions (snd (pop pick ex g now now' db)) = actions db"
  using assms
proof (cases rule: pop_cases [where ex = ex and g = g and now = now and now' = now'])
  case Empty
  then show ?thesis by (simp add: clear_slate_state_tables)
next
  case (Action r gd' db1)
  then show ?thesis using acquire_locks [OF Action(4)] by (simp add: clear_slate_state_tables)
qed

context action_sorter
begin

lemma execute_impl_Executed:
  fixes sh :: "('a, 'd, 'e, 'o) shared"
  assumes inv: "store_inv (sh_store sh)" and pick: "picks_row (tn_pick tn)"
    and keep: "others_keep (tn_remote tn)" and few: "others_add_nothing (tn_remote tn)"
    and ex: "execute_impl TO ex tn sh = Some (Ok (Some (StateExecuted i)), sh')"
  shows "pending_count (sh_db sh') < pending_count (sh_db sh)"
proof -
  obtain p db where pop: "pop (tn_pick tn) (ex_id ex) (ex_group ex) (tn_now tn) (tn_now' tn) (sh_db sh) = (p, db)"
    by (metis surj_pair)
  have db: "queue_inv db" "actions db = actions (sh_db sh)"
    using queue_inv_pop [OF inv pick, of "ex_id ex" "ex_group ex" "tn_now tn" "tn_now' tn"]
      pop_actions [OF inv pick, of "ex_id ex" "ex_group ex" "tn_now tn" "tn_now' tn"] pop by auto
  from ex pop obtain g a where p: "p = Ok (Some (g, a))"
    by (auto simp: execute_impl_def split: sum.splits option.splits)
  with ex pop obtain q md sh1 where
    d: "decode_action (sh_factory sh) a = (Ok (q, md) :: 'e queued_error + _)"
    and x: "queued_action_execute TO (tn_remote tn) q g md (set_db db sh) = Some (Ok (StateExecuted i), sh1)"
    and sh': "sh_store sh' = sh_store sh1"
    by (auto simp: execute_impl_def send_def split: sum.splits option.splits)
  from x obtain out where r: "execute_action_remote TO (tn_remote tn) (qa_id q) (qa_def q) (qa_action q) g (set_db db sh)
      = Some (Ok (Executed out), sh1)"
    by (auto simp: queued_action_execute_def split: option.splits sum.splits action_remote_output.splits)
  have "qa_id q = eg_action g"
    using d pop_acquired [OF inv pick pop [unfolded p]]
    by (auto simp: decode_action_def split: sum.splits dest!: factory_decode_Ok(1))
  with r have r': "execute_action_remote TO (tn_remote tn) (eg_action g) (qa_def q) (qa_action q) g (set_db db sh)
      = Some (Ok (Executed out), sh1)" by simp
  have "store_inv (sh_store (set_db db sh))" using db by (simp add: set_db_def)
  from execute_remote_Executed [OF this keep few r'] sh' db(2) show ?thesis
    by (simp add: set_db_def pending_count_def)
qed

lemma execute_all_returns:
  fixes sh :: "('a, 'd, 'e, 'o) shared"
  assumes "store_inv (sh_store sh)" and "pending_count (sh_db sh) < length tns"
    and "\<forall>tn \<in> set tns. picks_row (tn_pick tn) \<and> others_keep (tn_remote tn) \<and> others_add_nothing (tn_remote tn)"
  shows "\<exists>r sh'. execute_all TO ex tns counter sh = Some (r, sh') \<and> store_inv (sh_store sh')"
  using assms
proof (induction tns arbitrary: counter sh)
  case (Cons tn tns)
  have tn: "picks_row (tn_pick tn)" "others_keep (tn_remote tn)" "others_add_nothing (tn_remote tn)"
    using Cons.prems(3) by auto
  obtain r sh1 where x: "execute_impl TO ex tn sh = Some (r, sh1)" and inv: "store_inv (sh_store sh1)"
    using execute_impl_inv [OF Cons.prems(1) tn(1,2)] by blast
  show ?case
  proof (cases "\<exists>i. r = Ok (Some (StateExecuted i))")
    case True
    then obtain i where i: "r = Ok (Some (StateExecuted i))" by blast
    from execute_impl_Executed [OF Cons.prems(1) tn x [unfolded i]] Cons.prems(2)
    have "pending_count (sh_db sh1) < length tns" by simp
    from Cons.IH [OF inv this, of "counter + 1"] Cons.prems(3) x i show ?thesis by auto
  next
    case False
    with x inv show ?thesis by (auto split: sum.splits option.splits queued_action_state.splits)
  qed
qed simp

end

end
