(* ===== verification/Action_Examples.thy ===== *)
theory Action_Examples
  imports Action_Queue_Exec
begin

text \<open>
  A small action type and a few states of a queue that uses it. The witnesses of the queue's
  properties evaluate the model on them.
\<close>

text \<open>
  A payload is a number below 256. Running it locally records it, reverting removes it; on the
  server 0 fails with a network error, 1 is refused, everything else succeeds.
\<close>

definition demo_def :: "(nat, nat list, bool, nat) action_def" where
  "demo_def =
     \<lparr> act_type = ''demo'', act_group = default_group, act_version = 1, act_priority = Normal,
       act_max_retries = Some 1, act_handler_type = 0,
       act_convert = default_version_convert (\<lambda>bs. case bs of [w] \<Rightarrow> Some (unat w) | _ \<Rightarrow> None),
       act_serialize = (\<lambda>a. if a < 256 then Some [of_nat a] else None),
       act_dependency_keys = (\<lambda>_. default_keys),
       act_can_requeue = (\<lambda>e. if e then Some NetworkFailed else None),
       act_apply_local = (\<lambda>i a d. (Ok a, a, d @ [a])),
       act_revert_local = (\<lambda>i a d. (Ok (), a, removeAll a d)),
       act_apply_remote = (\<lambda>i a d. (if a = 0 then Err True else if a = 1 then Err False else Ok a, a, d)),
       act_rebase_local = (\<lambda>i a cs d. (Ok (), a, d)) \<rparr>"

definition demo_factory :: "(nat, nat list, bool, nat) factory" where
  "demo_factory = [''demo'' \<mapsto> demo_def]"

definition demo0 :: "(nat, nat list, bool, nat) shared" where
  "demo0 = queue_with_factory \<lparr> qdb = empty_db, app = [] \<rparr> demo_factory"

text \<open>Three actions in a row, each waiting for the one before.\<close>

definition demo3 :: "(nat, nat list, bool, nat) shared" where
  "demo3 = snd (queue_actions list_topo_ops remdups demo_def [(100, 5), (200, 1), (300, 0)] None demo0)"

definition first_row :: "action_row list \<Rightarrow> action_row option" where
  "first_row rs = (case rs of [] \<Rightarrow> None | r # _ \<Rightarrow> Some r)"

lemma first_row_picks: "picks_row first_row"
  by (auto simp: picks_row_def first_row_def split: list.splits)

lemma remdups_order: "hash_order remdups"
  by (simp add: hash_order_def)

lemma reachable_demo0: "reachable list_topo_ops remdups demo0"
  by (rule reach_init) (auto simp: initial_def demo0_def)

lemma reachable_demo3: "reachable list_topo_ops remdups demo3"
  unfolding demo3_def
  by (rule reach_step [OF reachable_demo0], rule st_queue_many) (rule surjective_pairing)

lemma demo3_inv: "queue_inv (sh_db demo3)"
  by (rule list_sorter.reachable_inv [OF reachable_demo3])

lemma demo3_handler: "shared_handler demo3 demo_def = Some demo_def"
  unfolding shared_handler_def demo3_def queue_actions_factory
  by (simp add: factory_handler_def demo0_def queue_with_factory_def demo_factory_def demo_def_def)

lemma demo3_test: "map ar_id (actions (sh_db demo3)) = [1, 2, 3]"
  by code_simp

end
