(* ===== verification/Action_Queue_Rebase.thy ===== *)
theory Action_Queue_Rebase
  imports Action_Queue_Cancel
begin

text \<open>
  Rebasing a group: the order in which its actions are visited, and a reference definition of
  the run, to which the loop of \<open>rebase\<close> is shown equal.
\<close>

section \<open>The order of the actions\<close>

lemma rebase_order_spec:
  assumes "ids_ok db"
  shows "distinct (rebase_action_order g db)
    \<and> set (rebase_action_order g db) = ar_id ` {r \<in> set (actions db). ar_action_group r = g}"
proof -
  have "distinct (map ar_id (filter P (actions db)))" for P
    using assms by (simp add: ids_ok_def distinct_map_filterI)
  then have "distinct (map ar_id (sort_key ar_created (sort_key ar_id (filter P (actions db)))))" for P
    by (simp add: distinct_map)
  then show ?thesis by (simp add: rebase_action_order_def)
qed

lemma sorted_sort_key_twice:
  "sorted_wrt (\<lambda>r q. ar_created r < ar_created q \<or> ar_created r = ar_created q \<and> ar_id r \<le> ar_id q)
     (sort_key ar_created (sort_key ar_id rs))"
proof -
  let ?ys = "sort_key ar_created (sort_key ar_id rs)"
  have "ar_created (?ys ! i) < ar_created (?ys ! j)
      \<or> ar_created (?ys ! i) = ar_created (?ys ! j) \<and> ar_id (?ys ! i) \<le> ar_id (?ys ! j)"
    if ij: "i < j" "j < length ?ys" for i j
  proof -
    let ?c = "ar_created (?ys ! i)"
    have le: "?c \<le> ar_created (?ys ! j)"
      using sorted_nth_mono [of "map ar_created ?ys" i j] ij by simp
    have "filter (\<lambda>r. ar_created r = ?c) ?ys = filter (\<lambda>r. ar_created r = ?c) (sort_key ar_id rs)"
      by (rule sort_key_stable)
    then have s: "sorted (map ar_id (filter (\<lambda>r. ar_created r = ?c) ?ys))"
      by (metis sorted_filter sorted_sort_key)
    have "ar_id (?ys ! i) \<le> ar_id (?ys ! j)" if eq: "ar_created (?ys ! j) = ?c"
    proof -
      have "?ys = take j ?ys @ ?ys ! j # drop (Suc j) ?ys" using ij by (simp add: id_take_nth_drop)
      then have "filter (\<lambda>r. ar_created r = ?c) ?ys
          = filter (\<lambda>r. ar_created r = ?c) (take j ?ys) @ ?ys ! j # filter (\<lambda>r. ar_created r = ?c) (drop (Suc j) ?ys)"
        using eq by (metis (mono_tags, lifting) filter.simps(2) filter_append)
      moreover have "?ys ! i \<in> set (filter (\<lambda>r. ar_created r = ?c) (take j ?ys))"
        using ij by (auto simp: in_set_conv_nth)
      ultimately show ?thesis using s by (auto simp: sorted_append)
    qed
    with le show ?thesis by auto
  qed
  then show ?thesis by (simp add: sorted_wrt_iff_nth_less)
qed

text \<open>The rows of a group in that order.\<close>

definition group_rows :: "action_group \<Rightarrow> queue_db \<Rightarrow> action_row list" where
  "group_rows g db = sort_key ar_created (sort_key ar_id (filter (\<lambda>r. ar_action_group r = g) (actions db)))"

lemma group_rows_spec:
  assumes "ids_ok db"
  shows "rebase_action_order g db = map ar_id (group_rows g db)"
    and "set (group_rows g db) = {r \<in> set (actions db). ar_action_group r = g}"
    and "distinct (map ar_id (group_rows g db))"
    and "sorted_wrt (\<lambda>r q. ar_created r < ar_created q \<or> ar_created r = ar_created q \<and> ar_id r \<le> ar_id q)
           (group_rows g db)"
  using rebase_order_spec [OF assms, of g] sorted_sort_key_twice
  by (auto simp: group_rows_def rebase_action_order_def)

section \<open>A reference for the run\<close>

text \<open>
  Each action in turn: decode the stored payload, let the handler rebase it on the data the
  handlers before it left, encode what the handler made of it. \<open>None\<close> when one of them fails.
\<close>

definition rebased_row ::
    "('a, 'd, 'e, 'o) factory \<Rightarrow> rebase_change_set \<Rightarrow> action_row \<Rightarrow> 'd \<Rightarrow> (action_row \<times> 'd) option" where
  "rebased_row f cs r d =
     (case f (ar_action_type r) of
        None \<Rightarrow> None
      | Some T \<Rightarrow> (case act_convert T (ar_version r) (act_version T) (ar_state r) of
            Inl _ \<Rightarrow> None
          | Inr a \<Rightarrow> (case act_rebase_local T (ar_id r) a cs d of
                (Inl _, _, _) \<Rightarrow> None
              | (Inr _, a', d') \<Rightarrow>
                  map_option (\<lambda>bs. (r\<lparr> ar_state := bs \<rparr>, d')) (act_serialize T a'))))"

fun rebased ::
    "('a, 'd, 'e, 'o) factory \<Rightarrow> rebase_change_set \<Rightarrow> action_row list \<Rightarrow> 'd \<Rightarrow> (action_row list \<times> 'd) option" where
  "rebased f cs [] d = Some ([], d)"
| "rebased f cs (r # rs) d =
     (case rebased_row f cs r d of
        None \<Rightarrow> None
      | Some (r', d') \<Rightarrow> map_option (\<lambda>(rs', d''). (r' # rs', d'')) (rebased f cs rs d'))"

text \<open>The table with the rows of \<open>new\<close> in the places of the rows with their identifiers.\<close>

definition with_rows :: "action_row list \<Rightarrow> queue_db \<Rightarrow> queue_db" where
  "with_rows new db = db\<lparr> actions := map (\<lambda>r. case find (\<lambda>q. ar_id q = ar_id r) new of Some q \<Rightarrow> q | None \<Rightarrow> r)
     (actions db) \<rparr>"

lemma rebased_row_id: "rebased_row f cs r d = Some (r', d') \<Longrightarrow> ar_id r' = ar_id r"
  by (auto simp: rebased_row_def split: option.splits sum.splits prod.splits)

lemma rebased_ids: "rebased f cs rs d = Some (rs', d') \<Longrightarrow> map ar_id rs' = map ar_id rs"
  by (induction rs arbitrary: d rs' d') (auto simp: rebased_row_id split: option.splits)

lemma find_row_member:
  assumes "ids_ok db" and "r \<in> set (actions db)"
  shows "find_row (ar_id r) db = Some r"
proof -
  have "find_row (ar_id r) db \<noteq> None" using assms(2) by (auto simp: find_row_def find_None_iff)
  then obtain q where q: "find_row (ar_id r) db = Some q" by auto
  then have "q \<in> set (actions db)" "ar_id q = ar_id r" by (auto dest: find_row_Some)
  with assms have "q = r" by (auto simp: ids_ok_def distinct_map dest: inj_onD)
  with q show ?thesis by simp
qed

lemma update_state_row:
  assumes "ids_ok db" and "r \<in> set (actions db)"
  shows "update_action_state ((after_load db (from_row r))\<lparr> sa_state := bs \<rparr>) db = with_rows [r\<lparr> ar_state := bs \<rparr>] db"
proof -
  have u: "unwrap_id ((after_load db (from_row r))\<lparr> sa_state := bs \<rparr>) = ar_id r"
    using after_load_fields [of db r] by (simp add: unwrap_id_def)
  have "q = r" if "q \<in> set (actions db)" "ar_id q = ar_id r" for q
    using assms that by (auto simp: ids_ok_def distinct_map dest: inj_onD)
  then have "map (\<lambda>q. if ar_id q = ar_id r then q\<lparr> ar_state := bs \<rparr> else q) (actions db)
      = map (\<lambda>q. case find (\<lambda>p. ar_id p = ar_id q) [r\<lparr> ar_state := bs \<rparr>] of Some p \<Rightarrow> p | None \<Rightarrow> q) (actions db)"
    by (intro map_cong) auto
  moreover have "sa_state ((after_load db (from_row r))\<lparr> sa_state := bs \<rparr>) = bs" by simp
  ultimately show ?thesis unfolding update_action_state_def with_rows_def u by (simp only:)
qed

text \<open>One round of the loop.\<close>

lemma rebase_loop_Cons:
  fixes f :: "('a, 'd, 'e, 'o) factory"
  assumes ok: "ids_ok (qdb s)" and r: "r \<in> set (actions (qdb s))"
  shows "case rebased_row f cs r (app s) of
      None \<Rightarrow> \<exists>e s'. (rebase_loop f cs (ar_id r # is) s :: ('e queued_error + _) \<times> _) = (Err e, s')
    | Some (r', d') \<Rightarrow> (rebase_loop f cs (ar_id r # is) s :: ('e queued_error + _) \<times> _)
        = rebase_loop f cs is (s\<lparr> app := d', qdb := with_rows [r'] (qdb s) \<rparr>)"
  using update_state_row [OF ok r]
  by (auto simp: load_row [OF find_row_member [OF ok r]] rebased_row_def decode_action_def factory_decode_def
      factory_decoder_def after_load_fields queued_action_rebase_def set_action_state_def
      split: option.splits sum.splits prod.splits)

lemma with_rows_Nil [simp]: "with_rows [] db = db"
  by (simp add: with_rows_def)

lemma with_rows_Cons:
  assumes "ar_id r \<notin> ar_id ` set rs"
  shows "with_rows rs (with_rows [r] db) = with_rows (r # rs) db"
proof -
  have "find (\<lambda>q. ar_id q = ar_id r) rs = None" using assms by (auto simp: find_None_iff image_iff)
  then have "(case find (\<lambda>q. ar_id q = ar_id p) rs of Some q \<Rightarrow> q | None \<Rightarrow> p)
      = (case find (\<lambda>q. ar_id q = ar_id x) (r # rs) of Some q \<Rightarrow> q | None \<Rightarrow> x)"
    if "p = (case find (\<lambda>q. ar_id q = ar_id x) [r] of Some q \<Rightarrow> q | None \<Rightarrow> x)" for p x
    using that by (cases "ar_id r = ar_id x") auto
  then show ?thesis unfolding with_rows_def by simp
qed

lemma map_id_with_rows [simp]: "map ar_id (actions (with_rows rs db)) = map ar_id (actions db)"
  by (auto simp: with_rows_def find_Some_iff split: option.splits)

lemma ids_ok_with_rows [simp]: "ids_ok (with_rows rs db) = ids_ok db"
proof -
  have "ids (with_rows rs db) = ids db"
    unfolding ids_def by (metis list.set_map map_id_with_rows)
  moreover have "next_id (with_rows rs db) = next_id db" by (simp add: with_rows_def)
  ultimately show ?thesis unfolding ids_ok_def by simp
qed

lemma with_rows_other:
  assumes "q \<in> set (actions db)" and "ar_id q \<noteq> ar_id r"
  shows "q \<in> set (actions (with_rows [r] db))"
  using assms by (force simp: with_rows_def)

lemma rebase_loop_rebased:
  fixes f :: "('a, 'd, 'e, 'o) factory"
  assumes "ids_ok (qdb s)" and "set rows \<subseteq> set (actions (qdb s))" and "distinct (map ar_id rows)"
  shows "case rebased f cs rows (app s) of
      None \<Rightarrow> \<exists>e s'. (rebase_loop f cs (map ar_id rows) s :: ('e queued_error + _) \<times> _) = (Err e, s')
    | Some (rows', d) \<Rightarrow> (rebase_loop f cs (map ar_id rows) s :: ('e queued_error + _) \<times> _)
        = (Ok (), s\<lparr> app := d, qdb := with_rows rows' (qdb s) \<rparr>)"
  using assms
proof (induction rows arbitrary: s)
  case Nil
  then show ?case by simp
next
  case (Cons r rows)
  then have ok: "ids_ok (qdb s)" and r: "r \<in> set (actions (qdb s))" by auto
  note one = rebase_loop_Cons [OF ok r, of f cs "map ar_id rows"]
  show ?case
  proof (cases "rebased_row f cs r (app s)")
    case None
    with one show ?thesis by simp
  next
    case (Some rd)
    then obtain r' d' where rd: "rebased_row f cs r (app s) = Some (r', d')" by (cases rd) auto
    let ?s = "s\<lparr> app := d', qdb := with_rows [r'] (qdb s) \<rparr>"
    have id: "ar_id r' = ar_id r" using rd by (rule rebased_row_id)
    have "q \<in> set (actions (qdb ?s))" if "q \<in> set rows" for q
    proof -
      from that Cons.prems(3) have "ar_id q \<noteq> ar_id r'" unfolding id by (auto simp: image_iff)
      then show ?thesis using with_rows_other [of q "qdb s" r'] that Cons.prems(2) by auto
    qed
    then have "set rows \<subseteq> set (actions (qdb ?s))" by blast
    then have IH: "case rebased f cs rows (app ?s) of
        None \<Rightarrow> \<exists>e s'. (rebase_loop f cs (map ar_id rows) ?s :: ('e queued_error + _) \<times> _) = (Err e, s')
      | Some (rows', d) \<Rightarrow> (rebase_loop f cs (map ar_id rows) ?s :: ('e queued_error + _) \<times> _)
          = (Ok (), ?s\<lparr> app := d, qdb := with_rows rows' (qdb ?s) \<rparr>)"
      using Cons.IH [of ?s] Cons.prems ok by simp
    have loop: "(rebase_loop f cs (map ar_id (r # rows)) s :: ('e queued_error + _) \<times> _) = rebase_loop f cs (map ar_id rows) ?s"
      using one rd by simp
    show ?thesis
    proof (cases "rebased f cs rows d'")
      case None
      with IH rd loop show ?thesis by simp
    next
      case (Some p)
      then obtain rows' d where p: "rebased f cs rows d' = Some (rows', d)" by (cases p) auto
      have "ar_id ` set rows' = ar_id ` set rows" using rebased_ids [OF p] by (metis list.set_map)
      then have "with_rows rows' (with_rows [r'] (qdb s)) = with_rows (r' # rows') (qdb s)"
        using Cons.prems(3) id by (intro with_rows_Cons) auto
      with IH p rd loop show ?thesis by simp
    qed
  qed
qed

end
