(* ===== verification/Action_Queue_Props.thy ===== *)
theory Action_Queue_Props
  imports Action_Examples Action_Queue_Rebase
begin

text \<open>
  What the action queue promises, stated over its definitions. The topological sorter is any
  implementation that satisfies \<open>action_sorter\<close>; each property with hypotheses is followed by an
  instance on the states of \<open>Action_Examples\<close> with the sorter on lists.
\<close>

section \<open>Consistency\<close>

text \<open>
  C1. In every state that callers, executors and handlers can reach by any interleaving of their
  transactions, identifiers are unique, no row refers to a deleted action, an action has at most
  one lock and an executor holds at most one action, an executing action waits for nothing, and
  the dependency graph has no cycle.
\<close>

theorem reachable_consistent:
  fixes sh :: "('a, 'd, 'e, 'o) shared"
  assumes "action_sorter TO valid items before" and "reachable TO hs sh"
  shows "queue_inv (sh_db sh)"
  using action_sorter.reachable_inv [OF assms] .

theorem reachable_consistent_witness:
  "queue_inv (sh_db demo3) \<and> map ar_id (actions (sh_db demo3)) = [1, 2, 3]"
proof
  show "queue_inv (sh_db demo3)"
    by (rule reachable_consistent [OF list_sorter.action_sorter_axioms reachable_demo3])
  show "map ar_id (actions (sh_db demo3)) = [1, 2, 3]" by (rule demo3_test)
qed

section \<open>Queueing\<close>

text \<open>
  C2. The cycle check of \<open>execute_action_local\<close> answers yes exactly when the action reaches itself
  along the stored dependencies, whatever sorter it is run with.
\<close>

theorem cycle_check_exact:
  assumes "action_sorter TO valid items before"
  shows "has_cycle TO i db \<longleftrightarrow> (i, i) \<in> (dep_rel db)\<^sup>+"
  using action_sorter.has_cycle_iff [OF assms] .

definition cyclic_db :: queue_db where
  "cyclic_db = empty_db\<lparr> deps := [\<lparr> dr_action = 1, dr_dependency = 2, dr_type = Optional \<rparr>,
     \<lparr> dr_action = 2, dr_dependency = 1, dr_type = Required \<rparr>] \<rparr>"

theorem cycle_check_exact_witness: "has_cycle list_topo_ops 1 cyclic_db \<and> (1, 1) \<in> (dep_rel cyclic_db)\<^sup>+"
proof -
  have "has_cycle list_topo_ops 1 cyclic_db" by code_simp
  then show ?thesis
    using cycle_check_exact [OF list_sorter.action_sorter_axioms, of 1 cyclic_db] by blast
qed



text \<open>
  Replacing an action: an error changes nothing at all. Success reuses the existing row
  exactly when it has the same type and nobody executes it, and then wakes no executor and sends
  nothing; otherwise a fresh row is queued and announced. Either way only the dependencies of
  the stored action change, and they are only added.
\<close>

theorem replace_effect:
  fixes T :: "('a, 'd, 'e, 'o) action_def"
  assumes sorter: "action_sorter TO valid items before" and inv: "queue_inv (sh_db sh)"
    and run: "replace_or_queue_action_with_metadata TO hs i T a md sh = (r, sh')"
  shows "case r of
      Inl e \<Rightarrow> sh' = sh
    | Inr out \<Rightarrow> qo_id out = (if replaceable i (act_type T) (sh_db sh) then i else next_id (sh_db sh))
        \<and> queue_inv (sh_db sh') \<and> ids (sh_db sh') = insert (qo_id out) (ids (sh_db sh))
        \<and> dep_rel (sh_db sh) \<subseteq> dep_rel (sh_db sh')
        \<and> dep_rel (sh_db sh') \<subseteq> dep_rel (sh_db sh) \<union> {qo_id out} \<times> UNIV
        \<and> (if qo_id out = i then sh_broadcast sh' = sh_broadcast sh \<and> sh_notified sh' = sh_notified sh
           else (\<exists>m. sh_broadcast sh' = sh_broadcast sh @ [BcQueued (qo_id out) m])
                \<and> sh_notified sh' = sh_notified sh + 1)"
proof (cases "shared_handler sh T")
  case None
  with run show ?thesis by (auto simp: replace_or_queue_action_with_metadata_def)
next
  case (Some H)
  obtain x s where x: "execute_action_local TO hs T a H md (Some i) (sh_store sh) = (x, s)" by (metis surj_pair)
  show ?thesis
  proof (cases x)
    case (Inl e)
    with x run Some show ?thesis
      by (auto simp: replace_or_queue_action_with_metadata_def write_tx_def)
  next
    case (Inr ost)
    obtain lo st where ost: "ost = (lo, st)" by (cases ost)
    note ok = action_sorter.local_Ok [OF sorter inv x [unfolded Inr ost]]
    from ok have "unwrap_id st = (if replaceable i (act_type T) (sh_db sh) then i else next_id (sh_db sh))"
      by (auto simp: target_id_def unwrap_id_def)
    with ok x run Some Inr ost show ?thesis
      by (auto simp: replace_or_queue_action_with_metadata_def write_tx_def send_def notify_waiters_def
          grew_def target_id_def split: if_splits)
  qed
qed

theorem replace_effect_witness:
  "fst (replace_or_queue_action_with_metadata list_topo_ops remdups 2 demo_def 9 (metadata_default 400) demo3)
     = Ok \<lparr> qo_local = 9, qo_id = 2 \<rparr>
   \<and> queue_inv (sh_db (snd (replace_or_queue_action_with_metadata list_topo_ops remdups 2 demo_def 9
         (metadata_default 400) demo3)))"
proof -
  let ?r = "replace_or_queue_action_with_metadata list_topo_ops remdups 2 demo_def 9 (metadata_default 400) demo3"
  have f: "fst ?r = Ok \<lparr> qo_local = 9, qo_id = 2 \<rparr>" by code_simp
  then have "?r = (Ok \<lparr> qo_local = 9, qo_id = 2 \<rparr>, snd ?r)" by (metis prod.collapse)
  from replace_effect [OF list_sorter.action_sorter_axioms demo3_inv this] f show ?thesis by simp
qed

text \<open>
  A chain of actions queued with \<open>queue_actions\<close>: one result per action, the first waits for
  the given action and each other one for its predecessor, and the queue stays consistent.
\<close>

theorem queue_actions_chain:
  fixes T :: "('a, 'd, 'e, 'o) action_def"
  assumes sorter: "action_sorter TO valid items before" and hs: "hash_order hs"
    and inv: "queue_inv (sh_db sh)"
    and live: "\<And>p. last_id = Some p \<Longrightarrow> p \<in> ids (sh_db sh)"
    and run: "queue_actions TO hs T as last_id sh = (Ok outs, sh')"
  shows "length outs = length as \<and> chained (dep_rel (sh_db sh')) last_id (map qo_id outs)
    \<and> ids (sh_db sh') = ids (sh_db sh) \<union> qo_id ` set outs \<and> queue_inv (sh_db sh')"
proof -
  from run have "queue_actions_loop TO hs T as last_id [] sh = (Ok outs, sh')"
    by (simp add: queue_actions_def queue_tx_Ok)
  from action_sorter.queue_actions_loop_Ok [OF sorter hs inv this] live show ?thesis by auto
qed

theorem queue_actions_chain_witness:
  "\<exists>outs. fst (queue_actions list_topo_ops remdups demo_def [(400, 8), (500, 9)] (Some 3) demo3) = Ok outs
     \<and> map qo_id outs = [4, 5]
     \<and> chained (dep_rel (sh_db (snd (queue_actions list_topo_ops remdups demo_def [(400, 8), (500, 9)] (Some 3) demo3))))
         (Some 3) [4, 5]"
proof -
  let ?r = "queue_actions list_topo_ops remdups demo_def [(400, 8), (500, 9)] (Some 3) demo3"
  let ?o = "[\<lparr> qo_local = 8, qo_id = 4 \<rparr>, \<lparr> qo_local = 9, qo_id = 5 \<rparr>]"
  have f: "fst ?r = Ok ?o" by code_simp
  then have run: "?r = (Ok ?o, snd ?r)" by (metis prod.collapse)
  have "3 \<in> ids (sh_db demo3)" by code_simp
  with queue_actions_chain [OF list_sorter.action_sorter_axioms remdups_order demo3_inv _ run] f
  show ?thesis by (intro exI [of _ ?o]) auto
qed

text \<open>
  The error path of \<open>queue_actions\<close>: when one action of the chain fails, the store is as it was
  before the call; the messages sent for the actions queued before it are not taken back.
\<close>

theorem queue_actions_error:
  fixes T :: "('a, 'd, 'e, 'o) action_def"
  assumes "queue_actions TO hs T as last_id sh = (Err e, sh')"
  shows "sh_store sh' = sh_store sh \<and> (\<exists>ms. sh_broadcast sh' = sh_broadcast sh @ ms)"
proof
  show "sh_store sh' = sh_store sh" using assms unfolding queue_actions_def by (rule queue_tx_Err)
  have "\<exists>ms. sh_broadcast (snd (queue_actions_loop TO hs T as last_id res sh)) = sh_broadcast sh @ ms" for res
  proof (induction as arbitrary: last_id res sh)
    case (Cons na as)
    obtain now a where na: "na = (now, a)" by (cases na)
    obtain r sh1 where q: "queue_action_with_metadata_in_tx TO hs T a (chain_metadata now last_id) sh = (r, sh1)"
      by (metis surj_pair)
    have "\<exists>ms. sh_broadcast sh1 = sh_broadcast sh @ ms"
    proof (cases r)
      case (Inl e)
      with q queue_in_tx_Err show ?thesis by (metis append_Nil2)
    next
      case (Inr out)
      with q show ?thesis by (auto elim: queue_in_tx_Ok)
    qed
    with Cons [of _ _ sh1] na q show ?case by (cases r) (auto, metis append_assoc)
  qed simp
  then show "\<exists>ms. sh_broadcast sh' = sh_broadcast sh @ ms"
    using assms
    by (auto simp: queue_actions_def queue_tx_def split: prod.splits sum.splits) (metis snd_conv)
qed

theorem queue_actions_error_witness:
  "fst (queue_actions list_topo_ops remdups demo_def [(400, 8), (500, 300)] None demo3) = Err (QueueFailed Serialization)
   \<and> sh_store (snd (queue_actions list_topo_ops remdups demo_def [(400, 8), (500, 300)] None demo3)) = sh_store demo3
   \<and> length (sh_broadcast (snd (queue_actions list_topo_ops remdups demo_def [(400, 8), (500, 300)] None demo3)))
       = length (sh_broadcast demo3) + 1"
proof -
  let ?r = "queue_actions list_topo_ops remdups demo_def [(400, 8), (500, 300)] None demo3"
  have f: "fst ?r = Err (QueueFailed Serialization)" by code_simp
  then have "?r = (Err (QueueFailed Serialization), snd ?r)" by (metis prod.collapse)
  from queue_actions_error [OF this] have "sh_store (snd ?r) = sh_store demo3" by simp
  moreover have "length (sh_broadcast (snd ?r)) = length (sh_broadcast demo3) + 1" by code_simp
  ultimately show ?thesis using f by simp
qed

section \<open>Cancelling\<close>

text \<open>
  C4. Cancelling a queued action that nobody executes, when every stored action decodes: the call
  returns, cancels exactly the action and the actions that need it directly or transitively, each
  once, every action before those it needs, removes exactly their rows and announces each of them
  in that order. The application's data is what the \<open>revert_local\<close> of the cancelled actions,
  run once each in that order on their stored payloads, makes of it.
\<close>

theorem cancel_effect:
  fixes sh :: "('a, 'd, 'e, 'o) shared"
  assumes sorter: "action_sorter TO valid items before" and inv: "queue_inv (sh_db sh)"
    and i: "i \<in> ids (sh_db sh)" "i \<notin> executing (sh_db sh)" and dec: "validate_queued_actions sh = Ok ()"
  shows "\<exists>ms sh'. cancel TO i sh = Some (Ok (map qm_id ms), sh')
    \<and> distinct (map qm_id ms) \<and> set (map qm_id ms) = cancelled_with (sh_db sh) i
    \<and> (\<forall>c d. c \<in> set (map qm_id ms) \<longrightarrow> (c, d) \<in> required_rel (sh_db sh) \<longrightarrow> precedes d c (map qm_id ms))
    \<and> actions (sh_db sh') = filter (\<lambda>r. ar_id r \<notin> cancelled_with (sh_db sh) i) (actions (sh_db sh))
    \<and> (\<exists>rows. map ar_id rows = map qm_id ms \<and> set rows \<subseteq> set (actions (sh_db sh))
         \<and> app (sh_store sh') = fold (revert_row (sh_factory sh)) rows (app (sh_store sh)))
    \<and> queue_inv (sh_db sh') \<and> sh_broadcast sh' = sh_broadcast sh @ map BcCancelled ms"
proof -
  have "\<not> has_executor i (sh_db sh)" using inv i(2) by (simp add: has_executor_iff queue_inv_def tables_ok_def)
  moreover have "\<forall>r \<in> set (actions (qdb (sh_store sh))). row_decodable (sh_factory sh) r"
    using dec by (simp add: validate_queued_actions_iff)
  from action_sorter.cancel_dependees_Ok [OF sorter inv i(1) this] obtain ms s' where
    "cancel_action_with_dependees TO (sh_factory sh) i (sh_store sh) = Some (Ok ms :: 'e queued_error + _, s')"
    "distinct (map qm_id ms)" "set (map qm_id ms) = cancelled_with (sh_db sh) i"
    "\<forall>c d. c \<in> set (map qm_id ms) \<longrightarrow> (c, d) \<in> required_rel (sh_db sh) \<longrightarrow> precedes d c (map qm_id ms)"
    "queue_inv (qdb s')"
    "actions (qdb s') = filter (\<lambda>r. ar_id r \<notin> cancelled_with (sh_db sh) i) (actions (sh_db sh))"
    "\<exists>rows. map ar_id rows = map qm_id ms \<and> set rows \<subseteq> set (actions (sh_db sh))
       \<and> app s' = fold (revert_row (sh_factory sh)) rows (app (sh_store sh))" by blast
  ultimately show ?thesis
    by (intro exI [of _ ms] exI [of _ "send_all (map BcCancelled ms) (sh\<lparr> sh_store := s' \<rparr>)"])
      (simp add: cancel_def write_tx_opt_def send_all_broadcast)
qed

theorem cancel_effect_witness:
  "\<exists>(ms :: queued_metadata list) sh'. cancel list_topo_ops 1 demo3 = Some (Ok (map qm_id ms), sh') \<and> map qm_id ms = [3, 2, 1]
     \<and> actions (sh_db sh') = []"
proof -
  have "1 \<in> ids (sh_db demo3)" "1 \<notin> executing (sh_db demo3)" "validate_queued_actions demo3 = Ok ()"
    by code_simp+
  from cancel_effect [OF list_sorter.action_sorter_axioms demo3_inv this]
  have "\<exists>(ms :: queued_metadata list) sh'. cancel list_topo_ops 1 demo3 = Some (Ok (map qm_id ms), sh')"
    by (elim exE conjE, intro exI)
  then obtain ms :: "queued_metadata list" and sh' where c: "cancel list_topo_ops 1 demo3 = Some (Ok (map qm_id ms), sh')"
    by (elim exE)
  have f: "map_option fst (cancel list_topo_ops 1 demo3) = Some (Ok [3, 2, 1])" by code_simp
  have a: "map_option (\<lambda>r. actions (sh_db (snd r))) (cancel list_topo_ops 1 demo3) = Some []" by code_simp
  from c f a show ?thesis by (intro exI [of _ ms] exI [of _ sh']) auto
qed

text \<open>
  A cancellation that fails (the action is executing, unknown, or an action of the chain does
  not decode) changes nothing, and an executing action is refused.
\<close>

theorem cancel_failure:
  fixes sh :: "('a, 'd, 'e, 'o) shared"
  assumes "cancel TO i sh = Some (Err e, sh')"
  shows "sh' = sh \<and> (has_executor i (sh_db sh) \<longrightarrow> e = ActionInExecution i)"
  using assms by (auto simp: cancel_def write_tx_opt_def split: option.splits sum.splits if_splits)

theorem cancel_failure_witness: "\<exists>sh'. cancel list_topo_ops 9 demo3 = Some (Err (ActionNotFound 9), sh') \<and> sh' = demo3"
proof -
  have "map_option fst (cancel list_topo_ops 9 demo3) = Some (Err (ActionNotFound 9))" by code_simp
  then obtain sh' where "cancel list_topo_ops 9 demo3 = Some (Err (ActionNotFound 9), sh')" by auto
  with cancel_failure [OF this] show ?thesis by blast
qed

text \<open>
  C5. In every reachable state a cancellation ends, and none of the actions it takes along is
  being executed: an action with a pending dependency is never handed to an executor.
\<close>

theorem cancel_ends_safely:
  fixes sh :: "('a, 'd, 'e, 'o) shared"
  assumes sorter: "action_sorter TO valid items before" and reach: "reachable TO hs sh"
  shows "cancel TO i sh \<noteq> None \<and> cancelled_with (sh_db sh) i \<inter> executing (sh_db sh) \<subseteq> {i}"
proof
  have inv: "queue_inv (sh_db sh)" by (rule action_sorter.reachable_inv [OF sorter reach])
  from action_sorter.cancel_inv [OF sorter inv, of i] show "cancel TO i sh \<noteq> None" by auto
  show "cancelled_with (sh_db sh) i \<inter> executing (sh_db sh) \<subseteq> {i}"
    using inv by (intro cancelled_not_executing) (simp add: queue_inv_def tables_ok_def)
qed

theorem cancel_ends_safely_witness: "cancel list_topo_ops 2 demo3 \<noteq> None"
  using cancel_ends_safely [OF list_sorter.action_sorter_axioms reachable_demo3] by blast

section \<open>Taking an action\<close>


definition demo_now :: timestamp where "demo_now = 100000000000"


section \<open>Guards\<close>

text \<open>
  C7. Mutual exclusion. Take any run from a consistent queue in which executors are handed guards
  (\<open>gs\<close>, the last one first) while locks are released and kept alive, actions are deleted and
  queued, and no executor drops a row it holds. Then no guard is handed out twice, and a guard
  passes the check that opens a guarded transaction exactly when it is the last one handed out
  for its action and the action is still queued: of all guards of an action at most one is
  accepted, and every earlier one gets \<open>Expired\<close>.
\<close>

theorem guard_exclusive:
  assumes inv: "queue_inv db" and run: "granted db gs (qdb s)"
  shows "distinct gs
    \<and> (\<forall>g \<in> set gs. fst (guard_tx Expired g now (\<lambda>s. (Ok (), s)) s)
         = (if latest_guard (eg_action g) gs = Some g \<and> eg_action g \<in> ids (qdb s) then Ok () else Err Expired))"
  using granted_inv [OF run inv] granted_holds [OF run inv]
  by (simp add: permits_fall_distinct keepalive_result)

definition demo_taken :: queue_db where
  "demo_taken = snd (pop first_row ''x'' default_group demo_now demo_now (sh_db demo3))"

lemma demo_taken_inv: "queue_inv demo_taken"
  unfolding demo_taken_def by (rule queue_inv_pop [OF demo3_inv first_row_picks])

text \<open>
  C8. A guard that another executor has taken over stays expired: after any further acquisitions,
  releases, keep-alives, deletions and other writes that do not drop a held lock row, its
  transactions are refused.
\<close>

theorem overtaken_guard_expired:
  assumes "queue_inv db" and "guard_holds h db" and "guard_takes g db db1" and "eg_action g = eg_action h"
    and "lock_step\<^sup>*\<^sup>* db1 (qdb s)"
  shows "fst (guard_tx Expired h now (\<lambda>s. (Ok (), s)) s) = Err Expired"
proof -
  have "queue_inv db1"
    using assms(1,3) queue_inv_acquire by (auto simp: guard_takes_def)
  from execution_locks.taken_over [OF assms(1,3) this assms(2) _ assms(5)] assms(4)
  show ?thesis by (simp add: keepalive_result)
qed

definition demo_late :: timestamp where "demo_late = 300000000000"

text \<open>Executor \<open>x\<close> takes action 1 at the first time, \<open>y\<close> takes it over at the second.\<close>

definition demo_overtaken :: queue_db where
  "demo_overtaken = snd (acquire_with_timestamp 1 ''y'' demo_late demo_taken)"

lemma demo_first_take: "guard_takes \<lparr> eg_action = 1, eg_permit = 1 \<rparr> (sh_db demo3) demo_taken"
proof -
  have f: "fst (acquire_with_timestamp 1 ''x'' demo_now (sh_db demo3)) = Ok \<lparr> eg_action = 1, eg_permit = 1 \<rparr>"
    by code_simp
  have t: "demo_taken = snd (acquire_with_timestamp 1 ''x'' demo_now (sh_db demo3))" by code_simp
  have n: "1 \<notin> fst ` dep_rel (sh_db demo3)" by code_simp
  show ?thesis
    unfolding guard_takes_def t using f n
    by (intro exI [of _ "''x''"] exI [of _ demo_now]) (simp, metis prod.collapse)
qed

lemma demo_second_take: "guard_takes \<lparr> eg_action = 1, eg_permit = 2 \<rparr> demo_taken demo_overtaken"
proof -
  have f: "fst (acquire_with_timestamp 1 ''y'' demo_late demo_taken) = Ok \<lparr> eg_action = 1, eg_permit = 2 \<rparr>"
    by code_simp
  have n: "1 \<notin> fst ` dep_rel demo_taken" by code_simp
  show ?thesis
    unfolding guard_takes_def demo_overtaken_def using f n
    by (intro exI [of _ "''y''"] exI [of _ demo_late]) (simp, metis prod.collapse)
qed

theorem guard_exclusive_witness:
  "fst (guard_tx Expired \<lparr> eg_action = 1, eg_permit = 1 \<rparr> demo_late (\<lambda>s. (Ok (), s)) \<lparr> qdb = demo_overtaken, app = () \<rparr>)
     = Err Expired
   \<and> fst (guard_tx Expired \<lparr> eg_action = 1, eg_permit = 2 \<rparr> demo_late (\<lambda>s. (Ok (), s)) \<lparr> qdb = demo_overtaken, app = () \<rparr>)
     = Ok ()"
proof -
  let ?s = "\<lparr> qdb = demo_overtaken, app = () \<rparr>"
  let ?gs = "[\<lparr> eg_action = 1, eg_permit = 2 \<rparr>, \<lparr> eg_action = 1, eg_permit = 1 \<rparr>]"
  have run: "granted (sh_db demo3) ?gs (qdb ?s)"
    using granted_take [OF granted_take [OF granted_none demo_first_take] demo_second_take] by simp
  have live: "1 \<in> ids demo_overtaken" by code_simp
  from guard_exclusive [OF demo3_inv run, of demo_late] live show ?thesis by simp
qed

theorem overtaken_guard_expired_witness:
  "fst (guard_tx Expired \<lparr> eg_action = 1, eg_permit = 1 \<rparr> 0 (\<lambda>s. (Ok (), s))
      \<lparr> qdb = demo_overtaken, app = () \<rparr>) = Err Expired"
proof -
  have h: "guard_holds \<lparr> eg_action = 1, eg_permit = 1 \<rparr> demo_taken" by code_simp
  from overtaken_guard_expired [OF demo_taken_inv h demo_second_take, where s = "\<lparr> qdb = demo_overtaken, app = () \<rparr>"]
  show ?thesis by simp
qed

text \<open>
  The exception: an executor that starts over drops its own lock row and with it the permit
  count. Executor \<open>x\<close> takes the action, \<open>y\<close> takes it over after the timeout and starts over after a
  failure; it gets permit 1 again and the guard of \<open>x\<close>, expired before, is accepted.
\<close>

definition demo_restarted :: queue_db where
  "demo_restarted =
     (let db1 = snd (pop first_row ''y'' default_group demo_late demo_late demo_taken)
      in snd (pop first_row ''y'' default_group demo_late demo_late db1))"

theorem restarted_executor_revives_guard:
  "\<not> guard_holds \<lparr> eg_action = 1, eg_permit = 1 \<rparr> (snd (pop first_row ''y'' default_group demo_late demo_late demo_taken))
   \<and> lk_executor (the (lock_of 1 demo_restarted)) = Some ''y''
   \<and> fst (guard_tx Expired \<lparr> eg_action = 1, eg_permit = 1 \<rparr> demo_late (\<lambda>s. (Ok (), s)) \<lparr> qdb = demo_restarted, app = () \<rparr>)
       = Ok ()"
proof (intro conjI)
  show "\<not> guard_holds \<lparr> eg_action = 1, eg_permit = 1 \<rparr>
      (snd (pop first_row ''y'' default_group demo_late demo_late demo_taken))" by code_simp
  show "lk_executor (the (lock_of 1 demo_restarted)) = Some ''y''" by code_simp
  show "fst (guard_tx Expired \<lparr> eg_action = 1, eg_permit = 1 \<rparr> demo_late (\<lambda>s. (Ok (), s))
      \<lparr> qdb = demo_restarted, app = () \<rparr>) = Ok ()" by code_simp
qed

section \<open>Executing\<close>

text \<open>
  When the server accepts an action and the executor still holds its guard, the final
  transaction removes the action and every dependency on it, and nothing else: what waited for it
  only can be taken next. When the guard was lost, nothing is written and the action is reported
  as queued again.
\<close>

theorem finish_success:
  fixes f :: "('a, 'd, 'e, 'o) factory" and T :: "('a, 'd, 'e, 'o) action_def"
  assumes inv: "queue_inv (qdb s)"
  shows "tx_and_release g now (remote_finish TO f T (eg_action g) (Ok out)) s
      = (if guard_holds g (qdb s)
         then Some (Ok (Ok (Executed out), []),
                s\<lparr> qdb := release g (delete_where (\<lambda>r. ar_id r = eg_action g) (snd (guard_touch g now (qdb s)))) \<rparr>)
         else Some (Err Expired, s))
    \<and> (\<forall>x s'. tx_and_release g now (remote_finish TO f T (eg_action g) (Ok out)) s = Some (Ok x, s') \<longrightarrow>
         ids (qdb s') = ids (qdb s) - {eg_action g}
         \<and> dep_rel (qdb s') = {e \<in> dep_rel (qdb s). fst e \<noteq> eg_action g \<and> snd e \<noteq> eg_action g})"
proof (intro conjI allI impI)
  let ?i = "eg_action g" and ?db = "snd (guard_touch g now (qdb s))"
  show run: "tx_and_release g now (remote_finish TO f T ?i (Ok out)) s
      = (if guard_holds g (qdb s)
         then Some (Ok (Ok (Executed out), []), s\<lparr> qdb := release g (delete_where (\<lambda>r. ar_id r = ?i) ?db) \<rparr>)
         else Some (Err Expired, s))"
    by (simp add: tx_and_release_holds remote_finish_def Let_def db_delete_def)
  fix x s' assume "tx_and_release g now (remote_finish TO f T ?i (Ok out)) s = Some (Ok x, s')"
  with run have s': "qdb s' = release g (snd (db_delete ?i ?db))" by (auto simp: db_delete_def split: if_splits)
  have fk: "fk_ok ?db"
    using queue_inv_guard_touch [OF inv, of g now] by (simp add: queue_inv_def tables_ok_def)
  have same: "dep_rel ?db = dep_rel (qdb s)" "dep_rel (release g db) = dep_rel db" for db
    by (simp_all add: dep_rel_def guard_touch_def release_def)
  show "ids (qdb s') = ids (qdb s) - {?i}" unfolding s' by (simp add: ids_db_delete)
  show "dep_rel (qdb s') = {e \<in> dep_rel (qdb s). fst e \<noteq> ?i \<and> snd e \<noteq> ?i}"
    unfolding s' same dep_rel_db_delete [OF fk] ..
qed

theorem finish_success_witness:
  "\<exists>s'. tx_and_release \<lparr> eg_action = 1, eg_permit = 1 \<rparr> demo_now
       (remote_finish list_topo_ops demo_factory demo_def 1 (Ok 5)) \<lparr> qdb = demo_taken, app = [] \<rparr>
     = Some (Ok (Ok (Executed 5), []), s') \<and> ids (qdb s') = ids demo_taken - {1}"
proof -
  let ?g = "\<lparr> eg_action = 1, eg_permit = 1 \<rparr>" and ?s = "\<lparr> qdb = demo_taken, app = [] :: nat list \<rparr>"
  have inv: "queue_inv (qdb ?s)" using demo_taken_inv by simp
  have h: "guard_holds ?g (qdb ?s)" by code_simp
  from finish_success [OF inv, of ?g demo_now list_topo_ops demo_factory demo_def 5] h
  show ?thesis by auto
qed

text \<open>
  C9. A failure that allows a retry, below the type's limit: the action stays queued with its
  retry count raised by one, every other row and all dependencies stay, and the lock is released.
  The count never passes the limit this way.
\<close>

theorem finish_requeue:
  fixes f :: "('a, 'd, 'e, 'o) factory" and T :: "('a, 'd, 'e, 'o) action_def"
  assumes inv: "queue_inv (qdb s)" and h: "guard_holds g (qdb s)"
    and row: "find_row (eg_action g) (qdb s) = Some r"
    and req: "act_can_requeue T e = Some reason"
    and max: "\<And>m. act_max_retries T = Some m \<Longrightarrow> ar_retries r < m"
  shows "\<exists>s'. tx_and_release g now (remote_finish TO f T (eg_action g) (Err e)) s
        = Some (Ok (Ok (Queued (eg_action g) reason), []), s')
    \<and> actions (qdb s') = map (\<lambda>q. if ar_id q = eg_action g then q\<lparr> ar_retries := ar_retries q + 1 \<rparr> else q) (actions (qdb s))
    \<and> deps (qdb s') = deps (qdb s) \<and> eg_action g \<notin> executing (qdb s') \<and> app s' = app s
    \<and> (\<forall>m. act_max_retries T = Some m \<longrightarrow> ar_retries r + 1 \<le> m)"
proof -
  let ?i = "eg_action g" and ?db = "snd (guard_touch g now (qdb s))"
  have row': "find_row ?i ?db = Some r" using row by (simp add: find_row_def guard_touch_def)
  have "\<not> (case act_max_retries T of Some m \<Rightarrow> m \<le> ar_retries r | None \<Rightarrow> False)"
    using max by (auto split: option.splits)
  with h row' req have run: "tx_and_release g now (remote_finish TO f T ?i (Err e)) s
      = Some (Ok (Ok (Queued ?i reason), []), s\<lparr> qdb := release g (update_retries ?i ?db) \<rparr>)"
    by (simp add: tx_and_release_holds remote_finish_def Let_def get_retries_def)
  have u: "unique_ok (qdb s)" using inv by (simp add: queue_inv_def tables_ok_def)
  have "lk_permit l = eg_permit g" if "l \<in> set (locks (qdb s))" "lk_action l = ?i" for l
    using lock_of_unique [OF u that(1)] h that(2) by (simp add: guard_holds_permit [OF u] permit_of_def)
  then have "?i \<notin> executing (release g (update_retries ?i ?db))"
    by (auto simp: executing_def release_def update_retries_def guard_touch_def guard_matches_def split: if_splits)
  with run max show ?thesis
    by (auto simp: release_def update_retries_def guard_touch_def Suc_leI)
qed

theorem finish_requeue_witness:
  "\<exists>s'. tx_and_release \<lparr> eg_action = 1, eg_permit = 1 \<rparr> demo_now
       (remote_finish list_topo_ops demo_factory demo_def 1 (Err True)) \<lparr> qdb = demo_taken, app = [] \<rparr>
     = Some (Ok (Ok (Queued 1 NetworkFailed), []), s') \<and> deps (qdb s') = deps demo_taken"
proof -
  let ?g = "\<lparr> eg_action = 1, eg_permit = 1 \<rparr>" and ?s = "\<lparr> qdb = demo_taken, app = [] :: nat list \<rparr>"
  have inv: "queue_inv (qdb ?s)" using demo_taken_inv by simp
  have h: "guard_holds ?g (qdb ?s)" by code_simp
  have "map_option ar_retries (find_row 1 demo_taken) = Some 0" by code_simp
  then obtain r where r: "find_row 1 demo_taken = Some r" "ar_retries r = 0" by auto
  from finish_requeue [OF inv h, of r demo_def True NetworkFailed demo_now list_topo_ops demo_factory] r
  show ?thesis by (auto simp: demo_def_def)
qed

text \<open>
  A failure that allows no retry, or one at the type's limit: the action is reverted and
  removed together with everything that needs it, dependees first, when all stored actions
  decode; the caller gets the handler's error.
\<close>

theorem finish_failure:
  fixes f :: "('a, 'd, 'e, 'o) factory" and T :: "('a, 'd, 'e, 'o) action_def"
  assumes sorter: "action_sorter TO valid items before" and inv: "queue_inv (qdb s)"
    and h: "guard_holds g (qdb s)" and row: "find_row (eg_action g) (qdb s) = Some r"
    and final: "act_can_requeue T e = None \<or> (\<exists>m. act_max_retries T = Some m \<and> m \<le> ar_retries r)"
    and dec: "\<forall>q \<in> set (actions (qdb s)). row_decodable f q"
  shows "\<exists>ms s'. tx_and_release g now (remote_finish TO f T (eg_action g) (Err e)) s
        = Some (Ok (Err (ActionFailed e), ms), s')
    \<and> distinct (map qm_id ms) \<and> set (map qm_id ms) = cancelled_with (qdb s) (eg_action g)
    \<and> (\<forall>c d. c \<in> set (map qm_id ms) \<longrightarrow> (c, d) \<in> required_rel (qdb s) \<longrightarrow> precedes d c (map qm_id ms))
    \<and> actions (qdb s') = filter (\<lambda>q. ar_id q \<notin> cancelled_with (qdb s) (eg_action g)) (actions (qdb s))"
proof -
  let ?i = "eg_action g" and ?db = "snd (guard_touch g now (qdb s))"
  let ?s = "s\<lparr> qdb := ?db \<rparr>"
  have same: "actions ?db = actions (qdb s)" "required_rel ?db = required_rel (qdb s)"
    "cancelled_with ?db ?i = cancelled_with (qdb s) ?i" "find_row ?i ?db = Some r"
    using row by (simp_all add: guard_touch_def required_rel_def cancelled_with_def find_row_def)
  have inv': "queue_inv (qdb ?s)" using inv by (simp add: queue_inv_guard_touch)
  have i: "?i \<in> ids (qdb ?s)" using guard_holds_ids [OF inv h] by simp
  have dec': "\<forall>q \<in> set (actions (qdb ?s)). row_decodable f q" using dec same by simp
  from action_sorter.cancel_dependees_Ok [OF sorter inv' i dec'] obtain ms s' where
    c: "cancel_action_with_dependees TO f ?i ?s = Some (Ok ms :: 'e queued_error + _, s')"
      "distinct (map qm_id ms)" "set (map qm_id ms) = cancelled_with (qdb s) ?i"
      "\<forall>c d. c \<in> set (map qm_id ms) \<longrightarrow> (c, d) \<in> required_rel (qdb s) \<longrightarrow> precedes d c (map qm_id ms)"
      "actions (qdb s') = filter (\<lambda>q. ar_id q \<notin> cancelled_with (qdb s) ?i) (actions (qdb s))"
    using same by auto
  from final c(1) same(4) have "remote_finish TO f T ?i (Err e) ?s = Some (Ok (Err (ActionFailed e), ms), s')"
    by (cases "act_can_requeue T e") (auto simp: remote_finish_def Let_def get_retries_def)
  with h have "tx_and_release g now (remote_finish TO f T ?i (Err e)) s
      = Some (Ok (Err (ActionFailed e), ms), s'\<lparr> qdb := release g (qdb s') \<rparr>)"
    by (simp add: tx_and_release_holds)
  with c show ?thesis
    by (intro exI [of _ ms] exI [of _ "s'\<lparr> qdb := release g (qdb s') \<rparr>"]) (simp add: release_def)
qed

theorem finish_failure_witness:
  "\<exists>(ms :: queued_metadata list) s'. tx_and_release \<lparr> eg_action = 1, eg_permit = 1 \<rparr> demo_now
       (remote_finish list_topo_ops demo_factory demo_def 1 (Err False)) \<lparr> qdb = demo_taken, app = [] \<rparr>
     = Some (Ok (Err (ActionFailed False), ms), s') \<and> set (map qm_id ms) = cancelled_with demo_taken 1"
proof -
  let ?g = "\<lparr> eg_action = 1, eg_permit = 1 \<rparr>" and ?s = "\<lparr> qdb = demo_taken, app = [] :: nat list \<rparr>"
  have inv: "queue_inv (qdb ?s)" using demo_taken_inv by simp
  have h: "guard_holds ?g (qdb ?s)" by code_simp
  have "find_row 1 demo_taken \<noteq> None" by code_simp
  then obtain r where r: "find_row (eg_action ?g) (qdb ?s) = Some r" by auto
  have c: "act_can_requeue demo_def False = None \<or> (\<exists>m. act_max_retries demo_def = Some m \<and> m \<le> ar_retries r)"
    by (simp add: demo_def_def)
  have "\<forall>q \<in> set (actions demo_taken). row_decodable demo_factory q" by code_simp
  then have d: "\<forall>q \<in> set (actions (qdb ?s)). row_decodable demo_factory q" by simp
  from finish_failure [OF list_sorter.action_sorter_axioms inv h r c d, of demo_now]
  show ?thesis by (elim exE conjE, intro exI conjI) simp_all
qed

text \<open>
  One turn of an executor, from taking an action to committing its outcome, always returns
  and leaves the queue consistent, whatever the other tasks commit while the server works, as
  long as their own transactions keep it consistent.
\<close>

theorem execute_turn_returns:
  fixes sh :: "('a, 'd, 'e, 'o) shared"
  assumes "action_sorter TO valid items before" and "queue_inv (sh_db sh)"
    and "picks_row (tn_pick tn)" and "others_keep (tn_remote tn)"
  shows "\<exists>r sh'. execute_one TO ex tn sh = Some (r, sh') \<and> queue_inv (sh_db sh')"
  unfolding execute_one_def using action_sorter.execute_impl_inv [OF assms] .

definition quiet :: "nat list remote_schedule" where
  "quiet = \<lparr> rx_wakeups = [], rx_delivered = True, rx_others = (\<lambda>s. s), rx_now = demo_late \<rparr>"

definition demo_turn :: "nat list turn" where
  "demo_turn = \<lparr> tn_now = demo_now, tn_now' = demo_now, tn_pick = first_row, tn_remote = quiet \<rparr>"

lemma demo_turn_ok:
  "picks_row (tn_pick demo_turn)" "others_keep (tn_remote demo_turn)" "others_add_nothing (tn_remote demo_turn)"
  by (simp_all add: demo_turn_def quiet_def first_row_picks others_keep_def others_add_nothing_def)

theorem execute_turn_returns_witness:
  "\<exists>r sh'. execute_one list_topo_ops (new_executor ''x'') demo_turn demo3 = Some (r, sh') \<and> queue_inv (sh_db sh')"
  by (rule execute_turn_returns [OF list_sorter.action_sorter_axioms demo3_inv demo_turn_ok(1,2)])

text \<open>
  C10. \<open>execute_all\<close> ends: when the others queue nothing meanwhile, one more turn than there are
  actions is enough.
\<close>

theorem execute_all_ends:
  fixes sh :: "('a, 'd, 'e, 'o) shared"
  assumes "action_sorter TO valid items before" and "queue_inv (sh_db sh)"
    and "queued_actions_count sh < length tns"
    and "\<forall>tn \<in> set tns. picks_row (tn_pick tn) \<and> others_keep (tn_remote tn) \<and> others_add_nothing (tn_remote tn)"
  shows "\<exists>r sh'. execute_all TO ex tns 0 sh = Some (r, sh') \<and> queue_inv (sh_db sh')"
  using action_sorter.execute_all_returns [OF assms(1,2) assms(3) [unfolded queued_actions_count_def] assms(4)] .

theorem execute_all_ends_witness:
  "\<exists>r sh'. execute_all list_topo_ops (new_executor ''x'') [demo_turn, demo_turn, demo_turn, demo_turn] 0 demo3 = Some (r, sh')
     \<and> queue_inv (sh_db sh')"
proof -
  have c: "queued_actions_count demo3 < length [demo_turn, demo_turn, demo_turn, demo_turn]" by code_simp
  have t: "\<forall>tn \<in> set [demo_turn, demo_turn, demo_turn, demo_turn].
      picks_row (tn_pick tn) \<and> others_keep (tn_remote tn) \<and> others_add_nothing (tn_remote tn)"
    by (simp add: demo_turn_ok)
  show ?thesis by (rule execute_all_ends [OF list_sorter.action_sorter_axioms demo3_inv c t])
qed

text \<open>
  A turn that only puts its action back announces success: an action that failed with a
  network error is still in the queue, and the last message is \<open>Success\<close> for it.
\<close>

definition demo_offline :: "(nat, nat list, bool, nat) shared" where
  "demo_offline = snd (queue_action list_topo_ops remdups 100 demo_def 0 demo0)"

theorem requeue_announced_as_success:
  "case execute_one list_topo_ops (new_executor ''x'') demo_turn demo_offline of
     Some (r, sh') \<Rightarrow> r = Ok (Some (StateQueued 1 NetworkFailed)) \<and> queue_contains 1 sh'
       \<and> (case last (sh_broadcast sh') of BcSuccess i m \<Rightarrow> i = 1 | _ \<Rightarrow> False)
   | None \<Rightarrow> False"
  by code_simp

text \<open>
  The automatic executor stops by itself only when its policy says so: after a network
  failure under the network-loss policy, or with an empty queue under the empty policy. With
  \<open>Never\<close> it does not stop.
\<close>

theorem auto_executor_stops:
  fixes sh :: "('a, 'd, 'e, 'o) shared"
  assumes "auto_run TO ex policy tns sh = Some (True, sh')"
  shows "policy \<noteq> policy_never
    \<and> (is_network_loss_policy policy \<or> is_empty_policy policy \<and> queued_actions_count sh' = 0)"
proof -
  have net: "is_network_loss_policy policy" if "followup_of policy r = None" for r :: "'e queued_error + _"
    using that
    by (auto simp: followup_of_def split: sum.splits option.splits queued_action_state.splits
        requeue_reason.splits if_splits)
  have "is_network_loss_policy policy \<or> is_empty_policy policy \<and> queued_actions_count sh' = 0"
    using assms
  proof (induction tns arbitrary: sh)
    case (Cons t tns)
    obtain others tn where "t = (others, tn)" by (cases t)
    with Cons show ?case
      by (auto simp: stops_when_empty_def queued_actions_count_def dest: net split: option.splits if_splits)
  qed simp
  moreover have "\<not> is_network_loss_policy policy_never" "\<not> is_empty_policy policy_never"
    by (simp_all add: is_network_loss_policy_def is_empty_policy_def intersects_def policy_never_def)
  ultimately show ?thesis by auto
qed

theorem auto_executor_stops_witness:
  "\<exists>sh'. auto_run list_topo_ops (new_executor ''x'') policy_network_loss [(\<lambda>sh. sh, demo_turn)] demo_offline = Some (True, sh')
     \<and> is_network_loss_policy policy_network_loss"
proof -
  have "map_option fst (auto_run list_topo_ops (new_executor ''x'') policy_network_loss [(\<lambda>sh. sh, demo_turn)] demo_offline)
      = Some True" by code_simp
  then obtain sh' where
    r: "auto_run list_topo_ops (new_executor ''x'') policy_network_loss [(\<lambda>sh. sh, demo_turn)] demo_offline = Some (True, sh')"
    by auto
  have "\<not> is_empty_policy policy_network_loss" by code_simp
  with auto_executor_stops [OF r] r show ?thesis by blast
qed

section \<open>Rebasing, deleting and observing\<close>

text \<open>
  C11. A rebase is the reference run over the actions of its group, each once, in the order of
  creation (ties by identifier): when every action of the group decodes, is rebased by its handler
  and encodes again, each on the data the ones before it left, the call succeeds, the application
  has the data the last handler left and every row of the group the payload its handler made,
  with everything else in the tables as it was. When one of them fails the call fails and
  changes nothing at all.
\<close>

theorem rebase_effect:
  fixes sh :: "('a, 'd, 'e, 'o) shared"
  assumes inv: "queue_inv (sh_db sh)"
  shows "\<exists>rows. rebase_action_order g (sh_db sh) = map ar_id rows
    \<and> set rows = {r \<in> set (actions (sh_db sh)). ar_action_group r = g} \<and> distinct (map ar_id rows)
    \<and> sorted_wrt (\<lambda>r q. ar_created r < ar_created q \<or> ar_created r = ar_created q \<and> ar_id r \<le> ar_id q) rows
    \<and> (case rebased (sh_factory sh) cs rows (app (sh_store sh)) of
         None \<Rightarrow> (\<exists>e. rebase g cs sh = (Err e, sh))
       | Some (rows', d) \<Rightarrow> rebase g cs sh
           = (Ok (), sh\<lparr> sh_store := (sh_store sh)\<lparr> app := d, qdb := with_rows rows' (sh_db sh) \<rparr> \<rparr>))"
proof (intro exI [of _ "group_rows g (sh_db sh)"] conjI)
  have ok: "ids_ok (sh_db sh)" using inv by (simp add: queue_inv_def tables_ok_def)
  note spec = group_rows_spec [OF ok, of g]
  from spec show "rebase_action_order g (sh_db sh) = map ar_id (group_rows g (sh_db sh))"
    and "set (group_rows g (sh_db sh)) = {r \<in> set (actions (sh_db sh)). ar_action_group r = g}"
    and "distinct (map ar_id (group_rows g (sh_db sh)))"
    and "sorted_wrt (\<lambda>r q. ar_created r < ar_created q \<or> ar_created r = ar_created q \<and> ar_id r \<le> ar_id q)
      (group_rows g (sh_db sh))" by auto
  have "set (group_rows g (sh_db sh)) \<subseteq> set (actions (sh_db sh))" using spec(2) by auto
  from rebase_loop_rebased [OF ok this spec(3), of "sh_factory sh" cs]
  show "case rebased (sh_factory sh) cs (group_rows g (sh_db sh)) (app (sh_store sh)) of
      None \<Rightarrow> (\<exists>e. rebase g cs sh = (Err e, sh))
    | Some (rows', d) \<Rightarrow> rebase g cs sh
        = (Ok (), sh\<lparr> sh_store := (sh_store sh)\<lparr> app := d, qdb := with_rows rows' (sh_db sh) \<rparr> \<rparr>)"
    by (auto simp: rebase_def write_tx_def rebase_in_def Let_def spec(1) split: option.splits)
qed

text \<open>A handler that rebases the payload to the number of changed keys and notes its action.\<close>

definition demo_rebased :: "(nat, nat list, bool, nat) shared" where
  "demo_rebased = register_or_replace
     (demo_def\<lparr> act_rebase_local := (\<lambda>i a cs d. (Ok (), a + length cs, d @ [i])) \<rparr>) demo3"

theorem rebase_effect_witness:
  "fst (rebase default_group [''k''] demo_rebased) = Ok ()
   \<and> map ar_state (actions (sh_db (snd (rebase default_group [''k''] demo_rebased)))) = [[6], [2], [1]]
   \<and> app (sh_store (snd (rebase default_group [''k''] demo_rebased))) = [5, 1, 0, 1, 2, 3]"
proof -
  have "queue_inv (sh_db demo_rebased)" using demo3_inv by (simp add: demo_rebased_def register_or_replace_def)
  from rebase_effect [OF this, of default_group "[''k'']"] obtain rows where
    rows: "rebase_action_order default_group (sh_db demo_rebased) = map ar_id rows"
      "set rows = {r \<in> set (actions (sh_db demo_rebased)). ar_action_group r = default_group}" "distinct (map ar_id rows)"
    and run: "case rebased (sh_factory demo_rebased) [''k''] rows (app (sh_store demo_rebased)) of
         None \<Rightarrow> (\<exists>e. rebase default_group [''k''] demo_rebased = (Err e, demo_rebased))
       | Some (rows', d) \<Rightarrow> rebase default_group [''k''] demo_rebased = (Ok (), demo_rebased\<lparr> sh_store :=
           (sh_store demo_rebased)\<lparr> app := d, qdb := with_rows rows' (sh_db demo_rebased) \<rparr> \<rparr>)"
    by blast
  have "fst (rebase default_group [''k''] demo_rebased) = Ok ()" by code_simp
  moreover have "map ar_state (actions (sh_db (snd (rebase default_group [''k''] demo_rebased)))) = [[6], [2], [1]]"
    by code_simp
  moreover have "app (sh_store (snd (rebase default_group [''k''] demo_rebased))) = [5, 1, 0, 1, 2, 3]" by code_simp
  ultimately show ?thesis using run by simp
qed

text \<open>
  Deleting an action: refused without any effect while it has an executor; otherwise exactly
  its row goes, with everything that refers to it, the application's data stays (nothing is
  reverted), and the deletion is announced with the action's type exactly when there was one.
\<close>

theorem delete_action_effect:
  fixes sh :: "('a, 'd, 'e, 'o) shared"
  shows "delete_action i sh =
    (if has_executor i (sh_db sh) then (Err (ActionInExecution i), sh)
     else (Ok (), sh\<lparr> sh_store := (sh_store sh)\<lparr> qdb := delete_where (\<lambda>r. ar_id r = i) (sh_db sh) \<rparr>,
                     sh_broadcast := sh_broadcast sh
                       @ (case find_row i (sh_db sh) of Some r \<Rightarrow> [BcDeleted i (ar_action_type r)] | None \<Rightarrow> []) \<rparr>))"
  by (auto simp: delete_action_def write_tx_def db_delete_def set_db_def send_def split: option.splits)

text \<open>What concerns an action: the messages that end the wait for it.\<close>

fun concerns :: "action_id \<Rightarrow> 'e broadcast_message recv \<Rightarrow> bool" where
  "concerns i (Message (BcSuccess j _)) = (j = i)"
| "concerns i (Message (BcDeleted j _)) = (j = i)"
| "concerns i (Message (BcError _ md)) = (qm_id md = i)"
| "concerns i (Message (BcCancelled md)) = (qm_id md = i)"
| "concerns i _ = False"

text \<open>
  Waiting for an action returns the first message that ends it (success, error, cancellation
  or deletion of that very action), or the error that the channel is closed if that comes first;
  nothing before it concerned the action, and what follows is left to be received.
\<close>

theorem awaiter_returns_first:
  "awaiter_wait i rs =
     (case dropWhile (\<lambda>y. \<not> concerns i y \<and> y \<noteq> Closed) rs of
        [] \<Rightarrow> None
      | x # rest \<Rightarrow> Some (case x of Message m \<Rightarrow> Ok m | _ \<Rightarrow> Err (), rest))"
proof (induction i rs rule: awaiter_wait.induct)
  case (2 i m rs)
  then show ?case by (cases m) auto
qed simp_all

text \<open>
  Priorities and dependency kinds survive the database: reading the column value gives back
  what was written and nothing else, and the order of the column values is the order of the
  priorities.
\<close>

theorem column_values_roundtrip:
  "(priority_column_result v = Ok p \<longleftrightarrow> v = priority_to_sql p)
   \<and> dependency_type_column_result (dependency_type_to_sql t) = Ok t
   \<and> (priority_to_sql p \<le> priority_to_sql q \<longleftrightarrow> priority_repr p \<le> priority_repr q)
   \<and> priority_to_sql Highest < priority_to_sql High \<and> priority_to_sql High < priority_to_sql Normal
   \<and> priority_to_sql Normal < priority_to_sql Low \<and> priority_to_sql Low < priority_to_sql Lowest"
  using priority_column_result_Ok dependency_type_roundtrip priority_order
  by (simp add: priority_to_sql_def)

text \<open>
  An action whose stored rows all decode never ends a turn with a decoding error, so the
  automatic executor cannot spin on one; \<open>validate_queued_actions\<close> checks exactly that.
\<close>

theorem validated_turns_decode:
  fixes sh :: "('a, 'd, 'e, 'o) shared"
  assumes inv: "queue_inv (sh_db sh)" and pick: "picks_row (tn_pick tn)"
    and valid: "validate_queued_actions sh = Ok ()"
    and run: "execute_one TO ex tn sh = Some (Err e, sh')"
  shows "\<exists>err md. e = QueuedActionFailed err md"
proof -
  let ?p = "pop (tn_pick tn) (ex_id ex) (ex_group ex) (tn_now tn) (tn_now' tn) (sh_db sh)"
  have dec: "\<forall>r \<in> set (actions (sh_db sh)). row_decodable (sh_factory sh) r"
    using valid by (simp add: validate_queued_actions_iff)
  from inv pick show ?thesis
  proof (cases rule: pop_cases [where ex = "ex_id ex" and g = "ex_group ex" and now = "tn_now tn" and now' = "tn_now' tn"])
    case Empty
    with run show ?thesis by (simp add: execute_one_def execute_impl_def)
  next
    case (Action r gd db')
    from decode_row [of "sh_factory sh" r "clear_slate_state (ex_id ex) (sh_db sh)"] dec Action(1)
    obtain q md where "decode_action (sh_factory sh) (after_load (clear_slate_state (ex_id ex) (sh_db sh)) (from_row r))
        = (Ok (q, md) :: 'e queued_error + _)" by blast
    with run Action(5) show ?thesis
      by (auto simp: execute_one_def execute_impl_def queued_action_execute_def
          split: option.splits sum.splits action_remote_output.splits)
  qed
qed

definition demo_refused :: "(nat, nat list, bool, nat) shared" where
  "demo_refused = snd (queue_action list_topo_ops remdups 100 demo_def 1 demo0)"

lemma demo_refused_inv: "queue_inv (sh_db demo_refused)"
proof (rule list_sorter.reachable_inv)
  show "reachable list_topo_ops remdups demo_refused"
    unfolding demo_refused_def queue_action_def
    by (rule reach_step [OF reachable_demo0], rule st_queue) (rule surjective_pairing)
qed

theorem validated_turns_decode_witness:
  "\<exists>e sh'. execute_one list_topo_ops (new_executor ''x'') demo_turn demo_refused = Some (Err e, sh')
     \<and> (\<exists>err md. e = QueuedActionFailed err md)"
proof -
  have v: "validate_queued_actions demo_refused = Ok ()" by code_simp
  have "map_option (is_ok \<circ> fst) (execute_one list_topo_ops (new_executor ''x'') demo_turn demo_refused) = Some False"
    by code_simp
  then obtain x sh' where x: "execute_one list_topo_ops (new_executor ''x'') demo_turn demo_refused = Some (x, sh')"
    "\<not> is_ok x" by auto
  then obtain e where r: "execute_one list_topo_ops (new_executor ''x'') demo_turn demo_refused = Some (Err e, sh')"
    by (cases x) auto
  from validated_turns_decode [OF demo_refused_inv demo_turn_ok(1) v r] r show ?thesis by blast
qed

section \<open>Where the code differs from its documentation\<close>

text \<open>
  A debug string given to the builder never reaches the stored action: the row is the same
  with and without it, and the metadata of the stored action has none.
\<close>

lemma debug_string_dropped:
  "sa_new_impl T st keys (with_debug_string d md) = sa_new_impl T st keys md
   \<and> qm_debug_string (queued_metadata_of (sa_new_impl T st keys (with_debug_string d md))) = None"
  by (simp add: sa_new_impl_def with_debug_string_def queued_metadata_of_def split: option.splits)

text \<open>
  \<open>all_dependees\<close> does not name the actions that depend on the given one: every record it
  returns has the given identifier itself.
\<close>

lemma all_dependees_names_itself: "dependency_id ` set (all_dependees i db) \<subseteq> {i}"
  by (auto simp: all_dependees_def)

text \<open>
  An action that asks for the same dependency both as required and as optional: whether it is
  cancelled with that dependency depends on the iteration order of a hash set.
\<close>

definition both_kinds :: metadata where
  "both_kinds = with_optional_dependency 1 (metadata_with_dependency 400 1)"

theorem dependency_kind_depends_on_hash_order:
  "hash_order remdups \<and> hash_order (rev \<circ> remdups)
   \<and> map_option fst (cancel list_topo_ops 1
        (snd (queue_action_with_metadata list_topo_ops remdups demo_def 7 both_kinds demo_offline))) = Some (Ok [1])
   \<and> map_option fst (cancel list_topo_ops 1
        (snd (queue_action_with_metadata list_topo_ops (rev \<circ> remdups) demo_def 7 both_kinds demo_offline))) = Some (Ok [2, 1])"
proof (intro conjI)
  show "hash_order remdups" "hash_order (rev \<circ> remdups)" by (simp_all add: hash_order_def)
  show "map_option fst (cancel list_topo_ops 1
      (snd (queue_action_with_metadata list_topo_ops remdups demo_def 7 both_kinds demo_offline))) = Some (Ok [1])"
    by code_simp
  show "map_option fst (cancel list_topo_ops 1
      (snd (queue_action_with_metadata list_topo_ops (rev \<circ> remdups) demo_def 7 both_kinds demo_offline))) = Some (Ok [2, 1])"
    by code_simp
qed

end
