(* ===== verification/Event_Loop.thy ===== *)
theory Event_Loop
  imports Topo_Sort
begin

text \<open>
  The event loop of \<open>core-event-loop\<close>: events and their flags (\<open>lib.rs\<close>), the event store
  (\<open>store.rs\<close>), the list of subscribers of a source with its retries (\<open>v6/subscriber.rs\<close>), the poller
  (\<open>v6/poller.rs\<close>) and the manager that orders the sources (\<open>v6/manager.rs\<close>).

  \<open>'w\<close> is the world the trait objects act on: the application context, the server, the store.
  \<open>'v\<close> is the type of deserialised events, \<open>'c\<close> that of the cache a source's subscribers share.
  The crates \<open>slotmap\<close> and \<open>topological_sort\<close> and the JSON decoder are parameters.
\<close>

section \<open>Events\<close>

type_synonym event_id = string

datatype refresh_flag = FlagBool bool | FlagInteger u8

definition as_bool :: "refresh_flag \<Rightarrow> bool" where
  "as_bool f = (case f of FlagBool v \<Rightarrow> v | FlagInteger v \<Rightarrow> v \<noteq> 0)"

definition as_u8 :: "refresh_flag \<Rightarrow> u8" where
  "as_u8 f = (case f of FlagBool v \<Rightarrow> if v then - 1 else 0 | FlagInteger v \<Rightarrow> v)"

record event_metadata =
  em_event_id :: event_id
  em_has_more :: refresh_flag
  em_refresh :: refresh_flag

record raw_event =
  re_meta :: event_metadata
  re_raw :: string

definition raw_event_from_json :: "(string \<Rightarrow> 'x + event_metadata) \<Rightarrow> string \<Rightarrow> 'x + raw_event" where
  "raw_event_from_json decode raw =
     (case decode raw of Inl e \<Rightarrow> Err e | Inr m \<Rightarrow> Ok \<lparr> re_meta = m, re_raw = raw \<rparr>)"

definition raw_event_deserialize :: "(string \<Rightarrow> 'x + 'v) \<Rightarrow> raw_event \<Rightarrow> 'x + 'v" where
  "raw_event_deserialize decode e = decode (re_raw e)"

definition raw_event_id :: "raw_event \<Rightarrow> event_id" where
  "raw_event_id e = em_event_id (re_meta e)"

definition has_more :: "raw_event \<Rightarrow> bool" where
  "has_more e = as_bool (em_has_more (re_meta e))"

definition is_refresh :: "raw_event \<Rightarrow> bool" where
  "is_refresh e = as_bool (em_refresh (re_meta e))"

definition refresh_flag_of :: "raw_event \<Rightarrow> refresh_flag" where
  "refresh_flag_of e = em_refresh (re_meta e)"

definition max_error_retries :: nat where
  "max_error_retries = 3"

section \<open>Errors\<close>

record subscriber_error =
  se_network_failure :: bool
  se_retryable :: bool

datatype event_loop_error =
    RefreshFailed string subscriber_error
  | StoreFailed string
  | ProviderFailed string
  | SubscriberFailed string subscriber_error
  | DeserializeFailed string
  | CyclicSources
  | DuplicateEventSource string
  | Panicked string

section \<open>The traits a source is made of\<close>

record 'w event_store =
  es_load :: "'w \<Rightarrow> (string + event_id option) \<times> 'w"
  es_store :: "event_id \<Rightarrow> 'w \<Rightarrow> (string + unit) \<times> 'w"

record 'w event_provider =
  ep_latest :: "'w \<Rightarrow> (string + event_id) \<times> 'w"
  ep_event :: "event_id \<Rightarrow> 'w \<Rightarrow> (string + raw_event) \<times> 'w"

text \<open>A subscriber may change the cache and the world, whether it fails or not.\<close>

record ('w, 'v, 'c) event_subscriber =
  sub_name :: string
  sub_on_event :: "'v \<Rightarrow> 'c \<Rightarrow> 'w \<Rightarrow> subscriber_error option \<times> 'c \<times> 'w"
  sub_on_refresh :: "refresh_flag \<Rightarrow> 'c \<Rightarrow> 'w \<Rightarrow> subscriber_error option \<times> 'c \<times> 'w"

type_synonym source_type = nat

record ('v, 'c) event_source =
  src_type :: source_type
  src_name :: string
  src_dependencies :: "source_type list"
  src_decode :: "string \<Rightarrow> string + 'v"
  src_cache :: 'c

text \<open>\<open>EventSourceDependencyList\<close>.\<close>

definition dependency_list_with :: "source_type \<Rightarrow> source_type list \<Rightarrow> source_type list" where
  "dependency_list_with t ds = ds @ [t]"

subsection \<open>The store in memory\<close>

record memory_store =
  ms_id :: "event_id option"
  ms_poisoned :: bool

definition memory_load :: "memory_store \<Rightarrow> (string + event_id option) \<times> memory_store" where
  "memory_load m = (if ms_poisoned m then (Err ''lock poison'', m) else (Ok (ms_id m), m))"

definition memory_store_id :: "event_id \<Rightarrow> memory_store \<Rightarrow> (string + unit) \<times> memory_store" where
  "memory_store_id i m = (if ms_poisoned m then (Err ''lock poison'', m) else (Ok (), m\<lparr> ms_id := Some i \<rparr>))"

section \<open>The subscribers of a source\<close>

text \<open>The operations of the crate \<open>slotmap\<close> that are used.\<close>

record ('m, 'x) slot_ops =
  sl_new :: 'm
  sl_insert :: "'x \<Rightarrow> 'm \<Rightarrow> nat \<times> 'm"
  sl_remove :: "nat \<Rightarrow> 'm \<Rightarrow> 'x option \<times> 'm"
  sl_values :: "'m \<Rightarrow> 'x list"
  sl_is_empty :: "'m \<Rightarrow> bool"

record 'm subscriber_list =
  sbl_subscribers :: 'm
  sbl_names :: "string set"

definition subscribers_default :: "('m, ('w, 'v, 'c) event_subscriber) slot_ops \<Rightarrow> 'm subscriber_list" where
  "subscribers_default S = \<lparr> sbl_subscribers = sl_new S, sbl_names = {} \<rparr>"

definition subscribers_add ::
    "('m, ('w, 'v, 'c) event_subscriber) slot_ops \<Rightarrow> ('w, 'v, 'c) event_subscriber \<Rightarrow> 'm subscriber_list
     \<Rightarrow> nat option \<times> 'm subscriber_list" where
  "subscribers_add S s l =
     (if sub_name s \<in> sbl_names l then (None, l)
      else case sl_insert S s (sbl_subscribers l) of (handle, m) \<Rightarrow>
        (Some handle, \<lparr> sbl_subscribers = m, sbl_names = insert (sub_name s) (sbl_names l) \<rparr>))"

definition subscribers_remove ::
    "('m, ('w, 'v, 'c) event_subscriber) slot_ops \<Rightarrow> nat \<Rightarrow> 'm subscriber_list
     \<Rightarrow> ('w, 'v, 'c) event_subscriber option \<times> 'm subscriber_list" where
  "subscribers_remove S key l =
     (case sl_remove S key (sbl_subscribers l) of
        (None, m) \<Rightarrow> (None, l\<lparr> sbl_subscribers := m \<rparr>)
      | (Some previous, m) \<Rightarrow>
          (Some previous, \<lparr> sbl_subscribers = m, sbl_names = sbl_names l - {sub_name previous} \<rparr>))"

text \<open>
  The retry loop of one subscriber. \<open>num_attempts == MAX_ERROR_RETRIES\<close> ends it; started above
  the limit it would not stop, so it may return \<open>None\<close>.
\<close>

partial_function (option) deliver ::
    "('c \<Rightarrow> 'w \<Rightarrow> subscriber_error option \<times> 'c \<times> 'w) \<Rightarrow> nat \<Rightarrow> 'c \<Rightarrow> 'w
     \<Rightarrow> ((subscriber_error + unit) \<times> 'c \<times> 'w) option" where
  "deliver call num_attempts cache w =
     (case call cache w of
        (None, cache', w') \<Rightarrow> Some (Ok (), cache', w')
      | (Some e, cache', w') \<Rightarrow>
          if num_attempts + 1 = max_error_retries \<or> \<not> se_retryable e then Some (Err e, cache', w')
          else deliver call (num_attempts + 1) cache' w')"

declare deliver.simps [code]

fun deliver_all ::
    "(string \<Rightarrow> subscriber_error \<Rightarrow> event_loop_error)
     \<Rightarrow> (string \<times> ('c \<Rightarrow> 'w \<Rightarrow> subscriber_error option \<times> 'c \<times> 'w)) list \<Rightarrow> 'c \<Rightarrow> 'w
     \<Rightarrow> ((event_loop_error + unit) \<times> 'w) option" where
  "deliver_all failed [] cache w = Some (Ok (), w)"
| "deliver_all failed ((name, call) # rest) cache w =
     (case deliver call 0 cache w of
        None \<Rightarrow> None
      | Some (Inl e, cache', w') \<Rightarrow> Some (Err (failed name e), w')
      | Some (Inr _, cache', w') \<Rightarrow> deliver_all failed rest cache' w')"

definition subscribers_on_event ::
    "('v, 'c) event_source \<Rightarrow> ('w, 'v, 'c) event_subscriber list \<Rightarrow> raw_event \<Rightarrow> 'w
     \<Rightarrow> ((event_loop_error + unit) \<times> 'w) option" where
  "subscribers_on_event E subs ev w =
     (case raw_event_deserialize (src_decode E) ev of
        Inl e \<Rightarrow> Some (Err (DeserializeFailed e), w)
      | Inr v \<Rightarrow> deliver_all SubscriberFailed (map (\<lambda>s. (sub_name s, sub_on_event s v)) subs) (src_cache E) w)"

definition subscribers_on_refresh ::
    "('v, 'c) event_source \<Rightarrow> ('w, 'v, 'c) event_subscriber list \<Rightarrow> refresh_flag \<Rightarrow> 'w
     \<Rightarrow> ((event_loop_error + unit) \<times> 'w) option" where
  "subscribers_on_refresh E subs f w =
     deliver_all RefreshFailed (map (\<lambda>s. (sub_name s, sub_on_refresh s f)) subs) (src_cache E) w"

section \<open>The poller\<close>

definition initialize ::
    "'w event_store \<Rightarrow> 'w event_provider \<Rightarrow> 'w \<Rightarrow> (event_loop_error + unit) \<times> 'w" where
  "initialize st pr w =
     (case es_load st w of
        (Inl e, w1) \<Rightarrow> (Err (StoreFailed e), w1)
      | (Inr (Some _), w1) \<Rightarrow> (Ok (), w1)
      | (Inr None, w1) \<Rightarrow> (case ep_latest pr w1 of
            (Inl e, w2) \<Rightarrow> (Err (ProviderFailed e), w2)
          | (Inr i, w2) \<Rightarrow> (case es_store st i w2 of
                (Inl e, w3) \<Rightarrow> (Err (StoreFailed e), w3)
              | (Inr _, w3) \<Rightarrow> (Ok (), w3))))"

definition fetch_event ::
    "'w event_provider \<Rightarrow> event_id \<Rightarrow> 'w \<Rightarrow> (string + raw_event option) \<times> 'w" where
  "fetch_event pr last_event_id w =
     (case ep_event pr last_event_id w of
        (Inl e, w') \<Rightarrow> (Err e, w')
      | (Inr ev, w') \<Rightarrow> (Ok (if raw_event_id ev = last_event_id then None else Some ev), w'))"

definition apply_event ::
    "('v, 'c) event_source \<Rightarrow> ('w, 'v, 'c) event_subscriber list \<Rightarrow> raw_event \<Rightarrow> 'w
     \<Rightarrow> ((event_loop_error + unit) \<times> 'w) option" where
  "apply_event E subs ev w =
     (if is_refresh ev then subscribers_on_refresh E subs (refresh_flag_of ev) w
      else subscribers_on_event E subs ev w)"

text \<open>The loop of \<open>poll\<close>; a server that always says there is more would keep it going for ever.\<close>

partial_function (option) poll_loop ::
    "('v, 'c) event_source \<Rightarrow> ('w, 'v, 'c) event_subscriber list \<Rightarrow> 'w event_store \<Rightarrow> 'w event_provider
     \<Rightarrow> nat \<Rightarrow> event_id \<Rightarrow> nat \<Rightarrow> bool \<Rightarrow> 'w \<Rightarrow> ((event_loop_error + unit) \<times> 'w) option" where
  "poll_loop E subs st pr max_events previous processed again w =
     (if processed < max_events \<or> again
      then (case fetch_event pr previous w of
          (Inl e, w1) \<Rightarrow> Some (Err (ProviderFailed e), w1)
        | (Inr None, w1) \<Rightarrow> Some (Ok (), w1)
        | (Inr (Some ev), w1) \<Rightarrow> (case apply_event E subs ev w1 of
              None \<Rightarrow> None
            | Some (Inl e, w2) \<Rightarrow> Some (Err e, w2)
            | Some (Inr _, w2) \<Rightarrow> (case es_store st (raw_event_id ev) w2 of
                  (Inl e, w3) \<Rightarrow> Some (Err (StoreFailed e), w3)
                | (Inr _, w3) \<Rightarrow>
                    poll_loop E subs st pr max_events (raw_event_id ev) (processed + 1) (has_more ev) w3)))
      else Some (Ok (), w))"

declare poll_loop.simps [code]

definition max_events_per_poll :: nat where
  "max_events_per_poll = 50"

definition poll ::
    "('v, 'c) event_source \<Rightarrow> ('w, 'v, 'c) event_subscriber list \<Rightarrow> 'w event_store \<Rightarrow> 'w event_provider
     \<Rightarrow> nat \<Rightarrow> 'w \<Rightarrow> ((event_loop_error + unit) \<times> 'w) option" where
  "poll E subs st pr max_events w =
     (if subs = [] then Some (Ok (), w)
      else case es_load st w of
        (Inl e, w1) \<Rightarrow> Some (Err (StoreFailed e), w1)
      | (Inr None, w1) \<Rightarrow> Some (Err (StoreFailed ''No EventId in store''), w1)
      | (Inr (Some last_event_id), w1) \<Rightarrow> poll_loop E subs st pr max_events last_event_id 0 True w1)"

section \<open>The manager\<close>

record ('w, 'v, 'c, 'm) source_data =
  sd_source :: "('v, 'c) event_source"
  sd_provider :: "'w event_provider"
  sd_store :: "'w event_store"
  sd_subscribers :: "'m subscriber_list"

text \<open>The map of sources as the list of its entries in iteration order.\<close>

record ('w, 'v, 'c, 'm) event_manager =
  mg_sources :: "(source_type \<times> ('w, 'v, 'c, 'm) source_data) list"
  mg_exec_order :: "source_type list"

definition manager_new :: "('w, 'v, 'c, 'm) event_manager" where
  "manager_new = \<lparr> mg_sources = [], mg_exec_order = [] \<rparr>"

definition source_data_new ::
    "('m, ('w, 'v, 'c) event_subscriber) slot_ops \<Rightarrow> ('v, 'c) event_source \<Rightarrow> 'w event_provider \<Rightarrow> 'w event_store
     \<Rightarrow> ('w, 'v, 'c, 'm) source_data" where
  "source_data_new S E pr st =
     \<lparr> sd_source = E, sd_provider = pr, sd_store = st, sd_subscribers = subscribers_default S \<rparr>"

text \<open>The sorter that \<open>rebuild_execution_order\<close> fills from the sources.\<close>

definition add_source ::
    "(source_type, 't) topo_ops \<Rightarrow> source_type \<times> source_type list \<Rightarrow> 't \<Rightarrow> 't" where
  "add_source TO e t =
     fold (\<lambda>d. ts_add_dependency TO d (fst e)) (snd e) (ts_insert TO (fst e) t)"

definition source_edges :: "('w, 'v, 'c, 'm) event_manager \<Rightarrow> (source_type \<times> source_type list) list" where
  "source_edges m = map (\<lambda>(i, sd). (i, src_dependencies (sd_source sd))) (mg_sources m)"

definition rebuild_execution_order ::
    "(source_type, 't) topo_ops \<Rightarrow> ('w, 'v, 'c, 'm) event_manager
     \<Rightarrow> ((event_loop_error + unit) \<times> ('w, 'v, 'c, 'm) event_manager) option" where
  "rebuild_execution_order TO m =
     (case ts_pop TO (fold (add_source TO) (source_edges m) (ts_new TO)) of
        (None, sorter) \<Rightarrow>
          Some (if ts_is_empty TO sorter then Ok () else Err CyclicSources, m\<lparr> mg_exec_order := [] \<rparr>)
      | (Some i, sorter) \<Rightarrow> (case drain TO sorter [i] of
            None \<Rightarrow> None
          | Some order \<Rightarrow> Some (Ok (), m\<lparr> mg_exec_order := order \<rparr>)))"

text \<open>\<open>remove\<close> expects the rebuild to succeed and panics otherwise.\<close>

definition manager_remove ::
    "(source_type, 't) topo_ops \<Rightarrow> source_type \<Rightarrow> ('w, 'v, 'c, 'm) event_manager
     \<Rightarrow> ((event_loop_error + unit) \<times> ('w, 'v, 'c, 'm) event_manager) option" where
  "manager_remove TO i m =
     (case rebuild_execution_order TO (m\<lparr> mg_sources := filter (\<lambda>e. fst e \<noteq> i) (mg_sources m) \<rparr>) of
        None \<Rightarrow> None
      | Some (Inl e, m') \<Rightarrow> Some (Err (Panicked ''Should never fail''), m')
      | Some (Inr _, m') \<Rightarrow> Some (Ok (), m'))"

definition manager_add ::
    "(source_type, 't) topo_ops \<Rightarrow> ('m, ('w, 'v, 'c) event_subscriber) slot_ops \<Rightarrow> ('v, 'c) event_source
     \<Rightarrow> 'w event_provider \<Rightarrow> 'w event_store \<Rightarrow> ('w, 'v, 'c, 'm) event_manager
     \<Rightarrow> ((event_loop_error + unit) \<times> ('w, 'v, 'c, 'm) event_manager) option" where
  "manager_add TO S E pr st m =
     (if src_type E \<in> fst ` set (mg_sources m) then Some (Err (DuplicateEventSource (src_name E)), m)
      else case rebuild_execution_order TO
                  (m\<lparr> mg_sources := mg_sources m @ [(src_type E, source_data_new S E pr st)] \<rparr>) of
        None \<Rightarrow> None
      | Some (Inl CyclicSources, m1) \<Rightarrow> (case manager_remove TO (src_type E) m1 of
            None \<Rightarrow> None
          | Some (Inl (Panicked p), m2) \<Rightarrow> Some (Err (Panicked p), m2)
          | Some (_, m2) \<Rightarrow> Some (Err CyclicSources, m2))
      | Some (r, m1) \<Rightarrow> Some (r, m1))"

definition manager_subscribe ::
    "('m, ('w, 'v, 'c) event_subscriber) slot_ops \<Rightarrow> source_type \<Rightarrow> ('w, 'v, 'c) event_subscriber
     \<Rightarrow> ('w, 'v, 'c, 'm) event_manager \<Rightarrow> nat option \<times> ('w, 'v, 'c, 'm) event_manager" where
  "manager_subscribe S i s m =
     (case map_of (mg_sources m) i of
        None \<Rightarrow> (None, m)
      | Some sd \<Rightarrow> (case subscribers_add S s (sd_subscribers sd) of (h, l) \<Rightarrow>
          (h, m\<lparr> mg_sources := map (\<lambda>(j, d). (j, if j = i then d\<lparr> sd_subscribers := l \<rparr> else d)) (mg_sources m) \<rparr>)))"

definition manager_unsubscribe ::
    "('m, ('w, 'v, 'c) event_subscriber) slot_ops \<Rightarrow> source_type \<Rightarrow> nat
     \<Rightarrow> ('w, 'v, 'c, 'm) event_manager \<Rightarrow> ('w, 'v, 'c) event_subscriber option \<times> ('w, 'v, 'c, 'm) event_manager" where
  "manager_unsubscribe S i key m =
     (case map_of (mg_sources m) i of
        None \<Rightarrow> (None, m)
      | Some sd \<Rightarrow> (case subscribers_remove S key (sd_subscribers sd) of (s, l) \<Rightarrow>
          (s, m\<lparr> mg_sources := map (\<lambda>(j, d). (j, if j = i then d\<lparr> sd_subscribers := l \<rparr> else d)) (mg_sources m) \<rparr>)))"

definition manager_initialize ::
    "source_type \<Rightarrow> ('w, 'v, 'c, 'm) event_manager \<Rightarrow> 'w \<Rightarrow> (event_loop_error + unit) \<times> 'w" where
  "manager_initialize i m w =
     (case map_of (mg_sources m) i of
        None \<Rightarrow> (Ok (), w)
      | Some sd \<Rightarrow> initialize (sd_store sd) (sd_provider sd) w)"

fun initialize_sources ::
    "source_type list \<Rightarrow> ('w, 'v, 'c, 'm) event_manager \<Rightarrow> 'w \<Rightarrow> (event_loop_error + unit) \<times> 'w" where
  "initialize_sources [] m w = (Ok (), w)"
| "initialize_sources (i # is) m w =
     (case manager_initialize i m w of
        (Inl e, w') \<Rightarrow> (Err e, w')
      | (Inr _, w') \<Rightarrow> initialize_sources is m w')"

definition initialize_all :: "('w, 'v, 'c, 'm) event_manager \<Rightarrow> 'w \<Rightarrow> (event_loop_error + unit) \<times> 'w" where
  "initialize_all m w = initialize_sources (mg_exec_order m) m w"

definition poll_source ::
    "('m, ('w, 'v, 'c) event_subscriber) slot_ops \<Rightarrow> ('w, 'v, 'c, 'm) event_manager \<Rightarrow> source_type \<Rightarrow> 'w
     \<Rightarrow> ((event_loop_error + unit) \<times> 'w) option" where
  "poll_source S m i w =
     (case map_of (mg_sources m) i of
        None \<Rightarrow> Some (Ok (), w)
      | Some sd \<Rightarrow> poll (sd_source sd) (sl_values S (sbl_subscribers (sd_subscribers sd)))
                    (sd_store sd) (sd_provider sd) max_events_per_poll w)"

definition refresh_source ::
    "('m, ('w, 'v, 'c) event_subscriber) slot_ops \<Rightarrow> ('w, 'v, 'c, 'm) event_manager \<Rightarrow> source_type \<Rightarrow> 'w
     \<Rightarrow> ((event_loop_error + unit) \<times> 'w) option" where
  "refresh_source S m i w =
     (case map_of (mg_sources m) i of
        None \<Rightarrow> Some (Ok (), w)
      | Some sd \<Rightarrow> subscribers_on_refresh (sd_source sd)
                    (sl_values S (sbl_subscribers (sd_subscribers sd))) (FlagBool True) w)"

fun for_sources ::
    "(source_type \<Rightarrow> 'w \<Rightarrow> ((event_loop_error + unit) \<times> 'w) option) \<Rightarrow> source_type list \<Rightarrow> 'w
     \<Rightarrow> ((event_loop_error + unit) \<times> 'w) option" where
  "for_sources f [] w = Some (Ok (), w)"
| "for_sources f (i # is) w =
     (case f i w of
        None \<Rightarrow> None
      | Some (Inl e, w') \<Rightarrow> Some (Err e, w')
      | Some (Inr _, w') \<Rightarrow> for_sources f is w')"

definition manager_poll ::
    "('m, ('w, 'v, 'c) event_subscriber) slot_ops \<Rightarrow> ('w, 'v, 'c, 'm) event_manager \<Rightarrow> 'w
     \<Rightarrow> ((event_loop_error + unit) \<times> 'w) option" where
  "manager_poll S m w = for_sources (poll_source S m) (mg_exec_order m) w"

definition manager_refresh ::
    "('m, ('w, 'v, 'c) event_subscriber) slot_ops \<Rightarrow> ('w, 'v, 'c, 'm) event_manager \<Rightarrow> 'w
     \<Rightarrow> ((event_loop_error + unit) \<times> 'w) option" where
  "manager_refresh S m w = for_sources (refresh_source S m) (mg_exec_order m) w"

end
