(* ===== verification/Event_Loop_Proofs.thy ===== *)
theory Event_Loop_Proofs
  imports Event_Loop
begin

text \<open>
  The laws the event loop relies on, as locales (the event store, the slot map), their
  interpretations, and the facts behind its properties: bounded retries, the order of the
  sources, what a poll leaves in the store, and that a poll returns.
\<close>

section \<open>The event store\<close>

locale stored_position =
  fixes st :: "'w event_store" and position :: "'w \<Rightarrow> event_id option"
  assumes load_Ok: "es_load st w = (Ok i, w') \<Longrightarrow> i = position w \<and> position w' = position w"
    and load_Err: "es_load st w = (Err e, w') \<Longrightarrow> position w' = position w"
    and store_Ok: "es_store st j w = (Ok (), w') \<Longrightarrow> position w' = Some j"
    and store_Err: "es_store st j w = (Err e, w') \<Longrightarrow> position w' = position w"

text \<open>The store in memory, next to the rest of the world.\<close>

definition memory_event_store :: "(memory_store \<times> 'r) event_store" where
  "memory_event_store =
     \<lparr> es_load = (\<lambda>(m, r). case memory_load m of (x, m') \<Rightarrow> (x, (m', r))),
       es_store = (\<lambda>i (m, r). case memory_store_id i m of (x, m') \<Rightarrow> (x, (m', r))) \<rparr>"

interpretation memory: stored_position memory_event_store "\<lambda>w. ms_id (fst w)"
  by unfold_locales
    (auto simp: memory_event_store_def memory_load_def memory_store_id_def split: prod.splits if_splits)

section \<open>Retries\<close>

lemma deliver_returns:
  assumes "num_attempts < max_error_retries"
  shows "\<exists>r. deliver call num_attempts cache w = Some r"
  using assms
proof (induction "max_error_retries - num_attempts" arbitrary: num_attempts cache w)
  case (Suc n)
  show ?case
  proof (cases "num_attempts + 1 = max_error_retries")
    case True
    then show ?thesis by (subst deliver.simps) (auto split: prod.splits option.splits)
  next
    case False
    with Suc have "\<exists>r. deliver call (num_attempts + 1) c v = Some r" for c v by simp
    with False show ?thesis by (subst deliver.simps) (auto split: prod.splits option.splits)
  qed
qed simp

lemma deliver_all_returns: "deliver_all failed calls cache w \<noteq> None"
proof (induction calls arbitrary: cache w)
  case (Cons nc calls)
  obtain name call where nc: "nc = (name, call)" by (cases nc)
  have "0 < max_error_retries" by (simp add: max_error_retries_def)
  from deliver_returns [OF this, of call cache w] obtain r where "deliver call 0 cache w = Some r" by blast
  with Cons nc show ?case by (cases r) (auto split: sum.splits prod.splits)
qed simp

lemma apply_event_returns: "apply_event E subs ev w \<noteq> None"
  unfolding apply_event_def subscribers_on_event_def subscribers_on_refresh_def
  by (cases "raw_event_deserialize (src_decode E) ev") (simp_all add: deliver_all_returns del: not_None_eq)

text \<open>Counting the calls of a subscriber: the world carries a counter.\<close>

definition counted ::
    "('c \<Rightarrow> 'w \<Rightarrow> subscriber_error option \<times> 'c \<times> 'w) \<Rightarrow> 'c \<Rightarrow> nat \<times> 'w
     \<Rightarrow> subscriber_error option \<times> 'c \<times> nat \<times> 'w" where
  "counted call cache nw = (case call cache (snd nw) of (e, cache', w') \<Rightarrow> (e, cache', fst nw + 1, w'))"

lemma deliver_counted:
  assumes "num_attempts < max_error_retries"
    and "deliver (counted call) num_attempts cache (k, w) = Some (r, cache', k', w')"
  shows "k < k' \<and> k' \<le> k + (max_error_retries - num_attempts)
    \<and> (\<forall>e. r = Err e \<longrightarrow> k' = k + (max_error_retries - num_attempts) \<or> \<not> se_retryable e)"
  using assms
proof (induction "max_error_retries - num_attempts" arbitrary: num_attempts cache k w)
  case (Suc n)
  obtain e c v where call: "call cache w = (e, c, v)" by (metis surj_pair)
  show ?case
  proof (cases "e = None \<or> num_attempts + 1 = max_error_retries \<or> \<not> se_retryable (the e)")
    case True
    with Suc.prems call show ?thesis
      by (subst (asm) deliver.simps) (auto simp: counted_def split: option.splits if_splits)
  next
    case False
    then have "deliver (counted call) (num_attempts + 1) c (k + 1, v) = Some (r, cache', k', w')"
      using Suc.prems(2) call by (subst (asm) deliver.simps) (auto simp: counted_def)
    moreover have "n = max_error_retries - (num_attempts + 1)" "num_attempts + 1 < max_error_retries"
      using Suc.hyps(2) Suc.prems(1) False by auto
    ultimately show ?thesis using Suc.hyps(1) [of "num_attempts + 1" c "k + 1" v] Suc.hyps(2) by auto
  qed
qed simp

section \<open>Polling\<close>

text \<open>Events fetched one after the other, each applied by all subscribers and then stored.\<close>

inductive poll_run ::
    "('v, 'c) event_source \<Rightarrow> ('w, 'v, 'c) event_subscriber list \<Rightarrow> 'w event_store \<Rightarrow> 'w event_provider
     \<Rightarrow> event_id \<Rightarrow> 'w \<Rightarrow> raw_event list \<Rightarrow> 'w \<Rightarrow> bool" for E subs st pr where
  poll_run_Nil: "poll_run E subs st pr i w [] w"
| poll_run_Cons: "poll_run E subs st pr i w (ev # evs) w'"
    if "fetch_event pr i w = (Ok (Some ev), w1)" "apply_event E subs ev w1 = Some (Ok (), w2)"
      "es_store st (raw_event_id ev) w2 = (Ok (), w3)" "poll_run E subs st pr (raw_event_id ev) w3 evs w'"

text \<open>Neither the server nor the subscribers write the stored position.\<close>

definition keeps_position ::
    "('w \<Rightarrow> event_id option) \<Rightarrow> ('v, 'c) event_source \<Rightarrow> ('w, 'v, 'c) event_subscriber list \<Rightarrow> 'w event_provider \<Rightarrow> bool" where
  "keeps_position position E subs pr =
     ((\<forall>i w. position (snd (ep_event pr i w)) = position w)
      \<and> (\<forall>ev w r w'. apply_event E subs ev w = Some (r, w') \<longrightarrow> position w' = position w))"

lemma fetch_event_keeps:
  assumes "keeps_position position E subs pr" and "fetch_event pr i w = (r, w')"
  shows "position w' = position w"
  using assms unfolding keeps_position_def fetch_event_def
  by (auto split: prod.splits sum.splits) (metis snd_conv)+

text \<open>How the loop of a poll ends, once nothing more is applied and stored.\<close>

definition poll_ends ::
    "('v, 'c) event_source \<Rightarrow> ('w, 'v, 'c) event_subscriber list \<Rightarrow> 'w event_store \<Rightarrow> 'w event_provider
     \<Rightarrow> bool \<Rightarrow> event_id \<Rightarrow> 'w \<Rightarrow> event_loop_error + unit \<Rightarrow> 'w \<Rightarrow> bool" where
  "poll_ends E subs st pr full i w r w' =
     (full \<and> r = Ok () \<and> w' = w
      \<or> \<not> full \<and> (fetch_event pr i w = (Ok None, w') \<and> r = Ok ()
      \<or> (\<exists>e. fetch_event pr i w = (Err e, w') \<and> r = Err (ProviderFailed e))
      \<or> (\<exists>ev w1 e. fetch_event pr i w = (Ok (Some ev), w1) \<and> apply_event E subs ev w1 = Some (Err e, w') \<and> r = Err e)
      \<or> (\<exists>ev w1 w2 e. fetch_event pr i w = (Ok (Some ev), w1) \<and> apply_event E subs ev w1 = Some (Ok (), w2)
           \<and> es_store st (raw_event_id ev) w2 = (Err e, w') \<and> r = Err (StoreFailed e))))"

text \<open>The batch is full: \<open>mx\<close> events are processed, and the last one does not announce more.\<close>

definition batch_full :: "nat \<Rightarrow> nat \<Rightarrow> bool \<Rightarrow> raw_event list \<Rightarrow> bool" where
  "batch_full mx n again evs = (mx \<le> n + length evs \<and> \<not> (if evs = [] then again else has_more (last evs)))"

lemma batch_full_Cons: "batch_full mx n again (ev # evs) = batch_full mx (n + 1) (has_more ev) evs"
  by (cases evs rule: rev_cases) (auto simp: batch_full_def)

definition poll_result ::
    "('v, 'c) event_source \<Rightarrow> ('w, 'v, 'c) event_subscriber list \<Rightarrow> 'w event_store \<Rightarrow> 'w event_provider \<Rightarrow> nat
     \<Rightarrow> event_id \<Rightarrow> nat \<Rightarrow> bool \<Rightarrow> 'w \<Rightarrow> (event_loop_error + unit) \<times> 'w \<Rightarrow> bool" where
  "poll_result E subs st pr mx prev n again w y =
     (\<exists>evs w2. poll_run E subs st pr prev w evs w2
        \<and> poll_ends E subs st pr (batch_full mx n again evs) (last (prev # map raw_event_id evs)) w2 (fst y) (snd y)
        \<and> (\<forall>k < length evs. mx \<le> n + k \<longrightarrow> (if k = 0 then again else has_more (evs ! (k - 1)))))"

lemma poll_result_end: "poll_ends E subs st pr (\<not> (n < mx \<or> again)) prev w (fst y) (snd y) \<Longrightarrow> poll_result E subs st pr mx prev n again w y"
  unfolding poll_result_def by (intro exI [of _ "[]"] exI [of _ w]) (simp add: poll_run_Nil batch_full_def not_less)

lemma poll_result_step:
  assumes "fetch_event pr prev w = (Ok (Some ev), w1)" and "apply_event E subs ev w1 = Some (Ok (), w2)"
    and "es_store st (raw_event_id ev) w2 = (Ok (), w3)"
    and "poll_result E subs st pr mx (raw_event_id ev) (n + 1) (has_more ev) w3 y" and "n < mx \<or> again"
  shows "poll_result E subs st pr mx prev n again w y"
proof -
  from assms(4) obtain evs v where run: "poll_run E subs st pr (raw_event_id ev) w3 evs v"
    and ends: "poll_ends E subs st pr (batch_full mx (n + 1) (has_more ev) evs) (last (raw_event_id ev # map raw_event_id evs)) v (fst y) (snd y)"
    and lim: "\<forall>k < length evs. mx \<le> n + 1 + k \<longrightarrow> (if k = 0 then has_more ev else has_more (evs ! (k - 1)))"
    unfolding poll_result_def by blast
  have "\<forall>k < length (ev # evs). mx \<le> n + k \<longrightarrow> (if k = 0 then again else has_more ((ev # evs) ! (k - 1)))"
  proof (intro allI impI)
    fix k assume k: "k < length (ev # evs)" "mx \<le> n + k"
    show "if k = 0 then again else has_more ((ev # evs) ! (k - 1))"
    proof (cases k)
      case 0
      with k assms(5) show ?thesis by auto
    next
      case (Suc j)
      with k lim show ?thesis by (cases j) auto
    qed
  qed
  with poll_run_Cons [OF assms(1-3) run] ends show ?thesis
    unfolding poll_result_def by (intro exI [of _ "ev # evs"] exI [of _ v]) (simp add: batch_full_Cons)
qed

lemma poll_loop_result:
  assumes "poll_loop E subs st pr mx prev n again w = Some y"
  shows "poll_result E subs st pr mx prev n again w y"
proof (rule poll_loop.raw_induct [OF _ assms, where P = poll_result], goal_cases)
  case (1 poll_loop E subs st pr mx prev n again w y)
  show ?case
  proof (cases "n < mx \<or> again")
    case False
    with 1(2) show ?thesis by (intro poll_result_end) (auto simp: poll_ends_def)
  next
    case True
    obtain x w1 where f: "fetch_event pr prev w = (x, w1)" by (metis surj_pair)
    consider (fail) e where "x = Err e" | (none) "x = Ok None" | (ev) ev where "x = Ok (Some ev)"
      by (metis obj_sumE option.exhaust)
    then show ?thesis
    proof cases
      case (ev ev)
      from 1(2) True f ev obtain z w2 where a: "apply_event E subs ev w1 = Some (z, w2)"
        by (cases "apply_event E subs ev w1") auto
      show ?thesis
      proof (cases z)
        case (Inl e)
        with 1(2) True f ev a show ?thesis by (intro poll_result_end) (auto simp: poll_ends_def)
      next
        case (Inr u)
        obtain q w3 where s: "es_store st (raw_event_id ev) w2 = (q, w3)" by (metis surj_pair)
        show ?thesis
        proof (cases q)
          case (Inl e)
          with 1(2) True f ev a Inr s show ?thesis by (intro poll_result_end) (auto simp: poll_ends_def)
        next
          case ok: (Inr u')
          with 1(2) True f ev a Inr s
          have "poll_loop E subs st pr mx (raw_event_id ev) (n + 1) (has_more ev) w3 = Some y" by simp
          from poll_result_step [OF _ _ _ 1(1) [OF this] True] f ev a Inr s ok show ?thesis by simp
        qed
      qed
    qed (use 1(2) True f in \<open>auto simp: poll_ends_def intro!: poll_result_end\<close>)
  qed
qed

context stored_position
begin

lemma poll_run_position:
  assumes "poll_run E subs st pr i w evs w'" and "position w = Some i"
  shows "position w' = Some (last (i # map raw_event_id evs))"
  using assms
proof (induction rule: poll_run.induct)
  case (poll_run_Cons i w ev w1 w2 w3 evs w')
  then have "position w3 = Some (raw_event_id ev)" using store_Ok by blast
  with poll_run_Cons show ?case by simp
qed simp

lemma poll_ends_position:
  assumes "poll_ends E subs st pr full i w r w'" and "keeps_position position E subs pr"
  shows "position w' = position w"
proof -
  note keep = fetch_event_keeps [OF assms(2)]
  have app: "position v' = position v" if "apply_event E subs ev v = Some (x, v')" for ev v x v'
    using assms(2) that unfolding keeps_position_def by blast
  from assms(1) show ?thesis
    unfolding poll_ends_def using keep app store_Err by (elim disjE exE conjE) metis+
qed

end

section \<open>A poll returns\<close>

text \<open>
  What the server has to promise: a group of related events (those announced by \<open>has_more\<close>) is
  finite. \<open>rank\<close> bounds how many more events belong to the group of an event.
\<close>

definition finite_groups :: "(event_id \<Rightarrow> nat) \<Rightarrow> 'w event_provider \<Rightarrow> bool" where
  "finite_groups rank pr =
     (\<forall>i w ev w'. ep_event pr i w = (Ok ev, w') \<longrightarrow> has_more ev \<longrightarrow> rank (raw_event_id ev) < rank i)"

lemma poll_loop_returns:
  assumes fin: "finite_groups rank pr"
  shows "poll_loop E subs st pr mx prev n again w \<noteq> None"
proof (induction "(mx - n, if again then Suc (rank prev) else 0)" arbitrary: prev n again w
    rule: wf_induct_rule [OF wf_lex_prod [OF wf_less_than wf_less_than]])
  case (1 prev n again w)
  show ?case
  proof (cases "n < mx \<or> again")
    case False
    then show ?thesis by (subst poll_loop.simps) simp
  next
    case True
    have step: "poll_loop E subs st pr mx (raw_event_id ev) (n + 1) (has_more ev) v \<noteq> None"
      if f: "fetch_event pr prev w = (Ok (Some ev), w1)" for ev w1 v
    proof (rule 1)
      have "ep_event pr prev w = (Ok ev, w1)"
        using f by (auto simp: fetch_event_def split: prod.splits sum.splits if_splits)
      then have "has_more ev \<longrightarrow> rank (raw_event_id ev) < rank prev"
        using fin unfolding finite_groups_def by blast
      with True show "((mx - (n + 1), if has_more ev then Suc (rank (raw_event_id ev)) else 0),
          (mx - n, if again then Suc (rank prev) else 0)) \<in> less_than <*lex*> less_than"
        by (cases "n < mx") auto
    qed
    obtain x w1 where f: "fetch_event pr prev w = (x, w1)" by (metis surj_pair)
    consider (fail) e where "x = Err e" | (none) "x = Ok None" | (ev) ev where "x = Ok (Some ev)"
      by (metis obj_sumE option.exhaust)
    then show ?thesis
    proof cases
      case (ev ev)
      obtain z w2 where a: "apply_event E subs ev w1 = Some (z, w2)"
        using apply_event_returns [of E subs ev w1] by auto
      obtain q w3 where s: "es_store st (raw_event_id ev) w2 = (q, w3)" by (metis surj_pair)
      have "poll_loop E subs st pr mx (raw_event_id ev) (n + 1) (has_more ev) w3 \<noteq> None"
        using step f ev by simp
      with True f ev a s show ?thesis
        by (subst poll_loop.simps) (simp del: not_None_eq split: sum.splits)
    qed (subst poll_loop.simps, simp add: True f)+
  qed
qed

section \<open>The slot map and the names of the subscribers\<close>

text \<open>What the crate \<open>slotmap\<close> promises: a map from keys to values, whose inserts use fresh keys.\<close>

locale slot_map =
  fixes S :: "('m, 'x) slot_ops" and slots :: "'m \<Rightarrow> nat \<rightharpoonup> 'x" and slots_ok :: "'m \<Rightarrow> bool"
  assumes slots_new: "slots_ok (sl_new S) \<and> slots (sl_new S) = Map.empty"
    and slots_insert: "slots_ok m \<Longrightarrow> sl_insert S x m = (k, m')
      \<Longrightarrow> slots_ok m' \<and> k \<notin> dom (slots m) \<and> slots m' = (slots m)(k \<mapsto> x)"
    and slots_remove: "slots_ok m \<Longrightarrow> sl_remove S k m = (r, m')
      \<Longrightarrow> slots_ok m' \<and> r = slots m k \<and> slots m' = (slots m)(k := None)"
    and slots_values: "slots_ok m \<Longrightarrow> set (sl_values S m) = ran (slots m)"
    and slots_count: "slots_ok m \<Longrightarrow> length (sl_values S m) = card (dom (slots m))"
    and slots_finite: "slots_ok m \<Longrightarrow> finite (dom (slots m))"

locale subscriber_slots = slot_map S slots slots_ok
  for S :: "('m, ('w, 'v, 'c) event_subscriber) slot_ops"
    and slots :: "'m \<Rightarrow> nat \<rightharpoonup> ('w, 'v, 'c) event_subscriber" and slots_ok :: "'m \<Rightarrow> bool"
begin

text \<open>The set of names is the set of the names of the subscribers, and no two share one.\<close>

definition names_ok :: "'m subscriber_list \<Rightarrow> bool" where
  "names_ok l = (slots_ok (sbl_subscribers l) \<and> sbl_names l = sub_name ` ran (slots (sbl_subscribers l))
     \<and> (\<forall>j k s t. slots (sbl_subscribers l) j = Some s \<longrightarrow> slots (sbl_subscribers l) k = Some t
          \<longrightarrow> sub_name s = sub_name t \<longrightarrow> j = k))"

lemma names_okD:
  assumes "names_ok l"
  shows "slots_ok (sbl_subscribers l)"
    and "sbl_names l = sub_name ` ran (slots (sbl_subscribers l))"
    and "slots (sbl_subscribers l) j = Some s \<Longrightarrow> slots (sbl_subscribers l) k = Some t
      \<Longrightarrow> sub_name s = sub_name t \<Longrightarrow> j = k"
  using assms unfolding names_ok_def by blast+

lemma names_ok_default: "names_ok (subscribers_default S)"
  by (simp add: names_ok_def subscribers_default_def slots_new)

lemma names_ok_add:
  assumes ok: "names_ok l" and "subscribers_add S s l = (h, l')"
  shows "names_ok l'"
proof (cases "sub_name s \<in> sbl_names l")
  case True
  with assms show ?thesis by (simp add: subscribers_add_def)
next
  case False
  let ?f = "slots (sbl_subscribers l)"
  obtain k m where i: "sl_insert S s (sbl_subscribers l) = (k, m)" by (metis surj_pair)
  with False assms(2) have l': "l' = \<lparr> sbl_subscribers = m, sbl_names = insert (sub_name s) (sbl_names l) \<rparr>"
    by (simp add: subscribers_add_def)
  have m: "slots_ok m" "k \<notin> dom ?f" "slots m = ?f(k \<mapsto> s)"
    using slots_insert [OF names_okD(1) [OF ok] i] by auto
  have n: "sub_name t \<noteq> sub_name s" if "?f j = Some t" for j t
    using that False names_okD(2) [OF ok] by (metis imageI ranI)
  have r: "ran (slots m) = insert s (ran ?f)"
    using m ran_map_upd [of ?f k s] by auto
  have u: "j = j'" if "slots m j = Some t" "slots m j' = Some t'" "sub_name t = sub_name t'" for j j' t t'
    using that m(3) n names_okD(3) [OF ok] by (auto split: if_splits)
  show ?thesis unfolding names_ok_def l'
    using m(1) r names_okD(2) [OF ok] u by auto
qed

lemma names_ok_remove:
  assumes ok: "names_ok l" and "subscribers_remove S key l = (r, l')"
  shows "names_ok l'"
proof -
  let ?f = "slots (sbl_subscribers l)"
  obtain x m where i: "sl_remove S key (sbl_subscribers l) = (x, m)" by (metis surj_pair)
  have x: "slots_ok m" "x = ?f key" and m: "slots m = ?f(key := None)"
    using slots_remove [OF names_okD(1) [OF ok] i] by auto
  show ?thesis
  proof (cases x)
    case None
    with x have "?f(key := None) = ?f" by auto
    with None assms(2) i m have "slots (sbl_subscribers l') = ?f" "sbl_names l' = sbl_names l" "sbl_subscribers l' = m"
      by (auto simp: subscribers_remove_def)
    with ok x(1) show ?thesis by (simp add: names_ok_def)
  next
    case (Some s)
    with assms(2) i have l': "l' = \<lparr> sbl_subscribers = m, sbl_names = sbl_names l - {sub_name s} \<rparr>"
      by (simp add: subscribers_remove_def)
    have s: "?f key = Some s" using x Some by simp
    have r: "sub_name ` ran (?f(key := None)) = sub_name ` ran ?f - {sub_name s}"
    proof (rule set_eqI)
      fix n
      have "n \<in> sub_name ` ran (?f(key := None)) \<longleftrightarrow> (\<exists>k t. k \<noteq> key \<and> ?f k = Some t \<and> sub_name t = n)"
        by (auto simp: ran_def image_iff)
      also have "\<dots> \<longleftrightarrow> n \<in> sub_name ` ran ?f \<and> n \<noteq> sub_name s"
      proof -
        have "sub_name t = sub_name s \<longleftrightarrow> k = key" if "?f k = Some t" for k t
          using names_okD(3) [OF ok that s] that s by auto
        then show ?thesis unfolding ran_def image_iff by blast
      qed
      finally show "n \<in> sub_name ` ran (?f(key := None)) \<longleftrightarrow> n \<in> sub_name ` ran ?f - {sub_name s}" by simp
    qed
    have u: "j = j'" if "slots m j = Some t" "slots m j' = Some t'" "sub_name t = sub_name t'" for j j' t t'
      using that m names_okD(3) [OF ok] by (auto split: if_splits)
    show ?thesis unfolding names_ok_def l'
    proof (intro conjI allI impI)
      show "slots_ok (sbl_subscribers \<lparr>sbl_subscribers = m, sbl_names = sbl_names l - {sub_name s}\<rparr>)"
        using x(1) by simp
      show "sbl_names \<lparr>sbl_subscribers = m, sbl_names = sbl_names l - {sub_name s}\<rparr>
          = sub_name ` ran (slots (sbl_subscribers \<lparr>sbl_subscribers = m, sbl_names = sbl_names l - {sub_name s}\<rparr>))"
        unfolding subscriber_list.simps m r names_okD(2) [OF ok] by (rule refl)
    qed (simp add: u)
  qed
qed

text \<open>A subscriber is refused exactly when its name is taken.\<close>

lemma add_refused_iff:
  assumes "names_ok l"
  shows "fst (subscribers_add S s l) = None
    \<longleftrightarrow> (\<exists>t \<in> set (sl_values S (sbl_subscribers l)). sub_name t = sub_name s)"
  unfolding subscribers_add_def slots_values [OF names_okD(1) [OF assms]] names_okD(2) [OF assms]
  by (cases "sl_insert S s (sbl_subscribers l)") (simp, metis (mono_tags) image_iff)

lemma names_ok_distinct:
  assumes ok: "names_ok l"
  shows "distinct (map sub_name (sl_values S (sbl_subscribers l)))"
proof -
  let ?f = "slots (sbl_subscribers l)" and ?v = "sl_values S (sbl_subscribers l)"
  have inj: "inj_on (\<lambda>k. sub_name (the (?f k))) (dom ?f)"
    using names_okD(3) [OF ok] by (intro inj_onI) auto
  have "set (map sub_name ?v) = (\<lambda>k. sub_name (the (?f k))) ` dom ?f"
    unfolding set_map slots_values [OF names_okD(1) [OF ok]] by (force simp: ran_def image_iff dom_def)
  then have "card (set (map sub_name ?v)) = length (map sub_name ?v)"
    using card_image [OF inj] slots_count [OF names_okD(1) [OF ok]] by simp
  then show ?thesis by (rule card_distinct)
qed

end

text \<open>A slot map on lists: the next key, and the entries.\<close>

definition list_slots :: "(nat \<times> (nat \<times> 'x) list, 'x) slot_ops" where
  "list_slots =
     \<lparr> sl_new = (0, []),
       sl_insert = (\<lambda>x m. (fst m, (fst m + 1, snd m @ [(fst m, x)]))),
       sl_remove = (\<lambda>k m. (map_of (snd m) k, (fst m, filter (\<lambda>e. fst e \<noteq> k) (snd m)))),
       sl_values = (\<lambda>m. map snd (snd m)),
       sl_is_empty = (\<lambda>m. snd m = []) \<rparr>"

definition list_slots_ok :: "nat \<times> (nat \<times> 'x) list \<Rightarrow> bool" where
  "list_slots_ok m = (distinct (map fst (snd m)) \<and> (\<forall>e \<in> set (snd m). fst e < fst m))"

lemma map_of_filter_key: "map_of (filter (\<lambda>e. fst e \<noteq> k) xs) = (map_of xs)(k := None)"
  by (induction xs) auto

interpretation list_slots: subscriber_slots list_slots "\<lambda>m. map_of (snd m)" list_slots_ok
proof unfold_locales
  fix m m' :: "nat \<times> (nat \<times> ('a, 'b, 'c) event_subscriber) list" and x k
  assume ok: "list_slots_ok m" and i: "sl_insert list_slots x m = (k, m')"
  have k: "k = fst m" and m': "m' = (fst m + 1, snd m @ [(fst m, x)])"
    using i by (auto simp: list_slots_def)
  have new: "fst m \<notin> fst ` set (snd m)" using ok by (auto simp: list_slots_ok_def)
  have "list_slots_ok m'" using ok new by (auto simp: list_slots_ok_def m')
  moreover have "map_of (snd m') = (map_of (snd m))(k \<mapsto> x)"
  proof
    fix j
    have "map_of (snd m) (fst m) = None" using new by (simp add: map_of_eq_None_iff)
    then show "map_of (snd m') j = ((map_of (snd m))(k \<mapsto> x)) j"
      by (simp add: m' k map_add_def split: option.splits)
  qed
  ultimately show "list_slots_ok m' \<and> k \<notin> dom (map_of (snd m)) \<and> map_of (snd m') = (map_of (snd m))(k \<mapsto> x)"
    using new by (simp add: dom_map_of_conv_image_fst k)
next
  fix m :: "nat \<times> (nat \<times> ('a, 'b, 'c) event_subscriber) list"
  assume ok: "list_slots_ok m"
  then show "set (sl_values list_slots m) = ran (map_of (snd m))"
    by (simp add: list_slots_def list_slots_ok_def ran_distinct)
  show "length (sl_values list_slots m) = card (dom (map_of (snd m)))"
    using ok distinct_card [of "map fst (snd m)"]
    by (simp add: list_slots_def list_slots_ok_def dom_map_of_conv_image_fst)
  show "finite (dom (map_of (snd m)))" by (rule finite_dom_map_of)
qed (auto simp: list_slots_def list_slots_ok_def map_of_filter_key intro: distinct_map_filter)


section \<open>The order of the sources\<close>

definition dependency_rel :: "(source_type \<times> source_type list) list \<Rightarrow> (source_type \<times> source_type) set" where
  "dependency_rel es = {(d, i). \<exists>ds. (i, ds) \<in> set es \<and> d \<in> set ds}"

definition named_sources :: "(source_type \<times> source_type list) list \<Rightarrow> source_type set" where
  "named_sources es = (\<Union>e \<in> set es. insert (fst e) (set (snd e)))"

lemma dependency_rel_Cons: "dependency_rel (e # es) = (\<lambda>d. (d, fst e)) ` set (snd e) \<union> dependency_rel es"
  by (cases e) (auto simp: dependency_rel_def)

locale source_sorter = topological_sort TO valid items before
  for TO :: "(source_type, 't) topo_ops" and valid items before
begin

lemma add_source_built:
  assumes "valid t"
  shows "valid (add_source TO e t)"
    and "items (add_source TO e t) = items t \<union> insert (fst e) (set (snd e))"
    and "before (add_source TO e t) = before t \<union> (\<lambda>d. (d, fst e)) ` set (snd e)"
  using fold_add [of "ts_insert TO (fst e) t" "\<lambda>d. d" "\<lambda>_. fst e" "snd e"] assms
  by (auto simp: add_source_def insert_valid items_insert before_insert)

lemma sorter_built:
  assumes "valid t"
  shows "valid (fold (add_source TO) es t)
    \<and> items (fold (add_source TO) es t) = items t \<union> named_sources es
    \<and> before (fold (add_source TO) es t) = before t \<union> dependency_rel es"
  using assms
proof (induction es arbitrary: t)
  case (Cons e es)
  then show ?case
    using Cons.IH [OF add_source_built(1) [OF Cons.prems]]
    by (auto simp: add_source_built [OF Cons.prems] dependency_rel_Cons named_sources_def)
qed (simp add: named_sources_def dependency_rel_def)

lemmas sources_built = sorter_built [OF new_valid, unfolded items_new before_new Un_empty_left]

lemma rebuild_run:
  assumes "pop_run TO (fold (add_source TO) (source_edges m) (ts_new TO)) order"
  shows "rebuild_execution_order TO m
    = Some (if order = [] \<and> named_sources (source_edges m) \<noteq> {} then Err CyclicSources else Ok (),
            m\<lparr> mg_exec_order := order \<rparr>)"
  using assms
proof (cases rule: pop_run.cases)
  case pop_run_Nil
  let ?t = "fold (add_source TO) (source_edges m) (ts_new TO)"
  obtain t' where p: "ts_pop TO ?t = (None, t')" using pop_run_Nil by (metis prod.collapse)
  have "items t' = named_sources (source_edges m)" "valid t'"
    using pop_None_same [of ?t] sources_built [of "source_edges m"] p pop_valid by auto
  with p pop_run_Nil show ?thesis by (auto simp: rebuild_execution_order_def is_empty_iff)
next
  case (pop_run_Cons i t' ks)
  then show ?thesis using pop_run_drain [of TO t' ks "[i]"] by (simp add: rebuild_execution_order_def)
qed

lemma rebuild_spec:
  "\<exists>order. rebuild_execution_order TO m
      = Some (if order = [] \<and> named_sources (source_edges m) \<noteq> {} then Err CyclicSources else Ok (),
              m\<lparr> mg_exec_order := order \<rparr>)
    \<and> distinct order \<and> set order \<subseteq> named_sources (source_edges m)
    \<and> (\<forall>d i. (d, i) \<in> dependency_rel (source_edges m) \<longrightarrow> i \<in> set order \<longrightarrow> precedes d i order)
    \<and> (\<forall>i \<in> named_sources (source_edges m) - set order.
         \<exists>d \<in> named_sources (source_edges m) - set order. (d, i) \<in> dependency_rel (source_edges m))
    \<and> (acyclic (dependency_rel (source_edges m)) \<longrightarrow> set order = named_sources (source_edges m))"
proof -
  let ?t = "fold (add_source TO) (source_edges m) (ts_new TO)"
  have b: "valid ?t" "items ?t = named_sources (source_edges m)" "before ?t = dependency_rel (source_edges m)"
    using sources_built [of "source_edges m"] by auto
  from pop_run_exists [OF b(1)] obtain order where run: "pop_run TO ?t order" by blast
  show ?thesis
    using rebuild_run [OF run] pop_run_spec [OF run b(1)] pop_run_complete [OF run b(1)]
    unfolding b by (intro exI [of _ order]) simp
qed

end

interpretation list_sources: source_sorter list_topo_ops lt_valid "\<lambda>t. set (fst t)" "\<lambda>t. set (snd t)"
  by unfold_locales

lemma rebuild_keeps_sources:
  assumes "rebuild_execution_order TO m = Some (r, m')"
  shows "mg_sources m' = mg_sources m"
  using assms unfolding rebuild_execution_order_def by (auto split: prod.splits option.splits)

lemma remove_drops_source:
  assumes "manager_remove TO i m = Some (r, m')"
  shows "mg_sources m' = filter (\<lambda>e. fst e \<noteq> i) (mg_sources m)"
  using assms unfolding manager_remove_def
  by (auto split: option.splits sum.splits prod.splits dest: rebuild_keeps_sources)

section \<open>The manager polls every source\<close>

lemma poll_returns: "finite_groups rank pr \<Longrightarrow> poll E subs st pr mx w \<noteq> None"
  unfolding poll_def by (simp add: poll_loop_returns del: not_None_eq split: prod.splits sum.splits option.splits)

lemma for_sources_returns:
  assumes "\<And>i w. i \<in> set is \<Longrightarrow> f i w \<noteq> None"
  shows "for_sources f is w \<noteq> None"
  using assms
proof (induction "is" arbitrary: w)
  case (Cons i js)
  from Cons.prems [of i w] obtain r w' where "f i w = Some (r, w')" by auto
  moreover have "for_sources f js w' \<noteq> None" using Cons by simp
  ultimately show ?case by (cases r) simp_all
qed simp

end
