(* ===== verification/Event_Loop_Props.thy ===== *)
theory Event_Loop_Props
  imports Event_Loop_Proofs
begin

text \<open>
  The properties of the event loop, each with a witness on a small event source: one subscriber
  that accepts everything, a store in memory, and a server with three events.
\<close>

section \<open>A small source\<close>

definition demo_event :: "string \<Rightarrow> bool \<Rightarrow> raw_event" where
  "demo_event i again = \<lparr> re_meta = \<lparr> em_event_id = i, em_has_more = FlagBool again, em_refresh = FlagInteger 0 \<rparr>,
     re_raw = ''{}'' \<rparr>"

text \<open>The server: after \<open>''''\<close> comes \<open>''a''\<close>, then \<open>''b''\<close> (with more to come), then \<open>''c''\<close>.\<close>

definition demo_next :: "event_id \<Rightarrow> raw_event" where
  "demo_next i = (if i = '''' then demo_event ''a'' False else if i = ''a'' then demo_event ''b'' True
     else demo_event ''c'' False)"

definition demo_provider :: "(memory_store \<times> nat) event_provider" where
  "demo_provider = \<lparr> ep_latest = (\<lambda>w. (Ok '''', w)), ep_event = (\<lambda>i w. (Ok (demo_next i), w)) \<rparr>"

definition demo_source :: "source_type \<Rightarrow> source_type list \<Rightarrow> (unit, unit) event_source" where
  "demo_source t ds = \<lparr> src_type = t, src_name = ''demo'', src_dependencies = ds, src_decode = (\<lambda>_. Ok ()),
     src_cache = () \<rparr>"

text \<open>The subscriber counts its calls in the world.\<close>

definition demo_sub :: "(memory_store \<times> nat, unit, unit) event_subscriber" where
  "demo_sub = \<lparr> sub_name = ''sub'', sub_on_event = (\<lambda>_ c w. (None, c, fst w, snd w + 1)),
     sub_on_refresh = (\<lambda>_ c w. (None, c, fst w, snd w + 1)) \<rparr>"

definition demo_world :: "memory_store \<times> nat" where
  "demo_world = (\<lparr> ms_id = Some '''', ms_poisoned = False \<rparr>, 0)"

type_synonym demo_subs = "nat \<times> (nat \<times> (memory_store \<times> nat, unit, unit) event_subscriber) list"

definition demo_entry ::
    "source_type \<Rightarrow> source_type list \<Rightarrow> source_type \<times> (memory_store \<times> nat, unit, unit, demo_subs) source_data" where
  "demo_entry t ds = (t, \<lparr> sd_source = demo_source t ds, sd_provider = demo_provider,
     sd_store = memory_event_store,
     sd_subscribers = snd (subscribers_add list_slots demo_sub (subscribers_default list_slots)) \<rparr>)"

definition demo_manager ::
    "(source_type \<times> source_type list) list \<Rightarrow> (memory_store \<times> nat, unit, unit, demo_subs) event_manager" where
  "demo_manager es = \<lparr> mg_sources = map (\<lambda>(t, ds). demo_entry t ds) es, mg_exec_order = map fst es \<rparr>"

lemma demo_applies: "apply_event (demo_source t ds) [demo_sub] ev w = Some (Ok (), fst w, snd w + 1)"
  unfolding apply_event_def subscribers_on_event_def subscribers_on_refresh_def
  by (simp add: raw_event_deserialize_def demo_source_def demo_sub_def deliver.simps)

lemma demo_keeps: "keeps_position (\<lambda>w. ms_id (fst w)) (demo_source t ds) [demo_sub] demo_provider"
  unfolding keeps_position_def
  by (auto simp: demo_provider_def demo_applies)

lemma demo_finite: "finite_groups (\<lambda>i. if i = ''a'' then 1 else 0) demo_provider"
  unfolding finite_groups_def
  by (auto simp: demo_provider_def demo_next_def demo_event_def has_more_def raw_event_id_def as_bool_def split: if_splits)

section \<open>Properties\<close>

text \<open>
  C12. The execution order of the sources, for any sorter that keeps the documented laws of the crate:
  rebuilding it always returns; no source is listed twice; a source that is listed comes after every
  source it depends on; a source is left out only if one of its dependencies is left out too; so
  without dependency cycles nothing is left out. A cycle is reported only when nothing is listed.
\<close>

theorem execution_order:
  assumes "source_sorter TO valid items before"
  shows "\<exists>order. rebuild_execution_order TO m
      = Some (if order = [] \<and> named_sources (source_edges m) \<noteq> {} then Err CyclicSources else Ok (),
              m\<lparr> mg_exec_order := order \<rparr>)
    \<and> distinct order \<and> set order \<subseteq> named_sources (source_edges m)
    \<and> (\<forall>d i. (d, i) \<in> dependency_rel (source_edges m) \<longrightarrow> i \<in> set order \<longrightarrow> precedes d i order)
    \<and> (\<forall>i \<in> named_sources (source_edges m) - set order.
         \<exists>d \<in> named_sources (source_edges m) - set order. (d, i) \<in> dependency_rel (source_edges m))
    \<and> (acyclic (dependency_rel (source_edges m)) \<longrightarrow> set order = named_sources (source_edges m))"
  using assms by (rule source_sorter.rebuild_spec)

theorem execution_order_witness:
  "\<exists>order. rebuild_execution_order list_topo_ops (demo_manager [(2, [1]), (1, []), (3, [1, 2])])
      = Some (Ok (), (demo_manager [(2, [1]), (1, []), (3, [1, 2])])\<lparr> mg_exec_order := order \<rparr>)
    \<and> distinct order \<and> order = [1, 2, 3]"
proof -
  let ?m = "demo_manager [(2, [1]), (1, []), (3, [1, 2])]"
  have "rebuild_execution_order list_topo_ops ?m = Some (Ok (), ?m\<lparr> mg_exec_order := [1, 2, 3] \<rparr>)"
    by (simp add: rebuild_execution_order_def demo_manager_def demo_entry_def demo_source_def source_edges_def
        add_source_def list_topo_ops_def lt_insert_def lt_add_def lt_pop_def drain.simps)
  with execution_order [OF list_sources.source_sorter_axioms, of ?m] show ?thesis by auto
qed

text \<open>
  A dependency cycle is missed when some other source is free of dependencies: of three sources, two of
  which depend on each other, the rebuild succeeds and the order holds the third only, so the two are
  never polled. Removing the third then panics.
\<close>

theorem cyclic_sources_left_out:
  "map_option fst (rebuild_execution_order list_topo_ops (demo_manager [(1, [2]), (2, [1]), (3, [])])) = Some (Ok ())
   \<and> map_option (\<lambda>r. mg_exec_order (snd r))
       (rebuild_execution_order list_topo_ops (demo_manager [(1, [2]), (2, [1]), (3, [])])) = Some [3]
   \<and> map_option fst (manager_remove list_topo_ops 3 (demo_manager [(1, [2]), (2, [1]), (3, [])]))
       = Some (Err (Panicked ''Should never fail''))"
  by (simp add: rebuild_execution_order_def manager_remove_def demo_manager_def demo_entry_def demo_source_def
      source_edges_def add_source_def list_topo_ops_def lt_insert_def lt_add_def lt_pop_def drain.simps)

text \<open>Adding a source that is refused, as a duplicate or because of a cycle, leaves the sources as they were.\<close>

theorem refused_source_leaves_sources:
  assumes "manager_add TO S E pr st m = Some (Err e, m')"
  shows "mg_sources m' = mg_sources m"
proof (cases "src_type E \<in> fst ` set (mg_sources m)")
  case True
  with assms show ?thesis by (simp add: manager_add_def)
next
  case False
  let ?m = "m\<lparr> mg_sources := mg_sources m @ [(src_type E, source_data_new S E pr st)] \<rparr>"
  have f: "filter (\<lambda>x. fst x \<noteq> src_type E) (mg_sources m) = mg_sources m"
    using False by (intro filter_True) (metis imageI)
  from assms False obtain r m1 where rb: "rebuild_execution_order TO ?m = Some (r, m1)"
    by (auto simp: manager_add_def split: option.splits)
  have s: "mg_sources m1 = mg_sources ?m" using rb by (rule rebuild_keeps_sources)
  have "r = Err CyclicSources"
    using assms False rb by (auto simp: manager_add_def rebuild_execution_order_def
        split: sum.splits event_loop_error.splits option.splits prod.splits if_splits)
  with assms False rb obtain q where "manager_remove TO (src_type E) m1 = Some (q, m')"
    by (auto simp: manager_add_def split: option.splits prod.splits sum.splits event_loop_error.splits)
  then have "mg_sources m' = filter (\<lambda>x. fst x \<noteq> src_type E) (mg_sources m1)"
    by (rule remove_drops_source)
  with s f show ?thesis by simp
qed

theorem refused_source_leaves_sources_witness:
  "\<exists>e m'. manager_add list_topo_ops list_slots (demo_source 1 [1]) demo_provider memory_event_store
     (demo_manager []) = Some (Err e, m') \<and> mg_sources m' = mg_sources (demo_manager [])"
proof -
  have "manager_add list_topo_ops list_slots (demo_source 1 [1]) demo_provider memory_event_store (demo_manager [])
    = Some (Err CyclicSources, demo_manager [])"
    by (simp add: rebuild_execution_order_def manager_add_def manager_remove_def demo_manager_def demo_source_def
        source_data_new_def source_edges_def add_source_def list_topo_ops_def lt_insert_def lt_add_def lt_pop_def
        drain.simps)
  with refused_source_leaves_sources [OF this] show ?thesis by blast
qed

text \<open>
  C13. A poll of a source with subscribers, over any store that keeps a position which neither the server nor
  the subscribers write. It fails without touching the position if the store cannot be read or holds
  none. Otherwise some events were fetched one after the other, each applied by all subscribers and then stored;
  the position is that of the last of them, and what ended the poll is: the batch is full and the
  last event does not announce more; the server has nothing newer; or the server, a subscriber or the store failed.
  The limit is only exceeded by events that the event before them announced.
\<close>

theorem poll_effect:
  assumes "stored_position st position" and "keeps_position position E subs pr" and "subs \<noteq> []"
    and "poll E subs st pr mx w = Some (r, w')"
  shows "(\<exists>e. r = Err (StoreFailed e)) \<and> position w' = position w
      \<and> (position w = None \<or> (\<exists>e w1. es_load st w = (Err e, w1)))
    \<or> (\<exists>i w1 evs w2. position w = Some i \<and> es_load st w = (Ok (Some i), w1) \<and> poll_run E subs st pr i w1 evs w2
        \<and> poll_ends E subs st pr (batch_full mx 0 True evs) (last (i # map raw_event_id evs)) w2 r w'
        \<and> position w' = Some (last (i # map raw_event_id evs))
        \<and> (\<forall>k < length evs. 0 < k \<longrightarrow> mx \<le> k \<longrightarrow> has_more (evs ! (k - 1))))"
proof -
  obtain x w1 where l: "es_load st w = (x, w1)" by (metis surj_pair)
  consider (fail) e where "x = Err e" | (none) "x = Ok None" | (some) i where "x = Ok (Some i)"
    by (metis obj_sumE option.exhaust)
  then show ?thesis
  proof cases
    case (fail e)
    with assms(3,4) l have "r = Err (StoreFailed e)" "w' = w1" by (auto simp: poll_def)
    with fail l stored_position.load_Err [OF assms(1)] show ?thesis by auto
  next
    case none
    with assms(3,4) l have "\<exists>e. r = Err (StoreFailed e)" "w' = w1" by (auto simp: poll_def)
    with none l stored_position.load_Ok [OF assms(1), of w None w1] show ?thesis by auto
  next
    case (some i)
    have p: "position w = Some i" "position w1 = Some i"
      using stored_position.load_Ok [OF assms(1)] l some by metis+
    from some assms(3,4) l have "poll_loop E subs st pr mx i 0 True w1 = Some (r, w')" by (simp add: poll_def)
    from poll_loop_result [OF this] obtain evs w2 where run: "poll_run E subs st pr i w1 evs w2"
      and ends: "poll_ends E subs st pr (batch_full mx 0 True evs) (last (i # map raw_event_id evs)) w2 r w'"
      and lim: "\<forall>k < length evs. mx \<le> k \<longrightarrow> (if k = 0 then True else has_more (evs ! (k - 1)))"
      unfolding poll_result_def by auto
    have "position w' = Some (last (i # map raw_event_id evs))"
      using stored_position.poll_ends_position [OF assms(1) ends assms(2)]
        stored_position.poll_run_position [OF assms(1) run p(2)] by simp
    moreover have "\<forall>k < length evs. 0 < k \<longrightarrow> mx \<le> k \<longrightarrow> has_more (evs ! (k - 1))" using lim by auto
    ultimately show ?thesis using p(1) l run ends unfolding some by blast
  qed
qed

theorem poll_effect_witness:
  "poll (demo_source 1 []) [demo_sub] memory_event_store demo_provider 2 demo_world
     = Some (Ok (), \<lparr> ms_id = Some ''c'', ms_poisoned = False \<rparr>, 3)
   \<and> (\<exists>i w1 evs w2. poll_run (demo_source 1 []) [demo_sub] memory_event_store demo_provider i w1 evs w2
        \<and> last (i # map raw_event_id evs) = ''c'')"
proof -
  have p: "poll (demo_source 1 []) [demo_sub] memory_event_store demo_provider 2 demo_world
     = Some (Ok (), \<lparr> ms_id = Some ''c'', ms_poisoned = False \<rparr>, 3)"
    by code_simp
  have "\<exists>i w1 evs w2. poll_run (demo_source 1 []) [demo_sub] memory_event_store demo_provider i w1 evs w2
        \<and> ms_id (fst (\<lparr> ms_id = Some ''c'', ms_poisoned = False \<rparr>, 3 :: nat)) = Some (last (i # map raw_event_id evs))"
    using poll_effect [OF memory.stored_position_axioms demo_keeps not_Cons_self2 p] by blast
  with p show ?thesis by (metis memory_store.select_convs(1) option.inject fst_conv)
qed

text \<open>
  C14. Polling all sources returns, whatever the subscribers and stores do, if every server announces
  finitely many more events for the group of an event.
\<close>

theorem manager_poll_returns:
  assumes "\<And>i sd. map_of (mg_sources m) i = Some sd \<Longrightarrow> \<exists>rank. finite_groups rank (sd_provider sd)"
  shows "manager_poll S m w \<noteq> None"
proof -
  have "poll_source S m i v \<noteq> None" for i v
  proof (cases "map_of (mg_sources m) i")
    case (Some sd)
    from assms [OF this] obtain rank where "finite_groups rank (sd_provider sd)" by blast
    from poll_returns [OF this] Some show ?thesis by (simp add: poll_source_def del: not_None_eq)
  qed (simp add: poll_source_def)
  then show ?thesis unfolding manager_poll_def by (rule for_sources_returns)
qed

theorem manager_poll_returns_witness:
  "manager_poll list_slots (demo_manager [(1, []), (2, [1])]) demo_world \<noteq> None"
proof (rule manager_poll_returns)
  fix i sd
  assume "map_of (mg_sources (demo_manager [(1, []), (2, [1])])) i = Some sd"
  then have "sd_provider sd = demo_provider"
    by (auto simp: demo_manager_def demo_entry_def split: if_splits)
  with demo_finite show "\<exists>rank. finite_groups rank (sd_provider sd)" by auto
qed

text \<open>
  A subscriber is called at least once and at most three times for an event, and it is given up on only
  after the third call or on an error that is not to be retried.
\<close>

theorem subscriber_retries:
  assumes "deliver (counted call) 0 cache (k, w) = Some (r, cache', k', w')"
  shows "k < k' \<and> k' \<le> k + 3 \<and> (\<forall>e. r = Err e \<longrightarrow> k' = k + 3 \<or> \<not> se_retryable e)"
  using deliver_counted [OF _ assms] by (simp add: max_error_retries_def)

theorem subscriber_retries_witness:
  "\<exists>k'. deliver (counted (\<lambda>c w. (Some \<lparr> se_network_failure = True, se_retryable = True \<rparr>, c, w))) 0 () (0, ())
     = Some (Err \<lparr> se_network_failure = True, se_retryable = True \<rparr>, (), k', ()) \<and> k' \<le> 0 + 3"
proof -
  have d: "deliver (counted (\<lambda>c w. (Some \<lparr> se_network_failure = True, se_retryable = True \<rparr>, c, w))) 0 () (0, ())
     = Some (Err \<lparr> se_network_failure = True, se_retryable = True \<rparr>, (), 3, ())"
    by code_simp
  from subscriber_retries [OF d] d show ?thesis by blast
qed

text \<open>
  The subscribers of a source, for any slot map that keeps the documented laws of the crate: after any
  sequence of adding and removing, no two subscribers have the same name, and a further one is refused
  exactly when its name is taken.
\<close>

inductive subscriber_steps ::
    "('m, ('w, 'v, 'c) event_subscriber) slot_ops \<Rightarrow> 'm subscriber_list \<Rightarrow> bool" for S where
  start: "subscriber_steps S (subscribers_default S)"
| added: "subscriber_steps S l \<Longrightarrow> subscriber_steps S (snd (subscribers_add S s l))"
| removed: "subscriber_steps S l \<Longrightarrow> subscriber_steps S (snd (subscribers_remove S key l))"

lemma subscriber_steps_names_ok:
  assumes "subscriber_slots S slots slots_ok" and "subscriber_steps S l"
  shows "subscriber_slots.names_ok slots slots_ok l"
  using assms(2)
proof (induction rule: subscriber_steps.induct)
  case start
  then show ?case by (rule subscriber_slots.names_ok_default [OF assms(1)])
next
  case (added l s)
  then show ?case using subscriber_slots.names_ok_add [OF assms(1)] by (metis surjective_pairing)
next
  case (removed l key)
  then show ?case using subscriber_slots.names_ok_remove [OF assms(1)] by (metis surjective_pairing)
qed

theorem subscriber_names_unique:
  assumes "subscriber_slots S slots slots_ok" and "subscriber_steps S l"
  shows "distinct (map sub_name (sl_values S (sbl_subscribers l)))
    \<and> (fst (subscribers_add S s l) = None \<longleftrightarrow> (\<exists>t \<in> set (sl_values S (sbl_subscribers l)). sub_name t = sub_name s))"
  using subscriber_slots.names_ok_distinct [OF assms(1)] subscriber_slots.add_refused_iff [OF assms(1)]
    subscriber_steps_names_ok [OF assms] by blast

theorem subscriber_names_unique_witness:
  "fst (subscribers_add list_slots demo_sub (snd (subscribers_add list_slots demo_sub (subscribers_default list_slots)))) = None"
proof -
  have "subscriber_steps list_slots (snd (subscribers_add list_slots demo_sub (subscribers_default list_slots)))"
    by (intro subscriber_steps.intros)
  from subscriber_names_unique [OF list_slots.subscriber_slots_axioms this, of demo_sub] show ?thesis
    by (simp add: subscribers_add_def subscribers_default_def list_slots_def)
qed

text \<open>
  Initialising a source: a position that is stored already is kept, and the server is not asked; with none, the
  position becomes the latest event of the server; and success leaves a position.
\<close>

theorem initialize_effect:
  assumes "stored_position st position" and "\<And>w. position (snd (ep_latest pr w)) = position w"
    and "initialize st pr w = (r, w')"
  shows "(position w \<noteq> None \<longrightarrow> position w' = position w \<and> initialize st pr' w = (r, w'))
    \<and> (position w = None \<longrightarrow> r = Ok () \<longrightarrow>
         (\<exists>w1 i w2. es_load st w = (Ok None, w1) \<and> ep_latest pr w1 = (Ok i, w2) \<and> position w' = Some i))
    \<and> (r \<noteq> Ok () \<longrightarrow> position w' = position w)"
proof -
  obtain x w1 where l: "es_load st w = (x, w1)" by (metis surj_pair)
  show ?thesis
  proof (cases x)
    case (Inl e)
    with assms(3) l stored_position.load_Err [OF assms(1)] show ?thesis by (auto simp: initialize_def)
  next
    case (Inr p)
    with l stored_position.load_Ok [OF assms(1)] have p: "p = position w" "position w1 = position w" by metis+
    show ?thesis
    proof (cases p)
      case (Some i)
      with assms(3) l Inr have "r = Ok ()" "w' = w1" "initialize st pr' w = (Ok (), w1)" by (auto simp: initialize_def)
      with Some p show ?thesis by simp
    next
      case None
      obtain y w2 where y: "ep_latest pr w1 = (y, w2)" by (metis surj_pair)
      with assms(2) [of w1] have p2: "position w2 = position w1" by simp
      show ?thesis
      proof (cases y)
        case Inl': (Inl e)
        with assms(3) l Inr None y p p2 show ?thesis by (auto simp: initialize_def)
      next
        case i: (Inr i)
        obtain z w3 where z: "es_store st i w2 = (z, w3)" by (metis surj_pair)
        show ?thesis
        proof (cases z)
          case Inl'': (Inl e)
          with assms(3) l Inr None y i z p p2 stored_position.store_Err [OF assms(1)] show ?thesis
            by (auto simp: initialize_def)
        next
          case u: (Inr u)
          with assms(3) l Inr None y i z p p2 stored_position.store_Ok [OF assms(1), of i w2 w3] show ?thesis
            by (auto simp: initialize_def)
        qed
      qed
    qed
  qed
qed

theorem initialize_effect_witness:
  "initialize memory_event_store demo_provider (\<lparr> ms_id = None, ms_poisoned = False \<rparr>, 0)
     = (Ok (), \<lparr> ms_id = Some '''', ms_poisoned = False \<rparr>, 0)
   \<and> (\<exists>w1 i w2. es_load memory_event_store (\<lparr> ms_id = None, ms_poisoned = False \<rparr>, 0) = (Ok None, w1)
        \<and> ep_latest demo_provider w1 = (Ok i, w2) \<and> i = [])"
proof -
  have i: "initialize memory_event_store demo_provider (\<lparr> ms_id = None, ms_poisoned = False \<rparr>, 0)
     = (Ok (), \<lparr> ms_id = Some '''', ms_poisoned = False \<rparr>, 0)"
    by code_simp
  have "\<And>w. ms_id (fst (snd (ep_latest demo_provider w))) = ms_id (fst w)" by (simp add: demo_provider_def)
  from initialize_effect [OF memory.stored_position_axioms this i] i show ?thesis by fastforce
qed

end
