(* ===== verification/Send_Preferences.thy ===== *)
theory Send_Preferences
  imports Prelude
begin

text \<open>
  The keys and preferences of \<open>crypto-inbox\<close>: how a message to a recipient is encrypted and signed
  (\<open>keys/encryption.rs\<close>, the package types of \<open>message/packages.rs\<close>), which keys verify the
  signature of a received message (\<open>keys/verification.rs\<close>), and the verification of a body
  (\<open>message/verify.rs\<close>). Keys and fingerprints are type variables; the functions of
  \<open>proton_crypto_account\<close> and of the PGP provider are parameters.
\<close>

section \<open>Package types\<close>

datatype email_mime_type = EmailHtml | EmailText

datatype package_mime_type = MimeHtml | MimeText | MimeMultipart

definition mime_display :: "package_mime_type \<Rightarrow> string" where
  "mime_display m = (case m of MimeText \<Rightarrow> ''text/plain'' | MimeHtml \<Rightarrow> ''text/html'' | MimeMultipart \<Rightarrow> ''multipart/mixed'')"

definition mime_from_str :: "string \<Rightarrow> string + package_mime_type" where
  "mime_from_str s =
     (if s = ''text/plain'' then Ok MimeText
      else if s = ''text/html'' then Ok MimeHtml
      else if s = ''multipart/mixed'' then Ok MimeMultipart
      else Err ''Unknown MIME type'')"

definition mime_from_email :: "email_mime_type \<Rightarrow> package_mime_type" where
  "mime_from_email m = (case m of EmailHtml \<Rightarrow> MimeHtml | EmailText \<Rightarrow> MimeText)"

record composer_preference =
  cp_encrypt_to_outside :: bool
  cp_body_mime_type :: email_mime_type

definition composer_preference_new :: "email_mime_type \<Rightarrow> composer_preference" where
  "composer_preference_new m = \<lparr> cp_encrypt_to_outside = False, cp_body_mime_type = m \<rparr>"

datatype package_crypto_type =
  ProtonMail | EncryptedOutside | Cleartext | PgpInline | PgpMime | ClearMime

definition crypto_type_display :: "package_crypto_type \<Rightarrow> string" where
  "crypto_type_display t = (case t of
      ProtonMail \<Rightarrow> ''proton mail'' | EncryptedOutside \<Rightarrow> ''encrypt to outside'' | Cleartext \<Rightarrow> ''cleartext''
    | PgpInline \<Rightarrow> ''pgp inline'' | PgpMime \<Rightarrow> ''pgp mime'' | ClearMime \<Rightarrow> ''pgp clear mime'')"

definition type_value :: "package_crypto_type \<Rightarrow> u8" where
  "type_value t = (case t of
      ProtonMail \<Rightarrow> 1 | EncryptedOutside \<Rightarrow> 2 | Cleartext \<Rightarrow> 4 | PgpInline \<Rightarrow> 8 | PgpMime \<Rightarrow> 16 | ClearMime \<Rightarrow> 32)"

definition enum_of :: "u8 \<Rightarrow> package_crypto_type option" where
  "enum_of v =
     (if v = 1 then Some ProtonMail else if v = 2 then Some EncryptedOutside else if v = 4 then Some Cleartext
      else if v = 8 then Some PgpInline else if v = 16 then Some PgpMime else if v = 32 then Some ClearMime
      else None)"

datatype crypto_package_type_error = ParseFailed u8

definition crypto_type_try_from :: "u8 \<Rightarrow> crypto_package_type_error + package_crypto_type" where
  "crypto_type_try_from v = (case enum_of v of None \<Rightarrow> Err (ParseFailed v) | Some t \<Rightarrow> Ok t)"

datatype pgp_scheme = SchemeMime | SchemeInline

definition from_scheme :: "pgp_scheme \<Rightarrow> bool \<Rightarrow> bool \<Rightarrow> bool \<Rightarrow> package_crypto_type" where
  "from_scheme scheme encrypt sign eo =
     (if eo then EncryptedOutside
      else case scheme of
        SchemeMime \<Rightarrow> if \<not> encrypt \<and> sign then ClearMime else if encrypt then PgpMime else Cleartext
      | SchemeInline \<Rightarrow> if encrypt then PgpInline else Cleartext)"

section \<open>Send preferences\<close>

text \<open>
  The fields of \<open>EncryptionPreferences\<close> that are read; \<open>ep_internal\<close> is the test
  \<open>contact_type == ContactType::Internal\<close>.
\<close>

record ('pub, 'kt) encryption_preferences =
  ep_encrypt :: bool
  ep_sign :: bool
  ep_pgp_scheme :: pgp_scheme
  ep_mime_type :: "email_mime_type option"
  ep_selected_key :: "'pub option"
  ep_is_selected_key_pinned :: bool
  ep_encryption_disabled_mail :: bool
  ep_internal :: bool
  ep_key_transparency :: 'kt

record ('pub, 'kt) send_preferences =
  sp_encrypt :: bool
  sp_sign :: bool
  sp_pgp_scheme :: package_crypto_type
  sp_mime_type :: package_mime_type
  sp_selected_key :: "'pub option"
  sp_is_selected_key_pinned :: bool
  sp_encryption_disabled :: bool
  sp_key_transparency :: 'kt

definition from_preferences ::
    "('pub, 'kt) encryption_preferences \<Rightarrow> composer_preference \<Rightarrow> ('pub, 'kt) send_preferences" where
  "from_preferences ep cp =
     (let disabled = ep_encryption_disabled_mail ep;
          encrypt = (if disabled then False else ep_encrypt ep \<or> cp_encrypt_to_outside cp);
          sign = (if disabled then False else cp_encrypt_to_outside cp \<or> ep_sign ep);
          scheme =
            (if ep_internal ep \<and> \<not> disabled then ProtonMail
             else let s = from_scheme (ep_pgp_scheme ep) encrypt sign (cp_encrypt_to_outside cp)
                  in if s = PgpInline then PgpMime else s);
          mime = (case scheme of
              PgpInline \<Rightarrow> MimeText
            | PgpMime \<Rightarrow> MimeMultipart
            | ClearMime \<Rightarrow> MimeMultipart
            | EncryptedOutside \<Rightarrow> mime_from_email (cp_body_mime_type cp)
            | _ \<Rightarrow> (case cp_body_mime_type cp of
                  EmailText \<Rightarrow> mime_from_email (cp_body_mime_type cp)
                | EmailHtml \<Rightarrow> mime_from_email (case ep_mime_type ep of
                      None \<Rightarrow> cp_body_mime_type cp | Some m \<Rightarrow> m)))
      in \<lparr> sp_encrypt = encrypt, sp_sign = sign, sp_pgp_scheme = scheme, sp_mime_type = mime,
           sp_selected_key = ep_selected_key ep, sp_is_selected_key_pinned = ep_is_selected_key_pinned ep,
           sp_encryption_disabled = disabled, sp_key_transparency = ep_key_transparency ep \<rparr>)"

datatype 'e send_preferences_error = EncryptionPreferencesFailed 'e

definition send_preferences_new ::
    "('api \<Rightarrow> 'pinned option \<Rightarrow> 'time \<Rightarrow> bool \<Rightarrow> 'model) \<Rightarrow> ('model \<Rightarrow> 'settings \<Rightarrow> 'e + ('pub, 'kt) encryption_preferences)
     \<Rightarrow> 'api \<Rightarrow> 'pinned option \<Rightarrow> 'time \<Rightarrow> 'settings \<Rightarrow> composer_preference
     \<Rightarrow> 'e send_preferences_error + ('pub, 'kt) send_preferences" where
  "send_preferences_new from_public_keys_at_time from_key_model_and_settings api_keys pinned_keys time settings cp =
     (let recipient_key_model = from_public_keys_at_time api_keys pinned_keys time True
      in case from_key_model_and_settings recipient_key_model settings of
           Inl e \<Rightarrow> Err (EncryptionPreferencesFailed e)
         | Inr ep \<Rightarrow> Ok (from_preferences ep cp))"

definition send_preferences_new_for_self ::
    "(bool \<Rightarrow> 'keys \<Rightarrow> 'settings \<Rightarrow> 'time \<Rightarrow> 'e + ('pub, 'kt) encryption_preferences)
     \<Rightarrow> bool \<Rightarrow> 'keys \<Rightarrow> 'time \<Rightarrow> 'settings \<Rightarrow> composer_preference
     \<Rightarrow> 'e send_preferences_error + ('pub, 'kt) send_preferences" where
  "send_preferences_new_for_self from_unlocked is_address_external address_keys time settings cp =
     (case from_unlocked is_address_external address_keys settings time of
        Inl e \<Rightarrow> Err (EncryptionPreferencesFailed e)
      | Inr ep \<Rightarrow> Ok (from_preferences ep cp))"

definition send_preferences_from ::
    "email_mime_type \<Rightarrow> ('pub, 'kt) encryption_preferences \<Rightarrow> ('pub, 'kt) send_preferences" where
  "send_preferences_from default_mime ep =
     from_preferences ep \<lparr> cp_encrypt_to_outside = False, cp_body_mime_type = default_mime \<rparr>"

section \<open>Verification preferences\<close>

datatype key_ownership = SelfOwn | OtherOwn

record ('pub, 'fp, 'kt) verification_preferences =
  vp_ownership :: key_ownership
  vp_pinned_keys :: "'pub list"
  vp_api_keys :: "'pub list"
  vp_compromised :: "'fp set"
  vp_key_transparency :: 'kt

text \<open>An address key as the account crate hands it out: whether its flags mark it compromised, and the key.\<close>

record 'pub flagged_key =
  fk_compromised :: bool
  fk_public :: 'pub

definition verification_default :: "'kt \<Rightarrow> ('pub, 'fp, 'kt) verification_preferences" where
  "verification_default kt_unverified =
     \<lparr> vp_ownership = OtherOwn, vp_pinned_keys = [], vp_api_keys = [], vp_compromised = {},
       vp_key_transparency = kt_unverified \<rparr>"

text \<open>The closure that both constructors filter with: it keeps a key or records its fingerprint.\<close>

fun active_keys :: "('pub \<Rightarrow> 'fp) \<Rightarrow> 'pub flagged_key list \<Rightarrow> 'fp set \<Rightarrow> 'pub list \<times> 'fp set" where
  "active_keys fingerprint [] bad = ([], bad)"
| "active_keys fingerprint (k # ks) bad =
     (if fk_compromised k then active_keys fingerprint ks (insert (fingerprint (fk_public k)) bad)
      else case active_keys fingerprint ks bad of (act, bad') \<Rightarrow> (fk_public k # act, bad'))"

definition from_unlocked_address_keys ::
    "('pub \<Rightarrow> 'fp) \<Rightarrow> 'kt \<Rightarrow> 'pub flagged_key list \<Rightarrow> ('pub, 'fp, 'kt) verification_preferences" where
  "from_unlocked_address_keys fingerprint kt_verified address_keys =
     (case active_keys fingerprint address_keys {} of (act, bad) \<Rightarrow>
        \<lparr> vp_ownership = SelfOwn, vp_pinned_keys = [], vp_api_keys = act, vp_compromised = bad,
          vp_key_transparency = kt_verified \<rparr>)"

text \<open>\<open>into_inbox_keys\<close> of the account crate gives the keys and the result of key transparency.\<close>

definition from_public_keys ::
    "('pub \<Rightarrow> 'fp) \<Rightarrow> ('api \<Rightarrow> bool \<Rightarrow> 'pub flagged_key list \<times> 'kt) \<Rightarrow> 'api \<Rightarrow> 'pub list option
     \<Rightarrow> ('pub, 'fp, 'kt) verification_preferences" where
  "from_public_keys fingerprint into_inbox_keys api_keys vcard_keys =
     (case into_inbox_keys api_keys True of (public_keys, kt) \<Rightarrow>
      case active_keys fingerprint public_keys {} of (act, bad) \<Rightarrow>
        \<lparr> vp_ownership = OtherOwn,
          vp_pinned_keys = (case vcard_keys of None \<Rightarrow> [] | Some keys \<Rightarrow> filter (\<lambda>k. fingerprint k \<notin> bad) keys),
          vp_api_keys = act, vp_compromised = bad, vp_key_transparency = kt \<rparr>)"

definition uses_pinned_keys :: "('pub, 'fp, 'kt) verification_preferences \<Rightarrow> bool" where
  "uses_pinned_keys p = (vp_pinned_keys p \<noteq> [])"

definition signature_verification_keys :: "('pub, 'fp, 'kt) verification_preferences \<Rightarrow> 'pub list" where
  "signature_verification_keys p = (if uses_pinned_keys p then vp_pinned_keys p else vp_api_keys p)"

definition is_compromised :: "('pub, 'fp, 'kt) verification_preferences \<Rightarrow> 'fp \<Rightarrow> bool" where
  "is_compromised p fp = (fp \<in> vp_compromised p)"

definition self_owned_keys :: "('pub, 'fp, 'kt) verification_preferences \<Rightarrow> bool" where
  "self_owned_keys p = (case vp_ownership p of SelfOwn \<Rightarrow> True | OtherOwn \<Rightarrow> False)"

section \<open>Verifying a body\<close>

datatype verification_error =
  NotSignedError | NoVerifierError | FailedError | BadContextError | RuntimeFailure

type_synonym verification_result = "verification_error + unit"

datatype data_encoding = EncodingBytes | EncodingArmor

text \<open>\<open>verify_detached\<close> of the provider, given the keys, the data, the signatures and their encoding.\<close>

type_synonym 'pub verifier = "'pub list \<Rightarrow> bytes \<Rightarrow> bytes \<Rightarrow> data_encoding \<Rightarrow> verification_result"

text \<open>A signature found in the MIME structure: what it covers (by the MIME crate), and its armoured text.\<close>

record mime_signature =
  mv_data_to_verify :: "bytes \<Rightarrow> bytes"
  mv_signature :: bytes

definition verify_mime_signature ::
    "'pub verifier \<Rightarrow> (bytes \<Rightarrow> bytes option) \<Rightarrow> 'pub list \<Rightarrow> bytes \<Rightarrow> mime_signature \<Rightarrow> verification_result" where
  "verify_mime_signature verify_detached canonicalize keys data v =
     (let d = mv_data_to_verify v data
      in case canonicalize d of
           Some sanitized \<Rightarrow> verify_detached keys sanitized (mv_signature v) EncodingArmor
         | None \<Rightarrow> verify_detached keys d (mv_signature v) EncodingArmor)"

definition verify_mime ::
    "'pub verifier \<Rightarrow> (bytes \<Rightarrow> bytes option) \<Rightarrow> 'pub list \<Rightarrow> bytes \<Rightarrow> bytes \<Rightarrow> mime_signature list
     \<Rightarrow> verification_result" where
  "verify_mime verify_detached canonicalize keys data signatures mime_signatures =
     (if keys = [] then Err NoVerifierError
      else if signatures \<noteq> [] then verify_detached keys data signatures EncodingBytes
      else if mime_signatures = [] then Err NotSignedError
      else let results = map (verify_mime_signature verify_detached canonicalize keys data) mime_signatures
           in if list_ex is_ok results
              then (case find is_ok results of Some r \<Rightarrow> r | None \<Rightarrow> Err NotSignedError)
              else (case results of r # _ \<Rightarrow> r | [] \<Rightarrow> Err NotSignedError))"

definition verify_normal :: "'pub verifier \<Rightarrow> 'pub list \<Rightarrow> bytes \<Rightarrow> bytes \<Rightarrow> verification_result" where
  "verify_normal verify_detached keys data signatures =
     (if signatures = [] then Err NotSignedError
      else if keys = [] then Err NoVerifierError
      else verify_detached keys data signatures EncodingBytes)"

section \<open>Facts\<close>

lemma active_keys_spec:
  "active_keys fingerprint ks bad
     = (map fk_public (filter (\<lambda>k. \<not> fk_compromised k) ks),
        bad \<union> (\<lambda>k. fingerprint (fk_public k)) ` set (filter fk_compromised ks))"
  by (induction ks arbitrary: bad) auto

text \<open>The package type of the result, in one place.\<close>

lemma from_preferences_simps:
  "sp_encrypt (from_preferences ep cp)
     = (\<not> ep_encryption_disabled_mail ep \<and> (ep_encrypt ep \<or> cp_encrypt_to_outside cp))"
  "sp_sign (from_preferences ep cp)
     = (\<not> ep_encryption_disabled_mail ep \<and> (ep_sign ep \<or> cp_encrypt_to_outside cp))"
  "sp_is_selected_key_pinned (from_preferences ep cp) = ep_is_selected_key_pinned ep"
  "sp_encryption_disabled (from_preferences ep cp) = ep_encryption_disabled_mail ep"
  "sp_pgp_scheme (from_preferences ep cp) =
     (if ep_internal ep \<and> \<not> ep_encryption_disabled_mail ep then ProtonMail
      else if cp_encrypt_to_outside cp then EncryptedOutside
      else if ep_encryption_disabled_mail ep then Cleartext
      else if ep_encrypt ep then PgpMime
      else if ep_sign ep \<and> ep_pgp_scheme ep = SchemeMime then ClearMime
      else Cleartext)"
  by (auto simp: from_preferences_def Let_def from_scheme_def split: pgp_scheme.splits)

end
