(* ===== verification/Lock_Icon.thy ===== *)
theory Lock_Icon
  imports Send_Preferences
begin

text \<open>
  The lock shown next to a message (\<open>crypto-inbox/src/lock_icon.rs\<close>) and the code that builds it from
  the headers of a message (\<open>PrivacyLockBuilder\<close> of \<open>mail-common/src/mailbox/decrypted_message.rs\<close>).

  Text is a list of characters with code points below 256. On these, Rust's \<open>to_lowercase\<close> shifts
  \<open>A-Z\<close> and the Latin-1 capitals, and \<open>trim\<close> removes the code points 9 to 13, 32, 133 and 160.
\<close>

section \<open>Locks\<close>

datatype lock_color = Black | Green | Blue

datatype lock_icon =
    ClosedLock | ClosedLockWithTick | ClosedLockWithPen | ClosedLockWarning
  | OpenLockWithPen | OpenLockWithTick | OpenLockWarning

datatype lock_tooltip =
    SendE2E | SendE2EExternal | SendE2EEo | SendE2EVerifiedRecipient | SendSignOnly
  | SendZeroAccessEncryptionDisabled
  | ZeroAccess | ZeroAccessSentByProton
  | ReceiveE2E | ReceiveE2EExternal | ReceiveE2EVerifiedRecipient | ReceiveE2EVerificationFailed
  | ReceiveE2EVerificationFailedNoSignature | ReceiveSignOnlyVerifiedRecipient
  | ReceiveSignOnlyVerificationFailed
  | SentE2EVerifiedRecipients | SentProtonVerifiedRecipients | SentE2E
  | SentRecipientE2EVerifiedRecipient | SentRecipientProtonMailVerifiedRecipient | SentRecipientE2E
  | SentRecipientProtonMail | SentRecipientE2EPgpVerifiedRecipient
  | SentRecipientProtonMailPgpVerifiedRecipient | SentRecipientE2EPgpRecipient
  | SentRecipientProtonMailPgpRecipient | SentRecipientPGPSigned

definition tooltip_display :: "lock_tooltip \<Rightarrow> string" where
  "tooltip_display t = (case t of
      SendE2E \<Rightarrow> ''End-to-end encrypted''
    | SentRecipientE2E \<Rightarrow> ''End-to-end encrypted''
    | SendE2EExternal \<Rightarrow> ''End-to-end encrypted''
    | SendE2EEo \<Rightarrow> ''End-to-end encrypted''
    | SendE2EVerifiedRecipient \<Rightarrow> ''End-to-end encrypted to verified recipient''
    | SentRecipientE2EVerifiedRecipient \<Rightarrow> ''End-to-end encrypted to verified recipient''
    | SendZeroAccessEncryptionDisabled \<Rightarrow>
        ''Zero-access encrypted. Recipient has disabled end-to-end encryption on their account.''
    | SendSignOnly \<Rightarrow> ''PGP-signed''
    | SentRecipientPGPSigned \<Rightarrow> ''PGP-signed''
    | ReceiveE2E \<Rightarrow> ''End-to-end encrypted message''
    | ReceiveE2EExternal \<Rightarrow> ''End-to-end encrypted message''
    | ReceiveE2EVerifiedRecipient \<Rightarrow> ''End-to-end encrypted message from verified sender''
    | ReceiveE2EVerificationFailed \<Rightarrow> ''Sender verification failed''
    | ReceiveE2EVerificationFailedNoSignature \<Rightarrow> ''Sender could not be verified: Message not signed''
    | ReceiveSignOnlyVerificationFailed \<Rightarrow> ''PGP-signed message. Sender verification failed''
    | ZeroAccessSentByProton \<Rightarrow> ''Sent by ProtonMail with zero-access encryption''
    | ReceiveSignOnlyVerifiedRecipient \<Rightarrow> ''PGP-signed message from verified sender''
    | ZeroAccess \<Rightarrow> ''Stored with zero-access encryption''
    | SentE2EVerifiedRecipients \<Rightarrow> ''Sent by you with end-to-end encryption to verified recipients''
    | SentProtonVerifiedRecipients \<Rightarrow> ''Sent by ProtonMail with zero-access encryption to verified recipients''
    | SentE2E \<Rightarrow> ''Sent by you with end-to-end encryption''
    | SentRecipientProtonMailVerifiedRecipient \<Rightarrow> ''Encrypted by ProtonMail to verified recipient''
    | SentRecipientProtonMail \<Rightarrow> ''Encrypted by ProtonMail''
    | SentRecipientE2EPgpVerifiedRecipient \<Rightarrow> ''End-to-end encrypted to verified PGP recipient''
    | SentRecipientProtonMailPgpVerifiedRecipient \<Rightarrow> ''Encrypted by ProtonMail to verified PGP recipient''
    | SentRecipientE2EPgpRecipient \<Rightarrow> ''End-to-end encrypted to PGP recipient''
    | SentRecipientProtonMailPgpRecipient \<Rightarrow> ''Encrypted by ProtonMail to PGP recipient'')"

record ui_lock =
  lk_icon :: lock_icon
  lk_color :: lock_color
  lk_tooltip :: lock_tooltip

definition lock :: "lock_icon \<Rightarrow> lock_color \<Rightarrow> lock_tooltip \<Rightarrow> ui_lock" where
  "lock i c t = \<lparr> lk_icon = i, lk_color = c, lk_tooltip = t \<rparr>"

definition default_incoming :: ui_lock where
  "default_incoming = lock ClosedLock Black ZeroAccess"

definition default_aggregated_sent :: ui_lock where
  "default_aggregated_sent = lock ClosedLock Black ZeroAccess"

datatype mail_verification_status =
  NotVerified | NotSigned | SignedAndValid | SignedAndInvalid | SignedNoPublicKey

definition status_from_result :: "verification_result \<Rightarrow> mail_verification_status" where
  "status_from_result r = (case r of
      Inr _ \<Rightarrow> SignedAndValid
    | Inl e \<Rightarrow> (case e of
          NotSignedError \<Rightarrow> NotSigned
        | NoVerifierError \<Rightarrow> SignedNoPublicKey
        | FailedError \<Rightarrow> SignedAndInvalid
        | BadContextError \<Rightarrow> SignedAndInvalid
        | RuntimeFailure \<Rightarrow> NotVerified))"

section \<open>Text\<close>

definition lower_char :: "char \<Rightarrow> char" where
  "lower_char c = (let n = of_char c :: nat
     in if 65 \<le> n \<and> n \<le> 90 \<or> 192 \<le> n \<and> n \<le> 222 \<and> n \<noteq> 215 then char_of (n + 32) else c)"

definition is_whitespace :: "char \<Rightarrow> bool" where
  "is_whitespace c = (let n = of_char c :: nat in 9 \<le> n \<and> n \<le> 13 \<or> n = 32 \<or> n = 133 \<or> n = 160)"

definition to_lowercase :: "string \<Rightarrow> string" where
  "to_lowercase s = map lower_char s"

definition trim :: "string \<Rightarrow> string" where
  "trim s = rev (dropWhile is_whitespace (rev (dropWhile is_whitespace s)))"

fun split_on :: "char \<Rightarrow> string \<Rightarrow> string list" where
  "split_on c [] = [[]]"
| "split_on c (x # xs) =
     (if x = c then [] # split_on c xs
      else case split_on c xs of [] \<Rightarrow> [[x]] | p # ps \<Rightarrow> (x # p) # ps)"

definition rsplit_once :: "char \<Rightarrow> string \<Rightarrow> (string \<times> string) option" where
  "rsplit_once c s =
     (if c \<in> set s
      then Some (rev (tl (dropWhile (\<lambda>x. x \<noteq> c) (rev s))), rev (takeWhile (\<lambda>x. x \<noteq> c) (rev s)))
      else None)"

text \<open>\<open>collect\<close> into a \<open>Result\<close>: the first error, or all values.\<close>

fun collect_results :: "('e + 'a) list \<Rightarrow> 'e + 'a list" where
  "collect_results [] = Ok []"
| "collect_results (Inl e # rs) = Err e"
| "collect_results (Inr x # rs) = (case collect_results rs of Inl e \<Rightarrow> Err e | Inr xs \<Rightarrow> Ok (x # xs))"

definition parse_and_map_header :: "(string \<Rightarrow> string + 'a) \<Rightarrow> string \<Rightarrow> string + 'a list" where
  "parse_and_map_header from_str value =
     collect_results
       (map (\<lambda>item. case rsplit_once (CHR ''='') item of
                None \<Rightarrow> Err ''Invalid format''
              | Some (_, v) \<Rightarrow> from_str v)
         (filter (\<lambda>t. t \<noteq> []) (map trim (split_on (CHR '';'') value))))"

section \<open>Headers\<close>

datatype xpm_origin = OriginNone | OriginInternal | OriginExternal | OriginImport

definition origin_from_str :: "string \<Rightarrow> string + xpm_origin" where
  "origin_from_str s = (let t = trim (to_lowercase s) in
     if t = ''internal'' then Ok OriginInternal
     else if t = ''external'' then Ok OriginExternal
     else if t = ''import'' then Ok OriginImport
     else if t = ''none'' then Ok OriginNone
     else Err ''Invalid origin'')"

datatype xpm_content_encryption = ContentNone | ContentEndToEnd | ContentOnDelivery | ContentOnCompose

definition content_encryption_from_str :: "string \<Rightarrow> string + xpm_content_encryption" where
  "content_encryption_from_str s = (let t = trim (to_lowercase s) in
     if t = ''end-to-end'' then Ok ContentEndToEnd
     else if t = ''on-delivery'' then Ok ContentOnDelivery
     else if t = ''on-compose'' then Ok ContentOnCompose
     else if t = ''none'' then Ok ContentNone
     else Err ''Invalid content encryption'')"

definition content_encryption_from :: "string \<Rightarrow> xpm_content_encryption" where
  "content_encryption_from s = (case content_encryption_from_str s of Inl _ \<Rightarrow> ContentNone | Inr x \<Rightarrow> x)"

datatype xpm_recipient_authentication = AuthNone | AuthPgpInline | AuthPgpMime | AuthPgpEo | AuthPgpPm

definition authentication_from_str :: "string \<Rightarrow> string + xpm_recipient_authentication" where
  "authentication_from_str s = (let t = trim (to_lowercase s) in
     if t = ''pgp-inline'' then Ok AuthPgpInline
     else if t = ''pgp-mime'' then Ok AuthPgpMime
     else if t = ''pgp-eo'' then Ok AuthPgpEo
     else if t = ''pgp-pm'' then Ok AuthPgpPm
     else if t = ''none'' then Ok AuthNone
     else Err ''Invalid recipient authentication'')"

definition authentication_from :: "string \<Rightarrow> xpm_recipient_authentication" where
  "authentication_from s = (case authentication_from_str s of Inl _ \<Rightarrow> AuthNone | Inr x \<Rightarrow> x)"

definition authentication_from_header :: "string \<Rightarrow> string + xpm_recipient_authentication list" where
  "authentication_from_header value = parse_and_map_header authentication_from_str value"

datatype xpm_recipient_encryption =
    EncNone | EncPgpInline | EncPgpInlinePinned | EncPgpMime | EncPgpMimePinned | EncPgpEo | EncPgpPm | EncPgpPmPinned

definition encryption_from_str :: "string \<Rightarrow> string + xpm_recipient_encryption" where
  "encryption_from_str s = (let t = trim (to_lowercase s) in
     if t = ''pgp-inline'' then Ok EncPgpInline
     else if t = ''pgp-inline-pinned'' then Ok EncPgpInlinePinned
     else if t = ''pgp-mime'' then Ok EncPgpMime
     else if t = ''pgp-mime-pinned'' then Ok EncPgpMimePinned
     else if t = ''pgp-eo'' then Ok EncPgpEo
     else if t = ''pgp-pm'' then Ok EncPgpPm
     else if t = ''pgp-pm-pinned'' then Ok EncPgpPmPinned
     else if t = ''none'' then Ok EncNone
     else Err ''Invalid recipient encryption'')"

definition encryption_from_header :: "string \<Rightarrow> string + xpm_recipient_encryption list" where
  "encryption_from_header value = parse_and_map_header encryption_from_str value"

definition is_external :: "xpm_recipient_encryption \<Rightarrow> bool" where
  "is_external e = (e \<in> {EncPgpInline, EncPgpInlinePinned, EncPgpMime, EncPgpMimePinned})"

definition is_internal :: "xpm_recipient_encryption \<Rightarrow> bool" where
  "is_internal e = (e \<in> {EncPgpPmPinned, EncPgpPm, EncPgpEo})"

definition is_pinned :: "xpm_recipient_encryption \<Rightarrow> bool" where
  "is_pinned e = (e \<in> {EncPgpInlinePinned, EncPgpMimePinned, EncPgpPmPinned})"

section \<open>The lock of the composer\<close>

definition tooltip_composer :: "lock_icon \<Rightarrow> lock_color \<Rightarrow> package_crypto_type \<Rightarrow> lock_tooltip option" where
  "tooltip_composer i c scheme = (case i of
      ClosedLock \<Rightarrow>
        if scheme = EncryptedOutside then Some SendE2EEo
        else if c \<noteq> Blue then Some SendE2EExternal
        else Some SendE2E
    | ClosedLockWithTick \<Rightarrow> Some SendE2EVerifiedRecipient
    | OpenLockWithPen \<Rightarrow> Some SendSignOnly
    | _ \<Rightarrow> None)"

text \<open>The icon and colour, \<open>None\<close> for an early return of \<open>None\<close>.\<close>

definition composer_icon :: "('pub, 'kt) send_preferences \<Rightarrow> (lock_icon \<times> lock_color) option" where
  "composer_icon p = (case sp_pgp_scheme p of
      ProtonMail \<Rightarrow>
        if sp_encrypt p \<and> sp_is_selected_key_pinned p then Some (ClosedLockWithTick, Blue)
        else if sp_encrypt p then Some (ClosedLock, Blue)
        else None
    | EncryptedOutside \<Rightarrow> Some (ClosedLock, Blue)
    | Cleartext \<Rightarrow> None
    | _ \<Rightarrow> (case (sp_encrypt p, sp_sign p, sp_is_selected_key_pinned p) of
          (True, True, True) \<Rightarrow> Some (ClosedLockWithTick, Green)
        | (True, True, False) \<Rightarrow> Some (ClosedLock, Green)
        | (False, True, _) \<Rightarrow> Some (OpenLockWithPen, Green)
        | (True, _, _) \<Rightarrow> Some (ClosedLock, Green)
        | (False, _, _) \<Rightarrow> None))"

definition determine_composer_lock_icon :: "('pub, 'kt) send_preferences \<Rightarrow> ui_lock option" where
  "determine_composer_lock_icon p =
     (if sp_encryption_disabled p then Some (lock ClosedLock Black SendZeroAccessEncryptionDisabled)
      else case composer_icon p of
        None \<Rightarrow> None
      | Some (i, c) \<Rightarrow> (case tooltip_composer i c (sp_pgp_scheme p) of
            None \<Rightarrow> None
          | Some t \<Rightarrow> Some (lock i c t)))"

definition for_composer :: "('pub, 'kt) send_preferences \<Rightarrow> ui_lock option" where
  "for_composer p = determine_composer_lock_icon p"

section \<open>The lock of a received message\<close>

definition determine_recipient_lock_icon ::
    "xpm_origin \<Rightarrow> xpm_content_encryption \<Rightarrow> mail_verification_status
     \<Rightarrow> ('pub, 'fp, 'kt) verification_preferences option \<Rightarrow> ui_lock" where
  "determine_recipient_lock_icon origin content status prefs =
     (let pinned = (case prefs of None \<Rightarrow> False | Some p \<Rightarrow> uses_pinned_keys p);
          self_owned = (case prefs of None \<Rightarrow> False | Some p \<Rightarrow> self_owned_keys p)
      in case (origin, content) of
        (OriginInternal, ContentEndToEnd) \<Rightarrow>
          if pinned \<or> self_owned then (case status of
              NotVerified \<Rightarrow> lock ClosedLock Blue ReceiveE2E
            | NotSigned \<Rightarrow> lock ClosedLockWarning Blue ReceiveE2EVerificationFailedNoSignature
            | SignedAndValid \<Rightarrow> lock ClosedLockWithTick Blue ReceiveE2EVerifiedRecipient
            | SignedAndInvalid \<Rightarrow> lock ClosedLockWarning Blue ReceiveE2EVerificationFailed
            | SignedNoPublicKey \<Rightarrow> lock ClosedLockWarning Blue ReceiveE2EVerificationFailed)
          else lock ClosedLock Blue ReceiveE2E
      | (OriginInternal, ContentOnDelivery) \<Rightarrow> lock ClosedLock Black ZeroAccessSentByProton
      | (OriginExternal, ContentEndToEnd) \<Rightarrow>
          if pinned then (case status of
              NotVerified \<Rightarrow> lock ClosedLock Green ReceiveE2EExternal
            | NotSigned \<Rightarrow> lock ClosedLock Green ReceiveE2EExternal
            | SignedAndValid \<Rightarrow> lock ClosedLockWithTick Green ReceiveE2EVerifiedRecipient
            | SignedAndInvalid \<Rightarrow> lock ClosedLockWarning Green ReceiveE2EVerificationFailed
            | SignedNoPublicKey \<Rightarrow> lock ClosedLockWarning Green ReceiveE2EVerificationFailed)
          else lock ClosedLock Green ReceiveE2EExternal
      | (OriginExternal, ContentOnDelivery) \<Rightarrow>
          if pinned then (case status of
              NotSigned \<Rightarrow> lock ClosedLock Black ZeroAccess
            | NotVerified \<Rightarrow> lock ClosedLock Black ZeroAccess
            | SignedAndValid \<Rightarrow> lock OpenLockWithTick Green ReceiveSignOnlyVerifiedRecipient
            | SignedAndInvalid \<Rightarrow> lock OpenLockWarning Green ReceiveSignOnlyVerificationFailed
            | SignedNoPublicKey \<Rightarrow> lock OpenLockWarning Green ReceiveSignOnlyVerificationFailed)
          else lock ClosedLock Black ZeroAccess
      | _ \<Rightarrow> lock ClosedLock Black ZeroAccess)"

definition for_receive_inbox ::
    "xpm_origin \<Rightarrow> xpm_content_encryption \<Rightarrow> mail_verification_status
     \<Rightarrow> ('pub, 'fp, 'kt) verification_preferences option \<Rightarrow> ui_lock" where
  "for_receive_inbox origin content status prefs = determine_recipient_lock_icon origin content status prefs"

section \<open>The locks of a sent message\<close>

definition determine_sent_lock_icon_aggregated ::
    "xpm_origin \<Rightarrow> xpm_content_encryption \<Rightarrow> xpm_recipient_encryption list \<Rightarrow> ui_lock" where
  "determine_sent_lock_icon_aggregated origin content rs =
     (let all_external = (rs \<noteq> [] \<and> list_all is_external rs);
          all_pinned = (rs \<noteq> [] \<and> list_all is_pinned rs);
          all_encrypted = (rs \<noteq> [] \<and> EncNone \<notin> set rs);
          color = (if all_external then Green else Blue)
      in if all_pinned then
           lock ClosedLockWithTick color
             (if content = ContentEndToEnd then SentE2EVerifiedRecipients else SentProtonVerifiedRecipients)
         else if all_encrypted then
           lock ClosedLock color (if content = ContentEndToEnd then SentE2E else ZeroAccessSentByProton)
         else lock ClosedLock (if origin = OriginImport then Black else Blue) ZeroAccess)"

definition for_sent_inbox ::
    "xpm_origin \<Rightarrow> xpm_content_encryption \<Rightarrow> xpm_recipient_encryption list \<Rightarrow> ui_lock" where
  "for_sent_inbox origin content rs = determine_sent_lock_icon_aggregated origin content rs"

definition recipient_icon ::
    "xpm_recipient_encryption \<Rightarrow> xpm_recipient_authentication \<Rightarrow> lock_icon \<times> lock_color" where
  "recipient_icon e a =
     (if e = EncNone \<and> a \<in> {AuthPgpInline, AuthPgpMime} then (OpenLockWithPen, Green)
      else if e = EncPgpInline \<and> a \<in> {AuthNone, AuthPgpInline} then (ClosedLock, Green)
      else if e = EncPgpInlinePinned \<and> a \<in> {AuthNone, AuthPgpInline} then (ClosedLockWithTick, Green)
      else if e = EncPgpMime \<and> a \<in> {AuthNone, AuthPgpMime} then (ClosedLock, Green)
      else if e = EncPgpMimePinned \<and> a \<in> {AuthNone, AuthPgpMime} then (ClosedLockWithTick, Green)
      else if e = EncPgpEo \<and> a = AuthPgpEo then (ClosedLock, Blue)
      else if e = EncPgpPm \<and> a = AuthPgpPm then (ClosedLock, Blue)
      else if e = EncPgpPmPinned \<and> a = AuthPgpPm then (ClosedLockWithTick, Blue)
      else (ClosedLock, Black))"

definition recipient_tooltip :: "lock_icon \<Rightarrow> lock_color \<Rightarrow> xpm_content_encryption \<Rightarrow> lock_tooltip" where
  "recipient_tooltip i c content =
     (case (i, c, content) of
        (ClosedLockWithTick, Blue, ContentEndToEnd) \<Rightarrow> SentRecipientE2EVerifiedRecipient
      | (ClosedLockWithTick, Blue, ContentOnDelivery) \<Rightarrow> SentRecipientProtonMailVerifiedRecipient
      | (ClosedLockWithTick, Blue, ContentOnCompose) \<Rightarrow> SentRecipientProtonMailVerifiedRecipient
      | (ClosedLock, Blue, ContentEndToEnd) \<Rightarrow> SentRecipientE2E
      | (ClosedLock, Blue, ContentOnDelivery) \<Rightarrow> SentRecipientProtonMail
      | (ClosedLock, Blue, ContentOnCompose) \<Rightarrow> SentRecipientProtonMail
      | (ClosedLockWithTick, Green, ContentEndToEnd) \<Rightarrow> SentRecipientE2EPgpVerifiedRecipient
      | (ClosedLockWithTick, Green, ContentOnDelivery) \<Rightarrow> SentRecipientProtonMailPgpVerifiedRecipient
      | (ClosedLockWithTick, Green, ContentOnCompose) \<Rightarrow> SentRecipientProtonMailPgpVerifiedRecipient
      | (ClosedLock, Green, ContentEndToEnd) \<Rightarrow> SentRecipientE2EPgpRecipient
      | (ClosedLock, Green, ContentOnDelivery) \<Rightarrow> SentRecipientProtonMailPgpRecipient
      | (ClosedLock, Green, ContentOnCompose) \<Rightarrow> SentRecipientProtonMailPgpRecipient
      | (OpenLockWithPen, Green, ContentEndToEnd) \<Rightarrow> SentRecipientPGPSigned
      | _ \<Rightarrow> ZeroAccess)"

definition determine_sent_lock_icon_for_recipient ::
    "xpm_content_encryption \<Rightarrow> xpm_recipient_encryption \<Rightarrow> xpm_recipient_authentication \<Rightarrow> ui_lock" where
  "determine_sent_lock_icon_for_recipient content e a =
     (case recipient_icon e a of (i, c) \<Rightarrow> lock i c (recipient_tooltip i c content))"

definition for_sent_inbox_per_recipient ::
    "xpm_content_encryption \<Rightarrow> xpm_recipient_encryption \<Rightarrow> xpm_recipient_authentication \<Rightarrow> ui_lock" where
  "for_sent_inbox_per_recipient content e a = determine_sent_lock_icon_for_recipient content e a"

section \<open>The lock of a message from its headers\<close>

datatype parsed_header_value = HeaderString string | HeaderArray "string list"

definition build_draft_or_sent ::
    "parsed_header_value option \<Rightarrow> parsed_header_value option \<Rightarrow> parsed_header_value option \<Rightarrow> ui_lock" where
  "build_draft_or_sent origin_header content_header recipient_header =
     (case origin_header of Some (HeaderString origin) \<Rightarrow>
       (case content_header of Some (HeaderString content) \<Rightarrow>
         (case recipient_header of Some (HeaderString recipient) \<Rightarrow>
           (case origin_from_str origin of Inl _ \<Rightarrow> default_aggregated_sent
            | Inr orig \<Rightarrow>
              (case encryption_from_header recipient of Inl _ \<Rightarrow> default_aggregated_sent
               | Inr rs \<Rightarrow>
                 (case content_encryption_from_str content of Inl _ \<Rightarrow> default_aggregated_sent
                  | Inr enc \<Rightarrow> for_sent_inbox orig enc rs)))
          | _ \<Rightarrow> default_aggregated_sent)
        | _ \<Rightarrow> default_aggregated_sent)
      | _ \<Rightarrow> default_aggregated_sent)"

text \<open>
  What \<open>build_default\<close> calls: the sender's verification preferences, loading the body of the message and
  decrypting it (each may fail), verifying its signature with given keys, and joining the blocking task.
\<close>

record ('pub, 'fp, 'kt, 'body) lock_context =
  lc_preferences :: "('pub, 'fp, 'kt) verification_preferences option"
  lc_body :: "'body option"
  lc_verify :: "'body \<Rightarrow> 'pub list \<Rightarrow> verification_result"
  lc_joined :: bool

definition build_default ::
    "('pub, 'fp, 'kt, 'body) lock_context \<Rightarrow> parsed_header_value option \<Rightarrow> parsed_header_value option \<Rightarrow> ui_lock" where
  "build_default ctx origin_header content_header =
     (case origin_header of Some (HeaderString o_text) \<Rightarrow>
       (case content_header of Some (HeaderString c_text) \<Rightarrow>
         (case origin_from_str o_text of Inl _ \<Rightarrow> default_incoming
          | Inr origin \<Rightarrow>
            (case content_encryption_from_str c_text of Inl _ \<Rightarrow> default_incoming
             | Inr content \<Rightarrow>
               (case lc_preferences ctx of None \<Rightarrow> default_incoming
                | Some prefs \<Rightarrow>
                  if \<not> uses_pinned_keys prefs \<or> self_owned_keys prefs
                  then for_receive_inbox origin content NotVerified (Some prefs)
                  else (case lc_body ctx of None \<Rightarrow> default_incoming
                    | Some body \<Rightarrow>
                      if lc_joined ctx
                      then for_receive_inbox origin content
                             (status_from_result (lc_verify ctx body (signature_verification_keys prefs))) (Some prefs)
                      else default_incoming))))
        | _ \<Rightarrow> default_incoming)
      | _ \<Rightarrow> default_incoming)"

datatype privacy_lock_builder =
    LockNone
  | LockDraftOrSent "parsed_header_value option" "parsed_header_value option" "parsed_header_value option"
  | LockDefault "parsed_header_value option" "parsed_header_value option"

definition privacy_lock ::
    "(bool \<times> bool \<times> bool) option \<Rightarrow> (string \<Rightarrow> parsed_header_value option) \<Rightarrow> privacy_lock_builder" where
  "privacy_lock message header =
     (case message of
        None \<Rightarrow> LockNone
      | Some (is_draft, is_sent, is_schedule_send) \<Rightarrow>
          if is_draft \<or> is_sent \<or> is_schedule_send
          then LockDraftOrSent (header ''X-Pm-Origin'') (header ''X-Pm-Content-Encryption'')
                 (header ''X-Pm-Recipient-Encryption'')
          else LockDefault (header ''X-Pm-Origin'') (header ''X-Pm-Content-Encryption''))"

definition build ::
    "('pub, 'fp, 'kt, 'body) lock_context \<Rightarrow> privacy_lock_builder \<Rightarrow> ui_lock option" where
  "build ctx b = (case b of
      LockNone \<Rightarrow> None
    | LockDraftOrSent oh ch rh \<Rightarrow> Some (build_draft_or_sent oh ch rh)
    | LockDefault oh ch \<Rightarrow> Some (build_default ctx oh ch))"

end
