(* ===== verification/Package_Builder.thy ===== *)
theory Package_Builder
  imports Send_Preferences "HOL-Library.AList"
begin

text \<open>
  The packages of an outgoing message (\<open>shared/mail-package-builder\<close>): the sub-package of each
  recipient and the package they share, from the body that is already encrypted with a session
  key. The operations of the PGP provider and of SRP on session keys and attachments are
  parameters (\<open>package_ops\<close>); each may fail. A \<open>HashMap\<close> is an association list.
\<close>

section \<open>Errors and data\<close>

datatype 'e package_error =
    PackageBodyEncrypt 'e
  | AttachmentMissingKeyPackets string
  | AttachmentHasNoRemoteId nat
  | AttachmentAlreadyHasRemoteId nat
  | MimeBodyBuild string
  | HtmlToTextConversion string
  | PackageBodyInfoReEncrypt 'e
  | PackageAttachmentInfo 'e
  | PackageAttachmentInfoReEncrypt 'e
  | PackageAttachmentInfoReEncryptSignature 'e
  | NotSupported package_crypto_type
  | NoRecipientKey
  | PrimaryKeyNotFound
  | EoDataMissing
  | EoModulusFetch 'e
  | Eo 'e

datatype send_type = SendDraft | SendDirect

text \<open>The fields of \<open>LoadedAttachment\<close> that are read here.\<close>

record loaded_attachment =
  la_local_id :: string
  la_remote_id :: "string option"
  la_key_packets :: "bytes option"
  la_signature :: "bytes option"
  la_enc_signature :: "bytes option"

datatype 'x attachment_entries = EntriesDraft "(string \<times> 'x) list" | EntriesDirect "'x list"

definition entries_new :: "send_type \<Rightarrow> 'x attachment_entries" where
  "entries_new ty = (case ty of SendDraft \<Rightarrow> EntriesDraft [] | SendDirect \<Rightarrow> EntriesDirect [])"

definition entries_insert ::
    "nat \<Rightarrow> loaded_attachment \<Rightarrow> 'x \<Rightarrow> 'x attachment_entries \<Rightarrow> 'e package_error + 'x attachment_entries" where
  "entries_insert position att entry es =
     (case (es, la_remote_id att) of
        (EntriesDraft _, None) \<Rightarrow> Err (AttachmentHasNoRemoteId position)
      | (EntriesDraft m, Some i) \<Rightarrow> Ok (EntriesDraft (AList.update i entry m))
      | (EntriesDirect l, None) \<Rightarrow> Ok (EntriesDirect (l @ [entry]))
      | (EntriesDirect _, Some _) \<Rightarrow> Err (AttachmentAlreadyHasRemoteId position))"

definition entries_is_empty :: "'x attachment_entries \<Rightarrow> bool" where
  "entries_is_empty es = (case es of EntriesDraft m \<Rightarrow> m = [] | EntriesDirect l \<Rightarrow> l = [])"

datatype package_signatures_mode = SignaturesNone | SignaturesAttachments

definition signatures_from :: "bool \<Rightarrow> package_signatures_mode" where
  "signatures_from v = (if v then SignaturesAttachments else SignaturesNone)"

record auth_input =
  ai_version :: u8
  ai_modulus_id :: string
  ai_salt :: string
  ai_verifier :: string

record srp_verifier =
  sv_version :: u8
  sv_salt :: string
  sv_verifier :: string

record challenge =
  ch_token :: string
  ch_enc_token :: string
  ch_verifier :: srp_verifier

record address_sub_package =
  asp_address_type :: package_crypto_type
  asp_body_key_packet :: "string option"
  asp_attachment_key_packets :: "string attachment_entries option"
  asp_attachment_enc_signatures :: "string attachment_entries option"
  asp_signature :: "package_signatures_mode option"
  asp_token :: "string option"
  asp_enc_token :: "string option"
  asp_auth :: "auth_input option"
  asp_password_hint :: "string option"

text \<open>\<open>'k\<close> is a session key that is exposed to the server.\<close>

record 'k package =
  pk_addresses :: "(string \<times> address_sub_package) list"
  pk_mime_type :: package_mime_type
  pk_package_type :: u8
  pk_body_key :: "'k option"
  pk_attachment_keys :: "'k attachment_entries option"
  pk_body :: "bytes option"

record eo_data =
  eo_password :: string
  eo_password_hint :: "string option"

record resolved_eo =
  re_eo_data :: eo_data
  re_modulus :: string
  re_modulus_id :: string

record 'k encrypted_package_body =
  eb_mime_type :: package_mime_type
  eb_session_key :: 'k
  eb_encrypted_body :: bytes

text \<open>What the provider does: \<open>'i\<close> is the decrypted information of an attachment.\<close>

record ('pub, 'k, 'i, 'e) package_ops =
  po_key_to_recipient :: "'pub \<Rightarrow> 'k \<Rightarrow> 'e + string"
  po_key_to_password :: "string \<Rightarrow> 'k \<Rightarrow> 'e + string"
  po_challenge :: "string \<Rightarrow> string \<Rightarrow> 'e + challenge"
  po_attachment_info :: "loaded_attachment \<Rightarrow> 'e + 'i"
  po_info_session_key :: "'i \<Rightarrow> 'k"
  po_info_key_to_recipient :: "'pub \<Rightarrow> 'i \<Rightarrow> 'e + string"
  po_info_key_to_password :: "string \<Rightarrow> 'i \<Rightarrow> 'e + string"
  po_info_signature_to_recipient :: "'pub \<Rightarrow> 'i \<Rightarrow> 'e + string option"

datatype 'pub encryption_tool = ToolPublicKey 'pub | ToolPassword string

section \<open>Attachments\<close>

text \<open>The key packet for the recipient of one attachment, and the signatures with its own added.\<close>

definition attachment_key_packet ::
    "('pub, 'k, 'i, 'e) package_ops \<Rightarrow> 'pub encryption_tool \<Rightarrow> nat \<Rightarrow> loaded_attachment \<Rightarrow> 'i
     \<Rightarrow> string attachment_entries \<Rightarrow> 'e package_error + string \<times> string attachment_entries" where
  "attachment_key_packet ops tool position att info sigs =
     (case tool of
        ToolPublicKey k \<Rightarrow> (case po_info_key_to_recipient ops k info of
            Inl e \<Rightarrow> Err (PackageAttachmentInfoReEncrypt e)
          | Inr kp \<Rightarrow> (case po_info_signature_to_recipient ops k info of
                Inl e \<Rightarrow> Err (PackageAttachmentInfoReEncryptSignature e)
              | Inr None \<Rightarrow> Ok (kp, sigs)
              | Inr (Some s) \<Rightarrow> (case entries_insert position att s sigs of
                    Inl e \<Rightarrow> Err e
                  | Inr sigs' \<Rightarrow> Ok (kp, sigs'))))
      | ToolPassword p \<Rightarrow> (case po_info_key_to_password ops p info of
            Inl e \<Rightarrow> Err (PackageAttachmentInfoReEncrypt e)
          | Inr kp \<Rightarrow> Ok (kp, sigs)))"

fun attachments_loop ::
    "('pub, 'k, 'i, 'e) package_ops \<Rightarrow> 'pub encryption_tool \<Rightarrow> nat \<Rightarrow> loaded_attachment list \<Rightarrow> bool
     \<Rightarrow> string attachment_entries \<Rightarrow> string attachment_entries
     \<Rightarrow> 'e package_error + bool \<times> string attachment_entries \<times> string attachment_entries" where
  "attachments_loop ops tool position [] sign kps sigs = Ok (sign, kps, sigs)"
| "attachments_loop ops tool position (att # atts) sign kps sigs =
     (let sign' = (if la_signature att = None \<and> la_enc_signature att = None then False else sign)
      in if la_key_packets att = None then Err (AttachmentMissingKeyPackets (la_local_id att))
         else case po_attachment_info ops att of
             Inl e \<Rightarrow> Err (PackageAttachmentInfo e)
           | Inr info \<Rightarrow> (case attachment_key_packet ops tool position att info sigs of
                 Inl e \<Rightarrow> Err e
               | Inr (kp, sigs') \<Rightarrow> (case entries_insert position att kp kps of
                     Inl e \<Rightarrow> Err e
                   | Inr kps' \<Rightarrow> attachments_loop ops tool (position + 1) atts sign' kps' sigs')))"

definition process_attachments ::
    "send_type \<Rightarrow> ('pub, 'k, 'i, 'e) package_ops \<Rightarrow> loaded_attachment list \<Rightarrow> 'pub encryption_tool \<Rightarrow> bool
     \<Rightarrow> address_sub_package \<Rightarrow> 'e package_error + address_sub_package" where
  "process_attachments ty ops atts tool sign ap =
     (case attachments_loop ops tool 0 atts sign (entries_new ty) (entries_new ty) of
        Inl e \<Rightarrow> Err e
      | Inr (sign', kps, sigs) \<Rightarrow>
          (let ap1 = (if entries_is_empty kps then ap else ap\<lparr> asp_attachment_key_packets := Some kps \<rparr>);
               ap2 = (if entries_is_empty sigs then ap1 else ap1\<lparr> asp_attachment_enc_signatures := Some sigs \<rparr>)
           in Ok (ap2\<lparr> asp_signature := Some (signatures_from sign') \<rparr>)))"

fun cleartext_loop ::
    "('pub, 'k, 'i, 'e) package_ops \<Rightarrow> nat \<Rightarrow> loaded_attachment list \<Rightarrow> 'k attachment_entries
     \<Rightarrow> 'e package_error + 'k attachment_entries" where
  "cleartext_loop ops position [] keys = Ok keys"
| "cleartext_loop ops position (att # atts) keys =
     (if la_key_packets att = None then Err (AttachmentMissingKeyPackets (la_local_id att))
      else case po_attachment_info ops att of
          Inl e \<Rightarrow> Err (PackageAttachmentInfo e)
        | Inr info \<Rightarrow> (case entries_insert position att (po_info_session_key ops info) keys of
              Inl e \<Rightarrow> Err e
            | Inr keys' \<Rightarrow> cleartext_loop ops (position + 1) atts keys'))"

definition process_attachment_cleartext ::
    "send_type \<Rightarrow> ('pub, 'k, 'i, 'e) package_ops \<Rightarrow> loaded_attachment list \<Rightarrow> 'k package
     \<Rightarrow> 'e package_error + 'k package" where
  "process_attachment_cleartext ty ops atts pkg =
     (if pk_attachment_keys pkg \<noteq> None then Ok pkg
      else case cleartext_loop ops 0 atts (entries_new ty) of
          Inl e \<Rightarrow> Err e
        | Inr keys \<Rightarrow> Ok (if entries_is_empty keys then pkg else pkg\<lparr> pk_attachment_keys := Some keys \<rparr>))"

section \<open>The package of a recipient\<close>

definition build_address_package_for_eo ::
    "('pub, 'k, 'i, 'e) package_ops \<Rightarrow> resolved_eo \<Rightarrow> 'k \<Rightarrow> address_sub_package
     \<Rightarrow> 'e package_error + address_sub_package" where
  "build_address_package_for_eo ops eo key ap =
     (let password = eo_password (re_eo_data eo)
      in case po_challenge ops password (re_modulus eo) of
           Inl e \<Rightarrow> Err (Eo e)
         | Inr ch \<Rightarrow>
             (let ap1 = ap\<lparr>
                    asp_password_hint := Some (case eo_password_hint (re_eo_data eo) of Some h \<Rightarrow> h | None \<Rightarrow> []),
                    asp_enc_token := Some (ch_enc_token ch),
                    asp_token := Some (ch_token ch),
                    asp_auth := Some \<lparr> ai_version = sv_version (ch_verifier ch), ai_modulus_id = re_modulus_id eo,
                      ai_salt = sv_salt (ch_verifier ch), ai_verifier = sv_verifier (ch_verifier ch) \<rparr> \<rparr>
              in case po_key_to_password ops password key of
                   Inl e \<Rightarrow> Err (PackageBodyInfoReEncrypt e)
                 | Inr kp \<Rightarrow> Ok (ap1\<lparr> asp_body_key_packet := Some kp \<rparr>)))"

definition new_sub_package :: "package_crypto_type \<Rightarrow> address_sub_package" where
  "new_sub_package t =
     \<lparr> asp_address_type = t, asp_body_key_packet = None, asp_attachment_key_packets = None,
       asp_attachment_enc_signatures = None, asp_signature = None, asp_token = None,
       asp_enc_token = None, asp_auth = None, asp_password_hint = None \<rparr>"

definition build_address_sub_package ::
    "send_type \<Rightarrow> ('pub, 'k, 'i, 'e) package_ops \<Rightarrow> string \<Rightarrow> 'k \<Rightarrow> loaded_attachment list
     \<Rightarrow> ('pub, 'kt) send_preferences \<Rightarrow> resolved_eo option \<Rightarrow> 'k package \<Rightarrow> 'e package_error + 'k package" where
  "build_address_sub_package ty ops email key atts prefs eo pkg =
     (let ap = new_sub_package (sp_pgp_scheme prefs);
          result = (case sp_pgp_scheme prefs of
              ProtonMail \<Rightarrow> (case sp_selected_key prefs of
                  None \<Rightarrow> Err NoRecipientKey
                | Some k \<Rightarrow> (case po_key_to_recipient ops k key of
                      Inl e \<Rightarrow> Err (PackageBodyInfoReEncrypt e)
                    | Inr kp \<Rightarrow> (case process_attachments ty ops atts (ToolPublicKey k) (sp_sign prefs)
                            (ap\<lparr> asp_body_key_packet := Some kp \<rparr>) of
                          Inl e \<Rightarrow> Err e
                        | Inr ap' \<Rightarrow> Ok (pkg, ap'))))
            | PgpMime \<Rightarrow> (case sp_selected_key prefs of
                  None \<Rightarrow> Err NoRecipientKey
                | Some k \<Rightarrow> (case po_key_to_recipient ops k key of
                      Inl e \<Rightarrow> Err (PackageBodyInfoReEncrypt e)
                    | Inr kp \<Rightarrow> Ok (pkg, ap\<lparr> asp_body_key_packet := Some kp \<rparr>)))
            | Cleartext \<Rightarrow> (case process_attachment_cleartext ty ops atts (pkg\<lparr> pk_body_key := Some key \<rparr>) of
                  Inl e \<Rightarrow> Err e
                | Inr pkg' \<Rightarrow> Ok (pkg', ap\<lparr> asp_signature := Some SignaturesNone \<rparr>))
            | ClearMime \<Rightarrow> Ok (pkg\<lparr> pk_body_key := Some key \<rparr>,
                  ap\<lparr> asp_signature := Some (signatures_from (sp_sign prefs)) \<rparr>)
            | EncryptedOutside \<Rightarrow> (case eo of
                  None \<Rightarrow> Err EoDataMissing
                | Some eo' \<Rightarrow> (case build_address_package_for_eo ops eo' key ap of
                      Inl e \<Rightarrow> Err e
                    | Inr ap' \<Rightarrow> (case process_attachments ty ops atts
                            (ToolPassword (eo_password (re_eo_data eo'))) (sp_sign prefs) ap' of
                          Inl e \<Rightarrow> Err e
                        | Inr ap'' \<Rightarrow> Ok (pkg, ap''))))
            | PgpInline \<Rightarrow> Err (NotSupported (sp_pgp_scheme prefs)))
      in case result of
           Inl e \<Rightarrow> Err e
         | Inr (pkg', ap') \<Rightarrow> Ok (pkg'\<lparr> pk_addresses := AList.update email ap' (pk_addresses pkg') \<rparr>))"

fun sub_packages ::
    "send_type \<Rightarrow> ('pub, 'k, 'i, 'e) package_ops \<Rightarrow> 'k \<Rightarrow> loaded_attachment list \<Rightarrow> resolved_eo option
     \<Rightarrow> (string \<times> ('pub, 'kt) send_preferences) list \<Rightarrow> 'k package \<Rightarrow> 'e package_error + 'k package" where
  "sub_packages ty ops key atts eo [] pkg = Ok pkg"
| "sub_packages ty ops key atts eo ((email, prefs) # rs) pkg =
     (case build_address_sub_package ty ops email key atts prefs eo pkg of
        Inl e \<Rightarrow> Err e
      | Inr pkg' \<Rightarrow> sub_packages ty ops key atts eo rs pkg')"

unbundle bit_operations_syntax

definition build_top_package ::
    "send_type \<Rightarrow> ('pub, 'k, 'i, 'e) package_ops \<Rightarrow> (string \<times> ('pub, 'kt) send_preferences) list
     \<Rightarrow> 'k encrypted_package_body \<Rightarrow> loaded_attachment list \<Rightarrow> resolved_eo option
     \<Rightarrow> 'e package_error + 'k package" where
  "build_top_package ty ops recipients body atts eo =
     (let pkg = \<lparr> pk_addresses = [], pk_mime_type = eb_mime_type body, pk_package_type = 0,
            pk_body_key = None, pk_attachment_keys = None, pk_body = Some (eb_encrypted_body body) \<rparr>
      in case sub_packages ty ops (eb_session_key body) atts eo recipients pkg of
           Inl e \<Rightarrow> Err e
         | Inr pkg' \<Rightarrow> Ok (pkg'\<lparr> pk_package_type :=
             fold (\<lambda>(_, ap) acc. acc OR type_value (asp_address_type ap)) (pk_addresses pkg') 0 \<rparr>))"

section \<open>Facts\<close>

text \<open>The package types in which the body's session key goes to the recipient only, encrypted.\<close>

definition encrypted_type :: "package_crypto_type \<Rightarrow> bool" where
  "encrypted_type t = (t \<in> {ProtonMail, PgpMime, EncryptedOutside})"

text \<open>The session key as the recipient gets it: under the selected key, or under the password.\<close>

definition recipient_key_packet ::
    "('pub, 'k, 'i, 'e) package_ops \<Rightarrow> ('pub, 'kt) send_preferences \<Rightarrow> resolved_eo option \<Rightarrow> 'k \<Rightarrow> string option" where
  "recipient_key_packet ops prefs eo key =
     (case sp_pgp_scheme prefs of
        EncryptedOutside \<Rightarrow> (case eo of None \<Rightarrow> None
          | Some eo' \<Rightarrow> (case po_key_to_password ops (eo_password (re_eo_data eo')) key of Inl _ \<Rightarrow> None | Inr kp \<Rightarrow> Some kp))
      | _ \<Rightarrow> (case sp_selected_key prefs of None \<Rightarrow> None
          | Some k \<Rightarrow> (case po_key_to_recipient ops k key of Inl _ \<Rightarrow> None | Inr kp \<Rightarrow> Some kp)))"

lemma process_attachments_keeps:
  assumes "process_attachments ty ops atts tool sign ap = Ok ap'"
  shows "asp_address_type ap' = asp_address_type ap \<and> asp_body_key_packet ap' = asp_body_key_packet ap"
  using assms by (auto simp: process_attachments_def Let_def split: sum.splits)

lemma cleartext_keeps:
  assumes "process_attachment_cleartext ty ops atts pkg = Ok pkg'"
  shows "pk_body_key pkg' = pk_body_key pkg \<and> pk_addresses pkg' = pk_addresses pkg"
  using assms by (auto simp: process_attachment_cleartext_def split: sum.splits if_splits)

lemma eo_package_key:
  assumes "build_address_package_for_eo ops eo key ap = Ok ap'"
  shows "asp_address_type ap' = asp_address_type ap
    \<and> (\<exists>kp. po_key_to_password ops (eo_password (re_eo_data eo)) key = Ok kp \<and> asp_body_key_packet ap' = Some kp)"
  using assms by (auto simp: build_address_package_for_eo_def Let_def split: sum.splits)

text \<open>
  What a recipient's sub-package holds: the encrypted session key exactly for the encrypted
  types; for the others the session key itself is put into the package that the server reads.
\<close>

lemma sub_package_key:
  fixes prefs :: "('pub, 'kt) send_preferences"
  assumes "build_address_sub_package ty ops email key atts prefs eo pkg = Ok pkg'"
  obtains ap where "map_of (pk_addresses pkg') email = Some ap" "asp_address_type ap = sp_pgp_scheme prefs"
    "if encrypted_type (sp_pgp_scheme prefs)
     then asp_body_key_packet ap = recipient_key_packet ops prefs eo key \<and> asp_body_key_packet ap \<noteq> None
        \<and> pk_body_key pkg' = pk_body_key pkg
     else asp_body_key_packet ap = None \<and> pk_body_key pkg' = Some key"
proof (cases "sp_pgp_scheme prefs")
  case ProtonMail
  with assms that show ?thesis
    by (fastforce simp: build_address_sub_package_def new_sub_package_def Let_def encrypted_type_def update_conv
        recipient_key_packet_def split: option.splits sum.splits dest: process_attachments_keeps)
next
  case PgpMime
  with assms that show ?thesis
    by (fastforce simp: build_address_sub_package_def new_sub_package_def Let_def encrypted_type_def update_conv
        recipient_key_packet_def split: option.splits sum.splits)
next
  case EncryptedOutside
  with assms that show ?thesis
    by (fastforce simp: build_address_sub_package_def new_sub_package_def Let_def encrypted_type_def update_conv
        recipient_key_packet_def split: option.splits sum.splits dest: process_attachments_keeps eo_package_key)
next
  case Cleartext
  with assms that show ?thesis
    by (fastforce simp: build_address_sub_package_def new_sub_package_def Let_def encrypted_type_def update_conv
        split: sum.splits dest: cleartext_keeps)
next
  case ClearMime
  with assms that show ?thesis
    by (fastforce simp: build_address_sub_package_def new_sub_package_def Let_def encrypted_type_def update_conv)
qed (use assms in \<open>simp add: build_address_sub_package_def Let_def\<close>)

end
