(* ===== verification/Lock_Props.thy ===== *)
theory Lock_Props
  imports Lock_Icon Package_Builder
begin

text \<open>
  The properties of the send preferences and of the locks: what a lock promises is what the
  preferences or the verification of the message say, and the recipient headers are read back.
\<close>

section \<open>Reading recipient headers\<close>

text \<open>The keywords the server writes.\<close>

definition encryption_keyword :: "xpm_recipient_encryption \<Rightarrow> string" where
  "encryption_keyword e = (case e of
      EncNone \<Rightarrow> ''none'' | EncPgpInline \<Rightarrow> ''pgp-inline'' | EncPgpInlinePinned \<Rightarrow> ''pgp-inline-pinned''
    | EncPgpMime \<Rightarrow> ''pgp-mime'' | EncPgpMimePinned \<Rightarrow> ''pgp-mime-pinned'' | EncPgpEo \<Rightarrow> ''pgp-eo''
    | EncPgpPm \<Rightarrow> ''pgp-pm'' | EncPgpPmPinned \<Rightarrow> ''pgp-pm-pinned'')"

definition authentication_keyword :: "xpm_recipient_authentication \<Rightarrow> string" where
  "authentication_keyword a = (case a of
      AuthNone \<Rightarrow> ''none'' | AuthPgpInline \<Rightarrow> ''pgp-inline'' | AuthPgpMime \<Rightarrow> ''pgp-mime'' | AuthPgpEo \<Rightarrow> ''pgp-eo''
    | AuthPgpPm \<Rightarrow> ''pgp-pm'')"

text \<open>An entry: the address, the keyword, and white space after it; entries are joined by semicolons.\<close>

definition header_entry :: "('a \<Rightarrow> string) \<Rightarrow> string \<times> 'a \<times> string \<Rightarrow> string" where
  "header_entry kw x = (case x of (a, e, post) \<Rightarrow> a @ CHR ''='' # kw e @ post)"

fun join_with :: "char \<Rightarrow> string list \<Rightarrow> string" where
  "join_with c [] = []"
| "join_with c [x] = x"
| "join_with c (x # xs) = x @ c # join_with c xs"

lemma split_on_piece: "c \<notin> set x \<Longrightarrow> split_on c (x @ c # s) = x # split_on c s"
  by (induction x) auto

lemma split_on_none: "c \<notin> set x \<Longrightarrow> split_on c x = [x]"
  by (induction x) auto

lemma split_on_join: "xs \<noteq> [] \<Longrightarrow> \<forall>x \<in> set xs. c \<notin> set x \<Longrightarrow> split_on c (join_with c xs) = xs"
  by (induction c xs rule: join_with.induct) (auto simp: split_on_none split_on_piece)

lemma rsplit_once_last:
  assumes "c \<notin> set v"
  shows "rsplit_once c (a @ c # v) = Some (a, v)"
proof -
  have t: "takeWhile (\<lambda>x. x \<noteq> c) (rev v @ c # rev a) = rev v"
    "dropWhile (\<lambda>x. x \<noteq> c) (rev v @ c # rev a) = c # rev a"
    using assms by (auto simp: takeWhile_append dropWhile_append takeWhile_eq_all_conv)
  show ?thesis by (simp add: rsplit_once_def t)
qed

definition plain_keyword :: "string \<Rightarrow> bool" where
  "plain_keyword v = (v \<noteq> [] \<and> \<not> is_whitespace (last v) \<and> CHR ''='' \<notin> set v \<and> CHR '';'' \<notin> set v)"

lemma trim_entry:
  assumes "plain_keyword v" and "list_all is_whitespace post"
  shows "trim (a @ CHR ''='' # v @ post) = dropWhile is_whitespace a @ CHR ''='' # v"
proof -
  have e: "\<not> is_whitespace (CHR ''='')" by code_simp
  have front: "dropWhile is_whitespace (a @ CHR ''='' # v @ post) = dropWhile is_whitespace a @ CHR ''='' # v @ post"
    using e by (induction a) auto
  have p: "dropWhile is_whitespace (rev post @ s) = dropWhile is_whitespace s" for s
    using assms(2) by (simp add: dropWhile_append list_all_iff)
  obtain u l where v: "v = u @ [l]" "\<not> is_whitespace l"
    using assms(1) unfolding plain_keyword_def by (metis append_butlast_last_id)
  show ?thesis unfolding trim_def front by (simp add: p v)
qed

lemma collect_Ok: "collect_results (map Inr xs) = Ok xs"
  by (induction xs) auto

lemma parse_rendered:
  assumes read: "\<And>x. plain_keyword (kw x) \<and> from_str (kw x) = Ok x"
    and entries: "\<forall>(a, e, post) \<in> set xs. CHR '';'' \<notin> set a \<and> list_all is_whitespace post"
  shows "parse_and_map_header from_str (join_with (CHR '';'') (map (header_entry kw) xs)) = Ok (map (fst \<circ> snd) xs)"
proof (cases "xs = []")
  case True
  then show ?thesis by (simp add: parse_and_map_header_def trim_def)
next
  case False
  have ws: "\<not> is_whitespace (CHR '';'')" by code_simp
  have "CHR '';'' \<notin> set (header_entry kw x)" if "x \<in> set xs" for x
  proof -
    obtain a e post where x: "x = (a, e, post)" by (metis prod_cases3)
    have "CHR '';'' \<notin> set a" "list_all is_whitespace post" using that x entries by auto
    moreover have "CHR '';'' \<notin> set (kw e)" using read [of e] by (simp add: plain_keyword_def)
    ultimately show ?thesis using ws x by (auto simp: header_entry_def list_all_iff)
  qed
  then have split: "split_on (CHR '';'') (join_with (CHR '';'') (map (header_entry kw) xs)) = map (header_entry kw) xs"
    using False by (intro split_on_join) auto
  have item: "trim (header_entry kw x) \<noteq> []
      \<and> (case rsplit_once (CHR ''='') (trim (header_entry kw x)) of
          None \<Rightarrow> Err ''Invalid format'' | Some (_, v) \<Rightarrow> from_str v) = Ok (fst (snd x))" if "x \<in> set xs" for x
  proof -
    obtain a e post where x: "x = (a, e, post)" by (metis prod_cases3)
    have "list_all is_whitespace post" using that x entries by auto
    then have "trim (header_entry kw x) = dropWhile is_whitespace a @ CHR ''='' # kw e"
      using read [of e] x by (simp add: header_entry_def trim_entry)
    moreover have "CHR ''='' \<notin> set (kw e)" using read [of e] by (simp add: plain_keyword_def)
    ultimately show ?thesis using read [of e] x by (simp add: rsplit_once_last)
  qed
  have f: "filter (\<lambda>t. t \<noteq> []) (map trim (map (header_entry kw) xs)) = map trim (map (header_entry kw) xs)"
    using item by (intro filter_True) auto
  have m: "map (\<lambda>i. case rsplit_once (CHR ''='') i of None \<Rightarrow> Err ''Invalid format'' | Some (_, v) \<Rightarrow> from_str v)
      (map trim (map (header_entry kw) xs)) = map Inr (map (fst \<circ> snd) xs)"
    using item by simp
  show ?thesis unfolding parse_and_map_header_def split f m by (rule collect_Ok)
qed

lemma encryption_keyword_read:
  "plain_keyword (encryption_keyword e) \<and> encryption_from_str (encryption_keyword e) = Ok e"
  by (cases e) (simp_all only:, code_simp+)

lemma authentication_keyword_read:
  "plain_keyword (authentication_keyword a) \<and> authentication_from_str (authentication_keyword a) = Ok a"
  by (cases a) (simp_all only:, code_simp+)

text \<open>
  The recipient headers are read back as they are written: entries \<open>address=keyword\<close> joined by semicolons, with
  any text without a semicolon before the keyword (white space and further equals signs included) and
  any white space after it, give the list of the keywords' values in the order of the recipients.
\<close>

theorem recipient_headers_roundtrip:
  assumes "\<forall>(a, e, post) \<in> set xs. CHR '';'' \<notin> set a \<and> list_all is_whitespace post"
    and "\<forall>(a, e, post) \<in> set ys. CHR '';'' \<notin> set a \<and> list_all is_whitespace post"
  shows "encryption_from_header (join_with (CHR '';'') (map (header_entry encryption_keyword) xs)) = Ok (map (fst \<circ> snd) xs)
    \<and> authentication_from_header (join_with (CHR '';'') (map (header_entry authentication_keyword) ys)) = Ok (map (fst \<circ> snd) ys)"
  unfolding encryption_from_header_def authentication_from_header_def
  using parse_rendered [OF encryption_keyword_read assms(1)] parse_rendered [OF authentication_keyword_read assms(2)] by simp

theorem recipient_headers_roundtrip_witness:
  "encryption_from_header (join_with (CHR '';'')
      (map (header_entry encryption_keyword) [(''a=b%40proton.me'', EncPgpPm, ''''), ('' c%40d.org'', EncPgpMime, '' '')]))
     = Ok [EncPgpPm, EncPgpMime]
   \<and> authentication_from_header (join_with (CHR '';'')
      (map (header_entry authentication_keyword) [(''a'', AuthPgpPm, '''')])) = Ok [AuthPgpPm]"
proof -
  let ?xs = "[(''a=b%40proton.me'', EncPgpPm, ''''), ('' c%40d.org'', EncPgpMime, '' '')]"
  let ?ys = "[(''a'', AuthPgpPm, '''')]"
  have "\<forall>(a, e, post) \<in> set ?xs. CHR '';'' \<notin> set a \<and> list_all is_whitespace post"
    "\<forall>(a, e, post) \<in> set ?ys. CHR '';'' \<notin> set a \<and> list_all is_whitespace post"
    by code_simp+
  from recipient_headers_roundtrip [OF this] show ?thesis by simp
qed

section \<open>Send preferences and the composer\<close>

text \<open>
  C16. How a message to a recipient is packaged, from the encryption preferences and the composer: Proton's own
  encryption exactly for internal recipients who have encryption enabled; a password-protected package
  exactly when the composer asks for one for anybody else; PGP/MIME exactly for the other recipients to be
  encrypted to; never PGP inline. A multipart body goes with PGP/MIME and clear MIME only, a text body is never sent as
  HTML, and a recipient with encryption disabled gets neither encryption nor signature.
\<close>

theorem send_package:
  "let p = from_preferences ep cp in
    (sp_pgp_scheme p = ProtonMail \<longleftrightarrow> ep_internal ep \<and> \<not> ep_encryption_disabled_mail ep)
    \<and> (sp_pgp_scheme p = EncryptedOutside
        \<longleftrightarrow> cp_encrypt_to_outside cp \<and> \<not> (ep_internal ep \<and> \<not> ep_encryption_disabled_mail ep))
    \<and> (sp_pgp_scheme p = PgpMime \<longleftrightarrow> \<not> ep_internal ep \<and> \<not> cp_encrypt_to_outside cp \<and> sp_encrypt p)
    \<and> (sp_pgp_scheme p = ClearMime
        \<longleftrightarrow> \<not> ep_internal ep \<and> \<not> sp_encrypt p \<and> sp_sign p \<and> ep_pgp_scheme ep = SchemeMime)
    \<and> sp_pgp_scheme p \<noteq> PgpInline
    \<and> (sp_mime_type p = MimeMultipart \<longleftrightarrow> sp_pgp_scheme p \<in> {PgpMime, ClearMime})
    \<and> (sp_mime_type p = MimeHtml \<longleftrightarrow> sp_pgp_scheme p \<notin> {PgpMime, ClearMime} \<and> cp_body_mime_type cp = EmailHtml
        \<and> \<not> (sp_pgp_scheme p \<noteq> EncryptedOutside \<and> ep_mime_type ep = Some EmailText))
    \<and> (sp_encrypt p \<longleftrightarrow> \<not> ep_encryption_disabled_mail ep \<and> (ep_encrypt ep \<or> cp_encrypt_to_outside cp))
    \<and> (sp_sign p \<longleftrightarrow> \<not> ep_encryption_disabled_mail ep \<and> (ep_sign ep \<or> cp_encrypt_to_outside cp))"
proof -
  define p where "p = from_preferences ep cp"
  have mime: "sp_mime_type p = (case sp_pgp_scheme p of
      PgpInline \<Rightarrow> MimeText | PgpMime \<Rightarrow> MimeMultipart | ClearMime \<Rightarrow> MimeMultipart
    | EncryptedOutside \<Rightarrow> mime_from_email (cp_body_mime_type cp)
    | _ \<Rightarrow> (case cp_body_mime_type cp of EmailText \<Rightarrow> mime_from_email (cp_body_mime_type cp)
        | EmailHtml \<Rightarrow> mime_from_email (case ep_mime_type ep of None \<Rightarrow> cp_body_mime_type cp | Some m \<Rightarrow> m)))"
    by (simp add: p_def from_preferences_def Let_def)
  have m: "sp_mime_type p = MimeMultipart \<longleftrightarrow> sp_pgp_scheme p \<in> {PgpMime, ClearMime}"
    unfolding mime by (cases "sp_pgp_scheme p")
      (auto simp: mime_from_email_def split: email_mime_type.splits option.splits)
  have inline: "sp_pgp_scheme p \<noteq> PgpInline" by (simp add: p_def from_preferences_simps)
  have h: "sp_mime_type p = MimeHtml \<longleftrightarrow> sp_pgp_scheme p \<notin> {PgpMime, ClearMime} \<and> cp_body_mime_type cp = EmailHtml
      \<and> \<not> (sp_pgp_scheme p \<noteq> EncryptedOutside \<and> ep_mime_type ep = Some EmailText)"
    unfolding mime using inline by (cases "sp_pgp_scheme p"; cases "cp_body_mime_type cp")
      (auto simp: mime_from_email_def split: email_mime_type.splits option.splits)
  show ?thesis
    unfolding Let_def p_def [symmetric] using m h inline by (simp add: p_def from_preferences_simps)
qed

text \<open>Whether the composer announces the message as end-to-end encrypted.\<close>

definition says_end_to_end :: "('pub, 'kt) send_preferences \<Rightarrow> bool" where
  "says_end_to_end p = (case for_composer p of
     None \<Rightarrow> False
   | Some l \<Rightarrow> take 20 (tooltip_display (lk_tooltip l)) = ''End-to-end encrypted'')"










text \<open>An external recipient with a pinned key.\<close>

definition demo_external :: "(string, unit) encryption_preferences" where
  "demo_external = \<lparr> ep_encrypt = True, ep_sign = True, ep_pgp_scheme = SchemeMime, ep_mime_type = None,
     ep_selected_key = Some ''bob'', ep_is_selected_key_pinned = True, ep_encryption_disabled_mail = False,
     ep_internal = False, ep_key_transparency = () \<rparr>"


text \<open>
  The first exception on a concrete recipient: encryption is disabled, the composer protects the
  message with a password; the package is encrypted, the lock speaks of disabled encryption.
\<close>

lemma password_to_disabled_recipient:
  "let p = from_preferences (demo_external\<lparr> ep_encryption_disabled_mail := True \<rparr>)
             \<lparr> cp_encrypt_to_outside = True, cp_body_mime_type = EmailHtml \<rparr>
   in encrypted_type (sp_pgp_scheme p) \<and> \<not> sp_encrypt p \<and> \<not> says_end_to_end p
      \<and> for_composer p = Some (lock ClosedLock Black SendZeroAccessEncryptionDisabled)"
  by code_simp

section \<open>The lock of a received message\<close>

text \<open>
  C15. A received message is shown as coming from a verified sender only if a signature of its body was verified
  with keys that the user pinned in the contact of the sender, none of which the server marks as
  compromised.
\<close>

theorem verified_sender_lock:
  assumes "lc_preferences ctx = Some (from_public_keys fingerprint into_inbox_keys api_keys vcard)"
    and "lk_icon (build_default ctx origin_header content_header) \<in> {ClosedLockWithTick, OpenLockWithTick}"
  shows "\<exists>pinned keys body. vcard = Some pinned \<and> keys \<noteq> [] \<and> set keys \<subseteq> set pinned
    \<and> (\<forall>k \<in> set keys. \<forall>f \<in> set (fst (into_inbox_keys api_keys True)).
          fk_compromised f \<longrightarrow> fingerprint (fk_public f) \<noteq> fingerprint k)
    \<and> lc_body ctx = Some body \<and> lc_verify ctx body keys = Ok ()"
proof -
  let ?p = "from_public_keys fingerprint into_inbox_keys api_keys vcard"
  let ?k = "signature_verification_keys ?p"
  define ticked where "ticked l = (lk_icon l \<in> {ClosedLockWithTick, OpenLockWithTick})" for l :: ui_lock
  have idle: "\<not> ticked (for_receive_inbox origin content NotVerified (Some ?p))" for origin content
    by (auto simp: ticked_def for_receive_inbox_def determine_recipient_lock_icon_def lock_def Let_def
        split: xpm_origin.splits xpm_content_encryption.splits)
  have plain: "\<not> ticked default_incoming"
    by (simp add: ticked_def default_incoming_def lock_def)
  have "ticked (build_default ctx origin_header content_header)" using assms(2) by (simp add: ticked_def)
  then have pinned: "uses_pinned_keys ?p" and body: "\<exists>body origin content. lc_body ctx = Some body
      \<and> ticked (for_receive_inbox origin content (status_from_result (lc_verify ctx body ?k)) (Some ?p))"
    unfolding build_default_def assms(1)
    by (auto simp: idle plain split: option.splits parsed_header_value.splits sum.splits if_splits)
  from body obtain b origin content where b: "lc_body ctx = Some b"
    and tick: "ticked (for_receive_inbox origin content (status_from_result (lc_verify ctx b ?k)) (Some ?p))" by blast
  have "status_from_result (lc_verify ctx b ?k) = SignedAndValid"
    using tick by (cases "status_from_result (lc_verify ctx b ?k)")
      (auto simp: ticked_def for_receive_inbox_def determine_recipient_lock_icon_def lock_def Let_def
        split: xpm_origin.splits xpm_content_encryption.splits if_splits)
  then have ok: "lc_verify ctx b ?k = Ok ()"
    by (auto simp: status_from_result_def split: sum.splits verification_error.splits)
  obtain fks kt where i: "into_inbox_keys api_keys True = (fks, kt)" by (metis surj_pair)
  have k: "?k = (case vcard of None \<Rightarrow> [] | Some keys \<Rightarrow>
      filter (\<lambda>k. fingerprint k \<notin> (\<lambda>k. fingerprint (fk_public k)) ` set (filter fk_compromised fks)) keys)"
    using pinned by (cases vcard) (simp_all add: signature_verification_keys_def from_public_keys_def i active_keys_spec)
  have ne: "?k \<noteq> []" using pinned by (simp add: signature_verification_keys_def uses_pinned_keys_def)
  with k obtain pks where v: "vcard = Some pks" by (cases vcard) auto
  have ks: "set ?k = {k \<in> set pks. \<forall>f \<in> set fks. fk_compromised f \<longrightarrow> fingerprint (fk_public f) \<noteq> fingerprint k}"
    unfolding k by (auto simp: v image_iff)
  have "\<forall>k \<in> set ?k. \<forall>f \<in> set fks. fk_compromised f \<longrightarrow> fingerprint (fk_public f) \<noteq> fingerprint k"
    unfolding ks by simp
  moreover have "set ?k \<subseteq> set pks" unfolding ks by blast
  ultimately show ?thesis using v ne b ok i by auto
qed

definition demo_lock_context :: "(nat, nat, unit, unit) lock_context" where
  "demo_lock_context =
     \<lparr> lc_preferences = Some (from_public_keys id
          (\<lambda>_ _. ([\<lparr> fk_compromised = True, fk_public = 1 \<rparr>, \<lparr> fk_compromised = False, fk_public = 2 \<rparr>], ()))
          () (Some [1, 3])),
       lc_body = Some (), lc_verify = (\<lambda>_ keys. if 3 \<in> set keys then Ok () else Err FailedError), lc_joined = True \<rparr>"

theorem verified_sender_lock_witness:
  "lk_icon (build_default demo_lock_context (Some (HeaderString ''internal'')) (Some (HeaderString ''End-to-End'')))
     = ClosedLockWithTick
   \<and> (\<exists>keys body. set keys \<subseteq> {1, 3} \<and> (\<forall>k \<in> set keys. k \<noteq> 1) \<and> lc_verify demo_lock_context body keys = Ok ())"
proof -
  have t: "lk_icon (build_default demo_lock_context (Some (HeaderString ''internal'')) (Some (HeaderString ''End-to-End'')))
     = ClosedLockWithTick"
    by code_simp
  have p: "lc_preferences demo_lock_context = Some (from_public_keys id
      (\<lambda>_ _. ([\<lparr> fk_compromised = True, fk_public = 1 \<rparr>, \<lparr> fk_compromised = False, fk_public = 2 \<rparr>], ())) () (Some [1, 3]))"
    by (simp add: demo_lock_context_def)
  from verified_sender_lock [OF p, of "Some (HeaderString ''internal'')" "Some (HeaderString ''End-to-End'')"] t show ?thesis
    by auto
qed

text \<open>
  The verification of a body with MIME signatures succeeds exactly when there are keys to verify with and, for a message
  that carries a signature of its own, that one is valid; for any other, one of the MIME signatures is. A
  valid signature of a part cannot make up for an invalid one of the whole.
\<close>

theorem body_verified_iff:
  "verify_mime verify_detached canonicalize keys data signatures mime_signatures = Ok ()
   \<longleftrightarrow> keys \<noteq> []
     \<and> (if signatures \<noteq> [] then verify_detached keys data signatures EncodingBytes = Ok ()
        else \<exists>v \<in> set mime_signatures. verify_mime_signature verify_detached canonicalize keys data v = Ok ())"
proof -
  have ok: "is_ok r \<longleftrightarrow> r = Ok ()" for r :: verification_result by (cases r) auto
  have f: "find is_ok rs = Some (Ok ())" if "list_ex is_ok rs" for rs :: "verification_result list"
    using that by (induction rs) (auto simp: ok)
  have n: "hd rs \<noteq> Ok ()" if "\<not> list_ex is_ok rs" "rs \<noteq> []" for rs :: "verification_result list"
    using that by (cases rs) auto
  let ?f = "verify_mime_signature verify_detached canonicalize keys data"
  have e: "list_ex is_ok (map ?f mime_signatures) \<longleftrightarrow> (\<exists>v \<in> set mime_signatures. ?f v = Ok ())"
    by (simp add: list_ex_iff ok image_iff) metis
  show ?thesis
  proof (cases "list_ex is_ok (map ?f mime_signatures)")
    case True
    then show ?thesis using f [OF True] e by (auto simp: verify_mime_def Let_def)
  next
    case False
    then show ?thesis using n [OF False] e
      by (cases mime_signatures) (auto simp: verify_mime_def Let_def)
  qed
qed

section \<open>The lock of a sent message\<close>

text \<open>
  The lock of a sent message, from its headers: it claims end-to-end encryption by the user exactly if there are recipients, the
  content is end-to-end encrypted and no recipient got the message unencrypted; the tick is shown
  exactly if there are recipients and the keys of all of them are pinned; green exactly if all recipients use external PGP.
\<close>

theorem sent_lock_honest:
  assumes "\<forall>(a, e, post) \<in> set xs. CHR '';'' \<notin> set a \<and> list_all is_whitespace post"
    and "origin_from_str origin_text = Ok origin" and "content_encryption_from_str content_text = Ok content"
  shows "let l = build_draft_or_sent (Some (HeaderString origin_text)) (Some (HeaderString content_text))
        (Some (HeaderString (join_with (CHR '';'') (map (header_entry encryption_keyword) xs))));
      es = map (fst \<circ> snd) xs
    in (lk_tooltip l \<in> {SentE2E, SentE2EVerifiedRecipients}
          \<longleftrightarrow> xs \<noteq> [] \<and> content = ContentEndToEnd \<and> EncNone \<notin> set es)
      \<and> (lk_icon l = ClosedLockWithTick \<longleftrightarrow> xs \<noteq> [] \<and> set es \<subseteq> {EncPgpInlinePinned, EncPgpMimePinned, EncPgpPmPinned})
      \<and> (lk_color l = Green \<longleftrightarrow> xs \<noteq> [] \<and> set es \<subseteq> {EncPgpInline, EncPgpInlinePinned, EncPgpMime, EncPgpMimePinned})"
proof -
  define es where "es = map (fst \<circ> snd) xs"
  have "encryption_from_header (join_with (CHR '';'') (map (header_entry encryption_keyword) xs)) = Ok es"
    unfolding es_def encryption_from_header_def by (rule parse_rendered [OF encryption_keyword_read assms(1)])
  then have l: "build_draft_or_sent (Some (HeaderString origin_text)) (Some (HeaderString content_text))
        (Some (HeaderString (join_with (CHR '';'') (map (header_entry encryption_keyword) xs)))) = for_sent_inbox origin content es"
    by (simp add: build_draft_or_sent_def assms(2,3))
  have ne: "xs = [] \<longleftrightarrow> es = []" by (simp add: es_def)
  have pin: "list_all is_pinned es \<longleftrightarrow> set es \<subseteq> {EncPgpInlinePinned, EncPgpMimePinned, EncPgpPmPinned}"
    by (auto simp: list_all_iff is_pinned_def)
  have ext: "list_all is_external es \<longleftrightarrow> set es \<subseteq> {EncPgpInline, EncPgpInlinePinned, EncPgpMime, EncPgpMimePinned}"
    by (auto simp: list_all_iff is_external_def)
  have enc: "EncNone \<notin> set es" if "list_all is_pinned es" using that by (auto simp: pin)
  have enc': "EncNone \<notin> set es" if "list_all is_external es" using that by (auto simp: ext)
  show ?thesis
    unfolding Let_def l es_def [symmetric] for_sent_inbox_def determine_sent_lock_icon_aggregated_def pin [symmetric]
      ext [symmetric] ne
    using enc enc' by (simp add: lock_def)
qed

theorem sent_lock_honest_witness:
  "lk_tooltip (build_draft_or_sent (Some (HeaderString ''internal'')) (Some (HeaderString ''end-to-end''))
      (Some (HeaderString (join_with (CHR '';'') (map (header_entry encryption_keyword) [(''a'', EncPgpPmPinned, []), (''b'', EncPgpPm, [])])))))
    \<in> {SentE2E, SentE2EVerifiedRecipients}"
proof -
  have "\<forall>(a, e, post) \<in> set [(''a'', EncPgpPmPinned, []), (''b'', EncPgpPm, [])].
      CHR '';'' \<notin> set a \<and> list_all is_whitespace post" by code_simp
  moreover have "origin_from_str ''internal'' = Ok OriginInternal" by code_simp
  moreover have "content_encryption_from_str ''end-to-end'' = Ok ContentEndToEnd" by code_simp
  ultimately show ?thesis
    using sent_lock_honest [of "[(''a'', EncPgpPmPinned, []), (''b'', EncPgpPm, [])]" "''internal''" OriginInternal
        "''end-to-end''" ContentEndToEnd] by (simp add: Let_def)
qed

end
