(* ===== verification/Ics_Reader.thy ===== *)
theory Ics_Reader
  imports Prelude
begin

text \<open>
  The reader of the calendar format (\<open>shared/ical/src/io/reader.rs\<close>, \<open>read.rs\<close>, \<open>span.rs\<close>):
  positions and spans, messages and their limit, the combinators that run a parser under other
  hints, an extra context, a lookahead or silently, and the elementary parsers from one byte up
  to a whole line.  A parser is a function from the reader to an optional value and the reader
  after it.  Characters are code points, strings are lists of them and the source is a list of
  octets.  What the code takes from the crates \<open>utf8_width\<close> and \<open>jiff\<close>, and the Unicode
  table behind \<open>char::is_alphabetic\<close>, is an argument the reader carries.
\<close>

section \<open>Characters\<close>

type_synonym uchar = nat
type_synonym ustring = "uchar list"
type_synonym octets = "nat list"

definition ascii :: "string \<Rightarrow> ustring" where
  "ascii s = map of_char s"

definition ascii_lower :: "uchar \<Rightarrow> uchar" where
  "ascii_lower c = (if 65 \<le> c \<and> c \<le> 90 then c + 32 else c)"

definition eq_ignore_case :: "ustring \<Rightarrow> ustring \<Rightarrow> bool" where
  "eq_ignore_case a b = (map ascii_lower a = map ascii_lower b)"

definition is_digit_char :: "uchar \<Rightarrow> bool" where
  "is_digit_char c = (48 \<le> c \<and> c \<le> 57)"

text \<open>\<open>char::is_control\<close>: the general category \<open>Cc\<close>.\<close>

definition is_control_char :: "uchar \<Rightarrow> bool" where
  "is_control_char c = (c \<le> 31 \<or> 127 \<le> c \<and> c \<le> 159)"

text \<open>\<open>char::is_whitespace\<close>: the property \<open>White_Space\<close>.\<close>

definition is_white_char :: "uchar \<Rightarrow> bool" where
  "is_white_char c = (9 \<le> c \<and> c \<le> 13 \<or> 8192 \<le> c \<and> c \<le> 8202
     \<or> c \<in> {32, 133, 160, 5760, 8232, 8233, 8239, 8287, 12288})"

definition trim_str :: "ustring \<Rightarrow> ustring" where
  "trim_str s = rev (dropWhile is_white_char (rev (dropWhile is_white_char s)))"

text \<open>A code point that \<open>char\<close> can hold.\<close>

definition scalar :: "uchar \<Rightarrow> bool" where
  "scalar c = (c < 55296 \<or> 57344 \<le> c \<and> c < 1114112)"

definition len_utf8 :: "uchar \<Rightarrow> nat" where
  "len_utf8 c = (if c < 128 then 1 else if c < 2048 then 2 else if c < 65536 then 3 else 4)"

definition utf8 :: "uchar \<Rightarrow> octets" where
  "utf8 c =
    (if c < 128 then [c]
     else if c < 2048 then [192 + c div 64, 128 + c mod 64]
     else if c < 65536 then [224 + c div 4096, 128 + c div 64 mod 64, 128 + c mod 64]
     else [240 + c div 262144, 128 + c div 4096 mod 64, 128 + c div 64 mod 64, 128 + c mod 64])"

definition utf8s :: "ustring \<Rightarrow> octets" where
  "utf8s s = concat (map utf8 s)"

definition cont_byte :: "nat \<Rightarrow> bool" where
  "cont_byte b = (128 \<le> b \<and> b < 192)"

text \<open>The first character of the first chunk of \<open>utf8_chunks\<close>, when that chunk starts with
  valid characters.\<close>

definition utf8_first :: "octets \<Rightarrow> uchar option" where
  "utf8_first buf = (case buf of
     b0 # b1 # b2 # b3 # _ \<Rightarrow>
       if b0 < 128 then Some b0
       else if 194 \<le> b0 \<and> b0 < 224 \<and> cont_byte b1 then Some ((b0 - 192) * 64 + (b1 - 128))
       else if 224 \<le> b0 \<and> b0 < 240 \<and> cont_byte b1 \<and> cont_byte b2
            \<and> (b0 = 224 \<longrightarrow> 160 \<le> b1) \<and> (b0 = 237 \<longrightarrow> b1 < 160)
       then Some ((b0 - 224) * 4096 + (b1 - 128) * 64 + (b2 - 128))
       else if 240 \<le> b0 \<and> b0 < 245 \<and> cont_byte b1 \<and> cont_byte b2 \<and> cont_byte b3
            \<and> (b0 = 240 \<longrightarrow> 144 \<le> b1) \<and> (b0 = 244 \<longrightarrow> b1 < 144)
       then Some ((b0 - 240) * 262144 + (b1 - 128) * 4096 + (b2 - 128) * 64 + (b3 - 128))
       else None
   | _ \<Rightarrow> None)"

section \<open>Positions, spans and messages\<close>

record ics_pos =
  p_byte :: nat
  p_line :: nat
  p_char :: nat
  p_prev_line :: nat
  p_prev_char :: nat

type_synonym line_and_char = "nat \<times> nat"

definition pos_default :: ics_pos where
  "pos_default = \<lparr>p_byte = 0, p_line = 1, p_char = 1, p_prev_line = 1, p_prev_char = 1\<rparr>"

definition pos_prev :: "ics_pos \<Rightarrow> line_and_char" where
  "pos_prev p = (p_prev_line p, p_prev_char p)"

definition pos_lc :: "ics_pos \<Rightarrow> line_and_char" where
  "pos_lc p = (p_line p, p_char p)"

datatype ics_span = Span (sp_start: line_and_char) (sp_end: line_and_char)

definition span_one :: "line_and_char \<Rightarrow> ics_span" where
  "span_one c = Span c c"

datatype 'a spanned = Spanned (sp_span: ics_span) (sp_value: 'a)

definition spanned_map :: "('a \<Rightarrow> 'b) \<Rightarrow> 'a spanned \<Rightarrow> 'b spanned" where
  "spanned_map f s = Spanned (sp_span s) (f (sp_value s))"

datatype read_msg_kind = MsgWarning | MsgError

text \<open>The body of a message: the format string of the source and the texts it interpolates.\<close>

datatype msg_body = MsgBody string "ustring list"

abbreviation plain_body :: "string \<Rightarrow> msg_body" where
  "plain_body t \<equiv> MsgBody t []"

record read_msg =
  m_at :: "ics_span option"
  m_body :: msg_body
  m_kind :: read_msg_kind
  m_context :: "string spanned list"

record ics_hints =
  inside_array :: bool
  inside_quote :: bool

section \<open>The reader\<close>

text \<open>What the reader takes from elsewhere: the width of a character by its first octet
  (\<open>utf8_width::get_width\<close>, at most 4), \<open>char::is_alphabetic\<close>, whether
  \<open>jiff::civil::Date::new\<close> accepts a year, a month and a day, and whether
  \<open>email_address::EmailAddress::parse_with_options\<close> accepts a string.\<close>

record ics_env =
  env_width :: "nat \<Rightarrow> nat"
  env_alphabetic :: "uchar \<Rightarrow> bool"
  env_date :: "nat \<Rightarrow> nat \<Rightarrow> nat \<Rightarrow> bool"
  env_email :: "ustring \<Rightarrow> bool"

record ics_reader =
  rd_src :: octets
  rd_pos :: ics_pos
  rd_hints :: ics_hints
  rd_msgs :: "read_msg list"
  rd_context :: "string spanned list"
  rd_env :: ics_env
  rd_stalled :: bool

type_synonym 'a rd = "ics_reader \<Rightarrow> 'a option \<times> ics_reader"

definition reader_new :: "ics_env \<Rightarrow> octets \<Rightarrow> ics_reader" where
  "reader_new env src = \<lparr>rd_src = src, rd_pos = pos_default,
     rd_hints = \<lparr>inside_array = False, inside_quote = False\<rparr>, rd_msgs = [], rd_context = [],
     rd_env = env, rd_stalled = False\<rparr>"

definition reader_is_empty :: "ics_reader \<Rightarrow> bool" where
  "reader_is_empty r = (length (rd_src r) \<le> p_byte (rd_pos r))"

definition max_msgs :: nat where
  "max_msgs = 32"

text \<open>\<open>IcsReader::msg\<close>; the flag is whether it returned \<open>Ok\<close>.\<close>

definition reader_msg ::
  "ics_span option \<Rightarrow> msg_body \<Rightarrow> read_msg_kind \<Rightarrow> string spanned list option \<Rightarrow> ics_reader
     \<Rightarrow> bool \<times> ics_reader" where
  "reader_msg at body kind ctx r =
    (if length (rd_msgs r) < max_msgs
     then (True, r\<lparr>rd_msgs := rd_msgs r @ [\<lparr>m_at = at, m_body = body, m_kind = kind,
              m_context = (case ctx of Some c \<Rightarrow> c | None \<Rightarrow> rd_context r)\<rparr>]\<rparr>)
     else (False,
       if length (rd_msgs r) = max_msgs
       then r\<lparr>rd_msgs := rd_msgs r @ [\<lparr>m_at = None,
              m_body = plain_body ''got too many messages, going silent'',
              m_kind = MsgWarning, m_context = []\<rparr>]\<rparr>
       else r))"

definition reader_warn :: "ics_span option \<Rightarrow> msg_body \<Rightarrow> ics_reader \<Rightarrow> ics_reader" where
  "reader_warn at body r = snd (reader_msg at body MsgWarning None r)"

definition reader_error :: "ics_span option \<Rightarrow> msg_body \<Rightarrow> ics_reader \<Rightarrow> ics_reader" where
  "reader_error at body r = snd (reader_msg at body MsgError None r)"

text \<open>The loop of \<open>attempt\<close> that hands over the collected messages; it stops at the first
  one that is refused.\<close>

fun forward_msgs :: "read_msg list \<Rightarrow> ics_reader \<Rightarrow> ics_reader" where
  "forward_msgs [] r = r"
| "forward_msgs (m # ms) r =
    (case reader_msg (m_at m) (m_body m) (m_kind m) (Some (rd_context r @ m_context m)) r of
       (True, r') \<Rightarrow> forward_msgs ms r'
     | (False, r') \<Rightarrow> r')"

section \<open>Running parsers\<close>

text \<open>The operator \<open>?\<close>: stop when there is no value.\<close>

definition rbind :: "'a rd \<Rightarrow> ('a \<Rightarrow> 'b rd) \<Rightarrow> 'b rd" where
  "rbind p f r = (case p r of (None, r') \<Rightarrow> (None, r') | (Some a, r') \<Rightarrow> f a r')"

definition rret :: "'a \<Rightarrow> 'a rd" where
  "rret a r = (Some a, r)"

definition rfail :: "'a rd" where
  "rfail r = (None, r)"

text \<open>\<open>_ = p(r);\<close> followed by the rest.\<close>

definition rthen :: "(ics_reader \<Rightarrow> 'a \<times> ics_reader) \<Rightarrow> (ics_reader \<Rightarrow> 'b \<times> ics_reader)
    \<Rightarrow> ics_reader \<Rightarrow> 'b \<times> ics_reader" where
  "rthen p q r = q (snd (p r))"

text \<open>\<open>if let Some(a) = p(r) { f } else { g }\<close>.\<close>

definition rcase :: "'a rd \<Rightarrow> ('a \<Rightarrow> ics_reader \<Rightarrow> 'b \<times> ics_reader)
    \<Rightarrow> (ics_reader \<Rightarrow> 'b \<times> ics_reader) \<Rightarrow> ics_reader \<Rightarrow> 'b \<times> ics_reader" where
  "rcase p f g r = (case p r of (Some a, r') \<Rightarrow> f a r' | (None, r') \<Rightarrow> g r')"

definition rerror :: "ics_span option \<Rightarrow> msg_body \<Rightarrow> (ics_reader \<Rightarrow> 'b \<times> ics_reader)
    \<Rightarrow> ics_reader \<Rightarrow> 'b \<times> ics_reader" where
  "rerror at body k r = k (reader_error at body r)"

definition rwarn :: "ics_span option \<Rightarrow> msg_body \<Rightarrow> (ics_reader \<Rightarrow> 'b \<times> ics_reader)
    \<Rightarrow> ics_reader \<Rightarrow> 'b \<times> ics_reader" where
  "rwarn at body k r = k (reader_warn at body r)"

definition reader_hint :: "(ics_hints \<Rightarrow> ics_hints) \<Rightarrow> (ics_reader \<Rightarrow> 'b \<times> ics_reader)
    \<Rightarrow> ics_reader \<Rightarrow> 'b \<times> ics_reader" where
  "reader_hint h f r = (let (res, r') = f (r\<lparr>rd_hints := h (rd_hints r)\<rparr>)
     in (res, r'\<lparr>rd_hints := rd_hints r\<rparr>))"

definition reader_context :: "ics_span \<Rightarrow> string \<Rightarrow> (ics_reader \<Rightarrow> 'b \<times> ics_reader)
    \<Rightarrow> ics_reader \<Rightarrow> 'b \<times> ics_reader" where
  "reader_context span tag f r =
    (let (res, r') = f (r\<lparr>rd_context := rd_context r @ [Spanned span tag]\<rparr>)
     in (res, r'\<lparr>rd_context := butlast (rd_context r')\<rparr>))"

definition reader_attempt :: "'a rd \<Rightarrow> 'a rd" where
  "reader_attempt f r =
    (case f (r\<lparr>rd_msgs := [], rd_context := []\<rparr>) of
       (Some val, this) \<Rightarrow>
         (Some val,
          let r' = forward_msgs (rd_msgs this) (r\<lparr>rd_pos := rd_pos this, rd_stalled := rd_stalled this\<rparr>)
          in r'\<lparr>rd_context := rd_context r' @ rd_context this\<rparr>)
     | (None, this) \<Rightarrow> (None, r\<lparr>rd_stalled := rd_stalled this\<rparr>))"

definition reader_silently :: "(ics_reader \<Rightarrow> 'b \<times> ics_reader) \<Rightarrow> ics_reader \<Rightarrow> 'b \<times> ics_reader" where
  "reader_silently f r = (let (res, r') = f (r\<lparr>rd_msgs := []\<rparr>) in (res, r'\<lparr>rd_msgs := rd_msgs r\<rparr>))"

definition reader_spanned :: "'a rd \<Rightarrow> 'a spanned rd" where
  "reader_spanned f r =
    (case f r of
       (None, r') \<Rightarrow> (None, r')
     | (Some v, r') \<Rightarrow> (Some (Spanned (Span (pos_lc (rd_pos r)) (pos_prev (rd_pos r'))) v), r'))"

text \<open>\<open>Spanned<Result<T, E>>::unwrap\<close>; the argument of \<open>Inl\<close> is the message of the error.\<close>

definition spanned_unwrap :: "(msg_body + 'a) spanned \<Rightarrow> 'a rd" where
  "spanned_unwrap s = (case sp_value s of
     Inr v \<Rightarrow> rret v
   | Inl err \<Rightarrow> rerror (Some (sp_span s)) err rfail)"

text \<open>
  Every loop of the reader runs its body until it breaks.  The octets that are left bound the
  number of rounds, because no body goes on without having consumed one.  A loop that reaches the
  bound, as one that would go on for ever does, is given up and leaves its mark on the
  reader: \<open>rd_stalled\<close>, the one field that the Rust reader does not have.  The mark outlives a
  failed \<open>attempt\<close> and is never taken back; \<open>Ics_Progress\<close> proves for each loop that it is not set.
\<close>

datatype ('s, 'b) flow = Continue 's | Break "'b option"

type_synonym ('s, 'b) body = "'s \<Rightarrow> ics_reader \<Rightarrow> ('s, 'b) flow \<times> ics_reader"

definition rd_left :: "ics_reader \<Rightarrow> nat" where
  "rd_left r = length (rd_src r) - p_byte (rd_pos r)"

fun rloop_fuel :: "nat \<Rightarrow> ('s, 'b) body \<Rightarrow> 's \<Rightarrow> 'b rd" where
  "rloop_fuel 0 body s r = (None, r\<lparr>rd_stalled := True\<rparr>)"
| "rloop_fuel (Suc n) body s r =
    (case body s r of
       (Continue s', r') \<Rightarrow> rloop_fuel n body s' r'
     | (Break b, r') \<Rightarrow> (b, r'))"

definition rloop :: "('s, 'b) body \<Rightarrow> 's \<Rightarrow> 'b rd" where
  "rloop body s r = rloop_fuel (Suc (rd_left r)) body s r"

section \<open>Elementary parsers\<close>

text \<open>The loop of \<open>IcsReader::byte\<close> over what is left of the source: carriage returns and
  folds are skipped.\<close>

fun byte_scan :: "octets \<Rightarrow> ics_pos \<Rightarrow> nat option \<times> ics_pos" where
  "byte_scan [] p = (None, p)"
| "byte_scan (c0 # cs) p =
    (if c0 = 13 then byte_scan cs (p\<lparr>p_byte := p_byte p + 1\<rparr>)
     else if c0 = 10 then
       (case cs of
          c1 # cs' \<Rightarrow>
            if c1 = 32 \<or> c1 = 9
            then byte_scan cs' (p\<lparr>p_byte := p_byte p + 2, p_line := p_line p + 1, p_char := 2\<rparr>)
            else (Some 10, p\<lparr>p_byte := p_byte p + 1, p_line := p_line p + 1, p_char := 1\<rparr>)
        | [] \<Rightarrow> (Some 10, p\<lparr>p_byte := p_byte p + 1, p_line := p_line p + 1, p_char := 1\<rparr>))
     else (Some c0, p\<lparr>p_byte := p_byte p + 1, p_char := p_char p + 1\<rparr>))"

definition reader_byte :: "nat rd" where
  "reader_byte r =
    (let p0 = (rd_pos r)\<lparr>p_prev_line := p_line (rd_pos r), p_prev_char := p_char (rd_pos r)\<rparr>;
         (b, p) = byte_scan (drop (p_byte p0) (rd_src r)) p0
     in (b, r\<lparr>rd_pos := p\<rparr>))"

fun reader_bytes :: "nat \<Rightarrow> octets rd" where
  "reader_bytes 0 = rret []"
| "reader_bytes (Suc n) = rbind reader_byte (\<lambda>b. rbind (reader_bytes n) (\<lambda>bs. rret (b # bs)))"

text \<open>One round of \<open>IcsReader::char\<close>.\<close>

definition char_round :: "(unit, uchar) body" where
  "char_round u r =
    (case reader_byte r of
       (None, r1) \<Rightarrow> (Break None, r1)
     | (Some b, r1) \<Rightarrow>
         (case reader_bytes (env_width (rd_env r) b - 1) r1 of
            (None, r2) \<Rightarrow> (Break None, r2)
          | (Some bs, r2) \<Rightarrow>
              (case utf8_first (take 4 (b # bs @ [0, 0, 0])) of
                 Some ch \<Rightarrow> (Break (Some ch), r2)
               | None \<Rightarrow> (Continue (),
                   reader_warn (Some (Span (pos_lc (rd_pos r)) (pos_lc (rd_pos r2))))
                     (plain_body ''invalid unicode character'') r2))))"

definition reader_char :: "uchar rd" where
  "reader_char = rloop char_round ()"

definition reader_peek :: "ics_reader \<Rightarrow> uchar option" where
  "reader_peek r = fst (reader_char (r\<lparr>rd_msgs := [], rd_context := []\<rparr>))"

definition reader_try_eat :: "uchar \<Rightarrow> unit rd" where
  "reader_try_eat ch = reader_attempt (rbind reader_char (\<lambda>got.
     if ascii_lower got = ascii_lower ch then rret () else rfail))"

text \<open>The message of \<open>eat\<close> and \<open>digit\<close> when the next character is another one.\<close>

definition expected_body :: "string \<Rightarrow> ustring list \<Rightarrow> ics_reader \<Rightarrow> msg_body" where
  "expected_body fmt args r = (case reader_peek r of
     None \<Rightarrow> plain_body ''incomplete source''
   | Some got \<Rightarrow> MsgBody fmt (args @ [[got]]))"

definition reader_eat :: "uchar \<Rightarrow> unit rd" where
  "reader_eat ch = rcase (reader_try_eat ch) (\<lambda>_. rret ())
     (\<lambda>r. rerror (Some (span_one (pos_lc (rd_pos r))))
        (expected_body ''expected {ch:?}, got {got:?}'' [[ch]] r) rfail r)"

fun reader_eat_all :: "ustring \<Rightarrow> unit rd" where
  "reader_eat_all [] = rret ()"
| "reader_eat_all (c # cs) = rbind (reader_eat c) (\<lambda>_. reader_eat_all cs)"

definition reader_try_string :: "ustring \<Rightarrow> unit rd" where
  "reader_try_string s = reader_attempt (reader_eat_all s)"

definition reader_try_digit :: "uchar rd" where
  "reader_try_digit = reader_attempt (rbind reader_char (\<lambda>got.
     if is_digit_char got then rret got else rfail))"

definition reader_digit :: "uchar rd" where
  "reader_digit = rcase reader_try_digit rret
     (\<lambda>r. rerror (Some (span_one (pos_lc (rd_pos r))))
        (expected_body ''expected digit (0-9), got {got:?}'' [] r) rfail r)"

fun reader_digit_seq :: "nat \<Rightarrow> ustring rd" where
  "reader_digit_seq 0 = rret []"
| "reader_digit_seq (Suc n) = rbind reader_digit (\<lambda>d. rbind (reader_digit_seq n) (\<lambda>ds. rret (d # ds)))"

text \<open>\<open>u32::from_str\<close> on a string of decimal digits.\<close>

definition digits_value :: "ustring \<Rightarrow> nat" where
  "digits_value s = foldl (\<lambda>v d. v * 10 + (d - 48)) 0 s"

definition parse_u32 :: "ustring \<Rightarrow> msg_body + nat" where
  "parse_u32 s =
    (if s = [] then Inl (plain_body ''cannot parse integer from empty string'')
     else if digits_value s < 2 ^ 32 then Inr (digits_value s)
     else Inl (plain_body ''number too large to fit in target type''))"

definition reader_digits :: "nat \<Rightarrow> nat rd" where
  "reader_digits n = rbind (reader_spanned (rbind (reader_digit_seq n) (\<lambda>num. rret (parse_u32 num))))
     spanned_unwrap"

definition ident_round :: "(ustring, ustring) body" where
  "ident_round value r = (case reader_peek r of
     Some ch \<Rightarrow>
       if env_alphabetic (rd_env r) ch \<or> ch = 45
       then (Continue (value @ [ch]), snd (reader_char r))
       else (Break (Some value), r)
   | None \<Rightarrow> (Break (Some value), r))"

definition reader_ident :: "ustring rd" where
  "reader_ident r = (case reader_peek r of
     None \<Rightarrow> rerror (Some (span_one (pos_lc (rd_pos r)))) (plain_body ''incomplete source'') rfail r
   | Some got \<Rightarrow>
       if \<not> env_alphabetic (rd_env r) got
       then rerror (Some (span_one (pos_lc (rd_pos r))))
              (MsgBody ''expected identifier (a-zA-Z), got {got:?}'' [[got]]) rfail r
       else rthen reader_char (rloop ident_round [got]) r)"

definition rest_round :: "(ustring, ustring) body" where
  "rest_round value r = (case reader_char r of
     (Some ch, r') \<Rightarrow> if ch = 10 then (Break (Some value), r') else (Continue (value @ [ch]), r')
   | (None, r') \<Rightarrow> (Break (Some value), r'))"

text \<open>What \<open>IcsReader::rest\<close> does once the line has been read: the end of the span moves back
  over the newline, and blanks around the value are cut off with a warning.\<close>

definition rest_finish :: "ics_pos \<Rightarrow> ustring \<Rightarrow> ustring rd" where
  "rest_finish start value r =
    (let r1 = r\<lparr>rd_pos := (rd_pos r)\<lparr>p_prev_char := max (p_prev_char (rd_pos r) - 1) 1\<rparr>\<rparr>
     in if value \<noteq> [] \<and> (hd value = 32 \<or> last value = 32)
        then rwarn (Some (Span (pos_lc start) (pos_prev (rd_pos r1))))
               (plain_body ''quirky whitespace around value'') (rret (trim_str value)) r1
        else (Some value, r1))"

definition reader_rest :: "ustring rd" where
  "reader_rest r = rbind (rloop rest_round []) (rest_finish (rd_pos r)) r"

section \<open>Objects that can be read\<close>

text \<open>The implementation of \<open>IcsRead\<close> for one type: its name, its parser, its default.\<close>

record 'a ics_type =
  ty_name :: string
  ty_read :: "'a rd"
  ty_default :: "'a option"

definition plain_type :: "string \<Rightarrow> 'a rd \<Rightarrow> 'a ics_type" where
  "plain_type n p = \<lparr>ty_name = n, ty_read = p, ty_default = None\<rparr>"

definition spanned_type :: "'a ics_type \<Rightarrow> 'a spanned ics_type" where
  "spanned_type T = plain_type (ty_name T) (reader_spanned (ty_read T))"

definition reader_any :: "'a ics_type \<Rightarrow> 'a rd" where
  "reader_any T r = reader_context (span_one (pos_lc (rd_pos r))) (ty_name T) (ty_read T) r"

text \<open>\<open>IcsRead::from_str_ex\<close> and \<open>from_str\<close>; \<open>None\<close> is the panic on unread data and the one
  on a missing value without a message.\<close>

definition from_str_ex :: "ics_env \<Rightarrow> 'a ics_type \<Rightarrow> octets \<Rightarrow> ('a option \<times> read_msg list) option" where
  "from_str_ex env T src = (case ty_read T (reader_new env src) of
     (this, r) \<Rightarrow> if reader_is_empty r then Some (this, rd_msgs r) else None)"

definition from_str :: "ics_env \<Rightarrow> 'a ics_type \<Rightarrow> octets \<Rightarrow> (read_msg list + 'a) option" where
  "from_str env T src = (case from_str_ex env T src of
     None \<Rightarrow> None
   | Some (this, msgs) \<Rightarrow>
       if msgs = [] then (case this of Some v \<Rightarrow> Some (Inr v) | None \<Rightarrow> None)
       else Some (Inl msgs))"

definition char_type :: "uchar ics_type" where
  "char_type = plain_type ''char'' reader_char"

definition u32_round :: "(ustring, ustring) body" where
  "u32_round number r = (case reader_try_digit r of
     (Some d, r') \<Rightarrow> (Continue (number @ [d]), r')
   | (None, r') \<Rightarrow> (Break (Some number), r'))"

definition u32_read :: "nat rd" where
  "u32_read = rbind (reader_spanned
       (rcase (reader_spanned (reader_try_eat 45))
          (\<lambda>s. rerror (Some (sp_span s))
             (plain_body ''unexpected minus sign, expecting an unsigned integer'') (rloop u32_round []))
          (rthen (reader_try_eat 43) (rloop u32_round []))))
     (\<lambda>number. spanned_unwrap (spanned_map parse_u32 number))"

definition u32_type :: "nat ics_type" where
  "u32_type = plain_type ''u32'' u32_read"

definition vec_round :: "'a ics_type \<Rightarrow> ('a list, 'a list) body" where
  "vec_round T values r =
    (let (v, r1) = reader_any T r;
         values' = (case v of Some a \<Rightarrow> values @ [a] | None \<Rightarrow> values)
     in case reader_try_eat 44 r1 of
          (None, r2) \<Rightarrow> (Break (Some values'), r2)
        | (Some _, r2) \<Rightarrow> (Continue values', r2))"

definition vec_read :: "'a ics_type \<Rightarrow> 'a list rd" where
  "vec_read T = reader_hint (\<lambda>h. h\<lparr>inside_array := True\<rparr>) (rloop (vec_round T) [])"

definition vec_type :: "'a ics_type \<Rightarrow> 'a list ics_type" where
  "vec_type T = plain_type (''Vec<'' @ ty_name T @ ''>'') (vec_read T)"

end
