(* ===== verification/Ics_Writer.thy ===== *)
theory Ics_Writer
  imports Ics_Reader
begin

text \<open>
  The writer of the calendar format (\<open>shared/ical/src/io/writer.rs\<close>, \<open>write.rs\<close>): its buffer
  turns newlines into \<open>CRLF\<close> and folds lines at 75 octets.  The lemmas say that what is
  written is a function of the text handed to the writer (\<open>fold_text\<close>), that no line exceeds
  the limit, and that unfolding the octets gives the text back.
\<close>

section \<open>The writer\<close>

record ics_writer =
  w_out :: ustring
  w_line_len :: nat

definition writer_default :: ics_writer where
  "writer_default = \<lparr>w_out = [], w_line_len = 0\<rparr>"

definition write_char :: "uchar \<Rightarrow> ics_writer \<Rightarrow> ics_writer" where
  "write_char ch w =
    (if ch = 10 then \<lparr>w_out = w_out w @ [13, 10], w_line_len = 0\<rparr>
     else let w1 = (if w_line_len w + len_utf8 ch > 75
                    then \<lparr>w_out = w_out w @ [13, 10, 32], w_line_len = 1\<rparr> else w)
          in \<lparr>w_out = w_out w1 @ [ch], w_line_len = w_line_len w1 + len_utf8 ch\<rparr>)"

definition write_raw :: "ustring \<Rightarrow> ics_writer \<Rightarrow> ics_writer" where
  "write_raw s w = fold write_char s w"

definition write_finish :: "ics_writer \<Rightarrow> ustring" where
  "write_finish w = w_out w"

definition write_comp :: "string \<Rightarrow> (ics_writer \<Rightarrow> ics_writer) \<Rightarrow> ics_writer \<Rightarrow> ics_writer" where
  "write_comp name value w =
    write_raw (ascii ''END:'' @ ascii name @ [10])
      (value (write_raw (ascii ''BEGIN:'' @ ascii name @ [10]) w))"

definition write_prop :: "string \<Rightarrow> (ics_writer \<Rightarrow> ics_writer) \<Rightarrow> ics_writer \<Rightarrow> ics_writer" where
  "write_prop name value w = write_raw [10] (value (write_raw (ascii name) w))"

definition write_prop_opt :: "string \<Rightarrow> ('a \<Rightarrow> ics_writer \<Rightarrow> ics_writer) \<Rightarrow> 'a option
    \<Rightarrow> ics_writer \<Rightarrow> ics_writer" where
  "write_prop_opt name value v w = (case v of Some a \<Rightarrow> write_prop name (value a) w | None \<Rightarrow> w)"

text \<open>A parameter gets a semicolon unless the output ends with a colon: the last octet must
  start a character, which only an \<open>ASCII\<close> one does.\<close>

definition needs_semicolon :: "ustring \<Rightarrow> bool" where
  "needs_semicolon out = (out = [] \<or> (last out < 128 \<and> last out \<noteq> 58))"

definition write_param :: "string \<Rightarrow> (ics_writer \<Rightarrow> ics_writer) \<Rightarrow> ics_writer \<Rightarrow> ics_writer" where
  "write_param name value w =
    (let w1 = (if needs_semicolon (w_out w) then write_raw [59] w else w)
     in value (write_raw (ascii name @ [61]) w1))"

definition write_param_opt :: "string \<Rightarrow> ('a \<Rightarrow> ics_writer \<Rightarrow> ics_writer) \<Rightarrow> 'a option
    \<Rightarrow> ics_writer \<Rightarrow> ics_writer" where
  "write_param_opt name value v w = (case v of Some a \<Rightarrow> write_param name (value a) w | None \<Rightarrow> w)"

text \<open>\<open>IcsWrite::to_string\<close>.\<close>

definition to_string :: "(ics_writer \<Rightarrow> ics_writer) \<Rightarrow> ustring" where
  "to_string value = trim_str (write_finish (value writer_default))"

section \<open>Numbers and lists\<close>

text \<open>Decimal digits as \<open>core::fmt\<close> prints them.\<close>

fun dec_str :: "nat \<Rightarrow> ustring" where
  "dec_str n = (if n < 10 then [48 + n] else dec_str (n div 10) @ [48 + n mod 10])"

declare dec_str.simps [simp del]

definition pad_str :: "nat \<Rightarrow> nat \<Rightarrow> ustring" where
  "pad_str w n = replicate (w - length (dec_str n)) 48 @ dec_str n"

definition write_uint :: "nat \<Rightarrow> ics_writer \<Rightarrow> ics_writer" where
  "write_uint n = write_raw (dec_str n)"

definition write_sint :: "int \<Rightarrow> ics_writer \<Rightarrow> ics_writer" where
  "write_sint i = write_raw ((if i < 0 then [45] else []) @ dec_str (nat \<bar>i\<bar>))"

definition write_bool :: "bool \<Rightarrow> ics_writer \<Rightarrow> ics_writer" where
  "write_bool b = write_raw (if b then ascii ''TRUE'' else ascii ''FALSE'')"

text \<open>\<open>IcsWrite<Value> for Vec<T>\<close>: the flag is whether the index is above 0.\<close>

fun write_vec_from :: "bool \<Rightarrow> ('a \<Rightarrow> ics_writer \<Rightarrow> ics_writer) \<Rightarrow> 'a list \<Rightarrow> ics_writer \<Rightarrow> ics_writer" where
  "write_vec_from sep value [] w = w"
| "write_vec_from sep value (x # xs) w =
    write_vec_from True value xs (value x (if sep then write_raw [44] w else w))"

definition write_vec :: "('a \<Rightarrow> ics_writer \<Rightarrow> ics_writer) \<Rightarrow> 'a list \<Rightarrow> ics_writer \<Rightarrow> ics_writer" where
  "write_vec value xs = write_vec_from False value xs"

section \<open>What is written\<close>

text \<open>The text a writer produces for an input, given the length of its current line.\<close>

fun fold_text :: "nat \<Rightarrow> ustring \<Rightarrow> ustring" where
  "fold_text l [] = []"
| "fold_text l (c # s) =
    (if c = 10 then 13 # 10 # fold_text 0 s
     else if l + len_utf8 c > 75 then 13 # 10 # 32 # c # fold_text (1 + len_utf8 c) s
     else c # fold_text (l + len_utf8 c) s)"

fun fold_len :: "nat \<Rightarrow> ustring \<Rightarrow> nat" where
  "fold_len l [] = l"
| "fold_len l (c # s) =
    (if c = 10 then fold_len 0 s
     else if l + len_utf8 c > 75 then fold_len (1 + len_utf8 c) s
     else fold_len (l + len_utf8 c) s)"

lemma write_raw_fold:
  "write_raw s w = \<lparr>w_out = w_out w @ fold_text (w_line_len w) s,
     w_line_len = fold_len (w_line_len w) s\<rparr>"
  by (induction s arbitrary: w) (simp_all add: write_raw_def write_char_def Let_def)

lemma write_raw_append [simp]: "write_raw (s @ t) w = write_raw t (write_raw s w)"
  by (simp add: write_raw_def)

lemma write_raw_Nil [simp]: "write_raw [] w = w"
  by (simp add: write_raw_def)

lemma write_raw_Cons: "s \<noteq> [] \<Longrightarrow> write_raw (c # s) w = write_raw s (write_raw [c] w)"
  by (simp add: write_raw_def)

lemma fold_text_Nil_iff [simp]: "fold_text l s = [] \<longleftrightarrow> s = []"
  by (cases s) auto

lemma last_fold_text: "s \<noteq> [] \<Longrightarrow> last (fold_text l s) = last s"
  by (induction l s rule: fold_text.induct) auto

lemma last_write_raw: "s \<noteq> [] \<Longrightarrow> last (w_out (write_raw s w)) = last s"
  by (simp add: write_raw_fold last_fold_text)

lemma out_write_raw_Nil [simp]: "w_out (write_raw s w) = [] \<longleftrightarrow> w_out w = [] \<and> s = []"
  by (simp add: write_raw_fold)

lemma needs_semicolon_write_raw:
  "s \<noteq> [] \<Longrightarrow> needs_semicolon (w_out (write_raw s w)) = (last s < 128 \<and> last s \<noteq> 58)"
  by (simp add: needs_semicolon_def last_write_raw)

section \<open>Lines\<close>

text \<open>The lines of an output, cut at each \<open>CRLF\<close>.\<close>

fun crlf_lines :: "ustring \<Rightarrow> ustring \<Rightarrow> ustring list" where
  "crlf_lines cur [] = [rev cur]"
| "crlf_lines cur (c # s) =
    (case s of
       d # s' \<Rightarrow> if c = 13 \<and> d = 10 then rev cur # crlf_lines [] s' else crlf_lines (c # cur) s
     | [] \<Rightarrow> [rev (c # cur)])"

lemma utf8_length: "length (utf8 c) = len_utf8 c"
  by (simp add: utf8_def len_utf8_def)

lemma len_utf8_bounds: "1 \<le> len_utf8 c" "len_utf8 c \<le> 4"
  by (simp_all add: len_utf8_def)

lemma utf8s_simps [simp]:
  "utf8s [] = []" "utf8s (c # s) = utf8 c @ utf8s s" "utf8s (s @ t) = utf8s s @ utf8s t"
  by (simp_all add: utf8s_def)

lemma crlf_lines_other:
  assumes "c \<noteq> 13"
  shows "crlf_lines cur (c # s) = crlf_lines (c # cur) s"
  using assms by (cases s) auto

lemma crlf_lines_break: "crlf_lines cur (13 # 10 # s) = rev cur # crlf_lines [] s"
  by simp

lemma fold_text_lines:
  assumes "length (utf8s (rev cur)) = l" and "l \<le> 75" and "13 \<notin> set s"
  shows "\<forall>line \<in> set (crlf_lines cur (fold_text l s)). length (utf8s line) \<le> 75"
  using assms
proof (induction l s arbitrary: cur rule: fold_text.induct)
  case (1 l) then show ?case by simp
next
  case (2 l c s)
  show ?case
  proof (cases "c = 10")
    case True
    then show ?thesis using "2.IH"(1) [OF True, of "[]"] "2.prems" by simp
  next
    case nl: False
    show ?thesis
    proof (cases "l + len_utf8 c > 75")
      case True
      have IH: "\<forall>line \<in> set (crlf_lines [c, 32] (fold_text (1 + len_utf8 c) s)). length (utf8s line) \<le> 75"
        using "2.IH"(2) [OF nl True, of "[c, 32]"] "2.prems" len_utf8_bounds(2) [of c]
        by (simp add: utf8_length len_utf8_def [of 32])
      have "crlf_lines cur (fold_text l (c # s))
          = rev cur # crlf_lines [c, 32] (fold_text (1 + len_utf8 c) s)"
        using nl True "2.prems"
        by (simp add: crlf_lines_other crlf_lines_break del: crlf_lines.simps(2))
      then show ?thesis using IH "2.prems" by simp
    next
      case False
      then show ?thesis
        using "2.IH"(3) [OF nl False, of "c # cur"] "2.prems" nl
        by (simp add: crlf_lines_other utf8_length del: crlf_lines.simps(2))
    qed
  qed
qed

section \<open>Unfolding\<close>

text \<open>The octets \<open>IcsReader::byte\<close> yields for a source.\<close>

fun unfold_lines :: "octets \<Rightarrow> octets" where
  "unfold_lines [] = []"
| "unfold_lines (c # cs) =
    (if c = 13 then unfold_lines cs
     else if c = 10 then
       (case cs of
          d # cs' \<Rightarrow> if d = 32 \<or> d = 9 then unfold_lines cs' else 10 # unfold_lines cs
        | [] \<Rightarrow> [10])
     else c # unfold_lines cs)"

text \<open>A text that survives folding: no carriage return, and no line that starts with a
  blank or a tab.\<close>

fun foldable :: "ustring \<Rightarrow> bool" where
  "foldable [] = True"
| "foldable (c # s) = (c \<noteq> 13 \<and> (c = 10 \<longrightarrow> s = [] \<or> hd s \<noteq> 32 \<and> hd s \<noteq> 9) \<and> foldable s)"

lemma unfold_lines_plain:
  assumes "\<forall>c \<in> set xs. c \<noteq> 13 \<and> c \<noteq> 10"
  shows "unfold_lines (xs @ ys) = xs @ unfold_lines ys"
  using assms by (induction xs) auto

lemma utf8_octets_cases: "c < 128 \<and> utf8 c = [c] \<or> (\<forall>b \<in> set (utf8 c). 128 \<le> b)"
  by (simp add: utf8_def)

lemma unfold_lines_utf8:
  assumes "c \<noteq> 13" "c \<noteq> 10"
  shows "unfold_lines (utf8 c @ ys) = utf8 c @ unfold_lines ys"
proof (rule unfold_lines_plain)
  show "\<forall>b \<in> set (utf8 c). b \<noteq> 13 \<and> b \<noteq> 10"
    using utf8_octets_cases [of c] assms by auto
qed

lemma utf8_hd_blank:
  assumes "c \<noteq> 32" "c \<noteq> 9"
  shows "hd (utf8 c @ ys) \<noteq> 32" "hd (utf8 c @ ys) \<noteq> 9" "utf8 c \<noteq> []"
  using assms by (auto simp: utf8_def)

lemma unfold_lines_nl:
  assumes "ys = [] \<or> hd ys \<noteq> 32 \<and> hd ys \<noteq> 9"
  shows "unfold_lines (10 # ys) = 10 # unfold_lines ys"
  using assms by (cases ys) auto

lemma fold_text_hd:
  assumes "s = [] \<or> hd s \<noteq> 32 \<and> hd s \<noteq> 9"
  shows "utf8s (fold_text 0 s) = [] \<or> hd (utf8s (fold_text 0 s)) \<noteq> 32 \<and> hd (utf8s (fold_text 0 s)) \<noteq> 9"
proof (cases s)
  case (Cons c t)
  then show ?thesis
    using assms len_utf8_bounds(2) [of c] utf8_hd_blank [of c] by (auto simp: utf8_def [of 13])
qed simp

lemma unfold_fold_text:
  assumes "foldable s"
  shows "unfold_lines (utf8s (fold_text l s)) = utf8s s"
  using assms
proof (induction l s rule: fold_text.induct)
  case (1 l) then show ?case by simp
next
  case (2 l c s)
  show ?case
  proof (cases "c = 10")
    case True
    have "unfold_lines (10 # utf8s (fold_text 0 s)) = 10 # unfold_lines (utf8s (fold_text 0 s))"
      by (rule unfold_lines_nl, rule fold_text_hd) (use 2 True in auto)
    then show ?thesis using 2 True by (simp add: utf8_def [of 10] utf8_def [of 13] del: unfold_lines.simps(2))
        (simp add: unfold_lines.simps(2) [of 13])
  next
    case nl: False
    then have c: "c \<noteq> 13" "foldable s" using 2 by auto
    show ?thesis
    proof (cases "l + len_utf8 c > 75")
      case True
      then show ?thesis using "2.IH"(2) nl c
        by (simp add: utf8_def [of 10] utf8_def [of 13] utf8_def [of 32] unfold_lines_utf8)
    next
      case False
      then show ?thesis using "2.IH"(3) nl c by (simp add: unfold_lines_utf8)
    qed
  qed
qed

end
