(* ===== verification/Ics_Progress.thy ===== *)
theory Ics_Progress
  imports Ics_Writer
begin

text \<open>
  No parser gives input back or runs a loop to its bound.  A parser \<open>shrinks\<close> when it leaves at
  most the octets it was given and does not mark the reader as stalled, and \<open>eats\<close> when a value costs at least one octet; both are closed under the ways the
  reader runs parsers (collection \<open>progress_intros\<close>).  A loop whose body consumes an octet
  whenever it goes on satisfies its unfolding equation (\<open>rloop_unfold\<close>): the bound on the
  rounds plays no role, and the loop ends.
\<close>

named_theorems progress_intros \<open>parsers that do not give input back\<close>

definition leaves :: "ics_reader \<Rightarrow> ics_reader \<Rightarrow> bool" where
  "leaves r r' = (rd_src r' = rd_src r \<and> rd_left r' \<le> rd_left r \<and> rd_stalled r' = rd_stalled r)"

definition consumes :: "ics_reader \<Rightarrow> ics_reader \<Rightarrow> bool" where
  "consumes r r' = (rd_src r' = rd_src r \<and> rd_left r' < rd_left r \<and> rd_stalled r' = rd_stalled r)"

definition shrinks :: "(ics_reader \<Rightarrow> 'b \<times> ics_reader) \<Rightarrow> bool" where
  "shrinks p = (\<forall>r. leaves r (snd (p r)))"

definition eats :: "'a rd \<Rightarrow> bool" where
  "eats p = (\<forall>r. leaves r (snd (p r)) \<and> (fst (p r) \<noteq> None \<longrightarrow> consumes r (snd (p r))))"

definition progress :: "('s, 'b) body \<Rightarrow> bool" where
  "progress body = (\<forall>s r. leaves r (snd (body s r))
     \<and> (\<forall>s'. fst (body s r) = Continue s' \<longrightarrow> consumes r (snd (body s r))))"

lemma leaves_refl [simp]: "leaves r r"
  by (simp add: leaves_def)

lemma leaves_trans: "leaves r1 r2 \<Longrightarrow> leaves r2 r3 \<Longrightarrow> leaves r1 r3"
  by (auto simp: leaves_def)

lemma consumes_leaves: "consumes r1 r2 \<Longrightarrow> leaves r2 r3 \<Longrightarrow> consumes r1 r3"
  by (auto simp: leaves_def consumes_def)

lemma leaves_consumes: "leaves r1 r2 \<Longrightarrow> consumes r2 r3 \<Longrightarrow> consumes r1 r3"
  by (auto simp: leaves_def consumes_def)

lemma consumes_imp_leaves: "consumes r1 r2 \<Longrightarrow> leaves r1 r2"
  by (auto simp: leaves_def consumes_def)

lemmas leaves_rules = leaves_trans consumes_leaves leaves_consumes consumes_imp_leaves

lemma left_update [simp]:
  "rd_left (r\<lparr>rd_msgs := ms\<rparr>) = rd_left r" "rd_left (r\<lparr>rd_context := c\<rparr>) = rd_left r"
  "rd_left (r\<lparr>rd_hints := h\<rparr>) = rd_left r"
  by (simp_all add: rd_left_def)

lemma leaves_update [simp]:
  "leaves (r\<lparr>rd_msgs := ms\<rparr>) r' = leaves r r'" "leaves r (r'\<lparr>rd_msgs := ms\<rparr>) = leaves r r'"
  "leaves (r\<lparr>rd_context := c\<rparr>) r' = leaves r r'" "leaves r (r'\<lparr>rd_context := c\<rparr>) = leaves r r'"
  "leaves (r\<lparr>rd_hints := h\<rparr>) r' = leaves r r'" "leaves r (r'\<lparr>rd_hints := h\<rparr>) = leaves r r'"
  by (simp_all add: leaves_def)

lemma consumes_update [simp]:
  "consumes (r\<lparr>rd_msgs := ms\<rparr>) r' = consumes r r'" "consumes r (r'\<lparr>rd_msgs := ms\<rparr>) = consumes r r'"
  "consumes (r\<lparr>rd_context := c\<rparr>) r' = consumes r r'" "consumes r (r'\<lparr>rd_context := c\<rparr>) = consumes r r'"
  "consumes (r\<lparr>rd_hints := h\<rparr>) r' = consumes r r'" "consumes r (r'\<lparr>rd_hints := h\<rparr>) = consumes r r'"
  by (simp_all add: consumes_def)

lemma shrinksI: "(\<And>r v r'. p r = (v, r') \<Longrightarrow> leaves r r') \<Longrightarrow> shrinks p"
  unfolding shrinks_def by (metis prod.collapse)

lemma shrinksD: "shrinks p \<Longrightarrow> p r = (v, r') \<Longrightarrow> leaves r r'"
  unfolding shrinks_def by (metis snd_conv)

lemma eatsI:
  assumes "\<And>r r'. p r = (None, r') \<Longrightarrow> leaves r r'"
    and "\<And>r a r'. p r = (Some a, r') \<Longrightarrow> consumes r r'"
  shows "eats p"
  unfolding eats_def
proof (intro allI)
  fix r
  obtain v r' where p: "p r = (v, r')" by fastforce
  then show "leaves r (snd (p r)) \<and> (fst (p r) \<noteq> None \<longrightarrow> consumes r (snd (p r)))"
    using assms by (cases v) (auto intro: leaves_rules)
qed

lemma eatsD:
  assumes "eats p"
  shows "p r = (v, r') \<Longrightarrow> leaves r r'" and "p r = (Some a, r') \<Longrightarrow> consumes r r'"
  using assms unfolding eats_def by (metis fst_conv snd_conv option.discI)+

lemma progressI:
  assumes "\<And>s r b r'. body s r = (Break b, r') \<Longrightarrow> leaves r r'"
    and "\<And>s r s' r'. body s r = (Continue s', r') \<Longrightarrow> consumes r r'"
  shows "progress body"
  unfolding progress_def
proof (intro allI)
  fix s r
  obtain fl r' where p: "body s r = (fl, r')" by fastforce
  then show "leaves r (snd (body s r)) \<and> (\<forall>s'. fst (body s r) = Continue s' \<longrightarrow> consumes r (snd (body s r)))"
    using assms by (cases fl) (auto intro: leaves_rules)
qed

lemma progressD:
  assumes "progress body"
  shows "body s r = (fl, r') \<Longrightarrow> leaves r r'" and "body s r = (Continue s', r') \<Longrightarrow> consumes r r'"
  using assms unfolding progress_def by (metis fst_conv snd_conv)+

lemma eats_shrinks: "eats p \<Longrightarrow> shrinks p"
  by (simp add: eats_def shrinks_def)

section \<open>Loops\<close>

lemma rloop_fuel_enough:
  assumes "progress body" and "rd_left r < n" and "rd_left r < m"
  shows "rloop_fuel n body s r = rloop_fuel m body s r"
  using assms(2,3)
proof (induction n arbitrary: m s r)
  case 0 then show ?case by simp
next
  case (Suc n)
  then obtain m' where m: "m = Suc m'" by (cases m) auto
  obtain fl r' where body: "body s r = (fl, r')" by fastforce
  show ?case
  proof (cases fl)
    case (Continue s')
    then have "rd_left r' < rd_left r"
      using progressD(2) [OF assms(1)] body by (auto simp: consumes_def)
    then have "rloop_fuel n body s' r' = rloop_fuel m' body s' r'"
      using Suc.IH [of r' m' s'] Suc.prems m by linarith
    then show ?thesis using body Continue m by simp
  next
    case (Break b)
    then show ?thesis using body m by simp
  qed
qed

lemma rloop_unfold:
  assumes "progress body"
  shows "rloop body s r = (case body s r of
           (Continue s', r') \<Rightarrow> rloop body s' r' | (Break b, r') \<Rightarrow> (b, r'))"
proof -
  obtain fl r' where body: "body s r = (fl, r')" by fastforce
  show ?thesis
  proof (cases fl)
    case (Continue s')
    then have "rd_left r' < rd_left r"
      using progressD(2) [OF assms] body by (auto simp: consumes_def)
    then have "rloop_fuel (rd_left r) body s' r' = rloop_fuel (Suc (rd_left r')) body s' r'"
      by (intro rloop_fuel_enough [OF assms]) auto
    then show ?thesis using body Continue by (simp add: rloop_def)
  next
    case (Break b)
    then show ?thesis using body by (simp add: rloop_def)
  qed
qed

lemma rloop_fuel_leaves:
  assumes "progress body" and "rd_left r < n"
  shows "leaves r (snd (rloop_fuel n body s r))"
  using assms(2)
proof (induction n arbitrary: s r)
  case (Suc n)
  obtain fl r' where body: "body s r = (fl, r')" by fastforce
  show ?case
  proof (cases fl)
    case (Continue s')
    then have c: "consumes r r'" using progressD(2) [OF assms(1)] body by blast
    then have "rd_left r' < n" using Suc.prems by (simp add: consumes_def)
    with Suc.IH [of r' s'] c have "leaves r (snd (rloop_fuel n body s' r'))" by (blast intro: leaves_rules)
    then show ?thesis using body Continue by simp
  next
    case (Break b)
    then show ?thesis using progressD(1) [OF assms(1)] body by simp
  qed
qed simp

text \<open>A loop that only breaks with a value returns one.\<close>

lemma rloop_returns:
  assumes "progress body" and "\<And>s r r'. body s r \<noteq> (Break None, r')"
  shows "fst (rloop body s r) \<noteq> None"
proof (induction "rd_left r" arbitrary: s r rule: less_induct)
  case less
  obtain fl r' where body: "body s r = (fl, r')" by fastforce
  show ?case
  proof (cases fl)
    case (Continue s')
    then have "rd_left r' < rd_left r"
      using progressD(2) [OF assms(1)] body by (auto simp: consumes_def)
    then show ?thesis using less [of r' s'] body Continue rloop_unfold [OF assms(1), of s r] by simp
  next
    case (Break b)
    then show ?thesis using assms(2) body rloop_unfold [OF assms(1), of s r] by (cases b) auto
  qed
qed

lemma rloop_shrinks [progress_intros]: "progress body \<Longrightarrow> shrinks (rloop body s)"
  by (simp add: shrinks_def rloop_def rloop_fuel_leaves del: rloop_fuel.simps)

section \<open>Sequencing\<close>

lemma shrinks_simple [progress_intros]: "shrinks (rret a)" "shrinks rfail"
  by (simp_all add: shrinks_def rret_def rfail_def)

lemma eats_rfail [progress_intros]: "eats rfail"
  by (simp add: eats_def rfail_def)

lemma shrinks_rbind [progress_intros]:
  assumes "shrinks p" and "\<And>a. shrinks (f a)"
  shows "shrinks (rbind p f)"
proof (rule shrinksI)
  fix r v r' assume "rbind p f r = (v, r')"
  then show "leaves r r'" using assms
    by (auto simp: rbind_def split: prod.splits option.splits dest: shrinksD intro: leaves_trans)
qed

lemma eats_rbind [progress_intros]:
  assumes "eats p" and "\<And>a. shrinks (f a)"
  shows "eats (rbind p f)"
proof (rule eatsI)
  fix r r' assume "rbind p f r = (None, r')"
  moreover have "shrinks (rbind p f)"
    using assms by (auto intro: shrinks_rbind eats_shrinks)
  ultimately show "leaves r r'" by (rule shrinksD [rotated])
next
  fix r a r' assume "rbind p f r = (Some a, r')"
  then show "consumes r r'" using assms
    by (auto simp: rbind_def split: prod.splits option.splits dest: shrinksD eatsD(2) intro: consumes_leaves)
qed

lemma eats_rbind_later:
  assumes "shrinks p" and "\<And>a. eats (f a)"
  shows "eats (rbind p f)"
proof (rule eatsI)
  fix r r' assume "rbind p f r = (None, r')"
  moreover have "shrinks (rbind p f)"
    using assms by (auto intro: shrinks_rbind eats_shrinks)
  ultimately show "leaves r r'" by (rule shrinksD [rotated])
next
  fix r a r' assume "rbind p f r = (Some a, r')"
  then show "consumes r r'" using assms
    by (auto simp: rbind_def split: prod.splits option.splits dest: shrinksD eatsD(2) intro: leaves_consumes)
qed

lemma shrinks_rthen [progress_intros]: "shrinks p \<Longrightarrow> shrinks q \<Longrightarrow> shrinks (rthen p q)"
  unfolding shrinks_def rthen_def by (meson leaves_trans)

lemma eats_rthen [progress_intros]: "shrinks p \<Longrightarrow> eats q \<Longrightarrow> eats (rthen p q)"
  unfolding shrinks_def eats_def rthen_def by (meson leaves_trans leaves_consumes)

lemma shrinks_rcase [progress_intros]:
  assumes "shrinks p" and "\<And>a. shrinks (f a)" and "shrinks g"
  shows "shrinks (rcase p f g)"
proof (rule shrinksI)
  fix r v r' assume "rcase p f g r = (v, r')"
  then show "leaves r r'" using assms
    by (auto simp: rcase_def split: prod.splits option.splits dest: shrinksD intro: leaves_trans)
qed

lemma eats_rcase [progress_intros]:
  assumes "eats p" and "\<And>a. shrinks (f a)" and "eats g"
  shows "eats (rcase p f g)"
proof (rule eatsI)
  fix r r' assume "rcase p f g r = (None, r')"
  moreover have "shrinks (rcase p f g)"
    using assms by (auto intro: shrinks_rcase eats_shrinks)
  ultimately show "leaves r r'" by (rule shrinksD [rotated])
next
  fix r a r' assume "rcase p f g r = (Some a, r')"
  then show "consumes r r'" using assms
    by (auto simp: rcase_def split: prod.splits option.splits
      dest: shrinksD eatsD intro: consumes_leaves leaves_consumes)
qed

lemma msg_leaves [simp]: "leaves r' (snd (reader_msg at body kind ctx r)) = leaves r' r"
  by (simp add: reader_msg_def)

lemma note_leaves [simp]:
  "leaves r' (reader_error at body r) = leaves r' r" "leaves r' (reader_warn at body r) = leaves r' r"
  by (simp_all add: reader_error_def reader_warn_def)

lemma msg_left [simp]: "rd_left (snd (reader_msg at body kind ctx r)) = rd_left r"
  by (simp add: reader_msg_def)

lemma msg_src [simp]:
  "rd_src (snd (reader_msg at body kind ctx r)) = rd_src r"
  "rd_stalled (snd (reader_msg at body kind ctx r)) = rd_stalled r"
  by (simp_all add: reader_msg_def)

lemma note_same [simp]:
  "rd_left (reader_error at body r) = rd_left r" "rd_left (reader_warn at body r) = rd_left r"
  "rd_src (reader_error at body r) = rd_src r" "rd_src (reader_warn at body r) = rd_src r"
  "rd_stalled (reader_error at body r) = rd_stalled r" "rd_stalled (reader_warn at body r) = rd_stalled r"
  by (simp_all add: reader_error_def reader_warn_def)

lemma note_leaves2 [simp]:
  "leaves (reader_error at body r) r' = leaves r r'" "leaves (reader_warn at body r) r' = leaves r r'"
  "consumes (reader_error at body r) r' = consumes r r'" "consumes (reader_warn at body r) r' = consumes r r'"
  "consumes r (reader_error at body r') = consumes r r'" "consumes r (reader_warn at body r') = consumes r r'"
  by (simp_all add: leaves_def consumes_def)

lemma shrinks_rerror [progress_intros]: "shrinks k \<Longrightarrow> shrinks (rerror at body k)"
  unfolding shrinks_def rerror_def by (metis note_leaves2(1))

lemma shrinks_rwarn [progress_intros]: "shrinks k \<Longrightarrow> shrinks (rwarn at body k)"
  unfolding shrinks_def rwarn_def by (metis note_leaves2(2))

lemma eats_rerror [progress_intros]: "eats k \<Longrightarrow> eats (rerror at body k)"
  unfolding eats_def rerror_def by (metis note_leaves2)

lemma eats_rwarn [progress_intros]: "eats k \<Longrightarrow> eats (rwarn at body k)"
  unfolding eats_def rwarn_def by (metis note_leaves2)

lemma shrinks_if [progress_intros]: "shrinks p \<Longrightarrow> shrinks q \<Longrightarrow> shrinks (if b then p else q)"
  by simp

lemma eats_if [progress_intros]: "eats p \<Longrightarrow> eats q \<Longrightarrow> eats (if b then p else q)"
  by simp

lemma shrinks_case_option [progress_intros]:
  "shrinks p \<Longrightarrow> (\<And>a. shrinks (f a)) \<Longrightarrow> shrinks (case_option p f v)"
  by (cases v) simp_all

text \<open>Parsers that look at the reader they run on.\<close>

lemma eats_complain [progress_intros]: "eats (\<lambda>r. rerror (a r) (b r) rfail r)"
  by (simp add: eats_def rerror_def rfail_def)

section \<open>The combinators of the reader\<close>

lemma shrinks_hint [progress_intros]: "shrinks p \<Longrightarrow> shrinks (reader_hint h p)"
  by (rule shrinksI) (auto simp: reader_hint_def dest: shrinksD split: prod.splits)

lemma shrinks_context [progress_intros]: "shrinks p \<Longrightarrow> shrinks (reader_context sp tag p)"
  by (rule shrinksI) (auto simp: reader_context_def dest: shrinksD split: prod.splits)

lemma eats_context [progress_intros]: "eats p \<Longrightarrow> eats (reader_context sp tag p)"
  by (rule eatsI) (auto simp: reader_context_def dest: eatsD split: prod.splits)

lemma shrinks_silently [progress_intros]: "shrinks p \<Longrightarrow> shrinks (reader_silently p)"
  by (rule shrinksI) (auto simp: reader_silently_def dest: shrinksD split: prod.splits)

lemma shrinks_spanned [progress_intros]: "shrinks p \<Longrightarrow> shrinks (reader_spanned p)"
  by (rule shrinksI) (auto simp: reader_spanned_def dest: shrinksD split: prod.splits option.splits)

lemma eats_spanned [progress_intros]: "eats p \<Longrightarrow> eats (reader_spanned p)"
  by (rule eatsI) (auto simp: reader_spanned_def dest: eatsD split: prod.splits option.splits)

lemma shrinks_unwrap [progress_intros]: "shrinks (spanned_unwrap s)"
  by (cases "sp_value s") (auto simp: spanned_unwrap_def intro!: progress_intros)

lemma shrinks_any [progress_intros]: "shrinks (ty_read T) \<Longrightarrow> shrinks (reader_any T)"
  using shrinks_context unfolding shrinks_def reader_any_def by blast

lemma eats_any [progress_intros]: "eats (ty_read T) \<Longrightarrow> eats (reader_any T)"
  using eats_context unfolding eats_def reader_any_def by blast

lemma forward_msgs_same:
  "rd_pos (forward_msgs ms r) = rd_pos r \<and> rd_src (forward_msgs ms r) = rd_src r
   \<and> rd_stalled (forward_msgs ms r) = rd_stalled r"
  by (induction ms r rule: forward_msgs.induct)
    (auto simp: reader_msg_def split: prod.splits bool.splits)

lemma attempt_cases:
  assumes "reader_attempt p r = (v, r')"
  shows "(\<exists>this. v = None \<and> p (r\<lparr>rd_msgs := [], rd_context := []\<rparr>) = (None, this) \<and> r' = r\<lparr>rd_stalled := rd_stalled this\<rparr>)
    \<or> (\<exists>a this. v = Some a \<and> p (r\<lparr>rd_msgs := [], rd_context := []\<rparr>) = (Some a, this)
          \<and> rd_pos r' = rd_pos this \<and> rd_src r' = rd_src r \<and> rd_stalled r' = rd_stalled this)"
  using assms forward_msgs_same
  by (auto simp: reader_attempt_def Let_def split: prod.splits option.splits)

lemma leaves_committed:
  assumes "leaves (r\<lparr>rd_msgs := [], rd_context := []\<rparr>) this" and "rd_pos r' = rd_pos this" and "rd_src r' = rd_src r"
    and "rd_stalled r' = rd_stalled this"
  shows "leaves r r'"
  using assms by (auto simp: leaves_def rd_left_def)

lemma consumes_committed:
  assumes "consumes (r\<lparr>rd_msgs := [], rd_context := []\<rparr>) this" and "rd_pos r' = rd_pos this" and "rd_src r' = rd_src r"
    and "rd_stalled r' = rd_stalled this"
  shows "consumes r r'"
  using assms by (auto simp: consumes_def rd_left_def)

lemma leaves_abandoned:
  assumes "leaves (r\<lparr>rd_msgs := [], rd_context := []\<rparr>) this"
  shows "r\<lparr>rd_stalled := rd_stalled this\<rparr> = r"
  using assms by (simp add: leaves_def)

lemma shrinks_attempt [progress_intros]: "shrinks p \<Longrightarrow> shrinks (reader_attempt p)"
  by (rule shrinksI, drule attempt_cases) (auto dest: shrinksD intro: leaves_committed simp: leaves_abandoned)

lemma eats_attempt [progress_intros]: "eats p \<Longrightarrow> eats (reader_attempt p)"
  by (rule eatsI; drule attempt_cases) (auto dest: eatsD intro: consumes_committed simp: leaves_abandoned)

lemma attempt_None:
  assumes "shrinks p" and "reader_attempt p r = (None, r')"
  shows "r' = r"
proof -
  obtain this where t: "p (r\<lparr>rd_msgs := [], rd_context := []\<rparr>) = (None, this)" "r' = r\<lparr>rd_stalled := rd_stalled this\<rparr>"
    using attempt_cases [OF assms(2)] by auto
  then show ?thesis using leaves_abandoned [OF shrinksD [OF assms(1) t(1)]] by simp
qed

section \<open>Elementary parsers\<close>

lemma byte_scan_bytes:
  assumes "byte_scan cs p = (b, p')"
  shows "p_byte p' \<le> p_byte p + length cs \<and> p_byte p \<le> p_byte p' \<and> (b \<noteq> None \<longrightarrow> p_byte p < p_byte p')"
  using assms
proof (induction cs p rule: byte_scan.induct)
  case (2 c0 cs p)
  show ?case
  proof (cases cs)
    case Nil
    then show ?thesis using 2 by (auto split: if_splits)
  next
    case (Cons c1 cs')
    then show ?thesis using 2 by (auto split: if_splits)
  qed
qed auto

lemma eats_byte [progress_intros]: "eats reader_byte"
proof (rule eatsI)
  fix r r' assume "reader_byte r = (None, r')"
  then show "leaves r r'"
    using byte_scan_bytes by (force simp: reader_byte_def Let_def leaves_def rd_left_def split: prod.splits)
next
  fix r a r' assume "reader_byte r = (Some a, r')"
  then have "\<exists>p'. byte_scan (drop (p_byte (rd_pos r)) (rd_src r)) ((rd_pos r)\<lparr>p_prev_line := p_line (rd_pos r),
       p_prev_char := p_char (rd_pos r)\<rparr>) = (Some a, p') \<and> r' = r\<lparr>rd_pos := p'\<rparr>"
    by (auto simp: reader_byte_def Let_def split: prod.splits)
  then show "consumes r r'"
    using byte_scan_bytes by (force simp: consumes_def rd_left_def)
qed

lemma shrinks_bytes [progress_intros]: "shrinks (reader_bytes n)"
  by (induction n) (auto intro!: progress_intros eats_shrinks [OF eats_byte])

lemma eats_rloop:
  assumes "progress body" and "\<And>s r b r'. body s r = (Break (Some b), r') \<Longrightarrow> consumes r r'"
  shows "eats (rloop body s)"
proof (rule eatsI)
  fix r r' assume "rloop body s r = (None, r')"
  then show "leaves r r'" using rloop_shrinks [OF assms(1)] by (auto dest: shrinksD)
next
  fix r a r' assume *: "rloop body s r = (Some a, r')"
  obtain fl r1 where body: "body s r = (fl, r1)" by fastforce
  show "consumes r r'"
  proof (cases fl)
    case (Continue s')
    then have "rloop body s' r1 = (Some a, r')" using * body rloop_unfold [OF assms(1), of s r] by simp
    then have "leaves r1 r'" using rloop_shrinks [OF assms(1)] by (auto dest: shrinksD)
    moreover have "consumes r r1" using progressD(2) [OF assms(1)] body Continue by blast
    ultimately show ?thesis by (rule consumes_leaves [rotated])
  next
    case (Break b)
    then show ?thesis using * body rloop_unfold [OF assms(1), of s r] assms(2) by auto
  qed
qed

lemma char_round_result:
  assumes "char_round u r = (fl, r')"
  shows "fl = Break None \<and> leaves r r' \<or> fl \<noteq> Break None \<and> consumes r r'"
proof -
  obtain b r1 where byte: "reader_byte r = (b, r1)" by fastforce
  show ?thesis
  proof (cases b)
    case None
    then show ?thesis using assms byte eatsD(1) [OF eats_byte byte] by (auto simp: char_round_def)
  next
    case (Some x)
    then have 1: "consumes r r1" using byte eatsD(2) [OF eats_byte] by blast
    obtain bs r2 where bytes: "reader_bytes (env_width (rd_env r) x - 1) r1 = (bs, r2)" by fastforce
    then have "consumes r r2" using 1 shrinksD [OF shrinks_bytes bytes] by (blast intro: consumes_leaves)
    then show ?thesis using assms byte Some bytes
      by (auto simp: char_round_def split: option.splits intro: consumes_imp_leaves)
  qed
qed

lemma progress_char: "progress char_round"
  by (rule progressI; drule char_round_result) (auto intro: consumes_imp_leaves)

lemma eats_char [progress_intros]: "eats reader_char"
  unfolding reader_char_def
  by (rule eats_rloop [OF progress_char]) (auto dest: char_round_result)

lemma shrinks_char [progress_intros]: "shrinks reader_char"
  by (rule eats_shrinks [OF eats_char])

lemma eats_try_eat [progress_intros]: "eats (reader_try_eat c)"
  unfolding reader_try_eat_def by (auto intro!: progress_intros)

lemma shrinks_try_eat [progress_intros]: "shrinks (reader_try_eat c)"
  by (rule eats_shrinks [OF eats_try_eat])

lemma try_eat_none: "reader_try_eat d r = (None, r') \<Longrightarrow> r' = r"
  unfolding reader_try_eat_def by (erule attempt_None [rotated]) (auto intro!: progress_intros)

lemma eats_eat [progress_intros]: "eats (reader_eat c)"
  unfolding reader_eat_def by (intro eats_rcase progress_intros)

lemma shrinks_eat [progress_intros]: "shrinks (reader_eat c)"
  by (rule eats_shrinks [OF eats_eat])

lemma shrinks_eat_all [progress_intros]: "shrinks (reader_eat_all s)"
  by (induction s) (auto intro!: progress_intros)

lemma shrinks_try_string [progress_intros]: "shrinks (reader_try_string s)"
  unfolding reader_try_string_def by (auto intro!: progress_intros)

lemma eats_try_digit [progress_intros]: "eats reader_try_digit"
  unfolding reader_try_digit_def by (auto intro!: progress_intros)

lemma eats_digit [progress_intros]: "eats reader_digit"
  unfolding reader_digit_def by (intro eats_rcase progress_intros)

lemma shrinks_digit_seq [progress_intros]: "shrinks (reader_digit_seq n)"
  by (induction n) (auto intro!: progress_intros eats_shrinks [OF eats_digit])

lemma shrinks_digits [progress_intros]: "shrinks (reader_digits n)"
  unfolding reader_digits_def by (auto intro!: progress_intros)

section \<open>Messages do not influence what is read\<close>

text \<open>Two readers at the same place that differ in their messages and contexts.\<close>

definition same_input :: "ics_reader \<Rightarrow> ics_reader \<Rightarrow> bool" where
  "same_input r1 r2 = (rd_src r1 = rd_src r2 \<and> rd_pos r1 = rd_pos r2 \<and> rd_hints r1 = rd_hints r2
     \<and> rd_env r1 = rd_env r2 \<and> rd_stalled r1 = rd_stalled r2)"

definition oblivious :: "(ics_reader \<Rightarrow> 'b \<times> ics_reader) \<Rightarrow> bool" where
  "oblivious p = (\<forall>r1 r2. same_input r1 r2 \<longrightarrow> fst (p r1) = fst (p r2) \<and> same_input (snd (p r1)) (snd (p r2)))"

lemma same_input_update [simp]:
  "same_input (r\<lparr>rd_msgs := ms\<rparr>) r' = same_input r r'" "same_input (r\<lparr>rd_context := c\<rparr>) r' = same_input r r'"
  "same_input r (r'\<lparr>rd_msgs := ms\<rparr>) = same_input r r'" "same_input r (r'\<lparr>rd_context := c\<rparr>) = same_input r r'"
  by (simp_all add: same_input_def)

lemma same_input_refl [simp]: "same_input r r"
  by (simp add: same_input_def)

lemma same_input_msg [simp]:
  "same_input (snd (reader_msg a b k c r)) r' = same_input r r'"
  "same_input r (snd (reader_msg a b k c r')) = same_input r r'"
  by (simp_all add: reader_msg_def)

lemma same_input_note [simp]:
  "same_input (reader_warn a b r) r' = same_input r r'" "same_input r (reader_warn a b r') = same_input r r'"
  "same_input (reader_error a b r) r' = same_input r r'" "same_input r (reader_error a b r') = same_input r r'"
  by (simp_all add: reader_warn_def reader_error_def)

lemma same_input_left: "same_input r1 r2 \<Longrightarrow> rd_left r1 = rd_left r2"
  by (simp add: same_input_def rd_left_def)

lemma obliviousD:
  assumes "oblivious p" and "same_input r1 r2" and "p r1 = (v, r1')"
  shows "\<exists>r2'. p r2 = (v, r2') \<and> same_input r1' r2'"
  using assms unfolding oblivious_def by (metis fst_conv snd_conv prod.collapse)

lemma obliviousI:
  assumes "\<And>r1 r2 v r1'. same_input r1 r2 \<Longrightarrow> p r1 = (v, r1') \<Longrightarrow> \<exists>r2'. p r2 = (v, r2') \<and> same_input r1' r2'"
  shows "oblivious p"
  unfolding oblivious_def using assms by (metis fst_conv snd_conv prod.collapse)

lemma oblivious_rloop_fuel:
  assumes "\<And>s. oblivious (body s)" and "same_input r1 r2"
  shows "fst (rloop_fuel n body s r1) = fst (rloop_fuel n body s r2)
    \<and> same_input (snd (rloop_fuel n body s r1)) (snd (rloop_fuel n body s r2))"
  using assms(2)
proof (induction n arbitrary: s r1 r2)
  case (Suc n)
  obtain fl r1' where 1: "body s r1 = (fl, r1')" by fastforce
  then obtain r2' where 2: "body s r2 = (fl, r2')" "same_input r1' r2'"
    using obliviousD [OF assms(1) Suc.prems] by blast
  then show ?case using 1 Suc.IH by (cases fl) simp_all
qed (simp add: same_input_def)

lemma oblivious_rloop: "(\<And>s. oblivious (body s)) \<Longrightarrow> oblivious (rloop body s)"
  unfolding oblivious_def [of "rloop body s"] rloop_def
  using oblivious_rloop_fuel same_input_left by metis

lemma oblivious_rbind: "oblivious p \<Longrightarrow> (\<And>a. oblivious (f a)) \<Longrightarrow> oblivious (rbind p f)"
proof (rule obliviousI)
  fix r1 r2 v r1'
  assume p: "oblivious p" and f: "\<And>a. oblivious (f a)" and same: "same_input r1 r2"
    and run: "rbind p f r1 = (v, r1')"
  obtain w q where q: "p r1 = (w, q)" by fastforce
  then obtain q2 where "p r2 = (w, q2)" "same_input q q2" using obliviousD [OF p same] by blast
  then show "\<exists>r2'. rbind p f r2 = (v, r2') \<and> same_input r1' r2'"
    using run q obliviousD [OF f] by (cases w) (auto simp: rbind_def)
qed

lemma oblivious_rret: "oblivious (rret a)"
  by (simp add: oblivious_def rret_def)

lemma oblivious_byte: "oblivious reader_byte"
  by (rule obliviousI) (auto simp: reader_byte_def same_input_def Let_def split: prod.splits)

lemma oblivious_bytes: "oblivious (reader_bytes n)"
  by (induction n) (auto intro!: oblivious_rbind oblivious_byte oblivious_rret)

lemma oblivious_char_round: "oblivious (char_round u)"
proof (rule obliviousI)
  fix r1 r2 v r1'
  assume same: "same_input r1 r2" and run: "char_round u r1 = (v, r1')"
  obtain b q where q: "reader_byte r1 = (b, q)" by fastforce
  then obtain q2 where q2: "reader_byte r2 = (b, q2)" "same_input q q2"
    using obliviousD [OF oblivious_byte same] by blast
  have env: "rd_env r2 = rd_env r1" using same by (simp add: same_input_def)
  show "\<exists>r2'. char_round u r2 = (v, r2') \<and> same_input r1' r2'"
  proof (cases b)
    case None
    then show ?thesis using run q q2 by (simp add: char_round_def)
  next
    case (Some x)
    obtain bs t where t: "reader_bytes (env_width (rd_env r1) x - 1) q = (bs, t)" by fastforce
    then obtain t2 where "reader_bytes (env_width (rd_env r1) x - 1) q2 = (bs, t2)" "same_input t t2"
      using obliviousD [OF oblivious_bytes q2(2)] by blast
    then show ?thesis using run q q2 t Some env
      by (auto simp: char_round_def split: option.splits)
  qed
qed

lemma oblivious_char: "oblivious reader_char"
  unfolding reader_char_def by (rule oblivious_rloop) (rule oblivious_char_round)

lemma peek_eq_char: "reader_peek r = fst (reader_char r)"
  using oblivious_char unfolding oblivious_def reader_peek_def by simp

text \<open>A character that is looked at can be read, which costs an octet.\<close>

lemma peek_char_consumes:
  assumes "reader_peek r = Some c"
  shows "consumes r (snd (reader_char r))"
  using assms eats_char unfolding peek_eq_char eats_def by (metis option.discI)

section \<open>The loops of the reader\<close>

lemma progress_ident: "progress ident_round"
  by (rule progressI)
    (auto simp: ident_round_def peek_char_consumes split: option.splits if_splits)

lemma shrinks_ident [progress_intros]: "shrinks reader_ident"
proof (rule shrinksI)
  fix r v r' assume "reader_ident r = (v, r')"
  moreover have "shrinks (rthen reader_char (rloop ident_round s))" for s
    by (intro progress_intros progress_ident)
  ultimately show "leaves r r'"
    by (auto simp: reader_ident_def rerror_def rfail_def dest: shrinksD split: option.splits if_splits)
qed

lemma progress_rest: "progress rest_round"
  by (rule progressI)
    (auto simp: rest_round_def dest: eatsD [OF eats_char] split: prod.splits option.splits if_splits)

lemma leaves_prev_char: "leaves r (r\<lparr>rd_pos := (rd_pos r)\<lparr>p_prev_char := x\<rparr>\<rparr>)"
  by (simp add: leaves_def rd_left_def)

lemma shrinks_rest_finish [progress_intros]: "shrinks (rest_finish p v)"
  by (simp add: shrinks_def rest_finish_def Let_def rwarn_def rret_def leaves_prev_char)

lemma shrinks_rest [progress_intros]: "shrinks reader_rest"
proof (rule shrinksI)
  fix r v r' assume "reader_rest r = (v, r')"
  moreover have "shrinks (rbind (rloop rest_round []) (rest_finish p))" for p
    by (intro progress_intros progress_rest)
  ultimately show "leaves r r'" by (auto simp: reader_rest_def dest: shrinksD)
qed

lemma progress_u32: "progress u32_round"
  by (rule progressI)
    (auto simp: u32_round_def dest: eatsD [OF eats_try_digit] split: prod.splits option.splits)

lemma shrinks_u32 [progress_intros]: "shrinks u32_read"
  unfolding u32_read_def by (intro progress_intros progress_u32)

lemma vec_round_result:
  assumes "shrinks (ty_read T)" and "vec_round T vs r = (fl, r')"
  shows "leaves r r' \<and> (\<forall>vs'. fl = Continue vs' \<longrightarrow> consumes r r')"
proof -
  obtain v r1 where v: "reader_any T r = (v, r1)" by fastforce
  obtain c r2 where c: "reader_try_eat 44 r1 = (c, r2)" by fastforce
  have "leaves r r1" using shrinksD [OF shrinks_any [OF assms(1)] v] .
  moreover have "leaves r1 r2" "c \<noteq> None \<Longrightarrow> consumes r1 r2"
    using eatsD [OF eats_try_eat] c by blast+
  ultimately show ?thesis using assms(2) v c
    by (cases c) (auto simp: vec_round_def Let_def intro: leaves_trans leaves_consumes)
qed

lemma progress_vec: "shrinks (ty_read T) \<Longrightarrow> progress (vec_round T)"
  by (rule progressI; drule (1) vec_round_result) auto

lemma shrinks_vec [progress_intros]: "shrinks (ty_read T) \<Longrightarrow> shrinks (vec_read T)"
  unfolding vec_read_def by (intro progress_intros progress_vec)

lemma shrinks_types [progress_intros]:
  "shrinks (ty_read char_type)" "shrinks (ty_read u32_type)"
  "shrinks (ty_read T) \<Longrightarrow> shrinks (ty_read (vec_type T))"
  "shrinks (ty_read S) \<Longrightarrow> shrinks (ty_read (spanned_type S))"
  by (simp_all add: char_type_def u32_type_def vec_type_def spanned_type_def plain_type_def
      shrinks_char shrinks_u32 shrinks_vec shrinks_spanned)

end
