(* ===== verification/Ics_Stream.thy ===== *)
theory Ics_Stream
  imports Ics_Progress
begin

text \<open>
  What the reader reads.  A reader stands before a text when unfolding the octets that are left
  gives the \<open>UTF-8\<close> form of that text.  \<open>parses e h p cs v cs'\<close> says that the parser \<open>p\<close>, run
  before \<open>cs\<close> under the environment \<open>e\<close> and the hints \<open>h\<close>, returns \<open>v\<close>, then stands before
  \<open>cs'\<close>, and has changed nothing but the position: in particular it has reported no message.
  The rules of this theory (collection \<open>parses_intros\<close>) follow the combinators of the reader, so
  that the round trips of the values are derived along the code.
\<close>

named_theorems parses_intros \<open>runs of parsers on a text\<close>

section \<open>Decoding characters\<close>

text \<open>What the code relies on: the documented widths of \<open>utf8_width\<close>, and the letters among
  the \<open>ASCII\<close> characters.\<close>

definition env_ok :: "ics_env \<Rightarrow> bool" where
  "env_ok e = ((\<forall>b. (b < 128 \<longrightarrow> env_width e b = 1) \<and> (194 \<le> b \<and> b < 224 \<longrightarrow> env_width e b = 2)
       \<and> (224 \<le> b \<and> b < 240 \<longrightarrow> env_width e b = 3) \<and> (240 \<le> b \<and> b < 245 \<longrightarrow> env_width e b = 4))
     \<and> (\<forall>c < 128. env_alphabetic e c = (65 \<le> c \<and> c \<le> 90 \<or> 97 \<le> c \<and> c \<le> 122)))"

lemma cont_byte_mod: "cont_byte (128 + n mod 64)"
  by (simp add: cont_byte_def)

lemma utf8_two:
  assumes "128 \<le> c" "c < 2048"
  shows "utf8_first (take 4 (utf8 c @ [0, 0, 0])) = Some c"
proof -
  have "2 \<le> c div 64" "c div 64 < 32" using assms by auto
  then show ?thesis using assms by (simp add: utf8_def utf8_first_def cont_byte_mod)
qed

lemma utf8_three:
  assumes "2048 \<le> c" "c < 65536" "scalar c"
  shows "utf8_first (take 4 (utf8 c @ [0, 0, 0])) = Some c"
proof -
  define q where "q = c div 64"
  have q: "32 \<le> q" "q < 1024" "q < 864 \<or> 896 \<le> q"
    using assms by (auto simp: q_def scalar_def)
  have dd: "c div 4096 = q div 64" unfolding q_def by (simp flip: div_mult2_eq)
  have qq: "q div 64 * 64 + q mod 64 = q" and cq: "q * 64 + c mod 64 = c"
    unfolding q_def by (rule div_mult_mod_eq)+
  have val: "q div 64 * 4096 + q mod 64 * 64 + c mod 64 = c" using qq cq by linarith
  have "q div 64 < 16" using q by auto
  moreover have "q div 64 = 0 \<Longrightarrow> 32 \<le> q mod 64" using q qq by linarith
  moreover have "q div 64 = 13 \<Longrightarrow> q mod 64 < 32" using q qq by linarith
  ultimately show ?thesis using assms(1,2) val dd
    by (simp add: utf8_def utf8_first_def cont_byte_mod flip: q_def)
qed

lemma utf8_four:
  assumes "65536 \<le> c" "scalar c"
  shows "utf8_first (take 4 (utf8 c @ [0, 0, 0])) = Some c"
proof -
  define q where "q = c div 64"
  define t where "t = q div 64"
  have t: "16 \<le> t" "t < 272" using assms by (auto simp: t_def q_def scalar_def simp flip: div_mult2_eq)
  have dt: "c div 4096 = t" and dd: "c div 262144 = t div 64"
    unfolding t_def q_def by (simp_all flip: div_mult2_eq)
  have tt: "t div 64 * 64 + t mod 64 = t" and qt: "t * 64 + q mod 64 = q" and cq: "q * 64 + c mod 64 = c"
    unfolding t_def q_def by (rule div_mult_mod_eq)+
  have val: "t div 64 * 262144 + t mod 64 * 4096 + q mod 64 * 64 + c mod 64 = c"
    using tt qt cq by linarith
  have "t div 64 < 5" using t by auto
  moreover have "t div 64 = 0 \<Longrightarrow> 16 \<le> t mod 64" using t tt by linarith
  moreover have "t div 64 = 4 \<Longrightarrow> t mod 64 < 16" using t tt by linarith
  ultimately show ?thesis using assms(1) val dt dd
    by (simp add: utf8_def utf8_first_def cont_byte_mod flip: q_def)
qed

lemma utf8_first_utf8:
  assumes "scalar c"
  shows "utf8_first (take 4 (utf8 c @ [0, 0, 0])) = Some c"
proof -
  consider "c < 128" | "128 \<le> c" "c < 2048" | "2048 \<le> c" "c < 65536" | "65536 \<le> c" by linarith
  then show ?thesis
    by cases (use assms utf8_two utf8_three utf8_four in \<open>auto simp: utf8_def utf8_first_def\<close>)
qed

lemma utf8_width:
  assumes "env_ok e" "scalar c"
  shows "env_width e (hd (utf8 c)) = length (utf8 c)" "utf8 c \<noteq> []"
proof -
  consider "c < 128" | "128 \<le> c" "c < 2048" | "2048 \<le> c" "c < 65536" | "65536 \<le> c" by linarith
  then show "env_width e (hd (utf8 c)) = length (utf8 c)"
  proof cases
    case 2
    then have "2 \<le> c div 64" "c div 64 < 32" by auto
    then show ?thesis using 2 assms(1) by (simp add: utf8_def env_ok_def)
  next
    case 3
    then have "c div 4096 < 16" by auto
    then show ?thesis using 3 assms(1) by (simp add: utf8_def env_ok_def)
  next
    case 4
    then have "c div 262144 < 5" using assms(2) by (auto simp: scalar_def)
    then show ?thesis using 4 assms(1) by (simp add: utf8_def env_ok_def)
  qed (use assms in \<open>simp add: utf8_def env_ok_def\<close>)
  show "utf8 c \<noteq> []" by (simp add: utf8_def)
qed

section \<open>The octets that are left\<close>

definition rd_stream :: "ics_reader \<Rightarrow> octets" where
  "rd_stream r = unfold_lines (drop (p_byte (rd_pos r)) (rd_src r))"

lemma byte_scan_unfold:
  assumes "byte_scan xs p = (b, p')"
  shows "unfold_lines xs = (case b of None \<Rightarrow> []
           | Some c \<Rightarrow> c # unfold_lines (drop (p_byte p' - p_byte p) xs))
       \<and> (b = None \<longrightarrow> p_byte p' = p_byte p + length xs)"
  using assms
proof (induction xs p rule: byte_scan.induct)
  case (2 c0 cs p)
  show ?case
  proof (cases "c0 = 13")
    case True
    then have "byte_scan cs (p\<lparr>p_byte := p_byte p + 1\<rparr>) = (b, p')" using 2 by simp
    then have scan: "byte_scan cs (p\<lparr>p_byte := p_byte p + 1\<rparr>) = (b, p')" .
    have "unfold_lines cs = (case b of None \<Rightarrow> []
           | Some c \<Rightarrow> c # unfold_lines (drop (p_byte p' - Suc (p_byte p)) cs))
       \<and> (b = None \<longrightarrow> p_byte p' = Suc (p_byte p) + length cs)"
      using "2.IH"(1) [OF True scan] by (cases b) simp_all
    moreover have "b \<noteq> None \<Longrightarrow> p_byte p' - p_byte p = Suc (p_byte p' - Suc (p_byte p))"
      using byte_scan_bytes [OF scan] by auto
    ultimately show ?thesis using True by (auto split: option.splits)
  next
    case cr: False
    show ?thesis
    proof (cases "c0 = 10 \<and> cs \<noteq> [] \<and> (hd cs = 32 \<or> hd cs = 9)")
      case True
      then obtain c1 cs' where cs: "cs = c1 # cs'" by (cases cs) auto
      let ?q = "p\<lparr>p_byte := p_byte p + 2, p_line := p_line p + 1, p_char := 2\<rparr>"
      have *: "byte_scan cs' ?q = (b, p')" using 2 True cr cs by simp
      have "unfold_lines cs' = (case b of None \<Rightarrow> []
           | Some c \<Rightarrow> c # unfold_lines (drop (p_byte p' - p_byte ?q) cs'))
       \<and> (b = None \<longrightarrow> p_byte p' = p_byte ?q + length cs')"
        using "2.IH"(2) [OF cr _ cs] True * cs by auto
      moreover have "b \<noteq> None \<Longrightarrow> p_byte p' - p_byte p = Suc (Suc (p_byte p' - p_byte ?q))"
        using byte_scan_bytes [OF *] by auto
      ultimately show ?thesis using True cr cs by (auto split: option.splits)
    next
      case False
      then show ?thesis using 2 cr by (cases cs) (auto split: if_splits)
    qed
  qed
qed simp

text \<open>Reading an octet takes the next one off the stream and moves only the position.\<close>

lemma byte_stream:
  "reader_byte r = (case rd_stream r of [] \<Rightarrow> None | b # _ \<Rightarrow> Some b, r\<lparr>rd_pos := rd_pos (snd (reader_byte r))\<rparr>)"
  "rd_stream (snd (reader_byte r)) = tl (rd_stream r)"
proof -
  let ?p = "(rd_pos r)\<lparr>p_prev_line := p_line (rd_pos r), p_prev_char := p_char (rd_pos r)\<rparr>"
  obtain b p' where scan: "byte_scan (drop (p_byte (rd_pos r)) (rd_src r)) ?p = (b, p')" by fastforce
  then have r: "reader_byte r = (b, r\<lparr>rd_pos := p'\<rparr>)" by (simp add: reader_byte_def Let_def)
  note u = byte_scan_unfold [OF scan] byte_scan_bytes [OF scan]
  show "reader_byte r = (case rd_stream r of [] \<Rightarrow> None | b # _ \<Rightarrow> Some b, r\<lparr>rd_pos := rd_pos (snd (reader_byte r))\<rparr>)"
    using u r by (cases b) (simp_all add: rd_stream_def)
  show "rd_stream (snd (reader_byte r)) = tl (rd_stream r)"
    using u r by (cases b) (simp_all add: rd_stream_def)
qed

lemma byte_some:
  assumes "rd_stream r = b # bs"
  shows "\<exists>q. reader_byte r = (Some b, r\<lparr>rd_pos := q\<rparr>) \<and> rd_stream (r\<lparr>rd_pos := q\<rparr>) = bs"
  using byte_stream [of r] assms by (metis list.sel(3) list.simps(5) snd_conv)

lemma byte_none:
  assumes "rd_stream r = []"
  shows "\<exists>q. reader_byte r = (None, r\<lparr>rd_pos := q\<rparr>) \<and> rd_stream (r\<lparr>rd_pos := q\<rparr>) = []"
  using byte_stream [of r] assms by (metis list.sel(2) list.simps(4) snd_conv)

lemma bytes_some:
  assumes "rd_stream r = bs @ rest" and "length bs = n"
  shows "\<exists>q. reader_bytes n r = (Some bs, r\<lparr>rd_pos := q\<rparr>) \<and> rd_stream (r\<lparr>rd_pos := q\<rparr>) = rest"
  using assms
proof (induction n arbitrary: r bs)
  case 0
  then show ?case by (intro exI [of _ "rd_pos r"]) (simp add: rret_def)
next
  case (Suc n)
  then obtain b bs' where bs: "bs = b # bs'" "length bs' = n" by (cases bs) auto
  then obtain q where q: "reader_byte r = (Some b, r\<lparr>rd_pos := q\<rparr>)" "rd_stream (r\<lparr>rd_pos := q\<rparr>) = bs' @ rest"
    using byte_some [of r b "bs' @ rest"] Suc.prems(1) by auto
  then show ?case using Suc.IH [OF q(2) bs(2)] bs by (auto simp: rbind_def rret_def)
qed

section \<open>Runs of parsers\<close>

definition before :: "ustring \<Rightarrow> ics_reader \<Rightarrow> bool" where
  "before cs r = (rd_stream r = utf8s cs \<and> list_all scalar cs)"

definition parses :: "ics_env \<Rightarrow> ics_hints \<Rightarrow> (ics_reader \<Rightarrow> 'b \<times> ics_reader) \<Rightarrow> ustring \<Rightarrow> 'b
    \<Rightarrow> ustring \<Rightarrow> bool" where
  "parses e h p cs v cs' = (\<forall>r. rd_env r = e \<and> rd_hints r = h \<and> before cs r \<longrightarrow>
     (\<exists>q. p r = (v, r\<lparr>rd_pos := q\<rparr>) \<and> before cs' (r\<lparr>rd_pos := q\<rparr>)))"

lemma parsesI:
  assumes "\<And>r. rd_env r = e \<Longrightarrow> rd_hints r = h \<Longrightarrow> before cs r
     \<Longrightarrow> \<exists>q. p r = (v, r\<lparr>rd_pos := q\<rparr>) \<and> before cs' (r\<lparr>rd_pos := q\<rparr>)"
  shows "parses e h p cs v cs'"
  using assms by (simp add: parses_def)

lemma parsesE:
  assumes "parses e h p cs v cs'" and "rd_env r = e" and "rd_hints r = h" and "before cs r"
  obtains q where "p r = (v, r\<lparr>rd_pos := q\<rparr>)" and "before cs' (r\<lparr>rd_pos := q\<rparr>)"
  using assms unfolding parses_def by blast

lemma parses_char:
  assumes "env_ok e"
  shows "parses e h reader_char (c # cs) (Some c) cs"
proof (rule parsesI)
  fix r assume e: "rd_env r = e" and b: "before (c # cs) r"
  then have sc: "scalar c" "list_all scalar cs" and st: "rd_stream r = utf8 c @ utf8s cs"
    by (simp_all add: before_def)
  obtain x xs where x: "utf8 c = x # xs" using utf8_width(2) [OF assms sc(1)] by (cases "utf8 c") auto
  then obtain q1 where q1: "reader_byte r = (Some x, r\<lparr>rd_pos := q1\<rparr>)"
      "rd_stream (r\<lparr>rd_pos := q1\<rparr>) = xs @ utf8s cs"
    using byte_some [of r x "xs @ utf8s cs"] st by auto
  have w: "env_width e x - 1 = length xs" using utf8_width(1) [OF assms sc(1)] x by simp
  obtain q2 where q2: "reader_bytes (length xs) (r\<lparr>rd_pos := q1\<rparr>) = (Some xs, r\<lparr>rd_pos := q2\<rparr>)"
      "rd_stream (r\<lparr>rd_pos := q2\<rparr>) = utf8s cs"
    using bytes_some [OF q1(2)] by auto
  have "char_round () r = (Break (Some c), r\<lparr>rd_pos := q2\<rparr>)"
    using q1 q2 w e utf8_first_utf8 [OF sc(1)] x by (simp add: char_round_def)
  then have "reader_char r = (Some c, r\<lparr>rd_pos := q2\<rparr>)"
    unfolding reader_char_def by (subst rloop_unfold [OF progress_char]) simp
  then show "\<exists>q. reader_char r = (Some c, r\<lparr>rd_pos := q\<rparr>) \<and> before cs (r\<lparr>rd_pos := q\<rparr>)"
    using q2 sc by (auto simp: before_def)
qed

lemma parses_char_end: "parses e h reader_char [] None []"
proof (rule parsesI)
  fix r assume "before [] r"
  then obtain q where q: "reader_byte r = (None, r\<lparr>rd_pos := q\<rparr>)" "rd_stream (r\<lparr>rd_pos := q\<rparr>) = []"
    using byte_none [of r] by (auto simp: before_def)
  then have "reader_char r = (None, r\<lparr>rd_pos := q\<rparr>)"
    unfolding reader_char_def by (subst rloop_unfold [OF progress_char]) (simp add: char_round_def)
  then show "\<exists>q. reader_char r = (None, r\<lparr>rd_pos := q\<rparr>) \<and> before [] (r\<lparr>rd_pos := q\<rparr>)"
    using q by (auto simp: before_def)
qed

text \<open>What \<open>peek\<close> sees.\<close>

definition peeked :: "ustring \<Rightarrow> uchar option" where
  "peeked cs = (case cs of [] \<Rightarrow> None | c # _ \<Rightarrow> Some c)"

lemma peeked_simps [simp]: "peeked [] = None" "peeked (c # cs) = Some c"
  by (simp_all add: peeked_def)

lemma peek_before:
  assumes "env_ok (rd_env r)" and "before cs r"
  shows "reader_peek r = peeked cs"
proof -
  have "parses (rd_env r) (rd_hints r) reader_char cs (peeked cs) (tl cs)"
    by (cases cs) (simp_all add: parses_char_end parses_char [OF assms(1)])
  then obtain q where "reader_char r = (peeked cs, r\<lparr>rd_pos := q\<rparr>)"
    using parsesE [OF _ refl refl assms(2)] by metis
  then show ?thesis by (simp add: peek_eq_char)
qed

section \<open>Rules for the combinators\<close>

lemma parses_stay:
  assumes "\<And>r. rd_env r = e \<Longrightarrow> rd_hints r = h \<Longrightarrow> before cs r \<Longrightarrow> p r = (v, r)"
  shows "parses e h p cs v cs"
proof (rule parsesI)
  fix r assume "rd_env r = e" "rd_hints r = h" "before cs r"
  then show "\<exists>q. p r = (v, r\<lparr>rd_pos := q\<rparr>) \<and> before cs (r\<lparr>rd_pos := q\<rparr>)"
    using assms by (intro exI [of _ "rd_pos r"]) simp
qed

lemma parses_rret [parses_intros]: "parses e h (rret a) cs (Some a) cs"
  by (rule parses_stay) (simp add: rret_def)

lemma parses_rfail: "parses e h rfail cs None cs"
  by (rule parses_stay) (simp add: rfail_def)

lemma parses_rbind [parses_intros]:
  assumes "parses e h p cs (Some a) cs1" and "parses e h (f a) cs1 v cs2"
  shows "parses e h (rbind p f) cs v cs2"
proof (rule parsesI)
  fix r assume r: "rd_env r = e" "rd_hints r = h" "before cs r"
  obtain q where "p r = (Some a, r\<lparr>rd_pos := q\<rparr>)" "before cs1 (r\<lparr>rd_pos := q\<rparr>)"
    using parsesE [OF assms(1) r] .
  then show "\<exists>q. rbind p f r = (v, r\<lparr>rd_pos := q\<rparr>) \<and> before cs2 (r\<lparr>rd_pos := q\<rparr>)"
    using parsesE [OF assms(2), of "r\<lparr>rd_pos := q\<rparr>"] r by (auto simp: rbind_def)
qed

lemma parses_rbind_none:
  assumes "parses e h p cs None cs1"
  shows "parses e h (rbind p f) cs None cs1"
proof (rule parsesI)
  fix r assume r: "rd_env r = e" "rd_hints r = h" "before cs r"
  obtain q where "p r = (None, r\<lparr>rd_pos := q\<rparr>)" "before cs1 (r\<lparr>rd_pos := q\<rparr>)"
    using parsesE [OF assms r] .
  then show "\<exists>q. rbind p f r = (None, r\<lparr>rd_pos := q\<rparr>) \<and> before cs1 (r\<lparr>rd_pos := q\<rparr>)"
    by (auto simp: rbind_def)
qed

lemma parses_rcase_some:
  assumes "parses e h p cs (Some a) cs1" and "parses e h (f a) cs1 v cs2"
  shows "parses e h (rcase p f g) cs v cs2"
proof (rule parsesI)
  fix r assume r: "rd_env r = e" "rd_hints r = h" "before cs r"
  obtain q where "p r = (Some a, r\<lparr>rd_pos := q\<rparr>)" "before cs1 (r\<lparr>rd_pos := q\<rparr>)"
    using parsesE [OF assms(1) r] .
  then show "\<exists>q. rcase p f g r = (v, r\<lparr>rd_pos := q\<rparr>) \<and> before cs2 (r\<lparr>rd_pos := q\<rparr>)"
    using parsesE [OF assms(2), of "r\<lparr>rd_pos := q\<rparr>"] r by (auto simp: rcase_def)
qed

lemma parses_rcase_none:
  assumes "parses e h p cs None cs1" and "parses e h g cs1 v cs2"
  shows "parses e h (rcase p f g) cs v cs2"
proof (rule parsesI)
  fix r assume r: "rd_env r = e" "rd_hints r = h" "before cs r"
  obtain q where "p r = (None, r\<lparr>rd_pos := q\<rparr>)" "before cs1 (r\<lparr>rd_pos := q\<rparr>)"
    using parsesE [OF assms(1) r] .
  then show "\<exists>q. rcase p f g r = (v, r\<lparr>rd_pos := q\<rparr>) \<and> before cs2 (r\<lparr>rd_pos := q\<rparr>)"
    using parsesE [OF assms(2), of "r\<lparr>rd_pos := q\<rparr>"] r by (auto simp: rcase_def)
qed

lemma parses_rthen [parses_intros]:
  assumes "parses e h p cs a cs1" and "parses e h q cs1 v cs2"
  shows "parses e h (rthen p q) cs v cs2"
proof (rule parsesI)
  fix r assume r: "rd_env r = e" "rd_hints r = h" "before cs r"
  obtain s where "p r = (a, r\<lparr>rd_pos := s\<rparr>)" "before cs1 (r\<lparr>rd_pos := s\<rparr>)"
    using parsesE [OF assms(1) r] .
  then show "\<exists>s. rthen p q r = (v, r\<lparr>rd_pos := s\<rparr>) \<and> before cs2 (r\<lparr>rd_pos := s\<rparr>)"
    using parsesE [OF assms(2), of "r\<lparr>rd_pos := s\<rparr>"] r by (auto simp: rthen_def)
qed

lemma before_update [simp]:
  "before cs (r\<lparr>rd_msgs := ms\<rparr>) = before cs r" "before cs (r\<lparr>rd_context := c\<rparr>) = before cs r"
  "before cs (r\<lparr>rd_hints := h\<rparr>) = before cs r"
  by (simp_all add: before_def rd_stream_def)

lemma parses_hint [parses_intros]:
  assumes "parses e (f h) p cs v cs'"
  shows "parses e h (reader_hint f p) cs v cs'"
proof (rule parsesI)
  fix r assume r: "rd_env r = e" "rd_hints r = h" "before cs r"
  obtain q where "p (r\<lparr>rd_hints := f h\<rparr>) = (v, r\<lparr>rd_hints := f h, rd_pos := q\<rparr>)"
      "before cs' (r\<lparr>rd_hints := f h, rd_pos := q\<rparr>)"
    using parsesE [OF assms, of "r\<lparr>rd_hints := f h\<rparr>"] r by auto
  then show "\<exists>q. reader_hint f p r = (v, r\<lparr>rd_pos := q\<rparr>) \<and> before cs' (r\<lparr>rd_pos := q\<rparr>)"
    using r by (auto simp: reader_hint_def before_def rd_stream_def intro!: exI [of _ q])
qed

lemma parses_context:
  assumes "parses e h p cs v cs'"
  shows "parses e h (reader_context sp tag p) cs v cs'"
proof (rule parsesI)
  fix r assume r: "rd_env r = e" "rd_hints r = h" "before cs r"
  let ?c = "rd_context r @ [Spanned sp tag]"
  obtain q where "p (r\<lparr>rd_context := ?c\<rparr>) = (v, r\<lparr>rd_context := ?c, rd_pos := q\<rparr>)"
      "before cs' (r\<lparr>rd_context := ?c, rd_pos := q\<rparr>)"
    using parsesE [OF assms, of "r\<lparr>rd_context := ?c\<rparr>"] r by auto
  then show "\<exists>q. reader_context sp tag p r = (v, r\<lparr>rd_pos := q\<rparr>) \<and> before cs' (r\<lparr>rd_pos := q\<rparr>)"
    using r by (auto simp: reader_context_def before_def rd_stream_def intro!: exI [of _ q])
qed

lemma parses_any [parses_intros]:
  assumes "parses e h (ty_read T) cs v cs'"
  shows "parses e h (reader_any T) cs v cs'"
proof (rule parsesI)
  fix r assume r: "rd_env r = e" "rd_hints r = h" "before cs r"
  obtain q where "reader_context (span_one (pos_lc (rd_pos r))) (ty_name T) (ty_read T) r = (v, r\<lparr>rd_pos := q\<rparr>)"
      "before cs' (r\<lparr>rd_pos := q\<rparr>)"
    using parsesE [OF parses_context [OF assms] r] .
  then show "\<exists>q. reader_any T r = (v, r\<lparr>rd_pos := q\<rparr>) \<and> before cs' (r\<lparr>rd_pos := q\<rparr>)"
    by (auto simp: reader_any_def)
qed

lemma parses_silently [parses_intros]:
  assumes "parses e h p cs v cs'"
  shows "parses e h (reader_silently p) cs v cs'"
proof (rule parsesI)
  fix r assume r: "rd_env r = e" "rd_hints r = h" "before cs r"
  obtain q where "p (r\<lparr>rd_msgs := []\<rparr>) = (v, r\<lparr>rd_msgs := [], rd_pos := q\<rparr>)"
      "before cs' (r\<lparr>rd_msgs := [], rd_pos := q\<rparr>)"
    using parsesE [OF assms, of "r\<lparr>rd_msgs := []\<rparr>"] r by auto
  then show "\<exists>q. reader_silently p r = (v, r\<lparr>rd_pos := q\<rparr>) \<and> before cs' (r\<lparr>rd_pos := q\<rparr>)"
    using r by (auto simp: reader_silently_def before_def rd_stream_def intro!: exI [of _ q])
qed

lemma parses_attempt [parses_intros]:
  assumes "parses e h p cs (Some a) cs'"
  shows "parses e h (reader_attempt p) cs (Some a) cs'"
proof (rule parsesI)
  fix r assume r: "rd_env r = e" "rd_hints r = h" "before cs r"
  let ?r = "r\<lparr>rd_msgs := [], rd_context := []\<rparr>"
  obtain q where "p ?r = (Some a, ?r\<lparr>rd_pos := q\<rparr>)" "before cs' (?r\<lparr>rd_pos := q\<rparr>)"
    using parsesE [OF assms, of ?r] r by auto
  then show "\<exists>q. reader_attempt p r = (Some a, r\<lparr>rd_pos := q\<rparr>) \<and> before cs' (r\<lparr>rd_pos := q\<rparr>)"
    using r by (auto simp: reader_attempt_def before_def rd_stream_def intro!: exI [of _ q])
qed

text \<open>A lookahead that fails leaves everything as it was, messages it raised included.\<close>

lemma parses_attempt_none:
  assumes "\<And>r. rd_env r = e \<Longrightarrow> rd_hints r = h \<Longrightarrow> before cs r \<Longrightarrow> fst (p r) = None" and "shrinks p"
  shows "parses e h (reader_attempt p) cs None cs"
proof (rule parsesI)
  fix r assume r: "rd_env r = e" "rd_hints r = h" "before cs r"
  let ?r = "r\<lparr>rd_msgs := [], rd_context := []\<rparr>"
  obtain r1 where p: "p ?r = (None, r1)" using r assms(1) [of ?r] by (cases "p ?r") auto
  then have "leaves ?r r1" by (rule shrinksD [OF assms(2)])
  then have "reader_attempt p r = (None, r)"
    using leaves_abandoned [of r r1] by (simp add: reader_attempt_def p)
  then show "\<exists>q. reader_attempt p r = (None, r\<lparr>rd_pos := q\<rparr>) \<and> before cs (r\<lparr>rd_pos := q\<rparr>)"
    using r by (intro exI [of _ "rd_pos r"]) simp
qed

lemma parses_rbind_spanned:
  assumes "parses e h p cs (Some a) cs1" and "\<And>sp. parses e h (f (Spanned sp a)) cs1 v cs2"
  shows "parses e h (rbind (reader_spanned p) f) cs v cs2"
proof (rule parsesI)
  fix r assume r: "rd_env r = e" "rd_hints r = h" "before cs r"
  obtain q where q: "p r = (Some a, r\<lparr>rd_pos := q\<rparr>)" "before cs1 (r\<lparr>rd_pos := q\<rparr>)"
    using parsesE [OF assms(1) r] .
  then show "\<exists>q. rbind (reader_spanned p) f r = (v, r\<lparr>rd_pos := q\<rparr>) \<and> before cs2 (r\<lparr>rd_pos := q\<rparr>)"
    using parsesE [OF assms(2), of "r\<lparr>rd_pos := q\<rparr>"] r
    by (auto simp: rbind_def reader_spanned_def)
qed

lemma parses_spanned_none:
  assumes "parses e h p cs None cs1"
  shows "parses e h (reader_spanned p) cs None cs1"
proof (rule parsesI)
  fix r assume r: "rd_env r = e" "rd_hints r = h" "before cs r"
  obtain q where "p r = (None, r\<lparr>rd_pos := q\<rparr>)" "before cs1 (r\<lparr>rd_pos := q\<rparr>)"
    using parsesE [OF assms r] .
  then show "\<exists>q. reader_spanned p r = (None, r\<lparr>rd_pos := q\<rparr>) \<and> before cs1 (r\<lparr>rd_pos := q\<rparr>)"
    by (auto simp: reader_spanned_def)
qed

lemma parses_rbind_any_spanned:
  assumes "parses e h (ty_read T) cs (Some a) cs1" and "\<And>sp. parses e h (f (Spanned sp a)) cs1 v cs2"
  shows "parses e h (rbind (reader_any (spanned_type T)) f) cs v cs2"
proof (rule parsesI)
  fix r assume r: "rd_env r = e" "rd_hints r = h" "before cs r"
  let ?c = "rd_context r @ [Spanned (span_one (pos_lc (rd_pos r))) (ty_name T)]"
  obtain q where q: "ty_read T (r\<lparr>rd_context := ?c\<rparr>) = (Some a, r\<lparr>rd_context := ?c, rd_pos := q\<rparr>)"
      "before cs1 (r\<lparr>rd_context := ?c, rd_pos := q\<rparr>)"
    using parsesE [OF assms(1), of "r\<lparr>rd_context := ?c\<rparr>"] r by auto
  then have "before cs1 (r\<lparr>rd_pos := q\<rparr>)" by (simp add: before_def rd_stream_def)
  then show "\<exists>q. rbind (reader_any (spanned_type T)) f r = (v, r\<lparr>rd_pos := q\<rparr>) \<and> before cs2 (r\<lparr>rd_pos := q\<rparr>)"
    using parsesE [OF assms(2), of "r\<lparr>rd_pos := q\<rparr>"] r q
    by (auto simp: rbind_def reader_any_def reader_context_def spanned_type_def plain_type_def reader_spanned_def)
qed

lemma parses_unwrap [parses_intros]:
  "parses e h (spanned_unwrap (Spanned sp (Inr v))) cs (Some v) cs"
  unfolding spanned_unwrap_def by (simp add: parses_rret)

section \<open>Loops\<close>

lemma parses_rloop_break:
  assumes "progress body" and "parses e h (body s) cs (Break b) cs'"
  shows "parses e h (rloop body s) cs b cs'"
proof (rule parsesI)
  fix r assume r: "rd_env r = e" "rd_hints r = h" "before cs r"
  obtain q where "body s r = (Break b, r\<lparr>rd_pos := q\<rparr>)" "before cs' (r\<lparr>rd_pos := q\<rparr>)"
    using parsesE [OF assms(2) r] .
  then show "\<exists>q. rloop body s r = (b, r\<lparr>rd_pos := q\<rparr>) \<and> before cs' (r\<lparr>rd_pos := q\<rparr>)"
    using rloop_unfold [OF assms(1), of s r] by auto
qed

lemma parses_rloop_continue:
  assumes "progress body" and "parses e h (body s) cs (Continue s') cs1"
    and "parses e h (rloop body s') cs1 v cs2"
  shows "parses e h (rloop body s) cs v cs2"
proof (rule parsesI)
  fix r assume r: "rd_env r = e" "rd_hints r = h" "before cs r"
  obtain q where "body s r = (Continue s', r\<lparr>rd_pos := q\<rparr>)" "before cs1 (r\<lparr>rd_pos := q\<rparr>)"
    using parsesE [OF assms(2) r] .
  then show "\<exists>q. rloop body s r = (v, r\<lparr>rd_pos := q\<rparr>) \<and> before cs2 (r\<lparr>rd_pos := q\<rparr>)"
    using parsesE [OF assms(3), of "r\<lparr>rd_pos := q\<rparr>"] r rloop_unfold [OF assms(1), of s r] by auto
qed

section \<open>Elementary parsers\<close>

lemma parses_try_eat [parses_intros]:
  assumes "env_ok e" and "ascii_lower c = ascii_lower d"
  shows "parses e h (reader_try_eat d) (c # cs) (Some ()) cs"
  unfolding reader_try_eat_def
  by (rule parses_attempt, rule parses_rbind [OF parses_char [OF assms(1)]]) (simp add: assms(2) parses_rret)

lemma fst_rbind_char:
  assumes "env_ok (rd_env r)" and "before cs r" and "peeked cs = None \<or> (\<exists>c. peeked cs = Some c \<and> fst (f c (snd (reader_char r))) = None)"
  shows "fst (rbind reader_char f r) = None"
  using assms peek_before [OF assms(1,2)]
  by (auto simp: rbind_def peek_eq_char split: prod.splits option.splits)

lemma parses_try_eat_not [parses_intros]:
  assumes "env_ok e" and "peeked cs = None \<or> (\<exists>c. peeked cs = Some c \<and> ascii_lower c \<noteq> ascii_lower d)"
  shows "parses e h (reader_try_eat d) cs None cs"
  unfolding reader_try_eat_def
  by (rule parses_attempt_none, rule fst_rbind_char [where cs = cs])
    (use assms in \<open>auto simp: rfail_def intro!: progress_intros\<close>)

lemma parses_eat [parses_intros]:
  assumes "env_ok e" and "ascii_lower c = ascii_lower d"
  shows "parses e h (reader_eat d) (c # cs) (Some ()) cs"
  unfolding reader_eat_def
  by (rule parses_rcase_some [OF parses_try_eat [OF assms]]) (rule parses_rret)

lemma parses_eat_all [parses_intros]:
  assumes "env_ok e" and "map ascii_lower s = map ascii_lower t"
  shows "parses e h (reader_eat_all t) (s @ cs) (Some ()) cs"
  using assms(2)
proof (induction t arbitrary: s)
  case Nil then show ?case by (simp add: parses_rret)
next
  case (Cons c t)
  then obtain d s' where "s = d # s'" "ascii_lower d = ascii_lower c" "map ascii_lower s' = map ascii_lower t"
    by (cases s) auto
  then show ?case using Cons.IH [of s'] by (auto intro!: parses_rbind parses_eat [OF assms(1)])
qed

lemma parses_try_string [parses_intros]:
  assumes "env_ok e" and "map ascii_lower s = map ascii_lower t"
  shows "parses e h (reader_try_string t) (s @ cs) (Some ()) cs"
  unfolding reader_try_string_def by (intro parses_attempt parses_eat_all assms)

lemma parses_try_digit [parses_intros]:
  assumes "env_ok e" and "is_digit_char c"
  shows "parses e h reader_try_digit (c # cs) (Some c) cs"
  unfolding reader_try_digit_def
  by (rule parses_attempt, rule parses_rbind [OF parses_char [OF assms(1)]]) (simp add: assms(2) parses_rret)

lemma parses_try_digit_not [parses_intros]:
  assumes "env_ok e" and "peeked cs = None \<or> (\<exists>c. peeked cs = Some c \<and> \<not> is_digit_char c)"
  shows "parses e h reader_try_digit cs None cs"
  unfolding reader_try_digit_def
  by (rule parses_attempt_none, rule fst_rbind_char [where cs = cs])
    (use assms in \<open>auto simp: rfail_def intro!: progress_intros\<close>)

lemma parses_digit [parses_intros]:
  assumes "env_ok e" and "is_digit_char c"
  shows "parses e h reader_digit (c # cs) (Some c) cs"
  unfolding reader_digit_def
  by (rule parses_rcase_some [OF parses_try_digit [OF assms]]) (rule parses_rret)

lemma parses_digit_seq:
  assumes "env_ok e" and "list_all is_digit_char s"
  shows "parses e h (reader_digit_seq (length s)) (s @ cs) (Some s) cs"
  using assms(2)
proof (induction s)
  case Nil then show ?case by (simp add: parses_rret)
next
  case (Cons c s)
  then show ?case by (auto intro!: parses_rbind parses_digit [OF assms(1)] parses_rret)
qed

lemma parses_digits:
  assumes "env_ok e" and "list_all is_digit_char s" and "length s = n" and "0 < n" and "digits_value s < 2 ^ 32"
  shows "parses e h (reader_digits n) (s @ cs) (Some (digits_value s)) cs"
proof -
  have "parse_u32 s = Inr (digits_value s)" using assms by (auto simp: parse_u32_def)
  moreover have "parses e h (reader_digit_seq n) (s @ cs) (Some s) cs"
    using parses_digit_seq [OF assms(1,2)] assms(3) by simp
  ultimately have "parses e h (rbind (reader_digit_seq n) (\<lambda>num. rret (parse_u32 num))) (s @ cs)
      (Some (Inr (digits_value s))) cs"
    using parses_rbind [OF _ parses_rret] by metis
  then show ?thesis unfolding reader_digits_def by (rule parses_rbind_spanned) (rule parses_unwrap)
qed

subsection \<open>Numbers\<close>

lemma parses_u32_loop:
  assumes "env_ok e" and "list_all is_digit_char s"
    and "peeked cs = None \<or> (\<exists>c. peeked cs = Some c \<and> \<not> is_digit_char c)"
  shows "parses e h (rloop u32_round acc) (s @ cs) (Some (acc @ s)) cs"
  using assms(2)
proof (induction s arbitrary: acc)
  case Nil
  have "parses e h (u32_round acc) cs (Break (Some acc)) cs"
    unfolding u32_round_def
  proof (rule parsesI)
    fix r assume "rd_env r = e" "rd_hints r = h" "before cs r"
    then obtain q where "reader_try_digit r = (None, r\<lparr>rd_pos := q\<rparr>)" "before cs (r\<lparr>rd_pos := q\<rparr>)"
      by (rule parsesE [OF parses_try_digit_not [OF assms(1,3)]])
    then show "\<exists>q. (case reader_try_digit r of (None, r') \<Rightarrow> (Break (Some acc), r')
        | (Some d, r') \<Rightarrow> (Continue (acc @ [d]), r')) = (Break (Some acc), r\<lparr>rd_pos := q\<rparr>)
        \<and> before cs (r\<lparr>rd_pos := q\<rparr>)" by auto
  qed
  then show ?case using parses_rloop_break [OF progress_u32] by simp
next
  case (Cons c s)
  have "parses e h (u32_round acc) ((c # s) @ cs) (Continue (acc @ [c])) (s @ cs)"
    unfolding u32_round_def
  proof (rule parsesI)
    fix r assume "rd_env r = e" "rd_hints r = h" "before ((c # s) @ cs) r"
    then obtain q where "reader_try_digit r = (Some c, r\<lparr>rd_pos := q\<rparr>)" "before (s @ cs) (r\<lparr>rd_pos := q\<rparr>)"
      using parsesE [OF parses_try_digit [OF assms(1), of c h "s @ cs"]] Cons.prems by auto
    then show "\<exists>q. (case reader_try_digit r of (None, r') \<Rightarrow> (Break (Some acc), r')
        | (Some d, r') \<Rightarrow> (Continue (acc @ [d]), r')) = (Continue (acc @ [c]), r\<lparr>rd_pos := q\<rparr>)
        \<and> before (s @ cs) (r\<lparr>rd_pos := q\<rparr>)" by auto
  qed
  moreover have "parses e h (rloop u32_round (acc @ [c])) (s @ cs) (Some ((acc @ [c]) @ s)) cs"
    by (rule Cons.IH) (use Cons.prems in simp)
  ultimately have "parses e h (rloop u32_round acc) ((c # s) @ cs) (Some ((acc @ [c]) @ s)) cs"
    by (rule parses_rloop_continue [OF progress_u32])
  then show ?case by simp
qed

end
