(* ===== verification/Ics_Lexemes.thy ===== *)
theory Ics_Lexemes
  imports Ics_Stream
begin

text \<open>
  Runs of the parsers for numbers, identifiers, lines and lists on the texts the writer produces
  for them.
\<close>

section \<open>Punctuation\<close>

text \<open>Characters below the letters are compared as they are.\<close>

lemma ascii_lower_low: "d < 65 \<Longrightarrow> ascii_lower c = ascii_lower d \<longleftrightarrow> c = d"
  by (auto simp: ascii_lower_def)

definition not_next :: "uchar \<Rightarrow> ustring \<Rightarrow> bool" where
  "not_next d cs = (peeked cs = None \<or> (\<exists>c. peeked cs = Some c \<and> ascii_lower c \<noteq> ascii_lower d))"

lemma not_next_simps [simp]:
  "not_next d []" "not_next d (c # cs) = (ascii_lower c \<noteq> ascii_lower d)"
  by (simp_all add: not_next_def)

lemma parses_not_next:
  assumes "env_ok e" and "not_next d cs"
  shows "parses e h (reader_try_eat d) cs None cs"
  by (rule parses_try_eat_not) (use assms in \<open>simp_all add: not_next_def\<close>)

section \<open>Decimal numbers\<close>

lemma dec_str_digits: "list_all is_digit_char (dec_str n)"
proof (induction n rule: dec_str.induct)
  case (1 n)
  then show ?case
    by (subst dec_str.simps) (auto simp: is_digit_char_def [of "48 + _"])
qed

lemma dec_str_nonempty [simp]: "dec_str n \<noteq> []"
  by (subst dec_str.simps) simp

lemma digits_value_snoc: "digits_value (s @ [d]) = digits_value s * 10 + (d - 48)"
  by (simp add: digits_value_def)

lemma digits_value_dec_str [simp]: "digits_value (dec_str n) = n"
proof (induction n rule: dec_str.induct)
  case (1 n)
  show ?case
  proof (cases "n < 10")
    case True
    then show ?thesis by (subst dec_str.simps) (simp add: digits_value_def)
  next
    case False
    then show ?thesis by (subst dec_str.simps) (simp add: digits_value_snoc 1)
  qed
qed

lemma digits_value_zeros: "digits_value (replicate k 48 @ s) = digits_value s"
  by (induction k) (simp_all add: digits_value_def)

lemma digits_value_pad [simp]: "digits_value (pad_str w n) = n"
  by (simp add: pad_str_def digits_value_zeros)

lemma pad_str_digits: "list_all is_digit_char (pad_str w n)"
  using dec_str_digits [of n] by (auto simp: pad_str_def list_all_iff is_digit_char_def [of 48])

lemma length_dec_str:
  assumes "n < 10 ^ k" and "0 < k"
  shows "length (dec_str n) \<le> k"
  using assms
proof (induction k arbitrary: n)
  case (Suc k)
  show ?case
  proof (cases "n < 10")
    case True
    then show ?thesis by (subst dec_str.simps) simp
  next
    case False
    then have "0 < k" using Suc.prems by (cases k) auto
    moreover have "n div 10 < 10 ^ k" using Suc.prems by (auto simp: less_mult_imp_div_less)
    ultimately show ?thesis using Suc.IH [of "n div 10"] False by (subst dec_str.simps) simp
  qed
qed simp

lemma length_pad_str:
  assumes "n < 10 ^ w" and "0 < w"
  shows "length (pad_str w n) = w"
  using length_dec_str [OF assms] by (simp add: pad_str_def)

lemma hd_dec_str: "is_digit_char (hd (dec_str n))"
  using dec_str_digits [of n] dec_str_nonempty [of n] by (cases "dec_str n") auto

lemma last_dec_str: "is_digit_char (last (dec_str n))"
  using dec_str_digits [of n] by (simp add: list_all_iff)

lemma last_pad_str: "is_digit_char (last (pad_str w n))"
  by (simp add: pad_str_def last_dec_str)

lemma pad_str_nonempty [simp]: "pad_str w n \<noteq> []"
  by (simp add: pad_str_def)

lemma parses_pad [parses_intros]:
  assumes "env_ok e" and "n < 10 ^ w" and "0 < w" and "n < 2 ^ 32"
  shows "parses e h (reader_digits w) (pad_str w n @ cs) (Some n) cs"
  using parses_digits [OF assms(1) pad_str_digits length_pad_str [OF assms(2,3)] assms(3)] assms(4)
  by simp

text \<open>The next character does not continue a number.\<close>

definition no_digit :: "ustring \<Rightarrow> bool" where
  "no_digit cs = (peeked cs = None \<or> (\<exists>c. peeked cs = Some c \<and> \<not> is_digit_char c))"

lemma no_digit_simps [simp]: "no_digit []" "no_digit (c # cs) = (\<not> is_digit_char c)"
  by (simp_all add: no_digit_def)

lemma digit_not_sign:
  assumes "is_digit_char c"
  shows "ascii_lower c \<noteq> ascii_lower 45" "ascii_lower c \<noteq> ascii_lower 43"
  using assms by (auto simp: is_digit_char_def ascii_lower_def)

lemma parses_u32_read:
  assumes "env_ok e" and "n < 2 ^ 32" and "no_digit cs"
  shows "parses e h u32_read (dec_str n @ cs) (Some n) cs"
proof -
  obtain d ds where d: "dec_str n = d # ds" "is_digit_char d"
    using hd_dec_str [of n] dec_str_nonempty [of n] by (cases "dec_str n") auto
  have loop: "parses e h (rloop u32_round []) (dec_str n @ cs) (Some (dec_str n)) cs"
    using parses_u32_loop [OF assms(1) dec_str_digits, where acc = "[]"] assms(3) by (simp add: no_digit_def)
  have no_sign: "parses e h (reader_try_eat s) (dec_str n @ cs) None (dec_str n @ cs)"
    if "ascii_lower d \<noteq> ascii_lower s" for s
    using d(1) that by (intro parses_try_eat_not [OF assms(1)]) simp
  have "parses e h (rcase (reader_spanned (reader_try_eat 45))
          (\<lambda>s. rerror (Some (sp_span s))
             (plain_body ''unexpected minus sign, expecting an unsigned integer'') (rloop u32_round []))
          (rthen (reader_try_eat 43) (rloop u32_round []))) (dec_str n @ cs) (Some (dec_str n)) cs"
    by (rule parses_rcase_none [OF parses_spanned_none [OF no_sign [OF digit_not_sign(1) [OF d(2)]]]])
      (rule parses_rthen [OF no_sign [OF digit_not_sign(2) [OF d(2)]] loop])
  then show ?thesis
    unfolding u32_read_def
    by (rule parses_rbind_spanned)
      (use assms(2) in \<open>simp add: spanned_map_def parse_u32_def parses_unwrap\<close>)
qed

lemma parses_u32 [parses_intros]:
  assumes "env_ok e" and "n < 2 ^ 32" and "no_digit cs"
  shows "parses e h (ty_read u32_type) (dec_str n @ cs) (Some n) cs"
  using parses_u32_read [OF assms] by (simp add: u32_type_def plain_type_def)

section \<open>Identifiers\<close>

definition ident_char :: "ics_env \<Rightarrow> uchar \<Rightarrow> bool" where
  "ident_char e c = (env_alphabetic e c \<or> c = 45)"

definition no_ident :: "ics_env \<Rightarrow> ustring \<Rightarrow> bool" where
  "no_ident e cs = (case peeked cs of None \<Rightarrow> True | Some c \<Rightarrow> \<not> ident_char e c)"

lemma no_ident_simps [simp]: "no_ident e []" "no_ident e (c # cs) = (\<not> ident_char e c)"
  by (simp_all add: no_ident_def)

lemma parses_ident_loop:
  assumes "env_ok e" and "list_all (ident_char e) s" and "no_ident e cs"
  shows "parses e h (rloop ident_round acc) (s @ cs) (Some (acc @ s)) cs"
  using assms(2)
proof (induction s arbitrary: acc)
  case Nil
  have "parses e h (ident_round acc) cs (Break (Some acc)) cs"
    by (rule parses_stay)
      (use assms(1,3) in \<open>auto simp: ident_round_def peek_before no_ident_def ident_char_def split: option.splits\<close>)
  then show ?case using parses_rloop_break [OF progress_ident] by simp
next
  case (Cons c s)
  have "parses e h (ident_round acc) ((c # s) @ cs) (Continue (acc @ [c])) (s @ cs)"
  proof (rule parsesI)
    fix r assume r: "rd_env r = e" "rd_hints r = h" "before ((c # s) @ cs) r"
    then have "reader_peek r = Some c" using peek_before assms(1) by fastforce
    moreover obtain q where "reader_char r = (Some c, r\<lparr>rd_pos := q\<rparr>)" "before (s @ cs) (r\<lparr>rd_pos := q\<rparr>)"
      using parsesE [OF parses_char [OF assms(1)] r(1,2), of c "s @ cs"] r(3) by auto
    ultimately show "\<exists>q. ident_round acc r = (Continue (acc @ [c]), r\<lparr>rd_pos := q\<rparr>) \<and> before (s @ cs) (r\<lparr>rd_pos := q\<rparr>)"
      using Cons.prems r(1) by (auto simp: ident_round_def ident_char_def)
  qed
  moreover have "parses e h (rloop ident_round (acc @ [c])) (s @ cs) (Some ((acc @ [c]) @ s)) cs"
    by (rule Cons.IH) (use Cons.prems in simp)
  ultimately have "parses e h (rloop ident_round acc) ((c # s) @ cs) (Some ((acc @ [c]) @ s)) cs"
    by (rule parses_rloop_continue [OF progress_ident])
  then show ?case by simp
qed

lemma parses_ident:
  assumes "env_ok e" and "env_alphabetic e c" and "list_all (ident_char e) s" and "no_ident e cs"
  shows "parses e h reader_ident ((c # s) @ cs) (Some (c # s)) cs"
proof (rule parsesI)
  fix r assume r: "rd_env r = e" "rd_hints r = h" "before ((c # s) @ cs) r"
  have loop: "parses e h (rthen reader_char (rloop ident_round [c])) (c # s @ cs) (Some (c # s)) cs"
    by (rule parses_rthen [OF parses_char [OF assms(1)]])
      (use parses_ident_loop [OF assms(1,3,4), of h "[c]"] in simp)
  have "reader_peek r = Some c" using peek_before assms(1) r by fastforce
  then have "reader_ident r = rthen reader_char (rloop ident_round [c]) r"
    using assms(2) r(1) by (simp add: reader_ident_def)
  moreover obtain q where "rthen reader_char (rloop ident_round [c]) r = (Some (c # s), r\<lparr>rd_pos := q\<rparr>)"
      "before cs (r\<lparr>rd_pos := q\<rparr>)"
    using parsesE [OF loop r(1,2)] r(3) by auto
  ultimately show "\<exists>q. reader_ident r = (Some (c # s), r\<lparr>rd_pos := q\<rparr>) \<and> before cs (r\<lparr>rd_pos := q\<rparr>)"
    by auto
qed

text \<open>Names of the format: \<open>ASCII\<close> letters and hyphens, a letter first.\<close>

definition letter :: "uchar \<Rightarrow> bool" where
  "letter c = (65 \<le> c \<and> c \<le> 90 \<or> 97 \<le> c \<and> c \<le> 122)"

definition is_name :: "ustring \<Rightarrow> bool" where
  "is_name s = (s \<noteq> [] \<and> letter (hd s) \<and> list_all (\<lambda>c. letter c \<or> c = 45) s)"

lemma letter_alphabetic:
  assumes "env_ok e" and "letter c"
  shows "env_alphabetic e c"
  using assms by (auto simp: env_ok_def letter_def)

lemma parses_name:
  assumes "env_ok e" and "is_name s" and "no_ident e cs"
  shows "parses e h reader_ident (s @ cs) (Some s) cs"
proof -
  obtain c t where s: "s = c # t" using assms(2) by (cases s) (auto simp: is_name_def)
  have "env_alphabetic e c" using assms s by (auto simp: is_name_def intro: letter_alphabetic)
  moreover have "list_all (ident_char e) t"
    using assms s letter_alphabetic [OF assms(1)] by (auto simp: is_name_def list_all_iff ident_char_def)
  ultimately show ?thesis using parses_ident [OF assms(1) _ _ assms(3)] s by blast
qed

lemma ascii_no_ident:
  assumes "env_ok e" and "c < 128" and "\<not> letter c" and "c \<noteq> 45"
  shows "\<not> ident_char e c"
  using assms by (auto simp: ident_char_def env_ok_def letter_def)

section \<open>Lines\<close>

lemma parses_rest_loop:
  assumes "env_ok e" and "10 \<notin> set s" and "cs = [] \<and> cs' = [] \<or> cs = 10 # cs'"
  shows "parses e h (rloop rest_round acc) (s @ cs) (Some (acc @ s)) cs'"
  using assms(2)
proof (induction s arbitrary: acc)
  case Nil
  have "parses e h (rest_round acc) cs (Break (Some acc)) cs'"
  proof (rule parsesI)
    fix r assume r: "rd_env r = e" "rd_hints r = h" "before cs r"
    have "parses e h reader_char cs (peeked cs) cs'"
      using assms(3) parses_char_end parses_char [OF assms(1)] by auto
    then obtain q where "reader_char r = (peeked cs, r\<lparr>rd_pos := q\<rparr>)" "before cs' (r\<lparr>rd_pos := q\<rparr>)"
      by (rule parsesE [OF _ r])
    then show "\<exists>q. rest_round acc r = (Break (Some acc), r\<lparr>rd_pos := q\<rparr>) \<and> before cs' (r\<lparr>rd_pos := q\<rparr>)"
      using assms(3) by (auto simp: rest_round_def)
  qed
  then show ?case using parses_rloop_break [OF progress_rest] by simp
next
  case (Cons c s)
  have "parses e h (rest_round acc) ((c # s) @ cs) (Continue (acc @ [c])) (s @ cs)"
  proof (rule parsesI)
    fix r assume r: "rd_env r = e" "rd_hints r = h" "before ((c # s) @ cs) r"
    obtain q where "reader_char r = (Some c, r\<lparr>rd_pos := q\<rparr>)" "before (s @ cs) (r\<lparr>rd_pos := q\<rparr>)"
      using parsesE [OF parses_char [OF assms(1)] r(1,2), of c "s @ cs"] r(3) by auto
    then show "\<exists>q. rest_round acc r = (Continue (acc @ [c]), r\<lparr>rd_pos := q\<rparr>) \<and> before (s @ cs) (r\<lparr>rd_pos := q\<rparr>)"
      using Cons.prems by (auto simp: rest_round_def)
  qed
  moreover have "parses e h (rloop rest_round (acc @ [c])) (s @ cs) (Some ((acc @ [c]) @ s)) cs'"
    by (rule Cons.IH) (use Cons.prems in simp)
  ultimately have "parses e h (rloop rest_round acc) ((c # s) @ cs) (Some ((acc @ [c]) @ s)) cs'"
    by (rule parses_rloop_continue [OF progress_rest])
  then show ?case by simp
qed

text \<open>A value that \<open>rest\<close> returns as it is written.\<close>

definition plain_line :: "ustring \<Rightarrow> bool" where
  "plain_line s = (10 \<notin> set s \<and> (s = [] \<or> hd s \<noteq> 32 \<and> last s \<noteq> 32))"

lemma before_prev_char [simp]:
  "before cs (r\<lparr>rd_pos := q\<lparr>p_prev_char := x\<rparr>\<rparr>) = before cs (r\<lparr>rd_pos := q\<rparr>)"
  by (simp add: before_def rd_stream_def)

lemma parses_rest:
  assumes "env_ok e" and "plain_line s" and "cs = [] \<and> cs' = [] \<or> cs = 10 # cs'"
  shows "parses e h reader_rest (s @ cs) (Some s) cs'"
proof (rule parsesI)
  fix r assume r: "rd_env r = e" "rd_hints r = h" "before (s @ cs) r"
  have "parses e h (rloop rest_round []) (s @ cs) (Some s) cs'"
    using parses_rest_loop [OF assms(1) _ assms(3), of s h "[]"] assms(2) by (simp add: plain_line_def)
  then obtain q where q: "rloop rest_round [] r = (Some s, r\<lparr>rd_pos := q\<rparr>)" "before cs' (r\<lparr>rd_pos := q\<rparr>)"
    by (rule parsesE [OF _ r])
  then have "reader_rest r = (Some s, r\<lparr>rd_pos := q\<lparr>p_prev_char := max (p_prev_char q - 1) 1\<rparr>\<rparr>)"
    using assms(2) by (auto simp: reader_rest_def rbind_def rest_finish_def Let_def plain_line_def)
  then show "\<exists>q. reader_rest r = (Some s, r\<lparr>rd_pos := q\<rparr>) \<and> before cs' (r\<lparr>rd_pos := q\<rparr>)"
    using q(2) by auto
qed

section \<open>Lists of values\<close>

text \<open>The text of a list, given the text of its elements.\<close>

fun vec_text :: "('a \<Rightarrow> ustring) \<Rightarrow> 'a list \<Rightarrow> ustring" where
  "vec_text t [] = []"
| "vec_text t [x] = t x"
| "vec_text t (x # y # xs) = t x @ 44 # vec_text t (y # xs)"

lemma write_vec_from_text:
  assumes "\<And>x w. x \<in> set xs \<Longrightarrow> f x w = write_raw (t x) w"
  shows "write_vec_from True f xs w = (if xs = [] then w else write_raw (44 # vec_text t xs) w)"
  using assms
proof (induction xs arbitrary: w)
  case (Cons x xs)
  then show ?case
    by (cases xs) (simp_all flip: write_raw_append add: write_raw_def)
qed simp

lemma write_vec_text:
  assumes "\<And>x w. x \<in> set xs \<Longrightarrow> f x w = write_raw (t x) w"
  shows "write_vec f xs w = write_raw (vec_text t xs) w"
proof (cases xs)
  case (Cons x ys)
  then have "write_vec_from True f ys (write_raw (t x) w) = (if ys = [] then write_raw (t x) w
      else write_raw (44 # vec_text t ys) (write_raw (t x) w))"
    using assms by (intro write_vec_from_text) simp
  then show ?thesis using Cons assms
    by (cases ys) (simp_all add: write_vec_def flip: write_raw_append)
qed (simp add: write_vec_def)

text \<open>The text that follows a list: not a comma, and after it an element ends.\<close>

lemma parses_vec_loop:
  assumes "env_ok e" and "shrinks (ty_read T)" and "xs \<noteq> []"
    and "\<And>x rest. x \<in> set xs \<Longrightarrow> rest = cs \<or> (\<exists>c. rest = 44 # c)
           \<Longrightarrow> parses e h (ty_read T) (t x @ rest) (Some x) rest"
    and "peeked cs \<noteq> Some 44"
  shows "parses e h (rloop (vec_round T) acc) (vec_text t xs @ cs) (Some (acc @ xs)) cs"
  using assms(3,4)
proof (induction t xs arbitrary: acc rule: vec_text.induct)
  case (2 t x)
  have no_comma: "parses e h (reader_try_eat 44) cs None cs"
  proof (rule parses_try_eat_not [OF assms(1)])
    show "peeked cs = None \<or> (\<exists>c. peeked cs = Some c \<and> ascii_lower c \<noteq> ascii_lower 44)"
      using assms(5) by (cases "peeked cs") (auto simp: ascii_lower_def)
  qed
  have "parses e h (vec_round T acc) (t x @ cs) (Break (Some (acc @ [x]))) cs"
  proof (rule parsesI)
    fix r assume r: "rd_env r = e" "rd_hints r = h" "before (t x @ cs) r"
    obtain q where q: "reader_any T r = (Some x, r\<lparr>rd_pos := q\<rparr>)" "before cs (r\<lparr>rd_pos := q\<rparr>)"
      using parsesE [OF parses_any [OF "2.prems"(2) [of x cs]] r] by auto
    moreover obtain q2 where "reader_try_eat 44 (r\<lparr>rd_pos := q\<rparr>) = (None, r\<lparr>rd_pos := q2\<rparr>)" "before cs (r\<lparr>rd_pos := q2\<rparr>)"
      using parsesE [OF no_comma, of "r\<lparr>rd_pos := q\<rparr>"] r q by auto
    ultimately show "\<exists>q. vec_round T acc r = (Break (Some (acc @ [x])), r\<lparr>rd_pos := q\<rparr>) \<and> before cs (r\<lparr>rd_pos := q\<rparr>)"
      by (auto simp: vec_round_def)
  qed
  then show ?case using parses_rloop_break [OF progress_vec [OF assms(2)]] by simp
next
  case (3 t x y xs)
  let ?rest = "vec_text t (y # xs) @ cs"
  have comma: "parses e h (reader_try_eat 44) (44 # ?rest) (Some ()) ?rest"
    by (rule parses_try_eat [OF assms(1)]) simp
  have "parses e h (vec_round T acc) (t x @ 44 # ?rest) (Continue (acc @ [x])) ?rest"
  proof (rule parsesI)
    fix r assume r: "rd_env r = e" "rd_hints r = h" "before (t x @ 44 # ?rest) r"
    obtain q where q: "reader_any T r = (Some x, r\<lparr>rd_pos := q\<rparr>)" "before (44 # ?rest) (r\<lparr>rd_pos := q\<rparr>)"
      using parsesE [OF parses_any [OF "3.prems"(2) [of x "44 # ?rest"]] r] by auto
    moreover obtain q2 where "reader_try_eat 44 (r\<lparr>rd_pos := q\<rparr>) = (Some (), r\<lparr>rd_pos := q2\<rparr>)" "before ?rest (r\<lparr>rd_pos := q2\<rparr>)"
      using parsesE [OF comma, of "r\<lparr>rd_pos := q\<rparr>"] r q by auto
    ultimately show "\<exists>q. vec_round T acc r = (Continue (acc @ [x]), r\<lparr>rd_pos := q\<rparr>) \<and> before ?rest (r\<lparr>rd_pos := q\<rparr>)"
      by (auto simp: vec_round_def)
  qed
  moreover have "parses e h (rloop (vec_round T) (acc @ [x])) ?rest (Some ((acc @ [x]) @ y # xs)) cs"
    by (rule "3.IH") (use "3.prems" in auto)
  ultimately have "parses e h (rloop (vec_round T) acc) (t x @ 44 # ?rest) (Some ((acc @ [x]) @ y # xs)) cs"
    by (rule parses_rloop_continue [OF progress_vec [OF assms(2)]])
  then show ?case by simp
qed simp

lemma parses_vec:
  assumes "env_ok e" and "shrinks (ty_read T)" and "xs \<noteq> []"
    and "\<And>x rest. x \<in> set xs \<Longrightarrow> rest = cs \<or> (\<exists>c. rest = 44 # c)
           \<Longrightarrow> parses e (h\<lparr>inside_array := True\<rparr>) (ty_read T) (t x @ rest) (Some x) rest"
    and "peeked cs \<noteq> Some 44"
  shows "parses e h (ty_read (vec_type T)) (vec_text t xs @ cs) (Some xs) cs"
proof -
  have "parses e (h\<lparr>inside_array := True\<rparr>) (rloop (vec_round T) []) (vec_text t xs @ cs) (Some ([] @ xs)) cs"
    by (rule parses_vec_loop) (use assms in auto)
  then show ?thesis
    by (simp add: vec_type_def plain_type_def vec_read_def parses_hint)
qed

section \<open>Whole sources\<close>

lemma unfold_lines_Nil:
  assumes "unfold_lines xs = []" and "xs \<noteq> []"
  shows "last xs = 13 \<or> last xs = 32 \<or> last xs = 9"
  using assms
proof (induction xs rule: unfold_lines.induct)
  case (2 c cs)
  then show ?case by (cases cs) (auto split: if_splits list.splits)
qed simp

lemma before_reader_new:
  assumes "foldable s" and "list_all scalar s"
  shows "before s (reader_new e (utf8s (fold_text 0 s)))"
  using assms by (simp add: before_def rd_stream_def reader_new_def pos_default_def unfold_fold_text)

lemma before_end_empty:
  assumes "before [] r" and "rd_src r \<noteq> [] \<longrightarrow> last (rd_src r) \<notin> {13, 32, 9}"
  shows "reader_is_empty r"
proof (rule ccontr)
  assume "\<not> reader_is_empty r"
  then have lt: "p_byte (rd_pos r) < length (rd_src r)" by (simp add: reader_is_empty_def)
  then have "last (drop (p_byte (rd_pos r)) (rd_src r)) = last (rd_src r)" by simp
  then show False
    using assms lt unfold_lines_Nil [of "drop (p_byte (rd_pos r)) (rd_src r)"]
    by (auto simp: before_def rd_stream_def)
qed

lemma last_utf8s:
  assumes "s \<noteq> []"
  shows "last (utf8s s) = last (utf8 (last s))"
proof -
  obtain t c where "s = t @ [c]" using assms by (cases s rule: rev_cases) auto
  moreover have "utf8 c \<noteq> []" by (simp add: utf8_def)
  ultimately show ?thesis by simp
qed

lemma last_octet:
  assumes "s \<noteq> []" and "last s \<notin> {13, 32, 9}"
  shows "last (utf8s (fold_text l s)) \<notin> {13, 32, 9}"
  using assms utf8_octets_cases [of "last s"]
  by (auto simp: last_utf8s last_fold_text utf8_def split: if_splits)

text \<open>What was written is read back, without a message and to the end.\<close>

definition no_hints :: ics_hints where
  "no_hints = \<lparr>inside_array = False, inside_quote = False\<rparr>"

lemma from_str_written:
  assumes "parses e no_hints (ty_read T) s (Some v) []" and "foldable s" and "list_all scalar s"
    and "s = [] \<or> last s \<notin> {13, 32, 9}"
  shows "from_str e T (utf8s (fold_text 0 s)) = Some (Inr v)"
proof -
  let ?r = "reader_new e (utf8s (fold_text 0 s))"
  obtain q where q: "ty_read T ?r = (Some v, ?r\<lparr>rd_pos := q\<rparr>)" "before [] (?r\<lparr>rd_pos := q\<rparr>)"
    using parsesE [OF assms(1) _ _ before_reader_new [OF assms(2,3)], of e]
    by (auto simp: reader_new_def no_hints_def)
  have "rd_src (?r\<lparr>rd_pos := q\<rparr>) = utf8s (fold_text 0 s)" by (simp add: reader_new_def)
  then have "reader_is_empty (?r\<lparr>rd_pos := q\<rparr>)"
    using before_end_empty [OF q(2)] last_octet [of s 0] assms(4) by (cases "s = []") auto
  then show ?thesis using q(1) by (simp add: from_str_def from_str_ex_def reader_new_def)
qed

end
