(* ===== verification/Ics_Text.thy ===== *)
theory Ics_Text
  imports Ics_Lexemes
begin

text \<open>
  Texts and parameter values (\<open>shared/ical/src/objects/text.rs\<close>, \<open>paramvalue.rs\<close>): their
  constructors, parsers and printers, and the proofs that printing and reading are inverse on
  what the constructors build.
\<close>

section \<open>Texts\<close>

datatype ics_text = Text (text_str: ustring)

datatype text_violation = TextIllegalCharacter nat uchar

definition text_char :: "uchar \<Rightarrow> uchar option" where
  "text_char ch = (if ch = 9 then Some 32 else if ch = 10 then Some 10
     else if is_control_char ch then None else Some ch)"

definition text_new :: "ustring \<Rightarrow> ics_text" where
  "text_new s = Text (List.map_filter text_char s)"

text \<open>\<open>char_indices\<close> numbers the characters by the octets before them.\<close>

fun text_check :: "nat \<Rightarrow> ustring \<Rightarrow> text_violation + ustring" where
  "text_check idx [] = Inr []"
| "text_check idx (ch # s) =
    (if ch = 9 \<or> is_control_char ch \<and> ch \<noteq> 10 then Inl (TextIllegalCharacter idx ch)
     else case text_check (idx + len_utf8 ch) s of Inl v \<Rightarrow> Inl v | Inr t \<Rightarrow> Inr (ch # t))"

definition text_new_checked :: "ustring \<Rightarrow> text_violation + ics_text" where
  "text_new_checked s = map_sum id Text (text_check 0 s)"

definition text_new_unchecked :: "ustring \<Rightarrow> ics_text" where
  "text_new_unchecked s = Text s"

text \<open>One round of the loop of \<open>Text::read\<close>.\<close>

definition text_escape :: "ustring \<Rightarrow> uchar spanned \<Rightarrow> ics_reader \<Rightarrow> (ustring, ustring) flow \<times> ics_reader" where
  "text_escape text ch r =
    (if sp_value ch \<in> {92, 59, 44} then (Continue (text @ [sp_value ch]), r)
     else if sp_value ch = 110 then (Continue (text @ [10]), r)
     else if sp_value ch = 10
     then (Break (Some text), reader_warn (Some (sp_span ch)) (plain_body ''unexpected newline character'') r)
     else (Continue text, reader_error (Some (sp_span ch)) (plain_body ''unrecognized escape sequence'') r))"

definition text_round :: "(ustring, ustring) body" where
  "text_round text r =
    (case reader_char r of
       (None, r1) \<Rightarrow> (Break (Some text), r1)
     | (Some ch, r1) \<Rightarrow>
         if ch = 10 then (Break (Some text), r1)
         else if ch = 92 then
           (case reader_any (spanned_type char_type) r1 of
              (None, r2) \<Rightarrow> (Break (Some text), r2)
            | (Some sp, r2) \<Rightarrow> text_escape text sp r2)
         else if ch = 34 \<and> inside_quote (rd_hints r1) then (Break (Some text), r1)
         else (Continue (text @ [ch]), r1))"

definition text_read :: "ics_text rd" where
  "text_read = rbind (rloop text_round []) (\<lambda>text. rret (Text text))"

definition text_type :: "ics_text ics_type" where
  "text_type = plain_type ''Text'' text_read"

text \<open>\<open>IcsWrite for TextRef\<close>.\<close>

definition text_escaped :: "uchar \<Rightarrow> ustring" where
  "text_escaped ch = (if ch = 92 then [92, 92] else if ch = 59 then [92, 59]
     else if ch = 44 then [92, 44] else if ch = 10 then [92, 110] else [ch])"

definition text_ref_write :: "ustring \<Rightarrow> ics_writer \<Rightarrow> ics_writer" where
  "text_ref_write s w = fold (\<lambda>ch. write_raw (text_escaped ch)) s w"

definition text_write :: "ics_text \<Rightarrow> ics_writer \<Rightarrow> ics_writer" where
  "text_write t = text_ref_write (text_str t)"

subsection \<open>Properties\<close>

text \<open>What the constructors let through: no tab and no control character but the newline.\<close>

definition text_ok :: "ics_text \<Rightarrow> bool" where
  "text_ok t = list_all (\<lambda>c. scalar c \<and> (c = 10 \<or> \<not> is_control_char c)) (text_str t)"

lemma text_new_ok:
  assumes "list_all scalar s"
  shows "text_ok (text_new s)"
  using assms
  by (auto simp: text_ok_def text_new_def list_all_iff map_filter_def text_char_def is_control_char_def
      scalar_def split: if_splits)

lemma text_check_ok:
  "text_check i s = Inr t \<Longrightarrow> t = s \<and> list_all (\<lambda>c. c = 10 \<or> \<not> is_control_char c) s"
  by (induction i s arbitrary: t rule: text_check.induct)
    (auto simp: is_control_char_def split: if_splits sum.splits)

lemma text_check_complete:
  "list_all (\<lambda>c. c = 10 \<or> \<not> is_control_char c) s \<Longrightarrow> text_check i s = Inr s"
  by (induction i s rule: text_check.induct) (auto simp: is_control_char_def)

definition text_text :: "ustring \<Rightarrow> ustring" where
  "text_text s = concat (map text_escaped s)"

lemma text_text_simps [simp]:
  "text_text [] = []" "text_text (c # s) = text_escaped c @ text_text s"
  by (simp_all add: text_text_def)

lemma text_ref_write_text: "text_ref_write s w = write_raw (text_text s) w"
  by (induction s arbitrary: w) (simp_all add: text_ref_write_def)

lemma text_escape_result:
  assumes "text_escape t ch r = (fl, r')"
  shows "leaves r r'" "consumes s r \<Longrightarrow> consumes s r'"
  using assms by (auto simp: text_escape_def split: if_splits)

lemma text_round_result:
  assumes "text_round s r = (fl, r')"
  shows "leaves r r' \<and> (\<forall>s'. fl = Continue s' \<longrightarrow> consumes r r')"
proof -
  obtain c r1 where c: "reader_char r = (c, r1)" by fastforce
  obtain sp r2 where sp: "reader_any (spanned_type char_type) r1 = (sp, r2)" by fastforce
  have "shrinks (reader_any (spanned_type char_type))" by (intro progress_intros)
  then have 2: "leaves r1 r2" using sp by (rule shrinksD)
  show ?thesis
  proof (cases c)
    case None
    then show ?thesis using assms c eatsD(1) [OF eats_char c] by (auto simp: text_round_def)
  next
    case (Some ch)
    then have 1: "consumes r r1" using c eatsD(2) [OF eats_char] by blast
    have "consumes r r2" using 1 2 by (rule consumes_leaves)
    then show ?thesis using assms c Some sp 1
      by (cases sp) (auto simp: text_round_def consumes_imp_leaves
          dest: text_escape_result(2) [rotated] split: if_splits intro: consumes_imp_leaves)
  qed
qed

lemma progress_text: "progress text_round"
  by (rule progressI; drule text_round_result) auto

lemma shrinks_text [progress_intros]: "shrinks text_read" "shrinks (ty_read text_type)"
  unfolding text_read_def text_type_def plain_type_def
  by (auto intro!: progress_intros progress_text)

lemma parses_spanned_char:
  assumes "env_ok e" and "rd_env r = e" and "rd_hints r = h" and "before (c # cs) r"
  shows "\<exists>sp q. reader_any (spanned_type char_type) r = (Some (Spanned sp c), r\<lparr>rd_pos := q\<rparr>) \<and> before cs (r\<lparr>rd_pos := q\<rparr>)"
proof -
  have "parses e h (rbind (reader_any (spanned_type char_type)) (\<lambda>sp. rret (sp_value sp))) (c # cs) (Some c) cs"
    by (rule parses_rbind_any_spanned [where ?cs1.0 = cs and a = c])
      (simp_all add: char_type_def plain_type_def parses_char [OF assms(1)] parses_rret)
  then obtain q where "rbind (reader_any (spanned_type char_type)) (\<lambda>sp. rret (sp_value sp)) r = (Some c, r\<lparr>rd_pos := q\<rparr>)"
      "before cs (r\<lparr>rd_pos := q\<rparr>)"
    by (rule parsesE [OF _ assms(2-)])
  then show ?thesis
    by (auto simp: rbind_def rret_def split: prod.splits option.splits) (metis spanned.collapse)
qed

lemma parses_text_char:
  assumes "env_ok e" and "\<not> inside_quote h \<or> c \<noteq> 34"
  shows "parses e h (text_round acc) (text_escaped c @ cs) (Continue (acc @ [c])) cs"
proof (rule parsesI)
  fix r assume r: "rd_env r = e" "rd_hints r = h" "before (text_escaped c @ cs) r"
  show "\<exists>q. text_round acc r = (Continue (acc @ [c]), r\<lparr>rd_pos := q\<rparr>) \<and> before cs (r\<lparr>rd_pos := q\<rparr>)"
  proof (cases "c \<in> {92, 59, 44, 10}")
    case True
    then obtain d where d: "text_escaped c = [92, d]" "d \<in> {92, 59, 44, 110}" "d = (if c = 10 then 110 else c)"
      by (auto simp: text_escaped_def)
    obtain q where q: "reader_char r = (Some 92, r\<lparr>rd_pos := q\<rparr>)" "before (d # cs) (r\<lparr>rd_pos := q\<rparr>)"
      using parsesE [OF parses_char [OF assms(1)] r(1,2), of 92 "d # cs"] r(3) d(1) by auto
    obtain sp q2 where "reader_any (spanned_type char_type) (r\<lparr>rd_pos := q\<rparr>) = (Some (Spanned sp d), r\<lparr>rd_pos := q2\<rparr>)"
        "before cs (r\<lparr>rd_pos := q2\<rparr>)"
      using parses_spanned_char [OF assms(1), of "r\<lparr>rd_pos := q\<rparr>" h d cs] r q by auto
    then show ?thesis using q True d by (auto simp: text_round_def text_escape_def)
  next
    case False
    then have "text_escaped c = [c]" by (auto simp: text_escaped_def)
    then obtain q where q: "reader_char r = (Some c, r\<lparr>rd_pos := q\<rparr>)" "before cs (r\<lparr>rd_pos := q\<rparr>)"
      using parsesE [OF parses_char [OF assms(1)] r(1,2), of c cs] r(3) by auto
    then show ?thesis using False assms(2) r(2) by (auto simp: text_round_def)
  qed
qed

text \<open>A text ends with the line, with the source, or with a quote the caller waits for.\<close>

definition text_end :: "ics_hints \<Rightarrow> ustring \<Rightarrow> ustring \<Rightarrow> bool" where
  "text_end h cs cs' = (cs = [] \<and> cs' = [] \<or> cs = 10 # cs' \<or> inside_quote h \<and> cs = 34 # cs')"

lemma parses_text_end:
  assumes "env_ok e" and "text_end h cs cs'"
  shows "parses e h (text_round acc) cs (Break (Some acc)) cs'"
proof (rule parsesI)
  fix r assume r: "rd_env r = e" "rd_hints r = h" "before cs r"
  have "parses e h reader_char cs (peeked cs) cs'"
    using assms(2) parses_char_end parses_char [OF assms(1)] by (auto simp: text_end_def)
  then obtain q where "reader_char r = (peeked cs, r\<lparr>rd_pos := q\<rparr>)" "before cs' (r\<lparr>rd_pos := q\<rparr>)"
    by (rule parsesE [OF _ r])
  then show "\<exists>q. text_round acc r = (Break (Some acc), r\<lparr>rd_pos := q\<rparr>) \<and> before cs' (r\<lparr>rd_pos := q\<rparr>)"
    using assms(2) r(2) by (auto simp: text_round_def text_end_def)
qed

lemma parses_text_loop:
  assumes "env_ok e" and "\<not> inside_quote h \<or> 34 \<notin> set s" and "text_end h cs cs'"
  shows "parses e h (rloop text_round acc) (text_text s @ cs) (Some (acc @ s)) cs'"
  using assms(2)
proof (induction s arbitrary: acc)
  case Nil
  show ?case
    using parses_rloop_break [OF progress_text parses_text_end [OF assms(1,3)]] by simp
next
  case (Cons c s)
  have "parses e h (text_round acc) (text_escaped c @ text_text s @ cs) (Continue (acc @ [c])) (text_text s @ cs)"
    by (rule parses_text_char [OF assms(1)]) (use Cons.prems in auto)
  moreover have "parses e h (rloop text_round (acc @ [c])) (text_text s @ cs) (Some ((acc @ [c]) @ s)) cs'"
    by (rule Cons.IH) (use Cons.prems in auto)
  ultimately have "parses e h (rloop text_round acc) (text_escaped c @ text_text s @ cs) (Some ((acc @ [c]) @ s)) cs'"
    by (rule parses_rloop_continue [OF progress_text])
  then show ?case by simp
qed

lemma parses_text [parses_intros]:
  assumes "env_ok e" and "\<not> inside_quote h \<or> 34 \<notin> set (text_str t)" and "text_end h cs cs'"
  shows "parses e h (ty_read text_type) (text_text (text_str t) @ cs) (Some t) cs'"
proof -
  have "parses e h (rloop text_round []) (text_text (text_str t) @ cs) (Some (text_str t)) cs'"
    using parses_text_loop [OF assms, of "[]"] by simp
  then have "parses e h text_read (text_text (text_str t) @ cs) (Some (Text (text_str t))) cs'"
    unfolding text_read_def by (rule parses_rbind) (rule parses_rret)
  then show ?thesis by (simp add: text_type_def plain_type_def)
qed

lemma text_text_scalar: "list_all scalar s \<Longrightarrow> list_all scalar (text_text s)"
  by (induction s) (auto simp: text_escaped_def scalar_def)

lemma foldable_append:
  assumes "10 \<notin> set s" and "13 \<notin> set s" and "foldable t"
  shows "foldable (s @ t)"
  using assms by (induction s) auto

lemma text_text_no_nl: "10 \<notin> set (text_text s)"
  by (induction s) (auto simp: text_escaped_def)

lemma text_text_no_cr: "13 \<notin> set s \<Longrightarrow> 13 \<notin> set (text_text s)"
  by (induction s) (auto simp: text_escaped_def)

section \<open>Parameter values\<close>

record param_value =
  pv_value :: ustring
  pv_quote :: bool

datatype param_value_violation = ParamIllegalCharacter nat uchar

definition needs_quote :: "uchar \<Rightarrow> bool" where
  "needs_quote ch = (ch \<in> {59, 58, 44})"

definition param_value_new :: "ustring \<Rightarrow> param_value" where
  "param_value_new s = \<lparr>pv_value = filter (\<lambda>ch. \<not> is_control_char ch \<and> ch \<noteq> 34) s,
     pv_quote = list_ex needs_quote s\<rparr>"

fun param_check :: "nat \<Rightarrow> ustring \<Rightarrow> param_value_violation + ustring" where
  "param_check idx [] = Inr []"
| "param_check idx (ch # s) =
    (if is_control_char ch \<or> ch = 34 then Inl (ParamIllegalCharacter idx ch)
     else case param_check (idx + len_utf8 ch) s of Inl v \<Rightarrow> Inl v | Inr t \<Rightarrow> Inr (ch # t))"

definition param_value_new_checked :: "ustring \<Rightarrow> param_value_violation + param_value" where
  "param_value_new_checked s = map_sum id (\<lambda>v. \<lparr>pv_value = v, pv_quote = list_ex needs_quote s\<rparr>)
     (param_check 0 s)"

definition param_value_new_unchecked :: "ustring \<Rightarrow> bool \<Rightarrow> param_value" where
  "param_value_new_unchecked s q = \<lparr>pv_value = s, pv_quote = q\<rparr>"

datatype pv_mode = Quoted ics_span | Plain

type_synonym pv_state = "ustring \<times> pv_mode \<times> bool"

text \<open>\<open>value.push(r.char()?)\<close>, with the quote flag afterwards.\<close>

definition pv_push :: "pv_state \<Rightarrow> bool \<Rightarrow> ics_reader \<Rightarrow> (pv_state, param_value) flow \<times> ics_reader" where
  "pv_push st quote r = (case st of (value, mode, _) \<Rightarrow>
     (case reader_char r of
        (None, r') \<Rightarrow> (Break None, r')
      | (Some ch, r') \<Rightarrow> (Continue (value @ [ch], mode, quote), r')))"

text \<open>A backslash, and then the character it escapes; \<open>quote\<close> is the flag when that is one of
  the characters that need quotes.\<close>

definition pv_escape :: "pv_state \<Rightarrow> bool \<Rightarrow> ics_reader \<Rightarrow> (pv_state, param_value) flow \<times> ics_reader" where
  "pv_escape st quote r = (case st of (value, mode, old) \<Rightarrow>
    (let r1 = snd (reader_char r);
         span = Span (pos_prev (rd_pos r1)) (pos_lc (rd_pos r1))
     in case reader_char r1 of
          (None, r2) \<Rightarrow> (Break None, r2)
        | (Some ch, r2) \<Rightarrow>
            if needs_quote ch
            then (Continue (value @ [ch], mode, quote),
                  reader_warn (Some span) (plain_body ''quirky escape sequence'') r2)
            else (Continue (value, mode, old),
                  reader_error (Some span) (plain_body ''unrecognized escape sequence'') r2)))"

definition pv_round :: "(pv_state, param_value) body" where
  "pv_round st r = (case st of (value, mode, quote) \<Rightarrow>
    (let done = Break (Some \<lparr>pv_value = value, pv_quote = quote\<rparr>)
     in case reader_peek r of
          None \<Rightarrow> (done, r)
        | Some ch \<Rightarrow>
            (case mode of
               Quoted quote_span \<Rightarrow>
                 if ch = 34 then (done, snd (reader_char r))
                 else if ch = 92 then
                   (case reader_try_string [92, 34] r of
                      (Some _, r1) \<Rightarrow> (Continue (value, Plain, False),
                         reader_warn (Some quote_span) (plain_body ''quirky quote'') r1)
                    | (None, r1) \<Rightarrow> pv_escape st quote r1)
                 else if ch = 9 then
                   (Continue (value @ [32], mode, quote),
                    snd (reader_char (reader_warn (Some (span_one (pos_lc (rd_pos r)))) (plain_body ''quirky tab'') r)))
                 else if is_control_char ch then (done, r)
                 else pv_push st quote r
             | Plain \<Rightarrow>
                 if ch \<in> {59, 58, 34} then (done, r)
                 else if ch = 44 then
                   (if inside_array (rd_hints r) then (done, r)
                    else pv_push st True
                      (reader_warn (Some (span_one (pos_lc (rd_pos r)))) (plain_body ''quirky comma'') r))
                 else if ch = 92 then pv_escape st True r
                 else if ch = 9 then
                   (Continue (value @ [32], mode, quote),
                    snd (reader_char (reader_warn (Some (span_one (pos_lc (rd_pos r)))) (plain_body ''quirky tab'') r)))
                 else if is_control_char ch then (done, r)
                 else pv_push st quote r)))"

definition param_value_read :: "param_value rd" where
  "param_value_read = rcase (reader_spanned (reader_try_eat 34))
     (\<lambda>q. rloop pv_round ([], Quoted (sp_span q), True))
     (rloop pv_round ([], Plain, False))"

definition param_value_type :: "param_value ics_type" where
  "param_value_type = plain_type ''ParamValue'' param_value_read"

definition param_value_write :: "param_value \<Rightarrow> ics_writer \<Rightarrow> ics_writer" where
  "param_value_write p w =
    (let w1 = (if pv_quote p then write_raw [34] w else w);
         w2 = write_raw (pv_value p) w1
     in if pv_quote p then write_raw [34] w2 else w2)"

subsection \<open>Properties\<close>

text \<open>A value that survives printing and reading: what \<open>new\<close> builds has no control character
  and no quote, and is quoted when it has a character that needs it; a backslash would be read as
  an escape.\<close>

definition param_value_ok :: "param_value \<Rightarrow> bool" where
  "param_value_ok p = (list_all (\<lambda>c. scalar c \<and> \<not> is_control_char c \<and> c \<noteq> 34 \<and> c \<noteq> 92) (pv_value p)
     \<and> (pv_quote p \<or> \<not> list_ex needs_quote (pv_value p)))"

lemma param_value_new_ok:
  assumes "list_all scalar s" and "92 \<notin> set s"
  shows "param_value_ok (param_value_new s)"
  using assms by (auto simp: param_value_ok_def param_value_new_def list_all_iff list_ex_iff)

definition param_text :: "param_value \<Rightarrow> ustring" where
  "param_text p = (if pv_quote p then [34] @ pv_value p @ [34] else pv_value p)"

lemma param_value_write_text: "param_value_write p w = write_raw (param_text p) w"
  by (simp add: param_value_write_def param_text_def Let_def flip: write_raw_append)

lemma char_leaves: "leaves r (snd (reader_char r))"
  using shrinks_char by (simp add: shrinks_def)

lemma pv_push_result:
  assumes "pv_push st q r = (fl, r')"
  shows "leaves r r' \<and> (\<forall>s'. fl = Continue s' \<longrightarrow> consumes r r')"
  using assms eatsD [OF eats_char] by (auto simp: pv_push_def split: prod.splits option.splits)

lemma pv_escape_result:
  assumes "pv_escape st q r = (fl, r')"
  shows "leaves r r' \<and> (\<forall>s'. fl = Continue s' \<longrightarrow> consumes r r')"
proof -
  obtain c r2 where c: "reader_char (snd (reader_char r)) = (c, r2)" by fastforce
  have "leaves r r2" using char_leaves eatsD(1) [OF eats_char c] by (rule leaves_trans)
  moreover have "consumes r r2" if "c = Some ch" for ch
    using char_leaves eatsD(2) [OF eats_char] c that by (blast intro: leaves_consumes)
  ultimately show ?thesis using assms c
    by (cases c) (auto simp: pv_escape_def Let_def split: prod.splits if_splits)
qed

lemma pv_round_result:
  assumes "pv_round st r = (fl, r')"
  shows "leaves r r' \<and> (\<forall>s'. fl = Continue s' \<longrightarrow> consumes r r')"
proof -
  obtain val mode quote where st: "st = (val, mode, quote)" by (cases st)
  obtain t r1 where t: "reader_try_string [92, 34] r = (t, r1)" by fastforce
  have 1: "leaves r r1" using shrinks_try_string t by (rule shrinksD)
  have t': "t \<noteq> None \<Longrightarrow> consumes r r1"
  proof -
    assume "t \<noteq> None"
    moreover have "eats (reader_try_string [92, 34])"
      unfolding reader_try_string_def by (auto intro!: progress_intros)
    ultimately show "consumes r r1" using t eatsD(2) by (cases t) auto
  qed
  have warned: "consumes r (snd (reader_char (reader_warn a b r)))" if "reader_peek r = Some c" for a b c
  proof -
    have "reader_peek (reader_warn a b r) = Some c"
      using that oblivious_char unfolding peek_eq_char oblivious_def by (metis same_input_note(1) same_input_refl)
    then show ?thesis using peek_char_consumes note_leaves2(4) by blast
  qed
  have warned_l: "leaves r (snd (reader_char (reader_warn a b r)))" for a b
    using char_leaves [of "reader_warn a b r"] by simp
  have push: "pv_push st q (reader_warn a b r) = (fl, r') \<Longrightarrow> ?thesis" for q a b
    using pv_push_result by fastforce
  have esc: "pv_escape st q r1 = (fl, r') \<Longrightarrow> ?thesis" for q
    using pv_escape_result 1 by (blast intro: leaves_trans leaves_consumes)
  show ?thesis
    using assms st t t' warned warned_l push esc 1 char_leaves [of r] pv_push_result [of st quote r fl r']
      pv_escape_result [of st True r fl r']
    by (auto simp: pv_round_def Let_def split: option.splits pv_mode.splits if_splits)
qed

lemma progress_pv: "progress pv_round"
  by (rule progressI; drule pv_round_result) auto

lemma shrinks_param_value [progress_intros]: "shrinks param_value_read" "shrinks (ty_read param_value_type)"
  unfolding param_value_read_def param_value_type_def plain_type_def
  by (auto intro!: progress_intros progress_pv)

lemma parses_pv_push:
  assumes "env_ok e"
  shows "parses e h (pv_push (value, mode, old) quote) (c # cs) (Continue (value @ [c], mode, quote)) cs"
proof (rule parsesI)
  fix r assume r: "rd_env r = e" "rd_hints r = h" "before (c # cs) r"
  obtain q where "reader_char r = (Some c, r\<lparr>rd_pos := q\<rparr>)" "before cs (r\<lparr>rd_pos := q\<rparr>)"
    using parsesE [OF parses_char [OF assms] r] .
  then show "\<exists>q. pv_push (value, mode, old) quote r = (Continue (value @ [c], mode, quote), r\<lparr>rd_pos := q\<rparr>)
      \<and> before cs (r\<lparr>rd_pos := q\<rparr>)" by (auto simp: pv_push_def)
qed

lemma parses_pv_char:
  assumes "env_ok e" and "\<not> is_control_char c" and "c \<noteq> 34" and "c \<noteq> 92" and "mode = Plain \<longrightarrow> \<not> needs_quote c"
  shows "parses e h (pv_round (value, mode, quote)) (c # cs) (Continue (value @ [c], mode, quote)) cs"
proof (rule parsesI)
  fix r assume r: "rd_env r = e" "rd_hints r = h" "before (c # cs) r"
  have "reader_peek r = Some c" using peek_before assms(1) r by fastforce
  then have "pv_round (value, mode, quote) r = pv_push (value, mode, quote) quote r"
    using assms by (auto simp: pv_round_def Let_def needs_quote_def is_control_char_def split: pv_mode.splits)
  then show "\<exists>q. pv_round (value, mode, quote) r = (Continue (value @ [c], mode, quote), r\<lparr>rd_pos := q\<rparr>)
      \<and> before cs (r\<lparr>rd_pos := q\<rparr>)"
    using parsesE [OF parses_pv_push [OF assms(1), of h "value" mode quote quote c cs] r] by auto
qed

text \<open>What may follow an unquoted value.\<close>

definition param_stop :: "ics_hints \<Rightarrow> ustring \<Rightarrow> bool" where
  "param_stop h cs = (case peeked cs of None \<Rightarrow> True
     | Some c \<Rightarrow> c \<in> {59, 58, 10} \<or> c = 44 \<and> inside_array h)"

lemma parses_pv_stop:
  assumes "env_ok e" and "param_stop h cs"
  shows "parses e h (pv_round (value, Plain, quote)) cs (Break (Some \<lparr>pv_value = value, pv_quote = quote\<rparr>)) cs"
  by (rule parses_stay)
    (use assms in \<open>auto simp: pv_round_def Let_def peek_before param_stop_def is_control_char_def split: option.splits\<close>)

lemma parses_pv_close:
  assumes "env_ok e"
  shows "parses e h (pv_round (value, Quoted sp, quote)) (34 # cs) (Break (Some \<lparr>pv_value = value, pv_quote = quote\<rparr>)) cs"
proof (rule parsesI)
  fix r assume r: "rd_env r = e" "rd_hints r = h" "before (34 # cs) r"
  have "reader_peek r = Some 34" using peek_before assms(1) r by fastforce
  moreover obtain q where "reader_char r = (Some 34, r\<lparr>rd_pos := q\<rparr>)" "before cs (r\<lparr>rd_pos := q\<rparr>)"
    using parsesE [OF parses_char [OF assms] r] .
  ultimately show "\<exists>q. pv_round (value, Quoted sp, quote) r
      = (Break (Some \<lparr>pv_value = value, pv_quote = quote\<rparr>), r\<lparr>rd_pos := q\<rparr>) \<and> before cs (r\<lparr>rd_pos := q\<rparr>)"
    by (auto simp: pv_round_def)
qed

lemma parses_pv_loop:
  assumes "env_ok e" and "list_all (\<lambda>c. \<not> is_control_char c \<and> c \<noteq> 34 \<and> c \<noteq> 92) s"
    and "mode = Plain \<longrightarrow> \<not> list_ex needs_quote s"
    and "\<And>value. parses e h (pv_round (value, mode, quote)) cs (Break (Some \<lparr>pv_value = value, pv_quote = quote\<rparr>)) cs'"
  shows "parses e h (rloop pv_round (acc, mode, quote)) (s @ cs) (Some \<lparr>pv_value = acc @ s, pv_quote = quote\<rparr>) cs'"
  using assms(2,3)
proof (induction s arbitrary: acc)
  case Nil
  show ?case using parses_rloop_break [OF progress_pv assms(4)] by simp
next
  case (Cons c s)
  have "parses e h (pv_round (acc, mode, quote)) (c # s @ cs) (Continue (acc @ [c], mode, quote)) (s @ cs)"
    by (rule parses_pv_char [OF assms(1)]) (use Cons.prems in auto)
  moreover have "parses e h (rloop pv_round (acc @ [c], mode, quote)) (s @ cs)
      (Some \<lparr>pv_value = (acc @ [c]) @ s, pv_quote = quote\<rparr>) cs'"
    by (rule Cons.IH) (use Cons.prems in auto)
  ultimately have "parses e h (rloop pv_round (acc, mode, quote)) (c # s @ cs)
      (Some \<lparr>pv_value = (acc @ [c]) @ s, pv_quote = quote\<rparr>) cs'"
    by (rule parses_rloop_continue [OF progress_pv])
  then show ?case by simp
qed

lemma parses_rcase_spanned:
  assumes "parses e h p cs (Some a) cs1" and "\<And>sp. parses e h (f (Spanned sp a)) cs1 v cs2"
  shows "parses e h (rcase (reader_spanned p) f g) cs v cs2"
proof (rule parsesI)
  fix r assume r: "rd_env r = e" "rd_hints r = h" "before cs r"
  obtain q where q: "p r = (Some a, r\<lparr>rd_pos := q\<rparr>)" "before cs1 (r\<lparr>rd_pos := q\<rparr>)"
    using parsesE [OF assms(1) r] .
  then show "\<exists>q. rcase (reader_spanned p) f g r = (v, r\<lparr>rd_pos := q\<rparr>) \<and> before cs2 (r\<lparr>rd_pos := q\<rparr>)"
    using parsesE [OF assms(2), of "r\<lparr>rd_pos := q\<rparr>"] r
    by (auto simp: rcase_def reader_spanned_def)
qed

lemma parses_param_value [parses_intros]:
  assumes "env_ok e" and "param_value_ok p" and "pv_quote p \<or> param_stop h cs"
  shows "parses e h (ty_read param_value_type) (param_text p @ cs) (Some p) cs"
proof -
  have s: "list_all (\<lambda>c. \<not> is_control_char c \<and> c \<noteq> 34 \<and> c \<noteq> 92) (pv_value p)"
    using assms(2) by (auto simp: param_value_ok_def list_all_iff)
  have "parses e h param_value_read (param_text p @ cs) (Some p) cs"
  proof (cases "pv_quote p")
    case True
    have "parses e h (rloop pv_round ([], Quoted sp, True)) (pv_value p @ 34 # cs)
        (Some \<lparr>pv_value = [] @ pv_value p, pv_quote = True\<rparr>) cs" for sp
      by (rule parses_pv_loop [OF assms(1) s _ parses_pv_close [OF assms(1)]]) simp
    then have loop: "parses e h (rloop pv_round ([], Quoted sp, True)) (pv_value p @ 34 # cs) (Some p) cs" for sp
      using True by (cases p) auto
    have "parses e h param_value_read (34 # pv_value p @ 34 # cs) (Some p) cs"
      unfolding param_value_read_def
    proof (rule parses_rcase_spanned)
      show "parses e h (reader_try_eat 34) (34 # pv_value p @ 34 # cs) (Some ()) (pv_value p @ 34 # cs)"
        by (rule parses_try_eat [OF assms(1) refl])
    next
      fix sp
      show "parses e h (rloop pv_round ([], Quoted (sp_span (Spanned sp ())), True)) (pv_value p @ 34 # cs) (Some p) cs"
        using loop [of sp] by (simp only: spanned.sel)
    qed
    then show ?thesis using True by (simp add: param_text_def)
  next
    case False
    have no_quote: "parses e h (reader_try_eat 34) (pv_value p @ cs) None (pv_value p @ cs)"
    proof (rule parses_not_next [OF assms(1)])
      show "not_next 34 (pv_value p @ cs)"
      proof (cases "pv_value p")
        case Nil
        then show ?thesis using assms(3) False
          by (cases cs) (auto simp: param_stop_def ascii_lower_low)
      next
        case (Cons c t)
        then show ?thesis using s by (simp add: ascii_lower_low)
      qed
    qed
    have "parses e h (rloop pv_round ([], Plain, False)) (pv_value p @ cs)
        (Some \<lparr>pv_value = [] @ pv_value p, pv_quote = False\<rparr>) cs"
      by (rule parses_pv_loop [OF assms(1) s _ parses_pv_stop [OF assms(1)]])
        (use assms False in \<open>auto simp: param_value_ok_def\<close>)
    then have "parses e h (rloop pv_round ([], Plain, False)) (pv_value p @ cs) (Some p) cs"
      using False by (cases p) auto
    then have "parses e h param_value_read (pv_value p @ cs) (Some p) cs"
      unfolding param_value_read_def by (rule parses_rcase_none [OF parses_spanned_none [OF no_quote]])
    then show ?thesis using False by (simp add: param_text_def)
  qed
  then show ?thesis by (simp add: param_value_type_def plain_type_def)
qed

end
