(* ===== verification/Ics_Entry.thy ===== *)
theory Ics_Entry
  imports Ics_Text
begin

text \<open>
  Entries of components and properties (\<open>shared/ical/src/io/reader.rs\<close>): what lies ahead of the
  reader, the offers of an entry to the fields of an object, the recovery from entries nobody
  takes, and the loop all components and properties run over their entries.
\<close>

section \<open>Entries\<close>

datatype read_entry =
    EComp "ustring spanned"
  | ECompEnd "ustring spanned"
  | EProp "ustring spanned"
  | EParam "ustring spanned"
  | EValue
  | ENewline ics_span

datatype entry_kind = KComponent | KProperty

definition entry_named :: "ustring spanned \<Rightarrow> read_entry rd" where
  "entry_named name =
    (if eq_ignore_case (sp_value name) (ascii ''BEGIN'')
     then rbind (reader_eat 58) (\<lambda>_. rbind (reader_spanned reader_rest) (\<lambda>n. rret (EComp n)))
     else if eq_ignore_case (sp_value name) (ascii ''END'')
     then rbind (reader_eat 58) (\<lambda>_. rbind (reader_spanned reader_rest) (\<lambda>n. rret (ECompEnd n)))
     else rret (EProp name))"

text \<open>The newline an entry is reported as, at the place before the reader.\<close>

definition entry_newline :: "read_entry rd" where
  "entry_newline r = (Some (ENewline (span_one (pos_prev (rd_pos r)))), r)"

definition entry_inline :: "read_entry rd" where
  "entry_inline = rcase (reader_try_eat 58) (\<lambda>_. rret EValue)
     (rcase (reader_try_eat 59)
        (\<lambda>_. rbind (reader_spanned reader_ident) (\<lambda>name. rbind (reader_eat 61) (\<lambda>_. rret (EParam name))))
        (rcase (reader_spanned reader_ident) entry_named
           (rthen (reader_silently reader_rest) entry_newline)))"

definition reader_entry :: "read_entry rd" where
  "reader_entry r = (case reader_peek r of
     None \<Rightarrow> (None, r)
   | Some c \<Rightarrow> if c = 10 then rthen reader_char entry_newline r else entry_inline r)"

definition unwrap_prop :: "'a ics_type \<Rightarrow> string \<Rightarrow> 'a option \<Rightarrow> ics_reader \<Rightarrow> 'a option \<times> ics_reader" where
  "unwrap_prop T name v r = (case v of
     Some a \<Rightarrow> (Some a, r)
   | None \<Rightarrow> (ty_default T,
       if ty_default T \<noteq> None then reader_warn None (MsgBody ''missing property `{name}`'' [ascii name]) r
       else reader_error None (MsgBody ''missing property `{name}`'' [ascii name]) r))"

section \<open>Offering an entry\<close>

text \<open>The methods \<open>try_comp\<close>, \<open>try_prop\<close>, \<open>try_param\<close>: \<open>None\<close> when they return \<open>false\<close>, in
  which case nothing has happened, and otherwise the new value of the field and the reader.\<close>

definition dup_check :: "string \<Rightarrow> string \<Rightarrow> ustring spanned \<Rightarrow> 'a option \<Rightarrow> ics_reader \<Rightarrow> ics_reader" where
  "dup_check what name this v r =
    (if v \<noteq> None then reader_error (Some (sp_span this)) (MsgBody what [ascii name]) r else r)"

definition try_comp :: "'a ics_type \<Rightarrow> read_entry \<Rightarrow> string \<Rightarrow> 'a option \<Rightarrow> ics_reader
    \<Rightarrow> ('a option \<times> ics_reader) option" where
  "try_comp T entry name v r = (case entry of
     EComp this \<Rightarrow>
       if eq_ignore_case (sp_value this) (ascii name)
       then Some (reader_any T (dup_check ''duplicated component `{name}`'' name this v r))
       else None
   | _ \<Rightarrow> None)"

definition push_opt :: "'a list \<Rightarrow> 'a option \<times> ics_reader \<Rightarrow> 'a list \<times> ics_reader" where
  "push_opt vs x = (case x of (Some v, r) \<Rightarrow> (vs @ [v], r) | (None, r) \<Rightarrow> (vs, r))"

definition try_comps :: "'a ics_type \<Rightarrow> read_entry \<Rightarrow> string \<Rightarrow> 'a list \<Rightarrow> ics_reader
    \<Rightarrow> ('a list \<times> ics_reader) option" where
  "try_comps T entry name vs r = map_option (push_opt vs) (try_comp T entry name None r)"

definition try_comp_end :: "read_entry \<Rightarrow> string \<Rightarrow> bool" where
  "try_comp_end entry name = (case entry of
     ECompEnd this \<Rightarrow> eq_ignore_case (sp_value this) (ascii name) | _ \<Rightarrow> False)"

text \<open>Reading the property and what follows it: the newline, or the rest of a line that could
  not be read.\<close>

definition prop_value :: "'a ics_type \<Rightarrow> ics_reader \<Rightarrow> 'a option \<times> ics_reader" where
  "prop_value T = rcase (reader_any T)
     (\<lambda>v. rthen (reader_try_eat 10) (rret v))
     (\<lambda>r. (ty_default T, if p_char (rd_pos r) > 1 then snd (reader_silently reader_rest r) else r))"

definition try_prop :: "'a ics_type \<Rightarrow> read_entry \<Rightarrow> string \<Rightarrow> 'a option \<Rightarrow> ics_reader
    \<Rightarrow> ('a option \<times> ics_reader) option" where
  "try_prop T entry name v r = (case entry of
     EProp this \<Rightarrow>
       if eq_ignore_case (sp_value this) (ascii name)
       then Some (prop_value T (dup_check ''duplicated property `{name}`'' name this v r))
       else None
   | _ \<Rightarrow> None)"

definition try_props :: "'a ics_type \<Rightarrow> read_entry \<Rightarrow> string \<Rightarrow> 'a list \<Rightarrow> ics_reader
    \<Rightarrow> ('a list \<times> ics_reader) option" where
  "try_props T entry name vs r = map_option (push_opt vs) (try_prop T entry name None r)"

definition param_field :: "'a ics_type \<Rightarrow> ics_reader \<Rightarrow> 'a option \<times> ics_reader" where
  "param_field T = rcase (reader_any T) rret (\<lambda>r. (ty_default T, r))"

definition try_param :: "'a ics_type \<Rightarrow> read_entry \<Rightarrow> string \<Rightarrow> 'a option \<Rightarrow> ics_reader
    \<Rightarrow> ('a option \<times> ics_reader) option" where
  "try_param T entry name v r = (case entry of
     EParam this \<Rightarrow>
       if eq_ignore_case (sp_value this) (ascii name)
       then Some (param_field T (dup_check ''duplicated parameter `{name}`'' name this v r))
       else None
   | _ \<Rightarrow> None)"

definition is_value :: "read_entry \<Rightarrow> bool" where
  "is_value entry = (case entry of EValue \<Rightarrow> True | _ \<Rightarrow> False)"

section \<open>Recovery\<close>

definition is_vendor_name :: "ustring \<Rightarrow> bool" where
  "is_vendor_name s = (take 2 s = ascii ''x-'' \<or> take 2 s = ascii ''X-'')"

definition skip_comp_round :: "ustring \<Rightarrow> (unit, unit) body" where
  "skip_comp_round name u r = (case reader_entry r of
     (None, r') \<Rightarrow> (Break None, r')
   | (Some entry, r') \<Rightarrow>
       (case entry of
          ECompEnd this \<Rightarrow>
            if eq_ignore_case (sp_value this) name then (Break (Some ()), r') else (Continue (), r')
        | _ \<Rightarrow> (Continue (), r')))"

definition skip_param_round :: "(unit, unit) body" where
  "skip_param_round u r = (case reader_peek r of
     None \<Rightarrow> (Break (Some ()), r)
   | Some ch \<Rightarrow>
       if ch = 58 \<or> ch = 59 then (Break (Some ()), r)
       else if ch = 34 then (Continue (), snd (param_value_read r))
       else (Continue (), snd (reader_char r)))"

text \<open>The message on an unknown property or parameter: a warning for a vendor's.\<close>

definition unknown_note :: "string \<Rightarrow> ustring spanned \<Rightarrow> ics_reader \<Rightarrow> ics_reader" where
  "unknown_note what name r =
    (if is_vendor_name (sp_value name)
     then reader_warn (Some (sp_span name)) (MsgBody what [sp_value name]) r
     else reader_error (Some (sp_span name)) (MsgBody what [sp_value name]) r)"

definition entry_burn :: "read_entry \<Rightarrow> entry_kind \<Rightarrow> unit rd" where
  "entry_burn entry kind = (case entry of
     EComp name \<Rightarrow> rerror (Some (sp_span name)) (MsgBody ''unknown component `{}`'' [sp_value name])
       (rthen (reader_silently (reader_attempt (rloop (skip_comp_round (sp_value name)) ()))) (rret ()))
   | ECompEnd name \<Rightarrow> rerror (Some (sp_span name)) (plain_body ''mismatched `END:`'') (rret ())
   | EProp name \<Rightarrow> (\<lambda>r. rthen (reader_silently reader_rest) (rret ()) (unknown_note ''unknown property `{}`'' name r))
   | EParam name \<Rightarrow> (\<lambda>r. rthen (reader_silently (rloop skip_param_round ())) (rret ())
       (unknown_note ''unknown parameter `{}`'' name r))
   | EValue \<Rightarrow> (\<lambda>r. rerror (Some (span_one (pos_prev (rd_pos r)))) (plain_body ''unexpected value'')
       (rthen (reader_silently reader_rest) (rret ())) r)
   | ENewline span \<Rightarrow> (case kind of
        KComponent \<Rightarrow> rwarn (Some span) (plain_body ''quirky newline'') (rret ())
      | KProperty \<Rightarrow> rerror (Some span)
          (plain_body ''unexpected newline, expecting property's value'') rfail))"

definition burn_params_round :: "(unit, unit) body" where
  "burn_params_round u r =
    (case reader_attempt (rbind reader_entry (\<lambda>entry. case entry of
            EParam name \<Rightarrow> rret (EParam name) | _ \<Rightarrow> rfail)) r of
       (None, r1) \<Rightarrow> (Break (Some ()), r1)
     | (Some entry, r1) \<Rightarrow>
         (case entry_burn entry KProperty r1 of
            (None, r2) \<Rightarrow> (Break None, r2)
          | (Some _, r2) \<Rightarrow> (Continue (), r2)))"

definition burn_params :: "unit rd" where
  "burn_params = rbind (rloop burn_params_round ()) (\<lambda>_. reader_eat 58)"

section \<open>The loop over the entries\<close>

text \<open>
  Components and properties run the same loop: take the next entry or give up, offer it to the
  fields, stop at the end of the object, recover from any other entry.  \<open>offer\<close> is the chain of
  \<open>try_\<close> calls on the fields, \<open>stop\<close> the test for the end.
\<close>

definition entries_round :: "entry_kind \<Rightarrow> (read_entry \<Rightarrow> bool)
    \<Rightarrow> (read_entry \<Rightarrow> 's \<Rightarrow> ics_reader \<Rightarrow> ('s \<times> ics_reader) option) \<Rightarrow> ('s, 's) body" where
  "entries_round kind stop offer s r = (case reader_entry r of
     (None, r1) \<Rightarrow> (Break None, r1)
   | (Some entry, r1) \<Rightarrow>
       (case offer entry s r1 of
          Some (s', r2) \<Rightarrow> (Continue s', r2)
        | None \<Rightarrow>
            if stop entry then (Break (Some s), r1)
            else (case entry_burn entry kind r1 of
                    (None, r2) \<Rightarrow> (Break None, r2)
                  | (Some _, r2) \<Rightarrow> (Continue s, r2))))"

definition read_entries :: "entry_kind \<Rightarrow> (read_entry \<Rightarrow> bool)
    \<Rightarrow> (read_entry \<Rightarrow> 's \<Rightarrow> ics_reader \<Rightarrow> ('s \<times> ics_reader) option) \<Rightarrow> 's \<Rightarrow> 's rd" where
  "read_entries kind stop offer s = rloop (entries_round kind stop offer) s"

text \<open>\<open>e.try_x(r, name, &mut field) || ...\<close>.\<close>

definition offer_to :: "('v \<Rightarrow> 's) \<Rightarrow> ('v \<times> ics_reader) option \<Rightarrow> ('s \<times> ics_reader) option
    \<Rightarrow> ('s \<times> ics_reader) option" where
  "offer_to upd x alt = (case x of Some (v, r) \<Rightarrow> Some (upd v, r) | None \<Rightarrow> alt)"

end
