(* ===== verification/Ics_Entry_Runs.thy ===== *)
theory Ics_Entry_Runs
  imports Ics_Entry
begin

text \<open>
  Entries consume input, so that the loops over them end; and the runs of these loops on what the
  writer produces: parameters, the colon before a value, properties and components.
\<close>

section \<open>Progress\<close>

lemma try_eat_peeked:
  assumes "reader_peek r = Some c" and "ascii_lower c = ascii_lower d"
  shows "\<exists>r'. reader_try_eat d r = (Some (), r')"
proof -
  obtain this where "reader_char (r\<lparr>rd_msgs := [], rd_context := []\<rparr>) = (Some c, this)"
    using assms(1) by (metis prod.collapse reader_peek_def)
  then show ?thesis using assms(2)
    by (simp add: reader_try_eat_def reader_attempt_def rbind_def rret_def)
qed

lemma peek_end_rest:
  assumes "reader_peek r = Some c"
  shows "consumes r (snd (reader_rest r))"
proof -
  obtain r1 where c: "reader_char r = (Some c, r1)"
    using assms by (metis peek_eq_char prod.collapse)
  then have 1: "consumes r r1" by (rule eatsD(2) [OF eats_char])
  have body: "rest_round [] r = (if c = 10 then Break (Some []) else Continue [c], r1)"
    using c by (simp add: rest_round_def)
  obtain v r2 where loop: "rloop rest_round [] r = (v, r2)" by fastforce
  have "leaves r1 r2"
  proof (cases "c = 10")
    case True
    then show ?thesis using loop body rloop_unfold [OF progress_rest, of "[]" r] by simp
  next
    case False
    then have "rloop rest_round [c] r1 = (v, r2)"
      using loop body rloop_unfold [OF progress_rest, of "[]" r] by simp
    then show ?thesis by (rule shrinksD [OF rloop_shrinks [OF progress_rest]])
  qed
  then have "consumes r r2" using 1 by (rule consumes_leaves [rotated])
  moreover have "leaves r2 (snd (reader_rest r))"
  proof (cases v)
    case None
    then show ?thesis using loop by (simp add: reader_rest_def rbind_def)
  next
    case (Some s)
    then show ?thesis using loop shrinks_rest_finish unfolding shrinks_def reader_rest_def rbind_def by auto
  qed
  ultimately show ?thesis by (rule consumes_leaves)
qed

lemma eats_ident [progress_intros]: "eats reader_ident"
proof (rule eatsI)
  fix r r' assume "reader_ident r = (None, r')"
  then show "leaves r r'" using shrinks_ident by (auto dest: shrinksD)
next
  fix r a r' assume *: "reader_ident r = (Some a, r')"
  then obtain c where c: "reader_peek r = Some c" "rthen reader_char (rloop ident_round [c]) r = (Some a, r')"
    by (auto simp: reader_ident_def rerror_def rfail_def split: option.splits if_splits)
  then have "rloop ident_round [c] (snd (reader_char r)) = (Some a, r')" by (simp add: rthen_def)
  then have "leaves (snd (reader_char r)) r'"
    by (rule shrinksD [OF rloop_shrinks [OF progress_ident]])
  then show "consumes r r'" using peek_char_consumes [OF c(1)] by (rule consumes_leaves [rotated])
qed

lemma ident_failed:
  assumes "reader_ident r = (None, r')"
  shows "same_input r' r"
proof -
  have "fst (rloop ident_round [c] x) \<noteq> None" for c x
    by (rule rloop_returns [OF progress_ident]) (auto simp: ident_round_def split: option.splits if_splits)
  then show ?thesis using assms
    by (auto simp: reader_ident_def rthen_def rerror_def rfail_def split: option.splits if_splits)
      (metis fst_conv option.simps(3))
qed

lemma peek_same_input: "same_input r' r \<Longrightarrow> reader_peek r' = reader_peek r"
  using oblivious_char unfolding peek_eq_char oblivious_def by blast

lemma same_input_consumes: "same_input r' r \<Longrightarrow> consumes r' x = consumes r x"
  by (auto simp: same_input_def consumes_def rd_left_def)

lemma shrinks_newline [progress_intros]: "shrinks entry_newline"
  by (simp add: shrinks_def entry_newline_def)

lemma shrinks_named [progress_intros]: "shrinks (entry_named n)"
  unfolding entry_named_def by (auto intro!: progress_intros)

lemma shrinks_inline [progress_intros]: "shrinks entry_inline"
  unfolding entry_inline_def by (intro progress_intros)

lemma silently_leaves:
  assumes "consumes r (snd (p (r\<lparr>rd_msgs := []\<rparr>)))"
  shows "consumes r (snd (reader_silently p r))"
  using assms by (auto simp: reader_silently_def split: prod.splits)

lemma inline_consumes:
  assumes "reader_peek r = Some c"
  shows "consumes r (snd (entry_inline r))"
proof -
  obtain a r1 where a: "reader_try_eat 58 r = (a, r1)" by fastforce
  show ?thesis
  proof (cases a)
    case (Some u)
    then show ?thesis using a eatsD(2) [OF eats_try_eat] by (simp add: entry_inline_def rcase_def rret_def)
  next
    case None
    then have r1: "r1 = r" using a try_eat_none by blast
    obtain b r2 where b: "reader_try_eat 59 r = (b, r2)" by fastforce
    show ?thesis
    proof (cases b)
      case (Some u)
      then have "consumes r r2" using b eatsD(2) [OF eats_try_eat] by blast
      moreover have "shrinks (rbind (reader_spanned reader_ident) (\<lambda>name. rbind (reader_eat 61) (\<lambda>_. rret (EParam name))))"
        by (intro progress_intros)
      ultimately show ?thesis using a b None Some r1
        by (auto simp: entry_inline_def rcase_def shrinks_def intro: consumes_leaves)
    next
      case b_None: None
      then have r2: "r2 = r" using b try_eat_none by blast
      let ?tail = "rcase (reader_spanned reader_ident) entry_named (rthen (reader_silently reader_rest) entry_newline)"
      have "entry_inline r = ?tail r"
        using a b None b_None r1 r2 by (simp add: entry_inline_def rcase_def)
      moreover obtain n r3 where n: "reader_spanned reader_ident r = (n, r3)" by fastforce
      moreover have "consumes r (snd (?tail r))"
      proof (cases n)
        case (Some nm)
        then have "consumes r r3" using n eatsD(2) [OF eats_spanned [OF eats_ident]] by blast
        then show ?thesis using n Some shrinks_named
          by (auto simp: rcase_def shrinks_def intro: consumes_leaves)
      next
        case n_None: None
        then have r3: "same_input r3 r" using n ident_failed
          by (auto simp: reader_spanned_def split: prod.splits option.splits)
        then have "reader_peek (r3\<lparr>rd_msgs := []\<rparr>) = Some c"
          using assms peek_same_input by (metis same_input_update(1))
        then have "consumes r3 (snd (reader_silently reader_rest r3))"
          by (intro silently_leaves) (use peek_end_rest in fastforce)
        then have "consumes r (snd (reader_silently reader_rest r3))"
          using same_input_consumes [OF r3] by simp
        then show ?thesis using n n_None by (simp add: rcase_def rthen_def entry_newline_def)
      qed
      ultimately show ?thesis by simp
    qed
  qed
qed

lemma eats_entry [progress_intros]: "eats reader_entry"
proof (rule eatsI)
  fix r r' assume "reader_entry r = (None, r')"
  moreover have "shrinks (rthen reader_char entry_newline)" by (intro progress_intros)
  ultimately show "leaves r r'" using shrinks_inline
    by (auto simp: reader_entry_def dest: shrinksD split: option.splits if_splits)
next
  fix r a r' assume *: "reader_entry r = (Some a, r')"
  then obtain c where c: "reader_peek r = Some c" by (auto simp: reader_entry_def split: option.splits)
  show "consumes r r'"
  proof (cases "c = 10")
    case True
    then show ?thesis using * c peek_char_consumes [OF c]
      by (simp add: reader_entry_def rthen_def entry_newline_def)
  next
    case False
    then show ?thesis using * c inline_consumes [OF c] by (simp add: reader_entry_def)
  qed
qed

lemma shrinks_entry [progress_intros]: "shrinks reader_entry"
  by (rule eats_shrinks [OF eats_entry])

lemma progress_skip_comp: "progress (skip_comp_round n)"
  by (rule progressI)
    (auto simp: skip_comp_round_def dest: eatsD [OF eats_entry] split: prod.splits option.splits read_entry.splits if_splits)

lemma param_value_consumes:
  assumes "reader_peek r = Some 34"
  shows "consumes r (snd (param_value_read r))"
proof -
  obtain r1 where q: "reader_try_eat 34 r = (Some (), r1)" using try_eat_peeked [OF assms refl] by blast
  then have "consumes r r1" by (rule eatsD(2) [OF eats_try_eat])
  moreover have "shrinks (rloop pv_round s)" for s by (intro progress_intros progress_pv)
  ultimately show ?thesis using q
    by (auto simp: param_value_read_def rcase_def reader_spanned_def shrinks_def intro: consumes_leaves)
qed

lemma progress_skip_param: "progress skip_param_round"
  by (rule progressI)
    (auto simp: skip_param_round_def peek_char_consumes param_value_consumes split: option.splits if_splits)

lemma unknown_note_same [simp]:
  "leaves (unknown_note w n r) r' = leaves r r'" "leaves r' (unknown_note w n r) = leaves r' r"
  by (simp_all add: unknown_note_def)

lemma shrinks_noted:
  assumes "shrinks p"
  shows "shrinks (\<lambda>r. p (unknown_note w n r))"
  using assms unfolding shrinks_def by (metis unknown_note_same(1))

lemma shrinks_burn [progress_intros]: "shrinks (entry_burn entry kind)"
proof (cases entry)
  case (EComp n)
  then show ?thesis by (simp add: entry_burn_def) (intro progress_intros progress_skip_comp)
next
  case (ECompEnd n)
  then show ?thesis by (simp add: entry_burn_def) (intro progress_intros)
next
  case (EProp n)
  have "shrinks (rthen (reader_silently reader_rest) (rret ()))" by (intro progress_intros)
  then show ?thesis using EProp shrinks_noted by (simp add: entry_burn_def)
next
  case (EParam n)
  have "shrinks (rthen (reader_silently (rloop skip_param_round ())) (rret ()))"
    by (intro progress_intros progress_skip_param)
  then show ?thesis using EParam shrinks_noted by (simp add: entry_burn_def)
next
  case EValue
  have "shrinks (rerror a b (rthen (reader_silently reader_rest) (rret ())))" for a b
    by (intro progress_intros)
  then show ?thesis using EValue by (simp add: entry_burn_def shrinks_def)
next
  case (ENewline sp)
  then show ?thesis by (cases kind) (auto simp: entry_burn_def intro!: progress_intros)
qed

lemma progress_burn_params: "progress burn_params_round"
proof -
  let ?ahead = "reader_attempt (rbind reader_entry (\<lambda>entry. case entry of
            EParam name \<Rightarrow> rret (EParam name) | _ \<Rightarrow> rfail))"
  have f: "shrinks (case entry of EParam name \<Rightarrow> rret (EParam name) | _ \<Rightarrow> rfail)" for entry
    by (cases entry) (auto intro: progress_intros)
  have ahead: "eats ?ahead" by (intro eats_attempt eats_rbind eats_entry f)
  have result: "leaves r r' \<and> (\<forall>s'. fl = Continue s' \<longrightarrow> consumes r r')"
    if run: "burn_params_round u r = (fl, r')" for u r fl r'
  proof -
    obtain a r1 where a: "?ahead r = (a, r1)" by fastforce
    show ?thesis
    proof (cases a)
      case None
      then show ?thesis using run a eatsD(1) [OF ahead a] by (auto simp: burn_params_round_def)
    next
      case (Some en)
      then have 1: "consumes r r1" using a eatsD(2) [OF ahead] by blast
      obtain b r2 where b: "entry_burn en KProperty r1 = (b, r2)" by fastforce
      have "leaves r1 r2" using shrinks_burn b by (rule shrinksD)
      then have "consumes r r2" using 1 by (rule consumes_leaves [rotated])
      then show ?thesis using run a Some b
        by (cases b) (auto simp: burn_params_round_def intro: consumes_imp_leaves)
    qed
  qed
  show ?thesis by (rule progressI; drule result) auto
qed

lemma shrinks_burn_params [progress_intros]: "shrinks burn_params"
  unfolding burn_params_def by (intro progress_intros progress_burn_params)

section \<open>Offers\<close>

text \<open>An offer that is taken does not give input back.\<close>

definition fair :: "(read_entry \<Rightarrow> 's \<Rightarrow> ics_reader \<Rightarrow> ('s \<times> ics_reader) option) \<Rightarrow> bool" where
  "fair offer = (\<forall>entry s r s' r'. offer entry s r = Some (s', r') \<longrightarrow> leaves r r')"

lemma dup_check_leaves [simp]: "leaves (dup_check w n t v r) r' = leaves r r'"
  by (simp add: dup_check_def)

lemma shrinks_prop_value [progress_intros]:
  assumes "shrinks (ty_read T)"
  shows "shrinks (prop_value T)"
  unfolding prop_value_def
proof (intro shrinks_rcase)
  have "shrinks (reader_silently reader_rest)" by (intro progress_intros)
  then show "shrinks (\<lambda>r. (ty_default T, if p_char (rd_pos r) > 1 then snd (reader_silently reader_rest r) else r))"
    by (simp add: shrinks_def)
qed (intro progress_intros assms)+

lemma shrinks_param_field [progress_intros]:
  assumes "shrinks (ty_read T)"
  shows "shrinks (param_field T)"
  unfolding param_field_def
proof (intro shrinks_rcase)
  show "shrinks (\<lambda>r. (ty_default T, r))" by (simp add: shrinks_def)
qed (intro progress_intros assms)+

lemma dup_shrinks:
  assumes "shrinks p" and "p (dup_check w n t v r) = (x, r')"
  shows "leaves r r'"
  using shrinksD [OF assms] by simp

lemma try_leaves:
  assumes "shrinks (ty_read T)"
  shows "try_comp T entry name v r = Some (x, r') \<Longrightarrow> leaves r r'"
    and "try_prop T entry name v r = Some (x, r') \<Longrightarrow> leaves r r'"
    and "try_param T entry name v r = Some (x, r') \<Longrightarrow> leaves r r'"
  using dup_shrinks [OF shrinks_any [OF assms]] dup_shrinks [OF shrinks_prop_value [OF assms]]
    dup_shrinks [OF shrinks_param_field [OF assms]]
  by (auto simp: try_comp_def try_prop_def try_param_def split: read_entry.splits if_splits)

lemma try_list_leaves:
  assumes "shrinks (ty_read T)"
  shows "try_comps T entry name vs r = Some (y, r') \<Longrightarrow> leaves r r'"
    and "try_props T entry name vs r = Some (y, r') \<Longrightarrow> leaves r r'"
  using try_leaves(1,2) [OF assms]
  by (auto simp: try_comps_def try_props_def push_opt_def split: prod.splits option.splits)

lemma offer_to_leaves:
  assumes "offer_to upd x alt = Some (s', r')"
    and "\<And>v q. x = Some (v, q) \<Longrightarrow> leaves r q" and "\<And>t q. alt = Some (t, q) \<Longrightarrow> leaves r q"
  shows "leaves r r'"
  using assms by (auto simp: offer_to_def split: option.splits)

lemma fairI:
  assumes "\<And>entry s r s' r'. offer entry s r = Some (s', r') \<Longrightarrow> leaves r r'"
  shows "fair offer"
  using assms by (auto simp: fair_def)

lemma progress_entries:
  assumes "fair offer"
  shows "progress (entries_round kind stop offer)"
proof -
  have result: "leaves r r' \<and> (\<forall>s'. fl = Continue s' \<longrightarrow> consumes r r')"
    if run: "entries_round kind stop offer s r = (fl, r')" for s r fl r'
  proof -
    obtain a r1 where a: "reader_entry r = (a, r1)" by fastforce
    show ?thesis
    proof (cases a)
      case None
      then show ?thesis using run a eatsD(1) [OF eats_entry a] by (auto simp: entries_round_def)
    next
      case (Some en)
      then have 1: "consumes r r1" using a eatsD(2) [OF eats_entry] by blast
      obtain b r2 where b: "entry_burn en kind r1 = (b, r2)" by fastforce
      have "leaves r1 r2" using shrinks_burn b by (rule shrinksD)
      then have 2: "consumes r r2" using 1 by (rule consumes_leaves [rotated])
      have 3: "consumes r r3" if "offer en s r1 = Some (s3, r3)" for s3 r3
        using assms that 1 unfolding fair_def by (blast intro: consumes_leaves)
      show ?thesis using run a Some b 1 2 3
        by (cases b) (auto simp: entries_round_def split: option.splits if_splits intro: consumes_imp_leaves)
    qed
  qed
  show ?thesis by (rule progressI; drule result) auto
qed

lemma shrinks_entries [progress_intros]: "fair offer \<Longrightarrow> shrinks (read_entries kind stop offer s)"
  unfolding read_entries_def by (intro progress_intros progress_entries)

section \<open>Entries on what is written\<close>

text \<open>The run of a parser whose value is known up to the spans it records.\<close>

definition yields :: "ics_env \<Rightarrow> ics_hints \<Rightarrow> 'a rd \<Rightarrow> ustring \<Rightarrow> ('a \<Rightarrow> bool) \<Rightarrow> ustring \<Rightarrow> bool" where
  "yields e h p cs P cs' = (\<forall>r. rd_env r = e \<and> rd_hints r = h \<and> before cs r \<longrightarrow>
     (\<exists>v q. p r = (Some v, r\<lparr>rd_pos := q\<rparr>) \<and> P v \<and> before cs' (r\<lparr>rd_pos := q\<rparr>)))"

lemma yieldsE:
  assumes "yields e h p cs P cs'" and "rd_env r = e" and "rd_hints r = h" and "before cs r"
  obtains v q where "p r = (Some v, r\<lparr>rd_pos := q\<rparr>)" and "P v" and "before cs' (r\<lparr>rd_pos := q\<rparr>)"
  using assms unfolding yields_def by blast

lemma yieldsD:
  assumes "yields e h p cs P cs'" and "rd_env r = e" and "rd_hints r = h" and "before cs r"
  shows "\<exists>v q. p r = (Some v, r\<lparr>rd_pos := q\<rparr>) \<and> P v \<and> before cs' (r\<lparr>rd_pos := q\<rparr>)"
  using assms unfolding yields_def by blast

lemma yieldsI:
  assumes "\<And>r. rd_env r = e \<Longrightarrow> rd_hints r = h \<Longrightarrow> before cs r
     \<Longrightarrow> \<exists>v q. p r = (Some v, r\<lparr>rd_pos := q\<rparr>) \<and> P v \<and> before cs' (r\<lparr>rd_pos := q\<rparr>)"
  shows "yields e h p cs P cs'"
  using assms by (simp add: yields_def)

lemma yields_spanned:
  assumes "parses e h p cs (Some a) cs'"
  shows "yields e h (reader_spanned p) cs (\<lambda>v. sp_value v = a) cs'"
proof (rule yieldsI)
  fix r assume r: "rd_env r = e" "rd_hints r = h" "before cs r"
  obtain q where "p r = (Some a, r\<lparr>rd_pos := q\<rparr>)" "before cs' (r\<lparr>rd_pos := q\<rparr>)"
    using parsesE [OF assms r] .
  then show "\<exists>v q. reader_spanned p r = (Some v, r\<lparr>rd_pos := q\<rparr>) \<and> sp_value v = a \<and> before cs' (r\<lparr>rd_pos := q\<rparr>)"
    by (auto simp: reader_spanned_def)
qed

lemma yields_rbind:
  assumes "yields e h p cs P cs1" and "\<And>v. P v \<Longrightarrow> yields e h (f v) cs1 Q cs2"
  shows "yields e h (rbind p f) cs Q cs2"
proof (rule yieldsI)
  fix r assume r: "rd_env r = e" "rd_hints r = h" "before cs r"
  obtain v q where "p r = (Some v, r\<lparr>rd_pos := q\<rparr>)" "P v" "before cs1 (r\<lparr>rd_pos := q\<rparr>)"
    using yieldsE [OF assms(1) r] .
  then show "\<exists>w q. rbind p f r = (Some w, r\<lparr>rd_pos := q\<rparr>) \<and> Q w \<and> before cs2 (r\<lparr>rd_pos := q\<rparr>)"
    using yieldsD [OF assms(2), of v "r\<lparr>rd_pos := q\<rparr>"] r by (auto simp: rbind_def)
qed

lemma yields_rcase:
  assumes "yields e h p cs P cs1" and "\<And>v. P v \<Longrightarrow> yields e h (f v) cs1 Q cs2"
  shows "yields e h (rcase p f g) cs Q cs2"
proof (rule yieldsI)
  fix r assume r: "rd_env r = e" "rd_hints r = h" "before cs r"
  obtain v q where "p r = (Some v, r\<lparr>rd_pos := q\<rparr>)" "P v" "before cs1 (r\<lparr>rd_pos := q\<rparr>)"
    using yieldsE [OF assms(1) r] .
  then show "\<exists>w q. rcase p f g r = (Some w, r\<lparr>rd_pos := q\<rparr>) \<and> Q w \<and> before cs2 (r\<lparr>rd_pos := q\<rparr>)"
    using yieldsD [OF assms(2), of v "r\<lparr>rd_pos := q\<rparr>"] r by (auto simp: rcase_def)
qed

lemma yields_rcase_none:
  assumes "parses e h p cs None cs1" and "yields e h g cs1 Q cs2"
  shows "yields e h (rcase p f g) cs Q cs2"
proof (rule yieldsI)
  fix r assume r: "rd_env r = e" "rd_hints r = h" "before cs r"
  obtain q where "p r = (None, r\<lparr>rd_pos := q\<rparr>)" "before cs1 (r\<lparr>rd_pos := q\<rparr>)"
    using parsesE [OF assms(1) r] .
  then show "\<exists>w q. rcase p f g r = (Some w, r\<lparr>rd_pos := q\<rparr>) \<and> Q w \<and> before cs2 (r\<lparr>rd_pos := q\<rparr>)"
    using yieldsD [OF assms(2), of "r\<lparr>rd_pos := q\<rparr>"] r by (auto simp: rcase_def)
qed

lemma yields_parses: "parses e h p cs (Some a) cs' \<Longrightarrow> P a \<Longrightarrow> yields e h p cs P cs'"
  unfolding yields_def parses_def by blast

lemma yields_rret: "P a \<Longrightarrow> yields e h (rret a) cs P cs"
  by (rule yields_parses [OF parses_rret])

lemma yields_then_eat:
  assumes "env_ok e" and "yields e h k cs P cs'"
  shows "yields e h (rbind (reader_eat c) (\<lambda>_. k)) (c # cs) P cs'"
  by (rule yields_rbind [OF yields_parses [OF parses_eat [OF assms(1) refl], where P = "\<lambda>_. True"]])
    (use assms(2) in auto)

lemma yields_entry:
  assumes "env_ok e" and "c \<noteq> 10" and "yields e h entry_inline (c # cs) P cs'"
  shows "yields e h reader_entry (c # cs) P cs'"
proof (rule yieldsI)
  fix r assume r: "rd_env r = e" "rd_hints r = h" "before (c # cs) r"
  have "reader_peek r = Some c" using peek_before assms(1) r by fastforce
  then have "reader_entry r = entry_inline r" using assms(2) by (simp add: reader_entry_def)
  then show "\<exists>v q. reader_entry r = (Some v, r\<lparr>rd_pos := q\<rparr>) \<and> P v \<and> before cs' (r\<lparr>rd_pos := q\<rparr>)"
    using yieldsD [OF assms(3) r] by auto
qed

lemma entry_value_run:
  assumes "env_ok e"
  shows "yields e h reader_entry (58 # cs) (\<lambda>v. v = EValue) cs"
proof (rule yields_entry [OF assms])
  show "yields e h entry_inline (58 # cs) (\<lambda>v. v = EValue) cs"
    unfolding entry_inline_def
    by (rule yields_rcase [OF yields_parses [OF parses_try_eat [OF assms refl], where P = "\<lambda>_. True"]])
      (simp_all add: yields_rret)
qed simp

lemma entry_param_run:
  assumes "env_ok e" and "is_name nm"
  shows "yields e h reader_entry (59 # nm @ 61 # cs) (\<lambda>v. \<exists>sp. v = EParam (Spanned sp nm)) cs"
proof (rule yields_entry [OF assms(1)])
  have no_colon: "parses e h (reader_try_eat 58) (59 # nm @ 61 # cs) None (59 # nm @ 61 # cs)"
    by (rule parses_not_next [OF assms(1)]) (simp add: ascii_lower_low)
  have ident: "parses e h reader_ident (nm @ 61 # cs) (Some nm) (61 # cs)"
    by (rule parses_name [OF assms]) (simp add: ascii_no_ident [OF assms(1)] letter_def)
  have "yields e h (rbind (reader_spanned reader_ident) (\<lambda>name. rbind (reader_eat 61) (\<lambda>_. rret (EParam name))))
      (nm @ 61 # cs) (\<lambda>v. \<exists>sp. v = EParam (Spanned sp nm)) cs"
    by (rule yields_rbind [OF yields_spanned [OF ident]], rule yields_then_eat [OF assms(1)], rule yields_rret)
      (metis spanned.collapse)
  then show "yields e h entry_inline (59 # nm @ 61 # cs) (\<lambda>v. \<exists>sp. v = EParam (Spanned sp nm)) cs"
    unfolding entry_inline_def
    by (intro yields_rcase_none [OF no_colon]
        yields_rcase [OF yields_parses [OF parses_try_eat [OF assms(1) refl], where P = "\<lambda>_. True"]]) auto
qed simp

lemma name_first:
  assumes "is_name nm"
  obtains c t where "nm = c # t" and "letter c"
  using assms by (cases nm) (auto simp: is_name_def)

lemma letter_facts:
  assumes "letter c"
  shows "c \<noteq> 10" "ascii_lower c \<noteq> ascii_lower 58" "ascii_lower c \<noteq> ascii_lower 59"
  using assms by (auto simp: letter_def ascii_lower_low)

lemma yields_named:
  assumes "env_ok e" and "is_name nm" and "no_ident e cs" and "\<And>sp. yields e h (entry_named (Spanned sp nm)) cs P cs'"
  shows "yields e h reader_entry (nm @ cs) P cs'"
proof -
  obtain c t where nm: "nm = c # t" "letter c" using name_first [OF assms(2)] .
  have no: "parses e h (reader_try_eat d) (nm @ cs) None (nm @ cs)" if "d = 58 \<or> d = 59" for d
    by (rule parses_not_next [OF assms(1)]) (use nm letter_facts that in auto)
  have "yields e h (rcase (reader_spanned reader_ident) entry_named (rthen (reader_silently reader_rest) entry_newline))
      (nm @ cs) P cs'"
    by (rule yields_rcase [OF yields_spanned [OF parses_name [OF assms(1-3)]]])
      (metis assms(4) spanned.collapse)
  then have "yields e h entry_inline (nm @ cs) P cs'"
    unfolding entry_inline_def by (intro yields_rcase_none [OF no]) auto
  then show ?thesis using yields_entry [OF assms(1) letter_facts(1) [OF nm(2)]] nm(1) by simp
qed

lemma entry_prop_run:
  assumes "env_ok e" and "is_name nm" and "no_ident e cs"
    and "\<not> eq_ignore_case nm (ascii ''BEGIN'')" and "\<not> eq_ignore_case nm (ascii ''END'')"
  shows "yields e h reader_entry (nm @ cs) (\<lambda>v. \<exists>sp. v = EProp (Spanned sp nm)) cs"
  by (rule yields_named [OF assms(1-3)]) (use assms(4,5) in \<open>simp add: entry_named_def yields_rret\<close>)

text \<open>The line of a value ends with a newline or with the source.\<close>

definition line_end :: "ustring \<Rightarrow> ustring \<Rightarrow> bool" where
  "line_end cs cs' = (cs = [] \<and> cs' = [] \<or> cs = 10 # cs')"

lemma yields_rest:
  assumes "env_ok e" and "plain_line s" and "line_end cs cs'" and "\<And>sp. P (C (Spanned sp s))"
  shows "yields e h (rbind (reader_spanned reader_rest) (\<lambda>n. rret (C n))) (s @ cs) P cs'"
  by (rule yields_rbind [OF yields_spanned [OF parses_rest [OF assms(1,2)]]])
    (use assms(3,4) in \<open>auto simp: line_end_def intro!: yields_rret\<close>, metis spanned.collapse)+

lemma begin_name: "is_name (ascii ''BEGIN'')" "is_name (ascii ''END'')"
  by (simp_all add: is_name_def ascii_def letter_def)

lemma colon_no_ident:
  assumes "env_ok e"
  shows "no_ident e (58 # cs)" "no_ident e (59 # cs)" "no_ident e (61 # cs)" "no_ident e (10 # cs)" "no_ident e (44 # cs)"
  using ascii_no_ident [OF assms] by (auto simp: letter_def)

lemma entry_begin_run:
  assumes "env_ok e" and "plain_line nm" and "line_end cs cs'"
  shows "yields e h reader_entry (ascii ''BEGIN'' @ 58 # nm @ cs) (\<lambda>v. \<exists>sp. v = EComp (Spanned sp nm)) cs'"
proof (rule yields_named [OF assms(1) begin_name(1) colon_no_ident(1) [OF assms(1)]])
  fix sp
  show "yields e h (entry_named (Spanned sp (ascii ''BEGIN''))) (58 # nm @ cs) (\<lambda>v. \<exists>sp. v = EComp (Spanned sp nm)) cs'"
    unfolding entry_named_def
    by (simp add: eq_ignore_case_def, rule yields_then_eat [OF assms(1)], rule yields_rest [OF assms]) auto
qed

lemma entry_end_run:
  assumes "env_ok e" and "plain_line nm" and "line_end cs cs'"
  shows "yields e h reader_entry (ascii ''END'' @ 58 # nm @ cs) (\<lambda>v. \<exists>sp. v = ECompEnd (Spanned sp nm)) cs'"
proof (rule yields_named [OF assms(1) begin_name(2) colon_no_ident(1) [OF assms(1)]])
  fix sp
  have "\<not> eq_ignore_case (ascii ''END'') (ascii ''BEGIN'')" by (simp add: eq_ignore_case_def ascii_def)
  then show "yields e h (entry_named (Spanned sp (ascii ''END''))) (58 # nm @ cs) (\<lambda>v. \<exists>sp. v = ECompEnd (Spanned sp nm)) cs'"
    unfolding entry_named_def
    by (simp, simp add: eq_ignore_case_def, intro yields_then_eat [OF assms(1)] yields_rest [OF assms]) auto
qed

end
