(* ===== verification/Ics_Codec.thy ===== *)
theory Ics_Codec
  imports Ics_Entry_Runs
begin

text \<open>
  The contract between the printer and the parser of a type.  \<open>ics_codec\<close> is the one of a value:
  the printer writes a text that depends on the value alone, and the parser reads that text back,
  without a message, when something that ends the value follows.  \<open>ics_prop_codec\<close> is the one of a
  property, which owns the rest of its line.  What clients need is proved once in the locales: the
  round trip of a whole source, lists of values, parameters and properties as entries.
\<close>

section \<open>Values\<close>

definition clean_text :: "ustring \<Rightarrow> bool" where
  "clean_text s = list_all (\<lambda>c. scalar c \<and> c \<noteq> 10 \<and> c \<noteq> 13) s"

lemma clean_text_simps [simp]:
  "clean_text []" "clean_text (c # s) = (scalar c \<and> c \<noteq> 10 \<and> c \<noteq> 13 \<and> clean_text s)"
  "clean_text (s @ t) = (clean_text s \<and> clean_text t)"
  by (auto simp: clean_text_def)

lemma clean_text_foldable: "clean_text s \<Longrightarrow> foldable s"
  by (induction s) auto

lemma clean_text_scalar: "clean_text s \<Longrightarrow> list_all scalar s"
  by (auto simp: clean_text_def list_all_iff)

lemma written_text:
  assumes "w = write_raw s writer_default"
  shows "write_finish w = fold_text 0 s"
  using assms by (simp add: write_finish_def write_raw_fold writer_default_def)

lemma clean_vec_text:
  assumes "\<And>x. x \<in> set xs \<Longrightarrow> clean_text (t x)"
  shows "clean_text (vec_text t xs)"
  using assms by (induction t xs rule: vec_text.induct) (auto simp: scalar_def)

locale ics_codec =
  fixes T :: "'a ics_type" and tx :: "'a \<Rightarrow> ustring" and ok :: "ics_env \<Rightarrow> 'a \<Rightarrow> bool"
    and stop :: "ics_env \<Rightarrow> ics_hints \<Rightarrow> ustring \<Rightarrow> bool" and wr :: "'a \<Rightarrow> ics_writer \<Rightarrow> ics_writer"
  assumes writes: "ok e x \<Longrightarrow> wr x w = write_raw (tx x) w"
    and moves: "shrinks (ty_read T)"
    and reads: "env_ok e \<Longrightarrow> ok e x \<Longrightarrow> stop e h cs \<Longrightarrow> parses e h (ty_read T) (tx x @ cs) (Some x) cs"
    and clean: "ok e x \<Longrightarrow> clean_text (tx x)"
begin

lemma roundtrip:
  assumes "env_ok e" and "ok e x" and "stop e no_hints []" and "tx x = [] \<or> last (tx x) \<notin> {32, 9}"
  shows "from_str e T (utf8s (write_finish (wr x writer_default))) = Some (Inr x)"
proof -
  have "parses e no_hints (ty_read T) (tx x) (Some x) []"
    using reads [OF assms(1-3)] by simp
  moreover have "tx x = [] \<or> last (tx x) \<notin> {13, 32, 9}"
    using assms(4) clean [OF assms(2)] by (auto simp: clean_text_def list_all_iff dest: last_in_set)
  moreover have "write_finish (wr x writer_default) = fold_text 0 (tx x)"
    by (rule written_text) (rule writes [OF assms(2)])
  ultimately show ?thesis
    using from_str_written [of e T "tx x" x] clean_text_foldable [OF clean [OF assms(2)]]
      clean_text_scalar [OF clean [OF assms(2)]] by simp
qed

lemma writes_vec:
  assumes "list_all (ok e) xs"
  shows "write_vec wr xs w = write_raw (vec_text tx xs) w"
  using assms by (intro write_vec_text) (auto simp: list_all_iff intro: writes)

lemma clean_vec:
  assumes "list_all (ok e) xs"
  shows "clean_text (vec_text tx xs)"
proof (rule clean_vec_text)
  fix x assume "x \<in> set xs"
  then show "clean_text (tx x)" using assms by (auto simp: list_all_iff intro: clean)
qed

lemma reads_vec:
  assumes "env_ok e" and "xs \<noteq> []" and "list_all (ok e) xs"
    and "stop e (h\<lparr>inside_array := True\<rparr>) cs" and "\<And>c. stop e (h\<lparr>inside_array := True\<rparr>) (44 # c)"
    and "peeked cs \<noteq> Some 44"
  shows "parses e h (ty_read (vec_type T)) (vec_text tx xs @ cs) (Some xs) cs"
proof (rule parses_vec [OF assms(1) moves assms(2) _ assms(6)])
  fix x rest assume "x \<in> set xs" and "rest = cs \<or> (\<exists>c. rest = 44 # c)"
  then show "parses e (h\<lparr>inside_array := True\<rparr>) (ty_read T) (tx x @ rest) (Some x) rest"
    using assms by (auto simp: list_all_iff intro: reads)
qed

lemma reads_any:
  assumes "env_ok e" and "ok e x" and "stop e h cs"
  shows "parses e h (reader_any T) (tx x @ cs) (Some x) cs"
  by (rule parses_any [OF reads [OF assms]])

end

section \<open>Properties\<close>

text \<open>The place behind the name of a property, where a parameter gets its semicolon.\<close>

definition after_name :: "ics_writer \<Rightarrow> bool" where
  "after_name w = needs_semicolon (w_out w)"

text \<open>The line that follows is not empty.\<close>

definition next_line :: "ustring \<Rightarrow> ustring \<Rightarrow> bool" where
  "next_line cs cs' = (line_end cs cs' \<and> peeked cs' \<noteq> Some 10)"

locale ics_prop_codec =
  fixes T :: "'a ics_type" and tx :: "'a \<Rightarrow> ustring" and ok :: "ics_env \<Rightarrow> 'a \<Rightarrow> bool"
    and wr :: "'a \<Rightarrow> ics_writer \<Rightarrow> ics_writer"
  assumes writes: "ok e x \<Longrightarrow> after_name w \<Longrightarrow> wr x w = write_raw (tx x) w"
    and moves: "shrinks (ty_read T)"
    and reads: "env_ok e \<Longrightarrow> ok e x \<Longrightarrow> next_line cs cs'
           \<Longrightarrow> parses e no_hints (prop_value T) (tx x @ cs) (Some x) cs'"
    and clean: "ok e x \<Longrightarrow> clean_text (tx x)"
    and starts: "ok e x \<Longrightarrow> \<exists>t. tx x = 58 # t \<or> tx x = 59 # t"

subsection \<open>Skipping the parameters of a property that has none\<close>

lemma parses_burn_params [parses_intros]:
  assumes "env_ok e"
  shows "parses e h burn_params (58 # cs) (Some ()) cs"
proof -
  let ?ahead = "rbind reader_entry (\<lambda>entry. case entry of EParam name \<Rightarrow> rret (EParam name) | _ \<Rightarrow> rfail)"
  have ahead: "parses e h (reader_attempt ?ahead) (58 # cs) None (58 # cs)"
  proof (rule parses_attempt_none)
    fix r assume r: "rd_env r = e" "rd_hints r = h" "before (58 # cs) r"
    obtain v q where "reader_entry r = (Some v, r\<lparr>rd_pos := q\<rparr>)" "v = EValue"
      using yieldsE [OF entry_value_run [OF assms] r] .
    then show "fst (?ahead r) = None" by (simp add: rbind_def rfail_def)
  qed (auto intro!: progress_intros split: read_entry.splits)
  have "parses e h (burn_params_round ()) (58 # cs) (Break (Some ())) (58 # cs)"
  proof (rule parsesI)
    fix r assume r: "rd_env r = e" "rd_hints r = h" "before (58 # cs) r"
    obtain q where "reader_attempt ?ahead r = (None, r\<lparr>rd_pos := q\<rparr>)" "before (58 # cs) (r\<lparr>rd_pos := q\<rparr>)"
      using parsesE [OF ahead r] .
    then show "\<exists>q. burn_params_round () r = (Break (Some ()), r\<lparr>rd_pos := q\<rparr>) \<and> before (58 # cs) (r\<lparr>rd_pos := q\<rparr>)"
      by (auto simp: burn_params_round_def)
  qed
  then have "parses e h (rloop burn_params_round ()) (58 # cs) (Some ()) (58 # cs)"
    by (rule parses_rloop_break [OF progress_burn_params])
  then show ?thesis unfolding burn_params_def
    by (rule parses_rbind) (rule parses_eat [OF assms refl])
qed

subsection \<open>A property that is a colon and a value\<close>

lemma parses_prop_value:
  assumes "env_ok e" and "parses e h (ty_read T) cs (Some v) cs1" and "next_line cs1 cs' \<or> cs1 = cs' \<and> peeked cs' \<noteq> Some 10"
  shows "parses e h (prop_value T) cs (Some v) cs'"
  unfolding prop_value_def
proof (rule parses_rcase_some [OF parses_any [OF assms(2)]])
  show "parses e h (rthen (reader_try_eat 10) (rret v)) cs1 (Some v) cs'"
  proof (cases "cs1 = cs'")
    case True
    then have "not_next 10 cs'" using assms(3)
      by (cases cs') (auto simp: next_line_def line_end_def ascii_lower_low)
    then show ?thesis unfolding True by (rule parses_rthen [OF parses_not_next [OF assms(1)] parses_rret])
  next
    case False
    then have "cs1 = 10 # cs'" using assms(3) by (auto simp: next_line_def line_end_def)
    then show ?thesis using parses_rthen [OF parses_try_eat [OF assms(1) refl] parses_rret] by simp
  qed
qed

text \<open>A type whose property form reads the parameters away and then the value, and whose value
  is followed by the end of the line.\<close>

context ics_codec
begin

lemma reads_prop:
  assumes "env_ok e" and "ok e x" and "next_line cs cs'" and "stop e no_hints cs"
    and "ty_read S = rbind burn_params (\<lambda>_. rbind (reader_any T) (\<lambda>v. rret (C v)))"
  shows "parses e no_hints (prop_value S) ((58 # tx x) @ cs) (Some (C x)) cs'"
proof (rule parses_prop_value [OF assms(1) _ disjI1 [OF assms(3)]])
  show "parses e no_hints (ty_read S) ((58 # tx x) @ cs) (Some (C x)) cs"
    unfolding assms(5)
    by (simp, rule parses_rbind [OF parses_burn_params [OF assms(1)]],
        rule parses_rbind [OF reads_any [OF assms(1,2,4)]], rule parses_rret)
qed

end

section \<open>Parameters and properties as entries\<close>

text \<open>An offer takes an entry, reads its value off the text, and updates the state.\<close>

definition takes :: "ics_env \<Rightarrow> (ics_reader \<Rightarrow> ('s \<times> ics_reader) option) \<Rightarrow> ustring \<Rightarrow> 's \<Rightarrow> ustring \<Rightarrow> bool" where
  "takes e f cs s' cs' = (\<forall>r. rd_env r = e \<and> rd_hints r = no_hints \<and> before cs r \<longrightarrow>
     (\<exists>q. f r = Some (s', r\<lparr>rd_pos := q\<rparr>) \<and> before cs' (r\<lparr>rd_pos := q\<rparr>)))"

lemma takesD:
  assumes "takes e f cs s' cs'" and "rd_env r = e" and "rd_hints r = no_hints" and "before cs r"
  shows "\<exists>q. f r = Some (s', r\<lparr>rd_pos := q\<rparr>) \<and> before cs' (r\<lparr>rd_pos := q\<rparr>)"
  using assms unfolding takes_def by blast

lemma takes_run:
  assumes "parses e no_hints p cs v cs'"
  shows "takes e (\<lambda>r. Some (p r)) cs v cs'"
  using assms unfolding takes_def parses_def by auto

lemma takes_offer:
  assumes "takes e f cs v cs'"
  shows "takes e (\<lambda>r. offer_to upd (f r) (alt r)) cs (upd v) cs'"
  unfolding takes_def
proof (intro allI impI)
  fix r assume "rd_env r = e \<and> rd_hints r = no_hints \<and> before cs r"
  then obtain q where "f r = Some (v, r\<lparr>rd_pos := q\<rparr>)" "before cs' (r\<lparr>rd_pos := q\<rparr>)"
    using assms unfolding takes_def by blast
  then show "\<exists>q. offer_to upd (f r) (alt r) = Some (upd v, r\<lparr>rd_pos := q\<rparr>) \<and> before cs' (r\<lparr>rd_pos := q\<rparr>)"
    by (auto simp: offer_to_def)
qed

lemma offer_to_skip [simp]: "offer_to upd None alt = alt"
  by (simp add: offer_to_def)

lemma try_param_other [simp]:
  "\<not> eq_ignore_case (sp_value n) (ascii name) \<Longrightarrow> try_param T (EParam n) name v r = None"
  "try_param T EValue name v r = None"
  by (simp_all add: try_param_def)

lemma try_prop_other [simp]:
  "\<not> eq_ignore_case (sp_value n) (ascii name) \<Longrightarrow> try_prop T (EProp n) name v r = None"
  "\<not> eq_ignore_case (sp_value n) (ascii name) \<Longrightarrow> try_props T (EProp n) name vs r = None"
  "try_prop T (EComp n) name v r = None" "try_props T (EComp n) name vs r = None"
  "try_prop T (ECompEnd n) name v r = None" "try_props T (ECompEnd n) name vs r = None"
  by (simp_all add: try_prop_def try_props_def)

lemma try_comps_other [simp]:
  "\<not> eq_ignore_case (sp_value n) (ascii name) \<Longrightarrow> try_comps T (EComp n) name vs r = None"
  "try_comps T (EProp n) name vs r = None" "try_comps T (ECompEnd n) name vs r = None"
  by (simp_all add: try_comps_def try_comp_def)

lemma takes_param:
  assumes "parses e no_hints (ty_read T) cs (Some v) cs'"
  shows "takes e (\<lambda>r. try_param T (EParam (Spanned sp (ascii name))) name None r) cs (Some v) cs'"
proof -
  have "parses e no_hints (param_field T) cs (Some v) cs'"
    unfolding param_field_def by (rule parses_rcase_some [OF parses_any [OF assms] parses_rret])
  then show ?thesis
    using takes_run by (simp add: try_param_def eq_ignore_case_def dup_check_def)
qed

lemma takes_prop:
  assumes "parses e no_hints (prop_value T) cs (Some v) cs'"
  shows "takes e (\<lambda>r. try_prop T (EProp (Spanned sp (ascii name))) name None r) cs (Some v) cs'"
  using takes_run [OF assms] by (simp add: try_prop_def eq_ignore_case_def dup_check_def)

lemma takes_push:
  assumes "takes e f cs (Some v) cs'"
  shows "takes e (\<lambda>r. map_option (push_opt vs) (f r)) cs (vs @ [v]) cs'"
  using assms unfolding takes_def by (fastforce simp: push_opt_def)

lemma takes_props:
  assumes "parses e no_hints (prop_value T) cs (Some v) cs'"
  shows "takes e (\<lambda>r. try_props T (EProp (Spanned sp (ascii name))) name vs r) cs (vs @ [v]) cs'"
  unfolding try_props_def by (rule takes_push [OF takes_prop [OF assms]])

lemma takes_comps:
  assumes "parses e no_hints (ty_read T) cs (Some v) cs'"
  shows "takes e (\<lambda>r. try_comps T (EComp (Spanned sp (ascii name))) name vs r) cs (vs @ [v]) cs'"
  unfolding try_comps_def
proof (rule takes_push)
  show "takes e (\<lambda>r. try_comp T (EComp (Spanned sp (ascii name))) name None r) cs (Some v) cs'"
    using takes_run [OF parses_any [OF assms]] by (simp add: try_comp_def eq_ignore_case_def dup_check_def)
qed

section \<open>Steps of the loop over the entries\<close>

lemma entries_continue:
  assumes "fair offer" and "yields e no_hints reader_entry cs P cs1"
    and "\<And>entry. P entry \<Longrightarrow> takes e (offer entry s) cs1 s' cs2"
    and "parses e no_hints (read_entries kind stop offer s') cs2 v cs3"
  shows "parses e no_hints (read_entries kind stop offer s) cs v cs3"
  unfolding read_entries_def
proof (rule parses_rloop_continue [OF progress_entries [OF assms(1)]])
  show "parses e no_hints (rloop (entries_round kind stop offer) s') cs2 v cs3"
    using assms(4) by (simp add: read_entries_def)
  show "parses e no_hints (entries_round kind stop offer s) cs (Continue s') cs2"
  proof (rule parsesI)
    fix r assume r: "rd_env r = e" "rd_hints r = no_hints" "before cs r"
    obtain en q where en: "reader_entry r = (Some en, r\<lparr>rd_pos := q\<rparr>)" "P en" "before cs1 (r\<lparr>rd_pos := q\<rparr>)"
      using yieldsE [OF assms(2) r] .
    then obtain q2 where "offer en s (r\<lparr>rd_pos := q\<rparr>) = Some (s', r\<lparr>rd_pos := q2\<rparr>)" "before cs2 (r\<lparr>rd_pos := q2\<rparr>)"
      using takesD [OF assms(3) [OF en(2)], of "r\<lparr>rd_pos := q\<rparr>"] r by auto
    then show "\<exists>q. entries_round kind stop offer s r = (Continue s', r\<lparr>rd_pos := q\<rparr>) \<and> before cs2 (r\<lparr>rd_pos := q\<rparr>)"
      using en by (auto simp: entries_round_def)
  qed
qed

lemma entries_stop:
  assumes "fair offer" and "yields e no_hints reader_entry cs P cs1"
    and "\<And>entry r. P entry \<Longrightarrow> offer entry s r = None" and "\<And>entry. P entry \<Longrightarrow> stop entry"
  shows "parses e no_hints (read_entries kind stop offer s) cs (Some s) cs1"
  unfolding read_entries_def
proof (rule parses_rloop_break [OF progress_entries [OF assms(1)]], rule parsesI)
  fix r assume r: "rd_env r = e" "rd_hints r = no_hints" "before cs r"
  obtain en q where "reader_entry r = (Some en, r\<lparr>rd_pos := q\<rparr>)" "P en" "before cs1 (r\<lparr>rd_pos := q\<rparr>)"
    using yieldsE [OF assms(2) r] .
  then show "\<exists>q. entries_round kind stop offer s r = (Break (Some s), r\<lparr>rd_pos := q\<rparr>) \<and> before cs1 (r\<lparr>rd_pos := q\<rparr>)"
    using assms(3,4) by (auto simp: entries_round_def)
qed

text \<open>The colon ends the parameters.\<close>

lemma entries_value:
  assumes "env_ok e" and "fair offer" and "\<And>r. offer EValue s r = None"
  shows "parses e no_hints (read_entries kind is_value offer s) (58 # cs) (Some s) cs"
  by (rule entries_stop [OF assms(2) entry_value_run [OF assms(1)]]) (use assms(3) in \<open>auto simp: is_value_def\<close>)

text \<open>The line \<open>END\<close> of a component.\<close>

lemma entries_end:
  assumes "env_ok e" and "fair offer" and "\<And>sp r. offer (ECompEnd (Spanned sp (ascii name))) s r = None"
    and "plain_line (ascii name)" and "line_end cs cs'"
  shows "parses e no_hints (read_entries kind (\<lambda>en. try_comp_end en name) offer s)
           (ascii ''END'' @ 58 # ascii name @ cs) (Some s) cs'"
  by (rule entries_stop [OF assms(2) entry_end_run [OF assms(1,4,5)]])
    (use assms(3) in \<open>auto simp: try_comp_end_def eq_ignore_case_def\<close>)

text \<open>A parameter that is written when it is present.\<close>

definition param_opt_text :: "string \<Rightarrow> ('a \<Rightarrow> ustring) \<Rightarrow> 'a option \<Rightarrow> ustring" where
  "param_opt_text name t v = (case v of None \<Rightarrow> [] | Some x \<Rightarrow> 59 # ascii name @ 61 # t x)"

lemma entries_param_opt:
  assumes "env_ok e" and "fair offer" and "is_name (ascii name)"
    and "\<And>x sp. v = Some x \<Longrightarrow> takes e (offer (EParam (Spanned sp (ascii name))) s) (t x @ cs) s' cs"
    and "v = None \<Longrightarrow> s' = s"
    and "parses e no_hints (read_entries kind stop offer s') cs w cs'"
  shows "parses e no_hints (read_entries kind stop offer s) (param_opt_text name t v @ cs) w cs'"
proof (cases v)
  case None
  then show ?thesis using assms(5,6) by (simp add: param_opt_text_def)
next
  case (Some x)
  have "parses e no_hints (read_entries kind stop offer s) (59 # ascii name @ 61 # t x @ cs) w cs'"
    by (rule entries_continue [OF assms(2) entry_param_run [OF assms(1,3)] _ assms(6)])
      (use assms(4) [OF Some] in auto)
  then show ?thesis using Some by (simp add: param_opt_text_def)
qed

text \<open>A property that is written when it is present.\<close>

definition prop_opt_text :: "string \<Rightarrow> ('a \<Rightarrow> ustring) \<Rightarrow> 'a option \<Rightarrow> ustring" where
  "prop_opt_text name t v = (case v of None \<Rightarrow> [] | Some x \<Rightarrow> ascii name @ t x @ [10])"

definition prop_name :: "string \<Rightarrow> bool" where
  "prop_name name = (is_name (ascii name) \<and> \<not> eq_ignore_case (ascii name) (ascii ''BEGIN'')
     \<and> \<not> eq_ignore_case (ascii name) (ascii ''END''))"

end
