(* ===== verification/Ics_Values.thy ===== *)
theory Ics_Values
  imports Ics_Codec
begin

text \<open>
  Dates, times, offsets and durations (\<open>shared/ical/src/objects/signed.rs\<close>, \<open>dt/units.rs\<close>,
  \<open>dt/time.rs\<close>, \<open>dt/date.rs\<close>, \<open>dt/date_time.rs\<close>, \<open>dt/date_or_dt.rs\<close>, \<open>dt/forms/*.rs\<close>,
  \<open>tzid.rs\<close>, \<open>utcoffset.rs\<close>, \<open>duration.rs\<close>): data, constructors, parsers and printers.
\<close>

text \<open>The chains of comparisons that find the value of a name, ignoring case.\<close>

fun match_name :: "(string \<times> 'a) list \<Rightarrow> ustring \<Rightarrow> 'a option" where
  "match_name [] s = None"
| "match_name ((n, v) # ns) s = (if eq_ignore_case s (ascii n) then Some v else match_name ns s)"

section \<open>Signs\<close>

datatype sign = Neg | Pos

definition sign_read :: "sign rd" where
  "sign_read = rcase (reader_try_eat 45) (\<lambda>_. rret Neg) (rthen (reader_try_eat 43) (rret Pos))"

definition sign_type :: "sign ics_type" where
  "sign_type = plain_type ''Sign'' sign_read"

definition sign_write :: "sign \<Rightarrow> ics_writer \<Rightarrow> ics_writer" where
  "sign_write s = write_raw (case s of Neg \<Rightarrow> [45] | Pos \<Rightarrow> [43])"

datatype 'a signed = Signed (sg_sign: sign) (sg_value: 'a)

definition signed_read :: "'a ics_type \<Rightarrow> 'a signed rd" where
  "signed_read T = rbind (reader_any sign_type) (\<lambda>s. rbind (reader_any T) (\<lambda>v. rret (Signed s v)))"

definition signed_type :: "'a ics_type \<Rightarrow> 'a signed ics_type" where
  "signed_type T = plain_type (''Signed<'' @ ty_name T @ ''>'') (signed_read T)"

definition signed_write :: "('a \<Rightarrow> ics_writer \<Rightarrow> ics_writer) \<Rightarrow> 'a signed \<Rightarrow> ics_writer \<Rightarrow> ics_writer" where
  "signed_write wr s w = wr (sg_value s) (case sg_sign s of Neg \<Rightarrow> sign_write Neg w | Pos \<Rightarrow> w)"

section \<open>Units of dates and times\<close>

datatype dt_unit_violation =
    OutOfRangeYear nat
  | NegativeYear int
  | OutOfRangeMonth nat
  | OutOfRangeDay nat
  | OutOfRangeHour nat
  | OutOfRangeMinute nat
  | OutOfRangeSecond nat
  | OutOfRangeDayOrdinal nat
  | OutOfRangeWeekOrdinal nat

definition unit_viol_body :: "dt_unit_violation \<Rightarrow> msg_body" where
  "unit_viol_body v = (case v of
     OutOfRangeYear n \<Rightarrow> MsgBody ''year `{0}` is out of range'' [dec_str n]
   | NegativeYear i \<Rightarrow> MsgBody ''year `{0}` is negative'' [(if i < 0 then [45] else []) @ dec_str (nat \<bar>i\<bar>)]
   | OutOfRangeMonth n \<Rightarrow> MsgBody ''month `{0}` is out of range'' [dec_str n]
   | OutOfRangeDay n \<Rightarrow> MsgBody ''day `{0}` is out of range'' [dec_str n]
   | OutOfRangeHour n \<Rightarrow> MsgBody ''hour `{0}` is out of range'' [dec_str n]
   | OutOfRangeMinute n \<Rightarrow> MsgBody ''minute `{0}` is out of range'' [dec_str n]
   | OutOfRangeSecond n \<Rightarrow> MsgBody ''second `{0}` is out of range'' [dec_str n]
   | OutOfRangeDayOrdinal n \<Rightarrow> MsgBody ''day ordinal (day of the year) `{0}` is out of range'' [dec_str n]
   | OutOfRangeWeekOrdinal n \<Rightarrow> MsgBody ''week ordinal (week of the year) `{0}` is out of range'' [dec_str n])"

datatype year = Year (year_num: nat)
datatype month = Month (month_num: nat)
datatype day = Day (day_num: nat)
datatype hour = Hour (hour_num: nat)
datatype minute = Minute (minute_num: nat)
datatype second = Second (second_num: nat)
datatype day_ordinal = DayOrdinal (day_ordinal_num: nat)
datatype week_ordinal = WeekOrdinal (week_ordinal_num: nat)

definition year_new :: "nat \<Rightarrow> dt_unit_violation + year" where
  "year_new n = (if n > 9999 then Inl (OutOfRangeYear n) else Inr (Year n))"

definition month_new :: "nat \<Rightarrow> dt_unit_violation + month" where
  "month_new n = (if n = 0 \<or> n > 12 then Inl (OutOfRangeMonth n) else Inr (Month n))"

definition day_new :: "nat \<Rightarrow> dt_unit_violation + day" where
  "day_new n = (if n = 0 \<or> n > 31 then Inl (OutOfRangeDay n) else Inr (Day n))"

definition hour_new :: "nat \<Rightarrow> dt_unit_violation + hour" where
  "hour_new n = (if n > 23 then Inl (OutOfRangeHour n) else Inr (Hour n))"

definition minute_new :: "nat \<Rightarrow> dt_unit_violation + minute" where
  "minute_new n = (if n > 59 then Inl (OutOfRangeMinute n) else Inr (Minute n))"

definition second_new :: "nat \<Rightarrow> dt_unit_violation + second" where
  "second_new n = (if n > 60 then Inl (OutOfRangeSecond n) else Inr (Second n))"

definition day_ordinal_new :: "nat \<Rightarrow> dt_unit_violation + day_ordinal" where
  "day_ordinal_new n = (if n = 0 \<or> n > 366 then Inl (OutOfRangeDayOrdinal n) else Inr (DayOrdinal n))"

definition week_ordinal_new :: "nat \<Rightarrow> dt_unit_violation + week_ordinal" where
  "week_ordinal_new n = (if n = 0 \<or> n > 53 then Inl (OutOfRangeWeekOrdinal n) else Inr (WeekOrdinal n))"

text \<open>The macro \<open>impls!\<close>: the value read as a number, checked by the constructor, and printed
  as a number.\<close>

definition unit_read :: "(nat \<Rightarrow> dt_unit_violation + 'a) \<Rightarrow> 'a rd" where
  "unit_read new = rbind (reader_any (spanned_type u32_type))
     (\<lambda>s. spanned_unwrap (spanned_map (\<lambda>n. map_sum unit_viol_body id (new n)) s))"

definition month_type :: "month ics_type" where "month_type = plain_type ''Month'' (unit_read month_new)"
definition day_type :: "day ics_type" where "day_type = plain_type ''Day'' (unit_read day_new)"
definition hour_type :: "hour ics_type" where "hour_type = plain_type ''Hour'' (unit_read hour_new)"
definition minute_type :: "minute ics_type" where "minute_type = plain_type ''Minute'' (unit_read minute_new)"
definition second_type :: "second ics_type" where "second_type = plain_type ''Second'' (unit_read second_new)"
definition day_ordinal_type :: "day_ordinal ics_type" where
  "day_ordinal_type = plain_type ''DayOrdinal'' (unit_read day_ordinal_new)"
definition week_ordinal_type :: "week_ordinal ics_type" where
  "week_ordinal_type = plain_type ''WeekOrdinal'' (unit_read week_ordinal_new)"

datatype weekday = Monday | Tuesday | Wednesday | Thursday | Friday | Saturday | Sunday

definition weekday_names :: "(string \<times> weekday) list" where
  "weekday_names = [(''MO'', Monday), (''TU'', Tuesday), (''WE'', Wednesday), (''TH'', Thursday),
     (''FR'', Friday), (''SA'', Saturday), (''SU'', Sunday)]"

definition weekday_read :: "weekday rd" where
  "weekday_read = rbind (reader_spanned reader_ident) (\<lambda>s.
     case match_name weekday_names (sp_value s) of
       Some d \<Rightarrow> rret d
     | None \<Rightarrow> rerror (Some (sp_span s)) (MsgBody ''unknown weekday `{value}`'' [sp_value s]) rfail)"

definition weekday_type :: "weekday ics_type" where
  "weekday_type = plain_type ''Weekday'' weekday_read"

definition weekday_str :: "weekday \<Rightarrow> string" where
  "weekday_str d = (case d of Monday \<Rightarrow> ''MO'' | Tuesday \<Rightarrow> ''TU'' | Wednesday \<Rightarrow> ''WE''
     | Thursday \<Rightarrow> ''TH'' | Friday \<Rightarrow> ''FR'' | Saturday \<Rightarrow> ''SA'' | Sunday \<Rightarrow> ''SU'')"

definition weekday_write :: "weekday \<Rightarrow> ics_writer \<Rightarrow> ics_writer" where
  "weekday_write d = write_raw (ascii (weekday_str d))"

section \<open>Times and dates\<close>

record ics_time =
  t_hour :: hour
  t_minute :: minute
  t_second :: second

definition time_new_unchecked :: "nat \<Rightarrow> nat \<Rightarrow> nat \<Rightarrow> ics_time" where
  "time_new_unchecked h m s = \<lparr>t_hour = Hour h, t_minute = Minute m, t_second = Second s\<rparr>"

text \<open>\<open>x.map(New).unwrap(r)\<close> on digits that were read before.\<close>

definition unit_check :: "(nat \<Rightarrow> dt_unit_violation + 'a) \<Rightarrow> nat spanned \<Rightarrow> 'a rd" where
  "unit_check new s = spanned_unwrap (spanned_map (\<lambda>n. map_sum unit_viol_body id (new n)) s)"

definition time_read :: "ics_time rd" where
  "time_read =
    rbind (reader_spanned (reader_digits 2)) (\<lambda>h.
    rbind (reader_spanned (reader_digits 2)) (\<lambda>m.
    rbind (reader_spanned (reader_digits 2)) (\<lambda>s.
    rbind (unit_check hour_new h) (\<lambda>h'.
    rbind (unit_check minute_new m) (\<lambda>m'.
    rbind (unit_check second_new s) (\<lambda>s'.
    rret \<lparr>t_hour = h', t_minute = m', t_second = s'\<rparr>))))))"

definition time_type :: "ics_time ics_type" where
  "time_type = plain_type ''Time'' time_read"

definition time_write :: "ics_time \<Rightarrow> ics_writer \<Rightarrow> ics_writer" where
  "time_write t = write_raw (pad_str 2 (hour_num (t_hour t)) @ pad_str 2 (minute_num (t_minute t))
     @ pad_str 2 (second_num (t_second t)))"

record ics_date =
  d_year :: year
  d_month :: month
  d_day :: day

datatype date_time_violation = UnknownTimeZone ustring | UnknownDay nat nat nat

definition dt_viol_body :: "date_time_violation \<Rightarrow> msg_body" where
  "dt_viol_body v = (case v of
     UnknownTimeZone z \<Rightarrow> MsgBody ''time zone `{0}` is not known'' [z]
   | UnknownDay y m d \<Rightarrow> MsgBody ''day {year:04}-{month:02}-{day:02} (yyyy-mm-dd) does not exist''
       [pad_str 4 y, pad_str 2 m, pad_str 2 d])"

definition date_new :: "ics_env \<Rightarrow> year \<Rightarrow> month \<Rightarrow> day \<Rightarrow> date_time_violation + ics_date" where
  "date_new env y m d =
    (if \<not> env_date env (year_num y) (month_num m) (day_num d)
     then Inl (UnknownDay (year_num y) (month_num m) (day_num d))
     else Inr \<lparr>d_year = y, d_month = m, d_day = d\<rparr>)"

definition date_new_unchecked :: "nat \<Rightarrow> nat \<Rightarrow> nat \<Rightarrow> ics_date" where
  "date_new_unchecked y m d = \<lparr>d_year = Year y, d_month = Month m, d_day = Day d\<rparr>"

definition date_parts :: "(msg_body + ics_date) rd" where
  "date_parts =
    rbind (reader_spanned (reader_digits 4)) (\<lambda>y.
    rbind (reader_spanned (reader_digits 2)) (\<lambda>m.
    rbind (reader_spanned (reader_digits 2)) (\<lambda>d.
    rbind (unit_check year_new y) (\<lambda>y'.
    rbind (unit_check month_new m) (\<lambda>m'.
    rbind (unit_check day_new d) (\<lambda>d' r.
    (Some (map_sum dt_viol_body id (date_new (rd_env r) y' m' d')), r)))))))"

definition date_read :: "ics_date rd" where
  "date_read = rbind (reader_spanned date_parts) spanned_unwrap"

definition date_type :: "ics_date ics_type" where
  "date_type = plain_type ''Date'' date_read"

definition date_write :: "ics_date \<Rightarrow> ics_writer \<Rightarrow> ics_writer" where
  "date_write d = write_raw (pad_str 4 (year_num (d_year d)) @ pad_str 2 (month_num (d_month d))
     @ pad_str 2 (day_num (d_day d)))"

section \<open>Time zone identifiers\<close>

datatype tz_id = TzId (tz_value: ustring)

definition tz_id_read_prop :: "tz_id rd" where
  "tz_id_read_prop = rbind burn_params (\<lambda>_. rbind (reader_any text_type) (\<lambda>t. rret (TzId (text_str t))))"

definition tz_id_prop_type :: "tz_id ics_type" where
  "tz_id_prop_type = plain_type ''TzId'' tz_id_read_prop"

definition tz_id_write_prop :: "tz_id \<Rightarrow> ics_writer \<Rightarrow> ics_writer" where
  "tz_id_write_prop z w = write_raw (tz_value z) (write_raw [58] w)"

definition tz_id_read :: "tz_id rd" where
  "tz_id_read = rbind (reader_any param_value_type) (\<lambda>p. rret (TzId (pv_value p)))"

definition tz_id_type :: "tz_id ics_type" where
  "tz_id_type = plain_type ''TzId'' tz_id_read"

definition tz_id_write :: "tz_id \<Rightarrow> ics_writer \<Rightarrow> ics_writer" where
  "tz_id_write z = write_raw (tz_value z)"

section \<open>Dates with times\<close>

record 'f date_time =
  dt_date :: ics_date
  dt_time :: ics_time
  dt_form :: 'f

datatype any_form = FormLocal | FormUtc | FormTz tz_id
datatype utc_form = UtcForm
datatype utc_or_local = UlLocal | UlUtc

definition any_form_ty :: "any_form \<Rightarrow> string" where
  "any_form_ty f = (case f of FormLocal \<Rightarrow> ''local-form'' | FormUtc \<Rightarrow> ''utc-form'' | FormTz _ \<Rightarrow> ''tz-form'')"

datatype date_time_error = InvalidConversion string string

definition any_of_utc :: "utc_form \<Rightarrow> any_form" where
  "any_of_utc f = FormUtc"

definition utc_of_any :: "any_form \<Rightarrow> date_time_error + utc_form" where
  "utc_of_any f = (if f = FormUtc then Inr UtcForm else Inl (InvalidConversion (any_form_ty f) ''utc-form''))"

definition any_of_ul :: "utc_or_local \<Rightarrow> any_form" where
  "any_of_ul f = (case f of UlLocal \<Rightarrow> FormLocal | UlUtc \<Rightarrow> FormUtc)"

definition ul_of_any :: "any_form \<Rightarrow> date_time_error + utc_or_local" where
  "ul_of_any f = (case f of FormLocal \<Rightarrow> Inr UlLocal | FormUtc \<Rightarrow> Inr UlUtc
     | FormTz _ \<Rightarrow> Inl (InvalidConversion (any_form_ty f) ''local-form or utc-form''))"

definition dt_map_form :: "('f \<Rightarrow> 'g) \<Rightarrow> 'f date_time \<Rightarrow> 'g date_time" where
  "dt_map_form c d = \<lparr>dt_date = dt_date d, dt_time = dt_time d, dt_form = c (dt_form d)\<rparr>"

definition dt_try_form :: "('f \<Rightarrow> date_time_error + 'g) \<Rightarrow> 'f date_time \<Rightarrow> date_time_error + 'g date_time" where
  "dt_try_form c d = (case c (dt_form d) of
     Inl x \<Rightarrow> Inl x | Inr g \<Rightarrow> Inr \<lparr>dt_date = dt_date d, dt_time = dt_time d, dt_form = g\<rparr>)"

text \<open>The date, the \<open>T\<close> and the time that start each form.\<close>

definition date_t_time :: "(ics_date \<times> ics_time) rd" where
  "date_t_time = rbind (reader_any date_type) (\<lambda>d. rbind (reader_eat 84) (\<lambda>_.
     rbind (reader_any time_type) (\<lambda>t. rret (d, t))))"

definition dt_utc_read :: "utc_form date_time rd" where
  "dt_utc_read = rbind date_t_time (\<lambda>(d, t).
     rcase (reader_try_eat 90) (\<lambda>_. rret \<lparr>dt_date = d, dt_time = t, dt_form = UtcForm\<rparr>)
       (\<lambda>r. rwarn (Some (span_one (pos_lc (rd_pos r)))) (plain_body ''expected utc-date-time (missing `Z` here)'')
         (rret \<lparr>dt_date = d, dt_time = t, dt_form = UtcForm\<rparr>) r))"

definition dt_utc_type :: "utc_form date_time ics_type" where
  "dt_utc_type = plain_type ''DateTime<UtcForm>'' dt_utc_read"

definition dt_ul_read :: "utc_or_local date_time rd" where
  "dt_ul_read = rbind date_t_time (\<lambda>(d, t).
     rcase (reader_try_eat 90) (\<lambda>_. rret \<lparr>dt_date = d, dt_time = t, dt_form = UlUtc\<rparr>)
       (rret \<lparr>dt_date = d, dt_time = t, dt_form = UlLocal\<rparr>))"

definition dt_ul_type :: "utc_or_local date_time ics_type" where
  "dt_ul_type = plain_type ''DateTime<UtcOrLocalForm>'' dt_ul_read"

definition dt_ul_write :: "utc_or_local date_time \<Rightarrow> ics_writer \<Rightarrow> ics_writer" where
  "dt_ul_write d w =
    (let w1 = time_write (dt_time d) (write_raw [84] (date_write (dt_date d) w))
     in if dt_form d = UlUtc then write_raw [90] w1 else w1)"

definition dt_utc_write :: "utc_form date_time \<Rightarrow> ics_writer \<Rightarrow> ics_writer" where
  "dt_utc_write d = dt_ul_write \<lparr>dt_date = dt_date d, dt_time = dt_time d, dt_form = UlUtc\<rparr>"

text \<open>The property form, with its time zone.\<close>

definition dt_any_offer :: "read_entry \<Rightarrow> tz_id option \<Rightarrow> ics_reader \<Rightarrow> (tz_id option \<times> ics_reader) option" where
  "dt_any_offer entry tz r = offer_to (\<lambda>v. v) (try_param tz_id_type entry ''TZID'' tz r) None"

definition dt_any_read :: "any_form date_time rd" where
  "dt_any_read = rbind (read_entries KProperty is_value dt_any_offer None) (\<lambda>tz.
     rbind date_t_time (\<lambda>(d, t).
     rcase (reader_try_eat 90) (\<lambda>_. rret \<lparr>dt_date = d, dt_time = t, dt_form = FormUtc\<rparr>)
       (rret \<lparr>dt_date = d, dt_time = t,
              dt_form = (case tz of Some z \<Rightarrow> FormTz z | None \<Rightarrow> FormLocal)\<rparr>)))"

definition dt_any_type :: "any_form date_time ics_type" where
  "dt_any_type = plain_type ''DateTime'' dt_any_read"

definition dt_any_write :: "any_form date_time \<Rightarrow> ics_writer \<Rightarrow> ics_writer" where
  "dt_any_write d w =
    (let w1 = (case dt_form d of FormTz z \<Rightarrow> write_param ''TZID'' (tz_id_write z) w | _ \<Rightarrow> w);
         w2 = time_write (dt_time d) (write_raw [84] (date_write (dt_date d) (write_raw [58] w1)))
     in if dt_form d = FormUtc then write_raw [90] w2 else w2)"

datatype dt_value_type = VtDate | VtDateTime

definition value_type_names :: "(string \<times> dt_value_type) list" where
  "value_type_names = [(''DATE'', VtDate), (''DATE-TIME'', VtDateTime)]"

definition dt_value_type_read :: "dt_value_type rd" where
  "dt_value_type_read = rbind (reader_any (spanned_type param_value_type)) (\<lambda>s.
     case match_name value_type_names (pv_value (sp_value s)) of
       Some v \<Rightarrow> rret v
     | None \<Rightarrow> rerror (Some (sp_span s)) (MsgBody ''unknown value `{value}`'' [pv_value (sp_value s)]) rfail)"

definition dt_value_type_type :: "dt_value_type ics_type" where
  "dt_value_type_type = plain_type ''DtValueType'' dt_value_type_read"

definition dt_value_type_write :: "dt_value_type \<Rightarrow> ics_writer \<Rightarrow> ics_writer" where
  "dt_value_type_write v = write_raw (case v of VtDate \<Rightarrow> ascii ''DATE'' | VtDateTime \<Rightarrow> ascii ''DATE-TIME'')"

section \<open>Dates or dates with times\<close>

datatype 'f date_or_dt = DDate ics_date | DDateTime "'f date_time"

definition date_or_dt_ty :: "'f date_or_dt \<Rightarrow> string" where
  "date_or_dt_ty d = (case d of DDate _ \<Rightarrow> ''date'' | DDateTime _ \<Rightarrow> ''date-time'')"

definition date_or_dt_tzid :: "any_form date_or_dt \<Rightarrow> tz_id option" where
  "date_or_dt_tzid d = (case d of DDate _ \<Rightarrow> None
     | DDateTime t \<Rightarrow> (case dt_form t of FormLocal \<Rightarrow> None | FormUtc \<Rightarrow> None | FormTz z \<Rightarrow> Some z))"

record dod_fields =
  dod_tzid :: "tz_id option"
  dod_value :: "dt_value_type option"

definition dod_offer :: "read_entry \<Rightarrow> dod_fields \<Rightarrow> ics_reader \<Rightarrow> (dod_fields \<times> ics_reader) option" where
  "dod_offer entry s r =
    offer_to (\<lambda>v. s\<lparr>dod_tzid := v\<rparr>) (try_param tz_id_type entry ''TZID'' (dod_tzid s) r)
   (offer_to (\<lambda>v. s\<lparr>dod_value := v\<rparr>) (try_param dt_value_type_type entry ''VALUE'' (dod_value s) r) None)"

definition dod_read_date :: "any_form date_or_dt rd" where
  "dod_read_date = rbind (reader_any date_type) (\<lambda>d.
     rcase (reader_spanned (reader_try_string (ascii ''T000000'')))
       (\<lambda>s. rwarn (Some (sp_span s)) (plain_body ''quirky time component'') (rret (DDate d)))
       (rcase (reader_spanned (reader_try_eat 84))
          (\<lambda>s. rerror (Some (sp_span s)) (plain_body ''unexpected time component'')
             (rthen (reader_silently (reader_any time_type)) (rret (DDate d))))
          (rret (DDate d))))"

definition dod_read_dt :: "tz_id option \<Rightarrow> any_form date_or_dt rd" where
  "dod_read_dt tz = (case tz of
     Some z \<Rightarrow> rbind date_t_time (\<lambda>(d, t).
       rcase (reader_spanned (reader_try_eat 90))
         (\<lambda>s. rerror (Some (sp_span s)) (plain_body ''`Z` cannot be specified together with `TZID`'')
            (rret (DDateTime \<lparr>dt_date = d, dt_time = t, dt_form = FormTz z\<rparr>)))
         (rret (DDateTime \<lparr>dt_date = d, dt_time = t, dt_form = FormTz z\<rparr>)))
   | None \<Rightarrow> rbind (reader_any dt_ul_type) (\<lambda>d. rret (DDateTime (dt_map_form any_of_ul d))))"

definition dod_read :: "any_form date_or_dt rd" where
  "dod_read = rbind (read_entries KProperty is_value dod_offer \<lparr>dod_tzid = None, dod_value = None\<rparr>) (\<lambda>s.
     case (case dod_value s of Some v \<Rightarrow> v | None \<Rightarrow> VtDateTime) of
       VtDate \<Rightarrow> dod_read_date
     | VtDateTime \<Rightarrow> dod_read_dt (dod_tzid s))"

definition dod_type :: "any_form date_or_dt ics_type" where
  "dod_type = plain_type ''DateOrDt'' dod_read"

definition dod_write :: "any_form date_or_dt \<Rightarrow> ics_writer \<Rightarrow> ics_writer" where
  "dod_write d w = (case d of
     DDate x \<Rightarrow> date_write x (write_raw [58] (write_param ''VALUE'' (dt_value_type_write VtDate) w))
   | DDateTime x \<Rightarrow> dt_any_write x w)"

text \<open>The value form, of \<open>UNTIL\<close>.\<close>

definition dod_value_read :: "utc_or_local date_or_dt rd" where
  "dod_value_read = rcase (reader_attempt (reader_any dt_ul_type)) (\<lambda>v. rret (DDateTime v))
     (rbind (reader_any date_type) (\<lambda>d. rret (DDate d)))"

definition dod_value_type :: "utc_or_local date_or_dt ics_type" where
  "dod_value_type = plain_type ''DateOrDt<UtcOrLocalForm>'' dod_value_read"

definition dod_value_write :: "utc_or_local date_or_dt \<Rightarrow> ics_writer \<Rightarrow> ics_writer" where
  "dod_value_write d = (case d of DDate x \<Rightarrow> date_write x | DDateTime x \<Rightarrow> dt_ul_write x)"

section \<open>Offsets\<close>

datatype utc_offset = UtcOffset (uo_offset: int)

datatype utc_offset_violation = OutOfRangeHourOffset nat | OutOfRangeMinuteOffset nat | OutOfRangeSecondOffset nat

definition offset_viol_body :: "utc_offset_violation \<Rightarrow> msg_body" where
  "offset_viol_body v = (case v of
     OutOfRangeHourOffset n \<Rightarrow> MsgBody ''hour offset `{0}` is out of range'' [dec_str n]
   | OutOfRangeMinuteOffset n \<Rightarrow> MsgBody ''minute offset `{0}` is out of range'' [dec_str n]
   | OutOfRangeSecondOffset n \<Rightarrow> MsgBody ''second offset `{0}` is out of range'' [dec_str n])"

definition utc_offset_new :: "sign \<Rightarrow> nat \<Rightarrow> nat \<Rightarrow> nat \<Rightarrow> utc_offset_violation + utc_offset" where
  "utc_offset_new s hours minutes seconds =
    (if hours > 23 then Inl (OutOfRangeHourOffset hours)
     else if minutes > 59 then Inl (OutOfRangeMinuteOffset minutes)
     else if seconds > 59 then Inl (OutOfRangeSecondOffset seconds)
     else let offset = int (hours * 60 * 60 + minutes * 60 + seconds)
          in Inr (UtcOffset (case s of Pos \<Rightarrow> offset | Neg \<Rightarrow> - offset)))"

definition utc_offset_sign :: "utc_offset \<Rightarrow> sign" where
  "utc_offset_sign u = (if uo_offset u < 0 then Neg else Pos)"

definition utc_offset_abs :: "utc_offset \<Rightarrow> nat" where
  "utc_offset_abs u = nat \<bar>uo_offset u\<bar>"

definition utc_offset_hours :: "utc_offset \<Rightarrow> nat" where
  "utc_offset_hours u = utc_offset_abs u div (60 * 60)"

definition utc_offset_minutes :: "utc_offset \<Rightarrow> nat" where
  "utc_offset_minutes u = utc_offset_abs u div 60 mod 60"

definition utc_offset_seconds :: "utc_offset \<Rightarrow> nat" where
  "utc_offset_seconds u = utc_offset_abs u mod 60"

definition utc_offset_read :: "utc_offset rd" where
  "utc_offset_read = rbind (reader_spanned
     (rbind (reader_any sign_type) (\<lambda>s.
      rbind (reader_digits 2) (\<lambda>h.
      rbind (reader_digits 2) (\<lambda>m.
      rcase (reader_attempt (reader_digits 2))
        (\<lambda>sec. rret (map_sum offset_viol_body id (utc_offset_new s h m sec)))
        (rret (map_sum offset_viol_body id (utc_offset_new s h m 0))))))))
   spanned_unwrap"

definition utc_offset_type :: "utc_offset ics_type" where
  "utc_offset_type = plain_type ''UtcOffset'' utc_offset_read"

definition utc_offset_write :: "utc_offset \<Rightarrow> ics_writer \<Rightarrow> ics_writer" where
  "utc_offset_write u w =
    (let w1 = write_raw (pad_str 2 (utc_offset_hours u) @ pad_str 2 (utc_offset_minutes u))
                (sign_write (utc_offset_sign u) w)
     in if utc_offset_seconds u > 0 then write_raw (pad_str 2 (utc_offset_seconds u)) w1 else w1)"

section \<open>Durations\<close>

record time_duration =
  td_hours :: nat
  td_minutes :: nat
  td_seconds :: nat

record date_duration =
  dd_days :: nat
  dd_time :: time_duration

datatype duration_amount = ADate date_duration | ATime time_duration | AWeek nat

record ics_duration =
  du_sign :: sign
  du_amount :: duration_amount

definition time_duration_is_zero :: "time_duration \<Rightarrow> bool" where
  "time_duration_is_zero t = (t = \<lparr>td_hours = 0, td_minutes = 0, td_seconds = 0\<rparr>)"

definition date_duration_is_zero :: "date_duration \<Rightarrow> bool" where
  "date_duration_is_zero d = (d = \<lparr>dd_days = 0, dd_time = \<lparr>td_hours = 0, td_minutes = 0, td_seconds = 0\<rparr>\<rparr>)"

definition amount_is_zero :: "duration_amount \<Rightarrow> bool" where
  "amount_is_zero a = (case a of ADate d \<Rightarrow> date_duration_is_zero d | ATime t \<Rightarrow> time_duration_is_zero t
     | AWeek n \<Rightarrow> n = 0)"

definition duration_default :: ics_duration where
  "duration_default = \<lparr>du_sign = Pos,
     du_amount = ADate \<lparr>dd_days = 0, dd_time = \<lparr>td_hours = 0, td_minutes = 0, td_seconds = 0\<rparr>\<rparr>\<rparr>"

text \<open>The loop of \<open>DurationAmount::read\<close>; \<open>None\<close> of a \<open>?\<close> breaks without a value.\<close>

record amount_state =
  as_time :: bool
  as_weeks :: nat
  as_days :: nat
  as_hours :: nat
  as_minutes :: nat
  as_seconds :: nat

definition amount_unit :: "amount_state \<Rightarrow> nat \<Rightarrow> uchar \<Rightarrow> amount_state option" where
  "amount_unit s n c =
    (if \<not> as_time s \<and> (c = 119 \<or> c = 87) then Some (s\<lparr>as_weeks := n\<rparr>)
     else if \<not> as_time s \<and> (c = 100 \<or> c = 68) then Some (s\<lparr>as_days := n\<rparr>)
     else if as_time s \<and> (c = 104 \<or> c = 72) then Some (s\<lparr>as_hours := n\<rparr>)
     else if as_time s \<and> (c = 109 \<or> c = 77) then Some (s\<lparr>as_minutes := n\<rparr>)
     else if as_time s \<and> (c = 115 \<or> c = 83) then Some (s\<lparr>as_seconds := n\<rparr>)
     else None)"

definition amount_part :: "amount_state \<Rightarrow> amount_state rd" where
  "amount_part s = rbind (reader_any u32_type) (\<lambda>n. rbind (reader_any (spanned_type char_type)) (\<lambda>u.
     case amount_unit s n (sp_value u) of
       Some s' \<Rightarrow> rret s'
     | None \<Rightarrow> rerror (Some (sp_span u)) (MsgBody ''unknown duration unit `{}`'' [[sp_value u]]) (rret s)))"

definition amount_round :: "(amount_state, amount_state) body" where
  "amount_round s r =
    (if reader_peek r \<in> {Some 10, Some 44, None} then (Break (Some s), r)
     else let (t, r1) = reader_try_eat 84 r;
              s1 = (if t \<noteq> None then s\<lparr>as_time := True\<rparr> else s)
          in case amount_part s1 r1 of
               (None, r2) \<Rightarrow> (Break None, r2)
             | (Some s2, r2) \<Rightarrow> (Continue s2, r2))"

definition week_conflicts :: "amount_state \<Rightarrow> ics_reader \<Rightarrow> ics_reader" where
  "week_conflicts s r = fold (\<lambda>(unit, amount) r'.
       if amount > 0 then reader_error None
         (MsgBody ''duration unit `{unit}` is not supported together with `W`'' [[unit]]) r' else r')
     [(68, as_days s), (72, as_hours s), (77, as_minutes s), (83, as_seconds s)] r"

definition amount_result :: "amount_state \<Rightarrow> duration_amount rd" where
  "amount_result s r =
    (if as_weeks s > 0 then (Some (AWeek (as_weeks s)), week_conflicts s r)
     else let t = \<lparr>td_hours = as_hours s, td_minutes = as_minutes s, td_seconds = as_seconds s\<rparr>
          in if as_days s > 0 then (Some (ADate \<lparr>dd_days = as_days s, dd_time = t\<rparr>), r)
             else (Some (ATime t), r))"

definition amount_start :: amount_state where
  "amount_start = \<lparr>as_time = False, as_weeks = 0, as_days = 0, as_hours = 0, as_minutes = 0, as_seconds = 0\<rparr>"

definition amount_read :: "duration_amount rd" where
  "amount_read = rbind (reader_eat 80) (\<lambda>_. rbind (rloop amount_round amount_start) amount_result)"

definition amount_type :: "duration_amount ics_type" where
  "amount_type = plain_type ''DurationAmount'' amount_read"

definition duration_read :: "ics_duration rd" where
  "duration_read = rbind (reader_any sign_type) (\<lambda>s. rbind (reader_any amount_type) (\<lambda>a.
     rret \<lparr>du_sign = s, du_amount = a\<rparr>))"

definition duration_type :: "ics_duration ics_type" where
  "duration_type = plain_type ''Duration'' duration_read"

definition duration_read_prop :: "ics_duration rd" where
  "duration_read_prop = rbind burn_params (\<lambda>_. reader_any duration_type)"

definition duration_prop_type :: "ics_duration ics_type" where
  "duration_prop_type = plain_type ''Duration'' duration_read_prop"

definition write_unit :: "nat \<Rightarrow> uchar \<Rightarrow> ics_writer \<Rightarrow> ics_writer" where
  "write_unit n c w = (if n > 0 then write_raw [c] (write_uint n w) else w)"

definition time_duration_write :: "time_duration \<Rightarrow> ics_writer \<Rightarrow> ics_writer" where
  "time_duration_write t w = write_unit (td_seconds t) 83 (write_unit (td_minutes t) 77
     (write_unit (td_hours t) 72 (write_raw [84] w)))"

definition date_duration_write :: "date_duration \<Rightarrow> ics_writer \<Rightarrow> ics_writer" where
  "date_duration_write d w =
    (let w1 = write_unit (dd_days d) 68 w
     in if time_duration_is_zero (dd_time d) then w1 else time_duration_write (dd_time d) w1)"

definition amount_write :: "duration_amount \<Rightarrow> ics_writer \<Rightarrow> ics_writer" where
  "amount_write a w = (let w1 = write_raw [80] w in case a of
     ADate d \<Rightarrow> date_duration_write d w1 | ATime t \<Rightarrow> time_duration_write t w1 | AWeek n \<Rightarrow> write_unit n 87 w1)"

definition duration_write :: "ics_duration \<Rightarrow> ics_writer \<Rightarrow> ics_writer" where
  "duration_write d w =
    (if amount_is_zero (du_amount d) then write_raw (ascii ''P0D'') w
     else amount_write (du_amount d) (case du_sign d of Pos \<Rightarrow> w | Neg \<Rightarrow> write_raw [45] w))"

definition duration_write_prop :: "ics_duration \<Rightarrow> ics_writer \<Rightarrow> ics_writer" where
  "duration_write_prop d w = duration_write d (write_raw [58] w)"

end
