(* ===== verification/Ics_Value_Codecs.thy ===== *)
theory Ics_Value_Codecs
  imports Ics_Values
begin

text \<open>
  The contract of \<open>Ics_Codec\<close> for the values of \<open>Ics_Values\<close>: numbers with and without a sign,
  weekdays, times, dates, dates with times, offsets, durations and time zones.
\<close>

section \<open>Composing contracts\<close>

lemma parses_spanned_u32:
  assumes "env_ok e" and "n < 2 ^ 32" and "no_digit cs" and "new n = Inr x"
  shows "parses e h (unit_read new) (dec_str n @ cs) (Some x) cs"
  unfolding unit_read_def
  by (rule parses_rbind_any_spanned [OF parses_u32 [OF assms(1-3)]])
    (simp add: spanned_map_def assms(4) parses_unwrap)

lemma digits_clean: "list_all is_digit_char s \<Longrightarrow> clean_text s"
  by (auto simp: clean_text_def list_all_iff is_digit_char_def scalar_def)

lemma dec_str_clean [simp]: "clean_text (dec_str n)"
  by (rule digits_clean [OF dec_str_digits])

lemma pad_str_clean [simp]: "clean_text (pad_str w n)"
  by (rule digits_clean [OF pad_str_digits])

text \<open>A value whose text starts with a digit can take a sign.\<close>

locale ics_num_codec = ics_codec +
  assumes starts_digit: "ok e x \<Longrightarrow> tx x \<noteq> [] \<and> is_digit_char (hd (tx x))"
begin

definition signed_text :: "'a signed \<Rightarrow> ustring" where
  "signed_text s = (case sg_sign s of Neg \<Rightarrow> [45] | Pos \<Rightarrow> []) @ tx (sg_value s)"

end

lemma parses_sign_pos:
  assumes "env_ok e" and "s \<noteq> []" and "is_digit_char (hd s)"
  shows "parses e h (reader_any sign_type) (s @ cs) (Some Pos) (s @ cs)"
proof -
  have no: "parses e h (reader_try_eat d) (s @ cs) None (s @ cs)" if "d = 45 \<or> d = 43" for d
    by (rule parses_not_next [OF assms(1)]) (use assms(2,3) that digit_not_sign in \<open>cases s; auto\<close>)
  have "parses e h sign_read (s @ cs) (Some Pos) (s @ cs)"
    unfolding sign_read_def
    by (rule parses_rcase_none [OF no parses_rthen [OF no parses_rret]]) simp_all
  then show ?thesis by (intro parses_any) (simp add: sign_type_def plain_type_def)
qed

lemma parses_sign_neg:
  assumes "env_ok e"
  shows "parses e h (reader_any sign_type) (45 # cs) (Some Neg) cs"
proof -
  have "parses e h sign_read (45 # cs) (Some Neg) cs"
    unfolding sign_read_def by (rule parses_rcase_some [OF parses_try_eat [OF assms refl] parses_rret])
  then show ?thesis by (intro parses_any) (simp add: sign_type_def plain_type_def)
qed

lemma parses_sign_plus:
  assumes "env_ok e"
  shows "parses e h (reader_any sign_type) (43 # cs) (Some Pos) cs"
proof -
  have no: "parses e h (reader_try_eat 45) (43 # cs) None (43 # cs)"
    by (rule parses_not_next [OF assms]) (simp add: ascii_lower_low)
  have "parses e h sign_read (43 # cs) (Some Pos) cs"
    unfolding sign_read_def
    by (rule parses_rcase_none [OF no parses_rthen [OF parses_try_eat [OF assms refl] parses_rret]])
  then show ?thesis by (intro parses_any) (simp add: sign_type_def plain_type_def)
qed

lemma shrinks_sign [progress_intros]: "shrinks (ty_read sign_type)"
  by (simp add: sign_type_def plain_type_def sign_read_def) (intro progress_intros)

context ics_num_codec
begin

lemma signed_codec:
  "ics_codec (signed_type T) signed_text (\<lambda>e s. ok e (sg_value s)) stop (signed_write wr)"
proof
  fix e x w assume "ok e (sg_value x)"
  then show "signed_write wr x w = write_raw (signed_text x) w"
    by (simp add: signed_write_def signed_text_def writes sign_write_def split: sign.splits)
next
  show "shrinks (ty_read (signed_type T))"
    by (simp add: signed_type_def plain_type_def signed_read_def) (intro progress_intros moves)
next
  fix e x h cs assume e: "env_ok e" and x: "ok e (sg_value x)" and "stop e h cs"
  then have v: "parses e h (rbind (reader_any T) (\<lambda>v. rret (Signed s v))) (tx (sg_value x) @ cs)
      (Some (Signed s (sg_value x))) cs" for s
    by (intro parses_rbind [OF reads_any parses_rret])
  have "parses e h (signed_read T) (signed_text x @ cs) (Some (Signed (sg_sign x) (sg_value x))) cs"
  proof (cases "sg_sign x")
    case Neg
    then show ?thesis unfolding signed_read_def signed_text_def
      by (simp, intro parses_rbind [OF parses_sign_neg [OF e] v])
  next
    case Pos
    then show ?thesis unfolding signed_read_def signed_text_def
      using starts_digit [OF x] by (simp, intro parses_rbind [OF parses_sign_pos [OF e] v]) auto
  qed
  then show "parses e h (ty_read (signed_type T)) (signed_text x @ cs) (Some x) cs"
    by (simp add: signed_type_def plain_type_def)
next
  fix e x assume "ok e (sg_value x)"
  then show "clean_text (signed_text x)"
    by (auto simp: signed_text_def clean scalar_def split: sign.splits)
qed

end

text \<open>A list of values is written and read when it is not empty.\<close>

context ics_codec
begin

lemma vec_codec:
  assumes "\<And>e h cs. vstop e h cs \<Longrightarrow> stop e (h\<lparr>inside_array := True\<rparr>) cs \<and> peeked cs \<noteq> Some 44"
    and "\<And>e h c. env_ok e \<Longrightarrow> stop e (h\<lparr>inside_array := True\<rparr>) (44 # c)"
  shows "ics_codec (vec_type T) (vec_text tx) (\<lambda>e xs. xs \<noteq> [] \<and> list_all (ok e) xs) vstop (write_vec wr)"
proof
  fix e xs w assume "xs \<noteq> [] \<and> list_all (ok e) xs"
  then show "write_vec wr xs w = write_raw (vec_text tx xs) w" using writes_vec by blast
next
  show "shrinks (ty_read (vec_type T))" by (intro progress_intros moves)
next
  fix e xs h cs assume "env_ok e" and "xs \<noteq> [] \<and> list_all (ok e) xs" and "vstop e h cs"
  then show "parses e h (ty_read (vec_type T)) (vec_text tx xs @ cs) (Some xs) cs"
    using assms by (intro reads_vec) auto
next
  fix e xs assume "xs \<noteq> [] \<and> list_all (ok e) xs"
  then show "clean_text (vec_text tx xs)" using clean_vec by blast
qed

end

section \<open>Numbers\<close>

lemma unit_codec:
  "ics_num_codec (plain_type nm (unit_read new)) (\<lambda>x. dec_str (num x))
     (\<lambda>e x. new (num x) = Inr x \<and> num x < 2 ^ 32) (\<lambda>e h cs. no_digit cs) (\<lambda>x. write_uint (num x))"
proof
  fix e :: ics_env and x w assume "new (num x) = Inr x \<and> num x < 2 ^ 32"
  then show "write_uint (num x) w = write_raw (dec_str (num x)) w" by (simp add: write_uint_def)
next
  show "shrinks (ty_read (plain_type nm (unit_read new)))"
    by (simp add: plain_type_def unit_read_def) (intro progress_intros)
next
  fix e :: ics_env and x h cs assume "env_ok e" and "new (num x) = Inr x \<and> num x < 2 ^ 32" and "no_digit cs"
  then show "parses e h (ty_read (plain_type nm (unit_read new))) (dec_str (num x) @ cs) (Some x) cs"
    by (simp add: plain_type_def parses_spanned_u32)
qed (use hd_dec_str in auto)

interpretation month_c: ics_num_codec month_type "\<lambda>x. dec_str (month_num x)"
    "\<lambda>e x. month_new (month_num x) = Inr x \<and> month_num x < 2 ^ 32" "\<lambda>e h cs. no_digit cs"
    "\<lambda>x. write_uint (month_num x)"
  unfolding month_type_def by (rule unit_codec)

interpretation day_c: ics_num_codec day_type "\<lambda>x. dec_str (day_num x)"
    "\<lambda>e x. day_new (day_num x) = Inr x \<and> day_num x < 2 ^ 32" "\<lambda>e h cs. no_digit cs"
    "\<lambda>x. write_uint (day_num x)"
  unfolding day_type_def by (rule unit_codec)

interpretation hour_c: ics_num_codec hour_type "\<lambda>x. dec_str (hour_num x)"
    "\<lambda>e x. hour_new (hour_num x) = Inr x \<and> hour_num x < 2 ^ 32" "\<lambda>e h cs. no_digit cs"
    "\<lambda>x. write_uint (hour_num x)"
  unfolding hour_type_def by (rule unit_codec)

interpretation minute_c: ics_num_codec minute_type "\<lambda>x. dec_str (minute_num x)"
    "\<lambda>e x. minute_new (minute_num x) = Inr x \<and> minute_num x < 2 ^ 32" "\<lambda>e h cs. no_digit cs"
    "\<lambda>x. write_uint (minute_num x)"
  unfolding minute_type_def by (rule unit_codec)

interpretation second_c: ics_num_codec second_type "\<lambda>x. dec_str (second_num x)"
    "\<lambda>e x. second_new (second_num x) = Inr x \<and> second_num x < 2 ^ 32" "\<lambda>e h cs. no_digit cs"
    "\<lambda>x. write_uint (second_num x)"
  unfolding second_type_def by (rule unit_codec)

interpretation day_ordinal_c: ics_num_codec day_ordinal_type "\<lambda>x. dec_str (day_ordinal_num x)"
    "\<lambda>e x. day_ordinal_new (day_ordinal_num x) = Inr x \<and> day_ordinal_num x < 2 ^ 32" "\<lambda>e h cs. no_digit cs"
    "\<lambda>x. write_uint (day_ordinal_num x)"
  unfolding day_ordinal_type_def by (rule unit_codec)

interpretation week_ordinal_c: ics_num_codec week_ordinal_type "\<lambda>x. dec_str (week_ordinal_num x)"
    "\<lambda>e x. week_ordinal_new (week_ordinal_num x) = Inr x \<and> week_ordinal_num x < 2 ^ 32" "\<lambda>e h cs. no_digit cs"
    "\<lambda>x. write_uint (week_ordinal_num x)"
  unfolding week_ordinal_type_def by (rule unit_codec)

interpretation u32_c: ics_num_codec u32_type dec_str "\<lambda>e n. n < 2 ^ 32" "\<lambda>e h cs. no_digit cs" write_uint
proof
  fix e :: ics_env and x w assume "x < (2 :: nat) ^ 32"
  then show "write_uint x w = write_raw (dec_str x) w" by (simp add: write_uint_def)
qed (use hd_dec_str parses_u32 shrinks_types(2) in auto)

section \<open>Weekdays\<close>

lemma weekday_name: "is_name (ascii (weekday_str d))" "match_name weekday_names (ascii (weekday_str d)) = Some d"
  by (cases d; simp add: weekday_str_def weekday_names_def eq_ignore_case_def ascii_def ascii_lower_def is_name_def letter_def)+

lemma name_clean: "is_name s \<Longrightarrow> clean_text s"
  by (auto simp: is_name_def clean_text_def list_all_iff letter_def scalar_def)

interpretation weekday_c: ics_codec weekday_type "\<lambda>d. ascii (weekday_str d)" "\<lambda>e d. True"
    "\<lambda>e h cs. no_ident e cs" weekday_write
proof
  show "shrinks (ty_read weekday_type)"
    by (simp add: weekday_type_def plain_type_def weekday_read_def) (intro progress_intros)
next
  fix e d h cs assume "env_ok e" and "no_ident e cs"
  then have "parses e h reader_ident (ascii (weekday_str d) @ cs) (Some (ascii (weekday_str d))) cs"
    by (intro parses_name weekday_name(1))
  then have "parses e h weekday_read (ascii (weekday_str d) @ cs) (Some d) cs"
    unfolding weekday_read_def by (rule parses_rbind_spanned) (simp add: weekday_name(2) parses_rret)
  then show "parses e h (ty_read weekday_type) (ascii (weekday_str d) @ cs) (Some d) cs"
    by (simp add: weekday_type_def plain_type_def)
qed (simp_all add: weekday_write_def name_clean weekday_name)

section \<open>Times and dates\<close>

definition time_ok :: "ics_time \<Rightarrow> bool" where
  "time_ok t = (hour_num (t_hour t) \<le> 23 \<and> minute_num (t_minute t) \<le> 59 \<and> second_num (t_second t) \<le> 60)"

definition time_text :: "ics_time \<Rightarrow> ustring" where
  "time_text t = pad_str 2 (hour_num (t_hour t)) @ pad_str 2 (minute_num (t_minute t)) @ pad_str 2 (second_num (t_second t))"

lemma parses_unit_check:
  assumes "new n = Inr x"
  shows "parses e h (unit_check new (Spanned sp n)) cs (Some x) cs"
  by (simp add: unit_check_def spanned_map_def assms parses_unwrap)

lemma parses_two_digits:
  assumes "env_ok e" and "n < 100"
  shows "parses e h (reader_digits 2) (pad_str 2 n @ cs) (Some n) cs"
  using assms by (intro parses_pad) auto

lemma shrinks_unit_check [progress_intros]: "shrinks (unit_check new s)"
  unfolding unit_check_def by (intro progress_intros)

interpretation time_c: ics_codec time_type time_text "\<lambda>e t. time_ok t" "\<lambda>e h cs. True" time_write
proof
  show "shrinks (ty_read time_type)"
    by (simp add: time_type_def plain_type_def time_read_def) (intro progress_intros)
next
  fix e t h cs assume e: "env_ok e" and t: "time_ok t"
  have u: "hour_new (hour_num (t_hour t)) = Inr (t_hour t)" "minute_new (minute_num (t_minute t)) = Inr (t_minute t)"
      "second_new (second_num (t_second t)) = Inr (t_second t)"
    using t by (auto simp: time_ok_def hour_new_def minute_new_def second_new_def)
  have "parses e h time_read (time_text t @ cs)
      (Some \<lparr>t_hour = t_hour t, t_minute = t_minute t, t_second = t_second t\<rparr>) cs"
    unfolding time_read_def time_text_def append_assoc
    by (rule parses_rbind_spanned [OF parses_two_digits [OF e]], use t in \<open>simp add: time_ok_def\<close>,
        rule parses_rbind_spanned [OF parses_two_digits [OF e]], use t in \<open>simp add: time_ok_def\<close>,
        rule parses_rbind_spanned [OF parses_two_digits [OF e]], use t in \<open>simp add: time_ok_def\<close>,
        rule parses_rbind [OF parses_unit_check [where new = hour_new, OF u(1)]],
        rule parses_rbind [OF parses_unit_check [where new = minute_new, OF u(2)]],
        rule parses_rbind [OF parses_unit_check [where new = second_new, OF u(3)]], rule parses_rret)
  then show "parses e h (ty_read time_type) (time_text t @ cs) (Some t) cs"
    by (cases t) (simp add: time_type_def plain_type_def)
qed (simp_all add: time_write_def time_text_def)

definition date_ok :: "ics_env \<Rightarrow> ics_date \<Rightarrow> bool" where
  "date_ok e d = (year_num (d_year d) \<le> 9999 \<and> 1 \<le> month_num (d_month d) \<and> month_num (d_month d) \<le> 12
     \<and> 1 \<le> day_num (d_day d) \<and> day_num (d_day d) \<le> 31
     \<and> env_date e (year_num (d_year d)) (month_num (d_month d)) (day_num (d_day d)))"

definition date_text :: "ics_date \<Rightarrow> ustring" where
  "date_text d = pad_str 4 (year_num (d_year d)) @ pad_str 2 (month_num (d_month d)) @ pad_str 2 (day_num (d_day d))"

lemma parses_date_parts:
  assumes e: "env_ok e" and d: "date_ok e d"
  shows "parses e h date_parts (date_text d @ cs) (Some (Inr d)) cs"
proof -
  have u: "year_new (year_num (d_year d)) = Inr (d_year d)" "month_new (month_num (d_month d)) = Inr (d_month d)"
      "day_new (day_num (d_day d)) = Inr (d_day d)"
    using d by (auto simp: date_ok_def year_new_def month_new_def day_new_def)
  have y: "parses e h (reader_digits 4) (pad_str 4 (year_num (d_year d)) @ rest) (Some (year_num (d_year d))) rest" for rest
    by (rule parses_pad [OF e]) (use d in \<open>auto simp: date_ok_def\<close>)
  have new: "parses e h (\<lambda>r. (Some (map_sum dt_viol_body id (date_new (rd_env r) (d_year d) (d_month d) (d_day d))), r))
      cs (Some (Inr d)) cs"
    by (rule parses_stay) (use d in \<open>auto simp: date_ok_def date_new_def\<close>)
  show ?thesis
    unfolding date_parts_def date_text_def append_assoc
    by (rule parses_rbind_spanned [OF y],
        rule parses_rbind_spanned [OF parses_two_digits [OF e]], use d in \<open>simp add: date_ok_def\<close>,
        rule parses_rbind_spanned [OF parses_two_digits [OF e]], use d in \<open>simp add: date_ok_def\<close>,
        rule parses_rbind [OF parses_unit_check [where new = year_new, OF u(1)]],
        rule parses_rbind [OF parses_unit_check [where new = month_new, OF u(2)]],
        rule parses_rbind [OF parses_unit_check [where new = day_new, OF u(3)]], rule new)
qed

lemma shrinks_date [progress_intros]: "shrinks (ty_read date_type)"
proof -
  have "shrinks (\<lambda>r. (Some (map_sum dt_viol_body id (date_new (rd_env r) y m d)), r))" for y m d
    by (simp add: shrinks_def)
  then show ?thesis
    by (simp add: date_type_def plain_type_def date_read_def date_parts_def) (intro progress_intros)
qed

interpretation date_c: ics_codec date_type date_text date_ok "\<lambda>e h cs. True" date_write
proof
  fix e d h cs assume "env_ok e" "date_ok e d"
  then have "parses e h date_read (date_text d @ cs) (Some d) cs"
    unfolding date_read_def by (intro parses_rbind_spanned [OF parses_date_parts] parses_unwrap)
  then show "parses e h (ty_read date_type) (date_text d @ cs) (Some d) cs"
    by (simp add: date_type_def plain_type_def)
qed (simp_all add: date_write_def date_text_def shrinks_date)

section \<open>Dates with times\<close>

definition dt_ok :: "ics_env \<Rightarrow> 'f date_time \<Rightarrow> bool" where
  "dt_ok e d = (date_ok e (dt_date d) \<and> time_ok (dt_time d))"

definition dt_text :: "'f date_time \<Rightarrow> ustring" where
  "dt_text d = date_text (dt_date d) @ 84 # time_text (dt_time d)"

lemma parses_date_t_time:
  assumes "env_ok e" and "dt_ok e d"
  shows "parses e h date_t_time (dt_text d @ cs) (Some (dt_date d, dt_time d)) cs"
  unfolding date_t_time_def dt_text_def
  by (simp, rule parses_rbind [OF date_c.reads_any [OF assms(1)]], use assms(2) in \<open>simp_all add: dt_ok_def\<close>,
      rule parses_rbind [OF parses_eat [OF assms(1) refl]],
      rule parses_rbind [OF time_c.reads_any [OF assms(1)] parses_rret], simp_all)

lemma shrinks_date_t_time [progress_intros]: "shrinks date_t_time"
  unfolding date_t_time_def by (intro progress_intros time_c.moves)

lemma dt_text_clean [simp]: "clean_text (dt_text d)"
  by (simp add: dt_text_def date_text_def time_text_def scalar_def)

lemma case_prod_shrinks [progress_intros]: "(\<And>a b. shrinks (f a b)) \<Longrightarrow> shrinks (case x of (a, b) \<Rightarrow> f a b)"
  by (cases x) simp

definition ul_text :: "utc_or_local date_time \<Rightarrow> ustring" where
  "ul_text d = dt_text d @ (if dt_form d = UlUtc then [90] else [])"

lemma parses_dt_ul:
  assumes "env_ok e" and "dt_ok e d" and "dt_form d = UlUtc \<or> not_next 90 cs"
  shows "parses e h (ty_read dt_ul_type) (ul_text d @ cs) (Some d) cs"
proof -
  have "parses e h dt_ul_read (ul_text d @ cs)
      (Some \<lparr>dt_date = dt_date d, dt_time = dt_time d, dt_form = dt_form d\<rparr>) cs"
  proof (cases "dt_form d")
    case UlLocal
    then show ?thesis unfolding dt_ul_read_def ul_text_def using assms(3)
      by (simp, intro parses_rbind [OF parses_date_t_time [OF assms(1,2)]])
        (simp add: parses_rcase_none [OF parses_not_next [OF assms(1)] parses_rret])
  next
    case UlUtc
    then show ?thesis unfolding dt_ul_read_def ul_text_def
      by (simp, intro parses_rbind [OF parses_date_t_time [OF assms(1,2)]])
        (simp, rule parses_rcase_some [OF parses_try_eat [OF assms(1) refl] parses_rret])
  qed
  then show ?thesis by (cases d) (simp add: dt_ul_type_def plain_type_def)
qed

lemma write_date_time:
  "time_write (dt_time d) (write_raw [84] (date_write (dt_date d) w)) = write_raw (dt_text d) w"
  by (simp add: dt_text_def date_text_def time_text_def time_write_def date_write_def write_raw_Cons)

interpretation dt_ul_c: ics_codec dt_ul_type ul_text dt_ok "\<lambda>e h cs. not_next 90 cs" dt_ul_write
proof
  show "shrinks (ty_read dt_ul_type)"
    by (simp add: dt_ul_type_def plain_type_def dt_ul_read_def) (intro progress_intros)
next
  fix e h cs and d :: "utc_or_local date_time" assume "env_ok e" "dt_ok e d" "not_next 90 cs"
  then show "parses e h (ty_read dt_ul_type) (ul_text d @ cs) (Some d) cs" by (intro parses_dt_ul) auto
qed (simp_all add: dt_ul_write_def write_date_time ul_text_def scalar_def)

definition utc_text :: "utc_form date_time \<Rightarrow> ustring" where
  "utc_text d = dt_text d @ [90]"

interpretation dt_utc_c: ics_codec dt_utc_type utc_text dt_ok "\<lambda>e h cs. True" dt_utc_write
proof
  have "shrinks (\<lambda>r. rwarn (a r) (b r) (rret x) r)" for a b and x :: "utc_form date_time"
    by (simp add: shrinks_def rwarn_def rret_def)
  then show "shrinks (ty_read dt_utc_type)"
    by (simp add: dt_utc_type_def plain_type_def dt_utc_read_def) (intro progress_intros)
next
  fix e h cs and d :: "utc_form date_time" assume e: "env_ok e" and d: "dt_ok e d"
  have "parses e h dt_utc_read (dt_text d @ 90 # cs)
      (Some \<lparr>dt_date = dt_date d, dt_time = dt_time d, dt_form = UtcForm\<rparr>) cs"
    unfolding dt_utc_read_def
    by (rule parses_rbind [OF parses_date_t_time [OF e d]], simp,
        rule parses_rcase_some [OF parses_try_eat [OF e refl] parses_rret])
  moreover have "dt_form d = UtcForm" by (cases "dt_form d")
  ultimately show "parses e h (ty_read dt_utc_type) (utc_text d @ cs) (Some d) cs"
    by (cases d) (simp add: dt_utc_type_def plain_type_def utc_text_def)
next
  fix e w and d :: "utc_form date_time" assume "dt_ok e d"
  show "dt_utc_write d w = write_raw (utc_text d) w"
    by (simp add: dt_utc_write_def dt_ul_write_def write_date_time utc_text_def)
qed (simp_all add: utc_text_def scalar_def)

section \<open>Time zones and kinds of values as parameters\<close>

text \<open>A name of a time zone that is written as it is read: it has no character that would need
  quotes or that ends a parameter.\<close>

definition plain_char :: "uchar \<Rightarrow> bool" where
  "plain_char c = (scalar c \<and> \<not> is_control_char c \<and> c \<noteq> 34 \<and> c \<noteq> 92 \<and> \<not> needs_quote c)"

definition tz_ok :: "tz_id \<Rightarrow> bool" where
  "tz_ok z = list_all plain_char (tz_value z)"

lemma plain_param:
  assumes "list_all plain_char s"
  shows "param_value_ok \<lparr>pv_value = s, pv_quote = False\<rparr>" and "param_text \<lparr>pv_value = s, pv_quote = False\<rparr> = s"
    and "clean_text s"
proof -
  show "param_value_ok \<lparr>pv_value = s, pv_quote = False\<rparr>"
    using assms by (simp add: param_value_ok_def list_all_iff list_ex_iff plain_char_def)
  show "param_text \<lparr>pv_value = s, pv_quote = False\<rparr> = s" by (simp add: param_text_def)
  have "plain_char c \<Longrightarrow> scalar c \<and> c \<noteq> 10 \<and> c \<noteq> 13" for c by (auto simp: plain_char_def is_control_char_def)
  then show "clean_text s" using assms by (simp add: clean_text_def list_all_iff)
qed

lemma parses_plain_param:
  assumes "env_ok e" and "list_all plain_char s"
    and "param_stop h cs"
  shows "parses e h (ty_read param_value_type) (s @ cs) (Some \<lparr>pv_value = s, pv_quote = False\<rparr>) cs"
  using parses_param_value [OF assms(1) plain_param(1) [OF assms(2)], of h cs] assms(3) plain_param(2) [OF assms(2)] by simp

interpretation tz_id_c: ics_codec tz_id_type tz_value "\<lambda>e z. tz_ok z" "\<lambda>e h cs. param_stop h cs" tz_id_write
proof
  show "shrinks (ty_read tz_id_type)"
    by (simp add: tz_id_type_def plain_type_def tz_id_read_def) (intro progress_intros)
next
  fix e z h cs assume "env_ok e" and "tz_ok z" and "param_stop h cs"
  then have p: "parses e h (ty_read param_value_type) (tz_value z @ cs) (Some \<lparr>pv_value = tz_value z, pv_quote = False\<rparr>) cs"
    by (intro parses_plain_param) (simp_all add: tz_ok_def)
  have "parses e h tz_id_read (tz_value z @ cs) (Some (TzId (tz_value z))) cs"
    unfolding tz_id_read_def by (rule parses_rbind [OF parses_any [OF p]]) (simp add: parses_rret)
  then show "parses e h (ty_read tz_id_type) (tz_value z @ cs) (Some z) cs"
    by (simp add: tz_id_type_def plain_type_def)
qed (simp_all add: tz_id_write_def tz_ok_def plain_param(3))

text \<open>Names that stand for the values of a parameter.\<close>

lemma name_plain:
  "is_name s \<Longrightarrow> list_all plain_char s"
  by (auto simp: is_name_def list_all_iff letter_def scalar_def is_control_char_def plain_char_def needs_quote_def)

lemma parses_param_name:
  assumes "env_ok e" and "is_name s" and "param_stop h cs"
    and "\<And>sp. parses e h (f (Spanned sp \<lparr>pv_value = s, pv_quote = False\<rparr>)) cs v cs'"
  shows "parses e h (rbind (reader_any (spanned_type param_value_type)) f) (s @ cs) v cs'"
  by (rule parses_rbind_any_spanned [OF parses_plain_param [OF assms(1) name_plain [OF assms(2)] assms(3)]])
    (rule assms(4))

definition value_type_text :: "dt_value_type \<Rightarrow> ustring" where
  "value_type_text v = (case v of VtDate \<Rightarrow> ascii ''DATE'' | VtDateTime \<Rightarrow> ascii ''DATE-TIME'')"

interpretation value_type_c: ics_codec dt_value_type_type value_type_text "\<lambda>e v. True" "\<lambda>e h cs. param_stop h cs"
    dt_value_type_write
proof
  show "shrinks (ty_read dt_value_type_type)"
    by (simp add: dt_value_type_type_def plain_type_def dt_value_type_read_def) (intro progress_intros)
next
  fix e h cs v assume e: "env_ok e" and stop: "param_stop h cs"
  have n: "is_name (value_type_text v)"
      "match_name value_type_names (value_type_text v) = Some v"
    by (cases v; simp add: value_type_text_def value_type_names_def is_name_def ascii_def letter_def eq_ignore_case_def ascii_lower_def)+
  have "parses e h dt_value_type_read (value_type_text v @ cs) (Some v) cs"
    unfolding dt_value_type_read_def
    by (rule parses_param_name [OF e n(1) stop]) (simp add: n(2) parses_rret)
  then show "parses e h (ty_read dt_value_type_type) (value_type_text v @ cs) (Some v) cs"
    by (simp add: dt_value_type_type_def plain_type_def)
next
  fix v show "clean_text (value_type_text v)"
    by (cases v) (simp_all add: value_type_text_def ascii_def scalar_def)
qed (simp add: dt_value_type_write_def value_type_text_def)

section \<open>Offsets\<close>

definition offset_ok :: "utc_offset \<Rightarrow> bool" where
  "offset_ok u = (\<bar>uo_offset u\<bar> < 86400)"

definition offset_text :: "utc_offset \<Rightarrow> ustring" where
  "offset_text u = (if uo_offset u < 0 then 45 else 43) # pad_str 2 (utc_offset_hours u) @ pad_str 2 (utc_offset_minutes u)
     @ (if utc_offset_seconds u > 0 then pad_str 2 (utc_offset_seconds u) else [])"

lemma offset_parts:
  assumes "offset_ok u"
  shows "utc_offset_hours u \<le> 23" "utc_offset_minutes u \<le> 59" "utc_offset_seconds u \<le> 59"
    "utc_offset_hours u * 60 * 60 + utc_offset_minutes u * 60 + utc_offset_seconds u = utc_offset_abs u"
proof -
  have a: "utc_offset_abs u < 86400" using assms by (auto simp: offset_ok_def utc_offset_abs_def)
  then show "utc_offset_hours u \<le> 23" by (simp add: utc_offset_hours_def)
  show "utc_offset_minutes u \<le> 59" "utc_offset_seconds u \<le> 59"
    by (simp_all add: utc_offset_minutes_def utc_offset_seconds_def)
  have "utc_offset_abs u div (60 * 60) = utc_offset_abs u div 60 div 60" by (rule div_mult2_eq)
  then show "utc_offset_hours u * 60 * 60 + utc_offset_minutes u * 60 + utc_offset_seconds u = utc_offset_abs u"
    unfolding utc_offset_hours_def utc_offset_minutes_def utc_offset_seconds_def
    by (metis add_mult_distrib div_mult_mod_eq)
qed

lemma offset_new_parts:
  assumes "offset_ok u"
  shows "utc_offset_new (utc_offset_sign u) (utc_offset_hours u) (utc_offset_minutes u) (utc_offset_seconds u) = Inr u"
proof -
  have "int (utc_offset_hours u * 60 * 60 + utc_offset_minutes u * 60 + utc_offset_seconds u) = \<bar>uo_offset u\<bar>"
    using offset_parts(4) [OF assms] by (simp add: utc_offset_abs_def)
  then show ?thesis using offset_parts(1-3) [OF assms]
    by (cases u) (auto simp: utc_offset_new_def utc_offset_sign_def Let_def)
qed

lemma digits_fail:
  assumes "env_ok (rd_env r)" and "before cs r" and "no_digit cs" and "0 < n"
  shows "fst (reader_digits n r) = None"
proof -
  obtain m where m: "n = Suc m" using assms(4) by (cases n) auto
  obtain q where "reader_try_digit r = (None, r\<lparr>rd_pos := q\<rparr>)"
    using parsesE [OF parses_try_digit_not [OF assms(1)] refl refl assms(2)] assms(3)
    unfolding no_digit_def by blast
  then have "fst (reader_digit r) = None" by (simp add: reader_digit_def rcase_def rerror_def rfail_def)
  then have "fst (reader_digit_seq n r) = None"
    using m by (auto simp: rbind_def split: prod.splits option.splits)
  then show ?thesis
    by (auto simp: reader_digits_def rbind_def reader_spanned_def split: prod.splits option.splits)
qed

lemma parses_offset_seconds:
  assumes "env_ok e" and "n \<le> 59" and "no_digit cs"
    and "\<And>sec. sec = n \<Longrightarrow> f sec = g"
    and "n = 0 \<Longrightarrow> k = g"
  shows "parses e h (rcase (reader_attempt (reader_digits 2)) (\<lambda>sec. rret (f sec)) (rret k))
     ((if n > 0 then pad_str 2 n else []) @ cs) (Some g) cs"
proof (cases "n = 0")
  case True
  have "parses e h (reader_attempt (reader_digits 2)) cs None cs"
    by (rule parses_attempt_none) (use assms(1,3) digits_fail in \<open>auto intro: progress_intros\<close>)
  then show ?thesis using True assms(5) by (auto intro: parses_rcase_none [OF _ parses_rret])
next
  case False
  have "parses e h (reader_attempt (reader_digits 2)) (pad_str 2 n @ cs) (Some n) cs"
    by (rule parses_attempt [OF parses_two_digits [OF assms(1)]]) (use assms(2) in simp)
  then show ?thesis using False assms(4) parses_rcase_some [OF _ parses_rret] by fastforce
qed

lemma parses_offset_sign:
  assumes "env_ok e"
  shows "parses e h (reader_any sign_type) ((if uo_offset u < 0 then 45 else 43) # cs) (Some (utc_offset_sign u)) cs"
  by (simp add: utc_offset_sign_def parses_sign_neg [OF assms] parses_sign_plus [OF assms])

interpretation offset_c: ics_codec utc_offset_type offset_text "\<lambda>e u. offset_ok u" "\<lambda>e h cs. no_digit cs" utc_offset_write
proof
  show "shrinks (ty_read utc_offset_type)"
    by (simp add: utc_offset_type_def plain_type_def utc_offset_read_def) (intro progress_intros)
next
  fix e u h cs assume e: "env_ok e" and u: "offset_ok u" and cs: "no_digit cs"
  note parts = offset_parts [OF u] and new = offset_new_parts [OF u]
  have "parses e h utc_offset_read (offset_text u @ cs) (Some u) cs"
    unfolding utc_offset_read_def offset_text_def append_Cons append_assoc
    by (rule parses_rbind_spanned, rule parses_rbind [OF parses_offset_sign [OF e]],
        rule parses_rbind [OF parses_two_digits [OF e]], use parts in simp,
        rule parses_rbind [OF parses_two_digits [OF e]], use parts in simp,
        rule parses_offset_seconds [OF e parts(3) cs, where g = "Inr u"], use new in simp, use new in simp,
        rule parses_unwrap)
  then show "parses e h (ty_read utc_offset_type) (offset_text u @ cs) (Some u) cs"
    by (simp add: utc_offset_type_def plain_type_def)
next
  fix u w
  show "utc_offset_write u w = write_raw (offset_text u) w"
    by (simp add: utc_offset_write_def offset_text_def sign_write_def utc_offset_sign_def write_raw_Cons)
qed (simp add: offset_text_def scalar_def)

end
