(* ===== verification/Ics_Durations.thy ===== *)
theory Ics_Durations
  imports Ics_Value_Codecs
begin

text \<open>
  Durations: the printer drops zero units and the sign of zero, so that reading back gives a normal
  form (\<open>duration_norm\<close>); on normal forms printing and reading are inverse.
\<close>

section \<open>Texts\<close>

definition unit_text :: "nat \<Rightarrow> uchar \<Rightarrow> ustring" where
  "unit_text n c = (if n > 0 then dec_str n @ [c] else [])"

definition time_units_text :: "time_duration \<Rightarrow> ustring" where
  "time_units_text t = unit_text (td_hours t) 72 @ unit_text (td_minutes t) 77 @ unit_text (td_seconds t) 83"

definition amount_text :: "duration_amount \<Rightarrow> ustring" where
  "amount_text a = 80 # (case a of
     ADate d \<Rightarrow> unit_text (dd_days d) 68
       @ (if time_duration_is_zero (dd_time d) then [] else 84 # time_units_text (dd_time d))
   | ATime t \<Rightarrow> 84 # time_units_text t
   | AWeek n \<Rightarrow> unit_text n 87)"

definition duration_text :: "ics_duration \<Rightarrow> ustring" where
  "duration_text d = (if amount_is_zero (du_amount d) then ascii ''P0D''
     else (case du_sign d of Pos \<Rightarrow> [] | Neg \<Rightarrow> [45]) @ amount_text (du_amount d))"

lemma write_unit_text: "write_unit n c w = write_raw (unit_text n c) w"
  by (simp add: write_unit_def unit_text_def write_uint_def)

lemma time_duration_write_text: "time_duration_write t w = write_raw (84 # time_units_text t) w"
  by (cases "time_units_text t = []")
    (simp_all add: time_duration_write_def write_unit_text time_units_text_def write_raw_Cons)

lemma amount_write_text: "amount_write a w = write_raw (amount_text a) w"
proof -
  have raw: "write_raw (80 # s) w = write_raw s (write_raw [80] w)" for s
    by (cases "s = []") (simp_all add: write_raw_Cons)
  show ?thesis unfolding amount_text_def
    by (subst raw) (simp add: amount_write_def date_duration_write_def Let_def write_unit_text time_duration_write_text
        split: duration_amount.splits)
qed

lemma duration_write_text: "duration_write d w = write_raw (duration_text d) w"
  by (simp add: duration_write_def duration_text_def amount_write_text split: sign.splits)

lemma unit_text_clean: "scalar c \<Longrightarrow> c \<noteq> 10 \<Longrightarrow> c \<noteq> 13 \<Longrightarrow> clean_text (unit_text n c)"
  by (simp add: unit_text_def)

lemma duration_text_clean: "clean_text (duration_text d)"
  by (auto simp: duration_text_def amount_text_def time_units_text_def unit_text_clean ascii_def scalar_def
      split: sign.splits duration_amount.splits)

section \<open>Progress\<close>

lemma eats_amount_part: "eats (amount_part s)"
proof -
  have spanned_char: "eats (reader_any (spanned_type char_type))"
    by (rule eats_any) (simp add: spanned_type_def char_type_def plain_type_def eats_spanned eats_char)
  have "shrinks (case amount_unit s n c of Some s' \<Rightarrow> rret s'
      | None \<Rightarrow> rerror a b (rret s))" for n c a b
    by (cases "amount_unit s n c") (auto intro: progress_intros)
  then show ?thesis unfolding amount_part_def
    by (intro eats_rbind_later eats_rbind spanned_char progress_intros)
qed

lemma amount_round_result:
  assumes "amount_round s r = (fl, r')"
  shows "leaves r r' \<and> (\<forall>s'. fl = Continue s' \<longrightarrow> consumes r r')"
proof (cases "reader_peek r \<in> {Some 10, Some 44, None}")
  case True
  then show ?thesis using assms by (auto simp: amount_round_def)
next
  case False
  obtain t r1 where t: "reader_try_eat 84 r = (t, r1)" by fastforce
  let ?s = "if t \<noteq> None then s\<lparr>as_time := True\<rparr> else s"
  obtain v r2 where v: "amount_part ?s r1 = (v, r2)" by fastforce
  have "leaves r r1" using t shrinks_try_eat by (auto dest: shrinksD)
  moreover have "leaves r1 r2" by (rule eatsD(1) [OF eats_amount_part v])
  moreover have "v \<noteq> None \<Longrightarrow> consumes r1 r2"
    using eatsD(2) [OF eats_amount_part] v by blast
  ultimately show ?thesis using assms False t v
    by (cases v) (auto simp: amount_round_def intro: leaves_trans leaves_consumes)
qed

lemma progress_amount: "progress amount_round"
  by (rule progressI; drule amount_round_result) auto

lemma week_conflicts_leaves [simp]: "leaves r (week_conflicts s r') = leaves r r'"
  by (simp add: week_conflicts_def)

lemma shrinks_amount [progress_intros]: "shrinks (ty_read amount_type)"
proof -
  have "shrinks (amount_result s)" for s
    by (rule shrinksI) (auto simp: amount_result_def Let_def split: if_splits)
  then show ?thesis
    by (simp add: amount_type_def plain_type_def amount_read_def) (intro progress_intros progress_amount)
qed

lemma shrinks_duration [progress_intros]: "shrinks (ty_read duration_type)"
  by (simp add: duration_type_def plain_type_def duration_read_def) (intro progress_intros)

section \<open>Reading the units\<close>

lemma parses_amount_part:
  assumes "env_ok e" and "n < 2 ^ 32" and "\<not> is_digit_char c" and "amount_unit s n c = Some s'"
  shows "parses e h (amount_part s) (dec_str n @ c # cs) (Some s') cs"
  unfolding amount_part_def
proof (rule parses_rbind [OF parses_any [OF parses_u32 [OF assms(1,2)]]])
  show "no_digit (c # cs)" using assms(3) by simp
  show "parses e h (rbind (reader_any (spanned_type char_type)) (\<lambda>u. case amount_unit s n (sp_value u) of
       None \<Rightarrow> rerror (Some (sp_span u)) (MsgBody ''unknown duration unit `{}`'' [[sp_value u]]) (rret s)
     | Some s' \<Rightarrow> rret s')) (c # cs) (Some s') cs"
    by (rule parses_rbind_any_spanned [where a = c and ?cs1.0 = cs])
      (simp_all add: char_type_def plain_type_def parses_char [OF assms(1)] assms(4) parses_rret)
qed

lemma digit_peek:
  assumes "env_ok e" and "rd_env r = e" and "before (dec_str n @ cs) r"
  shows "\<exists>d. reader_peek r = Some d \<and> is_digit_char d"
proof -
  obtain d ds where d: "dec_str n = d # ds" "is_digit_char d"
    using hd_dec_str [of n] dec_str_nonempty [of n] by (cases "dec_str n") auto
  then have "reader_peek r = peeked (dec_str n @ cs)" using peek_before assms by blast
  then show ?thesis using d by auto
qed

lemma digit_not_T: "is_digit_char d \<Longrightarrow> ascii_lower d \<noteq> ascii_lower 84"
  by (auto simp: is_digit_char_def ascii_lower_def)

lemma parses_no_T:
  assumes "env_ok e"
  shows "parses e h (reader_try_eat 84) (dec_str n @ cs) None (dec_str n @ cs)"
proof (rule parses_not_next [OF assms])
  show "not_next 84 (dec_str n @ cs)"
    using hd_dec_str [of n] digit_not_T by (cases "dec_str n") auto
qed

text \<open>A unit that is there is read in one round.\<close>

lemma parses_amount_unit:
  assumes "env_ok e" and "n < 2 ^ 32" and "\<not> is_digit_char c" and "amount_unit s n c = Some s'"
    and "parses e h (rloop amount_round s') cs v cs'"
  shows "parses e h (rloop amount_round s) (dec_str n @ c # cs) v cs'"
proof (rule parses_rloop_continue [OF progress_amount _ assms(5)], rule parsesI)
  fix r assume r: "rd_env r = e" "rd_hints r = h" "before (dec_str n @ c # cs) r"
  obtain d where d: "reader_peek r = Some d" "is_digit_char d" using digit_peek [OF assms(1) r(1,3)] by blast
  then have peek: "reader_peek r \<notin> {Some 10, Some 44, None}" by (auto simp: is_digit_char_def)
  obtain q where q: "reader_try_eat 84 r = (None, r\<lparr>rd_pos := q\<rparr>)" "before (dec_str n @ c # cs) (r\<lparr>rd_pos := q\<rparr>)"
    using parsesE [OF parses_no_T [OF assms(1)] r] .
  obtain q2 where "amount_part s (r\<lparr>rd_pos := q\<rparr>) = (Some s', r\<lparr>rd_pos := q2\<rparr>)" "before cs (r\<lparr>rd_pos := q2\<rparr>)"
    using parsesE [OF parses_amount_part [OF assms(1-4)], of "r\<lparr>rd_pos := q\<rparr>" h cs] r q by auto
  then show "\<exists>q. amount_round s r = (Continue s', r\<lparr>rd_pos := q\<rparr>) \<and> before cs (r\<lparr>rd_pos := q\<rparr>)"
    using peek q by (auto simp: amount_round_def)
qed

lemma parses_unit_text:
  assumes "env_ok e" and "n < 2 ^ 32" and "\<not> is_digit_char c"
    and "0 < n \<Longrightarrow> amount_unit s n c = Some s'" and "n = 0 \<Longrightarrow> s' = s"
    and "parses e h (rloop amount_round s') cs v cs'"
  shows "parses e h (rloop amount_round s) (unit_text n c @ cs) v cs'"
  using assms parses_amount_unit [OF assms(1-3), of s s' h cs v cs'] by (cases "n = 0") (auto simp: unit_text_def)

text \<open>The letter that starts the time is read in the round of the unit behind it.\<close>

lemma parses_amount_T:
  assumes "env_ok e" and "ds = dec_str n @ rest"
    and "parses e h (rloop amount_round (s\<lparr>as_time := True\<rparr>)) ds v cs'"
  shows "parses e h (rloop amount_round s) (84 # ds) v cs'"
proof (rule parsesI)
  fix r assume r: "rd_env r = e" "rd_hints r = h" "before (84 # ds) r"
  let ?s = "s\<lparr>as_time := True\<rparr>"
  obtain q where q: "reader_try_eat 84 r = (Some (), r\<lparr>rd_pos := q\<rparr>)" "before ds (r\<lparr>rd_pos := q\<rparr>)"
    using parsesE [OF parses_try_eat [OF assms(1) refl] r] .
  let ?r = "r\<lparr>rd_pos := q\<rparr>"
  have peek: "reader_peek r = Some 84" using peek_before assms(1) r by fastforce
  obtain d where d: "reader_peek ?r = Some d" "is_digit_char d"
    using digit_peek [OF assms(1), of ?r n rest] r q(2) assms(2) by auto
  then have peek2: "reader_peek ?r \<notin> {Some 10, Some 44, None}" by (auto simp: is_digit_char_def)
  have "reader_try_eat 84 ?r = (None, ?r)"
  proof -
    obtain q2 where "reader_try_eat 84 ?r = (None, ?r\<lparr>rd_pos := q2\<rparr>)"
      using parsesE [OF parses_no_T [OF assms(1), of h n rest], of ?r] r q assms(2) by auto
    then show ?thesis using try_eat_none by (metis (no_types, lifting))
  qed
  then have "amount_round s r = amount_round ?s ?r"
    using peek peek2 q(1) by (auto simp: amount_round_def)
  then have "rloop amount_round s r = rloop amount_round ?s ?r"
    using rloop_unfold [OF progress_amount, of s r] rloop_unfold [OF progress_amount, of ?s ?r] by simp
  then show "\<exists>q. rloop amount_round s r = (v, r\<lparr>rd_pos := q\<rparr>) \<and> before cs' (r\<lparr>rd_pos := q\<rparr>)"
    using parsesE [OF assms(3), of ?r] r q(2) by auto
qed

definition duration_end :: "ustring \<Rightarrow> bool" where
  "duration_end cs = (peeked cs \<in> {Some 10, Some 44, None})"

lemma parses_amount_end:
  assumes "env_ok e" and "duration_end cs"
  shows "parses e h (rloop amount_round s) cs (Some s) cs"
proof (rule parses_rloop_break [OF progress_amount], rule parses_stay)
  fix r assume "rd_env r = e" "rd_hints r = h" "before cs r"
  then have "reader_peek r = peeked cs" using peek_before assms(1) by blast
  then show "amount_round s r = (Break (Some s), r)"
    using assms(2) by (simp add: amount_round_def duration_end_def)
qed

definition time_small :: "time_duration \<Rightarrow> bool" where
  "time_small t = (td_hours t < 2 ^ 32 \<and> td_minutes t < 2 ^ 32 \<and> td_seconds t < 2 ^ 32)"

definition set_time :: "amount_state \<Rightarrow> time_duration \<Rightarrow> amount_state" where
  "set_time s t = s\<lparr>as_time := True, as_hours := td_hours t, as_minutes := td_minutes t, as_seconds := td_seconds t\<rparr>"

lemma parses_time_units:
  assumes "env_ok e" and "time_small t" and "duration_end cs" and "as_time s"
    and "as_hours s = 0" and "as_minutes s = 0" and "as_seconds s = 0"
  shows "parses e h (rloop amount_round s) (time_units_text t @ cs) (Some (set_time s t)) cs"
proof -
  have small: "td_hours t < 2 ^ 32" "td_minutes t < 2 ^ 32" "td_seconds t < 2 ^ 32"
    using assms(2) by (simp_all add: time_small_def)
  let ?s1 = "s\<lparr>as_hours := td_hours t\<rparr>"
  let ?s2 = "?s1\<lparr>as_minutes := td_minutes t\<rparr>"
  let ?s3 = "?s2\<lparr>as_seconds := td_seconds t\<rparr>"
  have s3: "?s3 = set_time s t" using assms(4) by (cases s) (simp add: set_time_def)
  have "parses e h (rloop amount_round s) (unit_text (td_hours t) 72 @ unit_text (td_minutes t) 77
      @ unit_text (td_seconds t) 83 @ cs) (Some ?s3) cs"
  proof (rule parses_unit_text [OF assms(1) small(1)])
    show "parses e h (rloop amount_round ?s1) (unit_text (td_minutes t) 77 @ unit_text (td_seconds t) 83 @ cs) (Some ?s3) cs"
    proof (rule parses_unit_text [OF assms(1) small(2)])
      show "parses e h (rloop amount_round ?s2) (unit_text (td_seconds t) 83 @ cs) (Some ?s3) cs"
        by (rule parses_unit_text [OF assms(1) small(3) _ _ _ parses_amount_end [OF assms(1,3)]])
          (use assms in \<open>auto simp: amount_unit_def is_digit_char_def\<close>)
    qed (use assms in \<open>auto simp: amount_unit_def is_digit_char_def\<close>)
  qed (use assms in \<open>auto simp: amount_unit_def is_digit_char_def\<close>)
  then show ?thesis using s3 by (simp add: time_units_text_def)
qed

lemma time_units_digits:
  assumes "\<not> time_duration_is_zero t"
  shows "\<exists>n rest. time_units_text t = dec_str n @ rest"
  using assms by (cases t) (auto simp: time_units_text_def unit_text_def time_duration_is_zero_def)

lemma parses_time_part:
  assumes "env_ok e" and "time_small t" and "duration_end cs" and "\<not> time_duration_is_zero t"
    and "as_hours s = 0" and "as_minutes s = 0" and "as_seconds s = 0"
  shows "parses e h (rloop amount_round s) (84 # time_units_text t @ cs) (Some (set_time s t)) cs"
proof -
  obtain n rest where n: "time_units_text t = dec_str n @ rest" using time_units_digits [OF assms(4)] by blast
  show ?thesis
  proof (rule parses_amount_T [OF assms(1)])
    show "time_units_text t @ cs = dec_str n @ rest @ cs" using n by simp
    have "parses e h (rloop amount_round (s\<lparr>as_time := True\<rparr>)) (time_units_text t @ cs)
        (Some (set_time (s\<lparr>as_time := True\<rparr>) t)) cs"
      by (rule parses_time_units [OF assms(1-3)]) (use assms in auto)
    then show "parses e h (rloop amount_round (s\<lparr>as_time := True\<rparr>)) (time_units_text t @ cs) (Some (set_time s t)) cs"
      by (simp add: set_time_def)
  qed
qed

section \<open>Normal forms\<close>

definition amount_norm :: "duration_amount \<Rightarrow> duration_amount" where
  "amount_norm a = (case a of
     ADate d \<Rightarrow> if dd_days d > 0 then ADate d else ATime (dd_time d)
   | ATime t \<Rightarrow> ATime t
   | AWeek n \<Rightarrow> if n > 0 then AWeek n else ATime \<lparr>td_hours = 0, td_minutes = 0, td_seconds = 0\<rparr>)"

definition duration_norm :: "ics_duration \<Rightarrow> ics_duration" where
  "duration_norm d = (if amount_is_zero (du_amount d)
     then \<lparr>du_sign = Pos, du_amount = ATime \<lparr>td_hours = 0, td_minutes = 0, td_seconds = 0\<rparr>\<rparr>
     else d\<lparr>du_amount := amount_norm (du_amount d)\<rparr>)"

definition amount_small :: "duration_amount \<Rightarrow> bool" where
  "amount_small a = (case a of ADate d \<Rightarrow> dd_days d < 2 ^ 32 \<and> time_small (dd_time d)
     | ATime t \<Rightarrow> time_small t | AWeek n \<Rightarrow> n < 2 ^ 32)"

lemma parses_amount_result:
  assumes "as_weeks s = 0 \<or> as_days s = 0 \<and> as_hours s = 0 \<and> as_minutes s = 0 \<and> as_seconds s = 0"
  shows "parses e h (amount_result s) cs (Some (
     if as_weeks s > 0 then AWeek (as_weeks s)
     else let t = \<lparr>td_hours = as_hours s, td_minutes = as_minutes s, td_seconds = as_seconds s\<rparr>
          in if as_days s > 0 then ADate \<lparr>dd_days = as_days s, dd_time = t\<rparr> else ATime t)) cs"
  by (rule parses_stay) (use assms in \<open>auto simp: amount_result_def week_conflicts_def Let_def\<close>)

lemma parses_amount_finish:
  assumes "parses e h (rloop amount_round amount_start) cs (Some s) cs'"
    and "as_weeks s = 0 \<or> as_days s = 0 \<and> as_hours s = 0 \<and> as_minutes s = 0 \<and> as_seconds s = 0"
    and "a = (if as_weeks s > 0 then AWeek (as_weeks s)
       else let t = \<lparr>td_hours = as_hours s, td_minutes = as_minutes s, td_seconds = as_seconds s\<rparr>
            in if as_days s > 0 then ADate \<lparr>dd_days = as_days s, dd_time = t\<rparr> else ATime t)"
  shows "parses e h (rbind (rloop amount_round amount_start) amount_result) cs (Some a) cs'"
  unfolding assms(3) by (rule parses_rbind [OF assms(1)]) (rule parses_amount_result [OF assms(2)])

lemma parses_amount_loop:
  assumes "env_ok e" and "amount_small a" and "\<not> amount_is_zero a" and "duration_end cs"
  shows "parses e h (rbind (rloop amount_round amount_start) amount_result) (tl (amount_text a) @ cs) (Some (amount_norm a)) cs"
proof (cases a)
  case (AWeek n)
  let ?s = "amount_start\<lparr>as_weeks := n\<rparr>"
  have "parses e h (rloop amount_round amount_start) (unit_text n 87 @ cs) (Some ?s) cs"
    by (rule parses_unit_text [OF assms(1) _ _ _ _ parses_amount_end [OF assms(1,4)]])
      (use assms AWeek in \<open>auto simp: amount_small_def amount_unit_def amount_start_def is_digit_char_def\<close>)
  then have "parses e h (rbind (rloop amount_round amount_start) amount_result) (unit_text n 87 @ cs) (Some (amount_norm a)) cs"
    by (rule parses_amount_finish)
      (use assms AWeek in \<open>simp_all add: amount_norm_def amount_start_def amount_is_zero_def\<close>)
  then show ?thesis using AWeek by (simp add: amount_text_def)
next
  case (ATime t)
  let ?s = "set_time amount_start t"
  have "parses e h (rloop amount_round amount_start) (84 # time_units_text t @ cs) (Some ?s) cs"
    by (rule parses_time_part [OF assms(1) _ assms(4)])
      (use assms ATime in \<open>auto simp: amount_small_def amount_is_zero_def amount_start_def\<close>)
  then have "parses e h (rbind (rloop amount_round amount_start) amount_result) (84 # time_units_text t @ cs)
      (Some (amount_norm a)) cs"
    by (rule parses_amount_finish)
      (use ATime in \<open>cases t; simp add: amount_norm_def amount_start_def set_time_def\<close>)+
  then show ?thesis using ATime by (simp add: amount_text_def)
next
  case (ADate d)
  have small: "dd_days d < 2 ^ 32" "time_small (dd_time d)" using assms(2) ADate by (simp_all add: amount_small_def)
  let ?s1 = "amount_start\<lparr>as_days := dd_days d\<rparr>"
  let ?s = "if time_duration_is_zero (dd_time d) then ?s1 else set_time ?s1 (dd_time d)"
  have tail: "parses e h (rloop amount_round ?s1)
      ((if time_duration_is_zero (dd_time d) then [] else 84 # time_units_text (dd_time d)) @ cs) (Some ?s) cs"
    using parses_amount_end [OF assms(1,4)] parses_time_part [OF assms(1) small(2) assms(4), of ?s1]
    by (simp add: amount_start_def)
  have "parses e h (rloop amount_round amount_start)
      (unit_text (dd_days d) 68 @ (if time_duration_is_zero (dd_time d) then [] else 84 # time_units_text (dd_time d)) @ cs)
      (Some ?s) cs"
    by (rule parses_unit_text [OF assms(1) small(1) _ _ _ tail])
      (auto simp: amount_unit_def amount_start_def is_digit_char_def)
  then have "parses e h (rbind (rloop amount_round amount_start) amount_result)
      (unit_text (dd_days d) 68 @ (if time_duration_is_zero (dd_time d) then [] else 84 # time_units_text (dd_time d)) @ cs)
      (Some (amount_norm a)) cs"
    by (rule parses_amount_finish)
      (use ADate in \<open>cases d; cases "dd_time d"; auto simp: amount_norm_def amount_start_def set_time_def
         time_duration_is_zero_def Let_def\<close>)+
  then show ?thesis using ADate by (simp add: amount_text_def)
qed

lemma parses_zero_duration:
  assumes "env_ok e" and "duration_end cs"
  shows "parses e h (rbind (rloop amount_round amount_start) amount_result) (48 # 68 # cs)
    (Some (ATime \<lparr>td_hours = 0, td_minutes = 0, td_seconds = 0\<rparr>)) cs"
proof -
  have "parses e h (rloop amount_round amount_start) (dec_str 0 @ 68 # cs) (Some amount_start) cs"
    by (rule parses_amount_unit [OF assms(1) _ _ _ parses_amount_end [OF assms]])
      (auto simp: amount_unit_def amount_start_def is_digit_char_def)
  moreover have "dec_str 0 = [48]" by (simp add: dec_str.simps)
  ultimately have "parses e h (rloop amount_round amount_start) (48 # 68 # cs) (Some amount_start) cs" by simp
  then show ?thesis by (rule parses_amount_finish) (simp_all add: amount_start_def)
qed

lemma parses_duration_tail:
  assumes "env_ok e" and "parses e h (rbind (rloop amount_round amount_start) amount_result) cs (Some a) cs'"
  shows "parses e h (rbind (reader_any amount_type) (\<lambda>a. rret \<lparr>du_sign = s, du_amount = a\<rparr>)) (80 # cs)
     (Some \<lparr>du_sign = s, du_amount = a\<rparr>) cs'"
proof -
  have "parses e h amount_read (80 # cs) (Some a) cs'"
    unfolding amount_read_def by (rule parses_rbind [OF parses_eat [OF assms(1) refl] assms(2)])
  then show ?thesis
    by (intro parses_rbind [OF parses_any parses_rret]) (simp add: amount_type_def plain_type_def)
qed

lemma parses_sign_P:
  assumes "env_ok e"
  shows "parses e h (reader_any sign_type) (80 # cs) (Some Pos) (80 # cs)"
proof -
  have no: "parses e h (reader_try_eat d) (80 # cs) None (80 # cs)" if "d = 45 \<or> d = 43" for d
    by (rule parses_not_next [OF assms]) (use that in \<open>auto simp: ascii_lower_low\<close>)
  have "parses e h sign_read (80 # cs) (Some Pos) (80 # cs)"
    unfolding sign_read_def by (rule parses_rcase_none [OF no parses_rthen [OF no parses_rret]]) simp_all
  then show ?thesis by (intro parses_any) (simp add: sign_type_def plain_type_def)
qed

lemma parses_duration:
  assumes "env_ok e" and "amount_small (du_amount d)" and "duration_end cs"
  shows "parses e h (ty_read duration_type) (duration_text d @ cs) (Some (duration_norm d)) cs"
proof -
  let ?a = "du_amount d"
  have "parses e h duration_read (duration_text d @ cs) (Some (duration_norm d)) cs"
  proof (cases "amount_is_zero ?a")
    case True
    have "parses e h duration_read (80 # 48 # 68 # cs) (Some (duration_norm d)) cs"
      unfolding duration_read_def duration_norm_def using True
      by (simp, intro parses_rbind [OF parses_sign_P [OF assms(1)] parses_duration_tail [OF assms(1) parses_zero_duration [OF assms(1,3)]]])
    then show ?thesis using True by (simp add: duration_text_def ascii_def)
  next
    case False
    have P: "amount_text ?a = 80 # tl (amount_text ?a)" by (simp add: amount_text_def)
    note tail = parses_duration_tail [OF assms(1) parses_amount_loop [OF assms(1,2) False assms(3)], of h]
    have norm: "duration_norm d = \<lparr>du_sign = du_sign d, du_amount = amount_norm ?a\<rparr>"
      using False by (cases d) (simp add: duration_norm_def)
    show ?thesis
    proof (cases "du_sign d")
      case Pos
      have "parses e h duration_read (80 # tl (amount_text ?a) @ cs) (Some \<lparr>du_sign = Pos, du_amount = amount_norm ?a\<rparr>) cs"
        unfolding duration_read_def by (rule parses_rbind [OF parses_sign_P [OF assms(1)] tail])
      then show ?thesis using False Pos norm P by (simp add: duration_text_def) (metis append_Cons)
    next
      case Neg
      have "parses e h duration_read (45 # 80 # tl (amount_text ?a) @ cs) (Some \<lparr>du_sign = Neg, du_amount = amount_norm ?a\<rparr>) cs"
        unfolding duration_read_def by (rule parses_rbind [OF parses_sign_neg [OF assms(1)] tail])
      then show ?thesis using False Neg norm P by (simp add: duration_text_def) (metis append_Cons)
    qed
  qed
  then show ?thesis by (simp add: duration_type_def plain_type_def)
qed

interpretation duration_c: ics_codec duration_type duration_text
    "\<lambda>e d. amount_small (du_amount d) \<and> duration_norm d = d" "\<lambda>e h cs. duration_end cs" duration_write
proof
  fix e d h cs assume "env_ok e" "amount_small (du_amount d) \<and> duration_norm d = d" "duration_end cs"
  then show "parses e h (ty_read duration_type) (duration_text d @ cs) (Some d) cs"
    using parses_duration [of e d cs h] by simp
qed (simp_all add: duration_write_text shrinks_duration duration_text_clean)

text \<open>The normal form is one.\<close>

lemma duration_norm_idem: "duration_norm (duration_norm d) = duration_norm d"
  by (cases d; cases "du_amount d")
    (auto simp: duration_norm_def amount_norm_def amount_is_zero_def time_duration_is_zero_def date_duration_is_zero_def
      split: if_splits)

lemma amount_norm_small: "amount_small a \<Longrightarrow> amount_small (amount_norm a)"
  by (cases a) (auto simp: amount_small_def amount_norm_def time_small_def)

end
