(* ===== verification/Ics_Recur_Codec.thy ===== *)
theory Ics_Recur_Codec
  imports Ics_Recur
begin

text \<open>
  Recurrence rules are read back as they were printed: the contract of \<open>Ics_Codec\<close> for
  frequencies, days, the end of a rule and rules.  A rule is a list of parts; each part is proved
  on its own, and the loop over the parts once.
\<close>

section \<open>Frequencies, days, ends\<close>

lemma freq_name: "is_name (ascii (freq_str f))" "match_name freq_names (ascii (freq_str f)) = Some f"
  by (cases f; simp add: freq_str_def freq_names_def eq_ignore_case_def ascii_def ascii_lower_def is_name_def letter_def)+

interpretation freq_c: ics_codec freq_type "\<lambda>f. ascii (freq_str f)" "\<lambda>e f. True" "\<lambda>e h cs. param_stop h cs" freq_write
proof
  show "shrinks (ty_read freq_type)"
    by (simp add: freq_type_def plain_type_def freq_read_def) (intro progress_intros)
next
  fix e f h cs assume "env_ok e" and "param_stop h cs"
  then have "parses e h freq_read (ascii (freq_str f) @ cs) (Some f) cs"
    unfolding freq_read_def by (intro parses_param_name freq_name(1)) (simp_all add: freq_name(2) parses_rret)
  then show "parses e h (ty_read freq_type) (ascii (freq_str f) @ cs) (Some f) cs"
    by (simp add: freq_type_def plain_type_def)
qed (simp_all add: freq_write_def name_clean freq_name)

definition by_day_ok :: "by_day \<Rightarrow> bool" where
  "by_day_ok b = (case b of Every d \<Rightarrow> True | Fixed n d \<Rightarrow> n \<noteq> 0 \<and> \<bar>n\<bar> \<le> 127)"

definition by_day_text :: "by_day \<Rightarrow> ustring" where
  "by_day_text b = (case b of Every d \<Rightarrow> ascii (weekday_str d)
     | Fixed n d \<Rightarrow> (if n < 0 then [45] else []) @ dec_str (nat \<bar>n\<bar>) @ ascii (weekday_str d))"

lemma shrinks_by_day_fixed [progress_intros]: "shrinks by_day_fixed"
  unfolding by_day_fixed_def by (intro progress_intros weekday_c.moves)

lemma shrinks_by_day [progress_intros]: "shrinks (ty_read by_day_type)"
proof -
  have "shrinks (rbind (reader_any weekday_type) (\<lambda>d. rret (Every d)))" by (intro progress_intros weekday_c.moves)
  then have "shrinks by_day_read"
    using shrinks_by_day_fixed by (auto simp: shrinks_def by_day_read_def split: option.splits)
  then show ?thesis by (simp add: by_day_type_def plain_type_def)
qed

lemma weekday_no_digit: "no_digit (ascii (weekday_str d) @ cs)"
  by (cases d) (simp_all add: weekday_str_def ascii_def is_digit_char_def)

lemma parses_peeked:
  assumes "env_ok e" and "parses e h (f (peeked cs)) cs v cs'"
  shows "parses e h (\<lambda>r. f (reader_peek r) r) cs v cs'"
proof (rule parsesI)
  fix r assume r: "rd_env r = e" "rd_hints r = h" "before cs r"
  then have "reader_peek r = peeked cs" using peek_before assms(1) by blast
  then show "\<exists>q. f (reader_peek r) r = (v, r\<lparr>rd_pos := q\<rparr>) \<and> before cs' (r\<lparr>rd_pos := q\<rparr>)"
    using parsesE [OF assms(2) r] by auto
qed

lemma parses_by_day_fixed:
  assumes "env_ok e" and "no_ident e cs" and "n \<noteq> 0" and "\<bar>n\<bar> \<le> 127"
  shows "parses e h by_day_fixed (by_day_text (Fixed n d) @ cs) (Some (Fixed n d)) cs"
proof -
  have sg: "parses e h (reader_any sign_type) (by_day_text (Fixed n d) @ cs)
      (Some (if n < 0 then Neg else Pos)) (dec_str (nat \<bar>n\<bar>) @ ascii (weekday_str d) @ cs)"
    using parses_sign_neg [OF assms(1)] parses_sign_pos [OF assms(1) _ hd_dec_str] by (simp add: by_day_text_def)
  have num: "parses e h u32_read (dec_str (nat \<bar>n\<bar>) @ ascii (weekday_str d) @ cs) (Some (nat \<bar>n\<bar>)) (ascii (weekday_str d) @ cs)"
    using parses_u32 [OF assms(1) _ weekday_no_digit, of "nat \<bar>n\<bar>" h d cs] assms(4)
    by (simp add: u32_type_def plain_type_def)
  have small: "\<not> 127 < nat \<bar>n\<bar>" "nat \<bar>n\<bar> \<noteq> 0" using assms(3,4) by auto
  have val: "(case if n < 0 then Neg else Pos of Neg \<Rightarrow> - int (nat \<bar>n\<bar>) | Pos \<Rightarrow> int (nat \<bar>n\<bar>)) = n" by simp
  show ?thesis unfolding by_day_fixed_def
    by (rule parses_rbind [OF sg], rule parses_rbind_spanned [OF num])
      (simp only: sp_value_def spanned.case spanned.sel small if_False, rule parses_rbind [OF weekday_c.reads_any [OF assms(1) TrueI assms(2)]],
       simp only: val parses_rret)
qed

interpretation by_day_c: ics_codec by_day_type by_day_text "\<lambda>e b. by_day_ok b" "\<lambda>e h cs. no_ident e cs" by_day_write
proof
  fix e b h cs assume e: "env_ok e" and b: "by_day_ok b" and stop: "no_ident e cs"
  let ?f = "\<lambda>p. case p of None \<Rightarrow> (\<lambda>r. (None, r))
     | Some c \<Rightarrow> if c = 43 \<or> c = 45 \<or> is_digit_char c then by_day_fixed
         else rbind (reader_any weekday_type) (\<lambda>d. rret (Every d))"
  have read: "by_day_read = (\<lambda>r. ?f (reader_peek r) r)"
    by (auto simp: by_day_read_def fun_eq_iff split: option.splits)
  have "parses e h (?f (peeked (by_day_text b @ cs))) (by_day_text b @ cs) (Some b) cs"
  proof (cases b)
    case (Every d)
    have p: "peeked (by_day_text b @ cs) = Some (hd (ascii (weekday_str d)))" and
      n: "\<not> is_digit_char (hd (ascii (weekday_str d)))" "hd (ascii (weekday_str d)) \<notin> {43, 45}"
      using Every by (cases d; simp add: by_day_text_def weekday_str_def ascii_def is_digit_char_def)+
    have "parses e h (rbind (reader_any weekday_type) (\<lambda>d. rret (Every d))) (ascii (weekday_str d) @ cs) (Some (Every d)) cs"
      by (rule parses_rbind [OF weekday_c.reads_any [OF e TrueI stop] parses_rret])
    then show ?thesis unfolding p using n Every by (simp add: by_day_text_def)
  next
    case (Fixed n d)
    have "peeked (by_day_text b @ cs) = Some (if n < 0 then 45 else hd (dec_str (nat \<bar>n\<bar>)))"
      using Fixed by (cases "dec_str (nat \<bar>n\<bar>)") (auto simp: by_day_text_def)
    then show ?thesis
      using parses_by_day_fixed [OF e stop, of n h d] b Fixed hd_dec_str [of "nat \<bar>n\<bar>"] hd_dec_str [of "nat n"] by (simp add: by_day_ok_def)
  qed
  then have "parses e h by_day_read (by_day_text b @ cs) (Some b) cs"
    unfolding read by (rule parses_peeked [OF e])
  then show "parses e h (ty_read by_day_type) (by_day_text b @ cs) (Some b) cs"
    by (simp add: by_day_type_def plain_type_def)
qed (auto simp: by_day_write_def by_day_text_def weekday_write_def write_sint_def shrinks_by_day name_clean
    weekday_name scalar_def split: by_day.splits)

definition until_ok :: "ics_env \<Rightarrow> 'f date_or_dt \<Rightarrow> bool" where
  "until_ok e d = (case d of DDate x \<Rightarrow> date_ok e x | DDateTime x \<Rightarrow> dt_ok e x)"

definition until_text :: "utc_or_local date_or_dt \<Rightarrow> ustring" where
  "until_text d = (case d of DDate x \<Rightarrow> date_text x | DDateTime x \<Rightarrow> ul_text x)"

text \<open>A date is first tried as a date with a time, which fails at the missing \<open>T\<close>.\<close>

lemma any_fst:
  assumes "\<And>r. rd_env r = e \<Longrightarrow> rd_hints r = h \<Longrightarrow> before cs r \<Longrightarrow> fst (ty_read T r) = None"
    and "rd_env r = e" "rd_hints r = h" "before cs r"
  shows "fst (reader_any T r) = None"
proof -
  have "fst (ty_read T (r\<lparr>rd_context := rd_context r @ [Spanned (span_one (pos_lc (rd_pos r))) (ty_name T)]\<rparr>)) = None"
    using assms by auto
  then show ?thesis by (auto simp: reader_any_def reader_context_def split: prod.splits)
qed

lemma no_time_fst:
  assumes "env_ok e" and "date_ok e d" and "not_next 84 cs" and "rd_env r = e" "rd_hints r = h" "before (date_text d @ cs) r"
  shows "fst (date_t_time r) = None"
proof -
  obtain q where q: "reader_any date_type r = (Some d, r\<lparr>rd_pos := q\<rparr>)" "before cs (r\<lparr>rd_pos := q\<rparr>)"
    using parsesE [OF date_c.reads_any [OF assms(1,2) TrueI] assms(4-6)] .
  have "parses e h (reader_try_eat 84) cs None cs" by (rule parses_not_next [OF assms(1,3)])
  then obtain q' where "reader_try_eat 84 (r\<lparr>rd_pos := q\<rparr>) = (None, r\<lparr>rd_pos := q'\<rparr>)"
    using parsesE [of e h "reader_try_eat 84" cs None cs "r\<lparr>rd_pos := q\<rparr>"] q(2) assms(4,5) by auto
  then have "fst (reader_eat 84 (r\<lparr>rd_pos := q\<rparr>)) = None"
    by (simp add: reader_eat_def rcase_def rerror_def rfail_def)
  then show ?thesis using q(1) by (auto simp: date_t_time_def rbind_def split: prod.splits option.splits)
qed

interpretation until_c: ics_codec dod_value_type until_text until_ok "\<lambda>e h cs. not_next 90 cs \<and> not_next 84 cs" dod_value_write
proof
  show "shrinks (ty_read dod_value_type)"
    by (simp add: dod_value_type_def plain_type_def dod_value_read_def) (intro progress_intros dt_ul_c.moves)
next
  fix e h cs and d :: "utc_or_local date_or_dt"
  assume e: "env_ok e" and d: "until_ok e d" and stop: "not_next 90 cs \<and> not_next 84 cs"
  have "parses e h dod_value_read (until_text d @ cs) (Some d) cs"
  proof (cases d)
    case (DDateTime x)
    then have "dt_ok e x" using d by (simp add: until_ok_def)
    then have "parses e h (reader_attempt (reader_any dt_ul_type)) (until_text d @ cs) (Some x) cs"
      using DDateTime stop by (simp add: until_text_def parses_attempt dt_ul_c.reads_any [OF e])
    then show ?thesis unfolding dod_value_read_def DDateTime by (rule parses_rcase_some [OF _ parses_rret])
  next
    case (DDate x)
    then have x: "date_ok e x" using d by (simp add: until_ok_def)
    have "fst (dt_ul_read r) = None" if "rd_env r = e" "rd_hints r = h" "before (date_text x @ cs) r" for r
      using no_time_fst [OF e x _ that] stop by (auto simp: dt_ul_read_def rbind_def split: prod.splits option.splits)
    then have "parses e h (reader_attempt (reader_any dt_ul_type)) (date_text x @ cs) None (date_text x @ cs)"
      by (intro parses_attempt_none any_fst shrinks_any dt_ul_c.moves) (simp add: dt_ul_type_def plain_type_def)
    then show ?thesis unfolding dod_value_read_def DDate until_text_def
      by (simp, intro parses_rcase_none [OF _ parses_rbind [OF date_c.reads_any [OF e x TrueI] parses_rret]])
  qed
  then show "parses e h (ty_read dod_value_type) (until_text d @ cs) (Some d) cs"
    by (simp add: dod_value_type_def plain_type_def)
next
  fix e w and d :: "utc_or_local date_or_dt" assume "until_ok e d"
  then show "dod_value_write d w = write_raw (until_text d) w"
    using date_c.writes dt_ul_c.writes by (auto simp: dod_value_write_def until_text_def until_ok_def split: date_or_dt.splits)
next
  fix e and d :: "utc_or_local date_or_dt" assume "until_ok e d"
  then show "clean_text (until_text d)"
    using date_c.clean dt_ul_c.clean by (auto simp: until_text_def until_ok_def split: date_or_dt.splits)
qed

section \<open>Progress\<close>

lemma progress_recover: "progress recover_round"
  by (rule progressI) (auto simp: recover_round_def peek_char_consumes split: if_splits)

lemma recover_leaves: "leaves r r' \<Longrightarrow> leaves r (recover r')"
  using shrinksD [OF rloop_shrinks [OF progress_recover], of "()" r'] leaves_trans
  unfolding recover_def by (metis prod.collapse)

lemma shrinks_part_opt: "shrinks (ty_read T) \<Longrightarrow> shrinks (part_opt T)"
  by (rule shrinksI) (auto simp: part_opt_def dest!: shrinksD [OF shrinks_any] intro: recover_leaves
      split: prod.splits option.splits)

lemma shrinks_part_vec: "shrinks (ty_read T) \<Longrightarrow> shrinks (part_vec T)"
  by (rule shrinksI) (auto simp: part_vec_def dest!: shrinksD [OF shrinks_any [OF shrinks_types(3)]] intro: recover_leaves
      split: prod.splits option.splits)

lemma part_leaves:
  "upd_with f (part_opt T r) = (s', r') \<Longrightarrow> shrinks (ty_read T) \<Longrightarrow> leaves r r'"
  "upd_with g (part_vec T r) = (s', r') \<Longrightarrow> shrinks (ty_read T) \<Longrightarrow> leaves r r'"
  by (auto simp: upd_with_def dest: shrinksD [OF shrinks_part_opt] shrinksD [OF shrinks_part_vec] split: prod.splits)

lemmas part_moves = freq_c.moves until_c.moves u32_c.moves second_c.moves minute_c.moves hour_c.moves by_day_c.moves
  ics_codec.moves [OF day_c.signed_codec] ics_codec.moves [OF day_ordinal_c.signed_codec]
  ics_codec.moves [OF week_ordinal_c.signed_codec] month_c.moves weekday_c.moves

lemma recur_field_leaves:
  assumes "recur_field name s r = (s', r')"
  shows "leaves r r'"
proof (cases "match_name recur_keys (sp_value name)")
  case None
  then show ?thesis using assms by (auto simp: recur_field_def intro: recover_leaves)
next
  case (Some k)
  then show ?thesis using assms by (cases k) (auto simp: recur_field_def intro: part_leaves part_moves)
qed

lemma recur_round_result:
  assumes "recur_round s r = (fl, r')"
  shows "leaves r r' \<and> (\<forall>s'. fl = Continue s' \<longrightarrow> consumes r r')"
proof -
  let ?p = "rbind (reader_spanned reader_ident) (\<lambda>name. rbind (reader_eat 61) (\<lambda>_. rret name))"
  obtain v r1 where v: "?p r = (v, r1)" by fastforce
  have "shrinks ?p" by (intro progress_intros)
  then have r1: "leaves r r1" using v by (auto dest: shrinksD)
  show ?thesis
  proof (cases v)
    case None
    then show ?thesis using assms v r1 by (auto simp: recur_round_def)
  next
    case (Some name)
    obtain s2 r2 where f: "recur_field name s r1 = (s2, r2)" by fastforce
    obtain c r3 where c: "reader_try_eat 59 r2 = (c, r3)" by fastforce
    have "leaves r r2" using leaves_trans [OF r1 recur_field_leaves [OF f]] .
    moreover have "leaves r2 r3" "c \<noteq> None \<Longrightarrow> consumes r2 r3" using eatsD [OF eats_try_eat] c by blast+
    ultimately show ?thesis using assms v Some f c
      by (cases c) (auto simp: recur_round_def intro: leaves_trans leaves_consumes)
  qed
qed

lemma progress_recur: "progress recur_round"
  by (rule progressI; drule recur_round_result) auto

lemma shrinks_recur [progress_intros]: "shrinks (ty_read recur_type)"
proof -
  have "shrinks (recur_finish p s)" for p s
    unfolding recur_finish_def by (cases "ra_freq s") (auto intro!: progress_intros)
  then have "shrinks (rbind (rloop recur_round recur_acc_empty) (recur_finish p))" for p
    by (intro progress_intros progress_recur)
  then show ?thesis by (auto simp: shrinks_def recur_type_def plain_type_def recur_read_def)
qed

section \<open>Parts\<close>

text \<open>A part of a rule: its name, the text of its value and what reading it does.\<close>

type_synonym recur_part = "string \<times> ustring \<times> (recur_acc \<Rightarrow> recur_acc)"

definition part_end :: "ustring \<Rightarrow> bool" where
  "part_end cs = (peeked cs \<in> {None, Some 59, Some 10})"

definition reads_part :: "ics_env \<Rightarrow> recur_part \<Rightarrow> bool" where
  "reads_part e p = (case p of (name, t, upd) \<Rightarrow> is_name (ascii name) \<and> (\<forall>h sp s cs. part_end cs \<longrightarrow>
     parses e h (recur_field (Spanned sp (ascii name)) s) (t @ cs) (upd s) cs))"

definition part_text :: "recur_part \<Rightarrow> ustring" where
  "part_text p = (case p of (name, t, upd) \<Rightarrow> ascii name @ 61 # t)"

fun parts_text :: "recur_part list \<Rightarrow> ustring" where
  "parts_text [] = []"
| "parts_text (p # ps) = 59 # part_text p @ parts_text ps"

definition part_upds :: "recur_part list \<Rightarrow> recur_acc \<Rightarrow> recur_acc" where
  "part_upds ps = fold (\<lambda>(name, t, upd) s. upd s) ps"

lemma parts_text_append [simp]: "parts_text (ps @ qs) = parts_text ps @ parts_text qs"
  by (induction ps) simp_all

lemma part_name_run:
  assumes "env_ok e" and "is_name (ascii name)"
  shows "yields e h (rbind (reader_spanned reader_ident) (\<lambda>n. rbind (reader_eat 61) (\<lambda>_. rret n)))
    (ascii name @ 61 # cs) (\<lambda>n. sp_value n = ascii name) cs"
proof -
  have "no_ident e (61 # cs)" using ascii_no_ident [OF assms(1), of 61] by (simp add: letter_def)
  then have "parses e h reader_ident (ascii name @ 61 # cs) (Some (ascii name)) (61 # cs)"
    by (rule parses_name [OF assms])
  then show ?thesis
    by (rule yields_rbind [OF yields_spanned]) (rule yields_then_eat [OF assms(1) yields_rret])
qed

lemma parses_round:
  assumes "env_ok e" and "reads_part e (name, t, upd)" and "part_end cs"
  shows "parses e h (recur_round s) (part_text (name, t, upd) @ cs)
    (if peeked cs = Some 59 then Continue (upd s) else Break (Some (upd s)))
    (if peeked cs = Some 59 then tl cs else cs)"
proof (rule parsesI)
  fix r assume r: "rd_env r = e" "rd_hints r = h" "before (part_text (name, t, upd) @ cs) r"
  have nm: "is_name (ascii name)"
    and fld: "\<And>sp. parses e h (recur_field (Spanned sp (ascii name)) s) (t @ cs) (upd s) cs"
    using assms(2,3) by (auto simp: reads_part_def)
  obtain n q where n: "rbind (reader_spanned reader_ident) (\<lambda>n. rbind (reader_eat 61) (\<lambda>_. rret n)) r = (Some n, r\<lparr>rd_pos := q\<rparr>)"
      "sp_value n = ascii name" "before (t @ cs) (r\<lparr>rd_pos := q\<rparr>)"
    using yieldsE [OF part_name_run [OF assms(1) nm, of h "t @ cs"] r(1,2)] r(3) by (auto simp: part_text_def)
  have "n = Spanned (sp_span n) (ascii name)" using n(2) by (cases n) auto
  then obtain q2 where q2: "recur_field n s (r\<lparr>rd_pos := q\<rparr>) = (upd s, r\<lparr>rd_pos := q2\<rparr>)" "before cs (r\<lparr>rd_pos := q2\<rparr>)"
    using parsesE [OF fld [of "sp_span n"], of "r\<lparr>rd_pos := q\<rparr>"] r n(3) by auto
  show "\<exists>q. recur_round s r = (if peeked cs = Some 59 then Continue (upd s) else Break (Some (upd s)), r\<lparr>rd_pos := q\<rparr>)
      \<and> before (if peeked cs = Some 59 then tl cs else cs) (r\<lparr>rd_pos := q\<rparr>)"
  proof (cases "peeked cs = Some 59")
    case True
    then obtain cs' where cs: "cs = 59 # cs'" by (cases cs) auto
    obtain q3 where "reader_try_eat 59 (r\<lparr>rd_pos := q2\<rparr>) = (Some (), r\<lparr>rd_pos := q3\<rparr>)" "before cs' (r\<lparr>rd_pos := q3\<rparr>)"
      using parsesE [OF parses_try_eat [OF assms(1) refl], of "r\<lparr>rd_pos := q2\<rparr>" h 59 cs'] r q2(2) cs by auto
    then show ?thesis using n(1) q2(1) cs by (auto simp: recur_round_def)
  next
    case False
    then have "not_next 59 cs" using assms(3) by (cases cs) (auto simp: part_end_def ascii_lower_low)
    then obtain q3 where "reader_try_eat 59 (r\<lparr>rd_pos := q2\<rparr>) = (None, r\<lparr>rd_pos := q3\<rparr>)" "before cs (r\<lparr>rd_pos := q3\<rparr>)"
      using parsesE [OF parses_not_next [OF assms(1), of 59 cs h], of "r\<lparr>rd_pos := q2\<rparr>"] r q2(2) by auto
    then show ?thesis using n(1) q2(1) False by (auto simp: recur_round_def)
  qed
qed

lemma parses_parts:
  assumes "env_ok e" and "list_all (reads_part e) (p # ps)" and "peeked cs \<in> {None, Some 10}"
  shows "parses e h (rloop recur_round s) (part_text p @ parts_text ps @ cs) (Some (part_upds (p # ps) s)) cs"
  using assms(2)
proof (induction ps arbitrary: p s)
  case Nil
  obtain name t upd where p: "p = (name, t, upd)" by (cases p)
  have "parses e h (recur_round s) (part_text p @ cs) (Break (Some (upd s))) cs"
    using parses_round [OF assms(1), of name t upd cs h s] Nil assms(3) p by (auto simp: part_end_def)
  then show ?case using parses_rloop_break [OF progress_recur] p by (simp add: part_upds_def)
next
  case (Cons q ps)
  obtain name t upd where p: "p = (name, t, upd)" by (cases p)
  have "parses e h (recur_round s) (part_text p @ parts_text (q # ps) @ cs) (Continue (upd s)) (part_text q @ parts_text ps @ cs)"
    using parses_round [OF assms(1), of name t upd "parts_text (q # ps) @ cs" h s] Cons.prems p by (simp add: part_end_def)
  moreover have "parses e h (rloop recur_round (upd s)) (part_text q @ parts_text ps @ cs) (Some (part_upds (q # ps) (upd s))) cs"
    using Cons by simp
  ultimately show ?case using parses_rloop_continue [OF progress_recur] p by (simp add: part_upds_def)
qed

section \<open>Rules\<close>

lemma parses_part_opt:
  assumes "parses e h (reader_any T) cs (Some v) cs'"
  shows "parses e h (\<lambda>r. upd_with f (part_opt T r)) cs (f (Some v)) cs'"
proof (rule parsesI)
  fix r assume r: "rd_env r = e" "rd_hints r = h" "before cs r"
  obtain q where "reader_any T r = (Some v, r\<lparr>rd_pos := q\<rparr>)" "before cs' (r\<lparr>rd_pos := q\<rparr>)"
    using parsesE [OF assms r] .
  then show "\<exists>q. upd_with f (part_opt T r) = (f (Some v), r\<lparr>rd_pos := q\<rparr>) \<and> before cs' (r\<lparr>rd_pos := q\<rparr>)"
    by (auto simp: upd_with_def part_opt_def)
qed

lemma parses_part_vec:
  assumes "parses e h (reader_any (vec_type T)) cs (Some v) cs'"
  shows "parses e h (\<lambda>r. upd_with f (part_vec T r)) cs (f v) cs'"
proof (rule parsesI)
  fix r assume r: "rd_env r = e" "rd_hints r = h" "before cs r"
  obtain q where "reader_any (vec_type T) r = (Some v, r\<lparr>rd_pos := q\<rparr>)" "before cs' (r\<lparr>rd_pos := q\<rparr>)"
    using parsesE [OF assms r] .
  then show "\<exists>q. upd_with f (part_vec T r) = (f v, r\<lparr>rd_pos := q\<rparr>) \<and> before cs' (r\<lparr>rd_pos := q\<rparr>)"
    by (auto simp: upd_with_def part_vec_def)
qed

lemma part_end_stops:
  assumes "part_end cs"
  shows "param_stop h cs" "no_digit cs" "not_next 90 cs \<and> not_next 84 cs" "peeked cs \<noteq> Some 44"
    "env_ok e \<Longrightarrow> no_ident e cs"
proof -
  have cs: "cs = [] \<or> (\<exists>c. cs = 59 # c) \<or> (\<exists>c. cs = 10 # c)" using assms by (cases cs) (auto simp: part_end_def)
  then show "param_stop h cs" "no_digit cs" "peeked cs \<noteq> Some 44"
    by (auto simp: param_stop_def is_digit_char_def)
  show "not_next 90 cs \<and> not_next 84 cs" using cs by (auto simp: ascii_lower_def)
  show "env_ok e \<Longrightarrow> no_ident e cs" using cs ascii_no_ident [of e] by (auto simp: letter_def)
qed

lemma comma_no_ident: "env_ok e \<Longrightarrow> no_ident e (44 # c)"
  using ascii_no_ident [of e 44] by (simp add: letter_def)

lemma comma_no_digit: "no_digit (44 # c)"
  by (simp add: is_digit_char_def)

text \<open>Lists of values of a type as values of a part.\<close>

context ics_codec
begin

lemma reads_part_vec:
  assumes "env_ok e" and "xs \<noteq> []" and "list_all (ok e) xs" and "part_end cs"
    and "\<And>h cs. part_end cs \<Longrightarrow> stop e h cs" and "\<And>h c. stop e h (44 # c)"
  shows "parses e h (\<lambda>r. upd_with f (part_vec T r)) (vec_text tx xs @ cs) (f xs) cs"
  by (rule parses_part_vec, rule parses_any, rule reads_vec)
    (use assms part_end_stops(4) [OF assms(4)] in auto)

lemma reads_part_opt:
  assumes "env_ok e" and "ok e x" and "part_end cs" and "\<And>h cs. part_end cs \<Longrightarrow> stop e h cs"
  shows "parses e h (\<lambda>r. upd_with f (part_opt T r)) (tx x @ cs) (f (Some x)) cs"
  by (rule parses_part_opt, rule reads_any) (use assms in auto)

end

text \<open>The parts of a rule, in the order they are written.\<close>

definition opt_part :: "string \<Rightarrow> ('a \<Rightarrow> ustring) \<Rightarrow> ('a \<Rightarrow> recur_acc \<Rightarrow> recur_acc) \<Rightarrow> 'a option \<Rightarrow> recur_part list" where
  "opt_part name t upd v = (case v of None \<Rightarrow> [] | Some x \<Rightarrow> [(name, t x, upd x)])"

definition vec_opt :: "'a list \<Rightarrow> 'a list option" where
  "vec_opt xs = (if xs = [] then None else Some xs)"

definition recur_parts :: "recur \<Rightarrow> recur_part list" where
  "recur_parts rc =
     opt_part ''UNTIL'' until_text (\<lambda>x s. s\<lparr>ra_until := Some x\<rparr>) (rc_until rc)
   @ opt_part ''COUNT'' dec_str (\<lambda>x s. s\<lparr>ra_count := Some x\<rparr>) (rc_count rc)
   @ opt_part ''INTERVAL'' dec_str (\<lambda>x s. s\<lparr>ra_interval := Some x\<rparr>) (rc_interval rc)
   @ opt_part ''WKST'' (\<lambda>d. ascii (weekday_str d)) (\<lambda>x s. s\<lparr>ra_wkst := Some x\<rparr>) (rc_wkst rc)
   @ opt_part ''BYSECOND'' (vec_text (\<lambda>x. dec_str (second_num x))) (\<lambda>x s. s\<lparr>ra_by_second := x\<rparr>) (vec_opt (rc_by_second rc))
   @ opt_part ''BYMINUTE'' (vec_text (\<lambda>x. dec_str (minute_num x))) (\<lambda>x s. s\<lparr>ra_by_minute := x\<rparr>) (vec_opt (rc_by_minute rc))
   @ opt_part ''BYHOUR'' (vec_text (\<lambda>x. dec_str (hour_num x))) (\<lambda>x s. s\<lparr>ra_by_hour := x\<rparr>) (vec_opt (rc_by_hour rc))
   @ opt_part ''BYDAY'' (vec_text by_day_text) (\<lambda>x s. s\<lparr>ra_by_day := x\<rparr>) (vec_opt (rc_by_day rc))
   @ opt_part ''BYMONTHDAY'' (vec_text day_c.signed_text) (\<lambda>x s. s\<lparr>ra_by_month_day := x\<rparr>) (vec_opt (rc_by_month_day rc))
   @ opt_part ''BYYEARDAY'' (vec_text day_ordinal_c.signed_text) (\<lambda>x s. s\<lparr>ra_by_year_day := x\<rparr>) (vec_opt (rc_by_year_day rc))
   @ opt_part ''BYWEEKNO'' (vec_text week_ordinal_c.signed_text) (\<lambda>x s. s\<lparr>ra_by_week_no := x\<rparr>) (vec_opt (rc_by_week_no rc))
   @ opt_part ''BYMONTH'' (vec_text (\<lambda>x. dec_str (month_num x))) (\<lambda>x s. s\<lparr>ra_by_month := x\<rparr>) (vec_opt (rc_by_month rc))
   @ opt_part ''BYSETPOS'' (vec_text day_ordinal_c.signed_text) (\<lambda>x s. s\<lparr>ra_by_set_pos := x\<rparr>) (vec_opt (rc_by_set_pos rc))"

definition freq_part :: "recur \<Rightarrow> recur_part" where
  "freq_part rc = (''FREQ'', ascii (freq_str (rc_freq rc)), \<lambda>s. s\<lparr>ra_freq := Some (rc_freq rc)\<rparr>)"

definition recur_text :: "recur \<Rightarrow> ustring" where
  "recur_text rc = part_text (freq_part rc) @ parts_text (recur_parts rc)"

definition signed_ok :: "('a \<Rightarrow> nat) \<Rightarrow> nat \<Rightarrow> 'a signed \<Rightarrow> bool" where
  "signed_ok num hi s = (1 \<le> num (sg_value s) \<and> num (sg_value s) \<le> hi)"

definition recur_ok :: "ics_env \<Rightarrow> recur \<Rightarrow> bool" where
  "recur_ok e rc =
    ((case rc_until rc of None \<Rightarrow> True | Some u \<Rightarrow> until_ok e u)
   \<and> (case rc_count rc of None \<Rightarrow> True | Some n \<Rightarrow> n < 2 ^ 32)
   \<and> (case rc_interval rc of None \<Rightarrow> True | Some n \<Rightarrow> n < 2 ^ 32)
   \<and> list_all (\<lambda>x. second_num x \<le> 60) (rc_by_second rc)
   \<and> list_all (\<lambda>x. minute_num x \<le> 59) (rc_by_minute rc)
   \<and> list_all (\<lambda>x. hour_num x \<le> 23) (rc_by_hour rc)
   \<and> list_all by_day_ok (rc_by_day rc)
   \<and> list_all (signed_ok day_num 31) (rc_by_month_day rc)
   \<and> list_all (signed_ok day_ordinal_num 366) (rc_by_year_day rc)
   \<and> list_all (signed_ok week_ordinal_num 53) (rc_by_week_no rc)
   \<and> list_all (\<lambda>x. 1 \<le> month_num x \<and> month_num x \<le> 12) (rc_by_month rc)
   \<and> list_all (signed_ok day_ordinal_num 366) (rc_by_set_pos rc))"

lemma part_upds_simps [simp]:
  "part_upds [] s = s" "part_upds ((n, t, f) # ps) s = part_upds ps (f s)"
  "part_upds (ps @ qs) s = part_upds qs (part_upds ps s)"
  by (simp_all add: part_upds_def)

lemma opt_part_upd:
  "ra_until s = None \<Longrightarrow> part_upds (opt_part n t_until (\<lambda>x s. s\<lparr>ra_until := Some x\<rparr>) v_until) s = s\<lparr>ra_until := v_until\<rparr>"
  "ra_count s = None \<Longrightarrow> part_upds (opt_part n t_count (\<lambda>x s. s\<lparr>ra_count := Some x\<rparr>) v_count) s = s\<lparr>ra_count := v_count\<rparr>"
  "ra_interval s = None \<Longrightarrow> part_upds (opt_part n t_interval (\<lambda>x s. s\<lparr>ra_interval := Some x\<rparr>) v_interval) s = s\<lparr>ra_interval := v_interval\<rparr>"
  "ra_wkst s = None \<Longrightarrow> part_upds (opt_part n t_wkst (\<lambda>x s. s\<lparr>ra_wkst := Some x\<rparr>) v_wkst) s = s\<lparr>ra_wkst := v_wkst\<rparr>"
  by (cases s; auto simp: opt_part_def split: option.splits)+

lemma vec_part_upd:
  "ra_by_second s = [] \<Longrightarrow> part_upds (opt_part n t_by_second (\<lambda>x s. s\<lparr>ra_by_second := x\<rparr>) (vec_opt v_by_second)) s = s\<lparr>ra_by_second := v_by_second\<rparr>"
  "ra_by_minute s = [] \<Longrightarrow> part_upds (opt_part n t_by_minute (\<lambda>x s. s\<lparr>ra_by_minute := x\<rparr>) (vec_opt v_by_minute)) s = s\<lparr>ra_by_minute := v_by_minute\<rparr>"
  "ra_by_hour s = [] \<Longrightarrow> part_upds (opt_part n t_by_hour (\<lambda>x s. s\<lparr>ra_by_hour := x\<rparr>) (vec_opt v_by_hour)) s = s\<lparr>ra_by_hour := v_by_hour\<rparr>"
  "ra_by_day s = [] \<Longrightarrow> part_upds (opt_part n t_by_day (\<lambda>x s. s\<lparr>ra_by_day := x\<rparr>) (vec_opt v_by_day)) s = s\<lparr>ra_by_day := v_by_day\<rparr>"
  "ra_by_month_day s = [] \<Longrightarrow> part_upds (opt_part n t_by_month_day (\<lambda>x s. s\<lparr>ra_by_month_day := x\<rparr>) (vec_opt v_by_month_day)) s = s\<lparr>ra_by_month_day := v_by_month_day\<rparr>"
  "ra_by_year_day s = [] \<Longrightarrow> part_upds (opt_part n t_by_year_day (\<lambda>x s. s\<lparr>ra_by_year_day := x\<rparr>) (vec_opt v_by_year_day)) s = s\<lparr>ra_by_year_day := v_by_year_day\<rparr>"
  "ra_by_week_no s = [] \<Longrightarrow> part_upds (opt_part n t_by_week_no (\<lambda>x s. s\<lparr>ra_by_week_no := x\<rparr>) (vec_opt v_by_week_no)) s = s\<lparr>ra_by_week_no := v_by_week_no\<rparr>"
  "ra_by_month s = [] \<Longrightarrow> part_upds (opt_part n t_by_month (\<lambda>x s. s\<lparr>ra_by_month := x\<rparr>) (vec_opt v_by_month)) s = s\<lparr>ra_by_month := v_by_month\<rparr>"
  "ra_by_set_pos s = [] \<Longrightarrow> part_upds (opt_part n t_by_set_pos (\<lambda>x s. s\<lparr>ra_by_set_pos := x\<rparr>) (vec_opt v_by_set_pos)) s = s\<lparr>ra_by_set_pos := v_by_set_pos\<rparr>"
  by (cases s; auto simp: opt_part_def vec_opt_def)+

lemma recur_parts_upd:
  "recur_finish pos (part_upds (freq_part rc # recur_parts rc) recur_acc_empty) = rret rc"
  by (cases rc) (simp add: freq_part_def recur_parts_def recur_acc_empty_def opt_part_upd vec_part_upd recur_finish_def)

lemma recur_key_fields:
  "recur_field (Spanned sp (ascii ''UNTIL'')) s = (\<lambda>r. upd_with (\<lambda>v. s\<lparr>ra_until := v\<rparr>) (part_opt dod_value_type r))"
  "recur_field (Spanned sp (ascii ''COUNT'')) s = (\<lambda>r. upd_with (\<lambda>v. s\<lparr>ra_count := v\<rparr>) (part_opt u32_type r))"
  "recur_field (Spanned sp (ascii ''INTERVAL'')) s = (\<lambda>r. upd_with (\<lambda>v. s\<lparr>ra_interval := v\<rparr>) (part_opt u32_type r))"
  "recur_field (Spanned sp (ascii ''WKST'')) s = (\<lambda>r. upd_with (\<lambda>v. s\<lparr>ra_wkst := v\<rparr>) (part_opt weekday_type r))"
  "recur_field (Spanned sp (ascii ''FREQ'')) s = (\<lambda>r. upd_with (\<lambda>v. s\<lparr>ra_freq := v\<rparr>) (part_opt freq_type r))"
  "recur_field (Spanned sp (ascii ''BYSECOND'')) s = (\<lambda>r. upd_with (\<lambda>v. s\<lparr>ra_by_second := v\<rparr>) (part_vec second_type r))"
  "recur_field (Spanned sp (ascii ''BYMINUTE'')) s = (\<lambda>r. upd_with (\<lambda>v. s\<lparr>ra_by_minute := v\<rparr>) (part_vec minute_type r))"
  "recur_field (Spanned sp (ascii ''BYHOUR'')) s = (\<lambda>r. upd_with (\<lambda>v. s\<lparr>ra_by_hour := v\<rparr>) (part_vec hour_type r))"
  "recur_field (Spanned sp (ascii ''BYDAY'')) s = (\<lambda>r. upd_with (\<lambda>v. s\<lparr>ra_by_day := v\<rparr>) (part_vec by_day_type r))"
  "recur_field (Spanned sp (ascii ''BYMONTHDAY'')) s = (\<lambda>r. upd_with (\<lambda>v. s\<lparr>ra_by_month_day := v\<rparr>) (part_vec (signed_type day_type) r))"
  "recur_field (Spanned sp (ascii ''BYYEARDAY'')) s = (\<lambda>r. upd_with (\<lambda>v. s\<lparr>ra_by_year_day := v\<rparr>) (part_vec (signed_type day_ordinal_type) r))"
  "recur_field (Spanned sp (ascii ''BYWEEKNO'')) s = (\<lambda>r. upd_with (\<lambda>v. s\<lparr>ra_by_week_no := v\<rparr>) (part_vec (signed_type week_ordinal_type) r))"
  "recur_field (Spanned sp (ascii ''BYMONTH'')) s = (\<lambda>r. upd_with (\<lambda>v. s\<lparr>ra_by_month := v\<rparr>) (part_vec month_type r))"
  "recur_field (Spanned sp (ascii ''BYSETPOS'')) s = (\<lambda>r. upd_with (\<lambda>v. s\<lparr>ra_by_set_pos := v\<rparr>) (part_vec (signed_type day_ordinal_type) r))"
  by (simp_all add: fun_eq_iff recur_field_def recur_keys_def eq_ignore_case_def ascii_def ascii_lower_def)

lemma recur_key_names:
  "is_name (ascii ''UNTIL'')"
  "is_name (ascii ''COUNT'')"
  "is_name (ascii ''INTERVAL'')"
  "is_name (ascii ''WKST'')"
  "is_name (ascii ''FREQ'')"
  "is_name (ascii ''BYSECOND'')"
  "is_name (ascii ''BYMINUTE'')"
  "is_name (ascii ''BYHOUR'')"
  "is_name (ascii ''BYDAY'')"
  "is_name (ascii ''BYMONTHDAY'')"
  "is_name (ascii ''BYYEARDAY'')"
  "is_name (ascii ''BYWEEKNO'')"
  "is_name (ascii ''BYMONTH'')"
  "is_name (ascii ''BYSETPOS'')"
  by (simp_all add: is_name_def ascii_def letter_def)

lemma reads_part_opt_part:
  assumes "is_name (ascii name)"
    and "\<And>x h sp s cs. v = Some x \<Longrightarrow> part_end cs \<Longrightarrow>
       parses e h (recur_field (Spanned sp (ascii name)) s) (t x @ cs) (upd x s) cs"
  shows "list_all (reads_part e) (opt_part name t upd v)"
  using assms by (simp add: opt_part_def reads_part_def split: option.splits)

lemma reads_part_vec_part:
  assumes "is_name (ascii name)"
    and "\<And>h sp s cs. xs \<noteq> [] \<Longrightarrow> part_end cs \<Longrightarrow>
       parses e h (recur_field (Spanned sp (ascii name)) s) (vec_text t xs @ cs) (upd xs s) cs"
  shows "list_all (reads_part e) (opt_part name (vec_text t) upd (vec_opt xs))"
  using assms by (simp add: opt_part_def vec_opt_def reads_part_def)

lemma unit_oks:
  "second_num x \<le> 60 \<Longrightarrow> second_new (second_num x) = Inr x \<and> second_num x < 2 ^ 32"
  "minute_num y \<le> 59 \<Longrightarrow> minute_new (minute_num y) = Inr y \<and> minute_num y < 2 ^ 32"
  "hour_num z \<le> 23 \<Longrightarrow> hour_new (hour_num z) = Inr z \<and> hour_num z < 2 ^ 32"
  "1 \<le> month_num m \<and> month_num m \<le> 12 \<Longrightarrow> month_new (month_num m) = Inr m \<and> month_num m < 2 ^ 32"
  by (simp_all add: second_new_def minute_new_def hour_new_def month_new_def)

lemma signed_oks:
  "signed_ok day_num 31 d \<Longrightarrow> day_new (day_num (sg_value d)) = Inr (sg_value d) \<and> day_num (sg_value d) < 2 ^ 32"
  "signed_ok day_ordinal_num 366 o1 \<Longrightarrow> day_ordinal_new (day_ordinal_num (sg_value o1)) = Inr (sg_value o1)
     \<and> day_ordinal_num (sg_value o1) < 2 ^ 32"
  "signed_ok week_ordinal_num 53 k \<Longrightarrow> week_ordinal_new (week_ordinal_num (sg_value k)) = Inr (sg_value k)
     \<and> week_ordinal_num (sg_value k) < 2 ^ 32"
  by (simp_all add: signed_ok_def day_new_def day_ordinal_new_def week_ordinal_new_def)

lemmas recur_stops = part_end_stops(1,2,4,5) part_end_stops(3) [THEN conjunct1] part_end_stops(3) [THEN conjunct2]
  comma_no_ident comma_no_digit

lemma list_all_imp: "list_all P xs \<Longrightarrow> (\<And>x. P x \<Longrightarrow> Q x) \<Longrightarrow> list_all Q xs"
  by (simp add: list_all_iff)

lemma recur_opt_reads:
  assumes "env_ok e" and "recur_ok e rc"
  shows "list_all (reads_part e) (opt_part ''UNTIL'' until_text (\<lambda>x s. s\<lparr>ra_until := Some x\<rparr>) (rc_until rc))"
    and "list_all (reads_part e) (opt_part ''COUNT'' dec_str (\<lambda>x s. s\<lparr>ra_count := Some x\<rparr>) (rc_count rc))"
    and "list_all (reads_part e) (opt_part ''INTERVAL'' dec_str (\<lambda>x s. s\<lparr>ra_interval := Some x\<rparr>) (rc_interval rc))"
    and "list_all (reads_part e) (opt_part ''WKST'' (\<lambda>d. ascii (weekday_str d)) (\<lambda>x s. s\<lparr>ra_wkst := Some x\<rparr>) (rc_wkst rc))"
    and "reads_part e (freq_part rc)"
proof -
  note oks = assms(2) [unfolded recur_ok_def]
  show "list_all (reads_part e) (opt_part ''UNTIL'' until_text (\<lambda>x s. s\<lparr>ra_until := Some x\<rparr>) (rc_until rc))"
    by (rule reads_part_opt_part [OF recur_key_names(1)], unfold recur_key_fields, rule until_c.reads_part_opt [OF assms(1)])
      (use oks in \<open>auto intro: recur_stops\<close>)
  show "list_all (reads_part e) (opt_part ''COUNT'' dec_str (\<lambda>x s. s\<lparr>ra_count := Some x\<rparr>) (rc_count rc))"
    by (rule reads_part_opt_part [OF recur_key_names(2)], unfold recur_key_fields, rule u32_c.reads_part_opt [OF assms(1)])
      (use oks in \<open>auto intro: recur_stops\<close>)
  show "list_all (reads_part e) (opt_part ''INTERVAL'' dec_str (\<lambda>x s. s\<lparr>ra_interval := Some x\<rparr>) (rc_interval rc))"
    by (rule reads_part_opt_part [OF recur_key_names(3)], unfold recur_key_fields, rule u32_c.reads_part_opt [OF assms(1)])
      (use oks in \<open>auto intro: recur_stops\<close>)
  show "list_all (reads_part e) (opt_part ''WKST'' (\<lambda>d. ascii (weekday_str d)) (\<lambda>x s. s\<lparr>ra_wkst := Some x\<rparr>) (rc_wkst rc))"
    by (rule reads_part_opt_part [OF recur_key_names(4)], unfold recur_key_fields, rule weekday_c.reads_part_opt [OF assms(1)])
      (use assms(1) in \<open>auto intro: recur_stops\<close>)
  show "reads_part e (freq_part rc)"
    unfolding reads_part_def freq_part_def prod.case recur_key_fields
    by (intro conjI allI impI recur_key_names, rule freq_c.reads_part_opt [OF assms(1)]) (auto intro: recur_stops)
qed

lemma recur_list_oks:
  fixes rc :: recur
  assumes "recur_ok e rc"
  shows "list_all (\<lambda>x. second_new (second_num x) = Inr x \<and> second_num x < 2 ^ 32) (rc_by_second rc)"
    and "list_all (\<lambda>x. minute_new (minute_num x) = Inr x \<and> minute_num x < 2 ^ 32) (rc_by_minute rc)"
    and "list_all (\<lambda>x. hour_new (hour_num x) = Inr x \<and> hour_num x < 2 ^ 32) (rc_by_hour rc)"
    and "list_all (\<lambda>x. day_new (day_num (sg_value x)) = Inr (sg_value x) \<and> day_num (sg_value x) < 2 ^ 32) (rc_by_month_day rc)"
    and "list_all (\<lambda>x. day_ordinal_new (day_ordinal_num (sg_value x)) = Inr (sg_value x) \<and> day_ordinal_num (sg_value x) < 2 ^ 32) (rc_by_year_day rc)"
    and "list_all (\<lambda>x. week_ordinal_new (week_ordinal_num (sg_value x)) = Inr (sg_value x) \<and> week_ordinal_num (sg_value x) < 2 ^ 32) (rc_by_week_no rc)"
    and "list_all (\<lambda>x. month_new (month_num x) = Inr x \<and> month_num x < 2 ^ 32) (rc_by_month rc)"
    and "list_all (\<lambda>x. day_ordinal_new (day_ordinal_num (sg_value x)) = Inr (sg_value x) \<and> day_ordinal_num (sg_value x) < 2 ^ 32) (rc_by_set_pos rc)"
proof -
  note oks = assms [unfolded recur_ok_def]
  show "list_all (\<lambda>x. second_new (second_num x) = Inr x \<and> second_num x < 2 ^ 32) (rc_by_second rc)"
    by (rule list_all_imp [OF _ unit_oks(1)]) (use oks in blast)
  show "list_all (\<lambda>x. minute_new (minute_num x) = Inr x \<and> minute_num x < 2 ^ 32) (rc_by_minute rc)"
    by (rule list_all_imp [OF _ unit_oks(2)]) (use oks in blast)
  show "list_all (\<lambda>x. hour_new (hour_num x) = Inr x \<and> hour_num x < 2 ^ 32) (rc_by_hour rc)"
    by (rule list_all_imp [OF _ unit_oks(3)]) (use oks in blast)
  show "list_all (\<lambda>x. day_new (day_num (sg_value x)) = Inr (sg_value x) \<and> day_num (sg_value x) < 2 ^ 32) (rc_by_month_day rc)"
    by (rule list_all_imp [OF _ signed_oks(1)]) (use oks in blast)
  show "list_all (\<lambda>x. day_ordinal_new (day_ordinal_num (sg_value x)) = Inr (sg_value x) \<and> day_ordinal_num (sg_value x) < 2 ^ 32) (rc_by_year_day rc)"
    by (rule list_all_imp [OF _ signed_oks(2)]) (use oks in blast)
  show "list_all (\<lambda>x. week_ordinal_new (week_ordinal_num (sg_value x)) = Inr (sg_value x) \<and> week_ordinal_num (sg_value x) < 2 ^ 32) (rc_by_week_no rc)"
    by (rule list_all_imp [OF _ signed_oks(3)]) (use oks in blast)
  show "list_all (\<lambda>x. month_new (month_num x) = Inr x \<and> month_num x < 2 ^ 32) (rc_by_month rc)"
    by (rule list_all_imp [OF _ unit_oks(4)]) (use oks in blast)
  show "list_all (\<lambda>x. day_ordinal_new (day_ordinal_num (sg_value x)) = Inr (sg_value x) \<and> day_ordinal_num (sg_value x) < 2 ^ 32) (rc_by_set_pos rc)"
    by (rule list_all_imp [OF _ signed_oks(2)]) (use oks in blast)
qed

lemma recur_vec_reads:
  assumes "env_ok e" and "recur_ok e rc"
  shows "list_all (reads_part e) (opt_part ''BYSECOND'' (vec_text (\<lambda>x. dec_str (second_num x))) (\<lambda>x s. s\<lparr>ra_by_second := x\<rparr>) (vec_opt (rc_by_second rc)))"
    and "list_all (reads_part e) (opt_part ''BYMINUTE'' (vec_text (\<lambda>x. dec_str (minute_num x))) (\<lambda>x s. s\<lparr>ra_by_minute := x\<rparr>) (vec_opt (rc_by_minute rc)))"
    and "list_all (reads_part e) (opt_part ''BYHOUR'' (vec_text (\<lambda>x. dec_str (hour_num x))) (\<lambda>x s. s\<lparr>ra_by_hour := x\<rparr>) (vec_opt (rc_by_hour rc)))"
    and "list_all (reads_part e) (opt_part ''BYDAY'' (vec_text by_day_text) (\<lambda>x s. s\<lparr>ra_by_day := x\<rparr>) (vec_opt (rc_by_day rc)))"
    and "list_all (reads_part e) (opt_part ''BYMONTHDAY'' (vec_text day_c.signed_text) (\<lambda>x s. s\<lparr>ra_by_month_day := x\<rparr>) (vec_opt (rc_by_month_day rc)))"
    and "list_all (reads_part e) (opt_part ''BYYEARDAY'' (vec_text day_ordinal_c.signed_text) (\<lambda>x s. s\<lparr>ra_by_year_day := x\<rparr>) (vec_opt (rc_by_year_day rc)))"
    and "list_all (reads_part e) (opt_part ''BYWEEKNO'' (vec_text week_ordinal_c.signed_text) (\<lambda>x s. s\<lparr>ra_by_week_no := x\<rparr>) (vec_opt (rc_by_week_no rc)))"
    and "list_all (reads_part e) (opt_part ''BYMONTH'' (vec_text (\<lambda>x. dec_str (month_num x))) (\<lambda>x s. s\<lparr>ra_by_month := x\<rparr>) (vec_opt (rc_by_month rc)))"
    and "list_all (reads_part e) (opt_part ''BYSETPOS'' (vec_text day_ordinal_c.signed_text) (\<lambda>x s. s\<lparr>ra_by_set_pos := x\<rparr>) (vec_opt (rc_by_set_pos rc)))"
proof -
  have by_day: "list_all by_day_ok (rc_by_day rc)" using assms(2) by (simp add: recur_ok_def)
  note oks = recur_list_oks [OF assms(2)] by_day
  show "list_all (reads_part e) (opt_part ''BYSECOND'' (vec_text (\<lambda>x. dec_str (second_num x))) (\<lambda>x s. s\<lparr>ra_by_second := x\<rparr>) (vec_opt (rc_by_second rc)))"
    by (rule reads_part_vec_part [OF recur_key_names(6)], unfold recur_key_fields, rule second_c.reads_part_vec [OF assms(1) _ oks(1)])
      (use assms(1) in \<open>auto simp only: intro: recur_stops\<close>)
  show "list_all (reads_part e) (opt_part ''BYMINUTE'' (vec_text (\<lambda>x. dec_str (minute_num x))) (\<lambda>x s. s\<lparr>ra_by_minute := x\<rparr>) (vec_opt (rc_by_minute rc)))"
    by (rule reads_part_vec_part [OF recur_key_names(7)], unfold recur_key_fields, rule minute_c.reads_part_vec [OF assms(1) _ oks(2)])
      (use assms(1) in \<open>auto simp only: intro: recur_stops\<close>)
  show "list_all (reads_part e) (opt_part ''BYHOUR'' (vec_text (\<lambda>x. dec_str (hour_num x))) (\<lambda>x s. s\<lparr>ra_by_hour := x\<rparr>) (vec_opt (rc_by_hour rc)))"
    by (rule reads_part_vec_part [OF recur_key_names(8)], unfold recur_key_fields, rule hour_c.reads_part_vec [OF assms(1) _ oks(3)])
      (use assms(1) in \<open>auto simp only: intro: recur_stops\<close>)
  show "list_all (reads_part e) (opt_part ''BYDAY'' (vec_text by_day_text) (\<lambda>x s. s\<lparr>ra_by_day := x\<rparr>) (vec_opt (rc_by_day rc)))"
    by (rule reads_part_vec_part [OF recur_key_names(9)], unfold recur_key_fields, rule by_day_c.reads_part_vec [OF assms(1) _ by_day])
      (use assms(1) in \<open>auto simp only: intro: recur_stops\<close>)
  show "list_all (reads_part e) (opt_part ''BYMONTHDAY'' (vec_text day_c.signed_text) (\<lambda>x s. s\<lparr>ra_by_month_day := x\<rparr>) (vec_opt (rc_by_month_day rc)))"
    by (rule reads_part_vec_part [OF recur_key_names(10)], unfold recur_key_fields, rule ics_codec.reads_part_vec [OF day_c.signed_codec assms(1) _ oks(4)])
      (use assms(1) in \<open>auto simp only: intro: recur_stops\<close>)
  show "list_all (reads_part e) (opt_part ''BYYEARDAY'' (vec_text day_ordinal_c.signed_text) (\<lambda>x s. s\<lparr>ra_by_year_day := x\<rparr>) (vec_opt (rc_by_year_day rc)))"
    by (rule reads_part_vec_part [OF recur_key_names(11)], unfold recur_key_fields, rule ics_codec.reads_part_vec [OF day_ordinal_c.signed_codec assms(1) _ oks(5)])
      (use assms(1) in \<open>auto simp only: intro: recur_stops\<close>)
  show "list_all (reads_part e) (opt_part ''BYWEEKNO'' (vec_text week_ordinal_c.signed_text) (\<lambda>x s. s\<lparr>ra_by_week_no := x\<rparr>) (vec_opt (rc_by_week_no rc)))"
    by (rule reads_part_vec_part [OF recur_key_names(12)], unfold recur_key_fields, rule ics_codec.reads_part_vec [OF week_ordinal_c.signed_codec assms(1) _ oks(6)])
      (use assms(1) in \<open>auto simp only: intro: recur_stops\<close>)
  show "list_all (reads_part e) (opt_part ''BYMONTH'' (vec_text (\<lambda>x. dec_str (month_num x))) (\<lambda>x s. s\<lparr>ra_by_month := x\<rparr>) (vec_opt (rc_by_month rc)))"
    by (rule reads_part_vec_part [OF recur_key_names(13)], unfold recur_key_fields, rule month_c.reads_part_vec [OF assms(1) _ oks(7)])
      (use assms(1) in \<open>auto simp only: intro: recur_stops\<close>)
  show "list_all (reads_part e) (opt_part ''BYSETPOS'' (vec_text day_ordinal_c.signed_text) (\<lambda>x s. s\<lparr>ra_by_set_pos := x\<rparr>) (vec_opt (rc_by_set_pos rc)))"
    by (rule reads_part_vec_part [OF recur_key_names(14)], unfold recur_key_fields, rule ics_codec.reads_part_vec [OF day_ordinal_c.signed_codec assms(1) _ oks(8)])
      (use assms(1) in \<open>auto simp only: intro: recur_stops\<close>)
qed

subsection \<open>Writing\<close>

definition ends_plain :: "ustring \<Rightarrow> bool" where
  "ends_plain t = (t = [] \<or> last t < 128 \<and> last t \<noteq> 58)"

definition part_plain :: "('a \<Rightarrow> ustring) \<Rightarrow> 'a option \<Rightarrow> bool" where
  "part_plain t v = (case v of None \<Rightarrow> True | Some x \<Rightarrow> ends_plain (t x))"

definition part_writes :: "('a \<Rightarrow> ics_writer \<Rightarrow> ics_writer) \<Rightarrow> ('a \<Rightarrow> ustring) \<Rightarrow> 'a option \<Rightarrow> bool" where
  "part_writes wr t v = (case v of None \<Rightarrow> True | Some x \<Rightarrow> wr x = write_raw (t x))"

lemma write_param_raw:
  assumes "after_name w" and "value = write_raw t"
  shows "write_param name value w = write_raw (59 # ascii name @ 61 # t) w"
proof -
  have "write_raw (59 # ascii name @ 61 # t) w = write_raw (61 # t) (write_raw (ascii name) (write_raw [59] w))"
    by (simp add: write_raw_Cons)
  moreover have "write_raw (61 # t) w' = write_raw t (write_raw [61] w')" for w'
    by (cases "t = []") (simp_all add: write_raw_Cons)
  ultimately show ?thesis using assms by (simp add: write_param_def after_name_def Let_def)
qed

lemma write_param_opt_raw:
  assumes "part_writes wr t v" and "after_name w"
  shows "write_param_opt name wr v w = write_raw (param_opt_text name t v) w"
  using write_param_raw [OF assms(2)] assms(1)
  by (auto simp: write_param_opt_def param_opt_text_def part_writes_def split: option.splits)

lemma after_param_opt:
  assumes "part_plain t v" and "after_name w"
  shows "after_name (write_raw (param_opt_text name t v) w)"
proof (cases v)
  case (Some x)
  have "last (59 # ascii name @ 61 # t x) < 128 \<and> last (59 # ascii name @ 61 # t x) \<noteq> 58"
    using assms(1) Some by (auto simp: part_plain_def ends_plain_def)
  then show ?thesis unfolding after_name_def Some param_opt_text_def
    by (simp only: option.case needs_semicolon_write_raw [OF list.discI [OF refl]] simp_thms)
qed (use assms(2) in \<open>simp add: param_opt_text_def\<close>)

lemma parts_text_opt: "parts_text (opt_part name t upd v) = param_opt_text name t v"
  by (simp add: opt_part_def param_opt_text_def part_text_def split: option.splits)

lemma write_vec_part: "write_param_vec name wr xs w = write_param_opt name (write_vec wr) (vec_opt xs) w"
  by (simp add: write_param_vec_def write_param_opt_def vec_opt_def)

lemma last_vec_text:
  assumes "xs \<noteq> []" and "\<And>x. x \<in> set xs \<Longrightarrow> t x \<noteq> [] \<and> P (last (t x))"
  shows "vec_text t xs \<noteq> [] \<and> P (last (vec_text t xs))"
  using assms by (induction t xs rule: vec_text.induct) auto

lemma digits_plain: "ends_plain (dec_str n)" "ends_plain (pad_str w n)"
  using last_dec_str [of n] last_pad_str [of w n] by (auto simp: ends_plain_def is_digit_char_def)

lemma ascii_last_plain:
  assumes "is_name s"
  shows "s \<noteq> [] \<and> last s < 128 \<and> last s \<noteq> 58"
proof -
  have "s \<noteq> []" and "letter (last s) \<or> last s = 45" using assms by (auto simp: is_name_def list_all_iff)
  then show ?thesis by (auto simp: letter_def)
qed

lemma vec_part_plain:
  assumes "\<And>x. t x \<noteq> []" and "\<And>x. ends_plain (t x)"
  shows "part_plain (vec_text t) (vec_opt xs)"
proof (cases "xs = []")
  case False
  have "vec_text t xs \<noteq> [] \<and> (last (vec_text t xs) < 128 \<and> last (vec_text t xs) \<noteq> 58)"
    by (rule last_vec_text [OF False, of t "\<lambda>c. c < 128 \<and> c \<noteq> 58"]) (use assms in \<open>auto simp: ends_plain_def\<close>)
  then show ?thesis using False by (simp add: part_plain_def vec_opt_def ends_plain_def)
qed (simp add: part_plain_def vec_opt_def)

lemma weekday_plain: "ascii (weekday_str d) \<noteq> []" "ends_plain (ascii (weekday_str d))"
  using ascii_last_plain [OF weekday_name(1)] by (auto simp: ends_plain_def)

lemma ends_plain_append: "t \<noteq> [] \<Longrightarrow> ends_plain t \<Longrightarrow> ends_plain (s @ t)"
  by (simp add: ends_plain_def)

lemma by_day_plain: "by_day_text b \<noteq> []" "ends_plain (by_day_text b)"
proof -
  show "by_day_text b \<noteq> []" using weekday_plain(1) by (auto simp: by_day_text_def split: by_day.splits)
  have "ends_plain ((s @ dec_str n) @ ascii (weekday_str d))" for s n d
    by (rule ends_plain_append [OF weekday_plain])
  then show "ends_plain (by_day_text b)"
    using weekday_plain(2) by (simp add: by_day_text_def split: by_day.splits)
qed

lemma signed_plain:
  "day_c.signed_text d \<noteq> []" "ends_plain (day_c.signed_text d)"
  "day_ordinal_c.signed_text o1 \<noteq> []" "ends_plain (day_ordinal_c.signed_text o1)"
  "week_ordinal_c.signed_text k \<noteq> []" "ends_plain (week_ordinal_c.signed_text k)"
  by (simp_all add: day_c.signed_text_def day_ordinal_c.signed_text_def week_ordinal_c.signed_text_def
      ends_plain_append digits_plain)

lemma until_plain: "ends_plain (until_text u)"
proof -
  have time: "ends_plain (time_text t)" "time_text t \<noteq> []" for t
    by (simp_all add: time_text_def ends_plain_append digits_plain)
  have "ends_plain (date_text d)" for d by (simp add: date_text_def ends_plain_append digits_plain)
  moreover have "ends_plain ((date_text d @ [84]) @ time_text t)" for d t by (rule ends_plain_append [OF time(2,1)])
  then have "ends_plain (ul_text x)" for x
    by (auto simp: ul_text_def dt_text_def) (simp add: ends_plain_def)
  ultimately show ?thesis by (simp add: until_text_def split: date_or_dt.splits)
qed

lemma recur_part_plain:
  "part_plain until_text (rc_until rc)"
  "part_plain dec_str (rc_count rc)"
  "part_plain dec_str (rc_interval rc)"
  "part_plain (\<lambda>d. ascii (weekday_str d)) (rc_wkst rc)"
  "part_plain (vec_text (\<lambda>x. dec_str (second_num x))) (vec_opt (rc_by_second rc))"
  "part_plain (vec_text (\<lambda>x. dec_str (minute_num x))) (vec_opt (rc_by_minute rc))"
  "part_plain (vec_text (\<lambda>x. dec_str (hour_num x))) (vec_opt (rc_by_hour rc))"
  "part_plain (vec_text by_day_text) (vec_opt (rc_by_day rc))"
  "part_plain (vec_text day_c.signed_text) (vec_opt (rc_by_month_day rc))"
  "part_plain (vec_text day_ordinal_c.signed_text) (vec_opt (rc_by_year_day rc))"
  "part_plain (vec_text week_ordinal_c.signed_text) (vec_opt (rc_by_week_no rc))"
  "part_plain (vec_text (\<lambda>x. dec_str (month_num x))) (vec_opt (rc_by_month rc))"
  "part_plain (vec_text day_ordinal_c.signed_text) (vec_opt (rc_by_set_pos rc))"
  by (simp_all add: vec_part_plain digits_plain by_day_plain signed_plain)
    (simp_all add: part_plain_def until_plain digits_plain weekday_plain split: option.splits)

text \<open>Lists are written value by value.\<close>

lemma vec_writes:
  assumes "\<And>x w. wr x w = write_raw (t x) w"
  shows "part_writes (write_vec wr) (vec_text t) (vec_opt xs)"
  using write_vec_text [of xs wr t] assms by (simp add: part_writes_def vec_opt_def fun_eq_iff)

lemma signed_writes:
  "signed_write (\<lambda>x. write_uint (day_num x)) d w = write_raw (day_c.signed_text d) w"
  "signed_write (\<lambda>x. write_uint (day_ordinal_num x)) o1 w = write_raw (day_ordinal_c.signed_text o1) w"
  "signed_write (\<lambda>x. write_uint (week_ordinal_num x)) k w = write_raw (week_ordinal_c.signed_text k) w"
  by (auto simp: signed_write_def sign_write_def write_uint_def day_c.signed_text_def day_ordinal_c.signed_text_def
      week_ordinal_c.signed_text_def split: sign.splits)

lemma by_day_writes: "by_day_write b w = write_raw (by_day_text b) w"
  by (auto simp: by_day_write_def by_day_text_def weekday_write_def write_sint_def split: by_day.splits)

lemma until_writes: "dod_value_write u w = write_raw (until_text u) w"
proof (cases u)
  case (DDate d)
  then show ?thesis by (simp add: dod_value_write_def until_text_def date_write_def date_text_def)
next
  case (DDateTime d)
  then show ?thesis by (simp add: dod_value_write_def until_text_def dt_ul_write_def write_date_time ul_text_def)
qed

lemma recur_part_writes:
  "part_writes dod_value_write until_text (rc_until rc)"
  "part_writes write_uint dec_str (rc_count rc)"
  "part_writes write_uint dec_str (rc_interval rc)"
  "part_writes weekday_write (\<lambda>d. ascii (weekday_str d)) (rc_wkst rc)"
  "part_writes (write_vec (\<lambda>x. write_uint (second_num x))) (vec_text (\<lambda>x. dec_str (second_num x))) (vec_opt (rc_by_second rc))"
  "part_writes (write_vec (\<lambda>x. write_uint (minute_num x))) (vec_text (\<lambda>x. dec_str (minute_num x))) (vec_opt (rc_by_minute rc))"
  "part_writes (write_vec (\<lambda>x. write_uint (hour_num x))) (vec_text (\<lambda>x. dec_str (hour_num x))) (vec_opt (rc_by_hour rc))"
  "part_writes (write_vec by_day_write) (vec_text by_day_text) (vec_opt (rc_by_day rc))"
  "part_writes (write_vec (signed_write (\<lambda>x. write_uint (day_num x)))) (vec_text day_c.signed_text) (vec_opt (rc_by_month_day rc))"
  "part_writes (write_vec (signed_write (\<lambda>x. write_uint (day_ordinal_num x)))) (vec_text day_ordinal_c.signed_text) (vec_opt (rc_by_year_day rc))"
  "part_writes (write_vec (signed_write (\<lambda>x. write_uint (week_ordinal_num x)))) (vec_text week_ordinal_c.signed_text) (vec_opt (rc_by_week_no rc))"
  "part_writes (write_vec (\<lambda>x. write_uint (month_num x))) (vec_text (\<lambda>x. dec_str (month_num x))) (vec_opt (rc_by_month rc))"
  "part_writes (write_vec (signed_write (\<lambda>x. write_uint (day_ordinal_num x)))) (vec_text day_ordinal_c.signed_text) (vec_opt (rc_by_set_pos rc))"
  by (simp_all add: vec_writes by_day_writes signed_writes)
    (simp_all add: vec_writes write_uint_def, simp_all add: part_writes_def until_writes weekday_write_def write_uint_def fun_eq_iff split: option.splits)

lemma recur_writes: "recur_write rc w = write_raw (recur_text rc) w"
proof -
  have freq: "freq_write f (write_raw (ascii ''FREQ='') w) = write_raw (ascii ''FREQ'' @ 61 # ascii (freq_str f)) w" for f
  proof -
    have "ascii ''FREQ='' = ascii ''FREQ'' @ [61]" by (simp add: ascii_def)
    then have "write_raw (ascii ''FREQ'' @ 61 # ascii (freq_str f)) w = write_raw (ascii ''FREQ='' @ ascii (freq_str f)) w"
      by (metis append.assoc append_Cons append_Nil)
    then show ?thesis by (simp add: freq_write_def)
  qed
  have plain: "after_name (write_raw (ascii ''FREQ'' @ 61 # ascii (freq_str f)) w)" for f
    unfolding after_name_def using ascii_last_plain [OF freq_name(1), of f]
    by (subst needs_semicolon_write_raw) auto
  note steps = recur_part_writes [THEN write_param_opt_raw] recur_part_plain [THEN after_param_opt] plain
  show ?thesis
    unfolding recur_write_def Let_def write_vec_part recur_text_def recur_parts_def freq_part_def part_text_def prod.case
      parts_text_append parts_text_opt freq
    by (simp only: steps) (simp only: write_raw_append)
qed

lemma clean_param_opt:
  assumes "is_name (ascii name)" and "\<And>x. v = Some x \<Longrightarrow> clean_text (t x)"
  shows "clean_text (param_opt_text name t v)"
  using assms name_clean by (auto simp: param_opt_text_def scalar_def split: option.splits)

lemma clean_vec_opt:
  assumes "is_name (ascii name)" and "\<And>x. clean_text (t x)"
  shows "clean_text (param_opt_text name (vec_text t) (vec_opt xs))"
  by (rule clean_param_opt [OF assms(1)]) (use assms(2) in \<open>auto intro: clean_vec_text\<close>)

lemma clean_parts:
  "clean_text (until_text u)" "clean_text (by_day_text b)" "clean_text (ascii (weekday_str d))"
  "clean_text (ascii (freq_str f))" "clean_text (day_c.signed_text sd)"
  "clean_text (day_ordinal_c.signed_text so)" "clean_text (week_ordinal_c.signed_text sw)"
  by (auto simp: until_text_def by_day_text_def date_text_def ul_text_def scalar_def name_clean freq_name weekday_name
      day_c.signed_text_def day_ordinal_c.signed_text_def week_ordinal_c.signed_text_def
      split: date_or_dt.splits by_day.splits sign.splits)

lemma recur_clean: "clean_text (recur_text rc)"
  unfolding recur_text_def recur_parts_def freq_part_def part_text_def prod.case parts_text_append parts_text_opt
  by (simp add: clean_param_opt clean_vec_opt recur_key_names name_clean clean_parts scalar_def)

interpretation recur_c: ics_codec recur_type recur_text recur_ok "\<lambda>e h cs. peeked cs \<in> {None, Some 10}" recur_write
proof
  fix e rc h cs assume e: "env_ok e" and rc: "recur_ok e rc" and stop: "peeked cs \<in> {None, Some 10}"
  have "list_all (reads_part e) (freq_part rc # recur_parts rc)"
    using recur_opt_reads [OF e rc] recur_vec_reads [OF e rc] by (simp add: recur_parts_def)
  then have "parses e h (rbind (rloop recur_round recur_acc_empty) (recur_finish pos)) (recur_text rc @ cs) (Some rc) cs" for pos
    unfolding recur_text_def append_assoc
    by (rule parses_rbind [OF parses_parts [OF e _ stop]]) (simp only: recur_parts_upd parses_rret)
  then show "parses e h (ty_read recur_type) (recur_text rc @ cs) (Some rc) cs"
    unfolding parses_def by (simp add: recur_type_def plain_type_def recur_read_def)
qed (simp_all add: recur_writes shrinks_recur recur_clean)

end
