(* ===== verification/Ics_Objects.thy ===== *)
theory Ics_Objects
  imports Ics_Recur
begin

text \<open>
  Properties and parameters of calendar objects (\<open>shared/ical/src/objects/*.rs\<close>): enumerations,
  properties that wrap a value, addresses, organizers, attendees, triggers, exception dates.
  Each has its data, its parser, its printer and its descriptor (name, parser, default).
\<close>

section \<open>Properties that are a colon and a value\<close>

text \<open>\<open>r.burn_params()?; Some(Self { value: r.value()? })\<close>.\<close>

definition value_prop_read :: "'a ics_type \<Rightarrow> ('a \<Rightarrow> 'b) \<Rightarrow> 'b rd" where
  "value_prop_read T new = rbind burn_params (\<lambda>_. rbind (reader_any T) (\<lambda>v. rret (new v)))"

text \<open>\<open>w.raw(":"); w.value(...)\<close>.\<close>

definition value_prop_write :: "('a \<Rightarrow> ics_writer \<Rightarrow> ics_writer) \<Rightarrow> 'a \<Rightarrow> ics_writer \<Rightarrow> ics_writer" where
  "value_prop_write wr v w = wr v (write_raw [58] w)"

datatype summary = Summary (summary_value: ics_text)

definition summary_read :: "summary rd" where
  "summary_read = value_prop_read text_type Summary"

definition summary_type :: "summary ics_type" where
  "summary_type = plain_type ''Summary'' summary_read"

definition summary_write :: "summary \<Rightarrow> ics_writer \<Rightarrow> ics_writer" where
  "summary_write x = value_prop_write text_write (summary_value x)"

datatype description = Description (description_value: ics_text)

definition description_read :: "description rd" where
  "description_read = value_prop_read text_type Description"

definition description_type :: "description ics_type" where
  "description_type = plain_type ''Description'' description_read"

definition description_write :: "description \<Rightarrow> ics_writer \<Rightarrow> ics_writer" where
  "description_write x = value_prop_write text_write (description_value x)"

datatype location = Location (location_value: ics_text)

definition location_read :: "location rd" where
  "location_read = value_prop_read text_type Location"

definition location_type :: "location ics_type" where
  "location_type = plain_type ''Location'' location_read"

definition location_write :: "location \<Rightarrow> ics_writer \<Rightarrow> ics_writer" where
  "location_write x = value_prop_write text_write (location_value x)"

datatype uid = Uid (uid_value: ics_text)

definition uid_read :: "uid rd" where
  "uid_read = value_prop_read text_type Uid"

definition uid_type :: "uid ics_type" where
  "uid_type = plain_type ''Uid'' uid_read"

definition uid_write :: "uid \<Rightarrow> ics_writer \<Rightarrow> ics_writer" where
  "uid_write x = value_prop_write text_write (uid_value x)"

datatype tz_name = TzName (tz_name_value: ics_text)

definition tz_name_read :: "tz_name rd" where
  "tz_name_read = value_prop_read text_type TzName"

definition tz_name_type :: "tz_name ics_type" where
  "tz_name_type = plain_type ''TzName'' tz_name_read"

definition tz_name_write :: "tz_name \<Rightarrow> ics_writer \<Rightarrow> ics_writer" where
  "tz_name_write x = value_prop_write text_write (tz_name_value x)"

datatype prod_id = ProdId (prod_id_value: ics_text)

definition prod_id_read :: "prod_id rd" where
  "prod_id_read = value_prop_read text_type ProdId"

definition prod_id_of_string :: "ustring \<Rightarrow> prod_id" where
  "prod_id_of_string s = ProdId (text_new s)"

definition prod_id_type :: "prod_id ics_type" where
  "prod_id_type = \<lparr>ty_name = ''ProdId'', ty_read = prod_id_read,
     ty_default = Some (prod_id_of_string (ascii ''UNKNOWN''))\<rparr>"

definition prod_id_write :: "prod_id \<Rightarrow> ics_writer \<Rightarrow> ics_writer" where
  "prod_id_write x = value_prop_write text_write (prod_id_value x)"

datatype sequence = Sequence (sequence_value: nat)

definition sequence_read :: "sequence rd" where
  "sequence_read = value_prop_read u32_type Sequence"

definition sequence_type :: "sequence ics_type" where
  "sequence_type = plain_type ''Sequence'' sequence_read"

definition sequence_write :: "sequence \<Rightarrow> ics_writer \<Rightarrow> ics_writer" where
  "sequence_write x = value_prop_write write_uint (sequence_value x)"

datatype repeat = Repeat (repeat_value: nat)

definition repeat_read :: "repeat rd" where
  "repeat_read = value_prop_read u32_type Repeat"

definition repeat_type :: "repeat ics_type" where
  "repeat_type = plain_type ''Repeat'' repeat_read"

definition repeat_write :: "repeat \<Rightarrow> ics_writer \<Rightarrow> ics_writer" where
  "repeat_write x = value_prop_write write_uint (repeat_value x)"

datatype tz_offset_from = TzOffsetFrom (tz_offset_from_value: utc_offset)

definition tz_offset_from_read :: "tz_offset_from rd" where
  "tz_offset_from_read = value_prop_read utc_offset_type TzOffsetFrom"

definition tz_offset_from_type :: "tz_offset_from ics_type" where
  "tz_offset_from_type = plain_type ''TzOffsetFrom'' tz_offset_from_read"

definition tz_offset_from_write :: "tz_offset_from \<Rightarrow> ics_writer \<Rightarrow> ics_writer" where
  "tz_offset_from_write x = value_prop_write utc_offset_write (tz_offset_from_value x)"

datatype tz_offset_to = TzOffsetTo (tz_offset_to_value: utc_offset)

definition tz_offset_to_read :: "tz_offset_to rd" where
  "tz_offset_to_read = value_prop_read utc_offset_type TzOffsetTo"

definition tz_offset_to_type :: "tz_offset_to ics_type" where
  "tz_offset_to_type = plain_type ''TzOffsetTo'' tz_offset_to_read"

definition tz_offset_to_write :: "tz_offset_to \<Rightarrow> ics_writer \<Rightarrow> ics_writer" where
  "tz_offset_to_write x = value_prop_write utc_offset_write (tz_offset_to_value x)"

datatype rrule = RRule (rrule_value: recur)

definition rrule_read :: "rrule rd" where
  "rrule_read = value_prop_read recur_type RRule"

definition rrule_type :: "rrule ics_type" where
  "rrule_type = plain_type ''RRule'' rrule_read"

definition rrule_write :: "rrule \<Rightarrow> ics_writer \<Rightarrow> ics_writer" where
  "rrule_write x = value_prop_write recur_write (rrule_value x)"

section \<open>Properties that are dates\<close>

datatype created = Created (created_value: "any_form date_time")

definition created_read :: "created rd" where
  "created_read = rbind (reader_any dt_any_type) (\<lambda>v. rret (Created v))"

definition created_type :: "created ics_type" where
  "created_type = plain_type ''Created'' created_read"

definition created_write :: "created \<Rightarrow> ics_writer \<Rightarrow> ics_writer" where
  "created_write x = dt_any_write (created_value x)"

datatype dt_stamp = DtStamp (dt_stamp_value: "any_form date_time")

definition dt_stamp_read :: "dt_stamp rd" where
  "dt_stamp_read = rbind (reader_any dt_any_type) (\<lambda>v. rret (DtStamp v))"

definition dt_stamp_type :: "dt_stamp ics_type" where
  "dt_stamp_type = plain_type ''DtStamp'' dt_stamp_read"

definition dt_stamp_write :: "dt_stamp \<Rightarrow> ics_writer \<Rightarrow> ics_writer" where
  "dt_stamp_write x = dt_any_write (dt_stamp_value x)"

datatype dt_start = DtStart (dt_start_value: "any_form date_or_dt")

definition dt_start_read :: "dt_start rd" where
  "dt_start_read = rbind (reader_any dod_type) (\<lambda>v. rret (DtStart v))"

definition dt_start_type :: "dt_start ics_type" where
  "dt_start_type = plain_type ''DtStart'' dt_start_read"

definition dt_start_write :: "dt_start \<Rightarrow> ics_writer \<Rightarrow> ics_writer" where
  "dt_start_write x = dod_write (dt_start_value x)"

datatype dt_end = DtEnd (dt_end_value: "any_form date_or_dt")

definition dt_end_read :: "dt_end rd" where
  "dt_end_read = rbind (reader_any dod_type) (\<lambda>v. rret (DtEnd v))"

definition dt_end_type :: "dt_end ics_type" where
  "dt_end_type = plain_type ''DtEnd'' dt_end_read"

definition dt_end_write :: "dt_end \<Rightarrow> ics_writer \<Rightarrow> ics_writer" where
  "dt_end_write x = dod_write (dt_end_value x)"

datatype recurrence_id = RecurrenceId (recurrence_id_value: "any_form date_or_dt")

definition recurrence_id_read :: "recurrence_id rd" where
  "recurrence_id_read = rbind (reader_any dod_type) (\<lambda>v. rret (RecurrenceId v))"

definition recurrence_id_type :: "recurrence_id ics_type" where
  "recurrence_id_type = plain_type ''RecurrenceId'' recurrence_id_read"

definition recurrence_id_write :: "recurrence_id \<Rightarrow> ics_writer \<Rightarrow> ics_writer" where
  "recurrence_id_write x = dod_write (recurrence_id_value x)"

section \<open>Enumerations\<close>

text \<open>The value of a property is the rest of its line, \<open>r.spanned(|r| Some(r.rest()))\<close>, and is
  looked up in a table; \<open>other\<close> is the branch of a name that is not there.\<close>

definition enum_prop_read :: "(string \<times> 'a) list \<Rightarrow> (ustring spanned \<Rightarrow> 'a rd) \<Rightarrow> 'a rd" where
  "enum_prop_read names other = rbind burn_params (\<lambda>_. rbind (reader_spanned reader_rest) (\<lambda>s.
     case match_name names (sp_value s) of Some v \<Rightarrow> rret v | None \<Rightarrow> other s))"

text \<open>The value of a parameter is a \<open>Spanned<ParamValue>\<close>.\<close>

definition enum_value_read :: "(string \<times> 'a) list \<Rightarrow> (ustring spanned \<Rightarrow> 'a rd) \<Rightarrow> 'a rd" where
  "enum_value_read names other = rbind (reader_any (spanned_type param_value_type)) (\<lambda>s.
     case match_name names (pv_value (sp_value s)) of
       Some v \<Rightarrow> rret v | None \<Rightarrow> other (spanned_map pv_value s))"

definition unknown_value :: "string \<Rightarrow> ustring spanned \<Rightarrow> 'a rd \<Rightarrow> 'a rd" where
  "unknown_value what s k = rerror (Some (sp_span s)) (MsgBody what [sp_value s]) k"

datatype status = StTentative | StConfirmed | StCancelled

definition status_names :: "(string \<times> status) list" where
  "status_names = [(''TENTATIVE'', StTentative), (''CONFIRMED'', StConfirmed), (''CANCELLED'', StCancelled)]"

definition status_read :: "status rd" where
  "status_read = enum_prop_read status_names (\<lambda>s. if eq_ignore_case (sp_value s) (ascii ''ACCEPTED'') \<or> eq_ignore_case (sp_value s) (ascii ''UPDATED'')
     then rwarn (Some (sp_span s)) (MsgBody ''quirky status `{value}`'' [sp_value s]) rfail
     else unknown_value ''unknown status `{value}`'' s rfail)"

definition status_type :: "status ics_type" where
  "status_type = plain_type ''Status'' status_read"

definition status_str :: "status \<Rightarrow> string" where
  "status_str x = (case x of StTentative \<Rightarrow> ''TENTATIVE'' | StConfirmed \<Rightarrow> ''CONFIRMED'' | StCancelled \<Rightarrow> ''CANCELLED'')"

definition status_write :: "status \<Rightarrow> ics_writer \<Rightarrow> ics_writer" where
  "status_write x = write_raw (58 # ascii (status_str x))"

datatype ics_class = ClPublic | ClPrivate | ClConfidential

definition ics_class_names :: "(string \<times> ics_class) list" where
  "ics_class_names = [(''PUBLIC'', ClPublic), (''PRIVATE'', ClPrivate), (''CONFIDENTIAL'', ClConfidential)]"

definition ics_class_read :: "ics_class rd" where
  "ics_class_read = enum_prop_read ics_class_names (\<lambda>s. unknown_value ''unknown classification `{value}`'' s (rret ClPrivate))"

definition ics_class_type :: "ics_class ics_type" where
  "ics_class_type = plain_type ''Class'' ics_class_read"

definition ics_class_str :: "ics_class \<Rightarrow> string" where
  "ics_class_str x = (case x of ClPublic \<Rightarrow> ''PUBLIC'' | ClPrivate \<Rightarrow> ''PRIVATE'' | ClConfidential \<Rightarrow> ''CONFIDENTIAL'')"

definition ics_class_write :: "ics_class \<Rightarrow> ics_writer \<Rightarrow> ics_writer" where
  "ics_class_write x = write_raw (58 # ascii (ics_class_str x))"

datatype transp = TrOpaque | TrTransparent

definition transp_names :: "(string \<times> transp) list" where
  "transp_names = [(''OPAQUE'', TrOpaque), (''TRANSPARENT'', TrTransparent)]"

definition transp_read :: "transp rd" where
  "transp_read = enum_prop_read transp_names (\<lambda>s. unknown_value ''unknown time transparency `{value}`'' s rfail)"

definition transp_type :: "transp ics_type" where
  "transp_type = plain_type ''Transp'' transp_read"

definition transp_str :: "transp \<Rightarrow> string" where
  "transp_str x = (case x of TrOpaque \<Rightarrow> ''OPAQUE'' | TrTransparent \<Rightarrow> ''TRANSPARENT'')"

definition transp_write :: "transp \<Rightarrow> ics_writer \<Rightarrow> ics_writer" where
  "transp_write x = write_raw (58 # ascii (transp_str x))"

datatype ics_method = MePublish | MeRequest | MeReply | MeAdd | MeCancel | MeRefresh | MeCounter | MeDeclineCounter

definition ics_method_names :: "(string \<times> ics_method) list" where
  "ics_method_names = [(''PUBLISH'', MePublish), (''REQUEST'', MeRequest), (''REPLY'', MeReply), (''ADD'', MeAdd), (''CANCEL'', MeCancel), (''REFRESH'', MeRefresh), (''COUNTER'', MeCounter), (''DECLINECOUNTER'', MeDeclineCounter)]"

definition ics_method_read :: "ics_method rd" where
  "ics_method_read = enum_prop_read ics_method_names (\<lambda>s. unknown_value ''unknown method `{value}`'' s rfail)"

definition ics_method_type :: "ics_method ics_type" where
  "ics_method_type = plain_type ''Method'' ics_method_read"

definition ics_method_str :: "ics_method \<Rightarrow> string" where
  "ics_method_str x = (case x of MePublish \<Rightarrow> ''PUBLISH'' | MeRequest \<Rightarrow> ''REQUEST'' | MeReply \<Rightarrow> ''REPLY'' | MeAdd \<Rightarrow> ''ADD'' | MeCancel \<Rightarrow> ''CANCEL'' | MeRefresh \<Rightarrow> ''REFRESH'' | MeCounter \<Rightarrow> ''COUNTER'' | MeDeclineCounter \<Rightarrow> ''DECLINECOUNTER'')"

definition ics_method_write :: "ics_method \<Rightarrow> ics_writer \<Rightarrow> ics_writer" where
  "ics_method_write x = write_raw (58 # ascii (ics_method_str x))"

datatype cal_scale = Gregorian

definition cal_scale_names :: "(string \<times> cal_scale) list" where
  "cal_scale_names = [(''GREGORIAN'', Gregorian)]"

definition cal_scale_read :: "cal_scale rd" where
  "cal_scale_read = enum_prop_read cal_scale_names (\<lambda>s. unknown_value ''unknown calscale `{value}`'' s rfail)"

definition cal_scale_type :: "cal_scale ics_type" where
  "cal_scale_type = \<lparr>ty_name = ''CalScale'', ty_read = cal_scale_read, ty_default = Some Gregorian\<rparr>"

definition cal_scale_str :: "cal_scale \<Rightarrow> string" where
  "cal_scale_str x = (case x of Gregorian \<Rightarrow> ''GREGORIAN'')"

definition cal_scale_write :: "cal_scale \<Rightarrow> ics_writer \<Rightarrow> ics_writer" where
  "cal_scale_write x = write_raw (58 # ascii (cal_scale_str x))"

datatype alarm_action = AcDisplay | AcEmail

definition alarm_action_names :: "(string \<times> alarm_action) list" where
  "alarm_action_names = [(''DISPLAY'', AcDisplay), (''EMAIL'', AcEmail)]"

definition alarm_action_read :: "alarm_action rd" where
  "alarm_action_read = enum_prop_read alarm_action_names (\<lambda>s. unknown_value ''unknown alarm action `{value}`'' s rfail)"

definition alarm_action_type :: "alarm_action ics_type" where
  "alarm_action_type = plain_type ''VAlarmAction'' alarm_action_read"

definition alarm_action_str :: "alarm_action \<Rightarrow> string" where
  "alarm_action_str x = (case x of AcDisplay \<Rightarrow> ''DISPLAY'' | AcEmail \<Rightarrow> ''EMAIL'')"

definition alarm_action_write :: "alarm_action \<Rightarrow> ics_writer \<Rightarrow> ics_writer" where
  "alarm_action_write x = write_raw (58 # ascii (alarm_action_str x))"

datatype cu_type = CuIndividual | CuGroup | CuResource | CuRoom | CuUnknown

definition cu_type_names :: "(string \<times> cu_type) list" where
  "cu_type_names = [(''INDIVIDUAL'', CuIndividual), (''GROUP'', CuGroup), (''RESOURCE'', CuResource), (''ROOM'', CuRoom), (''UNKNOWN'', CuUnknown)]"

definition cu_type_read :: "cu_type rd" where
  "cu_type_read = enum_value_read cu_type_names (\<lambda>s. unknown_value ''unknown cutype `{value}`'' s (rret CuUnknown))"

definition cu_type_type :: "cu_type ics_type" where
  "cu_type_type = plain_type ''CuType'' cu_type_read"

definition cu_type_str :: "cu_type \<Rightarrow> string" where
  "cu_type_str x = (case x of CuIndividual \<Rightarrow> ''INDIVIDUAL'' | CuGroup \<Rightarrow> ''GROUP'' | CuResource \<Rightarrow> ''RESOURCE'' | CuRoom \<Rightarrow> ''ROOM'' | CuUnknown \<Rightarrow> ''UNKNOWN'')"

definition cu_type_write :: "cu_type \<Rightarrow> ics_writer \<Rightarrow> ics_writer" where
  "cu_type_write x = write_raw (ascii (cu_type_str x))"

datatype role = RoChair | RoReq | RoOpt | RoNon

definition role_names :: "(string \<times> role) list" where
  "role_names = [(''CHAIR'', RoChair), (''REQ-PARTICIPANT'', RoReq), (''OPT-PARTICIPANT'', RoOpt), (''NON-PARTICIPANT'', RoNon)]"

definition role_read :: "role rd" where
  "role_read = enum_value_read role_names (\<lambda>s. unknown_value ''unknown role `{value}`'' s (rret RoReq))"

definition role_type :: "role ics_type" where
  "role_type = plain_type ''Role'' role_read"

definition role_str :: "role \<Rightarrow> string" where
  "role_str x = (case x of RoChair \<Rightarrow> ''CHAIR'' | RoReq \<Rightarrow> ''REQ-PARTICIPANT'' | RoOpt \<Rightarrow> ''OPT-PARTICIPANT'' | RoNon \<Rightarrow> ''NON-PARTICIPANT'')"

definition role_write :: "role \<Rightarrow> ics_writer \<Rightarrow> ics_writer" where
  "role_write x = write_raw (ascii (role_str x))"

datatype part_stat = PsNeedsAction | PsAccepted | PsDeclined | PsTentative | PsDelegated

definition part_stat_names :: "(string \<times> part_stat) list" where
  "part_stat_names = [(''NEEDS-ACTION'', PsNeedsAction), (''ACCEPTED'', PsAccepted), (''DECLINED'', PsDeclined), (''TENTATIVE'', PsTentative), (''DELEGATED'', PsDelegated)]"

definition part_stat_read :: "part_stat rd" where
  "part_stat_read = enum_value_read part_stat_names (\<lambda>s. unknown_value ''unknown participation status `{value}`'' s (rret PsNeedsAction))"

definition part_stat_type :: "part_stat ics_type" where
  "part_stat_type = plain_type ''PartStat'' part_stat_read"

definition part_stat_str :: "part_stat \<Rightarrow> string" where
  "part_stat_str x = (case x of PsNeedsAction \<Rightarrow> ''NEEDS-ACTION'' | PsAccepted \<Rightarrow> ''ACCEPTED'' | PsDeclined \<Rightarrow> ''DECLINED'' | PsTentative \<Rightarrow> ''TENTATIVE'' | PsDelegated \<Rightarrow> ''DELEGATED'')"

definition part_stat_write :: "part_stat \<Rightarrow> ics_writer \<Rightarrow> ics_writer" where
  "part_stat_write x = write_raw (ascii (part_stat_str x))"

datatype rsvp = Rsvp (rsvp_bool: bool)

definition rsvp_names :: "(string \<times> rsvp) list" where
  "rsvp_names = [(''TRUE'', Rsvp True), (''FALSE'', Rsvp False)]"

definition rsvp_read :: "rsvp rd" where
  "rsvp_read = enum_value_read rsvp_names (\<lambda>s. unknown_value ''unknown rsvp `{value}`'' s rfail)"

definition rsvp_type :: "rsvp ics_type" where
  "rsvp_type = plain_type ''Rsvp'' rsvp_read"

definition rsvp_write :: "rsvp \<Rightarrow> ics_writer \<Rightarrow> ics_writer" where
  "rsvp_write x = write_bool (rsvp_bool x)"

text \<open>The version is \<open>2\<close>, alone or with a minor number.\<close>

datatype version = VersionTwo

definition is_version_two :: "ustring \<Rightarrow> bool" where
  "is_version_two s = (s = ascii ''2'' \<or> take 2 s = ascii ''2.'')"

definition version_read :: "version rd" where
  "version_read = rbind burn_params (\<lambda>_. rbind (reader_spanned reader_rest) (\<lambda>s.
     if is_version_two (sp_value s) then rret VersionTwo
     else unknown_value ''unknown version `{value}`'' s rfail))"

definition version_type :: "version ics_type" where
  "version_type = \<lparr>ty_name = ''Version'', ty_read = version_read, ty_default = Some VersionTwo\<rparr>"

definition version_write :: "version \<Rightarrow> ics_writer \<Rightarrow> ics_writer" where
  "version_write x = (case x of VersionTwo \<Rightarrow> write_raw (ascii '':2.0''))"

section \<open>Priorities\<close>

datatype priority = Priority (priority_num: nat)

definition priority_new :: "nat \<Rightarrow> priority" where
  "priority_new n = Priority (min n 9)"

definition priority_undefined :: priority where "priority_undefined = Priority 0"
definition priority_highest :: priority where "priority_highest = Priority 1"
definition priority_lowest :: priority where "priority_lowest = Priority 9"

definition priority_of_u32 :: "nat \<Rightarrow> priority" where
  "priority_of_u32 n = priority_new (min n 9)"

definition priority_read :: "priority rd" where
  "priority_read = rbind burn_params (\<lambda>_. rbind (reader_spanned (reader_any u32_type)) (\<lambda>s.
     if sp_value s \<le> priority_num priority_lowest then rret (Priority (sp_value s))
     else rerror (Some (sp_span s)) (MsgBody ''unknown priority `{value}`'' [dec_str (sp_value s)]) rfail))"

definition priority_type :: "priority ics_type" where
  "priority_type = plain_type ''Priority'' priority_read"

definition priority_write :: "priority \<Rightarrow> ics_writer \<Rightarrow> ics_writer" where
  "priority_write p w = write_uint (priority_num p) (write_raw [58] w)"

section \<open>Addresses\<close>

datatype email_address = EmailAddress (email_text: ics_text)
datatype url_address = UrlAddress (url_text: ics_text)
datatype cal_address = CaEmail email_address | CaUrl url_address

definition email_address_of_string :: "ustring \<Rightarrow> email_address" where
  "email_address_of_string s = EmailAddress (text_new s)"

text \<open>The guess that what follows is an address without its prefix.\<close>

definition email_guess :: "ics_text spanned rd" where
  "email_guess r = rbind (reader_spanned (reader_attempt text_read)) (\<lambda>v.
     if env_email (rd_env r) (text_str (sp_value v)) then rret v else rfail) r"

definition email_address_read :: "email_address rd" where
  "email_address_read =
    rcase (reader_try_string (ascii ''mailto:''))
      (\<lambda>_. rbind (reader_any text_type) (\<lambda>t. rret (EmailAddress t)))
      (rcase (reader_attempt email_guess)
         (\<lambda>v. rwarn (Some (sp_span v)) (plain_body ''quirky email address (missing `mailto:`)'')
            (rret (EmailAddress (sp_value v))))
         (\<lambda>r. rerror (Some (span_one (pos_lc (rd_pos r)))) (plain_body ''expected an email address (mailto:)'') rfail r))"

definition email_address_type :: "email_address ics_type" where
  "email_address_type = plain_type ''EmailAddress'' email_address_read"

definition email_address_write :: "email_address \<Rightarrow> ics_writer \<Rightarrow> ics_writer" where
  "email_address_write a w = text_write (email_text a) (write_raw (ascii ''mailto:'') w)"

definition email_prop_read :: "email_address rd" where
  "email_prop_read = rbind burn_params (\<lambda>_. reader_any email_address_type)"

definition email_prop_type :: "email_address ics_type" where
  "email_prop_type = plain_type ''EmailAddress'' email_prop_read"

definition email_prop_write :: "email_address \<Rightarrow> ics_writer \<Rightarrow> ics_writer" where
  "email_prop_write a w = email_address_write a (write_raw [58] w)"

definition url_address_read :: "url_address rd" where
  "url_address_read = rbind (reader_any text_type) (\<lambda>t. rret (UrlAddress t))"

definition url_address_type :: "url_address ics_type" where
  "url_address_type = plain_type ''UrlAddress'' url_address_read"

definition url_address_write :: "url_address \<Rightarrow> ics_writer \<Rightarrow> ics_writer" where
  "url_address_write a = text_write (url_text a)"

definition cal_address_read :: "cal_address rd" where
  "cal_address_read = rcase (reader_attempt (reader_any email_address_type)) (\<lambda>a. rret (CaEmail a))
     (rbind (reader_any url_address_type) (\<lambda>a. rret (CaUrl a)))"

definition cal_address_type :: "cal_address ics_type" where
  "cal_address_type = plain_type ''CalAddress'' cal_address_read"

definition cal_address_write :: "cal_address \<Rightarrow> ics_writer \<Rightarrow> ics_writer" where
  "cal_address_write a = (case a of CaEmail x \<Rightarrow> email_address_write x | CaUrl x \<Rightarrow> url_address_write x)"

section \<open>Parameters of people\<close>

datatype cn = Cn (cn_value: param_value)

definition cn_read :: "cn rd" where
  "cn_read = rbind (reader_any param_value_type) (\<lambda>v. rret (Cn v))"

definition cn_type :: "cn ics_type" where
  "cn_type = plain_type ''Cn'' cn_read"

definition cn_write :: "cn \<Rightarrow> ics_writer \<Rightarrow> ics_writer" where
  "cn_write x = param_value_write (cn_value x)"

datatype email_param = EmailParam (email_param_value: email_address)

definition email_param_read :: "email_param rd" where
  "email_param_read = rbind (reader_any param_value_type) (\<lambda>v.
     rret (EmailParam (email_address_of_string (pv_value v))))"

definition email_param_type :: "email_param ics_type" where
  "email_param_type = plain_type ''Email'' email_param_read"

definition email_param_write :: "email_param \<Rightarrow> ics_writer \<Rightarrow> ics_writer" where
  "email_param_write x = text_write (email_text (email_param_value x))"

datatype sent_by = SentBy (sent_by_value: email_address)

definition sent_by_skip :: "(unit, unit) body" where
  "sent_by_skip u r = (case reader_char r of
     (None, r') \<Rightarrow> (Break (Some ()), r')
   | (Some ch, r') \<Rightarrow> if ch = 10 \<or> ch = 34 then (Break (Some ()), r') else (Continue (), r'))"

definition sent_by_read :: "sent_by rd" where
  "sent_by_read =
    rcase (reader_try_eat 34)
      (\<lambda>_. reader_hint (\<lambda>h. h\<lparr>inside_quote := True\<rparr>)
         (rcase (reader_any email_address_type) (\<lambda>v. rret (SentBy v))
            (rthen (reader_silently (rloop sent_by_skip ())) rfail)))
      (rbind (reader_spanned param_value_read) (\<lambda>s.
         rwarn (Some (sp_span s)) (plain_body ''quirky email address (should be enquoted)'')
           (rret (SentBy (email_address_of_string (pv_value (sp_value s)))))))"

definition sent_by_type :: "sent_by ics_type" where
  "sent_by_type = plain_type ''SentBy'' sent_by_read"

definition sent_by_write :: "sent_by \<Rightarrow> ics_writer \<Rightarrow> ics_writer" where
  "sent_by_write x w = write_raw [34] (email_address_write (sent_by_value x) (write_raw [34] w))"

section \<open>Organizers and attendees\<close>

record organizer =
  org_address :: cal_address
  org_cn :: "cn option"
  org_email :: "email_param option"
  org_sent_by :: "sent_by option"

definition organizer_of :: "cal_address \<Rightarrow> organizer" where
  "organizer_of a = \<lparr>org_address = a, org_cn = None, org_email = None, org_sent_by = None\<rparr>"

definition organizer_with_cn :: "cn \<Rightarrow> organizer \<Rightarrow> organizer" where
  "organizer_with_cn x g = g\<lparr>org_cn := Some x\<rparr>"

definition organizer_with_email :: "email_param \<Rightarrow> organizer \<Rightarrow> organizer" where
  "organizer_with_email x g = g\<lparr>org_email := Some x\<rparr>"

definition organizer_with_sent_by :: "sent_by \<Rightarrow> organizer \<Rightarrow> organizer" where
  "organizer_with_sent_by x g = g\<lparr>org_sent_by := Some x\<rparr>"

record org_fields =
  of_cn :: "cn option"
  of_email :: "email_param option"
  of_sent_by :: "sent_by option"

definition org_offer :: "read_entry \<Rightarrow> org_fields \<Rightarrow> ics_reader \<Rightarrow> (org_fields \<times> ics_reader) option" where
  "org_offer entry s r =
    offer_to (\<lambda>v. s\<lparr>of_cn := v\<rparr>) (try_param cn_type entry ''CN'' (of_cn s) r)
   (offer_to (\<lambda>v. s\<lparr>of_email := v\<rparr>) (try_param email_param_type entry ''EMAIL'' (of_email s) r)
   (offer_to (\<lambda>v. s\<lparr>of_sent_by := v\<rparr>) (try_param sent_by_type entry ''SENT-BY'' (of_sent_by s) r) None))"

definition org_empty :: org_fields where
  "org_empty = \<lparr>of_cn = None, of_email = None, of_sent_by = None\<rparr>"

definition organizer_read :: "organizer rd" where
  "organizer_read = rbind (read_entries KProperty is_value org_offer org_empty) (\<lambda>s.
     rbind (reader_any cal_address_type) (\<lambda>a.
       rret \<lparr>org_address = a, org_cn = of_cn s, org_email = of_email s, org_sent_by = of_sent_by s\<rparr>))"

definition organizer_type :: "organizer ics_type" where
  "organizer_type = plain_type ''Organizer'' organizer_read"

definition organizer_write :: "organizer \<Rightarrow> ics_writer \<Rightarrow> ics_writer" where
  "organizer_write x w =
    (let w = write_param_opt ''CN'' cn_write (org_cn x) w;
         w = write_param_opt ''EMAIL'' email_param_write (org_email x) w;
         w = write_param_opt ''SENT-BY'' sent_by_write (org_sent_by x) w
     in cal_address_write (org_address x) (write_raw [58] w))"

record attendee =
  att_address :: cal_address
  att_cn :: "cn option"
  att_cutype :: "cu_type option"
  att_email :: "email_param option"
  att_role :: "role option"
  att_partstat :: "part_stat option"
  att_rsvp :: "rsvp option"
  att_token :: "param_value option"

definition attendee_of :: "cal_address \<Rightarrow> attendee" where
  "attendee_of a = \<lparr>att_address = a, att_cn = None, att_cutype = None, att_email = None, att_role = None,
     att_partstat = None, att_rsvp = None, att_token = None\<rparr>"

definition attendee_with_cn :: "cn \<Rightarrow> attendee \<Rightarrow> attendee" where
  "attendee_with_cn x a = a\<lparr>att_cn := Some x\<rparr>"

definition attendee_with_cutype :: "cu_type \<Rightarrow> attendee \<Rightarrow> attendee" where
  "attendee_with_cutype x a = a\<lparr>att_cutype := Some x\<rparr>"

definition attendee_with_email :: "email_param \<Rightarrow> attendee \<Rightarrow> attendee" where
  "attendee_with_email x a = a\<lparr>att_email := Some x\<rparr>"

definition attendee_with_role :: "role \<Rightarrow> attendee \<Rightarrow> attendee" where
  "attendee_with_role x a = a\<lparr>att_role := Some x\<rparr>"

definition attendee_with_partstat :: "part_stat \<Rightarrow> attendee \<Rightarrow> attendee" where
  "attendee_with_partstat x a = a\<lparr>att_partstat := Some x\<rparr>"

definition attendee_with_rsvp :: "rsvp \<Rightarrow> attendee \<Rightarrow> attendee" where
  "attendee_with_rsvp x a = a\<lparr>att_rsvp := Some x\<rparr>"

definition attendee_with_x_pm_token :: "param_value \<Rightarrow> attendee \<Rightarrow> attendee" where
  "attendee_with_x_pm_token x a = a\<lparr>att_token := Some x\<rparr>"

record att_fields =
  af_cn :: "cn option"
  af_cutype :: "cu_type option"
  af_email :: "email_param option"
  af_role :: "role option"
  af_partstat :: "part_stat option"
  af_rsvp :: "rsvp option"
  af_token :: "param_value option"

definition att_offer :: "read_entry \<Rightarrow> att_fields \<Rightarrow> ics_reader \<Rightarrow> (att_fields \<times> ics_reader) option" where
  "att_offer entry s r =
    offer_to (\<lambda>v. s\<lparr>af_cn := v\<rparr>) (try_param cn_type entry ''CN'' (af_cn s) r)
   (offer_to (\<lambda>v. s\<lparr>af_cutype := v\<rparr>) (try_param cu_type_type entry ''CUTYPE'' (af_cutype s) r)
   (offer_to (\<lambda>v. s\<lparr>af_email := v\<rparr>) (try_param email_param_type entry ''EMAIL'' (af_email s) r)
   (offer_to (\<lambda>v. s\<lparr>af_role := v\<rparr>) (try_param role_type entry ''ROLE'' (af_role s) r)
   (offer_to (\<lambda>v. s\<lparr>af_partstat := v\<rparr>) (try_param part_stat_type entry ''PARTSTAT'' (af_partstat s) r)
   (offer_to (\<lambda>v. s\<lparr>af_rsvp := v\<rparr>) (try_param rsvp_type entry ''RSVP'' (af_rsvp s) r)
   (offer_to (\<lambda>v. s\<lparr>af_token := v\<rparr>) (try_param param_value_type entry ''X-PM-TOKEN'' (af_token s) r) None))))))"

definition att_empty :: att_fields where
  "att_empty = \<lparr>af_cn = None, af_cutype = None, af_email = None, af_role = None, af_partstat = None,
     af_rsvp = None, af_token = None\<rparr>"

definition attendee_read :: "attendee rd" where
  "attendee_read = rbind (read_entries KProperty is_value att_offer att_empty) (\<lambda>s.
     rbind (reader_any cal_address_type) (\<lambda>a.
       rret \<lparr>att_address = a, att_cn = af_cn s, att_cutype = af_cutype s, att_email = af_email s,
         att_role = af_role s, att_partstat = af_partstat s, att_rsvp = af_rsvp s, att_token = af_token s\<rparr>))"

definition attendee_type :: "attendee ics_type" where
  "attendee_type = plain_type ''Attendee'' attendee_read"

definition attendee_write :: "attendee \<Rightarrow> ics_writer \<Rightarrow> ics_writer" where
  "attendee_write x w =
    (let w = write_param_opt ''CN'' cn_write (att_cn x) w;
         w = write_param_opt ''CUTYPE'' cu_type_write (att_cutype x) w;
         w = write_param_opt ''EMAIL'' email_param_write (att_email x) w;
         w = write_param_opt ''ROLE'' role_write (att_role x) w;
         w = write_param_opt ''PARTSTAT'' part_stat_write (att_partstat x) w;
         w = write_param_opt ''RSVP'' rsvp_write (att_rsvp x) w;
         w = write_param_opt ''X-PM-TOKEN'' param_value_write (att_token x) w
     in cal_address_write (att_address x) (write_raw [58] w))"

section \<open>Triggers\<close>

datatype trigger_edge = EdgeStart | EdgeEnd
datatype trigger = TrigAbsolute "utc_form date_time" | TrigRelative trigger_edge ics_duration

definition trigger_abs :: "utc_form date_time \<Rightarrow> trigger" where "trigger_abs t = TrigAbsolute t"
definition trigger_start :: "ics_duration \<Rightarrow> trigger" where "trigger_start d = TrigRelative EdgeStart d"
definition trigger_end :: "ics_duration \<Rightarrow> trigger" where "trigger_end d = TrigRelative EdgeEnd d"

record trig_fields =
  tf_related :: "param_value spanned option"
  tf_value :: "param_value spanned option"

definition trig_offer :: "read_entry \<Rightarrow> trig_fields \<Rightarrow> ics_reader \<Rightarrow> (trig_fields \<times> ics_reader) option" where
  "trig_offer entry s r =
    offer_to (\<lambda>v. s\<lparr>tf_related := v\<rparr>) (try_param (spanned_type param_value_type) entry ''RELATED'' (tf_related s) r)
   (offer_to (\<lambda>v. s\<lparr>tf_value := v\<rparr>) (try_param (spanned_type param_value_type) entry ''VALUE'' (tf_value s) r) None)"

definition trig_relative :: "trigger_edge \<Rightarrow> trigger rd" where
  "trig_relative g = rbind (reader_any duration_type) (\<lambda>d. rret (TrigRelative g d))"

definition trig_finish :: "trig_fields \<Rightarrow> trigger rd" where
  "trig_finish s = (case tf_value s of
     Some v \<Rightarrow>
       if eq_ignore_case (pv_value (sp_value v)) (ascii ''DATE-TIME'')
       then rbind (reader_any dt_utc_type) (\<lambda>t. rret (TrigAbsolute t))
       else unknown_value ''unknown trigger value `{value}`'' (spanned_map pv_value v) rfail
   | None \<Rightarrow> (case tf_related s of
       Some v \<Rightarrow>
         if eq_ignore_case (pv_value (sp_value v)) (ascii ''START'') then trig_relative EdgeStart
         else if eq_ignore_case (pv_value (sp_value v)) (ascii ''END'') then trig_relative EdgeEnd
         else unknown_value ''unknown trigger relation `{value}`'' (spanned_map pv_value v) rfail
     | None \<Rightarrow> trig_relative EdgeStart))"

definition trigger_read :: "trigger rd" where
  "trigger_read = rbind (read_entries KProperty is_value trig_offer \<lparr>tf_related = None, tf_value = None\<rparr>) trig_finish"

definition trigger_type :: "trigger ics_type" where
  "trigger_type = plain_type ''Trigger'' trigger_read"

definition trigger_write :: "trigger \<Rightarrow> ics_writer \<Rightarrow> ics_writer" where
  "trigger_write x w =
    (let w = (case x of
           TrigRelative EdgeStart _ \<Rightarrow> w
         | TrigRelative EdgeEnd _ \<Rightarrow> write_param ''RELATED'' (text_ref_write (ascii ''END'')) w
         | TrigAbsolute _ \<Rightarrow> write_param ''VALUE'' (text_ref_write (ascii ''DATE-TIME'')) w);
         w = write_raw [58] w
     in case x of TrigRelative _ d \<Rightarrow> duration_write d w | TrigAbsolute t \<Rightarrow> dt_utc_write t w)"

section \<open>Exception dates\<close>

datatype ex_date = ExDates "ics_date list" | ExDateTimes any_form "(ics_date \<times> ics_time) list"

record ex_fields =
  ef_value :: "dt_value_type option"
  ef_tzid :: "tz_id option"

definition ex_offer :: "read_entry \<Rightarrow> ex_fields \<Rightarrow> ics_reader \<Rightarrow> (ex_fields \<times> ics_reader) option" where
  "ex_offer entry s r =
    offer_to (\<lambda>v. s\<lparr>ef_value := v\<rparr>) (try_param dt_value_type_type entry ''VALUE'' (ef_value s) r)
   (offer_to (\<lambda>v. s\<lparr>ef_tzid := v\<rparr>) (try_param tz_id_type entry ''TZID'' (ef_tzid s) r) None)"

definition ex_finish :: "ex_fields \<Rightarrow> ex_date rd" where
  "ex_finish s = (case (case ef_value s of Some v \<Rightarrow> v | None \<Rightarrow> VtDateTime) of
     VtDate \<Rightarrow> rbind (reader_any (vec_type date_type)) (\<lambda>ds. rret (ExDates ds))
   | VtDateTime \<Rightarrow> rbind (reader_any (vec_type dt_ul_type)) (\<lambda>ds.
       case (case ef_tzid s of
               Some z \<Rightarrow> Some (FormTz z)
             | None \<Rightarrow> (case ds of [] \<Rightarrow> None | d # _ \<Rightarrow> Some (any_of_ul (dt_form d)))) of
         None \<Rightarrow> rfail
       | Some form \<Rightarrow> rret (ExDateTimes form (map (\<lambda>d. (dt_date d, dt_time d)) ds))))"

definition ex_date_read :: "ex_date rd" where
  "ex_date_read = rbind (read_entries KProperty is_value ex_offer \<lparr>ef_value = None, ef_tzid = None\<rparr>) ex_finish"

definition ex_date_type :: "ex_date ics_type" where
  "ex_date_type = plain_type ''ExDate'' ex_date_read"

definition ex_day_write :: "any_form \<Rightarrow> ics_date \<times> ics_time \<Rightarrow> ics_writer \<Rightarrow> ics_writer" where
  "ex_day_write form x w =
    (let w = time_write (snd x) (write_raw [84] (date_write (fst x) w))
     in if form = FormUtc then write_raw [90] w else w)"

definition ex_date_write :: "ex_date \<Rightarrow> ics_writer \<Rightarrow> ics_writer" where
  "ex_date_write x w =
    (let w = (case x of
           ExDates _ \<Rightarrow> write_param ''VALUE'' (dt_value_type_write VtDate) w
         | ExDateTimes form _ \<Rightarrow> (case form of FormTz z \<Rightarrow> write_param ''TZID'' (tz_id_write z) w | _ \<Rightarrow> w));
         w = write_raw [58] w
     in case x of
          ExDates ds \<Rightarrow> write_vec date_write ds w
        | ExDateTimes form ds \<Rightarrow> write_vec (ex_day_write form) ds w)"

end
