(* ===== verification/Ics_Object_Codecs.thy ===== *)
theory Ics_Object_Codecs
  imports Ics_Recur_Codec Ics_Objects
begin

text \<open>
  The contracts of \<open>Ics_Codec\<close> for the properties and parameters of \<open>Ics_Objects\<close>: each is read
  back as it was printed.  The conditions \<open>..._ok\<close> say on which objects: what a constructor or
  the parser itself builds, with the exceptions the theory names.
\<close>

section \<open>Parameters\<close>

lemma enum_value_codec:
  assumes "\<And>x. is_name (ascii (str x))" and "\<And>x. match_name names (ascii (str x)) = Some x"
    and "ty_read T = enum_value_read names other" and "\<And>s. shrinks (other s)"
  shows "ics_codec T (\<lambda>x. ascii (str x)) (\<lambda>e x. True) (\<lambda>e h cs. param_stop h cs) (\<lambda>x. write_raw (ascii (str x)))"
proof
  show "shrinks (ty_read T)" unfolding assms(3) enum_value_read_def by (intro progress_intros assms(4))
next
  fix e x h cs assume "env_ok e" and "param_stop h cs"
  then show "parses e h (ty_read T) (ascii (str x) @ cs) (Some x) cs"
    unfolding assms(3) enum_value_read_def
    by (intro parses_param_name assms(1)) (simp_all add: assms(2) parses_rret)
qed (simp_all add: name_clean assms(1))

lemma shrinks_unknown [progress_intros]: "shrinks k \<Longrightarrow> shrinks (unknown_value what s k)"
  unfolding unknown_value_def by (intro progress_intros)

named_theorems enum_tables

lemma status_table [enum_tables]: "is_name (ascii (status_str x))" "match_name status_names (ascii (status_str x)) = Some x"
  by (cases x; simp add: status_str_def status_names_def eq_ignore_case_def ascii_def ascii_lower_def is_name_def letter_def)+

lemma ics_class_table [enum_tables]: "is_name (ascii (ics_class_str x))" "match_name ics_class_names (ascii (ics_class_str x)) = Some x"
  by (cases x; simp add: ics_class_str_def ics_class_names_def eq_ignore_case_def ascii_def ascii_lower_def is_name_def letter_def)+

lemma transp_table [enum_tables]: "is_name (ascii (transp_str x))" "match_name transp_names (ascii (transp_str x)) = Some x"
  by (cases x; simp add: transp_str_def transp_names_def eq_ignore_case_def ascii_def ascii_lower_def is_name_def letter_def)+

lemma ics_method_table [enum_tables]: "is_name (ascii (ics_method_str x))" "match_name ics_method_names (ascii (ics_method_str x)) = Some x"
  by (cases x; simp add: ics_method_str_def ics_method_names_def eq_ignore_case_def ascii_def ascii_lower_def is_name_def letter_def)+

lemma cal_scale_table [enum_tables]: "is_name (ascii (cal_scale_str x))" "match_name cal_scale_names (ascii (cal_scale_str x)) = Some x"
  by (cases x; simp add: cal_scale_str_def cal_scale_names_def eq_ignore_case_def ascii_def ascii_lower_def is_name_def letter_def)+

lemma alarm_action_table [enum_tables]: "is_name (ascii (alarm_action_str x))" "match_name alarm_action_names (ascii (alarm_action_str x)) = Some x"
  by (cases x; simp add: alarm_action_str_def alarm_action_names_def eq_ignore_case_def ascii_def ascii_lower_def is_name_def letter_def)+

lemma cu_type_table [enum_tables]: "is_name (ascii (cu_type_str x))" "match_name cu_type_names (ascii (cu_type_str x)) = Some x"
  by (cases x; simp add: cu_type_str_def cu_type_names_def eq_ignore_case_def ascii_def ascii_lower_def is_name_def letter_def)+

lemma role_table [enum_tables]: "is_name (ascii (role_str x))" "match_name role_names (ascii (role_str x)) = Some x"
  by (cases x; simp add: role_str_def role_names_def eq_ignore_case_def ascii_def ascii_lower_def is_name_def letter_def)+

lemma part_stat_table [enum_tables]: "is_name (ascii (part_stat_str x))" "match_name part_stat_names (ascii (part_stat_str x)) = Some x"
  by (cases x; simp add: part_stat_str_def part_stat_names_def eq_ignore_case_def ascii_def ascii_lower_def is_name_def letter_def)+

interpretation cu_type_c: ics_codec cu_type_type "\<lambda>x. ascii (cu_type_str x)" "\<lambda>e x. True" "\<lambda>e h cs. param_stop h cs" cu_type_write
proof -
  have wr: "cu_type_write = (\<lambda>x. write_raw (ascii (cu_type_str x)))" by (simp add: fun_eq_iff cu_type_write_def)
  show "ics_codec cu_type_type (\<lambda>x. ascii (cu_type_str x)) (\<lambda>e x. True) (\<lambda>e h cs. param_stop h cs) cu_type_write"
    unfolding wr by (rule enum_value_codec [where names = cu_type_names])
      (auto simp: enum_tables cu_type_type_def plain_type_def cu_type_read_def intro!: progress_intros)
qed

interpretation role_c: ics_codec role_type "\<lambda>x. ascii (role_str x)" "\<lambda>e x. True" "\<lambda>e h cs. param_stop h cs" role_write
proof -
  have wr: "role_write = (\<lambda>x. write_raw (ascii (role_str x)))" by (simp add: fun_eq_iff role_write_def)
  show "ics_codec role_type (\<lambda>x. ascii (role_str x)) (\<lambda>e x. True) (\<lambda>e h cs. param_stop h cs) role_write"
    unfolding wr by (rule enum_value_codec [where names = role_names])
      (auto simp: enum_tables role_type_def plain_type_def role_read_def intro!: progress_intros)
qed

interpretation part_stat_c: ics_codec part_stat_type "\<lambda>x. ascii (part_stat_str x)" "\<lambda>e x. True" "\<lambda>e h cs. param_stop h cs" part_stat_write
proof -
  have wr: "part_stat_write = (\<lambda>x. write_raw (ascii (part_stat_str x)))" by (simp add: fun_eq_iff part_stat_write_def)
  show "ics_codec part_stat_type (\<lambda>x. ascii (part_stat_str x)) (\<lambda>e x. True) (\<lambda>e h cs. param_stop h cs) part_stat_write"
    unfolding wr by (rule enum_value_codec [where names = part_stat_names])
      (auto simp: enum_tables part_stat_type_def plain_type_def part_stat_read_def intro!: progress_intros)
qed

lemma param_value_clean:
  assumes "param_value_ok p"
  shows "clean_text (param_text p)"
proof -
  have "clean_text (pv_value p)"
    using assms by (auto simp: param_value_ok_def clean_text_def list_all_iff is_control_char_def)
  then show ?thesis by (simp add: param_text_def scalar_def)
qed

interpretation param_value_c: ics_codec param_value_type param_text "\<lambda>e p. param_value_ok p" "\<lambda>e h cs. param_stop h cs"
    param_value_write
  by unfold_locales (auto simp: param_value_write_text param_value_clean intro!: parses_param_value progress_intros)

interpretation cn_c: ics_codec cn_type "\<lambda>x. param_text (cn_value x)" "\<lambda>e x. param_value_ok (cn_value x)"
    "\<lambda>e h cs. param_stop h cs" cn_write
proof
  show "shrinks (ty_read cn_type)"
    by (simp add: cn_type_def plain_type_def cn_read_def) (intro progress_intros)
next
  fix e x h cs assume "env_ok e" and "param_value_ok (cn_value x)" and "param_stop h cs"
  then have "parses e h cn_read (param_text (cn_value x) @ cs) (Some (Cn (cn_value x))) cs"
    unfolding cn_read_def by (intro parses_rbind [OF param_value_c.reads_any parses_rret])
  then show "parses e h (ty_read cn_type) (param_text (cn_value x) @ cs) (Some x) cs"
    by (simp add: cn_type_def plain_type_def)
qed (simp_all add: cn_write_def param_value_write_text param_value_clean)

definition rsvp_str :: "rsvp \<Rightarrow> string" where
  "rsvp_str x = (if rsvp_bool x then ''TRUE'' else ''FALSE'')"

interpretation rsvp_c: ics_codec rsvp_type "\<lambda>x. ascii (rsvp_str x)" "\<lambda>e x. True" "\<lambda>e h cs. param_stop h cs" rsvp_write
proof -
  have wr: "rsvp_write = (\<lambda>x. write_raw (ascii (rsvp_str x)))" by (simp add: fun_eq_iff rsvp_write_def rsvp_str_def write_bool_def)
  have "is_name (ascii (rsvp_str x)) \<and> match_name rsvp_names (ascii (rsvp_str x)) = Some x" for x
    by (cases x) (simp add: rsvp_str_def rsvp_names_def eq_ignore_case_def ascii_def ascii_lower_def is_name_def letter_def)
  then show "ics_codec rsvp_type (\<lambda>x. ascii (rsvp_str x)) (\<lambda>e x. True) (\<lambda>e h cs. param_stop h cs) rsvp_write"
    unfolding wr by (intro enum_value_codec [where names = rsvp_names])
      (auto simp: rsvp_type_def plain_type_def rsvp_read_def intro!: progress_intros)
qed

text \<open>The address of an \<open>EMAIL\<close> parameter is printed as a text and read as a parameter value, so
  that it must need neither escapes nor quotes.\<close>

definition email_param_ok :: "email_param \<Rightarrow> bool" where
  "email_param_ok x = list_all plain_char (text_str (email_text (email_param_value x)))"

definition email_param_text :: "email_param \<Rightarrow> ustring" where
  "email_param_text x = text_str (email_text (email_param_value x))"

lemma plain_text_text: "list_all plain_char s \<Longrightarrow> text_text s = s"
  by (induction s) (auto simp: text_escaped_def plain_char_def needs_quote_def is_control_char_def)

lemma plain_text_new: "list_all plain_char s \<Longrightarrow> text_new s = Text s"
  by (induction s) (auto simp: text_new_def List.map_filter_def text_char_def plain_char_def is_control_char_def)

interpretation email_param_c: ics_codec email_param_type email_param_text "\<lambda>e x. email_param_ok x"
    "\<lambda>e h cs. param_stop h cs" email_param_write
proof
  show "shrinks (ty_read email_param_type)"
    by (simp add: email_param_type_def plain_type_def email_param_read_def) (intro progress_intros)
next
  fix e x h cs assume e: "env_ok e" and x: "email_param_ok x" and cs: "param_stop h cs"
  let ?s = "text_str (email_text (email_param_value x))"
  have "parses e h (ty_read param_value_type) (?s @ cs) (Some \<lparr>pv_value = ?s, pv_quote = False\<rparr>) cs"
    by (rule parses_plain_param [OF e _ cs]) (use x in \<open>simp add: email_param_ok_def\<close>)
  then have "parses e h email_param_read (?s @ cs) (Some (EmailParam (email_address_of_string ?s))) cs"
    unfolding email_param_read_def by (rule parses_rbind [OF parses_any]) (simp add: parses_rret)
  moreover have "EmailParam (email_address_of_string ?s) = x"
    using x plain_text_new by (cases x; cases "email_param_value x") (simp add: email_param_ok_def email_address_of_string_def)
  ultimately show "parses e h (ty_read email_param_type) (email_param_text x @ cs) (Some x) cs"
    by (simp add: email_param_type_def plain_type_def email_param_text_def)
qed (simp_all add: email_param_write_def text_write_def text_ref_write_text email_param_ok_def email_param_text_def
    plain_text_text plain_param(3))

section \<open>Addresses\<close>

lemma text_write_text: "text_write t w = write_raw (text_text (text_str t)) w"
  by (simp add: text_write_def text_ref_write_text)

lemma text_clean: "text_ok t \<Longrightarrow> clean_text (text_text (text_str t))"
proof -
  assume t: "text_ok t"
  then have "list_all scalar (text_str t)" "13 \<notin> set (text_str t)"
    by (auto simp: text_ok_def list_all_iff is_control_char_def)
  then show ?thesis using text_text_scalar text_text_no_nl text_text_no_cr
    by (fastforce simp: clean_text_def list_all_iff)
qed

definition email_address_text :: "email_address \<Rightarrow> ustring" where
  "email_address_text a = ascii ''mailto:'' @ text_text (text_str (email_text a))"

lemma parses_email_address:
  assumes "env_ok e" and "\<not> inside_quote h \<or> 34 \<notin> set (text_str (email_text a))" and "text_end h cs cs'"
  shows "parses e h (ty_read email_address_type) (email_address_text a @ cs) (Some a) cs'"
proof -
  have "parses e h email_address_read (email_address_text a @ cs) (Some (EmailAddress (email_text a))) cs'"
    unfolding email_address_read_def email_address_text_def append_assoc
    by (rule parses_rcase_some [OF parses_try_string [OF assms(1) refl]],
        rule parses_rbind [OF parses_any [OF parses_text [OF assms]] parses_rret])
  then show ?thesis by (simp add: email_address_type_def plain_type_def)
qed

lemma shrinks_email_guess [progress_intros]: "shrinks email_guess"
proof -
  have "shrinks (rbind (reader_spanned (reader_attempt text_read)) (\<lambda>v. if env_email e (text_str (sp_value v)) then rret v else rfail))" for e
    by (intro progress_intros)
  then show ?thesis by (auto simp: shrinks_def email_guess_def)
qed

lemma shrinks_complain [progress_intros]: "shrinks (\<lambda>r. rerror (a r) (b r) rfail r)"
  by (rule eats_shrinks) (rule eats_complain)

lemma shrinks_email_address [progress_intros]: "shrinks (ty_read email_address_type)"
  by (simp add: email_address_type_def plain_type_def email_address_read_def) (intro progress_intros)

lemma write_email_address: "email_address_write a w = write_raw (email_address_text a) w"
  by (simp add: email_address_write_def email_address_text_def text_write_text)

lemma email_address_clean: "text_ok (email_text a) \<Longrightarrow> clean_text (email_address_text a)"
  by (simp add: email_address_text_def text_clean) (simp add: ascii_def scalar_def)

text \<open>The quotes around the address of \<open>SENT-BY\<close> end it.\<close>

definition sent_by_ok :: "sent_by \<Rightarrow> bool" where
  "sent_by_ok x = (text_ok (email_text (sent_by_value x)) \<and> 34 \<notin> set (text_str (email_text (sent_by_value x))))"

definition sent_by_text :: "sent_by \<Rightarrow> ustring" where
  "sent_by_text x = 34 # email_address_text (sent_by_value x) @ [34]"

lemma progress_sent_by: "progress sent_by_skip"
  by (rule progressI) (auto simp: sent_by_skip_def dest: eatsD [OF eats_char] split: prod.splits option.splits if_splits)

interpretation sent_by_c: ics_codec sent_by_type sent_by_text "\<lambda>e x. sent_by_ok x" "\<lambda>e h cs. True" sent_by_write
proof
  have pv: "shrinks param_value_read" using param_value_c.moves by (simp add: param_value_type_def plain_type_def)
  show "shrinks (ty_read sent_by_type)"
    by (simp add: sent_by_type_def plain_type_def sent_by_read_def) (intro progress_intros progress_sent_by pv)
next
  fix e x cs and h :: ics_hints assume e: "env_ok e" and x: "sent_by_ok x"
  let ?h = "h\<lparr>inside_quote := True\<rparr>"
  have "parses e ?h (reader_any email_address_type) (email_address_text (sent_by_value x) @ 34 # cs)
      (Some (sent_by_value x)) cs"
    by (rule parses_any, rule parses_email_address [OF e]) (use x in \<open>auto simp: sent_by_ok_def text_end_def\<close>)
  then have "parses e h sent_by_read (34 # email_address_text (sent_by_value x) @ 34 # cs) (Some (SentBy (sent_by_value x))) cs"
    unfolding sent_by_read_def
    by (intro parses_rcase_some [OF parses_try_eat [OF e refl]] parses_hint parses_rcase_some [OF _ parses_rret])
  then show "parses e h (ty_read sent_by_type) (sent_by_text x @ cs) (Some x) cs"
    by (simp add: sent_by_type_def plain_type_def sent_by_text_def)
next
  fix e x w assume "sent_by_ok x"
  have "write_raw (34 # email_address_text (sent_by_value x) @ [34]) w
      = write_raw [34] (write_raw (email_address_text (sent_by_value x)) (write_raw [34] w))"
    by (subst write_raw_Cons) simp_all
  then show "sent_by_write x w = write_raw (sent_by_text x) w"
    by (simp add: sent_by_write_def sent_by_text_def write_email_address)
qed (simp_all add: sent_by_ok_def sent_by_text_def email_address_clean scalar_def)

text \<open>A link that could be taken for an address is not one.\<close>

definition cal_address_ok :: "ics_env \<Rightarrow> cal_address \<Rightarrow> bool" where
  "cal_address_ok e a = (case a of
     CaEmail x \<Rightarrow> text_ok (email_text x)
   | CaUrl x \<Rightarrow> text_ok (url_text x) \<and> \<not> env_email e (text_str (url_text x))
       \<and> take 7 (map ascii_lower (text_text (text_str (url_text x)))) \<noteq> ascii ''mailto:'')"

definition cal_address_text :: "cal_address \<Rightarrow> ustring" where
  "cal_address_text a = (case a of CaEmail x \<Rightarrow> email_address_text x | CaUrl x \<Rightarrow> text_text (text_str (url_text x)))"

lemma eat_fails:
  assumes "env_ok (rd_env r)" and "before cs r" and "not_next c cs"
  shows "fst (reader_eat c r) = None"
proof -
  obtain q where "reader_try_eat c r = (None, r\<lparr>rd_pos := q\<rparr>)"
    using parsesE [OF parses_not_next [OF assms(1,3)] refl refl assms(2)] by blast
  then show ?thesis by (simp add: reader_eat_def rcase_def rerror_def rfail_def)
qed

lemma eat_all_fails:
  assumes "env_ok (rd_env r)" and "before cs r" and "take (length t) (map ascii_lower cs) \<noteq> map ascii_lower t"
  shows "fst (reader_eat_all t r) = None"
  using assms
proof (induction t arbitrary: cs r)
  case Nil
  then show ?case by simp
next
  case (Cons c t)
  show ?case
  proof (cases "not_next c cs")
    case True
    then have "fst (reader_eat c r) = None" by (rule eat_fails [OF Cons.prems(1,2)])
    then show ?thesis by (auto simp: rbind_def split: prod.splits option.splits)
  next
    case False
    then obtain d cs' where cs: "cs = d # cs'" "ascii_lower d = ascii_lower c" by (cases cs) auto
    obtain q where q: "reader_eat c r = (Some (), r\<lparr>rd_pos := q\<rparr>)" "before cs' (r\<lparr>rd_pos := q\<rparr>)"
      using parsesE [OF parses_eat [OF Cons.prems(1) cs(2)] refl refl] Cons.prems(2) cs(1) by blast
    then have "fst (reader_eat_all t (r\<lparr>rd_pos := q\<rparr>)) = None"
      using Cons.IH [of "r\<lparr>rd_pos := q\<rparr>" cs'] Cons.prems(1,3) cs by simp
    then show ?thesis using q(1) by (simp add: rbind_def)
  qed
qed

lemma mailto_length: "length (ascii ''mailto:'') = 7"
  by (simp add: ascii_def)

lemma no_mailto:
  assumes "take 7 (map ascii_lower s) \<noteq> ascii ''mailto:''" and "cs = [] \<or> (\<exists>c. cs = 10 # c)"
  shows "take 7 (map ascii_lower (s @ cs)) \<noteq> map ascii_lower (ascii ''mailto:'')"
proof
  let ?m = "ascii ''mailto:''"
  assume eq: "take 7 (map ascii_lower (s @ cs)) = map ascii_lower ?m"
  have m: "map ascii_lower ?m = ?m" "length ?m = 7" "10 \<notin> set ?m" by (simp_all add: ascii_def ascii_lower_def)
  show False
  proof (cases "length s \<ge> 7")
    case True
    then show ?thesis using assms(1) eq m(1) by simp
  next
    case False
    show ?thesis
    proof (cases cs)
      case Nil
      then show ?thesis using eq assms(1) m(1) by simp
    next
      case (Cons a list)
      obtain k where "7 - length s = Suc k" using False by (cases "7 - length s") auto
      then have "10 \<in> set (take 7 (map ascii_lower (s @ cs)))"
        using Cons assms(2) by (auto simp: ascii_lower_def)
      then show ?thesis unfolding eq m(1) using m(3) by contradiction
    qed
  qed
qed

lemma url_not_email:
  assumes "env_ok e" and "cal_address_ok e (CaUrl x)" and "next_line cs cs'"
    and r: "rd_env r = e" "rd_hints r = no_hints" "before (text_text (text_str (url_text x)) @ cs) r"
  shows "fst (email_address_read r) = None"
proof -
  let ?s = "text_text (text_str (url_text x))"
  have x: "\<not> env_email e (text_str (url_text x))" "take 7 (map ascii_lower ?s) \<noteq> ascii ''mailto:''"
    using assms(2) by (simp_all add: cal_address_ok_def)
  have cs: "cs = [] \<or> (\<exists>c. cs = 10 # c)" "text_end no_hints cs cs'"
    using assms(3) by (auto simp: next_line_def line_end_def text_end_def)
  have m: "parses e no_hints (reader_try_string (ascii ''mailto:'')) (?s @ cs) None (?s @ cs)"
    unfolding reader_try_string_def
  proof (rule parses_attempt_none)
    fix r assume "rd_env r = e" "before (?s @ cs) r"
    then show "fst (reader_eat_all (ascii ''mailto:'') r) = None"
      using eat_all_fails [of r "?s @ cs" "ascii ''mailto:''"] assms(1) no_mailto [OF x(2) cs(1)] mailto_length by simp
  qed (intro progress_intros)
  have g: "parses e no_hints (reader_attempt email_guess) (?s @ cs) None (?s @ cs)"
  proof (rule parses_attempt_none)
    fix r assume r: "rd_env r = e" "rd_hints r = no_hints" "before (?s @ cs) r"
    have "parses e no_hints text_read (?s @ cs) (Some (url_text x)) cs'"
      using parses_text [OF assms(1) _ cs(2), of "url_text x"] by (simp add: text_type_def plain_type_def no_hints_def)
    then have "parses e no_hints (reader_attempt text_read) (?s @ cs) (Some (url_text x)) cs'" by (rule parses_attempt)
    then obtain q where "reader_attempt text_read r = (Some (url_text x), r\<lparr>rd_pos := q\<rparr>)"
      by (rule parsesE [OF _ r])
    then show "fst (email_guess r) = None"
      using x(1) r(1) by (simp add: email_guess_def rbind_def reader_spanned_def rfail_def)
  qed (intro progress_intros)
  obtain q where q: "reader_try_string (ascii ''mailto:'') r = (None, r\<lparr>rd_pos := q\<rparr>)" "before (?s @ cs) (r\<lparr>rd_pos := q\<rparr>)"
    using parsesE [OF m r] .
  obtain q2 where "reader_attempt email_guess (r\<lparr>rd_pos := q\<rparr>) = (None, r\<lparr>rd_pos := q2\<rparr>)"
    using parsesE [OF g, of "r\<lparr>rd_pos := q\<rparr>"] r q(2) by auto
  then show ?thesis using q(1) by (simp add: email_address_read_def rcase_def rerror_def rfail_def)
qed

lemma parses_cal_address:
  assumes "env_ok e" and "cal_address_ok e a" and "next_line cs cs'"
  shows "parses e no_hints (reader_any cal_address_type) (cal_address_text a @ cs) (Some a) cs'"
proof -
  have te: "text_end no_hints cs cs'" "\<not> inside_quote no_hints"
    using assms(3) by (auto simp: next_line_def line_end_def text_end_def no_hints_def)
  have "parses e no_hints cal_address_read (cal_address_text a @ cs) (Some a) cs'"
  proof (cases a)
    case (CaEmail x)
    have "parses e no_hints (reader_attempt (reader_any email_address_type)) (email_address_text x @ cs) (Some x) cs'"
      by (rule parses_attempt [OF parses_any [OF parses_email_address [OF assms(1) _ te(1)]]]) (use te(2) in simp)
    then show ?thesis unfolding cal_address_read_def CaEmail cal_address_text_def
      by (simp, intro parses_rcase_some [OF _ parses_rret])
  next
    case (CaUrl x)
    let ?s = "text_text (text_str (url_text x))"
    have none: "parses e no_hints (reader_attempt (reader_any email_address_type)) (?s @ cs) None (?s @ cs)"
    proof (rule parses_attempt_none, rule any_fst)
      fix r assume "rd_env r = e" "rd_hints r = no_hints" "before (?s @ cs) r"
      then show "fst (ty_read email_address_type r) = None"
        using url_not_email [OF assms(1) _ assms(3), of x r] assms(2) CaUrl
        by (simp add: email_address_type_def plain_type_def)
    qed (assumption | intro progress_intros)+
    have "parses e no_hints url_address_read (?s @ cs) (Some (UrlAddress (url_text x))) cs'"
      unfolding url_address_read_def
      by (rule parses_rbind [OF parses_any [OF parses_text [OF assms(1) _ te(1)]] parses_rret]) (use te(2) in simp)
    then have "parses e no_hints (reader_any url_address_type) (?s @ cs) (Some x) cs'"
      by (intro parses_any) (simp add: url_address_type_def plain_type_def)
    then show ?thesis unfolding cal_address_read_def CaUrl cal_address_text_def
      by (simp, intro parses_rcase_none [OF none] parses_rbind [OF _ parses_rret])
  qed
  then show ?thesis by (intro parses_any) (simp add: cal_address_type_def plain_type_def)
qed

lemma cal_address_facts:
  shows "shrinks (ty_read cal_address_type)" and "cal_address_write a w = write_raw (cal_address_text a) w"
    and "cal_address_ok e a \<Longrightarrow> clean_text (cal_address_text a)"
proof -
  have "shrinks (ty_read url_address_type)"
    by (simp add: url_address_type_def plain_type_def url_address_read_def) (intro progress_intros)
  then show "shrinks (ty_read cal_address_type)"
    by (simp add: cal_address_type_def plain_type_def cal_address_read_def) (intro progress_intros)
  show "cal_address_write a w = write_raw (cal_address_text a) w"
    by (simp add: cal_address_write_def cal_address_text_def url_address_write_def write_email_address text_write_text
        split: cal_address.splits)
  show "cal_address_ok e a \<Longrightarrow> clean_text (cal_address_text a)"
    by (auto simp: cal_address_ok_def cal_address_text_def email_address_clean text_clean split: cal_address.splits)
qed

end
