(* ===== verification/Ics_Prop_Codecs.thy ===== *)
theory Ics_Prop_Codecs
  imports Ics_Object_Codecs
begin

text \<open>
  The contract of a property, \<open>ics_prop_codec\<close>, for every property of \<open>Ics_Objects\<close>: printed after
  its name it is a text, and the reader takes that text and the end of its line.
\<close>

section \<open>Properties that are a colon and a value\<close>

lemma next_line_stops:
  assumes "next_line cs cs'"
  shows "no_digit cs" "peeked cs \<in> {None, Some 10}" "duration_end cs" "not_next 90 cs" "not_next 84 cs" "text_end h cs cs'"
    "param_stop h cs" "cs = [] \<and> cs' = [] \<or> cs = 10 # cs'"
  using assms by (auto simp: next_line_def line_end_def duration_end_def text_end_def param_stop_def is_digit_char_def ascii_lower_def)

lemma parses_rret_eq: "a = b \<Longrightarrow> parses e h (rret a) cs (Some b) cs"
  by (simp add: parses_rret)

context ics_codec
begin

lemma value_prop_codec:
  assumes "\<And>e cs cs'. env_ok e \<Longrightarrow> next_line cs cs' \<Longrightarrow> stop e no_hints cs"
    and "ty_read S = value_prop_read T C" and "\<And>y. C (D y) = y"
  shows "ics_prop_codec S (\<lambda>y. 58 # tx (D y)) (\<lambda>e y. ok e (D y)) (\<lambda>y. value_prop_write wr (D y))"
proof
  fix e y w assume y: "ok e (D y)"
  show "value_prop_write wr (D y) w = write_raw (58 # tx (D y)) w"
    by (cases "tx (D y) = []") (simp_all add: value_prop_write_def writes [OF y] write_raw_Cons)
next
  show "shrinks (ty_read S)" unfolding assms(2) value_prop_read_def by (intro progress_intros moves)
next
  fix e y cs cs' assume e: "env_ok e" and y: "ok e (D y)" and cs: "next_line cs cs'"
  show "parses e no_hints (prop_value S) ((58 # tx (D y)) @ cs) (Some y) cs'"
    using reads_prop [OF e y cs assms(1) [OF e cs], of S C] assms(2,3) by (simp add: value_prop_read_def)
next
  fix e y assume "ok e (D y)"
  then show "clean_text (58 # tx (D y))" using clean by (simp add: scalar_def)
qed simp

end

lemma text_prop_codec:
  assumes "ty_read S = value_prop_read text_type C" and "\<And>y. C (D y) = y"
  shows "ics_prop_codec S (\<lambda>y. 58 # text_text (text_str (D y))) (\<lambda>e y. text_ok (D y)) (\<lambda>y. value_prop_write text_write (D y))"
proof
  fix e y w
  show "value_prop_write text_write (D y) w = write_raw (58 # text_text (text_str (D y))) w"
    by (cases "text_text (text_str (D y)) = []") (simp_all add: value_prop_write_def text_write_text write_raw_Cons)
next
  show "shrinks (ty_read S)" unfolding assms(1) value_prop_read_def by (intro progress_intros)
next
  fix e y cs cs' assume e: "env_ok e" and cs: "next_line cs cs'"
  have "parses e no_hints (value_prop_read text_type C) ((58 # text_text (text_str (D y))) @ cs) (Some (C (D y))) cs'"
    unfolding value_prop_read_def
    by (simp, rule parses_rbind [OF parses_burn_params [OF e]],
        rule parses_rbind [OF parses_any [OF parses_text [OF e _ next_line_stops(6) [OF cs]]] parses_rret]) (simp add: no_hints_def)
  then have p: "parses e no_hints (ty_read S) ((58 # text_text (text_str (D y))) @ cs) (Some y) cs'"
    by (simp only: assms)
  show "parses e no_hints (prop_value S) ((58 # text_text (text_str (D y))) @ cs) (Some y) cs'"
    by (rule parses_prop_value [OF e p]) (use cs in \<open>auto simp: next_line_def line_end_def\<close>)
qed (simp_all add: text_clean scalar_def)

lemma name_line: "is_name s \<Longrightarrow> plain_line s"
proof -
  assume s: "is_name s"
  then have "\<forall>c \<in> set s. c \<noteq> 10 \<and> c \<noteq> 32" by (auto simp: is_name_def list_all_iff letter_def)
  moreover have "s \<noteq> []" using s by (simp add: is_name_def)
  ultimately show ?thesis by (auto simp: plain_line_def)
qed

text \<open>A property whose value is the rest of the line.\<close>

lemma parses_rest_prop:
  assumes "env_ok e" and "plain_line s" and "next_line cs cs'"
    and "\<And>sp. parses e no_hints (f (Spanned sp s)) cs' (Some y) cs'"
    and "ty_read S = rbind burn_params (\<lambda>_. rbind (reader_spanned reader_rest) f)"
  shows "parses e no_hints (prop_value S) ((58 # s) @ cs) (Some y) cs'"
proof (rule parses_prop_value [OF assms(1)])
  show "parses e no_hints (ty_read S) ((58 # s) @ cs) (Some y) cs'"
    unfolding assms(5)
    by (simp, rule parses_rbind [OF parses_burn_params [OF assms(1)]],
        rule parses_rbind_spanned [OF parses_rest [OF assms(1,2) next_line_stops(8) [OF assms(3)]]], rule assms(4))
  show "next_line cs' cs' \<or> cs' = cs' \<and> peeked cs' \<noteq> Some 10"
    using assms(3) by (auto simp: next_line_def line_end_def)
qed

lemma enum_prop_codec:
  assumes "\<And>x. is_name (ascii (str x))" and "\<And>x. match_name names (ascii (str x)) = Some x"
    and "ty_read T = enum_prop_read names other" and "\<And>s. shrinks (other s)"
  shows "ics_prop_codec T (\<lambda>x. 58 # ascii (str x)) (\<lambda>e x. True) (\<lambda>x. write_raw (58 # ascii (str x)))"
proof
  show "shrinks (ty_read T)" unfolding assms(3) enum_prop_read_def by (intro progress_intros assms(4))
next
  fix e x cs cs' assume e: "env_ok e" and cs: "next_line cs cs'"
  show "parses e no_hints (prop_value T) ((58 # ascii (str x)) @ cs) (Some x) cs'"
    by (rule parses_rest_prop [OF e name_line [OF assms(1)] cs _ assms(3) [unfolded enum_prop_read_def]])
      (simp add: assms(2) parses_rret)
qed (simp_all add: name_clean assms(1) scalar_def)

interpretation summary_p: ics_prop_codec summary_type "\<lambda>x. 58 # text_text (text_str (summary_value x))"
    "\<lambda>e x. text_ok (summary_value x)" summary_write
  unfolding summary_write_def [abs_def]
  by (rule text_prop_codec [where C = Summary]) (simp_all add: summary_type_def plain_type_def summary_read_def)

interpretation description_p: ics_prop_codec description_type "\<lambda>x. 58 # text_text (text_str (description_value x))"
    "\<lambda>e x. text_ok (description_value x)" description_write
  unfolding description_write_def [abs_def]
  by (rule text_prop_codec [where C = Description]) (simp_all add: description_type_def plain_type_def description_read_def)

interpretation location_p: ics_prop_codec location_type "\<lambda>x. 58 # text_text (text_str (location_value x))"
    "\<lambda>e x. text_ok (location_value x)" location_write
  unfolding location_write_def [abs_def]
  by (rule text_prop_codec [where C = Location]) (simp_all add: location_type_def plain_type_def location_read_def)

interpretation uid_p: ics_prop_codec uid_type "\<lambda>x. 58 # text_text (text_str (uid_value x))"
    "\<lambda>e x. text_ok (uid_value x)" uid_write
  unfolding uid_write_def [abs_def]
  by (rule text_prop_codec [where C = Uid]) (simp_all add: uid_type_def plain_type_def uid_read_def)

interpretation tz_name_p: ics_prop_codec tz_name_type "\<lambda>x. 58 # text_text (text_str (tz_name_value x))"
    "\<lambda>e x. text_ok (tz_name_value x)" tz_name_write
  unfolding tz_name_write_def [abs_def]
  by (rule text_prop_codec [where C = TzName]) (simp_all add: tz_name_type_def plain_type_def tz_name_read_def)

interpretation prod_id_p: ics_prop_codec prod_id_type "\<lambda>x. 58 # text_text (text_str (prod_id_value x))"
    "\<lambda>e x. text_ok (prod_id_value x)" prod_id_write
  unfolding prod_id_write_def [abs_def]
  by (rule text_prop_codec [where C = ProdId]) (simp_all add: prod_id_type_def plain_type_def prod_id_read_def)

interpretation sequence_p: ics_prop_codec sequence_type "\<lambda>x. 58 # dec_str (sequence_value x)"
    "\<lambda>e x. sequence_value x < 2 ^ 32" sequence_write
  unfolding sequence_write_def [abs_def]
  by (rule u32_c.value_prop_codec [where C = Sequence])
    (use next_line_stops in \<open>auto simp: sequence_type_def plain_type_def sequence_read_def\<close>)

interpretation repeat_p: ics_prop_codec repeat_type "\<lambda>x. 58 # dec_str (repeat_value x)"
    "\<lambda>e x. repeat_value x < 2 ^ 32" repeat_write
  unfolding repeat_write_def [abs_def]
  by (rule u32_c.value_prop_codec [where C = Repeat])
    (use next_line_stops in \<open>auto simp: repeat_type_def plain_type_def repeat_read_def\<close>)

interpretation tz_offset_from_p: ics_prop_codec tz_offset_from_type "\<lambda>x. 58 # offset_text (tz_offset_from_value x)"
    "\<lambda>e x. offset_ok (tz_offset_from_value x)" tz_offset_from_write
  unfolding tz_offset_from_write_def [abs_def]
  by (rule offset_c.value_prop_codec [where C = TzOffsetFrom])
    (use next_line_stops in \<open>auto simp: tz_offset_from_type_def plain_type_def tz_offset_from_read_def\<close>)

interpretation tz_offset_to_p: ics_prop_codec tz_offset_to_type "\<lambda>x. 58 # offset_text (tz_offset_to_value x)"
    "\<lambda>e x. offset_ok (tz_offset_to_value x)" tz_offset_to_write
  unfolding tz_offset_to_write_def [abs_def]
  by (rule offset_c.value_prop_codec [where C = TzOffsetTo])
    (use next_line_stops in \<open>auto simp: tz_offset_to_type_def plain_type_def tz_offset_to_read_def\<close>)

interpretation rrule_p: ics_prop_codec rrule_type "\<lambda>x. 58 # recur_text (rrule_value x)"
    "\<lambda>e x. recur_ok e (rrule_value x)" rrule_write
  unfolding rrule_write_def [abs_def]
  by (rule recur_c.value_prop_codec [where C = RRule])
    (use next_line_stops in \<open>auto simp: rrule_type_def plain_type_def rrule_read_def\<close>)

section \<open>Enumerations\<close>

interpretation status_p: ics_prop_codec status_type "\<lambda>x. 58 # ascii (status_str x)" "\<lambda>e x. True" status_write
  unfolding status_write_def [abs_def]
  by (rule enum_prop_codec [where names = status_names])
    (auto simp: enum_tables status_type_def plain_type_def status_read_def intro!: progress_intros)

interpretation ics_class_p: ics_prop_codec ics_class_type "\<lambda>x. 58 # ascii (ics_class_str x)" "\<lambda>e x. True" ics_class_write
  unfolding ics_class_write_def [abs_def]
  by (rule enum_prop_codec [where names = ics_class_names])
    (auto simp: enum_tables ics_class_type_def plain_type_def ics_class_read_def intro!: progress_intros)

interpretation transp_p: ics_prop_codec transp_type "\<lambda>x. 58 # ascii (transp_str x)" "\<lambda>e x. True" transp_write
  unfolding transp_write_def [abs_def]
  by (rule enum_prop_codec [where names = transp_names])
    (auto simp: enum_tables transp_type_def plain_type_def transp_read_def intro!: progress_intros)

interpretation ics_method_p: ics_prop_codec ics_method_type "\<lambda>x. 58 # ascii (ics_method_str x)" "\<lambda>e x. True" ics_method_write
  unfolding ics_method_write_def [abs_def]
  by (rule enum_prop_codec [where names = ics_method_names])
    (auto simp: enum_tables ics_method_type_def plain_type_def ics_method_read_def intro!: progress_intros)

interpretation cal_scale_p: ics_prop_codec cal_scale_type "\<lambda>x. 58 # ascii (cal_scale_str x)" "\<lambda>e x. True" cal_scale_write
  unfolding cal_scale_write_def [abs_def]
  by (rule enum_prop_codec [where names = cal_scale_names])
    (auto simp: enum_tables cal_scale_type_def plain_type_def cal_scale_read_def intro!: progress_intros)

interpretation alarm_action_p: ics_prop_codec alarm_action_type "\<lambda>x. 58 # ascii (alarm_action_str x)" "\<lambda>e x. True" alarm_action_write
  unfolding alarm_action_write_def [abs_def]
  by (rule enum_prop_codec [where names = alarm_action_names])
    (auto simp: enum_tables alarm_action_type_def plain_type_def alarm_action_read_def intro!: progress_intros)

interpretation version_p: ics_prop_codec version_type "\<lambda>x. ascii '':2.0''" "\<lambda>e x. True" version_write
proof
  show "shrinks (ty_read version_type)"
    by (simp add: version_type_def version_read_def) (intro progress_intros)
next
  fix e x cs cs' assume e: "env_ok e" and cs: "next_line cs cs'"
  have t: "ascii '':2.0'' = 58 # ascii ''2.0''" by (simp add: ascii_def)
  have "plain_line (ascii ''2.0'')" "is_version_two (ascii ''2.0'')" by (simp_all add: plain_line_def ascii_def is_version_two_def)
  then show "parses e no_hints (prop_value version_type) (ascii '':2.0'' @ cs) (Some x) cs'"
    unfolding t by (intro parses_rest_prop [OF e _ cs, where f = "\<lambda>s. if is_version_two (sp_value s) then rret VersionTwo
       else unknown_value ''unknown version `{value}`'' s rfail"])
      (auto simp: version_type_def version_read_def intro!: parses_rret_eq, cases x, simp)
qed (simp_all add: version_write_def ascii_def scalar_def split: version.splits)

interpretation priority_p: ics_prop_codec priority_type "\<lambda>x. 58 # dec_str (priority_num x)" "\<lambda>e x. priority_num x \<le> 9"
    priority_write
proof
  show "shrinks (ty_read priority_type)"
    by (simp add: priority_type_def plain_type_def priority_read_def) (intro progress_intros u32_c.moves)
next
  fix e x cs cs' assume e: "env_ok e" and x: "priority_num x \<le> 9" and cs: "next_line cs cs'"
  have n: "parses e no_hints (reader_any u32_type) (dec_str (priority_num x) @ cs) (Some (priority_num x)) cs"
    by (rule u32_c.reads_any [OF e]) (use x next_line_stops [OF cs] in auto)
  have "parses e no_hints priority_read ((58 # dec_str (priority_num x)) @ cs) (Some (Priority (priority_num x))) cs"
    unfolding priority_read_def append_Cons
    by (rule parses_rbind [OF parses_burn_params [OF e]], rule parses_rbind_spanned [OF n])
      (use x in \<open>auto simp: priority_lowest_def intro: parses_rret_eq\<close>)
  then have "parses e no_hints (ty_read priority_type) ((58 # dec_str (priority_num x)) @ cs) (Some x) cs"
    by (simp add: priority_type_def plain_type_def)
  then show "parses e no_hints (prop_value priority_type) ((58 # dec_str (priority_num x)) @ cs) (Some x) cs'"
    by (rule parses_prop_value [OF e _ disjI1 [OF cs]])
qed (simp_all add: priority_write_def write_uint_def write_raw_Cons scalar_def)

interpretation duration_p: ics_prop_codec duration_prop_type "\<lambda>d. 58 # duration_text d"
    "\<lambda>e d. amount_small (du_amount d) \<and> duration_norm d = d" duration_write_prop
proof
  show "shrinks (ty_read duration_prop_type)"
    by (simp add: duration_prop_type_def plain_type_def duration_read_prop_def) (intro progress_intros)
next
  fix e d cs cs' assume e: "env_ok e" and d: "amount_small (du_amount d) \<and> duration_norm d = d" and cs: "next_line cs cs'"
  have "parses e no_hints (reader_any duration_type) (duration_text d @ cs) (Some d) cs"
    by (rule duration_c.reads_any [OF e d]) (rule next_line_stops(3) [OF cs])
  then have "parses e no_hints (ty_read duration_prop_type) ((58 # duration_text d) @ cs) (Some d) cs"
    using parses_rbind [OF parses_burn_params [OF e]] by (simp add: duration_prop_type_def plain_type_def duration_read_prop_def)
  then show "parses e no_hints (prop_value duration_prop_type) ((58 # duration_text d) @ cs) (Some d) cs'"
    by (rule parses_prop_value [OF e _ disjI1 [OF cs]])
next
  fix e :: ics_env and d w
  show "duration_write_prop d w = write_raw (58 # duration_text d) w"
    by (cases "duration_text d = []") (simp_all add: duration_write_prop_def duration_write_text write_raw_Cons)
qed (simp_all add: duration_text_clean scalar_def)

interpretation email_p: ics_prop_codec email_prop_type "\<lambda>a. 58 # email_address_text a" "\<lambda>e a. text_ok (email_text a)" email_prop_write
proof
  show "shrinks (ty_read email_prop_type)"
    by (simp add: email_prop_type_def plain_type_def email_prop_read_def) (intro progress_intros)
next
  fix e a cs cs' assume e: "env_ok e" and a: "text_ok (email_text a)" and cs: "next_line cs cs'"
  have "parses e no_hints (reader_any email_address_type) (email_address_text a @ cs) (Some a) cs'"
    by (rule parses_any, rule parses_email_address [OF e _ next_line_stops(6) [OF cs]]) (simp add: no_hints_def)
  then have p: "parses e no_hints (ty_read email_prop_type) ((58 # email_address_text a) @ cs) (Some a) cs'"
    using parses_rbind [OF parses_burn_params [OF e]] by (simp add: email_prop_type_def plain_type_def email_prop_read_def)
  show "parses e no_hints (prop_value email_prop_type) ((58 # email_address_text a) @ cs) (Some a) cs'"
    by (rule parses_prop_value [OF e p]) (use cs in \<open>auto simp: next_line_def line_end_def\<close>)
next
  fix e :: ics_env and a w
  have "email_address_text a \<noteq> []" by (simp add: email_address_text_def ascii_def)
  then show "email_prop_write a w = write_raw (58 # email_address_text a) w"
    by (simp add: email_prop_write_def write_email_address write_raw_Cons)
qed (simp_all add: email_address_clean scalar_def)

interpretation tz_id_p: ics_prop_codec tz_id_prop_type "\<lambda>z. 58 # tz_value z" "\<lambda>e z. tz_ok z" tz_id_write_prop
proof
  show "shrinks (ty_read tz_id_prop_type)"
    by (simp add: tz_id_prop_type_def plain_type_def tz_id_read_prop_def) (intro progress_intros)
next
  fix e z cs cs' assume e: "env_ok e" and z: "tz_ok z" and cs: "next_line cs cs'"
  have t: "parses e no_hints (reader_any text_type) (tz_value z @ cs) (Some (Text (tz_value z))) cs'"
    using parses_any [OF parses_text [OF e _ next_line_stops(6) [OF cs], where t = "Text (tz_value z)"]] z
    by (simp add: plain_text_text tz_ok_def no_hints_def)
  have "parses e no_hints tz_id_read_prop ((58 # tz_value z) @ cs) (Some (TzId (tz_value z))) cs'"
    unfolding tz_id_read_prop_def append_Cons
    by (rule parses_rbind [OF parses_burn_params [OF e]], rule parses_rbind [OF t], rule parses_rret_eq) simp
  then have p: "parses e no_hints (ty_read tz_id_prop_type) ((58 # tz_value z) @ cs) (Some z) cs'"
    by (simp add: tz_id_prop_type_def plain_type_def)
  show "parses e no_hints (prop_value tz_id_prop_type) ((58 # tz_value z) @ cs) (Some z) cs'"
    by (rule parses_prop_value [OF e p]) (use cs in \<open>auto simp: next_line_def line_end_def\<close>)
next
  fix e :: ics_env and z w
  show "tz_id_write_prop z w = write_raw (58 # tz_value z) w"
    by (cases "tz_value z = []") (simp_all add: tz_id_write_prop_def write_raw_Cons)
qed (simp_all add: tz_ok_def plain_param(3) scalar_def)

end
