(* ===== verification/Ics_Line_Codecs.thy ===== *)
theory Ics_Line_Codecs
  imports Ics_Prop_Codecs
begin

text \<open>
  The contract of a property, \<open>ics_prop_codec\<close>, for the properties with parameters: dates, triggers,
  exception dates, organizers and attendees.  The parameters are read by the loop over entries; a
  parameter is one step of it (\<open>entries_param_opt\<close>) and the colon ends it (\<open>entries_value\<close>).
\<close>

section \<open>One parameter\<close>

lemma takes_step:
  assumes "takes e f cs v cs'" and "\<And>r q. f r = Some (v, q) \<Longrightarrow> g r = Some (s', q)"
  shows "takes e g cs s' cs'"
  using assms unfolding takes_def by blast

lemma param_step:
  assumes "env_ok e" and "fair offer" and "is_name (ascii name)"
    and "\<And>x. v = Some x \<Longrightarrow> parses e no_hints (ty_read T) (t x @ cs) (Some x) cs"
    and "\<And>x sp r q. v = Some x \<Longrightarrow> try_param T (EParam (Spanned sp (ascii name))) name None r = Some (Some x, q)
      \<Longrightarrow> offer (EParam (Spanned sp (ascii name))) s r = Some (s', q)"
    and "v = None \<Longrightarrow> s' = s" and "parses e no_hints (read_entries kind stop offer s') cs w cs'"
  shows "parses e no_hints (read_entries kind stop offer s) (param_opt_text name t v @ cs) w cs'"
proof (rule entries_param_opt [OF assms(1-3) _ assms(6,7)])
  fix x sp assume x: "v = Some x"
  show "takes e (offer (EParam (Spanned sp (ascii name))) s) (t x @ cs) s' cs"
    by (rule takes_step [OF takes_param [OF assms(4) [OF x]] assms(5) [OF x]])
qed

lemma offer_to_taken [simp]: "offer_to upd (Some (v, q)) alt = Some (upd v, q)"
  by (simp add: offer_to_def)

lemma param_stop_simps [simp]: "param_stop h (58 # cs)" "param_stop h (59 # cs)"
  by (simp_all add: param_stop_def)

lemma param_stop_opt [simp]: "param_stop h cs \<Longrightarrow> param_stop h (param_opt_text name t v @ cs)"
  by (simp add: param_opt_text_def split: option.splits)

section \<open>Dates\<close>

lemma fair_dt_any: "fair dt_any_offer"
  unfolding dt_any_offer_def
  by (rule fairI, erule offer_to_leaves, erule try_leaves(3) [OF tz_id_c.moves], simp)

definition form_tz :: "any_form \<Rightarrow> tz_id option" where
  "form_tz f = (case f of FormTz z \<Rightarrow> Some z | _ \<Rightarrow> None)"

definition form_ok :: "any_form \<Rightarrow> bool" where
  "form_ok f = (case form_tz f of Some z \<Rightarrow> tz_ok z | None \<Rightarrow> True)"

definition form_end :: "any_form \<Rightarrow> ustring" where
  "form_end f = (if f = FormUtc then [90] else [])"

definition dt_any_text :: "any_form date_time \<Rightarrow> ustring" where
  "dt_any_text d = param_opt_text ''TZID'' tz_value (form_tz (dt_form d)) @ 58 # dt_text d @ form_end (dt_form d)"

definition dt_any_ok :: "ics_env \<Rightarrow> any_form date_time \<Rightarrow> bool" where
  "dt_any_ok e d = (dt_ok e d \<and> form_ok (dt_form d))"

lemma date_names: "is_name (ascii ''TZID'')" "is_name (ascii ''VALUE'')" "is_name (ascii ''RELATED'')"
  by (simp_all add: is_name_def ascii_def letter_def)

lemma parses_dt_any:
  assumes "env_ok e" and "dt_any_ok e d" and "not_next 90 cs"
  shows "parses e no_hints (ty_read dt_any_type) (dt_any_text d @ cs) (Some d) cs"
proof -
  let ?z = "form_tz (dt_form d)"
  have tz: "parses e no_hints (read_entries KProperty is_value dt_any_offer None)
      (param_opt_text ''TZID'' tz_value ?z @ 58 # t) (Some ?z) t" for t
  proof (rule param_step [OF assms(1) fair_dt_any date_names(1), where T = tz_id_type])
    show "parses e no_hints (ty_read tz_id_type) (tz_value x @ 58 # t) (Some x) (58 # t)" if "?z = Some x" for x
      using assms(2) that by (intro tz_id_c.reads [OF assms(1)]) (auto simp: dt_any_ok_def form_ok_def)
    show "parses e no_hints (read_entries KProperty is_value dt_any_offer ?z) (58 # t) (Some ?z) t"
      by (rule entries_value [OF assms(1) fair_dt_any]) (simp add: dt_any_offer_def)
  qed (simp_all add: dt_any_offer_def)
  have "parses e no_hints dt_any_read (dt_any_text d @ cs)
      (Some \<lparr>dt_date = dt_date d, dt_time = dt_time d, dt_form = dt_form d\<rparr>) cs"
    unfolding dt_any_read_def dt_any_text_def append_assoc append_Cons
  proof (rule parses_rbind [OF tz], rule parses_rbind [OF parses_date_t_time [OF assms(1)]])
    show "dt_ok e d" using assms(2) by (simp add: dt_any_ok_def)
    have z: "parses e no_hints (reader_try_eat 90) (90 # cs) (Some ()) cs"
      and n: "parses e no_hints (reader_try_eat 90) cs None cs"
      using parses_try_eat [OF assms(1) refl] parses_not_next [OF assms(1,3)] by auto
    show "parses e no_hints (case (dt_date d, dt_time d) of (da, t) \<Rightarrow>
        rcase (reader_try_eat 90) (\<lambda>_. rret \<lparr>dt_date = da, dt_time = t, dt_form = FormUtc\<rparr>)
          (rret \<lparr>dt_date = da, dt_time = t, dt_form = case ?z of None \<Rightarrow> FormLocal | Some z \<Rightarrow> FormTz z\<rparr>))
       (form_end (dt_form d) @ cs) (Some \<lparr>dt_date = dt_date d, dt_time = dt_time d, dt_form = dt_form d\<rparr>) cs"
      using parses_rcase_some [OF z parses_rret] parses_rcase_none [OF n parses_rret]
      by (cases "dt_form d") (simp_all add: form_end_def form_tz_def)
  qed
  then show ?thesis by (cases d) (simp add: dt_any_type_def plain_type_def)
qed

lemma shrinks_dt_any [progress_intros]: "shrinks (ty_read dt_any_type)"
  by (simp add: dt_any_type_def plain_type_def dt_any_read_def) (intro progress_intros fair_dt_any)

lemma write_colon: "write_raw (58 # t) w = write_raw t (write_raw [58] w)"
  by (cases "t = []") (simp_all add: write_raw_Cons)

lemma tz_writes: "part_writes tz_id_write tz_value z"
  by (simp add: part_writes_def tz_id_write_def [abs_def] split: option.splits)

lemma dt_any_writes:
  assumes "after_name w"
  shows "dt_any_write d w = write_raw (dt_any_text d) w"
proof -
  have "(case dt_form d of FormTz z \<Rightarrow> write_param ''TZID'' (tz_id_write z) w | _ \<Rightarrow> w)
      = write_param_opt ''TZID'' tz_id_write (form_tz (dt_form d)) w"
    by (simp add: write_param_opt_def form_tz_def split: any_form.splits)
  also have "\<dots> = write_raw (param_opt_text ''TZID'' tz_value (form_tz (dt_form d))) w"
    by (rule write_param_opt_raw [OF tz_writes assms])
  finally show ?thesis
    by (simp add: dt_any_write_def write_date_time dt_any_text_def form_end_def write_colon [of "_ @ _"] write_colon [of "dt_text d"])
qed

lemma dt_any_clean: "dt_any_ok e d \<Longrightarrow> clean_text (dt_any_text d)"
  by (auto simp: dt_any_text_def form_end_def scalar_def dt_any_ok_def form_ok_def form_tz_def tz_ok_def plain_param(3)
      intro!: clean_param_opt date_names split: any_form.splits)

lemma param_starts:
  "\<exists>t. param_opt_text name f v @ 58 # u = 58 # t \<or> param_opt_text name f v @ 58 # u = 59 # t"
  by (simp add: param_opt_text_def split: option.splits)

lemma shrinks_wrap: "shrinks (ty_read T) \<Longrightarrow> shrinks (rbind (reader_any T) (\<lambda>v. rret (C v)))"
  by (intro progress_intros)

text \<open>A property that wraps another one.\<close>

lemma wrapped_prop_codec:
  assumes "\<And>e d cs. env_ok e \<Longrightarrow> ok e d \<Longrightarrow> not_next 90 cs \<Longrightarrow> not_next 84 cs
      \<Longrightarrow> parses e no_hints (ty_read T) (tx d @ cs) (Some d) cs"
    and "\<And>d w. after_name w \<Longrightarrow> wr d w = write_raw (tx d) w" and "\<And>e d. ok e d \<Longrightarrow> clean_text (tx d)"
    and "shrinks (ty_read T)" and "\<And>d. \<exists>t. tx d = 58 # t \<or> tx d = 59 # t"
    and "ty_read S = rbind (reader_any T) (\<lambda>v. rret (C v))" and "\<And>y. C (D y) = y"
  shows "ics_prop_codec S (\<lambda>y. tx (D y)) (\<lambda>e y. ok e (D y)) (\<lambda>y. wr (D y))"
proof
  show "shrinks (ty_read S)" unfolding assms(6) by (rule shrinks_wrap [OF assms(4)])
next
  fix e y cs cs' assume e: "env_ok e" and y: "ok e (D y)" and cs: "next_line cs cs'"
  have "parses e no_hints (ty_read S) (tx (D y) @ cs) (Some (C (D y))) cs"
    unfolding assms(6) by (rule parses_rbind [OF parses_any [OF assms(1) [OF e y next_line_stops(4,5) [OF cs]]] parses_rret])
  then show "parses e no_hints (prop_value S) (tx (D y) @ cs) (Some y) cs'"
    unfolding assms(7) by (rule parses_prop_value [OF e _ disjI1 [OF cs]])
qed (simp_all add: assms(2,3,5))

interpretation created_p: ics_prop_codec created_type "\<lambda>x. dt_any_text (created_value x)"
    "\<lambda>e x. dt_any_ok e (created_value x)" created_write
  unfolding created_write_def [abs_def]
  by (rule wrapped_prop_codec [where C = Created and T = dt_any_type and wr = dt_any_write and tx = dt_any_text, OF parses_dt_any dt_any_writes dt_any_clean shrinks_dt_any])
    (auto simp: created_type_def plain_type_def created_read_def dt_any_text_def intro: param_starts)

interpretation dt_stamp_p: ics_prop_codec dt_stamp_type "\<lambda>x. dt_any_text (dt_stamp_value x)"
    "\<lambda>e x. dt_any_ok e (dt_stamp_value x)" dt_stamp_write
  unfolding dt_stamp_write_def [abs_def]
  by (rule wrapped_prop_codec [where C = DtStamp and T = dt_any_type and wr = dt_any_write and tx = dt_any_text, OF parses_dt_any dt_any_writes dt_any_clean shrinks_dt_any])
    (auto simp: dt_stamp_type_def plain_type_def dt_stamp_read_def dt_any_text_def intro: param_starts)

section \<open>Dates or dates with times\<close>

lemma fair_dod: "fair dod_offer"
  unfolding dod_offer_def
  by (rule fairI, erule offer_to_leaves, erule try_leaves(3) [OF tz_id_c.moves], erule offer_to_leaves,
      erule try_leaves(3) [OF value_type_c.moves], simp)

lemma name_other: "\<not> eq_ignore_case (ascii ''VALUE'') (ascii ''TZID'')" "\<not> eq_ignore_case (ascii ''TZID'') (ascii ''VALUE'')"
  "\<not> eq_ignore_case (ascii ''VALUE'') (ascii ''RELATED'')"
  by (simp_all add: eq_ignore_case_def ascii_def ascii_lower_def)

lemma parses_dod_fields:
  assumes "env_ok e" and "\<And>x. z = Some x \<Longrightarrow> tz_ok x"
  shows "parses e no_hints (read_entries KProperty is_value dod_offer \<lparr>dod_tzid = None, dod_value = None\<rparr>)
      (param_opt_text ''TZID'' tz_value z @ param_opt_text ''VALUE'' value_type_text v @ 58 # t)
      (Some \<lparr>dod_tzid = z, dod_value = v\<rparr>) t"
proof (rule param_step [OF assms(1) fair_dod date_names(1), where T = tz_id_type])
  show "parses e no_hints (ty_read tz_id_type) (tz_value x @ param_opt_text ''VALUE'' value_type_text v @ 58 # t)
      (Some x) (param_opt_text ''VALUE'' value_type_text v @ 58 # t)" if "z = Some x" for x
    by (rule tz_id_c.reads [OF assms]) (simp_all add: that)
  show "parses e no_hints (read_entries KProperty is_value dod_offer \<lparr>dod_tzid = z, dod_value = None\<rparr>)
      (param_opt_text ''VALUE'' value_type_text v @ 58 # t) (Some \<lparr>dod_tzid = z, dod_value = v\<rparr>) t"
  proof (rule param_step [OF assms(1) fair_dod date_names(2), where T = dt_value_type_type])
    show "parses e no_hints (ty_read dt_value_type_type) (value_type_text x @ 58 # t) (Some x) (58 # t)" if "v = Some x" for x
      by (rule value_type_c.reads [OF assms(1)]) simp_all
    show "parses e no_hints (read_entries KProperty is_value dod_offer \<lparr>dod_tzid = z, dod_value = v\<rparr>) (58 # t)
        (Some \<lparr>dod_tzid = z, dod_value = v\<rparr>) t"
      by (rule entries_value [OF assms(1) fair_dod]) (simp add: dod_offer_def)
  qed (simp_all add: dod_offer_def name_other)
qed (simp_all add: dod_offer_def)

definition dod_ok :: "ics_env \<Rightarrow> any_form date_or_dt \<Rightarrow> bool" where
  "dod_ok e d = (case d of DDate x \<Rightarrow> date_ok e x | DDateTime x \<Rightarrow> dt_any_ok e x)"

definition dod_text :: "any_form date_or_dt \<Rightarrow> ustring" where
  "dod_text d = (case d of DDate x \<Rightarrow> param_opt_text ''VALUE'' value_type_text (Some VtDate) @ 58 # date_text x
     | DDateTime x \<Rightarrow> dt_any_text x)"

lemma parses_no_string:
  assumes "env_ok e" and "not_next (hd s) cs" and "s \<noteq> []"
  shows "parses e h (reader_try_string s) cs None cs"
  unfolding reader_try_string_def
proof (rule parses_attempt_none)
  fix r assume "rd_env r = e" "before cs r"
  then show "fst (reader_eat_all s r) = None"
    using eat_fails [of r cs "hd s"] assms by (cases s) (auto simp: rbind_def split: prod.splits option.splits)
qed (intro progress_intros)

lemma parses_dod_date:
  assumes "env_ok e" and "date_ok e x" and "not_next 84 cs"
  shows "parses e no_hints dod_read_date (date_text x @ cs) (Some (DDate x)) cs"
  unfolding dod_read_date_def
proof (rule parses_rbind [OF date_c.reads_any [OF assms(1,2) TrueI]])
  have "parses e no_hints (reader_try_string (ascii ''T000000'')) cs None cs"
    by (rule parses_no_string [OF assms(1)]) (use assms(3) in \<open>simp_all add: ascii_def\<close>)
  then show "parses e no_hints (rcase (reader_spanned (reader_try_string (ascii ''T000000'')))
       (\<lambda>s. rwarn (Some (sp_span s)) (plain_body ''quirky time component'') (rret (DDate x)))
       (rcase (reader_spanned (reader_try_eat 84))
          (\<lambda>s. rerror (Some (sp_span s)) (plain_body ''unexpected time component'')
             (rthen (reader_silently (reader_any time_type)) (rret (DDate x))))
          (rret (DDate x)))) cs (Some (DDate x)) cs"
    by (rule parses_rcase_none [OF parses_spanned_none
          parses_rcase_none [OF parses_spanned_none [OF parses_not_next [OF assms(1,3)]] parses_rret]])
qed

lemma parses_dod_dt:
  assumes "env_ok e" and "dt_any_ok e d" and "not_next 90 cs"
  shows "parses e no_hints (dod_read_dt (form_tz (dt_form d))) (dt_text d @ form_end (dt_form d) @ cs) (Some (DDateTime d)) cs"
proof (cases "form_tz (dt_form d)")
  case (Some z)
  then have f: "dt_form d = FormTz z" by (simp add: form_tz_def split: any_form.splits)
  have "parses e no_hints (rcase (reader_spanned (reader_try_eat 90))
         (\<lambda>s. rerror (Some (sp_span s)) (plain_body ''`Z` cannot be specified together with `TZID`'')
            (rret (DDateTime \<lparr>dt_date = dt_date d, dt_time = dt_time d, dt_form = FormTz z\<rparr>)))
         (rret (DDateTime \<lparr>dt_date = dt_date d, dt_time = dt_time d, dt_form = FormTz z\<rparr>))) cs (Some (DDateTime d)) cs"
    by (rule parses_rcase_none [OF parses_spanned_none [OF parses_not_next [OF assms(1,3)]]], rule parses_rret_eq)
      (simp flip: f)
  moreover have "dt_ok e d" using assms(2) by (simp add: dt_any_ok_def)
  ultimately have "parses e no_hints (dod_read_dt (Some z)) (dt_text d @ cs) (Some (DDateTime d)) cs"
    unfolding dod_read_dt_def by (auto intro!: parses_rbind [OF parses_date_t_time [OF assms(1)]])
  then show ?thesis unfolding Some by (simp add: form_end_def f)
next
  case None
  define u where "u = \<lparr>dt_date = dt_date d, dt_time = dt_time d, dt_form = (if dt_form d = FormUtc then UlUtc else UlLocal)\<rparr>"
  have u: "dt_ok e u" "ul_text u = dt_text d @ form_end (dt_form d)" "dt_map_form any_of_ul u = d"
    using None assms(2) by (cases d, auto simp: u_def dt_any_ok_def dt_ok_def ul_text_def dt_text_def form_end_def form_tz_def
        dt_map_form_def any_of_ul_def split: any_form.splits)
  have "parses e no_hints (reader_any dt_ul_type) (ul_text u @ cs) (Some u) cs"
    by (rule dt_ul_c.reads_any [OF assms(1) u(1) assms(3)])
  then show ?thesis unfolding dod_read_dt_def None
    using u by (auto intro: parses_rbind parses_rret_eq)
qed

lemma parses_dod:
  assumes "env_ok e" and "dod_ok e d" and "not_next 90 cs" and "not_next 84 cs"
  shows "parses e no_hints (ty_read dod_type) (dod_text d @ cs) (Some d) cs"
proof -
  have "parses e no_hints dod_read (dod_text d @ cs) (Some d) cs"
  proof (cases d)
    case (DDate x)
    have "parses e no_hints dod_read_date (date_text x @ cs) (Some (DDate x)) cs"
      by (rule parses_dod_date [OF assms(1) _ assms(4)]) (use assms(2) DDate in \<open>simp add: dod_ok_def\<close>)
    moreover have "dod_text d @ cs = param_opt_text ''TZID'' tz_value None @ param_opt_text ''VALUE'' value_type_text (Some VtDate) @ 58 # date_text x @ cs"
      by (simp add: DDate dod_text_def param_opt_text_def)
    ultimately show ?thesis unfolding dod_read_def DDate
      by (auto intro!: parses_rbind [OF parses_dod_fields [OF assms(1)]])
  next
    case (DDateTime x)
    have "parses e no_hints (dod_read_dt (form_tz (dt_form x))) (dt_text x @ form_end (dt_form x) @ cs) (Some (DDateTime x)) cs"
      by (rule parses_dod_dt [OF assms(1) _ assms(3)]) (use assms(2) DDateTime in \<open>simp add: dod_ok_def\<close>)
    moreover have "tz_ok z" if "form_tz (dt_form x) = Some z" for z
      using that assms(2) DDateTime by (simp add: dod_ok_def dt_any_ok_def form_ok_def)
    moreover have "dod_text d @ cs = param_opt_text ''TZID'' tz_value (form_tz (dt_form x)) @ param_opt_text ''VALUE'' value_type_text None
        @ 58 # dt_text x @ form_end (dt_form x) @ cs"
      by (simp add: DDateTime dod_text_def dt_any_text_def param_opt_text_def [where v = None])
    ultimately show ?thesis unfolding dod_read_def DDateTime
      by (auto intro!: parses_rbind [OF parses_dod_fields [OF assms(1)]])
  qed
  then show ?thesis by (simp add: dod_type_def plain_type_def)
qed

lemma shrinks_dod [progress_intros]: "shrinks (ty_read dod_type)"
proof -
  have "shrinks (dod_read_dt z)" for z
    by (cases z) (auto simp: dod_read_dt_def intro!: progress_intros dt_ul_c.moves)
  moreover have "shrinks dod_read_date"
    unfolding dod_read_date_def by (intro progress_intros time_c.moves)
  ultimately have "shrinks (case v of VtDate \<Rightarrow> dod_read_date | VtDateTime \<Rightarrow> dod_read_dt z)" for v z by (cases v) auto
  then show ?thesis by (simp add: dod_type_def plain_type_def dod_read_def) (intro progress_intros fair_dod)
qed

lemma value_type_writes: "part_writes dt_value_type_write value_type_text v"
  by (simp add: part_writes_def dt_value_type_write_def [abs_def] value_type_text_def split: option.splits)

lemma dod_writes:
  assumes "after_name w"
  shows "dod_write d w = write_raw (dod_text d) w"
proof (cases d)
  case (DDate x)
  have "date_write x v = write_raw (date_text x) v" for v by (simp add: date_write_def date_text_def)
  then show ?thesis
    using write_param_opt_raw [OF value_type_writes assms, of "''VALUE''" "Some VtDate"] DDate
    by (simp add: dod_write_def dod_text_def write_param_opt_def write_colon [of "date_text x"])
qed (simp add: dod_write_def dod_text_def dt_any_writes assms)

lemma dod_clean: "dod_ok e d \<Longrightarrow> clean_text (dod_text d)"
  by (auto simp: dod_text_def dod_ok_def date_text_def scalar_def dt_any_clean value_type_text_def ascii_def
      intro!: clean_param_opt date_names split: date_or_dt.splits)

lemma dod_starts: "\<exists>t. dod_text d = 58 # t \<or> dod_text d = 59 # t"
  unfolding dod_text_def dt_any_text_def by (cases d) (simp_all only: date_or_dt.case param_starts)

lemmas dod_codec = wrapped_prop_codec [where T = dod_type and wr = dod_write and tx = dod_text and ok = dod_ok,
    OF parses_dod dod_writes dod_clean shrinks_dod dod_starts]

interpretation dt_start_p: ics_prop_codec dt_start_type "\<lambda>x. dod_text (dt_start_value x)"
    "\<lambda>e x. dod_ok e (dt_start_value x)" dt_start_write
  unfolding dt_start_write_def [abs_def]
  by (rule dod_codec [where C = DtStart]) (auto simp: dt_start_type_def plain_type_def dt_start_read_def)

interpretation dt_end_p: ics_prop_codec dt_end_type "\<lambda>x. dod_text (dt_end_value x)"
    "\<lambda>e x. dod_ok e (dt_end_value x)" dt_end_write
  unfolding dt_end_write_def [abs_def]
  by (rule dod_codec [where C = DtEnd]) (auto simp: dt_end_type_def plain_type_def dt_end_read_def)

interpretation recurrence_id_p: ics_prop_codec recurrence_id_type "\<lambda>x. dod_text (recurrence_id_value x)"
    "\<lambda>e x. dod_ok e (recurrence_id_value x)" recurrence_id_write
  unfolding recurrence_id_write_def [abs_def]
  by (rule dod_codec [where C = RecurrenceId]) (auto simp: recurrence_id_type_def plain_type_def recurrence_id_read_def)

section \<open>Triggers\<close>

lemma spanned_param_run:
  assumes "parses e h (ty_read T) cs (Some a) cs'" and r: "rd_env r = e" "rd_hints r = h" "before cs r"
  shows "\<exists>sp q. param_field (spanned_type T) r = (Some (Spanned sp a), r\<lparr>rd_pos := q\<rparr>) \<and> before cs' (r\<lparr>rd_pos := q\<rparr>)"
proof -
  let ?c = "rd_context r @ [Spanned (span_one (pos_lc (rd_pos r))) (ty_name T)]"
  obtain q where "ty_read T (r\<lparr>rd_context := ?c\<rparr>) = (Some a, r\<lparr>rd_context := ?c, rd_pos := q\<rparr>)"
      "before cs' (r\<lparr>rd_context := ?c, rd_pos := q\<rparr>)"
    using parsesE [OF assms(1), of "r\<lparr>rd_context := ?c\<rparr>"] r by auto
  then show ?thesis
    by (auto simp: param_field_def rcase_def rret_def reader_any_def reader_context_def spanned_type_def plain_type_def
        reader_spanned_def before_def rd_stream_def)
qed

text \<open>A parameter whose value keeps its place: the rest of the run does not depend on the place.\<close>

lemma spanned_param_step:
  assumes "env_ok e" and "fair offer" and "is_name (ascii name)" and "parses e no_hints (ty_read T) (t @ cs) (Some x) cs"
    and "\<And>sp sq r q. try_param (spanned_type T) (EParam (Spanned sp (ascii name))) name None r = Some (Some (Spanned sq x), q)
      \<Longrightarrow> offer (EParam (Spanned sp (ascii name))) s r = Some (st sq, q)"
    and "\<And>sq. parses e no_hints (rbind (read_entries kind stop offer (st sq)) f) cs v cs'"
  shows "parses e no_hints (rbind (read_entries kind stop offer s) f) (59 # ascii name @ 61 # t @ cs) v cs'"
proof (rule parsesI)
  fix r assume r: "rd_env r = e" "rd_hints r = no_hints" "before (59 # ascii name @ 61 # t @ cs) r"
  obtain en q where en: "reader_entry r = (Some en, r\<lparr>rd_pos := q\<rparr>)" "\<exists>sp. en = EParam (Spanned sp (ascii name))"
      "before (t @ cs) (r\<lparr>rd_pos := q\<rparr>)"
    using yieldsE [OF entry_param_run [OF assms(1,3)] r] .
  then obtain sp where sp: "en = EParam (Spanned sp (ascii name))" by blast
  obtain sq q2 where q2: "param_field (spanned_type T) (r\<lparr>rd_pos := q\<rparr>) = (Some (Spanned sq x), r\<lparr>rd_pos := q2\<rparr>)"
      "before cs (r\<lparr>rd_pos := q2\<rparr>)"
    using spanned_param_run [OF assms(4), of "r\<lparr>rd_pos := q\<rparr>"] r en(3) by auto
  then have "try_param (spanned_type T) en name None (r\<lparr>rd_pos := q\<rparr>) = Some (Some (Spanned sq x), r\<lparr>rd_pos := q2\<rparr>)"
    by (simp add: try_param_def sp eq_ignore_case_def dup_check_def)
  then have "offer en s (r\<lparr>rd_pos := q\<rparr>) = Some (st sq, r\<lparr>rd_pos := q2\<rparr>)"
    unfolding sp by (rule assms(5))
  then have "read_entries kind stop offer s r = read_entries kind stop offer (st sq) (r\<lparr>rd_pos := q2\<rparr>)"
    unfolding read_entries_def
    by (subst rloop_unfold [OF progress_entries [OF assms(2)]]) (simp add: entries_round_def en(1))
  then have "rbind (read_entries kind stop offer s) f r = rbind (read_entries kind stop offer (st sq)) f (r\<lparr>rd_pos := q2\<rparr>)"
    by (simp add: rbind_def)
  then show "\<exists>q. rbind (read_entries kind stop offer s) f r = (v, r\<lparr>rd_pos := q\<rparr>) \<and> before cs' (r\<lparr>rd_pos := q\<rparr>)"
    using parsesE [OF assms(6), of "r\<lparr>rd_pos := q2\<rparr>" sq] r q2(2) by auto
qed

lemma shrinks_spanned_param: "shrinks (ty_read (spanned_type param_value_type))"
  by (simp add: spanned_type_def plain_type_def) (intro progress_intros)

lemma fair_trig: "fair trig_offer"
  unfolding trig_offer_def
  by (rule fairI, erule offer_to_leaves, erule try_leaves(3) [OF shrinks_spanned_param], erule offer_to_leaves,
      erule try_leaves(3) [OF shrinks_spanned_param], simp)

definition trigger_ok :: "ics_env \<Rightarrow> trigger \<Rightarrow> bool" where
  "trigger_ok e x = (case x of TrigAbsolute t \<Rightarrow> dt_ok e t
     | TrigRelative _ d \<Rightarrow> amount_small (du_amount d) \<and> duration_norm d = d)"

definition trigger_params :: "trigger \<Rightarrow> ustring" where
  "trigger_params x = (case x of TrigRelative EdgeStart _ \<Rightarrow> []
     | TrigRelative EdgeEnd _ \<Rightarrow> 59 # ascii ''RELATED'' @ 61 # ascii ''END''
     | TrigAbsolute _ \<Rightarrow> 59 # ascii ''VALUE'' @ 61 # ascii ''DATE-TIME'')"

definition trigger_value :: "trigger \<Rightarrow> ustring" where
  "trigger_value x = (case x of TrigRelative _ d \<Rightarrow> duration_text d | TrigAbsolute t \<Rightarrow> utc_text t)"

definition trigger_text :: "trigger \<Rightarrow> ustring" where
  "trigger_text x = trigger_params x @ 58 # trigger_value x"

lemma parses_trig_value:
  assumes "env_ok e" and "trigger_ok e x" and "duration_end cs"
  shows "parses e no_hints (trig_relative EdgeStart) (trigger_value x @ cs) (Some x) cs \<or> (\<forall>d. x \<noteq> TrigRelative EdgeStart d)"
    "parses e no_hints (trig_relative EdgeEnd) (trigger_value x @ cs) (Some x) cs \<or> (\<forall>d. x \<noteq> TrigRelative EdgeEnd d)"
    "parses e no_hints (rbind (reader_any dt_utc_type) (\<lambda>t. rret (TrigAbsolute t))) (trigger_value x @ cs) (Some x) cs
      \<or> (\<forall>t. x \<noteq> TrigAbsolute t)"
  using assms duration_c.reads_any [OF assms(1) _ assms(3)] dt_utc_c.reads_any [OF assms(1) _ TrueI]
  by (auto simp: trig_relative_def trigger_value_def trigger_ok_def split: trigger.splits
      intro!: parses_rbind [OF _ parses_rret])

lemma trig_ended:
  assumes "env_ok e" and "parses e no_hints (trig_finish s) cs v cs'"
  shows "parses e no_hints (rbind (read_entries KProperty is_value trig_offer s) trig_finish) (58 # cs) v cs'"
  by (rule parses_rbind [OF entries_value [OF assms(1) fair_trig]]) (use assms(2) in \<open>simp_all add: trig_offer_def\<close>)

lemma parses_trigger:
  assumes "env_ok e" and "trigger_ok e x" and "duration_end cs"
  shows "parses e no_hints (ty_read trigger_type) (trigger_text x @ cs) (Some x) cs"
proof -
  let ?pv = "\<lambda>s. \<lparr>pv_value = ascii s, pv_quote = False\<rparr>"
  have pv: "parses e no_hints (ty_read param_value_type) (ascii s @ 58 # t) (Some (?pv s)) (58 # t)" if "is_name (ascii s)" for s t
    by (rule parses_plain_param [OF assms(1) name_plain [OF that]]) simp
  have n: "is_name (ascii ''END'')" "is_name (ascii ''DATE-TIME'')" "\<not> eq_ignore_case (ascii ''END'') (ascii ''START'')"
    by (simp_all add: is_name_def ascii_def letter_def eq_ignore_case_def ascii_lower_def)
  note val = parses_trig_value [OF assms]
  have "parses e no_hints trigger_read (trigger_params x @ 58 # trigger_value x @ cs) (Some x) cs"
  proof (cases x)
    case (TrigAbsolute t)
    have "parses e no_hints (trig_finish \<lparr>tf_related = None, tf_value = Some (Spanned sq (?pv ''DATE-TIME''))\<rparr>)
        (trigger_value x @ cs) (Some x) cs" for sq
      using val(3) TrigAbsolute by (simp add: trig_finish_def eq_ignore_case_def)
    then show ?thesis unfolding trigger_read_def trigger_params_def TrigAbsolute
      by (simp, intro spanned_param_step [OF assms(1) fair_trig date_names(2) pv [OF n(2)],
            where st = "\<lambda>sq. \<lparr>tf_related = None, tf_value = Some (Spanned sq (?pv ''DATE-TIME''))\<rparr>"] trig_ended [OF assms(1)])
        (simp_all add: trig_offer_def name_other)
  next
    case (TrigRelative g d)
    show ?thesis
    proof (cases g)
      case EdgeStart
      then have "parses e no_hints (trig_finish \<lparr>tf_related = None, tf_value = None\<rparr>) (trigger_value x @ cs) (Some x) cs"
        using val(1) TrigRelative by (simp add: trig_finish_def)
      then show ?thesis unfolding trigger_read_def trigger_params_def TrigRelative EdgeStart
        by (simp, intro trig_ended [OF assms(1)])
    next
      case EdgeEnd
      then have "parses e no_hints (trig_finish \<lparr>tf_related = Some (Spanned sq (?pv ''END'')), tf_value = None\<rparr>)
          (trigger_value x @ cs) (Some x) cs" for sq
        using val(2) TrigRelative n(3) by (simp add: trig_finish_def) (simp add: eq_ignore_case_def)
      then show ?thesis unfolding trigger_read_def trigger_params_def TrigRelative EdgeEnd
        by (simp, intro spanned_param_step [OF assms(1) fair_trig date_names(3) pv [OF n(1)],
              where st = "\<lambda>sq. \<lparr>tf_related = Some (Spanned sq (?pv ''END'')), tf_value = None\<rparr>"] trig_ended [OF assms(1)])
          (simp_all add: trig_offer_def)
    qed
  qed
  then show ?thesis by (simp add: trigger_type_def plain_type_def trigger_text_def)
qed

interpretation trigger_p: ics_prop_codec trigger_type trigger_text trigger_ok trigger_write
proof
  have rel: "shrinks (trig_relative g)" for g unfolding trig_relative_def by (intro progress_intros)
  have "shrinks (trig_finish s)" for s
    unfolding trig_finish_def by (auto intro!: progress_intros rel dt_utc_c.moves split: option.splits)
  then show "shrinks (ty_read trigger_type)"
    by (simp add: trigger_type_def plain_type_def trigger_read_def) (intro progress_intros fair_trig)
next
  fix e x cs cs' assume e: "env_ok e" and x: "trigger_ok e x" and cs: "next_line cs cs'"
  show "parses e no_hints (prop_value trigger_type) (trigger_text x @ cs) (Some x) cs'"
    by (rule parses_prop_value [OF e parses_trigger [OF e x next_line_stops(3) [OF cs]] disjI1 [OF cs]])
next
  fix e x assume "trigger_ok e x"
  have "clean_text (ascii ''RELATED'')" "clean_text (ascii ''VALUE'')" "clean_text (ascii ''END'')" "clean_text (ascii ''DATE-TIME'')"
    by (simp_all add: ascii_def scalar_def)
  then show "clean_text (trigger_text x)"
    by (auto simp: trigger_text_def trigger_params_def trigger_value_def duration_text_clean utc_text_def scalar_def
        split: trigger.splits trigger_edge.splits)
next
  fix e x assume "trigger_ok e x"
  show "\<exists>t. trigger_text x = 58 # t \<or> trigger_text x = 59 # t"
    by (auto simp: trigger_text_def trigger_params_def split: trigger.splits trigger_edge.splits)
next
  fix e x w assume "trigger_ok e x" and w: "after_name w"
  have t: "text_ref_write (ascii ''END'') = write_raw (ascii ''END'')" "text_ref_write (ascii ''DATE-TIME'') = write_raw (ascii ''DATE-TIME'')"
    by (simp_all add: fun_eq_iff text_ref_write_text) (simp_all add: ascii_def text_escaped_def)
  have v: "dt_utc_write d w = write_raw (utc_text d) w" for d w
    by (simp add: dt_utc_write_def dt_ul_write_def write_date_time utc_text_def)
  have "write_raw (trigger_text x) w = write_raw (trigger_value x) (write_raw [58] (write_raw (trigger_params x) w))"
    by (simp add: trigger_text_def write_colon [of "trigger_value x"])
  moreover have "(case x of TrigRelative EdgeStart _ \<Rightarrow> w
         | TrigRelative EdgeEnd _ \<Rightarrow> write_param ''RELATED'' (text_ref_write (ascii ''END'')) w
         | TrigAbsolute _ \<Rightarrow> write_param ''VALUE'' (text_ref_write (ascii ''DATE-TIME'')) w) = write_raw (trigger_params x) w"
    by (cases x rule: trigger.exhaust) (auto simp: trigger_params_def write_param_raw [OF w t(1)] write_param_raw [OF w t(2)] split: trigger_edge.splits)
  ultimately show "trigger_write x w = write_raw (trigger_text x) w"
    by (simp add: trigger_write_def trigger_value_def v duration_write_text split: trigger.splits)
qed

section \<open>Exception dates\<close>

lemma fair_ex: "fair ex_offer"
  unfolding ex_offer_def
  by (rule fairI, erule offer_to_leaves, erule try_leaves(3) [OF value_type_c.moves], erule offer_to_leaves,
      erule try_leaves(3) [OF tz_id_c.moves], simp)

definition ex_ul :: "any_form \<Rightarrow> ics_date \<times> ics_time \<Rightarrow> utc_or_local date_time" where
  "ex_ul form x = \<lparr>dt_date = fst x, dt_time = snd x, dt_form = (if form = FormUtc then UlUtc else UlLocal)\<rparr>"

definition ex_date_ok :: "ics_env \<Rightarrow> ex_date \<Rightarrow> bool" where
  "ex_date_ok e x = (case x of ExDates ds \<Rightarrow> ds \<noteq> [] \<and> list_all (date_ok e) ds
     | ExDateTimes form ds \<Rightarrow> ds \<noteq> [] \<and> form_ok form \<and> list_all (dt_ok e) (map (ex_ul form) ds))"

definition ex_value :: "ex_date \<Rightarrow> dt_value_type option" where
  "ex_value x = (case x of ExDates _ \<Rightarrow> Some VtDate | ExDateTimes _ _ \<Rightarrow> None)"

definition ex_tz :: "ex_date \<Rightarrow> tz_id option" where
  "ex_tz x = (case x of ExDates _ \<Rightarrow> None | ExDateTimes form _ \<Rightarrow> form_tz form)"

definition ex_days :: "ex_date \<Rightarrow> ustring" where
  "ex_days x = (case x of ExDates ds \<Rightarrow> vec_text date_text ds | ExDateTimes form ds \<Rightarrow> vec_text ul_text (map (ex_ul form) ds))"

definition ex_date_text :: "ex_date \<Rightarrow> ustring" where
  "ex_date_text x = param_opt_text ''VALUE'' value_type_text (ex_value x) @ param_opt_text ''TZID'' tz_value (ex_tz x) @ 58 # ex_days x"

lemma parses_ex_fields:
  assumes "env_ok e" and "\<And>x. z = Some x \<Longrightarrow> tz_ok x"
  shows "parses e no_hints (read_entries KProperty is_value ex_offer \<lparr>ef_value = None, ef_tzid = None\<rparr>)
      (param_opt_text ''VALUE'' value_type_text v @ param_opt_text ''TZID'' tz_value z @ 58 # t)
      (Some \<lparr>ef_value = v, ef_tzid = z\<rparr>) t"
proof (rule param_step [OF assms(1) fair_ex date_names(2), where T = dt_value_type_type])
  show "parses e no_hints (ty_read dt_value_type_type) (value_type_text x @ param_opt_text ''TZID'' tz_value z @ 58 # t)
      (Some x) (param_opt_text ''TZID'' tz_value z @ 58 # t)" for x
    by (rule value_type_c.reads [OF assms(1)]) simp_all
  show "parses e no_hints (read_entries KProperty is_value ex_offer \<lparr>ef_value = v, ef_tzid = None\<rparr>)
      (param_opt_text ''TZID'' tz_value z @ 58 # t) (Some \<lparr>ef_value = v, ef_tzid = z\<rparr>) t"
  proof (rule param_step [OF assms(1) fair_ex date_names(1), where T = tz_id_type])
    show "parses e no_hints (ty_read tz_id_type) (tz_value x @ 58 # t) (Some x) (58 # t)" if "z = Some x" for x
      by (rule tz_id_c.reads [OF assms]) (simp_all add: that)
    show "parses e no_hints (read_entries KProperty is_value ex_offer \<lparr>ef_value = v, ef_tzid = z\<rparr>) (58 # t)
        (Some \<lparr>ef_value = v, ef_tzid = z\<rparr>) t"
      by (rule entries_value [OF assms(1) fair_ex]) (simp add: ex_offer_def)
  qed (simp_all add: ex_offer_def name_other)
qed (simp_all add: ex_offer_def)

lemma parses_ex_finish:
  assumes "env_ok e" and "ex_date_ok e x" and "peeked cs \<in> {None, Some 10}"
  shows "parses e no_hints (ex_finish \<lparr>ef_value = ex_value x, ef_tzid = ex_tz x\<rparr>) (ex_days x @ cs) (Some x) cs"
proof -
  have n: "peeked cs \<noteq> Some 44" "not_next 90 cs" using assms(3) by (cases cs; auto simp: ascii_lower_def)+
  show ?thesis
  proof (cases x)
    case (ExDates ds)
    have "parses e no_hints (reader_any (vec_type date_type)) (vec_text date_text ds @ cs) (Some ds) cs"
      by (rule parses_any [OF date_c.reads_vec [OF assms(1)]]) (use assms(2) ExDates n in \<open>auto simp: ex_date_ok_def\<close>)
    then show ?thesis unfolding ex_finish_def ExDates
      by (auto simp: ex_value_def ex_days_def intro!: parses_rbind [OF _ parses_rret])
  next
    case (ExDateTimes form ds)
    let ?us = "map (ex_ul form) ds"
    have ok: "ds \<noteq> []" "list_all (dt_ok e) ?us" using assms(2) ExDateTimes by (auto simp: ex_date_ok_def)
    have v: "parses e no_hints (reader_any (vec_type dt_ul_type)) (vec_text ul_text ?us @ cs) (Some ?us) cs"
      by (rule parses_any [OF dt_ul_c.reads_vec [OF assms(1)]]) (use ok n in \<open>auto simp: ascii_lower_def\<close>)
    have f: "(case form_tz form of Some z \<Rightarrow> Some (FormTz z) | None \<Rightarrow>
        (case ?us of [] \<Rightarrow> None | d # _ \<Rightarrow> Some (any_of_ul (dt_form d)))) = Some form"
      using ok(1) by (cases ds) (auto simp: form_tz_def any_of_ul_def ex_ul_def split: any_form.splits)
    have m: "map (\<lambda>d. (dt_date d, dt_time d)) ?us = ds" by (simp add: ex_ul_def comp_def)
    have "parses e no_hints (case (case form_tz form of Some z \<Rightarrow> Some (FormTz z) | None \<Rightarrow>
        (case ?us of [] \<Rightarrow> None | d # _ \<Rightarrow> Some (any_of_ul (dt_form d)))) of None \<Rightarrow> rfail
       | Some form \<Rightarrow> rret (ExDateTimes form (map (\<lambda>d. (dt_date d, dt_time d)) ?us))) cs (Some x) cs"
      unfolding f m ExDateTimes option.case by (rule parses_rret)
    with v have "parses e no_hints (ex_finish \<lparr>ef_value = None, ef_tzid = form_tz form\<rparr>) (vec_text ul_text ?us @ cs) (Some x) cs"
      unfolding ex_finish_def ex_fields.select_convs option.case dt_value_type.case by (rule parses_rbind)
    then show ?thesis by (simp add: ExDateTimes ex_value_def ex_tz_def ex_days_def)
  qed
qed

lemma ex_days_writes:
  "(case x of ExDates ds \<Rightarrow> write_vec date_write ds w | ExDateTimes form ds \<Rightarrow> write_vec (ex_day_write form) ds w)
     = write_raw (ex_days x) w"
proof (cases x)
  case (ExDates ds)
  have "write_vec date_write ds w = write_raw (vec_text date_text ds) w"
    by (rule write_vec_text) (simp add: date_write_def date_text_def)
  then show ?thesis by (simp add: ExDates ex_days_def)
next
  case (ExDateTimes form ds)
  have vec_map: "vec_text ul_text (map (ex_ul form) ys) = vec_text (\<lambda>y. ul_text (ex_ul form y)) ys" for ys
    by (induction "\<lambda>y. ul_text (ex_ul form y)" ys rule: vec_text.induct) auto
  have "ex_day_write form y v = write_raw (ul_text (ex_ul form y)) v" for y v
    using write_date_time [of "ex_ul form y" v] by (simp add: ex_day_write_def ul_text_def ex_ul_def)
  then have "write_vec (ex_day_write form) ds w = write_raw (vec_text (\<lambda>y. ul_text (ex_ul form y)) ds) w"
    by (intro write_vec_text)
  then show ?thesis by (simp add: ExDateTimes ex_days_def vec_map)
qed

lemma ex_params_writes:
  assumes "after_name w"
  shows "(case x of ExDates _ \<Rightarrow> write_param ''VALUE'' (dt_value_type_write VtDate) w
       | ExDateTimes form _ \<Rightarrow> (case form of FormTz z \<Rightarrow> write_param ''TZID'' (tz_id_write z) w | _ \<Rightarrow> w))
     = write_raw (param_opt_text ''VALUE'' value_type_text (ex_value x) @ param_opt_text ''TZID'' tz_value (ex_tz x)) w"
  using write_param_opt_raw [OF value_type_writes assms, of "''VALUE''" "Some VtDate"]
    write_param_opt_raw [OF tz_writes assms, of "''TZID''" "Some _"]
  by (auto simp: ex_value_def ex_tz_def form_tz_def write_param_opt_def param_opt_text_def [where v = None]
      split: ex_date.splits any_form.splits)

interpretation ex_date_p: ics_prop_codec ex_date_type ex_date_text ex_date_ok ex_date_write
proof
  have "shrinks (ex_finish s)" for s
    unfolding ex_finish_def by (auto intro!: progress_intros dt_ul_c.moves split: option.splits dt_value_type.splits list.splits)
  then show "shrinks (ty_read ex_date_type)"
    by (simp add: ex_date_type_def plain_type_def ex_date_read_def) (intro progress_intros fair_ex)
next
  fix e x cs cs' assume e: "env_ok e" and x: "ex_date_ok e x" and cs: "next_line cs cs'"
  have z: "tz_ok z" if "ex_tz x = Some z" for z
    using that x by (auto simp: ex_tz_def ex_date_ok_def form_ok_def split: ex_date.splits)
  have "parses e no_hints ex_date_read (ex_date_text x @ cs) (Some x) cs"
    unfolding ex_date_read_def ex_date_text_def append_assoc append_Cons
    by (rule parses_rbind [OF parses_ex_fields [OF e]], rule z, assumption, rule parses_ex_finish [OF e x next_line_stops(2) [OF cs]])
  then show "parses e no_hints (prop_value ex_date_type) (ex_date_text x @ cs) (Some x) cs'"
    by (intro parses_prop_value [OF e _ disjI1 [OF cs]]) (simp add: ex_date_type_def plain_type_def)
next
  fix e x assume x: "ex_date_ok e x"
  have "clean_text (ex_days x)"
    using x date_c.clean_vec [of e] dt_ul_c.clean_vec [of e] by (auto simp: ex_days_def ex_date_ok_def split: ex_date.splits)
  moreover have "clean_text (param_opt_text ''TZID'' tz_value (ex_tz x))"
    by (rule clean_param_opt [OF date_names(1)])
      (use x in \<open>auto simp: ex_tz_def ex_date_ok_def form_ok_def tz_ok_def plain_param(3) split: ex_date.splits\<close>)
  moreover have "clean_text (param_opt_text ''VALUE'' value_type_text (ex_value x))"
    by (rule clean_param_opt [OF date_names(2)]) (simp add: value_type_text_def ascii_def scalar_def split: dt_value_type.splits)
  ultimately show "clean_text (ex_date_text x)" by (simp add: ex_date_text_def scalar_def)
next
  fix e x assume "ex_date_ok e x"
  show "\<exists>t. ex_date_text x = 58 # t \<or> ex_date_text x = 59 # t"
    by (simp add: ex_date_text_def param_opt_text_def split: option.splits)
next
  fix e x w assume "ex_date_ok e x" and w: "after_name w"
  show "ex_date_write x w = write_raw (ex_date_text x) w"
    unfolding ex_date_write_def Let_def ex_days_writes ex_params_writes [OF w]
    by (simp add: ex_date_text_def write_colon [of "ex_days x"])
qed

section \<open>Organizers\<close>

text \<open>A person's parameters must not end in a character that hides the semicolon of the next one.\<close>

definition opt_ok :: "('a \<Rightarrow> bool) \<Rightarrow> ('a \<Rightarrow> ustring) \<Rightarrow> 'a option \<Rightarrow> bool" where
  "opt_ok p t v = (case v of None \<Rightarrow> True | Some x \<Rightarrow> p x \<and> ends_plain (t x))"

lemma opt_okD: "opt_ok p t v \<Longrightarrow> part_plain t v" "opt_ok p t v \<Longrightarrow> v = Some x \<Longrightarrow> p x"
  by (auto simp: opt_ok_def part_plain_def split: option.splits)

lemma person_names: "is_name (ascii ''CN'')" "is_name (ascii ''EMAIL'')" "is_name (ascii ''SENT-BY'')"
  "is_name (ascii ''CUTYPE'')" "is_name (ascii ''ROLE'')" "is_name (ascii ''PARTSTAT'')" "is_name (ascii ''RSVP'')"
  "is_name (ascii ''X-PM-TOKEN'')"
  by (simp_all add: is_name_def ascii_def letter_def)

lemma person_others [simp]:
  "\<not> eq_ignore_case (ascii ''EMAIL'') (ascii ''CN'')" "\<not> eq_ignore_case (ascii ''SENT-BY'') (ascii ''CN'')"
  "\<not> eq_ignore_case (ascii ''SENT-BY'') (ascii ''EMAIL'')"
  "\<not> eq_ignore_case (ascii ''CUTYPE'') (ascii ''CN'')" "\<not> eq_ignore_case (ascii ''ROLE'') (ascii ''CN'')"
  "\<not> eq_ignore_case (ascii ''PARTSTAT'') (ascii ''CN'')" "\<not> eq_ignore_case (ascii ''RSVP'') (ascii ''CN'')"
  "\<not> eq_ignore_case (ascii ''X-PM-TOKEN'') (ascii ''CN'')"
  "\<not> eq_ignore_case (ascii ''EMAIL'') (ascii ''CUTYPE'')" "\<not> eq_ignore_case (ascii ''ROLE'') (ascii ''CUTYPE'')"
  "\<not> eq_ignore_case (ascii ''PARTSTAT'') (ascii ''CUTYPE'')" "\<not> eq_ignore_case (ascii ''RSVP'') (ascii ''CUTYPE'')"
  "\<not> eq_ignore_case (ascii ''X-PM-TOKEN'') (ascii ''CUTYPE'')"
  "\<not> eq_ignore_case (ascii ''ROLE'') (ascii ''EMAIL'')" "\<not> eq_ignore_case (ascii ''PARTSTAT'') (ascii ''EMAIL'')"
  "\<not> eq_ignore_case (ascii ''RSVP'') (ascii ''EMAIL'')" "\<not> eq_ignore_case (ascii ''X-PM-TOKEN'') (ascii ''EMAIL'')"
  "\<not> eq_ignore_case (ascii ''PARTSTAT'') (ascii ''ROLE'')" "\<not> eq_ignore_case (ascii ''RSVP'') (ascii ''ROLE'')"
  "\<not> eq_ignore_case (ascii ''X-PM-TOKEN'') (ascii ''ROLE'')"
  "\<not> eq_ignore_case (ascii ''RSVP'') (ascii ''PARTSTAT'')" "\<not> eq_ignore_case (ascii ''X-PM-TOKEN'') (ascii ''PARTSTAT'')"
  "\<not> eq_ignore_case (ascii ''X-PM-TOKEN'') (ascii ''RSVP'')"
  by (simp_all add: eq_ignore_case_def ascii_def ascii_lower_def)

lemmas person_moves = cn_c.moves email_param_c.moves sent_by_c.moves cu_type_c.moves role_c.moves part_stat_c.moves
  rsvp_c.moves param_value_c.moves

lemma fair_org: "fair org_offer"
proof (rule fairI)
  fix entry s r s' r' assume "org_offer entry s r = Some (s', r')"
  then show "leaves r r'" unfolding org_offer_def
    by (elim offer_to_leaves) (auto intro: try_leaves(3) [OF person_moves(1)] try_leaves(3) [OF person_moves(2)]
        try_leaves(3) [OF person_moves(3)] elim: offer_to_leaves)
qed

abbreviation cn_text :: "cn \<Rightarrow> ustring" where
  "cn_text x \<equiv> param_text (cn_value x)"

definition organizer_ok :: "ics_env \<Rightarrow> organizer \<Rightarrow> bool" where
  "organizer_ok e x = (cal_address_ok e (org_address x) \<and> opt_ok (\<lambda>c. param_value_ok (cn_value c)) cn_text (org_cn x)
     \<and> opt_ok email_param_ok email_param_text (org_email x) \<and> opt_ok sent_by_ok sent_by_text (org_sent_by x))"

definition organizer_text :: "organizer \<Rightarrow> ustring" where
  "organizer_text x = param_opt_text ''CN'' cn_text (org_cn x) @ param_opt_text ''EMAIL'' email_param_text (org_email x)
     @ param_opt_text ''SENT-BY'' sent_by_text (org_sent_by x) @ 58 # cal_address_text (org_address x)"

lemma parses_org_fields:
  assumes "env_ok e" and "organizer_ok e x"
  shows "parses e no_hints (read_entries KProperty is_value org_offer org_empty)
      (param_opt_text ''CN'' cn_text (org_cn x) @ param_opt_text ''EMAIL'' email_param_text (org_email x)
     @ param_opt_text ''SENT-BY'' sent_by_text (org_sent_by x) @ 58 # t)
      (Some \<lparr>of_cn = org_cn x, of_email = org_email x, of_sent_by = org_sent_by x\<rparr>) t"
proof -
  note ok = assms(2) [unfolded organizer_ok_def]
  note step = param_step [OF assms(1) fair_org]
  let ?e = "\<lambda>s. read_entries KProperty is_value org_offer s"
  let ?f = "\<lambda>a b c. \<lparr>of_cn = a, of_email = b, of_sent_by = c\<rparr>"
  have "parses e no_hints (?e (?f (org_cn x) (org_email x) (org_sent_by x))) (58 # t) (Some (?f (org_cn x) (org_email x) (org_sent_by x))) t"
    by (rule entries_value [OF assms(1) fair_org]) (simp add: org_offer_def)
  then have "parses e no_hints (?e (?f (org_cn x) (org_email x) None)) (param_opt_text ''SENT-BY'' sent_by_text (org_sent_by x) @ 58 # t)
      (Some (?f (org_cn x) (org_email x) (org_sent_by x))) t"
    by (rule step [OF person_names(3), where T = sent_by_type, rotated 3])
      (use ok in \<open>auto simp: org_offer_def intro!: sent_by_c.reads [OF assms(1)] dest: opt_okD\<close>)
  then have "parses e no_hints (?e (?f (org_cn x) None None)) (param_opt_text ''EMAIL'' email_param_text (org_email x)
      @ param_opt_text ''SENT-BY'' sent_by_text (org_sent_by x) @ 58 # t)
      (Some (?f (org_cn x) (org_email x) (org_sent_by x))) t"
    by (rule step [OF person_names(2), where T = email_param_type, rotated 3])
      (use ok in \<open>auto simp: org_offer_def intro!: email_param_c.reads [OF assms(1)] dest: opt_okD\<close>)
  then have "parses e no_hints (?e (?f None None None)) (param_opt_text ''CN'' cn_text (org_cn x)
      @ param_opt_text ''EMAIL'' email_param_text (org_email x)
      @ param_opt_text ''SENT-BY'' sent_by_text (org_sent_by x) @ 58 # t)
      (Some (?f (org_cn x) (org_email x) (org_sent_by x))) t"
    by (rule step [OF person_names(1), where T = cn_type, rotated 3])
      (use ok in \<open>auto simp: org_offer_def intro!: cn_c.reads [OF assms(1)] dest: opt_okD\<close>)
  then show ?thesis by (simp add: org_empty_def)
qed

lemma person_writes:
  "part_writes cn_write cn_text a" "opt_ok email_param_ok email_param_text b \<Longrightarrow> part_writes email_param_write email_param_text b"
  "part_writes sent_by_write sent_by_text c" "part_writes cu_type_write (\<lambda>x. ascii (cu_type_str x)) d"
  "part_writes role_write (\<lambda>x. ascii (role_str x)) f" "part_writes part_stat_write (\<lambda>x. ascii (part_stat_str x)) g"
  "part_writes rsvp_write (\<lambda>x. ascii (rsvp_str x)) h" "part_writes param_value_write param_text i"
proof -
  have sb: "sent_by_write x w = write_raw (sent_by_text x) w" for x w
  proof -
    have "write_raw (34 # email_address_text (sent_by_value x) @ [34]) w
        = write_raw [34] (write_raw (email_address_text (sent_by_value x)) (write_raw [34] w))"
      by (subst write_raw_Cons) simp_all
    then show ?thesis by (simp add: sent_by_write_def sent_by_text_def write_email_address)
  qed
  show "part_writes sent_by_write sent_by_text c"
    by (simp add: part_writes_def fun_eq_iff sb split: option.splits)
  show "part_writes email_param_write email_param_text b" if "opt_ok email_param_ok email_param_text b"
    using that email_param_c.writes by (auto simp: part_writes_def fun_eq_iff opt_ok_def split: option.splits)
qed (auto simp: part_writes_def fun_eq_iff cn_write_def param_value_write_text cu_type_c.writes role_c.writes part_stat_c.writes
    rsvp_c.writes split: option.splits)

interpretation organizer_p: ics_prop_codec organizer_type organizer_text organizer_ok organizer_write
proof
  show "shrinks (ty_read organizer_type)"
    by (simp add: organizer_type_def plain_type_def organizer_read_def) (intro progress_intros fair_org cal_address_facts)
next
  fix e cs cs' and x :: organizer assume e: "env_ok e" and x: "organizer_ok e x" and cs: "next_line cs cs'"
  have "cal_address_ok e (org_address x)" using x by (simp add: organizer_ok_def)
  then have "parses e no_hints organizer_read (organizer_text x @ cs) (Some x) cs'"
    unfolding organizer_read_def organizer_text_def append_assoc append_Cons
    by (intro parses_rbind [OF parses_org_fields [OF e x]] parses_rbind [OF parses_cal_address [OF e _ cs]] parses_rret_eq) simp_all
  then show "parses e no_hints (prop_value organizer_type) (organizer_text x @ cs) (Some x) cs'"
    by (intro parses_prop_value [OF e]) (use cs in \<open>auto simp: organizer_type_def plain_type_def next_line_def line_end_def\<close>)
next
  fix e and x :: organizer assume x: "organizer_ok e x"
  then show "clean_text (organizer_text x)"
    unfolding organizer_text_def organizer_ok_def clean_text_simps
    by (auto intro!: clean_param_opt person_names cal_address_facts(3)
        intro: cn_c.clean email_param_c.clean sent_by_c.clean simp: scalar_def opt_ok_def)
next
  fix e and x :: organizer assume "organizer_ok e x"
  show "\<exists>t. organizer_text x = 58 # t \<or> organizer_text x = 59 # t"
    by (simp add: organizer_text_def param_opt_text_def split: option.splits)
next
  fix e w and x :: organizer assume x: "organizer_ok e x" and w: "after_name w"
  have plain: "part_plain cn_text (org_cn x)" "part_plain email_param_text (org_email x)"
    using x by (auto simp: organizer_ok_def dest: opt_okD)
  show "organizer_write x w = write_raw (organizer_text x) w"
    using x unfolding organizer_ok_def organizer_write_def Let_def organizer_text_def
    by (simp add: write_param_opt_raw [OF person_writes(1)] write_param_opt_raw [OF person_writes(2)]
        write_param_opt_raw [OF person_writes(3)] after_param_opt [OF plain(1)] after_param_opt [OF plain(2)] w
        cal_address_facts(2) write_colon [of "cal_address_text _"])
qed

section \<open>Attendees\<close>

lemma fair_att: "fair att_offer"
proof (rule fairI)
  fix entry s r s' r' assume "att_offer entry s r = Some (s', r')"
  then show "leaves r r'" unfolding att_offer_def
    by (elim offer_to_leaves) (simp_all add: try_leaves(3) [OF person_moves(1)] try_leaves(3) [OF person_moves(2)]
        try_leaves(3) [OF person_moves(4)] try_leaves(3) [OF person_moves(5)] try_leaves(3) [OF person_moves(6)]
        try_leaves(3) [OF person_moves(7)] try_leaves(3) [OF person_moves(8)])
qed

definition attendee_ok :: "ics_env \<Rightarrow> attendee \<Rightarrow> bool" where
  "attendee_ok e x = (cal_address_ok e (att_address x) \<and> opt_ok (\<lambda>c. param_value_ok (cn_value c)) cn_text (att_cn x)
     \<and> opt_ok email_param_ok email_param_text (att_email x) \<and> pred_option param_value_ok (att_token x))"

definition attendee_params :: "attendee \<Rightarrow> ustring" where
  "attendee_params x = param_opt_text ''CN'' cn_text (att_cn x) @ param_opt_text ''CUTYPE'' (\<lambda>x. ascii (cu_type_str x)) (att_cutype x)
     @ param_opt_text ''EMAIL'' email_param_text (att_email x) @ param_opt_text ''ROLE'' (\<lambda>x. ascii (role_str x)) (att_role x)
     @ param_opt_text ''PARTSTAT'' (\<lambda>x. ascii (part_stat_str x)) (att_partstat x)
     @ param_opt_text ''RSVP'' (\<lambda>x. ascii (rsvp_str x)) (att_rsvp x) @ param_opt_text ''X-PM-TOKEN'' param_text (att_token x)"

definition attendee_text :: "attendee \<Rightarrow> ustring" where
  "attendee_text x = attendee_params x @ 58 # cal_address_text (att_address x)"

lemma parses_att_fields:
  assumes "env_ok e" and "attendee_ok e x"
  shows "parses e no_hints (read_entries KProperty is_value att_offer att_empty) (attendee_params x @ 58 # t)
      (Some \<lparr>af_cn = att_cn x, af_cutype = att_cutype x, af_email = att_email x, af_role = att_role x,
         af_partstat = att_partstat x, af_rsvp = att_rsvp x, af_token = att_token x\<rparr>) t"
proof -
  note ok = assms(2) [unfolded attendee_ok_def]
  note step = param_step [OF assms(1) fair_att]
  let ?e = "\<lambda>s. read_entries KProperty is_value att_offer s"
  let ?f = "\<lambda>a b c d f g h. \<lparr>af_cn = a, af_cutype = b, af_email = c, af_role = d, af_partstat = f, af_rsvp = g, af_token = h\<rparr>"
  let ?x = "?f (att_cn x) (att_cutype x) (att_email x) (att_role x) (att_partstat x) (att_rsvp x) (att_token x)"
  let ?t7 = "58 # t"
  let ?t6 = "param_opt_text ''X-PM-TOKEN'' param_text (att_token x) @ ?t7"
  let ?t5 = "param_opt_text ''RSVP'' (\<lambda>x. ascii (rsvp_str x)) (att_rsvp x) @ ?t6"
  let ?t4 = "param_opt_text ''PARTSTAT'' (\<lambda>x. ascii (part_stat_str x)) (att_partstat x) @ ?t5"
  let ?t3 = "param_opt_text ''ROLE'' (\<lambda>x. ascii (role_str x)) (att_role x) @ ?t4"
  let ?t2 = "param_opt_text ''EMAIL'' email_param_text (att_email x) @ ?t3"
  let ?t1 = "param_opt_text ''CUTYPE'' (\<lambda>x. ascii (cu_type_str x)) (att_cutype x) @ ?t2"
  have "parses e no_hints (?e ?x) ?t7 (Some ?x) t"
    by (rule entries_value [OF assms(1) fair_att]) (simp add: att_offer_def)
  then have "parses e no_hints (?e (?f (att_cn x) (att_cutype x) (att_email x) (att_role x) (att_partstat x) (att_rsvp x) None)) ?t6 (Some ?x) t"
    by (rule step [OF person_names(8), where T = param_value_type, rotated 3])
      (use ok in \<open>auto simp: att_offer_def intro!: param_value_c.reads [OF assms(1)]\<close>)
  then have "parses e no_hints (?e (?f (att_cn x) (att_cutype x) (att_email x) (att_role x) (att_partstat x) None None)) ?t5 (Some ?x) t"
    by (rule step [OF person_names(7), where T = rsvp_type, rotated 3])
      (auto simp: att_offer_def intro!: rsvp_c.reads [OF assms(1)])
  then have "parses e no_hints (?e (?f (att_cn x) (att_cutype x) (att_email x) (att_role x) None None None)) ?t4 (Some ?x) t"
    by (rule step [OF person_names(6), where T = part_stat_type, rotated 3])
      (auto simp: att_offer_def intro!: part_stat_c.reads [OF assms(1)])
  then have "parses e no_hints (?e (?f (att_cn x) (att_cutype x) (att_email x) None None None None)) ?t3 (Some ?x) t"
    by (rule step [OF person_names(5), where T = role_type, rotated 3])
      (auto simp: att_offer_def intro!: role_c.reads [OF assms(1)])
  then have "parses e no_hints (?e (?f (att_cn x) (att_cutype x) None None None None None)) ?t2 (Some ?x) t"
    by (rule step [OF person_names(2), where T = email_param_type, rotated 3])
      (use ok in \<open>auto simp: att_offer_def intro!: email_param_c.reads [OF assms(1)] dest: opt_okD\<close>)
  then have "parses e no_hints (?e (?f (att_cn x) None None None None None None)) ?t1 (Some ?x) t"
    by (rule step [OF person_names(4), where T = cu_type_type, rotated 3])
      (auto simp: att_offer_def intro!: cu_type_c.reads [OF assms(1)])
  then have "parses e no_hints (?e (?f None None None None None None None)) (param_opt_text ''CN'' cn_text (att_cn x) @ ?t1) (Some ?x) t"
    by (rule step [OF person_names(1), where T = cn_type, rotated 3])
      (use ok in \<open>auto simp: att_offer_def intro!: cn_c.reads [OF assms(1)] dest: opt_okD\<close>)
  then show ?thesis by (simp add: att_empty_def attendee_params_def)
qed

lemma name_part_plain: "(\<And>x. is_name (t x)) \<Longrightarrow> part_plain t v"
  using ascii_last_plain by (auto simp: part_plain_def ends_plain_def split: option.splits)

lemma rsvp_name: "is_name (ascii (rsvp_str x))"
  by (simp add: rsvp_str_def ascii_def is_name_def letter_def)

interpretation attendee_p: ics_prop_codec attendee_type attendee_text attendee_ok attendee_write
proof
  show "shrinks (ty_read attendee_type)"
    by (simp add: attendee_type_def plain_type_def attendee_read_def) (intro progress_intros fair_att cal_address_facts)
next
  fix e cs cs' and x :: attendee assume e: "env_ok e" and x: "attendee_ok e x" and cs: "next_line cs cs'"
  have "cal_address_ok e (att_address x)" using x by (simp add: attendee_ok_def)
  then have "parses e no_hints attendee_read (attendee_text x @ cs) (Some x) cs'"
    unfolding attendee_read_def attendee_text_def append_assoc append_Cons
    by (intro parses_rbind [OF parses_att_fields [OF e x]] parses_rbind [OF parses_cal_address [OF e _ cs]] parses_rret_eq) simp_all
  then show "parses e no_hints (prop_value attendee_type) (attendee_text x @ cs) (Some x) cs'"
    by (intro parses_prop_value [OF e]) (use cs in \<open>auto simp: attendee_type_def plain_type_def next_line_def line_end_def\<close>)
next
  fix e and x :: attendee assume x: "attendee_ok e x"
  then show "clean_text (attendee_text x)"
    unfolding attendee_text_def attendee_params_def attendee_ok_def clean_text_simps
    by (auto intro!: clean_param_opt person_names cal_address_facts(3)
        intro: cn_c.clean email_param_c.clean param_value_clean
        simp: scalar_def opt_ok_def name_clean rsvp_name enum_tables)
next
  fix e and x :: attendee assume "attendee_ok e x"
  show "\<exists>t. attendee_text x = 58 # t \<or> attendee_text x = 59 # t"
    by (simp add: attendee_text_def attendee_params_def param_opt_text_def split: option.splits)
next
  fix e w and x :: attendee assume x: "attendee_ok e x" and w: "after_name w"
  have plain: "part_plain cn_text (att_cn x)" "part_plain email_param_text (att_email x)"
    using x by (auto simp: attendee_ok_def dest: opt_okD)
  note names = name_part_plain [OF enum_tables(13)] name_part_plain [OF enum_tables(15)] name_part_plain [OF enum_tables(17)]
    name_part_plain [OF rsvp_name]
  show "attendee_write x w = write_raw (attendee_text x) w"
    using x unfolding attendee_ok_def attendee_write_def Let_def attendee_text_def attendee_params_def
    by (simp add: person_writes [THEN write_param_opt_raw] after_param_opt [OF plain(1)] after_param_opt [OF plain(2)]
        names [THEN after_param_opt] w cal_address_facts(2) write_colon [of "cal_address_text _"])
qed

end
