(* ===== verification/Ics_Components.thy ===== *)
theory Ics_Components
  imports Ics_Objects
begin

text \<open>
  Components (\<open>shared/ical/src/objects/valarm.rs\<close>, \<open>vtimezone.rs\<close>, \<open>vevent.rs\<close>,
  \<open>shared/ical/src/lib.rs\<close>): alarms, time zones, events and calendars, their parsers and printers,
  the validation of a calendar, and the functions that read a whole source.
\<close>

section \<open>Shared steps\<close>

text \<open>A step whose outcome is kept as an option, for a field that is unwrapped later.\<close>

definition rkeep :: "'a rd \<Rightarrow> ('a option \<Rightarrow> 'b rd) \<Rightarrow> 'b rd" where
  "rkeep p f r = (case p r of (v, r') \<Rightarrow> f v r')"

text \<open>\<open>for x in xs { w.prop(name, x) }\<close> and \<open>for x in xs { w.comp(name, x) }\<close>.\<close>

definition write_props :: "string \<Rightarrow> ('a \<Rightarrow> ics_writer \<Rightarrow> ics_writer) \<Rightarrow> 'a list \<Rightarrow> ics_writer \<Rightarrow> ics_writer" where
  "write_props name wr xs w = fold (\<lambda>x. write_prop name (wr x)) xs w"

definition write_comps :: "string \<Rightarrow> ('a \<Rightarrow> ics_writer \<Rightarrow> ics_writer) \<Rightarrow> 'a list \<Rightarrow> ics_writer \<Rightarrow> ics_writer" where
  "write_comps name wr xs w = fold (\<lambda>x. write_comp name (wr x)) xs w"

section \<open>Alarms\<close>

record duration_repeat =
  dr_duration :: ics_duration
  dr_repeat :: repeat

record display_alarm =
  da_trigger :: trigger
  da_description :: description
  da_repeat :: "duration_repeat option"

record email_alarm =
  ea_trigger :: trigger
  ea_description :: description
  ea_summary :: summary
  ea_attendees :: "email_address list"
  ea_repeat :: "duration_repeat option"

datatype valarm = AlarmDisplay display_alarm | AlarmEmail email_alarm

definition valarm_trigger :: "valarm \<Rightarrow> trigger" where
  "valarm_trigger a = (case a of AlarmDisplay x \<Rightarrow> da_trigger x | AlarmEmail x \<Rightarrow> ea_trigger x)"

definition valarm_description :: "valarm \<Rightarrow> description" where
  "valarm_description a = (case a of AlarmDisplay x \<Rightarrow> da_description x | AlarmEmail x \<Rightarrow> ea_description x)"

definition display_alarm_new :: "trigger \<Rightarrow> description \<Rightarrow> display_alarm" where
  "display_alarm_new t d = \<lparr>da_trigger = t, da_description = d, da_repeat = None\<rparr>"

definition display_alarm_with_repeat :: "ics_duration \<Rightarrow> repeat \<Rightarrow> display_alarm \<Rightarrow> display_alarm" where
  "display_alarm_with_repeat d n a = a\<lparr>da_repeat := Some \<lparr>dr_duration = d, dr_repeat = n\<rparr>\<rparr>"

definition email_alarm_new :: "trigger \<Rightarrow> description \<Rightarrow> summary \<Rightarrow> email_address \<Rightarrow> email_alarm" where
  "email_alarm_new t d s a = \<lparr>ea_trigger = t, ea_description = d, ea_summary = s, ea_attendees = [a], ea_repeat = None\<rparr>"

definition email_alarm_with_attendee :: "email_address \<Rightarrow> email_alarm \<Rightarrow> email_alarm" where
  "email_alarm_with_attendee x a = a\<lparr>ea_attendees := ea_attendees a @ [x]\<rparr>"

definition email_alarm_with_repeat :: "ics_duration \<Rightarrow> repeat \<Rightarrow> email_alarm \<Rightarrow> email_alarm" where
  "email_alarm_with_repeat d n a = a\<lparr>ea_repeat := Some \<lparr>dr_duration = d, dr_repeat = n\<rparr>\<rparr>"

definition duration_repeat_new_opt :: "ics_duration option \<Rightarrow> repeat option \<Rightarrow> duration_repeat option" where
  "duration_repeat_new_opt d n = (case d of None \<Rightarrow> None
     | Some d' \<Rightarrow> (case n of None \<Rightarrow> None | Some n' \<Rightarrow> Some \<lparr>dr_duration = d', dr_repeat = n'\<rparr>))"

record alarm_fields =
  al_action :: "alarm_action option"
  al_trigger :: "trigger option"
  al_description :: "description option"
  al_duration :: "ics_duration option"
  al_repeat :: "repeat option"
  al_summary :: "summary option"
  al_attendees :: "email_address list"

definition alarm_empty :: alarm_fields where
  "alarm_empty = \<lparr>al_action = None, al_trigger = None, al_description = None, al_duration = None, al_repeat = None,
     al_summary = None, al_attendees = []\<rparr>"

definition alarm_offer :: "read_entry \<Rightarrow> alarm_fields \<Rightarrow> ics_reader \<Rightarrow> (alarm_fields \<times> ics_reader) option" where
  "alarm_offer entry s r =
    offer_to (\<lambda>v. s\<lparr>al_action := v\<rparr>) (try_prop alarm_action_type entry ''ACTION'' (al_action s) r)
   (offer_to (\<lambda>v. s\<lparr>al_trigger := v\<rparr>) (try_prop trigger_type entry ''TRIGGER'' (al_trigger s) r)
   (offer_to (\<lambda>v. s\<lparr>al_description := v\<rparr>) (try_prop description_type entry ''DESCRIPTION'' (al_description s) r)
   (offer_to (\<lambda>v. s\<lparr>al_duration := v\<rparr>) (try_prop duration_prop_type entry ''DURATION'' (al_duration s) r)
   (offer_to (\<lambda>v. s\<lparr>al_repeat := v\<rparr>) (try_prop repeat_type entry ''REPEAT'' (al_repeat s) r)
   (offer_to (\<lambda>v. s\<lparr>al_summary := v\<rparr>) (try_prop summary_type entry ''SUMMARY'' (al_summary s) r)
   (offer_to (\<lambda>v. s\<lparr>al_attendees := v\<rparr>) (try_props email_prop_type entry ''ATTENDEE'' (al_attendees s) r) None))))))"

definition alarm_repeat :: "alarm_fields \<Rightarrow> duration_repeat rd" where
  "alarm_repeat s =
    (if al_duration s \<noteq> None \<or> al_repeat s \<noteq> None
     then rkeep (unwrap_prop duration_prop_type ''DURATION'' (al_duration s)) (\<lambda>d.
          rkeep (unwrap_prop repeat_type ''REPEAT'' (al_repeat s)) (\<lambda>n r. (duration_repeat_new_opt d n, r)))
     else rfail)"

definition alarm_finish :: "alarm_fields \<Rightarrow> valarm rd" where
  "alarm_finish s =
    rkeep (alarm_repeat s) (\<lambda>dr.
    rbind (unwrap_prop alarm_action_type ''ACTION'' (al_action s)) (\<lambda>action. case action of
      AcDisplay \<Rightarrow>
        rkeep (unwrap_prop trigger_type ''TRIGGER'' (al_trigger s)) (\<lambda>trigger.
        rkeep (unwrap_prop description_type ''DESCRIPTION'' (al_description s)) (\<lambda>description r.
          (case (trigger, description) of
             (Some t, Some d) \<Rightarrow> (Some (AlarmDisplay \<lparr>da_trigger = t, da_description = d, da_repeat = dr\<rparr>), r)
           | _ \<Rightarrow> (None, r))))
    | AcEmail \<Rightarrow>
        rkeep (unwrap_prop trigger_type ''TRIGGER'' (al_trigger s)) (\<lambda>trigger.
        rkeep (unwrap_prop description_type ''DESCRIPTION'' (al_description s)) (\<lambda>description.
        rkeep (unwrap_prop summary_type ''SUMMARY'' (al_summary s)) (\<lambda>summary r.
          (case (trigger, description, summary) of
             (Some t, Some d, Some u) \<Rightarrow> (Some (AlarmEmail \<lparr>ea_trigger = t, ea_description = d, ea_summary = u,
                ea_attendees = al_attendees s, ea_repeat = dr\<rparr>), r)
           | _ \<Rightarrow> (None, r)))))))"

definition valarm_read :: "valarm rd" where
  "valarm_read = rbind (read_entries KComponent (\<lambda>e. try_comp_end e ''VALARM'') alarm_offer alarm_empty) alarm_finish"

definition valarm_type :: "valarm ics_type" where
  "valarm_type = plain_type ''VAlarm'' valarm_read"

definition duration_repeat_write :: "duration_repeat option \<Rightarrow> ics_writer \<Rightarrow> ics_writer" where
  "duration_repeat_write dr w = (case dr of
     None \<Rightarrow> w
   | Some x \<Rightarrow> write_prop ''REPEAT'' (repeat_write (dr_repeat x))
       (write_prop ''DURATION'' (duration_write_prop (dr_duration x)) w))"

definition display_alarm_write :: "display_alarm \<Rightarrow> ics_writer \<Rightarrow> ics_writer" where
  "display_alarm_write a w =
    (let w = write_prop ''TRIGGER'' (trigger_write (da_trigger a)) w;
         w = write_prop ''DESCRIPTION'' (description_write (da_description a)) w
     in duration_repeat_write (da_repeat a) w)"

definition email_alarm_write :: "email_alarm \<Rightarrow> ics_writer \<Rightarrow> ics_writer" where
  "email_alarm_write a w =
    (let w = write_prop ''TRIGGER'' (trigger_write (ea_trigger a)) w;
         w = write_prop ''DESCRIPTION'' (description_write (ea_description a)) w;
         w = write_prop ''SUMMARY'' (summary_write (ea_summary a)) w;
         w = write_props ''ATTENDEE'' email_prop_write (ea_attendees a) w
     in duration_repeat_write (ea_repeat a) w)"

definition valarm_write :: "valarm \<Rightarrow> ics_writer \<Rightarrow> ics_writer" where
  "valarm_write a w = (case a of
     AlarmDisplay x \<Rightarrow> display_alarm_write x (write_prop ''ACTION'' (alarm_action_write AcDisplay) w)
   | AlarmEmail x \<Rightarrow> email_alarm_write x (write_prop ''ACTION'' (alarm_action_write AcEmail) w))"

section \<open>Time zones\<close>

record tz_props =
  tp_dtstart :: dt_start
  tp_offset_from :: tz_offset_from
  tp_offset_to :: tz_offset_to
  tp_rrule :: "rrule option"
  tp_name :: "tz_name option"

definition tz_props_new :: "dt_start \<Rightarrow> tz_offset_from \<Rightarrow> tz_offset_to \<Rightarrow> tz_props" where
  "tz_props_new d f t = \<lparr>tp_dtstart = d, tp_offset_from = f, tp_offset_to = t, tp_rrule = None, tp_name = None\<rparr>"

definition tz_props_with_rrule :: "rrule \<Rightarrow> tz_props \<Rightarrow> tz_props" where
  "tz_props_with_rrule x p = p\<lparr>tp_rrule := Some x\<rparr>"

definition tz_props_with_tz_name :: "tz_name \<Rightarrow> tz_props \<Rightarrow> tz_props" where
  "tz_props_with_tz_name x p = p\<lparr>tp_name := Some x\<rparr>"

record tz_fields =
  tzf_dtstart :: "dt_start option"
  tzf_from :: "tz_offset_from option"
  tzf_to :: "tz_offset_to option"
  tzf_rrule :: "rrule option"
  tzf_name :: "tz_name option"

definition tz_empty :: tz_fields where
  "tz_empty = \<lparr>tzf_dtstart = None, tzf_from = None, tzf_to = None, tzf_rrule = None, tzf_name = None\<rparr>"

definition tz_offer :: "read_entry \<Rightarrow> tz_fields \<Rightarrow> ics_reader \<Rightarrow> (tz_fields \<times> ics_reader) option" where
  "tz_offer entry s r =
    offer_to (\<lambda>v. s\<lparr>tzf_dtstart := v\<rparr>) (try_prop dt_start_type entry ''DTSTART'' (tzf_dtstart s) r)
   (offer_to (\<lambda>v. s\<lparr>tzf_from := v\<rparr>) (try_prop tz_offset_from_type entry ''TZOFFSETFROM'' (tzf_from s) r)
   (offer_to (\<lambda>v. s\<lparr>tzf_to := v\<rparr>) (try_prop tz_offset_to_type entry ''TZOFFSETTO'' (tzf_to s) r)
   (offer_to (\<lambda>v. s\<lparr>tzf_rrule := v\<rparr>) (try_prop rrule_type entry ''RRULE'' (tzf_rrule s) r)
   (offer_to (\<lambda>v. s\<lparr>tzf_name := v\<rparr>) (try_prop tz_name_type entry ''TZNAME'' (tzf_name s) r) None))))"

definition tz_props_finish :: "tz_fields \<Rightarrow> tz_props rd" where
  "tz_props_finish s =
    rkeep (unwrap_prop dt_start_type ''DTSTART'' (tzf_dtstart s)) (\<lambda>dtstart.
    rkeep (unwrap_prop tz_offset_from_type ''TZOFFSETFROM'' (tzf_from s)) (\<lambda>from.
    rkeep (unwrap_prop tz_offset_to_type ''TZOFFSETTO'' (tzf_to s)) (\<lambda>to r.
      (case (dtstart, from, to) of
         (Some d, Some f, Some t) \<Rightarrow> (Some \<lparr>tp_dtstart = d, tp_offset_from = f, tp_offset_to = t,
            tp_rrule = tzf_rrule s, tp_name = tzf_name s\<rparr>, r)
       | _ \<Rightarrow> (None, r)))))"

definition tz_props_read :: "tz_props rd" where
  "tz_props_read = rbind (read_entries KComponent
     (\<lambda>e. try_comp_end e ''DAYLIGHT'' \<or> try_comp_end e ''STANDARD'') tz_offer tz_empty) tz_props_finish"

definition tz_props_type :: "tz_props ics_type" where
  "tz_props_type = plain_type ''TzProps'' tz_props_read"

definition tz_props_write :: "tz_props \<Rightarrow> ics_writer \<Rightarrow> ics_writer" where
  "tz_props_write p w =
    (let w = write_prop ''DTSTART'' (dt_start_write (tp_dtstart p)) w;
         w = write_prop ''TZOFFSETFROM'' (tz_offset_from_write (tp_offset_from p)) w;
         w = write_prop ''TZOFFSETTO'' (tz_offset_to_write (tp_offset_to p)) w;
         w = write_prop_opt ''RRULE'' rrule_write (tp_rrule p) w
     in write_prop_opt ''TZNAME'' tz_name_write (tp_name p) w)"

record vtimezone =
  vtz_tzid :: tz_id
  vtz_daylights :: "tz_props list"
  vtz_standards :: "tz_props list"

definition vtimezone_new :: "tz_id \<Rightarrow> tz_props \<Rightarrow> tz_props \<Rightarrow> vtimezone" where
  "vtimezone_new z d s = \<lparr>vtz_tzid = z, vtz_daylights = [d], vtz_standards = [s]\<rparr>"

definition vtimezone_new_daylight :: "tz_id \<Rightarrow> tz_props \<Rightarrow> vtimezone" where
  "vtimezone_new_daylight z p = \<lparr>vtz_tzid = z, vtz_daylights = [p], vtz_standards = []\<rparr>"

definition vtimezone_new_standard :: "tz_id \<Rightarrow> tz_props \<Rightarrow> vtimezone" where
  "vtimezone_new_standard z p = \<lparr>vtz_tzid = z, vtz_daylights = [], vtz_standards = [p]\<rparr>"

definition vtimezone_with_daylight :: "tz_props \<Rightarrow> vtimezone \<Rightarrow> vtimezone" where
  "vtimezone_with_daylight p z = z\<lparr>vtz_daylights := vtz_daylights z @ [p]\<rparr>"

definition vtimezone_with_standard :: "tz_props \<Rightarrow> vtimezone \<Rightarrow> vtimezone" where
  "vtimezone_with_standard p z = z\<lparr>vtz_standards := vtz_standards z @ [p]\<rparr>"

record vtz_fields =
  vf_tzid :: "tz_id option"
  vf_daylights :: "tz_props list"
  vf_standards :: "tz_props list"

definition vtz_offer :: "read_entry \<Rightarrow> vtz_fields \<Rightarrow> ics_reader \<Rightarrow> (vtz_fields \<times> ics_reader) option" where
  "vtz_offer entry s r =
    offer_to (\<lambda>v. s\<lparr>vf_tzid := v\<rparr>) (try_prop tz_id_prop_type entry ''TZID'' (vf_tzid s) r)
   (offer_to (\<lambda>v. s\<lparr>vf_daylights := v\<rparr>) (try_comps tz_props_type entry ''DAYLIGHT'' (vf_daylights s) r)
   (offer_to (\<lambda>v. s\<lparr>vf_standards := v\<rparr>) (try_comps tz_props_type entry ''STANDARD'' (vf_standards s) r) None))"

definition vtz_finish :: "vtz_fields \<Rightarrow> vtimezone rd" where
  "vtz_finish s = rbind (unwrap_prop tz_id_prop_type ''TZID'' (vf_tzid s)) (\<lambda>z.
     rret \<lparr>vtz_tzid = z, vtz_daylights = vf_daylights s, vtz_standards = vf_standards s\<rparr>)"

definition vtimezone_read :: "vtimezone rd" where
  "vtimezone_read = rbind (read_entries KComponent (\<lambda>e. try_comp_end e ''VTIMEZONE'') vtz_offer
     \<lparr>vf_tzid = None, vf_daylights = [], vf_standards = []\<rparr>) vtz_finish"

definition vtimezone_type :: "vtimezone ics_type" where
  "vtimezone_type = plain_type ''VTimeZone'' vtimezone_read"

definition vtimezone_write :: "vtimezone \<Rightarrow> ics_writer \<Rightarrow> ics_writer" where
  "vtimezone_write z w =
    (let w = write_prop ''TZID'' (tz_id_write_prop (vtz_tzid z)) w;
         w = write_comps ''DAYLIGHT'' tz_props_write (vtz_daylights z) w
     in write_comps ''STANDARD'' tz_props_write (vtz_standards z) w)"

section \<open>Events\<close>

record vevent =
  ev_uid :: "uid option"
  ev_dtstamp :: "dt_stamp option"
  ev_dtstart :: "dt_start option"
  ev_dtend :: "dt_end option"
  ev_created :: "created option"
  ev_class :: ics_class
  ev_transp :: transp
  ev_status :: "status option"
  ev_priority :: "priority option"
  ev_summary :: "summary option"
  ev_location :: "location option"
  ev_description :: "description option"
  ev_organizer :: "organizer option"
  ev_attendees :: "attendee list"
  ev_rrule :: "rrule option"
  ev_exdate :: "ex_date option"
  ev_duration :: "ics_duration option"
  ev_sequence :: "sequence option"
  ev_recurrence_id :: "recurrence_id option"
  ev_alarms :: "valarm list"

definition vevent_new :: "uid \<Rightarrow> dt_stamp \<Rightarrow> vevent" where
  "vevent_new u d = \<lparr>ev_uid = Some u, ev_dtstamp = Some d, ev_dtstart = None, ev_dtend = None, ev_created = None, ev_class = ClPublic, ev_transp = TrOpaque, ev_status = None, ev_priority = None, ev_summary = None, ev_location = None, ev_description = None, ev_organizer = None, ev_attendees = [], ev_rrule = None, ev_exdate = None, ev_duration = None, ev_sequence = None, ev_recurrence_id = None, ev_alarms = []\<rparr>"

definition vevent_with_dtstamp :: "dt_stamp \<Rightarrow> vevent \<Rightarrow> vevent" where
  "vevent_with_dtstamp x e = e\<lparr>ev_dtstamp := Some x\<rparr>"

definition vevent_with_dtstart :: "dt_start \<Rightarrow> vevent \<Rightarrow> vevent" where
  "vevent_with_dtstart x e = e\<lparr>ev_dtstart := Some x\<rparr>"

definition vevent_with_dtend :: "dt_end \<Rightarrow> vevent \<Rightarrow> vevent" where
  "vevent_with_dtend x e = e\<lparr>ev_dtend := Some x\<rparr>"

definition vevent_with_created :: "created \<Rightarrow> vevent \<Rightarrow> vevent" where
  "vevent_with_created x e = e\<lparr>ev_created := Some x\<rparr>"

definition vevent_with_class :: "ics_class \<Rightarrow> vevent \<Rightarrow> vevent" where
  "vevent_with_class x e = e\<lparr>ev_class := x\<rparr>"

definition vevent_with_transp :: "transp \<Rightarrow> vevent \<Rightarrow> vevent" where
  "vevent_with_transp x e = e\<lparr>ev_transp := x\<rparr>"

definition vevent_with_status :: "status \<Rightarrow> vevent \<Rightarrow> vevent" where
  "vevent_with_status x e = e\<lparr>ev_status := Some x\<rparr>"

definition vevent_with_priority :: "priority \<Rightarrow> vevent \<Rightarrow> vevent" where
  "vevent_with_priority x e = e\<lparr>ev_priority := Some x\<rparr>"

definition vevent_with_summary :: "summary \<Rightarrow> vevent \<Rightarrow> vevent" where
  "vevent_with_summary x e = e\<lparr>ev_summary := Some x\<rparr>"

definition vevent_with_location :: "location \<Rightarrow> vevent \<Rightarrow> vevent" where
  "vevent_with_location x e = e\<lparr>ev_location := Some x\<rparr>"

definition vevent_with_description :: "description \<Rightarrow> vevent \<Rightarrow> vevent" where
  "vevent_with_description x e = e\<lparr>ev_description := Some x\<rparr>"

definition vevent_with_organizer :: "organizer \<Rightarrow> vevent \<Rightarrow> vevent" where
  "vevent_with_organizer x e = e\<lparr>ev_organizer := Some x\<rparr>"

definition vevent_with_attendee :: "attendee \<Rightarrow> vevent \<Rightarrow> vevent" where
  "vevent_with_attendee x e = e\<lparr>ev_attendees := ev_attendees e @ [x]\<rparr>"

definition vevent_with_attendees :: "attendee list \<Rightarrow> vevent \<Rightarrow> vevent" where
  "vevent_with_attendees xs e = e\<lparr>ev_attendees := ev_attendees e @ xs\<rparr>"

definition vevent_with_rrule :: "rrule \<Rightarrow> vevent \<Rightarrow> vevent" where
  "vevent_with_rrule x e = e\<lparr>ev_rrule := Some x\<rparr>"

definition vevent_with_exdate :: "ex_date \<Rightarrow> vevent \<Rightarrow> vevent" where
  "vevent_with_exdate x e = e\<lparr>ev_exdate := Some x\<rparr>"

definition vevent_with_duration :: "ics_duration \<Rightarrow> vevent \<Rightarrow> vevent" where
  "vevent_with_duration x e = e\<lparr>ev_duration := Some x\<rparr>"

definition vevent_with_sequence :: "sequence \<Rightarrow> vevent \<Rightarrow> vevent" where
  "vevent_with_sequence x e = e\<lparr>ev_sequence := Some x\<rparr>"

definition vevent_with_recurrence_id :: "recurrence_id \<Rightarrow> vevent \<Rightarrow> vevent" where
  "vevent_with_recurrence_id x e = e\<lparr>ev_recurrence_id := Some x\<rparr>"

definition vevent_with_alarm :: "valarm \<Rightarrow> vevent \<Rightarrow> vevent" where
  "vevent_with_alarm x e = e\<lparr>ev_alarms := ev_alarms e @ [x]\<rparr>"

definition vevent_with_alarms :: "valarm list \<Rightarrow> vevent \<Rightarrow> vevent" where
  "vevent_with_alarms xs e = e\<lparr>ev_alarms := ev_alarms e @ xs\<rparr>"

record event_fields =
  evf_uid :: "uid option"
  evf_dtstamp :: "dt_stamp option"
  evf_dtstart :: "dt_start option"
  evf_dtend :: "dt_end option"
  evf_created :: "created option"
  evf_class :: "ics_class option"
  evf_transp :: "transp option"
  evf_status :: "status option"
  evf_priority :: "priority option"
  evf_summary :: "summary option"
  evf_location :: "location option"
  evf_description :: "description option"
  evf_organizer :: "organizer option"
  evf_attendees :: "attendee list"
  evf_rrule :: "rrule option"
  evf_exdate :: "ex_date option"
  evf_duration :: "ics_duration option"
  evf_sequence :: "sequence option"
  evf_recurrence_id :: "recurrence_id option"
  evf_alarms :: "valarm list"

definition event_empty :: event_fields where
  "event_empty = \<lparr>evf_uid = None, evf_dtstamp = None, evf_dtstart = None, evf_dtend = None, evf_created = None, evf_class = None, evf_transp = None, evf_status = None, evf_priority = None, evf_summary = None, evf_location = None, evf_description = None, evf_organizer = None, evf_attendees = [], evf_rrule = None, evf_exdate = None, evf_duration = None, evf_sequence = None, evf_recurrence_id = None, evf_alarms = []\<rparr>"

definition event_offer :: "read_entry \<Rightarrow> event_fields \<Rightarrow> ics_reader \<Rightarrow> (event_fields \<times> ics_reader) option" where
  "event_offer entry s r =
    offer_to (\<lambda>v. s\<lparr>evf_uid := v\<rparr>) (try_prop uid_type entry ''UID'' (evf_uid s) r)
   (offer_to (\<lambda>v. s\<lparr>evf_dtstamp := v\<rparr>) (try_prop dt_stamp_type entry ''DTSTAMP'' (evf_dtstamp s) r)
   (offer_to (\<lambda>v. s\<lparr>evf_dtstart := v\<rparr>) (try_prop dt_start_type entry ''DTSTART'' (evf_dtstart s) r)
   (offer_to (\<lambda>v. s\<lparr>evf_dtend := v\<rparr>) (try_prop dt_end_type entry ''DTEND'' (evf_dtend s) r)
   (offer_to (\<lambda>v. s\<lparr>evf_created := v\<rparr>) (try_prop created_type entry ''CREATED'' (evf_created s) r)
   (offer_to (\<lambda>v. s\<lparr>evf_class := v\<rparr>) (try_prop ics_class_type entry ''CLASS'' (evf_class s) r)
   (offer_to (\<lambda>v. s\<lparr>evf_transp := v\<rparr>) (try_prop transp_type entry ''TRANSP'' (evf_transp s) r)
   (offer_to (\<lambda>v. s\<lparr>evf_status := v\<rparr>) (try_prop status_type entry ''STATUS'' (evf_status s) r)
   (offer_to (\<lambda>v. s\<lparr>evf_priority := v\<rparr>) (try_prop priority_type entry ''PRIORITY'' (evf_priority s) r)
   (offer_to (\<lambda>v. s\<lparr>evf_summary := v\<rparr>) (try_prop summary_type entry ''SUMMARY'' (evf_summary s) r)
   (offer_to (\<lambda>v. s\<lparr>evf_location := v\<rparr>) (try_prop location_type entry ''LOCATION'' (evf_location s) r)
   (offer_to (\<lambda>v. s\<lparr>evf_description := v\<rparr>) (try_prop description_type entry ''DESCRIPTION'' (evf_description s) r)
   (offer_to (\<lambda>v. s\<lparr>evf_organizer := v\<rparr>) (try_prop organizer_type entry ''ORGANIZER'' (evf_organizer s) r)
   (offer_to (\<lambda>v. s\<lparr>evf_attendees := v\<rparr>) (try_props attendee_type entry ''ATTENDEE'' (evf_attendees s) r)
   (offer_to (\<lambda>v. s\<lparr>evf_rrule := v\<rparr>) (try_prop rrule_type entry ''RRULE'' (evf_rrule s) r)
   (offer_to (\<lambda>v. s\<lparr>evf_exdate := v\<rparr>) (try_prop ex_date_type entry ''EXDATE'' (evf_exdate s) r)
   (offer_to (\<lambda>v. s\<lparr>evf_duration := v\<rparr>) (try_prop duration_prop_type entry ''DURATION'' (evf_duration s) r)
   (offer_to (\<lambda>v. s\<lparr>evf_sequence := v\<rparr>) (try_prop sequence_type entry ''SEQUENCE'' (evf_sequence s) r)
   (offer_to (\<lambda>v. s\<lparr>evf_recurrence_id := v\<rparr>) (try_prop recurrence_id_type entry ''RECURRENCE-ID'' (evf_recurrence_id s) r)
   (offer_to (\<lambda>v. s\<lparr>evf_alarms := v\<rparr>) (try_comps valarm_type entry ''VALARM'' (evf_alarms s) r) None)))))))))))))))))))"

definition event_finish :: "event_fields \<Rightarrow> vevent rd" where
  "event_finish s =
    rkeep (unwrap_prop uid_type ''UID'' (evf_uid s)) (\<lambda>u.
    rkeep (unwrap_prop dt_stamp_type ''DTSTAMP'' (evf_dtstamp s)) (\<lambda>d.
    rret \<lparr>ev_uid = u, ev_dtstamp = d, ev_dtstart = evf_dtstart s, ev_dtend = evf_dtend s, ev_created = evf_created s, ev_class = (case evf_class s of Some c \<Rightarrow> c | None \<Rightarrow> ClPublic), ev_transp = (case evf_transp s of Some c \<Rightarrow> c | None \<Rightarrow> TrOpaque), ev_status = evf_status s, ev_priority = evf_priority s, ev_summary = evf_summary s, ev_location = evf_location s, ev_description = evf_description s, ev_organizer = evf_organizer s, ev_attendees = evf_attendees s, ev_rrule = evf_rrule s, ev_exdate = evf_exdate s, ev_duration = evf_duration s, ev_sequence = evf_sequence s, ev_recurrence_id = evf_recurrence_id s, ev_alarms = evf_alarms s\<rparr>))"

definition vevent_read :: "vevent rd" where
  "vevent_read = rbind (read_entries KComponent (\<lambda>e. try_comp_end e ''VEVENT'') event_offer event_empty) event_finish"

definition vevent_type :: "vevent ics_type" where
  "vevent_type = plain_type ''VEvent'' vevent_read"

definition vevent_write :: "vevent \<Rightarrow> ics_writer \<Rightarrow> ics_writer" where
  "vevent_write e w =
    (let w = write_prop_opt ''UID'' uid_write (ev_uid e) w;
         w = write_prop_opt ''DTSTAMP'' dt_stamp_write (ev_dtstamp e) w;
         w = write_prop_opt ''DTSTART'' dt_start_write (ev_dtstart e) w;
         w = write_prop_opt ''DTEND'' dt_end_write (ev_dtend e) w;
         w = write_prop_opt ''CREATED'' created_write (ev_created e) w;
         w = (if ev_class e = ClPublic then w else write_prop ''CLASS'' (ics_class_write (ev_class e)) w);
         w = (if ev_transp e = TrOpaque then w else write_prop ''TRANSP'' (transp_write (ev_transp e)) w);
         w = write_prop_opt ''STATUS'' status_write (ev_status e) w;
         w = write_prop_opt ''PRIORITY'' priority_write (ev_priority e) w;
         w = write_prop_opt ''SUMMARY'' summary_write (ev_summary e) w;
         w = write_prop_opt ''LOCATION'' location_write (ev_location e) w;
         w = write_prop_opt ''DESCRIPTION'' description_write (ev_description e) w;
         w = write_prop_opt ''ORGANIZER'' organizer_write (ev_organizer e) w;
         w = write_props ''ATTENDEE'' attendee_write (ev_attendees e) w;
         w = write_prop_opt ''RRULE'' rrule_write (ev_rrule e) w;
         w = write_prop_opt ''EXDATE'' ex_date_write (ev_exdate e) w;
         w = write_prop_opt ''DURATION'' duration_write_prop (ev_duration e) w;
         w = write_prop_opt ''SEQUENCE'' sequence_write (ev_sequence e) w;
         w = write_prop_opt ''RECURRENCE-ID'' recurrence_id_write (ev_recurrence_id e) w
     in write_comps ''VALARM'' valarm_write (ev_alarms e) w)"

section \<open>Calendars\<close>

record vcalendar =
  cal_method :: "ics_method option"
  cal_prodid :: prod_id
  cal_version :: version
  cal_calscale :: cal_scale
  cal_events :: "vevent list"
  cal_timezones :: "vtimezone list"

definition vcalendar_new :: "prod_id \<Rightarrow> vcalendar" where
  "vcalendar_new p = \<lparr>cal_method = None, cal_prodid = p, cal_version = VersionTwo, cal_calscale = Gregorian,
     cal_events = [], cal_timezones = []\<rparr>"

definition vcalendar_with_method :: "ics_method \<Rightarrow> vcalendar \<Rightarrow> vcalendar" where
  "vcalendar_with_method m c = c\<lparr>cal_method := Some m\<rparr>"

definition vcalendar_with_event :: "vevent \<Rightarrow> vcalendar \<Rightarrow> vcalendar" where
  "vcalendar_with_event e c = c\<lparr>cal_events := cal_events c @ [e]\<rparr>"

definition vcalendar_with_events :: "vevent list \<Rightarrow> vcalendar \<Rightarrow> vcalendar" where
  "vcalendar_with_events es c = c\<lparr>cal_events := cal_events c @ es\<rparr>"

definition vcalendar_with_timezone :: "vtimezone \<Rightarrow> vcalendar \<Rightarrow> vcalendar" where
  "vcalendar_with_timezone z c = c\<lparr>cal_timezones := cal_timezones c @ [z]\<rparr>"

definition vcalendar_with_timezones :: "vtimezone list \<Rightarrow> vcalendar \<Rightarrow> vcalendar" where
  "vcalendar_with_timezones zs c = c\<lparr>cal_timezones := cal_timezones c @ zs\<rparr>"

record cal_fields =
  cf_method :: "ics_method option"
  cf_prodid :: "prod_id option"
  cf_version :: "version option"
  cf_calscale :: "cal_scale option"
  cf_events :: "vevent list"
  cf_timezones :: "vtimezone list"

definition cal_empty :: cal_fields where
  "cal_empty = \<lparr>cf_method = None, cf_prodid = None, cf_version = None, cf_calscale = None, cf_events = [],
     cf_timezones = []\<rparr>"

definition cal_offer :: "read_entry \<Rightarrow> cal_fields \<Rightarrow> ics_reader \<Rightarrow> (cal_fields \<times> ics_reader) option" where
  "cal_offer entry s r =
    offer_to (\<lambda>v. s\<lparr>cf_method := v\<rparr>) (try_prop ics_method_type entry ''METHOD'' (cf_method s) r)
   (offer_to (\<lambda>v. s\<lparr>cf_prodid := v\<rparr>) (try_prop prod_id_type entry ''PRODID'' (cf_prodid s) r)
   (offer_to (\<lambda>v. s\<lparr>cf_version := v\<rparr>) (try_prop version_type entry ''VERSION'' (cf_version s) r)
   (offer_to (\<lambda>v. s\<lparr>cf_calscale := v\<rparr>) (try_prop cal_scale_type entry ''CALSCALE'' (cf_calscale s) r)
   (offer_to (\<lambda>v. s\<lparr>cf_events := v\<rparr>) (try_comps vevent_type entry ''VEVENT'' (cf_events s) r)
   (offer_to (\<lambda>v. s\<lparr>cf_timezones := v\<rparr>) (try_comps vtimezone_type entry ''VTIMEZONE'' (cf_timezones s) r) None)))))"

definition cal_finish :: "cal_fields \<Rightarrow> vcalendar rd" where
  "cal_finish s =
    rkeep (unwrap_prop prod_id_type ''PRODID'' (cf_prodid s)) (\<lambda>prodid.
    rkeep (unwrap_prop version_type ''VERSION'' (cf_version s)) (\<lambda>version r.
      (case (prodid, version) of
         (Some p, Some v) \<Rightarrow> (Some \<lparr>cal_method = cf_method s, cal_prodid = p, cal_version = v,
            cal_calscale = (case cf_calscale s of Some c \<Rightarrow> c | None \<Rightarrow> Gregorian),
            cal_events = cf_events s, cal_timezones = cf_timezones s\<rparr>, r)
       | _ \<Rightarrow> (None, r))))"

definition vcalendar_read :: "vcalendar rd" where
  "vcalendar_read = rbind (read_entries KComponent (\<lambda>e. try_comp_end e ''VCALENDAR'') cal_offer cal_empty) cal_finish"

definition vcalendar_type :: "vcalendar ics_type" where
  "vcalendar_type = plain_type ''VCalendar'' vcalendar_read"

definition vcalendar_write :: "vcalendar \<Rightarrow> ics_writer \<Rightarrow> ics_writer" where
  "vcalendar_write c w =
    (let w = write_prop_opt ''METHOD'' ics_method_write (cal_method c) w;
         w = write_prop ''PRODID'' (prod_id_write (cal_prodid c)) w;
         w = write_prop ''VERSION'' (version_write (cal_version c)) w;
         w = write_prop ''CALSCALE'' (cal_scale_write (cal_calscale c)) w;
         w = write_comps ''VTIMEZONE'' vtimezone_write (cal_timezones c) w
     in write_comps ''VEVENT'' vevent_write (cal_events c) w)"

definition vcalendar_to_string :: "vcalendar \<Rightarrow> ustring" where
  "vcalendar_to_string c = write_finish (write_comp ''VCALENDAR'' (vcalendar_write c) writer_default)"

section \<open>Validation\<close>

definition dt_any_validate :: "vcalendar \<Rightarrow> any_form date_time \<Rightarrow> date_time_violation list" where
  "dt_any_validate c d = (case dt_form d of
     FormTz z \<Rightarrow> if \<not> list_ex (\<lambda>tz. tz_value (vtz_tzid tz) = tz_value z) (cal_timezones c)
       then [UnknownTimeZone (tz_value z)] else []
   | _ \<Rightarrow> [])"

definition dod_validate :: "vcalendar \<Rightarrow> any_form date_or_dt \<Rightarrow> date_time_violation list" where
  "dod_validate c d = (case d of DDate _ \<Rightarrow> [] | DDateTime x \<Rightarrow> dt_any_validate c x)"

datatype created_violation = CreatedInvalidValue date_time_violation
datatype dt_stamp_violation = DtStampInvalidValue date_time_violation
datatype dt_start_violation = DtStartInvalidValue date_time_violation
datatype dt_end_violation = DtEndInvalidValue date_time_violation
datatype recurrence_id_violation = RecurrenceIdInvalidValue date_time_violation
datatype rrule_violation = RRuleInvalidValue recur_violation

definition created_validate :: "vcalendar \<Rightarrow> created \<Rightarrow> created_violation list" where
  "created_validate c x = map CreatedInvalidValue (dt_any_validate c (created_value x))"

definition dt_stamp_validate :: "vcalendar \<Rightarrow> dt_stamp \<Rightarrow> dt_stamp_violation list" where
  "dt_stamp_validate c x = map DtStampInvalidValue (dt_any_validate c (dt_stamp_value x))"

definition dt_start_validate :: "vcalendar \<Rightarrow> dt_start \<Rightarrow> dt_start_violation list" where
  "dt_start_validate c x = map DtStartInvalidValue (dod_validate c (dt_start_value x))"

definition dt_end_validate :: "vcalendar \<Rightarrow> dt_end \<Rightarrow> dt_end_violation list" where
  "dt_end_validate c x = map DtEndInvalidValue (dod_validate c (dt_end_value x))"

definition recurrence_id_validate :: "vcalendar \<Rightarrow> recurrence_id \<Rightarrow> recurrence_id_violation list" where
  "recurrence_id_validate c x = map RecurrenceIdInvalidValue (dod_validate c (recurrence_id_value x))"

definition rrule_validate :: "rrule \<Rightarrow> rrule_violation list" where
  "rrule_validate x = map RRuleInvalidValue (recur_validate (rrule_value x))"

datatype valarm_violation = MissingStartDay | MissingEndDay | NoAttendees

definition email_alarm_validate :: "email_alarm \<Rightarrow> valarm_violation list" where
  "email_alarm_validate a = (if ea_attendees a = [] then [NoAttendees] else [])"

definition valarm_validate :: "vevent \<Rightarrow> valarm \<Rightarrow> valarm_violation list" where
  "valarm_validate e a =
    (case valarm_trigger a of
       TrigRelative EdgeStart _ \<Rightarrow> if ev_dtstart e = None then [MissingStartDay] else []
     | TrigRelative EdgeEnd _ \<Rightarrow>
         if ev_dtend e = None \<and> ev_dtstart e = None \<and> ev_duration e = None then [MissingEndDay] else []
     | TrigAbsolute _ \<Rightarrow> [])
   @ (case a of AlarmEmail x \<Rightarrow> email_alarm_validate x | AlarmDisplay _ \<Rightarrow> [])"

datatype vevent_violation =
    DuplicatedUid ustring
  | MissingUid
  | BothDtEndAndDurationSpecified
  | DtStartAndDtEndTypeMismatch string string
  | DtStartAndRecurrenceIdTypeMismatch string string
  | MissingDtStamp
  | InvalidDtStamp dt_stamp_violation
  | InvalidDtStart dt_start_violation
  | InvalidDtEnd dt_end_violation
  | InvalidCreated created_violation
  | InvalidRRule rrule_violation
  | InvalidRecurrenceId recurrence_id_violation
  | InvalidAlarm nat valarm_violation

definition uid_taken :: "vcalendar \<Rightarrow> nat option \<Rightarrow> uid \<Rightarrow> bool" where
  "uid_taken c skip u = list_ex (\<lambda>(idx, e). case ev_uid e of
     None \<Rightarrow> False | Some u2 \<Rightarrow> Some idx \<noteq> skip \<and> uid_value u2 = uid_value u) (List.enumerate 0 (cal_events c))"

definition type_mismatches :: "vevent \<Rightarrow> vevent_violation list" where
  "type_mismatches e = (case ev_dtstart e of
     None \<Rightarrow> []
   | Some d \<Rightarrow>
       (let lhs = date_or_dt_ty (dt_start_value d)
        in (case ev_dtend e of
              None \<Rightarrow> []
            | Some x \<Rightarrow> (let rhs = date_or_dt_ty (dt_end_value x)
                in if lhs \<noteq> rhs then [DtStartAndDtEndTypeMismatch lhs rhs] else []))
         @ (case ev_recurrence_id e of
              None \<Rightarrow> []
            | Some x \<Rightarrow> (let rhs = date_or_dt_ty (recurrence_id_value x)
                in if lhs \<noteq> rhs then [DtStartAndRecurrenceIdTypeMismatch lhs rhs] else []))))"

definition opt_viols :: "('a \<Rightarrow> 'v list) \<Rightarrow> ('v \<Rightarrow> vevent_violation) \<Rightarrow> 'a option \<Rightarrow> vevent_violation list" where
  "opt_viols validate into x = (case x of None \<Rightarrow> [] | Some a \<Rightarrow> map into (validate a))"

definition vevent_validate :: "vcalendar \<Rightarrow> nat option \<Rightarrow> vevent \<Rightarrow> vevent_violation list" where
  "vevent_validate c skip e =
    (case ev_uid e of
       Some u \<Rightarrow> if uid_taken c skip u then [DuplicatedUid (text_str (uid_value u))] else []
     | None \<Rightarrow> [MissingUid])
   @ (if ev_dtend e \<noteq> None \<and> ev_duration e \<noteq> None then [BothDtEndAndDurationSpecified] else [])
   @ type_mismatches e
   @ (case ev_dtstamp e of Some d \<Rightarrow> map InvalidDtStamp (dt_stamp_validate c d) | None \<Rightarrow> [MissingDtStamp])
   @ opt_viols (dt_start_validate c) InvalidDtStart (ev_dtstart e)
   @ opt_viols (dt_end_validate c) InvalidDtEnd (ev_dtend e)
   @ opt_viols (created_validate c) InvalidCreated (ev_created e)
   @ opt_viols rrule_validate InvalidRRule (ev_rrule e)
   @ opt_viols (recurrence_id_validate c) InvalidRecurrenceId (ev_recurrence_id e)
   @ concat (map (\<lambda>(idx, a). map (InvalidAlarm idx) (valarm_validate e a)) (List.enumerate 0 (ev_alarms e)))"

datatype vtimezone_violation = DuplicatedId ustring

definition vtimezone_validate :: "vcalendar \<Rightarrow> nat option \<Rightarrow> vtimezone \<Rightarrow> vtimezone_violation list" where
  "vtimezone_validate c skip z =
    (if list_ex (\<lambda>(idx, tz). Some idx \<noteq> skip \<and> vtz_tzid tz = vtz_tzid z) (List.enumerate 0 (cal_timezones c))
     then [DuplicatedId (tz_value (vtz_tzid z))] else [])"

datatype ics_violation = InvalidEvent nat vevent_violation | InvalidTimeZone nat vtimezone_violation

datatype validated_calendar = CleanCalendar vcalendar | DirtyCalendar vcalendar "ics_violation list"

definition calendar_viols :: "vcalendar \<Rightarrow> ics_violation list" where
  "calendar_viols c =
     concat (map (\<lambda>(idx, e). map (InvalidEvent idx) (vevent_validate c (Some idx) e)) (List.enumerate 0 (cal_events c)))
   @ concat (map (\<lambda>(idx, z). map (InvalidTimeZone idx) (vtimezone_validate c (Some idx) z))
       (List.enumerate 0 (cal_timezones c)))"

definition vcalendar_validate :: "vcalendar \<Rightarrow> validated_calendar" where
  "vcalendar_validate c =
    (let viols = calendar_viols c in if viols = [] then CleanCalendar c else DirtyCalendar c viols)"

definition validated_cal :: "validated_calendar \<Rightarrow> vcalendar" where
  "validated_cal v = (case v of CleanCalendar c \<Rightarrow> c | DirtyCalendar c _ \<Rightarrow> c)"

definition validated_viols :: "validated_calendar \<Rightarrow> ics_violation list" where
  "validated_viols v = (case v of CleanCalendar _ \<Rightarrow> [] | DirtyCalendar _ viols \<Rightarrow> viols)"

definition validated_into_clean :: "validated_calendar \<Rightarrow> vcalendar option" where
  "validated_into_clean v = (case v of CleanCalendar c \<Rightarrow> Some c | DirtyCalendar _ _ \<Rightarrow> None)"

definition validated_into_dirty :: "validated_calendar \<Rightarrow> (vcalendar \<times> ics_violation list) option" where
  "validated_into_dirty v = (case v of CleanCalendar _ \<Rightarrow> None | DirtyCalendar c viols \<Rightarrow> Some (c, viols))"

definition validated_to_string :: "validated_calendar \<Rightarrow> ustring" where
  "validated_to_string v = vcalendar_to_string (validated_cal v)"

section \<open>Whole sources\<close>

datatype ics_error = MissingEvent nat | MissingTimeZone nat | InvalidIcs "read_msg list"

text \<open>The loop over the components of a source.\<close>

definition source_round :: "'a ics_type \<Rightarrow> string \<Rightarrow> ('a option, 'a option) body" where
  "source_round T name v r =
    (if reader_is_empty r then (Break (Some v), r)
     else case reader_entry r of
        (None, r1) \<Rightarrow> (Break (Some v), r1)
      | (Some entry, r1) \<Rightarrow>
          (case try_comp T entry name v r1 of
             Some (v', r2) \<Rightarrow> (Continue v', r2)
           | None \<Rightarrow> (Continue v, snd (entry_burn entry KComponent r1))))"

definition missing_msg :: "string \<Rightarrow> read_msg list \<Rightarrow> read_msg list" where
  "missing_msg what msgs = (if list_ex (\<lambda>m. m_kind m = MsgError) msgs then msgs
     else msgs @ [\<lparr>m_at = None, m_body = plain_body what, m_kind = MsgError, m_context = []\<rparr>])"

definition read_source :: "'a ics_type \<Rightarrow> string \<Rightarrow> string \<Rightarrow> ics_env \<Rightarrow> octets \<Rightarrow> ics_error + 'a \<times> read_msg list" where
  "read_source T name what env src =
    (case rloop (source_round T name) None (reader_new env src) of
       (v, r) \<Rightarrow> (case v of
          Some (Some a) \<Rightarrow> Inr (a, rd_msgs r)
        | _ \<Rightarrow> Inl (InvalidIcs (missing_msg what (rd_msgs r)))))"

record parsed_vtimezone =
  pz_tz :: vtimezone
  pz_msgs :: "read_msg list"

definition vtimezone_from_str :: "ics_env \<Rightarrow> octets \<Rightarrow> ics_error + parsed_vtimezone" where
  "vtimezone_from_str env src = map_sum id (\<lambda>(z, msgs). \<lparr>pz_tz = z, pz_msgs = msgs\<rparr>)
     (read_source vtimezone_type ''VTIMEZONE'' ''missing time zone'' env src)"

record parsed_vcalendar =
  pc_cal :: vcalendar
  pc_msgs :: "read_msg list"
  pc_viols :: "ics_violation list"

definition vcalendar_from_bytes :: "ics_env \<Rightarrow> octets \<Rightarrow> ics_error + parsed_vcalendar" where
  "vcalendar_from_bytes env src = map_sum id
     (\<lambda>(c, msgs). \<lparr>pc_cal = c, pc_msgs = msgs, pc_viols = validated_viols (vcalendar_validate c)\<rparr>)
     (read_source vcalendar_type ''VCALENDAR'' ''missing calendar'' env src)"

end
