(* ===== verification/Ics_Component_Codecs.thy ===== *)
theory Ics_Component_Codecs
  imports Ics_Line_Codecs Ics_Components
begin

text \<open>
  The contract of a component, \<open>ics_comp_codec\<close>: its printer writes lines that depend on the
  component alone, and its parser reads them and the line \<open>END\<close> that closes it.  Alarms, time
  zones, events and calendars meet it.  A field of a component is one or several turns of the loop
  over entries, from one state of its fields to the next (\<open>steps\<close>).
\<close>

section \<open>Lines\<close>

definition text_lines :: "ustring \<Rightarrow> bool" where
  "text_lines s = (list_all scalar s \<and> foldable s \<and> (s = [] \<or> letter (hd s) \<and> last s = 10))"

lemma foldable_lines:
  "foldable s \<Longrightarrow> foldable t \<Longrightarrow> t = [] \<or> hd t \<noteq> 32 \<and> hd t \<noteq> 9 \<Longrightarrow> foldable (s @ t)"
  by (induction s) (auto simp: hd_append)

lemma text_lines_Nil [simp]: "text_lines []"
  by (simp add: text_lines_def)

lemma text_lines_append [simp, intro]: "text_lines s \<Longrightarrow> text_lines t \<Longrightarrow> text_lines (s @ t)"
  by (cases "t = []") (auto simp: text_lines_def letter_def hd_append intro!: foldable_lines)

lemma text_lines_line:
  assumes "is_name n" and "clean_text t"
  shows "text_lines (n @ t @ [10])"
proof -
  have n: "clean_text n" "n \<noteq> []" "letter (hd n)" using assms(1) name_clean by (auto simp: is_name_def)
  have "foldable ((n @ t) @ [10])"
    by (rule foldable_lines) (use n(1) assms(2) in \<open>auto intro: clean_text_foldable\<close>)
  moreover have "list_all scalar (n @ t @ [10])"
    using clean_text_scalar n(1) assms(2) by (auto simp: scalar_def)
  ultimately show ?thesis using n by (simp add: text_lines_def)
qed

text \<open>What follows a line is not an empty line.\<close>

definition fresh :: "ustring \<Rightarrow> bool" where
  "fresh cs = (peeked cs \<noteq> Some 10)"

lemma fresh_Nil [simp]: "fresh []"
  by (simp add: fresh_def)

lemma fresh_lines [simp]: "text_lines s \<Longrightarrow> fresh cs \<Longrightarrow> fresh (s @ cs)"
  by (cases s) (auto simp: text_lines_def fresh_def letter_def)

lemma fresh_name [simp]: "is_name s \<Longrightarrow> fresh (s @ cs)"
  by (cases s) (auto simp: is_name_def fresh_def letter_def)

lemma fresh_next: "fresh cs \<Longrightarrow> next_line (10 # cs) cs"
  by (simp add: fresh_def next_line_def line_end_def)

section \<open>Fields\<close>

type_synonym 's offer = "read_entry \<Rightarrow> 's \<Rightarrow> ics_reader \<Rightarrow> ('s \<times> ics_reader) option"

text \<open>The lines \<open>t\<close> take the loop from the fields \<open>s\<close> to the fields \<open>s'\<close>.\<close>

definition steps :: "ics_env \<Rightarrow> 's offer \<Rightarrow> 's \<Rightarrow> ustring \<Rightarrow> 's \<Rightarrow> bool" where
  "steps e offer s t s' = (text_lines t \<and> (\<forall>kind stop cs w cs'. fresh cs \<longrightarrow>
     parses e no_hints (read_entries kind stop offer s') cs w cs' \<longrightarrow>
     parses e no_hints (read_entries kind stop offer s) (t @ cs) w cs'))"

lemma stepsD:
  assumes "steps e offer s t s'" and "fresh cs" and "parses e no_hints (read_entries kind stop offer s') cs w cs'"
  shows "parses e no_hints (read_entries kind stop offer s) (t @ cs) w cs'"
  using assms unfolding steps_def by blast

lemma steps_lines: "steps e offer s t s' \<Longrightarrow> text_lines t"
  by (simp add: steps_def)

lemma steps_refl: "steps e offer s [] s"
  by (simp add: steps_def)

lemma steps_trans [trans]:
  assumes "steps e offer s t s'" and "steps e offer s' t' s''"
  shows "steps e offer s (t @ t') s''"
  unfolding steps_def
proof (intro conjI allI impI)
  show "text_lines (t @ t')" using assms by (simp add: steps_lines)
  fix kind stop cs w cs' assume "fresh cs" and "parses e no_hints (read_entries kind stop offer s'') cs w cs'"
  then have "parses e no_hints (read_entries kind stop offer s') (t' @ cs) w cs'" by (rule stepsD [OF assms(2)])
  then have "parses e no_hints (read_entries kind stop offer s) (t @ t' @ cs) w cs'"
    by (rule stepsD [OF assms(1), rotated]) (simp add: \<open>fresh cs\<close> steps_lines [OF assms(2)])
  then show "parses e no_hints (read_entries kind stop offer s) ((t @ t') @ cs) w cs'" by simp
qed

lemma try_comp_other [simp]:
  "\<not> eq_ignore_case (sp_value n) (ascii name) \<Longrightarrow> try_comp T (EComp n) name v r = None"
  by (simp add: try_comp_def)

text \<open>The texts of fields that are properties.\<close>

definition prop_text :: "string \<Rightarrow> ('a \<Rightarrow> ustring) \<Rightarrow> 'a \<Rightarrow> ustring" where
  "prop_text name t x = ascii name @ t x @ [10]"

definition props_text :: "string \<Rightarrow> ('a \<Rightarrow> ustring) \<Rightarrow> 'a list \<Rightarrow> ustring" where
  "props_text name t xs = concat (map (prop_text name t) xs)"

lemma prop_opt_text: "prop_opt_text name t v = (case v of None \<Rightarrow> [] | Some x \<Rightarrow> prop_text name t x)"
  by (simp add: prop_opt_text_def prop_text_def split: option.splits)

lemma props_text_simps [simp]: "props_text name t [] = []"
  "props_text name t (x # xs) = prop_text name t x @ props_text name t xs"
  by (simp_all add: props_text_def)

context ics_prop_codec
begin

lemma prop_lines: "ok e x \<Longrightarrow> is_name (ascii name) \<Longrightarrow> text_lines (prop_text name tx x)"
  unfolding prop_text_def by (rule text_lines_line [OF _ clean])

lemma prop_writes:
  assumes "ok e x" and "is_name (ascii name)"
  shows "write_prop name (wr x) w = write_raw (prop_text name tx x) w"
proof -
  have "after_name (write_raw (ascii name) w)"
    using ascii_last_plain [OF assms(2)] by (simp add: after_name_def needs_semicolon_write_raw)
  then show ?thesis by (simp add: write_prop_def prop_text_def writes [OF assms(1)])
qed

lemma prop_opt_writes:
  assumes "pred_option (ok e) v" and "is_name (ascii name)"
  shows "write_prop_opt name wr v w = write_raw (prop_opt_text name tx v) w"
  using assms prop_writes by (auto simp: write_prop_opt_def prop_opt_text split: option.splits)

lemma props_writes:
  assumes "list_all (ok e) xs" and "is_name (ascii name)"
  shows "write_props name wr xs w = write_raw (props_text name tx xs) w"
  unfolding write_props_def using assms
  by (induction xs arbitrary: w) (auto simp: prop_writes)

text \<open>One turn of the loop reads the line of a property.\<close>

lemma line_step:
  assumes "env_ok e" and "fair offer" and "prop_name name" and "ok e x"
    and "\<And>sp r q. try_prop T (EProp (Spanned sp (ascii name))) name None r = Some (Some x, q)
      \<Longrightarrow> offer (EProp (Spanned sp (ascii name))) s r = Some (s', q)"
  shows "steps e offer s (prop_text name tx x) s'"
  unfolding steps_def
proof (intro conjI allI impI)
  have n: "is_name (ascii name)" using assms(3) by (simp add: prop_name_def)
  show "text_lines (prop_text name tx x)" by (rule prop_lines [OF assms(4) n])
  fix kind stop cs w cs' assume cs: "fresh cs" and rest: "parses e no_hints (read_entries kind stop offer s') cs w cs'"
  have "no_ident e (tx x @ 10 # cs)"
    using starts [OF assms(4)] colon_no_ident [OF assms(1)] by auto
  then have entry: "yields e no_hints reader_entry (ascii name @ tx x @ 10 # cs)
      (\<lambda>v. \<exists>sp. v = EProp (Spanned sp (ascii name))) (tx x @ 10 # cs)"
    by (rule entry_prop_run [OF assms(1) n]) (use assms(3) in \<open>simp_all add: prop_name_def\<close>)
  have "takes e (offer (EProp (Spanned sp (ascii name))) s) (tx x @ 10 # cs) s' cs" for sp
    by (rule takes_step [OF takes_prop [OF reads [OF assms(1,4) fresh_next [OF cs]]] assms(5)])
  then have "parses e no_hints (read_entries kind stop offer s) (ascii name @ tx x @ 10 # cs) w cs'"
    by (intro entries_continue [OF assms(2) entry _ rest]) auto
  then show "parses e no_hints (read_entries kind stop offer s) (prop_text name tx x @ cs) w cs'"
    by (simp add: prop_text_def)
qed

lemma opt_step:
  assumes "env_ok e" and "fair offer" and "prop_name name" and "pred_option (ok e) v"
    and "\<And>x sp r q. v = Some x \<Longrightarrow> try_prop T (EProp (Spanned sp (ascii name))) name None r = Some (Some x, q)
      \<Longrightarrow> offer (EProp (Spanned sp (ascii name))) s r = Some (s', q)"
    and "v = None \<Longrightarrow> s' = s"
  shows "steps e offer s (prop_opt_text name tx v) s'"
proof (cases v)
  case None
  then show ?thesis using assms(6) steps_refl by (simp add: prop_opt_text)
next
  case (Some x)
  have "steps e offer s (prop_text name tx x) s'"
    by (rule line_step [OF assms(1-3)]) (use assms(4,5) Some in auto)
  then show ?thesis by (simp add: Some prop_opt_text)
qed

lemma props_step:
  assumes "env_ok e" and "fair offer" and "prop_name name" and "list_all (ok e) xs"
    and "\<And>ys x sp r q. try_prop T (EProp (Spanned sp (ascii name))) name None r = Some (Some x, q)
      \<Longrightarrow> offer (EProp (Spanned sp (ascii name))) (st ys) r = Some (st (ys @ [x]), q)"
  shows "steps e offer (st ys) (props_text name tx xs) (st (ys @ xs))"
  using assms(4)
proof (induction xs arbitrary: ys)
  case Nil
  then show ?case using steps_refl by simp
next
  case (Cons x xs)
  have "steps e offer (st ys) (prop_text name tx x) (st (ys @ [x]))"
    by (rule line_step [OF assms(1-3) _ assms(5)]) (use Cons.prems in auto)
  also have "steps e offer (st (ys @ [x])) (props_text name tx xs) (st ((ys @ [x]) @ xs))"
    by (rule Cons.IH) (use Cons.prems in auto)
  finally show ?case by simp
qed

end

section \<open>Components\<close>

definition comp_text :: "string \<Rightarrow> ('a \<Rightarrow> ustring) \<Rightarrow> 'a \<Rightarrow> ustring" where
  "comp_text name t x = (ascii ''BEGIN'' @ (58 # ascii name) @ [10]) @ t x @ (ascii ''END'' @ (58 # ascii name) @ [10])"

definition comps_text :: "string \<Rightarrow> ('a \<Rightarrow> ustring) \<Rightarrow> 'a list \<Rightarrow> ustring" where
  "comps_text name t xs = concat (map (comp_text name t) xs)"

lemma comps_text_simps [simp]: "comps_text name t [] = []"
  "comps_text name t (x # xs) = comp_text name t x @ comps_text name t xs"
  by (simp_all add: comps_text_def)

locale ics_comp_codec =
  fixes T :: "'a ics_type" and name :: string and tx :: "'a \<Rightarrow> ustring" and ok :: "ics_env \<Rightarrow> 'a \<Rightarrow> bool"
    and wr :: "'a \<Rightarrow> ics_writer \<Rightarrow> ics_writer"
  assumes writes: "ok e x \<Longrightarrow> wr x w = write_raw (tx x) w"
    and moves: "shrinks (ty_read T)"
    and reads: "env_ok e \<Longrightarrow> ok e x \<Longrightarrow> line_end cs cs'
           \<Longrightarrow> parses e no_hints (ty_read T) (tx x @ ascii ''END'' @ 58 # ascii name @ cs) (Some x) cs'"
    and lines: "env_ok e \<Longrightarrow> ok e x \<Longrightarrow> text_lines (tx x)"
    and named: "is_name (ascii name)"
begin

lemma comp_lines: "env_ok e \<Longrightarrow> ok e x \<Longrightarrow> text_lines (comp_text name tx x)"
  unfolding comp_text_def
  by (intro text_lines_append text_lines_line begin_name lines) (auto simp: name_clean named scalar_def)

lemma comp_writes:
  assumes "ok e x"
  shows "write_comp name (wr x) w = write_raw (comp_text name tx x) w"
proof -
  have "ascii ''BEGIN:'' @ ascii name @ [10] = ascii ''BEGIN'' @ (58 # ascii name) @ [10]"
    "ascii ''END:'' @ ascii name @ [10] = ascii ''END'' @ (58 # ascii name) @ [10]" by (simp_all add: ascii_def)
  then show ?thesis unfolding write_comp_def comp_text_def writes [OF assms] by (simp only: write_raw_append)
qed

lemma comps_writes:
  assumes "list_all (ok e) xs"
  shows "write_comps name wr xs w = write_raw (comps_text name tx xs) w"
  unfolding write_comps_def using assms
  by (induction xs arbitrary: w) (auto simp: comp_writes)

text \<open>One turn of the loop reads a component.\<close>

lemma comp_step:
  assumes "env_ok e" and "fair offer" and "ok e x"
    and "\<And>sp r q. try_comp T (EComp (Spanned sp (ascii name))) name None r = Some (Some x, q)
      \<Longrightarrow> offer (EComp (Spanned sp (ascii name))) s r = Some (s', q)"
  shows "steps e offer s (comp_text name tx x) s'"
  unfolding steps_def
proof (intro conjI allI impI)
  show "text_lines (comp_text name tx x)" by (rule comp_lines [OF assms(1,3)])
  fix kind stop cs w cs' assume cs: "fresh cs" and rest: "parses e no_hints (read_entries kind stop offer s') cs w cs'"
  let ?body = "tx x @ ascii ''END'' @ 58 # ascii name @ 10 # cs"
  have entry: "yields e no_hints reader_entry (ascii ''BEGIN'' @ 58 # ascii name @ 10 # ?body)
      (\<lambda>v. \<exists>sp. v = EComp (Spanned sp (ascii name))) ?body"
    by (rule entry_begin_run [OF assms(1) name_line [OF named]]) (simp add: line_end_def)
  have "parses e no_hints (ty_read T) ?body (Some x) cs"
    by (rule reads [OF assms(1,3)]) (simp add: line_end_def)
  then have "takes e (\<lambda>r. try_comp T (EComp (Spanned sp (ascii name))) name None r) ?body (Some x) cs" for sp
    using takes_run [OF parses_any] by (simp add: try_comp_def eq_ignore_case_def dup_check_def)
  then have "takes e (offer (EComp (Spanned sp (ascii name))) s) ?body s' cs" for sp
    by (rule takes_step) (rule assms(4))
  then have "parses e no_hints (read_entries kind stop offer s) (ascii ''BEGIN'' @ 58 # ascii name @ 10 # ?body) w cs'"
    by (intro entries_continue [OF assms(2) entry _ rest]) auto
  then show "parses e no_hints (read_entries kind stop offer s) (comp_text name tx x @ cs) w cs'"
    by (simp add: comp_text_def)
qed

lemma comps_step:
  assumes "env_ok e" and "fair offer" and "list_all (ok e) xs"
    and "\<And>ys x sp r q. try_comp T (EComp (Spanned sp (ascii name))) name None r = Some (Some x, q)
      \<Longrightarrow> offer (EComp (Spanned sp (ascii name))) (st ys) r = Some (st (ys @ [x]), q)"
  shows "steps e offer (st ys) (comps_text name tx xs) (st (ys @ xs))"
  using assms(3)
proof (induction xs arbitrary: ys)
  case Nil
  then show ?case using steps_refl by simp
next
  case (Cons x xs)
  have "steps e offer (st ys) (comp_text name tx x) (st (ys @ [x]))"
    by (rule comp_step [OF assms(1,2) _ assms(4)]) (use Cons.prems in auto)
  also have "steps e offer (st (ys @ [x])) (comps_text name tx xs) (st ((ys @ [x]) @ xs))"
    by (rule Cons.IH) (use Cons.prems in auto)
  finally show ?case by simp
qed

end

lemma entries_closed:
  assumes "env_ok e" and "fair offer" and "is_name (ascii name)" and "line_end cs cs'"
    and "\<And>sp r. offer (ECompEnd (Spanned sp (ascii name))) s r = None" and "\<And>sp. stop (ECompEnd (Spanned sp (ascii name)))"
  shows "parses e no_hints (read_entries kind stop offer s) (ascii ''END'' @ 58 # ascii name @ cs) (Some s) cs'"
  by (rule entries_stop [OF assms(2) entry_end_run [OF assms(1) name_line [OF assms(3)] assms(4)]])
    (use assms(5,6) in auto)

text \<open>The body of a component, its end, and what is made of its fields.\<close>

lemma parses_component:
  assumes "env_ok e" and "fair offer" and "is_name (ascii name)" and "line_end cs cs'"
    and "steps e offer s t s'"
    and "\<And>sp r. offer (ECompEnd (Spanned sp (ascii name))) s' r = None" and "\<And>sp. stop (ECompEnd (Spanned sp (ascii name)))"
    and "parses e no_hints (finish s') cs' (Some x) cs'"
  shows "parses e no_hints (rbind (read_entries kind stop offer s) finish) (t @ ascii ''END'' @ 58 # ascii name @ cs) (Some x) cs'"
proof -
  have "parses e no_hints (read_entries kind stop offer s) (t @ ascii ''END'' @ 58 # ascii name @ cs) (Some s') cs'"
    by (rule stepsD [OF assms(5)], simp add: begin_name, rule entries_closed [OF assms(1-4)]) (use assms(6,7) in auto)
  then show ?thesis by (rule parses_rbind) (rule assms(8))
qed

lemma comp_end_same: "try_comp_end (ECompEnd (Spanned sp (ascii name))) name"
  by (simp add: try_comp_end_def eq_ignore_case_def)

lemma parses_done: "(\<And>r. f r = (Some x, r)) \<Longrightarrow> parses e h f cs (Some x) cs"
  using parses_rret [of e h x cs] unfolding parses_def rret_def by simp

lemma unwrap_some [simp]: "unwrap_prop T name (Some a) = (\<lambda>r. (Some a, r))"
  by (simp add: fun_eq_iff unwrap_prop_def)

section \<open>Names\<close>

text \<open>Names in capitals are the same when they are equal.\<close>

definition upper :: "string \<Rightarrow> bool" where
  "upper s = list_all (\<lambda>c. (65::nat) \<le> of_char c \<and> of_char c \<le> (90::nat) \<or> of_char c = (45::nat)) s"

lemma ascii_lower_upper:
  assumes "65 \<le> a \<and> a \<le> 90 \<or> a = 45" and "65 \<le> b \<and> b \<le> 90 \<or> b = 45"
  shows "ascii_lower a = ascii_lower b \<longleftrightarrow> a = b"
  using assms by (auto simp: ascii_lower_def)

lemma upper_same:
  assumes "upper a" and "upper b"
  shows "eq_ignore_case (ascii a) (ascii b) \<longleftrightarrow> a = b"
proof -
  have "map ascii_lower (map of_char a) = map ascii_lower (map of_char b) \<longleftrightarrow> a = b"
    using assms
  proof (induction a arbitrary: b)
    case (Cons c a)
    then show ?case by (cases b) (auto simp: upper_def ascii_lower_upper)
  qed auto
  then show ?thesis by (simp add: eq_ignore_case_def ascii_def)
qed

lemma upper_names [simp]:
  "upper ''BEGIN''" "upper ''END''" "upper ''ACTION''" "upper ''TRIGGER''" "upper ''DESCRIPTION''" "upper ''DURATION''"
  "upper ''REPEAT''" "upper ''SUMMARY''" "upper ''ATTENDEE''" "upper ''VALARM''" "upper ''DTSTART''" "upper ''TZOFFSETFROM''"
  "upper ''TZOFFSETTO''" "upper ''RRULE''" "upper ''TZNAME''" "upper ''DAYLIGHT''" "upper ''STANDARD''" "upper ''TZID''"
  "upper ''VTIMEZONE''" "upper ''UID''" "upper ''DTSTAMP''" "upper ''DTEND''" "upper ''CREATED''" "upper ''CLASS''"
  "upper ''TRANSP''" "upper ''STATUS''" "upper ''PRIORITY''" "upper ''LOCATION''" "upper ''ORGANIZER''" "upper ''EXDATE''"
  "upper ''SEQUENCE''" "upper ''RECURRENCE-ID''" "upper ''VEVENT''" "upper ''METHOD''" "upper ''PRODID''" "upper ''VERSION''"
  "upper ''CALSCALE''" "upper ''VCALENDAR''"
  by (simp_all add: upper_def)

lemma upper_is_name:
  assumes "upper s" and "s \<noteq> []" and "of_char (hd s) \<noteq> (45::nat)"
  shows "is_name (ascii s)"
proof -
  have "letter c \<or> c = 45" if "c \<in> set (ascii s)" for c
    using that assms(1) by (auto simp: ascii_def upper_def list_all_iff letter_def)
  moreover have "letter (hd (ascii s))"
    using assms by (cases s) (auto simp: ascii_def upper_def letter_def)
  ultimately show ?thesis using assms(2) by (simp add: is_name_def list_all_iff ascii_def)
qed

lemma upper_prop_name:
  assumes "upper s" and "s \<noteq> []" and "of_char (hd s) \<noteq> (45::nat)" and "s \<noteq> ''BEGIN''" and "s \<noteq> ''END''"
  shows "prop_name s"
  using assms upper_is_name by (simp add: prop_name_def upper_same)

lemmas field_rules = upper_same upper_is_name upper_prop_name try_props_def try_comps_def push_opt_def

section \<open>Alarms\<close>

lemmas prop_moves = summary_p.moves description_p.moves location_p.moves uid_p.moves tz_name_p.moves prod_id_p.moves
  sequence_p.moves repeat_p.moves tz_offset_from_p.moves tz_offset_to_p.moves rrule_p.moves status_p.moves ics_class_p.moves
  transp_p.moves ics_method_p.moves cal_scale_p.moves alarm_action_p.moves version_p.moves priority_p.moves duration_p.moves
  email_p.moves tz_id_p.moves created_p.moves dt_stamp_p.moves dt_start_p.moves dt_end_p.moves recurrence_id_p.moves
  trigger_p.moves ex_date_p.moves organizer_p.moves attendee_p.moves

lemmas prop_leaves = prop_moves [THEN try_leaves(2)] prop_moves [THEN try_list_leaves(2)]

lemma fair_alarm: "fair alarm_offer"
proof (rule fairI)
  fix entry s r s' r' assume "alarm_offer entry s r = Some (s', r')"
  then show "leaves r r'" unfolding alarm_offer_def by (elim offer_to_leaves) (simp_all add: prop_leaves)
qed

definition alarm_action_of :: "valarm \<Rightarrow> alarm_action" where
  "alarm_action_of a = (case a of AlarmDisplay _ \<Rightarrow> AcDisplay | AlarmEmail _ \<Rightarrow> AcEmail)"

definition alarm_summary :: "valarm \<Rightarrow> summary option" where
  "alarm_summary a = (case a of AlarmDisplay _ \<Rightarrow> None | AlarmEmail x \<Rightarrow> Some (ea_summary x))"

definition alarm_attendees :: "valarm \<Rightarrow> email_address list" where
  "alarm_attendees a = (case a of AlarmDisplay _ \<Rightarrow> [] | AlarmEmail x \<Rightarrow> ea_attendees x)"

definition alarm_dr :: "valarm \<Rightarrow> duration_repeat option" where
  "alarm_dr a = (case a of AlarmDisplay x \<Rightarrow> da_repeat x | AlarmEmail x \<Rightarrow> ea_repeat x)"

definition duration_ok :: "ics_duration \<Rightarrow> bool" where
  "duration_ok d = (amount_small (du_amount d) \<and> duration_norm d = d)"

definition valarm_ok :: "ics_env \<Rightarrow> valarm \<Rightarrow> bool" where
  "valarm_ok e a = (trigger_ok e (valarm_trigger a) \<and> text_ok (description_value (valarm_description a))
     \<and> pred_option (\<lambda>x. text_ok (summary_value x)) (alarm_summary a)
     \<and> list_all (\<lambda>x. text_ok (email_text x)) (alarm_attendees a)
     \<and> pred_option (\<lambda>x. duration_ok (dr_duration x) \<and> repeat_value (dr_repeat x) < 2 ^ 32) (alarm_dr a))"

abbreviation text_value_text :: "ics_text \<Rightarrow> ustring" where
  "text_value_text t \<equiv> 58 # text_text (text_str t)"

definition valarm_text :: "valarm \<Rightarrow> ustring" where
  "valarm_text a = prop_text ''ACTION'' (\<lambda>x. 58 # ascii (alarm_action_str x)) (alarm_action_of a)
     @ prop_text ''TRIGGER'' trigger_text (valarm_trigger a)
     @ prop_text ''DESCRIPTION'' (\<lambda>x. text_value_text (description_value x)) (valarm_description a)
     @ prop_opt_text ''SUMMARY'' (\<lambda>x. text_value_text (summary_value x)) (alarm_summary a)
     @ props_text ''ATTENDEE'' (\<lambda>x. 58 # email_address_text x) (alarm_attendees a)
     @ prop_opt_text ''DURATION'' (\<lambda>d. 58 # duration_text d) (map_option dr_duration (alarm_dr a))
     @ prop_opt_text ''REPEAT'' (\<lambda>x. 58 # dec_str (repeat_value x)) (map_option dr_repeat (alarm_dr a))"

definition alarm_state :: "valarm \<Rightarrow> alarm_fields" where
  "alarm_state a = \<lparr>al_action = Some (alarm_action_of a), al_trigger = Some (valarm_trigger a),
     al_description = Some (valarm_description a), al_duration = map_option dr_duration (alarm_dr a),
     al_repeat = map_option dr_repeat (alarm_dr a), al_summary = alarm_summary a, al_attendees = alarm_attendees a\<rparr>"

lemma alarm_steps:
  assumes e: "env_ok e" and ok: "valarm_ok e a"
  shows "steps e alarm_offer alarm_empty (valarm_text a) (alarm_state a)"
proof -
  let ?s = "\<lambda>ac t d du re su at. \<lparr>al_action = ac, al_trigger = t, al_description = d, al_duration = du, al_repeat = re,
     al_summary = su, al_attendees = at\<rparr>"
  let ?a = "Some (alarm_action_of a)" and ?t = "Some (valarm_trigger a)" and ?d = "Some (valarm_description a)"
  note rules = alarm_offer_def field_rules
  have "steps e alarm_offer (?s None None None None None None []) (prop_text ''ACTION'' (\<lambda>x. 58 # ascii (alarm_action_str x))
      (alarm_action_of a)) (?s ?a None None None None None [])"
    by (rule alarm_action_p.line_step [OF e fair_alarm]) (simp_all add: rules)
  also have "steps e alarm_offer \<dots> (prop_text ''TRIGGER'' trigger_text (valarm_trigger a)) (?s ?a ?t None None None None [])"
    by (rule trigger_p.line_step [OF e fair_alarm]) (use ok in \<open>simp_all add: rules valarm_ok_def\<close>)
  also have "steps e alarm_offer \<dots> (prop_text ''DESCRIPTION'' (\<lambda>x. text_value_text (description_value x)) (valarm_description a))
      (?s ?a ?t ?d None None None [])"
    by (rule description_p.line_step [OF e fair_alarm]) (use ok in \<open>simp_all add: rules valarm_ok_def\<close>)
  also have "steps e alarm_offer \<dots> (prop_opt_text ''SUMMARY'' (\<lambda>x. text_value_text (summary_value x)) (alarm_summary a))
      (?s ?a ?t ?d None None (alarm_summary a) [])"
    by (rule summary_p.opt_step [OF e fair_alarm]) (use ok in \<open>simp_all add: rules valarm_ok_def\<close>)
  also have "steps e alarm_offer \<dots> (props_text ''ATTENDEE'' (\<lambda>x. 58 # email_address_text x) (alarm_attendees a))
      (?s ?a ?t ?d None None (alarm_summary a) ([] @ alarm_attendees a))"
    by (rule email_p.props_step [OF e fair_alarm]) (use ok in \<open>simp_all add: rules valarm_ok_def\<close>)
  also have "steps e alarm_offer \<dots> (prop_opt_text ''DURATION'' (\<lambda>d. 58 # duration_text d) (map_option dr_duration (alarm_dr a)))
      (?s ?a ?t ?d (map_option dr_duration (alarm_dr a)) None (alarm_summary a) (alarm_attendees a))"
    by (rule duration_p.opt_step [OF e fair_alarm])
      (use ok in \<open>auto simp add: rules valarm_ok_def duration_ok_def option.pred_map pred_option_def\<close>)
  also have "steps e alarm_offer \<dots> (prop_opt_text ''REPEAT'' (\<lambda>x. 58 # dec_str (repeat_value x)) (map_option dr_repeat (alarm_dr a)))
      (?s ?a ?t ?d (map_option dr_duration (alarm_dr a)) (map_option dr_repeat (alarm_dr a)) (alarm_summary a) (alarm_attendees a))"
    by (rule repeat_p.opt_step [OF e fair_alarm])
      (use ok in \<open>auto simp add: rules valarm_ok_def option.pred_map pred_option_def\<close>)
  finally show ?thesis by (simp add: valarm_text_def alarm_state_def alarm_empty_def)
qed

lemma dr_eta [simp]: "\<lparr>dr_duration = dr_duration x, dr_repeat = dr_repeat x\<rparr> = (x :: duration_repeat)"
  by (cases x) simp

lemma alarm_finished: "alarm_finish (alarm_state a) r = (Some a, r)"
proof -
  have "rkeep (alarm_repeat (alarm_state a)) f r = f (alarm_dr a) r" for f :: "duration_repeat option \<Rightarrow> valarm rd"
    by (cases "alarm_dr a") (simp_all add: rkeep_def alarm_repeat_def alarm_state_def rfail_def duration_repeat_new_opt_def)
  then show ?thesis
    by (cases a) (simp_all add: alarm_finish_def alarm_state_def rkeep_def rbind_def alarm_action_of_def valarm_trigger_def
        valarm_description_def alarm_summary_def alarm_attendees_def alarm_dr_def)
qed

lemma shrinks_keep [progress_intros]:
  assumes "shrinks p" and "\<And>v. shrinks (f v)"
  shows "shrinks (rkeep p f)"
  by (rule shrinksI) (auto simp: rkeep_def dest!: shrinksD [OF assms(1)] shrinksD [OF assms(2)] intro: leaves_trans split: prod.splits)

lemma shrinks_unwrap_prop [progress_intros]: "shrinks (unwrap_prop T name v)"
  by (rule shrinksI) (auto simp: unwrap_prop_def split: option.splits if_splits)

lemma shrinks_result: "(\<And>r. snd (f r) = r) \<Longrightarrow> shrinks f"
  by (rule shrinksI) (metis leaves_refl snd_conv)

lemma shrinks_alarm: "shrinks (ty_read valarm_type)"
proof -
  have "shrinks (alarm_finish s)" for s
    unfolding alarm_finish_def alarm_repeat_def
    by (intro progress_intros, auto intro!: progress_intros split: alarm_action.splits)
      (rule shrinks_result, auto split: option.splits)+
  then show ?thesis
    by (simp add: valarm_type_def plain_type_def valarm_read_def) (intro progress_intros fair_alarm)
qed

lemma duration_repeat_writes:
  assumes "pred_option (\<lambda>x. duration_ok (dr_duration x) \<and> repeat_value (dr_repeat x) < 2 ^ 32) dr"
  shows "duration_repeat_write dr w = write_raw (prop_opt_text ''DURATION'' (\<lambda>d. 58 # duration_text d) (map_option dr_duration dr)
     @ prop_opt_text ''REPEAT'' (\<lambda>x. 58 # dec_str (repeat_value x)) (map_option dr_repeat dr)) w"
  using assms by (cases dr) (simp_all add: duration_repeat_write_def prop_opt_text duration_p.prop_writes repeat_p.prop_writes
      upper_is_name duration_ok_def)

interpretation valarm_c: ics_comp_codec valarm_type "''VALARM''" valarm_text valarm_ok valarm_write
proof
  fix e cs cs' and a :: valarm assume e: "env_ok e" and a: "valarm_ok e a" and cs: "line_end cs cs'"
  show "parses e no_hints (ty_read valarm_type) (valarm_text a @ ascii ''END'' @ 58 # ascii ''VALARM'' @ cs) (Some a) cs'"
    unfolding valarm_type_def plain_type_def ics_type.select_convs valarm_read_def
    by (rule parses_component [OF e fair_alarm _ cs alarm_steps [OF e a]])
      (auto simp: upper_is_name alarm_offer_def comp_end_same intro: parses_done alarm_finished)
next
  fix e and a :: valarm assume "env_ok e" "valarm_ok e a"
  then show "text_lines (valarm_text a)" by (rule steps_lines [OF alarm_steps])
next
  fix e w and a :: valarm assume a: "valarm_ok e a"
  then show "valarm_write a w = write_raw (valarm_text a) w"
    by (cases a) (simp_all add: valarm_ok_def valarm_write_def display_alarm_write_def email_alarm_write_def valarm_text_def
        alarm_action_of_def valarm_trigger_def valarm_description_def alarm_summary_def alarm_attendees_def alarm_dr_def
        duration_repeat_writes alarm_action_p.prop_writes trigger_p.prop_writes [where e = e] description_p.prop_writes summary_p.prop_writes
        email_p.props_writes prop_opt_text [of "''SUMMARY''"] upper_is_name)
qed (simp_all add: shrinks_alarm upper_is_name)

section \<open>Time zones\<close>

lemma fair_tz: "fair tz_offer"
proof (rule fairI)
  fix entry s r s' r' assume "tz_offer entry s r = Some (s', r')"
  then show "leaves r r'" unfolding tz_offer_def by (elim offer_to_leaves) (simp_all add: prop_leaves)
qed

definition tz_props_ok :: "ics_env \<Rightarrow> tz_props \<Rightarrow> bool" where
  "tz_props_ok e p = (dod_ok e (dt_start_value (tp_dtstart p)) \<and> offset_ok (tz_offset_from_value (tp_offset_from p))
     \<and> offset_ok (tz_offset_to_value (tp_offset_to p)) \<and> pred_option (\<lambda>x. recur_ok e (rrule_value x)) (tp_rrule p)
     \<and> pred_option (\<lambda>x. text_ok (tz_name_value x)) (tp_name p))"

definition tz_props_text :: "tz_props \<Rightarrow> ustring" where
  "tz_props_text p = prop_text ''DTSTART'' (\<lambda>x. dod_text (dt_start_value x)) (tp_dtstart p)
     @ prop_text ''TZOFFSETFROM'' (\<lambda>x. 58 # offset_text (tz_offset_from_value x)) (tp_offset_from p)
     @ prop_text ''TZOFFSETTO'' (\<lambda>x. 58 # offset_text (tz_offset_to_value x)) (tp_offset_to p)
     @ prop_opt_text ''RRULE'' (\<lambda>x. 58 # recur_text (rrule_value x)) (tp_rrule p)
     @ prop_opt_text ''TZNAME'' (\<lambda>x. text_value_text (tz_name_value x)) (tp_name p)"

lemma tz_steps:
  assumes e: "env_ok e" and ok: "tz_props_ok e p"
  shows "steps e tz_offer tz_empty (tz_props_text p) \<lparr>tzf_dtstart = Some (tp_dtstart p), tzf_from = Some (tp_offset_from p),
    tzf_to = Some (tp_offset_to p), tzf_rrule = tp_rrule p, tzf_name = tp_name p\<rparr>"
proof -
  let ?s = "\<lambda>a b c d f. \<lparr>tzf_dtstart = a, tzf_from = b, tzf_to = c, tzf_rrule = d, tzf_name = f\<rparr>"
  let ?a = "Some (tp_dtstart p)" and ?b = "Some (tp_offset_from p)" and ?c = "Some (tp_offset_to p)"
  note rules = tz_offer_def field_rules
  have "steps e tz_offer (?s None None None None None) (prop_text ''DTSTART'' (\<lambda>x. dod_text (dt_start_value x)) (tp_dtstart p))
      (?s ?a None None None None)"
    by (rule dt_start_p.line_step [OF e fair_tz]) (use ok in \<open>simp_all add: rules tz_props_ok_def\<close>)
  also have "steps e tz_offer \<dots> (prop_text ''TZOFFSETFROM'' (\<lambda>x. 58 # offset_text (tz_offset_from_value x)) (tp_offset_from p))
      (?s ?a ?b None None None)"
    by (rule tz_offset_from_p.line_step [OF e fair_tz]) (use ok in \<open>simp_all add: rules tz_props_ok_def\<close>)
  also have "steps e tz_offer \<dots> (prop_text ''TZOFFSETTO'' (\<lambda>x. 58 # offset_text (tz_offset_to_value x)) (tp_offset_to p))
      (?s ?a ?b ?c None None)"
    by (rule tz_offset_to_p.line_step [OF e fair_tz]) (use ok in \<open>simp_all add: rules tz_props_ok_def\<close>)
  also have "steps e tz_offer \<dots> (prop_opt_text ''RRULE'' (\<lambda>x. 58 # recur_text (rrule_value x)) (tp_rrule p))
      (?s ?a ?b ?c (tp_rrule p) None)"
    by (rule rrule_p.opt_step [OF e fair_tz]) (use ok in \<open>simp_all add: rules tz_props_ok_def\<close>)
  also have "steps e tz_offer \<dots> (prop_opt_text ''TZNAME'' (\<lambda>x. text_value_text (tz_name_value x)) (tp_name p))
      (?s ?a ?b ?c (tp_rrule p) (tp_name p))"
    by (rule tz_name_p.opt_step [OF e fair_tz]) (use ok in \<open>simp_all add: rules tz_props_ok_def\<close>)
  finally show ?thesis by (simp add: tz_props_text_def tz_empty_def)
qed

lemma tz_finished:
  "tz_props_finish \<lparr>tzf_dtstart = Some (tp_dtstart p), tzf_from = Some (tp_offset_from p),
    tzf_to = Some (tp_offset_to p), tzf_rrule = tp_rrule p, tzf_name = tp_name p\<rparr> r = (Some p, r)"
  by (cases p) (simp add: tz_props_finish_def rkeep_def)

lemma shrinks_tz: "shrinks (ty_read tz_props_type)"
proof -
  have "shrinks (tz_props_finish s)" for s
    unfolding tz_props_finish_def by (intro progress_intros shrinks_result) (auto split: option.splits)
  then show ?thesis
    by (simp add: tz_props_type_def plain_type_def tz_props_read_def) (intro progress_intros fair_tz)
qed

text \<open>The parser of the rules of a time zone ends at either of the two names.\<close>

lemma tz_props_codec:
  assumes "name \<in> {''DAYLIGHT'', ''STANDARD''}"
  shows "ics_comp_codec tz_props_type name tz_props_text tz_props_ok tz_props_write"
proof
  fix e cs cs' and p :: tz_props assume e: "env_ok e" and p: "tz_props_ok e p" and cs: "line_end cs cs'"
  show "parses e no_hints (ty_read tz_props_type) (tz_props_text p @ ascii ''END'' @ 58 # ascii name @ cs) (Some p) cs'"
    unfolding tz_props_type_def plain_type_def ics_type.select_convs tz_props_read_def
    by (rule parses_component [OF e fair_tz _ cs tz_steps [OF e p]])
      (use assms in \<open>auto simp: upper_is_name tz_offer_def comp_end_same intro: parses_done tz_finished\<close>)
next
  fix e and p :: tz_props assume "env_ok e" "tz_props_ok e p"
  then show "text_lines (tz_props_text p)" by (rule steps_lines [OF tz_steps])
next
  fix e w and p :: tz_props assume p: "tz_props_ok e p"
  then show "tz_props_write p w = write_raw (tz_props_text p) w"
    by (simp add: tz_props_ok_def tz_props_write_def tz_props_text_def dt_start_p.prop_writes [where e = e]
        tz_offset_from_p.prop_writes tz_offset_to_p.prop_writes rrule_p.prop_opt_writes [where e = e]
        tz_name_p.prop_opt_writes upper_is_name)
qed (use assms in \<open>auto simp: shrinks_tz upper_is_name\<close>)

interpretation daylight_c: ics_comp_codec tz_props_type "''DAYLIGHT''" tz_props_text tz_props_ok tz_props_write
  by (rule tz_props_codec) simp

interpretation standard_c: ics_comp_codec tz_props_type "''STANDARD''" tz_props_text tz_props_ok tz_props_write
  by (rule tz_props_codec) simp

lemma fair_vtz: "fair vtz_offer"
proof (rule fairI)
  fix entry s r s' r' assume "vtz_offer entry s r = Some (s', r')"
  then show "leaves r r'" unfolding vtz_offer_def
    by (elim offer_to_leaves) (simp_all add: prop_leaves shrinks_tz [THEN try_list_leaves(1)])
qed

definition vtimezone_ok :: "ics_env \<Rightarrow> vtimezone \<Rightarrow> bool" where
  "vtimezone_ok e z = (tz_ok (vtz_tzid z) \<and> list_all (tz_props_ok e) (vtz_daylights z) \<and> list_all (tz_props_ok e) (vtz_standards z))"

definition vtimezone_text :: "vtimezone \<Rightarrow> ustring" where
  "vtimezone_text z = prop_text ''TZID'' (\<lambda>z. 58 # tz_value z) (vtz_tzid z)
     @ comps_text ''DAYLIGHT'' tz_props_text (vtz_daylights z) @ comps_text ''STANDARD'' tz_props_text (vtz_standards z)"

lemma vtz_steps:
  assumes e: "env_ok e" and ok: "vtimezone_ok e z"
  shows "steps e vtz_offer \<lparr>vf_tzid = None, vf_daylights = [], vf_standards = []\<rparr> (vtimezone_text z)
    \<lparr>vf_tzid = Some (vtz_tzid z), vf_daylights = vtz_daylights z, vf_standards = vtz_standards z\<rparr>"
proof -
  note rules = vtz_offer_def field_rules
  have "steps e vtz_offer \<lparr>vf_tzid = None, vf_daylights = [], vf_standards = []\<rparr> (prop_text ''TZID'' (\<lambda>z. 58 # tz_value z) (vtz_tzid z))
      \<lparr>vf_tzid = Some (vtz_tzid z), vf_daylights = [], vf_standards = []\<rparr>"
    by (rule tz_id_p.line_step [OF e fair_vtz]) (use ok in \<open>simp_all add: rules vtimezone_ok_def\<close>)
  also have "steps e vtz_offer \<dots> (comps_text ''DAYLIGHT'' tz_props_text (vtz_daylights z))
      \<lparr>vf_tzid = Some (vtz_tzid z), vf_daylights = [] @ vtz_daylights z, vf_standards = []\<rparr>"
    by (rule daylight_c.comps_step [OF e fair_vtz]) (use ok in \<open>simp_all add: rules vtimezone_ok_def\<close>)
  also have "steps e vtz_offer \<dots> (comps_text ''STANDARD'' tz_props_text (vtz_standards z))
      \<lparr>vf_tzid = Some (vtz_tzid z), vf_daylights = [] @ vtz_daylights z, vf_standards = [] @ vtz_standards z\<rparr>"
    by (rule standard_c.comps_step [OF e fair_vtz]) (use ok in \<open>simp_all add: rules vtimezone_ok_def\<close>)
  finally show ?thesis by (simp add: vtimezone_text_def)
qed

interpretation vtimezone_c: ics_comp_codec vtimezone_type "''VTIMEZONE''" vtimezone_text vtimezone_ok vtimezone_write
proof
  fix e cs cs' and z :: vtimezone assume e: "env_ok e" and z: "vtimezone_ok e z" and cs: "line_end cs cs'"
  have fin: "vtz_finish \<lparr>vf_tzid = Some (vtz_tzid z), vf_daylights = vtz_daylights z, vf_standards = vtz_standards z\<rparr> r = (Some z, r)" for r
    by (simp add: vtz_finish_def rbind_def rret_def)
  show "parses e no_hints (ty_read vtimezone_type) (vtimezone_text z @ ascii ''END'' @ 58 # ascii ''VTIMEZONE'' @ cs) (Some z) cs'"
    unfolding vtimezone_type_def plain_type_def ics_type.select_convs vtimezone_read_def
    by (rule parses_component [OF e fair_vtz _ cs vtz_steps [OF e z]])
      (auto simp: upper_is_name vtz_offer_def comp_end_same intro: parses_done fin)
next
  have "shrinks (vtz_finish s)" for s unfolding vtz_finish_def by (intro progress_intros)
  then show "shrinks (ty_read vtimezone_type)"
    by (simp add: vtimezone_type_def plain_type_def vtimezone_read_def) (intro progress_intros fair_vtz)
next
  fix e and z :: vtimezone assume "env_ok e" "vtimezone_ok e z"
  then show "text_lines (vtimezone_text z)" by (rule steps_lines [OF vtz_steps])
next
  fix e w and z :: vtimezone assume "vtimezone_ok e z"
  then show "vtimezone_write z w = write_raw (vtimezone_text z) w"
    by (simp add: vtimezone_ok_def vtimezone_write_def vtimezone_text_def tz_id_p.prop_writes
        daylight_c.comps_writes [where e = e] standard_c.comps_writes [where e = e] upper_is_name)
qed (simp_all add: upper_is_name)

end
