(* ===== verification/Ics_Calendar_Codecs.thy ===== *)
theory Ics_Calendar_Codecs
  imports Ics_Component_Codecs
begin

text \<open>
  Events and calendars are read back as they were printed: the contract \<open>ics_comp_codec\<close> for both,
  and the round trip of a whole source.
\<close>

section \<open>Events\<close>

lemma fair_event: "fair event_offer"
proof (rule fairI)
  fix entry s r s' r' assume "event_offer entry s r = Some (s', r')"
  then show "leaves r r'" unfolding event_offer_def
    by (elim offer_to_leaves) (simp_all add: prop_leaves shrinks_alarm [THEN try_list_leaves(1)])
qed

text \<open>The class and the transparency of an event are written when they are not the default.\<close>

definition ev_shown_class :: "vevent \<Rightarrow> ics_class option" where
  "ev_shown_class x = (if ev_class x = ClPublic then None else Some (ev_class x))"

definition ev_shown_transp :: "vevent \<Rightarrow> transp option" where
  "ev_shown_transp x = (if ev_transp x = TrOpaque then None else Some (ev_transp x))"

text \<open>An event without an identifier or a time stamp is written, but what is written is reported.\<close>

definition vevent_ok :: "ics_env \<Rightarrow> vevent \<Rightarrow> bool" where
  "vevent_ok e x = (ev_uid x \<noteq> None \<and> ev_dtstamp x \<noteq> None
     \<and> pred_option (\<lambda>x. text_ok (uid_value x)) (ev_uid x)
     \<and> pred_option (\<lambda>x. dt_any_ok e (dt_stamp_value x)) (ev_dtstamp x)
     \<and> pred_option (\<lambda>x. dod_ok e (dt_start_value x)) (ev_dtstart x)
     \<and> pred_option (\<lambda>x. dod_ok e (dt_end_value x)) (ev_dtend x)
     \<and> pred_option (\<lambda>x. dt_any_ok e (created_value x)) (ev_created x)
     \<and> pred_option (\<lambda>x. priority_num x \<le> 9) (ev_priority x)
     \<and> pred_option (\<lambda>x. text_ok (summary_value x)) (ev_summary x)
     \<and> pred_option (\<lambda>x. text_ok (location_value x)) (ev_location x)
     \<and> pred_option (\<lambda>x. text_ok (description_value x)) (ev_description x)
     \<and> pred_option (organizer_ok e) (ev_organizer x)
     \<and> list_all (attendee_ok e) (ev_attendees x)
     \<and> pred_option (\<lambda>x. recur_ok e (rrule_value x)) (ev_rrule x)
     \<and> pred_option (ex_date_ok e) (ev_exdate x)
     \<and> pred_option duration_ok (ev_duration x)
     \<and> pred_option (\<lambda>x. sequence_value x < 2 ^ 32) (ev_sequence x)
     \<and> pred_option (\<lambda>x. dod_ok e (recurrence_id_value x)) (ev_recurrence_id x)
     \<and> list_all (valarm_ok e) (ev_alarms x))"

definition vevent_text :: "vevent \<Rightarrow> ustring" where
  "vevent_text x = prop_opt_text ''UID'' (\<lambda>x. text_value_text (uid_value x)) (ev_uid x)
     @ prop_opt_text ''DTSTAMP'' (\<lambda>x. dt_any_text (dt_stamp_value x)) (ev_dtstamp x)
     @ prop_opt_text ''DTSTART'' (\<lambda>x. dod_text (dt_start_value x)) (ev_dtstart x)
     @ prop_opt_text ''DTEND'' (\<lambda>x. dod_text (dt_end_value x)) (ev_dtend x)
     @ prop_opt_text ''CREATED'' (\<lambda>x. dt_any_text (created_value x)) (ev_created x)
     @ prop_opt_text ''CLASS'' (\<lambda>x. 58 # ascii (ics_class_str x)) (ev_shown_class x)
     @ prop_opt_text ''TRANSP'' (\<lambda>x. 58 # ascii (transp_str x)) (ev_shown_transp x)
     @ prop_opt_text ''STATUS'' (\<lambda>x. 58 # ascii (status_str x)) (ev_status x)
     @ prop_opt_text ''PRIORITY'' (\<lambda>x. 58 # dec_str (priority_num x)) (ev_priority x)
     @ prop_opt_text ''SUMMARY'' (\<lambda>x. text_value_text (summary_value x)) (ev_summary x)
     @ prop_opt_text ''LOCATION'' (\<lambda>x. text_value_text (location_value x)) (ev_location x)
     @ prop_opt_text ''DESCRIPTION'' (\<lambda>x. text_value_text (description_value x)) (ev_description x)
     @ prop_opt_text ''ORGANIZER'' organizer_text (ev_organizer x)
     @ props_text ''ATTENDEE'' attendee_text (ev_attendees x)
     @ prop_opt_text ''RRULE'' (\<lambda>x. 58 # recur_text (rrule_value x)) (ev_rrule x)
     @ prop_opt_text ''EXDATE'' ex_date_text (ev_exdate x)
     @ prop_opt_text ''DURATION'' (\<lambda>d. 58 # duration_text d) (ev_duration x)
     @ prop_opt_text ''SEQUENCE'' (\<lambda>x. 58 # dec_str (sequence_value x)) (ev_sequence x)
     @ prop_opt_text ''RECURRENCE-ID'' (\<lambda>x. dod_text (recurrence_id_value x)) (ev_recurrence_id x)
     @ comps_text ''VALARM'' valarm_text (ev_alarms x)"

definition event_state :: "vevent \<Rightarrow> event_fields" where
  "event_state x = \<lparr>evf_uid = ev_uid x, evf_dtstamp = ev_dtstamp x, evf_dtstart = ev_dtstart x, evf_dtend = ev_dtend x, evf_created = ev_created x, evf_class = ev_shown_class x, evf_transp = ev_shown_transp x, evf_status = ev_status x, evf_priority = ev_priority x, evf_summary = ev_summary x, evf_location = ev_location x, evf_description = ev_description x, evf_organizer = ev_organizer x, evf_attendees = ev_attendees x, evf_rrule = ev_rrule x, evf_exdate = ev_exdate x, evf_duration = ev_duration x, evf_sequence = ev_sequence x, evf_recurrence_id = ev_recurrence_id x, evf_alarms = ev_alarms x\<rparr>"

text \<open>One field after the other.\<close>

lemma event_field_steps:
  assumes e: "env_ok e"
  shows step_uid: "pred_option (\<lambda>x. text_ok (uid_value x)) v0 \<Longrightarrow> evf_uid s = None \<Longrightarrow> steps e event_offer s (prop_opt_text ''UID'' (\<lambda>x. text_value_text (uid_value x)) v0) (s\<lparr>evf_uid := v0\<rparr>)"
    and step_dtstamp: "pred_option (\<lambda>x. dt_any_ok e (dt_stamp_value x)) v1 \<Longrightarrow> evf_dtstamp s = None \<Longrightarrow> steps e event_offer s (prop_opt_text ''DTSTAMP'' (\<lambda>x. dt_any_text (dt_stamp_value x)) v1) (s\<lparr>evf_dtstamp := v1\<rparr>)"
    and step_dtstart: "pred_option (\<lambda>x. dod_ok e (dt_start_value x)) v2 \<Longrightarrow> evf_dtstart s = None \<Longrightarrow> steps e event_offer s (prop_opt_text ''DTSTART'' (\<lambda>x. dod_text (dt_start_value x)) v2) (s\<lparr>evf_dtstart := v2\<rparr>)"
    and step_dtend: "pred_option (\<lambda>x. dod_ok e (dt_end_value x)) v3 \<Longrightarrow> evf_dtend s = None \<Longrightarrow> steps e event_offer s (prop_opt_text ''DTEND'' (\<lambda>x. dod_text (dt_end_value x)) v3) (s\<lparr>evf_dtend := v3\<rparr>)"
    and step_created: "pred_option (\<lambda>x. dt_any_ok e (created_value x)) v4 \<Longrightarrow> evf_created s = None \<Longrightarrow> steps e event_offer s (prop_opt_text ''CREATED'' (\<lambda>x. dt_any_text (created_value x)) v4) (s\<lparr>evf_created := v4\<rparr>)"
    and step_class: "evf_class s = None \<Longrightarrow> steps e event_offer s (prop_opt_text ''CLASS'' (\<lambda>x. 58 # ascii (ics_class_str x)) v5) (s\<lparr>evf_class := v5\<rparr>)"
    and step_transp: "evf_transp s = None \<Longrightarrow> steps e event_offer s (prop_opt_text ''TRANSP'' (\<lambda>x. 58 # ascii (transp_str x)) v6) (s\<lparr>evf_transp := v6\<rparr>)"
    and step_status: "evf_status s = None \<Longrightarrow> steps e event_offer s (prop_opt_text ''STATUS'' (\<lambda>x. 58 # ascii (status_str x)) v7) (s\<lparr>evf_status := v7\<rparr>)"
    and step_priority: "pred_option (\<lambda>x. priority_num x \<le> 9) v8 \<Longrightarrow> evf_priority s = None \<Longrightarrow> steps e event_offer s (prop_opt_text ''PRIORITY'' (\<lambda>x. 58 # dec_str (priority_num x)) v8) (s\<lparr>evf_priority := v8\<rparr>)"
    and step_summary: "pred_option (\<lambda>x. text_ok (summary_value x)) v9 \<Longrightarrow> evf_summary s = None \<Longrightarrow> steps e event_offer s (prop_opt_text ''SUMMARY'' (\<lambda>x. text_value_text (summary_value x)) v9) (s\<lparr>evf_summary := v9\<rparr>)"
    and step_location: "pred_option (\<lambda>x. text_ok (location_value x)) v10 \<Longrightarrow> evf_location s = None \<Longrightarrow> steps e event_offer s (prop_opt_text ''LOCATION'' (\<lambda>x. text_value_text (location_value x)) v10) (s\<lparr>evf_location := v10\<rparr>)"
    and step_description: "pred_option (\<lambda>x. text_ok (description_value x)) v11 \<Longrightarrow> evf_description s = None \<Longrightarrow> steps e event_offer s (prop_opt_text ''DESCRIPTION'' (\<lambda>x. text_value_text (description_value x)) v11) (s\<lparr>evf_description := v11\<rparr>)"
    and step_organizer: "pred_option (organizer_ok e) v12 \<Longrightarrow> evf_organizer s = None \<Longrightarrow> steps e event_offer s (prop_opt_text ''ORGANIZER'' organizer_text v12) (s\<lparr>evf_organizer := v12\<rparr>)"
    and step_attendees: "list_all (attendee_ok e) v13 \<Longrightarrow> evf_attendees s = [] \<Longrightarrow> steps e event_offer s (props_text ''ATTENDEE'' attendee_text v13) (s\<lparr>evf_attendees := v13\<rparr>)"
    and step_rrule: "pred_option (\<lambda>x. recur_ok e (rrule_value x)) v14 \<Longrightarrow> evf_rrule s = None \<Longrightarrow> steps e event_offer s (prop_opt_text ''RRULE'' (\<lambda>x. 58 # recur_text (rrule_value x)) v14) (s\<lparr>evf_rrule := v14\<rparr>)"
    and step_exdate: "pred_option (ex_date_ok e) v15 \<Longrightarrow> evf_exdate s = None \<Longrightarrow> steps e event_offer s (prop_opt_text ''EXDATE'' ex_date_text v15) (s\<lparr>evf_exdate := v15\<rparr>)"
    and step_duration: "pred_option duration_ok v16 \<Longrightarrow> evf_duration s = None \<Longrightarrow> steps e event_offer s (prop_opt_text ''DURATION'' (\<lambda>d. 58 # duration_text d) v16) (s\<lparr>evf_duration := v16\<rparr>)"
    and step_sequence: "pred_option (\<lambda>x. sequence_value x < 2 ^ 32) v17 \<Longrightarrow> evf_sequence s = None \<Longrightarrow> steps e event_offer s (prop_opt_text ''SEQUENCE'' (\<lambda>x. 58 # dec_str (sequence_value x)) v17) (s\<lparr>evf_sequence := v17\<rparr>)"
    and step_recurrence_id: "pred_option (\<lambda>x. dod_ok e (recurrence_id_value x)) v18 \<Longrightarrow> evf_recurrence_id s = None \<Longrightarrow> steps e event_offer s (prop_opt_text ''RECURRENCE-ID'' (\<lambda>x. dod_text (recurrence_id_value x)) v18) (s\<lparr>evf_recurrence_id := v18\<rparr>)"
    and step_alarms: "list_all (valarm_ok e) v19 \<Longrightarrow> evf_alarms s = [] \<Longrightarrow> steps e event_offer s (comps_text ''VALARM'' valarm_text v19) (s\<lparr>evf_alarms := v19\<rparr>)"
proof -
  note rules = event_offer_def field_rules
  have keep: "s = s'" if "s' = s" for s s' :: event_fields using that by simp
  show "steps e event_offer s (prop_opt_text ''UID'' (\<lambda>x. text_value_text (uid_value x)) v0) (s\<lparr>evf_uid := v0\<rparr>)" if "pred_option (\<lambda>x. text_ok (uid_value x)) v0" "evf_uid s = None"
    by (rule uid_p.opt_step [OF e fair_event]) (use that in \<open>cases s, simp_all add: rules\<close>)
  show "steps e event_offer s (prop_opt_text ''DTSTAMP'' (\<lambda>x. dt_any_text (dt_stamp_value x)) v1) (s\<lparr>evf_dtstamp := v1\<rparr>)" if "pred_option (\<lambda>x. dt_any_ok e (dt_stamp_value x)) v1" "evf_dtstamp s = None"
    by (rule dt_stamp_p.opt_step [OF e fair_event]) (use that in \<open>cases s, simp_all add: rules\<close>)
  show "steps e event_offer s (prop_opt_text ''DTSTART'' (\<lambda>x. dod_text (dt_start_value x)) v2) (s\<lparr>evf_dtstart := v2\<rparr>)" if "pred_option (\<lambda>x. dod_ok e (dt_start_value x)) v2" "evf_dtstart s = None"
    by (rule dt_start_p.opt_step [OF e fair_event]) (use that in \<open>cases s, simp_all add: rules\<close>)
  show "steps e event_offer s (prop_opt_text ''DTEND'' (\<lambda>x. dod_text (dt_end_value x)) v3) (s\<lparr>evf_dtend := v3\<rparr>)" if "pred_option (\<lambda>x. dod_ok e (dt_end_value x)) v3" "evf_dtend s = None"
    by (rule dt_end_p.opt_step [OF e fair_event]) (use that in \<open>cases s, simp_all add: rules\<close>)
  show "steps e event_offer s (prop_opt_text ''CREATED'' (\<lambda>x. dt_any_text (created_value x)) v4) (s\<lparr>evf_created := v4\<rparr>)" if "pred_option (\<lambda>x. dt_any_ok e (created_value x)) v4" "evf_created s = None"
    by (rule created_p.opt_step [OF e fair_event]) (use that in \<open>cases s, simp_all add: rules\<close>)
  show "steps e event_offer s (prop_opt_text ''CLASS'' (\<lambda>x. 58 # ascii (ics_class_str x)) v5) (s\<lparr>evf_class := v5\<rparr>)" if "evf_class s = None"
    by (rule ics_class_p.opt_step [OF e fair_event]) (use that in \<open>cases s, simp_all add: rules option.pred_True\<close>)
  show "steps e event_offer s (prop_opt_text ''TRANSP'' (\<lambda>x. 58 # ascii (transp_str x)) v6) (s\<lparr>evf_transp := v6\<rparr>)" if "evf_transp s = None"
    by (rule transp_p.opt_step [OF e fair_event]) (use that in \<open>cases s, simp_all add: rules option.pred_True\<close>)
  show "steps e event_offer s (prop_opt_text ''STATUS'' (\<lambda>x. 58 # ascii (status_str x)) v7) (s\<lparr>evf_status := v7\<rparr>)" if "evf_status s = None"
    by (rule status_p.opt_step [OF e fair_event]) (use that in \<open>cases s, simp_all add: rules option.pred_True\<close>)
  show "steps e event_offer s (prop_opt_text ''PRIORITY'' (\<lambda>x. 58 # dec_str (priority_num x)) v8) (s\<lparr>evf_priority := v8\<rparr>)" if "pred_option (\<lambda>x. priority_num x \<le> 9) v8" "evf_priority s = None"
    by (rule priority_p.opt_step [OF e fair_event]) (use that in \<open>cases s, simp_all add: rules\<close>)
  show "steps e event_offer s (prop_opt_text ''SUMMARY'' (\<lambda>x. text_value_text (summary_value x)) v9) (s\<lparr>evf_summary := v9\<rparr>)" if "pred_option (\<lambda>x. text_ok (summary_value x)) v9" "evf_summary s = None"
    by (rule summary_p.opt_step [OF e fair_event]) (use that in \<open>cases s, simp_all add: rules\<close>)
  show "steps e event_offer s (prop_opt_text ''LOCATION'' (\<lambda>x. text_value_text (location_value x)) v10) (s\<lparr>evf_location := v10\<rparr>)" if "pred_option (\<lambda>x. text_ok (location_value x)) v10" "evf_location s = None"
    by (rule location_p.opt_step [OF e fair_event]) (use that in \<open>cases s, simp_all add: rules\<close>)
  show "steps e event_offer s (prop_opt_text ''DESCRIPTION'' (\<lambda>x. text_value_text (description_value x)) v11) (s\<lparr>evf_description := v11\<rparr>)" if "pred_option (\<lambda>x. text_ok (description_value x)) v11" "evf_description s = None"
    by (rule description_p.opt_step [OF e fair_event]) (use that in \<open>cases s, simp_all add: rules\<close>)
  show "steps e event_offer s (prop_opt_text ''ORGANIZER'' organizer_text v12) (s\<lparr>evf_organizer := v12\<rparr>)" if "pred_option (organizer_ok e) v12" "evf_organizer s = None"
    by (rule organizer_p.opt_step [OF e fair_event]) (use that in \<open>cases s, simp_all add: rules\<close>)
  show "steps e event_offer s (props_text ''ATTENDEE'' attendee_text v13) (s\<lparr>evf_attendees := v13\<rparr>)" if "list_all (attendee_ok e) v13" "evf_attendees s = []"
    using attendee_p.props_step [OF e fair_event, where st = "\<lambda>v. s\<lparr>evf_attendees := v\<rparr>" and ys = "[]" and xs = v13] that
    by (cases s) (simp add: rules)
  show "steps e event_offer s (prop_opt_text ''RRULE'' (\<lambda>x. 58 # recur_text (rrule_value x)) v14) (s\<lparr>evf_rrule := v14\<rparr>)" if "pred_option (\<lambda>x. recur_ok e (rrule_value x)) v14" "evf_rrule s = None"
    by (rule rrule_p.opt_step [OF e fair_event]) (use that in \<open>cases s, simp_all add: rules\<close>)
  show "steps e event_offer s (prop_opt_text ''EXDATE'' ex_date_text v15) (s\<lparr>evf_exdate := v15\<rparr>)" if "pred_option (ex_date_ok e) v15" "evf_exdate s = None"
    by (rule ex_date_p.opt_step [OF e fair_event]) (use that in \<open>cases s, simp_all add: rules\<close>)
  show "steps e event_offer s (prop_opt_text ''DURATION'' (\<lambda>d. 58 # duration_text d) v16) (s\<lparr>evf_duration := v16\<rparr>)" if "pred_option duration_ok v16" "evf_duration s = None"
    by (rule duration_p.opt_step [OF e fair_event]) (use that in \<open>cases s, simp_all add: rules duration_ok_def [abs_def]\<close>)
  show "steps e event_offer s (prop_opt_text ''SEQUENCE'' (\<lambda>x. 58 # dec_str (sequence_value x)) v17) (s\<lparr>evf_sequence := v17\<rparr>)" if "pred_option (\<lambda>x. sequence_value x < 2 ^ 32) v17" "evf_sequence s = None"
    by (rule sequence_p.opt_step [OF e fair_event]) (use that in \<open>cases s, simp_all add: rules\<close>)
  show "steps e event_offer s (prop_opt_text ''RECURRENCE-ID'' (\<lambda>x. dod_text (recurrence_id_value x)) v18) (s\<lparr>evf_recurrence_id := v18\<rparr>)" if "pred_option (\<lambda>x. dod_ok e (recurrence_id_value x)) v18" "evf_recurrence_id s = None"
    by (rule recurrence_id_p.opt_step [OF e fair_event]) (use that in \<open>cases s, simp_all add: rules\<close>)
  show "steps e event_offer s (comps_text ''VALARM'' valarm_text v19) (s\<lparr>evf_alarms := v19\<rparr>)" if "list_all (valarm_ok e) v19" "evf_alarms s = []"
    using valarm_c.comps_step [OF e fair_event, where st = "\<lambda>v. s\<lparr>evf_alarms := v\<rparr>" and ys = "[]" and xs = v19] that
    by (cases s) (simp add: rules)
qed

lemma event_steps:
  assumes e: "env_ok e" and ok: "vevent_ok e x"
  shows "steps e event_offer event_empty (vevent_text x) (event_state x)"
proof -
  note ok = ok [unfolded vevent_ok_def]
  have "steps e event_offer event_empty (vevent_text x) (event_empty\<lparr>evf_uid := ev_uid x, evf_dtstamp := ev_dtstamp x, evf_dtstart := ev_dtstart x, evf_dtend := ev_dtend x, evf_created := ev_created x, evf_class := ev_shown_class x, evf_transp := ev_shown_transp x, evf_status := ev_status x, evf_priority := ev_priority x, evf_summary := ev_summary x, evf_location := ev_location x, evf_description := ev_description x, evf_organizer := ev_organizer x, evf_attendees := ev_attendees x, evf_rrule := ev_rrule x, evf_exdate := ev_exdate x, evf_duration := ev_duration x, evf_sequence := ev_sequence x, evf_recurrence_id := ev_recurrence_id x, evf_alarms := ev_alarms x\<rparr>)"
    unfolding vevent_text_def
    by ((rule steps_trans, rule event_field_steps [OF e], (use ok in \<open>simp add: event_empty_def\<close>; fail)+)+,
        rule event_field_steps [OF e]) (use ok in \<open>simp_all add: event_empty_def\<close>)
  then show ?thesis by (simp add: event_state_def event_empty_def)
qed

lemma event_finished: "vevent_ok e x \<Longrightarrow> event_finish (event_state x) r = (Some x, r)"
  by (cases x) (auto simp: vevent_ok_def event_finish_def event_state_def rkeep_def rret_def ev_shown_class_def ev_shown_transp_def)

lemma write_shown:
  "(if c = d then w else write_prop name (wr c) w) = write_prop_opt name wr (if c = d then None else Some c) w"
  by (simp add: write_prop_opt_def)

interpretation vevent_c: ics_comp_codec vevent_type "''VEVENT''" vevent_text vevent_ok vevent_write
proof
  fix e cs cs' and x :: vevent assume e: "env_ok e" and x: "vevent_ok e x" and cs: "line_end cs cs'"
  show "parses e no_hints (ty_read vevent_type) (vevent_text x @ ascii ''END'' @ 58 # ascii ''VEVENT'' @ cs) (Some x) cs'"
    unfolding vevent_type_def plain_type_def ics_type.select_convs vevent_read_def
    by (rule parses_component [OF e fair_event _ cs event_steps [OF e x]])
      (auto simp: upper_is_name event_offer_def comp_end_same intro: parses_done event_finished [OF x])
next
  have "shrinks (event_finish s)" for s unfolding event_finish_def by (intro progress_intros)
  then show "shrinks (ty_read vevent_type)"
    by (simp add: vevent_type_def plain_type_def vevent_read_def) (intro progress_intros fair_event)
next
  fix e and x :: vevent assume "env_ok e" "vevent_ok e x"
  then show "text_lines (vevent_text x)" by (rule steps_lines [OF event_steps])
next
  fix e w and x :: vevent assume "vevent_ok e x"
  then show "vevent_write x w = write_raw (vevent_text x) w"
    unfolding vevent_write_def write_shown
    by (simp add: vevent_ok_def vevent_text_def ev_shown_class_def [symmetric] ev_shown_transp_def [symmetric] duration_ok_def [abs_def] option.pred_True
        uid_p.prop_opt_writes dt_stamp_p.prop_opt_writes [where e = e] dt_start_p.prop_opt_writes [where e = e] dt_end_p.prop_opt_writes [where e = e] created_p.prop_opt_writes [where e = e] ics_class_p.prop_opt_writes transp_p.prop_opt_writes status_p.prop_opt_writes priority_p.prop_opt_writes summary_p.prop_opt_writes location_p.prop_opt_writes description_p.prop_opt_writes organizer_p.prop_opt_writes [where e = e] attendee_p.props_writes [where e = e] rrule_p.prop_opt_writes [where e = e] ex_date_p.prop_opt_writes [where e = e] duration_p.prop_opt_writes sequence_p.prop_opt_writes recurrence_id_p.prop_opt_writes [where e = e] valarm_c.comps_writes [where e = e] upper_is_name)
qed (simp_all add: upper_is_name)
section \<open>Calendars\<close>

lemma fair_cal: "fair cal_offer"
proof (rule fairI)
  fix entry s r s' r' assume "cal_offer entry s r = Some (s', r')"
  then show "leaves r r'" unfolding cal_offer_def
    by (elim offer_to_leaves) (simp_all add: prop_leaves vevent_c.moves [THEN try_list_leaves(1)]
        vtimezone_c.moves [THEN try_list_leaves(1)])
qed

definition vcalendar_ok :: "ics_env \<Rightarrow> vcalendar \<Rightarrow> bool" where
  "vcalendar_ok e c = (text_ok (prod_id_value (cal_prodid c)) \<and> list_all (vtimezone_ok e) (cal_timezones c)
     \<and> list_all (vevent_ok e) (cal_events c))"

definition vcalendar_text :: "vcalendar \<Rightarrow> ustring" where
  "vcalendar_text c = prop_opt_text ''METHOD'' (\<lambda>x. 58 # ascii (ics_method_str x)) (cal_method c)
     @ prop_text ''PRODID'' (\<lambda>x. text_value_text (prod_id_value x)) (cal_prodid c)
     @ prop_text ''VERSION'' (\<lambda>x. ascii '':2.0'') (cal_version c)
     @ prop_text ''CALSCALE'' (\<lambda>x. 58 # ascii (cal_scale_str x)) (cal_calscale c)
     @ comps_text ''VTIMEZONE'' vtimezone_text (cal_timezones c)
     @ comps_text ''VEVENT'' vevent_text (cal_events c)"

lemma cal_steps:
  assumes e: "env_ok e" and ok: "vcalendar_ok e c"
  shows "steps e cal_offer cal_empty (vcalendar_text c) \<lparr>cf_method = cal_method c, cf_prodid = Some (cal_prodid c),
    cf_version = Some (cal_version c), cf_calscale = Some (cal_calscale c), cf_events = cal_events c, cf_timezones = cal_timezones c\<rparr>"
proof -
  let ?s = "\<lambda>m p v s ev tz. \<lparr>cf_method = m, cf_prodid = p, cf_version = v, cf_calscale = s, cf_events = ev, cf_timezones = tz\<rparr>"
  let ?m = "cal_method c" and ?p = "Some (cal_prodid c)" and ?v = "Some (cal_version c)" and ?k = "Some (cal_calscale c)"
  note rules = cal_offer_def field_rules option.pred_True
  have "steps e cal_offer (?s None None None None [] []) (prop_opt_text ''METHOD'' (\<lambda>x. 58 # ascii (ics_method_str x)) ?m)
      (?s ?m None None None [] [])"
    by (rule ics_method_p.opt_step [OF e fair_cal]) (simp_all add: rules)
  also have "steps e cal_offer \<dots> (prop_text ''PRODID'' (\<lambda>x. text_value_text (prod_id_value x)) (cal_prodid c))
      (?s ?m ?p None None [] [])"
    by (rule prod_id_p.line_step [OF e fair_cal]) (use ok in \<open>simp_all add: rules vcalendar_ok_def\<close>)
  also have "steps e cal_offer \<dots> (prop_text ''VERSION'' (\<lambda>x. ascii '':2.0'') (cal_version c)) (?s ?m ?p ?v None [] [])"
    by (rule version_p.line_step [OF e fair_cal]) (simp_all add: rules)
  also have "steps e cal_offer \<dots> (prop_text ''CALSCALE'' (\<lambda>x. 58 # ascii (cal_scale_str x)) (cal_calscale c)) (?s ?m ?p ?v ?k [] [])"
    by (rule cal_scale_p.line_step [OF e fair_cal]) (simp_all add: rules)
  also have "steps e cal_offer \<dots> (comps_text ''VTIMEZONE'' vtimezone_text (cal_timezones c)) (?s ?m ?p ?v ?k [] ([] @ cal_timezones c))"
    by (rule vtimezone_c.comps_step [OF e fair_cal]) (use ok in \<open>simp_all add: rules vcalendar_ok_def\<close>)
  also have "steps e cal_offer \<dots> (comps_text ''VEVENT'' vevent_text (cal_events c)) (?s ?m ?p ?v ?k ([] @ cal_events c) ([] @ cal_timezones c))"
    by (rule vevent_c.comps_step [OF e fair_cal]) (use ok in \<open>simp_all add: rules vcalendar_ok_def\<close>)
  finally show ?thesis by (simp add: vcalendar_text_def cal_empty_def)
qed

interpretation vcalendar_c: ics_comp_codec vcalendar_type "''VCALENDAR''" vcalendar_text vcalendar_ok vcalendar_write
proof
  fix e cs cs' and c :: vcalendar assume e: "env_ok e" and c: "vcalendar_ok e c" and cs: "line_end cs cs'"
  have fin: "cal_finish \<lparr>cf_method = cal_method c, cf_prodid = Some (cal_prodid c), cf_version = Some (cal_version c),
      cf_calscale = Some (cal_calscale c), cf_events = cal_events c, cf_timezones = cal_timezones c\<rparr> r = (Some c, r)" for r
    by (simp add: cal_finish_def rkeep_def)
  show "parses e no_hints (ty_read vcalendar_type) (vcalendar_text c @ ascii ''END'' @ 58 # ascii ''VCALENDAR'' @ cs) (Some c) cs'"
    unfolding vcalendar_type_def plain_type_def ics_type.select_convs vcalendar_read_def
    by (rule parses_component [OF e fair_cal _ cs cal_steps [OF e c]])
      (auto simp: upper_is_name cal_offer_def comp_end_same intro: parses_done fin)
next
  have "shrinks (cal_finish s)" for s
    unfolding cal_finish_def by (intro progress_intros shrinks_result) (auto split: option.splits)
  then show "shrinks (ty_read vcalendar_type)"
    by (simp add: vcalendar_type_def plain_type_def vcalendar_read_def) (intro progress_intros fair_cal)
next
  fix e and c :: vcalendar assume "env_ok e" "vcalendar_ok e c"
  then show "text_lines (vcalendar_text c)" by (rule steps_lines [OF cal_steps])
next
  fix e w and c :: vcalendar assume "vcalendar_ok e c"
  then show "vcalendar_write c w = write_raw (vcalendar_text c) w"
    by (simp add: vcalendar_ok_def vcalendar_write_def vcalendar_text_def ics_method_p.prop_opt_writes prod_id_p.prop_writes
        version_p.prop_writes cal_scale_p.prop_writes vtimezone_c.comps_writes [where e = e] vevent_c.comps_writes [where e = e]
        upper_is_name option.pred_True)
qed (simp_all add: upper_is_name)

section \<open>Whole sources\<close>

lemma progress_source:
  assumes "shrinks (ty_read T)"
  shows "progress (source_round T name)"
proof -
  have result: "leaves r r' \<and> (\<forall>s'. fl = Continue s' \<longrightarrow> consumes r r')"
    if run: "source_round T name v r = (fl, r')" for v r fl r'
  proof -
    obtain a r1 where a: "reader_entry r = (a, r1)" by fastforce
    show ?thesis
    proof (cases a)
      case None
      then show ?thesis using run a eatsD(1) [OF eats_entry a] by (auto simp: source_round_def split: if_splits)
    next
      case (Some en)
      then have 1: "consumes r r1" using a eatsD(2) [OF eats_entry] by blast
      have "leaves r1 (snd (entry_burn en KComponent r1))" using shrinksD [OF shrinks_burn] by (metis prod.collapse)
      then have 2: "consumes r (snd (entry_burn en KComponent r1))" using 1 by (rule consumes_leaves [rotated])
      have 3: "consumes r r3" if "try_comp T en name v r1 = Some (s3, r3)" for s3 r3
        using try_leaves(1) [OF assms that] 1 by (blast intro: consumes_leaves)
      show ?thesis using run a Some 2 3
        by (auto simp: source_round_def split: option.splits if_splits intro: consumes_imp_leaves)
    qed
  qed
  show ?thesis by (rule progressI; drule result) auto
qed

lemma utf8s_Nil: "utf8s s = [] \<longleftrightarrow> s = []"
  by (cases s) (simp_all add: utf8_def)

context ics_comp_codec
begin

lemma source_roundtrip:
  assumes "env_ok e" and "ok e x"
  shows "read_source T name what e (utf8s (write_finish (write_comp name (wr x) writer_default))) = Inr (x, [])"
proof -
  let ?t = "comp_text name tx x"
  let ?r = "reader_new e (utf8s (fold_text 0 ?t))"
  let ?body = "tx x @ ascii ''END'' @ 58 # ascii name @ [10]"
  have t: "?t = ascii ''BEGIN'' @ 58 # ascii name @ 10 # ?body" "text_lines ?t" "?t \<noteq> []" "last ?t = 10"
    using comp_lines [OF assms] by (simp_all add: comp_text_def)
  have out: "write_finish (write_comp name (wr x) writer_default) = fold_text 0 ?t"
    by (rule written_text) (rule comp_writes [OF assms(2)])
  have r: "rd_env ?r = e" "rd_hints ?r = no_hints" "before ?t ?r" "rd_msgs ?r = []" "rd_src ?r = utf8s (fold_text 0 ?t)"
    using before_reader_new [of ?t e] t(2) by (simp_all add: reader_new_def no_hints_def text_lines_def)
  have entry: "yields e no_hints reader_entry ?t (\<lambda>v. \<exists>sp. v = EComp (Spanned sp (ascii name))) ?body"
    unfolding t(1) by (rule entry_begin_run [OF assms(1) name_line [OF named]]) (simp add: line_end_def)
  obtain en q where en: "reader_entry ?r = (Some en, ?r\<lparr>rd_pos := q\<rparr>)" "\<exists>sp. en = EComp (Spanned sp (ascii name))"
      "before ?body (?r\<lparr>rd_pos := q\<rparr>)"
    using yieldsE [OF entry r(1-3)] .
  have "parses e no_hints (reader_any T) ?body (Some x) []"
    by (rule parses_any [OF reads [OF assms]]) (simp add: line_end_def)
  then obtain q2 where q2: "reader_any T (?r\<lparr>rd_pos := q\<rparr>) = (Some x, ?r\<lparr>rd_pos := q2\<rparr>)" "before [] (?r\<lparr>rd_pos := q2\<rparr>)"
    using parsesE [of e no_hints "reader_any T" ?body "Some x" "[]" "?r\<lparr>rd_pos := q\<rparr>"] r en(3) by auto
  have "try_comp T en name None (?r\<lparr>rd_pos := q\<rparr>) = Some (Some x, ?r\<lparr>rd_pos := q2\<rparr>)"
    using en(2) q2(1) by (auto simp: try_comp_def eq_ignore_case_def dup_check_def)
  moreover have "\<not> reader_is_empty ?r"
  proof
    assume "reader_is_empty ?r"
    then have "rd_stream ?r = []" by (simp add: rd_stream_def reader_is_empty_def)
    then have "utf8s ?t = []" using r(3) by (simp add: before_def)
    then show False using t(3) by (simp add: utf8s_Nil)
  qed
  ultimately have one: "source_round T name None ?r = (Continue (Some x), ?r\<lparr>rd_pos := q2\<rparr>)"
    using en(1) by (simp add: source_round_def)
  have "reader_is_empty (?r\<lparr>rd_pos := q2\<rparr>)"
    using before_end_empty [OF q2(2)] last_octet [OF t(3), of 0] t(4) r(5) by simp
  then have two: "source_round T name (Some x) (?r\<lparr>rd_pos := q2\<rparr>) = (Break (Some (Some x)), ?r\<lparr>rd_pos := q2\<rparr>)"
    by (simp add: source_round_def)
  have "rloop (source_round T name) None ?r = (Some (Some x), ?r\<lparr>rd_pos := q2\<rparr>)"
    using rloop_unfold [OF progress_source [OF moves], of name None ?r]
      rloop_unfold [OF progress_source [OF moves], of name "Some x" "?r\<lparr>rd_pos := q2\<rparr>"] one two by simp
  then show ?thesis unfolding out by (simp add: read_source_def r(4))
qed

end

end
