(* ===== verification/Ics_Validity.thy ===== *)
theory Ics_Validity
  imports Ics_Components
begin

text \<open>
  What a clean calendar is.  \<open>VCalendar::validate\<close> collects violations; \<open>calendar_sound\<close> states the
  conditions it stands for, over the sets of identifiers and time zones of the calendar, and the
  lemmas show event by event that no violation is collected exactly when they hold.
\<close>

section \<open>The specification\<close>

definition dt_zones :: "any_form date_time \<Rightarrow> tz_id set" where
  "dt_zones d = (case dt_form d of FormTz z \<Rightarrow> {z} | _ \<Rightarrow> {})"

definition dod_zones :: "any_form date_or_dt \<Rightarrow> tz_id set" where
  "dod_zones d = (case d of DDate _ \<Rightarrow> {} | DDateTime x \<Rightarrow> dt_zones x)"

definition opt_set :: "('a \<Rightarrow> 'b set) \<Rightarrow> 'a option \<Rightarrow> 'b set" where
  "opt_set f v = (case v of None \<Rightarrow> {} | Some x \<Rightarrow> f x)"

definition exdate_zones :: "ex_date \<Rightarrow> tz_id set" where
  "exdate_zones x = (case x of ExDates _ \<Rightarrow> {} | ExDateTimes f _ \<Rightarrow> (case f of FormTz z \<Rightarrow> {z} | _ \<Rightarrow> {}))"

text \<open>The time zones that the dates of an event mention.\<close>

definition event_zones :: "vevent \<Rightarrow> tz_id set" where
  "event_zones x = opt_set (\<lambda>d. dt_zones (dt_stamp_value d)) (ev_dtstamp x) \<union> opt_set (\<lambda>d. dt_zones (created_value d)) (ev_created x)
     \<union> opt_set (\<lambda>d. dod_zones (dt_start_value d)) (ev_dtstart x) \<union> opt_set (\<lambda>d. dod_zones (dt_end_value d)) (ev_dtend x)
     \<union> opt_set (\<lambda>d. dod_zones (recurrence_id_value d)) (ev_recurrence_id x) \<union> opt_set exdate_zones (ev_exdate x)"

definition is_day :: "'f date_or_dt \<Rightarrow> bool" where
  "is_day d = (case d of DDate _ \<Rightarrow> True | DDateTime _ \<Rightarrow> False)"

definition alarm_sound :: "vevent \<Rightarrow> valarm \<Rightarrow> bool" where
  "alarm_sound x a =
    ((case valarm_trigger a of
        TrigRelative EdgeStart _ \<Rightarrow> ev_dtstart x \<noteq> None
      | TrigRelative EdgeEnd _ \<Rightarrow> ev_dtend x \<noteq> None \<or> ev_dtstart x \<noteq> None \<or> ev_duration x \<noteq> None
      | TrigAbsolute _ \<Rightarrow> True)
     \<and> (case a of AlarmEmail m \<Rightarrow> ea_attendees m \<noteq> [] | AlarmDisplay _ \<Rightarrow> True))"

definition event_sound :: "tz_id set \<Rightarrow> vevent \<Rightarrow> bool" where
  "event_sound zones x =
    (ev_uid x \<noteq> None \<and> ev_dtstamp x \<noteq> None \<and> \<not> (ev_dtend x \<noteq> None \<and> ev_duration x \<noteq> None)
     \<and> (\<forall>a b. ev_dtstart x = Some a \<longrightarrow> ev_dtend x = Some b \<longrightarrow> is_day (dt_start_value a) = is_day (dt_end_value b))
     \<and> (\<forall>a b. ev_dtstart x = Some a \<longrightarrow> ev_recurrence_id x = Some b
          \<longrightarrow> is_day (dt_start_value a) = is_day (recurrence_id_value b))
     \<and> event_zones x \<subseteq> zones
     \<and> (\<forall>r. ev_rrule x = Some r \<longrightarrow> rc_interval (rrule_value r) \<noteq> Some 0)
     \<and> list_all (alarm_sound x) (ev_alarms x))"

definition calendar_sound :: "vcalendar \<Rightarrow> bool" where
  "calendar_sound c =
    (distinct (map ev_uid (cal_events c)) \<and> distinct (map vtz_tzid (cal_timezones c))
     \<and> list_all (event_sound (vtz_tzid ` set (cal_timezones c))) (cal_events c))"

text \<open>The calendar with the exception dates of its events taken out: what validation looks at.\<close>

definition without_exdate :: "vevent \<Rightarrow> vevent" where
  "without_exdate x = x\<lparr> ev_exdate := None \<rparr>"

definition without_exdates :: "vcalendar \<Rightarrow> vcalendar" where
  "without_exdates c = c\<lparr> cal_events := map without_exdate (cal_events c) \<rparr>"

text \<open>The exception dates mention time zones of the calendar only.\<close>

definition exdates_known :: "vcalendar \<Rightarrow> bool" where
  "exdates_known c = list_all (\<lambda>x. opt_set exdate_zones (ev_exdate x) \<subseteq> vtz_tzid ` set (cal_timezones c)) (cal_events c)"

lemma alarm_sound_without [simp]: "alarm_sound (without_exdate x) a = alarm_sound x a"
  by (simp add: alarm_sound_def without_exdate_def split: trigger.splits trigger_edge.splits)

lemma event_sound_without:
  "event_sound zones x \<longleftrightarrow> event_sound zones (without_exdate x) \<and> opt_set exdate_zones (ev_exdate x) \<subseteq> zones"
proof -
  have "alarm_sound (without_exdate x) = alarm_sound x" by (rule ext) simp
  moreover have "event_zones x \<subseteq> zones
      \<longleftrightarrow> event_zones (without_exdate x) \<subseteq> zones \<and> opt_set exdate_zones (ev_exdate x) \<subseteq> zones"
    by (auto simp: event_zones_def without_exdate_def opt_set_def)
  ultimately show ?thesis unfolding event_sound_def by (simp add: without_exdate_def conj_ac)
qed

lemma events_sound_without:
  "list_all (event_sound zones) xs \<longleftrightarrow> list_all (event_sound zones) (map without_exdate xs)
     \<and> list_all (\<lambda>x. opt_set exdate_zones (ev_exdate x) \<subseteq> zones) xs"
proof (induction xs)
  case (Cons x xs)
  show ?case unfolding list.map list.pred_inject using Cons event_sound_without [of zones x] by blast
qed simp

lemma calendar_sound_without: "calendar_sound c \<longleftrightarrow> calendar_sound (without_exdates c) \<and> exdates_known c"
proof -
  have u: "map ev_uid (map without_exdate (cal_events c)) = map ev_uid (cal_events c)" by (simp add: without_exdate_def)
  have c: "cal_events (without_exdates c) = map without_exdate (cal_events c)" "cal_timezones (without_exdates c) = cal_timezones c"
    by (simp_all add: without_exdates_def)
  show ?thesis unfolding calendar_sound_def c u exdates_known_def
    using events_sound_without [of "vtz_tzid ` set (cal_timezones c)" "cal_events c"] by blast
qed

section \<open>Duplicates\<close>

lemma enumerate_set: "set (List.enumerate 0 ys) = (\<lambda>i. (i, ys ! i)) ` {..<length ys}"
  by (auto simp: in_set_enumerate_eq image_iff)

lemma concat_enumerate:
  "concat (map (\<lambda>(i, y). f i y) (List.enumerate 0 ys)) = [] \<longleftrightarrow> (\<forall>i < length ys. f i (ys ! i) = [])"
  by (auto simp: enumerate_set)

lemma taken_elsewhere:
  "list_ex (\<lambda>(idx, y). P y \<and> Some idx \<noteq> Some i) (List.enumerate 0 ys) \<longleftrightarrow> (\<exists>j < length ys. P (ys ! j) \<and> j \<noteq> i)"
  by (auto simp: list_ex_iff enumerate_set)

lemma distinct_elsewhere:
  assumes "\<And>i j. i < length ys \<Longrightarrow> j < length ys \<Longrightarrow> same (ys ! j) (ys ! i) \<longleftrightarrow> f (ys ! j) = f (ys ! i)"
  shows "(\<forall>i < length ys. \<not> (\<exists>j < length ys. same (ys ! j) (ys ! i) \<and> j \<noteq> i)) \<longleftrightarrow> distinct (map f ys)"
  using assms by (auto simp: distinct_conv_nth)

lemma uid_taken_iff:
  assumes "ev_uid (cal_events c ! i) = Some u"
  shows "uid_taken c (Some i) u \<longleftrightarrow> (\<exists>j < length (cal_events c). ev_uid (cal_events c ! j) = Some u \<and> j \<noteq> i)"
proof -
  have "uid_value a = uid_value b \<longleftrightarrow> a = b" for a b using uid.expand by auto
  then show ?thesis by (auto simp: uid_taken_def list_ex_iff enumerate_set split: option.splits)
qed

lemma zone_viols:
  "concat (map (\<lambda>(idx, z). map (InvalidTimeZone idx) (vtimezone_validate c (Some idx) z)) (List.enumerate 0 (cal_timezones c))) = []
    \<longleftrightarrow> distinct (map vtz_tzid (cal_timezones c))"
proof -
  have "vtimezone_validate c (Some i) z = [] \<longleftrightarrow> \<not> (\<exists>j < length (cal_timezones c). vtz_tzid (cal_timezones c ! j) = vtz_tzid z \<and> j \<noteq> i)" for i z
    unfolding vtimezone_validate_def using taken_elsewhere [of "\<lambda>t. vtz_tzid t = vtz_tzid z" i "cal_timezones c"] by (simp add: conj_commute)
  then have "concat (map (\<lambda>(idx, z). map (InvalidTimeZone idx) (vtimezone_validate c (Some idx) z)) (List.enumerate 0 (cal_timezones c))) = []
     \<longleftrightarrow> (\<forall>i < length (cal_timezones c). \<not> (\<exists>j < length (cal_timezones c). vtz_tzid (cal_timezones c ! j) = vtz_tzid (cal_timezones c ! i) \<and> j \<noteq> i))"
    unfolding concat_enumerate by simp
  also have "\<dots> \<longleftrightarrow> distinct (map vtz_tzid (cal_timezones c))"
    by (rule distinct_elsewhere) simp
  finally show ?thesis .
qed

section \<open>One event\<close>

lemma known_zone:
  "dt_any_validate c d = [] \<longleftrightarrow> dt_zones d \<subseteq> vtz_tzid ` set (cal_timezones c)"
  "dod_validate c x = [] \<longleftrightarrow> dod_zones x \<subseteq> vtz_tzid ` set (cal_timezones c)"
proof -
  have dt: "dt_any_validate c d = [] \<longleftrightarrow> dt_zones d \<subseteq> vtz_tzid ` set (cal_timezones c)" for d
    using tz_id.expand by (auto simp: dt_any_validate_def dt_zones_def list_ex_iff image_iff split: any_form.splits; metis)
  show "dt_any_validate c d = [] \<longleftrightarrow> dt_zones d \<subseteq> vtz_tzid ` set (cal_timezones c)"
    "dod_validate c x = [] \<longleftrightarrow> dod_zones x \<subseteq> vtz_tzid ` set (cal_timezones c)"
    by (simp_all add: dt dod_validate_def dod_zones_def split: date_or_dt.splits)
qed

lemma opt_viols_Nil: "opt_viols f into v = [] \<longleftrightarrow> (\<forall>x. v = Some x \<longrightarrow> f x = [])"
  by (simp add: opt_viols_def split: option.splits)

lemma opt_set_sub: "opt_set f v \<subseteq> S \<longleftrightarrow> (\<forall>x. v = Some x \<longrightarrow> f x \<subseteq> S)"
  by (simp add: opt_set_def split: option.splits)

lemma types_agree:
  "type_mismatches x = [] \<longleftrightarrow>
     (\<forall>a b. ev_dtstart x = Some a \<longrightarrow> ev_dtend x = Some b \<longrightarrow> is_day (dt_start_value a) = is_day (dt_end_value b))
     \<and> (\<forall>a b. ev_dtstart x = Some a \<longrightarrow> ev_recurrence_id x = Some b
          \<longrightarrow> is_day (dt_start_value a) = is_day (recurrence_id_value b))"
proof -
  have ty: "date_or_dt_ty d = date_or_dt_ty d' \<longleftrightarrow> is_day d = is_day d'" for d d' :: "any_form date_or_dt"
    by (simp add: date_or_dt_ty_def is_day_def split: date_or_dt.splits)
  show ?thesis by (auto simp: type_mismatches_def Let_def ty split: option.splits)
qed

lemma alarms_sound:
  "concat (map (\<lambda>(idx, a). map (InvalidAlarm idx) (valarm_validate x a)) (List.enumerate 0 as)) = [] \<longleftrightarrow> list_all (alarm_sound x) as"
proof -
  have "valarm_validate x a = [] \<longleftrightarrow> alarm_sound x a" for a
    by (auto simp: valarm_validate_def alarm_sound_def email_alarm_validate_def split: trigger.splits trigger_edge.splits valarm.splits)
  then show ?thesis unfolding concat_enumerate by (simp add: list_all_length)
qed

lemma event_viols:
  assumes "i < length (cal_events c)" and "x = cal_events c ! i"
  shows "vevent_validate c (Some i) x = [] \<longleftrightarrow> event_sound (vtz_tzid ` set (cal_timezones c)) (without_exdate x)
     \<and> \<not> (\<exists>j < length (cal_events c). ev_uid (cal_events c ! j) = ev_uid x \<and> j \<noteq> i)"
proof (cases "ev_uid x")
  case None
  then show ?thesis by (simp add: vevent_validate_def event_sound_def without_exdate_def)
next
  case (Some u)
  have rr: "rrule_validate r = [] \<longleftrightarrow> rc_interval (rrule_value r) \<noteq> Some 0" for r
    by (simp add: rrule_validate_def recur_validate_def)
  have st: "(case ev_dtstamp x of Some d \<Rightarrow> map InvalidDtStamp (dt_stamp_validate c d) | None \<Rightarrow> [MissingDtStamp]) = []
      \<longleftrightarrow> ev_dtstamp x \<noteq> None \<and> opt_set (\<lambda>d. dt_zones (dt_stamp_value d)) (ev_dtstamp x) \<subseteq> vtz_tzid ` set (cal_timezones c)"
    by (auto simp: dt_stamp_validate_def known_zone opt_set_def split: option.splits)
  have al: "alarm_sound (without_exdate x) = alarm_sound x" by (rule ext) simp
  show ?thesis
    unfolding vevent_validate_def append_is_Nil_conv opt_viols_Nil types_agree alarms_sound st event_sound_def event_zones_def
      Un_subset_iff opt_set_sub al
    using uid_taken_iff [of c i u] Some assms(2)
    by (auto simp: without_exdate_def dt_start_validate_def dt_end_validate_def created_validate_def recurrence_id_validate_def known_zone rr)
qed

lemma calendar_viols_Nil: "calendar_viols c = [] \<longleftrightarrow> calendar_sound (without_exdates c)"
proof -
  let ?ok = "\<lambda>x. event_sound (vtz_tzid ` set (cal_timezones c)) (without_exdate x)"
  have u: "map ev_uid (map without_exdate (cal_events c)) = map ev_uid (cal_events c)" by (simp add: without_exdate_def)
  have o: "list_all (event_sound (vtz_tzid ` set (cal_timezones c))) (map without_exdate (cal_events c)) = list_all ?ok (cal_events c)"
    by (simp add: list_all_iff)
  have "concat (map (\<lambda>(idx, e). map (InvalidEvent idx) (vevent_validate c (Some idx) e)) (List.enumerate 0 (cal_events c))) = []
      \<longleftrightarrow> (\<forall>i < length (cal_events c). vevent_validate c (Some i) (cal_events c ! i) = [])"
    unfolding concat_enumerate by simp
  also have "\<dots> \<longleftrightarrow> list_all ?ok (cal_events c) \<and> (\<forall>i < length (cal_events c).
      \<not> (\<exists>j < length (cal_events c). ev_uid (cal_events c ! j) = ev_uid (cal_events c ! i) \<and> j \<noteq> i))"
    using event_viols [of _ c] by (auto simp: list_all_length)
  also have "\<dots> \<longleftrightarrow> list_all ?ok (cal_events c) \<and> distinct (map ev_uid (cal_events c))"
    using distinct_elsewhere [of "cal_events c" "\<lambda>x y. ev_uid x = ev_uid y" ev_uid] by simp
  finally show ?thesis
    unfolding calendar_viols_def append_is_Nil_conv zone_viols calendar_sound_def without_exdates_def
    by (simp add: u o comp_def without_exdate_def) auto
qed

end
