(* ===== verification/Ics_Typed.thy ===== *)
theory Ics_Typed
  imports Ics_Recur_Codec Ics_Components
begin

text \<open>
  What the parsers guarantee for an arbitrary source.  \<open>ensures e p Q\<close> is a Hoare triple for the
  reader: started on a reader of the environment \<open>e\<close> with no more messages than \<open>IcsReader::msg\<close>
  admits, \<open>p\<close> ends in one, and its result satisfies \<open>Q\<close>.  The rules (collection \<open>typed\<close>) follow the
  combinators; every number, date, rule, event and calendar that is read lies in its range.
\<close>

named_theorems typed \<open>triples of the reader\<close>

definition well_read :: "ics_env \<Rightarrow> ics_reader \<Rightarrow> bool" where
  "well_read e r = (rd_env r = e \<and> length (rd_msgs r) \<le> Suc max_msgs)"

definition ensures :: "ics_env \<Rightarrow> (ics_reader \<Rightarrow> 'b \<times> ics_reader) \<Rightarrow> ('b \<Rightarrow> bool) \<Rightarrow> bool" where
  "ensures e p Q = (\<forall>r. well_read e r \<longrightarrow> well_read e (snd (p r)) \<and> Q (fst (p r)))"

abbreviation keeps :: "ics_env \<Rightarrow> (ics_reader \<Rightarrow> 'b \<times> ics_reader) \<Rightarrow> bool" where
  "keeps e p \<equiv> ensures e p (\<lambda>_. True)"

abbreviation gives :: "ics_env \<Rightarrow> 'a rd \<Rightarrow> ('a \<Rightarrow> bool) \<Rightarrow> bool" where
  "gives e p P \<equiv> ensures e p (pred_option P)"

section \<open>Rules\<close>

lemma ensuresI:
  assumes "\<And>r v r'. well_read e r \<Longrightarrow> p r = (v, r') \<Longrightarrow> well_read e r' \<and> Q v"
  shows "ensures e p Q"
  unfolding ensures_def by (metis assms prod.collapse)

lemma ensuresD:
  assumes "ensures e p Q" and "p r = (v, r')" and "well_read e r"
  shows "well_read e r'" "Q v"
  using assms unfolding ensures_def by fastforce+

lemma ensures_weaken: "ensures e p Q \<Longrightarrow> (\<And>v. Q v \<Longrightarrow> R v) \<Longrightarrow> ensures e p R"
  unfolding ensures_def by blast

lemma well_read_update [simp]:
  "well_read e (r\<lparr>rd_pos := p\<rparr>) = well_read e r" "well_read e (r\<lparr>rd_hints := h\<rparr>) = well_read e r"
  "well_read e (r\<lparr>rd_context := c\<rparr>) = well_read e r"
  by (simp_all add: well_read_def)

lemma well_read_quiet: "well_read e r \<Longrightarrow> well_read e (r\<lparr>rd_msgs := []\<rparr>)"
  by (simp add: well_read_def)

lemma well_read_msg: "well_read e r \<Longrightarrow> well_read e (snd (reader_msg at body kind ctx r))"
  by (auto simp: well_read_def reader_msg_def)

lemma well_read_note [simp]:
  "well_read e r \<Longrightarrow> well_read e (reader_error at body r)" "well_read e r \<Longrightarrow> well_read e (reader_warn at body r)"
  by (simp_all add: reader_error_def reader_warn_def well_read_msg)

lemma well_read_forward: "well_read e r \<Longrightarrow> well_read e (forward_msgs ms r)"
proof (induction ms r rule: forward_msgs.induct)
  case (2 m ms r)
  obtain ok r' where m: "reader_msg (m_at m) (m_body m) (m_kind m) (Some (rd_context r @ m_context m)) r = (ok, r')" by fastforce
  then have "well_read e r'" using well_read_msg [OF 2(2)] by (metis snd_conv)
  then show ?case using 2(1) m by (cases ok) auto
qed simp

lemma ensures_rret [typed]: "R (Some a) \<Longrightarrow> ensures e (rret a) R"
  by (simp add: ensures_def rret_def)

lemma ensures_rfail [typed]: "R None \<Longrightarrow> ensures e rfail R"
  by (simp add: ensures_def rfail_def)

lemma ensures_rbind [typed]:
  assumes "ensures e p Q" and "\<And>v. Q (Some v) \<Longrightarrow> ensures e (f v) R" and "R None"
  shows "ensures e (rbind p f) R"
proof (rule ensuresI)
  fix r v r' assume r: "well_read e r" and run: "rbind p f r = (v, r')"
  obtain a r1 where a: "p r = (a, r1)" by fastforce
  note q = ensuresD [OF assms(1) a r]
  show "well_read e r' \<and> R v"
  proof (cases a)
    case None
    then show ?thesis using run a q(1) assms(3) by (auto simp: rbind_def)
  next
    case (Some x)
    then have "f x r1 = (v, r')" using run a by (simp add: rbind_def)
    then show ?thesis using ensuresD [OF assms(2), of x r1 v r'] q Some by simp
  qed
qed

lemma ensures_rthen [typed]:
  assumes "ensures e p Q" and "ensures e q R"
  shows "ensures e (rthen p q) R"
  using assms unfolding ensures_def rthen_def by blast

lemma ensures_rcase [typed]:
  assumes "ensures e p Q" and "\<And>v. Q (Some v) \<Longrightarrow> ensures e (f v) R" and "ensures e g R"
  shows "ensures e (rcase p f g) R"
proof (rule ensuresI)
  fix r v r' assume r: "well_read e r" and run: "rcase p f g r = (v, r')"
  obtain a r1 where a: "p r = (a, r1)" by fastforce
  note q = ensuresD [OF assms(1) a r]
  show "well_read e r' \<and> R v"
  proof (cases a)
    case None
    then have "g r1 = (v, r')" using run a by (simp add: rcase_def)
    then show ?thesis using ensuresD [OF assms(3)] q(1) by blast
  next
    case (Some x)
    then have "f x r1 = (v, r')" using run a by (simp add: rcase_def)
    then show ?thesis using ensuresD [OF assms(2), of x r1 v r'] q Some by simp
  qed
qed

lemma ensures_rerror [typed]: "ensures e k R \<Longrightarrow> ensures e (rerror at body k) R"
  by (simp add: ensures_def rerror_def)

lemma ensures_rwarn [typed]: "ensures e k R \<Longrightarrow> ensures e (rwarn at body k) R"
  by (simp add: ensures_def rwarn_def)

lemma ensures_hint [typed]:
  assumes "ensures e p Q"
  shows "ensures e (reader_hint h p) Q"
proof (rule ensuresI)
  fix r v r' assume r: "well_read e r" and run: "reader_hint h p r = (v, r')"
  obtain r1 where "p (r\<lparr>rd_hints := h (rd_hints r)\<rparr>) = (v, r1)" "r' = r1\<lparr>rd_hints := rd_hints r\<rparr>"
    using run by (auto simp: reader_hint_def split: prod.splits)
  then show "well_read e r' \<and> Q v" using ensuresD [OF assms] r by simp
qed

lemma ensures_context [typed]:
  assumes "ensures e p Q"
  shows "ensures e (reader_context sp tag p) Q"
proof (rule ensuresI)
  fix r v r' assume r: "well_read e r" and run: "reader_context sp tag p r = (v, r')"
  obtain r1 where "p (r\<lparr>rd_context := rd_context r @ [Spanned sp tag]\<rparr>) = (v, r1)" "r' = r1\<lparr>rd_context := butlast (rd_context r1)\<rparr>"
    using run by (auto simp: reader_context_def split: prod.splits)
  then show "well_read e r' \<and> Q v" using ensuresD [OF assms] r by simp
qed

lemma ensures_any [typed]: "ensures e (ty_read T) Q \<Longrightarrow> ensures e (reader_any T) Q"
  using ensures_context [of e "ty_read T" Q] by (simp add: ensures_def reader_any_def)

lemma ensures_silently [typed]: "ensures e p Q \<Longrightarrow> ensures e (reader_silently p) Q"
proof (rule ensuresI)
  fix r v r' assume p: "ensures e p Q" and r: "well_read e r" and run: "reader_silently p r = (v, r')"
  obtain r1 where "p (r\<lparr>rd_msgs := []\<rparr>) = (v, r1)" "r' = r1\<lparr>rd_msgs := rd_msgs r\<rparr>"
    using run by (auto simp: reader_silently_def split: prod.splits)
  then show "well_read e r' \<and> Q v" using ensuresD [OF p _ well_read_quiet [OF r]] r by (auto simp: well_read_def)
qed

lemma ensures_spanned [typed]: "ensures e p Q \<Longrightarrow> ensures e (reader_spanned p) (\<lambda>v. Q (map_option sp_value v))"
  by (rule ensuresI) (auto simp: reader_spanned_def dest: ensuresD split: prod.splits option.splits)

lemma well_read_stalled [simp]: "well_read e (r\<lparr>rd_stalled := b\<rparr>) = well_read e r"
  by (simp add: well_read_def)

lemma ensures_attempt [typed]:
  assumes "ensures e p Q" and "Q None"
  shows "ensures e (reader_attempt p) Q"
proof (rule ensuresI)
  fix r v r' assume r: "well_read e r" and run: "reader_attempt p r = (v, r')"
  obtain a this where a: "p (r\<lparr>rd_msgs := [], rd_context := []\<rparr>) = (a, this)" by fastforce
  have "well_read e (r\<lparr>rd_msgs := [], rd_context := []\<rparr>)" using r by (simp add: well_read_def)
  then have "Q a" by (rule ensuresD(2) [OF assms(1) a])
  then show "well_read e r' \<and> Q v"
    using run a r assms(2) by (cases a) (auto simp: reader_attempt_def Let_def well_read_forward)
qed

lemma ensures_if [typed]:
  assumes "b \<Longrightarrow> ensures e p Q" and "\<not> b \<Longrightarrow> ensures e q Q"
  shows "ensures e (if b then p else q) Q"
  using assms by simp

lemma ensures_case_option [typed]:
  assumes "v = None \<Longrightarrow> ensures e p Q" and "\<And>x. v = Some x \<Longrightarrow> ensures e (f x) Q"
  shows "ensures e (case v of None \<Rightarrow> p | Some x \<Rightarrow> f x) Q"
  using assms by (cases v) auto

lemma ensures_case_prod [typed]:
  assumes "\<And>a b. v = (a, b) \<Longrightarrow> ensures e (f a b) Q"
  shows "ensures e (case v of (a, b) \<Rightarrow> f a b) Q"
  using assms by (cases v) auto

lemma ensures_unwrap [typed]:
  assumes "\<And>v. sp_value s = Inr v \<Longrightarrow> R (Some v)" and "R None"
  shows "ensures e (spanned_unwrap s) R"
  unfolding spanned_unwrap_def
proof (cases "sp_value s")
  case (Inl x)
  then show "ensures e (case sp_value s of Inl err \<Rightarrow> rerror (Some (sp_span s)) err rfail | Inr v \<Rightarrow> rret v) R"
    using assms(2) by (simp add: ensures_rerror ensures_rfail)
next
  case (Inr x)
  then show "ensures e (case sp_value s of Inl err \<Rightarrow> rerror (Some (sp_span s)) err rfail | Inr v \<Rightarrow> rret v) R"
    using assms(1) by (simp add: ensures_rret)
qed

text \<open>A parser that looks at the reader it starts from.\<close>

lemma ensures_look:
  assumes "\<And>x. well_read e x \<Longrightarrow> ensures e (f x) R"
  shows "ensures e (\<lambda>r. f r r) R"
  using assms unfolding ensures_def by blast

definition flow_ok :: "('s \<Rightarrow> bool) \<Rightarrow> ('b option \<Rightarrow> bool) \<Rightarrow> ('s, 'b) flow \<Rightarrow> bool" where
  "flow_ok S Q fl = (case fl of Continue s \<Rightarrow> S s | Break b \<Rightarrow> Q b)"

lemma flow_ok_simps [simp]: "flow_ok S Q (Continue s) = S s" "flow_ok S Q (Break b) = Q b"
  by (simp_all add: flow_ok_def)

lemma ensures_rloop:
  assumes "\<And>s. S s \<Longrightarrow> ensures e (body s) (flow_ok S Q)" and "S s" and "Q None"
  shows "ensures e (rloop body s) Q"
proof -
  have "well_read e (snd (rloop_fuel n body s r)) \<and> Q (fst (rloop_fuel n body s r))" if "well_read e r" "S s" for n s r
    using that
  proof (induction n arbitrary: s r)
    case 0
    then show ?case using assms(3) by simp
  next
    case (Suc n)
    obtain fl r' where b: "body s r = (fl, r')" by fastforce
    note q = ensuresD [OF assms(1) [OF Suc.prems(2)] b Suc.prems(1)]
    show ?case using b q Suc.IH by (cases fl) auto
  qed
  then show ?thesis using assms(2) by (simp add: ensures_def rloop_def del: rloop_fuel.simps)
qed

text \<open>A loop whose state is not looked at.\<close>

lemma keeps_rloop:
  assumes "\<And>s. keeps e (body s)"
  shows "keeps e (rloop body s)"
proof (rule ensures_rloop [where S = "\<lambda>_. True"])
  show "ensures e (body s) (flow_ok (\<lambda>_. True) (\<lambda>_. True))" for s
    by (rule ensures_weaken [OF assms]) (simp add: flow_ok_def split: flow.splits)
qed simp_all

section \<open>Elementary parsers\<close>

lemma keeps_byte [typed]: "keeps e reader_byte"
  by (rule ensuresI) (auto simp: reader_byte_def Let_def split: prod.splits)

lemma keeps_bytes [typed]: "keeps e (reader_bytes n)"
  by (induction n) (auto intro!: ensures_rret ensures_rbind [OF keeps_byte] elim: ensures_rbind)

lemma keeps_char [typed]: "keeps e reader_char"
  unfolding reader_char_def
  by (rule keeps_rloop, rule ensuresI)
    (auto simp: char_round_def dest: ensuresD [OF keeps_byte] ensuresD [OF keeps_bytes] split: prod.splits option.splits)

lemma keeps_try_eat [typed]: "keeps e (reader_try_eat c)"
  unfolding reader_try_eat_def by (rule typed | simp)+

lemma ensures_complain [typed]: "R None \<Longrightarrow> ensures e (\<lambda>r. rerror (a r) (b r) rfail r) R"
  by (simp add: ensures_def rerror_def rfail_def)

lemma keeps_eat [typed]: "keeps e (reader_eat c)"
  unfolding reader_eat_def by (rule typed | simp)+

lemma keeps_eat_all [typed]: "keeps e (reader_eat_all s)"
  by (induction s) (simp_all, (rule typed | simp)+)

lemma keeps_try_string [typed]: "keeps e (reader_try_string s)"
  unfolding reader_try_string_def by (rule typed | simp)+

lemma keeps_try_digit [typed]: "keeps e reader_try_digit"
  unfolding reader_try_digit_def by (rule typed | simp)+

lemma keeps_digit [typed]: "keeps e reader_digit"
  unfolding reader_digit_def by (rule typed | simp)+

lemma keeps_digit_seq [typed]: "keeps e (reader_digit_seq n)"
  by (induction n) (simp_all, (rule typed | simp)+)

lemma parse_u32_small: "parse_u32 s = Inr n \<Longrightarrow> n < 2 ^ 32"
  by (auto simp: parse_u32_def split: if_splits)

lemma gives_digits [typed]: "gives e (reader_digits n) (\<lambda>v. v < 2 ^ 32)"
proof -
  have "gives e (reader_spanned (rbind (reader_digit_seq n) (\<lambda>num. rret (parse_u32 num))))
      (\<lambda>s. \<forall>v. sp_value s = Inr v \<longrightarrow> v < 2 ^ 32)"
  proof -
    have "gives e (rbind (reader_digit_seq n) (\<lambda>num. rret (parse_u32 num))) (\<lambda>x. \<forall>v. x = Inr v \<longrightarrow> v < 2 ^ 32)"
      by (rule ensures_rbind [OF keeps_digit_seq], rule ensures_rret) (auto dest: parse_u32_small)
    from ensures_spanned [OF this] show ?thesis by (rule ensures_weaken) (simp add: option.pred_map comp_def)
  qed
  then show ?thesis unfolding reader_digits_def by (rule ensures_rbind) (auto intro!: ensures_unwrap)
qed

lemma well_read_char: "well_read e r \<Longrightarrow> well_read e (snd (reader_char r))"
  using keeps_char by (simp add: ensures_def)

lemma keeps_ident [typed]: "keeps e reader_ident"
proof -
  have "keeps e (rloop ident_round s)" for s
    by (rule keeps_rloop, rule ensuresI) (auto simp: ident_round_def well_read_char split: option.splits if_splits)
  then have "keeps e (rthen reader_char (rloop ident_round [c]))" for c by (rule ensures_rthen [OF keeps_char])
  then show ?thesis
    by (intro ensuresI) (auto simp: reader_ident_def rerror_def rfail_def dest: ensuresD split: option.splits if_splits)
qed

lemma keeps_rest [typed]: "keeps e reader_rest"
proof -
  have "keeps e (rloop rest_round s)" for s
    by (rule keeps_rloop, rule ensuresI)
      (auto simp: rest_round_def dest: ensuresD [OF keeps_char] split: prod.splits option.splits if_splits)
  moreover have "keeps e (rest_finish p v)" for p v
    by (rule ensuresI) (auto simp: rest_finish_def Let_def rwarn_def rret_def split: if_splits)
  ultimately have "keeps e (rbind (rloop rest_round []) (rest_finish p))" for p by (intro ensures_rbind) auto
  then show ?thesis using ensures_look [of e "\<lambda>r. rbind (rloop rest_round []) (rest_finish (rd_pos r))"]
    by (simp add: reader_rest_def [abs_def])
qed

lemma gives_u32 [typed]: "gives e (ty_read u32_type) (\<lambda>v. v < 2 ^ 32)"
proof -
  have "keeps e (rloop u32_round s)" for s
    by (rule keeps_rloop, rule ensuresI)
      (auto simp: u32_round_def dest: ensuresD [OF keeps_try_digit] split: prod.splits option.splits)
  then have "keeps e (reader_spanned (rcase (reader_spanned (reader_try_eat 45))
          (\<lambda>s. rerror (Some (sp_span s))
             (plain_body ''unexpected minus sign, expecting an unsigned integer'') (rloop u32_round []))
          (rthen (reader_try_eat 43) (rloop u32_round []))))"
    by (intro ensures_spanned ensures_rcase [OF ensures_spanned [OF keeps_try_eat]] ensures_rerror ensures_rthen [OF keeps_try_eat])
  then show ?thesis unfolding u32_type_def plain_type_def u32_read_def ics_type.select_convs
    by (rule ensures_rbind) (use parse_u32_small in \<open>auto intro!: ensures_unwrap simp: spanned_map_def split: spanned.splits\<close>)
qed

lemma gives_spanned_type [typed]:
  "ensures e (ty_read T) Q \<Longrightarrow> ensures e (ty_read (spanned_type T)) (\<lambda>v. Q (map_option sp_value v))"
  by (simp add: spanned_type_def plain_type_def ensures_spanned)

lemma gives_vec [typed]:
  assumes "gives e (ty_read T) P"
  shows "gives e (ty_read (vec_type T)) (list_all P)"
proof -
  have "gives e (rloop (vec_round T) []) (list_all P)"
  proof (rule ensures_rloop [where S = "list_all P"])
    fix s assume s: "list_all P s"
    show "ensures e (vec_round T s) (flow_ok (list_all P) (pred_option (list_all P)))"
    proof (rule ensuresI)
      fix r fl r' assume r: "well_read e r" and run: "vec_round T s r = (fl, r')"
      obtain v r1 where v: "reader_any T r = (v, r1)" by fastforce
      obtain c r2 where c: "reader_try_eat 44 r1 = (c, r2)" by fastforce
      note q = ensuresD [OF ensures_any [OF assms] v r]
      have "well_read e r2" by (rule ensuresD(1) [OF keeps_try_eat c q(1)])
      moreover have "list_all P (case v of Some a \<Rightarrow> s @ [a] | None \<Rightarrow> s)" using s q(2) by (cases v) auto
      ultimately show "well_read e r' \<and> flow_ok (list_all P) (pred_option (list_all P)) fl"
        using run v c by (cases c) (auto simp: vec_round_def)
    qed
  qed simp_all
  then show ?thesis by (simp add: vec_type_def plain_type_def vec_read_def ensures_hint)
qed

lemma keeps_char_type [typed]: "keeps e (ty_read char_type)"
  by (simp add: char_type_def plain_type_def keeps_char)

section \<open>Texts and parameter values\<close>

lemma keeps_text [typed]: "keeps e text_read" "keeps e (ty_read text_type)"
proof -
  have sp: "keeps e (reader_any (spanned_type char_type))"
    using ensures_any [OF gives_spanned_type [OF keeps_char_type]] .
  have esc: "well_read e r'" if "text_escape t c r = (fl, r')" "well_read e r" for t c r fl r'
    using that by (auto simp: text_escape_def split: if_splits)
  have "keeps e (rloop text_round s)" for s
  proof (rule keeps_rloop, rule ensuresI)
    fix s r fl r' assume r: "well_read e r" and run: "text_round s r = (fl, r')"
    obtain c r1 where c: "reader_char r = (c, r1)" by fastforce
    obtain d r2 where d: "reader_any (spanned_type char_type) r1 = (d, r2)" by fastforce
    have r1: "well_read e r1" by (rule ensuresD(1) [OF keeps_char c r])
    have "well_read e r2" by (rule ensuresD(1) [OF sp d r1])
    then show "well_read e r' \<and> True" using run c d r1
      by (auto simp: text_round_def dest: esc split: option.splits if_splits)
  qed
  then show "keeps e text_read" unfolding text_read_def by (rule ensures_rbind) (auto intro: ensures_rret)
  then show "keeps e (ty_read text_type)" by (simp add: text_type_def plain_type_def)
qed

lemma keeps_param_value [typed]: "keeps e param_value_read" "keeps e (ty_read param_value_type)"
proof -
  have push: "well_read e r \<Longrightarrow> pv_push st q r = (fl, r') \<Longrightarrow> well_read e r'" for st q r fl r'
    by (auto simp: pv_push_def dest: ensuresD [OF keeps_char] split: prod.splits option.splits)
  have esc: "well_read e r \<Longrightarrow> pv_escape st q r = (fl, r') \<Longrightarrow> well_read e r'" for st q r fl r'
    by (auto simp: pv_escape_def Let_def well_read_char dest: ensuresD [OF keeps_char _ well_read_char]
        split: prod.splits option.splits if_splits)
  have "keeps e (pv_round st)" for st
    by (rule ensuresI)
      (auto simp: pv_round_def Let_def well_read_char dest: push [rotated] esc [rotated] ensuresD [OF keeps_try_string]
        split: prod.splits option.splits if_splits pv_mode.splits)
  then have "keeps e (rloop pv_round s)" for s by (rule keeps_rloop)
  then show "keeps e param_value_read"
    unfolding param_value_read_def by (intro ensures_rcase [OF ensures_spanned [OF keeps_try_eat]])
  then show "keeps e (ty_read param_value_type)" by (simp add: param_value_type_def plain_type_def)
qed

section \<open>Entries\<close>

lemma keeps_newline [typed]: "keeps e entry_newline"
  by (rule ensuresI) (auto simp: entry_newline_def)

lemma keeps_entry [typed]: "keeps e reader_entry"
proof -
  have "keeps e (entry_named n)" for n unfolding entry_named_def by (rule typed | simp)+
  note named = this
  have "keeps e entry_inline" unfolding entry_inline_def by (rule typed named | simp)+
  moreover have "keeps e (rthen reader_char entry_newline)" by (rule typed)+
  ultimately show ?thesis
    by (intro ensuresI) (auto simp: reader_entry_def dest: ensuresD split: option.splits if_splits)
qed

lemma well_read_unknown: "well_read e r \<Longrightarrow> well_read e (unknown_note w n r)"
  by (simp add: unknown_note_def)

lemma keeps_burn [typed]: "keeps e (entry_burn entry kind)"
proof (cases entry)
  case (EComp n)
  have "keeps e (rloop (skip_comp_round m) ())" for m
    by (rule keeps_rloop, rule ensuresI)
      (auto simp: skip_comp_round_def dest: ensuresD [OF keeps_entry] split: prod.splits option.splits read_entry.splits if_splits)
  note skip = this
  show ?thesis unfolding EComp entry_burn_def read_entry.case by (rule typed skip | simp)+
next
  case (EProp n)
  have "keeps e (rthen (reader_silently reader_rest) (rret ()))" by (rule typed | simp)+
  then show ?thesis using well_read_unknown by (fastforce simp: EProp entry_burn_def ensures_def)
next
  case (EParam n)
  have "keeps e (rloop skip_param_round ())"
    by (rule keeps_rloop, rule ensuresI)
      (auto simp: skip_param_round_def well_read_char dest: ensuresD [OF keeps_param_value(1)] split: option.splits if_splits prod.splits,
       metis ensuresD(1) keeps_param_value(1) prod.collapse)
  then have "keeps e (rthen (reader_silently (rloop skip_param_round ())) (rret ()))"
    by (intro ensures_rthen ensures_silently) (auto intro: ensures_rret)
  then show ?thesis using well_read_unknown by (fastforce simp: EParam entry_burn_def ensures_def)
next
  case EValue
  have "keeps e (rthen (reader_silently reader_rest) (rret ()))" by (rule typed | simp)+
  then show ?thesis by (simp add: EValue entry_burn_def ensures_def rerror_def)
next
  case (ENewline sp)
  then show ?thesis by (cases kind) (auto simp: entry_burn_def intro!: ensures_rwarn ensures_rerror ensures_rret ensures_rfail)
qed (auto simp: entry_burn_def intro!: ensures_rerror ensures_rret)

lemma keeps_burn_params [typed]: "keeps e burn_params"
proof -
  have p: "keeps e (reader_attempt (rbind reader_entry (\<lambda>entry. case entry of EParam name \<Rightarrow> rret (EParam name) | _ \<Rightarrow> rfail)))"
    by (rule ensures_attempt [OF ensures_rbind [OF keeps_entry]]) (auto intro: ensures_rret ensures_rfail split: read_entry.splits)
  have "keeps e (rloop burn_params_round ())"
    by (rule keeps_rloop, rule ensuresI)
      (auto simp: burn_params_round_def dest!: ensuresD(1) [OF p] ensuresD(1) [OF keeps_burn] split: prod.splits option.splits)
  then show ?thesis unfolding burn_params_def by (rule ensures_rbind) (auto intro: keeps_eat)
qed

text \<open>An offer that is taken keeps what is known of the fields.\<close>

definition offer_ok :: "ics_env \<Rightarrow> ('s \<Rightarrow> bool) \<Rightarrow> (read_entry \<Rightarrow> 's \<Rightarrow> ics_reader \<Rightarrow> ('s \<times> ics_reader) option) \<Rightarrow> bool" where
  "offer_ok e S offer = (\<forall>entry s r s' r'. S s \<longrightarrow> well_read e r \<longrightarrow> offer entry s r = Some (s', r') \<longrightarrow> S s' \<and> well_read e r')"

lemma gives_entries [typed]:
  assumes "offer_ok e S offer" and "S s"
  shows "gives e (read_entries kind stop offer s) S"
  unfolding read_entries_def
proof (rule ensures_rloop [where S = S])
  fix s assume s: "S s"
  show "ensures e (entries_round kind stop offer s) (flow_ok S (pred_option S))"
  proof (rule ensuresI)
    fix r fl r' assume r: "well_read e r" and run: "entries_round kind stop offer s r = (fl, r')"
    obtain a r1 where a: "reader_entry r = (a, r1)" by fastforce
    have r1: "well_read e r1" by (rule ensuresD(1) [OF keeps_entry a r])
    have b: "well_read e r2" if "entry_burn en kind r1 = (b, r2)" for en b r2
      by (rule ensuresD(1) [OF keeps_burn that r1])
    have o: "S s2 \<and> well_read e r2" if "offer en s r1 = Some (s2, r2)" for en s2 r2
      using assms(1) s r1 that unfolding offer_ok_def by blast
    show "well_read e r' \<and> flow_ok S (pred_option S) fl"
      using run a r1 s b o by (auto simp: entries_round_def split: option.splits if_splits prod.splits)
  qed
qed (use assms(2) in simp_all)

lemma well_read_dup: "well_read e r \<Longrightarrow> well_read e (dup_check w n t v r)"
  by (simp add: dup_check_def)

lemma gives_prop_value:
  assumes "gives e (ty_read T) P" and "pred_option P (ty_default T)"
  shows "gives e (prop_value T) P"
  unfolding prop_value_def
proof (rule ensures_rcase [OF ensures_any [OF assms(1)]])
  show "gives e (rthen (reader_try_eat 10) (rret v)) P" if "pred_option P (Some v)" for v
    using that by (intro ensures_rthen [OF keeps_try_eat] ensures_rret)
  have "keeps e (reader_silently reader_rest)" by (rule typed)+
  then show "gives e (\<lambda>r. (ty_default T, if p_char (rd_pos r) > 1 then snd (reader_silently reader_rest r) else r)) P"
    using assms(2) by (auto simp: ensures_def)
qed

lemma gives_param_field:
  assumes "gives e (ty_read T) P" and "pred_option P (ty_default T)"
  shows "gives e (param_field T) P"
  unfolding param_field_def
  by (rule ensures_rcase [OF ensures_any [OF assms(1)]]) (use assms(2) in \<open>auto simp: ensures_def rret_def\<close>)

lemma try_typed:
  assumes "gives e (ty_read T) P" and "well_read e r"
  shows "try_comp T entry name v r = Some (x, r') \<Longrightarrow> pred_option P x \<and> well_read e r'"
    and "pred_option P (ty_default T) \<Longrightarrow> try_prop T entry name v r = Some (x, r') \<Longrightarrow> pred_option P x \<and> well_read e r'"
    and "pred_option P (ty_default T) \<Longrightarrow> try_param T entry name v r = Some (x, r') \<Longrightarrow> pred_option P x \<and> well_read e r'"
  using ensuresD [OF ensures_any [OF assms(1)] _ well_read_dup [OF assms(2)]]
    ensuresD [OF gives_prop_value [OF assms(1)] _ well_read_dup [OF assms(2)]]
    ensuresD [OF gives_param_field [OF assms(1)] _ well_read_dup [OF assms(2)]]
  by (auto simp: try_comp_def try_prop_def try_param_def split: read_entry.splits if_splits)

lemma try_list_typed:
  assumes "gives e (ty_read T) P" and "well_read e r" and "list_all P vs"
  shows "try_comps T entry name vs r = Some (xs, r') \<Longrightarrow> list_all P xs \<and> well_read e r'"
    and "pred_option P (ty_default T) \<Longrightarrow> try_props T entry name vs r = Some (xs, r') \<Longrightarrow> list_all P xs \<and> well_read e r'"
  using try_typed(1,2) [OF assms(1,2)] assms(3)
  by (fastforce simp: try_comps_def try_props_def push_opt_def split: prod.splits option.splits)+

end
