(* ===== verification/Ics_Typed_Values.thy ===== *)
theory Ics_Typed_Values
  imports Ics_Typed
begin

text \<open>
  Ranges of the values that are read, for an arbitrary source: the units of dates and times, dates
  that exist, offsets below a day, amounts that fit their width, recurrence rules, the properties
  and parameters made of them.
\<close>

section \<open>Units, times and dates\<close>

lemma gives_check:
  assumes "\<And>n x. new n = Inr x \<Longrightarrow> P x"
  shows "gives e (unit_check new s) P"
  unfolding unit_check_def
proof (rule ensures_unwrap)
  fix v assume "sp_value (spanned_map (\<lambda>n. map_sum unit_viol_body id (new n)) s) = Inr v"
  then have "new (sp_value s) = Inr v" by (cases s; cases "new (sp_value s)") (auto simp: spanned_map_def)
  then show "pred_option P (Some v)" using assms by simp
qed simp

lemma gives_unit:
  assumes "\<And>n x. new n = Inr x \<Longrightarrow> P x"
  shows "gives e (unit_read new) P"
  unfolding unit_read_def unit_check_def [symmetric]
  by (rule ensures_rbind [OF ensures_any [OF gives_spanned_type [OF gives_u32]]], rule gives_check) (use assms in auto)

lemma unit_ranges:
  "year_new n = Inr y \<Longrightarrow> year_num y \<le> 9999" "month_new n = Inr mo \<Longrightarrow> 1 \<le> month_num mo \<and> month_num mo \<le> 12"
  "day_new n = Inr d \<Longrightarrow> 1 \<le> day_num d \<and> day_num d \<le> 31" "hour_new n = Inr h \<Longrightarrow> hour_num h \<le> 23"
  "minute_new n = Inr m \<Longrightarrow> minute_num m \<le> 59" "second_new n = Inr s \<Longrightarrow> second_num s \<le> 60"
  "day_ordinal_new n = Inr o1 \<Longrightarrow> 1 \<le> day_ordinal_num o1 \<and> day_ordinal_num o1 \<le> 366"
  "week_ordinal_new n = Inr w \<Longrightarrow> 1 \<le> week_ordinal_num w \<and> week_ordinal_num w \<le> 53"
  by (auto simp: year_new_def month_new_def day_new_def hour_new_def minute_new_def second_new_def day_ordinal_new_def
      week_ordinal_new_def split: if_splits)

lemma gives_units [typed]:
  "gives e (ty_read month_type) (\<lambda>x. 1 \<le> month_num x \<and> month_num x \<le> 12)"
  "gives e (ty_read day_type) (\<lambda>x. 1 \<le> day_num x \<and> day_num x \<le> 31)"
  "gives e (ty_read hour_type) (\<lambda>x. hour_num x \<le> 23)"
  "gives e (ty_read minute_type) (\<lambda>x. minute_num x \<le> 59)"
  "gives e (ty_read second_type) (\<lambda>x. second_num x \<le> 60)"
  "gives e (ty_read day_ordinal_type) (\<lambda>x. 1 \<le> day_ordinal_num x \<and> day_ordinal_num x \<le> 366)"
  "gives e (ty_read week_ordinal_type) (\<lambda>x. 1 \<le> week_ordinal_num x \<and> week_ordinal_num x \<le> 53)"
  unfolding month_type_def day_type_def hour_type_def minute_type_def second_type_def day_ordinal_type_def week_ordinal_type_def
    plain_type_def ics_type.select_convs
  using unit_ranges by (auto intro!: gives_unit)

lemma keeps_sign [typed]: "keeps e (ty_read sign_type)"
  unfolding sign_type_def plain_type_def sign_read_def ics_type.select_convs by (rule typed | simp)+

lemma gives_signed [typed]:
  assumes "gives e (ty_read T) P"
  shows "gives e (ty_read (signed_type T)) (\<lambda>x. P (sg_value x))"
  unfolding signed_type_def plain_type_def signed_read_def ics_type.select_convs
  by (rule typed assms | simp)+

lemma keeps_weekday [typed]: "keeps e (ty_read weekday_type)"
  unfolding weekday_type_def plain_type_def weekday_read_def ics_type.select_convs by (rule typed | simp)+

lemma gives_checks:
  "gives e (unit_check year_new s) (\<lambda>x. year_num x \<le> 9999)"
  "gives e (unit_check month_new s) (\<lambda>x. 1 \<le> month_num x \<and> month_num x \<le> 12)"
  "gives e (unit_check day_new s) (\<lambda>x. 1 \<le> day_num x \<and> day_num x \<le> 31)"
  "gives e (unit_check hour_new s) (\<lambda>x. hour_num x \<le> 23)"
  "gives e (unit_check minute_new s) (\<lambda>x. minute_num x \<le> 59)"
  "gives e (unit_check second_new s) (\<lambda>x. second_num x \<le> 60)"
  by (rule gives_check, erule unit_ranges)+

lemma gives_time [typed]: "gives e (ty_read time_type) time_ok"
  unfolding time_type_def plain_type_def time_read_def ics_type.select_convs
  by (intro ensures_rbind [OF ensures_spanned [OF gives_digits]] ensures_rbind [OF gives_checks(4)]
      ensures_rbind [OF gives_checks(5)] ensures_rbind [OF gives_checks(6)] ensures_rret) (auto simp: time_ok_def)

lemma gives_date_parts:
  "gives e date_parts (\<lambda>x. \<forall>d. x = Inr d \<longrightarrow> date_ok e d)"
proof -
  have last: "gives e (\<lambda>r. (Some (map_sum dt_viol_body id (date_new (rd_env r) y m d)), r)) (\<lambda>x. \<forall>d. x = Inr d \<longrightarrow> date_ok e d)"
    if "year_num y \<le> 9999" "1 \<le> month_num m \<and> month_num m \<le> 12" "1 \<le> day_num d \<and> day_num d \<le> 31" for y m d
    using that by (auto simp: ensures_def well_read_def date_new_def date_ok_def)
  show ?thesis unfolding date_parts_def
    by (intro ensures_rbind [OF ensures_spanned [OF gives_digits]] ensures_rbind [OF gives_checks(1)]
        ensures_rbind [OF gives_checks(2)] ensures_rbind [OF gives_checks(3)] last) auto
qed

lemma gives_date [typed]: "gives e (ty_read date_type) (date_ok e)"
  unfolding date_type_def plain_type_def date_read_def ics_type.select_convs
  by (rule ensures_rbind [OF ensures_spanned [OF gives_date_parts]]) (auto intro!: ensures_unwrap)

lemma gives_date_t_time [typed]: "gives e date_t_time (\<lambda>(d, t). date_ok e d \<and> time_ok t)"
  unfolding date_t_time_def by (rule typed | simp)+

lemma gives_dt_ul [typed]: "gives e (ty_read dt_ul_type) (dt_ok e)"
  unfolding dt_ul_type_def plain_type_def dt_ul_read_def ics_type.select_convs
  by (rule ensures_rbind [OF gives_date_t_time] ensures_case_prod ensures_rcase [OF keeps_try_eat] ensures_rret | simp add: dt_ok_def)+

lemma ensures_warn_here: "ensures e k R \<Longrightarrow> ensures e (\<lambda>r. rwarn (a r) body k r) R"
  by (simp add: ensures_def rwarn_def)

lemma gives_dt_utc [typed]: "gives e (ty_read dt_utc_type) (dt_ok e)"
  unfolding dt_utc_type_def plain_type_def dt_utc_read_def ics_type.select_convs
  by (rule ensures_rbind [OF gives_date_t_time] ensures_case_prod ensures_rcase [OF keeps_try_eat] ensures_rret ensures_warn_here
      | simp add: dt_ok_def)+

lemma gives_until [typed]: "gives e (ty_read dod_value_type) (until_ok e)"
  unfolding dod_value_type_def plain_type_def dod_value_read_def ics_type.select_convs
  by (rule typed | simp add: until_ok_def)+

lemma keeps_tz_id [typed]: "keeps e (ty_read tz_id_type)" "keeps e (ty_read tz_id_prop_type)"
  unfolding tz_id_type_def tz_id_prop_type_def plain_type_def tz_id_read_def tz_id_read_prop_def ics_type.select_convs
  by (rule typed | simp)+

lemma keeps_value_type [typed]: "keeps e (ty_read dt_value_type_type)"
  unfolding dt_value_type_type_def plain_type_def dt_value_type_read_def ics_type.select_convs by (rule typed | simp)+

text \<open>Offers of fields about which nothing is known.\<close>

lemma keeps_gives: "keeps e p \<Longrightarrow> gives e p (\<lambda>_. True)"
  by (rule ensures_weaken) (auto simp: pred_option_def)

lemma try_keeps:
  assumes "keeps e (ty_read T)" and "well_read e r"
  shows "try_comp T entry name v r = Some (x, r') \<Longrightarrow> well_read e r'"
    and "try_prop T entry name v r = Some (x, r') \<Longrightarrow> well_read e r'"
    and "try_param T entry name v r = Some (x, r') \<Longrightarrow> well_read e r'"
  using try_typed [OF keeps_gives [OF assms(1)] assms(2)] by (auto simp: pred_option_def)

lemma offer_toE:
  assumes "offer_to upd x alt = Some (s, r)"
  obtains v where "x = Some (v, r)" and "s = upd v" | "alt = Some (s, r)"
  using assms by (auto simp: offer_to_def split: option.splits)

lemma gives_dt_any [typed]: "gives e (ty_read dt_any_type) (dt_ok e)"
proof -
  have o: "offer_ok e (\<lambda>_. True) dt_any_offer"
    unfolding offer_ok_def dt_any_offer_def by (auto elim!: offer_toE dest: try_keeps(3) [OF keeps_tz_id(1)])
  show ?thesis unfolding dt_any_type_def plain_type_def dt_any_read_def ics_type.select_convs
    by (rule ensures_rbind [OF gives_entries [OF o]] ensures_rbind [OF gives_date_t_time] ensures_case_prod
        ensures_rcase [OF keeps_try_eat] ensures_rret | simp add: dt_ok_def)+
qed

lemma gives_dod [typed]: "gives e (ty_read dod_type) (until_ok e)"
proof -
  have o: "offer_ok e (\<lambda>_. True) dod_offer"
    unfolding offer_ok_def dod_offer_def
    by (auto elim!: offer_toE dest: try_keeps(3) [OF keeps_tz_id(1)] try_keeps(3) [OF keeps_value_type])
  have date: "gives e dod_read_date (until_ok e)"
    unfolding dod_read_date_def
    by (rule ensures_rbind [OF ensures_any [OF gives_date]] ensures_rcase [OF ensures_spanned [OF keeps_try_string]]
        ensures_rcase [OF ensures_spanned [OF keeps_try_eat]] ensures_rwarn ensures_rerror ensures_rret
        ensures_rthen [OF ensures_silently [OF ensures_any [OF gives_time]]] | simp add: until_ok_def)+
  have dt: "gives e (dod_read_dt z) (until_ok e)" for z
    unfolding dod_read_dt_def
    by (cases z, simp_all)
      (rule ensures_rbind [OF gives_date_t_time] ensures_case_prod ensures_rbind [OF ensures_any [OF gives_dt_ul]]
        ensures_rcase [OF ensures_spanned [OF keeps_try_eat]] ensures_rerror ensures_rret
        | simp add: until_ok_def dt_ok_def dt_map_form_def)+
  have "gives e (case v of VtDate \<Rightarrow> dod_read_date | VtDateTime \<Rightarrow> dod_read_dt z) (until_ok e)" for v z
    using date dt by (cases v) auto
  then show ?thesis unfolding dod_type_def plain_type_def dod_read_def ics_type.select_convs
    by (intro ensures_rbind [OF gives_entries [OF o]]) simp_all
qed

section \<open>Offsets, durations, recurrence rules\<close>

lemma offset_new_ok: "utc_offset_new s h m sec = Inr u \<Longrightarrow> offset_ok u"
  by (auto simp: utc_offset_new_def offset_ok_def Let_def split: if_splits sign.splits)

lemma gives_offset [typed]: "gives e (ty_read utc_offset_type) offset_ok"
proof -
  have "map_sum offset_viol_body id (utc_offset_new s h m sec) = Inr u \<Longrightarrow> offset_ok u" for s h m sec u
    using offset_new_ok by (cases "utc_offset_new s h m sec") auto
  then have "gives e (rbind (reader_any sign_type) (\<lambda>s.
      rbind (reader_digits 2) (\<lambda>h.
      rbind (reader_digits 2) (\<lambda>m.
      rcase (reader_attempt (reader_digits 2))
        (\<lambda>sec. rret (map_sum offset_viol_body id (utc_offset_new s h m sec)))
        (rret (map_sum offset_viol_body id (utc_offset_new s h m 0))))))) (\<lambda>x. \<forall>u. x = Inr u \<longrightarrow> offset_ok u)"
    by (intro ensures_rbind [OF ensures_any [OF keeps_sign]] ensures_rbind [OF gives_digits]
        ensures_rcase [OF ensures_attempt [OF gives_digits]] ensures_rret) auto
  then show ?thesis unfolding utc_offset_type_def plain_type_def utc_offset_read_def ics_type.select_convs
    by (rule ensures_rbind [OF ensures_spanned]) (auto intro!: ensures_unwrap)
qed

definition amount_state_ok :: "amount_state \<Rightarrow> bool" where
  "amount_state_ok s = (as_weeks s < 2 ^ 32 \<and> as_days s < 2 ^ 32 \<and> as_hours s < 2 ^ 32 \<and> as_minutes s < 2 ^ 32
     \<and> as_seconds s < 2 ^ 32)"

lemma gives_amount_part:
  assumes "amount_state_ok s"
  shows "gives e (amount_part s) amount_state_ok"
proof -
  have u: "amount_state_ok s'" if "amount_unit s n c = Some s'" "n < 2 ^ 32" for n c s'
    using that assms by (auto simp: amount_unit_def amount_state_ok_def split: if_splits)
  show ?thesis unfolding amount_part_def
    by (intro ensures_rbind [OF ensures_any [OF gives_u32]] ensures_rbind [OF ensures_any [OF gives_spanned_type [OF keeps_char_type]]])
      (use assms u in \<open>auto intro!: ensures_case_option ensures_rret ensures_rerror\<close>)
qed

lemma well_read_conflicts: "well_read e r \<Longrightarrow> well_read e (week_conflicts s r)"
  by (simp add: week_conflicts_def)

lemma gives_duration [typed]: "gives e (ty_read duration_type) (\<lambda>d. amount_small (du_amount d))"
  "gives e (ty_read duration_prop_type) (\<lambda>d. amount_small (du_amount d))"
proof -
  have round: "ensures e (amount_round s) (flow_ok amount_state_ok (pred_option amount_state_ok))" if s: "amount_state_ok s" for s
  proof (rule ensuresI)
    fix r fl r' assume r: "well_read e r" and run: "amount_round s r = (fl, r')"
    obtain t r1 where t: "reader_try_eat 84 r = (t, r1)" by fastforce
    let ?s = "if t \<noteq> None then s\<lparr>as_time := True\<rparr> else s"
    obtain v r2 where v: "amount_part ?s r1 = (v, r2)" by fastforce
    have "amount_state_ok ?s" using s by (simp add: amount_state_ok_def)
    then have p: "gives e (amount_part ?s) amount_state_ok" by (rule gives_amount_part)
    have "well_read e r1" by (rule ensuresD(1) [OF keeps_try_eat t r])
    then have "well_read e r2" "pred_option amount_state_ok v" using ensuresD [OF p v] by auto
    then show "well_read e r' \<and> flow_ok amount_state_ok (pred_option amount_state_ok) fl"
      using run t v r s by (cases v) (auto simp: amount_round_def Let_def split: if_splits)
  qed
  have start: "amount_state_ok amount_start" by (simp add: amount_state_ok_def amount_start_def)
  have result: "gives e (amount_result s) amount_small" if "amount_state_ok s" for s
    using that by (auto simp: ensures_def amount_result_def Let_def well_read_conflicts amount_small_def amount_state_ok_def time_small_def)
  have "gives e amount_read amount_small" unfolding amount_read_def
    by (intro ensures_rbind [OF keeps_eat] ensures_rbind [OF ensures_rloop [where Q = "pred_option amount_state_ok", OF round start]])
      (use result in auto)
  then have a: "gives e (ty_read amount_type) amount_small" by (simp add: amount_type_def plain_type_def)
  show d: "gives e (ty_read duration_type) (\<lambda>d. amount_small (du_amount d))"
    unfolding duration_type_def plain_type_def duration_read_def ics_type.select_convs
    by (intro ensures_rbind [OF ensures_any [OF keeps_sign]] ensures_rbind [OF ensures_any [OF a]] ensures_rret) auto
  show "gives e (ty_read duration_prop_type) (\<lambda>d. amount_small (du_amount d))"
    unfolding duration_prop_type_def plain_type_def duration_read_prop_def ics_type.select_convs
    by (intro ensures_rbind [OF keeps_burn_params] ensures_any d) simp
qed


lemma keeps_freq [typed]: "keeps e (ty_read freq_type)"
  unfolding freq_type_def plain_type_def freq_read_def ics_type.select_convs by (rule typed | simp)+

lemma gives_by_day [typed]: "gives e (ty_read by_day_type) by_day_ok"
proof -
  have fixed: "gives e by_day_fixed by_day_ok" unfolding by_day_fixed_def
    by (intro ensures_rbind [OF ensures_any [OF keeps_sign]] ensures_if ensures_rerror ensures_rfail
        ensures_rbind [OF ensures_spanned [OF gives_u32 [unfolded u32_type_def plain_type_def ics_type.select_convs]]]
        ensures_rbind [OF ensures_any [OF keeps_weekday]] ensures_rret)
      (auto simp: by_day_ok_def split: sign.splits)
  have "gives e (rbind (reader_any weekday_type) (\<lambda>d. rret (Every d))) by_day_ok"
    by (intro ensures_rbind [OF ensures_any [OF keeps_weekday]] ensures_rret) (simp_all add: by_day_ok_def)
  then have "gives e by_day_read by_day_ok"
    using fixed by (auto simp: ensures_def by_day_read_def split: option.splits)
  then show ?thesis by (simp add: by_day_type_def plain_type_def)
qed

lemma well_read_recover: "well_read e r \<Longrightarrow> well_read e (recover r)"
proof -
  have "keeps e (rloop recover_round ())"
    by (rule keeps_rloop, rule ensuresI) (auto simp: recover_round_def well_read_char split: if_splits)
  then show "well_read e r \<Longrightarrow> well_read e (recover r)" by (auto simp: ensures_def recover_def)
qed

lemma ensures_part_opt: "gives e (ty_read T) P \<Longrightarrow> ensures e (part_opt T) (pred_option P)"
  by (drule ensures_any, rule ensuresI)
    (auto simp: part_opt_def well_read_recover dest: ensuresD split: prod.splits option.splits)

lemma ensures_part_vec: "gives e (ty_read T) P \<Longrightarrow> ensures e (part_vec T) (list_all P)"
  by (drule gives_vec, drule ensures_any, rule ensuresI)
    (auto simp: part_vec_def well_read_recover dest: ensuresD split: prod.splits option.splits)

text \<open>The parts read so far, as the rule they would make.\<close>

definition acc_recur :: "recur_acc \<Rightarrow> recur" where
  "acc_recur s = \<lparr>rc_freq = Daily, rc_until = ra_until s, rc_count = ra_count s, rc_interval = ra_interval s,
       rc_by_second = ra_by_second s, rc_by_minute = ra_by_minute s, rc_by_hour = ra_by_hour s,
       rc_by_day = ra_by_day s, rc_by_month_day = ra_by_month_day s, rc_by_year_day = ra_by_year_day s,
       rc_by_week_no = ra_by_week_no s, rc_by_month = ra_by_month s, rc_by_set_pos = ra_by_set_pos s,
       rc_wkst = ra_wkst s\<rparr>"

lemma ensures_upd:
  assumes "ensures e p Q" and "\<And>v. Q v \<Longrightarrow> R (f v)"
  shows "ensures e (\<lambda>r. upd_with f (p r)) R"
  using assms by (auto simp: ensures_def upd_with_def split: prod.splits)

lemma gives_signed_ok:
  "gives e (ty_read (signed_type day_type)) (signed_ok day_num 31)"
  "gives e (ty_read (signed_type day_ordinal_type)) (signed_ok day_ordinal_num 366)"
  "gives e (ty_read (signed_type week_ordinal_type)) (signed_ok week_ordinal_num 53)"
  using gives_signed [OF gives_units(2)] gives_signed [OF gives_units(6)] gives_signed [OF gives_units(7)]
  by (simp_all add: signed_ok_def [abs_def])

lemma case_pred: "(case v of None \<Rightarrow> True | Some x \<Rightarrow> P x) = pred_option P v"
  by (cases v) simp_all

lemma ensures_recur_field:
  assumes "recur_ok e (acc_recur s)"
  shows "ensures e (recur_field name s) (\<lambda>s'. recur_ok e (acc_recur s'))"
proof -
  note parts = gives_units(1) [THEN ensures_part_vec] gives_units(3-5) [THEN ensures_part_vec]
    gives_by_day [THEN ensures_part_vec] gives_signed_ok [THEN ensures_part_vec]
    keeps_gives [OF keeps_freq, THEN ensures_part_opt] keeps_gives [OF keeps_weekday, THEN ensures_part_opt]
    gives_u32 [THEN ensures_part_opt] gives_until [THEN ensures_part_opt]
  have unknown: "ensures e (\<lambda>r. (s, recover (reader_error a b r))) (\<lambda>s'. recur_ok e (acc_recur s'))" for a b
    using assms by (simp add: ensures_def well_read_recover)
  show ?thesis
  proof (cases "match_name recur_keys (sp_value name)")
    case None
    then show ?thesis using unknown by (simp add: recur_field_def [abs_def])
  next
    case (Some k)
    then show ?thesis unfolding recur_field_def [abs_def]
      using assms by (cases k; simp) (rule ensures_upd, rule parts, simp add: recur_ok_def acc_recur_def case_pred)+
  qed
qed

lemma gives_recur [typed]: "gives e (ty_read recur_type) (recur_ok e)"
proof -
  let ?S = "\<lambda>s. recur_ok e (acc_recur s)"
  have head: "keeps e (rbind (reader_spanned reader_ident) (\<lambda>name. rbind (reader_eat 61) (\<lambda>_. rret name)))"
    by (rule typed | simp)+
  have round: "ensures e (recur_round s) (flow_ok ?S (pred_option ?S))" if s: "?S s" for s
  proof (rule ensuresI)
    fix r fl r' assume r: "well_read e r" and run: "recur_round s r = (fl, r')"
    obtain n r1 where n: "rbind (reader_spanned reader_ident) (\<lambda>name. rbind (reader_eat 61) (\<lambda>_. rret name)) r = (n, r1)" by fastforce
    have r1: "well_read e r1" by (rule ensuresD(1) [OF head n r])
    show "well_read e r' \<and> flow_ok ?S (pred_option ?S) fl"
    proof (cases n)
      case None
      then show ?thesis using run n r1 by (auto simp: recur_round_def)
    next
      case (Some name)
      obtain s1 r2 where f: "recur_field name s r1 = (s1, r2)" by fastforce
      obtain t r3 where t: "reader_try_eat 59 r2 = (t, r3)" by fastforce
      note q = ensuresD [OF ensures_recur_field [OF s] f r1]
      have "well_read e r3" by (rule ensuresD(1) [OF keeps_try_eat t q(1)])
      then show ?thesis using run n Some f t q(2) by (cases t) (auto simp: recur_round_def)
    qed
  qed
  have start: "?S recur_acc_empty" by (simp add: recur_ok_def acc_recur_def recur_acc_empty_def)
  have finish: "gives e (recur_finish pos s) (recur_ok e)" if "?S s" for pos s
    using that unfolding recur_finish_def
    by (intro ensures_case_option ensures_rerror ensures_rfail ensures_rret) (simp_all add: recur_ok_def acc_recur_def)
  have loop: "gives e (rloop recur_round recur_acc_empty) ?S" by (rule ensures_rloop [where S = ?S]) (use round start in simp_all)
  have "gives e (rbind (rloop recur_round recur_acc_empty) (recur_finish pos)) (recur_ok e)" for pos
    by (rule ensures_rbind [OF loop]) (use finish in simp_all)
  then have "gives e recur_read (recur_ok e)"
    using ensures_look [of e "\<lambda>r. rbind (rloop recur_round recur_acc_empty) (recur_finish (rd_pos r))"]
    by (simp add: recur_read_def [abs_def])
  then show ?thesis by (simp add: recur_type_def plain_type_def)
qed

end
