(* ===== verification/Ics_Typed_Objects.thy ===== *)
theory Ics_Typed_Objects
  imports Ics_Typed_Values
begin

text \<open>
  Ranges of the properties, alarms, time zones, events and calendars that are read, for an
  arbitrary source: \<open>vcalendar_typed\<close> holds of every calendar the reader returns, and the reader
  never collects more messages than its limit.
\<close>

section \<open>What a calendar that was read satisfies\<close>

definition trigger_typed :: "ics_env \<Rightarrow> trigger \<Rightarrow> bool" where
  "trigger_typed e t = (case t of TrigAbsolute x \<Rightarrow> dt_ok e x | TrigRelative _ d \<Rightarrow> amount_small (du_amount d))"

definition ex_date_typed :: "ics_env \<Rightarrow> ex_date \<Rightarrow> bool" where
  "ex_date_typed e x = (case x of ExDates ds \<Rightarrow> list_all (date_ok e) ds
     | ExDateTimes _ ds \<Rightarrow> list_all (\<lambda>(d, t). date_ok e d \<and> time_ok t) ds)"

definition repeat_typed :: "duration_repeat \<Rightarrow> bool" where
  "repeat_typed d = (amount_small (du_amount (dr_duration d)) \<and> repeat_value (dr_repeat d) < 2 ^ 32)"

definition valarm_typed :: "ics_env \<Rightarrow> valarm \<Rightarrow> bool" where
  "valarm_typed e a = (trigger_typed e (valarm_trigger a)
     \<and> pred_option repeat_typed (case a of AlarmDisplay x \<Rightarrow> da_repeat x | AlarmEmail x \<Rightarrow> ea_repeat x))"

definition tz_props_typed :: "ics_env \<Rightarrow> tz_props \<Rightarrow> bool" where
  "tz_props_typed e p = (until_ok e (dt_start_value (tp_dtstart p)) \<and> offset_ok (tz_offset_from_value (tp_offset_from p))
     \<and> offset_ok (tz_offset_to_value (tp_offset_to p)) \<and> pred_option (\<lambda>r. recur_ok e (rrule_value r)) (tp_rrule p))"

definition vtimezone_typed :: "ics_env \<Rightarrow> vtimezone \<Rightarrow> bool" where
  "vtimezone_typed e z = (list_all (tz_props_typed e) (vtz_daylights z) \<and> list_all (tz_props_typed e) (vtz_standards z))"

definition vevent_typed :: "ics_env \<Rightarrow> vevent \<Rightarrow> bool" where
  "vevent_typed e x =
    (pred_option (\<lambda>d. dt_ok e (dt_stamp_value d)) (ev_dtstamp x) \<and> pred_option (\<lambda>d. until_ok e (dt_start_value d)) (ev_dtstart x)
   \<and> pred_option (\<lambda>d. until_ok e (dt_end_value d)) (ev_dtend x) \<and> pred_option (\<lambda>d. dt_ok e (created_value d)) (ev_created x)
   \<and> pred_option (\<lambda>p. priority_num p \<le> 9) (ev_priority x) \<and> pred_option (\<lambda>r. recur_ok e (rrule_value r)) (ev_rrule x)
   \<and> pred_option (ex_date_typed e) (ev_exdate x) \<and> pred_option (\<lambda>d. amount_small (du_amount d)) (ev_duration x)
   \<and> pred_option (\<lambda>n. sequence_value n < 2 ^ 32) (ev_sequence x)
   \<and> pred_option (\<lambda>d. until_ok e (recurrence_id_value d)) (ev_recurrence_id x) \<and> list_all (valarm_typed e) (ev_alarms x))"

definition vcalendar_typed :: "ics_env \<Rightarrow> vcalendar \<Rightarrow> bool" where
  "vcalendar_typed e c = (list_all (vevent_typed e) (cal_events c) \<and> list_all (vtimezone_typed e) (cal_timezones c))"

section \<open>Properties\<close>

lemma gives_value_prop:
  assumes "gives e (ty_read T) P" and "\<And>v. P v \<Longrightarrow> Q (new v)"
  shows "gives e (value_prop_read T new) Q"
  unfolding value_prop_read_def
  by (intro ensures_rbind [OF keeps_burn_params] ensures_rbind [OF ensures_any [OF assms(1)]] ensures_rret) (use assms(2) in auto)

lemma keeps_enum_prop:
  assumes "\<And>s. keeps e (other s)"
  shows "gives e (enum_prop_read names other) (\<lambda>_. True)"
  unfolding enum_prop_read_def
  by (intro ensures_rbind [OF keeps_burn_params] ensures_rbind [OF ensures_spanned [OF keeps_rest]] ensures_case_option ensures_rret
      keeps_gives [OF assms]) simp_all

lemma keeps_enum_value:
  assumes "\<And>s. keeps e (other s)"
  shows "gives e (enum_value_read names other) (\<lambda>_. True)"
  unfolding enum_value_read_def
  by (intro ensures_rbind [OF ensures_any [OF gives_spanned_type [OF keeps_gives [OF keeps_param_value(2)]]]] ensures_case_option ensures_rret
      keeps_gives [OF assms]) simp_all

lemma keeps_unknown: "keeps e k \<Longrightarrow> keeps e (unknown_value what s k)"
  unfolding unknown_value_def by (rule ensures_rerror)

lemmas keeps_rret = ensures_rret [where R = "\<lambda>_. True", OF TrueI]
lemmas keeps_rfail = ensures_rfail [where R = "\<lambda>_. True", OF TrueI]

named_theorems fields \<open>what the parsers of the fields of components give\<close>

lemma gives_texts [fields]:
  "gives e (ty_read summary_type) (\<lambda>_. True)" "gives e (ty_read description_type) (\<lambda>_. True)"
  "gives e (ty_read location_type) (\<lambda>_. True)" "gives e (ty_read uid_type) (\<lambda>_. True)"
  "gives e (ty_read tz_name_type) (\<lambda>_. True)" "gives e (ty_read prod_id_type) (\<lambda>_. True)"
  "gives e (ty_read tz_id_prop_type) (\<lambda>_. True)"
  using gives_value_prop [OF keeps_gives [OF keeps_text(2)], of "\<lambda>_. True"] keeps_gives [OF keeps_tz_id(2)]
  by (simp_all add: summary_type_def summary_read_def description_type_def description_read_def location_type_def location_read_def
      uid_type_def uid_read_def tz_name_type_def tz_name_read_def prod_id_type_def prod_id_read_def plain_type_def)

lemma gives_numbers [fields]:
  "gives e (ty_read sequence_type) (\<lambda>n. sequence_value n < 2 ^ 32)" "gives e (ty_read repeat_type) (\<lambda>n. repeat_value n < 2 ^ 32)"
  "gives e (ty_read tz_offset_from_type) (\<lambda>x. offset_ok (tz_offset_from_value x))"
  "gives e (ty_read tz_offset_to_type) (\<lambda>x. offset_ok (tz_offset_to_value x))"
  "gives e (ty_read rrule_type) (\<lambda>x. recur_ok e (rrule_value x))"
  unfolding sequence_type_def sequence_read_def repeat_type_def repeat_read_def tz_offset_from_type_def tz_offset_from_read_def
    tz_offset_to_type_def tz_offset_to_read_def rrule_type_def rrule_read_def plain_type_def ics_type.select_convs
  by (rule gives_value_prop [OF gives_u32] gives_value_prop [OF gives_offset] gives_value_prop [OF gives_recur]; simp)+

lemma gives_priority [fields]: "gives e (ty_read priority_type) (\<lambda>p. priority_num p \<le> 9)"
  unfolding priority_type_def priority_read_def plain_type_def ics_type.select_convs
  by (intro ensures_rbind [OF keeps_burn_params] ensures_rbind [OF ensures_spanned [OF ensures_any [OF gives_u32]]] ensures_if
      ensures_rret ensures_rerror ensures_rfail) (simp_all add: priority_lowest_def)

lemma gives_dates [fields]:
  "gives e (ty_read created_type) (\<lambda>d. dt_ok e (created_value d))" "gives e (ty_read dt_stamp_type) (\<lambda>d. dt_ok e (dt_stamp_value d))"
  "gives e (ty_read dt_start_type) (\<lambda>d. until_ok e (dt_start_value d))" "gives e (ty_read dt_end_type) (\<lambda>d. until_ok e (dt_end_value d))"
  "gives e (ty_read recurrence_id_type) (\<lambda>d. until_ok e (recurrence_id_value d))"
  unfolding created_type_def created_read_def dt_stamp_type_def dt_stamp_read_def dt_start_type_def dt_start_read_def
    dt_end_type_def dt_end_read_def recurrence_id_type_def recurrence_id_read_def plain_type_def ics_type.select_convs
  by (rule ensures_rbind [OF ensures_any [OF gives_dt_any]] ensures_rbind [OF ensures_any [OF gives_dod]] ensures_rret | simp)+

lemmas [fields] = gives_duration(2)

lemma gives_enums [fields]:
  "gives e (ty_read status_type) (\<lambda>_. True)" "gives e (ty_read ics_class_type) (\<lambda>_. True)" "gives e (ty_read transp_type) (\<lambda>_. True)"
  "gives e (ty_read ics_method_type) (\<lambda>_. True)" "gives e (ty_read cal_scale_type) (\<lambda>_. True)" "gives e (ty_read alarm_action_type) (\<lambda>_. True)"
  "gives e (ty_read cu_type_type) (\<lambda>_. True)" "gives e (ty_read role_type) (\<lambda>_. True)" "gives e (ty_read part_stat_type) (\<lambda>_. True)"
  "gives e (ty_read rsvp_type) (\<lambda>_. True)"
  unfolding status_type_def status_read_def ics_class_type_def ics_class_read_def transp_type_def transp_read_def ics_method_type_def
    ics_method_read_def cal_scale_type_def cal_scale_read_def alarm_action_type_def alarm_action_read_def cu_type_type_def cu_type_read_def
    role_type_def role_read_def part_stat_type_def part_stat_read_def rsvp_type_def rsvp_read_def plain_type_def ics_type.select_convs
  by (intro keeps_enum_prop keeps_enum_value keeps_unknown keeps_rret keeps_rfail ensures_if ensures_rwarn)+

lemma gives_version [fields]: "gives e (ty_read version_type) (\<lambda>_. True)"
  unfolding version_type_def version_read_def ics_type.select_convs
  by (intro ensures_rbind [OF keeps_burn_params] ensures_rbind [OF ensures_spanned [OF keeps_rest]] ensures_if ensures_rret
      keeps_gives [OF keeps_unknown] keeps_rfail) simp_all

section \<open>Addresses and people\<close>

lemma keeps_email [fields]: "gives e (ty_read email_address_type) (\<lambda>_. True)" "gives e (ty_read email_prop_type) (\<lambda>_. True)"
proof -
  have g: "keeps e email_guess"
  proof -
    have "keeps e (rbind (reader_spanned (reader_attempt text_read)) (\<lambda>v. if env_email (rd_env x) (text_str (sp_value v)) then rret v else rfail))" for x
      by (rule ensures_rbind [OF ensures_spanned [OF ensures_attempt [OF keeps_text(1)]]])
        (auto intro: ensures_rret ensures_rfail)
    then show ?thesis unfolding email_guess_def [abs_def] by (rule ensures_look)
  qed
  have "keeps e email_address_read" unfolding email_address_read_def
    by (rule ensures_rcase [OF keeps_try_string] ensures_rcase [OF ensures_attempt [OF g]] ensures_rbind [OF ensures_any [OF keeps_text(2)]]
        keeps_rret ensures_rwarn ensures_complain | simp)+
  then show a: "gives e (ty_read email_address_type) (\<lambda>_. True)" by (intro keeps_gives) (simp add: email_address_type_def plain_type_def)
  show "gives e (ty_read email_prop_type) (\<lambda>_. True)" unfolding email_prop_type_def email_prop_read_def plain_type_def ics_type.select_convs
    by (rule ensures_rbind [OF keeps_burn_params]) (simp_all add: ensures_any [OF a])
qed

lemma gives_cal_address: "gives e (ty_read cal_address_type) (\<lambda>_. True)"
proof -
  have "gives e (ty_read url_address_type) (\<lambda>_. True)"
    unfolding url_address_type_def url_address_read_def plain_type_def ics_type.select_convs
    by (rule ensures_rbind [OF ensures_any [OF keeps_text(2)]]) (simp_all add: ensures_rret)
  then have "gives e (rbind (reader_any url_address_type) (\<lambda>a. rret (CaUrl a))) (\<lambda>_. True)"
    by (intro ensures_rbind [OF ensures_any] ensures_rret) simp_all
  then show ?thesis unfolding cal_address_type_def cal_address_read_def plain_type_def ics_type.select_convs
    by (intro ensures_rcase [OF ensures_attempt [OF ensures_any [OF keeps_email(1)]]] ensures_rret) simp_all
qed

lemma gives_people [fields]:
  "gives e (ty_read cn_type) (\<lambda>_. True)" "gives e (ty_read email_param_type) (\<lambda>_. True)" "gives e (ty_read sent_by_type) (\<lambda>_. True)"
  "gives e (ty_read param_value_type) (\<lambda>_. True)" "gives e (ty_read (spanned_type param_value_type)) (\<lambda>_. True)"
  "gives e (ty_read dt_value_type_type) (\<lambda>_. True)" "gives e (ty_read tz_id_type) (\<lambda>_. True)"
proof -
  have skip: "keeps e (rloop sent_by_skip ())"
    by (rule keeps_rloop, rule ensuresI) (auto simp: sent_by_skip_def dest: ensuresD [OF keeps_char] split: prod.splits option.splits if_splits)
  show "gives e (ty_read sent_by_type) (\<lambda>_. True)" unfolding sent_by_type_def sent_by_read_def plain_type_def ics_type.select_convs
    by (rule ensures_rcase [OF keeps_try_eat] ensures_hint ensures_rcase [OF ensures_any [OF keeps_email(1)]] ensures_rret
        ensures_rthen [OF ensures_silently [OF skip]] ensures_rfail ensures_rbind [OF ensures_spanned [OF keeps_param_value(1)]] ensures_rwarn | simp)+
  show "gives e (ty_read cn_type) (\<lambda>_. True)" "gives e (ty_read email_param_type) (\<lambda>_. True)"
    unfolding cn_type_def cn_read_def email_param_type_def email_param_read_def plain_type_def ics_type.select_convs
    by (rule ensures_rbind [OF ensures_any [OF keeps_param_value(2)]] ensures_rret | simp)+
  show "gives e (ty_read (spanned_type param_value_type)) (\<lambda>_. True)"
    by (rule keeps_gives, rule gives_spanned_type [where Q = "\<lambda>_. True", OF keeps_param_value(2)])
qed (intro keeps_gives keeps_param_value(2) keeps_value_type keeps_tz_id(1))+

text \<open>Offers, one field at a time.\<close>

definition offer_safe :: "ics_env \<Rightarrow> ('s \<Rightarrow> bool) \<Rightarrow> ('s \<times> ics_reader) option \<Rightarrow> bool" where
  "offer_safe e S x = pred_option (\<lambda>(s, r). S s \<and> well_read e r) x"

lemma offer_okI: "(\<And>entry s r. S s \<Longrightarrow> well_read e r \<Longrightarrow> offer_safe e S (offer entry s r)) \<Longrightarrow> offer_ok e S offer"
  unfolding offer_ok_def offer_safe_def by (metis case_prod_conv option.pred_inject(2))

lemma offer_safe_None: "offer_safe e S None"
  by (simp add: offer_safe_def)

lemma offer_safe_to:
  assumes "\<And>v r'. x = Some (v, r') \<Longrightarrow> S (upd v) \<and> well_read e r'" and "offer_safe e S alt"
  shows "offer_safe e S (offer_to upd x alt)"
  using assms by (cases x) (auto simp: offer_safe_def offer_to_def)

lemma offer_safe_field:
  assumes "gives e (ty_read T) P" and "well_read e r" and "pred_option P (ty_default T)" and "offer_safe e S alt"
    and "\<And>v. pred_option P v \<Longrightarrow> S (upd v)"
  shows "offer_safe e S (offer_to upd (try_prop T entry name old r) alt)"
    and "offer_safe e S (offer_to upd (try_param T entry name old r) alt)"
  using try_typed(2,3) [OF assms(1,2) assms(3)] assms(5) by (blast intro: offer_safe_to [OF _ assms(4)])+

lemma offer_safe_fields:
  assumes "gives e (ty_read T) P" and "well_read e r" and "list_all P old" and "offer_safe e S alt"
    and "\<And>vs. list_all P vs \<Longrightarrow> S (upd vs)"
  shows "pred_option P (ty_default T) \<Longrightarrow> offer_safe e S (offer_to upd (try_props T entry name old r) alt)"
    and "offer_safe e S (offer_to upd (try_comps T entry name old r) alt)"
  using try_list_typed [OF assms(1-3)] assms(5) by (blast intro: offer_safe_to [OF _ assms(4)])+

lemmas offers = offer_safe_None fields [THEN offer_safe_field(1)] fields [THEN offer_safe_field(2)]
  fields [THEN offer_safe_fields(1)] fields [THEN offer_safe_fields(2)]

lemmas plain_defaults = summary_type_def description_type_def location_type_def uid_type_def tz_name_type_def tz_id_prop_type_def
  sequence_type_def repeat_type_def tz_offset_from_type_def tz_offset_to_type_def rrule_type_def priority_type_def created_type_def
  dt_stamp_type_def dt_start_type_def dt_end_type_def recurrence_id_type_def duration_prop_type_def status_type_def ics_class_type_def
  transp_type_def ics_method_type_def alarm_action_type_def cu_type_type_def role_type_def part_stat_type_def rsvp_type_def
  email_prop_type_def cn_type_def email_param_type_def sent_by_type_def param_value_type_def spanned_type_def dt_value_type_type_def
  tz_id_type_def plain_type_def

lemma gives_organizer [fields]: "gives e (ty_read organizer_type) (\<lambda>_. True)"
proof -
  have "offer_ok e (\<lambda>_. True) org_offer" unfolding org_offer_def
    by (rule offer_okI) (rule offers | assumption | simp add: plain_defaults)+
  then show ?thesis unfolding organizer_type_def organizer_read_def plain_type_def ics_type.select_convs
    by (intro ensures_rbind [OF gives_entries] ensures_rbind [OF ensures_any [OF gives_cal_address]] ensures_rret) simp_all
qed

lemma gives_attendee [fields]: "gives e (ty_read attendee_type) (\<lambda>_. True)"
proof -
  have "offer_ok e (\<lambda>_. True) att_offer" unfolding att_offer_def
    by (rule offer_okI) (rule offers | assumption | simp add: plain_defaults)+
  then show ?thesis unfolding attendee_type_def attendee_read_def plain_type_def ics_type.select_convs
    by (intro ensures_rbind [OF gives_entries] ensures_rbind [OF ensures_any [OF gives_cal_address]] ensures_rret) simp_all
qed

lemma gives_trigger [fields]: "gives e (ty_read trigger_type) (trigger_typed e)"
proof -
  have o: "offer_ok e (\<lambda>_. True) trig_offer" unfolding trig_offer_def
    by (rule offer_okI) (rule offers | assumption | simp add: plain_defaults)+
  have "gives e (trig_relative g) (trigger_typed e)" for g unfolding trig_relative_def
    by (intro ensures_rbind [OF ensures_any [OF gives_duration(1)]] ensures_rret) (simp_all add: trigger_typed_def)
  then have "gives e (trig_finish s) (trigger_typed e)" for s unfolding trig_finish_def unknown_value_def
    by (intro ensures_case_option ensures_if ensures_rbind [OF ensures_any [OF gives_dt_utc]] ensures_rret ensures_rerror ensures_rfail)
      (simp_all add: trigger_typed_def)
  then show ?thesis unfolding trigger_type_def trigger_read_def plain_type_def ics_type.select_convs
    by (intro ensures_rbind [OF gives_entries [OF o]]) simp_all
qed

lemma gives_ex_date [fields]: "gives e (ty_read ex_date_type) (ex_date_typed e)"
proof -
  have o: "offer_ok e (\<lambda>_. True) ex_offer" unfolding ex_offer_def
    by (rule offer_okI) (rule offers | assumption | simp add: plain_defaults)+
  have "gives e (rbind (reader_any (vec_type date_type)) (\<lambda>ds. rret (ExDates ds))) (ex_date_typed e)"
    by (intro ensures_rbind [OF ensures_any [OF gives_vec [OF gives_date]]] ensures_rret) (simp_all add: ex_date_typed_def)
  moreover have "gives e (rbind (reader_any (vec_type dt_ul_type)) (\<lambda>ds. case f ds of None \<Rightarrow> rfail
       | Some form \<Rightarrow> rret (ExDateTimes form (map (\<lambda>d. (dt_date d, dt_time d)) ds)))) (ex_date_typed e)" for f
    by (intro ensures_rbind [OF ensures_any [OF gives_vec [OF gives_dt_ul]]] ensures_case_option ensures_rret ensures_rfail)
      (auto simp: ex_date_typed_def list_all_iff dt_ok_def)
  ultimately have "gives e (ex_finish s) (ex_date_typed e)" for s unfolding ex_finish_def
    by (cases "case ef_value s of Some v \<Rightarrow> v | None \<Rightarrow> VtDateTime") simp_all
  then show ?thesis unfolding ex_date_type_def ex_date_read_def plain_type_def ics_type.select_convs
    by (intro ensures_rbind [OF gives_entries [OF o]]) simp_all
qed


section \<open>Components\<close>

lemma all_True [simp]: "list_all (\<lambda>_. True) xs" "pred_option (\<lambda>_. True) v"
  by (simp_all add: list_all_iff pred_option_def)

lemma ensures_rkeep:
  assumes "ensures e p Q" and "\<And>v. Q v \<Longrightarrow> ensures e (f v) R"
  shows "ensures e (rkeep p f) R"
  using assms by (auto simp: ensures_def rkeep_def split: prod.splits)

lemma ensures_unwrap_prop:
  "pred_option P v \<Longrightarrow> pred_option P (ty_default T) \<Longrightarrow> gives e (unwrap_prop T name v) P"
  by (auto simp: ensures_def unwrap_prop_def split: option.splits)

lemma keeps_unwrap: "keeps e (unwrap_prop T name v)"
  by (auto simp: ensures_def unwrap_prop_def split: option.splits)

lemma ensures_now: "R v \<Longrightarrow> ensures e (\<lambda>r. (v, r)) R"
  by (simp add: ensures_def)

definition alarm_fields_typed :: "ics_env \<Rightarrow> alarm_fields \<Rightarrow> bool" where
  "alarm_fields_typed e s = (pred_option (trigger_typed e) (al_trigger s)
     \<and> pred_option (\<lambda>d. amount_small (du_amount d)) (al_duration s) \<and> pred_option (\<lambda>n. repeat_value n < 2 ^ 32) (al_repeat s))"

lemma repeat_pair:
  "pred_option (\<lambda>d. amount_small (du_amount d)) d \<Longrightarrow> pred_option (\<lambda>n. repeat_value n < 2 ^ 32) n
    \<Longrightarrow> pred_option repeat_typed (duration_repeat_new_opt d n)"
  by (auto simp: duration_repeat_new_opt_def repeat_typed_def split: option.splits)

lemma gives_valarm [fields]: "gives e (ty_read valarm_type) (valarm_typed e)"
proof -
  have o: "offer_ok e (alarm_fields_typed e) alarm_offer" unfolding alarm_offer_def
    by (rule offer_okI) (rule offers gives_trigger [THEN offer_safe_field(1)] | assumption
        | simp add: plain_defaults trigger_type_def alarm_fields_typed_def)+
  have "gives e (alarm_repeat s) repeat_typed" if "alarm_fields_typed e s" for s
    using that unfolding alarm_repeat_def alarm_fields_typed_def
    by (intro ensures_if ensures_rfail ensures_rkeep [OF ensures_unwrap_prop] ensures_rkeep [OF ensures_unwrap_prop] ensures_now)
      (auto simp: plain_defaults intro: repeat_pair)
  note rep = this
  have "gives e (alarm_finish s) (valarm_typed e)" if s: "alarm_fields_typed e s" for s
  proof -
    have t: "gives e (unwrap_prop trigger_type ''TRIGGER'' (al_trigger s)) (trigger_typed e)"
      using s by (intro ensures_unwrap_prop) (simp_all add: alarm_fields_typed_def trigger_type_def plain_type_def)
    show ?thesis unfolding alarm_finish_def
      by (intro ensures_rkeep [OF rep [OF s]] ensures_rbind [OF keeps_unwrap [where T = alarm_action_type]])
        (auto split: alarm_action.split
          intro!: ensures_rkeep [OF t] ensures_rkeep [OF keeps_unwrap [where T = description_type]] ensures_rkeep [OF keeps_unwrap [where T = summary_type]],
         (auto simp: ensures_def valarm_typed_def valarm_trigger_def split: option.splits))
  qed
  then show ?thesis unfolding valarm_type_def valarm_read_def plain_type_def ics_type.select_convs
    by (intro ensures_rbind [OF gives_entries [OF o]]) (simp_all add: alarm_fields_typed_def alarm_empty_def)
qed


definition tz_fields_typed :: "ics_env \<Rightarrow> tz_fields \<Rightarrow> bool" where
  "tz_fields_typed e s = (pred_option (\<lambda>d. until_ok e (dt_start_value d)) (tzf_dtstart s)
     \<and> pred_option (\<lambda>x. offset_ok (tz_offset_from_value x)) (tzf_from s)
     \<and> pred_option (\<lambda>x. offset_ok (tz_offset_to_value x)) (tzf_to s)
     \<and> pred_option (\<lambda>r. recur_ok e (rrule_value r)) (tzf_rrule s))"

lemma gives_tz_props [fields]: "gives e (ty_read tz_props_type) (tz_props_typed e)"
proof -
  have o: "offer_ok e (tz_fields_typed e) tz_offer" unfolding tz_offer_def
    by (rule offer_okI) (rule offers | assumption | simp add: plain_defaults tz_fields_typed_def)+
  have "gives e (tz_props_finish s) (tz_props_typed e)" if s: "tz_fields_typed e s" for s
    using that unfolding tz_props_finish_def tz_fields_typed_def
    by (intro ensures_rkeep [OF ensures_unwrap_prop])
      (auto simp: plain_defaults tz_props_typed_def ensures_def split: option.splits)
  then show ?thesis unfolding tz_props_type_def tz_props_read_def plain_type_def ics_type.select_convs
    by (intro ensures_rbind [OF gives_entries [OF o]]) (simp_all add: tz_fields_typed_def tz_empty_def)
qed

lemma gives_vtimezone [fields]: "gives e (ty_read vtimezone_type) (vtimezone_typed e)"
proof -
  let ?S = "\<lambda>s. list_all (tz_props_typed e) (vf_daylights s) \<and> list_all (tz_props_typed e) (vf_standards s)"
  have o: "offer_ok e ?S vtz_offer" unfolding vtz_offer_def
    by (rule offer_okI) (rule offers gives_tz_props [THEN offer_safe_fields(2)] | assumption | simp add: plain_defaults)+
  have "gives e (vtz_finish s) (vtimezone_typed e)" if "?S s" for s
    using that unfolding vtz_finish_def
    by (intro ensures_rbind [OF ensures_unwrap_prop [where P = "\<lambda>_. True"]] ensures_rret) (auto simp: plain_defaults vtimezone_typed_def)
  then show ?thesis unfolding vtimezone_type_def vtimezone_read_def plain_type_def ics_type.select_convs
    by (intro ensures_rbind [OF gives_entries [OF o]]) simp_all
qed

definition event_fields_typed :: "ics_env \<Rightarrow> event_fields \<Rightarrow> bool" where
  "event_fields_typed e s =
    (pred_option (\<lambda>d. dt_ok e (dt_stamp_value d)) (evf_dtstamp s) \<and> pred_option (\<lambda>d. until_ok e (dt_start_value d)) (evf_dtstart s)
   \<and> pred_option (\<lambda>d. until_ok e (dt_end_value d)) (evf_dtend s) \<and> pred_option (\<lambda>d. dt_ok e (created_value d)) (evf_created s)
   \<and> pred_option (\<lambda>p. priority_num p \<le> 9) (evf_priority s) \<and> pred_option (\<lambda>r. recur_ok e (rrule_value r)) (evf_rrule s)
   \<and> pred_option (ex_date_typed e) (evf_exdate s) \<and> pred_option (\<lambda>d. amount_small (du_amount d)) (evf_duration s)
   \<and> pred_option (\<lambda>n. sequence_value n < 2 ^ 32) (evf_sequence s)
   \<and> pred_option (\<lambda>d. until_ok e (recurrence_id_value d)) (evf_recurrence_id s) \<and> list_all (valarm_typed e) (evf_alarms s))"

lemma gives_vevent [fields]: "gives e (ty_read vevent_type) (vevent_typed e)"
proof -
  note more = gives_organizer [THEN offer_safe_field(1)] gives_attendee [THEN offer_safe_fields(1)] gives_ex_date [THEN offer_safe_field(1)]
    gives_valarm [THEN offer_safe_fields(2)]
  have o: "offer_ok e (event_fields_typed e) event_offer" unfolding event_offer_def
    by (rule offer_okI) (rule offers more | assumption
        | simp add: plain_defaults organizer_type_def attendee_type_def ex_date_type_def event_fields_typed_def)+
  have "gives e (event_finish s) (vevent_typed e)" if "event_fields_typed e s" for s
    using that unfolding event_finish_def event_fields_typed_def
    by (intro ensures_rkeep [OF ensures_unwrap_prop [where T = uid_type and P = "\<lambda>_. True"]]
        ensures_rkeep [OF ensures_unwrap_prop [where T = dt_stamp_type and P = "\<lambda>d. dt_ok e (dt_stamp_value d)"]] ensures_rret)
      (simp_all add: plain_defaults vevent_typed_def)
  then show ?thesis unfolding vevent_type_def vevent_read_def plain_type_def ics_type.select_convs
    by (intro ensures_rbind [OF gives_entries [OF o]]) (simp_all add: event_fields_typed_def event_empty_def)
qed

lemma gives_vcalendar: "gives e (ty_read vcalendar_type) (vcalendar_typed e)"
proof -
  let ?S = "\<lambda>s. list_all (vevent_typed e) (cf_events s) \<and> list_all (vtimezone_typed e) (cf_timezones s)"
  have o: "offer_ok e ?S cal_offer" unfolding cal_offer_def
    by (rule offer_okI) (rule offers gives_vevent [THEN offer_safe_fields(2)] gives_vtimezone [THEN offer_safe_fields(2)] | assumption
        | simp add: plain_defaults prod_id_type_def version_type_def cal_scale_type_def)+
  have "gives e (cal_finish s) (vcalendar_typed e)" if "?S s" for s
    using that unfolding cal_finish_def
    by (intro ensures_rkeep [OF ensures_unwrap_prop [where P = "\<lambda>_. True"]])
      (auto simp: prod_id_type_def version_type_def vcalendar_typed_def ensures_def split: option.splits)
  then show ?thesis unfolding vcalendar_type_def vcalendar_read_def plain_type_def ics_type.select_convs
    by (intro ensures_rbind [OF gives_entries [OF o]]) (simp_all add: cal_empty_def)
qed

section \<open>Whole sources\<close>

lemma well_read_new: "well_read e (reader_new e src)"
  by (simp add: well_read_def reader_new_def)

lemma read_source_typed:
  assumes "gives e (ty_read T) P"
  shows "read_source T name what e src = Inr (x, msgs) \<Longrightarrow> P x \<and> length msgs \<le> Suc max_msgs"
    and "read_source T name what e src = Inl (InvalidIcs ms) \<Longrightarrow> length ms \<le> Suc (Suc max_msgs)"
proof -
  have round: "ensures e (source_round T name v) (flow_ok (pred_option P) (pred_option (pred_option P)))" if v: "pred_option P v" for v
  proof (rule ensuresI)
    fix r fl r' assume r: "well_read e r" and run: "source_round T name v r = (fl, r')"
    obtain en r1 where en: "reader_entry r = (en, r1)" by fastforce
    have r1: "well_read e r1" by (rule ensuresD(1) [OF keeps_entry en r])
    have b: "well_read e (snd (entry_burn entry KComponent r1))" for entry
      using ensuresD(1) [OF keeps_burn _ r1] by (metis prod.collapse)
    show "well_read e r' \<and> flow_ok (pred_option P) (pred_option (pred_option P)) fl"
      using run r v en r1 b try_typed(1) [OF assms r1]
      by (auto simp: source_round_def split: if_splits option.splits prod.splits)
  qed
  have "ensures e (rloop (source_round T name) None) (pred_option (pred_option P))"
    by (rule ensures_rloop [where S = "pred_option P"]) (use round in simp_all)
  then obtain v r where l: "rloop (source_round T name) None (reader_new e src) = (v, r)" and "well_read e r" "pred_option (pred_option P) v"
    by (metis ensuresD well_read_new prod.exhaust)
  then show "read_source T name what e src = Inr (x, msgs) \<Longrightarrow> P x \<and> length msgs \<le> Suc max_msgs"
    "read_source T name what e src = Inl (InvalidIcs ms) \<Longrightarrow> length ms \<le> Suc (Suc max_msgs)"
    by (auto simp: read_source_def missing_msg_def well_read_def split: option.splits if_splits)
qed

end
