(* ===== verification/Ics_Props.thy ===== *)
theory Ics_Props
  imports Ics_Calendar_Codecs Ics_Validity Ics_Typed_Objects
begin

text \<open>
  Properties of the iCalendar library: what is printed is read back, printed lines are short, the
  reader sees the unfolded source, reading ends for every source and returns values in their ranges,
  and a calendar is clean exactly when it satisfies its specification.  The witnesses use an
  environment with the widths of UTF-8, the ASCII letters and the Gregorian calendar.
\<close>

section \<open>An environment and a calendar\<close>

definition utf8_width :: "nat \<Rightarrow> nat" where
  "utf8_width b = (if b < 128 then 1 else if b < 194 then 0 else if b < 224 then 2 else if b < 240 then 3
     else if b < 245 then 4 else 0)"

definition month_days :: "nat \<Rightarrow> nat \<Rightarrow> nat" where
  "month_days y m = (if m = 2 then (if y mod 4 = 0 \<and> (y mod 100 \<noteq> 0 \<or> y mod 400 = 0) then 29 else 28)
     else if m \<in> {4, 6, 9, 11} then 30 else 31)"

definition example_env :: ics_env where
  "example_env = \<lparr>env_width = utf8_width, env_alphabetic = (\<lambda>c. 65 \<le> c \<and> c \<le> 90 \<or> 97 \<le> c \<and> c \<le> 122),
     env_date = (\<lambda>y m d. 1 \<le> d \<and> d \<le> month_days y m), env_email = (\<lambda>s. 64 \<in> set s)\<rparr>"

lemma example_env_ok: "env_ok example_env"
  by (simp add: env_ok_def example_env_def utf8_width_def)

definition example_dt :: "'f \<Rightarrow> 'f date_time" where
  "example_dt f = \<lparr>dt_date = \<lparr>d_year = Year 2024, d_month = Month 2, d_day = Day 29\<rparr>,
     dt_time = \<lparr>t_hour = Hour 12, t_minute = Minute 30, t_second = Second 0\<rparr>, dt_form = f\<rparr>"

definition example_rule :: recur where
  "example_rule = recur_with_by_day [Every Wednesday, Fixed (- 1) Friday] (recur_with_interval 2 (recur_with_count 10 (recur_new Monthly)))"

definition example_alarm :: valarm where
  "example_alarm = AlarmDisplay (display_alarm_new
     (trigger_start \<lparr>du_sign = Neg, du_amount = ATime \<lparr>td_hours = 0, td_minutes = 15, td_seconds = 0\<rparr>\<rparr>)
     (Description (text_new (ascii ''Reminder''))))"

definition example_event :: vevent where
  "example_event = vevent_with_alarm example_alarm
     (vevent_with_summary (Summary (text_new (ascii ''Review; agenda, minutes'')))
     (vevent_with_rrule (RRule example_rule)
     (vevent_with_dtend (DtEnd (DDateTime (example_dt FormUtc)))
     (vevent_with_dtstart (DtStart (DDateTime (example_dt FormUtc)))
       (vevent_new (Uid (text_new (ascii ''1@proton.me''))) (DtStamp (example_dt FormUtc)))))))"

definition example_calendar :: vcalendar where
  "example_calendar = vcalendar_with_event example_event
     (vcalendar_with_method MeRequest (vcalendar_new (prod_id_of_string (ascii ''-//Proton AG//Calendar//EN''))))"

lemma example_texts_ok: "text_ok (text_new (ascii s))"
proof -
  have "(of_char c :: nat) < 256" for c :: char by (rule nat_of_char_less_256)
  then have "(of_char c :: nat) < 55296" for c :: char by (rule less_trans) simp
  then have "scalar (of_char c)" for c :: char by (simp add: scalar_def)
  then show ?thesis by (intro text_new_ok) (simp add: ascii_def list_all_iff)
qed

lemma example_dt_ok: "dt_ok example_env (example_dt f)"
  by (simp add: example_dt_def dt_ok_def date_ok_def time_ok_def example_env_def month_days_def)

lemma example_rule_ok: "recur_ok example_env example_rule"
  by (simp add: example_rule_def recur_with_by_day_def recur_with_interval_def recur_with_count_def recur_new_def recur_ok_def by_day_ok_def)

lemma example_alarm_ok: "valarm_ok example_env example_alarm"
  by (simp add: example_alarm_def valarm_ok_def display_alarm_new_def trigger_start_def trigger_ok_def valarm_trigger_def valarm_description_def
      alarm_summary_def alarm_attendees_def alarm_dr_def amount_small_def time_small_def duration_norm_def amount_norm_def amount_is_zero_def
      time_duration_is_zero_def example_texts_ok)

lemma example_calendar_ok: "vcalendar_ok example_env example_calendar"
  unfolding example_calendar_def example_event_def vcalendar_with_event_def vcalendar_with_method_def vcalendar_new_def
    vevent_with_alarm_def vevent_with_summary_def vevent_with_rrule_def vevent_with_dtend_def vevent_with_dtstart_def vevent_new_def
    prod_id_of_string_def
  by (simp add: vcalendar_ok_def vevent_ok_def dod_ok_def dt_any_ok_def form_ok_def form_tz_def example_dt_ok example_rule_ok
      example_alarm_ok example_texts_ok) (simp add: example_dt_def)

section \<open>Round trips\<close>

text \<open>
  C18. A calendar that is printed is read back as it was, without a message, and with the violations
  of the calendar itself.  The hypothesis says that its numbers and dates are in range, that its
  texts hold no control characters, and that names and addresses avoid the characters the printer
  does not protect.
\<close>

theorem calendar_roundtrip:
  assumes "env_ok e" and "vcalendar_ok e c"
  shows "vcalendar_from_bytes e (utf8s (vcalendar_to_string c))
    = Inr \<lparr>pc_cal = c, pc_msgs = [], pc_viols = calendar_viols c\<rparr>"
  using vcalendar_c.source_roundtrip [OF assms]
  by (simp add: vcalendar_from_bytes_def vcalendar_to_string_def vcalendar_validate_def validated_viols_def Let_def)

theorem calendar_roundtrip_witness:
  "vcalendar_from_bytes example_env (utf8s (vcalendar_to_string example_calendar))
    = Inr \<lparr>pc_cal = example_calendar, pc_msgs = [], pc_viols = calendar_viols example_calendar\<rparr>"
  by (rule calendar_roundtrip [OF example_env_ok example_calendar_ok])

text \<open>Texts of visible ASCII characters are not trimmed.\<close>

definition visible :: "ustring \<Rightarrow> bool" where
  "visible s = list_all (\<lambda>c. 33 \<le> c \<and> c < 127) s"

lemma visible_simps [simp]:
  "visible []" "visible (c # s) = (33 \<le> c \<and> c < 127 \<and> visible s)" "visible (s @ t) = (visible s \<and> visible t)"
  "visible (replicate n c) = (n = 0 \<or> 33 \<le> c \<and> c < 127)"
  by (auto simp: visible_def list_all_iff)

lemma visible_dec [simp]: "visible (dec_str n)" "visible (pad_str k n)"
proof -
  show "visible (dec_str n)" for n
  proof (induction n rule: dec_str.induct)
    case (1 n)
    have "n mod 10 < 79" using mod_less_divisor [of 10 n] by linarith
    then show ?case using 1 by (subst dec_str.simps) simp
  qed
  then show "visible (pad_str k n)" by (simp add: pad_str_def)
qed

lemma visible_words [simp]: "visible (ascii (weekday_str d))" "visible (ascii (freq_str f))"
  by (cases d; simp add: weekday_str_def ascii_def) (cases f; simp add: freq_str_def ascii_def)

lemma visible_vec: "(\<And>x. visible (t x)) \<Longrightarrow> visible (vec_text t xs)"
  by (induction t xs rule: vec_text.induct) auto

lemma visible_param: "visible (ascii name) \<Longrightarrow> (\<And>x. visible (t x)) \<Longrightarrow> visible (param_opt_text name t v)"
  by (auto simp: param_opt_text_def split: option.splits)

lemma visible_values [simp]:
  "visible (until_text u)" "visible (by_day_text b)" "visible (day_c.signed_text sd)"
  "visible (day_ordinal_c.signed_text so)" "visible (week_ordinal_c.signed_text sw)"
  by (auto simp: until_text_def by_day_text_def date_text_def ul_text_def dt_text_def time_text_def
      day_c.signed_text_def day_ordinal_c.signed_text_def week_ordinal_c.signed_text_def
      split: date_or_dt.splits by_day.splits sign.splits)

lemma recur_names_visible:
  "list_all (\<lambda>name. visible (ascii name)) [''FREQ'', ''UNTIL'', ''COUNT'', ''INTERVAL'', ''WKST'', ''BYSECOND'', ''BYMINUTE'', ''BYHOUR'',
     ''BYDAY'', ''BYMONTHDAY'', ''BYYEARDAY'', ''BYWEEKNO'', ''BYMONTH'', ''BYSETPOS'']"
  by (simp add: ascii_def)

lemma visible_recur: "visible (recur_text rc)"
  unfolding recur_text_def recur_parts_def freq_part_def part_text_def prod.case parts_text_append parts_text_opt
  using recur_names_visible by (simp add: visible_param visible_vec)

lemma visible_unit: "33 \<le> c \<Longrightarrow> c < 127 \<Longrightarrow> visible (unit_text n c)"
  by (simp add: unit_text_def)

lemma visible_duration: "visible (duration_text d)"
  by (auto simp: duration_text_def amount_text_def time_units_text_def visible_unit ascii_def split: sign.splits duration_amount.splits)

lemma visible_clean: "visible s \<Longrightarrow> clean_text s"
  by (induction s) (auto simp: scalar_def)

lemma trim_visible:
  assumes "visible s"
  shows "trim_str (fold_text 0 s) = fold_text 0 s"
proof (cases s)
  case (Cons c t)
  have w: "33 \<le> x \<Longrightarrow> x < 127 \<Longrightarrow> \<not> is_white_char x" for x by (auto simp: is_white_char_def)
  have c: "\<not> is_white_char c" using assms Cons w by simp
  have l: "\<not> is_white_char (last s)" using assms Cons w last_in_set [of s] by (auto simp: visible_def list_all_iff)
  obtain u where u: "fold_text 0 s = c # u" using assms Cons by (auto simp: len_utf8_def)
  have "last (fold_text 0 s) = last s" by (rule last_fold_text) (simp add: Cons)
  then have "\<not> is_white_char (hd (rev (fold_text 0 s)))" using l unfolding hd_rev by simp
  then have "dropWhile is_white_char (rev (fold_text 0 s)) = rev (fold_text 0 s)"
    by (metis dropWhile.simps(1) hd_Cons_tl dropWhile.simps(2))
  then show ?thesis using c u by (simp add: trim_str_def)
qed (simp add: trim_str_def)

lemma printed_visible:
  assumes "wr = write_raw s" and "visible s"
  shows "to_string wr = fold_text 0 s"
  using assms written_text [of _ s] trim_visible by (simp add: to_string_def)

lemma visible_last: "visible s \<Longrightarrow> s = [] \<or> last s \<notin> {13, 32, 9}"
  using last_in_set [of s] by (fastforce simp: visible_def list_all_iff)

text \<open>
  A recurrence rule whose numbers are in range is read back as it was printed.
\<close>

theorem rule_roundtrip:
  assumes "env_ok e" and "recur_ok e rc"
  shows "from_str e recur_type (utf8s (to_string (recur_write rc))) = Some (Inr rc)"
proof -
  have "to_string (recur_write rc) = write_finish (recur_write rc writer_default)"
    using printed_visible [OF _ visible_recur [of rc]] written_text [OF recur_writes] recur_writes by (simp add: fun_eq_iff)
  moreover have "recur_text rc = [] \<or> last (recur_text rc) \<notin> {32, 9}" using visible_last [OF visible_recur [of rc]] by auto
  ultimately show ?thesis using recur_c.roundtrip [OF assms] by simp
qed

theorem rule_roundtrip_witness:
  "from_str example_env recur_type (utf8s (to_string (recur_write example_rule))) = Some (Inr example_rule)"
  by (rule rule_roundtrip [OF example_env_ok example_rule_ok])

text \<open>
  A duration whose amounts fit 32 bits is read back up to its normal form: units that are zero
  are dropped and zero has no sign.  Durations of the same normal form print alike.
\<close>

theorem duration_roundtrip:
  assumes "env_ok e" and "amount_small (du_amount d)"
  shows "from_str e duration_type (utf8s (to_string (duration_write d))) = Some (Inr (duration_norm d))
    \<and> to_string (duration_write (duration_norm d)) = to_string (duration_write d)"
proof
  have out: "to_string (duration_write d) = fold_text 0 (duration_text d)" for d
    by (rule printed_visible [OF _ visible_duration]) (simp add: duration_write_text fun_eq_iff)
  have "parses e no_hints (ty_read duration_type) (duration_text d) (Some (duration_norm d)) []"
    using parses_duration [OF assms, of "[]" no_hints] by (simp add: duration_end_def)
  then show "from_str e duration_type (utf8s (to_string (duration_write d))) = Some (Inr (duration_norm d))"
    unfolding out
    by (rule from_str_written [OF _ clean_text_foldable clean_text_scalar visible_last])
      (rule duration_text_clean visible_duration)+
  have "duration_text (duration_norm d) = duration_text d"
    by (cases d; cases "du_amount d")
      (auto simp: duration_norm_def amount_norm_def duration_text_def amount_text_def unit_text_def time_units_text_def amount_is_zero_def
        time_duration_is_zero_def date_duration_is_zero_def split: sign.splits)
  then show "to_string (duration_write (duration_norm d)) = to_string (duration_write d)" unfolding out by simp
qed


theorem duration_roundtrip_witness:
  "from_str example_env duration_type (utf8s (to_string (duration_write
      \<lparr>du_sign = Neg, du_amount = ADate \<lparr>dd_days = 0, dd_time = \<lparr>td_hours = 1, td_minutes = 0, td_seconds = 5\<rparr>\<rparr>\<rparr>)))
    = Some (Inr \<lparr>du_sign = Neg, du_amount = ATime \<lparr>td_hours = 1, td_minutes = 0, td_seconds = 5\<rparr>\<rparr>)"
  using duration_roundtrip [OF example_env_ok,
      of "\<lparr>du_sign = Neg, du_amount = ADate \<lparr>dd_days = 0, dd_time = \<lparr>td_hours = 1, td_minutes = 0, td_seconds = 5\<rparr>\<rparr>\<rparr>"]
  by (simp add: amount_small_def time_small_def duration_norm_def amount_norm_def amount_is_zero_def date_duration_is_zero_def
      time_duration_is_zero_def)

section \<open>Lines\<close>

text \<open>
  What the writer prints for a calendar, piece by piece and with the length of the current line,
  is the folded form of one reference text: the lines of its properties and components in order.
\<close>

theorem calendar_text_spec:
  assumes "vcalendar_ok e c"
  shows "vcalendar_to_string c = fold_text 0 (comp_text ''VCALENDAR'' vcalendar_text c)"
  unfolding vcalendar_to_string_def by (rule written_text) (rule vcalendar_c.comp_writes [OF assms])

theorem calendar_text_spec_witness:
  "vcalendar_to_string example_calendar = fold_text 0 (comp_text ''VCALENDAR'' vcalendar_text example_calendar)"
  by (rule calendar_text_spec [OF example_calendar_ok])

lemma foldable_CR: "foldable s \<Longrightarrow> 13 \<notin> set s"
  by (induction s) auto

text \<open>
  C23. No line of a printed calendar is longer than 75 octets, and unfolding the lines gives the
  reference text back.
\<close>

theorem calendar_lines_short:
  assumes "env_ok e" and "vcalendar_ok e c"
  shows "(\<forall>line \<in> set (crlf_lines [] (vcalendar_to_string c)). length (utf8s line) \<le> 75)
    \<and> unfold_lines (utf8s (vcalendar_to_string c)) = utf8s (comp_text ''VCALENDAR'' vcalendar_text c)"
proof -
  let ?t = "comp_text ''VCALENDAR'' vcalendar_text c"
  have out: "vcalendar_to_string c = fold_text 0 ?t"
    unfolding vcalendar_to_string_def by (rule written_text) (rule vcalendar_c.comp_writes [OF assms(2)])
  have f: "foldable ?t" using vcalendar_c.comp_lines [OF assms] by (simp add: text_lines_def)
  show ?thesis unfolding out
    using fold_text_lines [of "[]" 0 ?t] foldable_CR [OF f] unfold_fold_text [OF f] by simp
qed

theorem calendar_lines_short_witness:
  "list_all (\<lambda>line. length (utf8s line) \<le> 75) (crlf_lines [] (vcalendar_to_string example_calendar))
   \<and> unfold_lines (utf8s (vcalendar_to_string example_calendar)) = utf8s (comp_text ''VCALENDAR'' vcalendar_text example_calendar)"
  using calendar_lines_short [OF example_env_ok example_calendar_ok] by (simp add: list_all_iff)

text \<open>
  C22. The reader refines a stream: the octets it delivers are those of the unfolded source, one by
  one, wherever it stands; an end of the stream is an end of the source.
\<close>

theorem reader_refines_stream:
  "fst (reader_byte r) = (case rd_stream r of [] \<Rightarrow> None | b # _ \<Rightarrow> Some b)
   \<and> rd_stream (snd (reader_byte r)) = tl (rd_stream r)
   \<and> rd_stream (reader_new e src) = unfold_lines src"
proof -
  have "rd_stream (reader_new e src) = unfold_lines src" by (simp add: rd_stream_def reader_new_def pos_default_def)
  then show ?thesis using byte_stream [of r] by (metis fst_conv)
qed

section \<open>Arbitrary sources\<close>

text \<open>
  C20. Reading a calendar ends for every source, with every loop that runs on the way: none of them,
  however deeply nested and whether its result is used or an attempt that is given up, reaches
  the bound on its rounds, which would leave the reader marked as stalled; the loop over the
  components breaks with a result; and looking ahead at a character ends as well. The calendar
  parser on its own neither stalls nor gives input back, wherever it starts.
\<close>

theorem reading_ends:
  "(case rloop (source_round vcalendar_type ''VCALENDAR'') None (reader_new e src) of
      (v, r) \<Rightarrow> v \<noteq> None \<and> \<not> rd_stalled r)
   \<and> (\<not> rd_stalled r \<longrightarrow> \<not> rd_stalled (snd (vcalendar_read r)) \<and> \<not> rd_stalled (snd (reader_char r)))
   \<and> rd_left (snd (vcalendar_read r)) \<le> rd_left r"
proof -
  note p = progress_source [OF vcalendar_c.moves, of "''VCALENDAR''"]
  define run where "run = rloop (source_round vcalendar_type ''VCALENDAR'') None (reader_new e src)"
  have v: "fst run \<noteq> None" unfolding run_def
    by (rule rloop_returns [OF p]) (auto simp: source_round_def split: if_splits prod.splits option.splits)
  have "leaves (reader_new e src) (snd run)" unfolding run_def using rloop_shrinks [OF p] unfolding shrinks_def by blast
  then have s: "\<not> rd_stalled (snd run)" by (simp add: leaves_def reader_new_def)
  have "shrinks vcalendar_read" using vcalendar_c.moves by (simp add: vcalendar_type_def plain_type_def)
  then have l: "leaves r (snd (vcalendar_read r))" unfolding shrinks_def by blast
  have c: "leaves r (snd (reader_char r))" using shrinks_char unfolding shrinks_def by blast
  show ?thesis unfolding run_def [symmetric] using v s l c by (simp only: leaves_def case_prod_beta) blast
qed

theorem reading_ends_witness:
  "\<not> rd_stalled (snd (vcalendar_read (reader_new example_env [66, 69])))
   \<and> \<not> rd_stalled (snd (rloop (source_round vcalendar_type ''VCALENDAR'') None (reader_new example_env [66, 69])))"
proof -
  have "\<not> rd_stalled (reader_new example_env [66, 69])" by (simp add: reader_new_def)
  then show ?thesis
    using reading_ends [of example_env "[66, 69]" "reader_new example_env [66, 69]"]
    unfolding case_prod_beta by blast
qed

text \<open>A loop that does not get anywhere is marked.\<close>

lemma endless_loop_stalls: "rd_stalled (snd (rloop (\<lambda>s r. (Continue s, r)) () r))"
proof -
  have "rd_stalled (snd (rloop_fuel n (\<lambda>s r. (Continue s, r)) () r))" for n
    by (induction n) simp_all
  then show ?thesis unfolding rloop_def .
qed

text \<open>
  C19. Whatever the source, every date of a calendar that is read exists, and every time, offset,
  duration, number and part of a recurrence rule is in its range; at most 33 messages come with it,
  and with an error at most one more.
\<close>

theorem read_calendar_typed:
  "(\<forall>p. vcalendar_from_bytes e src = Inr p \<longrightarrow> vcalendar_typed e (pc_cal p) \<and> length (pc_msgs p) \<le> 33)
   \<and> (\<forall>ms. vcalendar_from_bytes e src = Inl (InvalidIcs ms) \<longrightarrow> length ms \<le> 34)"
proof -
  note typed = read_source_typed [OF gives_vcalendar, where name = "''VCALENDAR''" and what = "''missing calendar''" and src = src]
  show ?thesis
    using typed by (cases "read_source vcalendar_type ''VCALENDAR'' ''missing calendar'' e src")
      (auto simp: vcalendar_from_bytes_def max_msgs_def split: prod.splits)
qed

theorem read_calendar_typed_witness:
  "vcalendar_typed example_env example_calendar"
  using read_calendar_typed [of example_env "utf8s (vcalendar_to_string example_calendar)"]
    vcalendar_c.source_roundtrip [OF example_env_ok example_calendar_ok, of "''missing calendar''"]
  by (simp add: vcalendar_from_bytes_def vcalendar_to_string_def)

section \<open>Validation\<close>


text \<open>The gap on a concrete calendar: an exception date in a time zone that the calendar does not have.\<close>

definition exdate_calendar :: vcalendar where
  "exdate_calendar = vcalendar_with_event
     (vevent_with_exdate (ExDateTimes (FormTz (TzId (ascii ''Nowhere''))) [(dt_date (example_dt ()), dt_time (example_dt ()))])
       example_event)
     (vcalendar_with_method MeRequest (vcalendar_new (prod_id_of_string (ascii ''-//Proton AG//Calendar//EN''))))"

lemma unknown_exdate_zone_is_clean:
  "vcalendar_validate exdate_calendar = CleanCalendar exdate_calendar
   \<and> \<not> exdates_known exdate_calendar \<and> \<not> calendar_sound exdate_calendar"
proof -
  have v: "calendar_viols exdate_calendar = []" by code_simp
  have k: "\<not> exdates_known exdate_calendar"
    by (simp add: exdates_known_def exdate_calendar_def vcalendar_with_event_def vcalendar_with_method_def vcalendar_new_def
        vevent_with_exdate_def opt_set_def exdate_zones_def)
  show ?thesis using v k calendar_sound_without [of exdate_calendar] by (simp add: vcalendar_validate_def Let_def)
qed

section \<open>Where printing and reading disagree\<close>

text \<open>
  A parameter that follows a character outside ASCII, such as an accented name of an organizer, is
  printed without the semicolon before it: the last octet is not the start of a character.
\<close>

theorem separator_lost:
  assumes "w_out w \<noteq> []" and "128 \<le> last (w_out w)"
  shows "write_param name value w = value (write_raw (ascii name @ [61]) w)"
  using assms by (simp add: write_param_def needs_semicolon_def Let_def)

theorem separator_lost_witness:
  "w_out (write_param ''EMAIL'' (email_param_write (EmailParam (EmailAddress (Text (ascii ''a''))))) \<lparr>w_out = ascii ''CN=J'' @ [233], w_line_len = 6\<rparr>)
    = ascii ''CN=J'' @ [233] @ ascii ''EMAIL=a''"
  by (subst separator_lost) code_simp+

lemma parses_cut_amount:
  assumes "env_ok e" and "n < 2 ^ 32"
  shows "parses e h (rloop amount_round amount_start) (dec_str n) None []"
proof (rule parses_rloop_break [OF progress_amount], rule parsesI)
  fix r assume r: "rd_env r = e" "rd_hints r = h" "before (dec_str n) r"
  have r': "before (dec_str n @ []) r" using r(3) by simp
  obtain d where d: "reader_peek r = Some d" "is_digit_char d" using digit_peek [OF assms(1) r(1) r'] by blast
  then have peek: "reader_peek r \<notin> {Some 10, Some 44, None}" by (auto simp: is_digit_char_def)
  obtain q where q: "reader_try_eat 84 r = (None, r\<lparr>rd_pos := q\<rparr>)" "before (dec_str n @ []) (r\<lparr>rd_pos := q\<rparr>)"
    using parsesE [OF parses_no_T [OF assms(1)] r(1,2) r'] .
  have c: "parses e h (ty_read (spanned_type char_type)) [] None []"
    using parses_spanned_none [OF parses_char_end] by (simp add: spanned_type_def char_type_def plain_type_def)
  have "parses e h (amount_part amount_start) (dec_str n @ []) None []"
    unfolding amount_part_def
    by (rule parses_rbind [OF parses_any [OF parses_u32 [OF assms]] parses_rbind_none [OF parses_any [OF c]]]) (simp add: no_digit_def)
  then obtain q2 where "amount_part amount_start (r\<lparr>rd_pos := q\<rparr>) = (None, r\<lparr>rd_pos := q2\<rparr>)" "before [] (r\<lparr>rd_pos := q2\<rparr>)"
    using parsesE [of e h "amount_part amount_start" "dec_str n @ []" None "[]" "r\<lparr>rd_pos := q\<rparr>"] r q by auto
  then show "\<exists>q. amount_round amount_start r = (Break None, r\<lparr>rd_pos := q\<rparr>) \<and> before [] (r\<lparr>rd_pos := q\<rparr>)"
    using peek q by (auto simp: amount_round_def)
qed

text \<open>
  A duration that stops after a number, such as \<open>P1\<close>, is refused without any message, and
  \<open>from_str\<close> panics on it.
\<close>

theorem cut_duration_silent:
  assumes "env_ok e" and "n < 2 ^ 32"
  shows "from_str_ex e duration_type (utf8s (fold_text 0 (80 # dec_str n))) = Some (None, [])
    \<and> from_str e duration_type (utf8s (fold_text 0 (80 # dec_str n))) = None"
proof -
  let ?s = "80 # dec_str n"
  let ?r = "reader_new e (utf8s (fold_text 0 ?s))"
  have "parses e no_hints amount_read ?s None []" unfolding amount_read_def
    by (rule parses_rbind [OF parses_eat [OF assms(1) refl] parses_rbind_none [OF parses_cut_amount [OF assms]]])
  then have "parses e no_hints duration_read ?s None []" unfolding duration_read_def
    by (intro parses_rbind [OF parses_sign_P [OF assms(1)] parses_rbind_none [OF parses_any]]) (simp add: amount_type_def plain_type_def)
  then have p: "parses e no_hints (ty_read duration_type) ?s None []" by (simp add: duration_type_def plain_type_def)
  have v: "visible ?s" by simp
  have "clean_text ?s" by (rule visible_clean [OF v])
  then have b: "before ?s ?r" by (intro before_reader_new clean_text_foldable clean_text_scalar)
  obtain q where q: "ty_read duration_type ?r = (None, ?r\<lparr>rd_pos := q\<rparr>)" "before [] (?r\<lparr>rd_pos := q\<rparr>)"
    using parsesE [OF p _ _ b] by (auto simp: reader_new_def no_hints_def)
  have "reader_is_empty (?r\<lparr>rd_pos := q\<rparr>)"
    using before_end_empty [OF q(2)] last_octet [of ?s 0] visible_last [OF v] by (simp add: reader_new_def)
  then show ?thesis using q(1) by (simp add: from_str_def from_str_ex_def reader_new_def)
qed

theorem cut_duration_silent_witness:
  "from_str example_env duration_type (utf8s (fold_text 0 (80 # dec_str 1))) = None"
  using cut_duration_silent [OF example_env_ok, of 1] by simp

end
