(* ===== verification/Recur_Calendar.thy ===== *)
theory Recur_Calendar
  imports Main
begin

text \<open>
  The proleptic Gregorian calendar as functions on day numbers, counted from 1 January 1970, and on
  month numbers, counted from January of the year 0.  Dates of \<open>jiff\<close> in a zone without transitions
  follow it; the facts are those the constraints of recurrence rules rest on.
\<close>

section \<open>Years\<close>

definition is_leap :: "int \<Rightarrow> bool" where
  "is_leap y = (y mod 4 = 0 \<and> (y mod 100 \<noteq> 0 \<or> y mod 400 = 0))"

definition leap_days :: "int \<Rightarrow> int" where
  "leap_days y = y div 4 - y div 100 + y div 400"

definition year_start :: "int \<Rightarrow> int" where
  "year_start y = 365 * (y - 1) + leap_days (y - 1) - 719162"

definition year_of :: "int \<Rightarrow> int" where
  "year_of d = (let e = 400 * (d + 719162) div 146097 + 1
     in if d < year_start e then e - 1 else if year_start (e + 1) \<le> d then e + 1 else e)"

lemma div_step:
  assumes "0 < n"
  shows "(y div n :: int) = (y - 1) div n + (if y mod n = 0 then 1 else 0)"
proof (cases "y mod n = 0")
  case True
  then have "y - 1 = n * (y div n - 1) + (n - 1)" by (auto simp: algebra_simps)
  then have "(y - 1) div n = y div n - 1" by (rule int_div_pos_eq) (use assms in simp_all)
  then show ?thesis using True by simp
next
  case False
  have "y - 1 = n * (y div n) + (y mod n - 1)" by simp
  moreover have "0 \<le> y mod n - 1" "y mod n - 1 < n" using False assms pos_mod_sign [of n y] pos_mod_bound [of n y] by linarith+
  ultimately have "(y - 1) div n = y div n" by (intro int_div_pos_eq) auto
  then show ?thesis using False by simp
qed

lemma leap_days_step: "leap_days y = leap_days (y - 1) + (if is_leap y then 1 else 0)"
proof -
  have four: "y mod 4 = 0" if "y mod 100 = 0"
    using that dvd_trans [of "4 :: int" 100 y] by (simp add: dvd_eq_mod_eq_0 [symmetric])
  have hundred: "y mod 100 = 0" if "y mod 400 = 0"
    using that dvd_trans [of "100 :: int" 400 y] by (simp add: dvd_eq_mod_eq_0 [symmetric])
  have steps: "y div 4 = (y - 1) div 4 + (if y mod 4 = 0 then 1 else 0)"
    "y div 100 = (y - 1) div 100 + (if y mod 100 = 0 then 1 else 0)"
    "y div 400 = (y - 1) div 400 + (if y mod 400 = 0 then 1 else 0)" by (rule div_step; simp)+
  show ?thesis unfolding leap_days_def is_leap_def steps using four hundred
    by (cases "y mod 4 = 0"; cases "y mod 100 = 0"; cases "y mod 400 = 0") simp_all
qed

lemma year_start_step: "year_start (y + 1) = year_start y + (if is_leap y then 366 else 365)"
  using leap_days_step [of y] by (simp add: year_start_def algebra_simps)

lemma leap_gap: "is_leap y \<Longrightarrow> \<not> is_leap (y - 1)"
proof -
  assume "is_leap y"
  then have "y mod 4 = 0" by (simp add: is_leap_def)
  then have "(y - 1) mod 4 = 3" by presburger
  then show ?thesis by (simp add: is_leap_def)
qed

lemma year_start_estimate:
  "146097 * (y - 1) - 700 \<le> 400 * (year_start y + 719162)"
  "400 * (year_start y + 719162) \<le> 146097 * (y - 1) + 400"
proof -
  define x a b c where "x = y - 1" and "a = x div 4" and "b = x div 100" and "c = x div 400"
  have bounds: "4 * a \<le> x" "x \<le> 4 * a + 3" "100 * b \<le> x" "x \<le> 100 * b + 99" "400 * c \<le> x" "x \<le> 400 * c + 399"
    unfolding a_def b_def c_def by presburger+
  have eq: "400 * (year_start y + 719162) = 146000 * x + 400 * a - 400 * b + 400 * c"
    by (simp add: year_start_def leap_days_def a_def b_def c_def x_def)
  show "146097 * (y - 1) - 700 \<le> 400 * (year_start y + 719162)"
    unfolding eq x_def [symmetric] using bounds by linarith
  show "400 * (year_start y + 719162) \<le> 146097 * (y - 1) + 400"
    unfolding eq x_def [symmetric] using bounds by linarith
qed

lemma year_of_bounds: "year_start (year_of d) \<le> d" "d < year_start (year_of d + 1)"
proof -
  define e where "e = 400 * (d + 719162) div 146097 + 1"
  define n where "n = 400 * (d + 719162)"
  define q r where "q = n div 146097" and "r = n mod 146097"
  have rem: "0 \<le> r" "r < 146097" "q * 146097 + r = n" by (simp_all add: q_def r_def)
  have e': "e = q + 1" by (simp add: e_def n_def q_def)
  have "146097 * (e - 1) \<le> n" using rem unfolding e' by simp
  moreover have "n < 146097 * e" using rem unfolding e' by simp
  ultimately have e: "146097 * (e - 1) \<le> 400 * (d + 719162)" "400 * (d + 719162) < 146097 * e" by (simp_all only: n_def)
  have "year_start (e - 1) \<le> d" using year_start_estimate(2) [of "e - 1"] e(1) by simp
  moreover have "d < year_start (e + 2)" using year_start_estimate(1) [of "e + 2"] e(2) by simp
  moreover have "year_of d = (if d < year_start e then e - 1 else if year_start (e + 1) \<le> d then e + 1 else e)"
    unfolding year_of_def Let_def e_def ..
  ultimately show "year_start (year_of d) \<le> d" "d < year_start (year_of d + 1)" by (simp_all add: add.commute)
qed

section \<open>Months\<close>

definition month_offset :: "bool \<Rightarrow> int \<Rightarrow> int" where
  "month_offset leap m =
    (if m \<le> 0 then 0 else if m = 1 then 31
     else (if leap then 1 else 0) + (if m = 2 then 59 else if m = 3 then 90 else if m = 4 then 120 else if m = 5 then 151
       else if m = 6 then 181 else if m = 7 then 212 else if m = 8 then 243 else if m = 9 then 273 else if m = 10 then 304
       else if m = 11 then 334 else 365))"

definition month_start :: "int \<Rightarrow> int" where
  "month_start k = year_start (k div 12) + month_offset (is_leap (k div 12)) (k mod 12)"

definition month_len :: "int \<Rightarrow> int" where
  "month_len k = month_start (k + 1) - month_start k"

definition month_of :: "int \<Rightarrow> int" where
  "month_of d = (let y = year_of d; r = d - year_start y; off = month_offset (is_leap y)
     in 12 * y + (if r < off 1 then 0 else if r < off 2 then 1 else if r < off 3 then 2 else if r < off 4 then 3 else if r < off 5 then 4
       else if r < off 6 then 5 else if r < off 7 then 6 else if r < off 8 then 7 else if r < off 9 then 8 else if r < off 10 then 9
       else if r < off 11 then 10 else 11))"

lemma month_cases:
  "k mod 12 = 0 \<or> k mod 12 = 1 \<or> k mod 12 = 2 \<or> k mod 12 = 3 \<or> k mod 12 = 4 \<or> k mod 12 = 5
   \<or> k mod 12 = 6 \<or> k mod 12 = 7 \<or> k mod 12 = 8 \<or> k mod 12 = 9 \<or> k mod 12 = 10 \<or> k mod 12 = 11" for k :: int
  by presburger

lemma next_month: "(k + 1) div 12 = (if k mod 12 = 11 then k div 12 + 1 else k div 12)"
  "(k + 1) mod 12 = (if k mod 12 = 11 then 0 else k mod 12 + 1)" for k :: int
proof -
  define q r where "q = k div 12" and "r = k mod 12"
  have k: "k = 12 * q + r" "0 \<le> r" "r < 12" by (simp_all add: q_def r_def)
  have "k + 1 = 12 * (if r = 11 then q + 1 else q) + (if r = 11 then 0 else r + 1)" using k by simp
  moreover have "0 \<le> (if r = 11 then 0 else r + 1)" "(if r = 11 then 0 else r + 1) < 12" using k by auto
  ultimately have "(k + 1) div 12 = (if r = 11 then q + 1 else q)" "(k + 1) mod 12 = (if r = 11 then 0 else r + 1)"
    using int_div_pos_eq int_mod_pos_eq by blast+
  then show "(k + 1) div 12 = (if k mod 12 = 11 then k div 12 + 1 else k div 12)"
    "(k + 1) mod 12 = (if k mod 12 = 11 then 0 else k mod 12 + 1)" by (simp_all only: q_def r_def)
qed

lemma month_start_at: "0 \<le> c \<Longrightarrow> c \<le> 12 \<Longrightarrow> month_start (12 * y + c) = year_start y + month_offset (is_leap y) c"
proof (cases "c = 12")
  case True
  have "12 * y + 12 = 12 * (y + 1)" by simp
  then show ?thesis unfolding True month_start_def by (simp add: month_offset_def year_start_step)
next
  case False
  moreover assume "0 \<le> c" "c \<le> 12"
  ultimately show ?thesis by (simp add: month_start_def)
qed

lemma month_len_values:
  "month_len k = (if k mod 12 = 1 then if is_leap (k div 12) then 29 else 28
     else if k mod 12 \<in> {3, 5, 8, 10} then 30 else 31)"
  using month_cases [of k]
  by (elim disjE)
    (simp_all add: month_len_def month_start_def next_month month_offset_def year_start_step)

lemma month_len_bounds: "28 \<le> month_len k" "month_len k \<le> 31"
  by (simp_all add: month_len_values)

text \<open>The neighbours of a short month are long.\<close>

lemma month_len_neighbours:
  assumes "month_len k < 31"
  shows "month_len (k - 1) = 31" "month_len (k + 1) = 31"
proof -
  have "k mod 12 \<in> {1, 3, 5, 8, 10}" using assms by (auto simp: month_len_values split: if_splits)
  moreover have "k mod 12 = (if (k - 1) mod 12 = 11 then 0 else (k - 1) mod 12 + 1)" using next_month(2) [of "k - 1"] by simp
  ultimately show "month_len (k - 1) = 31" "month_len (k + 1) = 31" by (auto simp: month_len_values next_month split: if_splits)
qed

lemma month_start_less: "j < k \<Longrightarrow> month_start j + month_len j \<le> month_start k"
proof (induction k rule: int_gr_induct [where k = j])
  case (step i)
  then show ?case using month_len_bounds(1) [of i] by (simp add: month_len_def)
qed (simp_all add: month_len_def)

lemma month_of_bounds: "month_start (month_of d) \<le> d" "d < month_start (month_of d + 1)"
proof -
  define y r off where "y = year_of d" and "r = d - year_start y" and "off = month_offset (is_leap y)"
  have r: "0 \<le> r" "r < off 12"
    using year_of_bounds [of d] year_start_step [of y] by (auto simp: y_def r_def off_def month_offset_def)
  have "off 0 = 0" by (simp add: off_def month_offset_def)
  define c :: int where "c = (if r < off 1 then 0 else if r < off 2 then 1 else if r < off 3 then 2 else if r < off 4 then 3
    else if r < off 5 then 4 else if r < off 6 then 5 else if r < off 7 then 6 else if r < off 8 then 7 else if r < off 9 then 8
    else if r < off 10 then 9 else if r < off 11 then 10 else 11)"
  have "month_of d = 12 * y + c"
    unfolding month_of_def Let_def y_def [symmetric] r_def [symmetric] off_def [symmetric] c_def ..
  moreover have "0 \<le> c \<and> c < 12 \<and> off c \<le> r \<and> r < off (c + 1)"
    unfolding c_def using r \<open>off 0 = 0\<close> by simp
  ultimately have c: "0 \<le> c" "c < 12" "off c \<le> r" "r < off (c + 1)" "month_of d = 12 * y + c" by simp_all
  then show "month_start (month_of d) \<le> d" "d < month_start (month_of d + 1)"
    using month_start_at [of c y] month_start_at [of "c + 1" y] by (simp_all add: r_def off_def add.assoc)
qed

lemma month_of_eq: "month_of d = k \<longleftrightarrow> month_start k \<le> d \<and> d < month_start (k + 1)"
proof (intro iffI conjI)
  assume k: "month_start k \<le> d \<and> d < month_start (k + 1)"
  show "month_of d = k"
  proof (rule linorder_cases)
    assume "month_of d < k"
    then have "month_start (month_of d + 1) \<le> month_start k"
      using month_start_less [of "month_of d" k] by (simp add: month_len_def)
    then show ?thesis using k month_of_bounds [of d] by simp
  next
    assume "k < month_of d"
    then have "month_start (k + 1) \<le> month_start (month_of d)" using month_start_less [of k "month_of d"] by (simp add: month_len_def)
    then show ?thesis using k month_of_bounds [of d] by simp
  qed
qed (use month_of_bounds in auto)

end
