(* ===== verification/Recur_Picker.thy ===== *)
theory Recur_Picker
  imports Prelude
begin

text \<open>
  The picker of \<open>BYSETPOS\<close> (\<open>shared/ical/src/objects/recur/iter/picker.rs\<close>): it sees the dates of a
  period one by one and lets through those at given positions, counted from the front or from the
  back, without keeping more of them than it must.  Items are compared by a key, as \<open>Ord\<close> of the
  item does.  The lemmas show that a whole period gives the picks of a reference definition.
\<close>

section \<open>The picker\<close>

text \<open>Arithmetic of \<open>i16\<close>, as a release build does it.\<close>

definition i16 :: "int \<Rightarrow> int" where
  "i16 x = (x + 32768) mod 65536 - 32768"

datatype picker_state = Opened (picker_len: int) | Closed

text \<open>How \<open>VecDeque\<close> allocates: \<open>with_capacity(n)\<close> gives a capacity of at least \<open>n\<close>, and a full deque
  grows before an item is added.\<close>

record deque_alloc =
  with_capacity :: "nat \<Rightarrow> nat"
  grown :: "nat \<Rightarrow> nat"

record 'a picker =
  pk_front :: "'a list"
  pk_front_idxs :: "int set"
  pk_back :: "(int \<times> 'a) list"
  pk_back_cap :: nat
  pk_back_idxs :: "int set"
  pk_state :: picker_state

definition back_capacity :: "int list \<Rightarrow> nat" where
  "back_capacity idxs = fold (\<lambda>idx cap. max cap (nat \<bar>idx\<bar>)) (filter (\<lambda>idx. idx \<le> 0) idxs) 0"

definition picker_new :: "deque_alloc \<Rightarrow> int list \<Rightarrow> 'a picker option" where
  "picker_new A idxs =
    (let front_idxs = filter (\<lambda>idx. idx > 0) idxs;
         back_idxs = filter (\<lambda>idx. idx \<le> 0) idxs;
         back_cap = back_capacity idxs
     in if front_idxs = [] \<and> back_cap = 0 then None
        else Some \<lparr>pk_front = [], pk_front_idxs = set front_idxs, pk_back = [], pk_back_cap = with_capacity A back_cap,
          pk_back_idxs = set back_idxs, pk_state = Opened 0\<rparr>)"

text \<open>\<open>VecDeque::push_back\<close>.\<close>

definition back_push :: "deque_alloc \<Rightarrow> int \<times> 'a \<Rightarrow> 'a picker \<Rightarrow> 'a picker" where
  "back_push A x p = p\<lparr>pk_back := pk_back p @ [x],
     pk_back_cap := (if length (pk_back p) = pk_back_cap p then grown A (pk_back_cap p) else pk_back_cap p)\<rparr>"

definition picker_push :: "deque_alloc \<Rightarrow> 'a \<Rightarrow> 'a picker \<Rightarrow> 'a option \<times> 'a picker" where
  "picker_push A item p = (case pk_state p of
     Closed \<Rightarrow> (None, p)
   | Opened l \<Rightarrow>
       (let len = i16 (l + 1); p = p\<lparr>pk_state := Opened len\<rparr>
        in if len \<in> pk_front_idxs p
           then if pk_back_idxs p = {} then (Some item, p)
                else (None, p\<lparr>pk_front := pk_front p @ [item]\<rparr>)
           else if pk_back_idxs p \<noteq> {}
           then (let p = (if length (pk_back p) = pk_back_cap p then p\<lparr>pk_back := tl (pk_back p)\<rparr> else p)
                 in (None, back_push A (len, item) p))
           else (None, p)))"

definition picker_close :: "'a picker \<Rightarrow> 'a picker" where
  "picker_close p = (case pk_state p of
     Closed \<Rightarrow> p
   | Opened len \<Rightarrow> p\<lparr>pk_back := map (\<lambda>(idx, x). (i16 (i16 (idx - len) - 1), x)) (pk_back p), pk_state := Closed\<rparr>)"

definition picker_pull :: "('a \<Rightarrow> int) \<Rightarrow> 'a picker \<Rightarrow> 'a option \<times> 'a picker" where
  "picker_pull key p = (case pk_state p of
     Opened _ \<Rightarrow> (None, p)
   | Closed \<Rightarrow>
       (let back = dropWhile (\<lambda>(idx, _). idx \<notin> pk_back_idxs p) (pk_back p); p = p\<lparr>pk_back := back\<rparr>
        in case (pk_front p, back) of
             (f # fs, (_, b) # bs) \<Rightarrow>
               if key f < key b then (Some f, p\<lparr>pk_front := fs\<rparr>) else (Some b, p\<lparr>pk_back := bs\<rparr>)
           | (f # fs, []) \<Rightarrow> (Some f, p\<lparr>pk_front := fs\<rparr>)
           | ([], (_, b) # bs) \<Rightarrow> (Some b, p\<lparr>pk_back := bs\<rparr>)
           | ([], []) \<Rightarrow> (None, p\<lparr>pk_state := Opened 0\<rparr>)))"

definition picker_reset :: "'a picker \<Rightarrow> 'a picker" where
  "picker_reset p = p\<lparr>pk_front := [], pk_back := [], pk_state := Opened 0\<rparr>"

text \<open>\<open>Clone\<close>: the deque of the copy holds the items, its capacity is what the allocation gives for them.\<close>

definition picker_clone :: "deque_alloc \<Rightarrow> 'a picker \<Rightarrow> 'a picker" where
  "picker_clone A p = p\<lparr>pk_back_cap := with_capacity A (length (pk_back p))\<rparr>"

section \<open>A whole period\<close>

text \<open>The caller: push every item, close, pull until nothing comes; at most one pull per item kept.\<close>

fun push_all :: "deque_alloc \<Rightarrow> 'a list \<Rightarrow> 'a picker \<Rightarrow> 'a list \<times> 'a picker" where
  "push_all A [] p = ([], p)"
| "push_all A (x # xs) p = (case picker_push A x p of (out, p1) \<Rightarrow>
     (case push_all A xs p1 of (outs, p2) \<Rightarrow> (case out of Some y \<Rightarrow> y # outs | None \<Rightarrow> outs, p2)))"

fun pull_all :: "nat \<Rightarrow> ('a \<Rightarrow> int) \<Rightarrow> 'a picker \<Rightarrow> ('a list \<times> 'a picker) option" where
  "pull_all 0 key p = None"
| "pull_all (Suc n) key p = (case picker_pull key p of
     (None, p1) \<Rightarrow> Some ([], p1)
   | (Some y, p1) \<Rightarrow> (case pull_all n key p1 of None \<Rightarrow> None | Some (ys, p2) \<Rightarrow> Some (y # ys, p2)))"

definition pick_period :: "deque_alloc \<Rightarrow> ('a \<Rightarrow> int) \<Rightarrow> 'a list \<Rightarrow> 'a picker \<Rightarrow> ('a list \<times> 'a picker) option" where
  "pick_period A key xs p = (case push_all A xs p of (outs, p1) \<Rightarrow>
     (case pull_all (Suc (length xs)) key (picker_close p1) of
        None \<Rightarrow> None
      | Some (ys, p2) \<Rightarrow> Some (outs @ ys, p2)))"

text \<open>The reference: number the items from 1, keep those whose number from the front or, from the
  back and negative, is asked for.\<close>

definition numbered :: "'a list \<Rightarrow> (int \<times> 'a) list" where
  "numbered xs = map (\<lambda>(i, x). (int i, x)) (List.enumerate 1 xs)"

definition pick :: "int list \<Rightarrow> 'a list \<Rightarrow> 'a list" where
  "pick idxs xs = map snd (filter (\<lambda>(i, x). i \<in> set idxs \<or> i - int (length xs) - 1 \<in> set idxs) (numbered xs))"

section \<open>Numbered items\<close>

lemma i16_id [simp]: "- 32768 \<le> x \<Longrightarrow> x < 32768 \<Longrightarrow> i16 x = x"
  by (simp add: i16_def)

lemma numbered_snoc [simp]: "numbered [] = []" "numbered (xs @ [x]) = numbered xs @ [(int (length xs) + 1, x)]"
  by (simp_all add: numbered_def enumerate_append_eq)

lemma numbered_range: "(i, x) \<in> set (numbered xs) \<Longrightarrow> 1 \<le> i \<and> i \<le> int (length xs)"
  by (auto simp: numbered_def in_set_enumerate_eq)

lemma numbered_sorted: "sorted_wrt (<) (map fst (numbered xs))"
  by (induction xs rule: rev_induct) (auto simp: sorted_wrt_append dest: numbered_range)

lemma map_snd_numbered: "map snd (numbered xs) = xs"
  by (induction xs rule: rev_induct) auto

lemma numbered_keys:
  assumes "sorted_wrt (\<lambda>x y. key x < key y) xs"
  shows "sorted_wrt (\<lambda>x y. key (snd x) < key (snd y)) (numbered xs)"
  using assms map_snd_numbered [of xs] sorted_wrt_map [of "\<lambda>x y. key x < key y" snd "numbered xs"] by simp

text \<open>Items in front of others are far from the end.\<close>

lemma far_from_end:
  fixes n :: int
  assumes "sorted_wrt (<) (us @ vs)" and "i \<in> set us" and "\<forall>v \<in> set vs. v \<le> n" and "i \<le> n"
  shows "i + int (length vs) \<le> n"
proof -
  have "distinct vs" using assms(1) by (simp add: sorted_wrt_append strict_sorted_iff)
  moreover have "set vs \<subseteq> {i + 1..n}" using assms by (fastforce simp: sorted_wrt_append)
  then have "card (set vs) \<le> card {i + 1..n}" by (intro card_mono) auto
  ultimately show ?thesis using assms(4) by (simp add: distinct_card)
qed

section \<open>Merging\<close>

fun merge_by :: "('a \<Rightarrow> int) \<Rightarrow> 'a list \<Rightarrow> 'a list \<Rightarrow> 'a list" where
  "merge_by key [] bs = bs"
| "merge_by key fs [] = fs"
| "merge_by key (f # fs) (b # bs) = (if key f < key b then f # merge_by key fs (b # bs) else b # merge_by key (f # fs) bs)"

lemma merge_by_Nil [simp]: "merge_by key fs [] = fs"
  by (cases fs) simp_all

lemma merge_first:
  "\<forall>b \<in> set bs. key f < key b \<Longrightarrow> merge_by key (f # fs) bs = f # merge_by key fs bs"
  "\<forall>f \<in> set fs. key b < key f \<Longrightarrow> merge_by key fs (b # bs) = b # merge_by key fs bs"
  by (cases bs; auto) (cases fs; auto)

lemma merge_filters:
  assumes "sorted_wrt (\<lambda>x y. key x < key y) xs" and "\<And>x. x \<in> set xs \<Longrightarrow> \<not> (P x \<and> Q x)"
  shows "merge_by key (filter P xs) (filter Q xs) = filter (\<lambda>x. P x \<or> Q x) xs"
  using assms
proof (induction xs)
  case (Cons x xs)
  then have IH: "merge_by key (filter P xs) (filter Q xs) = filter (\<lambda>x. P x \<or> Q x) xs" by simp
  have "\<forall>y \<in> set (filter Q xs). key x < key y" "\<forall>y \<in> set (filter P xs). key x < key y" using Cons.prems(1) by auto
  then show ?case using merge_first [of "filter Q xs" key x] merge_first(2) [of "filter P xs" key x] IH Cons.prems(2) [of x] by auto
qed simp

lemma merge_map: "merge_by key (map g xs) (map g ys) = map g (merge_by (\<lambda>x. key (g x)) xs ys)"
  by (induction "\<lambda>x. key (g x)" xs ys rule: merge_by.induct) auto

lemma filter_dropWhile: "filter P (dropWhile (\<lambda>x. \<not> P x) xs) = filter P xs"
  by (induction xs) auto

lemma pull_all_merges:
  assumes "pk_state p = Closed" and "length (pk_front p) + length (filter (\<lambda>(i, _). i \<in> pk_back_idxs p) (pk_back p)) < n"
  shows "pull_all n key p = Some (merge_by key (pk_front p) (map snd (filter (\<lambda>(i, _). i \<in> pk_back_idxs p) (pk_back p))),
    p\<lparr>pk_front := [], pk_back := [], pk_state := Opened 0\<rparr>)"
  using assms
proof (induction n arbitrary: p)
  case (Suc n)
  let ?B = "\<lambda>(i, _). i \<in> pk_back_idxs p"
  let ?kept = "dropWhile (\<lambda>(i, _). i \<notin> pk_back_idxs p) (pk_back p)"
  have eq: "(\<lambda>(i, _). i \<notin> pk_back_idxs p) = (\<lambda>x. \<not> ?B x)" by auto
  have same: "filter ?B ?kept = filter ?B (pk_back p)" unfolding eq by (rule filter_dropWhile)
  have hd: "?B (hd ?kept)" if "?kept \<noteq> []" using hd_dropWhile [OF that] by auto
  show ?case
  proof (cases "pk_front p")
    case Nil
    show ?thesis
    proof (cases ?kept)
      case (Cons b bs)
      have "filter ?B (pk_back p) = b # filter ?B bs" using same Cons hd by simp
      then show ?thesis using Nil Cons Suc.prems Suc.IH [of "p\<lparr>pk_back := bs\<rparr>"]
        by (cases b) (auto simp: picker_pull_def Let_def)
    next
      case empty: Nil
      have none: "filter ?B (pk_back p) = []" unfolding same [symmetric] empty by simp
      have "picker_pull key p = (None, p\<lparr>pk_front := [], pk_back := [], pk_state := Opened 0\<rparr>)"
        unfolding picker_pull_def Let_def empty by (simp add: Nil Suc.prems(1))
      then show ?thesis unfolding none by (simp add: Nil)
    qed
  next
    case (Cons f fs)
    note front = Cons
    show ?thesis
    proof (cases ?kept)
      case Nil
      have none: "filter ?B (pk_back p) = []" unfolding same [symmetric] Nil by simp
      have "picker_pull key p = (Some f, p\<lparr>pk_front := fs, pk_back := []\<rparr>)"
        unfolding picker_pull_def Let_def Nil by (simp add: front Suc.prems(1))
      then show ?thesis using Suc.prems Suc.IH [of "p\<lparr>pk_front := fs, pk_back := []\<rparr>"] unfolding none by (simp add: front)
    next
      case (Cons b bs)
      have "filter ?B (pk_back p) = b # filter ?B bs" "?B b" using same Cons hd by simp_all
      then show ?thesis
        using front Cons Suc.prems Suc.IH [of "p\<lparr>pk_back := b # bs, pk_front := fs\<rparr>"] Suc.IH [of "p\<lparr>pk_back := bs\<rparr>"]
        by (cases b) (auto simp: picker_pull_def Let_def)
    qed
  qed
qed simp

section \<open>Pushing\<close>

definition alloc_ok :: "deque_alloc \<Rightarrow> bool" where
  "alloc_ok A = (\<forall>n. n \<le> with_capacity A n \<and> n < grown A n)"

text \<open>The state after the items \<open>xs\<close> of a period.\<close>

definition has_seen :: "int list \<Rightarrow> 'a list \<Rightarrow> 'a picker \<Rightarrow> bool" where
  "has_seen idxs xs p =
    (pk_state p = Opened (int (length xs)) \<and> pk_front_idxs p = {i \<in> set idxs. i > 0} \<and> pk_back_idxs p = {i \<in> set idxs. i \<le> 0}
     \<and> back_capacity idxs \<le> pk_back_cap p
     \<and> (if pk_back_idxs p = {} then pk_front p = [] \<and> pk_back p = []
        else pk_front p = map snd (filter (\<lambda>(i, _). i \<in> set idxs) (numbered xs))
          \<and> (\<exists>k. pk_back p = drop k (filter (\<lambda>(i, _). i \<notin> set idxs) (numbered xs))
               \<and> (k > 0 \<longrightarrow> back_capacity idxs \<le> length (pk_back p)))))"

lemma back_capacity_bound:
  assumes "i \<in> set idxs" and "i \<le> 0"
  shows "- i \<le> int (back_capacity idxs)"
proof -
  have "c \<le> fold (\<lambda>idx cap. max cap (nat \<bar>idx\<bar>)) js c \<and> (\<forall>j \<in> set js. nat \<bar>j\<bar> \<le> fold (\<lambda>idx cap. max cap (nat \<bar>idx\<bar>)) js c)"
    for js :: "int list" and c
  proof (induction js arbitrary: c)
    case (Cons j js)
    show ?case using Cons [of "max c (nat \<bar>j\<bar>)"] by simp
  qed simp
  from this [of 0 "filter (\<lambda>idx. idx \<le> 0) idxs"] have "nat \<bar>i\<bar> \<le> back_capacity idxs"
    using assms by (simp add: back_capacity_def)
  then show ?thesis using assms(2) by linarith
qed

lemma push_seen:
  assumes "alloc_ok A" and "has_seen idxs xs p" and "length xs < 32767" and push: "picker_push A x p = (out, p')"
  shows "has_seen idxs (xs @ [x]) p'"
    and "out = (if pk_back_idxs p = {} \<and> int (length xs) + 1 \<in> set idxs then Some x else None)"
proof -
  let ?n = "int (length xs) + 1"
  let ?rests = "\<lambda>ys. filter (\<lambda>(i, _). i \<notin> set idxs) (numbered ys)"
  have n: "i16 ?n = ?n" using assms(3) by simp
  note seen = assms(2) [unfolded has_seen_def]
  show "out = (if pk_back_idxs p = {} \<and> int (length xs) + 1 \<in> set idxs then Some x else None)"
    using seen push by (auto simp: picker_push_def Let_def n split: if_splits)
  show "has_seen idxs (xs @ [x]) p'"
  proof (cases "pk_back_idxs p = {} \<or> ?n \<in> set idxs")
    case True
    have same: "pk_back p' = pk_back p" "pk_back_cap p' = pk_back_cap p" "pk_back_idxs p' = pk_back_idxs p"
      "pk_front_idxs p' = pk_front_idxs p" "pk_state p' = Opened ?n"
      "pk_front p' = (if pk_back_idxs p = {} then pk_front p else pk_front p @ [x])"
      using True seen push n by (auto simp: picker_push_def Let_def split: if_splits)
    show ?thesis
    proof (cases "pk_back_idxs p = {}")
      case no_back: True
      then show ?thesis using seen unfolding has_seen_def same by simp
    next
      case False
      with True have "?n \<in> set idxs" by simp
      then show ?thesis using False seen unfolding has_seen_def same by simp
    qed
  next
    case False
    then obtain k where k: "pk_back p = drop k (?rests xs)" "k > 0 \<longrightarrow> back_capacity idxs \<le> length (pk_back p)"
      using seen by (metis (no_types, lifting))
    have cap: "back_capacity idxs \<le> pk_back_cap p" using seen by simp
    define full where "full = (length (pk_back p) = pk_back_cap p)"
    let ?kept = "if full then tl (pk_back p) else pk_back p"
    have p': "p' = back_push A (?n, x) (p\<lparr>pk_state := Opened ?n, pk_back := ?kept\<rparr>)"
      using push False seen n by (auto simp: picker_push_def Let_def full_def split: if_splits)
    have capacity: "back_capacity idxs \<le> pk_back_cap p'"
      using cap assms(1) less_imp_le [of "pk_back_cap p" "grown A (pk_back_cap p)"] order_trans
      by (auto simp: p' back_push_def alloc_ok_def)
    have "\<exists>j. pk_back p' = drop j (?rests (xs @ [x])) \<and> (j > 0 \<longrightarrow> back_capacity idxs \<le> length (pk_back p'))"
    proof (cases "full \<and> pk_back p \<noteq> []")
      case True
      then have "k < length (?rests xs)" using k(1) by auto
      then have "tl (pk_back p) @ [(?n, x)] = drop (Suc k) (?rests (xs @ [x]))" using k(1) False by (simp add: tl_drop drop_Suc [symmetric] flip: drop_Suc)
      moreover have "length (pk_back p') = pk_back_cap p" using True by (cases "pk_back p") (auto simp: p' back_push_def full_def)
      ultimately show ?thesis using True cap by (intro exI [of _ "Suc k"]) (simp add: p' back_push_def)
    next
      case nf: False
      then have "?kept = pk_back p" by auto
      moreover have "drop (min k (length (?rests xs))) (?rests xs) = drop k (?rests xs)" by (simp add: min_def)
      then have "pk_back p @ [(?n, x)] = drop (min k (length (?rests xs))) (?rests (xs @ [x]))" using k(1) False by simp
      ultimately show ?thesis using k(2) False by (intro exI [of _ "min k (length (?rests xs))"]) (auto simp: p' back_push_def)
    qed
    then show ?thesis using False seen capacity by (auto simp: has_seen_def p' back_push_def)
  qed
qed

lemma push_all_seen:
  assumes "alloc_ok A" and "has_seen idxs xs p" and "length xs + length ys < 32768" and "push_all A ys p = (outs, p')"
  shows "has_seen idxs (xs @ ys) p' \<and>
    outs = (if {i \<in> set idxs. i \<le> 0} = {} then map snd (filter (\<lambda>(i, _). int i \<in> set idxs) (List.enumerate (Suc (length xs)) ys))
            else [])"
  using assms(2-)
proof (induction ys arbitrary: xs p outs)
  case (Cons y ys)
  obtain out p1 outs1 where push: "picker_push A y p = (out, p1)" and rest: "push_all A ys p1 = (outs1, p')"
    and outs: "outs = (case out of Some z \<Rightarrow> z # outs1 | None \<Rightarrow> outs1)"
    using Cons.prems(3) by (auto split: prod.splits)
  have "length xs < 32767" using Cons.prems(2) by simp
  note one = push_seen [OF assms(1) Cons.prems(1) this push]
  have asks: "pk_back_idxs p = {i \<in> set idxs. i \<le> 0}" using Cons.prems(1) by (simp add: has_seen_def)
  have "length (xs @ [y]) + length ys < 32768" using Cons.prems(2) by simp
  from Cons.IH [OF one(1) this rest] show ?case
    unfolding outs one(2) asks by (cases "{i \<in> set idxs. i \<le> 0} = {}") (auto simp: add.commute)
qed simp

lemma numbered_filter:
  "map snd (filter (\<lambda>(i, _). P i) (numbered xs)) = map snd (filter (\<lambda>(i, _). P (int i)) (List.enumerate (Suc 0) xs))"
  by (simp add: numbered_def filter_map comp_def case_prod_unfold)

text \<open>What the deque has dropped is too far from the end to be asked for.\<close>

lemma dropped_not_asked:
  assumes k: "(i, x) \<in> set (take k (filter P (numbered xs)))"
    and room: "k > 0 \<longrightarrow> back_capacity idxs \<le> length (drop k (filter P (numbered xs)))"
  shows "i - int (length xs) - 1 \<notin> set idxs"
proof
  let ?l = "filter P (numbered xs)"
  assume asked: "i - int (length xs) - 1 \<in> set idxs"
  have i: "1 \<le> i \<and> i \<le> int (length xs)" using numbered_range [of i x xs] in_set_takeD [OF k] by simp
  have "sorted_wrt (\<lambda>a b. fst a < fst b) (numbered xs)" using numbered_sorted [of xs] by (simp add: sorted_wrt_map)
  then have "sorted_wrt (<) (map fst ?l)" by (simp add: sorted_wrt_map sorted_wrt_filter)
  then have "sorted_wrt (<) (map fst (take k ?l) @ map fst (drop k ?l))" by (simp flip: map_append)
  moreover have "i \<in> set (map fst (take k ?l))" using k by force
  moreover have "\<forall>v \<in> set (map fst (drop k ?l)). v \<le> int (length xs)" by (auto dest!: in_set_dropD dest: numbered_range)
  ultimately have "i + int (length (map fst (drop k ?l))) \<le> int (length xs)" using i far_from_end by blast
  moreover have "back_capacity idxs \<le> length (drop k ?l)" using room k by (cases "k = 0") auto
  moreover have "- (i - int (length xs) - 1) \<le> int (back_capacity idxs)" using back_capacity_bound [OF asked] i by simp
  ultimately show False by simp
qed

text \<open>The items kept, numbered from the back, give the picks from the back that are not picks from the front.\<close>

lemma kept_back_picks:
  assumes kept: "bs = drop k (filter (\<lambda>(i, _). i \<notin> set idxs) (numbered xs))"
    and room: "k > 0 \<longrightarrow> back_capacity idxs \<le> length bs"
  shows "filter (\<lambda>(i, _). i - int (length xs) - 1 \<in> set idxs) bs =
    filter (\<lambda>(i, _). i \<notin> set idxs \<and> i - int (length xs) - 1 \<in> set idxs) (numbered xs)"
proof -
  let ?l = "filter (\<lambda>(i, _). i \<notin> set idxs) (numbered xs)"
  let ?B = "\<lambda>(i, _). i - int (length xs) - 1 \<in> set idxs"
  have "filter ?B (take k ?l) = []"
    using dropped_not_asked [of _ _ k "\<lambda>(i, _). i \<notin> set idxs" xs idxs] room by (auto simp: filter_empty_conv kept)
  then have "filter ?B bs = filter ?B (take k ?l @ drop k ?l)" unfolding kept filter_append by simp
  also have "\<dots> = filter (\<lambda>(i, _). i \<notin> set idxs \<and> i - int (length xs) - 1 \<in> set idxs) (numbered xs)"
    by (auto intro: filter_cong)
  finally show ?thesis .
qed

lemma close_back:
  assumes "has_seen idxs xs p" and "length xs < 32768"
  shows "map snd (filter (\<lambda>(i, _). i \<in> pk_back_idxs (picker_close p)) (pk_back (picker_close p))) =
    map snd (filter (\<lambda>(i, _). i - int (length xs) - 1 \<in> set idxs) (pk_back p))"
proof -
  let ?n = "int (length xs)"
  have state: "pk_state p = Opened ?n" "pk_back_idxs p = {i \<in> set idxs. i \<le> 0}" using assms(1) by (simp_all add: has_seen_def)
  have inside: "set (pk_back p) \<subseteq> set (numbered xs)"
    using assms(1) by (auto simp: has_seen_def split: if_splits dest!: in_set_dropD)
  have "i16 (i16 (i - ?n) - 1) = i - ?n - 1 \<and> i - ?n - 1 \<le> 0" if "(i, x) \<in> set (pk_back p)" for i x
  proof -
    have "1 \<le> i \<and> i \<le> ?n" using that inside numbered_range [of i x xs] by auto
    then show ?thesis using assms(2) by simp
  qed
  then show ?thesis
    by (auto simp: picker_close_def state filter_map comp_def case_prod_unfold intro!: arg_cong [where f = "map snd"] filter_cong)
qed

text \<open>A picker between two periods.\<close>

lemma new_picker_ready: "alloc_ok A \<Longrightarrow> picker_new A idxs = Some p \<Longrightarrow> has_seen idxs [] p"
  by (auto simp: picker_new_def has_seen_def Let_def alloc_ok_def split: if_splits)

lemma reset_picker_ready: "has_seen idxs xs p \<Longrightarrow> has_seen idxs [] (picker_reset p)"
  by (auto simp: has_seen_def picker_reset_def)

lemma pick_period_picks:
  assumes A: "alloc_ok A" and ready: "has_seen idxs [] p" and len: "length xs < 32768"
    and sorted: "sorted_wrt (\<lambda>x y. key x < key y) xs"
  shows "\<exists>p'. pick_period A key xs p = Some (pick idxs xs, p') \<and> has_seen idxs [] p'"
proof -
  let ?n = "int (length xs)"
  let ?F = "\<lambda>(i, _). i \<in> set idxs" and ?B = "\<lambda>(i, _). i - ?n - 1 \<in> set idxs"
  obtain outs p1 where push: "push_all A xs p = (outs, p1)" by (cases "push_all A xs p")
  have seen: "has_seen idxs xs p1"
    and outs: "outs = (if {i \<in> set idxs. i \<le> 0} = {} then map snd (filter ?F (numbered xs)) else [])"
    using push_all_seen [OF A ready _ push] len by (auto simp: numbered_filter split: if_splits)
  let ?c = "picker_close p1"
  have closed: "pk_state ?c = Closed" "pk_front ?c = pk_front p1" using seen by (simp_all add: has_seen_def picker_close_def)
  have pick: "pick idxs xs = map snd (filter (\<lambda>x. ?F x \<or> ?B x) (numbered xs))"
    unfolding pick_def by (simp add: case_prod_unfold)
  let ?fs = "if {i \<in> set idxs. i \<le> 0} = {} then [] else filter ?F (numbered xs)"
  let ?bs = "filter (\<lambda>x. \<not> ?F x \<and> ?B x) (numbered xs)"
  have backs: "map snd (filter (\<lambda>(i, _). i \<in> pk_back_idxs ?c) (pk_back ?c)) = map snd ?bs"
    unfolding close_back [OF seen len]
  proof (cases "{i \<in> set idxs. i \<le> 0} = {}")
    case True
    then have "pk_back p1 = []" using seen by (simp add: has_seen_def)
    moreover have "?bs = []" using True by (fastforce simp: filter_empty_conv dest: numbered_range)
    ultimately show "map snd (filter ?B (pk_back p1)) = map snd ?bs" by simp
  next
    case False
    then obtain k where "pk_back p1 = drop k (filter (\<lambda>(i, _). i \<notin> set idxs) (numbered xs))"
      "k > 0 \<longrightarrow> back_capacity idxs \<le> length (pk_back p1)"
      using seen unfolding has_seen_def by (metis (no_types, lifting))
    from kept_back_picks [OF this] show "map snd (filter ?B (pk_back p1)) = map snd ?bs" by (simp add: case_prod_unfold)
  qed
  have fronts: "pk_front ?c = map snd ?fs" using seen by (simp add: closed has_seen_def)
  have "length ?fs + length ?bs \<le> length (filter ?F (numbered xs)) + length (filter (\<lambda>x. \<not> ?F x) (numbered xs))"
    by (intro add_mono) (auto simp flip: filter_filter)
  then have few: "length ?fs + length ?bs < Suc (length xs)"
    using sum_length_filter_compl [of ?F "numbered xs"] by (simp add: numbered_def)
  have "length (filter (\<lambda>(i, _). i \<in> pk_back_idxs ?c) (pk_back ?c)) = length ?bs" using arg_cong [OF backs, of length] by simp
  then have pulled: "pull_all (Suc (length xs)) key ?c = Some (merge_by key (map snd ?fs) (map snd ?bs),
      ?c\<lparr>pk_front := [], pk_back := [], pk_state := Opened 0\<rparr>)"
    using pull_all_merges [OF closed(1), where n = "Suc (length xs)" and key = key] few unfolding fronts backs by simp
  have "outs @ merge_by key (map snd ?fs) (map snd ?bs) = pick idxs xs"
  proof (cases "{i \<in> set idxs. i \<le> 0} = {}")
    case True
    then have "\<not> ?B x" if "x \<in> set (numbered xs)" for x using that by (fastforce dest: numbered_range)
    then show ?thesis using True unfolding outs pick by (auto intro!: arg_cong [where f = "map snd"] filter_cong simp: filter_empty_conv)
  next
    case False
    have "merge_by (\<lambda>x. key (snd x)) (filter ?F (numbered xs)) ?bs = filter (\<lambda>x. ?F x \<or> (\<not> ?F x \<and> ?B x)) (numbered xs)"
      by (rule merge_filters [OF numbered_keys [OF sorted]]) auto
    then show ?thesis using False unfolding outs pick merge_map by (auto intro!: arg_cong [where f = "map snd"] filter_cong)
  qed
  moreover have "has_seen idxs [] (?c\<lparr>pk_front := [], pk_back := [], pk_state := Opened 0\<rparr>)"
    using reset_picker_ready [OF seen] seen by (simp add: has_seen_def picker_close_def picker_reset_def cong: if_cong)
  ultimately show ?thesis unfolding pick_period_def push prod.case pulled option.case by blast
qed

text \<open>An allocator that gives what it is asked for and doubles, as \<open>RawVec\<close> does.\<close>

definition exact_alloc :: deque_alloc where
  "exact_alloc = \<lparr>with_capacity = \<lambda>n. n, grown = \<lambda>n. max (2 * n) 4\<rparr>"

lemma exact_alloc_ok: "alloc_ok exact_alloc"
  by (auto simp: alloc_ok_def exact_alloc_def)

end
