(* ===== verification/Recur_Facts.thy ===== *)
theory Recur_Facts
  imports Ics_Recur Recur_Picker "HOL-Library.Signed_Division"
begin

text \<open>
  The constraints of a recurrence rule (\<open>shared/ical/src/objects/recur/iter/fact.rs\<close>): every part of a
  rule becomes a function that takes a date to itself when it matches and else to a later date, and
  the rule is their composition.  Dates with time zones, spans and their arithmetic are those of the
  library \<open>jiff\<close>; its operations are the fields of the record \<open>jiff\<close>, which
  every definition takes as an argument.
\<close>

section \<open>Dates with time zones\<close>

datatype jiff_unit = USecond | UMinute | UHour | UDay | UWeek | UMonth | UYear

text \<open>
  \<open>'z\<close> stands for \<open>Zoned\<close>, \<open>'s\<close> for \<open>Span\<close>, \<open>'e\<close> for \<open>Error\<close> and \<open>'c\<close> for \<open>civil::DateTime\<close>.  \<open>Zoned\<close> is
  compared by its instant.  \<open>z_with h m s\<close> is \<open>with()\<close>, the setters that are present, and \<open>build()\<close>;
  \<open>j_civil\<close> is \<open>from_parts\<close> of \<open>civil::date\<close> and \<open>civil::time\<close>, which panic outside their ranges (\<open>None\<close>);
  \<open>j_windows\<close> is the generated table \<open>mail_ical_tz::windows_to_tzdb\<close>.
\<close>

record ('z, 's, 'e, 'c) jiff =
  j_civil :: "int \<times> int \<times> int \<Rightarrow> int \<times> int \<times> int \<Rightarrow> 'c option"
  j_unknown_zoned :: "'c \<Rightarrow> 'e + 'z"
  j_utc_zoned :: "'c \<Rightarrow> 'e + 'z"
  j_in_tz :: "ustring \<Rightarrow> 'c \<Rightarrow> 'e + 'z"
  j_windows :: "ustring \<Rightarrow> ustring option"
  instant :: "'z \<Rightarrow> int"
  z_date :: "'z \<Rightarrow> int \<times> int \<times> int"
  z_month :: "'z \<Rightarrow> int"
  z_day :: "'z \<Rightarrow> int"
  z_day_of_year :: "'z \<Rightarrow> int"
  z_weekday :: "'z \<Rightarrow> weekday"
  z_hour :: "'z \<Rightarrow> int"
  z_minute :: "'z \<Rightarrow> int"
  z_second :: "'z \<Rightarrow> int"
  z_with :: "int option \<Rightarrow> int option \<Rightarrow> int option \<Rightarrow> 'z \<Rightarrow> 'e + 'z"
  z_start_of_day :: "'z \<Rightarrow> 'e + 'z"
  z_tomorrow :: "'z \<Rightarrow> 'e + 'z"
  z_first_of_month :: "'z \<Rightarrow> 'e + 'z"
  z_last_of_month :: "'z \<Rightarrow> 'e + 'z"
  z_first_of_year :: "'z \<Rightarrow> 'e + 'z"
  z_last_of_year :: "'z \<Rightarrow> 'e + 'z"
  z_nth_weekday :: "int \<Rightarrow> weekday \<Rightarrow> 'z \<Rightarrow> 'e + 'z"
  z_nth_weekday_of_month :: "int \<Rightarrow> weekday \<Rightarrow> 'z \<Rightarrow> 'e + 'z"
  weekday_until :: "weekday \<Rightarrow> weekday \<Rightarrow> int"
  span_seconds :: "int \<Rightarrow> 's"
  span_try :: "jiff_unit \<Rightarrow> int \<Rightarrow> 'e + 's"
  checked_add :: "'s \<Rightarrow> 'z \<Rightarrow> 'e + 'z"
  checked_sub :: "'s \<Rightarrow> 'z \<Rightarrow> 'e + 'z"
  z_since :: "'z \<Rightarrow> 'z \<Rightarrow> 'e + 's"
  span_round :: "jiff_unit \<Rightarrow> 'z \<Rightarrow> 's \<Rightarrow> 'e + 's"
  span_get :: "jiff_unit \<Rightarrow> 's \<Rightarrow> int"

text \<open>\<open>x?\<close>.\<close>

definition attempt :: "'e + 'a \<Rightarrow> ('a \<Rightarrow> 'e + 'b) \<Rightarrow> 'e + 'b" where
  "attempt r k = (case r of Inl e \<Rightarrow> Inl e | Inr x \<Rightarrow> k x)"

lemma attempt_simps [simp]: "attempt (Inl e) k = Inl e" "attempt (Inr x) k = k x"
  by (simp_all add: attempt_def)

lemma attempt_ok: "attempt r k = Inr y \<longleftrightarrow> (\<exists>x. r = Inr x \<and> k x = Inr y)"
  by (cases r) simp_all

text \<open>Casts and arithmetic of small signed integers.\<close>

definition i8 :: "int \<Rightarrow> int" where
  "i8 x = (x + 128) mod 256 - 128"

definition i32 :: "int \<Rightarrow> int" where
  "i32 x = (x + 2147483648) mod 4294967296 - 2147483648"

lemma i8_id [simp]: "- 128 \<le> x \<Longrightarrow> x < 128 \<Longrightarrow> i8 x = x"
  by (simp add: i8_def)

lemma i32_id [simp]: "- 2147483648 \<le> x \<Longrightarrow> x < 2147483648 \<Longrightarrow> i32 x = x"
  by (simp add: i32_def)

text \<open>\<open>cur.checked_add(JiffSpan::new().try_<unit>(n)?)\<close> and the same with \<open>checked_sub\<close>.\<close>

definition plus_units :: "('z, 's, 'e, 'c) jiff \<Rightarrow> jiff_unit \<Rightarrow> int \<Rightarrow> 'z \<Rightarrow> 'e + 'z" where
  "plus_units J u n z = attempt (span_try J u n) (\<lambda>s. checked_add J s z)"

definition minus_units :: "('z, 's, 'e, 'c) jiff \<Rightarrow> jiff_unit \<Rightarrow> int \<Rightarrow> 'z \<Rightarrow> 'e + 'z" where
  "minus_units J u n z = attempt (span_try J u n) (\<lambda>s. checked_sub J s z)"

section \<open>From the dates of a calendar\<close>

datatype ('z, 'e) zoned_error = ZonedConversion date_time_error | ZonedUnknownTimeZone 'z | ZonedJiff 'e

definition civil_of :: "('z, 's, 'e, 'c) jiff \<Rightarrow> ics_date \<Rightarrow> ics_time \<Rightarrow> 'c option" where
  "civil_of J d t = j_civil J
     (i16 (int (year_num (d_year d))), i8 (int (month_num (d_month d))), i8 (int (day_num (d_day d))))
     (i8 (int (hour_num (t_hour t))), i8 (int (minute_num (t_minute t))), i8 (int (second_num (t_second t))))"

text \<open>A \<open>None\<close> is a panic.\<close>

definition zoned_of_date :: "('z, 's, 'e, 'c) jiff \<Rightarrow> ics_date \<Rightarrow> (('z, 'e) zoned_error + 'z) option" where
  "zoned_of_date J d = map_option (\<lambda>c. map_sum ZonedJiff id (j_in_tz J (ascii ''UTC'') c)) (civil_of J d (time_new_unchecked 0 0 0))"

definition zoned_of_dt :: "('z, 's, 'e, 'c) jiff \<Rightarrow> any_form date_time \<Rightarrow> (('z, 'e) zoned_error + 'z) option" where
  "zoned_of_dt J d = map_option (\<lambda>c. map_sum ZonedJiff id (case dt_form d of
       FormLocal \<Rightarrow> j_unknown_zoned J c
     | FormUtc \<Rightarrow> j_utc_zoned J c
     | FormTz tz \<Rightarrow>
         (let result = j_in_tz J (tz_value tz) c
          in if is_ok result then result
             else case j_windows J (tz_value tz) of
                    None \<Rightarrow> result
                  | Some name \<Rightarrow> (case j_in_tz J name c of Inr this \<Rightarrow> Inr this | Inl _ \<Rightarrow> result))))
     (civil_of J (dt_date d) (dt_time d))"

definition zoned_of_ul :: "('z, 's, 'e, 'c) jiff \<Rightarrow> utc_or_local date_time \<Rightarrow> (('z, 'e) zoned_error + 'z) option" where
  "zoned_of_ul J d = zoned_of_dt J (dt_map_form any_of_ul d)"

definition zoned_of_dod ::
  "('z, 's, 'e, 'c) jiff \<Rightarrow> ('f date_time \<Rightarrow> (('z, 'e) zoned_error + 'z) option) \<Rightarrow> 'f date_or_dt \<Rightarrow> (('z, 'e) zoned_error + 'z) option" where
  "zoned_of_dod J of_dt v = (case v of DDate d \<Rightarrow> zoned_of_date J d | DDateTime d \<Rightarrow> of_dt d)"

section \<open>The beginning of a period\<close>

definition week_start :: "('z, 's, 'e, 'c) jiff \<Rightarrow> 'z \<Rightarrow> 'e + 'z" where
  "week_start J z = (if z_weekday J z = Monday then z_start_of_day J z
     else attempt (z_nth_weekday J (- 1) Monday z) (z_start_of_day J))"

definition first_of :: "('z, 's, 'e, 'c) jiff \<Rightarrow> freq \<Rightarrow> 'z \<Rightarrow> 'e + 'z" where
  "first_of J f z = (case f of
     Secondly \<Rightarrow> Inr z | Minutely \<Rightarrow> Inr z | Hourly \<Rightarrow> Inr z
   | Daily \<Rightarrow> z_start_of_day J z
   | Weekly \<Rightarrow> week_start J z
   | Monthly \<Rightarrow> attempt (z_first_of_month J z) (z_start_of_day J)
   | Yearly \<Rightarrow> attempt (z_first_of_year J z) (z_start_of_day J))"

section \<open>Constraints on one field\<close>

type_synonym ('z, 'e) fact_op = "'z \<Rightarrow> 'e + 'z"

definition second_eq :: "('z, 's, 'e, 'c) jiff \<Rightarrow> int \<Rightarrow> ('z, 'e) fact_op" where
  "second_eq J s cur =
    (if z_second J cur < s then z_with J None None (Some s) cur
     else if z_second J cur = s then Inr cur
     else attempt (plus_units J UMinute 1 cur) (z_with J None None (Some s)))"

definition minute_eq :: "('z, 's, 'e, 'c) jiff \<Rightarrow> int \<Rightarrow> ('z, 'e) fact_op" where
  "minute_eq J m cur =
    (if z_minute J cur < m then z_with J None (Some m) (Some 0) cur
     else if z_minute J cur = m then Inr cur
     else attempt (plus_units J UHour 1 cur) (z_with J None (Some m) None))"

definition hour_eq :: "('z, 's, 'e, 'c) jiff \<Rightarrow> int \<Rightarrow> ('z, 'e) fact_op" where
  "hour_eq J h cur =
    (if z_hour J cur < h then z_with J (Some h) (Some 0) (Some 0) cur
     else if z_hour J cur = h then Inr cur
     else attempt (z_tomorrow J cur) (z_with J (Some h) (Some 0) (Some 0)))"

definition observed_hour_eq :: "('z, 's, 'e, 'c) jiff \<Rightarrow> int \<Rightarrow> ('z, 'e) fact_op" where
  "observed_hour_eq J h cur = attempt (z_with J (Some h) (Some 0) (Some 0) cur) (\<lambda>nxt.
     if z_hour J cur < z_hour J nxt then Inr nxt
     else if z_hour J cur = z_hour J nxt then Inr cur
     else attempt (z_tomorrow J cur) (z_with J (Some h) (Some 0) (Some 0)))"

definition day_eq :: "('z, 's, 'e, 'c) jiff \<Rightarrow> int \<Rightarrow> ('z, 'e) fact_op" where
  "day_eq J day cur = attempt
     (if day < 0
      then attempt (z_last_of_month J cur) (\<lambda>last.
        attempt (minus_units J UDay (\<bar>day\<bar> - 1) last) (\<lambda>z. Inr (z_day J z)))
      else Inr day) (\<lambda>abs_day.
     if z_day J cur < abs_day
     then attempt (plus_units J UDay (abs_day - z_day J cur) cur) (z_start_of_day J)
     else if z_day J cur = abs_day then Inr cur
     else if day < 0
     then attempt (plus_units J UMonth 1 cur) (\<lambda>z.
       attempt (z_last_of_month J z) (\<lambda>last.
       attempt (minus_units J UDay (\<bar>day\<bar> - 1) last) (\<lambda>z.
       attempt (z_start_of_day J z) (\<lambda>dst.
       if instant J dst \<le> instant J cur
       then attempt (z_last_of_month J cur) (\<lambda>last. attempt (z_tomorrow J last) (z_start_of_day J))
       else Inr dst))))
     else attempt (z_last_of_month J cur) (\<lambda>last. attempt (plus_units J UDay \<bar>day\<bar> last) (z_start_of_day J)))"

definition month_eq :: "('z, 's, 'e, 'c) jiff \<Rightarrow> int \<Rightarrow> ('z, 'e) fact_op" where
  "month_eq J month cur =
    (if z_month J cur < month
     then attempt (plus_units J UMonth (month - z_month J cur) cur) (\<lambda>z. attempt (z_first_of_month J z) (z_start_of_day J))
     else if z_month J cur = month then Inr cur
     else attempt (plus_units J UMonth (12 - z_month J cur + month) cur) (\<lambda>z. attempt (z_first_of_month J z) (z_start_of_day J)))"

definition day_of_year_eq :: "('z, 's, 'e, 'c) jiff \<Rightarrow> int \<Rightarrow> ('z, 'e) fact_op" where
  "day_of_year_eq J day cur = attempt
     (if day < 0
      then attempt (z_last_of_year J cur) (\<lambda>last.
        attempt (minus_units J UDay (\<bar>day\<bar> - 1) last) (\<lambda>z. Inr (z_day_of_year J z)))
      else Inr day) (\<lambda>abs_day.
     if z_day_of_year J cur < abs_day
     then attempt (plus_units J UDay (abs_day - z_day_of_year J cur) cur) (z_start_of_day J)
     else if z_day_of_year J cur = abs_day then Inr cur
     else if day < 0
     then attempt (plus_units J UYear 1 cur) (\<lambda>z.
       attempt (z_last_of_year J z) (\<lambda>last.
       attempt (minus_units J UDay (\<bar>day\<bar> - 1) last) (\<lambda>z.
       attempt (z_start_of_day J z) (\<lambda>dst.
       if instant J dst \<le> instant J cur
       then attempt (z_last_of_year J cur) (\<lambda>last. attempt (z_tomorrow J last) (z_start_of_day J))
       else Inr dst))))
     else attempt (z_last_of_year J cur) (\<lambda>last. attempt (plus_units J UDay day last) (z_start_of_day J)))"

definition weekday_eq :: "('z, 's, 'e, 'c) jiff \<Rightarrow> weekday \<Rightarrow> ('z, 'e) fact_op" where
  "weekday_eq J wd cur = (if z_weekday J cur = wd then Inr cur
     else attempt (plus_units J UDay (weekday_until J (z_weekday J cur) wd) cur) (z_start_of_day J))"

definition nth_weekday_of_month_eq :: "('z, 's, 'e, 'c) jiff \<Rightarrow> int \<Rightarrow> weekday \<Rightarrow> ('z, 'e) fact_op" where
  "nth_weekday_of_month_eq J n wd cur = attempt (z_nth_weekday_of_month J n wd cur) (\<lambda>nxt.
     if z_date J nxt = z_date J cur then Inr cur
     else if instant J nxt < instant J cur
     then attempt (plus_units J UMonth 1 cur) (\<lambda>z. attempt (z_nth_weekday_of_month J n wd z) (z_start_of_day J))
     else z_start_of_day J nxt)"

definition nth_weekday_of_year_eq :: "('z, 's, 'e, 'c) jiff \<Rightarrow> int \<Rightarrow> weekday \<Rightarrow> ('z, 'e) fact_op" where
  "nth_weekday_of_year_eq J n wd cur = attempt (z_nth_weekday J n wd cur) (\<lambda>nxt.
     if z_date J nxt = z_date J cur then Inr cur
     else if instant J nxt < instant J cur
     then attempt (plus_units J UYear 1 cur) (\<lambda>z. attempt (z_nth_weekday J n wd z) (z_start_of_day J))
     else z_start_of_day J nxt)"

section \<open>Repetitions\<close>

definition freq_unit :: "freq \<Rightarrow> jiff_unit" where
  "freq_unit f = (case f of Secondly \<Rightarrow> USecond | Minutely \<Rightarrow> UMinute | Hourly \<Rightarrow> UHour | Daily \<Rightarrow> UDay
     | Weekly \<Rightarrow> UWeek | Monthly \<Rightarrow> UMonth | Yearly \<Rightarrow> UYear)"

text \<open>\<open>i32::try_from(interval).unwrap_or(1)\<close>, for years \<open>i16::try_from\<close>; none for seconds and minutes.\<close>

definition freq_interval :: "freq \<Rightarrow> int \<Rightarrow> int" where
  "freq_interval f interval = (case f of
     Secondly \<Rightarrow> interval | Minutely \<Rightarrow> interval
   | Yearly \<Rightarrow> if - 32768 \<le> interval \<and> interval < 32768 then interval else 1
   | _ \<Rightarrow> if - 2147483648 \<le> interval \<and> interval < 2147483648 then interval else 1)"

text \<open>\<open>interval - diff\<close> at the width of the frequency.\<close>

definition freq_missing :: "freq \<Rightarrow> int \<Rightarrow> int \<Rightarrow> int" where
  "freq_missing f interval diff = (case f of
     Secondly \<Rightarrow> interval - diff | Minutely \<Rightarrow> interval - diff
   | Yearly \<Rightarrow> i16 (interval - diff)
   | _ \<Rightarrow> i32 (interval - diff))"

text \<open>The branches for days, weeks, months and years end with the steps of \<open>first_of\<close>, those for hours,
  minutes and seconds with none, which is \<open>first_of\<close> of these too.\<close>

definition instance_of :: "('z, 's, 'e, 'c) jiff \<Rightarrow> 'z \<Rightarrow> freq \<Rightarrow> int \<Rightarrow> bool \<Rightarrow> 'e + ('z, 'e) fact_op" where
  "instance_of J start f interval inclusive = attempt (first_of J f start) (\<lambda>start. Inr (\<lambda>cur.
     attempt (z_since J cur start) (\<lambda>s. attempt (span_round J (freq_unit f) start s) (\<lambda>s.
     (let interval = freq_interval f interval; diff = span_get J (freq_unit f) s smod interval
      in if diff = 0 \<and> inclusive then Inr cur
         else attempt (plus_units J (freq_unit f) (freq_missing f interval diff) cur) (first_of J f))))))"

definition next_instance_of :: "('z, 's, 'e, 'c) jiff \<Rightarrow> 'z \<Rightarrow> freq \<Rightarrow> int \<Rightarrow> 'z \<Rightarrow> 'e + 'z" where
  "next_instance_of J start f interval cur = attempt (instance_of J start f interval False) (\<lambda>fact. fact cur)"

section \<open>Combining constraints\<close>

definition z_min :: "('z, 's, 'e, 'c) jiff \<Rightarrow> 'z \<Rightarrow> 'z \<Rightarrow> 'z" where
  "z_min J x y = (if instant J y < instant J x then y else x)"

fun or_rest :: "('z, 's, 'e, 'c) jiff \<Rightarrow> ('z, 'e) fact_op list \<Rightarrow> 'z \<Rightarrow> 'z \<Rightarrow> 'e + 'z" where
  "or_rest J [] cur best = Inr best"
| "or_rest J (f # fs) cur best = attempt (f cur) (\<lambda>z. or_rest J fs cur (z_min J best z))"

definition fact_or :: "('z, 's, 'e, 'c) jiff \<Rightarrow> ('z, 'e) fact_op list \<Rightarrow> ('z, 'e) fact_op option" where
  "fact_or J fs = (case fs of [] \<Rightarrow> None | f # fs \<Rightarrow> Some (\<lambda>cur. attempt (f cur) (or_rest J fs cur)))"

fun and_rest :: "('z, 'e) fact_op list \<Rightarrow> 'z \<Rightarrow> 'e + 'z" where
  "and_rest [] best = Inr best"
| "and_rest (f # fs) best = attempt (f best) (and_rest fs)"

definition fact_and :: "('z, 'e) fact_op list \<Rightarrow> ('z, 'e) fact_op option" where
  "fact_and fs = (case fs of [] \<Rightarrow> None | f # fs \<Rightarrow> Some (\<lambda>cur. attempt (f cur) (and_rest fs)))"

section \<open>The constraints of a rule\<close>

definition by_day_fact :: "('z, 's, 'e, 'c) jiff \<Rightarrow> freq \<Rightarrow> by_day \<Rightarrow> ('z, 'e) fact_op option" where
  "by_day_fact J f d = (case d of
     Every wd \<Rightarrow> Some (weekday_eq J wd)
   | Fixed n wd \<Rightarrow>
       (case f of
          Monthly \<Rightarrow> Some (nth_weekday_of_month_eq J n wd)
        | Yearly \<Rightarrow> Some (nth_weekday_of_year_eq J n wd)
        | _ \<Rightarrow> None))"

definition signed_num :: "(int \<Rightarrow> int) \<Rightarrow> ('a \<Rightarrow> nat) \<Rightarrow> 'a signed \<Rightarrow> int" where
  "signed_num cast num v = (let n = cast (int (num (sg_value v))) in if sg_sign v = Neg then cast (- n) else n)"

text \<open>A rule with \<open>BYWEEKNO\<close> ends in \<open>todo!()\<close>: \<open>None\<close>.\<close>

definition from_recur_filters :: "('z, 's, 'e, 'c) jiff \<Rightarrow> recur \<Rightarrow> ('z, 'e) fact_op option option" where
  "from_recur_filters J rc =
    (let by_second = fact_or J (map (\<lambda>s. second_eq J (i8 (int (second_num s)))) (rc_by_second rc));
         by_minute = fact_or J (map (\<lambda>m. minute_eq J (i8 (int (minute_num m)))) (rc_by_minute rc));
         by_hour = fact_or J (map (\<lambda>h. hour_eq J (i8 (int (hour_num h)))) (rc_by_hour rc));
         by_day = fact_or J (List.map_filter (by_day_fact J (rc_freq rc)) (rc_by_day rc));
         by_month_day = fact_or J (map (\<lambda>d. day_eq J (signed_num i8 day_num d)) (rc_by_month_day rc));
         by_year_day = fact_or J (map (\<lambda>d. day_of_year_eq J (signed_num i16 day_ordinal_num d)) (rc_by_year_day rc));
         by_month = fact_or J (map (\<lambda>m. month_eq J (i8 (int (month_num m)))) (rc_by_month rc))
     in if rc_by_week_no rc \<noteq> [] then None
        else Some (fact_and (List.map_filter id [by_second, by_minute, by_hour, by_day, by_month_day, by_year_day, by_month])))"

definition time_invariants :: "('z, 's, 'e, 'c) jiff \<Rightarrow> recur \<Rightarrow> 'z \<Rightarrow> ('z, 'e) fact_op list" where
  "time_invariants J rc start =
    (let seconds = (if rc_by_second rc = [] then [second_eq J (z_second J start)] else []);
         minutes = (if rc_by_minute rc = [] then [minute_eq J (z_minute J start)] else []);
         hours = (if rc_by_hour rc = [] then [observed_hour_eq J (z_hour J start)] else [])
     in case rc_freq rc of
          Secondly \<Rightarrow> []
        | Minutely \<Rightarrow> seconds
        | Hourly \<Rightarrow> seconds @ minutes
        | _ \<Rightarrow> seconds @ minutes @ hours)"

definition date_invariants :: "('z, 's, 'e, 'c) jiff \<Rightarrow> recur \<Rightarrow> 'z \<Rightarrow> ('z, 'e) fact_op list" where
  "date_invariants J rc start = (case rc_freq rc of
     Weekly \<Rightarrow> if rc_by_day rc = [] then [weekday_eq J (z_weekday J start)] else []
   | Monthly \<Rightarrow> if rc_by_day rc = [] \<and> rc_by_month_day rc = [] then [day_eq J (z_day J start)] else []
   | Yearly \<Rightarrow>
       (if rc_by_day rc = [] \<and> rc_by_month_day rc = [] \<and> rc_by_year_day rc = [] then [day_eq J (z_day J start)] else [])
       @ (if rc_by_month rc = [] \<and> rc_by_year_day rc = [] then [month_eq J (z_month J start)] else [])
   | _ \<Rightarrow> [])"

definition from_recur_invariants :: "('z, 's, 'e, 'c) jiff \<Rightarrow> recur \<Rightarrow> 'z \<Rightarrow> ('z, 'e) fact_op option" where
  "from_recur_invariants J rc start = fact_and (time_invariants J rc start @ date_invariants J rc start)"

definition rule_interval :: "recur \<Rightarrow> int" where
  "rule_interval rc = (case rc_interval rc of None \<Rightarrow> 1 | Some n \<Rightarrow> int n)"

definition from_recur :: "('z, 's, 'e, 'c) jiff \<Rightarrow> recur \<Rightarrow> 'z \<Rightarrow> ('e + ('z, 'e) fact_op) option" where
  "from_recur J rc start = (case instance_of J start (rc_freq rc) (rule_interval rc) True of
     Inl e \<Rightarrow> Some (Inl e)
   | Inr inst \<Rightarrow>
       (case from_recur_filters J rc of
          None \<Rightarrow> None
        | Some filters \<Rightarrow>
            map_option Inr (fact_and (List.map_filter id [Some inst, filters, from_recur_invariants J rc start]))))"

end
