(* ===== verification/Recur_Iter.thy ===== *)
theory Recur_Iter
  imports Recur_Facts Ics_Components
begin

text \<open>
  The iterator over the dates of a recurrence rule (\<open>shared/ical/src/objects/recur/iter.rs\<close>) and the
  occurrences of an event (\<open>objects/vevent.rs\<close>).  The two loops of the iterator may run forever, when no
  date matches and the library gives no error; they are partial functions, with \<open>None\<close> for a loop that
  does not end.
\<close>

section \<open>The state\<close>

record ('z, 'e) recur_iterator =
  it_start :: 'z
  it_freq :: freq
  it_interval :: int
  it_fact :: "('z, 'e) fact_op"
  it_picker :: "'z picker option"
  it_repeat :: "'z option"
  it_curr :: 'z
  it_next :: "'z option"
  it_since :: "'z option"
  it_until :: "'z option"
  it_count :: "nat option"
  it_emitted :: nat

datatype ('z, 'e) recur_iterator_error =
    IterZeroInterval
  | MissingDtStart
  | InvalidDtStart "('z, 'e) zoned_error"
  | InvalidUntil "('z, 'e) zoned_error"
  | InvalidRecur 'e

section \<open>Construction\<close>

text \<open>\<open>x?\<close> after a step that may also panic.\<close>

definition attempt_panic :: "('e + 'a) option \<Rightarrow> ('e \<Rightarrow> 'x) \<Rightarrow> ('a \<Rightarrow> ('x + 'b) option) \<Rightarrow> ('x + 'b) option" where
  "attempt_panic r err k = (case r of None \<Rightarrow> None | Some (Inl e) \<Rightarrow> Some (Inl (err e)) | Some (Inr x) \<Rightarrow> k x)"

lemma attempt_panic_simps [simp]:
  "attempt_panic None err k = None"
  "attempt_panic (Some (Inl e)) err k = Some (Inl (err e))"
  "attempt_panic (Some (Inr x)) err k = k x"
  by (simp_all add: attempt_panic_def)

definition set_pos_idxs :: "recur \<Rightarrow> int list" where
  "set_pos_idxs rc = List.map_filter (\<lambda>idx.
     (let val = day_ordinal_num (sg_value idx)
      in if val > 32767 then None else Some (if sg_sign idx = Neg then - int val else int val))) (rc_by_set_pos rc)"

definition recur_iterator_new ::
  "('z, 's, 'e, 'c) jiff \<Rightarrow> deque_alloc \<Rightarrow> recur \<Rightarrow> any_form date_or_dt
   \<Rightarrow> (('z, 'e) recur_iterator_error + ('z, 'e) recur_iterator) option" where
  "recur_iterator_new J A rc start =
    (if rc_interval rc = Some 0 then Some (Inl IterZeroInterval)
     else attempt_panic (zoned_of_dod J (zoned_of_dt J) start) InvalidDtStart (\<lambda>start.
          attempt_panic (from_recur J rc start) InvalidRecur (\<lambda>fact.
          (let f = rc_freq rc; interval = rule_interval rc;
               rep = (if rc_by_set_pos rc = [] then None
                      else Some (case next_instance_of J start f interval start of Inr z \<Rightarrow> z | Inl _ \<Rightarrow> start))
           in attempt_panic (Some (if rc_by_set_pos rc = [] then Inr start else first_of J f start))
                (\<lambda>e. InvalidDtStart (ZonedJiff e)) (\<lambda>cur.
              attempt_panic (case rc_until rc of None \<Rightarrow> Some (Inr None)
                  | Some u \<Rightarrow> map_option (map_sum id Some) (zoned_of_dod J (zoned_of_ul J) u)) InvalidUntil (\<lambda>til.
              Some (Inr \<lparr>it_start = start, it_freq = f, it_interval = interval, it_fact = fact,
                it_picker = picker_new A (set_pos_idxs rc), it_repeat = rep, it_curr = cur, it_next = None,
                it_since = None, it_until = til, it_count = rc_count rc, it_emitted = 0\<rparr>)))))))"

text \<open>\<open>set_since\<close>, and \<open>since\<close> which calls it.\<close>

definition set_since :: "('z, 's, 'e, 'c) jiff \<Rightarrow> 'z \<Rightarrow> ('z, 'e) recur_iterator \<Rightarrow> ('z, 'e) recur_iterator" where
  "set_since J at it =
    (let it = (case (it_picker it, it_repeat it) of
         (Some p, Some _) \<Rightarrow> it\<lparr>it_picker := Some (picker_reset p),
           it_repeat := Some (case next_instance_of J (it_start it) (it_freq it) (it_interval it) at of Inr z \<Rightarrow> z | Inl _ \<Rightarrow> at),
           it_curr := (case first_of J (it_freq it) at of Inr z \<Rightarrow> z | Inl _ \<Rightarrow> at),
           it_since := Some at\<rparr>
       | _ \<Rightarrow> it\<lparr>it_curr := at, it_since := None\<rparr>)
     in it\<lparr>it_next := None, it_count := None, it_emitted := 1\<rparr>)"

section \<open>The next date\<close>

text \<open>
  One round of the loop of \<open>next_inner\<close>: \<open>Inl\<close> returns a date or none, \<open>Inr\<close> goes on.  First the end of
  a period, where the picker is closed.
\<close>

definition end_period ::
  "('z, 's, 'e, 'c) jiff \<Rightarrow> 'z \<Rightarrow> ('z, 'e) recur_iterator
   \<Rightarrow> ('z option \<times> ('z, 'e) recur_iterator) + ('z, 'e) recur_iterator" where
  "end_period J nxt it = (case (it_picker it, it_repeat it) of
     (Some p, Some rep) \<Rightarrow>
       if instant J nxt \<ge> instant J rep
       then (case next_instance_of J (it_start it) (it_freq it) (it_interval it) nxt of
               Inl _ \<Rightarrow> Inl (None, it)
             | Inr rep \<Rightarrow>
                 (case picker_pull (instant J) (picker_close p) of
                    (Some z, p) \<Rightarrow> Inl (Some z, it\<lparr>it_repeat := Some rep, it_picker := Some p\<rparr>)
                  | (None, p) \<Rightarrow> Inr (it\<lparr>it_repeat := Some rep, it_picker := Some p\<rparr>)))
       else Inr it
   | _ \<Rightarrow> Inr it)"

definition next_round ::
  "('z, 's, 'e, 'c) jiff \<Rightarrow> deque_alloc \<Rightarrow> ('z, 'e) recur_iterator
   \<Rightarrow> ('z option \<times> ('z, 'e) recur_iterator) + ('z, 'e) recur_iterator" where
  "next_round J A it = (case it_fact it (it_curr it) of
     Inl _ \<Rightarrow> Inl (None, it)
   | Inr nxt \<Rightarrow>
       (case end_period J nxt it of
          Inl r \<Rightarrow> Inl r
        | Inr it \<Rightarrow>
            if instant J nxt < instant J (it_curr it) then Inl (None, it)
            else if instant J nxt = instant J (it_curr it)
            then (case checked_add J (span_seconds J 1) (it_curr it) of
                    Inl _ \<Rightarrow> Inl (None, it)
                  | Inr cur \<Rightarrow>
                      (let it = it\<lparr>it_curr := cur\<rparr>
                       in case it_picker it of
                            None \<Rightarrow> Inl (Some nxt, it)
                          | Some p \<Rightarrow>
                              (case picker_push A nxt p of
                                 (Some z, p) \<Rightarrow> Inl (Some z, it\<lparr>it_picker := Some p\<rparr>)
                               | (None, p) \<Rightarrow> Inr (it\<lparr>it_picker := Some p\<rparr>))))
            else Inr (it\<lparr>it_curr := nxt\<rparr>)))"

partial_function (option) next_loop ::
  "('z, 's, 'e, 'c) jiff \<Rightarrow> deque_alloc \<Rightarrow> ('z, 'e) recur_iterator \<Rightarrow> ('z option \<times> ('z, 'e) recur_iterator) option" where
  "next_loop J A it = (case next_round J A it of Inl r \<Rightarrow> Some r | Inr it \<Rightarrow> next_loop J A it)"

definition next_inner ::
  "('z, 's, 'e, 'c) jiff \<Rightarrow> deque_alloc \<Rightarrow> ('z, 'e) recur_iterator \<Rightarrow> ('z option \<times> ('z, 'e) recur_iterator) option" where
  "next_inner J A it = (case it_next it of
     Some z \<Rightarrow> Some (Some z, it\<lparr>it_next := None\<rparr>)
   | None \<Rightarrow>
       (case it_picker it of
          None \<Rightarrow> next_loop J A it
        | Some p \<Rightarrow>
            (case picker_pull (instant J) p of
               (Some z, p) \<Rightarrow> Some (Some z, it\<lparr>it_picker := Some p\<rparr>)
             | (None, p) \<Rightarrow> next_loop J A (it\<lparr>it_picker := Some p\<rparr>))))"

text \<open>The loop of \<open>Iterator::next\<close>: skip what is before \<open>DTSTART\<close> or before the date of \<open>since\<close>.\<close>

definition too_early :: "('z, 's, 'e, 'c) jiff \<Rightarrow> 'z \<Rightarrow> ('z, 'e) recur_iterator \<Rightarrow> bool" where
  "too_early J z it = (instant J z < instant J (it_start it)
     \<or> (case it_since it of None \<Rightarrow> False | Some s \<Rightarrow> instant J z < instant J s))"

partial_function (option) next_skip ::
  "('z, 's, 'e, 'c) jiff \<Rightarrow> deque_alloc \<Rightarrow> ('z, 'e) recur_iterator \<Rightarrow> ('z option \<times> ('z, 'e) recur_iterator) option" where
  "next_skip J A it = (case next_inner J A it of
     None \<Rightarrow> None
   | Some (None, it) \<Rightarrow> Some (None, it)
   | Some (Some z, it) \<Rightarrow> if too_early J z it then next_skip J A it else Some (Some z, it))"

declare next_loop.simps [code] next_skip.simps [code]

definition emit_date :: "('z, 's, 'e, 'c) jiff \<Rightarrow> 'z \<Rightarrow> ('z, 'e) recur_iterator \<Rightarrow> 'z option \<times> ('z, 'e) recur_iterator" where
  "emit_date J z it =
    (if (case it_until it of None \<Rightarrow> False | Some u \<Rightarrow> instant J z > instant J u) then (None, it)
     else (let it = it\<lparr>it_emitted := (it_emitted it + 1) mod 4294967296\<rparr>
           in if it_emitted it = 1 \<and> instant J z \<noteq> instant J (it_start it)
              then (Some (it_start it), it\<lparr>it_next := Some z\<rparr>)
              else (Some z, it)))"

definition iter_next ::
  "('z, 's, 'e, 'c) jiff \<Rightarrow> deque_alloc \<Rightarrow> ('z, 'e) recur_iterator \<Rightarrow> ('z option \<times> ('z, 'e) recur_iterator) option" where
  "iter_next J A it =
    (if (case it_count it of None \<Rightarrow> False | Some n \<Rightarrow> it_emitted it \<ge> n) then Some (None, it)
     else case next_skip J A it of
            None \<Rightarrow> None
          | Some (None, it) \<Rightarrow> Some (None, it)
          | Some (Some z, it) \<Rightarrow> Some (emit_date J z it))"

text \<open>\<open>take(n)\<close>.\<close>

fun iter_take ::
  "('z, 's, 'e, 'c) jiff \<Rightarrow> deque_alloc \<Rightarrow> nat \<Rightarrow> ('z, 'e) recur_iterator \<Rightarrow> ('z list \<times> ('z, 'e) recur_iterator) option" where
  "iter_take J A 0 it = Some ([], it)"
| "iter_take J A (Suc n) it = (case iter_next J A it of
     None \<Rightarrow> None
   | Some (None, it) \<Rightarrow> Some ([], it)
   | Some (Some z, it) \<Rightarrow> (case iter_take J A n it of None \<Rightarrow> None | Some (zs, it) \<Rightarrow> Some (z # zs, it)))"

section \<open>The occurrences of an event\<close>

definition occurrences ::
  "('z, 's, 'e, 'c) jiff \<Rightarrow> deque_alloc \<Rightarrow> vevent \<Rightarrow> (('z, 'e) recur_iterator_error + ('z, 'e) recur_iterator) option" where
  "occurrences J A e = (case ev_dtstart e of
     None \<Rightarrow> Some (Inl MissingDtStart)
   | Some d \<Rightarrow> recur_iterator_new J A
       (case ev_rrule e of Some r \<Rightarrow> rrule_value r | None \<Rightarrow> recur_with_count 1 (recur_new Daily)) (dt_start_value d))"

end
