(* ===== verification/Recur_Utc.thy ===== *)
theory Recur_Utc
  imports Recur_Calendar Recur_Iter
begin

text \<open>
  What \<open>jiff\<close> documents of its operations, for whole seconds and a time zone without transitions
  (UTC, or the unknown zone of a local time, which counts as UTC).  Instants are seconds since 1 January
  1970; every operation is a function of the instant, and it fails outside the range of the library.
  The last section builds a \<open>jiff\<close> record with these functions.
\<close>

section \<open>Functions of the instant\<close>

definition day_no :: "int \<Rightarrow> int" where "day_no t = t div 86400"
definition day_time :: "int \<Rightarrow> int" where "day_time t = t mod 86400"
definition at_day :: "int \<Rightarrow> int \<Rightarrow> int" where "at_day d s = 86400 * d + s"

definition u_hour :: "int \<Rightarrow> int" where "u_hour t = t mod 86400 div 3600"
definition u_minute :: "int \<Rightarrow> int" where "u_minute t = t mod 3600 div 60"
definition u_second :: "int \<Rightarrow> int" where "u_second t = t mod 60"

definition month_no :: "int \<Rightarrow> int" where "month_no t = month_of (day_no t)"
definition year_no :: "int \<Rightarrow> int" where "year_no t = month_no t div 12"
definition u_month :: "int \<Rightarrow> int" where "u_month t = month_no t mod 12 + 1"
definition u_day :: "int \<Rightarrow> int" where "u_day t = day_no t - month_start (month_no t) + 1"
definition u_day_of_year :: "int \<Rightarrow> int" where "u_day_of_year t = day_no t - year_start (year_no t) + 1"
definition u_date :: "int \<Rightarrow> int \<times> int \<times> int" where "u_date t = (year_no t, u_month t, u_day t)"

text \<open>Weekdays, numbered from Monday; 1 January 1970 was a Thursday.\<close>

definition weekday_no :: "weekday \<Rightarrow> int" where
  "weekday_no d = (case d of Monday \<Rightarrow> 0 | Tuesday \<Rightarrow> 1 | Wednesday \<Rightarrow> 2 | Thursday \<Rightarrow> 3 | Friday \<Rightarrow> 4
     | Saturday \<Rightarrow> 5 | Sunday \<Rightarrow> 6)"

definition weekday_at :: "int \<Rightarrow> weekday" where
  "weekday_at n = (if n = 0 then Monday else if n = 1 then Tuesday else if n = 2 then Wednesday else if n = 3 then Thursday
     else if n = 4 then Friday else if n = 5 then Saturday else Sunday)"

definition u_weekday :: "int \<Rightarrow> weekday" where
  "u_weekday t = weekday_at ((day_no t + 3) mod 7)"

definition days_until :: "weekday \<Rightarrow> weekday \<Rightarrow> int" where
  "days_until a b = (weekday_no b - weekday_no a) mod 7"

definition u_with :: "int option \<Rightarrow> int option \<Rightarrow> int option \<Rightarrow> int \<Rightarrow> int option" where
  "u_with h m s t =
    (let h = (case h of Some h \<Rightarrow> h | None \<Rightarrow> u_hour t); m = (case m of Some m \<Rightarrow> m | None \<Rightarrow> u_minute t);
         s = (case s of Some s \<Rightarrow> s | None \<Rightarrow> u_second t)
     in if 0 \<le> h \<and> h < 24 \<and> 0 \<le> m \<and> m < 60 \<and> 0 \<le> s \<and> s < 60
        then Some (at_day (day_no t) (3600 * h + 60 * m + s)) else None)"

definition u_start_of_day :: "int \<Rightarrow> int" where "u_start_of_day t = at_day (day_no t) 0"
definition u_tomorrow :: "int \<Rightarrow> int" where "u_tomorrow t = t + 86400"
definition u_first_of_month :: "int \<Rightarrow> int" where "u_first_of_month t = at_day (month_start (month_no t)) (day_time t)"
definition u_last_of_month :: "int \<Rightarrow> int" where "u_last_of_month t = at_day (month_start (month_no t + 1) - 1) (day_time t)"
definition u_first_of_year :: "int \<Rightarrow> int" where "u_first_of_year t = at_day (year_start (year_no t)) (day_time t)"
definition u_last_of_year :: "int \<Rightarrow> int" where "u_last_of_year t = at_day (year_start (year_no t + 1) - 1) (day_time t)"

text \<open>The \<open>n\<close>-th weekday after a date, the date itself not counted; before it when \<open>n\<close> is negative.\<close>

definition u_nth_weekday :: "int \<Rightarrow> weekday \<Rightarrow> int \<Rightarrow> int option" where
  "u_nth_weekday n wd t =
    (if n = 0 then None
     else if 0 < n then Some (t + 86400 * ((days_until (u_weekday t) wd - 1) mod 7 + 1 + 7 * (n - 1)))
     else Some (t - 86400 * ((days_until wd (u_weekday t) - 1) mod 7 + 1 + 7 * (- n - 1))))"

definition u_nth_weekday_of_month :: "int \<Rightarrow> weekday \<Rightarrow> int \<Rightarrow> int option" where
  "u_nth_weekday_of_month n wd t =
    (if n = 0 then None
     else let z = (if 0 < n
                   then u_first_of_month t + 86400 * (days_until (u_weekday (u_first_of_month t)) wd + 7 * (n - 1))
                   else u_last_of_month t - 86400 * (days_until wd (u_weekday (u_last_of_month t)) + 7 * (- n - 1)))
          in if month_no z = month_no t then Some z else None)"

text \<open>Adding months keeps the day where the new month has it.\<close>

definition add_months :: "int \<Rightarrow> int \<Rightarrow> int" where
  "add_months n t = (let k = month_no t + n in at_day (month_start k + min (u_day t) (month_len k) - 1) (day_time t))"

definition u_plus :: "jiff_unit \<Rightarrow> int \<Rightarrow> int \<Rightarrow> int" where
  "u_plus u n t = (case u of USecond \<Rightarrow> t + n | UMinute \<Rightarrow> t + 60 * n | UHour \<Rightarrow> t + 3600 * n | UDay \<Rightarrow> t + 86400 * n
     | UWeek \<Rightarrow> t + 604800 * n | UMonth \<Rightarrow> add_months n t | UYear \<Rightarrow> add_months (12 * n) t)"

text \<open>Whole units between two instants, the first of them the start of a unit for months and years.\<close>

definition elapsed :: "jiff_unit \<Rightarrow> int \<Rightarrow> int \<Rightarrow> int" where
  "elapsed u s t = (case u of USecond \<Rightarrow> t - s | UMinute \<Rightarrow> (t - s) sdiv 60 | UHour \<Rightarrow> (t - s) sdiv 3600
     | UDay \<Rightarrow> (t - s) sdiv 86400 | UWeek \<Rightarrow> (t - s) sdiv 604800
     | UMonth \<Rightarrow> month_no t - month_no s | UYear \<Rightarrow> year_no t - year_no s)"

section \<open>The documented behaviour\<close>

text \<open>A result that has the instant \<open>v\<close> if it is a success, and is one when \<open>v\<close> is in the range \<open>R\<close>.\<close>

definition gives_instant :: "('z, 's, 'e, 'c) jiff \<Rightarrow> int set \<Rightarrow> 'e + 'z \<Rightarrow> int \<Rightarrow> bool" where
  "gives_instant J R r v = ((\<forall>z. r = Inr z \<longrightarrow> instant J z = v) \<and> (v \<in> R \<longrightarrow> is_ok r))"

definition gives_maybe :: "('z, 's, 'e, 'c) jiff \<Rightarrow> int set \<Rightarrow> 'e + 'z \<Rightarrow> int option \<Rightarrow> bool" where
  "gives_maybe J R r v = (case v of None \<Rightarrow> \<not> is_ok r | Some v \<Rightarrow> gives_instant J R r v)"

definition month_aligned :: "jiff_unit \<Rightarrow> int \<Rightarrow> bool" where
  "month_aligned u s = (case u of UMonth \<Rightarrow> s = at_day (month_start (month_no s)) 0
     | UYear \<Rightarrow> s = at_day (year_start (year_no s)) 0 | _ \<Rightarrow> True)"

definition since_gives :: "('z, 's, 'e, 'c) jiff \<Rightarrow> jiff_unit \<Rightarrow> 'z \<Rightarrow> 'z \<Rightarrow> bool" where
  "since_gives J u start cur = (\<exists>s s'. z_since J cur start = Inr s \<and> span_round J u start s = Inr s'
     \<and> span_get J u s' = elapsed u (instant J start) (instant J cur))"

definition utc_getters :: "('z, 's, 'e, 'c) jiff \<Rightarrow> bool" where
  "utc_getters J = (\<forall>z. z_second J z = u_second (instant J z) \<and> z_minute J z = u_minute (instant J z)
     \<and> z_hour J z = u_hour (instant J z) \<and> z_day J z = u_day (instant J z) \<and> z_month J z = u_month (instant J z)
     \<and> z_day_of_year J z = u_day_of_year (instant J z) \<and> z_weekday J z = u_weekday (instant J z)
     \<and> z_date J z = u_date (instant J z))"

definition utc_moves :: "('z, 's, 'e, 'c) jiff \<Rightarrow> int set \<Rightarrow> bool" where
  "utc_moves J R = (\<forall>z. gives_instant J R (z_start_of_day J z) (u_start_of_day (instant J z))
     \<and> gives_instant J R (z_tomorrow J z) (u_tomorrow (instant J z))
     \<and> gives_instant J R (z_first_of_month J z) (u_first_of_month (instant J z))
     \<and> gives_instant J R (z_last_of_month J z) (u_last_of_month (instant J z))
     \<and> gives_instant J R (z_first_of_year J z) (u_first_of_year (instant J z))
     \<and> gives_instant J R (z_last_of_year J z) (u_last_of_year (instant J z))
     \<and> (\<forall>h m s. gives_maybe J R (z_with J h m s z) (u_with h m s (instant J z)))
     \<and> (\<forall>n wd. gives_maybe J R (z_nth_weekday J n wd z) (u_nth_weekday n wd (instant J z)))
     \<and> (\<forall>n wd. gives_maybe J R (z_nth_weekday_of_month J n wd z) (u_nth_weekday_of_month n wd (instant J z))))"

definition utc_spans :: "('z, 's, 'e, 'c) jiff \<Rightarrow> int set \<Rightarrow> bool" where
  "utc_spans J R = ((\<forall>a b. weekday_until J a b = days_until a b)
     \<and> (\<forall>u n z. gives_instant J R (plus_units J u n z) (u_plus u n (instant J z)))
     \<and> (\<forall>n z. gives_instant J R (minus_units J UDay n z) (u_plus UDay (- n) (instant J z)))
     \<and> (\<forall>z. gives_instant J R (checked_add J (span_seconds J 1) z) (instant J z + 1))
     \<and> (\<forall>u start cur. instant J start \<le> instant J cur \<and> month_aligned u (instant J start) \<longrightarrow> since_gives J u start cur))"

definition utc_laws :: "('z, 's, 'e, 'c) jiff \<Rightarrow> int set \<Rightarrow> bool" where
  "utc_laws J R = (utc_getters J \<and> utc_moves J R \<and> utc_spans J R)"

section \<open>A record with this behaviour\<close>

text \<open>The range of the library: from the year \<open>-9999\<close> to the year \<open>9999\<close>.\<close>

definition utc_range :: "int set" where
  "utc_range = {- 377705116800..253402300799}"

definition ranged :: "int \<Rightarrow> unit + int" where
  "ranged t = (if - 377705116800 \<le> t \<and> t \<le> 253402300799 then Inr t else Inl ())"

definition ranged_opt :: "int option \<Rightarrow> unit + int" where
  "ranged_opt r = (case r of None \<Rightarrow> Inl () | Some t \<Rightarrow> ranged t)"

definition civil_instant :: "int \<times> int \<times> int \<Rightarrow> int \<times> int \<times> int \<Rightarrow> int option" where
  "civil_instant d t = (case (d, t) of ((y, m, d), (h, mi, s)) \<Rightarrow>
     if 1 \<le> m \<and> m \<le> 12 \<and> 1 \<le> d \<and> d \<le> month_len (12 * y + m - 1) \<and> 0 \<le> h \<and> h < 24 \<and> 0 \<le> mi \<and> mi < 60 \<and> 0 \<le> s \<and> s < 60
     then Some (at_day (month_start (12 * y + m - 1) + d - 1) (3600 * h + 60 * mi + s)) else None)"

definition utc_jiff :: "(int, jiff_unit \<times> int, unit, int) jiff" where
  "utc_jiff = \<lparr>j_civil = civil_instant, j_unknown_zoned = ranged, j_utc_zoned = ranged,
     j_in_tz = (\<lambda>name. if name = ascii ''UTC'' then ranged else (\<lambda>_. Inl ())), j_windows = (\<lambda>_. None),
     instant = (\<lambda>t. t), z_date = u_date, z_month = u_month, z_day = u_day, z_day_of_year = u_day_of_year, z_weekday = u_weekday,
     z_hour = u_hour, z_minute = u_minute, z_second = u_second, z_with = (\<lambda>h m s t. ranged_opt (u_with h m s t)),
     z_start_of_day = (\<lambda>t. ranged (u_start_of_day t)), z_tomorrow = (\<lambda>t. ranged (u_tomorrow t)),
     z_first_of_month = (\<lambda>t. ranged (u_first_of_month t)), z_last_of_month = (\<lambda>t. ranged (u_last_of_month t)),
     z_first_of_year = (\<lambda>t. ranged (u_first_of_year t)), z_last_of_year = (\<lambda>t. ranged (u_last_of_year t)),
     z_nth_weekday = (\<lambda>n wd t. ranged_opt (u_nth_weekday n wd t)),
     z_nth_weekday_of_month = (\<lambda>n wd t. ranged_opt (u_nth_weekday_of_month n wd t)),
     weekday_until = days_until, span_seconds = (\<lambda>n. (USecond, n)), span_try = (\<lambda>u n. Inr (u, n)),
     checked_add = (\<lambda>(u, n) t. ranged (u_plus u n t)), checked_sub = (\<lambda>(u, n) t. ranged (u_plus u (- n) t)),
     z_since = (\<lambda>t s. Inr (USecond, t - s)), span_round = (\<lambda>u s (v, n). Inr (u, elapsed u s (u_plus v n s))),
     span_get = (\<lambda>u (v, n). if u = v then n else 0)\<rparr>"

lemma utc_jiff_simps [simp]:
  "j_civil utc_jiff = civil_instant" "j_unknown_zoned utc_jiff = ranged" "j_utc_zoned utc_jiff = ranged"
  "j_in_tz utc_jiff = (\<lambda>name. if name = ascii ''UTC'' then ranged else (\<lambda>_. Inl ()))" "j_windows utc_jiff = (\<lambda>_. None)"
  "instant utc_jiff = (\<lambda>t. t)" "z_date utc_jiff = u_date" "z_month utc_jiff = u_month" "z_day utc_jiff = u_day"
  "z_day_of_year utc_jiff = u_day_of_year" "z_weekday utc_jiff = u_weekday" "z_hour utc_jiff = u_hour"
  "z_minute utc_jiff = u_minute" "z_second utc_jiff = u_second" "z_with utc_jiff = (\<lambda>h m s t. ranged_opt (u_with h m s t))"
  "z_start_of_day utc_jiff = (\<lambda>t. ranged (u_start_of_day t))" "z_tomorrow utc_jiff = (\<lambda>t. ranged (u_tomorrow t))"
  "z_first_of_month utc_jiff = (\<lambda>t. ranged (u_first_of_month t))" "z_last_of_month utc_jiff = (\<lambda>t. ranged (u_last_of_month t))"
  "z_first_of_year utc_jiff = (\<lambda>t. ranged (u_first_of_year t))" "z_last_of_year utc_jiff = (\<lambda>t. ranged (u_last_of_year t))"
  "z_nth_weekday utc_jiff = (\<lambda>n wd t. ranged_opt (u_nth_weekday n wd t))"
  "z_nth_weekday_of_month utc_jiff = (\<lambda>n wd t. ranged_opt (u_nth_weekday_of_month n wd t))"
  "weekday_until utc_jiff = days_until" "span_seconds utc_jiff = (\<lambda>n. (USecond, n))" "span_try utc_jiff = (\<lambda>u n. Inr (u, n))"
  "checked_add utc_jiff = (\<lambda>(u, n) t. ranged (u_plus u n t))" "checked_sub utc_jiff = (\<lambda>(u, n) t. ranged (u_plus u (- n) t))"
  "z_since utc_jiff = (\<lambda>t s. Inr (USecond, t - s))" "span_round utc_jiff = (\<lambda>u s (v, n). Inr (u, elapsed u s (u_plus v n s)))"
  "span_get utc_jiff = (\<lambda>u (v, n). if u = v then n else 0)"
  by (simp_all only: utc_jiff_def jiff.select_convs)

lemma ranged_gives: "gives_instant utc_jiff utc_range (ranged t) t"
  by (simp add: gives_instant_def ranged_def utc_range_def)

lemma ranged_opt_gives: "gives_maybe utc_jiff utc_range (ranged_opt r) r"
  by (cases r) (simp_all add: gives_maybe_def ranged_opt_def ranged_gives)

lemma utc_jiff_laws: "utc_laws utc_jiff utc_range"
  unfolding utc_laws_def utc_getters_def utc_moves_def utc_spans_def
  by (simp add: plus_units_def minus_units_def since_gives_def ranged_gives ranged_opt_gives)
    (simp add: u_plus_def ranged_gives)

end
