(* ===== verification/Recur_Days.thy ===== *)
theory Recur_Days
  imports Recur_Utc
begin

text \<open>
  The constraints on dates as functions on day numbers: each stays on the days that match and else goes
  to a later day that is not behind the next match.
\<close>

section \<open>Days and times\<close>

lemma day_time_bounds: "0 \<le> day_time t" "day_time t < 86400"
  by (simp_all add: day_time_def)

lemma at_day_split: "at_day (day_no t) (day_time t) = t"
  by (simp add: at_day_def day_no_def day_time_def)

lemma day_no_at_day [simp]:
  assumes "0 \<le> s" "s < 86400"
  shows "day_no (at_day d s) = d" "day_time (at_day d s) = s"
  using assms by (simp_all add: day_no_def day_time_def at_day_def)

lemma day_no_bounds: "86400 * day_no t \<le> t" "t < 86400 * day_no t + 86400"
proof -
  have t: "86400 * day_no t + day_time t = t" using at_day_split [of t] by (simp add: at_day_def)
  show "86400 * day_no t \<le> t" using day_time_bounds(1) [of t] t by linarith
  show "t < 86400 * day_no t + 86400" using day_time_bounds(2) [of t] t by linarith
qed

lemma at_day_le: "at_day d 0 \<le> t \<longleftrightarrow> d \<le> day_no t"
proof
  assume "at_day d 0 \<le> t"
  then have "86400 * d < 86400 * (day_no t + 1)" using day_no_bounds(2) [of t] by (simp add: at_day_def)
  then show "d \<le> day_no t" by simp
next
  assume "d \<le> day_no t"
  then have "86400 * d \<le> 86400 * day_no t" by simp
  then show "at_day d 0 \<le> t" using day_no_bounds(1) [of t] by (simp add: at_day_def)
qed

lemma day_no_mono: "s \<le> t \<Longrightarrow> day_no s \<le> day_no t"
  by (simp add: day_no_def zdiv_mono1)

lemma day_time_fields:
  "day_time t = 3600 * u_hour t + 60 * u_minute t + u_second t" "0 \<le> u_hour t" "u_hour t < 24" "0 \<le> u_minute t"
  "u_minute t < 60" "0 \<le> u_second t" "u_second t < 60"
proof -
  have "(3600 :: int) dvd 86400" "(60 :: int) dvd 3600" by simp_all
  then have "t mod 86400 mod 3600 = t mod 3600" "t mod 3600 mod 60 = t mod 60" by (simp_all add: mod_mod_cancel)
  then show "day_time t = 3600 * u_hour t + 60 * u_minute t + u_second t"
    unfolding day_time_def u_hour_def u_minute_def u_second_def
    using mult_div_mod_eq [of 3600 "t mod 86400"] mult_div_mod_eq [of 60 "t mod 3600"] by linarith
  define a b where "a = t mod 86400" and "b = t mod 3600"
  have "a < 86400" "3600 * (a div 3600) + a mod 3600 = a" "0 \<le> a mod 3600" by (simp_all add: a_def)
  then have "3600 * (a div 3600) < 3600 * 24" by linarith
  then show "u_hour t < 24" by (simp add: u_hour_def a_def)
  have "b < 3600" "60 * (b div 60) + b mod 60 = b" "0 \<le> b mod 60" by (simp_all add: b_def)
  then have "60 * (b div 60) < 60 * 60" by linarith
  then show "u_minute t < 60" by (simp add: u_minute_def b_def)
qed (simp_all add: u_hour_def u_minute_def u_second_def pos_imp_zdiv_nonneg_iff)

section \<open>Months and years of days\<close>

lemmas month_bounds = month_of_bounds

lemma month_of_start [simp]: "month_of (month_start k) = k"
  using month_len_bounds(1) [of k] by (simp add: month_of_eq month_len_def)

lemma month_start_mono: "j \<le> k \<Longrightarrow> month_start j \<le> month_start k"
  using month_start_less [of j k] month_len_bounds(1) [of j] by (cases "j = k") auto

lemma month_of_mono: "c \<le> d \<Longrightarrow> month_of c \<le> month_of d"
proof (rule ccontr)
  assume "c \<le> d" and "\<not> month_of c \<le> month_of d"
  then have "month_start (month_of d + 1) \<le> month_start (month_of c)" by (intro month_start_mono) simp
  then show False using \<open>c \<le> d\<close> month_bounds [of c] month_bounds [of d] by simp
qed

lemma month_start_le: "month_start k \<le> d \<longleftrightarrow> k \<le> month_of d"
  using month_of_mono [of "month_start k" d] month_start_mono [of k "month_of d"] month_bounds(1) [of d] by auto

lemma month_start_far: "month_start (k + int n) \<le> month_start k + 31 * int n"
proof (induction n)
  case (Suc n)
  then show ?case using month_len_bounds(2) [of "k + int n"] by (simp add: month_len_def ac_simps)
qed simp

lemma year_month_start: "year_start y = month_start (12 * y)"
  using month_start_at [of 0 y] by (simp add: month_offset_def)

text \<open>The year of a day, read off its month.\<close>

definition yr :: "int \<Rightarrow> int" where
  "yr d = month_of d div 12"

lemma year_start_le: "year_start y \<le> d \<longleftrightarrow> y \<le> yr d"
  unfolding year_month_start month_start_le yr_def by presburger

lemma year_bounds: "year_start (yr d) \<le> d" "d < year_start (yr d + 1)"
  using year_start_le [of "yr d" d] year_start_le [of "yr d + 1" d] by simp_all

lemma year_len: "365 \<le> year_start (y + 1) - year_start y" "year_start (y + 1) - year_start y \<le> 366"
  by (simp_all add: year_start_step)

section \<open>Steps\<close>

definition day_step :: "(int \<Rightarrow> bool) \<Rightarrow> (int \<Rightarrow> int) \<Rightarrow> bool" where
  "day_step P g = (\<forall>d. \<not> P d \<longrightarrow> d < g d \<and> (\<forall>d'. d \<le> d' \<and> P d' \<longrightarrow> g d \<le> d'))"

lemma day_stepI:
  assumes "\<And>d. \<not> P d \<Longrightarrow> d < g d" and "\<And>d d'. \<not> P d \<Longrightarrow> P d' \<Longrightarrow> d < d' \<Longrightarrow> g d \<le> d'"
  shows "day_step P g"
  using assms unfolding day_step_def by (metis order_le_less)

text \<open>Units that cut the days into intervals: weeks, months and years.\<close>

definition intervals :: "(int \<Rightarrow> int) \<Rightarrow> (int \<Rightarrow> int) \<Rightarrow> bool" where
  "intervals idx begin_of = (\<forall>k d. begin_of k \<le> d \<longleftrightarrow> k \<le> idx d)"

lemma intervals_bounds:
  assumes "intervals idx b"
  shows "b (idx d) \<le> d" "d < b (idx d + 1)" "c \<le> d \<Longrightarrow> idx c \<le> idx d"
proof -
  have b: "b k \<le> e \<longleftrightarrow> k \<le> idx e" for k e using assms by (simp add: intervals_def)
  show "b (idx d) \<le> d" "d < b (idx d + 1)" using b [of "idx d" d] b [of "idx d + 1" d] by simp_all
  show "c \<le> d \<Longrightarrow> idx c \<le> idx d" using b [of "idx c" c] b [of "idx c" d] by simp
qed

lemma month_intervals: "intervals month_of month_start"
  by (simp add: intervals_def month_start_le)

lemma year_intervals: "intervals yr year_start"
  by (simp add: intervals_def year_start_le)

lemma day_intervals: "intervals (\<lambda>d. d) (\<lambda>d. d)"
  by (simp add: intervals_def)

definition week_of :: "int \<Rightarrow> int" where
  "week_of d = (d + 3) div 7"

definition week_begin :: "int \<Rightarrow> int" where
  "week_begin k = 7 * k - 3"

lemma week_intervals: "intervals week_of week_begin"
  unfolding intervals_def week_of_def week_begin_def by presburger

text \<open>Every \<open>n\<close>-th interval from the one with index \<open>i\<close> on.\<close>

definition every_nth :: "(int \<Rightarrow> int) \<Rightarrow> int \<Rightarrow> int \<Rightarrow> int \<Rightarrow> bool" where
  "every_nth idx i n d = ((idx d - i) mod n = 0)"

definition nth_step :: "(int \<Rightarrow> int) \<Rightarrow> (int \<Rightarrow> int) \<Rightarrow> int \<Rightarrow> int \<Rightarrow> int \<Rightarrow> int" where
  "nth_step idx begin_of i n d = begin_of (idx d + (n - (idx d - i) mod n))"

lemma every_nth_step:
  assumes iv: "intervals idx b" and n: "0 < n"
  shows "day_step (every_nth idx i n) (nth_step idx b i n)"
proof (rule day_stepI)
  fix d assume "\<not> every_nth idx i n d"
  have "(idx d - i) mod n < n" using n by simp
  then have "idx d < idx d + (n - (idx d - i) mod n)" by simp
  then show "d < nth_step idx b i n d" using iv by (simp add: nth_step_def intervals_def flip: not_le)
next
  fix d d' assume not: "\<not> every_nth idx i n d" and d': "every_nth idx i n d'" "d < d'"
  let ?a = "idx d - i" and ?b = "idx d' - i"
  have le: "?a \<le> ?b" using intervals_bounds(3) [OF iv, of d d'] d'(2) by simp
  have "n dvd ?b" using d'(1) by (auto simp: every_nth_def)
  then obtain q where q: "?b = n * q" by blast
  have a: "?a = n * (?a div n) + ?a mod n" by simp
  have "?a mod n \<noteq> 0" using not by (simp add: every_nth_def)
  then have "0 < ?a mod n" using pos_mod_sign [OF n, of ?a] by linarith
  then have "n * (?a div n) < n * q" using le q a by linarith
  then have "?a div n + 1 \<le> q" using n by simp
  then have "n * (?a div n + 1) \<le> n * q" using n by (intro mult_left_mono) auto
  then have "?a - ?a mod n + n \<le> ?b" using q a by (simp only: distrib_left mult_1_right)
  then have "idx d + (n - ?a mod n) \<le> idx d'" by simp
  then show "nth_step idx b i n d \<le> d'" using iv by (simp add: nth_step_def intervals_def)
qed

text \<open>The \<open>n\<close>-th day of an interval, counted from its beginning.\<close>

definition from_begin :: "(int \<Rightarrow> int) \<Rightarrow> (int \<Rightarrow> int) \<Rightarrow> int \<Rightarrow> int \<Rightarrow> bool" where
  "from_begin idx begin_of n d = (d - begin_of (idx d) + 1 = n)"

definition begin_step :: "(int \<Rightarrow> int) \<Rightarrow> (int \<Rightarrow> int) \<Rightarrow> int \<Rightarrow> int \<Rightarrow> int" where
  "begin_step idx begin_of n d =
    (if d - begin_of (idx d) + 1 < n then begin_of (idx d) + n - 1 else begin_of (idx d + 1) - 1 + n)"

lemma intervals_order:
  assumes "intervals idx b" and "j \<le> k"
  shows "b j \<le> b k"
proof -
  have "k \<le> idx (b k)" using assms(1) by (simp add: intervals_def flip: assms(1) [unfolded intervals_def, rule_format])
  then show ?thesis using assms by (simp add: intervals_def)
qed

lemma from_begin_step:
  assumes iv: "intervals idx b" and n: "0 < n"
  shows "day_step (from_begin idx b n) (begin_step idx b n)"
proof (rule day_stepI)
  fix d assume "\<not> from_begin idx b n d"
  then show "d < begin_step idx b n d" using intervals_bounds(2) [OF iv, of d] n by (auto simp: begin_step_def from_begin_def)
next
  fix d d' assume not: "\<not> from_begin idx b n d" and d': "from_begin idx b n d'" "d < d'"
  have le: "idx d \<le> idx d'" using intervals_bounds(3) [OF iv, of d d'] d'(2) by simp
  show "begin_step idx b n d \<le> d'"
  proof (cases "idx d = idx d'")
    case True
    then show ?thesis using not d' by (simp add: begin_step_def from_begin_def)
  next
    case False
    then have "b (idx d + 1) \<le> b (idx d')" "b (idx d) \<le> b (idx d + 1)" using le intervals_order [OF iv] by simp_all
    then show ?thesis using d'(1) by (simp add: begin_step_def from_begin_def)
  qed
qed

text \<open>The \<open>n\<close>-th day from the end, where every interval has such a day or its neighbours are long enough.\<close>

definition from_end :: "(int \<Rightarrow> int) \<Rightarrow> (int \<Rightarrow> int) \<Rightarrow> int \<Rightarrow> int \<Rightarrow> bool" where
  "from_end idx begin_of n d = (d = begin_of (idx d + 1) - n)"

definition end_step :: "(int \<Rightarrow> int) \<Rightarrow> (int \<Rightarrow> int) \<Rightarrow> int \<Rightarrow> int \<Rightarrow> int" where
  "end_step idx begin_of n d =
    (let k = idx d; here = begin_of (k + 1) - n; nxt = begin_of (k + 2) - n
     in if here < begin_of k then nxt
        else if d < here then here
        else if nxt \<le> d then begin_of (k + 1) else nxt)"

lemma from_end_step:
  assumes iv: "intervals idx b" and n: "0 < n"
    and short: "\<And>k. b (k + 1) - n < b k \<Longrightarrow> b (k + 1) \<le> b (k + 2) - n"
  shows "day_step (from_end idx b n) (end_step idx b n)"
proof (rule day_stepI)
  fix d assume not: "\<not> from_end idx b n d"
  show "d < end_step idx b n d"
    using not intervals_bounds [OF iv, of d] short [of "idx d"] by (auto simp: end_step_def from_end_def Let_def)
next
  fix d d' assume not: "\<not> from_end idx b n d" and d': "from_end idx b n d'" "d < d'"
  have le: "idx d \<le> idx d'" using intervals_bounds(3) [OF iv, of d d'] d'(2) by simp
  have b': "b (idx d') \<le> d'" by (rule intervals_bounds(1) [OF iv])
  show "end_step idx b n d \<le> d'"
  proof (cases "idx d = idx d'")
    case True
    then show ?thesis using not d' b' by (auto simp: end_step_def from_end_def Let_def)
  next
    case False
    then have "b (idx d + 1) \<le> b (idx d')" "b (idx d + 2) \<le> b (idx d' + 1)" "b (idx d + 1) \<le> b (idx d' + 1)" using le intervals_order [OF iv] by simp_all
    then show ?thesis using d'(1) b' not d'(2) by (auto simp: end_step_def from_end_def Let_def)
  qed
qed

end
