(* ===== verification/Recur_Contract.thy ===== *)
theory Recur_Contract
  imports Recur_Iter
begin

text \<open>
  The contract of a constraint, as the documentation of \<open>next_occur_of\<close> states it: it stays on a date
  exactly when the date matches, it never goes back and it never overshoots a match.  The lemmas show
  that \<open>or\<close> and \<open>and\<close> keep the contract, and that an iterator whose constraint has it gives the matches in
  order and misses none.
\<close>

section \<open>The contract\<close>

text \<open>\<open>M\<close> is the set of matching instants; matches are found from \<open>lo\<close> up to \<open>hi\<close>.\<close>

definition keeps_on :: "('z, 's, 'e, 'c) jiff \<Rightarrow> int \<Rightarrow> (int \<Rightarrow> bool) \<Rightarrow> ('z, 'e) fact_op \<Rightarrow> bool" where
  "keeps_on J lo M f = (\<forall>x y. lo \<le> instant J x \<and> f x = Inr y \<longrightarrow>
     instant J x \<le> instant J y \<and> (instant J y = instant J x \<longleftrightarrow> M (instant J x)))"

definition no_overshoot :: "('z, 's, 'e, 'c) jiff \<Rightarrow> int \<Rightarrow> int \<Rightarrow> (int \<Rightarrow> bool) \<Rightarrow> ('z, 'e) fact_op \<Rightarrow> bool" where
  "no_overshoot J lo hi M f = (\<forall>x t. lo \<le> instant J x \<and> instant J x \<le> t \<and> t \<le> hi \<and> M t \<longrightarrow>
     (\<exists>y. f x = Inr y \<and> instant J y \<le> t))"

definition distance :: "('z, 's, 'e, 'c) jiff \<Rightarrow> int \<Rightarrow> int \<Rightarrow> (int \<Rightarrow> bool) \<Rightarrow> ('z, 'e) fact_op \<Rightarrow> bool" where
  "distance J lo hi M f = (keeps_on J lo M f \<and> no_overshoot J lo hi M f)"

lemma keeps_onD:
  assumes "keeps_on J lo M f" and "lo \<le> instant J x" and "f x = Inr y"
  shows "instant J x \<le> instant J y" and "instant J y = instant J x \<longleftrightarrow> M (instant J x)"
  using assms unfolding keeps_on_def by blast+

lemma no_overshootE:
  assumes "no_overshoot J lo hi M f" and "lo \<le> instant J x" and "instant J x \<le> t" and "t \<le> hi" and "M t"
  obtains y where "f x = Inr y" and "instant J y \<le> t"
  using assms unfolding no_overshoot_def by blast

lemma distance_cong: "(\<And>t. M t = N t) \<Longrightarrow> distance J lo hi M f = distance J lo hi N f"
  by (simp add: distance_def keeps_on_def no_overshoot_def)

section \<open>Composition\<close>

definition then_fact :: "('z, 'e) fact_op \<Rightarrow> ('z, 'e) fact_op \<Rightarrow> ('z, 'e) fact_op" where
  "then_fact f g x = attempt (f x) g"

lemma then_distance:
  assumes f: "distance J lo hi M f" and g: "distance J lo hi N g"
  shows "distance J lo hi (\<lambda>t. M t \<and> N t) (then_fact f g)"
proof -
  have kf: "keeps_on J lo M f" and kg: "keeps_on J lo N g" and nf: "no_overshoot J lo hi M f" and ng: "no_overshoot J lo hi N g"
    using f g by (simp_all add: distance_def)
  have "instant J x \<le> instant J z \<and> (instant J z = instant J x \<longleftrightarrow> M (instant J x) \<and> N (instant J x))"
    if x: "lo \<le> instant J x" and z: "then_fact f g x = Inr z" for x z
  proof -
    obtain y where y: "f x = Inr y" "g y = Inr z" using z by (auto simp: then_fact_def attempt_ok)
    note one = keeps_onD [OF kf x y(1)]
    then have "lo \<le> instant J y" using x by simp
    note two = keeps_onD [OF kg this y(2)]
    show ?thesis using one two by (metis order_antisym order_trans)
  qed
  moreover have "\<exists>z. then_fact f g x = Inr z \<and> instant J z \<le> t"
    if x: "lo \<le> instant J x" "instant J x \<le> t" and t: "t \<le> hi" "M t" "N t" for x t
  proof -
    obtain y where y: "f x = Inr y" "instant J y \<le> t" by (rule no_overshootE [OF nf x t(1,2)])
    have "lo \<le> instant J y" using keeps_onD(1) [OF kf x(1) y(1)] x(1) by simp
    then obtain z where "g y = Inr z" "instant J z \<le> t" by (rule no_overshootE [OF ng _ y(2) t(1,3)])
    then show ?thesis using y by (simp add: then_fact_def)
  qed
  ultimately show ?thesis by (simp add: distance_def keeps_on_def no_overshoot_def)
qed

definition holds_all :: "(int \<Rightarrow> bool) list \<Rightarrow> int \<Rightarrow> bool" where
  "holds_all Ms t = (\<forall>M \<in> set Ms. M t)"

definition holds_any :: "(int \<Rightarrow> bool) list \<Rightarrow> int \<Rightarrow> bool" where
  "holds_any Ms t = (\<exists>M \<in> set Ms. M t)"

lemma Inr_distance: "distance J lo hi (\<lambda>_. True) Inr"
  by (auto simp: distance_def keeps_on_def no_overshoot_def)

lemma and_rest_distance:
  assumes "list_all2 (distance J lo hi) Ms fs"
  shows "distance J lo hi (holds_all Ms) (and_rest fs)"
  using assms
proof (induction Ms fs rule: list_all2_induct)
  case Nil
  have "and_rest [] = Inr" by (rule ext) simp
  then show ?case using Inr_distance by (simp add: holds_all_def)
next
  case (Cons M Ms f fs)
  have "and_rest (f # fs) = then_fact f (and_rest fs)" by (rule ext) (simp add: then_fact_def)
  moreover have "holds_all (M # Ms) = (\<lambda>t. M t \<and> holds_all Ms t)" by (rule ext) (simp add: holds_all_def)
  ultimately show ?case using then_distance [OF Cons(1) Cons.IH] by simp
qed

lemma fact_and_some: "fact_and fs = Some f \<Longrightarrow> f = and_rest fs"
  by (cases fs) (auto simp: fact_and_def)

lemma fact_and_distance:
  assumes "list_all2 (distance J lo hi) Ms fs" and "fact_and fs = Some f"
  shows "distance J lo hi (holds_all Ms) f"
  using and_rest_distance [OF assms(1)] fact_and_some [OF assms(2)] by simp

text \<open>The minimum.\<close>

definition or_fact :: "('z, 's, 'e, 'c) jiff \<Rightarrow> ('z, 'e) fact_op \<Rightarrow> ('z, 'e) fact_op \<Rightarrow> ('z, 'e) fact_op" where
  "or_fact J f g x = attempt (f x) (\<lambda>y. attempt (g x) (\<lambda>z. Inr (z_min J y z)))"

text \<open>
  For the minimum every alternative has to succeed, so it must do so up to \<open>hi\<close> with or without a match of
  its own ahead.
\<close>

definition succeeds :: "('z, 's, 'e, 'c) jiff \<Rightarrow> int \<Rightarrow> int \<Rightarrow> ('z, 'e) fact_op \<Rightarrow> bool" where
  "succeeds J lo hi f = (\<forall>x. lo \<le> instant J x \<and> instant J x \<le> hi \<longrightarrow> is_ok (f x))"

lemma or_distance:
  assumes f: "distance J lo hi M f" "succeeds J lo hi f" and g: "distance J lo hi N g" "succeeds J lo hi g"
  shows "distance J lo hi (\<lambda>t. M t \<or> N t) (or_fact J f g)" and "succeeds J lo hi (or_fact J f g)"
proof -
  have kf: "keeps_on J lo M f" and kg: "keeps_on J lo N g" and nf: "no_overshoot J lo hi M f" and ng: "no_overshoot J lo hi N g"
    using f g by (simp_all add: distance_def)
  have "instant J x \<le> instant J z \<and> (instant J z = instant J x \<longleftrightarrow> M (instant J x) \<or> N (instant J x))"
    if x: "lo \<le> instant J x" and z: "or_fact J f g x = Inr z" for x z
  proof -
    obtain a b where ab: "f x = Inr a" "g x = Inr b" "z = z_min J a b" using z by (auto simp: or_fact_def attempt_ok)
    then show ?thesis using keeps_onD [OF kf x ab(1)] keeps_onD [OF kg x ab(2)] by (auto simp: z_min_def)
  qed
  moreover have ok: "\<exists>a b. f x = Inr a \<and> g x = Inr b" if "lo \<le> instant J x" "instant J x \<le> hi" for x
  proof -
    have "is_ok (f x)" "is_ok (g x)" using f(2) g(2) that by (simp_all add: succeeds_def)
    then show ?thesis by (cases "f x"; cases "g x") simp_all
  qed
  moreover have "\<exists>z. or_fact J f g x = Inr z \<and> instant J z \<le> t"
    if x: "lo \<le> instant J x" "instant J x \<le> t" and t: "t \<le> hi" "M t \<or> N t" for x t
  proof -
    obtain a b where ab: "f x = Inr a" "g x = Inr b" using ok [of x] x t by auto
    have "instant J a \<le> t \<or> instant J b \<le> t"
      using t(2) no_overshootE [OF nf x t(1), of "instant J a \<le> t"] no_overshootE [OF ng x t(1), of "instant J b \<le> t"] ab by auto
    then show ?thesis using ab by (auto simp: or_fact_def z_min_def)
  qed
  ultimately show "distance J lo hi (\<lambda>t. M t \<or> N t) (or_fact J f g)" by (simp add: distance_def keeps_on_def no_overshoot_def)
  show "succeeds J lo hi (or_fact J f g)" unfolding succeeds_def using ok by (fastforce simp: or_fact_def)
qed

definition sure_distance :: "('z, 's, 'e, 'c) jiff \<Rightarrow> int \<Rightarrow> int \<Rightarrow> (int \<Rightarrow> bool) \<Rightarrow> ('z, 'e) fact_op \<Rightarrow> bool" where
  "sure_distance J lo hi M f = (distance J lo hi M f \<and> succeeds J lo hi f)"

lemma or_rest_distance:
  assumes "list_all2 (sure_distance J lo hi) Ms fs" and "sure_distance J lo hi N g"
  shows "sure_distance J lo hi (\<lambda>t. N t \<or> holds_any Ms t) (\<lambda>x. attempt (g x) (or_rest J fs x))"
  using assms
proof (induction Ms fs arbitrary: N g rule: list_all2_induct)
  case Nil
  have "(\<lambda>x. attempt (g x) (or_rest J [] x)) = g"
  proof
    show "attempt (g x) (or_rest J [] x) = g x" for x by (cases "g x") simp_all
  qed
  then show ?case using Nil by (simp add: holds_any_def del: or_rest.simps)
next
  case (Cons M Ms f fs)
  have step: "(\<lambda>x. attempt (g x) (or_rest J (f # fs) x)) = (\<lambda>x. attempt (or_fact J g f x) (or_rest J fs x))"
  proof
    show "attempt (g x) (or_rest J (f # fs) x) = attempt (or_fact J g f x) (or_rest J fs x)" for x
      by (cases "g x"; cases "f x") (simp_all add: or_fact_def)
  qed
  have "sure_distance J lo hi (\<lambda>t. N t \<or> M t) (or_fact J g f)"
    using Cons(1) Cons.prems or_distance [of J lo hi N g M f] by (simp add: sure_distance_def)
  from Cons.IH [OF this] show ?case unfolding step by (simp add: holds_any_def disj_assoc)
qed

lemma fact_or_distance:
  assumes "list_all2 (sure_distance J lo hi) Ms fs" and "fact_or J fs = Some f"
  shows "sure_distance J lo hi (holds_any Ms) f"
proof -
  obtain g gs N Ns where cons: "fs = g # gs" "Ms = N # Ns" using assms by (cases fs; cases Ms) (auto simp: fact_or_def)
  then have "f = (\<lambda>x. attempt (g x) (or_rest J gs x))" using assms(2) by (simp add: fact_or_def)
  moreover have "(\<lambda>t. N t \<or> holds_any Ns t) = holds_any Ms" using cons by (auto simp: holds_any_def fun_eq_iff)
  ultimately show ?thesis using or_rest_distance [of J lo hi Ns gs N g] assms(1) cons by simp
qed

section \<open>The iterator\<close>

text \<open>An iterator without \<open>BYSETPOS\<close> that looks for the matches of \<open>M\<close>; \<open>ts\<close> are the instants it still has to give.\<close>

definition ticks :: "('z, 's, 'e, 'c) jiff \<Rightarrow> int \<Rightarrow> int \<Rightarrow> bool" where
  "ticks J lo hi = (\<forall>z. (\<forall>y. checked_add J (span_seconds J 1) z = Inr y \<longrightarrow> instant J y = instant J z + 1)
     \<and> (lo \<le> instant J z \<and> instant J z \<le> hi \<longrightarrow> is_ok (checked_add J (span_seconds J 1) z)))"

definition looks_for :: "('z, 's, 'e, 'c) jiff \<Rightarrow> int \<Rightarrow> int \<Rightarrow> (int \<Rightarrow> bool) \<Rightarrow> ('z, 'e) recur_iterator \<Rightarrow> bool" where
  "looks_for J lo hi M it = (distance J lo hi M (it_fact it) \<and> lo \<le> instant J (it_curr it) \<and> it_picker it = None
     \<and> it_since it = None)"

definition ahead :: "('z, 's, 'e, 'c) jiff \<Rightarrow> int \<Rightarrow> (int \<Rightarrow> bool) \<Rightarrow> ('z, 'e) recur_iterator \<Rightarrow> int list" where
  "ahead J hi M it = (case it_next it of None \<Rightarrow> [] | Some z \<Rightarrow> [instant J z]) @ filter M [instant J (it_curr it)..hi]"

lemma first_match_upto:
  assumes "a \<le> m" "m \<le> b" "M m" "\<And>t. a \<le> t \<Longrightarrow> t < m \<Longrightarrow> \<not> M t"
  shows "filter M [a..b] = m # filter M [m + 1..b]"
proof -
  have "filter M [a..m - 1] = []" using assms(4) by (auto simp: filter_empty_conv)
  then show ?thesis using upto_split3 [OF assms(1,2)] assms(3) by simp
qed

lemma next_match_upto:
  assumes "filter M [a..b] = m # ms"
  shows "a \<le> m" "m \<le> b" "M m" "\<And>t. a \<le> t \<Longrightarrow> t < m \<Longrightarrow> \<not> M t" "ms = filter M [m + 1..b]"
proof -
  have "m \<in> set (filter M [a..b])" using assms by simp
  then show m: "a \<le> m" "m \<le> b" "M m" by simp_all
  have sorted: "sorted (m # ms)" unfolding assms [symmetric] by (simp add: sorted_wrt_filter)
  show none: "\<not> M t" if "a \<le> t" "t < m" for t
  proof
    assume "M t"
    then have "t \<in> set (m # ms)" unfolding assms [symmetric] using that m by simp
    then show False using sorted that(2) by auto
  qed
  show "ms = filter M [m + 1..b]" using first_match_upto [of a m b M] m none assms by simp
qed

lemma next_loop_finds:
  assumes "looks_for J lo hi M it" and ticks: "ticks J lo hi" and "filter M [instant J (it_curr it)..hi] = m # ms"
  shows "\<exists>z c. next_loop J A it = Some (Some z, it\<lparr>it_curr := c\<rparr>) \<and> instant J z = m \<and> instant J c = m + 1"
  using assms(1,3)
proof (induction "nat (m - instant J (it_curr it))" arbitrary: it rule: less_induct)
  case less
  let ?x = "it_curr it"
  note it = less.prems(1) [unfolded looks_for_def distance_def]
  note match = next_match_upto [OF less.prems(2)]
  from it have k: "keeps_on J lo M (it_fact it)" and n: "no_overshoot J lo hi M (it_fact it)" and lo: "lo \<le> instant J ?x"
    and no_picker: "it_picker it = None" by simp_all
  obtain y where y: "it_fact it ?x = Inr y" "instant J y \<le> m" by (rule no_overshootE [OF n lo match(1-3)])
  note keeps = keeps_onD [OF k lo y(1)]
  have round: "end_period J y it = Inr it" by (simp add: end_period_def no_picker)
  show ?case
  proof (cases "instant J y = instant J ?x")
    case True
    then have "M (instant J ?x)" using keeps(2) by simp
    then have m: "m = instant J ?x" using match(1,4) by force
    have "is_ok (checked_add J (span_seconds J 1) ?x)" using ticks match(2) m lo by (simp add: ticks_def)
    then obtain c where c: "checked_add J (span_seconds J 1) ?x = Inr c" by (auto simp: is_ok_def split: sum.splits)
    then have "instant J c = m + 1" using ticks m by (simp add: ticks_def)
    moreover have "next_round J A it = Inl (Some y, it\<lparr>it_curr := c\<rparr>)"
      using y(1) round c True by (simp add: next_round_def no_picker Let_def)
    ultimately show ?thesis using True m by (subst next_loop.simps) auto
  next
    case False
    then have less_y: "instant J ?x < instant J y" using keeps(1) by simp
    let ?it = "it\<lparr>it_curr := y\<rparr>"
    have "next_round J A it = Inr ?it" using y(1) round less_y by (simp add: next_round_def)
    moreover have "looks_for J lo hi M ?it" using less.prems(1) less_y by (simp add: looks_for_def)
    moreover have "filter M [instant J (it_curr ?it)..hi] = m # ms"
      using first_match_upto [of "instant J y" m hi M] y(2) less_y match by simp
    moreover have "nat (m - instant J (it_curr ?it)) < nat (m - instant J ?x)" using less_y y(2) by simp
    ultimately show ?thesis using less.hyps [of ?it] by (subst next_loop.simps) simp
  qed
qed

lemma next_inner_finds:
  assumes "looks_for J lo hi M it" and "ticks J lo hi" and "ahead J hi M it = t # ts"
  shows "\<exists>z c. next_inner J A it = Some (Some z, it\<lparr>it_next := None, it_curr := c\<rparr>) \<and> instant J z = t
    \<and> looks_for J lo hi M (it\<lparr>it_next := None, it_curr := c\<rparr>) \<and> ahead J hi M (it\<lparr>it_next := None, it_curr := c\<rparr>) = ts"
proof (cases "it_next it")
  case None
  then have "filter M [instant J (it_curr it)..hi] = t # ts" using assms(3) by (simp add: ahead_def)
  note match = next_match_upto [OF this]
  obtain z c where zc: "next_loop J A it = Some (Some z, it\<lparr>it_curr := c\<rparr>)" "instant J z = t" "instant J c = t + 1"
    using next_loop_finds [OF assms(1,2) \<open>filter M _ = _\<close>] by blast
  have "it\<lparr>it_next := None, it_curr := c\<rparr> = it\<lparr>it_curr := c\<rparr>" using None by (cases it) simp
  moreover have "it_picker it = None" using assms(1) by (simp add: looks_for_def)
  ultimately show ?thesis using zc None match(1,5) assms(1)
    by (intro exI [of _ z] exI [of _ c]) (simp add: next_inner_def ahead_def looks_for_def)
next
  case (Some z)
  then show ?thesis using assms(1,3) by (intro exI [of _ z] exI [of _ "it_curr it"]) (simp add: next_inner_def ahead_def looks_for_def)
qed

lemma next_skip_finds:
  assumes "looks_for J lo hi M it" and "ticks J lo hi" and "ahead J hi M it = t # ts" and "instant J (it_start it) \<le> t"
  shows "\<exists>z c. next_skip J A it = Some (Some z, it\<lparr>it_next := None, it_curr := c\<rparr>) \<and> instant J z = t
    \<and> looks_for J lo hi M (it\<lparr>it_next := None, it_curr := c\<rparr>) \<and> ahead J hi M (it\<lparr>it_next := None, it_curr := c\<rparr>) = ts"
proof -
  obtain z c where zc: "next_inner J A it = Some (Some z, it\<lparr>it_next := None, it_curr := c\<rparr>)" "instant J z = t"
    "looks_for J lo hi M (it\<lparr>it_next := None, it_curr := c\<rparr>)" "ahead J hi M (it\<lparr>it_next := None, it_curr := c\<rparr>) = ts"
    using next_inner_finds [OF assms(1-3)] by blast
  have "\<not> too_early J z (it\<lparr>it_next := None, it_curr := c\<rparr>)" using zc(2) assms(1,4) by (simp add: too_early_def looks_for_def)
  then show ?thesis using zc by (subst next_skip.simps) auto
qed

definition within :: "('z, 's, 'e, 'c) jiff \<Rightarrow> 'z option \<Rightarrow> int \<Rightarrow> bool" where
  "within J til t = (case til of None \<Rightarrow> True | Some u \<Rightarrow> t \<le> instant J u)"

definition limited :: "nat option \<Rightarrow> nat \<Rightarrow> nat" where
  "limited count n = (case count of None \<Rightarrow> n | Some c \<Rightarrow> min c n)"

definition counts_left :: "nat option \<Rightarrow> nat \<Rightarrow> nat \<Rightarrow> nat" where
  "counts_left count emitted n = (case count of None \<Rightarrow> n | Some c \<Rightarrow> min (c - emitted) n)"

lemma iter_take_finds:
  assumes "looks_for J lo hi M it" and ticks: "ticks J lo hi" and "n \<le> length (ahead J hi M it)"
    and "\<forall>t \<in> set (ahead J hi M it). instant J (it_start it) \<le> t" and "0 < it_emitted it" and "it_emitted it + n < 4294967296"
  shows "\<exists>zs it'. iter_take J A n it = Some (zs, it') \<and> map (instant J) zs =
    takeWhile (within J (it_until it)) (take (counts_left (it_count it) (it_emitted it) n) (ahead J hi M it))"
  using assms(1,3-)
proof (induction n arbitrary: it)
  case 0
  then show ?case by (simp add: counts_left_def split: option.splits)
next
  case (Suc n)
  show ?case
  proof (cases "counts_left (it_count it) (it_emitted it) (Suc n)")
    case 0
    then have "\<exists>c. it_count it = Some c \<and> c \<le> it_emitted it" by (auto simp: counts_left_def split: option.splits)
    then have "iter_next J A it = Some (None, it)" by (auto simp: iter_next_def)
    then show ?thesis using 0 by simp
  next
    case left: (Suc k)
    then have allowed: "\<not> (case it_count it of None \<Rightarrow> False | Some c \<Rightarrow> it_emitted it \<ge> c)"
      by (auto simp: counts_left_def split: option.splits)
    obtain t ts where ts: "ahead J hi M it = t # ts" using Suc.prems(2) by (cases "ahead J hi M it") auto
    have early: "instant J (it_start it) \<le> t" using Suc.prems(3) ts by simp
    obtain z c where zc: "next_skip J A it = Some (Some z, it\<lparr>it_next := None, it_curr := c\<rparr>)" "instant J z = t"
      "looks_for J lo hi M (it\<lparr>it_next := None, it_curr := c\<rparr>)" "ahead J hi M (it\<lparr>it_next := None, it_curr := c\<rparr>) = ts"
      using next_skip_finds [OF Suc.prems(1) ticks ts early] by blast
    let ?it = "it\<lparr>it_next := None, it_curr := c\<rparr>"
    have "iter_next J A it = Some (emit_date J z ?it)" using allowed zc(1) by (simp add: iter_next_def)
    moreover have "emit_date J z ?it = (if within J (it_until it) t then (Some z, ?it\<lparr>it_emitted := it_emitted it + 1\<rparr>) else (None, ?it))"
      using Suc.prems(4,5) zc(2) by (auto simp: emit_date_def within_def not_le split: option.splits)
    ultimately have nxt: "iter_next J A it = Some (if within J (it_until it) t then (Some z, ?it\<lparr>it_emitted := it_emitted it + 1\<rparr>) else (None, ?it))"
      by simp
    show ?thesis
    proof (cases "within J (it_until it) t")
      case False
      then show ?thesis using nxt left ts by simp
    next
      case True
      let ?next = "?it\<lparr>it_emitted := it_emitted it + 1\<rparr>"
      have same: "ahead J hi M ?next = ts" "looks_for J lo hi M ?next" using zc(3,4) by (simp_all add: ahead_def looks_for_def)
      obtain zs it' where rest: "iter_take J A n ?next = Some (zs, it')" "map (instant J) zs =
          takeWhile (within J (it_until it)) (take (counts_left (it_count it) (it_emitted it + 1) n) ts)"
        using Suc.IH [OF same(2)] Suc.prems ts same(1) by auto
      have "k = counts_left (it_count it) (it_emitted it + 1) n" using left by (auto simp: counts_left_def split: option.splits)
      then show ?thesis using nxt True rest left ts zc(2) by simp
    qed
  qed
qed

text \<open>A new iterator; \<open>DTSTART\<close> comes first, matched or not.\<close>

definition rule_dates :: "(int \<Rightarrow> bool) \<Rightarrow> int \<Rightarrow> int \<Rightarrow> int list" where
  "rule_dates M s hi = s # filter M [s + 1..hi]"

lemma new_take_finds:
  assumes look: "looks_for J lo hi M it" and ticks: "ticks J lo hi"
    and new: "it_next it = None" "it_emitted it = 0" "it_curr it = it_start it" "it_start it = z0" "instant J z0 = s"
    and m: "filter M [s..hi] = m # ms" "within J (it_until it) m"
    and n: "n \<le> length (rule_dates M s hi)" "n < 4294967296"
  shows "\<exists>zs it'. iter_take J A n it = Some (zs, it') \<and>
    map (instant J) zs = takeWhile (within J (it_until it)) (take (limited (it_count it) n) (rule_dates M s hi))"
proof (cases "n = 0 \<or> it_count it = Some 0")
  case True
  then show ?thesis
  proof
    assume "it_count it = Some 0"
    then show ?thesis by (cases n) (auto simp: limited_def iter_next_def)
  qed (simp add: limited_def split: option.splits)
next
  case False
  then obtain k where k: "n = Suc k" by (cases n) auto
  have allowed: "\<not> (case it_count it of None \<Rightarrow> False | Some c \<Rightarrow> it_emitted it \<ge> c)"
    using False new(2) by (auto split: option.splits)
  have ts: "ahead J hi M it = m # ms" using m new by (simp add: ahead_def)
  note match = next_match_upto [OF m(1)]
  obtain z c where zc: "next_skip J A it = Some (Some z, it\<lparr>it_next := None, it_curr := c\<rparr>)" "instant J z = m"
    "looks_for J lo hi M (it\<lparr>it_next := None, it_curr := c\<rparr>)" "ahead J hi M (it\<lparr>it_next := None, it_curr := c\<rparr>) = ms"
    using next_skip_finds [OF look ticks ts, where A = A] new match(1) by auto
  let ?it = "it\<lparr>it_next := None, it_curr := c\<rparr>"
  let ?one = "?it\<lparr>it_emitted := 1, it_next := (if m = s then None else Some z)\<rparr>"
  have "emit_date J z ?it = (Some (if m = s then z else z0), ?one)"
    using m(2) new zc(2) by (auto simp: emit_date_def within_def split: option.splits)
  then have first: "iter_next J A it = Some (Some (if m = s then z else z0), ?one)" using allowed zc(1) by (simp add: iter_next_def)
  have dates: "ahead J hi M ?one = filter M [s + 1..hi]"
  proof (cases "m = s")
    case True
    then show ?thesis using zc(4) match(5) by (simp add: ahead_def)
  next
    case False
    then have "\<not> M s" "s < m" using match(1) match(4) [of s] by force+
    then have "filter M [s + 1..hi] = m # ms" using m(1) match(1,2) by (simp add: upto_rec1 split: if_splits)
    then show ?thesis using False zc(2,4) by (simp add: ahead_def)
  qed
  have s: "s = instant J (if m = s then z else z0)" using zc(2) new(5) by simp
  have "s \<le> hi" using match(1,2) by simp
  have "looks_for J lo hi M ?one" using zc(3) by (simp add: looks_for_def)
  then obtain zs it' where rest: "iter_take J A k ?one = Some (zs, it')" "map (instant J) zs =
      takeWhile (within J (it_until it)) (take (counts_left (it_count it) 1 k) (filter M [s + 1..hi]))"
    using iter_take_finds [OF _ ticks, where M = M and it = ?one and n = k and A = A] n k dates new(4,5) by (auto simp: rule_dates_def)
  have "within J (it_until it) s" using m(2) match(1) by (auto simp: within_def split: option.splits)
  moreover have "limited (it_count it) n = Suc (counts_left (it_count it) 1 k)"
    using False k by (auto simp: limited_def counts_left_def split: option.splits)
  ultimately show ?thesis using first rest k s by (simp add: rule_dates_def)
qed

end
