(* ===== verification/Recur_Distance.thy ===== *)
theory Recur_Distance
  imports Recur_Days Recur_Contract
begin

text \<open>
  The constraints of \<open>fact.rs\<close> keep the contract in a zone without transitions: every operation of the
  library is evaluated on instants, and what is left are the steps on days.
\<close>

section \<open>Evaluating operations\<close>

text \<open>A result that has the instant \<open>v\<close> if it is a success, and is one under the condition \<open>ok\<close>.\<close>

definition gives_if :: "('z, 's, 'e, 'c) jiff \<Rightarrow> bool \<Rightarrow> 'e + 'z \<Rightarrow> int \<Rightarrow> bool" where
  "gives_if J ok r v = ((\<forall>z. r = Inr z \<longrightarrow> instant J z = v) \<and> (ok \<longrightarrow> is_ok r))"

text \<open>Room on both sides of the dates that are searched, for the steps in between.\<close>

definition zone :: "('z, 's, 'e, 'c) jiff \<Rightarrow> int set \<Rightarrow> int \<Rightarrow> int \<Rightarrow> bool" where
  "zone J R lo hi = (utc_laws J R \<and> {lo - 70000000..hi + 70000000} \<subseteq> R)"

definition roomy :: "int \<Rightarrow> int \<Rightarrow> int \<Rightarrow> bool" where
  "roomy lo hi v = (lo - 70000000 \<le> v \<and> v \<le> hi + 70000000)"

lemma gives_if_Inr: "instant J z = v \<Longrightarrow> gives_if J ok (Inr z) v"
  by (simp add: gives_if_def)

lemma gives_if_eq: "gives_if J ok r v \<Longrightarrow> v = w \<Longrightarrow> gives_if J ok r w"
  by simp

lemma gives_if_attempt:
  assumes "gives_if J ok r v" and "\<And>z. instant J z = v \<Longrightarrow> gives_if J ok (k z) w"
  shows "gives_if J ok (attempt r k) w"
  using assms by (cases r) (auto simp: gives_if_def)

lemma gives_if_op:
  assumes "gives_instant J R r v" and "zone J R lo hi" and "ok \<Longrightarrow> roomy lo hi v"
  shows "gives_if J ok r v"
  using assms by (auto simp: gives_instant_def gives_if_def zone_def roomy_def)

lemma gives_if_maybe:
  assumes "gives_maybe J R r (Some v)" and "zone J R lo hi" and "ok \<Longrightarrow> roomy lo hi v"
  shows "gives_if J ok r v"
  by (rule gives_if_op [OF _ assms(2,3)]) (use assms(1) in \<open>simp_all add: gives_maybe_def\<close>)

lemma attempt_assoc: "attempt r (\<lambda>z. attempt (f z) g) = attempt (attempt r f) g"
  by (cases r) simp_all

lemma zone_laws:
  assumes "zone J R lo hi"
  shows "gives_instant J R (z_start_of_day J z) (u_start_of_day (instant J z))"
    "gives_instant J R (z_tomorrow J z) (u_tomorrow (instant J z))"
    "gives_instant J R (z_first_of_month J z) (u_first_of_month (instant J z))"
    "gives_instant J R (z_last_of_month J z) (u_last_of_month (instant J z))"
    "gives_instant J R (z_first_of_year J z) (u_first_of_year (instant J z))"
    "gives_instant J R (z_last_of_year J z) (u_last_of_year (instant J z))"
    "gives_instant J R (plus_units J u n z) (u_plus u n (instant J z))"
    "gives_instant J R (minus_units J UDay n z) (u_plus UDay (- n) (instant J z))"
    "gives_maybe J R (z_with J h m s z) (u_with h m s (instant J z))"
    "gives_maybe J R (z_nth_weekday J n wd z) (u_nth_weekday n wd (instant J z))"
  using assms by (simp_all add: zone_def utc_laws_def utc_moves_def utc_spans_def)

lemma zone_getters [simp]:
  assumes "zone J R lo hi"
  shows "z_second J z = u_second (instant J z)" "z_minute J z = u_minute (instant J z)" "z_hour J z = u_hour (instant J z)"
    "z_day J z = u_day (instant J z)" "z_month J z = u_month (instant J z)" "z_day_of_year J z = u_day_of_year (instant J z)"
    "z_weekday J z = u_weekday (instant J z)" "weekday_until J a b = days_until a b"
  using assms by (simp_all add: zone_def utc_laws_def utc_getters_def utc_spans_def)

text \<open>One operation after another.\<close>

lemma chain:
  assumes zone: "zone J R lo hi" and r: "gives_if J ok r v"
  shows "(ok \<Longrightarrow> roomy lo hi (u_start_of_day v)) \<Longrightarrow> gives_if J ok (attempt r (z_start_of_day J)) (u_start_of_day v)"
    "(ok \<Longrightarrow> roomy lo hi (u_tomorrow v)) \<Longrightarrow> gives_if J ok (attempt r (z_tomorrow J)) (u_tomorrow v)"
    "(ok \<Longrightarrow> roomy lo hi (u_first_of_month v)) \<Longrightarrow> gives_if J ok (attempt r (z_first_of_month J)) (u_first_of_month v)"
    "(ok \<Longrightarrow> roomy lo hi (u_last_of_month v)) \<Longrightarrow> gives_if J ok (attempt r (z_last_of_month J)) (u_last_of_month v)"
    "(ok \<Longrightarrow> roomy lo hi (u_first_of_year v)) \<Longrightarrow> gives_if J ok (attempt r (z_first_of_year J)) (u_first_of_year v)"
    "(ok \<Longrightarrow> roomy lo hi (u_last_of_year v)) \<Longrightarrow> gives_if J ok (attempt r (z_last_of_year J)) (u_last_of_year v)"
    "(ok \<Longrightarrow> roomy lo hi (u_plus u n v)) \<Longrightarrow> gives_if J ok (attempt r (plus_units J u n)) (u_plus u n v)"
    "(ok \<Longrightarrow> roomy lo hi (u_plus UDay (- n) v)) \<Longrightarrow> gives_if J ok (attempt r (minus_units J UDay n)) (u_plus UDay (- n) v)"
    "u_with h m s v = Some w \<Longrightarrow> (ok \<Longrightarrow> roomy lo hi w) \<Longrightarrow> gives_if J ok (attempt r (z_with J h m s)) w"
    "u_nth_weekday n wd v = Some w \<Longrightarrow> (ok \<Longrightarrow> roomy lo hi w) \<Longrightarrow> gives_if J ok (attempt r (z_nth_weekday J n wd)) w"
  by (rule gives_if_attempt [OF r]; (rule gives_if_op [OF _ zone], use zone_laws(1-8) [OF zone] in metis, simp)
    | (rule gives_if_attempt [OF r], rule gives_if_maybe [OF _ zone], use zone_laws(9,10) [OF zone] in metis, simp))+

lemmas chain_first = chain [OF _ gives_if_Inr [OF refl], unfolded attempt_simps]

section \<open>Times of the day\<close>

lemma instant_fields: "t = 86400 * day_no t + 3600 * u_hour t + 60 * u_minute t + u_second t"
  using at_day_split [of t] day_time_fields(1) [of t] by (simp add: at_day_def)

lemma fields_eq:
  assumes "t = 86400 * d + 3600 * h + 60 * m + s" "0 \<le> h" "h < 24" "0 \<le> m" "m < 60" "0 \<le> s" "s < 60"
  shows "day_no t = d" "u_hour t = h" "u_minute t = m" "u_second t = s"
proof -
  have a: "t = 86400 * d + (3600 * h + (60 * m + s))" "t = 3600 * (24 * d + h) + (60 * m + s)" "t = 60 * (60 * (24 * d + h) + m) + s"
    using assms(1) by simp_all
  have "0 \<le> 60 * m + s" "60 * m + s < 3600" "0 \<le> 3600 * h + (60 * m + s)" "3600 * h + (60 * m + s) < 86400"
    using assms by linarith+
  then have b: "t div 86400 = d" "t mod 86400 = 3600 * h + (60 * m + s)" "t mod 3600 = 60 * m + s" "t mod 60 = s"
    using a assms(6,7) int_div_pos_eq int_mod_pos_eq by metis+
  have "(3600 * h + (60 * m + s)) div 3600 = h" using \<open>0 \<le> 60 * m + s\<close> \<open>60 * m + s < 3600\<close> by (intro int_div_pos_eq) auto
  moreover have "(60 * m + s) div 60 = m" using assms(6,7) by (intro int_div_pos_eq) auto
  ultimately show "day_no t = d" "u_hour t = h" "u_minute t = m" "u_second t = s"
    using b by (simp_all add: day_no_def u_hour_def u_minute_def u_second_def)
qed

lemma u_with_values:
  "0 \<le> s \<Longrightarrow> s < 60 \<Longrightarrow> u_with None None (Some s) t = Some (t + s - u_second t)"
  "0 \<le> m \<Longrightarrow> m < 60 \<Longrightarrow> u_with None (Some m) (Some 0) t = Some (t + 60 * (m - u_minute t) - u_second t)"
  "0 \<le> m \<Longrightarrow> m < 60 \<Longrightarrow> u_with None (Some m) None t = Some (t + 60 * (m - u_minute t))"
  "0 \<le> h \<Longrightarrow> h < 24 \<Longrightarrow> u_with (Some h) (Some 0) (Some 0) t = Some (at_day (day_no t) (3600 * h))"
  using day_time_fields [of t] instant_fields [of t] by (simp_all add: u_with_def at_day_def Let_def)

definition second_value :: "int \<Rightarrow> int \<Rightarrow> int" where
  "second_value s x = (if u_second x < s then x + s - u_second x else if u_second x = s then x else x + 60 + s - u_second x)"

definition minute_value :: "int \<Rightarrow> int \<Rightarrow> int" where
  "minute_value m x = (if u_minute x < m then x + 60 * (m - u_minute x) - u_second x else if u_minute x = m then x
     else x + 3600 + 60 * (m - u_minute x))"

definition hour_value :: "int \<Rightarrow> int \<Rightarrow> int" where
  "hour_value h x = (if u_hour x < h then at_day (day_no x) (3600 * h) else if u_hour x = h then x
     else at_day (day_no x + 1) (3600 * h))"

lemma shifted_fields: "u_second (x + 60) = u_second x" "u_second (x + 3600) = u_second x" "u_minute (x + 3600) = u_minute x"
proof -
  show "u_second (x + 60) = u_second x" by (simp add: u_second_def)
  have "(x + 3600) mod 60 = (x + 60 * 60) mod 60" by simp
  also have "\<dots> = x mod 60" by (rule mod_mult_self2)
  finally show "u_second (x + 3600) = u_second x" by (simp add: u_second_def)
  show "u_minute (x + 3600) = u_minute x" by (simp add: u_minute_def)
qed

lemma second_gives:
  assumes zone: "zone J R lo hi" and s: "0 \<le> s" "s < 60"
  shows "gives_if J (lo \<le> instant J z \<and> instant J z \<le> hi) (second_eq J s z) (second_value s (instant J z))"
proof -
  let ?x = "instant J z" and ?ok = "lo \<le> instant J z \<and> instant J z \<le> hi"
  have r: "0 \<le> u_second ?x" "u_second ?x < 60" by (simp_all add: day_time_fields)
  have "gives_if J ?ok (z_with J None None (Some s) z) (?x + s - u_second ?x)"
    by (rule chain_first(9) [OF zone u_with_values(1) [OF s]]) (use r s in \<open>auto simp: roomy_def\<close>)
  moreover have "gives_if J ?ok (plus_units J UMinute 1 z) (?x + 60)"
    by (rule gives_if_eq [OF chain_first(7) [OF zone]]) (auto simp: roomy_def u_plus_def)
  then have "gives_if J ?ok (attempt (plus_units J UMinute 1 z) (z_with J None None (Some s))) (?x + 60 + s - u_second ?x)"
    by (rule chain(9) [OF zone]) (use r s in \<open>auto simp: roomy_def u_with_values shifted_fields\<close>)
  ultimately show ?thesis using zone by (simp add: second_eq_def second_value_def gives_if_Inr)
qed

lemma minute_gives:
  assumes zone: "zone J R lo hi" and m: "0 \<le> m" "m < 60"
  shows "gives_if J (lo \<le> instant J z \<and> instant J z \<le> hi + 60) (minute_eq J m z) (minute_value m (instant J z))"
proof -
  let ?x = "instant J z" and ?ok = "lo \<le> instant J z \<and> instant J z \<le> hi + 60"
  have r: "0 \<le> u_second ?x" "u_second ?x < 60" "0 \<le> u_minute ?x" "u_minute ?x < 60" by (simp_all add: day_time_fields)
  have "gives_if J ?ok (z_with J None (Some m) (Some 0) z) (?x + 60 * (m - u_minute ?x) - u_second ?x)"
    by (rule chain_first(9) [OF zone u_with_values(2) [OF m]]) (use r m in \<open>auto simp: roomy_def\<close>)
  moreover have "gives_if J ?ok (plus_units J UHour 1 z) (?x + 3600)"
    by (rule gives_if_eq [OF chain_first(7) [OF zone]]) (auto simp: roomy_def u_plus_def)
  then have "gives_if J ?ok (attempt (plus_units J UHour 1 z) (z_with J None (Some m) None)) (?x + 3600 + 60 * (m - u_minute ?x))"
    by (rule chain(9) [OF zone]) (use r m in \<open>auto simp: roomy_def u_with_values shifted_fields\<close>)
  ultimately show ?thesis using zone by (simp add: minute_eq_def minute_value_def gives_if_Inr)
qed

lemma hour_gives:
  assumes zone: "zone J R lo hi" and h: "0 \<le> h" "h < 24"
  shows "gives_if J (lo \<le> instant J z \<and> instant J z \<le> hi) (hour_eq J h z) (hour_value h (instant J z))"
    and "gives_if J (lo \<le> instant J z \<and> instant J z \<le> hi) (observed_hour_eq J h z) (hour_value h (instant J z))"
proof -
  let ?x = "instant J z" and ?ok = "lo \<le> instant J z \<and> instant J z \<le> hi"
  have d: "86400 * day_no ?x \<le> ?x" "?x < 86400 * day_no ?x + 86400" by (simp_all add: day_no_bounds)
  have day: "day_no (?x + 86400) = day_no ?x + 1" by (simp add: day_no_def)
  have less: "gives_if J ?ok (z_with J (Some h) (Some 0) (Some 0) z) (at_day (day_no ?x) (3600 * h))"
    by (rule chain_first(9) [OF zone u_with_values(4) [OF h]]) (use d h in \<open>auto simp: roomy_def at_day_def\<close>)
  have "gives_if J ?ok (z_tomorrow J z) (?x + 86400)"
    by (rule gives_if_eq [OF chain_first(2) [OF zone]]) (auto simp: roomy_def u_tomorrow_def)
  then have greater: "gives_if J ?ok (attempt (z_tomorrow J z) (z_with J (Some h) (Some 0) (Some 0))) (at_day (day_no ?x + 1) (3600 * h))"
    by (rule chain(9) [OF zone]) (use d h in \<open>auto simp: roomy_def u_with_values day at_day_def\<close>)
  show "gives_if J ?ok (hour_eq J h z) (hour_value h ?x)"
    using zone less greater by (simp add: hour_eq_def hour_value_def gives_if_Inr)
  have hour: "u_hour (at_day (day_no ?x) (3600 * h)) = h"
    using fields_eq(2) [of _ "day_no ?x" h 0 0] h by (simp add: at_day_def)
  show "gives_if J ?ok (observed_hour_eq J h z) (hour_value h ?x)"
    unfolding observed_hour_eq_def
    by (rule gives_if_attempt [OF less]) (use zone greater in \<open>auto simp: hour hour_value_def gives_if_Inr\<close>)
qed

section \<open>From values to distances\<close>

lemma value_distance:
  assumes gives: "\<And>z. lo \<le> instant J z \<Longrightarrow> gives_if J (\<exists>t. instant J z \<le> t \<and> t \<le> hi \<and> M t) (f z) (v (instant J z))"
    and keeps: "\<And>x. lo \<le> x \<Longrightarrow> x \<le> v x \<and> (v x = x \<longleftrightarrow> M x)"
    and under: "\<And>x t. lo \<le> x \<Longrightarrow> x \<le> t \<Longrightarrow> t \<le> hi \<Longrightarrow> M t \<Longrightarrow> v x \<le> t"
  shows "distance J lo hi M f"
proof -
  have val: "instant J y = v (instant J x)" if "lo \<le> instant J x" "f x = Inr y" for x y
    using gives [OF that(1)] that(2) by (simp add: gives_if_def)
  have ok: "is_ok (f x)" if "lo \<le> instant J x" "instant J x \<le> t" "t \<le> hi" "M t" for x t
    using gives [OF that(1)] that by (auto simp: gives_if_def)
  have "keeps_on J lo M f" unfolding keeps_on_def using val keeps by metis
  moreover have "\<exists>y. f x = Inr y \<and> instant J y \<le> t" if x: "lo \<le> instant J x" "instant J x \<le> t" "t \<le> hi" "M t" for x t
  proof -
    obtain y where "f x = Inr y" using ok [OF x] by (cases "f x") auto
    then show ?thesis using val [OF x(1)] under [OF x] by auto
  qed
  ultimately show ?thesis by (simp add: distance_def no_overshoot_def)
qed

lemma value_sure_distance:
  assumes "\<And>z. gives_if J (lo \<le> instant J z \<and> instant J z \<le> hi) (f z) (v (instant J z))"
    and "\<And>x. lo \<le> x \<Longrightarrow> x \<le> v x \<and> (v x = x \<longleftrightarrow> M x)"
    and "\<And>x t. lo \<le> x \<Longrightarrow> x \<le> t \<Longrightarrow> t \<le> hi \<Longrightarrow> M t \<Longrightarrow> v x \<le> t"
  shows "sure_distance J lo hi M f"
proof -
  have "distance J lo hi M f" by (rule value_distance [OF _ assms(2,3)]) (use assms(1) in \<open>auto simp: gives_if_def\<close>)
  moreover have "succeeds J lo hi f" using assms(1) by (auto simp: succeeds_def gives_if_def)
  ultimately show ?thesis by (simp add: sure_distance_def)
qed

lemma second_steps:
  assumes "0 \<le> s" "s < 60"
  shows "x \<le> second_value s x \<and> (second_value s x = x \<longleftrightarrow> u_second x = s)" "x \<le> t \<Longrightarrow> u_second t = s \<Longrightarrow> second_value s x \<le> t"
    "u_second (second_value s x) = s"
proof -
  have r: "0 \<le> u_second x" "u_second x < 60" by (simp_all add: day_time_fields)
  then show "x \<le> second_value s x \<and> (second_value s x = x \<longleftrightarrow> u_second x = s)" using assms by (auto simp: second_value_def)
  define p q where "p = x div 60" and "q = t div 60"
  have xp: "x = 60 * p + u_second x" and tq: "t = 60 * q + u_second t" by (simp_all add: p_def q_def u_second_def)
  show "second_value s x \<le> t" if "x \<le> t" "u_second t = s"
  proof (cases "u_second x \<le> s")
    case True
    then have "p \<le> q" using that xp tq r assms by linarith
    then show ?thesis using True xp tq that(2) r by (auto simp: second_value_def)
  next
    case False
    then have "p < q" using that xp tq r assms by linarith
    then show ?thesis using False xp tq that(2) r by (auto simp: second_value_def)
  qed
  have "second_value s x = 60 * (if u_second x \<le> s then p else p + 1) + s" using xp by (auto simp: second_value_def)
  then have "second_value s x mod 60 = s" using assms int_mod_pos_eq by blast
  then show "u_second (second_value s x) = s" by (simp add: u_second_def)
qed

lemma second_distance: "zone J R lo hi \<Longrightarrow> 0 \<le> s \<Longrightarrow> s < 60 \<Longrightarrow> sure_distance J lo hi (\<lambda>t. u_second t = s) (second_eq J s)"
  by (rule value_sure_distance [OF second_gives]) (use second_steps in auto)

text \<open>
  The minute: when it has passed, the constraint goes to the next hour and leaves the seconds, so it is
  no distance on its own.  After the seconds have been set it is.
\<close>

lemma minute_steps:
  assumes "0 \<le> m" "m < 60"
  shows "y \<le> minute_value m y \<and> (minute_value m y = y \<longleftrightarrow> u_minute y = m)"
    "y \<le> t \<Longrightarrow> u_second t = u_second y \<Longrightarrow> u_minute t = m \<Longrightarrow> minute_value m y \<le> t"
proof -
  have r: "0 \<le> u_minute y" "u_minute y < 60" "0 \<le> u_second y" "u_second y < 60" by (simp_all add: day_time_fields)
  show "y \<le> minute_value m y \<and> (minute_value m y = y \<longleftrightarrow> u_minute y = m)" using assms r by (auto simp: minute_value_def)
  define p q where "p = 24 * day_no y + u_hour y" and "q = 24 * day_no t + u_hour t"
  have yp: "y = 3600 * p + 60 * u_minute y + u_second y" and tq: "t = 3600 * q + 60 * u_minute t + u_second t"
    using instant_fields [of y] instant_fields [of t] by (simp_all add: p_def q_def)
  show "minute_value m y \<le> t" if "y \<le> t" "u_second t = u_second y" "u_minute t = m"
  proof (cases "u_minute y \<le> m")
    case True
    then have "p \<le> q" using that yp tq r assms by linarith
    then show ?thesis using True yp tq that r by (auto simp: minute_value_def)
  next
    case False
    then have "p + 1 \<le> q" using that yp tq r assms by linarith
    moreover have "minute_value m y = y + 3600 + 60 * (m - u_minute y)" using False by (simp add: minute_value_def)
    then have "t - minute_value m y = 3600 * (q - p - 1)" using yp tq that by simp
    ultimately show ?thesis by simp
  qed
qed

lemma second_minute_distance:
  assumes zone: "zone J R lo hi" and s: "0 \<le> s" "s < 60" and m: "0 \<le> m" "m < 60"
  shows "sure_distance J lo hi (\<lambda>t. u_second t = s \<and> u_minute t = m) (then_fact (second_eq J s) (minute_eq J m))"
proof (rule value_sure_distance)
  fix z
  let ?x = "instant J z"
  let ?ok = "lo \<le> ?x \<and> ?x \<le> hi"
  have near: "?x \<le> second_value s ?x" "second_value s ?x \<le> ?x + 60"
    using second_steps(1) [OF s, of ?x] s day_time_fields(6) [of ?x] by (auto simp: second_value_def)
  show "gives_if J ?ok (then_fact (second_eq J s) (minute_eq J m) z) (minute_value m (second_value s ?x))"
    unfolding then_fact_def
  proof (rule gives_if_attempt [OF second_gives [OF zone s]])
    fix y assume "instant J y = second_value s ?x"
    then show "gives_if J ?ok (minute_eq J m y) (minute_value m (second_value s ?x))"
      using minute_gives [OF zone m, of y] near by (auto simp: gives_if_def)
  qed
next
  fix x
  show "x \<le> minute_value m (second_value s x) \<and> (minute_value m (second_value s x) = x \<longleftrightarrow> u_second x = s \<and> u_minute x = m)"
    using second_steps(1) [OF s, of x] minute_steps(1) [OF m, of "second_value s x"] by (metis order_antisym order_trans)
next
  fix x t assume "x \<le> t" "u_second t = s \<and> u_minute t = m"
  then show "minute_value m (second_value s x) \<le> t"
    using second_steps(2,3) [OF s, of x] minute_steps(2) [OF m, of "second_value s x" t] by auto
qed

lemma hour_steps:
  assumes "0 \<le> h" "h < 24"
  shows "x \<le> hour_value h x \<and> (hour_value h x = x \<longleftrightarrow> u_hour x = h)" "x \<le> t \<Longrightarrow> u_hour t = h \<Longrightarrow> hour_value h x \<le> t"
proof -
  have r: "0 \<le> u_minute y" "u_minute y < 60" "0 \<le> u_second y" "u_second y < 60" "0 \<le> u_hour y" "u_hour y < 24" for y
    by (simp_all add: day_time_fields)
  note x = instant_fields [of x] and t = instant_fields [of t]
  show "x \<le> hour_value h x \<and> (hour_value h x = x \<longleftrightarrow> u_hour x = h)"
    using assms r [of x] x unfolding hour_value_def at_day_def by auto
  show "hour_value h x \<le> t" if "x \<le> t" "u_hour t = h"
  proof (cases "u_hour x \<le> h")
    case True
    then have "day_no x \<le> day_no t" using that day_no_mono by blast
    then show ?thesis using True that x t r [of t] by (auto simp: hour_value_def at_day_def)
  next
    case False
    have "day_no x < day_no t"
    proof (rule ccontr)
      assume "\<not> day_no x < day_no t"
      then have "day_no x = day_no t" using that(1) day_no_mono by (simp add: order_antisym)
      then show False using that False x t r [of t] r [of x] by linarith
    qed
    then show ?thesis using False that(2) t r [of t] by (auto simp: hour_value_def at_day_def)
  qed
qed

lemma hour_distance:
  assumes "zone J R lo hi" "0 \<le> h" "h < 24"
  shows "sure_distance J lo hi (\<lambda>t. u_hour t = h) (hour_eq J h)" "sure_distance J lo hi (\<lambda>t. u_hour t = h) (observed_hour_eq J h)"
  by (rule value_sure_distance [OF hour_gives(1) [OF assms]], use hour_steps [OF assms(2,3)] in auto)
    (rule value_sure_distance [OF hour_gives(2) [OF assms]], use hour_steps [OF assms(2,3)] in auto)

section \<open>Days\<close>

definition day_value :: "(int \<Rightarrow> bool) \<Rightarrow> (int \<Rightarrow> int) \<Rightarrow> int \<Rightarrow> int" where
  "day_value P g x = (if P (day_no x) then x else at_day (g (day_no x)) 0)"

lemma day_value_steps:
  assumes "day_step P g"
  shows "x \<le> day_value P g x \<and> (day_value P g x = x \<longleftrightarrow> P (day_no x))"
    "x \<le> t \<Longrightarrow> P (day_no t) \<Longrightarrow> day_value P g x \<le> t"
proof -
  have g: "day_no x < g (day_no x)" "d' \<ge> day_no x \<Longrightarrow> P d' \<Longrightarrow> g (day_no x) \<le> d'" if "\<not> P (day_no x)" for d'
    using assms that by (auto simp: day_step_def)
  have "x < at_day (g (day_no x)) 0" if "\<not> P (day_no x)"
    using g(1) [OF that] at_day_le [of "g (day_no x)" x] by simp
  then show "x \<le> day_value P g x \<and> (day_value P g x = x \<longleftrightarrow> P (day_no x))" by (auto simp: day_value_def)
  show "day_value P g x \<le> t" if "x \<le> t" "P (day_no t)"
    using g(2) [of "day_no t"] day_no_mono [OF that(1)] that at_day_le [of "g (day_no x)" t] by (simp add: day_value_def)
qed

lemma day_sure_distance:
  assumes "\<And>z. gives_if J (lo \<le> instant J z \<and> instant J z \<le> hi) (f z) (day_value P g (instant J z))" and "day_step P g"
  shows "sure_distance J lo hi (\<lambda>t. P (day_no t)) f"
  by (rule value_sure_distance [OF assms(1)]) (use day_value_steps [OF assms(2)] in auto)

text \<open>Where the operations on days go.\<close>

lemma day_moves:
  "u_start_of_day x = at_day (day_no x) 0" "day_no (u_plus UDay n x) = day_no x + n" "day_time (u_plus UDay n x) = day_time x"
  "day_no (u_last_of_month x) = month_start (month_of (day_no x) + 1) - 1"
  "day_no (u_first_of_month x) = month_start (month_of (day_no x))"
  "day_no (u_last_of_year x) = year_start (yr (day_no x) + 1) - 1"
  "day_no (u_first_of_year x) = year_start (yr (day_no x))"
  "u_day x = day_no x - month_start (month_of (day_no x)) + 1"
  "u_day_of_year x = day_no x - year_start (yr (day_no x)) + 1" "u_month x = month_of (day_no x) mod 12 + 1"
  "day_no (u_tomorrow x) = day_no x + 1"
  using day_time_bounds [of x]
  by (simp_all add: u_start_of_day_def u_last_of_month_def u_first_of_month_def u_last_of_year_def u_first_of_year_def month_no_def
      year_no_def u_plus_def u_day_def u_day_of_year_def u_month_def yr_def u_tomorrow_def)
    (simp_all add: day_no_def day_time_def)

lemma month_after:
  "day_no (add_months n x) = month_start (month_of (day_no x) + n) + min (u_day x) (month_len (month_of (day_no x) + n)) - 1"
  "month_of (day_no (add_months n x)) = month_of (day_no x) + n"
proof -
  let ?k = "month_of (day_no x) + n"
  show day: "day_no (add_months n x) = month_start ?k + min (u_day x) (month_len ?k) - 1"
    using day_time_bounds [of x] by (simp add: add_months_def Let_def month_no_def)
  have "1 \<le> u_day x" using month_bounds(1) [of "day_no x"] by (simp add: day_moves(8))
  moreover have "28 \<le> month_len ?k" by (rule month_len_bounds)
  ultimately show "month_of (day_no (add_months n x)) = ?k" unfolding day month_of_eq by (auto simp: month_len_def min_def)
qed

lemma months_later:
  "month_start (month_of (day_no x) + n) \<le> day_no (add_months n x)"
  "day_no (add_months n x) < month_start (month_of (day_no x) + n + 1)"
  using month_bounds [of "day_no (add_months n x)"] by (simp_all add: month_after(2))

text \<open>A day within a number of days is within the room.\<close>

lemma roomy_day:
  assumes "lo \<le> x" "x \<le> hi" "\<bar>d - day_no x\<bar> \<le> 800"
  shows "0 \<le> s \<Longrightarrow> s < 86400 \<Longrightarrow> roomy lo hi (at_day d s)"
  using assms day_no_bounds [of x] unfolding roomy_def at_day_def by linarith

lemma roomy_near: "lo \<le> x \<Longrightarrow> x \<le> hi \<Longrightarrow> \<bar>day_no v - day_no x\<bar> \<le> 800 \<Longrightarrow> roomy lo hi v"
  using roomy_day [of lo x hi "day_no v" "day_time v"] day_time_bounds [of v] at_day_split [of v] by simp

lemma month_room:
  fixes d :: int
  shows "month_start (month_of d) \<le> d" "d \<le> month_start (month_of d) + 30" "month_start (month_of d + 1) \<le> d + 31"
    "d < month_start (month_of d + 1)"
  using month_bounds [of d] month_len_bounds [of "month_of d"] by (simp_all add: month_len_def)

lemma weekday_no_at: "0 \<le> n \<Longrightarrow> n < 7 \<Longrightarrow> weekday_no (weekday_at n) = n"
proof -
  assume "0 \<le> n" "n < 7"
  then have "n = 0 \<or> n = 1 \<or> n = 2 \<or> n = 3 \<or> n = 4 \<or> n = 5 \<or> n = 6" by linarith
  then show ?thesis by (elim disjE) (simp_all add: weekday_at_def weekday_no_def)
qed

lemma weekday_no_inj: "weekday_no a = weekday_no b \<longleftrightarrow> a = b"
  by (cases a; cases b) (simp_all add: weekday_no_def)

lemma weekday_no_range: "0 \<le> weekday_no a" "weekday_no a < 7"
  by (cases a; simp add: weekday_no_def)+

lemma u_weekday_no: "weekday_no (u_weekday x) = (day_no x + 3) mod 7"
  by (simp add: u_weekday_def weekday_no_at)

definition is_weekday :: "weekday \<Rightarrow> int \<Rightarrow> bool" where
  "is_weekday wd d = ((d + 3) mod 7 = weekday_no wd)"

definition weekday_step :: "weekday \<Rightarrow> int \<Rightarrow> int" where
  "weekday_step wd d = d + (weekday_no wd - (d + 3) mod 7) mod 7"

lemma weekday_day_step: "day_step (is_weekday wd) (weekday_step wd)"
proof (rule day_stepI)
  fix d assume not: "\<not> is_weekday wd d"
  have "(weekday_no wd - (d + 3) mod 7) mod 7 \<noteq> 0"
  proof
    assume "(weekday_no wd - (d + 3) mod 7) mod 7 = 0"
    then have "7 dvd weekday_no wd - (d + 3) mod 7" by (simp add: mod_eq_0_iff_dvd)
    then have "weekday_no wd mod 7 = (d + 3) mod 7 mod 7" by (rule mod_eq_dvd_iff [THEN iffD2])
    then show False using not weekday_no_range [of wd] by (simp add: is_weekday_def)
  qed
  then show "d < weekday_step wd d" using pos_mod_sign [of 7 "weekday_no wd - (d + 3) mod 7"] by (simp add: weekday_step_def)
next
  fix d d' assume "is_weekday wd d'" "d < d'"
  then have "(weekday_no wd - (d + 3) mod 7) mod 7 = (d' - d) mod 7"
    using mod_diff_eq [of "d' + 3" 7 "d + 3"] by (simp add: is_weekday_def)
  also have "\<dots> \<le> d' - d" using \<open>d < d'\<close> by (intro zmod_le_nonneg_dividend) simp
  finally show "weekday_step wd d \<le> d'" by (simp add: weekday_step_def)
qed

lemma weekday_distance:
  assumes zone: "zone J R lo hi"
  shows "sure_distance J lo hi (\<lambda>t. is_weekday wd (day_no t)) (weekday_eq J wd)"
proof (rule day_sure_distance [OF _ weekday_day_step])
  fix z
  let ?x = "instant J z"
  let ?ok = "lo \<le> ?x \<and> ?x \<le> hi"
  have is_wd: "u_weekday ?x = wd \<longleftrightarrow> is_weekday wd (day_no ?x)"
    using u_weekday_no [of ?x] weekday_no_inj [of "u_weekday ?x" wd] by (auto simp: is_weekday_def)
  define n where "n = days_until (u_weekday ?x) wd"
  have n: "n = (weekday_no wd - (day_no ?x + 3) mod 7) mod 7" "0 \<le> n" "n < 7" by (simp_all add: n_def days_until_def u_weekday_no)
  have "gives_if J ?ok (attempt (plus_units J UDay n z) (z_start_of_day J)) (u_start_of_day (u_plus UDay n ?x))"
    by (intro chain(1) [OF zone] chain_first(7) [OF zone] roomy_near [where x = ?x]) (use n in \<open>auto simp: day_moves\<close>)
  then show "gives_if J ?ok (weekday_eq J wd z) (day_value (is_weekday wd) (weekday_step wd) ?x)"
    using zone n(1) is_wd by (simp add: weekday_eq_def day_value_def weekday_step_def day_moves n_def gives_if_Inr)
qed

end
