(* ===== verification/Recur_Dates.thy ===== *)
theory Recur_Dates
  imports Recur_Distance
begin

text \<open>
  The constraints on days of months and years, on months and on repetitions.
\<close>

section \<open>A day of a month or of a year\<close>

text \<open>
  \<open>day_eq\<close> and \<open>day_of_year_eq\<close> are the same steps with other operations: the last day, the unit to the next
  month or year, and the number of a day.
\<close>

definition nth_day_eq :: "('z, 's, 'e, 'c) jiff \<Rightarrow> ('z \<Rightarrow> 'e + 'z) \<Rightarrow> jiff_unit \<Rightarrow> ('z \<Rightarrow> int) \<Rightarrow> int \<Rightarrow> ('z, 'e) fact_op" where
  "nth_day_eq J fin u num day cur = attempt
     (if day < 0 then attempt (fin cur) (\<lambda>l. attempt (minus_units J UDay (\<bar>day\<bar> - 1) l) (\<lambda>z. Inr (num z))) else Inr day) (\<lambda>abs_day.
     if num cur < abs_day then attempt (plus_units J UDay (abs_day - num cur) cur) (z_start_of_day J)
     else if num cur = abs_day then Inr cur
     else if day < 0
     then attempt (plus_units J u 1 cur) (\<lambda>z. attempt (fin z) (\<lambda>l. attempt (minus_units J UDay (\<bar>day\<bar> - 1) l) (\<lambda>z.
       attempt (z_start_of_day J z) (\<lambda>dst.
       if instant J dst \<le> instant J cur then attempt (fin cur) (\<lambda>l. attempt (z_tomorrow J l) (z_start_of_day J)) else Inr dst))))
     else attempt (fin cur) (\<lambda>l. attempt (plus_units J UDay \<bar>day\<bar> l) (z_start_of_day J)))"

lemma nth_day_eqs:
  "day_eq J n z = nth_day_eq J (z_last_of_month J) UMonth (z_day J) n z"
  "day_of_year_eq J n z = nth_day_eq J (z_last_of_year J) UYear (z_day_of_year J) n z"
  by (simp_all add: day_eq_def day_of_year_eq_def nth_day_eq_def)

definition cuts :: "('z, 's, 'e, 'c) jiff \<Rightarrow> int set \<Rightarrow> ('z \<Rightarrow> 'e + 'z) \<Rightarrow> jiff_unit \<Rightarrow> ('z \<Rightarrow> int) \<Rightarrow> (int \<Rightarrow> int) \<Rightarrow> (int \<Rightarrow> int) \<Rightarrow> bool" where
  "cuts J R fin u num idx b = (intervals idx b \<and> (\<forall>k. b k < b (k + 1) \<and> b (k + 1) \<le> b k + 366)
     \<and> (\<exists>lv. (\<forall>z. gives_instant J R (fin z) (lv (instant J z))) \<and> (\<forall>x. day_no (lv x) = b (idx (day_no x) + 1) - 1))
     \<and> (\<forall>x. idx (day_no (u_plus u 1 x)) = idx (day_no x) + 1)
     \<and> (\<forall>z. num z = day_no (instant J z) - b (idx (day_no (instant J z))) + 1))"

lemma cutsE:
  assumes "cuts J R fin u num idx b"
  obtains lv where "\<And>z. gives_instant J R (fin z) (lv (instant J z))" and "\<And>x. day_no (lv x) = b (idx (day_no x) + 1) - 1"
    and "intervals idx b" and "\<And>k. b k < b (k + 1)" and "\<And>k. b (k + 1) \<le> b k + 366"
    and "\<And>x. idx (day_no (u_plus u 1 x)) = idx (day_no x) + 1"
    and "\<And>z. num z = day_no (instant J z) - b (idx (day_no (instant J z))) + 1"
  using assms unfolding cuts_def by blast

lemma month_cuts: "zone J R lo hi \<Longrightarrow> cuts J R (z_last_of_month J) UMonth (z_day J) month_of month_start"
  unfolding cuts_def using month_len_bounds
  by (auto simp: month_intervals month_len_def day_moves zone_laws u_plus_def month_after(2) intro!: exI [of _ u_last_of_month])
    (smt (verit, best) month_len_bounds month_len_def)+

lemma year_after: "yr (day_no (add_months (12 * n) x)) = yr (day_no x) + n"
  by (simp add: yr_def month_after(2))

lemma year_cuts: "zone J R lo hi \<Longrightarrow> cuts J R (z_last_of_year J) UYear (z_day_of_year J) yr year_start"
  unfolding cuts_def using year_after [of 1]
  by (auto simp: year_intervals year_start_step day_moves zone_laws u_plus_def intro!: exI [of _ u_last_of_year])

lemma nth_day_gives:
  assumes zone: "zone J R lo hi" and "cuts J R fin u num idx b" and n: "0 < n" "n \<le> 366"
  shows "gives_if J (lo \<le> instant J z \<and> instant J z \<le> hi) (nth_day_eq J fin u num n z)
    (day_value (from_begin idx b n) (begin_step idx b n) (instant J z))"
proof -
  obtain lv where fin: "\<And>z. gives_instant J R (fin z) (lv (instant J z))" and lv: "\<And>x. day_no (lv x) = b (idx (day_no x) + 1) - 1"
    and iv: "intervals idx b" and len: "\<And>k. b (k + 1) \<le> b k + 366"
    and num: "\<And>z. num z = day_no (instant J z) - b (idx (day_no (instant J z))) + 1"
    by (rule cutsE [OF assms(2)]) blast
  let ?ok = "lo \<le> instant J z \<and> instant J z \<le> hi"
  define x d k where "x = instant J z" and "d = day_no x" and "k = idx d"
  note folds = x_def [symmetric] d_def [symmetric] k_def [symmetric]
  have room: "b k \<le> d" "d < b (k + 1)" "b (k + 1) \<le> b k + 366" using intervals_bounds(1,2) [OF iv, of d] len by (simp_all add: k_def)
  have today: "num z = d - b k + 1" by (simp add: num folds)
  have less: "gives_if J ?ok (attempt (plus_units J UDay (n - num z) z) (z_start_of_day J)) (u_start_of_day (u_plus UDay (n - num z) x))"
    unfolding x_def by (intro chain(1) [OF zone] chain_first(7) [OF zone] roomy_near [where x = x])
      (use n room in \<open>auto simp: day_moves(1,2) today folds\<close>)
  have "gives_if J ?ok (fin z) (lv x)"
    unfolding x_def by (intro gives_if_op [OF fin zone] roomy_near [where x = x]) (use room in \<open>auto simp: lv folds\<close>)
  then have greater: "gives_if J ?ok (attempt (attempt (fin z) (plus_units J UDay n)) (z_start_of_day J)) (u_start_of_day (u_plus UDay n (lv x)))"
    by (intro chain(1,7) [OF zone] roomy_near [where x = x]) (use n room in \<open>auto simp: day_moves(1,2) lv folds\<close>)
  have vals: "u_start_of_day (u_plus UDay (n - num z) x) = at_day (b k + n - 1) 0"
    "u_start_of_day (u_plus UDay n (lv x)) = at_day (b (k + 1) - 1 + n) 0"
    by (simp_all add: day_moves(1,2) today lv folds algebra_simps)
  show ?thesis using zone n less greater unfolding vals x_def [symmetric]
    by (auto simp: nth_day_eq_def attempt_assoc day_value_def from_begin_def begin_step_def gives_if_Inr today folds)
qed

text \<open>Counted from the end: \<open>backs\<close> says that a month without such a day is short, and what the code computes then.\<close>

definition backs :: "(int \<Rightarrow> int) \<Rightarrow> (int \<Rightarrow> int) \<Rightarrow> int \<Rightarrow> bool" where
  "backs idx b n = (\<forall>d. let k = idx d; day = b (k + 1) - n in
     day - b (idx day) - (d - b k) = (if day < b k then b (k + 2) - n - d else day - d)
     \<and> (day < b k \<longrightarrow> b (k + 1) \<le> b (k + 2) - n))"

lemma attempt_return: "attempt (attempt a (\<lambda>z. Inr (g z))) K = attempt a (\<lambda>z. K (g z))"
  by (cases a) simp_all

lemma nth_day_back_gives:
  assumes zone: "zone J R lo hi" and "cuts J R fin u num idx b" and n: "0 < n" "n \<le> 366" and "backs idx b n"
    and far: "\<And>x. day_no (u_plus u 1 x) \<le> day_no x + 800"
  shows "gives_if J (lo \<le> instant J z \<and> instant J z \<le> hi) (nth_day_eq J fin u num (- n) z)
    (day_value (from_end idx b n) (end_step idx b n) (instant J z))"
proof -
  obtain lv where fin: "\<And>z. gives_instant J R (fin z) (lv (instant J z))" and lv: "\<And>x. day_no (lv x) = b (idx (day_no x) + 1) - 1"
    and iv: "intervals idx b" and len: "\<And>k. b k < b (k + 1)" "\<And>k. b (k + 1) \<le> b k + 366"
    and unit: "\<And>x. idx (day_no (u_plus u 1 x)) = idx (day_no x) + 1"
    and num: "\<And>z. num z = day_no (instant J z) - b (idx (day_no (instant J z))) + 1"
    by (rule cutsE [OF assms(2)]) blast
  let ?ok = "lo \<le> instant J z \<and> instant J z \<le> hi"
  define x d k where "x = instant J z" and "d = day_no x" and "k = idx d"
  define day abs_day where "day = b (k + 1) - n" and "abs_day = day - b (idx day) + 1"
  note folds = x_def [symmetric] d_def [symmetric] k_def [symmetric]
  have room: "b k \<le> d" "d < b (k + 1)" "b (k + 1) \<le> b k + 366" "b (k + 1) < b (k + 2)" "b (k + 2) \<le> b (k + 1) + 366"
    using intervals_bounds(1,2) [OF iv, of d] len [of k] len [of "k + 1"] by (simp_all add: k_def add.commute)
  have today: "num z = d - b k + 1" by (simp add: num folds)
  have diff: "abs_day - num z = (if day < b k then b (k + 2) - n - d else day - d)" and short: "day < b k \<longrightarrow> b (k + 1) \<le> b (k + 2) - n"
    using assms(5) by (simp_all add: backs_def abs_day_def day_def k_def today Let_def)
  have fin': "gives_if J ?ok (fin z) (lv x)"
    unfolding x_def by (intro gives_if_op [OF fin zone] roomy_near [where x = x]) (use room in \<open>auto simp: lv folds\<close>)
  then have get: "gives_if J ?ok (attempt (fin z) (minus_units J UDay (n - 1))) (u_plus UDay (- (n - 1)) (lv x))"
    by (intro chain(8) [OF zone] roomy_near [where x = x]) (use n room in \<open>auto simp: day_moves(1,2) lv folds\<close>)
  have got: "num w = abs_day" if "instant J w = u_plus UDay (- (n - 1)) (lv x)" for w
    by (simp add: num that day_moves(2) lv abs_day_def day_def folds)
  have less: "gives_if J ?ok (attempt (plus_units J UDay (abs_day - num z) z) (z_start_of_day J)) (u_start_of_day (u_plus UDay (abs_day - num z) x))"
    unfolding x_def by (intro chain(1) [OF zone] chain_first(7) [OF zone] roomy_near [where x = x])
      (use n room in \<open>auto simp: day_moves(1,2) folds diff day_def\<close>)
  have step: "b (k + 1) \<le> day_no (u_plus u 1 x)" using intervals_bounds(1) [OF iv, of "day_no (u_plus u 1 x)"] by (simp add: unit folds)
  have next_one: "gives_if J ?ok (plus_units J u 1 z) (u_plus u 1 x)"
    unfolding x_def by (intro chain_first(7) [OF zone] roomy_near [where x = x]) (use room step far [of x] in \<open>auto simp: folds\<close>)
  have fin_next: "gives_if J ?ok (attempt (plus_units J u 1 z) fin) (lv (u_plus u 1 x))"
  proof (rule gives_if_attempt [OF next_one])
    fix w assume "instant J w = u_plus u 1 x"
    then have "gives_instant J R (fin w) (lv (u_plus u 1 x))" using fin [of w] by simp
    then show "gives_if J ?ok (fin w) (lv (u_plus u 1 x))"
      by (rule gives_if_op [OF _ zone], intro roomy_near [where x = x]) (use room in \<open>auto simp: lv unit folds add.commute [of 2]\<close>)
  qed
  have dst: "gives_if J ?ok (attempt (attempt (attempt (plus_units J u 1 z) fin) (minus_units J UDay (n - 1))) (z_start_of_day J))
      (u_start_of_day (u_plus UDay (- (n - 1)) (lv (u_plus u 1 x))))"
    by (intro chain(1,8) [OF zone] fin_next roomy_near [where x = x])
      (use n room in \<open>auto simp: day_moves(1,2) lv unit folds add.commute [of 2]\<close>)
  have dst_value: "u_start_of_day (u_plus UDay (- (n - 1)) (lv (u_plus u 1 x))) = at_day (b (k + 2) - n) 0"
    by (simp add: day_moves(1,2) lv unit folds add.commute [of 2])
  have later: "gives_if J ?ok (attempt (attempt (fin z) (z_tomorrow J)) (z_start_of_day J)) (u_start_of_day (u_tomorrow (lv x)))"
    by (intro chain(1,2) [OF zone] fin' roomy_near [where x = x]) (use n room in \<open>auto simp: day_moves(1,2,11) lv folds\<close>)
  have later_value: "u_start_of_day (u_tomorrow (lv x)) = at_day (b (k + 1)) 0"
    by (simp add: day_moves(1,2,11) lv folds)
  have le: "at_day (b (k + 2) - n) 0 \<le> x \<longleftrightarrow> b (k + 2) - n \<le> d" by (simp add: at_day_le d_def)
  let ?greater = "attempt (attempt (attempt (attempt (plus_units J u 1 z) fin) (minus_units J UDay (n - 1))) (z_start_of_day J))
      (\<lambda>dst. if instant J dst \<le> x then attempt (attempt (fin z) (z_tomorrow J)) (z_start_of_day J) else Inr dst)"
  have greater: "gives_if J ?ok ?greater (at_day (if b (k + 2) - n \<le> d then b (k + 1) else b (k + 2) - n) 0)"
    by (rule gives_if_attempt [OF dst [unfolded dst_value]]) (use later in \<open>auto simp: dst_value later_value le gives_if_Inr\<close>)
  have body: "nth_day_eq J fin u num (- n) z = attempt (attempt (fin z) (minus_units J UDay (n - 1))) (\<lambda>w.
      if num z < num w then attempt (plus_units J UDay (num w - num z) z) (z_start_of_day J)
      else if num z = num w then Inr z else ?greater)"
    using n by (simp add: nth_day_eq_def attempt_assoc attempt_return x_def cong: if_cong)
  have main: "gives_if J ?ok (if num z < abs_day then attempt (plus_units J UDay (abs_day - num z) z) (z_start_of_day J)
      else if num z = abs_day then Inr z else ?greater) (day_value (from_end idx b n) (end_step idx b n) x)"
  proof (cases "num z < abs_day")
    case True
    then have pos: "0 < abs_day - num z" by simp
    have "\<not> from_end idx b n d" "end_step idx b n d = d + (abs_day - num z)"
      using pos short n room unfolding diff by (auto simp: from_end_def end_step_def Let_def day_def folds split: if_splits)
    then show ?thesis using True less by (simp add: day_value_def day_moves(1,2) folds)
  next
    case False
    then have "abs_day - num z \<le> 0" by simp
    then have "\<not> day < b k" "day \<le> d" using short room unfolding diff by (auto split: if_splits)
    moreover from this have "num z = abs_day \<longleftrightarrow> d = day" using diff by auto
    ultimately show ?thesis using False greater
      by (auto simp: day_value_def from_end_def end_step_def Let_def gives_if_Inr day_def folds)
  qed
  show ?thesis unfolding body folds(1) by (rule gives_if_attempt [OF get [unfolded folds(1)]]) (use main in \<open>simp only: got folds(1)\<close>)
qed

lemma month_backs:
  assumes "0 < n" "n \<le> 31"
  shows "backs month_of month_start n"
  unfolding backs_def Let_def
proof (intro allI conjI impI)
  fix d
  define k day where "k = month_of d" and "day = month_start (k + 1) - n"
  have long: "month_start (k - 1) + 31 = month_start k" "month_start (k + 2) = month_start (k + 1) + 31" if "day < month_start k"
  proof -
    have "month_len k < 31" using assms(2) that by (simp add: day_def month_len_def)
    from month_len_neighbours [OF this]
    show "month_start (k - 1) + 31 = month_start k" "month_start (k + 2) = month_start (k + 1) + 31"
      by (simp_all add: month_len_def algebra_simps)
  qed
  show "month_start (month_of d + 1) \<le> month_start (month_of d + 2) - n" if "month_start (month_of d + 1) - n < month_start (month_of d)"
    using that long(2) assms(2) by (simp add: day_def k_def)
  have "day - month_start (month_of day) - (d - month_start k) = (if day < month_start k then month_start (k + 2) - n - d else day - d)"
  proof (cases "day < month_start k")
    case False
    then have "month_of day = k" using assms(1) by (simp add: month_of_eq day_def)
    then show ?thesis using False by simp
  next
    case True
    then have "month_of day = k - 1"
      using assms(2) long(1) month_len_bounds(1) [of k] by (simp add: month_of_eq day_def month_len_def)
    then show ?thesis using True long by (simp add: day_def)
  qed
  then show "month_start (month_of d + 1) - n - month_start (month_of (month_start (month_of d + 1) - n)) - (d - month_start (month_of d)) =
      (if month_start (month_of d + 1) - n < month_start (month_of d) then month_start (month_of d + 2) - n - d
       else month_start (month_of d + 1) - n - d)"
    by (simp add: day_def k_def)
qed

lemma year_backs:
  assumes "0 < n" "n \<le> 365"
  shows "backs yr year_start n"
proof -
  have "\<not> year_start (k + 1) - n < year_start k" "yr (year_start (k + 1) - n) = k" for k
  proof -
    show le: "\<not> year_start (k + 1) - n < year_start k" using year_len(1) [of k] assms(2) by simp
    show "yr (year_start (k + 1) - n) = k"
      using le assms(1) year_start_le [of k "year_start (k + 1) - n"] year_start_le [of "k + 1" "year_start (k + 1) - n"] by simp
  qed
  then show ?thesis by (simp add: backs_def Let_def)
qed

lemma backs_short:
  assumes "backs idx b n" "intervals idx b" "\<And>k. b k < b (k + 1)" "b (k + 1) - n < b k"
  shows "b (k + 1) \<le> b (k + 2) - n"
proof -
  have le: "j \<le> idx d \<longleftrightarrow> b j \<le> d" for j d using assms(2) by (simp add: intervals_def)
  have "idx (b k) = k" using le [of k "b k"] le [of "k + 1" "b k"] assms(3) [of k] by simp
  then show ?thesis using assms(1,4) unfolding backs_def Let_def by (metis (no_types, lifting))
qed

lemma nth_day_distance:
  assumes zone: "zone J R lo hi" and cuts: "cuts J R fin u num idx b" and n: "0 < n" "n \<le> 366"
  shows "sure_distance J lo hi (\<lambda>t. from_begin idx b n (day_no t)) (nth_day_eq J fin u num n)"
    and "backs idx b n \<Longrightarrow> (\<And>x. day_no (u_plus u 1 x) \<le> day_no x + 800)
      \<Longrightarrow> sure_distance J lo hi (\<lambda>t. from_end idx b n (day_no t)) (nth_day_eq J fin u num (- n))"
proof -
  obtain iv: "intervals idx b" and less: "\<And>k. b k < b (k + 1)" by (rule cutsE [OF cuts]) blast
  show "sure_distance J lo hi (\<lambda>t. from_begin idx b n (day_no t)) (nth_day_eq J fin u num n)"
    by (rule day_sure_distance [OF nth_day_gives [OF zone cuts n] from_begin_step [OF iv n(1)]])
  show "sure_distance J lo hi (\<lambda>t. from_end idx b n (day_no t)) (nth_day_eq J fin u num (- n))"
    if backs: "backs idx b n" and far: "\<And>x. day_no (u_plus u 1 x) \<le> day_no x + 800"
    by (rule day_sure_distance [OF nth_day_back_gives [OF zone cuts n backs far] from_end_step [OF iv n(1)]])
      (rule backs_short [OF backs iv less])
qed

lemma day_distance:
  assumes zone: "zone J R lo hi" and n: "0 < n" "n \<le> 31"
  shows "sure_distance J lo hi (\<lambda>t. from_begin month_of month_start n (day_no t)) (day_eq J n)"
    and "sure_distance J lo hi (\<lambda>t. from_end month_of month_start n (day_no t)) (day_eq J (- n))"
proof -
  have far: "day_no (u_plus UMonth 1 x) \<le> day_no x + 800" for x
    using months_later(2) [where x = x and n = 1] month_room [of "day_no x"] month_len_bounds(2) [of "month_of (day_no x) + 1"]
    by (simp add: u_plus_def month_len_def)
  show "sure_distance J lo hi (\<lambda>t. from_begin month_of month_start n (day_no t)) (day_eq J n)"
    "sure_distance J lo hi (\<lambda>t. from_end month_of month_start n (day_no t)) (day_eq J (- n))"
    unfolding fun_eq_iff [THEN iffD2, OF allI, OF nth_day_eqs(1)]
    using nth_day_distance [OF zone month_cuts [OF zone], of n] n month_backs [OF n] far by auto
qed

lemma day_of_year_distance:
  assumes zone: "zone J R lo hi" and n: "0 < n"
  shows "n \<le> 366 \<Longrightarrow> sure_distance J lo hi (\<lambda>t. from_begin yr year_start n (day_no t)) (day_of_year_eq J n)"
    and "n \<le> 365 \<Longrightarrow> sure_distance J lo hi (\<lambda>t. from_end yr year_start n (day_no t)) (day_of_year_eq J (- n))"
proof -
  have far: "day_no (u_plus UYear 1 x) \<le> day_no x + 800" for x
    using year_bounds [of "day_no x"] year_bounds(2) [of "day_no (u_plus UYear 1 x)"] year_after [of 1 x]
      year_len(2) [of "yr (day_no x)"] year_len(2) [of "yr (day_no x) + 1"] by (simp add: u_plus_def)
  have eq: "day_of_year_eq J = nth_day_eq J (z_last_of_year J) UYear (z_day_of_year J)" by (intro ext) (rule nth_day_eqs(2))
  show "n \<le> 366 \<Longrightarrow> sure_distance J lo hi (\<lambda>t. from_begin yr year_start n (day_no t)) (day_of_year_eq J n)"
    "n \<le> 365 \<Longrightarrow> sure_distance J lo hi (\<lambda>t. from_end yr year_start n (day_no t)) (day_of_year_eq J (- n))"
    unfolding eq using nth_day_distance [OF zone year_cuts [OF zone], of n] n year_backs [OF n] far by auto
qed

section \<open>Months\<close>

definition is_month :: "int \<Rightarrow> int \<Rightarrow> bool" where
  "is_month m d = (month_of d mod 12 + 1 = m)"

definition month_step :: "int \<Rightarrow> int \<Rightarrow> int" where
  "month_step m d = (let k = month_of d; r = k mod 12 + 1 in month_start (k + (if r < m then m - r else 12 - r + m)))"

lemma month_day_step:
  assumes "1 \<le> m" "m \<le> 12"
  shows "day_step (is_month m) (month_step m)"
proof (rule day_stepI)
  fix d assume not: "\<not> is_month m d"
  define k where "k = month_of d"
  have "0 < (if k mod 12 + 1 < m then m - (k mod 12 + 1) else 12 - (k mod 12 + 1) + m)"
    using assms pos_mod_bound [of 12 k] by auto
  then have "\<not> month_step m d \<le> d" unfolding month_step_def Let_def k_def [symmetric] month_start_le by (simp add: k_def)
  then show "d < month_step m d" by simp
next
  fix d d' assume not: "\<not> is_month m d" and d': "is_month m d'" "d < d'"
  define k k' where "k = month_of d" and "k' = month_of d'"
  define a r a' where "a = k div 12" and "r = k mod 12" and "a' = k' div 12"
  have k: "k = 12 * a + r" "0 \<le> r" "r < 12" by (simp_all add: a_def r_def)
  have "k' mod 12 = m - 1" using d'(1) by (simp add: is_month_def k'_def)
  then have k': "k' = 12 * a' + (m - 1)" using mult_div_mod_eq [of 12 k'] by (simp only: a'_def)
  have "k \<le> k'" using month_of_mono [of d d'] d'(2) by (simp add: k_def k'_def)
  moreover have "r + 1 \<noteq> m" using not by (simp add: is_month_def r_def k_def)
  ultimately have "k + (if r + 1 < m then m - (r + 1) else 12 - (r + 1) + m) \<le> k'" using k k' assms
    by (cases "r + 1 < m"; simp) presburger
  then show "month_step m d \<le> d'"
    unfolding month_step_def Let_def month_start_le k_def [symmetric] k'_def [symmetric] r_def [symmetric] .
qed

lemma month_distance:
  assumes zone: "zone J R lo hi" and m: "1 \<le> m" "m \<le> 12"
  shows "sure_distance J lo hi (\<lambda>t. is_month m (day_no t)) (month_eq J m)"
proof (rule day_sure_distance [OF _ month_day_step [OF m]])
  fix z
  let ?ok = "lo \<le> instant J z \<and> instant J z \<le> hi"
  define x d k where "x = instant J z" and "d = day_no x" and "k = month_of d"
  note folds = x_def [symmetric] d_def [symmetric] k_def [symmetric]
  have jump: "gives_if J ?ok (attempt (attempt (plus_units J UMonth n z) (z_first_of_month J)) (z_start_of_day J)) (at_day (month_start (k + n)) 0)"
    if n: "0 \<le> n" "n \<le> 24" for n
  proof -
    have month: "u_plus UMonth n x = add_months n x" by (simp add: u_plus_def)
    have far: "month_start (k + n) \<le> month_start k + 31 * n" "month_start (k + n + 1) \<le> month_start k + 31 * (n + 1)" "month_start k \<le> month_start (k + n)"
      using month_start_far [of k "nat n"] month_start_far [of k "nat (n + 1)"] month_start_mono [of k "k + n"] n
      by (simp_all add: add.assoc)
    note near = month_room [of d, folded k_def] months_later [where x = x and n = n, folded d_def k_def]
    have "gives_if J ?ok (attempt (attempt (plus_units J UMonth n z) (z_first_of_month J)) (z_start_of_day J))
        (u_start_of_day (u_first_of_month (u_plus UMonth n x)))"
      unfolding x_def by (intro chain(1,3) [OF zone] chain_first(7) [OF zone] roomy_near [where x = x])
        (use n far near in \<open>auto simp: day_moves(1,2,5) month month_after(2) folds\<close>)
    then show ?thesis by (simp add: day_moves(1,5) month month_after(2) folds)
  qed
  have r: "0 \<le> k mod 12" "k mod 12 < 12" by simp_all
  have mon: "u_month x = k mod 12 + 1" by (simp add: day_moves folds)
  show "gives_if J ?ok (month_eq J m z) (day_value (is_month m) (month_step m) (instant J z))"
    using zone m r jump [of "m - u_month x"] jump [of "12 - u_month x + m"]
    by (auto simp: month_eq_def attempt_assoc day_value_def is_month_def month_step_def Let_def gives_if_Inr mon folds)
qed

section \<open>Repetitions\<close>

definition unit_idx :: "freq \<Rightarrow> int \<Rightarrow> int" where
  "unit_idx f = (case f of Weekly \<Rightarrow> week_of | Monthly \<Rightarrow> month_of | Yearly \<Rightarrow> yr | _ \<Rightarrow> (\<lambda>d. d))"

definition unit_begin :: "freq \<Rightarrow> int \<Rightarrow> int" where
  "unit_begin f = (case f of Weekly \<Rightarrow> week_begin | Monthly \<Rightarrow> month_start | Yearly \<Rightarrow> year_start | _ \<Rightarrow> (\<lambda>d. d))"

definition dated :: "freq \<Rightarrow> bool" where
  "dated f = (case f of Secondly \<Rightarrow> False | Minutely \<Rightarrow> False | Hourly \<Rightarrow> False | _ \<Rightarrow> True)"

lemma unit_intervals: "intervals (unit_idx f) (unit_begin f)"
  by (cases f) (simp_all add: unit_idx_def unit_begin_def day_intervals week_intervals month_intervals year_intervals)

lemma unit_length: "unit_begin f k < unit_begin f (k + 1)" "unit_begin f (k + 1) \<le> unit_begin f k + 366"
  using month_len_bounds [of k] year_len [of k]
  by (cases f; simp add: unit_begin_def week_begin_def month_len_def)+

lemma unit_idx_begin [simp]: "unit_idx f (unit_begin f k) = k"
proof -
  have le: "j \<le> unit_idx f d \<longleftrightarrow> unit_begin f j \<le> d" for j d using unit_intervals [of f] by (simp add: intervals_def)
  show ?thesis using le [of k "unit_begin f k"] le [of "k + 1" "unit_begin f k"] unit_length(1) [of f k] by simp
qed

lemma unit_room:
  fixes d :: int
  shows "unit_begin f (unit_idx f d) \<le> d" "d \<le> unit_begin f (unit_idx f d) + 365"
  using intervals_bounds(1,2) [OF unit_intervals [of f], of d] unit_length(2) [of f "unit_idx f d"] by simp_all

lemma unit_after:
  assumes "dated f"
  shows "unit_idx f (day_no (u_plus (freq_unit f) n x)) = unit_idx f (day_no x) + n"
proof -
  have "week_of (day_no (x + 604800 * n)) = week_of (day_no x) + n"
    using day_moves(2) [of "7 * n" x] by (simp add: u_plus_def week_of_def add.commute [of _ 3] flip: add.assoc)
  then show ?thesis using assms day_moves(2) [of n x] year_after [of n x]
    by (cases f) (simp_all add: dated_def unit_idx_def freq_unit_def month_after(2) u_plus_def)
qed

lemma roomy_far: "lo \<le> x \<Longrightarrow> x \<le> hi + 35000000 \<Longrightarrow> \<bar>day_no v - day_no x\<bar> \<le> 400 \<Longrightarrow> roomy lo hi v"
  using day_no_bounds [of v] day_no_bounds [of x] unfolding roomy_def by linarith

lemma first_of_gives:
  assumes zone: "zone J R lo hi" and f: "dated f" and ok: "ok \<Longrightarrow> lo \<le> instant J z \<and> instant J z \<le> hi + 35000000"
  shows "gives_if J ok (first_of J f z) (at_day (unit_begin f (unit_idx f (day_no (instant J z)))) 0)"
proof -
  define x d where "x = instant J z" and "d = day_no x"
  note folds = x_def [symmetric] d_def [symmetric]
  have start: "gives_if J ok (z_start_of_day J z) (at_day d 0)"
    by (rule gives_if_eq [OF chain_first(1) [OF zone]]) (use ok in \<open>auto intro!: roomy_far [where x = x] simp: day_moves(1) folds\<close>)
  define w where "w = (d + 3) mod 7"
  have "7 * week_of d + w = d + 3" unfolding week_of_def w_def by (rule mult_div_mod_eq)
  then have w: "0 \<le> w" "w < 7" "week_begin (week_of d) = d - w" by (simp_all add: week_begin_def) (simp_all add: w_def)
  have wd: "weekday_no (u_weekday x) = w" by (simp add: u_weekday_no w_def d_def)
  have week: "gives_if J ok (week_start J z) (at_day (week_begin (week_of d)) 0)"
  proof (cases "w = 0")
    case True
    then have "u_weekday x = Monday" using wd weekday_no_inj [of "u_weekday x" Monday] by (simp add: weekday_no_def)
    then show ?thesis using start True w(3) zone by (simp add: week_start_def folds)
  next
    case False
    then have not: "u_weekday x \<noteq> Monday" using wd by (auto simp: weekday_no_def)
    have "(days_until Monday (u_weekday x) - 1) mod 7 + 1 = w"
      using w(1,2) False by (simp add: days_until_def wd) (simp add: weekday_no_def)
    then have prev: "u_nth_weekday (- 1) Monday x = Some (u_plus UDay (- w) x)" by (simp add: u_nth_weekday_def u_plus_def)
    have "gives_if J ok (attempt (z_nth_weekday J (- 1) Monday z) (z_start_of_day J)) (u_start_of_day (u_plus UDay (- w) x))"
      by (rule chain(1) [OF zone chain_first(10) [OF zone prev [unfolded x_def], folded x_def]])
        (use ok w in \<open>auto intro!: roomy_far [where x = x] simp: day_moves(1,2) folds\<close>)
    then show ?thesis using not zone w(3) by (simp add: week_start_def day_moves(1,2) folds)
  qed
  have "gives_if J ok (attempt (z_first_of_month J z) (z_start_of_day J)) (u_start_of_day (u_first_of_month x))"
    unfolding x_def by (intro chain(1) [OF zone] chain_first(3) [OF zone] roomy_far [where x = x])
      (use ok month_room [of d] in \<open>auto simp: day_moves(1,5) folds\<close>)
  moreover have "gives_if J ok (attempt (z_first_of_year J z) (z_start_of_day J)) (u_start_of_day (u_first_of_year x))"
    unfolding x_def by (intro chain(1) [OF zone] chain_first(5) [OF zone] roomy_far [where x = x])
      (use ok year_bounds [of d] year_len [of "yr d"] in \<open>auto simp: day_moves(1,7) folds\<close>)
  ultimately show ?thesis using f start week
    by (cases f) (simp_all add: dated_def first_of_def unit_idx_def unit_begin_def day_moves(1,5,7) folds)
qed

lemma elapsed_units:
  assumes "dated f" and s: "s = at_day (unit_begin f i) 0" "s \<le> x"
  shows "elapsed (freq_unit f) s x = unit_idx f (day_no x) - i" "0 \<le> elapsed (freq_unit f) s x" "month_aligned (freq_unit f) s"
proof -
  have day: "day_no s = unit_begin f i" by (simp add: s(1))
  have idx: "i \<le> unit_idx f (day_no x)"
    using day_no_mono [OF s(2)] unit_intervals [of f] by (simp add: day intervals_def)
  have diff: "(x - s) div 86400 = day_no x - unit_begin f i" by (simp add: s(1) at_day_def day_no_def)
  have week: "(x - s) div 604800 = (x - s) div 86400 div 7" by (simp flip: zdiv_zmult2_eq)
  have nonneg: "y sdiv n = y div n" if "0 \<le> y" "0 < n" for y n :: int using that by (simp add: signed_divide_int_def sgn_if)
  show eq: "elapsed (freq_unit f) s x = unit_idx f (day_no x) - i"
    using assms(1) s(2) idx day unit_idx_begin [of f i]
    by (cases f)
      (simp_all add: dated_def elapsed_def freq_unit_def unit_idx_def unit_begin_def nonneg diff week week_begin_def week_of_def
        month_no_def year_no_def yr_def add.commute [of 3])
  then show "0 \<le> elapsed (freq_unit f) s x" using idx by simp
  show "month_aligned (freq_unit f) s"
    using assms(1) day s(1) unit_idx_begin [of f i]
    by (cases f) (simp_all add: dated_def month_aligned_def freq_unit_def unit_idx_def unit_begin_def month_no_def year_no_def yr_def)
qed

text \<open>Intervals that fit the integers of the code.\<close>

definition interval_fits :: "freq \<Rightarrow> int \<Rightarrow> bool" where
  "interval_fits f n = (0 < n \<and> n < (if f = Yearly then 32768 else 2147483648))"

lemma fitting_interval:
  assumes "dated f" "interval_fits f n"
  shows "freq_interval f n = n" "0 \<le> a \<Longrightarrow> a < n \<Longrightarrow> freq_missing f n a = n - a"
  using assms by (cases f; simp add: interval_fits_def freq_interval_def freq_missing_def dated_def)+

lemma instance_distance:
  assumes zone: "zone J R lo hi" and f: "dated f" "interval_fits f n"
    and rep: "instance_of J start f n True = Inr rep" and i: "i = unit_idx f (day_no (instant J start))"
    and lo: "at_day (unit_begin f i) 0 \<le> lo"
  shows "distance J lo hi (\<lambda>t. every_nth (unit_idx f) i n (day_no t)) rep"
proof -
  let ?P = "every_nth (unit_idx f) i n" and ?g = "nth_step (unit_idx f) (unit_begin f) i n"
  have pos: "0 < n" using f(2) by (simp add: interval_fits_def)
  note step = day_value_steps [OF every_nth_step [OF unit_intervals pos, of f i]]
  obtain z0 where z0: "first_of J f start = Inr z0" using rep by (auto simp: instance_of_def attempt_ok)
  have s0: "instant J z0 = at_day (unit_begin f i) 0"
    using first_of_gives [OF zone f(1), where ok = False and z = start] z0 by (simp add: gives_if_def i)
  show ?thesis
  proof (rule value_distance [where v = "day_value ?P ?g"])
    fix z
    let ?ok = "\<exists>t. instant J z \<le> t \<and> t \<le> hi \<and> ?P (day_no t)"
    assume z: "lo \<le> instant J z"
    define x d where "x = instant J z" and "d = day_no x"
    note folds = x_def [symmetric] d_def [symmetric]
    have after: "instant J z0 \<le> x" using z lo s0 by (simp add: x_def)
    note el = elapsed_units [OF f(1) s0 after]
    have "since_gives J (freq_unit f) z0 z"
      using zone after el(3) by (auto simp: zone_def utc_laws_def utc_spans_def x_def)
    then obtain s s' where s: "z_since J z z0 = Inr s" "span_round J (freq_unit f) z0 s = Inr s'"
      "span_get J (freq_unit f) s' = unit_idx f d - i"
      using el(1) by (auto simp: since_gives_def folds)
    define a where "a = (unit_idx f d - i) mod n"
    have a: "0 \<le> a" "a < n" using pos by (simp_all add: a_def)
    have smod: "(unit_idx f d - i) smod n = a" using el(1,2) pos by (simp add: signed_modulo_int_def sgn_if a_def d_def)
    let ?y = "u_plus (freq_unit f) (n - a) x"
    have rep_z: "rep z = (if a = 0 then Inr z else attempt (plus_units J (freq_unit f) (n - a) z) (first_of J f))"
      using rep z0 s smod a fitting_interval [OF f] by (auto simp: instance_of_def Let_def)
    have P: "?P d \<longleftrightarrow> a = 0" by (simp add: every_nth_def a_def)
    have idx: "unit_idx f (day_no ?y) = unit_idx f d + (n - a)" using unit_after [OF f(1)] by (simp add: folds)
    have g: "?g d = unit_begin f (unit_idx f d + (n - a))" by (simp add: nth_step_def a_def)
    have room: "day_no ?y \<le> ?g d + 365" "?g d \<le> day_no ?y" using unit_room [where d = "day_no ?y" and f = f] by (simp_all add: idx g)
    have "\<not> ?g d \<le> d" using unit_intervals [of f] a by (simp add: g intervals_def)
    then have low: "x \<le> ?y" using room(2) day_no_bounds(2) [of x] day_no_bounds(1) [of ?y] by (simp add: d_def)
    have high: "?y \<le> hi + 35000000" if neq: "a \<noteq> 0" and some: "?ok"
    proof -
      obtain t where t: "x \<le> t" "t \<le> hi" "?P (day_no t)" using some by (auto simp: folds)
      have "day_value ?P ?g x \<le> t" by (rule step(2) [OF t(1,3)])
      then have "86400 * ?g d \<le> hi" using neq P t(2) by (simp add: day_value_def folds at_day_def)
      then show ?thesis using room(1) day_no_bounds(2) [of ?y] by linarith
    qed
    have "gives_if J ?ok (attempt (plus_units J (freq_unit f) (n - a) z) (first_of J f)) (at_day (?g d) 0)" if "a \<noteq> 0"
    proof (rule gives_if_attempt)
      show "gives_if J ?ok (plus_units J (freq_unit f) (n - a) z) ?y"
        unfolding x_def by (rule chain_first(7) [OF zone]) (use low high that z in \<open>auto simp: roomy_def folds\<close>)
      fix w assume "instant J w = ?y"
      then show "gives_if J ?ok (first_of J f w) (at_day (?g d) 0)"
        using first_of_gives [OF zone f(1), where ok = ?ok and z = w] low high that z by (simp add: idx g folds)
    qed
    then show "gives_if J ?ok (rep z) (day_value ?P ?g (instant J z))"
      unfolding rep_z using P by (auto simp: day_value_def folds gives_if_Inr)
  qed (use step in auto)
qed

end
