(* ===== verification/Recur_Rules.thy ===== *)
theory Recur_Rules
  imports Recur_Dates
begin

text \<open>
  The dates a recurrence rule means, as a predicate on instants, for rules with a frequency from days to
  years and no \<open>BYSECOND\<close>, \<open>BYMINUTE\<close>, \<open>BYWEEKNO\<close>, \<open>BYSETPOS\<close> and numbered weekdays; and that the iterator
  gives exactly these dates.
\<close>

section \<open>The dates of a rule\<close>

definition weekday_matches :: "int \<Rightarrow> by_day \<Rightarrow> bool" where
  "weekday_matches t d = (case d of Every wd \<Rightarrow> u_weekday t = wd | Fixed _ _ \<Rightarrow> False)"

definition month_day_matches :: "int \<Rightarrow> day signed \<Rightarrow> bool" where
  "month_day_matches t d = (let n = int (day_num (sg_value d))
     in u_day t = (if sg_sign d = Neg then month_len (month_no t) + 1 - n else n))"

definition year_day_matches :: "int \<Rightarrow> day_ordinal signed \<Rightarrow> bool" where
  "year_day_matches t d = (let n = int (day_ordinal_num (sg_value d))
     in u_day_of_year t = (if sg_sign d = Neg then (if is_leap (year_no t) then 366 else 365) + 1 - n else n))"

text \<open>A list of a rule: absent, or one of its entries matches.\<close>

definition allows :: "('a \<Rightarrow> bool) \<Rightarrow> 'a list \<Rightarrow> bool" where
  "allows P xs = (xs = [] \<or> list_ex P xs)"

definition filters_match :: "recur \<Rightarrow> int \<Rightarrow> bool" where
  "filters_match rc t = (allows (\<lambda>h. u_hour t = int (hour_num h)) (rc_by_hour rc)
     \<and> allows (weekday_matches t) (rc_by_day rc) \<and> allows (month_day_matches t) (rc_by_month_day rc)
     \<and> allows (year_day_matches t) (rc_by_year_day rc) \<and> allows (\<lambda>m. u_month t = int (month_num m)) (rc_by_month rc))"

text \<open>What the rule leaves open is taken from \<open>DTSTART\<close>.\<close>

definition start_matches :: "recur \<Rightarrow> int \<Rightarrow> int \<Rightarrow> bool" where
  "start_matches rc s t = (u_second t = u_second s \<and> u_minute t = u_minute s
     \<and> (rc_by_hour rc = [] \<longrightarrow> u_hour t = u_hour s)
     \<and> (rc_freq rc = Weekly \<and> rc_by_day rc = [] \<longrightarrow> u_weekday t = u_weekday s)
     \<and> (rc_freq rc = Monthly \<and> rc_by_day rc = [] \<and> rc_by_month_day rc = [] \<longrightarrow> u_day t = u_day s)
     \<and> (rc_freq rc = Yearly \<and> rc_by_day rc = [] \<and> rc_by_month_day rc = [] \<and> rc_by_year_day rc = [] \<longrightarrow> u_day t = u_day s)
     \<and> (rc_freq rc = Yearly \<and> rc_by_month rc = [] \<and> rc_by_year_day rc = [] \<longrightarrow> u_month t = u_month s))"

definition rule_matches :: "recur \<Rightarrow> int \<Rightarrow> int \<Rightarrow> bool" where
  "rule_matches rc s t =
    (every_nth (unit_idx (rc_freq rc)) (unit_idx (rc_freq rc) (day_no s)) (rule_interval rc) (day_no t)
     \<and> filters_match rc t \<and> start_matches rc s t)"

definition plain_rule :: "recur \<Rightarrow> bool" where
  "plain_rule rc = (dated (rc_freq rc) \<and> interval_fits (rc_freq rc) (rule_interval rc)
     \<and> rc_by_second rc = [] \<and> rc_by_minute rc = [] \<and> rc_by_week_no rc = [] \<and> rc_by_set_pos rc = []
     \<and> list_all (\<lambda>h. hour_num h < 24) (rc_by_hour rc)
     \<and> list_all (\<lambda>d. case d of Every _ \<Rightarrow> True | Fixed _ _ \<Rightarrow> False) (rc_by_day rc)
     \<and> list_all (\<lambda>d. 0 < day_num (sg_value d) \<and> day_num (sg_value d) \<le> 31) (rc_by_month_day rc)
     \<and> list_all (\<lambda>d. 0 < day_ordinal_num (sg_value d) \<and> day_ordinal_num (sg_value d) \<le> (if sg_sign d = Neg then 365 else 366)) (rc_by_year_day rc)
     \<and> list_all (\<lambda>m. 0 < month_num m \<and> month_num m \<le> 12) (rc_by_month rc))"

section \<open>Parts that may be absent\<close>

definition maybe_distance :: "('z, 's, 'e, 'c) jiff \<Rightarrow> int \<Rightarrow> int \<Rightarrow> (int \<Rightarrow> bool) \<Rightarrow> ('z, 'e) fact_op option \<Rightarrow> bool" where
  "maybe_distance J lo hi M r = (case r of None \<Rightarrow> (\<forall>t. M t) | Some f \<Rightarrow> distance J lo hi M f)"

lemma and_rest_Cons: "and_rest (f # fs) = then_fact f (and_rest fs)"
  by (simp add: fun_eq_iff then_fact_def)

lemma maybe_and_distance:
  assumes "list_all2 (maybe_distance J lo hi) Ms rs"
  shows "distance J lo hi (holds_all Ms) (and_rest (List.map_filter id rs))"
  using assms
proof (induction Ms rs rule: list_all2_induct)
  case Nil
  then show ?case using and_rest_distance [of J lo hi "[]" "[]"] by (simp add: map_filter_simps del: and_rest.simps)
next
  case (Cons M Ms r rs)
  show ?case
  proof (cases r)
    case None
    then have "holds_all (M # Ms) = holds_all Ms" using Cons(1) by (auto simp: maybe_distance_def holds_all_def fun_eq_iff)
    then show ?thesis using None Cons.IH by (simp add: map_filter_simps)
  next
    case (Some f)
    have "holds_all (M # Ms) = (\<lambda>t. M t \<and> holds_all Ms t)" by (rule ext) (simp add: holds_all_def)
    moreover have "distance J lo hi M f" using Cons(1) Some by (simp add: maybe_distance_def)
    ultimately show ?thesis using Some then_distance [OF _ Cons.IH] by (simp add: map_filter_simps and_rest_Cons del: and_rest.simps)
  qed
qed

lemma maybe_or_distance:
  assumes "\<And>x. x \<in> set xs \<Longrightarrow> sure_distance J lo hi (\<lambda>t. P t x) (g x)"
  shows "maybe_distance J lo hi (\<lambda>t. allows (P t) xs) (fact_or J (map g xs))"
proof (cases "fact_or J (map g xs)")
  case None
  then have "xs = []" by (cases xs) (simp_all add: fact_or_def)
  then show ?thesis by (simp add: maybe_distance_def allows_def fact_or_def)
next
  case (Some f)
  have "list_all2 (sure_distance J lo hi) (map (\<lambda>x t. P t x) xs) (map g xs)"
    using assms by (simp add: list_all2_map1 list_all2_map2 list_all2_same)
  from fact_or_distance [OF this Some] have "distance J lo hi (holds_any (map (\<lambda>x t. P t x) xs)) f" by (simp add: sure_distance_def)
  moreover have "holds_any (map (\<lambda>x t. P t x) xs) = (\<lambda>t. allows (P t) xs)"
    using Some by (auto simp: holds_any_def allows_def list_ex_iff fun_eq_iff fact_or_def)
  ultimately show ?thesis using Some by (simp add: maybe_distance_def)
qed

lemma then_assoc: "then_fact (then_fact f g) h = then_fact f (then_fact g h)"
proof
  show "then_fact (then_fact f g) h z = then_fact f (then_fact g h) z" for z by (cases "f z") (simp_all add: then_fact_def)
qed

lemma and_rest_Nil: "then_fact (and_rest []) g = g"
  by (simp add: fun_eq_iff then_fact_def)

lemma and_rest_append: "and_rest (fs @ gs) = then_fact (and_rest fs) (and_rest gs)"
  by (induction fs) (simp_all add: and_rest_Cons then_assoc and_rest_Nil del: and_rest.simps)

lemma fact_and_eq: "fact_and fs = (if fs = [] then None else Some (and_rest fs))"
  by (cases fs) (simp_all add: fact_and_def fun_eq_iff)

lemma and_rest_flat: "and_rest (List.map_filter id (map fact_and fss)) = and_rest (concat fss)"
  by (induction fss) (simp_all add: map_filter_simps fact_and_eq and_rest_append and_rest_Cons and_rest_Nil del: and_rest.simps)

lemma and_rest_pair: "and_rest (f # g # gs) = and_rest (then_fact f g # gs)"
  by (simp add: and_rest_Cons then_assoc del: and_rest.simps)

lemma maybe_fact_and:
  assumes "list_all2 (maybe_distance J lo hi) Ms rs"
  shows "maybe_distance J lo hi (holds_all Ms) (fact_and (List.map_filter id rs))"
proof (cases "List.map_filter id rs = []")
  case True
  have "\<forall>t. holds_all Ms t"
    using assms True
    by (induction Ms rs rule: list_all2_induct) (auto simp: map_filter_simps holds_all_def maybe_distance_def split: option.splits)
  then show ?thesis using True by (simp add: maybe_distance_def fact_and_eq)
next
  case False
  then show ?thesis using maybe_and_distance [OF assms] by (simp add: maybe_distance_def fact_and_eq)
qed

lemma sure_maybe: "sure_distance J lo hi M f \<Longrightarrow> maybe_distance J lo hi M (Some f)"
  by (simp add: maybe_distance_def sure_distance_def)

lemma maybe_when: "sure_distance J lo hi M f \<Longrightarrow> maybe_distance J lo hi (\<lambda>t. b \<longrightarrow> M t) (if b then Some f else None)"
  by (cases b) (simp_all add: maybe_distance_def sure_distance_def)

section \<open>The parts of a rule\<close>

lemma weekday_match: "u_weekday t = wd \<longleftrightarrow> is_weekday wd (day_no t)"
  using weekday_no_inj [of "u_weekday t" wd] by (simp add: u_weekday_no is_weekday_def)

lemma month_match: "u_month t = m \<longleftrightarrow> is_month m (day_no t)"
  by (simp add: is_month_def day_moves)

lemma month_day_match:
  "u_day t = n \<longleftrightarrow> from_begin month_of month_start n (day_no t)"
  "u_day t = month_len (month_no t) + 1 - n \<longleftrightarrow> from_end month_of month_start n (day_no t)"
  by (auto simp: from_begin_def from_end_def day_moves month_len_def month_no_def)

lemma year_day_match:
  "u_day_of_year t = n \<longleftrightarrow> from_begin yr year_start n (day_no t)"
  "u_day_of_year t = (if is_leap (year_no t) then 366 else 365) + 1 - n \<longleftrightarrow> from_end yr year_start n (day_no t)"
  using year_start_step [of "year_no t"]
  by (auto simp: from_begin_def from_end_def day_moves year_no_def yr_def month_no_def)

lemma maybe_cong: "maybe_distance J lo hi M r \<Longrightarrow> (\<And>t. M t = N t) \<Longrightarrow> maybe_distance J lo hi N r"
  by (simp add: maybe_distance_def distance_cong [of M N] split: option.splits)

lemma hours_distance:
  assumes "zone J R lo hi" and "list_all (\<lambda>h. hour_num h < 24) hs"
  shows "maybe_distance J lo hi (\<lambda>t. allows (\<lambda>h. u_hour t = int (hour_num h)) hs) (fact_or J (map (\<lambda>h. hour_eq J (i8 (int (hour_num h)))) hs))"
proof (rule maybe_or_distance)
  fix h assume "h \<in> set hs"
  then have "hour_num h < 24" using assms(2) by (auto simp: list_all_iff)
  then show "sure_distance J lo hi (\<lambda>t. u_hour t = int (hour_num h)) (hour_eq J (i8 (int (hour_num h))))"
    using hour_distance(1) [OF assms(1), of "int (hour_num h)"] by simp
qed

lemma months_distance:
  assumes "zone J R lo hi" and "list_all (\<lambda>m. 0 < month_num m \<and> month_num m \<le> 12) ms"
  shows "maybe_distance J lo hi (\<lambda>t. allows (\<lambda>m. u_month t = int (month_num m)) ms) (fact_or J (map (\<lambda>m. month_eq J (i8 (int (month_num m)))) ms))"
proof (rule maybe_or_distance)
  fix m assume "m \<in> set ms"
  then have "0 < month_num m" "month_num m \<le> 12" using assms(2) by (auto simp: list_all_iff)
  then show "sure_distance J lo hi (\<lambda>t. u_month t = int (month_num m)) (month_eq J (i8 (int (month_num m))))"
    using month_distance [OF assms(1), of "int (month_num m)"] by (simp add: month_match)
qed

lemma weekdays_distance:
  assumes "zone J R lo hi" and "list_all (\<lambda>d. case d of Every _ \<Rightarrow> True | Fixed _ _ \<Rightarrow> False) ds"
  shows "maybe_distance J lo hi (\<lambda>t. allows (weekday_matches t) ds) (fact_or J (List.map_filter (by_day_fact J f) ds))"
proof -
  have "List.map_filter (by_day_fact J f) ds = map (\<lambda>d. weekday_eq J (case d of Every wd \<Rightarrow> wd | Fixed _ wd \<Rightarrow> wd)) ds"
    using assms(2) by (induction ds) (auto simp: map_filter_simps by_day_fact_def split: by_day.splits)
  moreover have "sure_distance J lo hi (\<lambda>t. weekday_matches t d) (weekday_eq J (case d of Every wd \<Rightarrow> wd | Fixed _ wd \<Rightarrow> wd))" if "d \<in> set ds" for d
    using assms that weekday_distance [OF assms(1)] by (cases d) (auto simp: list_all_iff weekday_matches_def weekday_match)
  ultimately show ?thesis using maybe_or_distance [of ds J lo hi weekday_matches] by simp
qed

lemma month_days_distance:
  assumes "zone J R lo hi" and "list_all (\<lambda>d. 0 < day_num (sg_value d) \<and> day_num (sg_value d) \<le> 31) ds"
  shows "maybe_distance J lo hi (\<lambda>t. allows (month_day_matches t) ds) (fact_or J (map (\<lambda>d. day_eq J (signed_num i8 day_num d)) ds))"
proof (rule maybe_or_distance)
  fix d assume "d \<in> set ds"
  then have n: "0 < int (day_num (sg_value d))" "int (day_num (sg_value d)) \<le> 31" using assms(2) by (auto simp: list_all_iff)
  then show "sure_distance J lo hi (\<lambda>t. month_day_matches t d) (day_eq J (signed_num i8 day_num d))"
    using day_distance [OF assms(1) n]
    by (cases "sg_sign d") (simp_all add: month_day_matches_def Let_def signed_num_def month_day_match(2), simp add: month_day_match(1))
qed

lemma year_days_distance:
  assumes "zone J R lo hi"
    and "list_all (\<lambda>d. 0 < day_ordinal_num (sg_value d) \<and> day_ordinal_num (sg_value d) \<le> (if sg_sign d = Neg then 365 else 366)) ds"
  shows "maybe_distance J lo hi (\<lambda>t. allows (year_day_matches t) ds) (fact_or J (map (\<lambda>d. day_of_year_eq J (signed_num i16 day_ordinal_num d)) ds))"
proof (rule maybe_or_distance)
  fix d assume "d \<in> set ds"
  then have n: "0 < int (day_ordinal_num (sg_value d))" "day_ordinal_num (sg_value d) \<le> (if sg_sign d = Neg then 365 else 366)"
    using assms(2) by (auto simp: list_all_iff)
  then show "sure_distance J lo hi (\<lambda>t. year_day_matches t d) (day_of_year_eq J (signed_num i16 day_ordinal_num d))"
    using day_of_year_distance [OF assms(1) n(1)]
    by (cases "sg_sign d") (simp_all only: year_day_matches_def Let_def signed_num_def year_day_match(2) if_True if_False simp_thms sign.distinct, simp_all add: year_day_match(1))
qed

lemma filters_distance:
  assumes zone: "zone J R lo hi" and plain: "plain_rule rc"
  shows "\<exists>r. from_recur_filters J rc = Some r \<and> maybe_distance J lo hi (filters_match rc) r"
proof -
  note plain' = plain [unfolded plain_rule_def]
  have none: "maybe_distance J lo hi (\<lambda>_. True) (fact_or J [])" by (simp add: maybe_distance_def fact_or_def)
  let ?Ms = "[\<lambda>_. True, \<lambda>_. True, \<lambda>t. allows (\<lambda>h. u_hour t = int (hour_num h)) (rc_by_hour rc),
    \<lambda>t. allows (weekday_matches t) (rc_by_day rc), \<lambda>t. allows (month_day_matches t) (rc_by_month_day rc),
    \<lambda>t. allows (year_day_matches t) (rc_by_year_day rc), \<lambda>t. allows (\<lambda>m. u_month t = int (month_num m)) (rc_by_month rc)]"
  let ?rs = "[fact_or J [], fact_or J [], fact_or J (map (\<lambda>h. hour_eq J (i8 (int (hour_num h)))) (rc_by_hour rc)),
    fact_or J (List.map_filter (by_day_fact J (rc_freq rc)) (rc_by_day rc)),
    fact_or J (map (\<lambda>d. day_eq J (signed_num i8 day_num d)) (rc_by_month_day rc)),
    fact_or J (map (\<lambda>d. day_of_year_eq J (signed_num i16 day_ordinal_num d)) (rc_by_year_day rc)),
    fact_or J (map (\<lambda>m. month_eq J (i8 (int (month_num m)))) (rc_by_month rc))]"
  have "list_all2 (maybe_distance J lo hi) ?Ms ?rs"
    using plain' none hours_distance [OF zone] weekdays_distance [OF zone] month_days_distance [OF zone]
      year_days_distance [OF zone] months_distance [OF zone] by simp
  from maybe_fact_and [OF this]
  have "maybe_distance J lo hi (filters_match rc) (fact_and (List.map_filter id ?rs))"
    by (rule maybe_cong) (simp add: holds_all_def filters_match_def)
  moreover have "from_recur_filters J rc = Some (fact_and (List.map_filter id ?rs))"
    using plain' by (simp add: from_recur_filters_def Let_def)
  ultimately show ?thesis by blast
qed

section \<open>The rule\<close>

lemma invariants_distance:
  assumes zone: "zone J R lo hi" and plain: "plain_rule rc"
  shows "maybe_distance J lo hi (start_matches rc (instant J start)) (from_recur_invariants J rc start)"
proof -
  let ?s = "instant J start"
  note plain' = plain [unfolded plain_rule_def]
  have f: "dated (rc_freq rc)" using plain' by simp
  have day: "0 < u_day ?s" "u_day ?s \<le> 31" using month_room [of "day_no ?s"] by (simp_all add: day_moves)
  have month: "1 \<le> u_month ?s" "u_month ?s \<le> 12"
    using pos_mod_bound [of 12 "month_of (day_no ?s)"] by (simp_all add: day_moves)
  note fields = day_time_fields(2-7) [of ?s]
  let ?pair = "then_fact (second_eq J (u_second ?s)) (minute_eq J (u_minute ?s))"
  let ?opt = "\<lambda>b f. if b then Some f else None"
  let ?day = "rc_freq rc = Monthly \<and> rc_by_day rc = [] \<and> rc_by_month_day rc = []
    \<or> rc_freq rc = Yearly \<and> rc_by_day rc = [] \<and> rc_by_month_day rc = [] \<and> rc_by_year_day rc = []"
  let ?rs = "[Some ?pair, ?opt (rc_by_hour rc = []) (observed_hour_eq J (u_hour ?s)),
    ?opt (rc_freq rc = Weekly \<and> rc_by_day rc = []) (weekday_eq J (u_weekday ?s)),
    ?opt ?day (day_eq J (u_day ?s)),
    ?opt (rc_freq rc = Yearly \<and> rc_by_month rc = [] \<and> rc_by_year_day rc = []) (month_eq J (u_month ?s))]"
  let ?Ms = "[\<lambda>t. u_second t = u_second ?s \<and> u_minute t = u_minute ?s, \<lambda>t. rc_by_hour rc = [] \<longrightarrow> u_hour t = u_hour ?s,
    \<lambda>t. rc_freq rc = Weekly \<and> rc_by_day rc = [] \<longrightarrow> u_weekday t = u_weekday ?s, \<lambda>t. ?day \<longrightarrow> u_day t = u_day ?s,
    \<lambda>t. rc_freq rc = Yearly \<and> rc_by_month rc = [] \<and> rc_by_year_day rc = [] \<longrightarrow> u_month t = u_month ?s]"
  have "list_all2 (maybe_distance J lo hi) ?Ms ?rs"
    unfolding list_all2_Cons list_all2_Nil
    using second_minute_distance [OF zone fields(5,6,3,4)] hour_distance(2) [OF zone fields(1,2)] weekday_distance [OF zone, of "u_weekday ?s"]
      day_distance(1) [OF zone day] month_distance [OF zone month]
    by (intro conjI sure_maybe maybe_when TrueI) (simp_all only: weekday_match month_match month_day_match(1))
  from maybe_and_distance [OF this] have "distance J lo hi (holds_all ?Ms) (and_rest (List.map_filter id ?rs))" .
  moreover have "from_recur_invariants J rc start = Some (and_rest (List.map_filter id ?rs))"
    using f plain' zone
    by (cases "rc_freq rc")
      (auto simp: from_recur_invariants_def time_invariants_def date_invariants_def Let_def map_filter_simps fact_and_eq dated_def
        and_rest_pair simp del: and_rest.simps)
  moreover have "holds_all ?Ms = start_matches rc ?s" by (auto simp: holds_all_def start_matches_def fun_eq_iff)
  ultimately show ?thesis by (simp add: maybe_distance_def)
qed

lemma rule_distance:
  assumes zone: "zone J R lo hi" and plain: "plain_rule rc" and rule: "from_recur J rc start = Some (Inr f)" and lo: "instant J start = lo"
  shows "distance J lo hi (rule_matches rc (instant J start)) f"
proof -
  let ?s = "instant J start" and ?f = "rc_freq rc"
  let ?i = "unit_idx ?f (day_no ?s)"
  have f: "dated ?f" "interval_fits ?f (rule_interval rc)" using plain by (simp_all add: plain_rule_def)
  obtain filters where filters: "from_recur_filters J rc = Some filters" "maybe_distance J lo hi (filters_match rc) filters"
    using filters_distance [OF zone plain] by blast
  obtain rep where rep: "instance_of J start ?f (rule_interval rc) True = Inr rep"
    and f_eq: "fact_and (List.map_filter id [Some rep, filters, from_recur_invariants J rc start]) = Some f"
    using rule filters(1) by (auto simp: from_recur_def split: sum.splits)
  have "at_day (unit_begin ?f ?i) 0 \<le> lo" unfolding at_day_le lo [symmetric] by (rule unit_room(1))
  note inst = instance_distance [OF zone f rep refl this]
  have "list_all2 (maybe_distance J lo hi)
      [\<lambda>t. every_nth (unit_idx ?f) ?i (rule_interval rc) (day_no t), filters_match rc, start_matches rc ?s]
      [Some rep, filters, from_recur_invariants J rc start]"
    using inst filters(2) invariants_distance [OF zone plain] by (simp add: maybe_distance_def)
  from maybe_and_distance [OF this]
  have "distance J lo hi (rule_matches rc ?s) (and_rest (List.map_filter id [Some rep, filters, from_recur_invariants J rc start]))"
    by (subst distance_cong) (simp_all add: holds_all_def rule_matches_def)
  moreover have "f = and_rest (List.map_filter id [Some rep, filters, from_recur_invariants J rc start])"
    using f_eq unfolding fact_and_eq by (simp split: if_splits del: and_rest.simps)
  ultimately show ?thesis by (simp only:)
qed

section \<open>The iterator of a rule\<close>

lemma new_iterator:
  assumes "recur_iterator_new J A rc d = Some (Inr it)" and "rc_by_set_pos rc = []"
  shows "from_recur J rc (it_start it) = Some (Inr (it_fact it))" "it_picker it = None" "it_curr it = it_start it" "it_next it = None"
    "it_since it = None" "it_emitted it = 0" "it_count it = rc_count rc" "rc_until rc = None \<Longrightarrow> it_until it = None"
    "zoned_of_dod J (zoned_of_dt J) d = Some (Inr (it_start it))"
  using assms
  by (auto simp: recur_iterator_new_def attempt_panic_def Let_def set_pos_idxs_def picker_new_def map_filter_simps back_capacity_def
      split: if_splits option.splits sum.splits)

lemma rule_looks_for:
  assumes laws: "utc_laws J R" and room: "{s - 70000000..hi + 70000000} \<subseteq> R" and plain: "plain_rule rc"
    and new: "recur_iterator_new J A rc d = Some (Inr it)" and s: "instant J (it_start it) = s"
  shows "looks_for J s hi (rule_matches rc s) it" and "ticks J s hi"
proof -
  have zone: "zone J R s hi" using laws room by (simp add: zone_def)
  have no_pos: "rc_by_set_pos rc = []" using plain by (simp add: plain_rule_def)
  note it = new_iterator [OF new no_pos]
  have "distance J s hi (rule_matches rc s) (it_fact it)" using rule_distance [OF zone plain it(1) s] by (simp add: s)
  then show "looks_for J s hi (rule_matches rc s) it" using it by (simp add: looks_for_def s)
  have tick: "gives_instant J R (checked_add J (span_seconds J 1) z) (instant J z + 1)" for z
    using laws by (simp add: utc_laws_def utc_spans_def)
  show "ticks J s hi"
    unfolding ticks_def
  proof (intro allI conjI impI)
    fix z y assume "checked_add J (span_seconds J 1) z = Inr y"
    then show "instant J y = instant J z + 1" using tick [of z] by (simp add: gives_instant_def)
  next
    fix z assume "s \<le> instant J z \<and> instant J z \<le> hi"
    then have "instant J z + 1 \<in> R" using room by (auto simp: subset_iff)
    then show "is_ok (checked_add J (span_seconds J 1) z)" using tick [of z] by (simp add: gives_instant_def)
  qed
qed

lemma rule_dates_found:
  assumes laws: "utc_laws J R" and room: "{s - 70000000..hi + 70000000} \<subseteq> R" and plain: "plain_rule rc"
    and new: "recur_iterator_new J A rc d = Some (Inr it)" and s: "instant J (it_start it) = s"
    and m: "filter (rule_matches rc s) [s..hi] = m # ms" "within J (it_until it) m"
    and n: "n \<le> length (rule_dates (rule_matches rc s) s hi)" "n < 4294967296"
  shows "\<exists>zs it'. iter_take J A n it = Some (zs, it') \<and>
    map (instant J) zs = takeWhile (within J (it_until it)) (take (limited (rc_count rc) n) (rule_dates (rule_matches rc s) s hi))"
proof -
  have no_pos: "rc_by_set_pos rc = []" using plain by (simp add: plain_rule_def)
  note it = new_iterator [OF new no_pos]
  from new_take_finds [OF rule_looks_for [OF laws room plain new s] it(4,6,3) refl s m n, of A] show ?thesis by (simp add: it(7))
qed

text \<open>The same after a jump to a later date.\<close>

lemma since_dates_found:
  assumes laws: "utc_laws J R" and room: "{s - 70000000..hi + 70000000} \<subseteq> R" and plain: "plain_rule rc"
    and new: "recur_iterator_new J A rc d = Some (Inr it)" and s: "instant J (it_start it) = s" and at: "s \<le> instant J at"
    and n: "n \<le> length (filter (rule_matches rc s) [instant J at..hi])" "n + 1 < 4294967296"
  shows "\<exists>zs it'. iter_take J A n (set_since J at it) = Some (zs, it') \<and>
    map (instant J) zs = takeWhile (within J (it_until it)) (take n (filter (rule_matches rc s) [instant J at..hi]))"
proof -
  have no_pos: "rc_by_set_pos rc = []" using plain by (simp add: plain_rule_def)
  note it = new_iterator [OF new no_pos]
  let ?it = "set_since J at it"
  have jump: "?it = it\<lparr>it_curr := at, it_since := None, it_next := None, it_count := None, it_emitted := 1\<rparr>"
    using it(2) by (simp add: set_since_def)
  have look: "looks_for J s hi (rule_matches rc s) ?it" using rule_looks_for(1) [OF laws room plain new s] at by (simp add: looks_for_def jump)
  have ahead: "ahead J hi (rule_matches rc s) ?it = filter (rule_matches rc s) [instant J at..hi]" by (simp add: ahead_def jump)
  have "\<exists>zs it'. iter_take J A n ?it = Some (zs, it') \<and> map (instant J) zs =
      takeWhile (within J (it_until ?it)) (take (counts_left (it_count ?it) (it_emitted ?it) n) (ahead J hi (rule_matches rc s) ?it))"
  proof (rule iter_take_finds [OF look rule_looks_for(2) [OF laws room plain new s]])
    show "n \<le> length (ahead J hi (rule_matches rc s) ?it)" "\<forall>t \<in> set (ahead J hi (rule_matches rc s) ?it). instant J (it_start ?it) \<le> t"
      unfolding ahead using n(1) at s by (auto simp: jump)
  qed (use n(2) in \<open>simp_all add: jump\<close>)
  moreover have "it_until ?it = it_until it" "counts_left (it_count ?it) (it_emitted ?it) n = n" by (simp_all add: jump counts_left_def)
  ultimately show ?thesis unfolding ahead by simp
qed

lemma rule_iterator_exists:
  assumes laws: "utc_laws J R" and room: "{s - 70000000..s + 70000000} \<subseteq> R" and plain: "plain_rule rc"
    and til: "case rc_until rc of None \<Rightarrow> til = None | Some u \<Rightarrow> \<exists>y. zoned_of_dod J (zoned_of_ul J) u = Some (Inr y) \<and> til = Some y"
    and start: "zoned_of_dod J (zoned_of_dt J) d = Some (Inr z)" and s: "instant J z = s"
  shows "\<exists>it. recur_iterator_new J A rc d = Some (Inr it) \<and> it_start it = z \<and> it_until it = til"
proof -
  note plain' = plain [unfolded plain_rule_def]
  have zone: "zone J R s s" using laws room by (simp add: zone_def)
  obtain filters where filters: "from_recur_filters J rc = Some filters" using filters_distance [OF zone plain] by blast
  have "is_ok (first_of J (rc_freq rc) z)"
    using first_of_gives [OF zone, where f = "rc_freq rc" and z = z and ok = True] plain' s by (simp add: gives_if_def)
  then obtain rep where "instance_of J z (rc_freq rc) (rule_interval rc) True = Inr rep"
    by (cases "first_of J (rc_freq rc) z") (auto simp: instance_of_def)
  then obtain f where "from_recur J rc z = Some (Inr f)"
    using filters by (auto simp: from_recur_def fact_and_eq map_filter_simps split: option.splits)
  moreover have "rc_interval rc \<noteq> Some 0" using plain' by (auto simp: interval_fits_def rule_interval_def split: option.splits)
  ultimately show ?thesis using start til plain' by (auto simp: recur_iterator_new_def Let_def split: option.splits)
qed

end
