(* ===== verification/Recur_Order.thy ===== *)
theory Recur_Order
  imports Recur_Contract
begin

text \<open>
  The order of the dates an iterator gives, for every rule and every constraint: each date is later than
  the one before, also when \<open>BYSETPOS\<close> holds dates back in the picker.
\<close>

section \<open>The picker\<close>

text \<open>Two lists in order, without a common element, after \<open>l\<close> and before \<open>c\<close>.\<close>

definition ordered :: "int \<Rightarrow> int \<Rightarrow> int list \<Rightarrow> int list \<Rightarrow> bool" where
  "ordered l c F B = (sorted_wrt (<) F \<and> sorted_wrt (<) B \<and> set F \<inter> set B = {} \<and> set F \<union> set B \<subseteq> {l<..<c})"

lemma ordered_simps:
  "ordered l c [] []"
  "ordered l c (f # F) [] \<longleftrightarrow> l < f \<and> f < c \<and> ordered f c F []"
  "ordered l c [] (b # B) \<longleftrightarrow> l < b \<and> b < c \<and> ordered b c [] B"
  by (auto simp: ordered_def)

lemma ordered_heads:
  assumes "ordered l c (f # F) (b # B)"
  shows "l < f" "f < c" "l < b" "b < c" "f < b \<Longrightarrow> ordered f c F (b # B)" "\<not> f < b \<Longrightarrow> ordered b c (f # F) B"
proof -
  have o: "sorted_wrt (<) (f # F)" "sorted_wrt (<) (b # B)" "set (f # F) \<inter> set (b # B) = {}" "set (f # F) \<union> set (b # B) \<subseteq> {l<..<c}"
    using assms unfolding ordered_def by blast+
  then show "l < f" "f < c" "l < b" "b < c" by auto
  have F: "f < x \<and> x < c" if "x \<in> set F" for x using o(1,4) that by auto
  have B: "b < x \<and> x < c" if "x \<in> set B" for x using o(2,4) that by auto
  show "ordered f c F (b # B)" if "f < b"
  proof -
    have "x \<in> {f<..<c}" if "x \<in> set F \<union> set (b # B)" for x using that F [of x] B [of x] \<open>f < b\<close> \<open>b < c\<close> by auto
    then have "set F \<union> set (b # B) \<subseteq> {f<..<c}" by blast
    then show ?thesis using o(1-3) unfolding ordered_def by simp
  qed
  show "ordered b c (f # F) B" if "\<not> f < b"
  proof -
    have "b < f" using that o(3) by auto
    then have "x \<in> {b<..<c}" if "x \<in> set (f # F) \<union> set B" for x using that F [of x] B [of x] \<open>f < c\<close> by auto
    then have "set (f # F) \<union> set B \<subseteq> {b<..<c}" by blast
    then show ?thesis using o(1-3) unfolding ordered_def by simp
  qed
qed

lemma ordered_suffix: "ordered l c F (A @ B) \<Longrightarrow> ordered l c F B"
  by (auto simp: ordered_def sorted_wrt_append)

lemma ordered_snoc:
  assumes "ordered l c F B" "l < c" "c < c'"
  shows "ordered l c' (F @ [c]) B" and "ordered l c' F (B @ [c])"
proof -
  have sub: "x < c \<and> l < x" if "x \<in> set F \<union> set B" for x using assms(1) that unfolding ordered_def by (meson greaterThanLessThan_iff subsetD)
  then have "c \<notin> set F" "c \<notin> set B" by blast+
  moreover have "set (F @ [c]) \<union> set B \<subseteq> {l<..<c'}" "set F \<union> set (B @ [c]) \<subseteq> {l<..<c'}" using sub assms(2,3) by fastforce+
  ultimately show "ordered l c' (F @ [c]) B" "ordered l c' F (B @ [c])"
    using assms(1) sub unfolding ordered_def by (simp_all add: sorted_wrt_append)
qed

lemma ordered_weaken: "ordered l c F B \<Longrightarrow> c \<le> c' \<Longrightarrow> ordered l c' F B"
  by (fastforce simp: ordered_def)

text \<open>What a picker holds.\<close>

definition holds_between :: "('z \<Rightarrow> int) \<Rightarrow> int \<Rightarrow> int \<Rightarrow> 'z picker \<Rightarrow> bool" where
  "holds_between key l c p = (ordered l c (map key (pk_front p)) (map (key \<circ> snd) (pk_back p))
     \<and> (pk_back_idxs p = {} \<longrightarrow> pk_front p = [] \<and> pk_back p = []))"

lemma holds_between_new: "picker_new A idxs = Some p \<Longrightarrow> holds_between key l c p"
  by (auto simp: picker_new_def Let_def holds_between_def ordered_simps split: if_splits)

lemma holds_between_weaken: "holds_between key l c p \<Longrightarrow> c \<le> c' \<Longrightarrow> holds_between key l c' p"
  by (auto simp: holds_between_def intro: ordered_weaken)

lemma close_between: "holds_between key l c p \<Longrightarrow> holds_between key l c (picker_close p)"
  by (auto simp: holds_between_def picker_close_def case_prod_unfold comp_def split: picker_state.splits)

lemma pull_between:
  assumes "holds_between key l c p" and "picker_pull key p = (r, p')"
  shows "case r of None \<Rightarrow> holds_between key l c p' | Some z \<Rightarrow> l < key z \<and> key z < c \<and> holds_between key (key z) c p'"
proof (cases "pk_state p")
  case (Opened n)
  then show ?thesis using assms by (auto simp: picker_pull_def)
next
  case Closed
  define bs where "bs = dropWhile (\<lambda>(idx, _). idx \<notin> pk_back_idxs p) (pk_back p)"
  have "map (key \<circ> snd) (pk_back p) = map (key \<circ> snd) (takeWhile (\<lambda>(idx, _). idx \<notin> pk_back_idxs p) (pk_back p)) @ map (key \<circ> snd) bs"
    by (simp add: bs_def flip: map_append)
  then have ord: "ordered l c (map key (pk_front p)) (map (key \<circ> snd) bs)"
    using assms(1) by (auto simp: holds_between_def dest: ordered_suffix)
  have none: "pk_back_idxs p = {} \<longrightarrow> pk_front p = [] \<and> bs = []" using assms(1) by (auto simp: holds_between_def bs_def)
  show ?thesis
  proof (cases "pk_front p"; cases bs)
    fix f fs b bs' assume front: "pk_front p = f # fs" "bs = b # bs'"
    then have heads: "ordered l c (key f # map key fs) (key (snd b) # map (key \<circ> snd) bs')" using ord by simp
    show ?thesis using assms(2) Closed front none ordered_heads [OF heads]
      unfolding picker_pull_def Let_def bs_def [symmetric] by (cases b) (auto simp: holds_between_def comp_def split: if_splits)
  qed (use assms(2) Closed none ord in \<open>auto simp: picker_pull_def Let_def holds_between_def ordered_simps bs_def [symmetric] split: if_splits\<close>)
qed

lemma push_between:
  assumes p: "holds_between key l c p" and c: "l < c" "c < c'" and z: "key z = c" and push: "picker_push A z p = (r, p')"
  shows "case r of None \<Rightarrow> holds_between key l c' p' | Some y \<Rightarrow> y = z \<and> holds_between key c c' p'"
proof -
  let ?F = "map key (pk_front p)" and ?B = "map (key \<circ> snd) (pk_back p)"
  have ord: "ordered l c ?F ?B" and none: "pk_back_idxs p = {} \<longrightarrow> pk_front p = [] \<and> pk_back p = []" using p by (simp_all add: holds_between_def)
  have tl: "ordered l c ?F (map (key \<circ> snd) (tl (pk_back p)))"
    using ord ordered_suffix [of l c ?F "take 1 ?B" "drop 1 ?B"] by (cases "pk_back p") (auto simp: drop_Suc)
  have weak: "ordered l c' ?F ?B" using ordered_weaken [OF ord] c by simp
  show ?thesis
    using push z none weak ordered_snoc [OF ord c] ordered_snoc(2) [OF tl c]
    by (cases "pk_state p")
      (auto simp: picker_push_def Let_def holds_between_def back_push_def ordered_simps comp_def split: if_splits)
qed

section \<open>The iterator\<close>

text \<open>The only law of the library that the order needs.\<close>

definition steps_up :: "('z, 's, 'e, 'c) jiff \<Rightarrow> bool" where
  "steps_up J = (\<forall>z y. checked_add J (span_seconds J 1) z = Inr y \<longrightarrow> instant J z < instant J y)"

definition seeks_after :: "('z, 's, 'e, 'c) jiff \<Rightarrow> int \<Rightarrow> ('z, 'e) recur_iterator \<Rightarrow> bool" where
  "seeks_after J l it = (l < instant J (it_curr it)
     \<and> (case it_picker it of None \<Rightarrow> True | Some p \<Rightarrow> holds_between (instant J) l (instant J (it_curr it)) p))"

definition same_limits :: "('z, 'e) recur_iterator \<Rightarrow> ('z, 'e) recur_iterator \<Rightarrow> bool" where
  "same_limits it it' = (it_start it' = it_start it \<and> it_until it' = it_until it \<and> it_count it' = it_count it
     \<and> it_emitted it' = it_emitted it \<and> it_since it' = it_since it)"

definition next_after :: "('z, 's, 'e, 'c) jiff \<Rightarrow> int \<Rightarrow> ('z, 'e) recur_iterator \<Rightarrow> 'z option \<times> ('z, 'e) recur_iterator \<Rightarrow> bool" where
  "next_after J l it r = (case r of (out, it') \<Rightarrow> same_limits it it'
     \<and> (case out of None \<Rightarrow> True | Some z \<Rightarrow> l < instant J z \<and> it_next it' = None \<and> seeks_after J (instant J z) it'))"

definition goes_on :: "('z, 's, 'e, 'c) jiff \<Rightarrow> int \<Rightarrow> ('z, 'e) recur_iterator \<Rightarrow> ('z, 'e) recur_iterator \<Rightarrow> bool" where
  "goes_on J l it it' = (seeks_after J l it' \<and> same_limits it it' \<and> it_next it' = None)"

lemma seeks_after_update [simp]:
  "seeks_after J l (it\<lparr>it_next := x\<rparr>) = seeks_after J l it" "seeks_after J l (it\<lparr>it_emitted := n\<rparr>) = seeks_after J l it"
  by (simp_all add: seeks_after_def split: option.splits)

lemma same_limits_trans: "same_limits a b \<Longrightarrow> same_limits b c \<Longrightarrow> same_limits a c"
  by (simp add: same_limits_def)

lemma period_after:
  assumes it: "seeks_after J l it" "it_next it = None"
  shows "case end_period J nxt it of Inl r \<Rightarrow> next_after J l it r | Inr it' \<Rightarrow> goes_on J l it it' \<and> it_curr it' = it_curr it"
proof (cases "it_picker it")
  case None
  then show ?thesis using it by (simp add: end_period_def goes_on_def same_limits_def)
next
  case (Some p)
  then have p: "holds_between (instant J) l (instant J (it_curr it)) (picker_close p)" using it by (simp add: seeks_after_def close_between)
  obtain out p' where pull: "picker_pull (instant J) (picker_close p) = (out, p')" by fastforce
  note pulled = pull_between [OF p pull]
  show ?thesis
    using it Some pull pulled
    by (cases out)
      (auto simp: end_period_def next_after_def goes_on_def same_limits_def seeks_after_def split: option.splits sum.splits)
qed

lemma round_after:
  assumes up: "steps_up J" and it: "seeks_after J l it" "it_next it = None"
  shows "case next_round J A it of Inl r \<Rightarrow> next_after J l it r | Inr it' \<Rightarrow> goes_on J l it it'"
proof (cases "it_fact it (it_curr it)")
  case (Inl e)
  then show ?thesis by (simp add: next_round_def next_after_def same_limits_def)
next
  case (Inr nxt)
  note period = period_after [OF it, of nxt]
  show ?thesis
  proof (cases "end_period J nxt it")
    case inl: (Inl r)
    then show ?thesis using Inr period by (simp add: next_round_def)
  next
    case inr: (Inr it1)
    then have it1: "goes_on J l it it1" "it_curr it1 = it_curr it" using period by simp_all
    let ?c = "instant J (it_curr it1)"
    have l: "l < ?c" using it1(1) by (simp add: goes_on_def seeks_after_def)
    have round: "next_round J A it =
      (if instant J nxt < ?c then Inl (None, it1)
       else if instant J nxt = ?c
       then (case checked_add J (span_seconds J 1) (it_curr it1) of
               Inl _ \<Rightarrow> Inl (None, it1)
             | Inr cur \<Rightarrow>
                 (let it = it1\<lparr>it_curr := cur\<rparr>
                  in case it_picker it of
                       None \<Rightarrow> Inl (Some nxt, it)
                     | Some p \<Rightarrow>
                         (case picker_push A nxt p of
                            (Some z, p) \<Rightarrow> Inl (Some z, it\<lparr>it_picker := Some p\<rparr>)
                          | (None, p) \<Rightarrow> Inr (it\<lparr>it_picker := Some p\<rparr>))))
       else Inr (it1\<lparr>it_curr := nxt\<rparr>))"
      using Inr inr by (simp add: next_round_def)
    consider "instant J nxt < ?c" | "?c < instant J nxt" | "instant J nxt = ?c" by linarith
    then show ?thesis
    proof cases
      case 1
      then show ?thesis using it1 round by (simp add: next_after_def goes_on_def)
    next
      case 2
      then show ?thesis using it1(1) round
        by (auto simp: goes_on_def seeks_after_def same_limits_def split: option.splits intro: holds_between_weaken)
    next
      case 3
      show ?thesis
      proof (cases "checked_add J (span_seconds J 1) (it_curr it1)")
        case (Inl e)
        then show ?thesis using 3 it1 round by (simp add: next_after_def goes_on_def)
      next
        case (Inr cur)
        then have cur: "?c < instant J cur" using up by (simp add: steps_up_def)
        show ?thesis
        proof (cases "it_picker it1")
          case None
          then show ?thesis using 3 it1(1) round Inr cur l by (auto simp: next_after_def goes_on_def seeks_after_def same_limits_def)
        next
          case (Some p)
          have p: "holds_between (instant J) l ?c p" using it1(1) Some by (simp add: goes_on_def seeks_after_def)
          obtain out p' where push: "picker_push A nxt p = (out, p')" by fastforce
          note pushed = push_between [OF p l cur 3 push]
          show ?thesis using 3 it1(1) round Inr cur l Some push pushed
            by (cases out) (auto simp: next_after_def goes_on_def seeks_after_def same_limits_def)
        qed
      qed
    qed
  qed
qed

lemma loop_after:
  assumes "steps_up J" and "seeks_after J l it" "it_next it = None" and "next_loop J A it = Some r"
  shows "next_after J l it r"
proof -
  have "steps_up J \<longrightarrow> seeks_after J l it \<longrightarrow> it_next it = None \<longrightarrow> next_after J l it r"
  proof (rule next_loop.raw_induct [OF _ assms(4)], intro impI)
    fix loop J A it r
    assume IH: "\<And>J A it r. loop J A it = Some r \<Longrightarrow> steps_up J \<longrightarrow> seeks_after J l it \<longrightarrow> it_next it = None \<longrightarrow> next_after J l it r"
      and run: "(case next_round J A it of Inl r \<Rightarrow> Some r | Inr it \<Rightarrow> loop J A it) = Some r"
      and up: "steps_up J" and it: "seeks_after J l it" "it_next it = None"
    note one = round_after [OF up it, of A]
    show "next_after J l it r"
    proof (cases "next_round J A it")
      case (Inl r')
      then show ?thesis using one run by simp
    next
      case (Inr it')
      then have on: "goes_on J l it it'" and "loop J A it' = Some r" using one run by simp_all
      then have "next_after J l it' r" using IH up by (simp add: goes_on_def)
      then show ?thesis using on by (auto simp: next_after_def goes_on_def intro: same_limits_trans split: option.splits prod.splits)
    qed
  qed
  then show ?thesis using assms(1-3) by simp
qed

section \<open>The dates\<close>

text \<open>An iterator whose dates are all later than \<open>l\<close>; it may hold one back that comes after \<open>DTSTART\<close>.\<close>

definition ready :: "('z, 's, 'e, 'c) jiff \<Rightarrow> int \<Rightarrow> ('z, 'e) recur_iterator \<Rightarrow> bool" where
  "ready J l it = (case it_next it of None \<Rightarrow> seeks_after J l it | Some z \<Rightarrow> l < instant J z \<and> seeks_after J (instant J z) it)"

lemma inner_after:
  assumes up: "steps_up J" and it: "ready J l it" and run: "next_inner J A it = Some r"
  shows "next_after J l it r"
proof (cases "it_next it")
  case (Some z)
  then show ?thesis using it run by (auto simp: next_inner_def ready_def next_after_def same_limits_def)
next
  case None
  then have seeks: "seeks_after J l it" using it by (simp add: ready_def)
  show ?thesis
  proof (cases "it_picker it")
    case no_picker: None
    then have "next_loop J A it = Some r" using run None by (simp add: next_inner_def)
    then show ?thesis by (rule loop_after [OF up seeks None])
  next
    case (Some p)
    then have p: "holds_between (instant J) l (instant J (it_curr it)) p" using seeks by (simp add: seeks_after_def)
    obtain out p' where pull: "picker_pull (instant J) p = (out, p')" by fastforce
    note pulled = pull_between [OF p pull]
    show ?thesis
    proof (cases out)
      case no_date: None
      let ?it = "it\<lparr>it_picker := Some p'\<rparr>"
      have "next_loop J A ?it = Some r" using run None Some pull no_date by (simp add: next_inner_def)
      moreover have "seeks_after J l ?it" using pulled no_date seeks by (simp add: seeks_after_def)
      ultimately have "next_after J l ?it r" using loop_after [OF up] None by simp
      then show ?thesis by (auto simp: next_after_def same_limits_def split: prod.splits)
    next
      case (Some z)
      then show ?thesis using run None \<open>it_picker it = Some p\<close> pull pulled
        by (auto simp: next_inner_def next_after_def same_limits_def seeks_after_def)
    qed
  qed
qed

lemma skip_after:
  assumes "steps_up J" and "ready J l it" and "next_skip J A it = Some r"
  shows "next_after J l it r \<and> (case r of (out, it') \<Rightarrow> case out of None \<Rightarrow> True | Some z \<Rightarrow> \<not> too_early J z it')"
proof -
  have "\<forall>l. steps_up J \<longrightarrow> ready J l it \<longrightarrow> next_after J l it r \<and> (case r of (out, it') \<Rightarrow> case out of None \<Rightarrow> True | Some z \<Rightarrow> \<not> too_early J z it')"
  proof (rule next_skip.raw_induct [OF _ assms(3)], intro allI impI)
    fix skip J A it r l
    assume IH: "\<And>J A it r. skip J A it = Some r \<Longrightarrow> \<forall>l. steps_up J \<longrightarrow> ready J l it \<longrightarrow>
        next_after J l it r \<and> (case r of (out, it') \<Rightarrow> case out of None \<Rightarrow> True | Some z \<Rightarrow> \<not> too_early J z it')"
      and run: "(case next_inner J A it of None \<Rightarrow> None | Some (None, it) \<Rightarrow> Some (None, it)
        | Some (Some z, it) \<Rightarrow> if too_early J z it then skip J A it else Some (Some z, it)) = Some r"
      and up: "steps_up J" and it: "ready J l it"
    obtain out it' where inner: "next_inner J A it = Some (out, it')" using run by (auto split: option.splits)
    note one = inner_after [OF up it inner]
    show "next_after J l it r \<and> (case r of (out, it') \<Rightarrow> case out of None \<Rightarrow> True | Some z \<Rightarrow> \<not> too_early J z it')"
    proof (cases "\<exists>z. out = Some z \<and> too_early J z it'")
      case False
      then show ?thesis using run inner one by (auto split: option.splits if_splits)
    next
      case True
      then obtain z where z: "out = Some z" "too_early J z it'" by blast
      have skip: "skip J A it' = Some r" using run inner z by simp
      have same: "same_limits it it'" and lz: "l < instant J z" and "ready J (instant J z) it'"
        using one z by (simp_all add: next_after_def ready_def)
      then have "next_after J (instant J z) it' r \<and> (case r of (out, it') \<Rightarrow> case out of None \<Rightarrow> True | Some z \<Rightarrow> \<not> too_early J z it')"
        using IH [OF skip] up by blast
      then show ?thesis using same lz same_limits_trans [OF same] by (auto simp: next_after_def split: option.splits prod.splits)
    qed
  qed
  then show ?thesis using assms(1,2) by blast
qed

text \<open>One call of \<open>next\<close>, after the first date.\<close>

lemma next_date_after:
  assumes up: "steps_up J" and it: "ready J l it" "0 < it_emitted it" "it_emitted it + 1 < 4294967296"
    and run: "iter_next J A it = Some (Some z, it')"
  shows "l < instant J z" and "within J (it_until it) (instant J z)" and "\<not> too_early J z it" and "ready J (instant J z) it'"
    and "same_limits (it\<lparr>it_emitted := it_emitted it + 1\<rparr>) it'"
    and "counts_left (it_count it) (it_emitted it) (Suc n) = Suc (counts_left (it_count it) (it_emitted it + 1) n)"
proof -
  obtain y it1 where skip: "next_skip J A it = Some (Some y, it1)" and emit: "emit_date J y it1 = (Some z, it')"
    and allowed: "\<not> (case it_count it of None \<Rightarrow> False | Some c \<Rightarrow> it_emitted it \<ge> c)"
    using run by (auto simp: iter_next_def split: if_splits option.splits prod.splits)
  note one = skip_after [OF up it(1) skip]
  have same: "same_limits it it1" "l < instant J y" "it_next it1 = None" "seeks_after J (instant J y) it1" "\<not> too_early J y it1"
    using one by (simp_all add: next_after_def)
  have u: "within J (it_until it1) (instant J y)" and z: "z = y" "it' = it1\<lparr>it_emitted := it_emitted it1 + 1\<rparr>"
    using emit same(1) it(2,3) by (auto simp: emit_date_def within_def same_limits_def Let_def not_le split: if_splits option.splits)
  show "l < instant J z" using same(2) z by simp
  show "within J (it_until it) (instant J z)" using u z same(1) by (simp add: same_limits_def)
  show "\<not> too_early J z it" using same(1,5) z by (simp add: too_early_def same_limits_def)
  show "ready J (instant J z) it'" using same(3,4) z by (simp add: ready_def)
  show "same_limits (it\<lparr>it_emitted := it_emitted it + 1\<rparr>) it'" using same(1) z by (simp add: same_limits_def)
  show "counts_left (it_count it) (it_emitted it) (Suc n) = Suc (counts_left (it_count it) (it_emitted it + 1) n)"
    using allowed by (auto simp: counts_left_def split: option.splits)
qed

lemma take_after:
  assumes up: "steps_up J" and "ready J l it" and "0 < it_emitted it" and "it_emitted it + n < 4294967296"
    and "iter_take J A n it = Some (zs, it')"
  shows "sorted_wrt (<) (l # map (instant J) zs) \<and> length zs \<le> counts_left (it_count it) (it_emitted it) n
    \<and> list_all (\<lambda>z. within J (it_until it) (instant J z) \<and> \<not> too_early J z it) zs"
  using assms(2-)
proof (induction n arbitrary: l it zs)
  case 0
  then show ?case by simp
next
  case (Suc n)
  obtain out it1 where run: "iter_next J A it = Some (out, it1)" using Suc.prems(4) by (auto split: option.splits)
  show ?case
  proof (cases out)
    case None
    then show ?thesis using run Suc.prems(4) by simp
  next
    case (Some z)
    have room: "it_emitted it + 1 < 4294967296" using Suc.prems(3) by simp
    note one = next_date_after [OF up Suc.prems(1,2) room run [unfolded Some]]
    obtain zs' where rest: "iter_take J A n it1 = Some (zs', it')" "zs = z # zs'" using run Some Suc.prems(4) by (auto split: option.splits)
    have limits: "it_emitted it1 = it_emitted it + 1" "it_count it1 = it_count it" "it_until it1 = it_until it"
      "it_start it1 = it_start it" "it_since it1 = it_since it" using one(5) by (simp_all add: same_limits_def)
    have "sorted_wrt (<) (instant J z # map (instant J) zs') \<and> length zs' \<le> counts_left (it_count it1) (it_emitted it1) n
      \<and> list_all (\<lambda>z. within J (it_until it1) (instant J z) \<and> \<not> too_early J z it1) zs'"
      using Suc.IH [OF one(4) _ _ rest(1)] limits Suc.prems(3) by simp
    then show ?thesis using rest(2) one(1-3) one(6) [of n] limits by (auto simp: too_early_def)
  qed
qed

section \<open>New iterators and \<open>since\<close>\<close>

text \<open>The first call on a new iterator gives \<open>DTSTART\<close>, or nothing.\<close>

lemma first_date:
  assumes up: "steps_up J" and it: "ready J l it" "it_next it = None" "it_emitted it = 0" and run: "iter_next J A it = Some (Some z, it')"
  shows "instant J z = instant J (it_start it)" and "within J (it_until it) (instant J z)" and "ready J (instant J z) it'"
    and "same_limits (it\<lparr>it_emitted := 1\<rparr>) it'"
    and "counts_left (it_count it) 0 (Suc n) = Suc (counts_left (it_count it) 1 n)"
proof -
  obtain y it1 where skip: "next_skip J A it = Some (Some y, it1)" and emit: "emit_date J y it1 = (Some z, it')"
    and allowed: "\<not> (case it_count it of None \<Rightarrow> False | Some c \<Rightarrow> it_emitted it \<ge> c)"
    using run by (auto simp: iter_next_def split: if_splits option.splits prod.splits)
  note one = skip_after [OF up it(1) skip]
  have same: "same_limits it it1" "it_next it1 = None" "seeks_after J (instant J y) it1" "\<not> too_early J y it1"
    using one by (simp_all add: next_after_def)
  have start: "instant J (it_start it) \<le> instant J y" using same(1,4) by (simp add: too_early_def same_limits_def)
  have u: "within J (it_until it) (instant J y)"
    using emit same(1) by (auto simp: emit_date_def within_def same_limits_def not_le split: if_splits option.splits)
  let ?s = "it_start it"
  have z: "(instant J y = instant J ?s \<and> z = y \<and> it' = it1\<lparr>it_emitted := 1\<rparr>)
      \<or> (instant J y \<noteq> instant J ?s \<and> z = ?s \<and> it' = it1\<lparr>it_emitted := 1, it_next := Some y\<rparr>)"
    using emit same(1) it(3) by (auto simp: emit_date_def same_limits_def Let_def split: if_splits)
  show zs: "instant J z = instant J ?s" using z by auto
  show "within J (it_until it) (instant J z)" using u start zs by (auto simp: within_def split: option.splits)
  show "ready J (instant J z) it'" using z same(2,3) start by (auto simp: ready_def)
  show "same_limits (it\<lparr>it_emitted := 1\<rparr>) it'" using z same(1) by (auto simp: same_limits_def)
  show "counts_left (it_count it) 0 (Suc n) = Suc (counts_left (it_count it) 1 n)"
    using allowed it(3) by (auto simp: counts_left_def split: option.splits)
qed

lemma new_iterator_ready:
  assumes "recur_iterator_new J A rc start = Some (Inr it)"
  shows "\<exists>l. ready J l it" and "it_next it = None" and "it_emitted it = 0" and "it_since it = None" and "it_count it = rc_count rc"
proof -
  obtain f cur rep p where it: "it_curr it = cur" "it_picker it = picker_new A (set_pos_idxs rc)" "it_next it = None" "it_emitted it = 0"
    "it_since it = None" "it_count it = rc_count rc"
    using assms unfolding recur_iterator_new_def attempt_panic_def Let_def
    by (auto split: if_splits option.splits sum.splits)
  then show "it_next it = None" "it_emitted it = 0" "it_since it = None" "it_count it = rc_count rc" by simp_all
  have "seeks_after J (instant J (it_curr it) - 1) it" using it holds_between_new [of A "set_pos_idxs rc"] by (auto simp: seeks_after_def split: option.splits)
  then show "\<exists>l. ready J l it" using it by (auto simp: ready_def)
qed

lemma new_iterator_repeats:
  assumes "recur_iterator_new J A rc start = Some (Inr it)"
  shows "it_picker it = None \<or> it_repeat it \<noteq> None"
proof -
  have "it_picker it = picker_new A (set_pos_idxs rc) \<and> (rc_by_set_pos rc = [] \<or> it_repeat it \<noteq> None)"
    using assms unfolding recur_iterator_new_def attempt_panic_def Let_def
    by (auto split: if_splits option.splits sum.splits)
  moreover have "picker_new A (set_pos_idxs rc) = None" if "rc_by_set_pos rc = []"
    using that by (simp add: set_pos_idxs_def picker_new_def back_capacity_def map_filter_simps)
  ultimately show ?thesis by auto
qed

lemma since_ready:
  assumes "it_picker it = None \<or> it_repeat it \<noteq> None"
  shows "\<exists>l. ready J l (set_since J at it) \<and> (it_since (set_since J at it) = Some at \<or> instant J at = l + 1)"
proof -
  let ?it = "set_since J at it" and ?l = "instant J (it_curr (set_since J at it)) - 1"
  have "seeks_after J ?l ?it" "it_next ?it = None" "it_since ?it = Some at \<or> instant J at = ?l + 1"
    using assms by (auto simp: set_since_def seeks_after_def Let_def picker_reset_def holds_between_def ordered_simps split: option.splits)
  then show ?thesis by (intro exI [of _ ?l]) (simp add: ready_def)
qed

lemma since_limits:
  "it_emitted (set_since J at it) = 1" "it_start (set_since J at it) = it_start it" "it_until (set_since J at it) = it_until it"
  by (auto simp: set_since_def Let_def split: option.splits)

lemma limited_left: "limited count n = counts_left count 0 n"
  by (cases count) (simp_all add: limited_def counts_left_def)

lemma new_dates:
  assumes up: "steps_up J" and new: "recur_iterator_new J A rc start = Some (Inr it)" and n: "n < 4294967296"
    and run: "iter_take J A n it = Some (zs, it')"
  shows "sorted_wrt (<) (map (instant J) zs) \<and> length zs \<le> limited (rc_count rc) n
    \<and> list_all (\<lambda>z. within J (it_until it) (instant J z)) zs \<and> (zs = [] \<or> instant J (hd zs) = instant J (it_start it))"
proof (cases n)
  case 0
  then show ?thesis using run by simp
next
  case (Suc k)
  note new = new_iterator_ready [OF new]
  obtain l where l: "ready J l it" using new(1) by blast
  obtain out it1 where one: "iter_next J A it = Some (out, it1)" using run Suc by (auto split: option.splits)
  show ?thesis
  proof (cases out)
    case None
    then show ?thesis using one run Suc by simp
  next
    case (Some z)
    note first = first_date [OF up l new(2,3) one [unfolded Some]]
    obtain zs' where rest: "iter_take J A k it1 = Some (zs', it')" "zs = z # zs'" using one Some run Suc by (auto split: option.splits)
    have limits: "it_emitted it1 = 1" "it_count it1 = it_count it" "it_until it1 = it_until it" using first(4) by (simp_all add: same_limits_def)
    have "sorted_wrt (<) (instant J z # map (instant J) zs') \<and> length zs' \<le> counts_left (it_count it) 1 k
      \<and> list_all (\<lambda>z. within J (it_until it) (instant J z) \<and> \<not> too_early J z it1) zs'"
      using take_after [OF up first(3) _ _ rest(1)] limits n Suc by simp
    moreover have "limited (rc_count rc) n = Suc (counts_left (it_count it) 1 k)"
      using first(5) [of k] Suc new(5) by (simp add: limited_left)
    ultimately show ?thesis using rest(2) first(1,2) by (auto simp: list_all_iff)
  qed
qed

lemma since_dates:
  assumes up: "steps_up J" and new: "recur_iterator_new J A rc start = Some (Inr it)" and n: "n + 1 < 4294967296"
    and run: "iter_take J A n (set_since J at it) = Some (zs, it')"
  shows "sorted_wrt (<) (map (instant J) zs) \<and> list_all (\<lambda>z. within J (it_until it) (instant J z) \<and> instant J at \<le> instant J z
    \<and> instant J (it_start it) \<le> instant J z) zs"
proof -
  let ?it = "set_since J at it"
  obtain l where l: "ready J l ?it" "it_since ?it = Some at \<or> instant J at = l + 1" using since_ready [OF new_iterator_repeats [OF new]] by blast
  have dates: "sorted_wrt (<) (l # map (instant J) zs)" "list_all (\<lambda>z. within J (it_until ?it) (instant J z) \<and> \<not> too_early J z ?it) zs"
    using take_after [OF up l(1) _ _ run] n by (simp_all add: since_limits)
  have "instant J at \<le> instant J z" "instant J (it_start it) \<le> instant J z" if "z \<in> set zs" for z
    using l(2) dates that by (auto simp: list_all_iff too_early_def since_limits)
  then show ?thesis using dates by (auto simp: list_all_iff since_limits)
qed

end
