(* ===== verification/Recur_Props.thy ===== *)
theory Recur_Props
  imports Recur_Rules Recur_Order
begin

text \<open>
  The properties of recurrence rules: what \<open>BYSETPOS\<close> picks, which dates the iterator of a rule gives, in
  which order and within which bounds, and where the code stops or panics.  The examples run on the
  record \<open>utc_jiff\<close>.
\<close>

section \<open>Examples\<close>

text \<open>\<open>FREQ=DAILY\<close> from 1 January 1970, and \<open>FREQ=WEEKLY;BYDAY=MO\<close> until the day after this Thursday.\<close>

abbreviation daily :: recur where
  "daily \<equiv> recur_new Daily"

abbreviation epoch :: "any_form date_or_dt" where
  "epoch \<equiv> DDate (date_new_unchecked 1970 1 1)"

abbreviation mondays :: recur where
  "mondays \<equiv> recur_new Weekly\<lparr>rc_by_day := [Every Monday], rc_until := Some (DDate (date_new_unchecked 1970 1 2))\<rparr>"

lemma recur_new_fields [simp]:
  "rc_freq (recur_new f) = f" "rc_until (recur_new f) = None" "rc_count (recur_new f) = None" "rc_interval (recur_new f) = None"
  "rc_by_second (recur_new f) = []" "rc_by_minute (recur_new f) = []" "rc_by_hour (recur_new f) = []" "rc_by_day (recur_new f) = []"
  "rc_by_month_day (recur_new f) = []" "rc_by_year_day (recur_new f) = []" "rc_by_week_no (recur_new f) = []"
  "rc_by_month (recur_new f) = []" "rc_by_set_pos (recur_new f) = []"
  by (simp_all add: recur_new_def)

lemma daily_plain: "plain_rule daily"
  by (simp add: plain_rule_def dated_def interval_fits_def rule_interval_def)

lemma epoch_instant: "zoned_of_dod utc_jiff (zoned_of_dt utc_jiff) epoch = Some (Inr 0)"
  by code_simp

lemma epoch_until: "zoned_of_dod utc_jiff (zoned_of_ul utc_jiff) (DDate (date_new_unchecked 1970 1 2)) = Some (Inr 86400)"
  by code_simp

lemma daily_matches: "rule_matches daily 0 t \<longleftrightarrow> t mod 86400 = 0"
proof
  assume "rule_matches daily 0 t"
  then have "u_second t = 0" "u_minute t = 0" "u_hour t = 0"
    by (simp_all add: rule_matches_def start_matches_def u_second_def u_minute_def u_hour_def)
  then show "t mod 86400 = 0" using day_time_fields(1) [of t] by (simp add: day_time_def)
next
  assume "t mod 86400 = 0"
  then obtain k where "t = 86400 * k" by (auto simp: mod_eq_0_iff_dvd)
  then have "u_second t = 0" "u_minute t = 0" "u_hour t = 0" by (simp_all add: u_second_def u_minute_def u_hour_def)
  then show "rule_matches daily 0 t"
    by (simp add: rule_matches_def start_matches_def filters_match_def allows_def every_nth_def rule_interval_def
        u_second_def u_minute_def u_hour_def)
qed

lemma daily_upto:
  assumes "a \<le> 86400" "0 < a"
  shows "filter (rule_matches daily 0) [a..86400] = [86400]"
proof -
  have "filter (rule_matches daily 0) [a..86400] = 86400 # filter (rule_matches daily 0) [86400 + 1..86400]"
    using assms by (intro first_match_upto) (simp_all add: daily_matches)
  then show ?thesis by simp
qed

lemma daily_dates: "rule_dates (rule_matches daily 0) 0 86400 = [0, 86400]"
  unfolding rule_dates_def by (subst daily_upto) simp_all

lemma daily_iterator:
  obtains it where "recur_iterator_new utc_jiff exact_alloc daily epoch = Some (Inr it)" "it_start it = 0" "it_until it = None"
proof -
  have room: "{0 - 70000000..0 + 70000000} \<subseteq> utc_range" by (auto simp: utc_range_def)
  obtain it where it: "recur_iterator_new utc_jiff exact_alloc daily epoch = Some (Inr it)" "it_start it = 0"
    using rule_iterator_exists [OF utc_jiff_laws room daily_plain _ epoch_instant, of None] by auto
  then show ?thesis using that new_iterator(8) [OF it(1)] by simp
qed

section \<open>Picking by position\<close>

text \<open>The periods of an iterator, one after the other, with the same picker.\<close>

fun pick_periods :: "deque_alloc \<Rightarrow> ('a \<Rightarrow> int) \<Rightarrow> 'a list list \<Rightarrow> 'a picker \<Rightarrow> 'a list list option" where
  "pick_periods A key [] p = Some []"
| "pick_periods A key (xs # xss) p = (case pick_period A key xs p of
     None \<Rightarrow> None
   | Some (ys, p) \<Rightarrow> map_option ((#) ys) (pick_periods A key xss p))"

lemma pick_periods_pick:
  assumes "alloc_ok A" and "has_seen idxs [] p"
    and "list_all (\<lambda>xs. length xs < 32768 \<and> sorted_wrt (\<lambda>x y. key x < key y) xs) xss"
  shows "pick_periods A key xss p = Some (map (pick idxs) xss)"
  using assms(2,3)
proof (induction xss arbitrary: p)
  case (Cons xs xss)
  then obtain p' where "pick_period A key xs p = Some (pick idxs xs, p')" "has_seen idxs [] p'"
    using pick_period_picks [OF assms(1) Cons.prems(1), of xs key] by auto
  then show ?case using Cons by simp
qed simp

text \<open>C28.
  \<open>BYSETPOS\<close>: a picker made for a list of positions gives, of every period, exactly the items whose
  number from the front or from the back is in the list, in order; it sees the
  items once and holds back no more than the largest negative position needs.  It holds for every period, so
  that nothing of a period is left over in the next one.
\<close>

theorem picker_picks_positions:
  assumes "alloc_ok A" and "picker_new A idxs = Some p"
    and "list_all (\<lambda>xs. length xs < 32768 \<and> sorted_wrt (\<lambda>x y. key x < key y) xs) xss"
  shows "pick_periods A key xss p = Some (map (pick idxs) xss)"
  using pick_periods_pick [OF assms(1) new_picker_ready [OF assms(1,2)] assms(3)] .

theorem picker_picks_positions_witness:
  "map_option (pick_periods exact_alloc (\<lambda>x. x) [[100, 200, 300, 400, 500], [10, 20]]) (picker_new exact_alloc [2, -3])
     = Some (Some [[200, 300], [20]])"
proof -
  have new: "picker_new exact_alloc [2, -3] = Some \<lparr>pk_front = [], pk_front_idxs = {2}, pk_back = [], pk_back_cap = 3,
      pk_back_idxs = {-3}, pk_state = Opened 0\<rparr>"
    by (simp add: picker_new_def back_capacity_def exact_alloc_def)
  show ?thesis
    using picker_picks_positions [OF exact_alloc_ok new, of "\<lambda>x. x" "[[100, 200, 300, 400, 500], [10, 20]]"]
    unfolding new by (simp add: pick_def numbered_def enumerate_eq_zip)
qed

text \<open>
  A copy of a picker keeps what the picker holds but not the room it had: its deque is full at once, and
  the next items push out the ones that are still needed.
\<close>

lemma cloned_picker_loses_item:
  "map_option (\<lambda>p. fst (push_all exact_alloc [1..6] p)) (picker_new exact_alloc [-5]) = Some []"
  "map_option (\<lambda>p. map_option fst (pick_period exact_alloc (\<lambda>x. x) [1..6] p)) (picker_new exact_alloc [-5]) = Some (Some [2])"
  "map_option (\<lambda>p. map_option fst (pick_period exact_alloc (\<lambda>x. x) [2..6]
      (picker_clone exact_alloc (snd (push_all exact_alloc [1] p))))) (picker_new exact_alloc [-5]) = Some (Some [])"
  by code_simp+

section \<open>The dates of a rule\<close>

lemma first_match_exists:
  assumes "s \<le> m" "m \<le> hi" "M m"
  shows "\<exists>k ks. filter M [s..hi] = k # ks \<and> k \<le> m"
proof -
  have "m \<in> set (filter M [s..hi])" using assms by simp
  then obtain k ks where ks: "filter M [s..hi] = k # ks" by (cases "filter M [s..hi]") auto
  have "k \<le> m" using next_match_upto(4) [OF ks, of m] assms by force
  then show ?thesis using ks by blast
qed

text \<open>C24.
  The iterator of a rule with days, weeks, months or years as frequency, with any interval and any of
  \<open>BYHOUR\<close>, \<open>BYDAY\<close> without numbers, \<open>BYMONTHDAY\<close>, \<open>BYYEARDAY\<close> and \<open>BYMONTH\<close>, gives \<open>DTSTART\<close> and
  then every later instant that the rule matches, in order and with none left out, up to the limits \<open>COUNT\<close> and \<open>UNTIL\<close>:
  the first \<open>n\<close> dates are the first \<open>n\<close> of the reference list, which filters all seconds up to \<open>hi\<close>.
  In particular the loops of the iterator end.  It rests on the documented behaviour of the date library in a time zone
  without transitions, on a range that reaches a little further than the dates, and on a match that \<open>UNTIL\<close> allows.
\<close>

theorem rule_iterator_enumerates:
  assumes "utc_laws J R" and "{s - 70000000..hi + 70000000} \<subseteq> R" and "plain_rule rc"
    and "recur_iterator_new J A rc d = Some (Inr it)" and "instant J (it_start it) = s"
    and "s \<le> m" and "m \<le> hi" and "rule_matches rc s m" and "within J (it_until it) m"
    and "n \<le> length (rule_dates (rule_matches rc s) s hi)" and "n < 4294967296"
  shows "\<exists>zs it'. iter_take J A n it = Some (zs, it') \<and>
    map (instant J) zs = takeWhile (within J (it_until it)) (take (limited (rc_count rc) n) (rule_dates (rule_matches rc s) s hi))"
proof -
  obtain k ks where k: "filter (rule_matches rc s) [s..hi] = k # ks" "k \<le> m"
    using first_match_exists [of s m hi "rule_matches rc s"] assms(6-8) by blast
  then have "within J (it_until it) k" using assms(9) by (auto simp: within_def split: option.splits)
  then show ?thesis by (rule rule_dates_found [OF assms(1-5) k(1) _ assms(10,11)])
qed

theorem rule_iterator_enumerates_witness:
  "\<exists>it it'. recur_iterator_new utc_jiff exact_alloc daily epoch = Some (Inr it)
     \<and> iter_take utc_jiff exact_alloc 2 it = Some ([0, 86400], it')"
proof -
  have room: "{0 - 70000000..86400 + 70000000} \<subseteq> utc_range" by (auto simp: utc_range_def)
  obtain it where it: "recur_iterator_new utc_jiff exact_alloc daily epoch = Some (Inr it)" "it_start it = 0"
    and until: "it_until it = None" by (rule daily_iterator)
  have "\<exists>zs it'. iter_take utc_jiff exact_alloc 2 it = Some (zs, it') \<and> map (instant utc_jiff) zs =
      takeWhile (within utc_jiff (it_until it)) (take (limited (rc_count daily) 2) (rule_dates (rule_matches daily 0) 0 86400))"
    by (rule rule_iterator_enumerates [OF utc_jiff_laws room daily_plain it(1), where m = 0])
      (simp_all add: it(2) daily_matches daily_dates until within_def)
  then show ?thesis using it(1) by (auto simp: daily_dates limited_def until within_def)
qed

text \<open>C25.
  No match is lost: for every instant that a rule without \<open>UNTIL\<close> and \<open>COUNT\<close> matches, less than \<open>2 ^ 32 - 1\<close> seconds
  after \<open>DTSTART\<close>, the iterator can be built and after finitely many calls it has given this instant.
\<close>

theorem rule_match_is_reached:
  assumes "utc_laws J R" and "{s - 70000000..t + 70000000} \<subseteq> R" and "plain_rule rc" and "rc_until rc = None" and "rc_count rc = None"
    and "zoned_of_dod J (zoned_of_dt J) d = Some (Inr z)" and "instant J z = s"
    and "s \<le> t" and "t - s < 4294967295" and "rule_matches rc s t"
  shows "\<exists>it n zs it'. recur_iterator_new J A rc d = Some (Inr it) \<and> iter_take J A n it = Some (zs, it') \<and> t \<in> instant J ` set zs"
proof -
  have room: "{s - 70000000..s + 70000000} \<subseteq> R" using assms(2,8) by (auto simp: subset_iff)
  obtain it where it: "recur_iterator_new J A rc d = Some (Inr it)" "it_start it = z"
    using rule_iterator_exists [OF assms(1) room assms(3) _ assms(6,7), of None] assms(4) by auto
  have until: "it_until it = None" using new_iterator(8) [OF it(1)] assms(3,4) by (simp add: plain_rule_def)
  let ?dates = "rule_dates (rule_matches rc s) s t"
  have "length ?dates \<le> Suc (length [s + 1..t])"
    using length_filter_le [of "rule_matches rc s" "[s + 1..t]"] by (simp add: rule_dates_def)
  then have few: "length ?dates < 4294967296" using assms(8,9) by simp
  obtain k ks where k: "filter (rule_matches rc s) [s..t] = k # ks" "k \<le> t"
    using first_match_exists [of s t t "rule_matches rc s"] assms(8,10) by blast
  have "\<exists>zs it'. iter_take J A (length ?dates) it = Some (zs, it') \<and> map (instant J) zs =
      takeWhile (within J (it_until it)) (take (limited (rc_count rc) (length ?dates)) ?dates)"
    by (rule rule_dates_found [OF assms(1,2,3) it(1) _ k(1)]) (simp_all add: it(2) assms(7) until within_def few)
  then obtain zs it' where zs: "iter_take J A (length ?dates) it = Some (zs, it')" "map (instant J) zs = ?dates"
    by (auto simp: until within_def limited_def assms(5) takeWhile_eq_all_conv)
  have "t \<in> set ?dates" using assms(8,10) by (auto simp: rule_dates_def)
  then have "t \<in> instant J ` set zs" using zs(2) by (metis list.set_map)
  then show ?thesis using it(1) zs(1) by blast
qed

theorem rule_match_is_reached_witness:
  "\<exists>it n zs it'. recur_iterator_new utc_jiff exact_alloc daily epoch = Some (Inr it)
     \<and> iter_take utc_jiff exact_alloc n it = Some (zs, it') \<and> 864000 \<in> instant utc_jiff ` set zs"
proof -
  have room: "{0 - 70000000..864000 + 70000000} \<subseteq> utc_range" by (auto simp: utc_range_def)
  show ?thesis by (rule rule_match_is_reached [OF utc_jiff_laws room daily_plain _ _ epoch_instant]) (simp_all add: daily_matches)
qed

section \<open>Order and limits\<close>

lemma utc_steps_up: "steps_up utc_jiff"
  by (auto simp: steps_up_def u_plus_def ranged_def split: if_splits)

text \<open>Two days of the daily rule, from its start and from the second day on.\<close>

lemma daily_run:
  assumes "recur_iterator_new utc_jiff exact_alloc daily epoch = Some (Inr it)" "it_start it = 0" "it_until it = None"
  shows "\<exists>it'. iter_take utc_jiff exact_alloc 2 it = Some ([0, 86400], it')"
    and "\<exists>it'. iter_take utc_jiff exact_alloc 1 (set_since utc_jiff 100 it) = Some ([86400], it')"
proof -
  have room: "{0 - 70000000..86400 + 70000000} \<subseteq> utc_range" by (auto simp: utc_range_def)
  have s: "instant utc_jiff (it_start it) = 0" using assms(2) by simp
  have all: "filter (rule_matches daily 0) [0..86400] = 0 # filter (rule_matches daily 0) [0 + 1..86400]"
    by (rule first_match_upto) (simp_all add: daily_matches)
  have later: "filter (rule_matches daily 0) [instant utc_jiff 100..86400] = [86400]" unfolding utc_jiff_simps by (rule daily_upto) simp_all
  show "\<exists>it'. iter_take utc_jiff exact_alloc 2 it = Some ([0, 86400], it')"
    using rule_dates_found [OF utc_jiff_laws room daily_plain assms(1) s all, of 2] by (auto simp: assms(3) within_def daily_dates limited_def)
  show "\<exists>it'. iter_take utc_jiff exact_alloc 1 (set_since utc_jiff 100 it) = Some ([86400], it')"
    using since_dates_found [OF utc_jiff_laws room daily_plain assms(1) s, of 100 1, unfolded later] by (auto simp: assms(3) within_def)
qed

text \<open>C27.
  Every rule, with \<open>BYSETPOS\<close> and all other parts, in every time zone: the dates an iterator gives are in strictly
  increasing order, so none comes twice, there are no more than \<open>COUNT\<close>, none is after \<open>UNTIL\<close>, and the first is
  \<open>DTSTART\<close>.  All that is asked of the date library is that adding a second gives a later instant.
\<close>

theorem rule_dates_in_order:
  assumes "steps_up J" and "recur_iterator_new J A rc d = Some (Inr it)" and "n < 4294967296" and "iter_take J A n it = Some (zs, it')"
  shows "sorted_wrt (<) (map (instant J) zs) \<and> length zs \<le> limited (rc_count rc) n
    \<and> list_all (\<lambda>z. within J (it_until it) (instant J z)) zs \<and> (zs = [] \<or> instant J (hd zs) = instant J (it_start it))"
  by (rule new_dates [OF assms])

theorem rule_dates_in_order_witness:
  "\<exists>it zs it'. recur_iterator_new utc_jiff exact_alloc daily epoch = Some (Inr it) \<and> iter_take utc_jiff exact_alloc 2 it = Some (zs, it')
     \<and> length zs = 2 \<and> sorted_wrt (<) (map (instant utc_jiff) zs) \<and> instant utc_jiff (hd zs) = 0"
proof -
  obtain it where it: "recur_iterator_new utc_jiff exact_alloc daily epoch = Some (Inr it)" "it_start it = 0" "it_until it = None"
    by (rule daily_iterator)
  obtain it' where run: "iter_take utc_jiff exact_alloc 2 it = Some ([0, 86400], it')" using daily_run(1) [OF it] by blast
  show ?thesis using rule_dates_in_order [OF utc_steps_up it(1) _ run] it run by auto
qed

text \<open>What the documentation of \<open>set_since\<close> promises: after it, every date that the iterator gives is at or after the given instant,
  and still at or after \<open>DTSTART\<close>, not after \<open>UNTIL\<close>, and in strictly increasing order.
\<close>

theorem since_dates_not_before:
  assumes "steps_up J" and "recur_iterator_new J A rc d = Some (Inr it)" and "n + 1 < 4294967296"
    and "iter_take J A n (set_since J at it) = Some (zs, it')"
  shows "sorted_wrt (<) (map (instant J) zs) \<and> list_all (\<lambda>z. within J (it_until it) (instant J z) \<and> instant J at \<le> instant J z
    \<and> instant J (it_start it) \<le> instant J z) zs"
  by (rule since_dates [OF assms])

theorem since_dates_not_before_witness:
  "\<exists>it zs it'. recur_iterator_new utc_jiff exact_alloc daily epoch = Some (Inr it)
     \<and> iter_take utc_jiff exact_alloc 1 (set_since utc_jiff 100 it) = Some (zs, it') \<and> zs \<noteq> [] \<and> list_all (\<lambda>z. 100 \<le> instant utc_jiff z) zs"
proof -
  obtain it where it: "recur_iterator_new utc_jiff exact_alloc daily epoch = Some (Inr it)" "it_start it = 0" "it_until it = None"
    by (rule daily_iterator)
  obtain it' where run: "iter_take utc_jiff exact_alloc 1 (set_since utc_jiff 100 it) = Some ([86400], it')" using daily_run(2) [OF it] by blast
  show ?thesis using since_dates_not_before [OF utc_steps_up it(1) _ run] it run by auto
qed

text \<open>C26.
  Jumping ahead skips no date: for the rules of the enumeration theorem, after \<open>set_since\<close> to an instant not before \<open>DTSTART\<close> the
  iterator gives exactly the matches from this instant on, in order, up to \<open>UNTIL\<close>; \<open>COUNT\<close> no longer counts.
\<close>

theorem since_enumerates:
  assumes "utc_laws J R" and "{s - 70000000..hi + 70000000} \<subseteq> R" and "plain_rule rc"
    and "recur_iterator_new J A rc d = Some (Inr it)" and "instant J (it_start it) = s" and "s \<le> instant J at"
    and "n \<le> length (filter (rule_matches rc s) [instant J at..hi])" and "n + 1 < 4294967296"
  shows "\<exists>zs it'. iter_take J A n (set_since J at it) = Some (zs, it') \<and>
    map (instant J) zs = takeWhile (within J (it_until it)) (take n (filter (rule_matches rc s) [instant J at..hi]))"
  by (rule since_dates_found [OF assms])

theorem since_enumerates_witness:
  "\<exists>it it'. recur_iterator_new utc_jiff exact_alloc daily epoch = Some (Inr it)
     \<and> iter_take utc_jiff exact_alloc 1 (set_since utc_jiff 100 it) = Some ([86400], it')"
proof -
  obtain it where it: "recur_iterator_new utc_jiff exact_alloc daily epoch = Some (Inr it)" "it_start it = 0" "it_until it = None"
    by (rule daily_iterator)
  have room: "{0 - 70000000..86400 + 70000000} \<subseteq> utc_range" by (auto simp: utc_range_def)
  have later: "filter (rule_matches daily 0) [instant utc_jiff 100..86400] = [86400]" unfolding utc_jiff_simps by (rule daily_upto) simp_all
  have s: "instant utc_jiff (it_start it) = 0" using it(2) by simp
  show ?thesis using since_enumerates [OF utc_jiff_laws room daily_plain it(1) s, of 100 1, unfolded later] it by (auto simp: within_def)
qed

section \<open>Where an iterator ends early or panics\<close>

lemma late_match_ends:
  assumes look: "looks_for J lo hi M it" and ticks: "ticks J lo hi" and new: "it_next it = None" "it_curr it = it_start it" "it_until it = Some u"
    and m: "instant J (it_start it) \<le> m" "m \<le> hi" "M m" and none: "\<And>t. instant J (it_start it) \<le> t \<Longrightarrow> t \<le> instant J u \<Longrightarrow> \<not> M t"
  shows "\<exists>it'. iter_take J A n it = Some ([], it')"
proof (cases "n = 0 \<or> (case it_count it of None \<Rightarrow> False | Some c \<Rightarrow> it_emitted it \<ge> c)")
  case True
  then show ?thesis by (cases n) (auto simp: iter_next_def)
next
  case False
  obtain k ks where k: "filter M [instant J (it_start it)..hi] = k # ks" using first_match_exists [of _ m hi M] m by blast
  note match = next_match_upto [OF k]
  have ts: "ahead J hi M it = k # ks" using k new by (simp add: ahead_def)
  obtain z c where zc: "next_skip J A it = Some (Some z, it\<lparr>it_next := None, it_curr := c\<rparr>)" "instant J z = k"
    using next_skip_finds [OF look ticks ts match(1), of A] by blast
  have "instant J u < k" using none [OF match(1)] match(3) by force
  then have "emit_date J z (it\<lparr>it_next := None, it_curr := c\<rparr>) = (None, it\<lparr>it_next := None, it_curr := c\<rparr>)"
    using zc(2) new(3) by (simp add: emit_date_def)
  then have "iter_next J A it = Some (None, it\<lparr>it_next := None, it_curr := c\<rparr>)" using False zc(1) by (simp add: iter_next_def)
  then show ?thesis using False by (cases n) simp_all
qed

text \<open>A rule whose \<open>UNTIL\<close> comes before its first match, though not before \<open>DTSTART\<close>, gives no date at all: \<open>DTSTART\<close> itself is lost, which the comment
  in the code says is always given first.  The code looks for the first match and compares it with \<open>UNTIL\<close> before it thinks of \<open>DTSTART\<close>.
\<close>

theorem dtstart_lost_before_first_match:
  assumes "utc_laws J R" and "{s - 70000000..hi + 70000000} \<subseteq> R" and "plain_rule rc"
    and "recur_iterator_new J A rc d = Some (Inr it)" and "instant J (it_start it) = s" and "it_until it = Some u"
    and "s \<le> instant J u" and "s \<le> m" and "m \<le> hi" and "rule_matches rc s m"
    and "filter (rule_matches rc s) [s..instant J u] = []"
  shows "\<exists>it'. iter_take J A n it = Some ([], it')"
proof -
  have no_pos: "rc_by_set_pos rc = []" using assms(3) by (simp add: plain_rule_def)
  note it = new_iterator [OF assms(4) no_pos]
  have "\<not> rule_matches rc s t" if "s \<le> t" "t \<le> instant J u" for t using assms(11) that by (auto simp: filter_empty_conv)
  then show ?thesis
    using late_match_ends [OF rule_looks_for [OF assms(1-5)] it(4,3) assms(6)] assms(5,8-10) by blast
qed

lemma mondays_plain: "plain_rule mondays"
  by (simp add: plain_rule_def dated_def interval_fits_def rule_interval_def)

lemma mondays_match:
  "rule_matches mondays 0 345600" "\<not> (0 \<le> t \<and> t \<le> 86400 \<and> rule_matches mondays 0 t)"
proof -
  show "rule_matches mondays 0 345600"
    by (simp add: rule_matches_def filters_match_def start_matches_def allows_def every_nth_def rule_interval_def weekday_matches_def
        u_weekday_def day_no_def weekday_at_def u_second_def u_minute_def u_hour_def)
  have "u_weekday t \<noteq> Monday" if "0 \<le> t" "t \<le> 86400" for t
  proof -
    have "t div 86400 = 0 \<or> t div 86400 = 1" using that by (cases "t = 86400") (simp_all add: div_pos_pos_trivial)
    then show ?thesis by (auto simp: u_weekday_def day_no_def weekday_at_def)
  qed
  then show "\<not> (0 \<le> t \<and> t \<le> 86400 \<and> rule_matches mondays 0 t)"
    by (auto simp: rule_matches_def filters_match_def allows_def weekday_matches_def)
qed

theorem dtstart_lost_before_first_match_witness:
  "\<exists>it it'. recur_iterator_new utc_jiff exact_alloc mondays epoch = Some (Inr it) \<and> it_until it = Some 86400
     \<and> iter_take utc_jiff exact_alloc 3 it = Some ([], it')"
proof -
  have room: "{0 - 70000000..0 + 70000000} \<subseteq> utc_range" "{0 - 70000000..345600 + 70000000} \<subseteq> utc_range" by (auto simp: utc_range_def)
  obtain it where it: "recur_iterator_new utc_jiff exact_alloc mondays epoch = Some (Inr it)" "it_start it = 0" "it_until it = Some 86400"
    using rule_iterator_exists [OF utc_jiff_laws room(1) mondays_plain _ epoch_instant, of "Some 86400"] epoch_until by auto
  have none: "filter (rule_matches mondays 0) [0..86400] = []" unfolding filter_empty_conv using mondays_match(2) by auto
  have "\<exists>it'. iter_take utc_jiff exact_alloc 3 it = Some ([], it')"
    by (rule dtstart_lost_before_first_match [OF utc_jiff_laws room(2) mondays_plain it(1) _ it(3), where m = 345600])
      (unfold utc_jiff_simps, rule it(2), simp, simp, simp, rule mondays_match(1), rule none)
  then show ?thesis using it by blast
qed

text \<open>
  A rule with \<open>BYWEEKNO\<close> panics when its iterator is built, once the interval is not zero and \<open>DTSTART\<close> is a date of the library:
  the constraint is a \<open>todo!()\<close>.  The reader accepts such rules.
\<close>

lemma by_week_no_panics:
  assumes "rc_by_week_no rc \<noteq> []" and "rc_interval rc \<noteq> Some 0"
    and "zoned_of_dod J (zoned_of_dt J) d = Some (Inr z)" and "first_of J (rc_freq rc) z = Inr y"
  shows "recur_iterator_new J A rc d = None"
  using assms by (simp add: recur_iterator_new_def from_recur_def instance_of_def from_recur_filters_def)

lemma by_week_no_example:
  "recur_iterator_new utc_jiff exact_alloc (recur_new Yearly\<lparr>rc_by_week_no := [Signed Pos (WeekOrdinal 20)]\<rparr>) epoch = None"
proof -
  have "first_of utc_jiff Yearly 0 = Inr 0" by code_simp
  then show ?thesis by (intro by_week_no_panics [OF _ _ epoch_instant, where y = 0]) simp_all
qed

text \<open>
  A leap second in \<open>DTSTART\<close> panics too: \<open>Second::new\<close> accepts 60, the time of the library ends at 59.
\<close>

lemma leap_second_panics:
  assumes "\<And>d h m. j_civil J d (h, m, 60) = None"
  shows "second_new 60 = Inr (Second 60)"
    and "recur_iterator_new J A (recur_new Daily) (DDateTime \<lparr>dt_date = d, dt_time = time_new_unchecked h m 60, dt_form = f\<rparr>) = None"
  using assms by (simp_all add: second_new_def recur_iterator_new_def zoned_of_dod_def zoned_of_dt_def civil_of_def time_new_unchecked_def)

section \<open>Constraints that break the contract\<close>

text \<open>
  The documentation of \<open>next_occur_of\<close> asks that a constraint stays on a date that matches and never goes
  past one.  These constraints do not.  \<open>BYDAY=20MO\<close> of a yearly rule looks for the twentieth Monday after the date it
  is given, not for that of the year, and so it never stays.
\<close>

lemma same_date_day: "u_date t = u_date t' \<longleftrightarrow> day_no t = day_no t'"
proof
  assume "u_date t = u_date t'"
  then have d: "year_no t = year_no t'" "u_month t = u_month t'" "u_day t = u_day t'" by (simp_all add: u_date_def)
  have "month_no t = month_no t'"
    using d(1,2) unfolding year_no_def u_month_def by (metis add_right_cancel mult_div_mod_eq)
  then show "day_no t = day_no t'" using d(3) by (simp add: u_day_def)
qed (simp add: u_date_def year_no_def u_month_def u_day_def month_no_def)

lemma nth_weekday_of_year_never_stays:
  assumes laws: "utc_laws J R" and n: "0 < n" and run: "nth_weekday_of_year_eq J n wd cur = Inr z"
  shows "instant J cur < instant J z"
proof -
  define k where "k = (days_until (u_weekday (instant J cur)) wd - 1) mod 7 + 1 + 7 * (n - 1)"
  have k: "0 < k" using n pos_mod_sign [of 7 "days_until (u_weekday (instant J cur)) wd - 1"] by (simp add: k_def)
  obtain nxt where nxt: "z_nth_weekday J n wd cur = Inr nxt"
    using run by (cases "z_nth_weekday J n wd cur") (simp_all add: nth_weekday_of_year_eq_def)
  have "gives_maybe J R (z_nth_weekday J n wd cur) (u_nth_weekday n wd (instant J cur))"
    using laws by (simp add: utc_laws_def utc_moves_def)
  then have later: "instant J nxt = instant J cur + 86400 * k"
    using nxt n by (simp add: gives_maybe_def gives_instant_def u_nth_weekday_def k_def)
  then have day: "day_no (instant J nxt) = day_no (instant J cur) + k" by (simp add: day_no_def)
  have date: "z_date J y = u_date (instant J y)" for y using laws by (simp add: utc_laws_def utc_getters_def)
  have "z_date J nxt \<noteq> z_date J cur" unfolding date same_date_day using day k by simp
  then have "z_start_of_day J nxt = Inr z" using run nxt later k by (simp add: nth_weekday_of_year_eq_def)
  then have "instant J z = 86400 * (day_no (instant J cur) + k)"
    using laws day by (simp add: utc_laws_def utc_moves_def gives_instant_def u_start_of_day_def at_day_def)
  moreover have "instant J cur < 86400 * (day_no (instant J cur) + 1)"
    using pos_mod_bound [of 86400 "instant J cur"] div_mult_mod_eq [of "instant J cur" 86400] by (simp add: day_no_def)
  moreover have "86400 * (day_no (instant J cur) + 1) \<le> 86400 * (day_no (instant J cur) + k)" using k by simp
  ultimately show ?thesis by linarith
qed

text \<open>
  \<open>BYDAY=5MO\<close> of a monthly rule fails after the last Monday of January 2018: February has no fifth Monday,
  and the error ends the iterator although March would go on.
\<close>

lemma missing_weekday_fails: "nth_weekday_of_month_eq utc_jiff 5 Monday 1517270400 = Inl ()"
proof -
  have day: "day_no 1517270400 = 17561" "day_no 1517184000 = 17560" "day_no 1519776000 = 17590" "day_no 1520208000 = 17595"
    by (simp_all add: day_no_def)
  have starts: "month_start 24216 = 17532" "month_start 24217 = 17563" "month_start 24218 = 17591" "month_start 24219 = 17622"
    by (simp_all add: month_start_def month_offset_def year_start_def leap_days_def is_leap_def)
  have month: "month_no 1517270400 = 24216" "month_no 1517184000 = 24216" "month_no 1519776000 = 24217" "month_no 1520208000 = 24218"
    by (simp_all add: month_no_def day month_of_eq starts)
  have first: "u_first_of_month 1517270400 = 1514764800" "u_first_of_month 1519776000 = 1517443200"
    by (simp_all add: u_first_of_month_def month starts at_day_def day_time_def)
  have week: "days_until (u_weekday 1514764800) Monday = 0" "days_until (u_weekday 1517443200) Monday = 4"
    by (simp_all add: u_weekday_def day_no_def weekday_at_def days_until_def weekday_no_def)
  have january: "u_nth_weekday_of_month 5 Monday 1517270400 = Some 1517184000"
    by (simp add: u_nth_weekday_of_month_def first week month)
  have february: "u_nth_weekday_of_month 5 Monday 1519776000 = None"
    by (simp add: u_nth_weekday_of_month_def first week month)
  have step: "plus_units utc_jiff UMonth 1 1517270400 = Inr 1519776000"
    by (simp add: plus_units_def u_plus_def add_months_def month u_day_def day starts month_len_def at_day_def day_time_def ranged_def)
  show ?thesis
    by (simp add: nth_weekday_of_month_eq_def january february step ranged_opt_def ranged_def same_date_day day)
qed

text \<open>
  \<open>BYMINUTE=25\<close> at 12:30:50 goes to 13:25:50 and past 13:25:45, and an interval of three hours from 12:00 goes from 13:30 to
  15:30 and past 15:00.
\<close>

lemma minute_goes_past_match:
  "minute_eq utc_jiff 25 1514809850 = Inr 1514813150" "minute_eq utc_jiff 25 1514813145 = Inr 1514813145"
  by (simp_all add: minute_eq_def plus_units_def u_plus_def u_with_def u_minute_def u_hour_def u_second_def at_day_def day_no_def
      ranged_opt_def ranged_def)

lemma hours_go_past_match:
  "map_sum id (\<lambda>f. f 1514813400) (instance_of utc_jiff 1514808000 Hourly 3 True) = Inr (Inr 1514820600)"
  "map_sum id (\<lambda>f. f 1514818800) (instance_of utc_jiff 1514808000 Hourly 3 True) = Inr (Inr 1514818800)"
  by (simp_all add: instance_of_def first_of_def freq_unit_def freq_interval_def freq_missing_def elapsed_def plus_units_def u_plus_def
      ranged_def signed_divide_int_def signed_modulo_int_def)

end
