(* ===== verification/Draft_Recipients.thy ===== *)
theory Draft_Recipients
  imports Ics_Reader Lock_Icon
begin

text \<open>
  The recipients of a draft (\<open>mail/mail-common/src/draft/recipients.rs\<close>): lists of single recipients and
  groups, their validation states and privacy locks, and the list that has new addresses checked in the
  background.  The check of the form of an address, the parser of addresses and the error codes of the server come from other crates and are
  the fields of \<open>draft_env\<close>.
\<close>

section \<open>States\<close>

record draft_env =
  de_valid :: "ustring \<Rightarrow> bool"
  de_parse :: "ustring \<Rightarrow> (ustring \<times> ustring) option"
  de_lower :: "ustring \<Rightarrow> ustring"
  de_input_invalid :: nat
  de_address_missing :: nat

datatype validation_state =
    ValidAddress (vs_official: bool) (vs_proton: bool)
  | DoesNotExist
  | InvalidEmail
  | Unchecked
  | Validating
  | UnknownState

datatype privacy_lock_state = LockDefault | Calculating | Calculated "ui_lock option"

definition should_recalculate :: "privacy_lock_state \<Rightarrow> bool" where
  "should_recalculate l = (l = LockDefault)"

definition as_ui_lock :: "privacy_lock_state \<Rightarrow> ui_lock option" where
  "as_ui_lock l = (case l of LockDefault \<Rightarrow> None | Calculating \<Rightarrow> None | Calculated lk \<Rightarrow> lk)"

text \<open>The errors of the server, reduced to what is asked of them.\<close>

record api_service_error =
  ae_network_failure :: bool
  ae_proton_code :: "nat option"

datatype key_manager_api_error = KmApi nat | KmNetwork | KmOther

definition state_of_code :: "draft_env \<Rightarrow> nat \<Rightarrow> validation_state" where
  "state_of_code E code = (if code = de_input_invalid E then InvalidEmail
     else if code = de_address_missing E then DoesNotExist else UnknownState)"

definition state_of_api_error :: "draft_env \<Rightarrow> api_service_error \<Rightarrow> validation_state" where
  "state_of_api_error E e = (if ae_network_failure e then Unchecked
     else case ae_proton_code e of Some code \<Rightarrow> state_of_code E code | None \<Rightarrow> UnknownState)"

definition state_of_key_error :: "draft_env \<Rightarrow> key_manager_api_error \<Rightarrow> validation_state" where
  "state_of_key_error E e = (case e of KmApi code \<Rightarrow> state_of_code E code | KmNetwork \<Rightarrow> Unchecked | KmOther \<Rightarrow> UnknownState)"

section \<open>Recipients\<close>

record single_recipient =
  sr_name :: "ustring option"
  sr_email :: ustring
  sr_state :: validation_state
  sr_lock :: privacy_lock_state

record group_recipient =
  gr_recipients :: "single_recipient list"
  gr_name :: ustring
  gr_total :: nat

datatype recipient_error = DuplicateAddress ustring

datatype recipient = Single single_recipient | Group group_recipient

record recipient_entry =
  re_name :: "ustring option"
  re_email :: ustring

type_synonym recipient_list = "recipient list"

definition recipient_entry_new :: "draft_env \<Rightarrow> ustring \<Rightarrow> recipient_entry" where
  "recipient_entry_new E s =
    (let email = trim_str s; plain = \<lparr>re_name = None, re_email = email\<rparr>
     in case de_parse E email of
          None \<Rightarrow> plain
        | Some (display, address) \<Rightarrow>
            (let name = trim_str display
             in if name \<noteq> [] then \<lparr>re_name = Some name, re_email = address\<rparr> else plain))"

record message_recipient =
  mr_address :: ustring
  mr_is_proton :: bool
  mr_name :: ustring
  mr_group :: "ustring option"

record message_reply_to =
  rt_address :: ustring
  rt_is_proton :: bool
  rt_name :: ustring

text \<open>\<open>MaybeEmptyString\<close> never holds an empty string.\<close>

definition maybe_from_string :: "ustring \<Rightarrow> ustring option" where
  "maybe_from_string s = (if s = [] then None else Some s)"

definition maybe_from_option :: "ustring option \<Rightarrow> ustring option" where
  "maybe_from_option v = maybe_from_string (case v of None \<Rightarrow> [] | Some s \<Rightarrow> s)"

definition maybe_into_string :: "ustring option \<Rightarrow> ustring" where
  "maybe_into_string v = (case v of None \<Rightarrow> [] | Some s \<Rightarrow> s)"

section \<open>Lookup\<close>

text \<open>All single recipients of a list, in order.\<close>

definition recipients_of :: "recipient \<Rightarrow> single_recipient list" where
  "recipients_of r = (case r of Single s \<Rightarrow> [s] | Group g \<Rightarrow> gr_recipients g)"

definition members :: "recipient_list \<Rightarrow> single_recipient list" where
  "members l = concat (map recipients_of l)"

definition is_duplicate_address :: "ustring \<Rightarrow> recipient_list \<Rightarrow> bool" where
  "is_duplicate_address email l = list_ex (\<lambda>r. case r of
     Single s \<Rightarrow> sr_email s = email
   | Group g \<Rightarrow> list_ex (\<lambda>s. sr_email s = email) (gr_recipients g)) l"

fun find_recipient_by_email :: "ustring \<Rightarrow> recipient_list \<Rightarrow> single_recipient option" where
  "find_recipient_by_email email [] = None"
| "find_recipient_by_email email (Single s # l) = (if sr_email s = email then Some s else find_recipient_by_email email l)"
| "find_recipient_by_email email (Group g # l) = (case find (\<lambda>s. sr_email s = email) (gr_recipients g) of
     Some s \<Rightarrow> Some s
   | None \<Rightarrow> find_recipient_by_email email l)"

definition contains_email :: "ustring \<Rightarrow> recipient_list \<Rightarrow> bool" where
  "contains_email email l = (find_recipient_by_email email l \<noteq> None)"

definition contains_emails :: "ustring list \<Rightarrow> recipient_list \<Rightarrow> bool" where
  "contains_emails emails l = list_ex (\<lambda>e. contains_email e l) emails"

text \<open>\<open>find_recipient_by_email_mut\<close>, and a write through the reference when there is one.\<close>

fun modify_single :: "ustring \<Rightarrow> (single_recipient \<Rightarrow> single_recipient) \<Rightarrow> single_recipient list \<Rightarrow> single_recipient list option" where
  "modify_single email f [] = None"
| "modify_single email f (s # ss) = (if sr_email s = email then Some (f s # ss) else map_option ((#) s) (modify_single email f ss))"

fun modify_recipient :: "ustring \<Rightarrow> (single_recipient \<Rightarrow> single_recipient) \<Rightarrow> recipient_list \<Rightarrow> recipient_list" where
  "modify_recipient email f [] = []"
| "modify_recipient email f (Single s # l) =
     (if sr_email s = email then Single (f s) # l else Single s # modify_recipient email f l)"
| "modify_recipient email f (Group g # l) = (case modify_single email f (gr_recipients g) of
     Some ss \<Rightarrow> Group (g\<lparr>gr_recipients := ss\<rparr>) # l
   | None \<Rightarrow> Group g # modify_recipient email f l)"

definition update_recipient_validation_state :: "ustring \<Rightarrow> validation_state \<Rightarrow> recipient_list \<Rightarrow> recipient_list" where
  "update_recipient_validation_state email state l = modify_recipient email (\<lambda>s. s\<lparr>sr_state := state\<rparr>) l"

definition update_recipient_privacy_lock :: "ustring \<Rightarrow> privacy_lock_state \<Rightarrow> recipient_list \<Rightarrow> recipient_list" where
  "update_recipient_privacy_lock email lk l = modify_recipient email (\<lambda>s. s\<lparr>sr_lock := lk\<rparr>) l"

definition is_group :: "ustring \<Rightarrow> recipient \<Rightarrow> bool" where
  "is_group name r = (case r of Single _ \<Rightarrow> False | Group g \<Rightarrow> gr_name g = name)"

text \<open>\<open>find_group_mut\<close>, and a write through the reference when there is one.\<close>

fun modify_group :: "ustring \<Rightarrow> (group_recipient \<Rightarrow> group_recipient) \<Rightarrow> recipient_list \<Rightarrow> recipient_list" where
  "modify_group name f [] = []"
| "modify_group name f (Single s # l) = Single s # modify_group name f l"
| "modify_group name f (Group g # l) = (if gr_name g = name then Group (f g) # l else Group g # modify_group name f l)"

definition get_or_create_group :: "ustring \<Rightarrow> recipient_list \<Rightarrow> recipient_list" where
  "get_or_create_group name l = (if list_ex (is_group name) l then l
     else l @ [Group \<lparr>gr_recipients = [], gr_name = name, gr_total = 0\<rparr>])"

section \<open>Changes\<close>

definition new_recipient :: "draft_env \<Rightarrow> validation_state \<Rightarrow> recipient_entry \<Rightarrow> single_recipient" where
  "new_recipient E state entry = \<lparr>sr_name = re_name entry, sr_email = re_email entry,
     sr_state = (if de_valid E (re_email entry) then state else InvalidEmail), sr_lock = LockDefault\<rparr>"

definition add_single_with_state ::
  "draft_env \<Rightarrow> recipient_entry \<Rightarrow> validation_state \<Rightarrow> recipient_list \<Rightarrow> recipient_error + recipient_list" where
  "add_single_with_state E entry state l =
    (if is_duplicate_address (re_email entry) l then Inl (DuplicateAddress (re_email entry))
     else Inr (l @ [Single (new_recipient E state entry)]))"

definition add_single :: "draft_env \<Rightarrow> recipient_entry \<Rightarrow> recipient_list \<Rightarrow> recipient_error + recipient_list" where
  "add_single E entry l = add_single_with_state E entry Unchecked l"

definition remove_single :: "ustring \<Rightarrow> recipient_list \<Rightarrow> recipient_list" where
  "remove_single email l = filter (\<lambda>r. case r of Single s \<Rightarrow> sr_email s \<noteq> email | Group _ \<Rightarrow> True) l"

text \<open>The list with the group, and the duplicates.\<close>

definition add_group_with_state ::
  "draft_env \<Rightarrow> ustring \<Rightarrow> recipient_entry list \<Rightarrow> nat \<Rightarrow> validation_state \<Rightarrow> recipient_list \<Rightarrow> recipient_list \<times> recipient_entry list" where
  "add_group_with_state E name entries total_in_group state l =
    (let duplicates = filter (\<lambda>e. is_duplicate_address (re_email e) l) entries;
         recipients = map (new_recipient E state) (filter (\<lambda>e. \<not> is_duplicate_address (re_email e) l) entries)
     in (modify_group name (\<lambda>g. g\<lparr>gr_total := total_in_group, gr_recipients := gr_recipients g @ recipients\<rparr>) (get_or_create_group name l),
         duplicates))"

definition add_group ::
  "draft_env \<Rightarrow> ustring \<Rightarrow> recipient_entry list \<Rightarrow> nat \<Rightarrow> recipient_list \<Rightarrow> recipient_list \<times> recipient_entry list" where
  "add_group E name entries total_in_group l = add_group_with_state E name entries total_in_group Unchecked l"

definition remove_group :: "ustring \<Rightarrow> recipient_list \<Rightarrow> recipient_list" where
  "remove_group name l = filter (\<lambda>r. \<not> is_group name r) l"

definition remove_group_recipients :: "ustring \<Rightarrow> ustring list \<Rightarrow> recipient_list \<Rightarrow> recipient_list" where
  "remove_group_recipients name emails l = modify_group name
     (\<lambda>g. fold (\<lambda>email g. g\<lparr>gr_recipients := filter (\<lambda>s. sr_email s \<noteq> email) (gr_recipients g)\<rparr>) emails g) l"

definition remove_group_recipient :: "ustring \<Rightarrow> ustring \<Rightarrow> recipient_list \<Rightarrow> recipient_list" where
  "remove_group_recipient name email l = remove_group_recipients name [email] l"

section \<open>From and to messages\<close>

definition entry_of :: "ustring \<Rightarrow> ustring \<Rightarrow> recipient_entry" where
  "entry_of address name = \<lparr>re_name = (if name = [] then None else Some name), re_email = address\<rparr>"

definition add_message_recipient :: "draft_env \<Rightarrow> message_recipient \<Rightarrow> recipient_list \<Rightarrow> recipient_list" where
  "add_message_recipient E r l =
    (let entry = entry_of (mr_address r) (mr_name r)
     in case mr_group r of
          Some name \<Rightarrow> fst (add_group E name [entry] 0 l)
        | None \<Rightarrow> (case add_single E entry l of Inr l \<Rightarrow> l | Inl _ \<Rightarrow> l))"

definition resolve_total :: "(ustring \<Rightarrow> nat option) \<Rightarrow> recipient \<Rightarrow> recipient" where
  "resolve_total resolver r = (case r of
     Single s \<Rightarrow> Single s
   | Group g \<Rightarrow> Group (g\<lparr>gr_total := (case resolver (gr_name g) of Some n \<Rightarrow> n | None \<Rightarrow> length (gr_recipients g))\<rparr>))"

definition from_message_recipients :: "draft_env \<Rightarrow> (ustring \<Rightarrow> nat option) \<Rightarrow> message_recipient list \<Rightarrow> recipient_list" where
  "from_message_recipients E resolver rs = map (resolve_total resolver) (fold (add_message_recipient E) rs [])"

definition from_message_reply_to :: "draft_env \<Rightarrow> message_reply_to list \<Rightarrow> recipient_list" where
  "from_message_reply_to E rs =
     fold (\<lambda>r l. case add_single E (entry_of (rt_address r) (rt_name r)) l of Inr l \<Rightarrow> l | Inl _ \<Rightarrow> l) rs []"

definition to_message_recipient :: "ustring option \<Rightarrow> single_recipient \<Rightarrow> message_recipient option" where
  "to_message_recipient group_name s = map_option
     (\<lambda>is_proton. \<lparr>mr_address = sr_email s, mr_is_proton = is_proton, mr_name = maybe_into_string (sr_name s), mr_group = group_name\<rparr>)
     (case sr_state s of
        ValidAddress official _ \<Rightarrow> Some official
      | Validating \<Rightarrow> Some False
      | Unchecked \<Rightarrow> Some False
      | _ \<Rightarrow> None)"

definition to_message_recipients :: "recipient_list \<Rightarrow> message_recipient list" where
  "to_message_recipients l = concat (map (\<lambda>r. case r of
     Single s \<Rightarrow> List.map_filter (to_message_recipient None) [s]
   | Group g \<Rightarrow> List.map_filter (to_message_recipient (Some (gr_name g))) (gr_recipients g)) l)"

section \<open>Expiration\<close>

definition PROTON_EMAIL_DOMAINS :: "ustring list" where
  "PROTON_EMAIL_DOMAINS = map ascii [''@proton.me'', ''@protonmail.ch'', ''@protonmail.com'', ''@pm.me'', ''@proton.ch'', ''@external.proton.ch'']"

definition ends_with :: "ustring \<Rightarrow> ustring \<Rightarrow> bool" where
  "ends_with s suffix = (length suffix \<le> length s \<and> drop (length s - length suffix) s = suffix)"

definition is_known_proton_domain :: "draft_env \<Rightarrow> ustring \<Rightarrow> bool" where
  "is_known_proton_domain E email = list_ex (ends_with (de_lower E email)) PROTON_EMAIL_DOMAINS"

record expiration_report =
  er_supported :: "ustring set"
  er_unsupported :: "ustring set"
  er_unknown :: "ustring set"

definition report_check :: "draft_env \<Rightarrow> single_recipient \<Rightarrow> expiration_report \<Rightarrow> expiration_report" where
  "report_check E s report = (case sr_state s of
     ValidAddress _ proton \<Rightarrow>
       if proton \<or> is_known_proton_domain E (sr_email s)
       then report\<lparr>er_supported := insert (sr_email s) (er_supported report)\<rparr>
       else report\<lparr>er_unsupported := insert (sr_email s) (er_unsupported report)\<rparr>
   | _ \<Rightarrow>
       if is_known_proton_domain E (sr_email s)
       then report\<lparr>er_supported := insert (sr_email s) (er_supported report)\<rparr>
       else report\<lparr>er_unknown := insert (sr_email s) (er_unknown report)\<rparr>)"

definition add_as_supported :: "single_recipient \<Rightarrow> expiration_report \<Rightarrow> expiration_report" where
  "add_as_supported s report = (case sr_state s of
     ValidAddress _ proton \<Rightarrow> if proton then report\<lparr>er_supported := insert (sr_email s) (er_supported report)\<rparr> else report
   | Unchecked \<Rightarrow> report\<lparr>er_supported := insert (sr_email s) (er_supported report)\<rparr>
   | Validating \<Rightarrow> report\<lparr>er_supported := insert (sr_email s) (er_supported report)\<rparr>
   | _ \<Rightarrow> report)"

definition validate_expiration_feature :: "draft_env \<Rightarrow> recipient_list \<Rightarrow> expiration_report \<Rightarrow> expiration_report" where
  "validate_expiration_feature E l report = fold (report_check E) (members l) report"

definition fill_expiration_support_report_as_supported :: "recipient_list \<Rightarrow> expiration_report \<Rightarrow> expiration_report" where
  "fill_expiration_support_report_as_supported l report = fold add_as_supported (members l) report"

end
