(* ===== verification/Draft_Actor.thy ===== *)
theory Draft_Actor
  imports Draft_Recipients
begin

text \<open>
  The checks of recipients in the background (\<open>ValidatingRecipientList\<close> of \<open>draft/recipients.rs\<close>) and the part of the
  draft actor that owns the three lists of recipients (\<open>draft.rs\<close>, \<open>background_loop\<close>).  A check is a task that was
  spawned and reports to the actor with a message.  The answers of the key server and of the store are arguments.
\<close>

section \<open>Tasks\<close>

datatype recipient_group_id = To | Cc | Bcc

definition all_groups :: "recipient_group_id list" where
  "all_groups = [To, Cc, Bcc]"

datatype check_kind = CheckAddress | CheckLock

record draft_task =
  tk_kind :: check_kind
  tk_group :: recipient_group_id
  tk_emails :: "ustring list"
  tk_byoe :: bool

datatype draft_update =
    OnRecipientValidation recipient_group_id "(ustring \<times> validation_state) list"
  | OnPrivacyLockUpdate recipient_group_id "(ustring \<times> privacy_lock_state) list"

definition apply_validation :: "(ustring \<times> validation_state) list \<Rightarrow> recipient_list \<Rightarrow> recipient_list" where
  "apply_validation us l = fold (\<lambda>(email, state). update_recipient_validation_state email state) us l"

definition apply_locks :: "(ustring \<times> privacy_lock_state) list \<Rightarrow> recipient_list \<Rightarrow> recipient_list" where
  "apply_locks us l = fold (\<lambda>(email, lk). update_recipient_privacy_lock email lk) us l"

section \<open>The checking list\<close>

text \<open>A recipient before its checks, and the two lists of addresses that are to be checked.\<close>

definition check_recipient :: "single_recipient \<Rightarrow> single_recipient" where
  "check_recipient s = s\<lparr>sr_state := (if sr_state s = Unchecked then Validating else sr_state s),
     sr_lock := (if should_recalculate (sr_lock s) then Calculating else sr_lock s)\<rparr>"

definition to_validate :: "single_recipient list \<Rightarrow> ustring list" where
  "to_validate ss = map sr_email (filter (\<lambda>s. sr_state s = Unchecked) ss)"

definition to_calculate :: "single_recipient list \<Rightarrow> ustring list" where
  "to_calculate ss = map sr_email (filter (\<lambda>s. should_recalculate (sr_lock s)) ss)"

definition map_members :: "(single_recipient \<Rightarrow> single_recipient) \<Rightarrow> recipient_list \<Rightarrow> recipient_list" where
  "map_members f l = map (\<lambda>r. case r of Single s \<Rightarrow> Single (f s) | Group g \<Rightarrow> Group (g\<lparr>gr_recipients := map f (gr_recipients g)\<rparr>)) l"

text \<open>\<open>validate_addresses\<close> and \<open>calculate_privacy_locks\<close>: nothing is spawned for no address.\<close>

definition spawn_check :: "check_kind \<Rightarrow> recipient_group_id \<Rightarrow> bool \<Rightarrow> ustring list \<Rightarrow> draft_task list" where
  "spawn_check k g byoe emails = (if emails = [] then [] else [\<lparr>tk_kind = k, tk_group = g, tk_emails = emails, tk_byoe = byoe\<rparr>])"

definition spawn_checks :: "recipient_group_id \<Rightarrow> bool \<Rightarrow> ustring list \<Rightarrow> ustring list \<Rightarrow> draft_task list" where
  "spawn_checks g byoe emails lock_emails = spawn_check CheckAddress g byoe emails @ spawn_check CheckLock g byoe lock_emails"

definition check_all :: "recipient_group_id \<Rightarrow> bool \<Rightarrow> recipient_list \<Rightarrow> recipient_list \<times> draft_task list" where
  "check_all g byoe l = (map_members check_recipient l,
     spawn_checks g byoe (to_validate (members l)) (to_calculate (members l)))"

definition recalculate_all_privacy_locks :: "recipient_group_id \<Rightarrow> bool \<Rightarrow> recipient_list \<Rightarrow> recipient_list \<times> draft_task list" where
  "recalculate_all_privacy_locks g byoe l = (map_members (\<lambda>s. s\<lparr>sr_lock := Calculating\<rparr>) l,
     spawn_check CheckLock g byoe (map sr_email (members l)))"

text \<open>The new recipient is the last one of the list.\<close>

definition checked_add_single ::
  "draft_env \<Rightarrow> recipient_group_id \<Rightarrow> bool \<Rightarrow> recipient_entry \<Rightarrow> recipient_list \<Rightarrow> recipient_error + (recipient_list \<times> draft_task list)" where
  "checked_add_single E g byoe entry l = (case add_single E entry l of
     Inl e \<Rightarrow> Inl e
   | Inr l' \<Rightarrow> Inr (butlast l' @ map_members check_recipient [last l'],
       spawn_checks g byoe (to_validate (recipients_of (last l'))) (to_calculate (recipients_of (last l')))))"

definition group_members :: "ustring \<Rightarrow> recipient_list \<Rightarrow> single_recipient list" where
  "group_members name l = (case find (is_group name) l of Some r \<Rightarrow> recipients_of r | None \<Rightarrow> [])"

definition checked_add_group ::
  "draft_env \<Rightarrow> recipient_group_id \<Rightarrow> bool \<Rightarrow> ustring \<Rightarrow> recipient_entry list \<Rightarrow> nat \<Rightarrow> recipient_list
   \<Rightarrow> recipient_list \<times> draft_task list \<times> recipient_entry list" where
  "checked_add_group E g byoe name entries total_in_group l = (case add_group E name entries total_in_group l of
     (l', duplicates) \<Rightarrow>
       (modify_group name (\<lambda>gr. gr\<lparr>gr_recipients := map check_recipient (gr_recipients gr)\<rparr>) l',
        spawn_checks g byoe (to_validate (group_members name l')) (to_calculate (group_members name l')), duplicates))"

section \<open>The answers\<close>

text \<open>What the key service gives for an address.\<close>

datatype key_answer =
    OwnedKeys
  | OtherKeys (ka_is_proton: bool) (ka_internal: bool)
  | LoadingApiError key_manager_api_error
  | OtherKeyError

definition validate_address :: "draft_env \<Rightarrow> (ustring \<Rightarrow> key_answer) \<Rightarrow> ustring \<Rightarrow> validation_state" where
  "validate_address E server email = (case server email of
     OwnedKeys \<Rightarrow> ValidAddress False True
   | OtherKeys is_proton internal \<Rightarrow> ValidAddress is_proton (is_known_proton_domain E email \<or> internal)
   | LoadingApiError e \<Rightarrow> state_of_key_error E e
   | OtherKeyError \<Rightarrow> UnknownState)"

definition calculate_privacy_lock :: "(ustring \<Rightarrow> ('pub, 'kt) send_preferences option) \<Rightarrow> ustring \<Rightarrow> privacy_lock_state" where
  "calculate_privacy_lock prefs email = (case prefs email of
     Some p \<Rightarrow> Calculated (for_composer p)
   | None \<Rightarrow> LockDefault)"

text \<open>\<open>prefs\<close> is absent when the metadata of the draft cannot be loaded.\<close>

definition calculate_privacy_locks ::
  "(ustring \<Rightarrow> ('pub, 'kt) send_preferences option) option \<Rightarrow> ustring list \<Rightarrow> (ustring \<times> privacy_lock_state) list" where
  "calculate_privacy_locks prefs emails = (case prefs of
     None \<Rightarrow> map (\<lambda>e. (e, LockDefault)) emails
   | Some p \<Rightarrow> map (\<lambda>e. (e, calculate_privacy_lock p e)) emails)"

definition run_task ::
  "draft_env \<Rightarrow> (ustring \<Rightarrow> key_answer) \<Rightarrow> (ustring \<Rightarrow> ('pub, 'kt) send_preferences option) option \<Rightarrow> draft_task \<Rightarrow> draft_update" where
  "run_task E server prefs t = (case tk_kind t of
     CheckAddress \<Rightarrow> OnRecipientValidation (tk_group t) (map (\<lambda>e. (e, validate_address E server e)) (tk_emails t))
   | CheckLock \<Rightarrow> OnPrivacyLockUpdate (tk_group t)
       (if tk_byoe t then map (\<lambda>e. (e, Calculated None)) (tk_emails t) else calculate_privacy_locks prefs (tk_emails t)))"

section \<open>The actor\<close>

record draft =
  d_to_list :: recipient_list
  d_cc_list :: recipient_list
  d_bcc_list :: recipient_list
  d_is_byoe :: bool

datatype draft_event =
    RecipientListUpdated recipient_group_id recipient_list
  | RecipientListsUpdated recipient_list recipient_list recipient_list

text \<open>
  The tasks under the current tokens, those whose token was cancelled and which may still
  report or not, and the reports that wait in the channel.
\<close>

record draft_actor =
  da_draft :: draft
  da_tasks :: "draft_task list"
  da_cancelled :: "draft_task list"
  da_inbox :: "draft_update list"
  da_events :: "draft_event list"

datatype draft_reply =
    NoReply
  | ReplyOk
  | ReplyDuplicates "recipient_entry list"
  | ReplyRecipientError recipient_error
  | ReplySaveError

definition recipient_group_from_draft :: "recipient_group_id \<Rightarrow> draft \<Rightarrow> recipient_list" where
  "recipient_group_from_draft g d = (case g of To \<Rightarrow> d_to_list d | Cc \<Rightarrow> d_cc_list d | Bcc \<Rightarrow> d_bcc_list d)"

definition set_recipient_group :: "recipient_group_id \<Rightarrow> recipient_list \<Rightarrow> draft \<Rightarrow> draft" where
  "set_recipient_group g l d = (case g of To \<Rightarrow> d\<lparr>d_to_list := l\<rparr> | Cc \<Rightarrow> d\<lparr>d_cc_list := l\<rparr> | Bcc \<Rightarrow> d\<lparr>d_bcc_list := l\<rparr>)"

abbreviation list_of :: "recipient_group_id \<Rightarrow> draft_actor \<Rightarrow> recipient_list" where
  "list_of g a \<equiv> recipient_group_from_draft g (da_draft a)"

definition put_list :: "recipient_group_id \<Rightarrow> recipient_list \<Rightarrow> draft_actor \<Rightarrow> draft_actor" where
  "put_list g l a = a\<lparr>da_draft := set_recipient_group g l (da_draft a)\<rparr>"

definition spawn :: "draft_task list \<Rightarrow> draft_actor \<Rightarrow> draft_actor" where
  "spawn ts a = a\<lparr>da_tasks := da_tasks a @ ts\<rparr>"

definition publish_event :: "draft_event \<Rightarrow> draft_actor \<Rightarrow> draft_actor" where
  "publish_event e a = a\<lparr>da_events := da_events a @ [e]\<rparr>"

definition publish_list :: "recipient_group_id \<Rightarrow> draft_actor \<Rightarrow> draft_actor" where
  "publish_list g a = publish_event (RecipientListUpdated g (list_of g a)) a"

definition reset_ctoken :: "check_kind \<Rightarrow> draft_actor \<Rightarrow> draft_actor" where
  "reset_ctoken k a = a\<lparr>da_tasks := filter (\<lambda>t. tk_kind t \<noteq> k) (da_tasks a),
     da_cancelled := da_cancelled a @ filter (\<lambda>t. tk_kind t = k) (da_tasks a)\<rparr>"

text \<open>A checking list on one of the three lists.\<close>

definition on_list :: "(recipient_group_id \<Rightarrow> bool \<Rightarrow> recipient_list \<Rightarrow> recipient_list \<times> draft_task list) \<Rightarrow> recipient_group_id \<Rightarrow> draft_actor \<Rightarrow> draft_actor" where
  "on_list f g a = (case f g (d_is_byoe (da_draft a)) (list_of g a) of (l, ts) \<Rightarrow> spawn ts (put_list g l a))"

definition recalculate_locks :: "bool \<Rightarrow> draft_actor \<Rightarrow> draft_actor" where
  "recalculate_locks enabled a =
    (if enabled then fold (on_list recalculate_all_privacy_locks) all_groups (reset_ctoken CheckLock a) else a)"

definition revalidate_all :: "bool \<Rightarrow> draft_actor \<Rightarrow> draft_actor" where
  "revalidate_all enabled a =
    (if enabled then fold (on_list check_all) all_groups (reset_ctoken CheckLock (reset_ctoken CheckAddress a)) else a)"

definition saved_reply :: "bool \<Rightarrow> draft_reply" where
  "saved_reply saved = (if saved then ReplyOk else ReplySaveError)"

text \<open>The handlers.  \<open>enabled\<close> is \<open>address_validation_enabled\<close>, \<open>saved\<close> whether the automatic save succeeds.\<close>

definition handle_add_single :: "draft_env \<Rightarrow> bool \<Rightarrow> bool \<Rightarrow> recipient_group_id \<Rightarrow> recipient_entry \<Rightarrow> draft_actor \<Rightarrow> draft_reply \<times> draft_actor" where
  "handle_add_single E enabled saved g entry a =
    (case (if enabled then checked_add_single E g (d_is_byoe (da_draft a)) entry (list_of g a)
           else map_sum id (\<lambda>l. (l, [])) (add_single E entry (list_of g a))) of
       Inl e \<Rightarrow> (ReplyRecipientError e, a)
     | Inr (l, ts) \<Rightarrow>
         (let a = spawn ts (put_list g l a)
          in (saved_reply saved, if saved then publish_list g a else put_list g (remove_single (re_email entry) (list_of g a)) a)))"

definition handle_add_group ::
  "draft_env \<Rightarrow> bool \<Rightarrow> bool \<Rightarrow> recipient_group_id \<Rightarrow> ustring \<Rightarrow> recipient_entry list \<Rightarrow> nat \<Rightarrow> draft_actor \<Rightarrow> draft_reply \<times> draft_actor" where
  "handle_add_group E enabled saved g name entries total_in_group a =
    (case (if enabled then checked_add_group E g (d_is_byoe (da_draft a)) name entries total_in_group (list_of g a)
           else case add_group E name entries total_in_group (list_of g a) of (l, duplicates) \<Rightarrow> (l, [], duplicates)) of
       (l, ts, duplicates) \<Rightarrow>
         (let a = spawn ts (put_list g l a);
              a = (if saved then a else put_list g (remove_group_recipients name (map re_email entries) (list_of g a)) a)
          in (if saved then ReplyDuplicates duplicates else ReplySaveError, publish_list g a)))"

definition handle_set_lists :: "bool \<Rightarrow> bool \<Rightarrow> recipient_list \<Rightarrow> recipient_list \<Rightarrow> recipient_list \<Rightarrow> draft_actor \<Rightarrow> draft_reply \<times> draft_actor" where
  "handle_set_lists enabled saved t c b a =
    (let a = revalidate_all enabled (put_list Bcc b (put_list Cc c (put_list To t a)))
     in (saved_reply saved, publish_event (RecipientListsUpdated (list_of To a) (list_of Cc a) (list_of Bcc a)) a))"

definition handle_set_list :: "bool \<Rightarrow> bool \<Rightarrow> recipient_group_id \<Rightarrow> recipient_list \<Rightarrow> draft_actor \<Rightarrow> draft_reply \<times> draft_actor" where
  "handle_set_list enabled saved g l a =
    (let before = list_of g a; a = put_list g l a; a = (if enabled then on_list check_all g a else a)
     in (saved_reply saved, if saved then publish_list g a else put_list g before a))"

text \<open>The four removals.\<close>

definition handle_remove :: "bool \<Rightarrow> recipient_group_id \<Rightarrow> (recipient_list \<Rightarrow> recipient_list) \<Rightarrow> draft_actor \<Rightarrow> draft_reply \<times> draft_actor" where
  "handle_remove saved g f a = (saved_reply saved, publish_list g (put_list g (f (list_of g a)) a))"

definition handle_update :: "draft_update \<Rightarrow> draft_actor \<Rightarrow> draft_actor" where
  "handle_update u a = (case u of
     OnRecipientValidation g us \<Rightarrow> publish_list g (put_list g (apply_validation us (list_of g a)) a)
   | OnPrivacyLockUpdate g us \<Rightarrow> publish_list g (put_list g (apply_locks us (list_of g a)) a))"

datatype draft_message =
    AddSingleRecipient recipient_group_id recipient_entry
  | AddRecipientGroup recipient_group_id ustring "recipient_entry list" nat
  | SetRecipientLists recipient_list recipient_list recipient_list
  | RemoveSingleRecipient recipient_group_id ustring
  | RemoveGroupRecipient recipient_group_id ustring ustring
  | RemoveGroupRecipients recipient_group_id "ustring list" ustring
  | RemoveRecipientGroup recipient_group_id ustring
  | SetRecipientList recipient_group_id recipient_list
  | RevalidateAllRecipients
  | SetPassword
  | RemovePassword
  | ChangeSenderAddress "bool option"

text \<open>
  Of the last three only what they do to the recipients.  \<open>ChangeSenderAddress\<close> carries the outcome of the change,
  \<open>None\<close> for an error, else whether the new address is one that shows no locks.
\<close>

definition handle_message :: "draft_env \<Rightarrow> bool \<Rightarrow> bool \<Rightarrow> draft_message \<Rightarrow> draft_actor \<Rightarrow> draft_reply \<times> draft_actor" where
  "handle_message E enabled saved m a = (case m of
     AddSingleRecipient g entry \<Rightarrow> handle_add_single E enabled saved g entry a
   | AddRecipientGroup g name entries n \<Rightarrow> handle_add_group E enabled saved g name entries n a
   | SetRecipientLists t c b \<Rightarrow> handle_set_lists enabled saved t c b a
   | RemoveSingleRecipient g email \<Rightarrow> handle_remove saved g (remove_single email) a
   | RemoveGroupRecipient g email name \<Rightarrow> handle_remove saved g (remove_group_recipient name email) a
   | RemoveGroupRecipients g emails name \<Rightarrow> handle_remove saved g (remove_group_recipients name emails) a
   | RemoveRecipientGroup g name \<Rightarrow> handle_remove saved g (remove_group name) a
   | SetRecipientList g l \<Rightarrow> handle_set_list enabled saved g l a
   | RevalidateAllRecipients \<Rightarrow> (NoReply, revalidate_all enabled a)
   | SetPassword \<Rightarrow> (saved_reply saved, recalculate_locks enabled a)
   | RemovePassword \<Rightarrow> (saved_reply saved, recalculate_locks enabled a)
   | ChangeSenderAddress changed \<Rightarrow>
       (case changed of
          None \<Rightarrow> (ReplySaveError, a)
        | Some byoe \<Rightarrow>
            (let a = a\<lparr>da_draft := (da_draft a)\<lparr>d_is_byoe := byoe\<rparr>\<rparr>
             in (saved_reply saved, if saved then recalculate_locks enabled a else a))))"

text \<open>\<open>ValidateExpirationFeature\<close>: \<open>metadata\<close> says whether the draft does not expire and whether it has a password.\<close>

definition validate_expiration :: "draft_env \<Rightarrow> (bool \<times> bool) option \<Rightarrow> draft \<Rightarrow> expiration_report option" where
  "validate_expiration E metadata d = map_option (\<lambda>(never, password).
     let report = \<lparr>er_supported = {}, er_unsupported = {}, er_unknown = {}\<rparr>;
         check = (if never \<or> password then fill_expiration_support_report_as_supported else validate_expiration_feature E)
     in check (d_bcc_list d) (check (d_cc_list d) (check (d_to_list d) report))) metadata"

section \<open>Steps\<close>

text \<open>
  A task reports, a cancelled task stops, the actor takes the next report.  \<open>S\<close> is the set of the answers that the key service and the
  store can give.
\<close>

type_synonym ('pub, 'kt) service_answers = "(ustring \<Rightarrow> key_answer) \<times> (ustring \<Rightarrow> ('pub, 'kt) send_preferences option) option"

inductive background_step :: "draft_env \<Rightarrow> ('pub, 'kt) service_answers set \<Rightarrow> draft_actor \<Rightarrow> draft_actor \<Rightarrow> bool" for E S where
  task_reports: "da_tasks a = ts @ t # ts' \<Longrightarrow> (server, prefs) \<in> S \<Longrightarrow>
    background_step E S a (a\<lparr>da_tasks := ts @ ts', da_inbox := da_inbox a @ [run_task E server prefs t]\<rparr>)"
| cancelled_reports: "da_cancelled a = ts @ t # ts' \<Longrightarrow> (server, prefs) \<in> S \<Longrightarrow>
    background_step E S a (a\<lparr>da_cancelled := ts @ ts', da_inbox := da_inbox a @ [run_task E server prefs t]\<rparr>)"
| cancelled_stops: "da_cancelled a = ts @ t # ts' \<Longrightarrow> background_step E S a (a\<lparr>da_cancelled := ts @ ts'\<rparr>)"
| report_arrives: "da_inbox a = u # us \<Longrightarrow> background_step E S a (handle_update u (a\<lparr>da_inbox := us\<rparr>))"

inductive_cases background_stepE: "background_step E S a a'"

end
