(* ===== verification/Draft_Actor_Inv.thy ===== *)
theory Draft_Actor_Inv
  imports Draft_Actor "HOL-Library.Multiset"
begin

text \<open>
  The invariant of the recipients of a draft: no address twice in a list, and every recipient that is shown
  as being checked has a check under way.  The lemmas show what each operation does to the recipients of a list and that every
  handler and every step in the background keeps the invariant.
\<close>

section \<open>Members of a list\<close>

lemma members_simps [simp]:
  "members [] = []" "members (Single s # l) = s # members l" "members (Group g # l) = gr_recipients g @ members l"
  "members (l @ l') = members l @ members l'"
  by (simp_all add: members_def recipients_of_def)

abbreviation emails :: "recipient_list \<Rightarrow> ustring list" where
  "emails l \<equiv> map sr_email (members l)"

lemma duplicate_iff: "is_duplicate_address e l \<longleftrightarrow> e \<in> set (emails l)"
proof (induction l)
  case (Cons r l)
  then show ?case by (cases r) (auto simp: is_duplicate_address_def list_ex_iff)
qed (simp add: is_duplicate_address_def)

lemma contains_email_iff: "contains_email e l \<longleftrightarrow> e \<in> set (emails l)"
  by (induction e l rule: find_recipient_by_email.induct)
    (auto simp: contains_email_def find_None_iff find_Some_iff split: option.splits)

definition modify_first :: "ustring \<Rightarrow> (single_recipient \<Rightarrow> single_recipient) \<Rightarrow> single_recipient list \<Rightarrow> single_recipient list" where
  "modify_first e f ss = (case modify_single e f ss of Some ss' \<Rightarrow> ss' | None \<Rightarrow> ss)"

lemma modify_single_None: "modify_single e f ss = None \<longleftrightarrow> e \<notin> set (map sr_email ss)"
  by (induction ss) auto

lemma modify_single_append:
  "modify_single e f (ss @ ts) = (case modify_single e f ss of Some ss' \<Rightarrow> Some (ss' @ ts) | None \<Rightarrow> map_option ((@) ss) (modify_single e f ts))"
proof (induction ss)
  case Nil
  then show ?case by (cases "modify_single e f ts") simp_all
next
  case (Cons s ss)
  then show ?case by (cases "modify_single e f ss"; cases "modify_single e f ts") simp_all
qed

lemma members_modify: "members (modify_recipient e f l) = modify_first e f (members l)"
  by (induction e f l rule: modify_recipient.induct)
    (auto simp: modify_first_def modify_single_append split: option.splits)

lemma modify_first_distinct:
  assumes "distinct (map sr_email ss)"
  shows "modify_first e f ss = map (\<lambda>s. if sr_email s = e then f s else s) ss"
proof -
  have "(case modify_single e f ss of Some ss' \<Rightarrow> ss' | None \<Rightarrow> ss) = map (\<lambda>s. if sr_email s = e then f s else s) ss"
    using assms
  proof (induction ss)
    case (Cons s ss)
    show ?case
    proof (cases "sr_email s = e")
      case True
      then have "map (\<lambda>s. if sr_email s = e then f s else s) ss = ss" using Cons.prems by (intro map_idI) (auto, metis image_eqI)
      then show ?thesis using True by simp
    next
      case False
      then show ?thesis using Cons by (cases "modify_single e f ss") auto
    qed
  qed simp
  then show ?thesis by (simp add: modify_first_def)
qed

lemma members_map: "members (map_members f l) = map f (members l)"
proof (induction l)
  case (Cons r l)
  then show ?case by (cases r) (simp_all add: map_members_def)
qed (simp add: map_members_def)

text \<open>Fewer members, each at most as often.\<close>

definition fewer :: "recipient_list \<Rightarrow> recipient_list \<Rightarrow> bool" where
  "fewer l' l = (mset (members l') \<subseteq># mset (members l))"

lemma fewer_distinct:
  assumes "fewer l' l" and "distinct (emails l)"
  shows "distinct (emails l')"
proof -
  have "image_mset sr_email (mset (members l')) \<subseteq># image_mset sr_email (mset (members l))"
    using assms(1) unfolding fewer_def by (rule image_mset_subseteq_mono)
  then have "mset (emails l') \<subseteq># mset (emails l)" by simp
  then obtain M where "mset (emails l) = mset (emails l') + M" using subset_mset.le_iff_add by blast
  moreover obtain zs where "M = mset zs" using ex_mset by metis
  ultimately have "mset (emails l) = mset (emails l' @ zs)" by simp
  then have "distinct (emails l' @ zs)" using assms(2) mset_eq_imp_distinct_iff by blast
  then show ?thesis by simp
qed

lemma fewer_members: "fewer l' l \<Longrightarrow> s \<in> set (members l') \<Longrightarrow> s \<in> set (members l)"
  unfolding fewer_def by (metis mset_subset_eqD set_mset_mset)

lemma members_filter: "fewer (filter P l) l"
proof (induction l)
  case (Cons r l)
  have "mset (members (filter P l)) \<subseteq># A + mset (members l)" for A
    using Cons subset_mset.order_trans [OF _ mset_subset_eq_add_right] unfolding fewer_def by blast
  from this [of "mset (recipients_of r)"] show ?case
    using Cons by (cases r) (auto simp: fewer_def recipients_of_def intro: subset_mset.add_mono)
qed (simp add: fewer_def)

lemma members_modify_group_fewer:
  assumes "\<And>g. mset (gr_recipients (f g)) \<subseteq># mset (gr_recipients g)"
  shows "fewer (modify_group name f l) l"
proof (induction l)
  case (Cons r l)
  then show ?case by (cases r) (auto simp: fewer_def assms intro: subset_mset.add_mono)
qed (simp add: fewer_def)

lemma fold_filter_fewer:
  "mset (gr_recipients (fold (\<lambda>email g. g\<lparr>gr_recipients := filter (\<lambda>s. sr_email s \<noteq> email) (gr_recipients g)\<rparr>) es g)) \<subseteq># mset (gr_recipients g)"
proof (induction es arbitrary: g)
  case (Cons e es)
  show ?case using Cons [of "g\<lparr>gr_recipients := filter (\<lambda>s. sr_email s \<noteq> e) (gr_recipients g)\<rparr>"]
    by (auto intro: subset_mset.order_trans multiset_filter_subset)
qed simp

lemma removals_fewer:
  "fewer (remove_single e l) l" "fewer (remove_group name l) l" "fewer (remove_group_recipients name es l) l"
  "fewer (remove_group_recipient name e l) l"
  unfolding remove_group_recipient_def remove_single_def remove_group_def remove_group_recipients_def
  by (intro members_filter members_modify_group_fewer fold_filter_fewer)+

text \<open>Groups.\<close>

lemma modify_group_extend:
  assumes "list_ex (is_group name) l"
  shows "mset (members (modify_group name (\<lambda>g. g\<lparr>gr_total := n, gr_recipients := gr_recipients g @ ss\<rparr>) l)) = mset (members l) + mset ss"
  using assms
proof (induction l)
  case (Cons r l)
  then show ?case by (cases r) (auto simp: is_group_def)
qed simp

lemma created_group: "list_ex (is_group name) (get_or_create_group name l)" "members (get_or_create_group name l) = members l"
  by (auto simp: get_or_create_group_def is_group_def)

lemma add_group_members:
  assumes "add_group E name entries n l = (l', ds)"
  shows "mset (members l') = mset (members l) + mset (map (new_recipient E Unchecked) (filter (\<lambda>e. re_email e \<notin> set (emails l)) entries))"
  using assms modify_group_extend [OF created_group(1) [of name l]]
  by (auto simp: add_group_def add_group_with_state_def duplicate_iff created_group)

lemma group_checked:
  assumes "\<And>s. sr_email (f s) = sr_email s"
  shows "emails (modify_group name (\<lambda>g. g\<lparr>gr_recipients := map f (gr_recipients g)\<rparr>) l) = emails l"
    and "s' \<in> set (members (modify_group name (\<lambda>g. g\<lparr>gr_recipients := map f (gr_recipients g)\<rparr>) l)) \<Longrightarrow>
      s' \<in> set (members l) \<or> (\<exists>s \<in> set (group_members name l). s' = f s)"
    and "set (group_members name l) \<subseteq> set (members l)"
proof (induction l)
  case (Cons r l)
  {
    case 1
    then show ?case using Cons(1) by (cases r) (simp_all add: assms comp_def)
  next
    case 2
    then show ?case using Cons(2) by (cases r) (auto simp: group_members_def is_group_def recipients_of_def split: if_splits)
  next
    case 3
    then show ?case using Cons(3) by (cases r) (auto simp: group_members_def is_group_def recipients_of_def)
  }
qed (simp_all add: group_members_def)

section \<open>The invariant\<close>

definition busy :: "check_kind \<Rightarrow> single_recipient \<Rightarrow> bool" where
  "busy k s = (case k of CheckAddress \<Rightarrow> sr_state s = Validating | CheckLock \<Rightarrow> sr_lock s = Calculating)"

definition update_emails :: "check_kind \<Rightarrow> recipient_group_id \<Rightarrow> draft_update \<Rightarrow> ustring list" where
  "update_emails k g u = (case u of
     OnRecipientValidation g' us \<Rightarrow> if k = CheckAddress \<and> g' = g then map fst us else []
   | OnPrivacyLockUpdate g' us \<Rightarrow> if k = CheckLock \<and> g' = g then map fst us else [])"

text \<open>Reports end a check.\<close>

definition final_update :: "draft_update \<Rightarrow> bool" where
  "final_update u = (case u of
     OnRecipientValidation _ us \<Rightarrow> list_all (\<lambda>(_, v). v \<noteq> Validating) us
   | OnPrivacyLockUpdate _ us \<Rightarrow> list_all (\<lambda>(_, lk). lk \<noteq> Calculating) us)"

definition checks :: "draft_task list \<Rightarrow> check_kind \<Rightarrow> recipient_group_id \<Rightarrow> ustring \<Rightarrow> bool" where
  "checks ts k g e = (\<exists>t \<in> set ts. tk_kind t = k \<and> tk_group t = g \<and> e \<in> set (tk_emails t))"

definition awaited :: "draft_actor \<Rightarrow> check_kind \<Rightarrow> recipient_group_id \<Rightarrow> ustring \<Rightarrow> bool" where
  "awaited a k g e = (checks (da_tasks a) k g e \<or> (\<exists>u \<in> set (da_inbox a). e \<in> set (update_emails k g u)))"

definition list_inv :: "(check_kind \<Rightarrow> ustring \<Rightarrow> bool) \<Rightarrow> recipient_list \<Rightarrow> bool" where
  "list_inv A l = (distinct (emails l) \<and> (\<forall>k. \<forall>s \<in> set (members l). busy k s \<longrightarrow> A k (sr_email s)))"

definition actor_inv :: "draft_actor \<Rightarrow> bool" where
  "actor_inv a = ((\<forall>g. list_inv (\<lambda>k. awaited a k g) (list_of g a)) \<and> list_all final_update (da_inbox a))"

definition idle_list :: "recipient_list \<Rightarrow> bool" where
  "idle_list l = list_inv (\<lambda>_ _. False) l"

lemma list_inv_mono: "list_inv A l \<Longrightarrow> (\<And>k e. A k e \<Longrightarrow> B k e) \<Longrightarrow> list_inv B l"
  by (auto simp: list_inv_def)

lemma list_inv_fewer: "list_inv A l \<Longrightarrow> fewer l' l \<Longrightarrow> list_inv A l'"
  by (auto simp: list_inv_def dest: fewer_distinct fewer_members)

lemma checks_append: "checks (ts @ ts') k g e \<longleftrightarrow> checks ts k g e \<or> checks ts' k g e"
  by (auto simp: checks_def)

lemma checks_spawned:
  "checks (spawn_checks g' byoe vs ls) k g e \<longleftrightarrow> g = g' \<and> (case k of CheckAddress \<Rightarrow> e \<in> set vs | CheckLock \<Rightarrow> e \<in> set ls)"
  "checks (spawn_check k' g' byoe vs) k g e \<longleftrightarrow> k = k' \<and> g = g' \<and> e \<in> set vs"
  by (cases k; auto simp: checks_def spawn_checks_def spawn_check_def)+

lemma busy_checked: "busy k (check_recipient s) \<Longrightarrow> busy k s \<or> (case k of CheckAddress \<Rightarrow> sr_state s = Unchecked | CheckLock \<Rightarrow> should_recalculate (sr_lock s))"
  by (cases k) (auto simp: busy_def check_recipient_def split: if_splits)

lemma checked_email [simp]: "sr_email (check_recipient s) = sr_email s"
  by (simp add: check_recipient_def)

lemma new_not_busy: "\<not> busy k (new_recipient E Unchecked e)" "sr_email (new_recipient E Unchecked e) = re_email e"
  by (cases k; simp add: busy_def new_recipient_def)+

text \<open>Members whose checks are spawned.\<close>

lemma spawned_for:
  assumes "s \<in> set ss" and "busy k (check_recipient s)"
  shows "busy k s \<or> checks (spawn_checks g byoe (to_validate ss) (to_calculate ss)) k g (sr_email s)"
  using busy_checked [OF assms(2)] assms(1) by (cases k) (auto simp: checks_spawned to_validate_def to_calculate_def)

section \<open>Operations on one list\<close>

lemma add_single_inv:
  assumes "list_inv A l" and "add_single E entry l = Inr l'"
  shows "list_inv A l'" and "l' = l @ [Single (new_recipient E Unchecked entry)]"
  using assms
  by (auto simp: add_single_def add_single_with_state_def list_inv_def duplicate_iff new_not_busy split: if_splits)

lemma checked_add_single_inv:
  assumes "list_inv A l" and "checked_add_single E g byoe entry l = Inr (l', ts)"
  shows "list_inv (\<lambda>k e. A k e \<or> checks ts k g e) l'"
proof -
  let ?n = "new_recipient E Unchecked entry"
  obtain l1 where l1: "add_single E entry l = Inr l1" using assms(2) by (auto simp: checked_add_single_def split: sum.splits)
  note add = add_single_inv [OF assms(1) l1]
  have l': "l' = l @ [Single (check_recipient ?n)]" "ts = spawn_checks g byoe (to_validate [?n]) (to_calculate [?n])"
    using assms(2) l1 add(2) by (auto simp: checked_add_single_def map_members_def recipients_of_def)
  have "distinct (emails l')" using add unfolding l' by (simp add: list_inv_def)
  moreover have "A k (sr_email s) \<or> checks ts k g (sr_email s)" if "s \<in> set (members l')" "busy k s" for k s
    using that assms(1) spawned_for [of ?n "[?n]" k g byoe] new_not_busy(1) [of k E entry] by (auto simp: l' list_inv_def)
  ultimately show ?thesis by (simp add: list_inv_def)
qed

lemma add_group_inv:
  assumes "list_inv A l" and "add_group E name entries n l = (l', ds)" and "distinct (map re_email entries)"
  shows "list_inv A l'"
proof -
  let ?new = "map (new_recipient E Unchecked) (filter (\<lambda>e. re_email e \<notin> set (emails l)) entries)"
  have m: "mset (members l') = mset (members l @ ?new)" using add_group_members [OF assms(2)] by simp
  then have e: "mset (emails l') = mset (emails l @ map sr_email ?new)" by (metis mset_map map_append)
  have new: "map sr_email ?new = map re_email (filter (\<lambda>e. re_email e \<notin> set (emails l)) entries)" by (simp add: comp_def new_not_busy)
  have "distinct (map sr_email ?new)" unfolding new by (rule distinct_map_filter [OF assms(3)])
  moreover have "set (map sr_email ?new) \<subseteq> - set (emails l)" unfolding new by auto
  moreover have "distinct (emails l)" using assms(1) by (simp add: list_inv_def)
  ultimately have "distinct (emails l @ map sr_email ?new)" unfolding distinct_append by blast
  then have "distinct (emails l')" using mset_eq_imp_distinct_iff [OF e] by blast
  moreover have "set (members l') = set (members l) \<union> set ?new" using mset_eq_setD [OF m] by simp
  ultimately show ?thesis using assms(1) by (auto simp: list_inv_def new_not_busy)
qed

lemma checked_add_group_inv:
  assumes "list_inv A l" and "checked_add_group E g byoe name entries n l = (l', ts, ds)" and "distinct (map re_email entries)"
  shows "list_inv (\<lambda>k e. A k e \<or> checks ts k g e) l'"
proof -
  obtain l1 ds1 where l1: "add_group E name entries n l = (l1, ds1)" by fastforce
  let ?ss = "group_members name l1"
  have l': "l' = modify_group name (\<lambda>gr. gr\<lparr>gr_recipients := map check_recipient (gr_recipients gr)\<rparr>) l1"
    "ts = spawn_checks g byoe (to_validate ?ss) (to_calculate ?ss)"
    using assms(2) l1 by (simp_all add: checked_add_group_def)
  have inv: "list_inv A l1" by (rule add_group_inv [OF assms(1) l1 assms(3)])
  note check = group_checked [of check_recipient, OF checked_email, where name = name and l = l1]
  have "A k (sr_email s') \<or> checks ts k g (sr_email s')" if s': "s' \<in> set (members l')" "busy k s'" for k s'
    using check(2) [OF s'(1) [unfolded l'(1)]]
  proof
    assume "\<exists>s \<in> set ?ss. s' = check_recipient s"
    then obtain s where s: "s \<in> set ?ss" "s' = check_recipient s" by blast
    then show ?thesis using spawned_for [OF s(1), of k g byoe] s'(2) inv check(3) by (auto simp: list_inv_def l'(2))
  qed (use inv s' in \<open>simp add: list_inv_def\<close>)
  then show ?thesis using inv check(1) by (simp add: list_inv_def l'(1))
qed

lemma check_all_inv:
  assumes "list_inv A l" and "check_all g byoe l = (l', ts)"
  shows "list_inv (\<lambda>k e. A k e \<or> checks ts k g e) l'"
proof -
  have l': "members l' = map check_recipient (members l)" "ts = spawn_checks g byoe (to_validate (members l)) (to_calculate (members l))"
    using assms(2) by (auto simp: check_all_def members_map)
  have "A k (sr_email s) \<or> checks ts k g (sr_email s)" if "s \<in> set (members l)" "busy k (check_recipient s)" for k s
    using spawned_for [OF that, of g byoe] that(1) assms(1) by (auto simp: list_inv_def l'(2))
  then show ?thesis using assms(1) by (auto simp: list_inv_def l'(1) comp_def)
qed

lemma recalculate_inv:
  assumes "list_inv A l" and "recalculate_all_privacy_locks g byoe l = (l', ts)"
  shows "list_inv (\<lambda>k e. k = CheckAddress \<and> A k e \<or> checks ts k g e) l'"
proof -
  have l': "members l' = map (\<lambda>s. s\<lparr>sr_lock := Calculating\<rparr>) (members l)" "ts = spawn_check CheckLock g byoe (emails l)"
    using assms(2) by (auto simp: recalculate_all_privacy_locks_def members_map)
  have "k = CheckAddress \<and> A k (sr_email s) \<or> checks ts k g (sr_email s)"
    if "s \<in> set (members l)" "busy k (s\<lparr>sr_lock := Calculating\<rparr>)" for k s
    using that assms(1) by (cases k) (auto simp: busy_def list_inv_def l'(2) checks_spawned split: check_kind.splits)
  then show ?thesis using assms(1) by (auto simp: list_inv_def l'(1) comp_def)
qed

text \<open>Reports: what they name is no longer busy, what they do not name is as before.\<close>

lemma modify_all:
  assumes "distinct (map sr_email ss)" and "\<And>e v s. sr_email (f e v s) = sr_email s"
  shows "fold (\<lambda>(e, v). modify_first e (f e v)) us ss = map (\<lambda>s. fold (\<lambda>(e, v) s. if sr_email s = e then f e v s else s) us s) ss"
  using assms(1)
proof (induction us arbitrary: ss)
  case (Cons u us)
  obtain e v where u: "u = (e, v)" by fastforce
  let ?ss = "map (\<lambda>s. if sr_email s = e then f e v s else s) ss"
  have same: "map sr_email ?ss = map sr_email ss" by (auto simp: assms(2))
  then have "distinct (map sr_email ?ss)" using Cons.prems by (simp only:)
  from Cons.IH [OF this] show ?case by (simp add: u modify_first_distinct [OF Cons.prems] comp_def)
qed simp

lemma members_fold_modify:
  "members (fold (\<lambda>(e, v). modify_recipient e (f e v)) us l) = fold (\<lambda>(e, v). modify_first e (f e v)) us (members l)"
  by (induction us arbitrary: l) (auto simp: members_modify)

definition settle :: "(ustring \<Rightarrow> 'v \<Rightarrow> single_recipient \<Rightarrow> single_recipient) \<Rightarrow> (ustring \<times> 'v) list \<Rightarrow> single_recipient \<Rightarrow> single_recipient" where
  "settle f us s = fold (\<lambda>(e, v) s. if sr_email s = e then f e v s else s) us s"

lemma settle_simps [simp]:
  "settle f [] s = s" "settle f ((e, v) # us) s = settle f us (if sr_email s = e then f e v s else s)"
  by (simp_all add: settle_def)

lemma settle_email:
  assumes "\<And>e v s. sr_email (f e v s) = sr_email s"
  shows "sr_email (settle f us s) = sr_email s"
  by (induction us arbitrary: s) (auto simp: assms)

lemma settle_keeps:
  assumes "\<And>e v s. P (f e v s) = P s"
  shows "P (settle f us s) = P s"
  by (induction us arbitrary: s) (auto simp: assms)

lemma settle_ends:
  assumes email: "\<And>e v s. sr_email (f e v s) = sr_email s" and ends: "\<And>e v s. (e, v) \<in> set us \<Longrightarrow> \<not> P (f e v s)" and "P (settle f us s)"
  shows "P s" and "sr_email s \<notin> fst ` set us"
proof -
  have "P s \<and> sr_email s \<notin> fst ` set us"
    using ends assms(3)
  proof (induction us arbitrary: s)
    case (Cons u us)
    obtain e v where u: "u = (e, v)" by fastforce
    let ?s = "if sr_email s = e then f e v s else s"
    have hyp: "P ?s \<and> sr_email ?s \<notin> fst ` set us"
      by (rule Cons.IH) (use Cons.prems in \<open>simp_all add: u\<close>)
    have other: "sr_email s \<noteq> e"
    proof
      assume "sr_email s = e"
      then have "P (f e v s)" using hyp by simp
      then show False using Cons.prems(1) [of e v s] u by simp
    qed
    then show ?case using hyp u by simp
  qed simp
  then show "P s" "sr_email s \<notin> fst ` set us" by blast+
qed

lemma update_inv:
  assumes inv: "list_inv A l" and email: "\<And>e v s. sr_email (f e v s) = sr_email s"
    and ends: "\<And>e v s. (e, v) \<in> set us \<Longrightarrow> \<not> busy k (f e v s)" and keeps: "\<And>e v s k'. k' \<noteq> k \<Longrightarrow> busy k' (f e v s) \<longleftrightarrow> busy k' s"
  shows "list_inv (\<lambda>k' e. A k' e \<and> (k' = k \<longrightarrow> e \<notin> set (map fst us))) (fold (\<lambda>(e, v). modify_recipient e (f e v)) us l)"
proof -
  have m: "members (fold (\<lambda>(e, v). modify_recipient e (f e v)) us l) = map (settle f us) (members l)"
    using inv by (simp add: members_fold_modify modify_all [OF _ email] list_inv_def settle_def)
  have e: "emails (fold (\<lambda>(e, v). modify_recipient e (f e v)) us l) = emails l" unfolding m by (simp add: settle_email [of f, OF email])
  have "A k' (sr_email s) \<and> (k' = k \<longrightarrow> sr_email s \<notin> set (map fst us))" if s: "s \<in> set (members l)" "busy k' (settle f us s)" for k' s
  proof (cases "k' = k")
    case True
    have "busy k s" "sr_email s \<notin> fst ` set us"
      using settle_ends [where f = f and us = us and P = "busy k" and s = s, OF email ends] s(2) True by simp_all
    then show ?thesis using True s(1) inv by (simp add: list_inv_def)
  next
    case False
    then have "busy k' s" using settle_keeps [where f = f and us = us and P = "busy k'" and s = s] keeps s(2) by blast
    then show ?thesis using False s(1) inv by (simp add: list_inv_def)
  qed
  then have "\<forall>k'. \<forall>s \<in> set (members (fold (\<lambda>(e, v). modify_recipient e (f e v)) us l)). busy k' s \<longrightarrow>
      A k' (sr_email s) \<and> (k' = k \<longrightarrow> sr_email s \<notin> set (map fst us))"
    unfolding m by (auto simp: settle_email [of f, OF email])
  moreover have "distinct (emails l)" using inv by (simp add: list_inv_def)
  ultimately show ?thesis unfolding list_inv_def e by blast
qed

section \<open>The actor\<close>

lemma list_of_put [simp]:
  "list_of g' (put_list g l a) = (if g' = g then l else list_of g' a)"
  by (cases g; cases g') (simp_all add: put_list_def recipient_group_from_draft_def set_recipient_group_def)

lemma frame_simps [simp]:
  "da_tasks (put_list g l a) = da_tasks a" "da_inbox (put_list g l a) = da_inbox a" "da_cancelled (put_list g l a) = da_cancelled a"
  "list_of g (spawn ts a) = list_of g a" "da_tasks (spawn ts a) = da_tasks a @ ts" "da_inbox (spawn ts a) = da_inbox a"
  "list_of g (publish_event e a) = list_of g a" "da_tasks (publish_event e a) = da_tasks a" "da_inbox (publish_event e a) = da_inbox a"
  "list_of g (publish_list g' a) = list_of g a" "da_tasks (publish_list g' a) = da_tasks a" "da_inbox (publish_list g' a) = da_inbox a"
  "list_of g (reset_ctoken k a) = list_of g a" "da_inbox (reset_ctoken k a) = da_inbox a"
  "da_tasks (reset_ctoken k a) = filter (\<lambda>t. tk_kind t \<noteq> k) (da_tasks a)"
  by (simp_all add: put_list_def spawn_def publish_event_def publish_list_def reset_ctoken_def)

lemma awaited_simps [simp]:
  "awaited (put_list g' l a) = awaited a" "awaited (publish_list g' a) = awaited a"
  "awaited (publish_event v a) = awaited a" "awaited (spawn ts a) k g e \<longleftrightarrow> awaited a k g e \<or> checks ts k g e"
  by (auto simp: awaited_def checks_append fun_eq_iff)

text \<open>One list changes and tasks for it are spawned.\<close>

lemma put_inv:
  assumes "actor_inv a" and "list_inv (\<lambda>k e. awaited a k g e \<or> checks ts k g e) l"
  shows "actor_inv (spawn ts (put_list g l a))"
  using assms by (auto simp: actor_inv_def list_inv_def)

lemma put_only_inv:
  assumes "actor_inv a" and "list_inv (\<lambda>k. awaited a k g) l"
  shows "actor_inv (put_list g l a)"
  using assms by (auto simp: actor_inv_def)

lemma publish_inv [simp]: "actor_inv (publish_list g a) = actor_inv a" "actor_inv (publish_event e a) = actor_inv a"
  by (simp_all add: actor_inv_def)

lemma list_inv_of: "actor_inv a \<Longrightarrow> list_inv (\<lambda>k. awaited a k g) (list_of g a)"
  by (simp add: actor_inv_def)

lemma add_single_handled:
  assumes "actor_inv a"
  shows "actor_inv (snd (handle_add_single E enabled saved g entry a))"
proof -
  let ?r = "if enabled then checked_add_single E g (d_is_byoe (da_draft a)) entry (list_of g a)
    else map_sum id (\<lambda>l. (l, [])) (add_single E entry (list_of g a))"
  note inv = list_inv_of [OF assms, of g]
  show ?thesis
  proof (cases ?r)
    case (Inl e)
    then show ?thesis using assms by (simp add: handle_add_single_def)
  next
    case (Inr lts)
    obtain l ts where lts: "lts = (l, ts)" by fastforce
    have "list_inv (\<lambda>k e. awaited a k g e \<or> checks ts k g e) l"
    proof (cases enabled)
      case True
      then have "checked_add_single E g (d_is_byoe (da_draft a)) entry (list_of g a) = Inr (l, ts)" using Inr lts by simp
      then show ?thesis by (rule checked_add_single_inv [OF inv])
    next
      case False
      then have "add_single E entry (list_of g a) = Inr l" using Inr lts by (cases "add_single E entry (list_of g a)") auto
      from add_single_inv(1) [OF inv this] show ?thesis by (rule list_inv_mono) simp
    qed
    then have put: "actor_inv (spawn ts (put_list g l a))" by (rule put_inv [OF assms])
    have "actor_inv (put_list g (remove_single (re_email entry) l) (spawn ts (put_list g l a)))"
      using list_inv_of [OF put, of g] by (intro put_only_inv [OF put] list_inv_fewer [OF _ removals_fewer(1)]) simp
    then show ?thesis using put Inr lts by (simp add: handle_add_single_def Let_def)
  qed
qed

lemma add_group_handled:
  assumes "actor_inv a" and "distinct (map re_email entries)"
  shows "actor_inv (snd (handle_add_group E enabled saved g name entries n a))"
proof -
  let ?r = "if enabled then checked_add_group E g (d_is_byoe (da_draft a)) name entries n (list_of g a)
    else case add_group E name entries n (list_of g a) of (l, duplicates) \<Rightarrow> (l, [], duplicates)"
  note inv = list_inv_of [OF assms(1), of g]
  obtain l ts ds where r: "?r = (l, ts, ds)" by (cases ?r) fastforce
  have "list_inv (\<lambda>k e. awaited a k g e \<or> checks ts k g e) l"
  proof (cases enabled)
    case True
    then have "checked_add_group E g (d_is_byoe (da_draft a)) name entries n (list_of g a) = (l, ts, ds)" using r by simp
    then show ?thesis by (rule checked_add_group_inv [OF inv _ assms(2)])
  next
    case False
    then have "add_group E name entries n (list_of g a) = (l, ds)" using r by (auto split: prod.splits)
    from add_group_inv [OF inv this assms(2)] show ?thesis by (rule list_inv_mono) simp
  qed
  then have put: "actor_inv (spawn ts (put_list g l a))" by (rule put_inv [OF assms(1)])
  have "actor_inv (put_list g (remove_group_recipients name (map re_email entries) l) (spawn ts (put_list g l a)))"
    using list_inv_of [OF put, of g] by (intro put_only_inv [OF put] list_inv_fewer [OF _ removals_fewer(3)]) simp
  then show ?thesis using put r by (simp add: handle_add_group_def Let_def)
qed

lemma remove_handled:
  assumes "actor_inv a" and "\<And>l. fewer (f l) l"
  shows "actor_inv (snd (handle_remove saved g f a))"
  using put_only_inv [OF assms(1) list_inv_fewer [OF list_inv_of [OF assms(1)] assms(2)]] by (simp add: handle_remove_def)

text \<open>
  The contract of a checking list towards the actor: an operation on a list spawns, for every recipient that it leaves busy, a check of the same
  list.  The actor keeps its invariant under every such operation.
\<close>

locale list_checker =
  fixes check :: "recipient_group_id \<Rightarrow> bool \<Rightarrow> recipient_list \<Rightarrow> recipient_list \<times> draft_task list"
  assumes spawns: "list_inv A l \<Longrightarrow> check g byoe l = (l', ts) \<Longrightarrow> list_inv (\<lambda>k e. A k e \<or> checks ts k g e) l'"
begin

lemma keeps_actor_inv:
  assumes "actor_inv a"
  shows "actor_inv (on_list check g a)"
proof -
  obtain l ts where "check g (d_is_byoe (da_draft a)) (list_of g a) = (l, ts)" by fastforce
  then show ?thesis using put_inv [OF assms spawns [OF list_inv_of [OF assms]]] by (simp add: on_list_def)
qed

lemma keeps_under_all: "actor_inv a \<Longrightarrow> actor_inv (fold (on_list check) gs a)"
  by (induction gs arbitrary: a) (simp_all add: keeps_actor_inv)

end

interpretation all_checked: list_checker check_all
  by unfold_locales (rule check_all_inv)

interpretation locks_checked: list_checker recalculate_all_privacy_locks
  by unfold_locales (rule list_inv_mono [OF recalculate_inv], auto)

lemma set_list_handled:
  assumes "actor_inv a" and "idle_list l"
  shows "actor_inv (snd (handle_set_list enabled saved g l a))"
proof -
  have new: "list_inv (\<lambda>k. awaited a k g) l" using assms(2) unfolding idle_list_def by (rule list_inv_mono) simp
  have put: "actor_inv (put_list g l a)" by (rule put_only_inv [OF assms(1) new])
  then have chk: "actor_inv (on_list check_all g (put_list g l a))" by (rule all_checked.keeps_actor_inv)
  have "awaited (on_list check_all g (put_list g l a)) k g' e" if "awaited a k g' e" for k g' e
    using that by (simp add: on_list_def split: prod.splits)
  then have "list_inv (\<lambda>k. awaited (on_list check_all g (put_list g l a)) k g) (list_of g a)"
    by (rule list_inv_mono [OF list_inv_of [OF assms(1)]])
  then have "actor_inv (put_list g (list_of g a) (on_list check_all g (put_list g l a)))" by (rule put_only_inv [OF chk])
  moreover have "actor_inv (put_list g (list_of g a) (put_list g l a))"
    using list_inv_of [OF assms(1), of g] by (intro put_only_inv [OF put]) simp
  ultimately show ?thesis using put chk by (simp add: handle_set_list_def Let_def)
qed

text \<open>Recalculating the locks: \<open>gs\<close> are the lists that are still to be done.\<close>

definition locks_open :: "recipient_group_id set \<Rightarrow> draft_actor \<Rightarrow> bool" where
  "locks_open gs a = ((\<forall>g. list_inv (\<lambda>k e. k = CheckLock \<and> g \<in> gs \<or> awaited a k g e) (list_of g a)) \<and> list_all final_update (da_inbox a))"

lemma locks_open_step:
  assumes "locks_open (insert g gs) a" and "g \<notin> gs"
  shows "locks_open gs (on_list recalculate_all_privacy_locks g a)"
proof -
  obtain l ts where r: "recalculate_all_privacy_locks g (d_is_byoe (da_draft a)) (list_of g a) = (l, ts)" by fastforce
  have "list_inv (\<lambda>k e. k = CheckLock \<and> g \<in> insert g gs \<or> awaited a k g e) (list_of g a)" using assms(1) unfolding locks_open_def by blast
  from recalculate_inv [OF this r] have "list_inv (\<lambda>k e. awaited a k g e \<or> checks ts k g e) l" by (rule list_inv_mono) auto
  moreover have "list_inv (\<lambda>k e. k = CheckLock \<and> g' \<in> gs \<or> awaited a k g' e \<or> checks ts k g' e) (list_of g' a)" if "g' \<noteq> g" for g'
    using assms(1) that unfolding locks_open_def by (auto intro: list_inv_mono)
  ultimately show ?thesis using assms r by (auto simp: locks_open_def on_list_def)
qed

lemma recalculate_handled:
  assumes "actor_inv a"
  shows "actor_inv (recalculate_locks enabled a)"
proof -
  have "awaited (reset_ctoken CheckLock a) CheckAddress g e" if "awaited a CheckAddress g e" for g e
    using that by (auto simp: awaited_def checks_def)
  then have "k = CheckLock \<or> awaited (reset_ctoken CheckLock a) k g e" if "awaited a k g e" for k g e using that by (cases k) auto
  then have "list_inv (\<lambda>k e. k = CheckLock \<or> awaited (reset_ctoken CheckLock a) k g e) (list_of g a)" for g
    by (rule list_inv_mono [OF list_inv_of [OF assms]])
  moreover have "g \<in> {To, Cc, Bcc}" for g by (cases g) simp_all
  ultimately have "locks_open {To, Cc, Bcc} (reset_ctoken CheckLock a)" using assms by (simp add: locks_open_def actor_inv_def)
  then have "locks_open {} (on_list recalculate_all_privacy_locks Bcc (on_list recalculate_all_privacy_locks Cc
      (on_list recalculate_all_privacy_locks To (reset_ctoken CheckLock a))))"
    by (intro locks_open_step) simp_all
  then show ?thesis using assms by (simp add: recalculate_locks_def all_groups_def locks_open_def actor_inv_def)
qed

text \<open>Checking everything again is harmless as long as nothing is being checked.\<close>

lemma revalidate_handled:
  assumes "actor_inv a" and "\<And>g. idle_list (list_of g a)"
  shows "actor_inv (revalidate_all enabled a)"
proof -
  have any: "list_inv A l" if "idle_list l" for A l using that unfolding idle_list_def by (rule list_inv_mono) simp
  have "actor_inv (reset_ctoken CheckLock (reset_ctoken CheckAddress a))"
    using assms(1) any [OF assms(2)] by (simp add: actor_inv_def)
  then have "actor_inv (fold (on_list check_all) all_groups (reset_ctoken CheckLock (reset_ctoken CheckAddress a)))"
    by (rule all_checked.keeps_under_all)
  then show ?thesis using assms(1) by (simp add: revalidate_all_def)
qed

lemma set_lists_handled:
  assumes "actor_inv a" and "idle_list t" "idle_list c" "idle_list b"
  shows "actor_inv (snd (handle_set_lists enabled saved t c b a))"
proof -
  let ?a = "put_list Bcc b (put_list Cc c (put_list To t a))"
  have any: "list_inv A l" if "idle_list l" for A l using that unfolding idle_list_def by (rule list_inv_mono) simp
  have lists: "list_of g ?a = (case g of To \<Rightarrow> t | Cc \<Rightarrow> c | Bcc \<Rightarrow> b)" for g by (cases g) simp_all
  have idle: "idle_list (list_of g ?a)" for g unfolding lists using assms(2-4) by (cases g) simp_all
  have "actor_inv ?a" using assms(1) any [OF idle] by (simp add: actor_inv_def)
  then have "actor_inv (revalidate_all enabled ?a)" using idle by (rule revalidate_handled)
  then show ?thesis by (simp add: handle_set_lists_def Let_def)
qed

section \<open>Messages and steps\<close>

text \<open>
  Messages that keep the invariant in a state: the addresses of a new group are different, lists that replace a list have different
  addresses and no check under way, and \<open>RevalidateAllRecipients\<close> comes while no recipient of the draft is being checked.
\<close>

definition orderly :: "draft_actor \<Rightarrow> draft_message \<Rightarrow> bool" where
  "orderly a m = (case m of
     AddRecipientGroup _ _ entries _ \<Rightarrow> distinct (map re_email entries)
   | SetRecipientLists t c b \<Rightarrow> idle_list t \<and> idle_list c \<and> idle_list b
   | SetRecipientList _ l \<Rightarrow> idle_list l
   | RevalidateAllRecipients \<Rightarrow> idle_list (list_of To a) \<and> idle_list (list_of Cc a) \<and> idle_list (list_of Bcc a)
   | _ \<Rightarrow> True)"

lemma byoe_inv [simp]: "actor_inv (a\<lparr>da_draft := (da_draft a)\<lparr>d_is_byoe := b\<rparr>\<rparr>) = actor_inv a"
proof -
  have "list_of g (a\<lparr>da_draft := (da_draft a)\<lparr>d_is_byoe := b\<rparr>\<rparr>) = list_of g a" for g
    by (cases g) (simp_all add: recipient_group_from_draft_def)
  moreover have "awaited (a\<lparr>da_draft := (da_draft a)\<lparr>d_is_byoe := b\<rparr>\<rparr>) = awaited a" by (simp add: awaited_def fun_eq_iff)
  ultimately show ?thesis by (simp add: actor_inv_def)
qed

lemma message_inv:
  assumes "actor_inv a" and "orderly a m"
  shows "actor_inv (snd (handle_message E enabled saved m a))"
proof (cases m)
  case RevalidateAllRecipients
  have "idle_list (list_of g a)" for g using assms(2) RevalidateAllRecipients by (cases g) (simp_all add: orderly_def)
  then show ?thesis using assms(1) RevalidateAllRecipients by (simp add: handle_message_def revalidate_handled)
next
  case (ChangeSenderAddress changed)
  then show ?thesis using assms recalculate_handled by (cases changed) (simp_all add: handle_message_def Let_def)
qed (use assms in \<open>simp_all add: handle_message_def orderly_def add_single_handled add_group_handled remove_handled removals_fewer
    set_list_handled set_lists_handled recalculate_handled\<close>)

lemma run_task_update:
  "update_emails k g (run_task E server prefs t) = (if tk_kind t = k \<and> tk_group t = g then tk_emails t else [])"
  "final_update (run_task E server prefs t)"
proof -
  show "update_emails k g (run_task E server prefs t) = (if tk_kind t = k \<and> tk_group t = g then tk_emails t else [])"
    by (cases "tk_kind t"; cases k) (auto simp: run_task_def update_emails_def calculate_privacy_locks_def comp_def split: option.splits)
  have "validate_address E server e \<noteq> Validating" for e
    by (auto simp: validate_address_def state_of_key_error_def state_of_code_def split: key_answer.splits key_manager_api_error.splits)
  moreover have "calculate_privacy_lock p e \<noteq> Calculating" for p :: "ustring \<Rightarrow> ('a, 'b) send_preferences option" and e
    by (auto simp: calculate_privacy_lock_def split: option.splits)
  ultimately show "final_update (run_task E server prefs t)"
    by (cases "tk_kind t") (auto simp: run_task_def final_update_def calculate_privacy_locks_def list_all_iff split: option.splits)
qed

lemma update_handled:
  assumes inv: "actor_inv a" and inbox: "da_inbox a = u # us"
  shows "actor_inv (handle_update u (a\<lparr>da_inbox := us\<rparr>))"
proof -
  let ?a = "a\<lparr>da_inbox := us\<rparr>"
  have await: "awaited ?a k g e \<or> e \<in> set (update_emails k g u)" if "awaited a k g e" for k g e
    using that inbox by (auto simp: awaited_def)
  have final: "final_update u" "list_all final_update us" using inv inbox by (simp_all add: actor_inv_def)
  have done_list: "actor_inv (put_list g l ?a)"
    if l: "list_inv (\<lambda>k' e. awaited a k' g e \<and> (k' = k \<longrightarrow> e \<notin> set ws)) l" and u: "\<And>k' g'. update_emails k' g' u = (if k' = k \<and> g' = g then ws else [])"
    for k g ws l
  proof -
    have "list_inv (\<lambda>k'. awaited ?a k' g) l" by (rule list_inv_mono [OF l]) (use await u in fastforce)
    moreover have "list_inv (\<lambda>k'. awaited ?a k' g') (list_of g' a)" if "g' \<noteq> g" for g'
      by (rule list_inv_mono [OF list_inv_of [OF inv]]) (use await u that in fastforce)
    ultimately show ?thesis using final(2) by (simp add: actor_inv_def)
  qed
  show ?thesis
  proof (cases u)
    case (OnRecipientValidation g ws)
    have "list_inv (\<lambda>k' e. awaited a k' g e \<and> (k' = CheckAddress \<longrightarrow> e \<notin> set (map fst ws)))
        (fold (\<lambda>(e, v). modify_recipient e (\<lambda>s. s\<lparr>sr_state := v\<rparr>)) ws (list_of g a))"
      by (rule update_inv [OF list_inv_of [OF inv], where f = "\<lambda>e v s. s\<lparr>sr_state := v\<rparr>" and k = CheckAddress])
        (use final(1) OnRecipientValidation in \<open>auto simp: busy_def final_update_def list_all_iff split: check_kind.splits\<close>)
    from done_list [OF this] show ?thesis using OnRecipientValidation
      by (simp add: handle_update_def apply_validation_def update_recipient_validation_state_def [abs_def] update_emails_def)
  next
    case (OnPrivacyLockUpdate g ws)
    have "list_inv (\<lambda>k' e. awaited a k' g e \<and> (k' = CheckLock \<longrightarrow> e \<notin> set (map fst ws)))
        (fold (\<lambda>(e, v). modify_recipient e (\<lambda>s. s\<lparr>sr_lock := v\<rparr>)) ws (list_of g a))"
      by (rule update_inv [OF list_inv_of [OF inv], where f = "\<lambda>e v s. s\<lparr>sr_lock := v\<rparr>" and k = CheckLock])
        (use final(1) OnPrivacyLockUpdate in \<open>auto simp: busy_def final_update_def list_all_iff split: check_kind.splits\<close>)
    from done_list [OF this] show ?thesis using OnPrivacyLockUpdate
      by (simp add: handle_update_def apply_locks_def update_recipient_privacy_lock_def [abs_def] update_emails_def)
  qed
qed

lemma background_inv:
  assumes "background_step E S a a'" and "actor_inv a"
  shows "actor_inv a'"
  using assms(1)
proof (cases rule: background_step.cases)
  case (task_reports ts t ts' server prefs)
  have "awaited a' = awaited a"
    using task_reports by (auto simp: fun_eq_iff awaited_def checks_def run_task_update)
  then show ?thesis using task_reports assms(2) by (simp add: actor_inv_def run_task_update)
next
  case (cancelled_reports ts t ts' server prefs)
  have "list_inv (\<lambda>k. awaited a' k g) (list_of g a)" for g
    by (rule list_inv_mono [OF list_inv_of [OF assms(2)]]) (use cancelled_reports in \<open>auto simp: awaited_def\<close>)
  then show ?thesis using cancelled_reports assms(2) by (simp add: actor_inv_def run_task_update)
next
  case (cancelled_stops ts t ts')
  then have "awaited a' = awaited a" by (simp add: fun_eq_iff awaited_def)
  then show ?thesis using cancelled_stops assms(2) by (simp add: actor_inv_def)
next
  case (report_arrives u us)
  then show ?thesis using update_handled [OF assms(2)] by simp
qed

end
