(* ===== verification/Draft_Steps.thy ===== *)
theory Draft_Steps
  imports Draft_Actor_Inv
begin

text \<open>
  Runs of the draft actor: the states that messages and background steps reach, the end of every run of the background
  steps, and what becomes of a recipient whose check was cancelled.
\<close>

section \<open>Reachable states\<close>

text \<open>
  A draft is opened with lists that no check is under way for; then messages, each of them \<open>permitted\<close> in the state it arrives in, and background
  steps follow in any order.  \<open>enabled\<close> does not change afterwards.
\<close>

inductive reached ::
    "(draft_actor \<Rightarrow> draft_message \<Rightarrow> bool) \<Rightarrow> draft_env \<Rightarrow> ('pub, 'kt) service_answers set \<Rightarrow> bool \<Rightarrow> draft_actor \<Rightarrow> bool"
  for permitted E S enabled where
  opened: "(\<And>g. idle_list (list_of g a)) \<Longrightarrow> da_tasks a = [] \<Longrightarrow> da_cancelled a = [] \<Longrightarrow> da_inbox a = [] \<Longrightarrow> reached permitted E S enabled a"
| message: "reached permitted E S enabled a \<Longrightarrow> permitted a m \<Longrightarrow> reached permitted E S enabled (snd (handle_message E enabled saved m a))"
| background: "reached permitted E S enabled a \<Longrightarrow> background_step E S a a' \<Longrightarrow> reached permitted E S enabled a'"

lemma reached_inv: "reached orderly E S enabled a \<Longrightarrow> actor_inv a"
proof (induction rule: reached.induct)
  case (opened a)
  have "list_inv A l" if "idle_list l" for A l using that unfolding idle_list_def by (rule list_inv_mono) simp
  then show ?case using opened by (simp add: actor_inv_def)
qed (simp_all add: message_inv background_inv)

lemma background_runs: "(background_step E S)\<^sup>*\<^sup>* a a' \<Longrightarrow> reached permitted E S enabled a \<Longrightarrow> reached permitted E S enabled a'"
  by (induction rule: rtranclp_induct) (auto intro: reached.background)

section \<open>The end of the steps\<close>

text \<open>A task takes two steps, its report and the arrival of the report.\<close>

definition pending_work :: "draft_actor \<Rightarrow> nat" where
  "pending_work a = 2 * length (da_tasks a) + 2 * length (da_cancelled a) + length (da_inbox a)"

lemma update_frame [simp]:
  "da_tasks (handle_update u a) = da_tasks a" "da_cancelled (handle_update u a) = da_cancelled a" "da_inbox (handle_update u a) = da_inbox a"
  by (cases u; simp add: handle_update_def publish_list_def publish_event_def)+

lemma step_works: "background_step E S a a' \<Longrightarrow> pending_work a' < pending_work a"
  by (cases rule: background_step.cases) (auto simp: pending_work_def)

lemma steps_bounded: "(background_step E S ^^ n) a a' \<Longrightarrow> n + pending_work a' \<le> pending_work a"
proof (induction n arbitrary: a')
  case (Suc n)
  then obtain b where b: "(background_step E S ^^ n) a b" "background_step E S b a'" by auto
  show ?case using Suc.IH [OF b(1)] step_works [OF b(2)] by simp
qed simp

lemma steps_end: "\<exists>a'. (background_step E S)\<^sup>*\<^sup>* a a' \<and> (\<nexists>b. background_step E S a' b)"
proof (induction "pending_work a" arbitrary: a rule: less_induct)
  case less
  show ?case
  proof (cases "\<exists>b. background_step E S a b")
    case True
    then obtain b where b: "background_step E S a b" by blast
    then show ?thesis using less [OF step_works [OF b]] by (meson converse_rtranclp_into_rtranclp)
  qed blast
qed

lemma ended_empty:
  assumes "\<nexists>b. background_step E S a b" and "S \<noteq> {}"
  shows "da_tasks a = []" and "da_inbox a = []"
proof -
  obtain server prefs where "(server, prefs) \<in> S" using assms(2) by auto
  then show "da_tasks a = []" using assms(1) task_reports [of a "[]" _ _ server prefs S E] by (cases "da_tasks a") auto
  show "da_inbox a = []" using assms(1) report_arrives [of a _ _ E S] by (cases "da_inbox a") auto
qed

lemma ended_settled:
  assumes "actor_inv a" and "\<nexists>b. background_step E S a b" and "S \<noteq> {}" and "s \<in> set (members (list_of g a))"
  shows "sr_state s \<noteq> Validating \<and> sr_lock s \<noteq> Calculating"
proof -
  have "\<not> awaited a k g e" for k e using ended_empty [OF assms(2,3)] by (simp add: awaited_def checks_def)
  then have "\<not> busy k s" for k using assms(4) list_inv_of [OF assms(1), of g] unfolding list_inv_def by blast
  from this [of CheckAddress] this [of CheckLock] show ?thesis by (simp add: busy_def)
qed

text \<open>Steps in the background change no address.\<close>

lemma modify_first_emails: "(\<And>s. sr_email (f s) = sr_email s) \<Longrightarrow> map sr_email (modify_first e f ss) = map sr_email ss"
proof -
  assume f: "\<And>s. sr_email (f s) = sr_email s"
  have "map sr_email (case modify_single e f ss of Some ss' \<Rightarrow> ss' | None \<Rightarrow> ss) = map sr_email ss"
    by (induction ss) (auto simp: f split: option.splits)
  then show ?thesis by (simp add: modify_first_def)
qed

lemma fold_emails:
  assumes "\<And>e v s. sr_email (f e v s) = sr_email s"
  shows "emails (fold (\<lambda>(e, v). modify_recipient e (f e v)) us l) = emails l"
  by (induction us arbitrary: l) (auto simp: members_modify modify_first_emails assms)

lemma update_emails_same: "emails (list_of g (handle_update u a)) = emails (list_of g a)"
proof (cases u)
  case (OnRecipientValidation g' us)
  then show ?thesis using fold_emails [of "\<lambda>e v s. s\<lparr>sr_state := v\<rparr>" us]
    by (simp add: handle_update_def apply_validation_def update_recipient_validation_state_def [abs_def])
next
  case (OnPrivacyLockUpdate g' us)
  then show ?thesis using fold_emails [of "\<lambda>e v s. s\<lparr>sr_lock := v\<rparr>" us]
    by (simp add: handle_update_def apply_locks_def update_recipient_privacy_lock_def [abs_def])
qed

lemma steps_emails: "(background_step E S)\<^sup>*\<^sup>* a a' \<Longrightarrow> emails (list_of g a') = emails (list_of g a)"
proof (induction rule: rtranclp_induct)
  case (step b c)
  have "emails (list_of g c) = emails (list_of g b)"
    using step(2) by (cases rule: background_step.cases) (simp_all add: update_emails_same)
  then show ?case using step(3) by simp
qed simp

section \<open>Cancelled checks\<close>

definition stranded :: "recipient_group_id \<Rightarrow> ustring \<Rightarrow> draft_actor \<Rightarrow> bool" where
  "stranded g e a = ((\<exists>s \<in> set (members (list_of g a)). sr_email s = e \<and> sr_state s = Validating) \<and> \<not> awaited a CheckAddress g e)"

lemma modify_first_keeps:
  assumes "s \<in> set ss" and "P s" and "sr_email s = e \<Longrightarrow> P (f s)"
  shows "\<exists>s' \<in> set (modify_first e f ss). P s'"
proof -
  have "\<exists>s' \<in> set (case modify_single e f ss of Some ss' \<Rightarrow> ss' | None \<Rightarrow> ss). P s'"
    using assms by (induction ss) (auto split: option.splits)
  then show ?thesis by (simp add: modify_first_def)
qed

lemma fold_keeps:
  assumes "s \<in> set (members l)" and "P s" and "\<And>e v s. (e, v) \<in> set us \<Longrightarrow> P s \<Longrightarrow> sr_email s = e \<Longrightarrow> P (f e v s)"
  shows "\<exists>s' \<in> set (members (fold (\<lambda>(e, v). modify_recipient e (f e v)) us l)). P s'"
  using assms
proof (induction us arbitrary: l s)
  case (Cons u us)
  obtain e v where u: "u = (e, v)" by fastforce
  obtain s' where s': "s' \<in> set (members (modify_recipient e (f e v) l))" "P s'"
    using modify_first_keeps [OF Cons.prems(1), of P e "f e v"] Cons.prems(2,3) u by (auto simp: members_modify)
  have "\<exists>s'' \<in> set (members (fold (\<lambda>(e, v). modify_recipient e (f e v)) us (modify_recipient e (f e v) l))). P s''"
    by (rule Cons.IH [OF s']) (use Cons.prems(3) in auto)
  then show ?case by (simp add: u)
qed auto

lemma stranded_update:
  assumes "stranded g e a" and "e \<notin> set (update_emails CheckAddress g u)"
  shows "\<exists>s \<in> set (members (list_of g (handle_update u a))). sr_email s = e \<and> sr_state s = Validating"
proof -
  let ?P = "\<lambda>s. sr_email s = e \<and> sr_state s = Validating"
  obtain s where s: "s \<in> set (members (list_of g a))" "?P s" using assms(1) by (auto simp: stranded_def)
  show ?thesis
  proof (cases u)
    case (OnRecipientValidation g' us)
    have "\<exists>s' \<in> set (members (fold (\<lambda>(e, v). modify_recipient e (\<lambda>s. s\<lparr>sr_state := v\<rparr>)) us (list_of g a))). ?P s'" if "g' = g"
      by (rule fold_keeps [OF s(1), where P = ?P]) (use s assms(2) that OnRecipientValidation in \<open>force simp: update_emails_def\<close>)+
    then show ?thesis using s OnRecipientValidation
      by (auto simp: handle_update_def apply_validation_def update_recipient_validation_state_def [abs_def])
  next
    case (OnPrivacyLockUpdate g' us)
    have "\<exists>s' \<in> set (members (fold (\<lambda>(e, v). modify_recipient e (\<lambda>s. s\<lparr>sr_lock := v\<rparr>)) us (list_of g a))). ?P s'"
      by (rule fold_keeps [OF s(1), where P = ?P]) (use s in simp_all)
    then show ?thesis using s OnPrivacyLockUpdate
      by (auto simp: handle_update_def apply_locks_def update_recipient_privacy_lock_def [abs_def])
  qed
qed

lemma stranded_step:
  assumes "background_step E S a a'" and "stranded g e a" and "da_cancelled a = []"
  shows "stranded g e a' \<and> da_cancelled a' = []"
  using assms(1)
proof (cases rule: background_step.cases)
  case (task_reports ts t ts' server prefs)
  have "awaited a' = awaited a" using task_reports by (auto simp: fun_eq_iff awaited_def checks_def run_task_update)
  then show ?thesis using assms task_reports by (simp add: stranded_def)
next
  case (report_arrives u us)
  have no: "e \<notin> set (update_emails CheckAddress g u)" and rest: "stranded g e (a\<lparr>da_inbox := us\<rparr>)"
    using assms(2) report_arrives(2) by (auto simp: stranded_def awaited_def)
  have "\<not> awaited a' CheckAddress g e" using rest report_arrives(1) by (simp add: stranded_def awaited_def)
  then show ?thesis using stranded_update [OF rest no] assms(3) report_arrives(1) by (simp add: stranded_def)
qed (use assms(3) in simp_all)

lemma stranded_steps:
  assumes "(background_step E S)\<^sup>*\<^sup>* a a'" and "stranded g e a" and "da_cancelled a = []"
  shows "stranded g e a'"
proof -
  have "stranded g e a' \<and> da_cancelled a' = []" using assms by (induction rule: rtranclp_induct) (auto dest: stranded_step)
  then show ?thesis by blast
qed

lemma cancelled_stop: "(background_step E S)\<^sup>*\<^sup>* a (a\<lparr>da_cancelled := []\<rparr>)"
proof (induction "da_cancelled a" arbitrary: a)
  case (Cons t ts)
  have "background_step E S a (a\<lparr>da_cancelled := ts\<rparr>)" using cancelled_stops [of a "[]" t ts E S] Cons(2) by simp
  moreover have "(background_step E S)\<^sup>*\<^sup>* (a\<lparr>da_cancelled := ts\<rparr>) (a\<lparr>da_cancelled := []\<rparr>)" using Cons(1) [of "a\<lparr>da_cancelled := ts\<rparr>"] by simp
  ultimately show ?case by (rule converse_rtranclp_into_rtranclp)
next
  case Nil
  then have "a\<lparr>da_cancelled := []\<rparr> = a" by (cases a) simp
  then show ?case by simp
qed

text \<open>A check of all recipients does not check one that is already being checked.\<close>

lemma check_all_strands:
  assumes "stranded g e a" and "distinct (emails (list_of g a))"
  shows "stranded g e (on_list check_all g' a)" and "distinct (emails (list_of g (on_list check_all g' a)))"
proof -
  obtain s where s: "s \<in> set (members (list_of g a))" "sr_email s = e" "sr_state s = Validating" using assms(1) by (auto simp: stranded_def)
  have other: "sr_state s' \<noteq> Unchecked" if "s' \<in> set (members (list_of g a))" "sr_email s' = e" for s'
  proof -
    have "s' = s" using inj_onD [OF conjunct2 [OF assms(2) [unfolded distinct_map]], of s' s] that s by simp
    then show ?thesis using s(3) by simp
  qed
  have "e \<notin> set (to_validate (members (list_of g a)))" using other by (auto simp: to_validate_def)
  moreover have "check_recipient s \<in> set (map check_recipient (members (list_of g a)))" "sr_email (check_recipient s) = e" "sr_state (check_recipient s) = Validating"
    using s by (simp_all) (simp add: check_recipient_def)
  ultimately show "stranded g e (on_list check_all g' a)"
    using assms(1) s by (auto simp: stranded_def on_list_def check_all_def members_map checks_spawned)
  show "distinct (emails (list_of g (on_list check_all g' a)))"
    using assms(2) by (auto simp: on_list_def check_all_def members_map comp_def)
qed

lemma revalidated_stranded:
  assumes "actor_inv a" and "da_inbox a = []" and "s \<in> set (members (list_of g a))" "sr_state s = Validating"
  shows "stranded g (sr_email s) (revalidate_all True a)"
proof -
  let ?a = "reset_ctoken CheckLock (reset_ctoken CheckAddress a)"
  have d: "distinct (emails (list_of g a))" using assms(1) by (simp add: actor_inv_def list_inv_def)
  have "stranded g (sr_email s) ?a" using assms(2-4) by (auto simp: stranded_def awaited_def checks_def)
  then have "stranded g (sr_email s) (on_list check_all Bcc (on_list check_all Cc (on_list check_all To ?a)))"
    using d by (intro check_all_strands) simp_all
  then show ?thesis by (simp add: revalidate_all_def all_groups_def)
qed

end
