(* ===== verification/Draft_Email.thy ===== *)
theory Draft_Email
  imports Ics_Reader
begin

text \<open>
  The canonical form of e-mail addresses (\<open>shared/canonical-email/src/email.rs\<close>).  Strings are lists of
  code points.  \<open>str::to_lowercase\<close> follows the tables of Unicode and is an argument \<open>lower\<close>; \<open>lower_ok\<close> states
  what the proofs use of it.
\<close>

section \<open>Lower case\<close>

text \<open>
  Lower case is stable, it neither makes nor removes the five signs, and the sign \<open>@\<close> separates what is before
  it from what is after it (it is neither a letter nor ignored by the rule for the final sigma).
\<close>

definition lower_ok :: "(ustring \<Rightarrow> ustring) \<Rightarrow> bool" where
  "lower_ok lower = (lower [] = [] \<and> (\<forall>s. lower (lower s) = lower s)
     \<and> (\<forall>s. \<forall>c \<in> {43, 45, 46, 64, 95}. c \<in> set (lower s) \<longleftrightarrow> c \<in> set s)
     \<and> (\<forall>a b. lower (a @ 64 # b) = lower a @ 64 # lower b))"

lemma lower_okD:
  assumes "lower_ok lower"
  shows "lower (lower s) = lower s" "lower (a @ 64 # b) = lower a @ 64 # lower b"
    "64 \<in> set (lower s) \<longleftrightarrow> 64 \<in> set s" "43 \<in> set (lower s) \<longleftrightarrow> 43 \<in> set s" "46 \<in> set (lower s) \<longleftrightarrow> 46 \<in> set s"
    "45 \<in> set (lower s) \<longleftrightarrow> 45 \<in> set s" "95 \<in> set (lower s) \<longleftrightarrow> 95 \<in> set s" "lower [] = []"
  using assms unfolding lower_ok_def by blast+

lemma ascii_lower_ok: "lower_ok (map ascii_lower)"
  by (auto simp: lower_ok_def ascii_lower_def image_iff split: if_splits)

section \<open>Schemes\<close>

definition PROTONMAIL_DOMAINS :: "ustring list" where
  "PROTONMAIL_DOMAINS = map ascii [''protonmail.com'', ''protonmail.ch'', ''pm.me'', ''proton.me'', ''proton.ch'', ''external.proton.ch'']"

definition GMAIL_DOMAINS :: "ustring list" where
  "GMAIL_DOMAINS = map ascii [''gmail.com'', ''googlemail.com'', ''google.com'']"

definition PLUS_DOMAINS :: "ustring list" where
  "PLUS_DOMAINS = map ascii [''hotmail.com'', ''hotmail.co.uk'', ''hotmail.fr'', ''outlook.com'', ''yandex.ru'', ''mail.ru'']"

datatype canonicalize_scheme = SchemeDefault | SchemePlus | SchemeGmail | SchemeProton

definition normalize_domain :: "(ustring \<Rightarrow> ustring) \<Rightarrow> ustring \<Rightarrow> ustring" where
  "normalize_domain lower domain = lower domain"

definition infer_from_domain :: "(ustring \<Rightarrow> ustring) \<Rightarrow> ustring \<Rightarrow> canonicalize_scheme" where
  "infer_from_domain lower domain =
    (let domain = normalize_domain lower domain
     in if domain \<in> set PROTONMAIL_DOMAINS then SchemeProton
        else if domain \<in> set GMAIL_DOMAINS then SchemeGmail
        else if domain \<in> set PLUS_DOMAINS then SchemePlus
        else SchemeDefault)"

text \<open>\<open>split('+').next()\<close>.\<close>

definition remove_plus_alias_local_part :: "ustring \<Rightarrow> ustring" where
  "remove_plus_alias_local_part s = takeWhile (\<lambda>c. c \<noteq> 43) s"

definition normalize_local_part :: "(ustring \<Rightarrow> ustring) \<Rightarrow> canonicalize_scheme \<Rightarrow> ustring \<Rightarrow> ustring" where
  "normalize_local_part lower scheme s = (case scheme of
     SchemeDefault \<Rightarrow> lower s
   | SchemePlus \<Rightarrow> lower (remove_plus_alias_local_part s)
   | SchemeGmail \<Rightarrow> lower (filter (\<lambda>c. c \<noteq> 46) (remove_plus_alias_local_part s))
   | SchemeProton \<Rightarrow> lower (filter (\<lambda>c. c \<noteq> 46 \<and> c \<noteq> 95 \<and> c \<noteq> 45) (remove_plus_alias_local_part s)))"

text \<open>Split at the last \<open>@\<close>.\<close>

definition email_parts :: "ustring \<Rightarrow> ustring \<times> ustring \<times> ustring" where
  "email_parts email =
    (if 64 \<in> set email
     then (rev (tl (dropWhile (\<lambda>c. c \<noteq> 64) (rev email))), [64], rev (takeWhile (\<lambda>c. c \<noteq> 64) (rev email)))
     else (email, [], []))"

definition canonicalize :: "(ustring \<Rightarrow> ustring) \<Rightarrow> ustring \<Rightarrow> canonicalize_scheme \<Rightarrow> ustring" where
  "canonicalize lower email scheme =
    (if scheme = SchemeDefault then lower email
     else case email_parts email of (local_part, at, domain_part) \<Rightarrow>
       normalize_local_part lower scheme local_part @ at @ normalize_domain lower domain_part)"

definition canonicalize_auto :: "(ustring \<Rightarrow> ustring) \<Rightarrow> ustring \<Rightarrow> ustring" where
  "canonicalize_auto lower email = (case email_parts email of (_, _, domain_part) \<Rightarrow>
     canonicalize lower email (infer_from_domain lower domain_part))"

section \<open>Parts of an address\<close>

lemma email_parts_at:
  assumes "64 \<notin> set domain"
  shows "email_parts (l @ 64 # domain) = (l, [64], domain)"
proof -
  have "\<forall>c \<in> set (rev domain). c \<noteq> 64" using assms by auto
  then have "takeWhile (\<lambda>c. c \<noteq> 64) (rev domain @ 64 # rev l) = rev domain" "dropWhile (\<lambda>c. c \<noteq> 64) (rev domain @ 64 # rev l) = 64 # rev l"
    by (simp_all add: takeWhile_append dropWhile_append takeWhile_eq_all_conv)
  then show ?thesis by (simp add: email_parts_def)
qed

lemma email_parts_cases:
  obtains "64 \<notin> set email" "email_parts email = (email, [], [])"
    | l d where "email = l @ 64 # d" "64 \<notin> set d" "email_parts email = (l, [64], d)"
proof (cases "64 \<in> set email")
  case True
  then obtain l d where "email = l @ 64 # d" "64 \<notin> set d" using split_list_last by metis
  then show ?thesis using that(2) email_parts_at by blast
next
  case False
  then show ?thesis using that(1) by (simp add: email_parts_def)
qed

lemma plus_free: "43 \<notin> set (remove_plus_alias_local_part s)"
  by (auto simp: remove_plus_alias_local_part_def dest: set_takeWhileD)

lemma no_plus_same: "43 \<notin> set s \<Longrightarrow> remove_plus_alias_local_part s = s"
  by (auto simp: remove_plus_alias_local_part_def takeWhile_eq_all_conv)

lemma normalize_local_idem:
  assumes "lower_ok lower"
  shows "normalize_local_part lower scheme (normalize_local_part lower scheme s) = normalize_local_part lower scheme s"
proof -
  note low = lower_okD [OF assms]
  have stable: "filter P (remove_plus_alias_local_part (lower x)) = lower x"
    if "43 \<notin> set x" "\<forall>c \<in> set (lower x). P c" for P x
    using that low(4) [of x] by (simp add: no_plus_same filter_id_conv)
  have plus: "43 \<notin> set (filter P (remove_plus_alias_local_part s))" for P using plus_free by auto
  show ?thesis
  proof (cases scheme)
    case SchemeDefault
    then show ?thesis by (simp add: normalize_local_part_def low(1))
  next
    case SchemePlus
    moreover have "43 \<notin> set (lower (remove_plus_alias_local_part s))" using plus_free low(4) [of "remove_plus_alias_local_part s"] by simp
    ultimately show ?thesis by (simp add: normalize_local_part_def low(1) no_plus_same)
  next
    case SchemeGmail
    let ?x = "filter (\<lambda>c. c \<noteq> 46) (remove_plus_alias_local_part s)"
    have "\<forall>c \<in> set (lower ?x). c \<noteq> 46" using low(5) [of ?x] by auto
    then have "filter (\<lambda>c. c \<noteq> 46) (remove_plus_alias_local_part (lower ?x)) = lower ?x" by (rule stable [OF plus])
    then show ?thesis unfolding SchemeGmail normalize_local_part_def canonicalize_scheme.case by (simp only: low(1))
  next
    case SchemeProton
    let ?x = "filter (\<lambda>c. c \<noteq> 46 \<and> c \<noteq> 95 \<and> c \<noteq> 45) (remove_plus_alias_local_part s)"
    have "\<forall>c \<in> set (lower ?x). c \<noteq> 46 \<and> c \<noteq> 95 \<and> c \<noteq> 45" using low(5-7) [of ?x] by auto
    then have "filter (\<lambda>c. c \<noteq> 46 \<and> c \<noteq> 95 \<and> c \<noteq> 45) (remove_plus_alias_local_part (lower ?x)) = lower ?x" by (rule stable [OF plus])
    then show ?thesis unfolding SchemeProton normalize_local_part_def canonicalize_scheme.case by (simp only: low(1))
  qed
qed

lemma canonicalize_at:
  assumes "64 \<notin> set d"
  shows "canonicalize lower (l @ 64 # d) scheme =
    (if scheme = SchemeDefault then lower (l @ 64 # d) else normalize_local_part lower scheme l @ 64 # lower d)"
  using assms by (simp add: canonicalize_def email_parts_at normalize_domain_def)

lemma canonicalize_auto_at:
  assumes "64 \<notin> set d"
  shows "canonicalize_auto lower (l @ 64 # d) = canonicalize lower (l @ 64 # d) (infer_from_domain lower d)"
  using assms by (simp add: canonicalize_auto_def email_parts_at)

section \<open>Canonical addresses\<close>

lemma infer_lower: "lower_ok lower \<Longrightarrow> infer_from_domain lower (lower d) = infer_from_domain lower d"
  by (simp add: infer_from_domain_def normalize_domain_def lower_okD(1))

text \<open>The canonical form of a canonical form, with the scheme that is given or inferred.\<close>

lemma canonicalize_idem:
  assumes "lower_ok lower"
  shows "canonicalize lower (canonicalize lower email scheme) scheme = canonicalize lower email scheme"
proof -
  note low = lower_okD [OF assms]
  show ?thesis
  proof (cases rule: email_parts_cases [of email])
    case 1
    have "64 \<notin> set (normalize_local_part lower scheme email)" if "scheme \<noteq> SchemeDefault"
      using 1(1) low(3) by (cases scheme) (auto simp: normalize_local_part_def remove_plus_alias_local_part_def dest: set_takeWhileD)
    then show ?thesis using 1 by (simp add: canonicalize_def low(1,8) email_parts_def normalize_domain_def normalize_local_idem [OF assms])
  next
    case (2 l d)
    have "64 \<notin> set (lower d)" using 2(2) low(3) [of d] by simp
    then show ?thesis unfolding 2(1) canonicalize_at [OF 2(2)] by (simp add: canonicalize_at low(1,2) normalize_local_idem [OF assms])
  qed
qed

lemma canonicalize_auto_idem:
  assumes "lower_ok lower"
  shows "canonicalize_auto lower (canonicalize_auto lower email) = canonicalize_auto lower email"
proof -
  note low = lower_okD [OF assms]
  have empty: "infer_from_domain lower [] = SchemeDefault"
    by (simp add: infer_from_domain_def normalize_domain_def low(8) PROTONMAIL_DOMAINS_def GMAIL_DOMAINS_def PLUS_DOMAINS_def ascii_def)
  show ?thesis
  proof (cases rule: email_parts_cases [of email])
    case 1
    then have "canonicalize_auto lower email = lower email" by (simp add: canonicalize_auto_def canonicalize_def empty)
    moreover have "64 \<notin> set (lower email)" using 1(1) low(3) [of email] by simp
    ultimately show ?thesis by (simp add: canonicalize_auto_def email_parts_def canonicalize_def empty low(1))
  next
    case (2 l d)
    let ?s = "infer_from_domain lower d"
    have d: "64 \<notin> set (lower d)" using 2(2) low(3) [of d] by simp
    have "canonicalize lower email ?s = (if ?s = SchemeDefault then lower l else normalize_local_part lower ?s l) @ 64 # lower d"
      by (simp add: 2(1) canonicalize_at [OF 2(2)] low(2))
    then obtain l' where c: "canonicalize lower email ?s = l' @ 64 # lower d" by blast
    have "canonicalize_auto lower email = canonicalize lower email ?s" by (simp add: 2(1) canonicalize_auto_at [OF 2(2)])
    moreover have "canonicalize_auto lower (l' @ 64 # lower d) = canonicalize lower (l' @ 64 # lower d) ?s"
      by (simp add: canonicalize_auto_at [OF d] infer_lower [OF assms])
    ultimately show ?thesis using canonicalize_idem [OF assms, of email ?s] by (simp add: c)
  qed
qed

text \<open>An alias after \<open>+\<close> does not change the canonical form where the provider has aliases.\<close>

lemma canonical_alias:
  assumes "64 \<notin> set d" and "infer_from_domain lower d \<noteq> SchemeDefault"
  shows "canonicalize_auto lower ((l @ 43 # tag) @ 64 # d) = canonicalize_auto lower (l @ 64 # d)"
proof -
  have "remove_plus_alias_local_part (l @ 43 # tag) = remove_plus_alias_local_part l"
    by (simp add: remove_plus_alias_local_part_def takeWhile_tail)
  then show ?thesis
    using assms(2) unfolding canonicalize_auto_at [OF assms(1)] canonicalize_at [OF assms(1)]
    by (cases "infer_from_domain lower d") (simp_all add: normalize_local_part_def)
qed

end
