(* ===== verification/Draft_Reply.thy ===== *)
theory Draft_Reply
  imports Draft_Email Draft_Recipients "HOL-Library.Word"
begin

text \<open>
  Replies (\<open>draft/compose.rs\<close> and \<open>new_draft_reply\<close>, \<open>reply\<close> of \<open>draft/draft_v1.rs\<close>): who receives a reply, from which address it
  is sent, its subject, its signature and the quote.  The HTML transformer (a third-party HTML parser) and the format of dates
  are the fields of \<open>compose_env\<close>.
\<close>

unbundle bit_operations_syntax

section \<open>Messages, users and addresses\<close>

datatype reply_mode = ReplySender | ReplyAll | ReplyForward

datatype message_mime_type = TextHtml | TextPlain

datatype disposition = DispAttachment | DispInline

datatype header_value = HeaderText ustring | HeaderTexts "ustring list"

record source_message =
  sm_remote_id :: "nat option"
  sm_sender_name :: ustring
  sm_sender_address :: ustring
  sm_time :: nat
  sm_label_ids :: "ustring list"
  sm_flags :: "64 word"
  sm_to_list :: "message_recipient list"
  sm_cc_list :: "message_recipient list"
  sm_subject :: ustring

text \<open>Of a header what \<open>parsed_header_value\<close> reads of its JSON value: a string, an array whose strings are kept, or something else.\<close>

datatype header_json = JsonString ustring | JsonArray "ustring option list" | JsonOther

record 'att message_body =
  mb_reply_to :: message_reply_to
  mb_reply_tos :: "message_reply_to list"
  mb_headers :: "ustring \<rightharpoonup> header_json"
  mb_mime_type :: message_mime_type
  mb_body :: ustring
  mb_attachments :: "(disposition \<times> 'att) list"

definition header_value_of :: "ustring \<Rightarrow> 'att message_body \<Rightarrow> header_value option" where
  "header_value_of key b = (case mb_headers b key of
     Some (JsonString s) \<Rightarrow> Some (HeaderText s)
   | Some (JsonArray items) \<Rightarrow> Some (HeaderTexts (List.map_filter id items))
   | _ \<Rightarrow> None)"

definition MESSAGE_SENT :: "64 word" where
  "MESSAGE_SENT = push_bit 1 1"

definition MESSAGE_RECEIVED :: "64 word" where
  "MESSAGE_RECEIVED = 1"

definition flags_is_sent :: "64 word \<Rightarrow> bool" where
  "flags_is_sent flags = (flags AND MESSAGE_SENT \<noteq> 0)"

definition flags_is_draft :: "64 word \<Rightarrow> bool" where
  "flags_is_draft flags = (flags AND (MESSAGE_SENT OR MESSAGE_RECEIVED) = 0)"

definition is_sent :: "source_message \<Rightarrow> bool" where
  "is_sent m = ((ascii ''2'' \<in> set (sm_label_ids m) \<or> ascii ''7'' \<in> set (sm_label_ids m)) \<and> flags_is_sent (sm_flags m))"

datatype user_role = RoleNone | RoleMember | RoleAdmin | RoleUnknown nat

datatype delinquent_state = Paid | Available | Overdue | Delinquent | NotReceived

record draft_user =
  us_subscribed :: "32 word"
  us_role :: user_role
  us_delinquent :: delinquent_state

definition SUBSCRIPTION_MAIL :: "32 word" where
  "SUBSCRIPTION_MAIL = 1"

definition is_delinquent :: "draft_user \<Rightarrow> bool" where
  "is_delinquent u = (us_delinquent u \<noteq> Paid)"

definition has_paid_mail_plan :: "draft_user \<Rightarrow> bool" where
  "has_paid_mail_plan u = ((us_subscribed u AND SUBSCRIPTION_MAIL = SUBSCRIPTION_MAIL \<or> us_role u = RoleMember) \<and> \<not> is_delinquent u)"

datatype address_status = AddrDisabled | AddrEnabled | AddrDeleting

record sender_address =
  ad_remote_id :: nat
  ad_email :: ustring
  ad_status :: address_status
  ad_send :: bool
  ad_receive :: bool
  ad_order :: nat
  ad_flags :: "32 word option"
  ad_signature :: ustring

definition ADDRESS_BYOE :: "32 word" where
  "ADDRESS_BYOE = push_bit 6 1"

definition is_byoe :: "sender_address \<Rightarrow> bool" where
  "is_byoe a = (case ad_flags a of Some flags \<Rightarrow> flags AND ADDRESS_BYOE = ADDRESS_BYOE | None \<Rightarrow> False)"

record compose_env =
  ce_draft :: draft_env
  ce_lower :: "ustring \<Rightarrow> ustring"
  ce_plain_text :: "ustring \<Rightarrow> ustring option"
  ce_sanitize_reply :: "ustring \<Rightarrow> ustring"
  ce_sanitize_html :: "ustring \<Rightarrow> ustring"
  ce_date :: "nat \<Rightarrow> bool \<Rightarrow> ustring"

section \<open>The sender\<close>

datatype address_validation_error = SubscriptionRequired | AddressDisabled | CanNotSend | CanNotReceive

record address_validation_result =
  av_email :: ustring
  av_error :: address_validation_error

definition validate_sender_address :: "(ustring \<Rightarrow> ustring) \<Rightarrow> sender_address \<Rightarrow> draft_user \<Rightarrow> address_validation_result option" where
  "validate_sender_address lower a u =
    (if ad_status a \<noteq> AddrEnabled then Some \<lparr>av_email = ad_email a, av_error = AddressDisabled\<rparr>
     else if \<not> ad_send a then Some \<lparr>av_email = ad_email a, av_error = CanNotSend\<rparr>
     else if \<not> ad_receive a then Some \<lparr>av_email = ad_email a, av_error = CanNotReceive\<rparr>
     else if ends_with (lower (ad_email a)) (ascii ''@pm.me'') \<and> \<not> has_paid_mail_plan u
       then Some \<lparr>av_email = ad_email a, av_error = SubscriptionRequired\<rparr>
     else None)"

text \<open>\<open>find_valid_sender_address\<close>: the first row of the query, by display order.\<close>

definition find_valid_sender_address :: "sender_address list \<Rightarrow> sender_address option" where
  "find_valid_sender_address as =
    (case sort_key ad_order (filter (\<lambda>a. ad_send a \<and> ad_receive a \<and> ad_status a = AddrEnabled) as) of
       [] \<Rightarrow> None | a # _ \<Rightarrow> Some a)"

definition all_send_enabled :: "sender_address list \<Rightarrow> sender_address list" where
  "all_send_enabled as = sort_key ad_order (filter (\<lambda>a. ad_send a \<and> ad_status a = AddrEnabled) as)"

definition get_alias_component :: "ustring \<Rightarrow> ustring option" where
  "get_alias_component email =
    (let plus_index = length (takeWhile (\<lambda>c. c \<noteq> 43) email); at_index = length (takeWhile (\<lambda>c. c \<noteq> 64) email)
     in if plus_index < length email \<and> at_index < length email \<and> plus_index < at_index
        then Some (take (at_index - (plus_index + 1)) (drop (plus_index + 1) email)) else None)"

definition apply_alias :: "ustring \<Rightarrow> ustring \<Rightarrow> ustring" where
  "apply_alias address_email alias =
    (if 64 \<in> set address_email
     then takeWhile (\<lambda>c. c \<noteq> 64) address_email @ 43 # alias @ dropWhile (\<lambda>c. c \<noteq> 64) address_email
     else address_email)"

definition resolve_sender_alias :: "ustring \<Rightarrow> 'att message_body \<Rightarrow> ustring" where
  "resolve_sender_alias address_email b =
    (case map_option (\<lambda>v. case v of HeaderText s \<Rightarrow> s | HeaderTexts [] \<Rightarrow> address_email | HeaderTexts (s # _) \<Rightarrow> s)
        (header_value_of (ascii ''X-Original-To'') b) of
       None \<Rightarrow> address_email
     | Some original_to \<Rightarrow> (case get_alias_component original_to of
         None \<Rightarrow> address_email
       | Some alias \<Rightarrow> apply_alias address_email alias))"

definition draft_sender_addresses_impl :: "ustring option \<Rightarrow> nat \<Rightarrow> sender_address list \<Rightarrow> sender_address list" where
  "draft_sender_addresses_impl sender_alias address_id addresses = (case sender_alias of
     None \<Rightarrow> addresses
   | Some email \<Rightarrow> (case find (\<lambda>a. ad_remote_id a = address_id) addresses of
       None \<Rightarrow> addresses
     | Some a \<Rightarrow> a\<lparr>ad_email := email\<rparr> # addresses))"

definition draft_sender_addresses :: "ustring option \<Rightarrow> nat \<Rightarrow> sender_address list \<Rightarrow> sender_address list" where
  "draft_sender_addresses sender_alias address_id stored = draft_sender_addresses_impl sender_alias address_id (all_send_enabled stored)"

section \<open>The signature\<close>

datatype draft_platform = Desktop | Mobile

datatype target_os = Android | Ios | OtherOs

definition current_platform :: "target_os \<Rightarrow> draft_platform" where
  "current_platform os = (case os of Android \<Rightarrow> Mobile | Ios \<Rightarrow> Mobile | OtherOs \<Rightarrow> Desktop)"

definition PM_SIGNATURE :: "target_os \<Rightarrow> ustring" where
  "PM_SIGNATURE os = (let link = ''Sent from <a target=\"_blank\" href=\"https://proton.me/mail/home\">Proton Mail</a>''
     in ascii (link @ (case os of Android \<Rightarrow> '' for Android.'' | Ios \<Rightarrow> '' for iOS.'' | OtherOs \<Rightarrow> ''.'')))"

record signature_settings =
  ss_pm_signature :: "8 word"
  ss_mobile_signature :: "ustring option"
  ss_mobile_enabled :: "bool option"

definition pm_signature_enabled :: "signature_settings \<Rightarrow> bool" where
  "pm_signature_enabled s = (ss_pm_signature s AND 1 \<noteq> 0)"

definition mobile_signature :: "target_os \<Rightarrow> signature_settings \<Rightarrow> ustring" where
  "mobile_signature os s = (case ss_mobile_signature s of Some t \<Rightarrow> t | None \<Rightarrow> PM_SIGNATURE os)"

definition mobile_signature_enabled :: "signature_settings \<Rightarrow> bool" where
  "mobile_signature_enabled s = (case ss_mobile_enabled s of Some b \<Rightarrow> b | None \<Rightarrow> True)"

definition trim_newlines :: "ustring \<Rightarrow> ustring" where
  "trim_newlines s = rev (dropWhile (\<lambda>c. c = 10) (rev (dropWhile (\<lambda>c. c = 10) s)))"

definition prepare_signature :: "compose_env \<Rightarrow> ustring \<Rightarrow> message_mime_type \<Rightarrow> ustring" where
  "prepare_signature E s m = (if m = TextPlain
     then trim_newlines (case ce_plain_text E s of Some t \<Rightarrow> t | None \<Rightarrow> s) else s)"

definition HTML_LINE_BREAK :: ustring where
  "HTML_LINE_BREAK = ascii ''<br>''"

definition TEXT_LINE_BREAK :: ustring where
  "TEXT_LINE_BREAK = [10]"

definition show_pm_signature :: "draft_platform \<Rightarrow> draft_user \<Rightarrow> signature_settings \<Rightarrow> bool" where
  "show_pm_signature p u s = (case p of
     Desktop \<Rightarrow> \<not> has_paid_mail_plan u \<or> pm_signature_enabled s
   | Mobile \<Rightarrow> \<not> has_paid_mail_plan u)"

definition show_mobile_signature :: "draft_platform \<Rightarrow> draft_user \<Rightarrow> signature_settings \<Rightarrow> bool" where
  "show_mobile_signature p u s = (case p of
     Desktop \<Rightarrow> False
   | Mobile \<Rightarrow> has_paid_mail_plan u \<and> mobile_signature_enabled s)"

definition get_full_signature ::
  "compose_env \<Rightarrow> target_os \<Rightarrow> draft_user \<Rightarrow> sender_address \<Rightarrow> signature_settings \<Rightarrow> message_mime_type \<Rightarrow> draft_platform \<Rightarrow> ustring" where
  "get_full_signature E os u a s m p =
    (let line_break = (case m of TextHtml \<Rightarrow> HTML_LINE_BREAK | TextPlain \<Rightarrow> TEXT_LINE_BREAK);
         signature = prepare_signature E (ad_signature a) m;
         signature = (if m = TextHtml
           then ascii ''<div class=\"protonmail_signature_block-user\">'' @ signature @ ascii ''</div>'' else signature);
         gap = (if signature = [] then [] else line_break @ line_break);
         signature = (if show_pm_signature p u s then signature @ gap @ prepare_signature E (PM_SIGNATURE os) m
           else if show_mobile_signature p u s then signature @ gap @ prepare_signature E (mobile_signature os s) m
           else signature)
     in if signature = [] then [] else line_break @ line_break @ line_break @ signature)"

section \<open>The quote\<close>

definition ORIGINAL_MESSAGE_BLOCK :: ustring where
  "ORIGINAL_MESSAGE_BLOCK = ascii ''-------- Original Message --------''"

definition BEGIN_QUOTE :: ustring where
  "BEGIN_QUOTE = ascii ''<div class=\"protonmail_quote\">''"

definition BEGIN_BLOCKQUOTE :: ustring where
  "BEGIN_BLOCKQUOTE = ascii ''<blockquote class=\"protonmail_quote\">''"

definition CLOSE_QUOTE :: ustring where
  "CLOSE_QUOTE = ascii ''</div>''"

definition CLOSE_BLOCKQUOTE :: ustring where
  "CLOSE_BLOCKQUOTE = ascii ''</blockquote>''"

definition generate_sender_reply :: "ustring \<Rightarrow> ustring \<Rightarrow> ustring \<Rightarrow> bool \<Rightarrow> ustring" where
  "generate_sender_reply name address formatted_date is_text =
    (if name \<noteq> [] \<and> address \<noteq> [] then
       (if is_text then formatted_date @ ascii '' '' @ name @ ascii '' <'' @ address @ ascii ''> wrote:''
        else formatted_date @ ascii '' '' @ name @ ascii '' &lt;'' @ address @ ascii ''&gt; wrote:'')
     else if name \<noteq> [] then formatted_date @ ascii '' '' @ name @ ascii '' wrote:''
     else formatted_date @ ascii '' '' @ address @ ascii '' wrote:'')"

definition prepare_html_reply :: "compose_env \<Rightarrow> ustring \<Rightarrow> source_message \<Rightarrow> ustring \<Rightarrow> bool \<Rightarrow> ustring" where
  "prepare_html_reply E output m original_body use_utc =
     output @ BEGIN_QUOTE @ HTML_LINE_BREAK @ HTML_LINE_BREAK @ ORIGINAL_MESSAGE_BLOCK @ HTML_LINE_BREAK
       @ generate_sender_reply (sm_sender_name m) (sm_sender_address m) (ce_date E (sm_time m) use_utc) False
       @ HTML_LINE_BREAK @ BEGIN_BLOCKQUOTE @ ce_sanitize_reply E original_body @ CLOSE_BLOCKQUOTE @ CLOSE_QUOTE"

definition prepare_text_reply :: "compose_env \<Rightarrow> ustring \<Rightarrow> source_message \<Rightarrow> ustring \<Rightarrow> bool \<Rightarrow> ustring" where
  "prepare_text_reply E output m original_body use_utc =
     output @ [10, 10] @ ORIGINAL_MESSAGE_BLOCK @ [10]
       @ generate_sender_reply (sm_sender_name m) (sm_sender_address m) (ce_date E (sm_time m) use_utc) True
       @ [10] @ original_body"

definition maybe_sanitize :: "compose_env \<Rightarrow> message_mime_type \<Rightarrow> ustring \<Rightarrow> ustring" where
  "maybe_sanitize E m body = (case m of TextHtml \<Rightarrow> ce_sanitize_html E body | TextPlain \<Rightarrow> body)"

section \<open>The reply\<close>

definition REPLY_PREFIX :: ustring where
  "REPLY_PREFIX = ascii ''Re: ''"

definition FORWARD_PREFIX :: ustring where
  "FORWARD_PREFIX = ascii ''Fw: ''"

definition apply_prefix_to_subject :: "ustring \<Rightarrow> ustring \<Rightarrow> ustring" where
  "apply_prefix_to_subject p subject =
    (let trimmed_subject = trim_str subject
     in if take (length p) trimmed_subject = p then trimmed_subject else p @ trimmed_subject)"

record draft_v1 =
  dv_sender :: ustring
  dv_to_list :: recipient_list
  dv_cc_list :: recipient_list
  dv_bcc_list :: recipient_list
  dv_address_id :: nat
  dv_subject :: ustring
  dv_body :: ustring
  dv_mime_type :: message_mime_type
  dv_validation :: "address_validation_result option"
  dv_sender_alias :: "ustring option"
  dv_is_byoe :: bool

definition reply_all_recipients_for_received ::
  "(ustring \<Rightarrow> ustring) \<Rightarrow> source_message \<Rightarrow> 'att message_body \<Rightarrow> ustring \<Rightarrow> message_recipient list \<times> message_recipient list" where
  "reply_all_recipients_for_received lower m b canonical_sender_email =
    (map (\<lambda>r. \<lparr>mr_address = rt_address r, mr_is_proton = rt_is_proton r, mr_name = rt_name r, mr_group = maybe_from_option None\<rparr>) (mb_reply_tos b),
     filter (\<lambda>r. canonicalize_auto lower (mr_address r) \<noteq> canonical_sender_email) (sm_to_list m @ sm_cc_list m))"

definition patch_draft_with_reply_mode ::
  "compose_env \<Rightarrow> (ustring \<Rightarrow> nat option) \<Rightarrow> draft_v1 \<Rightarrow> source_message \<Rightarrow> 'att message_body \<Rightarrow> reply_mode \<Rightarrow> draft_v1" where
  "patch_draft_with_reply_mode E resolver d m b mode =
    (let canonical_sender_email = canonicalize_auto (ce_lower E) (dv_sender d);
         subject_prefix = (case mode of ReplySender \<Rightarrow> REPLY_PREFIX | ReplyAll \<Rightarrow> REPLY_PREFIX | ReplyForward \<Rightarrow> FORWARD_PREFIX);
         d = (case mode of
             ReplySender \<Rightarrow>
               (if is_sent m then d\<lparr>dv_to_list := from_message_recipients (ce_draft E) resolver (sm_to_list m)\<rparr>
                else d\<lparr>dv_to_list := from_message_reply_to (ce_draft E) [mb_reply_to b]\<rparr>)
           | ReplyAll \<Rightarrow>
               (case (if is_sent m then (sm_to_list m, sm_cc_list m)
                      else reply_all_recipients_for_received (ce_lower E) m b canonical_sender_email) of
                  (t, c) \<Rightarrow> d\<lparr>dv_to_list := from_message_recipients (ce_draft E) resolver t,
                    dv_cc_list := from_message_recipients (ce_draft E) resolver c\<rparr>)
           | ReplyForward \<Rightarrow> d)
     in d\<lparr>dv_subject := apply_prefix_to_subject subject_prefix (sm_subject m)\<rparr>)"

definition new_draft_reply ::
  "compose_env \<Rightarrow> target_os \<Rightarrow> (ustring \<Rightarrow> nat option) \<Rightarrow> reply_mode \<Rightarrow> draft_user \<Rightarrow> sender_address \<Rightarrow> signature_settings
   \<Rightarrow> source_message \<Rightarrow> 'att message_body \<Rightarrow> bool \<Rightarrow> address_validation_result option \<Rightarrow> draft_v1 \<times> (disposition \<times> 'att) list" where
  "new_draft_reply E os resolver mode u a s m b use_utc validation =
    (let mime_type = mb_mime_type b;
         body = get_full_signature E os u a s mime_type (current_platform os);
         body = (case mime_type of
             TextHtml \<Rightarrow> prepare_html_reply E body m (mb_body b) use_utc
           | TextPlain \<Rightarrow> prepare_text_reply E body m (mb_body b) use_utc);
         attachments = (if mode \<noteq> ReplyForward then filter (\<lambda>x. fst x = DispInline) (mb_attachments b) else mb_attachments b);
         (sender_email, sender_alias) =
           (if validation = None
            then let new_sender = resolve_sender_alias (ad_email a) b
                 in (new_sender, if new_sender \<noteq> ad_email a then Some new_sender else None)
            else (ad_email a, None));
         d = \<lparr>dv_sender = sender_email, dv_to_list = [], dv_cc_list = [], dv_bcc_list = [], dv_address_id = ad_remote_id a,
           dv_subject = [], dv_body = body, dv_mime_type = mime_type, dv_validation = validation, dv_sender_alias = sender_alias,
           dv_is_byoe = is_byoe a\<rparr>;
         d = patch_draft_with_reply_mode E resolver d m b mode;
         d = d\<lparr>dv_body := maybe_sanitize E (dv_mime_type d) (dv_body d)\<rparr>
     in (d, attachments))"

text \<open>
  The first part of \<open>Draft::reply\<close>, for a message that is found: the address of the reply is the one that received the message when it
  may be used, else the first valid one.  \<open>stored\<close> are the addresses of the user, each with its id at the server.
\<close>

datatype open_error = ReplyOrForwardToDraft | MessageHasNoRemoteId | AddressNotFound nat | UserHasNoAddresses

definition reply_address ::
  "(ustring \<Rightarrow> ustring) \<Rightarrow> sender_address list \<Rightarrow> draft_user \<Rightarrow> source_message \<Rightarrow> nat
   \<Rightarrow> open_error + (sender_address \<times> address_validation_result option)" where
  "reply_address lower stored u m address_id =
    (if flags_is_draft (sm_flags m) then Inl ReplyOrForwardToDraft
     else if sm_remote_id m = None then Inl MessageHasNoRemoteId
     else case find (\<lambda>a. ad_remote_id a = address_id) stored of
       None \<Rightarrow> Inl (AddressNotFound address_id)
     | Some a \<Rightarrow> (case validate_sender_address lower a u of
         None \<Rightarrow> Inr (a, None)
       | Some e \<Rightarrow> (case find_valid_sender_address stored of
           None \<Rightarrow> Inl UserHasNoAddresses
         | Some a' \<Rightarrow> Inr (a', Some e))))"

end
