(* ===== verification/Draft_Reply_Facts.thy ===== *)
theory Draft_Reply_Facts
  imports Draft_Reply Draft_Actor_Inv
begin

text \<open>
  Lemmas on replies: the addresses of a list that is read from a message, lists that are written to a message and read again, aliases
  of the sender, and the prefix of the subject.
\<close>

section \<open>Lists read from messages\<close>

lemma added_message:
  assumes "distinct (emails l)"
  shows "distinct (emails (add_message_recipient E r l))"
    and "set (emails (add_message_recipient E r l)) = insert (mr_address r) (set (emails l))"
proof -
  have idle: "list_inv (\<lambda>k e. True) l" using assms by (simp add: list_inv_def)
  have "distinct (emails (add_message_recipient E r l)) \<and> set (emails (add_message_recipient E r l)) = insert (mr_address r) (set (emails l))"
  proof (cases "mr_group r")
    case None
    then show ?thesis using assms
      by (auto simp: add_message_recipient_def Let_def add_single_def add_single_with_state_def duplicate_iff new_recipient_def entry_of_def split: if_splits)
  next
    case (Some name)
    let ?e = "entry_of (mr_address r) (mr_name r)"
    obtain l' ds where g: "add_group E name [?e] 0 l = (l', ds)" by fastforce
    have "distinct (emails l')" using add_group_inv [OF idle g] by (simp add: list_inv_def)
    moreover have "set (emails l') = insert (mr_address r) (set (emails l))"
      using arg_cong [OF add_group_members [OF g], of set_mset] by (auto simp: new_recipient_def entry_of_def image_iff split: if_splits)
    ultimately show ?thesis using Some g by (simp add: add_message_recipient_def Let_def)
  qed
  then show "distinct (emails (add_message_recipient E r l))" "set (emails (add_message_recipient E r l)) = insert (mr_address r) (set (emails l))"
    by blast+
qed

lemma folded_messages:
  assumes "distinct (emails l)"
  shows "distinct (emails (fold (add_message_recipient E) rs l)) \<and>
    set (emails (fold (add_message_recipient E) rs l)) = set (map mr_address rs) \<union> set (emails l)"
  using assms
proof (induction rs arbitrary: l)
  case (Cons r rs)
  show ?case using Cons.IH [OF added_message(1) [OF Cons.prems]] added_message(2) [OF Cons.prems] by auto
qed simp

lemma members_resolved: "members (map (resolve_total resolver) l) = members l"
proof (induction l)
  case (Cons r l)
  then show ?case by (cases r) (simp_all add: resolve_total_def)
qed simp

lemma from_messages_emails:
  "distinct (emails (from_message_recipients E resolver rs))"
  "set (emails (from_message_recipients E resolver rs)) = set (map mr_address rs)"
  using folded_messages [of "[]" E rs] by (simp_all add: from_message_recipients_def members_resolved)

lemma from_reply_to_emails: "emails (from_message_reply_to E [r]) = [rt_address r]"
  by (simp add: from_message_reply_to_def add_single_def add_single_with_state_def is_duplicate_address_def new_recipient_def entry_of_def)

section \<open>Lists written to messages\<close>

text \<open>Lists that a message can hold: new recipients with an address of good form, groups that are not empty and have different names.\<close>

definition storable_recipient :: "draft_env \<Rightarrow> single_recipient \<Rightarrow> bool" where
  "storable_recipient E s = (de_valid E (sr_email s) \<and> sr_state s = Unchecked \<and> sr_lock s = LockDefault \<and> sr_name s \<noteq> Some [])"

definition group_names :: "recipient_list \<Rightarrow> ustring list" where
  "group_names l = concat (map (\<lambda>r. case r of Single _ \<Rightarrow> [] | Group g \<Rightarrow> [gr_name g]) l)"

definition storable :: "draft_env \<Rightarrow> recipient_list \<Rightarrow> bool" where
  "storable E l = (list_all (storable_recipient E) (members l) \<and> distinct (emails l) \<and> distinct (group_names l)
     \<and> list_all (\<lambda>r. recipients_of r \<noteq> []) l)"

lemma storable_message:
  assumes "storable_recipient E s"
  shows "to_message_recipient n s = Some \<lparr>mr_address = sr_email s, mr_is_proton = False, mr_name = maybe_into_string (sr_name s), mr_group = n\<rparr>"
    and "new_recipient E Unchecked (entry_of (sr_email s) (maybe_into_string (sr_name s))) = s"
  using assms
  by (cases s; auto simp: storable_recipient_def to_message_recipient_def new_recipient_def entry_of_def maybe_into_string_def split: option.splits)+

lemma group_names_ex: "list_ex (is_group n) l \<longleftrightarrow> n \<in> set (group_names l)"
proof (induction l)
  case (Cons r l)
  then show ?case by (cases r) (auto simp: group_names_def is_group_def)
qed (simp add: group_names_def)

lemma modify_last_group:
  assumes "n \<notin> set (group_names l)" and "gr_name g = n"
  shows "modify_group n f (l @ [Group g]) = l @ [Group (f g)]"
  using assms
proof (induction l)
  case (Cons r l)
  then show ?case by (cases r) (auto simp: group_names_def)
qed simp

definition stored_group :: "ustring \<Rightarrow> single_recipient list \<Rightarrow> recipient" where
  "stored_group n ss = Group \<lparr>gr_recipients = ss, gr_name = n, gr_total = 0\<rparr>"

text \<open>The recipients of one group, one after the other.\<close>

lemma stored_extend:
  assumes "storable_recipient E s" and "n \<notin> set (group_names l)" and "sr_email s \<notin> set (emails l)" "sr_email s \<notin> set (map sr_email ss)"
  shows "add_message_recipient E (the (to_message_recipient (Some n) s)) (l @ [stored_group n ss]) = l @ [stored_group n (ss @ [s])]"
proof -
  have "list_ex (is_group n) (l @ [stored_group n ss])" by (simp add: stored_group_def is_group_def)
  then have "get_or_create_group n (l @ [stored_group n ss]) = l @ [stored_group n ss]" by (simp add: get_or_create_group_def)
  then show ?thesis using assms
    by (simp add: add_message_recipient_def Let_def add_group_def add_group_with_state_def storable_message duplicate_iff entry_of_def
        storable_message(2) [unfolded entry_of_def] stored_group_def modify_last_group)
qed

lemma stored_first:
  assumes "storable_recipient E s" and "n \<notin> set (group_names l)" and "sr_email s \<notin> set (emails l)"
  shows "add_message_recipient E (the (to_message_recipient (Some n) s)) l = l @ [stored_group n [s]]"
proof -
  have "get_or_create_group n l = l @ [stored_group n []]" using assms(2) by (simp add: get_or_create_group_def group_names_ex stored_group_def)
  then show ?thesis using assms
    by (simp add: add_message_recipient_def Let_def add_group_def add_group_with_state_def storable_message duplicate_iff entry_of_def
        storable_message(2) [unfolded entry_of_def] stored_group_def modify_last_group)
qed

lemma stored_group_read:
  assumes "list_all (storable_recipient E) ss'" and "n \<notin> set (group_names l)" and "distinct (emails l @ map sr_email (ss @ ss'))"
  shows "fold (add_message_recipient E) (List.map_filter (to_message_recipient (Some n)) ss') (l @ [stored_group n ss]) = l @ [stored_group n (ss @ ss')]"
  using assms
proof (induction ss' arbitrary: ss)
  case (Cons s ss')
  have s: "storable_recipient E s" and e: "sr_email s \<notin> set (emails l)" "sr_email s \<notin> set (map sr_email ss)" using Cons.prems by auto
  have "fold (add_message_recipient E) (List.map_filter (to_message_recipient (Some n)) ss') (l @ [stored_group n (ss @ [s])])
      = l @ [stored_group n ((ss @ [s]) @ ss')]"
    using Cons.prems by (intro Cons.IH) auto
  then show ?case using stored_extend [OF s Cons.prems(2) e] storable_message(1) [OF s, of "Some n"] by (simp add: List.map_filter_simps)
qed (simp add: List.map_filter_simps)

definition without_total :: "recipient \<Rightarrow> recipient" where
  "without_total r = (case r of Single s \<Rightarrow> Single s | Group g \<Rightarrow> Group (g\<lparr>gr_total := 0\<rparr>))"

lemma stored_read:
  assumes "storable E (acc @ l)"
  shows "fold (add_message_recipient E) (to_message_recipients l) (map without_total acc) = map without_total (acc @ l)"
  using assms
proof (induction l arbitrary: acc)
  case (Cons r l)
  have IH: "fold (add_message_recipient E) (to_message_recipients l) (map without_total (acc @ [r])) = map without_total ((acc @ [r]) @ l)"
    using Cons.prems by (intro Cons.IH) simp
  have acc: "emails (map without_total acc) = emails acc" "group_names (map without_total acc) = group_names acc" for acc
  proof (induction acc)
    case (Cons r acc)
    {
      case 1
      then show ?case using Cons by (cases r) (simp_all add: without_total_def)
    next
      case 2
      then show ?case using Cons by (cases r) (simp_all add: without_total_def group_names_def)
    }
  qed (simp_all add: group_names_def)
  have "fold (add_message_recipient E) (to_message_recipients [r]) (map without_total acc) = map without_total (acc @ [r])"
  proof (cases r)
    case (Single s)
    then have s: "storable_recipient E s" "sr_email s \<notin> set (emails acc)" using Cons.prems by (auto simp: storable_def)
    then show ?thesis using Single storable_message [OF s(1)]
      by (simp add: to_message_recipients_def List.map_filter_simps add_message_recipient_def Let_def add_single_def add_single_with_state_def
          duplicate_iff acc entry_of_def without_total_def)
  next
    case (Group g)
    obtain s ss where ss: "gr_recipients g = s # ss" using Group Cons.prems by (auto simp: storable_def recipients_of_def neq_Nil_conv)
    have n: "gr_name g \<notin> set (group_names (map without_total acc))" and s: "storable_recipient E s" "list_all (storable_recipient E) ss"
      and e: "distinct (emails (map without_total acc) @ map sr_email ([s] @ ss))"
      using Group Cons.prems ss unfolding acc by (auto simp: storable_def group_names_def)
    have "sr_email s \<notin> set (emails (map without_total acc))" using e by auto
    from stored_first [OF s(1) n this] stored_group_read [OF s(2) n e]
    show ?thesis using Group ss storable_message(1) [OF s(1), of "Some (gr_name g)"]
      by (simp add: to_message_recipients_def List.map_filter_simps without_total_def stored_group_def)
  qed
  then show ?case using IH by (simp add: to_message_recipients_def)
qed (simp add: to_message_recipients_def)

lemma stored_list:
  assumes "storable E l"
  shows "from_message_recipients E resolver (to_message_recipients l) = map (resolve_total resolver) l"
proof -
  have "resolve_total resolver (without_total r) = resolve_total resolver r" for r
    by (cases r) (simp_all add: resolve_total_def without_total_def split: option.splits)
  then show ?thesis using stored_read [of E "[]" l] assms by (simp add: from_message_recipients_def)
qed

section \<open>The sender\<close>

lemma alias_without_at: "get_alias_component s = Some tag \<Longrightarrow> 64 \<notin> set tag"
proof -
  assume a: "get_alias_component s = Some tag"
  let ?at = "length (takeWhile (\<lambda>c. c \<noteq> 64) s)" and ?plus = "length (takeWhile (\<lambda>c. c \<noteq> 43) s)"
  have tag: "tag = take (?at - (?plus + 1)) (drop (?plus + 1) s)" and le: "?plus + 1 \<le> ?at"
    using a by (auto simp: get_alias_component_def Let_def split: if_splits)
  have "take ?at s = takeWhile (\<lambda>c. c \<noteq> 64) s" by (rule takeWhile_eq_take [symmetric])
  then have "tag = drop (?plus + 1) (takeWhile (\<lambda>c. c \<noteq> 64) s)" unfolding tag drop_take [symmetric] by simp
  then show ?thesis by (auto dest!: in_set_dropD set_takeWhileD)
qed

lemma apply_alias_at: "64 \<notin> set l \<Longrightarrow> apply_alias (l @ 64 # d) tag = (l @ 43 # tag) @ 64 # d"
  by (auto simp: apply_alias_def takeWhile_append dropWhile_append)

text \<open>An address with an alias: \<open>name+tag@rest\<close>, split at the first plus and the first at sign.\<close>

definition has_alias :: "ustring \<Rightarrow> ustring \<Rightarrow> bool" where
  "has_alias s tag = (\<exists>name rest. s = name @ 43 # tag @ 64 # rest \<and> 43 \<notin> set name \<and> 64 \<notin> set name \<and> 64 \<notin> set tag)"

lemma alias_component: "get_alias_component s = Some tag \<longleftrightarrow> has_alias s tag"
proof
  assume "has_alias s tag"
  then obtain name rest where s: "s = name @ 43 # tag @ 64 # rest" "43 \<notin> set name" "64 \<notin> set name" "64 \<notin> set tag"
    by (auto simp: has_alias_def)
  have "takeWhile (\<lambda>c. c \<noteq> 43) s = name" using s by (induction name arbitrary: s) auto
  moreover have "takeWhile (\<lambda>c. c \<noteq> 64) (tag @ 64 # rest) = tag" using s(4) by (induction tag) auto
  then have "takeWhile (\<lambda>c. c \<noteq> 64) s = name @ 43 # tag" using s(3) unfolding s(1) by (induction name) auto
  ultimately show "get_alias_component s = Some tag" using s(1) by (simp add: get_alias_component_def Let_def)
next
  assume a: "get_alias_component s = Some tag"
  let ?at = "length (takeWhile (\<lambda>c. c \<noteq> 64) s)" and ?plus = "length (takeWhile (\<lambda>c. c \<noteq> 43) s)"
  have tag: "tag = take (?at - (?plus + 1)) (drop (?plus + 1) s)" and b: "?plus < ?at" "?at < length s"
    using a by (auto simp: get_alias_component_def Let_def split: if_splits)
  have at: "s ! ?at = 64" "s ! ?plus = 43" using nth_length_takeWhile [OF b(2)] nth_length_takeWhile [of "\<lambda>c. c \<noteq> 43" s] b by auto
  have front: "s = take ?plus s @ 43 # drop (?plus + 1) s" using at b by (metis Suc_eq_plus1 id_take_nth_drop less_trans)
  have back_part: "drop (?plus + 1) s = tag @ 64 # drop (?at + 1) s"
  proof -
    have "drop (?plus + 1) s = tag @ drop (?at - (?plus + 1)) (drop (?plus + 1) s)" unfolding tag by (rule append_take_drop_id [symmetric])
    moreover have "drop (?at - (?plus + 1)) (drop (?plus + 1) s) = drop ?at s"
    proof -
      have "?plus + 1 \<le> ?at" using b by linarith
      then have "?at - (?plus + 1) + (?plus + 1) = ?at" by (rule le_add_diff_inverse2)
      then show ?thesis unfolding drop_drop by (rule arg_cong)
    qed
    moreover have "drop ?at s = 64 # drop (?at + 1) s" using at b by (metis Cons_nth_drop_Suc Suc_eq_plus1)
    ultimately show ?thesis by (simp only:)
  qed
  have "s = take ?plus s @ 43 # tag @ 64 # drop (?at + 1) s" using front unfolding back_part .
  moreover have "43 \<notin> set (take ?plus s)"
    unfolding takeWhile_eq_take [symmetric] by (auto dest: set_takeWhileD)
  moreover have "64 \<notin> set (take ?plus s)"
  proof -
    have "set (take ?plus s) \<subseteq> set (take ?at s)" using b by (intro set_take_subset_set_take) simp
    moreover have "64 \<notin> set (take ?at s)" unfolding takeWhile_eq_take [symmetric] by (auto dest: set_takeWhileD)
    ultimately show ?thesis by blast
  qed
  ultimately show "has_alias s tag"
    using alias_without_at [OF a] unfolding has_alias_def
    by blast
qed

text \<open>The address that the server says the message was sent to; an empty list of them stands for the user's own.\<close>

definition original_to :: "ustring \<Rightarrow> 'att message_body \<Rightarrow> ustring option" where
  "original_to own b = (case header_value_of (ascii ''X-Original-To'') b of
     None \<Rightarrow> None
   | Some (HeaderText s) \<Rightarrow> Some s
   | Some (HeaderTexts []) \<Rightarrow> Some own
   | Some (HeaderTexts (s # _)) \<Rightarrow> Some s)"

lemma resolved_sender:
  assumes "64 \<notin> set l"
  shows "(\<exists>s. original_to (l @ 64 # d) b = Some s \<and> has_alias s tag) \<Longrightarrow> resolve_sender_alias (l @ 64 # d) b = l @ 43 # tag @ 64 # d"
    and "(\<nexists>s tag. original_to (l @ 64 # d) b = Some s \<and> has_alias s tag) \<Longrightarrow> resolve_sender_alias (l @ 64 # d) b = l @ 64 # d"
  using apply_alias_at [OF assms, of d] unfolding alias_component [symmetric]
  by (auto simp: original_to_def resolve_sender_alias_def split: option.splits header_value.splits list.splits)

text \<open>The sender of a reply is the address or the address with an alias.\<close>

lemma resolved_cases:
  assumes "64 \<notin> set l"
  shows "resolve_sender_alias (l @ 64 # d) b = l @ 64 # d \<or>
    (\<exists>tag. 64 \<notin> set tag \<and> resolve_sender_alias (l @ 64 # d) b = (l @ 43 # tag) @ 64 # d)"
  using apply_alias_at [OF assms, of d] alias_without_at
  by (auto simp: resolve_sender_alias_def split: option.splits header_value.splits list.splits)

lemma resolved_canonical:
  assumes "64 \<notin> set l" "64 \<notin> set d" and "infer_from_domain lower d \<noteq> SchemeDefault"
  shows "canonicalize_auto lower (resolve_sender_alias (l @ 64 # d) b) = canonicalize_auto lower (l @ 64 # d)"
  using resolved_cases [OF assms(1), of d b] canonical_alias [OF assms(2,3), of l] by auto

section \<open>The subject\<close>

lemma trim_cases:
  obtains "trim_str s = []" | c t d where "trim_str s = c # t" "\<not> is_white_char c" "last (c # t) = d" "\<not> is_white_char d"
proof (cases "trim_str s")
  case (Cons c t)
  let ?u = "dropWhile is_white_char s"
  have rev: "rev (trim_str s) = dropWhile is_white_char (rev ?u)" by (simp add: trim_str_def)
  have "dropWhile is_white_char (rev ?u) \<noteq> []" unfolding rev [symmetric] using Cons by simp
  from hd_dropWhile [OF this] have l: "\<not> is_white_char (last (trim_str s))" using rev Cons by (metis hd_rev list.discI)
  obtain ws where "rev ?u = ws @ rev (trim_str s)" using rev takeWhile_dropWhile_id by metis
  then have "?u = trim_str s @ rev ws" by (metis rev_append rev_rev_ident)
  then have "?u \<noteq> []" "hd ?u = c" using Cons by simp_all
  then have "\<not> is_white_char c" using hd_dropWhile by metis
  then show ?thesis using that(2) Cons l by metis
qed (use that(1) in blast)

lemma trim_fixed:
  assumes "\<not> is_white_char c" and "\<not> is_white_char (last (c # t))"
  shows "trim_str (c # t) = c # t"
proof -
  have r: "rev (c # t) = last (c # t) # rev (butlast (c # t))" by (metis append_butlast_last_id list.discI rev_eq_Cons_iff rev_rev_ident)
  then have "dropWhile is_white_char (rev (c # t)) = rev (c # t)" using assms(2) by simp
  then show ?thesis using assms(1) by (simp add: trim_str_def)
qed

text \<open>A second reply does not add a prefix, unless the subject of the first message is blank.\<close>

lemma prefix_again:
  assumes "trim_str s \<noteq> []" and "p \<noteq> []" "\<not> is_white_char (hd p)"
  shows "apply_prefix_to_subject p (apply_prefix_to_subject p s) = apply_prefix_to_subject p s"
proof -
  obtain c t where t: "trim_str s = c # t" "\<not> is_white_char c" "\<not> is_white_char (last (c # t))"
    using trim_cases [of s] assms(1) by metis
  obtain h q where p: "p = h # q" "\<not> is_white_char h" using assms(2,3) by (cases p) auto
  have "trim_str (c # t) = c # t" using t(2,3) by (rule trim_fixed)
  moreover have "trim_str (p @ c # t) = p @ c # t" using trim_fixed [of h "q @ c # t"] p t(3) by simp
  ultimately show ?thesis using t(1) by (simp add: apply_prefix_to_subject_def Let_def)
qed

end
