(* ===== verification/Draft_Props.thy ===== *)
theory Draft_Props
  imports Draft_Steps Draft_Reply_Facts
begin

text \<open>The properties of the recipients of a draft and of replies, each with a concrete instance.\<close>

section \<open>Recipients\<close>

text \<open>A concrete environment, the answers of its services and an actor that was asked to add one recipient.\<close>

definition sample_env :: draft_env where
  "sample_env = \<lparr>de_valid = (\<lambda>e. 64 \<in> set e), de_parse = (\<lambda>_. None), de_lower = map ascii_lower, de_input_invalid = 33101, de_address_missing = 33102\<rparr>"

definition sample_answers :: "(unit, unit) service_answers set" where
  "sample_answers = {(\<lambda>_. OtherKeys False True, None)}"

definition sample_opened :: draft_actor where
  "sample_opened = \<lparr>da_draft = \<lparr>d_to_list = [], d_cc_list = [], d_bcc_list = [], d_is_byoe = False\<rparr>,
     da_tasks = [], da_cancelled = [], da_inbox = [], da_events = []\<rparr>"

definition sample_added :: draft_actor where
  "sample_added = snd (handle_message sample_env True True (AddSingleRecipient Cc (entry_of (ascii ''a@b.c'') [])) sample_opened)"

lemma sample_reached: "reached orderly sample_env sample_answers True sample_added"
proof -
  have "idle_list (list_of g sample_opened)" for g
    by (cases g) (simp_all add: idle_list_def list_inv_def sample_opened_def recipient_group_from_draft_def)
  then have "reached orderly sample_env sample_answers True sample_opened" by (rule reached.opened) (simp_all add: sample_opened_def)
  then show ?thesis unfolding sample_added_def by (rule reached.message) (simp add: orderly_def)
qed

lemma sample_members:
  "members (list_of Cc sample_added) = [\<lparr>sr_name = None, sr_email = ascii ''a@b.c'', sr_state = Validating, sr_lock = Calculating\<rparr>]"
  "length (da_tasks sample_added) = 2" "da_cancelled sample_added = []" "da_inbox sample_added = []"
  by (simp_all add: sample_added_def handle_message_def handle_add_single_def checked_add_single_def add_single_def add_single_with_state_def
      is_duplicate_address_def sample_opened_def sample_env_def recipient_group_from_draft_def new_recipient_def entry_of_def map_members_def
      check_recipient_def should_recalculate_def put_list_def set_recipient_group_def spawn_def publish_list_def publish_event_def saved_reply_def
      spawn_checks_def spawn_check_def to_validate_def to_calculate_def recipients_of_def ascii_def members_def Let_def)

text \<open>
  C29. In every state that a draft reaches through orderly messages and reports of checks, however they interleave and whatever the
  services answer: none of the three lists has an address twice, and a recipient is shown as being validated (or its lock as being
  calculated) only while a check of it runs or its report waits in the channel of the actor. Orderly are all messages but three kinds, which break it:
  a new group that repeats an address (\<open>duplicates_within_group\<close>), lists set from outside that repeat an address or show a check under way, and
  \<open>RevalidateAllRecipients\<close> while a recipient is being checked (see the next but one property).
\<close>

theorem recipients_checked_once:
  assumes "reached orderly E S enabled a"
  shows "distinct (emails (list_of g a)) \<and> list_all (\<lambda>s.
      (sr_state s = Validating \<longrightarrow> awaited a CheckAddress g (sr_email s)) \<and>
      (sr_lock s = Calculating \<longrightarrow> awaited a CheckLock g (sr_email s))) (members (list_of g a))"
proof -
  have "list_inv (\<lambda>k. awaited a k g) (list_of g a)" by (rule list_inv_of [OF reached_inv [OF assms]])
  then have "distinct (emails (list_of g a))" and b: "\<And>k s. s \<in> set (members (list_of g a)) \<Longrightarrow> busy k s \<Longrightarrow> awaited a k g (sr_email s)"
    by (simp_all add: list_inv_def)
  then show ?thesis using b [of _ CheckAddress] b [of _ CheckLock] by (simp add: busy_def list_all_iff)
qed

theorem recipients_checked_once_witness:
  "distinct (emails (list_of Cc sample_added)) \<and> awaited sample_added CheckAddress Cc (ascii ''a@b.c'') \<and> awaited sample_added CheckLock Cc (ascii ''a@b.c'')"
  using recipients_checked_once [OF sample_reached, of Cc] by (simp add: sample_members)

text \<open>
  C30. The checks of a draft come to an end: from every state that is reached by orderly messages and reports (the same three kinds of message are left out),
  at most two steps per task and one per waiting report are possible in the background, a run to the end exists, and when no step is left no recipient is shown as being
  validated and no lock as being calculated, while all addresses are still there in their order.
\<close>

theorem recipient_checks_settle:
  fixes S :: "('pub, 'kt) service_answers set"
  assumes "reached orderly E S enabled a" and "S \<noteq> {}"
  shows "(\<forall>n a'. (background_step E S ^^ n) a a' \<longrightarrow> n \<le> 2 * length (da_tasks a) + 2 * length (da_cancelled a) + length (da_inbox a)) \<and>
    (\<exists>a'. (background_step E S)\<^sup>*\<^sup>* a a' \<and> (\<nexists>b. background_step E S a' b)) \<and>
    (\<forall>a' g. (background_step E S)\<^sup>*\<^sup>* a a' \<and> (\<nexists>b. background_step E S a' b) \<longrightarrow>
      list_all (\<lambda>s. sr_state s \<noteq> Validating \<and> sr_lock s \<noteq> Calculating) (members (list_of g a')) \<and> emails (list_of g a') = emails (list_of g a))"
proof (intro conjI allI impI)
  show "n \<le> 2 * length (da_tasks a) + 2 * length (da_cancelled a) + length (da_inbox a)" if "(background_step E S ^^ n) a a'" for n a'
    using steps_bounded [OF that] by (simp add: pending_work_def)
  show "\<exists>a'. (background_step E S)\<^sup>*\<^sup>* a a' \<and> (\<nexists>b. background_step E S a' b)" by (rule steps_end)
next
  fix a' g
  assume run: "(background_step E S)\<^sup>*\<^sup>* a a' \<and> (\<nexists>b. background_step E S a' b)"
  have "actor_inv a'" using background_runs [of E S a a' orderly enabled] run assms(1) by (intro reached_inv) blast
  then show "list_all (\<lambda>s. sr_state s \<noteq> Validating \<and> sr_lock s \<noteq> Calculating) (members (list_of g a'))"
    using ended_settled [OF _ conjunct2 [OF run] assms(2)] by (simp add: list_all_iff)
  show "emails (list_of g a') = emails (list_of g a)" by (rule steps_emails [OF conjunct1 [OF run]])
qed

theorem recipient_checks_settle_witness:
  "(\<nexists>a'. (background_step sample_env sample_answers ^^ 5) sample_added a') \<and>
   (\<exists>a'. (background_step sample_env sample_answers)\<^sup>*\<^sup>* sample_added a' \<and> emails (list_of Cc a') = [ascii ''a@b.c''] \<and>
      list_all (\<lambda>s. sr_state s \<noteq> Validating \<and> sr_lock s \<noteq> Calculating) (members (list_of Cc a')))"
proof -
  have S: "sample_answers \<noteq> {}" by (simp add: sample_answers_def)
  note settle = recipient_checks_settle [OF sample_reached S]
  have "\<not> (background_step sample_env sample_answers ^^ 5) sample_added a'" for a'
  proof
    assume "(background_step sample_env sample_answers ^^ 5) sample_added a'"
    then have "5 \<le> 2 * length (da_tasks sample_added) + 2 * length (da_cancelled sample_added) + length (da_inbox sample_added)" using settle by blast
    then show False by (simp add: sample_members)
  qed
  moreover obtain a' where run: "(background_step sample_env sample_answers)\<^sup>*\<^sup>* sample_added a' \<and> (\<nexists>b. background_step sample_env sample_answers a' b)"
    using settle by blast
  moreover from run have "list_all (\<lambda>s. sr_state s \<noteq> Validating \<and> sr_lock s \<noteq> Calculating) (members (list_of Cc a'))
      \<and> emails (list_of Cc a') = emails (list_of Cc sample_added)"
    using settle by blast
  ultimately show ?thesis by (auto simp: sample_members)
qed

text \<open>
  C31. \<open>RevalidateAllRecipients\<close> cancels the checks that run, but starts new ones only for recipients that were not being checked: a
  recipient that was being validated when it arrives stays so for ever once the cancelled tasks have stopped, whatever happens in the background.
\<close>

theorem revalidation_strands_recipients:
  fixes S :: "('pub, 'kt) service_answers set"
  assumes "reached orderly E S True a" and "da_inbox a = []" and "s \<in> set (members (list_of g a))" "sr_state s = Validating"
  shows "\<exists>a1. (background_step E S)\<^sup>*\<^sup>* (snd (handle_message E True saved RevalidateAllRecipients a)) a1 \<and>
    (\<forall>a2. (background_step E S)\<^sup>*\<^sup>* a1 a2 \<longrightarrow> (\<exists>s' \<in> set (members (list_of g a2)). sr_email s' = sr_email s \<and> sr_state s' = Validating))"
proof -
  let ?a = "revalidate_all True a"
  have m: "snd (handle_message E True saved RevalidateAllRecipients a) = ?a" by (simp add: handle_message_def)
  have "stranded g (sr_email s) ?a" by (rule revalidated_stranded [OF reached_inv [OF assms(1)] assms(2-4)])
  then have "stranded g (sr_email s) (?a\<lparr>da_cancelled := []\<rparr>)" by (simp add: stranded_def awaited_def)
  from stranded_steps [of E S, OF _ this] have "\<forall>a2. (background_step E S)\<^sup>*\<^sup>* (?a\<lparr>da_cancelled := []\<rparr>) a2 \<longrightarrow>
      (\<exists>s' \<in> set (members (list_of g a2)). sr_email s' = sr_email s \<and> sr_state s' = Validating)"
    unfolding stranded_def by simp
  then show ?thesis unfolding m using cancelled_stop [of E S ?a] by blast
qed

theorem revalidation_strands_recipients_witness:
  "\<exists>a1. (background_step sample_env sample_answers)\<^sup>*\<^sup>* (snd (handle_message sample_env True True RevalidateAllRecipients sample_added)) a1 \<and>
     list_ex (\<lambda>s. sr_state s = Validating) (members (list_of Cc a1)) \<and> (\<nexists>b. background_step sample_env sample_answers a1 b)"
proof -
  let ?s = "\<lparr>sr_name = None, sr_email = ascii ''a@b.c'', sr_state = Validating, sr_lock = Calculating\<rparr>"
  obtain a1 where a1: "(background_step sample_env sample_answers)\<^sup>*\<^sup>* (snd (handle_message sample_env True True RevalidateAllRecipients sample_added)) a1"
    and stays: "\<And>a2. (background_step sample_env sample_answers)\<^sup>*\<^sup>* a1 a2 \<Longrightarrow> (\<exists>s' \<in> set (members (list_of Cc a2)). sr_state s' = Validating)"
    using revalidation_strands_recipients [OF sample_reached, of ?s Cc True] unfolding sample_members by simp blast
  obtain a2 where a2: "(background_step sample_env sample_answers)\<^sup>*\<^sup>* a1 a2" "\<nexists>b. background_step sample_env sample_answers a2 b"
    using steps_end by blast
  then show ?thesis using rtranclp_trans [OF a1 a2(1)] stays [OF a2(1)] by (auto simp: list_ex_iff)
qed

text \<open>
  C32. A list of recipients that is saved with the draft and read again is the same, groups in their places with their members in order,
  except that the size of a group is asked of the contacts: for a list of new recipients with addresses of good form, no address twice, groups of different
  names and none of them empty.
\<close>

theorem recipient_list_roundtrip:
  assumes "storable E l"
  shows "from_message_recipients E resolver (to_message_recipients l) = map (resolve_total resolver) l"
  by (rule stored_list [OF assms])

theorem recipient_list_roundtrip_witness:
  "let s = (\<lambda>e. \<lparr>sr_name = Some (ascii ''A''), sr_email = ascii e, sr_state = Unchecked, sr_lock = LockDefault\<rparr>);
       l = [Single (s ''a@b.c''), Group \<lparr>gr_recipients = [s ''x@b.c'', s ''y@b.c''], gr_name = ascii ''G'', gr_total = 2\<rparr>, Single (s ''z@b.c'')]
   in from_message_recipients sample_env (\<lambda>_. None) (to_message_recipients l) = l"
proof -
  let ?s = "\<lambda>e. \<lparr>sr_name = Some (ascii ''A''), sr_email = ascii e, sr_state = Unchecked, sr_lock = LockDefault\<rparr>"
  let ?l = "[Single (?s ''a@b.c''), Group \<lparr>gr_recipients = [?s ''x@b.c'', ?s ''y@b.c''], gr_name = ascii ''G'', gr_total = 2\<rparr>, Single (?s ''z@b.c'')]"
  have "storable sample_env ?l"
    by (simp add: storable_def storable_recipient_def sample_env_def group_names_def recipients_of_def ascii_def)
  from recipient_list_roundtrip [OF this, of "\<lambda>_. None"] show ?thesis by (simp add: resolve_total_def Let_def)
qed

text \<open>
  With a password every address of good form should be supported, but one that was found to be outside of Proton is in none
  of the three sets, while without a password it is reported as unsupported.
\<close>

lemma external_address_unreported:
  fixes s :: single_recipient
  defines "s \<equiv> \<lparr>sr_name = None, sr_email = ascii ''a@b.c'', sr_state = ValidAddress False False, sr_lock = LockDefault\<rparr>"
  defines "d \<equiv> \<lparr>d_to_list = [Single s], d_cc_list = [], d_bcc_list = [], d_is_byoe = False\<rparr>"
  shows "validate_expiration sample_env (Some (False, True)) d = Some \<lparr>er_supported = {}, er_unsupported = {}, er_unknown = {}\<rparr>"
    and "validate_expiration sample_env (Some (False, False)) d = Some \<lparr>er_supported = {}, er_unsupported = {ascii ''a@b.c''}, er_unknown = {}\<rparr>"
  by (simp_all add: validate_expiration_def d_def s_def fill_expiration_support_report_as_supported_def add_as_supported_def Let_def
      validate_expiration_feature_def report_check_def is_known_proton_domain_def PROTON_EMAIL_DOMAINS_def ends_with_def sample_env_def ascii_def ascii_lower_def)

text \<open>A group that is added with the same address twice has it twice, and no duplicate is reported.\<close>

lemma duplicates_within_group:
  "case add_group sample_env (ascii ''G'') [entry_of (ascii ''a@b.c'') [], entry_of (ascii ''a@b.c'') []] 2 [] of
     (l, duplicates) \<Rightarrow> emails l = [ascii ''a@b.c'', ascii ''a@b.c''] \<and> duplicates = []"
  by (simp add: add_group_def add_group_with_state_def get_or_create_group_def is_duplicate_address_def new_recipient_def entry_of_def Let_def)

text \<open>
  When the save after \<open>AddRecipientGroup\<close> fails, members that were in the group before are removed along with the new ones.
\<close>

lemma failed_group_loses_members:
  fixes s :: single_recipient
  defines "s \<equiv> \<lparr>sr_name = None, sr_email = ascii ''a@b.c'', sr_state = InvalidEmail, sr_lock = Calculated None\<rparr>"
  defines "g \<equiv> \<lparr>gr_recipients = [s], gr_name = ascii ''G'', gr_total = 1\<rparr>"
  defines "a \<equiv> sample_opened\<lparr>da_draft := (da_draft sample_opened)\<lparr>d_to_list := [Group g]\<rparr>\<rparr>"
  shows "members (list_of To (snd (handle_message sample_env False False (AddRecipientGroup To (ascii ''G'') [entry_of (ascii ''a@b.c'') []] 1) a))) = []"
  by (simp add: handle_message_def handle_add_group_def a_def g_def s_def sample_opened_def add_group_def add_group_with_state_def get_or_create_group_def
      is_group_def is_duplicate_address_def recipient_group_from_draft_def put_list_def set_recipient_group_def spawn_def publish_list_def publish_event_def
      remove_group_recipients_def entry_of_def Let_def)

section \<open>Replies\<close>



definition sample_address :: sender_address where
  "sample_address = \<lparr>ad_remote_id = 1, ad_email = ascii ''ab'' @ 64 # ascii ''pm.me'', ad_status = AddrEnabled, ad_send = True, ad_receive = True,
     ad_order = 1, ad_flags = None, ad_signature = []\<rparr>"

definition sample_message :: source_message where
  "sample_message = \<lparr>sm_remote_id = Some 7, sm_sender_name = [], sm_sender_address = ascii ''x@y.z'', sm_time = 0, sm_label_ids = [ascii ''0''], sm_flags = 1,
     sm_to_list = [\<lparr>mr_address = ascii ''A.b+tag@PM.me'', mr_is_proton = True, mr_name = [], mr_group = None\<rparr>],
     sm_cc_list = [\<lparr>mr_address = ascii ''q@y.z'', mr_is_proton = False, mr_name = [], mr_group = None\<rparr>], sm_subject = ascii ''Hello''\<rparr>"


definition free_user :: draft_user where
  "free_user = \<lparr>us_subscribed = 0, us_role = RoleNone, us_delinquent = Paid\<rparr>"





text \<open>
  C34. The address that a reply is sent from is one of the user's, enabled, and sends and receives.  Without a complaint it is the one that
  received the message and it is valid; with a complaint no usable address comes before it.  It is still not valid in exactly one case: it was chosen instead of an invalid one, it is an
  address at \<open>pm.me\<close> and the user has no paid plan, since the choice does not ask for the plan.
\<close>

theorem reply_address_usable:
  assumes "reply_address lower stored u m address_id = Inr (a, complaint)"
  shows "(a \<in> set stored \<and> ad_status a = AddrEnabled \<and> ad_send a \<and> ad_receive a) \<and>
    (complaint = None \<longrightarrow> ad_remote_id a = address_id) \<and>
    (complaint \<noteq> None \<longrightarrow> (\<forall>a' \<in> set stored. ad_send a' \<and> ad_receive a' \<and> ad_status a' = AddrEnabled \<longrightarrow> ad_order a \<le> ad_order a')) \<and>
    (validate_sender_address lower a u \<noteq> None \<longleftrightarrow>
      complaint \<noteq> None \<and> ends_with (lower (ad_email a)) (ascii ''@pm.me'') \<and> \<not> has_paid_mail_plan u)"
proof -
  obtain r where r: "find (\<lambda>a. ad_remote_id a = address_id) stored = Some r"
    "case validate_sender_address lower r u of None \<Rightarrow> a = r \<and> complaint = None | Some e \<Rightarrow> find_valid_sender_address stored = Some a \<and> complaint = Some e"
    using assms by (auto simp: reply_address_def split: if_splits option.splits)
  have r_in: "r \<in> set stored" "ad_remote_id r = address_id" using r(1) by (auto simp: find_Some_iff)
  have chosen: "a \<in> set stored \<and> ad_status a = AddrEnabled \<and> ad_send a \<and> ad_receive a"
    "\<forall>a' \<in> set stored. ad_send a' \<and> ad_receive a' \<and> ad_status a' = AddrEnabled \<longrightarrow> ad_order a \<le> ad_order a'"
    if f: "find_valid_sender_address stored = Some a"
  proof -
    let ?us = "filter (\<lambda>a. ad_send a \<and> ad_receive a \<and> ad_status a = AddrEnabled) stored"
    obtain as where as: "sort_key ad_order ?us = a # as" using f by (auto simp: find_valid_sender_address_def split: list.splits)
    have "set (a # as) = set ?us" by (metis as set_sort)
    then show "a \<in> set stored \<and> ad_status a = AddrEnabled \<and> ad_send a \<and> ad_receive a" by auto
    have "sorted (map ad_order (a # as))" by (metis as sorted_sort_key)
    then have "\<forall>a' \<in> set (a # as). ad_order a \<le> ad_order a'" by auto
    then show "\<forall>a' \<in> set stored. ad_send a' \<and> ad_receive a' \<and> ad_status a' = AddrEnabled \<longrightarrow> ad_order a \<le> ad_order a'"
      unfolding \<open>set (a # as) = set ?us\<close> by auto
  qed
  have valid: "ad_status a = AddrEnabled \<and> ad_send a \<and> ad_receive a" if "validate_sender_address lower a u = None"
    using that by (auto simp: validate_sender_address_def split: if_splits)
  have usable: "a \<in> set stored \<and> ad_status a = AddrEnabled \<and> ad_send a \<and> ad_receive a"
    using r(2) r_in(1) valid chosen(1) by (auto split: option.splits)
  moreover have "complaint = None \<longrightarrow> ad_remote_id a = address_id" using r(2) r_in(2) by (auto split: option.splits)
  moreover have "complaint \<noteq> None \<longrightarrow> (\<forall>a' \<in> set stored. ad_send a' \<and> ad_receive a' \<and> ad_status a' = AddrEnabled \<longrightarrow> ad_order a \<le> ad_order a')"
    using r(2) chosen(2) by (auto split: option.splits)
  moreover have "validate_sender_address lower a u \<noteq> None \<longleftrightarrow>
      complaint \<noteq> None \<and> ends_with (lower (ad_email a)) (ascii ''@pm.me'') \<and> \<not> has_paid_mail_plan u"
    using r(2) usable by (auto simp: validate_sender_address_def split: option.splits if_splits)
  ultimately show ?thesis by blast
qed

theorem reply_address_usable_witness:
  "reply_address (map ascii_lower) [sample_address] free_user sample_message 1
     = Inr (sample_address, Some \<lparr>av_email = ascii ''ab'' @ 64 # ascii ''pm.me'', av_error = SubscriptionRequired\<rparr>) \<and>
   validate_sender_address (map ascii_lower) sample_address free_user \<noteq> None"
proof -
  let ?e = "\<lparr>av_email = ascii ''ab'' @ 64 # ascii ''pm.me'', av_error = SubscriptionRequired\<rparr>"
  have v: "ends_with (map ascii_lower (ad_email sample_address)) (ascii ''@pm.me'')" "\<not> has_paid_mail_plan free_user"
    by (simp_all add: sample_address_def ends_with_def ascii_def ascii_lower_def has_paid_mail_plan_def free_user_def SUBSCRIPTION_MAIL_def)
  have "validate_sender_address (map ascii_lower) sample_address free_user = Some ?e"
    unfolding validate_sender_address_def using v by (simp add: sample_address_def)
  then have r: "reply_address (map ascii_lower) [sample_address] free_user sample_message 1 = Inr (sample_address, Some ?e)"
    by (simp add: reply_address_def sample_message_def flags_is_draft_def MESSAGE_SENT_def MESSAGE_RECEIVED_def find_valid_sender_address_def)
      (simp add: sample_address_def)
  then show ?thesis using reply_address_usable [OF r] v by simp
qed

text \<open>
  C35. Replying to a reply does not add a second prefix to the subject exactly if the subject has something to show: a blank subject
  becomes \<open>Re:\<close> with a space, which is trimmed away so that the next reply has the prefix twice.  From the second reply on the subject does not change.
\<close>

theorem subject_prefix_once:
  "(apply_prefix_to_subject REPLY_PREFIX (apply_prefix_to_subject REPLY_PREFIX s) = apply_prefix_to_subject REPLY_PREFIX s \<longleftrightarrow> trim_str s \<noteq> []) \<and>
   (apply_prefix_to_subject FORWARD_PREFIX (apply_prefix_to_subject FORWARD_PREFIX s) = apply_prefix_to_subject FORWARD_PREFIX s \<longleftrightarrow> trim_str s \<noteq> []) \<and>
   apply_prefix_to_subject REPLY_PREFIX (apply_prefix_to_subject REPLY_PREFIX (apply_prefix_to_subject REPLY_PREFIX s))
     = apply_prefix_to_subject REPLY_PREFIX (apply_prefix_to_subject REPLY_PREFIX s)"
proof -
  have p: "REPLY_PREFIX = [82, 101, 58, 32]" "FORWARD_PREFIX = [70, 119, 58, 32]" by (simp_all add: REPLY_PREFIX_def FORWARD_PREFIX_def ascii_def)
  note again = prefix_again [of s REPLY_PREFIX] prefix_again [of s FORWARD_PREFIX]
  show ?thesis
  proof (cases "trim_str s = []")
    case True
    have one: "apply_prefix_to_subject REPLY_PREFIX s = [82, 101, 58, 32]" "apply_prefix_to_subject FORWARD_PREFIX s = [70, 119, 58, 32]"
      by (simp_all add: apply_prefix_to_subject_def True p)
    have two: "apply_prefix_to_subject REPLY_PREFIX [82, 101, 58, 32] = [82, 101, 58, 32, 82, 101, 58]"
      "apply_prefix_to_subject FORWARD_PREFIX [70, 119, 58, 32] = [70, 119, 58, 32, 70, 119, 58]"
      "apply_prefix_to_subject REPLY_PREFIX [82, 101, 58, 32, 82, 101, 58] = [82, 101, 58, 32, 82, 101, 58]"
      by (simp_all add: apply_prefix_to_subject_def p trim_str_def is_white_char_def)
    then show ?thesis using True one by simp
  next
    case False
    then show ?thesis using again by (simp add: p is_white_char_def)
  qed
qed

end
