(* ===== verification/Network_Monitor.thy ===== *)
theory Network_Monitor
  imports Main
begin

text \<open>
  The network monitor (\<open>shared/network-monitor-service/src\<close>): it combines what the operating system says of the network with the
  outcome of requests, tests the connection in the background while it is lost, and answers requests for an immediate test.  Several tasks share watch
  channels; their steps are the rules of \<open>monitor_step\<close>.  The answers of the tester, the clock and the order of the steps are open.
\<close>

section \<open>Statuses\<close>

datatype request_network_status = ReqOnline | ServerUnreachable | ReqOffline

datatype os_network_status = OsOnline | OsOffline

definition is_online :: "request_network_status \<Rightarrow> bool" where
  "is_online s = (s = ReqOnline)"

definition combine_status :: "os_network_status \<Rightarrow> request_network_status \<Rightarrow> request_network_status" where
  "combine_status os_status request_status = (if os_status = OsOffline then ReqOffline else request_status)"

text \<open>What a connection reports of the result of a request (\<open>muon.rs\<close>); \<open>Send\<close> tells whether the limit of time was the reason.\<close>

datatype request_error = ErrTls | ErrResolve | ErrDial | ErrSend (send_timeout: bool) | ErrConnect | ErrOther

definition on_recv_err :: "request_error \<Rightarrow> request_network_status option" where
  "on_recv_err e = (case e of
     ErrTls \<Rightarrow> Some ReqOffline | ErrResolve \<Rightarrow> Some ReqOffline | ErrDial \<Rightarrow> Some ReqOffline
   | ErrSend timeout \<Rightarrow> if \<not> timeout then Some ReqOffline else None
   | ErrConnect \<Rightarrow> Some ServerUnreachable
   | ErrOther \<Rightarrow> None)"

definition on_recv_ok :: "nat \<Rightarrow> request_network_status" where
  "on_recv_ok code = (if code = 429 \<or> 500 \<le> code \<and> code < 600 then ServerUnreachable else ReqOnline)"

definition inspect_result :: "request_error + nat \<Rightarrow> request_network_status option" where
  "inspect_result r = (case r of Inr code \<Rightarrow> Some (on_recv_ok code) | Inl e \<Rightarrow> on_recv_err e)"

section \<open>State\<close>

text \<open>A watch channel: its value, and whether it was changed since the background task has looked.\<close>

record 'v watch_channel =
  wc_value :: 'v
  wc_changed :: bool

definition update_watcher_value :: "'v \<Rightarrow> 'v watch_channel \<Rightarrow> 'v watch_channel" where
  "update_watcher_value v w = (if wc_value w = v then w else \<lparr>wc_value = v, wc_changed = True\<rparr>)"

record monitor_config =
  nc_retry_interval :: nat
  nc_immediate_retries :: nat
  nc_background_retries :: nat
  nc_infinite_checks :: bool

text \<open>The tester in the background: the tests that may still follow the next one in this round, or it has returned (or died).\<close>

datatype tester_task = Testing nat | TesterReturned

text \<open>
  The tester for immediate requests: idle, testing for a caller, about to report to the background task, or dead: its task was aborted or has
  panicked in a test.
\<close>

datatype immediate_tester = ImIdle | ImTesting nat nat | ImReporting request_network_status | ImDead

text \<open>
  The channels of the service (\<open>nm\<close>), the fields of the background task (\<open>bt\<close>), and the immediate tester with its two
  channels (\<open>im\<close>).  \<open>bt_checking\<close> holds while the task waits for the test after the operating system came back online.
\<close>

record monitor =
  nm_os :: "os_network_status watch_channel"
  nm_request :: "request_network_status watch_channel"
  nm_subscriber :: request_network_status
  nm_immediate :: "nat list"
  nm_replies :: "(nat \<times> request_network_status) list"
  nm_clock :: nat
  bt_os :: os_network_status
  bt_request :: request_network_status
  bt_subscriber :: request_network_status
  bt_tester :: "tester_task option"
  bt_checking :: bool
  bt_last_immediate :: nat
  bt_running :: bool
  im_requests :: "nat list"
  im_tester :: immediate_tester
  im_results :: "request_network_status list"

section \<open>The background task\<close>

definition update_subscriber_status :: "monitor_config \<Rightarrow> monitor \<Rightarrow> monitor" where
  "update_subscriber_status cfg m =
    (let subscriber_status = combine_status (bt_os m) (bt_request m);
         m = m\<lparr>nm_subscriber := subscriber_status\<rparr>
     in if bt_subscriber m = subscriber_status then m
        else if is_online subscriber_status then m\<lparr>bt_tester := None, bt_subscriber := subscriber_status\<rparr>
        else if bt_os m = OsOnline then
          m\<lparr>bt_tester := (if bt_tester m = None then Some (Testing (nc_background_retries cfg)) else bt_tester m), bt_subscriber := subscriber_status\<rparr>
        else m\<lparr>bt_tester := None, bt_subscriber := subscriber_status\<rparr>)"

text \<open>\<open>update_os_network_status\<close>, up to the test and after it.\<close>

definition update_os_network_status :: "monitor_config \<Rightarrow> monitor \<Rightarrow> monitor" where
  "update_os_network_status cfg m =
    (if wc_value (nm_os m) = bt_os m then m
     else let m = m\<lparr>bt_os := wc_value (nm_os m)\<rparr>
       in if bt_os m = OsOnline then m\<lparr>bt_checking := True\<rparr>
          else update_subscriber_status cfg (m\<lparr>bt_tester := None\<rparr>))"

definition os_check_answered :: "monitor_config \<Rightarrow> request_network_status \<Rightarrow> monitor \<Rightarrow> monitor" where
  "os_check_answered cfg network_status m =
     update_subscriber_status cfg (m\<lparr>nm_request := update_watcher_value network_status (nm_request m), bt_request := network_status, bt_checking := False\<rparr>)"

definition update_request_network_status :: "monitor_config \<Rightarrow> monitor \<Rightarrow> monitor" where
  "update_request_network_status cfg m =
    (if wc_value (nm_request m) = bt_request m then m
     else update_subscriber_status cfg (m\<lparr>bt_request := wc_value (nm_request m)\<rparr>))"

text \<open>To hand a request to a dead tester fails; the caller gets the cached status then, but the flag is set already.\<close>

definition handle_immediate_request :: "monitor_config \<Rightarrow> nat \<Rightarrow> monitor \<Rightarrow> monitor" where
  "handle_immediate_request cfg caller m =
    (if \<not> bt_running m \<and> nc_retry_interval cfg < nm_clock m - bt_last_immediate m
     then let m = m\<lparr>bt_last_immediate := nm_clock m, bt_running := True\<rparr>
       in if im_tester m = ImDead then m\<lparr>nm_replies := nm_replies m @ [(caller, bt_request m)]\<rparr>
          else m\<lparr>im_requests := im_requests m @ [caller]\<rparr>
     else m\<lparr>nm_replies := nm_replies m @ [(caller, bt_request m)]\<rparr>)"

definition task_new :: "monitor_config \<Rightarrow> os_network_status \<Rightarrow> request_network_status \<Rightarrow> nat \<Rightarrow> monitor" where
  "task_new cfg os request now = update_subscriber_status cfg
     \<lparr>nm_os = \<lparr>wc_value = os, wc_changed = False\<rparr>, nm_request = \<lparr>wc_value = request, wc_changed = False\<rparr>, nm_subscriber = ReqOnline,
      nm_immediate = [], nm_replies = [], nm_clock = now, bt_os = os, bt_request = request, bt_subscriber = ReqOnline, bt_tester = None,
      bt_checking = False, bt_last_immediate = (if nc_retry_interval cfg \<le> now then now - nc_retry_interval cfg else now), bt_running = False,
      im_requests = [], im_tester = ImIdle, im_results = []\<rparr>"

section \<open>The testers\<close>

text \<open>
  One answer in \<open>perform_tester_check\<close>, with the tests that may follow: the result when it is the last one.
\<close>

definition tester_answer :: "request_network_status \<Rightarrow> nat \<Rightarrow> request_network_status + nat" where
  "tester_answer status n = (if is_online status then Inl status else case n of 0 \<Rightarrow> Inl status | Suc n \<Rightarrow> Inr n)"

definition network_tester :: "monitor_config \<Rightarrow> request_network_status \<Rightarrow> nat \<Rightarrow> tester_task" where
  "network_tester cfg status n = (case tester_answer status n of
     Inr n \<Rightarrow> Testing n
   | Inl status \<Rightarrow> if is_online status then TesterReturned
       else if \<not> nc_infinite_checks cfg then TesterReturned
       else Testing (nc_background_retries cfg))"

text \<open>
  \<open>check_now_deferred\<close>, when the service was not started or its task gives no answer: \<open>None\<close> if the request cannot be
  sent, \<open>Some None\<close> if no answer comes in time.
\<close>

definition check_now :: "request_network_status option option \<Rightarrow> monitor option \<Rightarrow> request_network_status" where
  "check_now answer service = (case service of
     None \<Rightarrow> ReqOnline
   | Some m \<Rightarrow> (case answer of
       None \<Rightarrow> ReqOnline
     | Some None \<Rightarrow> nm_subscriber m
     | Some (Some status) \<Rightarrow> status))"

section \<open>Steps\<close>

text \<open>
  The first three come from outside.  The branches of \<open>select\<close> in \<open>run\<close> are taken only when the task does not wait for a
  test.  A tester that is aborted in the middle of a step may still report once; \<open>request_reported\<close> covers that.  The channels
  to the task and to and from the immediate tester have room for one item.  Each branch of the \<open>select\<close> is one step: that a change was
  noticed and that its value is read afterwards are merged, and a report that falls between the two is ordered before both.
  The testers call code from outside and may die in it; requests that a dead tester has not taken are dropped with its channel, and the
  channel of its results then gives nothing, over and over (\<open>immediate_gone\<close>).
\<close>

inductive monitor_step :: "monitor_config \<Rightarrow> monitor \<Rightarrow> monitor \<Rightarrow> bool" for cfg where
  os_reported: "monitor_step cfg m (m\<lparr>nm_os := update_watcher_value os (nm_os m)\<rparr>)"
| request_reported: "monitor_step cfg m (m\<lparr>nm_request := update_watcher_value s (nm_request m)\<rparr>)"
| immediate_requested: "nm_immediate m = [] \<Longrightarrow> monitor_step cfg m (m\<lparr>nm_immediate := [caller]\<rparr>)"
| time_passes: "monitor_step cfg m (m\<lparr>nm_clock := Suc (nm_clock m)\<rparr>)"
| os_changed: "\<not> bt_checking m \<Longrightarrow> wc_changed (nm_os m) \<Longrightarrow>
    monitor_step cfg m (update_os_network_status cfg (m\<lparr>nm_os := (nm_os m)\<lparr>wc_changed := False\<rparr>\<rparr>))"
| os_checked: "bt_checking m \<Longrightarrow> monitor_step cfg m (os_check_answered cfg s m)"
| request_changed: "\<not> bt_checking m \<Longrightarrow> wc_changed (nm_request m) \<Longrightarrow>
    monitor_step cfg m (update_request_network_status cfg (m\<lparr>nm_request := (nm_request m)\<lparr>wc_changed := False\<rparr>\<rparr>))"
| immediate_taken: "\<not> bt_checking m \<Longrightarrow> nm_immediate m = caller # rest \<Longrightarrow>
    monitor_step cfg m (handle_immediate_request cfg caller (m\<lparr>nm_immediate := rest\<rparr>))"
| immediate_done: "\<not> bt_checking m \<Longrightarrow> im_results m = s # rest \<Longrightarrow> monitor_step cfg m (m\<lparr>im_results := rest, bt_running := False\<rparr>)"
| tester_checks: "bt_tester m = Some (Testing n) \<Longrightarrow>
    monitor_step cfg m (m\<lparr>nm_request := update_watcher_value s (nm_request m), bt_tester := Some (network_tester cfg s n)\<rparr>)"
| immediate_starts: "im_tester m = ImIdle \<Longrightarrow> im_requests m = caller # rest \<Longrightarrow>
    monitor_step cfg m (m\<lparr>im_requests := rest, im_tester := ImTesting caller (nc_immediate_retries cfg)\<rparr>)"
| immediate_checks: "im_tester m = ImTesting caller n \<Longrightarrow> tester_answer s n = Inr n' \<Longrightarrow>
    monitor_step cfg m (m\<lparr>nm_request := update_watcher_value s (nm_request m), im_tester := ImTesting caller n'\<rparr>)"
| immediate_answers: "im_tester m = ImTesting caller n \<Longrightarrow> tester_answer s n = Inl result \<Longrightarrow>
    monitor_step cfg m (m\<lparr>nm_request := update_watcher_value s (nm_request m), nm_replies := nm_replies m @ [(caller, result)], im_tester := ImReporting result\<rparr>)"
| immediate_reports: "im_tester m = ImReporting s \<Longrightarrow> im_results m = [] \<Longrightarrow> monitor_step cfg m (m\<lparr>im_tester := ImIdle, im_results := [s]\<rparr>)"
| tester_dies: "bt_tester m = Some (Testing n) \<Longrightarrow> monitor_step cfg m (m\<lparr>bt_tester := Some TesterReturned\<rparr>)"
| immediate_dies: "monitor_step cfg m (m\<lparr>im_requests := [], im_tester := ImDead\<rparr>)"
| immediate_gone: "\<not> bt_checking m \<Longrightarrow> im_tester m = ImDead \<Longrightarrow> im_results m = [] \<Longrightarrow> monitor_step cfg m m"

inductive monitor_reached :: "monitor_config \<Rightarrow> monitor \<Rightarrow> bool" for cfg where
  started: "monitor_reached cfg (task_new cfg os request now)"
| moved: "monitor_reached cfg m \<Longrightarrow> monitor_step cfg m m' \<Longrightarrow> monitor_reached cfg m'"

end
