(* ===== verification/Network_Props.thy ===== *)
theory Network_Props
  imports Network_Monitor
begin

text \<open>The invariant of the network monitor and its properties.\<close>

section \<open>The invariant\<close>

text \<open>What the background task knows is what was reported, or a change waits for it.\<close>

definition changes_wait :: "monitor \<Rightarrow> bool" where
  "changes_wait m = ((bt_os m = wc_value (nm_os m) \<or> wc_changed (nm_os m)) \<and> (bt_request m = wc_value (nm_request m) \<or> wc_changed (nm_request m)))"

text \<open>What the observers see, and when there is a tester.\<close>

definition status_inv :: "monitor \<Rightarrow> bool" where
  "status_inv m = (nm_subscriber m = bt_subscriber m \<and>
     (if bt_checking m then bt_os m = OsOnline \<and> bt_subscriber m = ReqOffline \<and> bt_tester m = None
      else bt_subscriber m = combine_status (bt_os m) (bt_request m) \<and> (bt_subscriber m = ServerUnreachable \<longrightarrow> bt_tester m \<noteq> None)) \<and>
     (bt_os m = OsOffline \<or> bt_subscriber m = ReqOnline \<longrightarrow> bt_tester m = None))"

text \<open>
  The immediate tests that are waiting, under way, or not yet taken note of by the background task.  While the tester lives, the flag of a running
  test stands for exactly one of them.
\<close>

definition immediate_tests :: "monitor \<Rightarrow> nat" where
  "immediate_tests m = length (im_requests m) + (if im_tester m = ImIdle \<or> im_tester m = ImDead then 0 else 1) + length (im_results m)"

definition immediate_inv :: "monitor \<Rightarrow> bool" where
  "immediate_inv m = (if im_tester m = ImDead then im_requests m = [] \<and> immediate_tests m \<le> (if bt_running m then 1 else 0)
     else immediate_tests m = (if bt_running m then 1 else 0))"

definition monitor_inv :: "monitor \<Rightarrow> bool" where
  "monitor_inv m = (changes_wait m \<and> status_inv m \<and> immediate_inv m)"

lemma updated_watcher [simp]: "wc_value (update_watcher_value v w) = v"
  by (simp add: update_watcher_value_def)

lemma update_waits: "x = wc_value w \<or> wc_changed w \<Longrightarrow> x = v \<or> wc_changed (update_watcher_value v w)"
  by (auto simp: update_watcher_value_def)

lemma not_os_online [simp]: "os \<noteq> OsOnline \<longleftrightarrow> os = OsOffline" "OsOnline \<noteq> os \<longleftrightarrow> os = OsOffline"
  by (cases os; simp)+

lemma subscriber_frame [simp]:
  "nm_os (update_subscriber_status cfg m) = nm_os m" "nm_request (update_subscriber_status cfg m) = nm_request m"
  "bt_os (update_subscriber_status cfg m) = bt_os m" "bt_request (update_subscriber_status cfg m) = bt_request m"
  "bt_checking (update_subscriber_status cfg m) = bt_checking m" "bt_running (update_subscriber_status cfg m) = bt_running m"
  "im_requests (update_subscriber_status cfg m) = im_requests m" "im_tester (update_subscriber_status cfg m) = im_tester m"
  "im_results (update_subscriber_status cfg m) = im_results m"
  by (simp_all add: update_subscriber_status_def Let_def)

lemma subscriber_updated:
  "nm_subscriber (update_subscriber_status cfg m) = combine_status (bt_os m) (bt_request m)"
  "bt_subscriber (update_subscriber_status cfg m) = combine_status (bt_os m) (bt_request m)"
  "bt_tester (update_subscriber_status cfg m) = (if bt_subscriber m = combine_status (bt_os m) (bt_request m) then bt_tester m
     else if combine_status (bt_os m) (bt_request m) = ReqOnline \<or> bt_os m = OsOffline then None
     else if bt_tester m = None then Some (Testing (nc_background_retries cfg)) else bt_tester m)"
  by (simp_all add: update_subscriber_status_def Let_def is_online_def)

lemma immediate_frame [simp]:
  "immediate_inv (update_subscriber_status cfg m) = immediate_inv m" "immediate_inv (m\<lparr>nm_os := os\<rparr>) = immediate_inv m"
  "immediate_inv (m\<lparr>nm_request := req\<rparr>) = immediate_inv m" "immediate_inv (m\<lparr>nm_immediate := cs\<rparr>) = immediate_inv m"
  "immediate_inv (m\<lparr>nm_replies := rs\<rparr>) = immediate_inv m" "immediate_inv (m\<lparr>nm_clock := t\<rparr>) = immediate_inv m"
  "immediate_inv (m\<lparr>bt_os := s\<rparr>) = immediate_inv m" "immediate_inv (m\<lparr>bt_request := r\<rparr>) = immediate_inv m"
  "immediate_inv (m\<lparr>bt_tester := tt\<rparr>) = immediate_inv m" "immediate_inv (m\<lparr>bt_checking := c\<rparr>) = immediate_inv m"
  by (simp_all add: immediate_inv_def immediate_tests_def)

text \<open>An update of the subscribers keeps the invariant when the tester is not left behind.\<close>

lemma subscriber_status_inv:
  assumes "\<not> bt_checking m" and "bt_subscriber m = ServerUnreachable \<longrightarrow> bt_tester m \<noteq> None \<or> bt_os m = OsOffline"
    and "bt_os m = OsOffline \<or> bt_subscriber m = ReqOnline \<longrightarrow> bt_tester m = None"
  shows "status_inv (update_subscriber_status cfg m)"
  using assms by (auto simp: status_inv_def subscriber_updated combine_status_def)

lemma task_new_inv: "monitor_inv (task_new cfg os request now)"
  unfolding monitor_inv_def task_new_def
  by (intro conjI subscriber_status_inv) (simp_all add: changes_wait_def immediate_inv_def immediate_tests_def)

lemma os_updated:
  assumes "monitor_inv m" and "\<not> bt_checking m"
  shows "monitor_inv (update_os_network_status cfg (m\<lparr>nm_os := (nm_os m)\<lparr>wc_changed := False\<rparr>\<rparr>))"
proof -
  let ?m = "m\<lparr>nm_os := (nm_os m)\<lparr>wc_changed := False\<rparr>\<rparr>"
  have inv: "changes_wait m" "status_inv m" "immediate_inv m" using assms(1) by (simp_all add: monitor_inv_def)
  show ?thesis
  proof (cases "wc_value (nm_os m) = bt_os m")
    case True
    then show ?thesis using inv by (simp add: update_os_network_status_def monitor_inv_def changes_wait_def status_inv_def)
  next
    case changed: False
    show ?thesis
    proof (cases "wc_value (nm_os m)")
      case OsOnline
      then have "bt_os m = OsOffline" using changed by simp
      then show ?thesis using inv assms(2) OsOnline
        by (simp add: update_os_network_status_def monitor_inv_def changes_wait_def status_inv_def combine_status_def)
    next
      case OsOffline
      have "status_inv (update_subscriber_status cfg (?m\<lparr>bt_os := OsOffline, bt_tester := None\<rparr>))"
        by (rule subscriber_status_inv) (simp_all add: assms(2))
      then show ?thesis using inv changed OsOffline
        by (auto simp: update_os_network_status_def Let_def monitor_inv_def changes_wait_def)
    qed
  qed
qed

lemma os_answered:
  assumes "monitor_inv m" and "bt_checking m"
  shows "monitor_inv (os_check_answered cfg s m)"
proof -
  have "status_inv (os_check_answered cfg s m)"
    unfolding os_check_answered_def by (rule subscriber_status_inv) (use assms in \<open>simp_all add: monitor_inv_def status_inv_def\<close>)
  then show ?thesis using assms(1) by (simp add: monitor_inv_def changes_wait_def os_check_answered_def)
qed

lemma request_updated:
  assumes "monitor_inv m" and "\<not> bt_checking m"
  shows "monitor_inv (update_request_network_status cfg (m\<lparr>nm_request := (nm_request m)\<lparr>wc_changed := False\<rparr>\<rparr>))"
proof -
  let ?m = "m\<lparr>nm_request := (nm_request m)\<lparr>wc_changed := False\<rparr>, bt_request := wc_value (nm_request m)\<rparr>"
  have "status_inv (update_subscriber_status cfg ?m)"
    by (rule subscriber_status_inv) (use assms in \<open>simp_all add: monitor_inv_def status_inv_def\<close>)
  then show ?thesis using assms
    by (auto simp: update_request_network_status_def monitor_inv_def changes_wait_def status_inv_def)
qed

lemma immediate_handled:
  assumes "monitor_inv m"
  shows "monitor_inv (handle_immediate_request cfg caller (m\<lparr>nm_immediate := rest\<rparr>))" (is "monitor_inv ?m'")
proof -
  have inv: "changes_wait m" "status_inv m" "immediate_inv m" using assms by (simp_all add: monitor_inv_def)
  have "changes_wait ?m'" "status_inv ?m'"
    using inv(1,2) by (auto simp: handle_immediate_request_def Let_def changes_wait_def status_inv_def split: if_splits)
  moreover have "immediate_inv ?m'"
    using inv(3) by (simp add: handle_immediate_request_def Let_def immediate_inv_def immediate_tests_def split: if_splits)
  ultimately show ?thesis by (simp add: monitor_inv_def)
qed

text \<open>Reports to a channel.\<close>

lemma reported_inv:
  assumes "monitor_inv m"
  shows "monitor_inv (m\<lparr>nm_os := update_watcher_value os (nm_os m)\<rparr>)" and "monitor_inv (m\<lparr>nm_request := update_watcher_value s (nm_request m)\<rparr>)"
  using assms update_waits [of "bt_os m" "nm_os m" os] update_waits [of "bt_request m" "nm_request m" s]
  by (simp_all add: monitor_inv_def changes_wait_def status_inv_def)

lemma other_fields_inv:
  assumes "monitor_inv m"
  shows "monitor_inv (m\<lparr>nm_immediate := cs\<rparr>)" "monitor_inv (m\<lparr>nm_clock := t\<rparr>)" "monitor_inv (m\<lparr>nm_replies := rs\<rparr>)"
    and "bt_tester m \<noteq> None \<Longrightarrow> monitor_inv (m\<lparr>bt_tester := Some t'\<rparr>)"
  using assms by (auto simp: monitor_inv_def changes_wait_def status_inv_def split: if_splits)

text \<open>The immediate test changes its place.\<close>

lemma immediate_moves:
  assumes "monitor_inv m"
    and "im_tester m \<noteq> ImDead" "im \<noteq> ImDead"
    and "length reqs + (if im = ImIdle then 0 else 1) + length results = length (im_requests m) + (if im_tester m = ImIdle then 0 else 1) + length (im_results m)"
  shows "monitor_inv (m\<lparr>im_requests := reqs, im_tester := im, im_results := results\<rparr>)"
  using assms by (simp add: monitor_inv_def changes_wait_def status_inv_def immediate_inv_def immediate_tests_def)

lemma immediate_dead:
  assumes "monitor_inv m"
  shows "monitor_inv (m\<lparr>im_requests := [], im_tester := ImDead\<rparr>)"
  using assms by (auto simp: monitor_inv_def changes_wait_def status_inv_def immediate_inv_def immediate_tests_def split: if_splits)

lemma step_inv:
  assumes "monitor_step cfg m m'" and inv: "monitor_inv m"
  shows "monitor_inv m'"
  using assms(1)
proof (cases rule: monitor_step.cases)
  case (immediate_done s rest)
  then show ?thesis using inv by (simp add: monitor_inv_def changes_wait_def status_inv_def immediate_inv_def immediate_tests_def split: if_splits)
next
  case (tester_checks n s)
  then show ?thesis using other_fields_inv(4) [OF reported_inv(2) [OF inv]] by simp
next
  case (immediate_starts caller rest)
  then show ?thesis using immediate_moves [OF inv, where im = "ImTesting caller (nc_immediate_retries cfg)" and reqs = rest and results = "im_results m"] by simp
next
  case (immediate_checks caller n s n')
  then show ?thesis using immediate_moves [OF reported_inv(2) [OF inv, of s], where im = "ImTesting caller n'" and reqs = "im_requests m" and results = "im_results m"] by simp
next
  case (immediate_answers caller n s r)
  then show ?thesis
    using immediate_moves [OF other_fields_inv(3) [OF reported_inv(2) [OF inv, of s], of "nm_replies m @ [(caller, r)]"],
        where im = "ImReporting r" and reqs = "im_requests m" and results = "im_results m"]
    by simp
next
  case (immediate_reports s)
  then show ?thesis using immediate_moves [OF inv, where im = ImIdle and reqs = "im_requests m" and results = "[s]"] by simp
qed (simp_all add: inv reported_inv other_fields_inv os_updated os_answered request_updated immediate_handled immediate_dead)

lemma reached_monitor_inv: "monitor_reached cfg m \<Longrightarrow> monitor_inv m"
  by (induction rule: monitor_reached.induct) (auto intro: task_new_inv step_inv)

lemma reached_on:
  assumes "(monitor_step cfg)\<^sup>*\<^sup>* m m'" and "monitor_reached cfg m"
  shows "monitor_reached cfg m'"
  using assms by (induction rule: rtranclp_induct) (auto intro: monitor_reached.moved)

text \<open>When the last reports say online and the task has taken them all, it shows so, and there is no tester.\<close>

lemma settled_online:
  assumes "monitor_reached cfg m" and "\<not> bt_checking m" "\<not> wc_changed (nm_os m)" "\<not> wc_changed (nm_request m)"
    and "wc_value (nm_os m) = OsOnline" "wc_value (nm_request m) = ReqOnline"
  shows "nm_subscriber m = ReqOnline \<and> bt_tester m = None"
  using reached_monitor_inv [OF assms(1)] assms(2-) by (simp add: monitor_inv_def changes_wait_def status_inv_def combine_status_def)

text \<open>While there is a tester, the system is online and observers see that a request has failed.\<close>

lemma tester_facts:
  assumes "monitor_reached cfg m" and "bt_tester m = Some t"
  shows "\<not> bt_checking m" "bt_os m = OsOnline" "bt_subscriber m = bt_request m" "nm_subscriber m = bt_request m" "bt_request m \<noteq> ReqOnline"
    "changes_wait m"
proof -
  have inv: "changes_wait m" "status_inv m" using reached_monitor_inv [OF assms(1)] by (simp_all add: monitor_inv_def)
  then show "changes_wait m" by blast
  show c: "\<not> bt_checking m" using inv(2) assms(2) by (cases "bt_checking m") (simp_all add: status_inv_def)
  show os: "bt_os m = OsOnline" using inv(2) assms(2) by (cases "bt_os m") (simp_all add: status_inv_def)
  show s: "bt_subscriber m = bt_request m" "nm_subscriber m = bt_request m" using inv(2) c os by (simp_all add: status_inv_def combine_status_def)
  show "bt_request m \<noteq> ReqOnline" using inv(2) assms(2) s by (simp add: status_inv_def)
qed

section \<open>Properties\<close>

text \<open>The system was offline, came back online, and the task waits for its test.\<close>

definition sample_config :: monitor_config where
  "sample_config = \<lparr>nc_retry_interval = 5, nc_immediate_retries = 3, nc_background_retries = 3, nc_infinite_checks = True\<rparr>"

definition sample_checking :: monitor where
  "sample_checking = (task_new sample_config OsOffline ReqOnline 9)
     \<lparr>nm_os := \<lparr>wc_value = OsOnline, wc_changed = False\<rparr>, bt_os := OsOnline, bt_checking := True\<rparr>"

lemma sample_checking_reached: "monitor_reached sample_config sample_checking"
proof -
  let ?m = "task_new sample_config OsOffline ReqOnline 9" and ?on = "\<lparr>wc_value = OsOnline, wc_changed = True\<rparr>"
  have "monitor_reached sample_config (?m\<lparr>nm_os := update_watcher_value OsOnline (nm_os ?m)\<rparr>)"
    by (rule monitor_reached.moved [OF monitor_reached.started monitor_step.os_reported])
  then have "monitor_reached sample_config (?m\<lparr>nm_os := ?on\<rparr>)" by (simp add: task_new_def update_watcher_value_def)
  from monitor_reached.moved [OF this monitor_step.os_changed] show ?thesis
    by (simp add: task_new_def update_os_network_status_def sample_checking_def update_subscriber_status_def combine_status_def is_online_def)
qed

definition sample_testing :: monitor where
  "sample_testing = task_new sample_config OsOnline ServerUnreachable 9"

lemma sample_testing_facts:
  "monitor_reached sample_config sample_testing" "bt_tester sample_testing = Some (Testing 3)" "nm_subscriber sample_testing = ServerUnreachable"
  unfolding sample_testing_def
  by (rule monitor_reached.started) (simp_all add: task_new_def subscriber_updated combine_status_def sample_config_def)

text \<open>
  C36. In every state that the monitor and its testers reach, whatever is reported and in whatever order: when nothing waits to be taken by the
  background task, observers see exactly the combination of the last report of the operating system and the last report of a request, so no report is
  lost; and they see \<open>Offline\<close> while the system is offline or the test after its return is under way.
\<close>

theorem network_status_exact:
  assumes "monitor_reached cfg m"
  shows "(\<not> bt_checking m \<and> \<not> wc_changed (nm_os m) \<and> \<not> wc_changed (nm_request m) \<longrightarrow>
      nm_subscriber m = combine_status (wc_value (nm_os m)) (wc_value (nm_request m))) \<and>
    (bt_os m = OsOffline \<or> bt_checking m \<longrightarrow> nm_subscriber m = ReqOffline)"
  using reached_monitor_inv [OF assms] by (auto simp: monitor_inv_def changes_wait_def status_inv_def combine_status_def split: if_splits)

theorem network_status_exact_witness:
  "nm_subscriber sample_testing = combine_status OsOnline ServerUnreachable \<and> nm_subscriber sample_checking = ReqOffline"
  using network_status_exact [OF sample_testing_facts(1)] network_status_exact [OF sample_checking_reached]
  by (simp add: sample_testing_def sample_checking_def task_new_def)

text \<open>
  C37. While the background tester runs, the monitor finds back.  When a test succeeds and the task takes that change next, observers see that the network
  is online and the tester is ended.  Whatever else happens after the successful test, a change of the operating system's status that is taken
  first included: when the task has taken every change and the last reports of a request and of the operating system say online, observers see online
  and there is no tester.  (A request that reports the old status before the task has looked can undo the test, as the property about the
  returned tester shows.)  With unlimited tests the tester does not give up on a failed one.
\<close>

theorem tester_recovers:
  assumes "monitor_reached cfg m" and "bt_tester m = Some (Testing n)"
  defines "m1 \<equiv> m\<lparr>nm_request := update_watcher_value ReqOnline (nm_request m), bt_tester := Some (network_tester cfg ReqOnline n)\<rparr>"
  defines "m2 \<equiv> update_request_network_status cfg (m1\<lparr>nm_request := (nm_request m1)\<lparr>wc_changed := False\<rparr>\<rparr>)"
  shows "monitor_step cfg m m1 \<and> monitor_step cfg m1 m2 \<and> nm_subscriber m2 = ReqOnline \<and> bt_tester m2 = None \<and>
    (\<forall>m3. (monitor_step cfg)\<^sup>*\<^sup>* m1 m3 \<and> \<not> bt_checking m3 \<and> \<not> wc_changed (nm_os m3) \<and> \<not> wc_changed (nm_request m3) \<and>
       wc_value (nm_os m3) = OsOnline \<and> wc_value (nm_request m3) = ReqOnline \<longrightarrow> nm_subscriber m3 = ReqOnline \<and> bt_tester m3 = None) \<and>
    (nc_infinite_checks cfg \<longrightarrow> (\<forall>s. s \<noteq> ReqOnline \<longrightarrow> (\<exists>k. network_tester cfg s n = Testing k)))"
proof -
  note os = tester_facts(1,2) [OF assms(1,2)] and off = tester_facts(5,3) [OF assms(1,2)] and inv = tester_facts(6) [OF assms(1,2)]
  have s1: "monitor_step cfg m m1" unfolding m1_def using assms(2) by (rule monitor_step.tester_checks)
  have "wc_changed (nm_request m1)" using update_waits [of "bt_request m" "nm_request m" ReqOnline] inv off(1) by (simp add: m1_def changes_wait_def)
  then have s2: "monitor_step cfg m1 m2" unfolding m2_def using os(1) by (intro monitor_step.request_changed) (simp_all add: m1_def)
  have "nm_subscriber m2 = ReqOnline" "bt_tester m2 = None"
    using os off by (auto simp: m2_def m1_def update_request_network_status_def subscriber_updated combine_status_def)
  moreover have "\<exists>k. network_tester cfg s n = Testing k" if "nc_infinite_checks cfg" "s \<noteq> ReqOnline" for s
    using that by (auto simp: network_tester_def tester_answer_def is_online_def split: nat.splits)
  moreover have "monitor_reached cfg m3" if "(monitor_step cfg)\<^sup>*\<^sup>* m1 m3" for m3
    using reached_on [OF that] monitor_reached.moved [OF assms(1) s1] by blast
  ultimately show ?thesis using s1 s2 settled_online by blast
qed

theorem tester_recovers_witness:
  "\<exists>m1 m2. monitor_step sample_config sample_testing m1 \<and> monitor_step sample_config m1 m2 \<and> nm_subscriber m2 = ReqOnline \<and> bt_tester m2 = None"
  using tester_recovers [OF sample_testing_facts(1,2)] by blast

text \<open>
  C38. When the operating system is back online and the test answers, observers see the answer, but the background tester is started only for
  \<open>ServerUnreachable\<close>: after the answer \<open>Offline\<close>, the status that was shown already, nobody tests the connection any more.
\<close>

theorem offline_answer_starts_no_tester:
  assumes "monitor_reached cfg m" and "bt_checking m"
  shows "monitor_step cfg m (os_check_answered cfg s m) \<and> nm_subscriber (os_check_answered cfg s m) = s \<and>
    (bt_tester (os_check_answered cfg s m) \<noteq> None \<longleftrightarrow> s = ServerUnreachable)"
proof -
  have inv: "bt_os m = OsOnline" "bt_subscriber m = ReqOffline" "bt_tester m = None"
    using reached_monitor_inv [OF assms(1)] assms(2) by (auto simp: monitor_inv_def status_inv_def)
  show ?thesis using monitor_step.os_checked [OF assms(2)] inv
    by (cases s) (auto simp: os_check_answered_def subscriber_updated combine_status_def)
qed

theorem offline_answer_starts_no_tester_witness:
  "monitor_reached sample_config (os_check_answered sample_config ReqOffline sample_checking) \<and>
   nm_subscriber (os_check_answered sample_config ReqOffline sample_checking) = ReqOffline \<and>
   bt_tester (os_check_answered sample_config ReqOffline sample_checking) = None"
proof -
  have "bt_checking sample_checking" by (simp add: sample_checking_def)
  note answer = offline_answer_starts_no_tester [OF sample_checking_reached this, of ReqOffline]
  then show ?thesis using monitor_reached.moved [OF sample_checking_reached] by blast
qed

text \<open>Nothing but a report from outside changes that.\<close>

lemma left_offline:
  assumes "monitor_step cfg m m'" and "wc_value (nm_request m) = bt_request m" "wc_value (nm_os m) = bt_os m" "\<not> bt_checking m" "bt_tester m = None"
    and "nm_immediate m = []" "im_requests m = []" "im_tester m = ImIdle"
  shows "bt_tester m' = None \<and> nm_subscriber m' = nm_subscriber m"
  using assms(1) by (cases rule: monitor_step.cases) (use assms in \<open>simp_all add: update_os_network_status_def update_request_network_status_def\<close>)

text \<open>
  C39. The tester can also be lost by a race: it returns after a successful test, a request reports the old status before the background task looks,
  and the task, which sees no change, keeps the handle of the tester that has returned and starts no new one.
\<close>

theorem returned_tester_not_replaced:
  assumes "monitor_reached cfg m" and "bt_tester m = Some (Testing n)"
  shows "\<exists>m'. (monitor_step cfg)\<^sup>*\<^sup>* m m' \<and> bt_tester m' = Some TesterReturned \<and> nm_subscriber m' = nm_subscriber m \<and> nm_subscriber m' \<noteq> ReqOnline \<and>
    \<not> wc_changed (nm_request m') \<and> wc_value (nm_request m') = bt_request m'"
proof -
  note os = tester_facts(1,5,4) [OF assms]
  define m1 where "m1 = m\<lparr>nm_request := update_watcher_value ReqOnline (nm_request m), bt_tester := Some (network_tester cfg ReqOnline n)\<rparr>"
  define m2 where "m2 = m1\<lparr>nm_request := update_watcher_value (bt_request m) (nm_request m1)\<rparr>"
  define m3 where "m3 = m2\<lparr>nm_request := (nm_request m2)\<lparr>wc_changed := False\<rparr>\<rparr>"
  have "monitor_step cfg m m1" unfolding m1_def using assms(2) by (rule monitor_step.tester_checks)
  moreover have "monitor_step cfg m1 m2" unfolding m2_def by (rule monitor_step.request_reported)
  moreover have "monitor_step cfg m2 (update_request_network_status cfg m3)" unfolding m3_def
    using os by (intro monitor_step.request_changed) (simp_all add: m2_def m1_def update_watcher_value_def)
  moreover have "update_request_network_status cfg m3 = m3" by (simp add: update_request_network_status_def m3_def m2_def m1_def)
  ultimately have "(monitor_step cfg)\<^sup>*\<^sup>* m m3" by (metis converse_rtranclp_into_rtranclp r_into_rtranclp)
  moreover have "bt_tester m3 = Some TesterReturned"
    by (simp add: m3_def m2_def m1_def network_tester_def tester_answer_def is_online_def)
  ultimately show ?thesis using os by (intro exI [of _ m3]) (simp add: m3_def m2_def m1_def)
qed

theorem returned_tester_not_replaced_witness:
  "\<exists>m'. (monitor_step sample_config)\<^sup>*\<^sup>* sample_testing m' \<and> bt_tester m' = Some TesterReturned \<and> nm_subscriber m' = ServerUnreachable"
  using returned_tester_not_replaced [OF sample_testing_facts(1,2)] sample_testing_facts(3) by force

text \<open>The immediate test to its end, from each of its places.\<close>

lemma immediate_result_taken:
  assumes "im_results m = s # rest"
  shows "\<exists>m'. (monitor_step cfg)\<^sup>*\<^sup>* m m' \<and> \<not> bt_running m'"
proof (cases "bt_checking m")
  case True
  let ?m = "os_check_answered cfg ReqOnline m"
  have "\<not> bt_checking ?m" "im_results ?m = s # rest" using assms by (simp_all add: os_check_answered_def)
  then have "monitor_step cfg ?m (?m\<lparr>im_results := rest, bt_running := False\<rparr>)" by (rule monitor_step.immediate_done)
  moreover have "monitor_step cfg m ?m" using True by (rule monitor_step.os_checked)
  ultimately have "(monitor_step cfg)\<^sup>*\<^sup>* m (?m\<lparr>im_results := rest, bt_running := False\<rparr>)" by (metis converse_rtranclp_into_rtranclp r_into_rtranclp)
  then show ?thesis by force
next
  case False
  from monitor_step.immediate_done [OF this assms, of cfg] have "(monitor_step cfg)\<^sup>*\<^sup>* m (m\<lparr>im_results := rest, bt_running := False\<rparr>)" by blast
  then show ?thesis by force
qed

lemma run_first: "monitor_step cfg m m1 \<Longrightarrow> \<exists>m'. (monitor_step cfg)\<^sup>*\<^sup>* m1 m' \<and> \<not> bt_running m' \<Longrightarrow> \<exists>m'. (monitor_step cfg)\<^sup>*\<^sup>* m m' \<and> \<not> bt_running m'"
  by (meson converse_rtranclp_into_rtranclp)

lemma immediate_tested:
  assumes "im_tester m = ImTesting caller n" and "im_results m = []"
  shows "\<exists>m'. (monitor_step cfg)\<^sup>*\<^sup>* m m' \<and> \<not> bt_running m'"
proof -
  let ?m = "m\<lparr>nm_request := update_watcher_value ReqOnline (nm_request m), nm_replies := nm_replies m @ [(caller, ReqOnline)], im_tester := ImReporting ReqOnline\<rparr>"
  have s1: "monitor_step cfg m ?m" by (rule monitor_step.immediate_answers [OF assms(1)]) (simp add: tester_answer_def is_online_def)
  have s2: "monitor_step cfg ?m (?m\<lparr>im_tester := ImIdle, im_results := [ReqOnline]\<rparr>)" by (rule monitor_step.immediate_reports) (simp_all add: assms(2))
  have "\<exists>m'. (monitor_step cfg)\<^sup>*\<^sup>* (?m\<lparr>im_tester := ImIdle, im_results := [ReqOnline]\<rparr>) m' \<and> \<not> bt_running m'"
    by (rule immediate_result_taken) simp
  then show ?thesis by (rule run_first [OF s1 run_first [OF s2]])
qed

text \<open>An immediate test that is asked for while the tester lives can come to its end.\<close>

lemma immediate_test_ends:
  assumes "monitor_inv m" and alive: "im_tester m \<noteq> ImDead"
  shows "\<exists>m'. (monitor_step cfg)\<^sup>*\<^sup>* m m' \<and> \<not> bt_running m'"
proof -
  have inv: "immediate_tests m = (if bt_running m then 1 else 0)" using assms by (simp add: monitor_inv_def immediate_inv_def)
  show ?thesis
  proof (cases "im_tester m")
    case ImIdle
    show ?thesis
    proof (cases "im_requests m")
      case Nil
      then show ?thesis using inv ImIdle immediate_result_taken [of m] by (cases "im_results m") (auto simp: immediate_tests_def split: if_splits)
    next
      case (Cons c cs)
      then have "im_results m = []" using inv ImIdle by (simp add: immediate_tests_def split: if_splits)
      then show ?thesis by (intro run_first [OF monitor_step.immediate_starts [OF ImIdle Cons]] immediate_tested) simp_all
    qed
  next
    case (ImTesting c n)
    then show ?thesis using inv by (intro immediate_tested) (simp_all add: immediate_tests_def split: if_splits)
  next
    case (ImReporting s)
    then have "im_results m = []" using inv by (simp add: immediate_tests_def split: if_splits)
    then show ?thesis by (intro run_first [OF monitor_step.immediate_reports [OF ImReporting]] immediate_result_taken) simp_all
  qed (simp add: alive)
qed

text \<open>After the death of the tester, nobody is left to clear the flag.\<close>

definition immediate_stuck :: "monitor \<Rightarrow> bool" where
  "immediate_stuck m = (im_tester m = ImDead \<and> im_requests m = [] \<and> im_results m = [] \<and> bt_running m)"

lemma stuck_step:
  assumes "monitor_step cfg m m'" and "immediate_stuck m"
  shows "immediate_stuck m'"
  using assms(1)
  by (cases rule: monitor_step.cases)
    (use assms(2) in \<open>simp_all add: immediate_stuck_def update_os_network_status_def os_check_answered_def update_request_network_status_def
       handle_immediate_request_def Let_def\<close>)

lemma stuck_forever:
  assumes "(monitor_step cfg)\<^sup>*\<^sup>* m m'" and "immediate_stuck m"
  shows "immediate_stuck m'"
  using assms by (induction rule: rtranclp_induct) (auto intro: stuck_step)

text \<open>A request that the task takes: it is answered at once, or handed over.\<close>

lemma request_taken:
  fixes cfg :: monitor_config
  assumes "\<not> bt_checking m" and "nm_immediate m = caller # rest"
  defines "m' \<equiv> handle_immediate_request cfg caller (m\<lparr>nm_immediate := rest\<rparr>)"
  shows "monitor_step cfg m m' \<and>
    (if bt_running m \<or> nm_clock m - bt_last_immediate m \<le> nc_retry_interval cfg \<or> im_tester m = ImDead
     then nm_replies m' = nm_replies m @ [(caller, bt_request m)] \<and> im_requests m' = im_requests m
     else nm_replies m' = nm_replies m \<and> im_requests m' = im_requests m @ [caller] \<and> bt_running m')"
  using monitor_step.immediate_taken [OF assms(1,2), of cfg] by (simp add: m'_def handle_immediate_request_def Let_def not_less)

text \<open>The system is online, an immediate test was asked for after the interval, and the tester has begun it.\<close>

definition sample_asked :: monitor where
  "sample_asked = (task_new sample_config OsOnline ReqOnline 9)\<lparr>nm_clock := 10, nm_immediate := [7]\<rparr>"

definition sample_tested :: monitor where
  "sample_tested = (task_new sample_config OsOnline ReqOnline 9)
     \<lparr>nm_clock := 10, bt_last_immediate := 10, bt_running := True, im_tester := ImTesting 7 3, nm_immediate := [8]\<rparr>"

definition sample_dead :: monitor where
  "sample_dead = sample_tested\<lparr>im_tester := ImDead\<rparr>"

lemma sample_asked_reached: "monitor_reached sample_config sample_asked"
proof -
  let ?m = "task_new sample_config OsOnline ReqOnline 9"
  have "monitor_reached sample_config (?m\<lparr>nm_clock := Suc (nm_clock ?m)\<rparr>)" (is "monitor_reached _ ?m1")
    by (rule monitor_reached.moved [OF monitor_reached.started monitor_step.time_passes])
  moreover have "nm_immediate ?m1 = []" by (simp add: task_new_def update_subscriber_status_def Let_def)
  ultimately have "monitor_reached sample_config (?m1\<lparr>nm_immediate := [7]\<rparr>)"
    by (blast intro: monitor_reached.moved monitor_step.immediate_requested)
  moreover have "?m1\<lparr>nm_immediate := [7]\<rparr> = sample_asked" by (simp add: sample_asked_def task_new_def update_subscriber_status_def combine_status_def Let_def)
  ultimately show ?thesis by simp
qed

lemma sample_tested_reached: "monitor_reached sample_config sample_tested"
proof -
  let ?m = "sample_asked\<lparr>nm_immediate := [], bt_last_immediate := 10, bt_running := True, im_requests := [7]\<rparr>"
  let ?m' = "?m\<lparr>im_requests := [], im_tester := ImTesting 7 (nc_immediate_retries sample_config)\<rparr>"
  have "monitor_step sample_config sample_asked (handle_immediate_request sample_config 7 (sample_asked\<lparr>nm_immediate := []\<rparr>))"
    by (rule monitor_step.immediate_taken) (simp_all add: sample_asked_def task_new_def)
  moreover have "handle_immediate_request sample_config 7 (sample_asked\<lparr>nm_immediate := []\<rparr>) = ?m"
    by (simp add: handle_immediate_request_def sample_asked_def task_new_def sample_config_def update_subscriber_status_def combine_status_def Let_def)
  moreover have "monitor_step sample_config ?m ?m'"
    by (rule monitor_step.immediate_starts) (simp_all add: sample_asked_def task_new_def)
  moreover have "monitor_step sample_config ?m' (?m'\<lparr>nm_immediate := [8]\<rparr>)"
    by (rule monitor_step.immediate_requested) simp
  ultimately have "monitor_reached sample_config (?m'\<lparr>nm_immediate := [8]\<rparr>)"
    using sample_asked_reached by (metis monitor_reached.moved)
  moreover have "?m'\<lparr>nm_immediate := [8]\<rparr> = sample_tested"
    by (simp add: sample_tested_def sample_asked_def sample_config_def task_new_def update_subscriber_status_def combine_status_def Let_def)
  ultimately show ?thesis by simp
qed

lemma sample_dead_reached: "monitor_reached sample_config sample_dead"
proof -
  have "sample_tested\<lparr>im_requests := [], im_tester := ImDead\<rparr> = sample_dead"
    by (simp add: sample_dead_def sample_tested_def task_new_def update_subscriber_status_def combine_status_def Let_def)
  then show ?thesis using monitor_reached.moved [OF sample_tested_reached monitor_step.immediate_dies] by simp
qed

text \<open>
  C40. Requests for an immediate test.  At most one test is waiting, under way or about to be reported.  While the tester lives, there is one
  exactly when the flag is set, and the flag can be cleared again.  A request that the task takes is answered with the cached status if the flag is set,
  the interval has not passed or the tester is dead; otherwise it is handed to the tester and sets the flag.  If the tester has died and its last report
  is taken, a flag that is set remains set whatever follows.
\<close>

theorem immediate_test_single:
  assumes "monitor_reached cfg m"
  shows "immediate_tests m \<le> 1 \<and>
    (im_tester m \<noteq> ImDead \<longrightarrow> (immediate_tests m = 1 \<longleftrightarrow> bt_running m) \<and> (\<exists>m'. (monitor_step cfg)\<^sup>*\<^sup>* m m' \<and> \<not> bt_running m')) \<and>
    (\<forall>caller rest. \<not> bt_checking m \<and> nm_immediate m = caller # rest \<longrightarrow>
       (let m' = handle_immediate_request cfg caller (m\<lparr>nm_immediate := rest\<rparr>) in monitor_step cfg m m' \<and>
        (if bt_running m \<or> nm_clock m - bt_last_immediate m \<le> nc_retry_interval cfg \<or> im_tester m = ImDead
         then nm_replies m' = nm_replies m @ [(caller, bt_request m)] \<and> im_requests m' = im_requests m
         else nm_replies m' = nm_replies m \<and> im_requests m' = im_requests m @ [caller] \<and> bt_running m'))) \<and>
    (im_tester m = ImDead \<and> im_results m = [] \<and> bt_running m \<longrightarrow> (\<forall>m'. (monitor_step cfg)\<^sup>*\<^sup>* m m' \<longrightarrow> bt_running m' \<and> im_requests m' = []))"
proof -
  have inv: "monitor_inv m" by (rule reached_monitor_inv [OF assms])
  have "immediate_tests m \<le> 1" using inv by (auto simp: monitor_inv_def immediate_inv_def split: if_splits)
  moreover have "immediate_tests m = 1 \<longleftrightarrow> bt_running m" if "im_tester m \<noteq> ImDead"
    using inv that by (simp add: monitor_inv_def immediate_inv_def)
  moreover have "bt_running m' \<and> im_requests m' = []"
    if "im_tester m = ImDead" "im_results m = []" "bt_running m" "(monitor_step cfg)\<^sup>*\<^sup>* m m'" for m'
    using stuck_forever [OF that(4)] inv that(1-3) by (simp add: immediate_stuck_def monitor_inv_def immediate_inv_def)
  ultimately show ?thesis using immediate_test_ends [OF inv] request_taken unfolding Let_def by blast
qed

theorem immediate_test_single_witness:
  "bt_running sample_tested \<and> im_tester sample_tested = ImTesting 7 3 \<and> immediate_tests sample_tested = 1 \<and>
   (\<exists>m'. (monitor_step sample_config)\<^sup>*\<^sup>* sample_tested m' \<and> \<not> bt_running m') \<and>
   nm_replies (handle_immediate_request sample_config 8 (sample_tested\<lparr>nm_immediate := []\<rparr>)) = [(8, ReqOnline)] \<and>
   im_requests (handle_immediate_request sample_config 7 (sample_asked\<lparr>nm_immediate := []\<rparr>)) = [7] \<and>
   (\<nexists>m'. (monitor_step sample_config)\<^sup>*\<^sup>* sample_dead m' \<and> \<not> bt_running m')"
proof -
  have tested: "bt_running sample_tested" "im_tester sample_tested = ImTesting 7 3" "\<not> bt_checking sample_tested" "nm_immediate sample_tested = [8]"
    "nm_replies sample_tested = []" "bt_request sample_tested = ReqOnline"
    by (simp_all add: sample_tested_def task_new_def update_subscriber_status_def combine_status_def Let_def)
  have asked: "\<not> bt_running sample_asked" "im_tester sample_asked = ImIdle" "\<not> bt_checking sample_asked" "nm_immediate sample_asked = [7]"
    "im_requests sample_asked = []" "nm_clock sample_asked - bt_last_immediate sample_asked = 6" "nc_retry_interval sample_config = 5"
    by (simp_all add: sample_asked_def sample_config_def task_new_def update_subscriber_status_def combine_status_def Let_def)
  have dead: "im_tester sample_dead = ImDead" "im_results sample_dead = []" "bt_running sample_dead"
    by (simp_all add: sample_dead_def sample_tested_def task_new_def update_subscriber_status_def combine_status_def Let_def)
  show ?thesis
    using immediate_test_single [OF sample_tested_reached] immediate_test_single [OF sample_asked_reached]
      immediate_test_single [OF sample_dead_reached] tested asked dead
    by (auto simp: Let_def)
qed

end
