(* ===== verification/Spec2Isabelle.thy ===== *)
theory Spec2Isabelle
  imports Action_Queue_Props Event_Loop_Props Lock_Props Ics_Props Recur_Props Draft_Props Network_Props
begin

text \<open>
  Verification of the core of the Proton Mail clients written in Rust.  Seven parts of the repository
  are modelled as executable HOL functions, from the sources under \<open>src/project\<close>, and proved correct.

  \<^bold>\<open>1. The action queue\<close> (\<open>mail/rust/shared/action-queue/src\<close>).  A client applies an action locally,
  stores it in a database and executes it on the server later.  The state is the database (\<open>queue_db\<close>:
  the tables of actions, dependencies, locks and dependency keys as lists of rows), the log of
  messages to observers, and the world of the handlers; operations are functions on that state that
  return a result or an error, inside \<open>write_tx\<close>, which commits or rolls back.

  \<^item> \<open>Prelude\<close>: collections of facts and lemmas on lists, options and results shared by all parts.
  \<^item> \<open>Topo_Sort\<close>: the topological sorter the code takes from a crate, as a locale
    \<open>topological_sort\<close> of its documented laws, interpreted on a sorter over lists.
  \<^item> \<open>Action_Types\<close>: \<open>action.rs\<close> (identifiers, priorities, metadata builder, the traits \<open>Action\<close>
    and \<open>Handler\<close> as records of functions) and the factory of \<open>queue.rs\<close>.
  \<^item> \<open>Action_Db\<close>: \<open>db.rs\<close>, one definition per query; execution guards with permits.
    \<open>Action_Db_Inv\<close>: the invariant of the tables (\<open>db_inv\<close>) and that every statement keeps it.
  \<^item> \<open>Action_Queue\<close>: \<open>queue.rs\<close>, \<open>rebase.rs\<close>, \<open>observers.rs\<close>: queueing, replacing, chaining,
    cancelling with dependees, executing one turn with retries, rebasing, automatic executors.
    \<open>Action_Queue_Graph\<close>, \<open>_Local\<close>, \<open>_Cancel\<close>, \<open>_Rebase\<close>, \<open>Action_Locks\<close>, \<open>Action_Queue_Exec\<close>: the
    lemmas on dependency graphs, local execution, cancellation, rebasing (with its reference run
    \<open>rebased\<close>), guards and turns; \<open>Action_Examples\<close>: a
    concrete queue for the witnesses; \<open>Action_Queue_Props\<close>: the properties.

  Shown: in every state reached by any interleaving of operations the tables are consistent and the
  dependencies acyclic; the cycle check is exact; queueing, replacing, cancelling, rebasing and the
  three ways to finish a turn have exactly their documented effect, on the tables and on the
  application's data; an executor gets the action that
  ranks first among those it may run; over every run in which no executor starts over, of all guards
  handed out for an action only the last one passes; cancelling and executing end.  Where the others queue meanwhile, turns take the interference as an argument.

  \<^bold>\<open>2. The event loop\<close> (\<open>core/rust/core-event-loop/src\<close>).  \<open>Event_Loop\<close> models \<open>lib.rs\<close>, \<open>store.rs\<close>,
  \<open>provider.rs\<close> and \<open>v6/\<close>: events, the store of positions, subscribers with retries, the poller and
  the manager of sources.  The server and the subscribers are parameters; a poll that may go on as
  long as the server announces more is a \<open>partial_function\<close> on options, and that it returns is
  proved from a bound on what the server announces.  \<open>Event_Loop_Proofs\<close> holds the lemmas,
  \<open>Event_Loop_Props\<close> the properties: execution order, effect and end of a poll, retries, unique names.

  \<^bold>\<open>3. Send preferences and lock icons\<close> (\<open>mail/rust/crypto/crypto-inbox/src\<close>, and the privacy lock of
  \<open>mail/rust/mail/mail-common/src/mailbox/decrypted_message.rs\<close>).  \<open>Send_Preferences\<close>: which package
  a recipient gets and which keys verify a message; \<open>Package_Builder\<close>: the packages of an outgoing
  message for its recipients (\<open>mail/rust/shared/mail-package-builder/src/packages.rs\<close> from
  \<open>build_top_package\<close> on, and the request types it fills); \<open>Lock_Icon\<close>: the lock shown for a draft, a sent
  and a received message; \<open>Lock_Props\<close>: a lock claims encryption or verification only when it is so:
  the lock of the composer is compared with the package that is built.  The operations of the
  PGP provider on keys and attachments are parameters.

  \<^bold>\<open>4. The iCalendar library\<close> (\<open>mail/rust/shared/ical/src\<close>).

  \<^item> \<open>Ics_Reader\<close>: \<open>io/reader.rs\<close>, \<open>io/read.rs\<close>, \<open>io/span.rs\<close>.  The reader is a record (source, position,
    messages, hints, context); a parser takes it to an optional value and a reader; \<open>rbind\<close> is the
    operator \<open>?\<close>, \<open>rcase\<close> an \<open>if let\<close>.  A loop is \<open>rloop\<close>, with fuel one more than the octets left:
    \<open>Ics_Progress\<close> shows that every loop of the library consumes input in each round, so that
    \<open>rloop\<close> satisfies the equation of the loop and any more fuel gives the same result.  A loop that runs
    out of fuel sets the field \<open>rd_stalled\<close>, which no other code resets and which the code does not have; it is
    shown to stay unset, so that no loop, nested or not, is cut off.
  \<^item> \<open>Ics_Writer\<close>: \<open>io/writer.rs\<close>, \<open>io/write.rs\<close>, and that its output is a folded text;
    \<open>Ics_Entry\<close>: entries, parameters, recovery.
  \<^item> \<open>Ics_Text\<close>, \<open>Ics_Values\<close>, \<open>Ics_Recur\<close>, \<open>Ics_Objects\<close>: the files of \<open>objects/\<close>: texts, parameter
    values, units, dates, durations, recurrence rules, properties.  \<open>Ics_Components\<close>: alarms, time
    zones, events, calendars, validation, reading of a source (\<open>valarm.rs\<close>, \<open>vtimezone.rs\<close>,
    \<open>vevent.rs\<close>, \<open>lib.rs\<close>).
  \<^item> Round trips: \<open>Ics_Stream\<close> abstracts a reader to the characters in front of it (\<open>parses\<close>),
    \<open>Ics_Lexemes\<close> and \<open>Ics_Entry_Runs\<close> give the runs of the elementary parsers, \<open>Ics_Codec\<close> the locales
    \<open>ics_codec\<close> and \<open>ics_prop_codec\<close> and \<open>Ics_Component_Codecs\<close> the locale \<open>ics_comp_codec\<close>: the contract
    between a printer and a parser.  They are interpreted for every value, property and component in
    \<open>Ics_Value_Codecs\<close>, \<open>Ics_Durations\<close>, \<open>Ics_Recur_Codec\<close>, \<open>Ics_Object_Codecs\<close>, \<open>Ics_Prop_Codecs\<close>,
    \<open>Ics_Line_Codecs\<close>, \<open>Ics_Component_Codecs\<close>, \<open>Ics_Calendar_Codecs\<close>.
  \<^item> Arbitrary sources: \<open>Ics_Typed\<close>, \<open>Ics_Typed_Values\<close>, \<open>Ics_Typed_Objects\<close>: triples of the reader,
    and the ranges of what it returns.
  \<^item> Validation: \<open>Ics_Validity\<close>: the conditions of a clean calendar, as documented; the code does not look at the time
    zones of exception dates.
  \<^item> \<open>Ics_Props\<close>: the properties.

  The library calls four functions of other crates and of Unicode: the width of a character from
  its first octet, whether a character is alphabetic, whether a date exists, and the check of an
  e-mail address.  They are the fields of \<open>ics_env\<close>; \<open>env_ok\<close> states what the round trips need of the
  first two.  A message is a template with its arguments.

  \<^bold>\<open>5. Occurrences of recurrence rules\<close> (\<open>mail/rust/shared/ical/src/objects/recur/iter.rs\<close>, \<open>iter/fact.rs\<close>,
  \<open>iter/picker.rs\<close>, \<open>Freq::first_of\<close>, \<open>VEvent::occurrences\<close>).

  \<^item> \<open>Recur_Picker\<close>: the picker of \<open>BYSETPOS\<close> as a record, and that a period gives what the
    reference \<open>pick\<close> gives; the capacity of its deque is a field, since the code reads it.
  \<^item> \<open>Recur_Facts\<close>: the constraints, functions from a date to the next date that may match, and
    how a rule composes them; the conversions of dates to the time library.  The operations of the library \<open>jiff\<close> are
    the fields of the record \<open>jiff\<close>, an argument of every definition.
  \<^item> \<open>Recur_Iter\<close>: the state of the iterator, \<open>new\<close>, \<open>set_since\<close>, \<open>next\<close>, \<open>occurrences\<close>.  A panic is
    \<open>None\<close>.  The loops of \<open>next\<close> are partial functions on options: they run forever if no date ever matches and
    the library gives no error.
  \<^item> \<open>Recur_Calendar\<close>, \<open>Recur_Utc\<close>, \<open>Recur_Days\<close>: the Gregorian calendar on day numbers, and what \<open>jiff\<close>
    documents of its operations in a zone without transitions (\<open>utc_laws\<close>), with a record
    that has this behaviour.
  \<^item> \<open>Recur_Contract\<close>: the contract of a constraint, as \<open>next_occur_of\<close> documents it (it stays exactly
    on a match, never goes back, never passes over a match), that it is kept by \<open>and\<close> and \<open>or\<close>, and that an
    iterator with such a constraint finds all matches and ends.  \<open>Recur_Distance\<close>, \<open>Recur_Dates\<close>: the
    constraints that have it.  \<open>Recur_Rules\<close>: the meaning of a rule (\<open>rule_matches\<close>) for frequencies from days
    to years without numbered weekdays, \<open>BYSECOND\<close>, \<open>BYMINUTE\<close>, \<open>BYSETPOS\<close> and \<open>BYWEEKNO\<close> (\<open>plain_rule\<close>).
  \<^item> \<open>Recur_Order\<close>: the order of the dates, for all rules and all time zones.  \<open>Recur_Props\<close>: the properties,
    and the constraints that break the contract.

  \<^bold>\<open>6. Recipients and replies of drafts\<close> (\<open>mail/rust/mail/mail-common/src/draft.rs\<close>, \<open>draft/recipients.rs\<close>,
  \<open>draft/compose.rs\<close>, \<open>draft/draft_v1.rs\<close>, \<open>mail/rust/shared/canonical-email\<close>).

  \<^item> \<open>Draft_Recipients\<close>: lists of single recipients and groups, their changes, reading from and writing to a
    message, the report on expiration.  The check of the form of an address, from another crate, is a field of \<open>draft_env\<close>.
  \<^item> \<open>Draft_Actor\<close>: the list that has addresses and locks checked in the background (its locks are those of part
    3), and the draft actor as far as it owns the recipients: one function per message, and \<open>background_step\<close>, a
    relation in which a task reports, a cancelled task reports or stops, and the actor takes the next report.
  \<^item> \<open>Draft_Actor_Inv\<close>: the invariant of the actor; the locale \<open>list_checker\<close> is what the actor relies on of a check
    of a list.  \<open>Draft_Steps\<close>: reachable states, the end of the checks, recipients whose check is lost.  The invariant holds for
    \<open>orderly\<close> messages; those it leaves out break it, and lemmas say how.
  \<^item> \<open>Draft_Email\<close>: the canonical form of addresses, with the lower case of Unicode as a parameter.
    \<open>Draft_Reply\<close>: a reply or forward (recipients, sender and alias, subject, signature, quote), with the HTML transformer
    and the format of dates as parameters.  \<open>Draft_Reply_Facts\<close>: its lemmas and the round trip of recipient lists.
  \<^item> \<open>Draft_Props\<close>: the properties, and three lemmas on where the code does not do what it documents.

  \<^bold>\<open>7. The network monitor\<close> (\<open>mail/rust/shared/network-monitor-service/src\<close>).  \<open>Network_Monitor\<close>: the state of the service,
  of its background task and of the two testers as one record; the functions of the task; \<open>monitor_step\<close>, one rule per report, per
  branch of \<open>select\<close>, per test and per death of a tester.  A wait within a branch is a state of its own, so that reports can come in between;
  to notice a change and to read its value are one step.
  \<open>Network_Props\<close>: the invariant, that no report is lost, two ways in which the monitor stays offline without testing, and that after the death
  of the immediate tester its flag is not cleared any more.

  \<^bold>\<open>Conventions.\<close>  Names are those of the sources, with a prefix where HOL has the name.  Integers that
  cannot overflow are \<open>nat\<close> or \<open>int\<close>; where a width matters it is a side condition that is proved
  (\<open>parse_u32\<close>) or assumed (\<open>recur_ok\<close>).  Errors are values of a sum or option.

  \<^bold>\<open>Not modelled.\<close>  The bindings (PHP, UniFFI, user interfaces); the encryption of bodies and
  attachments, the grouping of recipients into packages, and
  MIME processing, which are calls of other crates; the mailbox, the body, attachments and
  sending of drafts, search, accounts and the API clients, which are calls of a database, a DOM and a server; logging, task spawning, connection pools.  \<open>Display\<close> of messages is left out.
\<close>

end
